(* ===== verification/Micro_Prelude.thy ===== *)
theory Micro_Prelude
  imports Main "HOL-Library.Word"
begin

text \<open>
  Shared vocabulary of the development: the machine types of the i386 target
  (\<open>lib/stdint.h\<close>, \<open>lib/stddef.h\<close>), the outcome of code that may fail an
  \<open>ASSERT\<close> (\<open>kern/stdlib.h\<close>, \<open>_assert\<close> of \<open>kern/stdlib.c\<close> prints the message and
  never returns), and the facts on machine words, options and lists that the components
  share. The simplification collections \<open>outcome_simps\<close> and \<open>word_nat\<close> are used
  throughout.
\<close>

section \<open>Machine types\<close>

type_synonym u8 = "8 word"
type_synonym u16 = "16 word"
type_synonym u32 = "32 word"
type_synonym u64 = "64 word"

text \<open>A C string value without its terminating zero: the bytes before the first zero.\<close>

type_synonym cstring = "u8 list"

definition cstring_ok :: "cstring \<Rightarrow> bool" where
  "cstring_ok s \<longleftrightarrow> 0 \<notin> set s"

text \<open>The bytes of a string literal.\<close>

definition lit :: "string \<Rightarrow> cstring" where
  "lit s = map of_char s"

named_theorems outcome_simps
named_theorems word_nat

lemma cstring_ok_simps [simp]:
  "cstring_ok []"
  "cstring_ok (c # s) \<longleftrightarrow> c \<noteq> 0 \<and> cstring_ok s"
  "cstring_ok (s @ t) \<longleftrightarrow> cstring_ok s \<and> cstring_ok t"
  by (auto simp: cstring_ok_def)

section \<open>Failed assertions as values\<close>

text \<open>
  \<open>_assert\<close> hangs the machine when its condition is false: the caller never gets control
  back. The outcome is \<open>Inl\<close> with the failed check; a normal return is \<open>Inr\<close>. A null
  or wild pointer dereference, which the bare-metal code does not catch, is \<open>WildAccess\<close>.
\<close>

datatype fault =
    AssertFailed string
  | WildAccess

type_synonym 'a outcome = "fault + 'a"

definition bind_outcome :: "'a outcome \<Rightarrow> ('a \<Rightarrow> 'b outcome) \<Rightarrow> 'b outcome" where
  "bind_outcome r f = (case r of Inl e \<Rightarrow> Inl e | Inr x \<Rightarrow> f x)"

definition assert_that :: "bool \<Rightarrow> string \<Rightarrow> 'a outcome \<Rightarrow> 'a outcome" where
  "assert_that c msg k = (if c then k else Inl (AssertFailed msg))"

lemma bind_outcome_simps [simp, outcome_simps]:
  "bind_outcome (Inl e) f = Inl e"
  "bind_outcome (Inr x) f = f x"
  by (simp_all add: bind_outcome_def)

lemma bind_outcome_Inr [outcome_simps]:
  "bind_outcome r f = Inr y \<longleftrightarrow> (\<exists>x. r = Inr x \<and> f x = Inr y)"
  by (cases r) simp_all

lemma bind_outcome_cong [fundef_cong]:
  "r = r' \<Longrightarrow> (\<And>x. r' = Inr x \<Longrightarrow> f x = g x) \<Longrightarrow> bind_outcome r f = bind_outcome r' g"
  by (cases r') simp_all

lemma assert_that_Inr [outcome_simps]:
  "assert_that c msg k = Inr y \<longleftrightarrow> c \<and> k = Inr y"
  by (simp add: assert_that_def)

lemma assert_that_simps [simp]:
  "c \<Longrightarrow> assert_that c msg k = k"
  "\<not> c \<Longrightarrow> assert_that c msg k = Inl (AssertFailed msg)"
  by (simp_all add: assert_that_def)

section \<open>Machine words\<close>

lemma unat_lt_2p32 [simp]: "unat (x :: u32) < 4294967296"
  using unsigned_less [of x, where ?'a = nat] by simp

lemma uint_lt_2p32 [simp]: "uint (x :: u32) < 4294967296"
  using uint_bounded [of x] by simp

lemma unat_le_2p32 [simp]: "unat (x :: u32) \<le> 4294967296" "unat (x :: u32) \<le> 4294967295"
  using unat_lt_2p32 [of x] by linarith+

lemma unat_add_u32 [word_nat]:
  "unat (a :: u32) + unat b < 4294967296 \<Longrightarrow> unat (a + b) = unat a + unat b"
  by (simp add: unat_word_ariths)

lemma unat_sub_u32 [word_nat]:
  "(b :: u32) \<le> a \<Longrightarrow> unat (a - b) = unat a - unat b"
  by (simp add: unat_sub)

lemma unat_of_nat_u32 [word_nat]: "n < 4294967296 \<Longrightarrow> unat (of_nat n :: u32) = n"
  by (simp add: unat_of_nat)

lemma unat_word_of_nat_le: "unat (of_nat n :: u32) \<le> n"
  by (simp add: unat_of_nat)

lemma unat_dec_u32 [word_nat]: "0 < (n :: u32) \<Longrightarrow> unat (n - 1) = unat n - 1"
  by (simp add: unat_minus_one)

lemma unat_dec_less [simp]: "0 < (n :: u32) \<Longrightarrow> unat (n - 1) < unat n"
  by (simp add: unat_minus_one unat_gt_0)

lemma unat_inc_u32 [word_nat]: "(i :: u32) < n \<Longrightarrow> unat (i + 1) = Suc (unat i)"
  by unat_arith

lemma word_pos_induct [case_names zero dec]:
  assumes "P 0" "\<And>n :: u32. 0 < n \<Longrightarrow> P (n - 1) \<Longrightarrow> P n"
  shows "P n"
proof (induction "unat n" arbitrary: n rule: less_induct)
  case less
  show ?case
  proof (cases "n = 0")
    case False
    then have "0 < n" by (simp add: word_gt_0)
    then show ?thesis using less assms(2) by simp
  qed (simp add: assms(1))
qed

lemma sint_small_u32: "unat (w :: u32) < 2147483648 \<Longrightarrow> sint w = int (unat w)"
proof -
  assume w: "unat w < 2147483648"
  then have "int (unat w) < int 2147483648" by (simp only: of_nat_less_iff)
  then have "uint w < 2 ^ 31" by simp
  then have "signed_take_bit 31 (uint w) = uint w"
    using uint_ge_0 [of w] by (intro signed_take_bit_int_eq_self) linarith+
  then show ?thesis by (simp add: sint_uint)
qed

text \<open>Distances on the address circle.\<close>

lemma unat_diff_u32:
  "unat (a - b :: u32) = (if unat b \<le> unat a then unat a - unat b
     else unat a + 4294967296 - unat b)"
  by (simp add: unat_sub_if')

lemma dist_shift_u32:
  assumes "k < 4294967296"
  shows "unat (a - (p + of_nat k) :: u32) = (if k \<le> unat (a - p) then unat (a - p) - k
     else unat (a - p) + 4294967296 - k)"
proof -
  have *: "a - (p + of_nat k) = (a - p) - of_nat k" by (simp add: algebra_simps)
  show ?thesis unfolding * by (simp only: unat_diff_u32 unat_of_nat_u32 [OF assms])
qed

lemma word_eq_unat_u32: "(a :: u32) = b \<longleftrightarrow> unat a = unat b"
  by (simp add: word_unat_eq_iff)

section \<open>Options\<close>

lemma bind_Some_iff [simp]:
  "Option.bind r f = Some y \<longleftrightarrow> (\<exists>x. r = Some x \<and> f x = Some y)"
  by (cases r) simp_all

lemma option_ext: "(\<And>w. x = Some w \<longleftrightarrow> y = Some w) \<Longrightarrow> x = y"
  by (cases x; cases y) auto

section \<open>Loops whose steps may fail or not end\<close>

text \<open>
  A step that may also fail to end has an outcome option: \<open>None\<close> does not return. \<open>run_bind\<close>
  sequences such steps, \<open>run_each\<close> runs one for every element of a list; both may occur inside
  a \<open>partial_function (option)\<close>.
\<close>

definition run_bind :: "'a outcome option \<Rightarrow> ('a \<Rightarrow> 'b outcome option) \<Rightarrow> 'b outcome option" where
  "run_bind r f = Option.bind r (\<lambda>x. case x of Inl e \<Rightarrow> Some (Inl e) | Inr y \<Rightarrow> f y)"

lemma run_bind_simps [simp]:
  "run_bind (Some (Inr x)) f = f x"
  "run_bind (Some (Inl e)) f = Some (Inl e)"
  "run_bind None f = None"
  by (simp_all add: run_bind_def)

primrec run_each :: "('a \<Rightarrow> 's \<Rightarrow> 's outcome option) \<Rightarrow> 'a list \<Rightarrow> 's \<Rightarrow> 's outcome option" where
  "run_each f [] s = Some (Inr s)"
| "run_each f (x # xs) s = run_bind (f x s) (\<lambda>s. run_each f xs s)"

lemma run_each_append:
  "run_each f (xs @ ys) s = run_bind (run_each f xs s) (run_each f ys)"
proof (induction xs arbitrary: s)
  case (Cons x xs)
  show ?case
  proof (cases "f x s")
    case (Some r)
    with Cons show ?thesis by (cases r) simp_all
  qed simp
qed simp

lemma run_bind_mono [partial_function_mono]:
  assumes "mono_option B" "\<And>y. mono_option (\<lambda>f. C y f)"
  shows "mono_option (\<lambda>f. run_bind (B f) (\<lambda>y. C y f))"
  unfolding run_bind_def
proof (rule bind_mono [OF assms(1)])
  fix x
  show "mono_option (\<lambda>f. case x of Inl e \<Rightarrow> Some (Inl e) | Inr y \<Rightarrow> C y f)"
    by (cases x) (auto intro: assms(2) option.const_mono)
qed

lemma run_each_mono [partial_function_mono]:
  assumes "\<And>x s. mono_option (\<lambda>f. B x s f)"
  shows "mono_option (\<lambda>f. run_each (\<lambda>x s. B x s f) xs s)"
proof (induction xs arbitrary: s)
  case Nil
  then show ?case by (simp add: option.const_mono)
next
  case (Cons x xs)
  have "mono_option (\<lambda>f. run_bind (B x s f) (\<lambda>s. run_each (\<lambda>x s. B x s f) xs s))"
    by (rule run_bind_mono [OF assms Cons])
  then show ?case by simp
qed

text \<open>The same for steps that always end.\<close>

primrec each_outcome :: "('a \<Rightarrow> 's \<Rightarrow> 's outcome) \<Rightarrow> 'a list \<Rightarrow> 's \<Rightarrow> 's outcome" where
  "each_outcome f [] s = Inr s"
| "each_outcome f (x # xs) s = bind_outcome (f x s) (each_outcome f xs)"

lemma each_outcome_append: "each_outcome f (xs @ ys) s = bind_outcome (each_outcome f xs s) (each_outcome f ys)"
proof (induction xs arbitrary: s)
  case (Cons x xs)
  then show ?case by (cases "f x s") simp_all
qed simp

end
