(* ===== verification/Cmem.thy ===== *)
theory Cmem
  imports Micro_Prelude
begin

text \<open>
  The flat physical memory of the protected-mode kernel (byte-addressed, 32-bit
  addresses, wrapping at 4 GiB), little-endian 32-bit loads and stores, and the memory
  block operations of \<open>kern/stdlib.c\<close>: \<open>memset\<close>, \<open>memcpy\<close> (the hand-written
  MMX / \<open>rep movs\<close> version that \<open>FAST_MEMOPS\<close> selects), \<open>memcmp\<close> and \<open>memblit\<close>.
\<close>

unbundle bit_operations_syntax

type_synonym mem = "u32 \<Rightarrow> u8"

section \<open>Loads and stores\<close>

definition load32 :: "mem \<Rightarrow> u32 \<Rightarrow> u32" where
  "load32 m a = ucast (m a) OR push_bit 8 (ucast (m (a + 1)))
     OR push_bit 16 (ucast (m (a + 2))) OR push_bit 24 (ucast (m (a + 3)))"

definition store32 :: "mem \<Rightarrow> u32 \<Rightarrow> u32 \<Rightarrow> mem" where
  "store32 m a v = m(a := ucast v, a + 1 := ucast (drop_bit 8 v),
     a + 2 := ucast (drop_bit 16 v), a + 3 := ucast (drop_bit 24 v))"

definition store16 :: "mem \<Rightarrow> u32 \<Rightarrow> u16 \<Rightarrow> mem" where
  "store16 m p v = m(p := ucast v, p + 1 := ucast (drop_bit 8 v))"

definition load16 :: "mem \<Rightarrow> u32 \<Rightarrow> u16" where
  "load16 m p = ucast (m p) OR push_bit 8 (ucast (m (p + 1)))"

lemma load16_store16 [simp]: "load16 (store16 m a v) a = v"
  by (rule bit_word_eqI) (auto simp: load16_def store16_def bit_simps)

lemma load16_cong: "m a = m' a \<Longrightarrow> m (a + 1) = m' (a + 1) \<Longrightarrow> load16 m a = load16 m' a"
  by (simp add: load16_def)

text \<open>Two 32-bit cells do not overlap: their distance on the circle is at least 4 both ways.\<close>

definition sep4 :: "u32 \<Rightarrow> u32 \<Rightarrow> bool" where
  "sep4 a b \<longleftrightarrow> 4 \<le> b - a \<and> 4 \<le> a - b"

lemma load32_store32_same [simp]: "load32 (store32 m a v) a = v"
proof -
  have neq: "a + 1 \<noteq> a" "a + 2 \<noteq> a" "a + 3 \<noteq> a" "a + 2 \<noteq> a + 1" "a + 3 \<noteq> a + 1" "a + 3 \<noteq> a + 2"
    by simp_all
  show ?thesis
  proof (rule bit_word_eqI)
    fix n assume "n < LENGTH(32)"
    then consider "n < 8" | "8 \<le> n" "n < 16" | "16 \<le> n" "n < 24" | "24 \<le> n" "n < 32"
      by fastforce
    then show "bit (load32 (store32 m a v) a) n = bit v n"
      by cases (auto simp: load32_def store32_def bit_simps neq)
  qed
qed

lemma sep4_neq:
  assumes "sep4 a b" "i < 4" "j < 4"
  shows "a + i \<noteq> b + j"
proof
  assume "a + i = b + j"
  then have ab: "a - b = j - i" "b - a = i - j" by (simp_all add: algebra_simps)
  show False
  proof (cases "i \<le> j")
    case True
    then have "j - i < 4" using assms(3) by (simp add: word_less_nat_alt unat_sub word_le_nat_alt)
    with ab assms(1) show False by (metis sep4_def leD)
  next
    case False
    then have "i - j < 4" using assms(2) by (simp add: word_less_nat_alt unat_sub word_le_nat_alt)
    with ab assms(1) show False by (metis sep4_def leD)
  qed
qed

lemma load32_cong:
  assumes "\<And>i. i < 4 \<Longrightarrow> m (a + i) = m' (a + i)"
  shows "load32 m a = load32 m' a"
  using assms [of 0] assms [of 1] assms [of 2] assms [of 3] by (simp add: load32_def)

lemma store32_other:
  assumes "\<And>i. i < 4 \<Longrightarrow> b \<noteq> a + i"
  shows "store32 m a v b = m b"
  using assms [of 0] assms [of 1] assms [of 2] assms [of 3] by (simp add: store32_def)

lemma store32_outside: "4 \<le> b - a \<Longrightarrow> store32 m a v b = m b"
  by (rule store32_other) auto

lemma load32_store32_other [simp]:
  assumes "sep4 a b"
  shows "load32 (store32 m a v) b = load32 m b"
proof (rule load32_cong)
  fix i :: u32 assume i: "i < 4"
  show "store32 m a v (b + i) = m (b + i)"
    by (rule store32_other) (metis sep4_neq [OF assms] i)
qed

text \<open>A 32-bit store rewrites exactly the four bytes of its cell.\<close>

lemma sep4_sym: "sep4 a b \<Longrightarrow> sep4 b a"
  by (simp add: sep4_def)

section \<open>Blocks of memory\<close>

text \<open>\<open>in_block a p n\<close>: address \<open>a\<close> is one of the \<open>n\<close> bytes starting at \<open>p\<close>.\<close>

definition in_block :: "u32 \<Rightarrow> u32 \<Rightarrow> nat \<Rightarrow> bool" where
  "in_block a p n \<longleftrightarrow> unat (a - p) < n"

definition apart :: "u32 \<Rightarrow> u32 \<Rightarrow> nat \<Rightarrow> bool" where
  "apart d s n \<longleftrightarrow> (\<forall>a. \<not> (in_block a d n \<and> in_block a s n))"

lemma in_block_0 [simp]: "\<not> in_block a p 0"
  by (simp add: in_block_def)

lemma in_block_start [simp]: "in_block p p n \<longleftrightarrow> 0 < n"
  by (simp add: in_block_def)

lemma in_block_offset: "unat i < n \<Longrightarrow> in_block (p + i) p n"
  by (simp add: in_block_def)

lemma in_block_mono: "in_block a p n \<Longrightarrow> n \<le> k \<Longrightarrow> in_block a p k"
  by (simp add: in_block_def)

text \<open>A block of \<open>k + n\<close> bytes is a block of \<open>k\<close> bytes followed by one of \<open>n\<close>.\<close>

lemma in_block_split:
  "k + n \<le> 4294967296 \<Longrightarrow> in_block a p (k + n) \<longleftrightarrow> in_block a p k \<or> in_block a (p + of_nat k) n"
  by (cases "n = 0") (auto simp: in_block_def dist_shift_u32)

lemma in_block_split_excl:
  "k + n \<le> 4294967296 \<Longrightarrow> in_block a p k \<Longrightarrow> \<not> in_block a (p + of_nat k) n"
  by (cases "n = 0") (auto simp: in_block_def dist_shift_u32)

lemma in_block_1 [simp]: "in_block a p (Suc 0) \<longleftrightarrow> a = p"
  by (simp add: in_block_def unat_0_iff)

lemma in_block_Suc:
  "n < 4294967296 \<Longrightarrow> in_block a p (Suc n) \<longleftrightarrow> a = p \<or> in_block a (p + 1) n"
  using in_block_split [of "Suc 0" n a p] by simp

lemma apart_mono: "apart d s n \<Longrightarrow> k \<le> n \<Longrightarrow> apart d s k"
  unfolding apart_def by (meson in_block_mono)

lemma apart_shift:
  assumes "apart d s (k + n)" "k + n \<le> 4294967296"
  shows "apart (d + of_nat k) (s + of_nat k) n"
  using assms by (auto simp: apart_def in_block_split)

text \<open>Memory with the bytes \<open>xs\<close> written from \<open>p\<close> upwards, and what it then holds.\<close>

definition write_bytes :: "mem \<Rightarrow> u32 \<Rightarrow> u8 list \<Rightarrow> mem" where
  "write_bytes m p xs = (\<lambda>a. if in_block a p (length xs) then xs ! unat (a - p) else m a)"

lemma write_bytes_Nil [simp]: "write_bytes m p [] = m"
  by (simp add: write_bytes_def)

lemma write_bytes_Cons:
  assumes "Suc (length xs) \<le> 4294967296"
  shows "write_bytes (m(p := x)) (p + 1) xs = write_bytes m p (x # xs)"
proof
  fix a
  show "write_bytes (m(p := x)) (p + 1) xs a = write_bytes m p (x # xs) a"
  proof (cases "a = p")
    case True
    have "\<not> in_block p (p + 1) (length xs)"
      using in_block_split_excl [of "Suc 0" "length xs" p p] assms by simp
    with True show ?thesis by (simp add: write_bytes_def)
  next
    case False
    then have "unat (a - p) = Suc (unat (a - (p + 1)))"
      using dist_shift_u32 [of "Suc 0" a p] by (cases "unat (a - p)") (auto simp: unat_eq_zero)
    with False assms show ?thesis by (simp add: write_bytes_def in_block_Suc)
  qed
qed

lemma write_bytes_nth:
  "i < length xs \<Longrightarrow> length xs \<le> 4294967296 \<Longrightarrow> write_bytes m p xs (p + of_nat i) = xs ! i"
  by (simp add: write_bytes_def in_block_def unat_of_nat_u32)

lemma write_bytes_outside: "\<not> in_block a p (length xs) \<Longrightarrow> write_bytes m p xs a = m a"
  by (simp add: write_bytes_def)

section \<open>memset\<close>

text \<open>\<open>rep stosb\<close>: ECX bytes of AL from EDI upwards.\<close>

primrec rep_stosb :: "nat \<Rightarrow> mem \<Rightarrow> u32 \<Rightarrow> u8 \<Rightarrow> mem" where
  "rep_stosb 0 m edi al = m"
| "rep_stosb (Suc n) m edi al = rep_stosb n (m(edi := al)) (edi + 1) al"

definition memset :: "mem \<Rightarrow> u32 \<Rightarrow> u8 \<Rightarrow> u32 \<Rightarrow> mem" where
  "memset m memory v len = rep_stosb (unat len) m memory v"

lemma rep_stosb_eq:
  "n \<le> 4294967296 \<Longrightarrow> rep_stosb n m p v = (\<lambda>a. if in_block a p n then v else m a)"
proof (induction n arbitrary: m p)
  case (Suc n)
  then show ?case by (auto simp: in_block_Suc fun_eq_iff)
qed simp

lemma memset_eq: "memset m p v len = (\<lambda>a. if in_block a p (unat len) then v else m a)"
  by (simp add: memset_def rep_stosb_eq less_imp_le)

section \<open>memcpy\<close>

text \<open>The value of memory after \<open>n\<close> bytes have been copied with no overlap.\<close>

definition copied :: "mem \<Rightarrow> u32 \<Rightarrow> u32 \<Rightarrow> nat \<Rightarrow> mem" where
  "copied m d s n = (\<lambda>a. if in_block a d n then m (s + (a - d)) else m a)"

lemma copied_0 [simp]: "copied m d s 0 = m"
  by (simp add: copied_def)

lemma copied_compose:
  assumes "k + n \<le> 4294967296" "apart d s (k + n)"
  shows "copied (copied m d s k) (d + of_nat k) (s + of_nat k) n = copied m d s (k + n)"
proof
  fix a
  show "copied (copied m d s k) (d + of_nat k) (s + of_nat k) n a = copied m d s (k + n) a"
  proof (cases "in_block a (d + of_nat k) n")
    case True
    then have b: "in_block a d (k + n)" using assms(1) by (simp add: in_block_split)
    then have "in_block (s + (a - d)) s (k + n)" by (simp add: in_block_def)
    then have "\<not> in_block (s + (a - d)) d (k + n)" using assms(2) by (auto simp: apart_def)
    then have "\<not> in_block (s + (a - d)) d k" by (meson in_block_mono le_add1)
    then show ?thesis using True b by (simp add: copied_def algebra_simps)
  next
    case False
    then show ?thesis using assms(1) by (simp add: copied_def in_block_split)
  qed
qed

text \<open>
  The three loops of the assembly. ESI and EDI move up (the direction flag is clear); each
  step returns the memory and the advanced ESI and EDI. One round of \<open>loop1\<close> loads
  64 bytes into the eight MMX registers before it stores them.
\<close>

type_synonym copy_state = "mem \<times> u32 \<times> u32"

fun movq_round :: "copy_state \<Rightarrow> copy_state" where
  "movq_round (m, esi, edi) =
     ((\<lambda>a. if a - edi < 64 then m (esi + (a - edi)) else m a), esi + 64, edi + 64)"

fun movsl :: "copy_state \<Rightarrow> copy_state" where
  "movsl (m, esi, edi) = (store32 m edi (load32 m esi), esi + 4, edi + 4)"

fun movsb :: "copy_state \<Rightarrow> copy_state" where
  "movsb (m, esi, edi) = (m(edi := m esi), esi + 1, edi + 1)"

definition memcpy :: "mem \<Rightarrow> u32 \<Rightarrow> u32 \<Rightarrow> u32 \<Rightarrow> mem" where
  "memcpy m dst src len =
     (let ((m, src, dst), len) =
        (if 128 < len
         then (let c = len AND NOT 0x3f
               in ((fst ((movq_round ^^ unat (drop_bit 6 len)) (m, src, dst)), src + c, dst + c), len - c))
         else ((m, src, dst), len))
      in fst ((movsb ^^ unat (len AND 3)) ((movsl ^^ unat (len div 4)) (m, src, dst))))"

text \<open>The portable loop of the \<open>#else\<close> branch: one byte at a time.\<close>

function memcpy_portable :: "mem \<Rightarrow> u32 \<Rightarrow> u32 \<Rightarrow> u32 \<Rightarrow> mem" where
  "memcpy_portable m cdst csrc len =
     (if 0 < len then memcpy_portable (m(cdst := m csrc)) (cdst + 1) (csrc + 1) (len - 1) else m)"
  by pat_completeness auto
termination
  by (relation "measure (\<lambda>(m, d, s, len). unat len)") auto

declare memcpy_portable.simps [simp del]


lemma memcpy_portable_eq:
  "apart d s (unat len) \<Longrightarrow> memcpy_portable m d s len = copied m d s (unat len)"
proof (induction m d s len rule: memcpy_portable.induct)
  case (1 m d s len)
  show ?case
  proof (cases "0 < len")
    case True
    then have n: "unat len = Suc 0 + unat (len - 1)"
      by (simp add: unat_minus_one unat_gt_0)
    have one: "m(d := m s) = copied m d s (Suc 0)" by (auto simp: copied_def)
    have "apart (d + 1) (s + 1) (unat (len - 1))"
      using apart_shift [of d s "Suc 0" "unat (len - 1)"] 1(2) unat_lt_2p32 [of len]
      by (simp add: n)
    then have "memcpy_portable (m(d := m s)) (d + 1) (s + 1) (len - 1)
        = copied (m(d := m s)) (d + 1) (s + 1) (unat (len - 1))"
      by (rule 1(1) [OF True])
    then have "memcpy_portable m d s len = copied (m(d := m s)) (d + 1) (s + 1) (unat (len - 1))"
      by (subst memcpy_portable.simps) (simp only: True if_True)
    also have "\<dots> = copied m d s (Suc 0 + unat (len - 1))"
      using copied_compose [of "Suc 0" "unat (len - 1)" d s m] 1(2)
        unat_lt_2p32 [of len] by (simp add: one n)
    finally show ?thesis by (simp add: n)
  next
    case False
    then show ?thesis by (subst memcpy_portable.simps) (simp add: word_gt_0)
  qed
qed

text \<open>One instruction of each kind copies one block; iterating it copies consecutive blocks.\<close>

definition copies :: "nat \<Rightarrow> (copy_state \<Rightarrow> copy_state) \<Rightarrow> bool" where
  "copies w f \<longleftrightarrow> (\<forall>m s d. apart d s w \<longrightarrow> f (m, s, d) = (copied m d s w, s + of_nat w, d + of_nat w))"

lemma copies_funpow:
  assumes f: "copies w f"
  shows "n * w \<le> 4294967296 \<Longrightarrow> apart d s (n * w) \<Longrightarrow>
    (f ^^ n) (m, s, d) = (copied m d s (n * w), s + of_nat (n * w), d + of_nat (n * w))"
proof (induction n)
  case (Suc n)
  have a: "apart d s (n * w)" and le: "n * w + w \<le> 4294967296"
    using Suc.prems by (auto intro: apart_mono simp: add.commute)
  have "apart (d + of_nat (n * w)) (s + of_nat (n * w)) w"
    using apart_shift [of d s "n * w" w] Suc.prems le by (simp add: add.commute)
  then show ?case
    using Suc.IH a le f copied_compose [of "n * w" w d s m] Suc.prems
    by (simp add: copies_def algebra_simps)
qed simp

lemma load32_bytes:
  "ucast (load32 m s) = m s"
  "ucast (drop_bit 8 (load32 m s)) = m (s + 1)"
  "ucast (drop_bit 16 (load32 m s)) = m (s + 2)"
  "ucast (drop_bit 24 (load32 m s)) = m (s + 3)"
  subgoal by (rule bit_word_eqI) (auto simp: load32_def bit_simps)
  subgoal by (rule bit_word_eqI) (auto simp: load32_def bit_simps dest: bit_imp_le_length)
  subgoal by (rule bit_word_eqI) (auto simp: load32_def bit_simps dest: bit_imp_le_length)
  subgoal by (rule bit_word_eqI) (auto simp: load32_def bit_simps dest: bit_imp_le_length)
  done

lemma in_block_4: "in_block a d 4 \<longleftrightarrow> a = d \<or> a = d + 1 \<or> a = d + 2 \<or> a = d + 3"
proof -
  have "in_block a d (Suc (Suc (Suc (Suc 0)))) \<longleftrightarrow> a = d \<or> a = d + 1 \<or> a = d + 2 \<or> a = d + 3"
    by (simp add: in_block_Suc add.assoc)
  then show ?thesis by (simp add: numeral_eq_Suc)
qed

lemma store32_load32:
  "store32 m d (load32 m s) = (\<lambda>a. if in_block a d 4 then m (s + (a - d)) else m a)"
  by (auto simp: store32_def fun_eq_iff load32_bytes in_block_4)

lemma copies_movsb: "copies 1 movsb"
  by (auto simp: copies_def copied_def fun_eq_iff)

lemma copies_movsl: "copies 4 movsl"
  by (simp add: copies_def copied_def store32_load32)

lemma copies_movq: "copies 64 movq_round"
  by (simp add: copies_def copied_def in_block_def word_less_nat_alt)


lemma and_not_63: "len AND NOT 0x3f = (push_bit 6 (drop_bit 6 len) :: u32)"
proof -
  have m: "(0x3f :: u32) = mask 6" by (simp add: mask_eq_exp_minus_1)
  show ?thesis
    unfolding m by (rule bit_word_eqI) (auto simp: bit_simps)
qed

lemma memcpy_counts:
  fixes len :: u32
  shows "unat (drop_bit 6 len) = unat len div 64"
    and "len AND NOT 0x3f = of_nat (unat len div 64 * 64)"
    and "unat (len - (len AND NOT 0x3f)) = unat len mod 64"
    and "unat (len div 4) = unat len div 4"
    and "unat (len AND 3) = unat len mod 4"
proof -
  show d: "unat (drop_bit 6 len) = unat len div 64"
    by (simp add: unat_drop_bit_eq drop_bit_eq_div unat_div)
  have "len AND NOT 0x3f = drop_bit 6 len * 64"
    unfolding and_not_63 by (simp add: push_bit_eq_mult)
  also have "\<dots> = of_nat (unat (drop_bit 6 len) * 64)"
    by (simp only: of_nat_mult of_nat_unat ucast_id of_nat_numeral)
  finally show c: "len AND NOT 0x3f = of_nat (unat len div 64 * 64)"
    by (simp only: d)
  have "unat (of_nat (unat len div 64 * 64) :: u32) = unat len div 64 * 64"
    using unat_lt_2p32 [of len] by (intro unat_of_nat_u32) linarith
  then show "unat (len - (len AND NOT 0x3f)) = unat len mod 64"
    unfolding c by (subst unat_sub) (auto simp: word_le_nat_alt minus_div_mult_eq_mod)
  show "unat (len div 4) = unat len div 4" by (simp add: unat_div)
  have "len AND 3 = take_bit 2 len" by (simp add: take_bit_eq_mask mask_eq_exp_minus_1)
  then show "unat (len AND 3) = unat len mod 4"
    by (simp add: take_bit_eq_mod unat_mod)
qed

lemma rep_movs_eq:
  assumes "apart d s n" "n < 4294967296" "k = n div 4" "j = n mod 4"
  shows "fst ((movsb ^^ j) ((movsl ^^ k) (m, s, d))) = copied m d s n"
proof -
  have n: "n = k * 4 + j * 1" using assms by simp
  have "apart d s (k * 4)" by (rule apart_mono [OF assms(1)]) (simp add: n)
  moreover have "apart (d + of_nat (k * 4)) (s + of_nat (k * 4)) (j * 1)"
    using assms(1,2) unfolding n by (intro apart_shift) simp_all
  ultimately have "fst ((movsb ^^ j) ((movsl ^^ k) (m, s, d)))
      = copied (copied m d s (k * 4)) (d + of_nat (k * 4)) (s + of_nat (k * 4)) (j * 1)"
    using copies_funpow [OF copies_movsl, of k d s m] assms(2) n
      copies_funpow [OF copies_movsb, of j "d + of_nat (k * 4)" "s + of_nat (k * 4)"
        "copied m d s (k * 4)"] by simp
  then show ?thesis using copied_compose [of "k * 4" "j * 1" d s m] assms(1,2) n by simp
qed

theorem memcpy_eq:
  assumes "apart dst src (unat len)"
  shows "memcpy m dst src len = copied m dst src (unat len)"
proof (cases "128 < len")
  case False
  then show ?thesis
    using rep_movs_eq [OF assms] by (simp add: memcpy_def memcpy_counts)
next
  case True
  let ?q = "unat len div 64" and ?r = "unat len mod 64"
  have n: "unat len = ?q * 64 + ?r" by simp
  have "apart dst src (?q * 64)" by (rule apart_mono [OF assms]) simp
  moreover have "?q * 64 \<le> 4294967296" using n unat_lt_2p32 [of len] by linarith
  ultimately have big: "(movq_round ^^ ?q) (m, src, dst)
      = (copied m dst src (?q * 64), src + of_nat (?q * 64), dst + of_nat (?q * 64))"
    by (intro copies_funpow [OF copies_movq])
  define c where "c = len AND NOT 0x3f"
  have c: "c = of_nat (?q * 64)" and r: "unat (len - c) = ?r"
    unfolding c_def by (rule memcpy_counts)+
  have "memcpy m dst src len = fst ((movsb ^^ (?r mod 4)) ((movsl ^^ (?r div 4))
      (copied m dst src (?q * 64), src + c, dst + c)))"
    unfolding memcpy_def memcpy_counts(1) big c_def [symmetric]
    by (simp add: True Let_def memcpy_counts(4,5) r)
  moreover have "apart (dst + c) (src + c) ?r"
    unfolding c using assms n by (intro apart_shift) simp_all
  ultimately have "memcpy m dst src len
      = copied (copied m dst src (?q * 64)) (dst + of_nat (?q * 64)) (src + of_nat (?q * 64)) ?r"
    using rep_movs_eq [of "dst + c" "src + c" ?r] by (simp add: c)
  then show ?thesis
    using copied_compose [of "?q * 64" ?r dst src m] assms unat_lt_2p32 [of len] by simp
qed


section \<open>memcmp\<close>

text \<open>The loop index is a \<open>size_t\<close>; the result is the \<open>int\<close> difference of two \<open>uint8_t\<close>.\<close>

function memcmp_from :: "mem \<Rightarrow> u32 \<Rightarrow> u32 \<Rightarrow> u32 \<Rightarrow> u32 \<Rightarrow> int" where
  "memcmp_from m la lb len i =
     (if i < len
      then (if m (la + i) \<noteq> m (lb + i) then uint (m (la + i)) - uint (m (lb + i))
            else memcmp_from m la lb len (i + 1))
      else 0)"
  by pat_completeness auto
termination
  by (relation "measure (\<lambda>(m, la, lb, len, i). unat len - unat i)")
    (auto simp: word_less_nat_alt unat_inc_u32)

declare memcmp_from.simps [simp del]

definition memcmp :: "mem \<Rightarrow> u32 \<Rightarrow> u32 \<Rightarrow> u32 \<Rightarrow> int" where
  "memcmp m a b len = memcmp_from m a b len 0"

lemma memcmp_from_zero_iff:
  "memcmp_from m a b len i = 0 \<longleftrightarrow> (\<forall>j. i \<le> j \<and> j < len \<longrightarrow> m (a + j) = m (b + j))"
proof (induction m a b len i rule: memcmp_from.induct)
  case (1 m a b len i)
  have step: "i < len \<Longrightarrow> (i \<le> j \<and> j < len) \<longleftrightarrow> (j = i \<or> (i + 1 \<le> j \<and> j < len))" for j
    by unat_arith
  show ?case
  proof (cases "i < len")
    case True
    show ?thesis
    proof (cases "m (a + i) = m (b + i)")
      case eq: True
      with 1 True show ?thesis by (subst memcmp_from.simps) (auto simp: step)
    next
      case False
      then have "uint (m (a + i)) - uint (m (b + i)) \<noteq> 0" by (simp add: word_uint_eq_iff)
      with False True show ?thesis by (subst memcmp_from.simps) auto
    qed
  next
    case False
    then show ?thesis by (subst memcmp_from.simps) auto
  qed
qed

section \<open>memblit\<close>

text \<open>
  One \<open>memcpy\<close> per line of the rectangle. The counter \<open>i\<close> is an \<open>int\<close> compared with the
  \<open>size_t\<close> height, hence unsigned; \<open>lines\<close> is the number of rounds still to go.
\<close>

primrec memblit_lines :: "nat \<Rightarrow> mem \<Rightarrow> u32 \<Rightarrow> u32 \<Rightarrow> u32 \<Rightarrow> u32 \<Rightarrow> mem" where
  "memblit_lines 0 m pdst psrc stride len = m"
| "memblit_lines (Suc lines) m pdst psrc stride len =
     memblit_lines lines (memcpy m pdst psrc len) (pdst + stride) (psrc + stride) stride len"

definition memblit ::
  "mem \<Rightarrow> u32 \<Rightarrow> u32 \<Rightarrow> u32 \<Rightarrow> u32 \<Rightarrow> u32 \<Rightarrow> u32 \<Rightarrow> u32 \<Rightarrow> u32 \<Rightarrow> u32 \<Rightarrow> mem" where
  "memblit m dst src bufwidth bufheight elsize x y width height =
     (let stride = bufwidth * elsize;
          offset = (x * elsize) + (y * stride);
          len = width * elsize
      in memblit_lines (unat height) m (dst + offset) (src + offset) stride len)"

lemma memcmp_from_difference:
  "i \<le> j \<Longrightarrow> j < len \<Longrightarrow> (\<And>k. i \<le> k \<Longrightarrow> k < j \<Longrightarrow> m (a + k) = m (b + k)) \<Longrightarrow>
   m (a + j) \<noteq> m (b + j) \<Longrightarrow> memcmp_from m a b len i = uint (m (a + j)) - uint (m (b + j))"
proof (induction m a b len i rule: memcmp_from.induct)
  case (1 m a b len i)
  show ?case
  proof (cases "i = j")
    case True
    then show ?thesis using "1.prems" by (subst memcmp_from.simps) simp
  next
    case False
    then have ij: "i < j" using "1.prems"(1) by simp
    then have i: "i < len" "i + 1 \<le> j" "i \<le> i + 1"
      using "1.prems"(2) unat_inc_u32 [OF ij] by (simp_all add: word_le_nat_alt word_less_nat_alt)
    have eq: "m (a + i) = m (b + i)" using "1.prems"(3) [of i] ij by simp
    have "memcmp_from m a b len (i + 1) = uint (m (a + j)) - uint (m (b + j))"
    proof (rule "1.IH")
      show "m (a + k) = m (b + k)" if "i + 1 \<le> k" "k < j" for k
        using "1.prems"(3) [of k] order.trans [OF i(3) that(1)] that(2) by simp
    qed (use i eq "1.prems" in simp_all)
    with i eq show ?thesis by (subst memcmp_from.simps) simp
  qed
qed

lemma copied_source: "apart d s n \<Longrightarrow> i < n \<Longrightarrow> n \<le> 4294967296 \<Longrightarrow>
  copied m d s n (d + of_nat i) = m (s + of_nat i)"
  by (simp add: copied_def in_block_def unat_of_nat_u32)

lemma copied_outside: "\<not> in_block a d n \<Longrightarrow> copied m d s n a = m a"
  by (simp add: copied_def)

section \<open>The properties\<close>

text \<open>
  C1: The MMX/\<open>rep movs\<close> \<open>memcpy\<close> and the portable loop of the \<open>#else\<close> branch leave the same
  memory for every length and alignment when the blocks do not overlap: the destination holds
  the source bytes, and every byte outside the destination is unchanged.
\<close>

theorem memcpy_copies:
  assumes "apart dst src (unat len)"
  shows "memcpy m dst src len = memcpy_portable m dst src len
    \<and> (\<forall>i < unat len. memcpy m dst src len (dst + of_nat i) = m (src + of_nat i))
    \<and> (\<forall>a. \<not> in_block a dst (unat len) \<longrightarrow> memcpy m dst src len a = m a)"
  using assms by (simp add: memcpy_eq memcpy_portable_eq copied_source copied_outside less_imp_le)

lemma memcpy_copies_witness:
  "memcpy (\<lambda>a. ucast a) 0x1000 0x2003 3 0x1001 = (4 :: u8)"
proof -
  have "apart 0x1000 0x2003 (unat (3 :: u32))"
    by (auto simp: apart_def in_block_def unat_sub_if' split: if_splits)
  from conjunct1 [OF conjunct2 [OF memcpy_copies [OF this, of "\<lambda>a. ucast a"]], rule_format, of 1]
  show ?thesis by simp
qed

text \<open>
  \<open>memcmp\<close> is 0 exactly when the two blocks hold the same bytes; otherwise it is the
  difference, as unsigned bytes, at the first index where they differ, whatever the length
  (the loop always ends: the function is total).
\<close>

theorem memcmp_first_difference:
  "(memcmp m a b len = 0 \<longleftrightarrow> (\<forall>j. j < len \<longrightarrow> m (a + j) = m (b + j)))
   \<and> (\<forall>j. j < len \<and> (\<forall>k. k < j \<longrightarrow> m (a + k) = m (b + k)) \<and> m (a + j) \<noteq> m (b + j)
      \<longrightarrow> memcmp m a b len = uint (m (a + j)) - uint (m (b + j)))"
  using memcmp_from_difference [of 0 _ len m a b] by (auto simp: memcmp_def memcmp_from_zero_iff)

lemma memcmp_first_difference_witness: "memcmp (\<lambda>a. ucast a) 0x10 0x20 4 = - 16"
proof -
  have "(0 :: u32) < 4 \<and> (\<forall>k. k < (0 :: u32) \<longrightarrow> (ucast (0x10 + k) :: u8) = ucast (0x20 + k))
    \<and> (ucast (0x10 + 0 :: u32) :: u8) \<noteq> ucast (0x20 + 0 :: u32)" by simp
  with memcmp_first_difference [of "\<lambda>a. ucast a" "0x10" "0x20" 4]
  have "memcmp (\<lambda>a. ucast a) 0x10 0x20 4
    = uint (ucast (0x10 + 0 :: u32) :: u8) - uint (ucast (0x20 + 0 :: u32) :: u8)" by blast
  then show ?thesis by simp
qed

end
