(* ===== verification/Cstring.thy ===== *)
theory Cstring
  imports Cmem "HOL-Library.Sublist"
begin

text \<open>
  The string functions of \<open>kern/stdlib.c\<close> over the flat memory: \<open>strlen\<close>, \<open>strcat\<close>,
  \<open>strcmp\<close>, \<open>stricmp\<close>, \<open>tolower\<close>, \<open>strncmp\<close>, \<open>strcpy\<close>, \<open>strstr\<close>, \<open>strchr\<close> and
  \<open>strtok_r\<close>. A pointer is a 32-bit address, \<open>NULL\<close> is 0. The loops run until they meet a
  terminating zero, which memory need not hold, so each is a \<open>partial_function (option)\<close>
  whose value \<open>None\<close> is a loop that never ends. The relation \<open>cstr m p s\<close> says that the
  bytes at \<open>p\<close> spell \<open>s\<close> and then a zero; the lemmas give each function's result, and
  with it its termination, on such strings.
\<close>

section \<open>Strings in memory\<close>

fun cstr :: "mem \<Rightarrow> u32 \<Rightarrow> cstring \<Rightarrow> bool" where
  "cstr m p [] \<longleftrightarrow> m p = 0"
| "cstr m p (c # s) \<longleftrightarrow> c \<noteq> 0 \<and> m p = c \<and> cstr m (p + 1) s"

lemma cstr_ok: "cstr m p s \<Longrightarrow> cstring_ok s"
  by (induction s arbitrary: p) auto

lemma cstr_append:
  "cstr m p (s @ t) \<longleftrightarrow> cstring_ok s \<and> (\<forall>i < length s. m (p + of_nat i) = s ! i)
     \<and> cstr m (p + of_nat (length s)) t"
proof (induction s arbitrary: p)
  case (Cons c s)
  have "(\<forall>i < Suc (length s). m (p + of_nat i) = (c # s) ! i)
      \<longleftrightarrow> m p = c \<and> (\<forall>i < length s. m (p + 1 + of_nat i) = s ! i)"
    by (simp add: All_less_Suc2 add.assoc)
  with Cons [of "p + 1"] show ?case by (auto simp: add.assoc)
qed simp

lemma cstr_iff:
  "cstr m p s \<longleftrightarrow> cstring_ok s \<and> (\<forall>i < length s. m (p + of_nat i) = s ! i)
     \<and> m (p + of_nat (length s)) = 0"
  using cstr_append [of m p s "[]"] by simp

lemma cstr_drop: "cstr m p (s @ t) \<Longrightarrow> cstr m (p + of_nat (length s)) t"
  by (simp add: cstr_append)

lemma cstr_end: "cstr m p s \<Longrightarrow> m (p + of_nat (length s)) = 0"
  by (simp add: cstr_iff)

text \<open>The string value at an address is unique.\<close>

lemma cstr_unique: "cstr m p s \<Longrightarrow> cstr m p t \<Longrightarrow> s = t"
proof (induction s arbitrary: p t)
  case Nil then show ?case by (cases t) auto
next
  case (Cons c s) then show ?case by (cases t) auto
qed

text \<open>A string shorter than the address space occupies the block of its bytes and its zero.\<close>

lemma cstr_length: "cstr m p s \<Longrightarrow> length s < 4294967296"
proof (rule ccontr)
  assume s: "cstr m p s" and "\<not> length s < 4294967296"
  then have n: "length (take 4294967296 s) = 4294967296" by simp
  let ?t = "drop 4294967296 s"
  have "cstr m (p + of_nat (length (take 4294967296 s))) ?t"
    using s cstr_drop [of m p "take 4294967296 s" ?t] by (simp only: append_take_drop_id)
  moreover have "(of_nat 4294967296 :: u32) = 0"
    by (simp only: word_of_nat_eq_0_iff) simp
  ultimately have "cstr m p ?t" unfolding n by (simp only: add_0_right)
  then have "?t = s" using s cstr_unique by blast
  then have "length ?t = length s" by metis
  with n show False by (simp add: min_def split: if_splits)
qed

lemma cstr_cong:
  assumes "\<And>i. i \<le> length s \<Longrightarrow> m (p + of_nat i) = m' (p + of_nat i)"
  shows "cstr m p s = cstr m' p s"
  using assms by (auto simp: cstr_iff)

lemma cstr_upd:
  assumes "\<not> in_block a p (Suc (length s))"
  shows "cstr (m(a := v)) p s = cstr m p s"
proof (rule cstr_cong)
  fix i assume "i \<le> length s"
  then have "p + of_nat i \<noteq> a"
    using assms le_less_trans [OF unat_word_of_nat_le] by (fastforce simp: in_block_def)
  then show "(m(a := v)) (p + of_nat i) = m (p + of_nat i)" by simp
qed

section \<open>strlen\<close>

partial_function (option) strlen_from :: "mem \<Rightarrow> u32 \<Rightarrow> u32 \<Rightarrow> u32 option" where
  "strlen_from m str len = (if m str \<noteq> 0 then strlen_from m (str + 1) (len + 1) else Some len)"

definition strlen :: "mem \<Rightarrow> u32 \<Rightarrow> u32 option" where
  "strlen m str = strlen_from m str 0"

lemma strlen_from_cstr: "cstr m p s \<Longrightarrow> strlen_from m p n = Some (n + of_nat (length s))"
proof (induction s arbitrary: p n)
  case Nil then show ?case by (simp add: strlen_from.simps)
next
  case (Cons c s)
  then show ?case by (subst strlen_from.simps) (simp add: algebra_simps)
qed

lemma strlen_cstr: "cstr m p s \<Longrightarrow> strlen m p = Some (of_nat (length s))"
  by (simp add: strlen_def strlen_from_cstr)


section \<open>strcpy, strcat\<close>

text \<open>
  \<open>while ((*dst++ = *src++) != 0);\<close>: a byte is stored, both pointers advance, and the
  stored byte decides whether the loop goes on.
\<close>

partial_function (option) strcpy_loop :: "mem \<Rightarrow> u32 \<Rightarrow> u32 \<Rightarrow> mem option" where
  "strcpy_loop m dst src =
     (if m src \<noteq> 0 then strcpy_loop (m(dst := m src)) (dst + 1) (src + 1) else Some (m(dst := m src)))"

definition strcpy :: "mem \<Rightarrow> u32 \<Rightarrow> u32 \<Rightarrow> (mem \<times> u32) option" where
  "strcpy m dst src = map_option (\<lambda>m'. (m', dst)) (strcpy_loop m dst src)"

partial_function (option) strend :: "mem \<Rightarrow> u32 \<Rightarrow> u32 option" where
  "strend m dst = (if m dst \<noteq> 0 then strend m (dst + 1) else Some dst)"

definition strcat :: "mem \<Rightarrow> u32 \<Rightarrow> u32 \<Rightarrow> mem option" where
  "strcat m dst src = Option.bind (strend m dst) (\<lambda>d. strcpy_loop m d src)"

lemma strend_cstr: "cstr m p s \<Longrightarrow> strend m p = Some (p + of_nat (length s))"
proof (induction s arbitrary: p)
  case Nil then show ?case by (simp add: strend.simps)
next
  case (Cons c s)
  then show ?case by (subst strend.simps) (simp add: algebra_simps)
qed

lemma copied_1: "m(d := m s) = copied m d s (Suc 0)"
  by (auto simp: copied_def)

lemma strcpy_loop_cstr:
  "cstr m src s \<Longrightarrow> Suc (length s) \<le> 4294967296 \<Longrightarrow> apart dst src (Suc (length s)) \<Longrightarrow>
   strcpy_loop m dst src = Some (copied m dst src (Suc (length s)))"
proof (induction s arbitrary: m dst src)
  case Nil
  then show ?case using copied_1 [of m dst src] by (simp add: strcpy_loop.simps)
next
  case (Cons c s)
  let ?m = "m(dst := m src)"
  have ap: "apart (dst + 1) (src + 1) (Suc (length s))"
    using apart_shift [of dst src "Suc 0" "Suc (length s)"] Cons.prems by simp
  have "in_block dst dst (Suc (length (c # s)))" by simp
  then have "\<not> in_block dst src (Suc (length (c # s)))"
    using Cons.prems(3) by (auto simp: apart_def)
  then have "\<not> in_block dst (src + 1) (Suc (length s))"
    using in_block_split [of "Suc 0" "Suc (length s)" dst src] Cons.prems(2) by simp
  then have st: "cstr ?m (src + 1) s"
    using Cons.prems(1) by (subst cstr_upd) simp_all
  have "strcpy_loop ?m (dst + 1) (src + 1) = Some (copied ?m (dst + 1) (src + 1) (Suc (length s)))"
    by (rule Cons.IH [OF st _ ap]) (use Cons.prems(2) in simp)
  also have "copied ?m (dst + 1) (src + 1) (Suc (length s)) = copied m dst src (Suc (length (c # s)))"
    using copied_compose [of "Suc 0" "Suc (length s)" dst src m] Cons.prems(2,3) by (simp add: copied_1)
  finally have loop: "strcpy_loop ?m (dst + 1) (src + 1) = Some (copied m dst src (Suc (length (c # s))))" .
  have "m src \<noteq> 0" using Cons.prems(1) by auto
  then show ?case by (subst strcpy_loop.simps) (simp only: loop simp_thms if_True)
qed

lemma cstr_copied:
  assumes "cstr m src s" "apart dst src (Suc (length s))" "Suc (length s) \<le> 4294967296"
  shows "cstr (copied m dst src (Suc (length s))) dst s"
proof -
  have "copied m dst src (Suc (length s)) (dst + of_nat i) = m (src + of_nat i)" if "i \<le> length s" for i
    using that assms(3) by (simp add: copied_def in_block_def unat_of_nat_u32)
  then show ?thesis using assms(1) by (simp add: cstr_iff)
qed

section \<open>Comparison\<close>

text \<open>
  \<open>strcmp\<close> compares \<open>char\<close>s for equality and subtracts them as \<open>unsigned char\<close>s;
  \<open>stricmp\<close> compares after \<open>tolower\<close> but subtracts the characters as they stand.
\<close>

partial_function (option) strcmp :: "mem \<Rightarrow> u32 \<Rightarrow> u32 \<Rightarrow> int option" where
  "strcmp m a b =
     (if m a \<noteq> 0 \<and> m a = m b then strcmp m (a + 1) (b + 1) else Some (uint (m a) - uint (m b)))"

text \<open>\<open>strcmp\<close> with a literal as its first argument.\<close>

fun strcmp_lit :: "cstring \<Rightarrow> mem \<Rightarrow> u32 \<Rightarrow> int" where
  "strcmp_lit [] m p = - uint (m p)"
| "strcmp_lit (c # s) m p = (if c = m p then strcmp_lit s m (p + 1) else uint c - uint (m p))"

definition tolower :: "int \<Rightarrow> int" where
  "tolower ch = (if 65 \<le> ch \<and> ch \<le> 90 then ch XOR 0x20 else ch)"

partial_function (option) stricmp :: "mem \<Rightarrow> u32 \<Rightarrow> u32 \<Rightarrow> int option" where
  "stricmp m a b =
     (if m a \<noteq> 0 \<and> tolower (uint (m a)) = tolower (uint (m b)) then stricmp m (a + 1) (b + 1)
      else Some (uint (m a) - uint (m b)))"

partial_function (option) strncmp :: "mem \<Rightarrow> u32 \<Rightarrow> u32 \<Rightarrow> u32 \<Rightarrow> int option" where
  "strncmp m a b n =
     (if n \<noteq> 0 \<and> m a \<noteq> 0 \<and> m a = m b then strncmp m (a + 1) (b + 1) (n - 1)
      else if n = 0 then Some 0 else Some (uint (m a) - uint (m b)))"

text \<open>What \<open>strcmp\<close> computes, on string values: the first difference, the end counting as 0.\<close>

fun strdiff :: "cstring \<Rightarrow> cstring \<Rightarrow> int" where
  "strdiff [] [] = 0"
| "strdiff [] (d # t) = - uint d"
| "strdiff (c # s) [] = uint c"
| "strdiff (c # s) (d # t) = (if c = d then strdiff s t else uint c - uint d)"

lemma strcmp_cstr: "cstr m a s \<Longrightarrow> cstr m b t \<Longrightarrow> strcmp m a b = Some (strdiff s t)"
proof (induction s t arbitrary: a b rule: strdiff.induct)
  case (4 c s d t)
  then show ?case by (subst strcmp.simps) auto
qed (subst strcmp.simps, auto)+

lemma strcmp_lit_cstr: "cstr m p s \<Longrightarrow> cstring_ok c \<Longrightarrow> strcmp_lit c m p = strdiff c s"
  by (induction c s arbitrary: p rule: strdiff.induct) (auto simp: cstring_ok_def)

lemma strdiff_0_iff: "cstring_ok s \<Longrightarrow> cstring_ok t \<Longrightarrow> strdiff s t = 0 \<longleftrightarrow> s = t"
  by (induction s t rule: strdiff.induct) (auto simp: word_uint_eq_iff)

lemma strdiff_antisym: "strdiff t s = - strdiff s t"
  by (induction s t rule: strdiff.induct) auto

lemma strncmp_cstr:
  "cstr m a s \<Longrightarrow> cstr m b t \<Longrightarrow>
   strncmp m a b n = Some (strdiff (take (unat n) s) (take (unat n) t))"
proof (induction s t arbitrary: a b n rule: strdiff.induct)
  case (4 c s d t)
  show ?case
  proof (cases "n = 0")
    case False
    then have "0 < n" by (simp add: word_gt_0)
    then have n: "unat n = Suc (unat (n - 1))"
      by (simp add: unat_minus_one unat_gt_0)
    with False 4 show ?thesis by (subst strncmp.simps) (auto simp: n)
  qed (simp add: strncmp.simps)
next
  case (2 d t)
  then show ?case by (cases "unat n") (auto simp: strncmp.simps unat_eq_zero)
next
  case (3 c s)
  then show ?case by (cases "unat n") (auto simp: strncmp.simps unat_eq_zero)
qed (auto simp: strncmp.simps)

text \<open>The bytes from an address to the first zero.\<close>

definition mem_str :: "mem \<Rightarrow> u32 \<Rightarrow> cstring" where
  "mem_str m p = takeWhile (\<lambda>c. c \<noteq> 0) (map (\<lambda>i. m (p + of_nat i)) [0..<4294967296])"

lemma takeWhile_to_first:
  assumes "n < N" "\<And>i. i < n \<Longrightarrow> P (f i)" "\<not> P (f n)"
  shows "takeWhile P (map f [0..<N]) = map f [0..<n]"
proof -
  have "[0..<N] = [0..<n] @ n # [Suc n..<N]"
    using assms(1) upt_add_eq_append [of 0 n "N - n"] upt_conv_Cons [of n N] by simp
  then show ?thesis using assms(2,3) by (subst \<open>[0..<N] = _\<close>) (auto simp: takeWhile_tail takeWhile_append2)
qed

lemma mem_str_cstr:
  assumes s: "cstr m p s" shows "mem_str m p = s"
proof -
  have "mem_str m p = map (\<lambda>i. m (p + of_nat i)) [0..<length s]"
    unfolding mem_str_def
  proof (rule takeWhile_to_first)
    show "length s < 4294967296" by (rule cstr_length [OF s])
    show "m (p + of_nat i) \<noteq> 0" if "i < length s" for i
    proof -
      have "s ! i \<noteq> 0" using cstr_ok [OF s] nth_mem [OF that] unfolding cstring_ok_def by metis
      then show ?thesis using s that by (simp add: cstr_iff)
    qed
    show "\<not> m (p + of_nat (length s)) \<noteq> 0" using cstr_end [OF s] by simp
  qed
  also have "\<dots> = s" using s by (intro nth_equalityI) (auto simp: cstr_iff)
  finally show ?thesis .
qed

lemma cstr_block_cong:
  "(\<And>a. in_block a p (Suc (length s)) \<Longrightarrow> m' a = m a) \<Longrightarrow> cstr m' p s = cstr m p s"
proof (rule cstr_cong)
  fix i
  assume same: "\<And>a. in_block a p (Suc (length s)) \<Longrightarrow> m' a = m a" and i: "i \<le> length s"
  have "in_block (p + of_nat i) p (Suc (length s))"
    using i le_less_trans [OF unat_word_of_nat_le] by (intro in_block_offset) auto
  then show "m' (p + of_nat i) = m (p + of_nat i)" by (rule same)
qed

section \<open>Searching\<close>

partial_function (option) strstr_loop :: "mem \<Rightarrow> u32 \<Rightarrow> u32 \<Rightarrow> u32 \<Rightarrow> u32 option" where
  "strstr_loop m haystack needle nlen =
     (if m haystack \<noteq> 0
      then (if m haystack = m needle
            then Option.bind (strncmp m haystack needle nlen)
                   (\<lambda>r. if r = 0 then Some haystack else strstr_loop m (haystack + 1) needle nlen)
            else strstr_loop m (haystack + 1) needle nlen)
      else Some 0)"

definition strstr :: "mem \<Rightarrow> u32 \<Rightarrow> u32 \<Rightarrow> u32 option" where
  "strstr m haystack needle = Option.bind (strlen m needle) (strstr_loop m haystack needle)"

text \<open>The character is read as a (signed) \<open>char\<close> and compared with the \<open>int\<close> argument.\<close>

partial_function (option) strchr :: "mem \<Rightarrow> u32 \<Rightarrow> int \<Rightarrow> u32 option" where
  "strchr m s c = (if sint (m s) = c then Some s else if m s \<noteq> 0 then strchr m (s + 1) c else Some 0)"

text \<open>The position of the first occurrence, on string values.\<close>

fun find_sub :: "cstring \<Rightarrow> cstring \<Rightarrow> nat option" where
  "find_sub t [] = None"
| "find_sub t (c # s) = (if prefix t (c # s) then Some 0 else map_option Suc (find_sub t s))"

fun find_char :: "u8 \<Rightarrow> cstring \<Rightarrow> nat option" where
  "find_char d [] = None"
| "find_char d (c # s) = (if c = d then Some 0 else map_option Suc (find_char d s))"

lemma strncmp_prefix:
  assumes "cstr m a s" "cstr m b t" "length t < 4294967296"
  shows "\<exists>r. strncmp m a b (of_nat (length t)) = Some r \<and> (r = 0 \<longleftrightarrow> prefix t s)"
proof -
  have "strncmp m a b (of_nat (length t)) = Some (strdiff (take (length t) s) t)"
    using strncmp_cstr [OF assms(1,2)] assms(3) by (simp add: unat_of_nat_u32)
  moreover have "cstring_ok (take (length t) s)"
    using cstr_ok [OF assms(1)] by (auto simp: cstring_ok_def dest: in_set_takeD)
  ultimately show ?thesis
    using strdiff_0_iff [of "take (length t) s" t] cstr_ok [OF assms(2)]
    by (auto simp: prefix_def) (metis append_eq_conv_conj append_take_drop_id)
qed

lemma strstr_loop_cstr:
  assumes t: "cstr m needle t" "t \<noteq> []"
  shows "cstr m h s \<Longrightarrow> strstr_loop m h needle (of_nat (length t))
    = Some (case find_sub t s of None \<Rightarrow> 0 | Some k \<Rightarrow> h + of_nat k)"
proof (induction s arbitrary: h)
  case Nil
  then show ?case by (simp add: strstr_loop.simps)
next
  case (Cons c s)
  have IH: "strstr_loop m (h + 1) needle (of_nat (length t))
      = Some (case find_sub t s of None \<Rightarrow> 0 | Some k \<Rightarrow> h + 1 + of_nat k)"
    using Cons by simp
  obtain r where r: "strncmp m h needle (of_nat (length t)) = Some r" "r = 0 \<longleftrightarrow> prefix t (c # s)"
    using strncmp_prefix [OF Cons.prems t(1) cstr_length [OF t(1)]] by blast
  have "m h \<noteq> m needle \<Longrightarrow> \<not> prefix t (c # s)"
    using t Cons.prems by (cases t) auto
  then show ?case using Cons.prems r IH
    by (subst strstr_loop.simps) (auto split: option.splits simp: algebra_simps)
qed

lemma sint_u8_eq: "sint (c :: u8) = sint d \<longleftrightarrow> c = d"
  by (simp flip: word_eq_iff_signed)

lemma strchr_cstr:
  "cstr m p s \<Longrightarrow> d \<noteq> 0 \<Longrightarrow> strchr m p (sint d)
    = Some (case find_char d s of None \<Rightarrow> 0 | Some k \<Rightarrow> p + of_nat k)"
proof (induction s arbitrary: p)
  case Nil
  then show ?case using sint_u8_eq [of 0 d] by (simp add: strchr.simps)
next
  case (Cons c s)
  with sint_u8_eq [of c d] show ?case
    by (subst strchr.simps) (auto split: option.splits simp: algebra_simps)
qed

section \<open>strtok_r\<close>

text \<open>
  The first loop walks \<open>p\<close> over the delimiters and restarts it at each match; the second
  looks every character of the token up among the delimiters and overwrites the first one
  found with a zero. The result is the memory, the token (or \<open>NULL\<close>) and the new
  \<open>*saveptr\<close>.
\<close>

partial_function (option) strtok_skip :: "mem \<Rightarrow> u32 \<Rightarrow> u32 \<Rightarrow> u32 \<Rightarrow> u32 option" where
  "strtok_skip m str delim p =
     (if m p \<noteq> 0 \<and> m str \<noteq> 0
      then (if m str = m p then strtok_skip m (str + 1) delim delim
            else strtok_skip m str delim (p + 1))
      else Some str)"

partial_function (option) strtok_isdelim :: "mem \<Rightarrow> u8 \<Rightarrow> u32 \<Rightarrow> bool option" where
  "strtok_isdelim m c p =
     (if m p \<noteq> 0 then (if c = m p then Some True else strtok_isdelim m c (p + 1)) else Some False)"

partial_function (option) strtok_scan :: "mem \<Rightarrow> u32 \<Rightarrow> u32 \<Rightarrow> (mem \<times> u32) option" where
  "strtok_scan m delim sp =
     (if m sp \<noteq> 0
      then Option.bind (strtok_isdelim m (m sp) delim)
             (\<lambda>found. if found then Some (m(sp := 0), sp + 1) else strtok_scan m delim (sp + 1))
      else Some (m, sp))"

definition strtok_r :: "mem \<Rightarrow> u32 \<Rightarrow> u32 \<Rightarrow> u32 \<Rightarrow> (mem \<times> u32 \<times> u32) option" where
  "strtok_r m str delim saveptr =
     (if str = 0 \<and> saveptr = 0 then Some (m, 0, saveptr)
      else Option.bind (strtok_skip m (if str \<noteq> 0 then str else saveptr) delim delim)
        (\<lambda>str. if m str = 0 then Some (m, 0, str)
               else Option.bind (strtok_scan m delim str) (\<lambda>(m', sp). Some (m', str, sp))))"

lemma strtok_isdelim_cstr: "cstr m p ds \<Longrightarrow> strtok_isdelim m c p = Some (c \<in> set ds)"
proof (induction ds arbitrary: p)
  case Nil then show ?case by (simp add: strtok_isdelim.simps)
next
  case (Cons d ds) then show ?case by (subst strtok_isdelim.simps) auto
qed

text \<open>One round over the delimiters: a match skips one character, otherwise the loop stops.\<close>

lemma strtok_skip_round:
  "cstr m p es \<Longrightarrow> m str = c \<Longrightarrow> c \<noteq> 0 \<Longrightarrow>
   strtok_skip m str delim p = (if c \<in> set es then strtok_skip m (str + 1) delim delim else Some str)"
proof (induction es arbitrary: p)
  case Nil
  then show ?case by (subst strtok_skip.simps) simp
next
  case (Cons e es)
  then show ?case by (subst strtok_skip.simps) auto
qed

lemma strtok_skip_cstr:
  assumes ds: "cstr m delim ds"
  shows "cstr m str s \<Longrightarrow>
    strtok_skip m str delim delim = Some (str + of_nat (length (takeWhile (\<lambda>c. c \<in> set ds) s)))"
proof (induction s arbitrary: str)
  case Nil
  then show ?case by (subst strtok_skip.simps) simp
next
  case (Cons c s)
  then show ?case using strtok_skip_round [OF ds, of str c delim]
    by (auto simp: algebra_simps)
qed

lemma strtok_scan_cstr:
  assumes ds: "cstr m delim ds"
  shows "cstr m sp s \<Longrightarrow> strtok_scan m delim sp =
    (let n = length (takeWhile (\<lambda>c. c \<notin> set ds) s) in
     Some (if n < length s then (m(sp + of_nat n := 0), sp + of_nat n + 1) else (m, sp + of_nat n)))"
proof (induction s arbitrary: sp)
  case Nil
  then show ?case by (simp add: strtok_scan.simps)
next
  case (Cons c s)
  then show ?case
    by (subst strtok_scan.simps) (auto simp: strtok_isdelim_cstr [OF ds] Let_def algebra_simps)
qed

lemma cstr_prefix:
  assumes "cstr m p (s @ c # t)"
  shows "cstr (m(p + of_nat (length s) := 0)) p s"
    and "cstr (m(p + of_nat (length s) := 0)) (p + of_nat (length s) + 1) t"
proof -
  have len: "length s + Suc (length t) < 4294967296" using cstr_length [OF assms] by simp
  have at: "cstring_ok s" "\<forall>i < length s. m (p + of_nat i) = s ! i"
    "cstr m (p + of_nat (length s) + 1) t"
    using assms by (auto simp: cstr_append)
  have "p + of_nat i \<noteq> p + of_nat (length s)" if "i < length s" for i
    using that len unat_of_nat_u32 [of i] unat_of_nat_u32 [of "length s"] by auto
  with at show "cstr (m(p + of_nat (length s) := 0)) p s" by (simp add: cstr_iff)
  have "\<not> in_block (p + of_nat (length s)) (p + of_nat (length s) + 1) (Suc (length t))"
    using in_block_split_excl [of "Suc 0" "Suc (length t)" "p + of_nat (length s)" "p + of_nat (length s)"]
      len by simp
  with at(3) show "cstr (m(p + of_nat (length s) := 0)) (p + of_nat (length s) + 1) t"
    by (simp add: cstr_upd)
qed

text \<open>The first token of a string, and what is left for the next call.\<close>

definition token_of :: "cstring \<Rightarrow> cstring \<Rightarrow> cstring" where
  "token_of ds s = takeWhile (\<lambda>c. c \<notin> set ds) (dropWhile (\<lambda>c. c \<in> set ds) s)"

definition after_token :: "cstring \<Rightarrow> cstring \<Rightarrow> cstring" where
  "after_token ds s = drop (Suc (length (token_of ds s))) (dropWhile (\<lambda>c. c \<in> set ds) s)"

lemma takeWhile_split:
  "length (takeWhile P xs) < length xs \<Longrightarrow> \<exists>c. xs = takeWhile P xs @ c # drop (Suc (length (takeWhile P xs))) xs"
  by (metis append_take_drop_id id_take_nth_drop takeWhile_eq_take)

lemma cstr_dropWhile:
  "cstr m p s \<Longrightarrow> cstr m (p + of_nat (length (takeWhile P s))) (dropWhile P s)"
  by (metis cstr_drop takeWhile_dropWhile_id)

lemma token_of_empty: "token_of ds s = [] \<longleftrightarrow> dropWhile (\<lambda>c. c \<in> set ds) s = []"
  using hd_dropWhile [of "\<lambda>c. c \<in> set ds" s]
  by (cases "dropWhile (\<lambda>c. c \<in> set ds) s") (simp_all add: token_of_def del: dropWhile_eq_Nil_conv)

text \<open>One call, exactly: it starts at \<open>str\<close>, or at \<open>saveptr\<close> when \<open>str\<close> is \<open>NULL\<close>.\<close>

lemma strtok_r_eq:
  fixes ds s :: cstring
  defines "k \<equiv> length (takeWhile (\<lambda>c. c \<in> set ds) s)" and "n \<equiv> length (token_of ds s)"
  assumes s: "cstr m p s" and ds: "cstr m delim ds" and p: "p = (if str \<noteq> 0 then str else sv)" "p \<noteq> 0"
  shows "strtok_r m str delim sv = Some
    (if token_of ds s = [] then (m, 0, p + of_nat (length s))
     else if k + n < length s then (m(p + of_nat (k + n) := 0), p + of_nat k, p + of_nat (k + n) + 1)
     else (m, p + of_nat k, p + of_nat (length s)))"
proof -
  define s1 where "s1 = dropWhile (\<lambda>c. c \<in> set ds) s"
  have s1: "cstr m (p + of_nat k) s1" unfolding k_def s1_def by (rule cstr_dropWhile [OF s])
  have len: "k + length s1 = length s" unfolding k_def s1_def by (metis length_append takeWhile_dropWhile_id)
  have tok: "token_of ds s = takeWhile (\<lambda>c. c \<notin> set ds) s1" by (simp add: token_of_def s1_def)
  have skip: "strtok_skip m p delim delim = Some (p + of_nat k)" unfolding k_def by (rule strtok_skip_cstr [OF ds s])
  have head: "m (p + of_nat k) = 0 \<longleftrightarrow> token_of ds s = []"
    using s1 by (cases s1) (auto simp: token_of_empty s1_def [symmetric])
  have scan: "strtok_scan m delim (p + of_nat k) = Some (if n < length s1
      then (m(p + of_nat k + of_nat n := 0), p + of_nat k + of_nat n + 1)
      else (m, p + of_nat k + of_nat n))"
    using strtok_scan_cstr [OF ds s1] by (simp add: Let_def n_def tok)
  have n: "n \<le> length s1" using length_takeWhile_le [of "\<lambda>c. c \<notin> set ds" s1] by (simp add: n_def tok)
  have str: "strtok_r m str delim sv = Option.bind (strtok_skip m p delim delim)
        (\<lambda>str. if m str = 0 then Some (m, 0, str)
               else Option.bind (strtok_scan m delim str) (\<lambda>(m', sp). Some (m', str, sp)))"
    using p by (auto simp: strtok_r_def)
  show ?thesis
  proof (cases "token_of ds s = []")
    case True
    then have "s1 = []" using token_of_empty unfolding s1_def by blast
    then have "k = length s" using len by simp
    then show ?thesis using True head skip str by simp
  next
    case False
    have kn: "(of_nat k :: u32) + of_nat n = of_nat (length s)" if "\<not> n < length s1"
      using that n len by (metis add.commute le_antisym linorder_not_less of_nat_add)
    show ?thesis using False head len skip str scan kn by (auto simp: add.assoc)
  qed
qed

lemma token_split:
  assumes "length (takeWhile (\<lambda>c. c \<in> set ds) s) + length (token_of ds s) < length s"
  obtains d where "s = takeWhile (\<lambda>c. c \<in> set ds) s @ token_of ds s @ d # after_token ds s"
proof -
  have "length (token_of ds s) < length (dropWhile (\<lambda>c. c \<in> set ds) s)"
    using assms by (metis add_less_cancel_left length_append takeWhile_dropWhile_id)
  then show ?thesis
    using takeWhile_split [of "\<lambda>c. c \<notin> set ds" "dropWhile (\<lambda>c. c \<in> set ds) s"] that
    by (metis after_token_def takeWhile_dropWhile_id token_of_def)
qed

lemma token_last:
  assumes "\<not> length (takeWhile (\<lambda>c. c \<in> set ds) s) + length (token_of ds s) < length s"
  shows "s = takeWhile (\<lambda>c. c \<in> set ds) s @ token_of ds s" "after_token ds s = []"
proof -
  let ?s1 = "dropWhile (\<lambda>c. c \<in> set ds) s"
  have l: "length (takeWhile (\<lambda>c. c \<in> set ds) s) + length ?s1 = length s"
    by (metis length_append takeWhile_dropWhile_id)
  have "token_of ds s = take (length (token_of ds s)) ?s1"
    using takeWhile_eq_take [of "\<lambda>c. c \<notin> set ds" ?s1] by (simp add: token_of_def)
  then have "token_of ds s = ?s1" using assms l by (metis add_less_cancel_left linorder_not_less take_all)
  then show "s = takeWhile (\<lambda>c. c \<in> set ds) s @ token_of ds s" "after_token ds s = []"
    by (simp_all add: after_token_def)
qed

section \<open>The properties\<close>

text \<open>
  \<open>strcmp\<close> returns on any two terminated strings; its result is 0 exactly when they are
  equal and changes sign when the arguments are exchanged.
\<close>

theorem strcmp_orders:
  assumes "cstr m a s" "cstr m b t"
  shows "\<exists>r. strcmp m a b = Some r \<and> strcmp m b a = Some (- r) \<and> (r = 0 \<longleftrightarrow> s = t)"
  using assms strcmp_cstr strdiff_antisym strdiff_0_iff cstr_ok by metis

lemma strcmp_orders_witness:
  "\<exists>r. strcmp ((\<lambda>_. 0)(5 := 97)) 5 9 = Some r \<and> strcmp ((\<lambda>_. 0)(5 := 97)) 9 5 = Some (- r)
     \<and> (r = 0 \<longleftrightarrow> [97 :: u8] = [])"
  by (rule strcmp_orders) simp_all

text \<open>
  \<open>strstr\<close> with a non-empty needle returns the address of the first position at which the
  needle is a prefix of what remains of the haystack, and \<open>NULL\<close> when there is none.
\<close>

theorem strstr_first:
  assumes "cstr m h s" "cstr m p t" "t \<noteq> []"
  shows "strstr m h p = Some (case find_sub t s of None \<Rightarrow> 0 | Some k \<Rightarrow> h + of_nat k)
    \<and> (\<forall>k. find_sub t s = Some k \<longrightarrow> prefix t (drop k s) \<and> (\<forall>j < k. \<not> prefix t (drop j s)))
    \<and> (find_sub t s = None \<longrightarrow> \<not> sublist t s)"
proof (intro conjI)
  show "strstr m h p = Some (case find_sub t s of None \<Rightarrow> 0 | Some k \<Rightarrow> h + of_nat k)"
    using assms by (simp add: strstr_def strlen_cstr strstr_loop_cstr)
  have some: "find_sub t s = Some k \<Longrightarrow> prefix t (drop k s) \<and> (\<forall>j < k. \<not> prefix t (drop j s))" for s k
  proof (induction s arbitrary: k)
    case (Cons c s)
    then show ?case
      by (auto split: if_splits simp: less_Suc_eq_0_disj)
  qed simp
  then show "\<forall>k. find_sub t s = Some k \<longrightarrow> prefix t (drop k s) \<and> (\<forall>j < k. \<not> prefix t (drop j s))"
    by blast
  have "find_sub t s = None \<Longrightarrow> \<not> sublist t s" for s
    using assms(3) by (induction s) (auto simp: sublist_Cons_right split: if_splits)
  then show "find_sub t s = None \<longrightarrow> \<not> sublist t s" by blast
qed

lemma strstr_first_witness:
  "strstr ((\<lambda>_. 0)(5 := 97, 6 := 98, 9 := 98)) 5 9 = Some 6"
  using strstr_first [of "(\<lambda>_. 0)(5 := 97, 6 := 98, 9 := 98)" 5 "[97, 98]" 9 "[98]"] by simp

text \<open>
  C2: One call of \<open>strtok_r\<close> on a string returns its first maximal run of non-delimiter
  characters as a terminated string in place, leaves in \<open>*saveptr\<close> a pointer to the text that
  follows the delimiter it overwrote, and writes nothing outside the string; when only delimiters
  are left it returns \<open>NULL\<close> and changes nothing.
\<close>

theorem strtok_r_token:
  assumes s: "cstr m str s" and ds: "cstr m delim ds" and nn: "str \<noteq> 0"
  shows "(token_of ds s = [] \<longrightarrow> strtok_r m str delim sv = Some (m, 0, str + of_nat (length s)))
    \<and> (token_of ds s \<noteq> [] \<longrightarrow> (\<exists>m' tok sv'. strtok_r m str delim sv = Some (m', tok, sv')
        \<and> cstr m' tok (token_of ds s) \<and> cstr m' sv' (after_token ds s)
        \<and> (\<forall>a. \<not> in_block a str (length s) \<longrightarrow> m' a = m a)))"
proof (intro conjI impI)
  assume "token_of ds s = []"
  then show "strtok_r m str delim sv = Some (m, 0, str + of_nat (length s))"
    using strtok_r_eq [OF s ds] nn by simp
next
  assume tok: "token_of ds s \<noteq> []"
  let ?pre = "takeWhile (\<lambda>c. c \<in> set ds) s" and ?tok = "token_of ds s"
  have lt: "length s < 4294967296" by (rule cstr_length [OF s])
  show "\<exists>m' tok sv'. strtok_r m str delim sv = Some (m', tok, sv')
      \<and> cstr m' tok ?tok \<and> cstr m' sv' (after_token ds s)
      \<and> (\<forall>a. \<not> in_block a str (length s) \<longrightarrow> m' a = m a)"
  proof (cases "length ?pre + length ?tok < length s")
    case True
    then obtain d where d: "s = ?pre @ ?tok @ d # after_token ds s" by (rule token_split)
    have "cstr m (str + of_nat (length ?pre)) (?tok @ d # after_token ds s)"
      using s d cstr_drop by metis
    note cstr_prefix [OF this]
    moreover have "in_block (str + of_nat (length ?pre + length ?tok)) str (length s)"
      using True lt by (intro in_block_offset) (simp add: unat_of_nat_u32 del: of_nat_add)
    ultimately show ?thesis using strtok_r_eq [OF s ds, of str sv] nn tok True
      by (auto simp: add.assoc)
  next
    case False
    note l = token_last [OF False]
    have "cstr m (str + of_nat (length ?pre)) ?tok" using s l(1) cstr_drop by metis
    then show ?thesis using strtok_r_eq [OF s ds, of str sv] nn tok False l(2) cstr_end [OF s] by auto
  qed
qed

lemma strtok_r_token_witness:
  "\<exists>m' tok sv'. strtok_r ((\<lambda>_. 0)(5 := 97, 6 := 44, 7 := 98, 9 := 44)) 5 9 0 = Some (m', tok, sv')
     \<and> cstr m' tok [97] \<and> cstr m' sv' [98]
     \<and> (\<forall>a. \<not> in_block a 5 (length [97, 44, 98 :: u8]) \<longrightarrow> m' a = ((\<lambda>_. 0)(5 := 97, 6 := 44, 7 := 98, 9 := 44)) a)"
proof -
  let ?m = "(\<lambda>_. 0)(5 := 97, 6 := 44, 7 := 98, 9 := 44) :: mem"
  have "cstr ?m 5 [97, 44, 98]" "cstr ?m 9 [44]" "(5 :: u32) \<noteq> 0" by simp_all
  note strtok_r_token [OF this, of 0]
  moreover have "token_of [44] [97, 44, 98] = [97]" "after_token [44] [97, 44, 98] = [98]"
    by (simp_all add: token_of_def after_token_def)
  ultimately show ?thesis by simp
qed

end
