(* ===== verification/Radix.thy ===== *)
theory Radix
  imports Micro_Prelude
begin

text \<open>
  Positional notation, shared by the number conversions of \<open>kern/stdlib.c\<close> and
  \<open>kern/printf.c\<close>: the digits of a number, least significant first, the value of a digit
  list, and the characters that stand for digits.
\<close>

fun udigits :: "nat \<Rightarrow> nat \<Rightarrow> nat list" where
  "udigits b n = (if b < 2 \<or> n = 0 then [] else n mod b # udigits b (n div b))"

declare udigits.simps [simp del]

fun undigits :: "nat \<Rightarrow> nat list \<Rightarrow> nat" where
  "undigits b [] = 0"
| "undigits b (d # ds) = d + b * undigits b ds"

lemma udigits_0 [simp]: "udigits b 0 = []"
  by (simp add: udigits.simps)

lemma udigits_pos: "2 \<le> b \<Longrightarrow> 0 < n \<Longrightarrow> udigits b n = n mod b # udigits b (n div b)"
  by (simp add: udigits.simps [of b n])

lemma undigits_udigits: "2 \<le> b \<Longrightarrow> undigits b (udigits b n) = n"
proof (induction b n rule: udigits.induct)
  case (1 b n)
  then show ?case by (cases "n = 0") (simp_all add: udigits_pos)
qed

lemma udigits_less: "d \<in> set (udigits b n) \<Longrightarrow> d < b"
proof (induction b n rule: udigits.induct)
  case (1 b n)
  then show ?case by (subst (asm) udigits.simps) (auto split: if_splits)
qed

lemma udigits_nonempty: "2 \<le> b \<Longrightarrow> 0 < n \<Longrightarrow> udigits b n \<noteq> []"
  by (simp add: udigits_pos)

text \<open>A number below \<open>b ^ k\<close> has at most \<open>k\<close> digits.\<close>

lemma udigits_length: "n < b ^ k \<Longrightarrow> length (udigits b n) \<le> k"
proof (induction b n arbitrary: k rule: udigits.induct)
  case (1 b n)
  show ?case
  proof (cases "b < 2 \<or> n = 0")
    case False
    then obtain j where k: "k = Suc j" using "1.prems" by (cases k) auto
    have "n div b < b ^ j"
      using "1.prems" False by (simp add: k div_less_iff_less_mult mult.commute)
    with False "1.IH" show ?thesis by (simp add: k udigits_pos)
  qed (simp add: udigits.simps [of b n])
qed

text \<open>The last (most significant) digit is not 0: no leading zeros are produced.\<close>

lemma udigits_last: "2 \<le> b \<Longrightarrow> 0 < n \<Longrightarrow> last (udigits b n) \<noteq> 0"
proof (induction b n rule: udigits.induct)
  case (1 b n)
  show ?case
  proof (cases "n div b = 0")
    case True
    then have "n < b" using "1.prems" by (simp add: div_eq_0_iff)
    with True "1.prems" show ?thesis by (simp add: udigits_pos)
  next
    case False
    with 1 show ?thesis by (simp add: udigits_pos [of b n] udigits_nonempty)
  qed
qed

lemma undigits_append: "undigits b (xs @ ys) = undigits b xs + b ^ length xs * undigits b ys"
  by (induction xs) (simp_all add: algebra_simps)

section \<open>Digit characters\<close>

definition digit_char :: "nat \<Rightarrow> u8" where
  "digit_char d = of_nat (if 10 \<le> d then 55 + d else 48 + d)"

lemma unat_digit_char: "d < 36 \<Longrightarrow> unat (digit_char d) = (if 10 \<le> d then 55 + d else 48 + d)"
  unfolding digit_char_def by (subst unat_of_nat) auto

lemma digit_char_nonzero: "d < 36 \<Longrightarrow> digit_char d \<noteq> 0"
  by (metis unat_digit_char add_is_0 unat_0 zero_neq_numeral)

lemma sint_digit_char: "d < 36 \<Longrightarrow> sint (digit_char d) = int (if 10 \<le> d then 55 + d else 48 + d)"
proof -
  assume d: "d < 36"
  have "uint (digit_char d) = int (if 10 \<le> d then 55 + d else 48 + d)"
    using unat_digit_char [OF d] by (metis uint_nat)
  moreover have "sint (digit_char d) = uint (digit_char d)"
    using d calculation by (simp add: sint_uint signed_take_bit_int_eq_self split: if_splits)
  ultimately show ?thesis by simp
qed

end
