(* ===== verification/Cnum.thy ===== *)
theory Cnum
  imports Cstring Radix "HOL-Library.Signed_Division"
begin

text \<open>
  The character classes and number conversions of \<open>kern/stdlib.c\<close>: \<open>isspace\<close>,
  \<open>isblank\<close>, \<open>isdigit\<close>, \<open>isalpha\<close>, \<open>isupper\<close>, \<open>islower\<close>, \<open>swap\<close>, \<open>reverse\<close>, \<open>itoa\<close>,
  \<open>atoi\<close> and \<open>strtoul\<close>. A C \<open>int\<close> is an integer in two's complement range: \<open>int32\<close>
  wraps a result into that range, as the compiled code does.
\<close>

definition int32 :: "int \<Rightarrow> int" where
  "int32 x = signed_take_bit 31 x"

lemma int32_id: "- 2147483648 \<le> x \<Longrightarrow> x < 2147483648 \<Longrightarrow> int32 x = x"
  by (simp add: int32_def signed_take_bit_int_eq_self)

lemma int32_arith: "int32 x = (x + 2147483648) mod 4294967296 - 2147483648"
  by (simp add: int32_def signed_take_bit_int_eq_self_iff signed_take_bit_eq_take_bit_shift take_bit_eq_mod)

section \<open>Character classes\<close>

definition isspace :: "int \<Rightarrow> int" where
  "isspace c = (if c = 9 \<or> c = 10 \<or> c = 11 \<or> c = 12 \<or> c = 13 \<or> c = 32 then 1 else 0)"

definition isblank :: "int \<Rightarrow> int" where
  "isblank c = (if c = 9 \<or> c = 32 then 1 else 0)"

definition isdigit :: "int \<Rightarrow> int" where
  "isdigit c = (if 48 \<le> c \<and> c \<le> 57 then 1 else 0)"

definition isalpha :: "int \<Rightarrow> int" where
  "isalpha c = (if (97 \<le> c \<and> c \<le> 122) \<or> (65 \<le> c \<and> c \<le> 90) then 1 else 0)"

definition isupper :: "int \<Rightarrow> int" where
  "isupper c = (if 65 \<le> c \<and> c \<le> 90 then 1 else 0)"

definition islower :: "int \<Rightarrow> int" where
  "islower c = (if 97 < c \<and> c < 122 then 1 else 0)"

section \<open>swap, reverse\<close>

definition swap :: "mem \<Rightarrow> u32 \<Rightarrow> u32 \<Rightarrow> mem" where
  "swap m x y = (let temp = m x; m = m(x := m y) in m(y := temp))"

function reverse :: "mem \<Rightarrow> u32 \<Rightarrow> int \<Rightarrow> int \<Rightarrow> mem" where
  "reverse m buffer i j =
     (if i < j then reverse (swap m (buffer + of_int i) (buffer + of_int j)) buffer (i + 1) (j - 1)
      else m)"
  by pat_completeness auto
termination
  by (relation "measure (\<lambda>(m, b, i, j). nat (j - i))") auto

declare reverse.simps [simp del]

section \<open>itoa\<close>

text \<open>The digit loop: C division and remainder truncate towards zero (\<open>sdiv\<close>, \<open>smod\<close>).\<close>

partial_function (option) itoa_loop :: "mem \<Rightarrow> u32 \<Rightarrow> int \<Rightarrow> int \<Rightarrow> int \<Rightarrow> (mem \<times> int) option" where
  "itoa_loop m buffer base n i =
     (if n \<noteq> 0
      then (let rem = n smod base;
                c = (if 10 \<le> rem then 65 + (rem - 10) else 48 + rem)
            in itoa_loop (m(buffer + of_int i := of_int c)) buffer base (n sdiv base) (i + 1))
      else Some (m, i))"

definition itoa :: "mem \<Rightarrow> int \<Rightarrow> u32 \<Rightarrow> int \<Rightarrow> mem option" where
  "itoa m v buffer base =
     (if base < 2 \<or> 32 < base then Some m
      else Option.bind (itoa_loop m buffer base (if v < 0 then int32 (- v) else v) 0)
        (\<lambda>(m, i).
           let (m, i) = (if i = 0 then (m(buffer + of_int i := 48), i + 1) else (m, i));
               (m, i) = (if v < 0 \<and> base = 10 then (m(buffer + of_int i := 45), i + 1) else (m, i));
               m = m(buffer + of_int i := 0)
           in Some (reverse m buffer 0 (i - 1))))"

section \<open>atoi\<close>

partial_function (option) atoi_loop :: "mem \<Rightarrow> u32 \<Rightarrow> int \<Rightarrow> int option" where
  "atoi_loop m str n =
     (if m str \<noteq> 0 then atoi_loop m (str + 1) (int32 (10 * n - (sint (m str) - 48))) else Some n)"

definition atoi :: "mem \<Rightarrow> u32 \<Rightarrow> int option" where
  "atoi m str =
     (let neg_flag = (m str = 45);
          str = (if m str = 45 \<or> m str = 43 then str + 1 else str)
      in map_option (\<lambda>n. if neg_flag then n else int32 (- n)) (atoi_loop m str 0))"

section \<open>strtoul\<close>

text \<open>The value of a character as a digit, \<open>None\<close> for the \<open>break\<close> of the conversion loop.\<close>

definition strtoul_digit :: "int \<Rightarrow> int option" where
  "strtoul_digit c =
     (if isdigit c \<noteq> 0 then Some (c - 48)
      else if isalpha c \<noteq> 0 then Some (c - (if isupper c \<noteq> 0 then 65 - 10 else 97 - 10))
      else None)"

partial_function (option) strtoul_loop ::
  "mem \<Rightarrow> u32 \<Rightarrow> int \<Rightarrow> u32 \<Rightarrow> u32 \<Rightarrow> u32 \<Rightarrow> int \<Rightarrow> (u32 \<times> u32 \<times> int) option" where
  "strtoul_loop m p base cutoff cutlim acc any =
     (case strtoul_digit (sint (m p)) of
        None \<Rightarrow> Some (p, acc, any)
      | Some c \<Rightarrow>
          if base \<le> c then Some (p, acc, any)
          else if any < 0 \<or> cutoff < acc \<or> (acc = cutoff \<and> cutlim < of_int c)
          then strtoul_loop m (p + 1) base cutoff cutlim acc (- 1)
          else strtoul_loop m (p + 1) base cutoff cutlim (acc * of_int base + of_int c) 1)"

partial_function (option) skip_space :: "mem \<Rightarrow> u32 \<Rightarrow> u32 option" where
  "skip_space m p = (if isspace (sint (m p)) \<noteq> 0 then skip_space m (p + 1) else Some p)"

text \<open>The result is the value and what is stored through \<open>endptr\<close>.\<close>

definition strtoul :: "mem \<Rightarrow> u32 \<Rightarrow> int \<Rightarrow> (u32 \<times> u32) option" where
  "strtoul m nptr base =
     Option.bind (skip_space m nptr)
       (\<lambda>p.
          let neg = (m p = 45);
              p = (if m p = 45 \<or> m p = 43 then p + 1 else p);
              nxt = m (p + 1);
              hex = ((base = 0 \<or> base = 16) \<and> m p = 48 \<and> (nxt = 120 \<or> nxt = 88));
              p = (if hex then p + 2 else p);
              base = (if hex then 16 else base);
              base = (if base = 0 then (if m p = 48 then 8 else 10) else base);
              cutoff = 0xffffffff div of_int base;
              cutlim = 0xffffffff mod of_int base
          in Option.bind (strtoul_loop m p base cutoff cutlim 0 0)
               (\<lambda>(p, acc, any).
                  Some ((if any < 0 then 0xffffffff else if neg then - acc else acc),
                        (if any \<noteq> 0 then p - 1 else nptr))))"


section \<open>What reverse does\<close>

lemma swap_apply:
  "swap m x y a = (if a = x then m y else if a = y then m x else m a)"
  by (simp add: swap_def Let_def)

lemma of_int_offset_inject:
  assumes "0 \<le> i" "i < 4294967296" "0 \<le> j" "j < 4294967296"
  shows "(b :: u32) + of_int i = b + of_int j \<longleftrightarrow> i = j"
proof
  assume "b + of_int i = b + of_int j"
  then have "uint (of_int i :: u32) = uint (of_int j :: u32)" by simp
  then show "i = j" using assms by (simp add: uint_word_of_int)
qed simp

lemma reverse_apply:
  "0 \<le> i \<Longrightarrow> j < 4294967296 \<Longrightarrow> 0 \<le> k \<Longrightarrow> k < 4294967296 \<Longrightarrow>
   reverse m b i j (b + of_int k) = m (b + of_int (if i \<le> k \<and> k \<le> j then i + j - k else k))"
proof (induction m b i j arbitrary: k rule: reverse.induct)
  case (1 m b i j)
  show ?case
  proof (cases "i < j")
    case False
    then have "(if i \<le> k \<and> k \<le> j then i + j - k else k) = k" by simp
    with False show ?thesis by (subst reverse.simps) simp
  next
    case True
    let ?m = "swap m (b + of_int i) (b + of_int j)"
    let ?k = "if i + 1 \<le> k \<and> k \<le> j - 1 then i + j - k else k"
    have k: "0 \<le> ?k" "?k < 4294967296" using "1.prems" True by auto
    have "reverse m b i j (b + of_int k) = reverse ?m b (i + 1) (j - 1) (b + of_int k)"
      using True by (subst reverse.simps) simp
    also have "\<dots> = ?m (b + of_int ?k)"
      using "1.IH" [OF True, of k] "1.prems" by simp
    also have "\<dots> = m (b + of_int (if ?k = i then j else if ?k = j then i else ?k))"
      unfolding swap_apply
      using of_int_offset_inject [OF k, of i b] of_int_offset_inject [OF k, of j b] "1.prems" True
      by (auto split del: if_split)
    also have "(if ?k = i then j else if ?k = j then i else ?k)
        = (if i \<le> k \<and> k \<le> j then i + j - k else k)"
      using True by auto
    finally show ?thesis .
  qed
qed

text \<open>On the bytes \<open>xs\<close> at the buffer, \<open>reverse\<close> leaves \<open>rev xs\<close> there and nothing else changed.\<close>

lemma reverse_write_bytes:
  assumes "length xs \<le> 4294967296"
  shows "reverse (write_bytes m b xs) b 0 (int (length xs) - 1) = write_bytes m b (rev xs)"
proof
  fix a
  let ?n = "length xs" and ?u = "unat (a - b)"
  have a: "a = b + of_int (int ?u)" by simp
  have "reverse (write_bytes m b xs) b 0 (int ?n - 1) a
      = write_bytes m b xs (b + of_int (if int ?u \<le> int ?n - 1 then int ?n - 1 - int ?u else int ?u))"
    by (subst a, subst reverse_apply) (use assms in auto)
  also have "\<dots> = write_bytes m b (rev xs) a"
  proof (cases "?u < ?n")
    case True
    define k where "k = ?n - 1 - ?u"
    then have k: "k < ?n" "int ?n - 1 - int ?u = int k" and u: "rev xs ! ?u = xs ! k"
      using True by (auto simp: rev_nth)
    have "write_bytes m b xs (b + of_nat k) = xs ! k"
      using k(1) assms by (rule write_bytes_nth)
    moreover have "write_bytes m b (rev xs) a = rev xs ! ?u"
      using True by (simp add: write_bytes_def in_block_def)
    ultimately show ?thesis using True k(2) u by (simp only: of_int_of_nat_eq if_P)
  next
    case False
    then have "\<not> int ?u \<le> int ?n - 1" by linarith
    then show ?thesis using False by (simp only: if_not_P) (simp add: write_bytes_def in_block_def)
  qed
  finally show "reverse (write_bytes m b xs) b 0 (int ?n - 1) a = write_bytes m b (rev xs) a" .
qed


section \<open>What itoa writes\<close>

lemma smod_sdiv_of_nat:
  "int n smod int b = int (n mod b)" "int n sdiv int b = int (n div b)"
  by (simp only: smod_mod_positive of_nat_0_le_iff zmod_int)
    (cases "n = 0"; cases "b = 0"; simp add: signed_divide_int_def zdiv_int)

lemma itoa_loop_eq:
  assumes b: "2 \<le> b" "b \<le> 32"
  shows "i + length (udigits b n) \<le> 4294967296 \<Longrightarrow>
    itoa_loop m buf (int b) (int n) (int i)
      = Some (write_bytes m (buf + of_nat i) (map digit_char (udigits b n)), int (i + length (udigits b n)))"
proof (induction n arbitrary: m i rule: less_induct)
  case (less n)
  show ?case
  proof (cases "n = 0")
    case True
    then show ?thesis by (subst itoa_loop.simps) simp
  next
    case False
    then have d: "udigits b n = n mod b # udigits b (n div b)" using b by (simp add: udigits_pos)
    let ?c = "if 10 \<le> int (n mod b) then 65 + (int (n mod b) - 10) else 48 + int (n mod b)"
    have c: "of_int ?c = digit_char (n mod b)" by (simp add: digit_char_def)
    have s: "int i + 1 = int (Suc i)" by simp
    have len: "Suc (length (udigits b (n div b))) \<le> 4294967296" using less.prems d by simp
    have "itoa_loop m buf (int b) (int n) (int i)
        = itoa_loop (m(buf + of_nat i := digit_char (n mod b))) buf (int b) (int (n div b)) (int (Suc i))"
      using False by (subst itoa_loop.simps)
        (simp only: smod_sdiv_of_nat Let_def c of_nat_eq_0_iff if_True not_False_eq_True
          of_int_of_nat_eq s)
    also have "\<dots> = Some (write_bytes (m(buf + of_nat i := digit_char (n mod b))) (buf + of_nat (Suc i))
        (map digit_char (udigits b (n div b))), int (Suc i + length (udigits b (n div b))))"
      by (rule less.IH) (use less.prems d False b in auto)
    also have "buf + of_nat (Suc i) = buf + of_nat i + 1" by simp
    finally show ?thesis using write_bytes_Cons len d by (simp del: fun_upd_apply)
  qed
qed

text \<open>The decimal text of an integer, most significant digit first.\<close>

definition decimal :: "int \<Rightarrow> cstring" where
  "decimal v = (if v < 0 then [45] else []) @
     (if v = 0 then [48] else map digit_char (rev (udigits 10 (nat \<bar>v\<bar>))))"

text \<open>The text in another base: \<open>itoa\<close> prints the magnitude and no sign.\<close>

definition radix_text :: "nat \<Rightarrow> nat \<Rightarrow> cstring" where
  "radix_text b n = (if n = 0 then [48] else map digit_char (rev (udigits b n)))"

lemma length_udigits_32: "2 \<le> b \<Longrightarrow> n < 4294967296 \<Longrightarrow> length (udigits b n) \<le> 32"
proof (rule udigits_length)
  assume "2 \<le> b" "n < 4294967296"
  moreover have "(2::nat) ^ 32 \<le> b ^ 32" using \<open>2 \<le> b\<close> by (rule power_mono) simp
  ultimately show "n < b ^ 32" by simp
qed

lemma write_bytes_snoc:
  assumes "length xs < 4294967296"
  shows "(write_bytes m p xs)(p + of_nat (length xs) := x) = write_bytes m p (xs @ [x])"
proof
  fix a
  show "((write_bytes m p xs)(p + of_nat (length xs) := x)) a = write_bytes m p (xs @ [x]) a"
  proof (cases "a = p + of_nat (length xs)")
    case True
    then show ?thesis using write_bytes_nth [of "length xs" "xs @ [x]" m p] assms by simp
  next
    case False
    then have "unat (a - p) \<noteq> length xs" using assms by (metis add_diff_cancel_left' diff_add_cancel of_nat_unat ucast_id)
    then show ?thesis using False
      by (auto simp: write_bytes_def in_block_def nth_append)
  qed
qed


lemma write_bytes_upd_commute:
  "\<not> in_block a p (length xs) \<Longrightarrow> (write_bytes m p xs)(a := x) = write_bytes (m(a := x)) p xs"
  by (auto simp: write_bytes_def fun_eq_iff)

lemma not_in_block_end: "n < 4294967296 \<Longrightarrow> \<not> in_block (p + of_nat n) p n"
  by (simp add: in_block_def unat_of_nat_u32)

lemma reverse_terminated:
  assumes "length xs < 4294967296"
  shows "reverse (write_bytes m b (xs @ [0])) b 0 (int (length xs) - 1) = write_bytes m b (rev xs @ [0])"
proof -
  have "write_bytes m b (ys @ [0]) = write_bytes (m(b + of_nat (length xs) := 0)) b ys"
    if "length ys = length xs" for ys
    using that assms write_bytes_snoc [of ys m b 0] not_in_block_end [of "length ys" b]
      write_bytes_upd_commute [of "b + of_nat (length ys)" b ys m 0] by simp
  then show ?thesis using reverse_write_bytes [of xs] assms by simp
qed

lemma cstr_write_bytes:
  assumes "cstring_ok s" "length s < 4294967296"
  shows "cstr (write_bytes m p (s @ [0])) p s"
  unfolding cstr_iff
proof (intro conjI allI impI)
  fix i assume "i < length s"
  then show "write_bytes m p (s @ [0]) (p + of_nat i) = s ! i"
    using write_bytes_nth [of i "s @ [0]" m p] assms(2) by (simp add: nth_append)
next
  show "write_bytes m p (s @ [0]) (p + of_nat (length s)) = 0"
    using write_bytes_nth [of "length s" "s @ [0]" m p] assms(2) by simp
qed (rule assms)

text \<open>The common part: from the digit loop to the reversed, terminated text.\<close>

lemma itoa_text:
  assumes b: "2 \<le> b" "b \<le> 32" and v: "- 2147483648 < v" "v < 2147483648"
  shows "itoa m v buf (int b) = Some (write_bytes m buf
    ((if v < 0 \<and> b = 10 then [45] else []) @ radix_text b (nat \<bar>v\<bar>) @ [0]))"
proof -
  define n where "n = nat \<bar>v\<bar>"
  define ds where "ds = map digit_char (udigits b n)"
  have len: "length ds \<le> 32"
    unfolding ds_def length_map by (rule length_udigits_32) (use b v in \<open>auto simp: n_def\<close>)
  have n: "(if v < 0 then int32 (- v) else v) = int n" using v by (simp add: int32_id n_def)
  have loop: "itoa_loop m buf (int b) (int n) 0 = Some (write_bytes m buf ds, int (length ds))"
    using itoa_loop_eq [OF b, of 0 n m buf] len by (simp add: ds_def)
  have push: "((write_bytes m buf xs)(buf + of_int (int (length xs)) := x)) = write_bytes m buf (xs @ [x])"
    if "length xs < 4294967296" for xs x
    using write_bytes_snoc [OF that] by simp
  define es1 where "es1 = ds @ (if n = 0 then [48] else [])"
  define es where "es = es1 @ (if v < 0 \<and> b = 10 then [45] else [])"
  have "ds = [] \<longleftrightarrow> n = 0" using b by (auto simp: ds_def udigits.simps)
  then have s1: "(if int (length ds) = 0
        then ((write_bytes m buf ds)(buf + of_int (int (length ds)) := 48), int (length ds) + 1)
        else (write_bytes m buf ds, int (length ds)))
      = (write_bytes m buf es1, int (length es1))"
    using len push [of ds 48] by (auto simp: es1_def)
  have es1: "length es1 \<le> 33" using len by (simp add: es1_def)
  then have s2: "(if v < 0 \<and> int b = 10
        then ((write_bytes m buf es1)(buf + of_int (int (length es1)) := 45), int (length es1) + 1)
        else (write_bytes m buf es1, int (length es1)))
      = (write_bytes m buf es, int (length es))"
    using push [of es1 45] by (auto simp: es_def)
  have es: "length es < 4294967295" using es1 by (simp add: es_def)
  have base: "\<not> (int b < 2 \<or> 32 < int b)" using b by simp
  have "itoa m v buf (int b)
      = Some (reverse (write_bytes m buf (es @ [0])) buf 0 (int (length es) - 1))"
    using es by (simp only: itoa_def base n loop if_False bind.simps case_prod_conv Let_def s1 s2 push)
  also have "\<dots> = Some (write_bytes m buf (rev es @ [0]))"
    using reverse_terminated [of es] es by simp
  also have "rev es = (if v < 0 \<and> b = 10 then [45] else []) @ radix_text b (nat \<bar>v\<bar>)"
    by (auto simp: es_def es1_def radix_text_def ds_def n_def rev_map)
  finally show ?thesis by simp
qed


lemma decimal_radix: "decimal v = (if v < 0 then [45] else []) @ radix_text 10 (nat \<bar>v\<bar>)"
  by (auto simp: decimal_def radix_text_def)

lemma itoa_10:
  "- 2147483648 < v \<Longrightarrow> v < 2147483648 \<Longrightarrow> itoa m v buf 10 = Some (write_bytes m buf (decimal v @ [0]))"
  using itoa_text [of 10 v m buf] by (simp add: decimal_radix)

lemma radix_text_ok:
  assumes "2 \<le> b" "b \<le> 32"
  shows "cstring_ok (radix_text b n)"
proof -
  have "digit_char d \<noteq> 0" if "d \<in> set (udigits b n)" for d
    using udigits_less [OF that] assms by (intro digit_char_nonzero) simp
  then show ?thesis by (auto simp: radix_text_def cstring_ok_def)
qed

lemma decimal_ok: "cstring_ok (decimal v)"
  by (simp add: decimal_radix radix_text_ok)

section \<open>What atoi reads\<close>

lemma mod_shift_cong: "y mod M = z mod M \<Longrightarrow> (y + k) mod M - k = (z + k) mod M - (k :: int)"
  by (metis mod_add_left_eq)

lemma int32_cong: "y mod 4294967296 = z mod 4294967296 \<Longrightarrow> int32 y = int32 z"
  unfolding int32_arith by (rule mod_shift_cong)

lemma mod_shift: "((x + k) mod M - k) mod M = (x :: int) mod M"
  by (metis add_diff_cancel_right' mod_diff_left_eq)

lemma int32_mod: "int32 x mod 4294967296 = x mod 4294967296"
  unfolding int32_arith by (rule mod_shift)

lemma mod_affine: "y mod M = x mod M \<Longrightarrow> (k * y - d) mod M = (k * x - d) mod (M :: int)"
  by (metis mod_diff_left_eq mod_mult_right_eq)

lemma int32_wrap: "int32 (10 * int32 x - d) = int32 (10 * x - d)"
  by (rule int32_cong, rule mod_affine, rule int32_mod)

definition atoi_step :: "u8 \<Rightarrow> int \<Rightarrow> int" where
  "atoi_step c n = 10 * n - (sint c - 48)"

lemma atoi_loop_cstr: "cstr m p s \<Longrightarrow> atoi_loop m p (int32 n) = Some (int32 (fold atoi_step s n))"
proof (induction s arbitrary: p n)
  case Nil
  then show ?case by (simp add: atoi_loop.simps)
next
  case (Cons c s)
  then have "atoi_loop m (p + 1) (int32 (atoi_step c n)) = Some (int32 (fold atoi_step (c # s) n))"
    by simp
  moreover have "m p \<noteq> 0" "m p = c" using Cons.prems by auto
  ultimately show ?case
    by (subst atoi_loop.simps) (simp only: int32_wrap atoi_step_def simp_thms if_True)
qed

lemma sint_digit10: "d < 10 \<Longrightarrow> sint (digit_char d) = 48 + int d"
  using sint_digit_char [of d] by simp

lemma fold_atoi_digits:
  "(\<And>d. d \<in> set ds \<Longrightarrow> d < 10) \<Longrightarrow>
   fold atoi_step (map digit_char (rev ds)) 0 = - int (undigits 10 ds)"
  by (induction ds) (auto simp: atoi_step_def sint_digit10)

lemma fold_atoi_radix: "fold atoi_step (radix_text 10 n) 0 = - int n"
  using fold_atoi_digits [of "udigits 10 n"]
  by (auto simp: radix_text_def undigits_udigits udigits_less atoi_step_def)

lemma radix_text_hd: "c \<in> set (radix_text 10 n) \<Longrightarrow> c \<noteq> 45 \<and> c \<noteq> 43"
proof -
  assume "c \<in> set (radix_text 10 n)"
  then consider "c = 48" | d where "c = digit_char d" "d < 10"
    by (auto simp: radix_text_def split: if_splits dest: udigits_less)
  then show ?thesis
  proof cases
    case (2 d)
    then have "unat c = 48 + d" by (simp add: unat_digit_char)
    then show ?thesis by auto
  qed simp
qed

lemma radix_text_nonempty: "radix_text 10 n \<noteq> []"
  by (simp add: radix_text_def udigits_nonempty)

lemma atoi_decimal:
  assumes s: "cstr m p (decimal v)" and v: "- 2147483648 \<le> v" "v < 2147483648"
  shows "atoi m p = Some v"
proof (cases "v < 0")
  case True
  then have "m p = 45" "cstr m (p + 1) (radix_text 10 (nat \<bar>v\<bar>))"
    using s by (auto simp: decimal_radix)
  then show ?thesis
    using atoi_loop_cstr [of m "p + 1" _ 0] True v
    by (simp add: atoi_def fold_atoi_radix int32_id [of 0] int32_id)
next
  case False
  then have c: "cstr m p (radix_text 10 (nat v))" using s by (simp add: decimal_radix)
  then have "m p \<in> set (radix_text 10 (nat v))"
    using radix_text_nonempty [of "nat v"] by (cases "radix_text 10 (nat v)") auto
  then show ?thesis
    using atoi_loop_cstr [OF c, of 0] radix_text_hd [of "m p" "nat v"] False v
    by (simp add: atoi_def fold_atoi_radix int32_id [of 0] int32_id)
qed


section \<open>What strtoul reads\<close>

text \<open>The digits \<open>ds\<close>, most significant first, accumulated onto \<open>acc\<close>.\<close>

fun accumulate :: "nat \<Rightarrow> nat list \<Rightarrow> nat \<Rightarrow> nat" where
  "accumulate b [] acc = acc"
| "accumulate b (d # ds) acc = accumulate b ds (acc * b + d)"

lemma accumulate_ge: "0 < b \<Longrightarrow> acc \<le> accumulate b ds acc"
proof (induction ds arbitrary: acc)
  case (Cons d ds)
  have "acc \<le> acc * b + d" using Cons.prems by (cases b) auto
  also have "\<dots> \<le> accumulate b ds (acc * b + d)" using Cons by simp
  finally show ?case by simp
qed simp

lemma accumulate_undigits: "accumulate b ds acc = undigits b (rev ds) + b ^ length ds * acc"
  by (induction ds arbitrary: acc) (simp_all add: undigits_append algebra_simps)

text \<open>A byte that ends the conversion: it is no digit and no letter.\<close>

definition stops :: "u8 \<Rightarrow> bool" where
  "stops c \<longleftrightarrow> strtoul_digit (sint c) = None"

lemma stops_0 [simp]: "stops 0"
  by (simp add: stops_def strtoul_digit_def isdigit_def isalpha_def)

lemma strtoul_digit_char: "d < 36 \<Longrightarrow> strtoul_digit (sint (digit_char d)) = Some (int d)"
  by (simp add: sint_digit_char strtoul_digit_def isdigit_def isalpha_def isupper_def)

text \<open>
  The overflow test: with \<open>cutoff\<close> and \<open>cutlim\<close> the quotient and remainder of the largest
  \<open>unsigned long\<close> by the base, it holds exactly when the next value would not fit.
\<close>

lemma cutoff_test:
  assumes b: "2 \<le> b" "b \<le> 36" and d: "d < b" and acc: "acc < 4294967296"
  shows "((0xffffffff div of_nat b :: u32) < of_nat acc
      \<or> (of_nat acc = (0xffffffff div of_nat b :: u32) \<and> (0xffffffff mod of_nat b :: u32) < of_nat d))
    \<longleftrightarrow> 4294967296 \<le> acc * b + d"
proof -
  have u: "unat (0xffffffff div of_nat b :: u32) = 4294967295 div b"
    "unat (0xffffffff mod of_nat b :: u32) = 4294967295 mod b"
    "unat (of_nat acc :: u32) = acc" "unat (of_nat d :: u32) = d"
    using b d acc by (simp_all add: unat_div unat_mod unat_of_nat_u32)
  have "(4294967295 div b < acc \<or> (acc = 4294967295 div b \<and> 4294967295 mod b < d))
      \<longleftrightarrow> 4294967295 < acc * b + d"
  proof -
    define q where "q = 4294967295 div b"
    define r where "r = 4294967295 mod b"
    have qr: "4294967295 = q * b + r" "r < b" using b by (simp_all add: q_def r_def)
    consider "acc < q" | "acc = q" | "q < acc" by linarith
    then have "(q < acc \<or> (acc = q \<and> r < d)) \<longleftrightarrow> q * b + r < acc * b + d"
    proof cases
      case 1
      then have "Suc acc * b \<le> q * b" by (intro mult_le_mono1) simp
      with 1 d show ?thesis by simp
    next
      case 3
      then have "Suc q * b \<le> acc * b" by (intro mult_le_mono1) simp
      with 3 qr(2) show ?thesis by simp
    qed simp
    then show ?thesis unfolding q_def [symmetric] r_def [symmetric] by (subst qr(1))
  qed
  moreover have "4294967295 < acc * b + d \<longleftrightarrow> 4294967296 \<le> acc * b + d" by linarith
  ultimately show ?thesis
    unfolding word_less_nat_alt word_unat_eq_iff u by (simp only:)
qed


text \<open>The bytes at \<open>p\<close> are the digits \<open>ds\<close> (values), then a byte that ends the conversion.\<close>

fun digits_at :: "mem \<Rightarrow> u32 \<Rightarrow> nat list \<Rightarrow> bool" where
  "digits_at m p [] \<longleftrightarrow> stops (m p)"
| "digits_at m p (d # ds) \<longleftrightarrow> m p = digit_char d \<and> digits_at m (p + 1) ds"

abbreviation cutoff_of :: "nat \<Rightarrow> u32" where "cutoff_of b \<equiv> 0xffffffff div of_nat b"
abbreviation cutlim_of :: "nat \<Rightarrow> u32" where "cutlim_of b \<equiv> 0xffffffff mod of_nat b"

lemma strtoul_loop_stop:
  "stops (m p) \<Longrightarrow> strtoul_loop m p b co cl acc any = Some (p, acc, any)"
  by (subst strtoul_loop.simps) (simp add: stops_def)

lemma strtoul_loop_over:
  "digits_at m p ds \<Longrightarrow> \<forall>d \<in> set ds. d < b \<Longrightarrow> b \<le> 36 \<Longrightarrow>
   strtoul_loop m p (int b) co cl acc (- 1) = Some (p + of_nat (length ds), acc, - 1)"
proof (induction ds arbitrary: p)
  case Nil
  then show ?case by (simp add: strtoul_loop_stop)
next
  case (Cons d ds)
  then have "strtoul_loop m p (int b) co cl acc (- 1)
      = strtoul_loop m (p + 1) (int b) co cl acc (- 1)"
    by (subst strtoul_loop.simps) (simp add: strtoul_digit_char)
  with Cons show ?case by (simp add: add.assoc)
qed

lemma strtoul_loop_digits:
  assumes b: "2 \<le> b" "b \<le> 36"
  shows "digits_at m p ds \<Longrightarrow> \<forall>d \<in> set ds. d < b \<Longrightarrow> acc < 4294967296 \<Longrightarrow> 0 \<le> any \<Longrightarrow>
   \<exists>x. strtoul_loop m p (int b) (cutoff_of b) (cutlim_of b) (of_nat acc) any
      = Some (p + of_nat (length ds), x,
              if ds = [] then any else if accumulate b ds acc < 4294967296 then 1 else - 1)
    \<and> (accumulate b ds acc < 4294967296 \<longrightarrow> x = of_nat (accumulate b ds acc))"
proof (induction ds arbitrary: p acc any)
  case Nil
  then show ?case by (simp add: strtoul_loop_stop)
next
  case (Cons d ds)
  let ?acc = "acc * b + d"
  have d: "d < b" "strtoul_digit (sint (m p)) = Some (int d)"
    using Cons.prems b by (simp_all add: strtoul_digit_char)
  have at: "digits_at m (p + 1) ds" and small: "\<forall>d \<in> set ds. d < b" using Cons.prems by simp_all
  note test = cutoff_test [OF b d(1) Cons.prems(3)]
  have step: "strtoul_loop m p (int b) (cutoff_of b) (cutlim_of b) (of_nat acc) any =
      (if 4294967296 \<le> ?acc
       then strtoul_loop m (p + 1) (int b) (cutoff_of b) (cutlim_of b) (of_nat acc) (- 1)
       else strtoul_loop m (p + 1) (int b) (cutoff_of b) (cutlim_of b) (of_nat ?acc) 1)"
  proof -
    have nb: "\<not> int b \<le> int d" and na: "\<not> any < 0" using Cons.prems(4) d(1) by simp_all
    have v: "of_nat acc * of_int (int b) + of_int (int d) = (of_nat ?acc :: u32)" by simp
    show ?thesis
      by (subst strtoul_loop.simps, subst d(2))
        (simp only: option.case if_not_P [OF nb] na simp_thms v of_int_of_nat_eq test
          of_nat_add of_nat_mult)
  qed
  have q: "p + 1 + of_nat (length ds) = p + of_nat (length (d # ds))" by simp
  show ?case
  proof (cases "4294967296 \<le> ?acc")
    case True
    moreover have "?acc \<le> accumulate b ds ?acc" using b by (intro accumulate_ge) simp
    ultimately show ?thesis
      using strtoul_loop_over [OF at small b(2)] step
      by (simp only: if_True q accumulate.simps list.simps simp_thms if_False) (simp add: not_less)
  next
    case False
    then obtain x where x: "strtoul_loop m (p + 1) (int b) (cutoff_of b) (cutlim_of b) (of_nat ?acc) 1
        = Some (p + 1 + of_nat (length ds), x,
            if ds = [] then 1 else if accumulate b ds ?acc < 4294967296 then 1 else - 1)"
      and fits: "accumulate b ds ?acc < 4294967296 \<longrightarrow> x = of_nat (accumulate b ds ?acc)"
      using Cons.IH [OF at small, of ?acc 1] by auto
    have any: "(if ds = [] then 1 else if accumulate b ds ?acc < 4294967296 then 1 else - 1)
        = (if accumulate b ds ?acc < 4294967296 then 1 else - 1 :: int)"
      using False by auto
    show ?thesis using x fits False unfolding step if_not_P [OF False] any q by auto
  qed
qed

lemma digits_at_text: "cstr m p (map digit_char ds) \<Longrightarrow> digits_at m p ds"
  by (induction ds arbitrary: p) auto


lemma skip_space_none: "isspace (sint (m p)) = 0 \<Longrightarrow> skip_space m p = Some p"
  by (subst skip_space.simps) simp

lemma digit_char_plain:
  assumes "d < 10"
  shows "isspace (sint (digit_char d)) = 0" "digit_char d \<noteq> 45" "digit_char d \<noteq> 43"
proof -
  have s: "sint (digit_char d) = 48 + int d" using assms by (rule sint_digit10)
  show "isspace (sint (digit_char d)) = 0" by (simp add: s isspace_def)
  show "digit_char d \<noteq> 45" "digit_char d \<noteq> 43" using s assms by auto
qed

lemma strtoul_digits:
  assumes d: "digits_at m p ds" "\<forall>d \<in> set ds. d < 10" "ds \<noteq> []"
  shows "\<exists>x. strtoul m p 10 = Some (x, p + of_nat (length ds) - 1)
    \<and> x = (if accumulate 10 ds 0 < 4294967296 then of_nat (accumulate 10 ds 0) else 0xffffffff)"
proof -
  obtain e es where ds: "ds = e # es" using d(3) by (cases ds) auto
  have e: "e < 10" "m p = digit_char e" using d ds by auto
  note plain = digit_char_plain [OF e(1)]
  obtain x where x: "strtoul_loop m p (int 10) (cutoff_of 10) (cutlim_of 10) (of_nat 0) 0
      = Some (p + of_nat (length ds), x, if accumulate 10 ds 0 < 4294967296 then 1 else - 1)"
    "accumulate 10 ds 0 < 4294967296 \<longrightarrow> x = of_nat (accumulate 10 ds 0)"
    using strtoul_loop_digits [of 10 m p ds 0 0] d by auto
  show ?thesis
    using x(2) x(1) plain by (simp add: strtoul_def Let_def skip_space_none e(2) split: if_splits)
qed

section \<open>The properties\<close>

text \<open>
  C3: Printing and reading back: for every \<open>int\<close> but the least, \<open>itoa\<close> in base 10 terminates,
  writes only its text and terminator, and \<open>atoi\<close> applied to the buffer returns the number.
\<close>

theorem itoa_atoi_roundtrip:
  assumes "- 2147483648 < v" "v < 2147483648"
  shows "\<exists>m'. itoa m v buf 10 = Some m' \<and> cstr m' buf (decimal v) \<and> atoi m' buf = Some v
    \<and> (\<forall>a. \<not> in_block a buf (Suc (length (decimal v))) \<longrightarrow> m' a = m a)"
proof -
  let ?m = "write_bytes m buf (decimal v @ [0])"
  have "length (decimal v) \<le> 34"
  proof -
    have "length (udigits 10 (nat \<bar>v\<bar>)) \<le> 32" by (rule length_udigits_32) (use assms in auto)
    then show ?thesis by (cases "v < 0") (auto simp: decimal_def)
  qed
  then have "cstr ?m buf (decimal v)" by (intro cstr_write_bytes decimal_ok) simp
  then show ?thesis
    using itoa_10 [OF assms] atoi_decimal assms
    by (intro exI [of _ ?m]) (simp add: write_bytes_outside)
qed

lemma itoa_atoi_roundtrip_witness:
  "\<exists>m'. itoa (\<lambda>_. 7) (- 1203) 0x100 10 = Some m' \<and> cstr m' 0x100 (decimal (- 1203))
     \<and> atoi m' 0x100 = Some (- 1203)
     \<and> (\<forall>a. \<not> in_block a 0x100 (Suc (length (decimal (- 1203)))) \<longrightarrow> m' a = 7)"
  using itoa_atoi_roundtrip [of "- 1203" "\<lambda>_. 7" "0x100"] by simp

text \<open>
  \<open>strtoul\<close> in base 10 on a run of decimal digits ended by a character that is neither digit
  nor letter: it returns the number when it fits 32 bits and \<open>0xffffffff\<close> otherwise, and it
  stores through \<open>endptr\<close> the address of the last digit, not of the character after it.
\<close>

theorem strtoul_saturates:
  assumes "digits_at m p ds" "\<forall>d \<in> set ds. d < 10" "ds \<noteq> []"
  shows "strtoul m p 10 =
    Some (if undigits 10 (rev ds) < 4294967296 then of_nat (undigits 10 (rev ds)) else 0xffffffff,
          p + of_nat (length ds - 1))"
proof -
  have "of_nat (length ds - 1) = (of_nat (length ds) - 1 :: u32)" using assms(3) by (cases ds) simp_all
  then show ?thesis
    using strtoul_digits [OF assms] by (auto simp: accumulate_undigits add_diff_eq)
qed

lemma strtoul_saturates_witness:
  "strtoul ((\<lambda>_. 0)(0x10 := 52, 0x11 := 50)) 0x10 10 = Some (42, 0x11)"
proof -
  have "digits_at ((\<lambda>_. 0)(0x10 := 52, 0x11 := 50)) 0x10 [4, 2]" by (simp add: digit_char_def)
  then show ?thesis using strtoul_saturates [of _ "0x10" "[4, 2]"] by simp
qed

end
