(* ===== verification/Printf.thy ===== *)
theory Printf
  imports Cnum
begin

text \<open>
  Formatted output (\<open>kern/printf.c\<close>) in the configuration that \<open>kern/printf.h\<close> selects: no
  \<open>long long\<close>, no \<open>ptrdiff_t\<close>, no floating point. Every call of an output function passes
  \<open>idx++\<close>, so what a conversion does is the list of characters it passes, in order, and its
  \<open>idx\<close> is the number passed so far; \<open>out_all\<close> then makes those calls. The \<open>va_list\<close> is the list
  of the 32-bit words of the arguments, the string behind a \<open>char*\<close> argument is given by a
  parameter \<open>str\<close>. Reading past the arguments or past the end of the format is \<open>WildAccess\<close>.
\<close>

section \<open>The code\<close>

definition PRINTF_NTOA_BUFFER_SIZE :: nat where "PRINTF_NTOA_BUFFER_SIZE = 32"

definition FLAGS_ZEROPAD :: u32 where "FLAGS_ZEROPAD = 1"
definition FLAGS_LEFT :: u32 where "FLAGS_LEFT = 2"
definition FLAGS_PLUS :: u32 where "FLAGS_PLUS = 4"
definition FLAGS_SPACE :: u32 where "FLAGS_SPACE = 8"
definition FLAGS_HASH :: u32 where "FLAGS_HASH = 16"
definition FLAGS_UPPERCASE :: u32 where "FLAGS_UPPERCASE = 32"
definition FLAGS_CHAR :: u32 where "FLAGS_CHAR = 64"
definition FLAGS_SHORT :: u32 where "FLAGS_SHORT = 128"
definition FLAGS_LONG :: u32 where "FLAGS_LONG = 256"
definition FLAGS_LONG_LONG :: u32 where "FLAGS_LONG_LONG = 512"
definition FLAGS_PRECISION :: u32 where "FLAGS_PRECISION = 1024"

definition has :: "u32 \<Rightarrow> u32 \<Rightarrow> bool" where
  "has flags f \<longleftrightarrow> flags AND f \<noteq> 0"

text \<open>The output functions: the character, the index, the limit, and what they write to.\<close>

type_synonym 's out_fct = "u8 \<Rightarrow> u32 \<Rightarrow> u32 \<Rightarrow> 's \<Rightarrow> 's"

definition out_buffer :: "u32 \<Rightarrow> mem out_fct" where
  "out_buffer buffer character idx maxlen m = (if idx < maxlen then m(buffer + idx := character) else m)"

definition out_null :: "'s out_fct" where
  "out_null character idx maxlen s = s"

definition out_char :: "u8 list out_fct" where
  "out_char character idx maxlen console = (if character \<noteq> 0 then console @ [character] else console)"

definition out_wrapped :: "(u8 \<Rightarrow> 's \<Rightarrow> 's) \<Rightarrow> 's out_fct" where
  "out_wrapped fct character idx maxlen s = (if character \<noteq> 0 then fct character s else s)"

text \<open>The calls \<open>out(c, buffer, idx++, maxlen)\<close> for the characters of a text.\<close>

primrec out_all :: "'s out_fct \<Rightarrow> u32 \<Rightarrow> u8 list \<Rightarrow> u32 \<Rightarrow> 's \<Rightarrow> 's" where
  "out_all out maxlen [] idx s = s"
| "out_all out maxlen (c # cs) idx s = out_all out maxlen cs (idx + 1) (out c idx maxlen s)"

fun strnlen_s :: "cstring \<Rightarrow> u32 \<Rightarrow> u32" where
  "strnlen_s [] maxsize = 0"
| "strnlen_s (c # s) maxsize = (if maxsize = 0 then 0 else 1 + strnlen_s s (maxsize - 1))"

definition is_digit :: "u8 \<Rightarrow> bool" where
  "is_digit ch \<longleftrightarrow> 48 \<le> sint ch \<and> sint ch \<le> 57"

text \<open>\<open>_atoi\<close> returns the number and the advanced format pointer.\<close>

fun atoi_fmt :: "cstring \<Rightarrow> u32 \<Rightarrow> u32 \<times> cstring" where
  "atoi_fmt [] i = (i, [])"
| "atoi_fmt (c # s) i = (if is_digit c then atoi_fmt s (i * 10 + (ucast c - 48)) else (i, c # s))"

text \<open>\<open>for (i = from; i < to; i++) out(c)\<close> and \<open>while (l++ < width) out(c)\<close>.\<close>

function pad :: "u8 \<Rightarrow> u32 \<Rightarrow> u32 \<Rightarrow> u8 list" where
  "pad c from to = (if from < to then c # pad c (from + 1) to else [])"
  by pat_completeness auto
termination
  by (relation "measure (\<lambda>(c, from, to). unat to - unat from)")
    (auto simp: word_less_nat_alt unat_inc_u32)

declare pad.simps [simp del]

definition out_rev :: "u8 list \<Rightarrow> u32 \<Rightarrow> u32 \<Rightarrow> u8 list" where
  "out_rev buf width flags =
     (let len = of_nat (length buf);
          text = (if \<not> has flags FLAGS_LEFT \<and> \<not> has flags FLAGS_ZEROPAD then pad 32 len width else []) @ rev buf
      in text @ (if has flags FLAGS_LEFT then pad 32 (of_nat (length text)) width else []))"

text \<open>\<open>while (len < limit && len < PRINTF_NTOA_BUFFER_SIZE) buf[len++] = '0';\<close>\<close>

definition push_zeros :: "u32 \<Rightarrow> u8 list \<Rightarrow> u8 list" where
  "push_zeros limit buf = buf @ replicate (min (unat limit) PRINTF_NTOA_BUFFER_SIZE - length buf) 48"

definition push :: "u8 \<Rightarrow> u8 list \<Rightarrow> u8 list" where
  "push c buf = (if length buf < PRINTF_NTOA_BUFFER_SIZE then buf @ [c] else buf)"

definition ntoa_format :: "u8 list \<Rightarrow> bool \<Rightarrow> u32 \<Rightarrow> u32 \<Rightarrow> u32 \<Rightarrow> u32 \<Rightarrow> u8 list" where
  "ntoa_format buf negative base prec width flags =
     (let (buf, width) =
        (if \<not> has flags FLAGS_LEFT
         then (let width = (if width \<noteq> 0 \<and> has flags FLAGS_ZEROPAD
                   \<and> (negative \<or> has flags (FLAGS_PLUS OR FLAGS_SPACE)) then width - 1 else width);
                   buf = push_zeros prec buf
               in (if has flags FLAGS_ZEROPAD then push_zeros width buf else buf, width))
         else (buf, width));
      buf =
        (if has flags FLAGS_HASH
         then (let len = of_nat (length buf) :: u32;
                   buf = (if \<not> has flags FLAGS_PRECISION \<and> buf \<noteq> [] \<and> (len = prec \<or> len = width)
                     then (let buf = butlast buf in if buf \<noteq> [] \<and> base = 16 then butlast buf else buf)
                     else buf);
                   buf = (if base = 16 \<and> \<not> has flags FLAGS_UPPERCASE then push 120 buf
                     else if base = 16 \<and> has flags FLAGS_UPPERCASE then push 88 buf
                     else if base = 2 then push 98 buf else buf)
               in push 48 buf)
         else buf);
      buf =
        (if negative then push 45 buf
         else if has flags FLAGS_PLUS then push 43 buf
         else if has flags FLAGS_SPACE then push 32 buf else buf)
      in out_rev buf width flags)"

text \<open>The digit loop; the first argument is the room left in the buffer.\<close>

fun ntoa_digits :: "nat \<Rightarrow> u32 \<Rightarrow> u32 \<Rightarrow> u32 \<Rightarrow> u8 list" where
  "ntoa_digits 0 v base flags = []"
| "ntoa_digits (Suc room) v base flags =
     (let digit = ucast (v mod base) :: u8;
          c = (if digit < 10 then 48 + digit else (if has flags FLAGS_UPPERCASE then 65 else 97) + digit - 10);
          v = v div base
      in c # (if v \<noteq> 0 then ntoa_digits room v base flags else []))"

definition ntoa_long :: "u32 \<Rightarrow> bool \<Rightarrow> u32 \<Rightarrow> u32 \<Rightarrow> u32 \<Rightarrow> u32 \<Rightarrow> u8 list" where
  "ntoa_long v negative base prec width flags =
     (let flags = (if v = 0 then flags AND NOT FLAGS_HASH else flags);
          buf = (if \<not> has flags FLAGS_PRECISION \<or> v \<noteq> 0
                 then ntoa_digits PRINTF_NTOA_BUFFER_SIZE v base flags else [])
      in ntoa_format buf negative base prec width flags)"

section \<open>The format loop\<close>

definition va_arg :: "u32 list \<Rightarrow> (u32 \<times> u32 list) outcome" where
  "va_arg va = (case va of [] \<Rightarrow> Inl WildAccess | a # va \<Rightarrow> Inr (a, va))"

fun eval_flags :: "cstring \<Rightarrow> u32 \<Rightarrow> u32 \<times> cstring" where
  "eval_flags [] flags = (flags, [])"
| "eval_flags (c # format) flags =
     (if c = 48 then eval_flags format (flags OR FLAGS_ZEROPAD)
      else if c = 45 then eval_flags format (flags OR FLAGS_LEFT)
      else if c = 43 then eval_flags format (flags OR FLAGS_PLUS)
      else if c = 32 then eval_flags format (flags OR FLAGS_SPACE)
      else if c = 35 then eval_flags format (flags OR FLAGS_HASH)
      else (flags, c # format))"

definition eval_width :: "cstring \<Rightarrow> u32 \<Rightarrow> u32 list \<Rightarrow> (u32 \<times> u32 \<times> cstring \<times> u32 list) outcome" where
  "eval_width format flags va = (case format of
     [] \<Rightarrow> Inr (0, flags, [], va)
   | c # rest \<Rightarrow>
       if is_digit c then (let (w, format) = atoi_fmt format 0 in Inr (w, flags, format, va))
       else if c = 42 then bind_outcome (va_arg va) (\<lambda>(w, va).
         if sint w < 0 then Inr (- w, flags OR FLAGS_LEFT, rest, va) else Inr (w, flags, rest, va))
       else Inr (0, flags, format, va))"

definition eval_precision :: "cstring \<Rightarrow> u32 \<Rightarrow> u32 list \<Rightarrow> (u32 \<times> u32 \<times> cstring \<times> u32 list) outcome" where
  "eval_precision format flags va = (case format of
     [] \<Rightarrow> Inr (0, flags, [], va)
   | c # format \<Rightarrow>
       if c = 46
       then (let flags = flags OR FLAGS_PRECISION in case format of
           [] \<Rightarrow> Inr (0, flags, [], va)
         | d # rest \<Rightarrow>
             if is_digit d then (let (p, format) = atoi_fmt format 0 in Inr (p, flags, format, va))
             else if d = 42 then bind_outcome (va_arg va) (\<lambda>(p, va).
               Inr (if 0 < sint p then p else 0, flags, rest, va))
             else Inr (0, flags, format, va))
       else Inr (0, flags, c # format, va))"

text \<open>\<open>intmax_t\<close> has 64 bits, \<open>size_t\<close> and \<open>long\<close> have 32.\<close>

fun eval_length :: "cstring \<Rightarrow> u32 \<Rightarrow> u32 \<times> cstring" where
  "eval_length [] flags = (flags, [])"
| "eval_length (c # format) flags =
     (if c = 108 then
        (case format of
           d # rest \<Rightarrow> if d = 108 then (flags OR FLAGS_LONG OR FLAGS_LONG_LONG, rest) else (flags OR FLAGS_LONG, format)
         | [] \<Rightarrow> (flags OR FLAGS_LONG, format))
      else if c = 104 then
        (case format of
           d # rest \<Rightarrow> if d = 104 then (flags OR FLAGS_SHORT OR FLAGS_CHAR, rest) else (flags OR FLAGS_SHORT, format)
         | [] \<Rightarrow> (flags OR FLAGS_SHORT, format))
      else if c = 106 then (flags OR FLAGS_LONG_LONG, format)
      else if c = 122 then (flags OR FLAGS_LONG, format)
      else (flags, c # format))"

text \<open>
  The integer conversions \<open>d i u x X o b\<close>. With \<open>long long\<close> support compiled out, a
  \<open>FLAGS_LONG_LONG\<close> conversion neither prints nor consumes an argument.
\<close>

definition magnitude :: "int \<Rightarrow> u32" where
  "magnitude v = of_int (if 0 < v then v else 0 - v)"

definition convert_int :: "u8 \<Rightarrow> u32 \<Rightarrow> u32 \<Rightarrow> u32 \<Rightarrow> u32 list \<Rightarrow> (u8 list \<times> u32 list) outcome" where
  "convert_int c flags width precision va =
     (let base = (if c = 120 \<or> c = 88 then 16 else if c = 111 then 8 else if c = 98 then 2 else 10);
          flags = (if c = 120 \<or> c = 88 \<or> c = 111 \<or> c = 98 then flags else flags AND NOT FLAGS_HASH);
          flags = (if c = 88 then flags OR FLAGS_UPPERCASE else flags);
          flags = (if c \<noteq> 105 \<and> c \<noteq> 100 then flags AND NOT (FLAGS_PLUS OR FLAGS_SPACE) else flags);
          flags = (if has flags FLAGS_PRECISION then flags AND NOT FLAGS_ZEROPAD else flags)
      in if has flags FLAGS_LONG_LONG then Inr ([], va)
         else bind_outcome (va_arg va) (\<lambda>(a, va).
           if c = 105 \<or> c = 100
           then (let v = (if has flags FLAGS_LONG then sint a
                   else if has flags FLAGS_CHAR then sint (ucast a :: u8)
                   else if has flags FLAGS_SHORT then sint (ucast a :: u16) else sint a)
                 in Inr (ntoa_long (magnitude v) (v < 0) base precision width flags, va))
           else (let v = (if has flags FLAGS_LONG then a
                   else if has flags FLAGS_CHAR then ucast (ucast a :: u8)
                   else if has flags FLAGS_SHORT then ucast (ucast a :: u16) else a)
                 in Inr (ntoa_long v False base precision width flags, va))))"

definition convert_char :: "u32 \<Rightarrow> u32 \<Rightarrow> u32 list \<Rightarrow> (u8 list \<times> u32 list) outcome" where
  "convert_char flags width va =
     bind_outcome (va_arg va) (\<lambda>(a, va).
       Inr ((if \<not> has flags FLAGS_LEFT then pad 32 1 width else []) @ [ucast a]
         @ (if has flags FLAGS_LEFT then pad 32 1 width else []), va))"

definition convert_string :: "(u32 \<Rightarrow> cstring) \<Rightarrow> u32 \<Rightarrow> u32 \<Rightarrow> u32 \<Rightarrow> u32 list \<Rightarrow> (u8 list \<times> u32 list) outcome" where
  "convert_string str flags width precision va =
     bind_outcome (va_arg va) (\<lambda>(a, va).
       let p = str a;
           l = strnlen_s p (if precision \<noteq> 0 then precision else - 1);
           l = (if has flags FLAGS_PRECISION then (if l < precision then l else precision) else l)
       in Inr ((if \<not> has flags FLAGS_LEFT then pad 32 l width else [])
         @ (if has flags FLAGS_PRECISION then take (unat precision) p else p)
         @ (if has flags FLAGS_LEFT then pad 32 l width else []), va))"

definition convert_pointer :: "u32 \<Rightarrow> u32 \<Rightarrow> u32 list \<Rightarrow> (u8 list \<times> u32 list) outcome" where
  "convert_pointer flags precision va =
     bind_outcome (va_arg va) (\<lambda>(a, va).
       Inr (ntoa_long a False 16 precision 8 (flags OR FLAGS_ZEROPAD OR FLAGS_UPPERCASE), va))"

definition convert :: "(u32 \<Rightarrow> cstring) \<Rightarrow> u8 \<Rightarrow> u32 \<Rightarrow> u32 \<Rightarrow> u32 \<Rightarrow> u32 list \<Rightarrow> (u8 list \<times> u32 list) outcome" where
  "convert str c flags width precision va =
     (if c \<in> {100, 105, 117, 120, 88, 111, 98} then convert_int c flags width precision va
      else if c = 99 then convert_char flags width va
      else if c = 115 then convert_string str flags width precision va
      else if c = 112 then convert_pointer flags precision va
      else Inr ([c], va))"

text \<open>One conversion, after the \<open>%\<close>: its text, the rest of the format, the rest of the arguments.\<close>

definition eval_conversion ::
  "(u32 \<Rightarrow> cstring) \<Rightarrow> cstring \<Rightarrow> u32 list \<Rightarrow> (u8 list \<times> cstring \<times> u32 list) outcome" where
  "eval_conversion str format va =
     (let (flags, format) = eval_flags format 0 in
      bind_outcome (eval_width format flags va) (\<lambda>(width, flags, format, va).
      bind_outcome (eval_precision format flags va) (\<lambda>(precision, flags, format, va).
        let (flags, format) = eval_length format flags in
        case format of
          [] \<Rightarrow> Inl WildAccess
        | c # format \<Rightarrow> bind_outcome (convert str c flags width precision va)
            (\<lambda>(text, va). Inr (text, format, va)))))"

lemma eval_flags_length: "length (snd (eval_flags format flags)) \<le> length format"
  by (induction format flags rule: eval_flags.induct) auto

lemma atoi_fmt_length: "length (snd (atoi_fmt s i)) \<le> length s"
  by (induction s i rule: atoi_fmt.induct) auto

lemma eval_width_length:
  "eval_width format flags va = Inr (w, flags', format', va') \<Longrightarrow> length format' \<le> length format"
  using atoi_fmt_length [of format 0]
  by (auto simp: eval_width_def bind_outcome_Inr split: list.splits if_splits prod.splits)

lemma eval_precision_length:
  "eval_precision format flags va = Inr (w, flags', format', va') \<Longrightarrow> length format' \<le> length format"
  using atoi_fmt_length [of "tl format" 0]
  by (auto simp: eval_precision_def bind_outcome_Inr Let_def split: list.splits if_splits prod.splits)

lemma eval_length_length: "length (snd (eval_length format flags)) \<le> length format"
  by (cases format) (auto split: list.splits)

lemma eval_conversion_length:
  "eval_conversion str format va = Inr (text, format', va') \<Longrightarrow> length format' < length format"
proof -
  assume *: "eval_conversion str format va = Inr (text, format', va')"
  obtain fl f1 where 1: "eval_flags format 0 = (fl, f1)" by fastforce
  obtain w f2 fm2 va2 where 2: "eval_width f1 fl va = Inr (w, f2, fm2, va2)"
    using * by (auto simp: eval_conversion_def 1 bind_outcome_Inr)
  obtain p f3 fm3 va3 where 3: "eval_precision fm2 f2 va2 = Inr (p, f3, fm3, va3)"
    using * by (auto simp: eval_conversion_def 1 2 bind_outcome_Inr)
  obtain f4 fm4 where 4: "eval_length fm3 f3 = (f4, fm4)" by fastforce
  obtain c where "fm4 = c # format'"
    using * by (auto simp: eval_conversion_def 1 2 3 4 bind_outcome_Inr split: list.splits)
  then show ?thesis
    using eval_flags_length [of format 0] eval_width_length [OF 2] eval_precision_length [OF 3]
      eval_length_length [of fm3 f3] by (simp add: 1 4)
qed

text \<open>The characters passed to the output function by the \<open>while (*format)\<close> loop.\<close>

function format_text :: "(u32 \<Rightarrow> cstring) \<Rightarrow> cstring \<Rightarrow> u32 list \<Rightarrow> u8 list outcome" where
  "format_text str format va = (case format of
     [] \<Rightarrow> Inr []
   | c # rest \<Rightarrow>
       if c \<noteq> 37 then bind_outcome (format_text str rest va) (\<lambda>text. Inr (c # text))
       else bind_outcome (eval_conversion str rest va) (\<lambda>(text, rest, va).
         bind_outcome (format_text str rest va) (\<lambda>more. Inr (text @ more))))"
  by pat_completeness auto
termination
  by (relation "measure (\<lambda>(str, format, va). length format)") (auto dest: eval_conversion_length)

declare format_text.simps [simp del]

definition vsnprintf_core ::
  "'s out_fct \<Rightarrow> u32 \<Rightarrow> (u32 \<Rightarrow> cstring) \<Rightarrow> cstring \<Rightarrow> u32 list \<Rightarrow> 's \<Rightarrow> ('s \<times> int) outcome" where
  "vsnprintf_core out maxlen str format va s =
     bind_outcome (format_text str format va) (\<lambda>text.
       let idx = of_nat (length text);
           s = out_all out maxlen text 0 s;
           s = out 0 (if idx < maxlen then idx else maxlen - 1) maxlen s
       in Inr (s, sint idx))"

definition printf :: "(u32 \<Rightarrow> cstring) \<Rightarrow> cstring \<Rightarrow> u32 list \<Rightarrow> u8 list \<Rightarrow> (u8 list \<times> int) outcome" where
  "printf str format va console = vsnprintf_core out_char (- 1) str format va console"

definition vsnprintf ::
  "(u32 \<Rightarrow> cstring) \<Rightarrow> mem \<Rightarrow> u32 \<Rightarrow> u32 \<Rightarrow> cstring \<Rightarrow> u32 list \<Rightarrow> (mem \<times> int) outcome" where
  "vsnprintf str m buf count format va =
     vsnprintf_core (if buf = 0 then out_null else out_buffer buf) count str format va m"

definition sprintf :: "(u32 \<Rightarrow> cstring) \<Rightarrow> mem \<Rightarrow> u32 \<Rightarrow> cstring \<Rightarrow> u32 list \<Rightarrow> (mem \<times> int) outcome" where
  "sprintf str m buf format va =
     vsnprintf_core (if buf = 0 then out_null else out_buffer buf) (- 1) str format va m"

definition snprintf ::
  "(u32 \<Rightarrow> cstring) \<Rightarrow> mem \<Rightarrow> u32 \<Rightarrow> u32 \<Rightarrow> cstring \<Rightarrow> u32 list \<Rightarrow> (mem \<times> int) outcome" where
  "snprintf str m buf count format va =
     vsnprintf_core (if buf = 0 then out_null else out_buffer buf) count str format va m"

definition vprintf :: "(u32 \<Rightarrow> cstring) \<Rightarrow> cstring \<Rightarrow> u32 list \<Rightarrow> u8 list \<Rightarrow> (u8 list \<times> int) outcome" where
  "vprintf str format va console = vsnprintf_core out_char (- 1) str format va console"

definition fctprintf ::
  "(u8 \<Rightarrow> 's \<Rightarrow> 's) \<Rightarrow> (u32 \<Rightarrow> cstring) \<Rightarrow> cstring \<Rightarrow> u32 list \<Rightarrow> 's \<Rightarrow> ('s \<times> int) outcome" where
  "fctprintf out str format va s = vsnprintf_core (out_wrapped out) (- 1) str format va s"

definition vfctprintf ::
  "(u8 \<Rightarrow> 's \<Rightarrow> 's) \<Rightarrow> (u32 \<Rightarrow> cstring) \<Rightarrow> cstring \<Rightarrow> u32 list \<Rightarrow> 's \<Rightarrow> ('s \<times> int) outcome" where
  "vfctprintf out str format args s = vsnprintf_core (out_wrapped out) (- 1) str format args s"

section \<open>What the output functions make of a text\<close>

lemma out_all_buffer:
  "unat i + length cs < 4294967296 \<Longrightarrow>
   out_all (out_buffer b) maxlen cs i m = write_bytes m (b + i) (take (unat maxlen - unat i) cs)"
proof (induction cs arbitrary: i m)
  case (Cons c cs)
  have u: "unat (i + 1) = Suc (unat i)" using Cons.prems by (subst unat_add_u32) auto
  show ?case
  proof (cases "i < maxlen")
    case True
    then have k: "unat maxlen - unat i = Suc (unat maxlen - unat (i + 1))"
      by (simp add: u word_less_nat_alt Suc_diff_Suc)
    have len: "Suc (length (take (unat maxlen - unat (i + 1)) cs)) \<le> 4294967296" using Cons.prems by simp
    have "out_all (out_buffer b) maxlen cs (i + 1) (m(b + i := c))
        = write_bytes (m(b + i := c)) (b + (i + 1)) (take (unat maxlen - unat (i + 1)) cs)"
      by (rule Cons.IH) (use Cons.prems u in simp)
    moreover have "out_buffer b c i maxlen m = m(b + i := c)" using True by (simp add: out_buffer_def)
    ultimately have "out_all (out_buffer b) maxlen (c # cs) i m
        = write_bytes (m(b + i := c)) (b + (i + 1)) (take (unat maxlen - unat (i + 1)) cs)"
      by (simp only: out_all.simps)
    also have "b + (i + 1) = b + i + 1" by simp
    finally show ?thesis using write_bytes_Cons [OF len] k by (simp del: fun_upd_apply)
  next
    case False
    then have "unat maxlen \<le> unat i" by (simp add: word_less_nat_alt)
    moreover have "out_buffer b c i maxlen m = m" using False by (simp add: out_buffer_def)
    ultimately show ?thesis using Cons u by simp
  qed
qed simp

lemma out_all_char: "out_all out_char maxlen cs i con = con @ filter (\<lambda>c. c \<noteq> 0) cs"
  by (induction cs arbitrary: i con) (simp_all add: out_char_def)

lemma write_bytes_terminated:
  assumes "0 < n" "n \<le> length cs" "length cs < 4294967296"
  shows "(write_bytes m b (take n cs))(b + of_nat (n - 1) := x) = write_bytes m b (take (n - 1) cs @ [x])"
proof -
  have "take (Suc (n - 1)) cs = take (n - 1) cs @ [cs ! (n - 1)]"
    using assms(1,2) by (intro take_Suc_conv_app_nth) simp
  then have t: "take n cs = take (n - 1) cs @ [cs ! (n - 1)]" using assms(1) by simp
  have l: "length (take (n - 1) cs) = n - 1" "n - 1 < 4294967296" using assms by simp_all
  show ?thesis
    unfolding t using write_bytes_snoc [of "take (n - 1) cs" m b] l(2)
    by (simp only: l(1) fun_upd_upd flip: write_bytes_snoc)
qed

lemma vsnprintf_core_buffer:
  assumes t: "format_text str format va = Inr text" and len: "length text < 2147483648"
  shows "vsnprintf_core (out_buffer b) count str format va m =
    Inr (if count = 0 then m else write_bytes m b (take (unat count - 1) text @ [0]), int (length text))"
proof -
  have u: "unat (of_nat (length text) :: u32) = length text" using len by (intro unat_of_nat_u32) simp
  have s: "sint (of_nat (length text) :: u32) = int (length text)"
    using len by (simp add: signed_of_nat signed_take_bit_int_eq_self)
  have all: "out_all (out_buffer b) count text 0 m = write_bytes m b (take (unat count) text)"
    using out_all_buffer [of 0 "text" b count m] len by simp
  have last: "out_buffer b 0 (if of_nat (length text) < count then of_nat (length text) else count - 1) count
      (write_bytes m b (take (unat count) text))
    = (if count = 0 then m else write_bytes m b (take (unat count - 1) text @ [0]))"
  proof (cases "count = 0")
    case True
    then show ?thesis by (simp add: out_buffer_def)
  next
    case False
    show ?thesis
    proof (cases "of_nat (length text) < count")
      case True
      then have "length text < unat count" by (simp add: word_less_nat_alt u)
      then show ?thesis using True False write_bytes_snoc [of "text" m b 0] len by (simp add: out_buffer_def)
    next
      case ge: False
      then have le: "unat count \<le> length text" by (simp add: word_less_nat_alt u)
      have pos: "0 < unat count" using False by (simp add: unat_gt_0)
      have c1: "count - 1 = of_nat (unat count - 1)" using pos by (simp add: of_nat_diff)
      have "count - 1 < count" using pos by (simp add: word_less_nat_alt unat_minus_one)
      then show ?thesis
        using ge False write_bytes_terminated [OF pos le, of m b 0] len by (simp add: out_buffer_def c1)
    qed
  qed
  show ?thesis by (simp add: vsnprintf_core_def t Let_def all last s)
qed

section \<open>What the conversions print\<close>

lemma pad_eq: "pad c from to = replicate (unat to - unat from) c"
proof (induction c "from" to rule: pad.induct)
  case (1 c a b)
  show ?case
  proof (cases "a < b")
    case True
    then have "unat b - unat a = Suc (unat b - unat (a + 1))"
      using unat_inc_u32 [OF True] by (simp add: word_less_nat_alt)
    then show ?thesis using 1 [OF True] True by (subst pad.simps) simp
  next
    case False
    then show ?thesis by (subst pad.simps) (simp add: word_less_nat_alt)
  qed
qed

lemma push_zeros_0 [simp]: "push_zeros 0 buf = buf"
  by (simp add: push_zeros_def)

lemma has_0 [simp]: "\<not> has 0 f"
  by (simp add: has_def)

text \<open>The character of a digit: capital letters only under \<open>FLAGS_UPPERCASE\<close>.\<close>

definition ndigit :: "bool \<Rightarrow> nat \<Rightarrow> u8" where
  "ndigit upper d = (if d < 10 then of_nat (48 + d) else of_nat ((if upper then 55 else 87) + d))"

lemma ntoa_digits_eq:
  assumes b: "2 \<le> unat base" "unat base \<le> 16"
  shows "v \<noteq> 0 \<Longrightarrow> ntoa_digits room v base flags
    = take room (map (ndigit (has flags FLAGS_UPPERCASE)) (udigits (unat base) (unat v)))"
proof (induction room arbitrary: v)
  case (Suc room)
  let ?d = "unat v mod unat base"
  have d: "unat (ucast (v mod base) :: u8) = ?d"
  proof -
    have "?d < 256" using b mod_less_divisor [of "unat base" "unat v"] by linarith
    then show ?thesis by (simp add: unat_mod unsigned_ucast_eq take_bit_nat_eq_self)
  qed
  have small: "?d < 16" using b mod_less_divisor [of "unat base" "unat v"] by linarith
  have c: "(if (ucast (v mod base) :: u8) < 10 then 48 + ucast (v mod base)
      else (if has flags FLAGS_UPPERCASE then 65 else 97) + ucast (v mod base) - 10)
    = ndigit (has flags FLAGS_UPPERCASE) ?d"
  proof -
    have e: "(ucast (v mod base) :: u8) = of_nat ?d" by (simp add: d [symmetric])
    have "(of_nat ?d :: u8) < 10 \<longleftrightarrow> ?d < 10" using d e by (simp add: word_less_nat_alt)
    then show ?thesis unfolding e by (simp add: ndigit_def)
  qed
  have dv: "unat (v div base) = unat v div unat base" by (simp add: unat_div)
  have "0 < unat v" using Suc.prems by (simp add: unat_gt_0)
  then have u: "udigits (unat base) (unat v) = ?d # udigits (unat base) (unat v div unat base)"
    using b by (intro udigits_pos) simp_all
  show ?case
  proof (cases "v div base = 0")
    case True
    then have "unat v div unat base = 0" by (simp flip: dv)
    then show ?thesis using u True by (simp add: c Let_def)
  next
    case False
    then show ?thesis using Suc.IH [OF False] u by (simp add: c Let_def dv)
  qed
qed simp

lemma ntoa_digits_0: "ntoa_digits (Suc room) 0 base flags = [48]"
  by simp

definition number_text :: "bool \<Rightarrow> nat \<Rightarrow> nat \<Rightarrow> u8 list" where
  "number_text upper b n = (if n = 0 then [48] else map (ndigit upper) (rev (udigits b n)))"

lemma ntoa_digits_number:
  assumes "2 \<le> unat base" "unat base \<le> 16"
  shows "ntoa_digits 32 v base flags = rev (number_text (has flags FLAGS_UPPERCASE) (unat base) (unat v))"
proof (cases "v = 0")
  case True
  have "ntoa_digits (Suc 31) 0 base flags = [48]" by (rule ntoa_digits_0)
  then show ?thesis using True by (simp add: number_text_def)
next
  case False
  have "(2 :: nat) ^ 32 \<le> unat base ^ 32" using assms(1) by (rule power_mono) simp
  then have "unat v < unat base ^ 32" using unat_lt_2p32 [of v] by (simp del: unat_lt_2p32)
  then have "length (udigits (unat base) (unat v)) \<le> 32" by (rule udigits_length)
  then show ?thesis using ntoa_digits_eq [OF assms False, of 32 flags] False
    by (simp add: number_text_def rev_map unat_eq_zero)
qed

lemma length_number_text:
  assumes "2 \<le> b" "n < b ^ k" "0 < k"
  shows "length (number_text upper b n) \<le> k"
  using udigits_length [OF assms(2)] assms by (simp add: number_text_def)

lemma ndigit_10: "d < 10 \<Longrightarrow> ndigit upper d = digit_char d"
  by (simp add: ndigit_def digit_char_def)

lemma number_text_10: "number_text upper 10 n = radix_text 10 n"
  by (auto simp: number_text_def radix_text_def intro!: ndigit_10 dest: udigits_less)

lemma unat_magnitude: "unat (magnitude (sint (w :: u32))) = nat \<bar>sint w\<bar>"
proof -
  have "- (2 ^ 31) \<le> sint w" "sint w < 2 ^ 31" using sint_greater_eq [of w] sint_less [of w] by simp_all
  then have "nat \<bar>sint w\<bar> < 2 ^ 32" by simp
  then have "unat (of_nat (nat \<bar>sint w\<bar>) :: u32) = nat \<bar>sint w\<bar>" by (intro unat_of_nat_u32) simp
  moreover have "(if 0 < sint w then sint w else 0 - sint w) = int (nat \<bar>sint w\<bar>)" by simp
  then have "magnitude (sint w) = of_nat (nat \<bar>sint w\<bar>)" by (simp only: magnitude_def of_int_of_nat_eq)
  ultimately show ?thesis by (simp only:)
qed

lemma is_digit_simps: "is_digit c \<longleftrightarrow> c \<in> {48, 49, 50, 51, 52, 53, 54, 55, 56, 57}"
proof -
  have "is_digit c \<longleftrightarrow> 48 \<le> sint c \<and> sint c \<le> 57" by (simp add: is_digit_def)
  also have "\<dots> \<longleftrightarrow> sint c \<in> {sint (48 :: u8), sint (49 :: u8), sint (50 :: u8), sint (51 :: u8), sint (52 :: u8),
      sint (53 :: u8), sint (54 :: u8), sint (55 :: u8), sint (56 :: u8), sint (57 :: u8)}"
    by simp presburger
  also have "\<dots> \<longleftrightarrow> c \<in> {48, 49, 50, 51, 52, 53, 54, 55, 56, 57}"
    by (simp only: insert_iff sint_u8_eq empty_iff)
  finally show ?thesis .
qed

lemma format_text_Nil [simp]: "format_text str [] va = Inr []"
  by (simp add: format_text.simps)

lemma format_text_percent:
  "format_text str (37 # rest) va = bind_outcome (eval_conversion str rest va) (\<lambda>(text, rest, va).
     bind_outcome (format_text str rest va) (\<lambda>more. Inr (text @ more)))"
  by (subst format_text.simps) simp

lemma format_text_plain:
  "37 \<notin> set pre \<Longrightarrow> format_text str (pre @ rest) va
     = bind_outcome (format_text str rest va) (\<lambda>more. Inr (pre @ more))"
proof (induction pre)
  case Nil
  then show ?case by (cases "format_text str rest va") simp_all
next
  case (Cons c pre)
  then show ?case
    by (subst format_text.simps) (cases "format_text str rest va", auto)
qed

lemmas eval_conversion_eval =
  eval_conversion_def eval_width_def eval_precision_def convert_def va_arg_def Let_def

lemmas flag_eval =
  has_def FLAGS_ZEROPAD_def FLAGS_LEFT_def FLAGS_PLUS_def FLAGS_SPACE_def FLAGS_HASH_def FLAGS_UPPERCASE_def
  FLAGS_CHAR_def FLAGS_SHORT_def FLAGS_LONG_def FLAGS_LONG_LONG_def FLAGS_PRECISION_def

lemma eval_conversion_plain:
  assumes "c \<in> {100, 105, 117, 120, 88, 111, 98, 99, 115, 112}"
  shows "eval_conversion str (c # rest) va
    = bind_outcome (convert str c 0 0 0 va) (\<lambda>(text, va). Inr (text, rest, va))"
  using assms by (auto simp: eval_conversion_def eval_width_def eval_precision_def is_digit_simps)

lemma out_rev_0: "length buf < 4294967296 \<Longrightarrow> out_rev buf 0 0 = rev buf"
  by (simp add: out_rev_def pad_eq)

lemma length_ntoa_digits: "length (ntoa_digits room v base flags) \<le> room"
  by (induction room arbitrary: v) (simp_all add: Let_def)

lemma ntoa_long_plain:
  assumes "2 \<le> unat base" "unat base \<le> 16" "flags = 0 \<or> flags = FLAGS_UPPERCASE"
  shows "ntoa_long v negative base 0 0 flags
    = (if negative \<and> length (number_text (flags \<noteq> 0) (unat base) (unat v)) < 32 then [45] else [])
      @ number_text (flags \<noteq> 0) (unat base) (unat v)"
proof -
  have f: "\<not> has flags FLAGS_LEFT" "\<not> has flags FLAGS_HASH" "\<not> has flags FLAGS_PRECISION"
    "\<not> has flags FLAGS_PLUS" "\<not> has flags FLAGS_SPACE" "\<not> has flags FLAGS_ZEROPAD"
    "has flags FLAGS_UPPERCASE \<longleftrightarrow> flags \<noteq> 0" "flags AND NOT FLAGS_HASH = flags"
    using assms(3) by (auto simp: flag_eval)
  let ?t = "number_text (flags \<noteq> 0) (unat base) (unat v)"
  have d: "ntoa_digits 32 v base flags = rev ?t" using ntoa_digits_number [OF assms(1,2)] f by simp
  have l: "length ?t \<le> 32" using length_ntoa_digits [of 32 v base flags] by (simp add: d)
  have o: "out_rev buf 0 flags = rev buf" for buf
    using f by (simp add: out_rev_def pad_eq Let_def)
  have "ntoa_long v negative base 0 0 flags = ntoa_format (ntoa_digits 32 v base flags) negative base 0 0 flags"
    using f by (simp add: ntoa_long_def Let_def PRINTF_NTOA_BUFFER_SIZE_def)
  also have "\<dots> = ntoa_format (rev ?t) negative base 0 0 flags" by (simp only: d)
  finally show ?thesis
    using l f by (simp add: ntoa_format_def Let_def o push_def PRINTF_NTOA_BUFFER_SIZE_def)
qed

lemma ntoa_long_zeropad:
  assumes b: "2 \<le> unat base" "unat base \<le> 16"
    and z: "has flags FLAGS_ZEROPAD" and f: "\<not> has flags FLAGS_LEFT" "\<not> has flags FLAGS_HASH"
    "\<not> has flags FLAGS_PRECISION" "\<not> has flags FLAGS_PLUS" "\<not> has flags FLAGS_SPACE"
    "flags AND NOT FLAGS_HASH = flags"
    and w: "unat width \<le> 32" and u: "has flags FLAGS_UPPERCASE = upper"
  shows "ntoa_long v False base 0 width flags = (let t = number_text upper (unat base) (unat v)
    in replicate (unat width - length t) 48 @ t)"
proof -
  let ?t = "number_text upper (unat base) (unat v)"
  have d: "ntoa_digits 32 v base flags = rev ?t" using ntoa_digits_number [OF b] u by simp
  have o: "out_rev buf width' flags = rev buf" for buf width'
    using f z by (simp add: out_rev_def Let_def)
  have "ntoa_long v False base 0 width flags = ntoa_format (ntoa_digits 32 v base flags) False base 0 width flags"
    using f by (simp add: ntoa_long_def Let_def PRINTF_NTOA_BUFFER_SIZE_def)
  also have "\<dots> = ntoa_format (rev ?t) False base 0 width flags" by (simp only: d)
  also have "\<dots> = rev (push_zeros width (rev ?t))"
    using f z by (simp add: ntoa_format_def Let_def o has_def bit.conj_disj_distrib)
  finally show ?thesis
    using w by (simp add: push_zeros_def Let_def PRINTF_NTOA_BUFFER_SIZE_def)
qed

lemma decimal_text_short: "length (number_text upper 10 (nat \<bar>sint (a :: u32)\<bar>)) < 32"
proof -
  have "nat \<bar>sint a\<bar> < 10 ^ 10" using sint_greater_eq [of a] sint_less [of a] by simp
  then have "length (number_text upper 10 (nat \<bar>sint a\<bar>)) \<le> 10" by (intro length_number_text) simp_all
  then show ?thesis by simp
qed

lemma decimal_eq: "decimal v = (if v < 0 then [45] else []) @ number_text upper 10 (nat \<bar>v\<bar>)"
  by (auto simp: decimal_def number_text_10 radix_text_def)

lemma convert_int_signed:
  assumes "c = 100 \<or> c = 105"
  shows "convert_int c 0 0 0 (a # va) = Inr (decimal (sint a), va)"
proof -
  have "convert_int c 0 0 0 (a # va) = Inr (ntoa_long (magnitude (sint a)) (sint a < 0) 10 0 0 0, va)"
    by (rule disjE [OF assms]; simp add: convert_int_def va_arg_def; simp add: Let_def)
  then show ?thesis
    using decimal_text_short [of False a] decimal_eq [of "sint a" False]
    by (simp add: ntoa_long_plain unat_magnitude)
qed

lemma convert_int_unsigned:
  "convert_int 117 0 0 0 (a # va) = Inr (radix_text 10 (unat a), va)"
  "convert_int 120 0 0 0 (a # va) = Inr (number_text False 16 (unat a), va)"
  "convert_int 88 0 0 0 (a # va) = Inr (number_text True 16 (unat a), va)"
  by (simp_all add: convert_int_def va_arg_def ntoa_long_plain number_text_10 flag_eval)

lemma format_text_conversion:
  assumes "37 \<notin> set pre" "c \<in> {100, 105, 117, 120, 88, 111, 98, 99, 115, 112}"
    "convert str c 0 0 0 va = Inr (s, va')" "format_text str rest va' = Inr more"
  shows "format_text str (pre @ 37 # c # rest) va = Inr (pre @ s @ more)"
  using assms by (simp add: format_text_plain format_text_percent eval_conversion_plain)

text \<open>
  In any format, \<open>%d\<close> and \<open>%i\<close> print the decimal numeral of the argument read as a signed
  32-bit number, the most negative one included, \<open>%u\<close> its decimal numeral as an unsigned number,
  \<open>%x\<close> and \<open>%X\<close> its hexadecimal numeral with small and capital letters; each takes one argument.
\<close>

theorem printf_numbers:
  assumes plain: "37 \<notin> set pre" and more: "format_text str rest va = Inr more"
  shows "format_text str (pre @ [37, 100] @ rest) (a # va) = Inr (pre @ decimal (sint a) @ more) \<and>
    format_text str (pre @ [37, 105] @ rest) (a # va) = Inr (pre @ decimal (sint a) @ more) \<and>
    format_text str (pre @ [37, 117] @ rest) (a # va) = Inr (pre @ radix_text 10 (unat a) @ more) \<and>
    format_text str (pre @ [37, 120] @ rest) (a # va) = Inr (pre @ number_text False 16 (unat a) @ more) \<and>
    format_text str (pre @ [37, 88] @ rest) (a # va) = Inr (pre @ number_text True 16 (unat a) @ more)"
  using format_text_conversion [OF plain _ _ more, of _ "a # va"]
  by (simp_all add: convert_def convert_int_signed convert_int_unsigned)

theorem printf_numbers_witness:
  "format_text (\<lambda>_. []) [120, 61, 37, 100, 10] [0x80000000] = Inr ([120, 61] @ decimal (- 2147483648) @ [10])
   \<and> format_text (\<lambda>_. []) [37, 120] [0xBEEF] = Inr [98, 101, 101, 102]"
  using printf_numbers [of "[120, 61]" "\<lambda>_. []" "[10]" "[]" "[10]" "0x80000000"]
    printf_numbers [of "[]" "\<lambda>_. []" "[]" "[]" "[]" "0xBEEF"]
  by (simp add: format_text.simps [of "\<lambda>_. []" "[10]"] number_text_def ndigit_def udigits.simps)

text \<open>\<open>%*.*s\<close>: width and precision from the arguments.\<close>

lemma strnlen_s_eq: "length s < 4294967296 \<Longrightarrow> strnlen_s s n = of_nat (min (unat n) (length s))"
proof (induction s n rule: strnlen_s.induct)
  case (2 c s n)
  show ?case
  proof (cases "n = 0")
    case False
    then have "0 < n" by (simp add: word_gt_0)
    then have "unat n = Suc (unat (n - 1))" using unat_gt_0 [of n] False by (simp add: unat_minus_one)
    then show ?thesis using False 2 by simp
  qed simp
qed simp

definition field :: "int \<Rightarrow> u8 list \<Rightarrow> u8 list" where
  "field w t = (if w < 0 then t @ replicate (nat (- w) - length t) 32 else replicate (nat w - length t) 32 @ t)"

lemma convert_string_precision:
  assumes len: "length (str a) < 4294967296" and p: "has flags FLAGS_PRECISION"
  shows "convert_string str flags width p (a # va) = (let t = take (unat p) (str a) in
    Inr (if has flags FLAGS_LEFT then t @ replicate (unat width - length t) 32
         else replicate (unat width - length t) 32 @ t, va))"
proof -
  let ?p = "unat p"
  have u: "unat (of_nat (min n (length (str a))) :: u32) = min n (length (str a))" for n
    using len by (intro unat_of_nat_u32) simp
  define l where "l = strnlen_s (str a) (if p \<noteq> 0 then p else - 1)"
  have l: "unat l = min (if p = 0 then unat (- 1 :: u32) else ?p) (length (str a))"
    using len u by (simp add: l_def strnlen_s_eq)
  have "unat (if l < p then l else p) = min ?p (length (str a))"
  proof (cases "p = 0")
    case False
    then show ?thesis using l by (auto simp: word_less_nat_alt min_def)
  qed simp
  then have "unat (if l < p then l else p) = length (take ?p (str a))" by (simp add: min.commute)
  then show ?thesis
    using p by (cases "l < p") (simp_all add: convert_string_def va_arg_def pad_eq Let_def flip: l_def del: length_take)
qed

lemma unat_sint: "0 \<le> sint w \<Longrightarrow> unat (w :: u32) = nat (sint w)"
  using unat_magnitude [of w] by (cases "sint w = 0") (auto simp: magnitude_def signed_eq_0_iff)

lemma unat_neg_sint: "sint (w :: u32) < 0 \<Longrightarrow> unat (- w) = nat (- sint w)"
  using unat_magnitude [of w] by (simp add: magnitude_def)

lemma eval_star_precision:
  assumes "c = 115"
  shows "eval_conversion str (42 # 46 # 42 # c # rest) (w # p # va)
    = bind_outcome (convert str c ((if sint w < 0 then FLAGS_LEFT else 0) OR FLAGS_PRECISION)
        (if sint w < 0 then - w else w) (if 0 < sint p then p else 0) va)
        (\<lambda>(text, va). Inr (text, rest, va))"
  using assms by (simp add: eval_conversion_def eval_width_def eval_precision_def va_arg_def is_digit_simps)

text \<open>
  \<open>%*.*s\<close> prints the first \<open>p\<close> characters of the string (none for \<open>p \<le> 0\<close>), never reading
  more, right-justified with spaces in a field of \<open>w\<close> characters, or left-justified in one of
  \<open>-w\<close> when \<open>w\<close> is negative; a longer text is not cut.
\<close>

theorem printf_string_field:
  assumes "37 \<notin> set pre" "format_text str rest va = Inr more" "length (str a) < 4294967296"
  shows "format_text str (pre @ [37, 42, 46, 42, 115] @ rest) (w # p # a # va)
    = Inr (pre @ field (sint w) (take (nat (sint p)) (str a)) @ more)"
proof -
  let ?p = "if 0 < sint p then p else 0" and ?w = "if sint w < 0 then - w else w"
  let ?f = "(if sint w < 0 then FLAGS_LEFT else 0) OR FLAGS_PRECISION"
  have f: "has ?f FLAGS_PRECISION" "has ?f FLAGS_LEFT \<longleftrightarrow> sint w < 0" by (simp_all add: flag_eval)
  have p: "unat ?p = nat (sint p)" by (simp add: unat_sint)
  have w: "unat ?w = nat \<bar>sint w\<bar>" by (simp add: unat_sint unat_neg_sint)
  have "convert_string str ?f ?w ?p (a # va) = Inr (field (sint w) (take (nat (sint p)) (str a)), va)"
    by (simp only: convert_string_precision [where str = str, OF assms(3) f(1)] p w f(2))
      (simp add: field_def Let_def)
  then show ?thesis
    using assms(1,2) by (simp add: format_text_plain format_text_percent eval_star_precision convert_def)
qed

theorem printf_string_field_witness:
  "format_text (\<lambda>_. [97, 98, 99, 100]) [60, 37, 42, 46, 42, 115, 62] [6, 3, 0] = Inr [60, 32, 32, 32, 97, 98, 99, 62]
   \<and> format_text (\<lambda>_. [97, 98]) [37, 42, 46, 42, 115, 124] [- 4, 9, 0] = Inr [97, 98, 32, 32, 124]"
proof -
  have "format_text str [62] [] = Inr [62]" "format_text str [124] [] = Inr [124]" for str
    by (simp_all add: format_text.simps [of _ "[_]"])
  moreover have "field (sint (6 :: u32)) (take (nat (sint (3 :: u32))) [97, 98, 99, 100]) = [32, 32, 32, 97, 98, 99]"
    "field (sint (- 4 :: u32)) (take (nat (sint (9 :: u32))) [97, 98]) = [97, 98, 32, 32]"
    by code_simp+
  ultimately show ?thesis
    using printf_string_field [of "[60]" "\<lambda>_. [97, 98, 99, 100]" "[62]" "[]" "[62]" 0 6 3]
      printf_string_field [of "[]" "\<lambda>_. [97, 98]" "[124]" "[]" "[124]" 0 "- 4" 9]
    by simp
qed

text \<open>\<open>%08x\<close> and \<open>%p\<close>.\<close>

lemma hex_text_length: "length (number_text upper 16 (unat (v :: u32))) \<le> 8"
  using unat_lt_2p32 [of v] by (intro length_number_text) (simp_all del: unat_lt_2p32)

definition hex8 :: "bool \<Rightarrow> u32 \<Rightarrow> u8 list" where
  "hex8 upper v = (let t = number_text upper 16 (unat v) in replicate (8 - length t) 48 @ t)"

lemma eval_conversion_08x:
  "eval_conversion str (48 # 56 # 120 # rest) (a # va) = Inr (hex8 False a, rest, va)"
proof -
  have "convert str 120 FLAGS_ZEROPAD 8 0 (a # va) = Inr (ntoa_long a False 16 0 8 FLAGS_ZEROPAD, va)"
    by (simp add: convert_def convert_int_def va_arg_def flag_eval)
  moreover have "ntoa_long a False 16 0 8 FLAGS_ZEROPAD = hex8 False a"
    by (subst ntoa_long_zeropad [where upper = False]) (simp_all add: flag_eval hex8_def)
  ultimately show ?thesis
    by (simp add: eval_conversion_def eval_width_def eval_precision_def is_digit_simps)
qed

lemma eval_conversion_p:
  "eval_conversion str (112 # rest) (a # va) = Inr (hex8 True a, rest, va)"
proof -
  have "ntoa_long a False 16 0 8 (0 OR FLAGS_ZEROPAD OR FLAGS_UPPERCASE) = hex8 True a"
    by (subst ntoa_long_zeropad [where upper = True]) (simp_all add: flag_eval hex8_def)
  then show ?thesis
    by (simp add: eval_conversion_plain convert_def convert_pointer_def va_arg_def)
qed

text \<open>
  \<open>%08x\<close> and \<open>%p\<close> print exactly eight characters, the zero-padded hexadecimal numeral of
  the argument with small and capital letters.
\<close>

theorem printf_hex8:
  assumes "37 \<notin> set pre" "format_text str rest va = Inr more"
  shows "format_text str (pre @ [37, 48, 56, 120] @ rest) (a # va) = Inr (pre @ hex8 False a @ more) \<and>
    format_text str (pre @ [37, 112] @ rest) (a # va) = Inr (pre @ hex8 True a @ more) \<and>
    length (hex8 upper a) = 8"
  using assms hex_text_length [of upper a]
  by (simp add: format_text_plain format_text_percent eval_conversion_08x eval_conversion_p) (simp add: hex8_def Let_def)

theorem printf_hex8_witness:
  "format_text (\<lambda>_. []) [58, 37, 112] [0xBEEF] = Inr ([58] @ hex8 True 0xBEEF)
   \<and> hex8 True 0xBEEF = [48, 48, 48, 48, 66, 69, 69, 70]"
proof -
  have n: "number_text True 16 (unat (0xBEEF :: u32)) = [66, 69, 69, 70]"
    by (simp add: number_text_def ndigit_def udigits.simps)
  have h: "hex8 True 0xBEEF = [48, 48, 48, 48, 66, 69, 69, 70]"
    by (simp only: hex8_def Let_def n) (simp add: numeral_eq_Suc)
  have "37 \<notin> set [58 :: u8]" by simp
  from printf_hex8 [OF this format_text_Nil [where str = "\<lambda>_. []" and va = "[]"], where a = "0xBEEF" and upper = True]
  show ?thesis using h by (simp only: append_Nil append_Cons append_Nil2 simp_thms)
qed

text \<open>
  C14: whatever the format and its arguments print, \<open>snprintf\<close> with a buffer of \<open>count\<close> bytes
  writes nothing outside it, leaves the first \<open>count - 1\<close> characters of the text in it followed
  by a zero byte, and returns the length of the whole text, as \<open>printf\<close> does, which passes the
  same characters to the console; the zero bytes of the text (from \<open>%c\<close>) are not printed.
\<close>

theorem snprintf_bounded:
  assumes fmt: "format_text str format va = Inr cs" and len: "length cs < 2147483648" and buf: "buf \<noteq> 0"
  shows "\<exists>m'. snprintf str m buf count format va = Inr (m', int (length cs)) \<and>
    (\<forall>a. unat count \<le> unat (a - buf) \<longrightarrow> m' a = m a) \<and>
    (count \<noteq> 0 \<longrightarrow> (\<exists>n. n = min (unat count - 1) (length cs) \<and> m' (buf + of_nat n) = 0 \<and>
      (\<forall>i < n. m' (buf + of_nat i) = cs ! i))) \<and>
    printf str format va console = Inr (console @ filter (\<lambda>c. c \<noteq> 0) cs, int (length cs))"
proof -
  let ?ws = "take (unat count - 1) cs @ [0]"
  let ?m = "if count = 0 then m else write_bytes m buf ?ws"
  have s: "sint (of_nat (length cs) :: u32) = int (length cs)"
    using len by (simp add: signed_of_nat signed_take_bit_int_eq_self)
  have 1: "snprintf str m buf count format va = Inr (?m, int (length cs))"
    using vsnprintf_core_buffer [OF fmt len, of buf count m] buf by (simp add: snprintf_def)
  have 2: "?m a = m a" if "unat count \<le> unat (a - buf)" for a
  proof (cases "count = 0")
    case False
    then have "0 < unat count" by (simp add: unat_gt_0)
    then have "\<not> in_block a buf (length ?ws)" using that by (simp add: in_block_def)
    then show ?thesis by (simp add: write_bytes_outside)
  qed simp
  have 3: "?m (buf + of_nat n) = 0 \<and> (\<forall>i < n. ?m (buf + of_nat i) = cs ! i)"
    if "count \<noteq> 0" "n = min (unat count - 1) (length cs)" for n
  proof -
    have "n = length (take (unat count - 1) cs)" "length ?ws \<le> 4294967296"
      using that(2) len by simp_all
    then have "write_bytes m buf ?ws (buf + of_nat n) = 0"
      "\<forall>i < n. write_bytes m buf ?ws (buf + of_nat i) = take (unat count - 1) cs ! i"
      using write_bytes_nth [of _ ?ws m buf] by (auto simp: nth_append)
    then show ?thesis using that by simp
  qed
  have 4: "printf str format va console = Inr (console @ filter (\<lambda>c. c \<noteq> 0) cs, int (length cs))"
    by (simp add: printf_def vsnprintf_core_def fmt Let_def out_all_char s) (simp add: out_char_def)
  show ?thesis using 1 2 3 4 by blast
qed

theorem snprintf_bounded_witness:
  "\<exists>m'. snprintf (\<lambda>_. []) (\<lambda>_. 7) 0x1000 3 [104, 101, 108, 108, 111] [] = Inr (m', 5) \<and> m' 0x1003 = 7 \<and> m' 0x1002 = 0"
proof -
  have "format_text (\<lambda>_. []) [104, 101, 108, 108, 111] [] = Inr [104, 101, 108, 108, 111]"
    using format_text_plain [of "[104, 101, 108, 108, 111]" "\<lambda>_. []" "[]" "[]"] by simp
  from snprintf_bounded [OF this, of "0x1000" "\<lambda>_. 7" 3 "[]"] obtain m' where
    "snprintf (\<lambda>_. []) (\<lambda>_. 7) 0x1000 3 [104, 101, 108, 108, 111] [] = Inr (m', 5)"
    "\<forall>a. 3 \<le> unat (a - 0x1000) \<longrightarrow> m' a = 7" "m' (0x1000 + of_nat (min 2 5)) = 0"
    by auto
  then show ?thesis by (intro exI [of _ m']) simp
qed

text \<open>
  A format that ends with an unfinished conversion makes the loop read past its terminating
  zero, whatever the arguments are; \<open>%lld\<close> prints nothing and leaves its argument for the next
  conversion.
\<close>

theorem printf_unsupported:
  assumes "37 \<notin> set pre"
  shows "format_text str (pre @ [37]) va = Inl WildAccess \<and>
    format_text str (pre @ [37, 108]) va = Inl WildAccess \<and>
    format_text str (pre @ [37, 108, 108, 100] @ [37, 100]) (low # high # va) = Inr (pre @ decimal (sint low))"
proof -
  have "convert str 100 (FLAGS_LONG OR FLAGS_LONG_LONG) 0 0 va = Inr ([], va)" for va
    by (simp add: convert_def convert_int_def flag_eval)
  then have lld: "eval_conversion str (108 # 108 # 100 # rest) va = Inr ([], rest, va)" for rest va
    by (simp add: eval_conversion_def eval_width_def eval_precision_def is_digit_simps)
  have d: "format_text str [37, 100] (low # high # va) = Inr (decimal (sint low))"
    by (simp add: format_text_percent eval_conversion_plain convert_def convert_int_signed)
  have e: "eval_conversion str [] va = Inl WildAccess" "eval_conversion str [108] va = Inl WildAccess"
    by (simp_all add: eval_conversion_def eval_width_def eval_precision_def is_digit_simps)
  show ?thesis
    using assms by (simp add: format_text_plain format_text_percent [of str "[]"] format_text_percent [of str "[108]"]
        format_text_percent [of str "108 # _"] e lld d)
qed

theorem printf_unsupported_witness:
  "format_text (\<lambda>_. []) [49, 48, 48, 37] [] = Inl WildAccess"
  using printf_unsupported [of "[49, 48, 48]" "\<lambda>_. []" "[]"] by simp

section \<open>Evaluating formats\<close>

lemma format_percent_s:
  "format_text str (37 # 115 # fmt) (p # va) = bind_outcome (format_text str fmt va) (\<lambda>t. Inr (str p @ t))"
  by (subst format_text.simps)
    (simp add: eval_conversion_def eval_width_def eval_precision_def convert_def convert_string_def va_arg_def
      is_digit_def Let_def pad_eq split: list.splits)

lemma format_char: "c \<noteq> 37 \<Longrightarrow> format_text str (c # fmt) va = bind_outcome (format_text str fmt va) (\<lambda>t. Inr (c # t))"
  by (subst format_text.simps) simp

lemma format_end: "format_text str [] va = Inr []"
  by (subst format_text.simps) simp

lemma format_zeropad_2:
  "eval_conversion str (48 # 50 # 120 # fmt) (a # va)
    = Inr (let t = number_text False 16 (unat a) in replicate (2 - length t) 48 @ t, fmt, va)"
proof -
  have "convert str 120 FLAGS_ZEROPAD 2 0 (a # va) = Inr (ntoa_long a False 16 0 2 FLAGS_ZEROPAD, va)"
    by (simp add: convert_def convert_int_def va_arg_def flag_eval)
  moreover have "ntoa_long a False 16 0 2 FLAGS_ZEROPAD
      = (let t = number_text False 16 (unat a) in replicate (2 - length t) 48 @ t)"
    by (subst ntoa_long_zeropad [where upper = False]) (simp_all add: flag_eval)
  ultimately show ?thesis by (simp add: eval_conversion_def eval_width_def eval_precision_def is_digit_simps)
qed

definition hex2 :: "u8 \<Rightarrow> u8 list" where
  "hex2 c = (let t = number_text False 16 (unat c) in replicate (2 - length t) 48 @ t)"

lemma ndigit_nonzero: "d < 16 \<Longrightarrow> ndigit upper d \<noteq> 0"
proof -
  assume "d < 16"
  then have "d \<in> set [0..<16]" by simp
  then show ?thesis by (simp add: ndigit_def upt_rec) auto
qed

lemma number_text_nonzero: "2 \<le> b \<Longrightarrow> b \<le> 16 \<Longrightarrow> 0 \<notin> set (number_text upper b n)"
proof
  assume b: "2 \<le> b" "b \<le> 16" and "0 \<in> set (number_text upper b n)"
  then obtain d where "d \<in> set (udigits b n)" "ndigit upper d = 0"
    by (auto simp: number_text_def split: if_splits)
  then show False using b udigits_less [of d b n] ndigit_nonzero [of d upper] by simp
qed

lemma hex_nonzero: "0 \<notin> set (hex8 upper w)" "0 \<notin> set (hex2 c)"
  using number_text_nonzero [of 16] by (auto simp: hex8_def hex2_def Let_def)

lemma unat_u8_u32: "unat (ucast (c :: u8) :: u32) = unat c"
  using unsigned_less [of c, where ?'a = nat] by (simp add: unsigned_ucast_eq take_bit_nat_eq_self)

lemma format_percent_d:
  "c = 100 \<or> c = 105 \<Longrightarrow> format_text str (37 # c # fmt) (a # va) = bind_outcome (format_text str fmt va) (\<lambda>t. Inr (decimal (sint a) @ t))"
  by (auto simp: format_text_percent eval_conversion_plain convert_def convert_int_signed)

lemma format_percent_x:
  "format_text str (37 # 120 # fmt) (a # va) = bind_outcome (format_text str fmt va) (\<lambda>t. Inr (number_text False 16 (unat a) @ t))"
  by (simp add: format_text_percent eval_conversion_plain convert_def convert_int_unsigned)

lemma format_percent_hex:
  "format_text str (37 # 48 # 56 # 120 # fmt) (a # va) = bind_outcome (format_text str fmt va) (\<lambda>t. Inr (hex8 False a @ t))"
  "format_text str (37 # 112 # fmt) (a # va) = bind_outcome (format_text str fmt va) (\<lambda>t. Inr (hex8 True a @ t))"
  "format_text str (37 # 48 # 50 # 120 # fmt) (ucast (b :: u8) # va) = bind_outcome (format_text str fmt va) (\<lambda>t. Inr (hex2 b @ t))"
  by (simp_all add: format_text_percent eval_conversion_08x eval_conversion_p format_zeropad_2 hex2_def unat_u8_u32)

lemmas format_steps = format_percent_s format_percent_d [of 100, simplified] format_percent_x format_percent_hex format_char format_end

lemma decimal_nonzero: "0 \<notin> set (decimal n)"
proof -
  have "digit_char d \<noteq> 0" if "d < 10" for d
  proof -
    have "d \<in> set [0..<10]" using that by simp
    then show ?thesis by (simp add: digit_char_def upt_rec) auto
  qed
  then show ?thesis using udigits_less [of _ 10] by (auto simp: decimal_def)
qed

lemma printf_text:
  "format_text str fmt va = Inr t \<Longrightarrow> 0 \<notin> set t \<Longrightarrow> \<exists>n. printf str fmt va con = Inr (con @ t, n)"
proof -
  assume "format_text str fmt va = Inr t" "0 \<notin> set t"
  moreover from this(2) have "filter (\<lambda>c. c \<noteq> 0) t = t" by (intro filter_True) auto
  ultimately show ?thesis by (simp add: printf_def vsnprintf_core_def Let_def out_all_char out_char_def)
qed

end
