(* ===== verification/Stdio.thy ===== *)
theory Stdio
  imports Cstring Printf
begin

text \<open>
  Character input and output (\<open>kern/stdlib.c\<close>: \<open>puts\<close>, \<open>putc\<close>, \<open>getc\<close>, \<open>gets\<close>,
  \<open>set_echo\<close>, the debug log). The texts sent to \<open>stdout\<close> and \<open>dbgout\<close> are the lists of
  their characters, absent for a \<open>NULL\<close> device; theory Console says what a console makes of
  them. The device behind \<open>stdin\<close> is a parameter, its \<open>getc\<close> function; the locale
  \<open>char_source\<close> states what \<open>gets\<close> needs of it, theory Keyboard provides it.
\<close>

section \<open>The code\<close>

record 'i io =
  stdin_dev :: 'i
  stdout_text :: "u8 list option"
  dbgout_text :: "u8 list option"
  should_echo :: int
  log_level :: int

definition putc :: "u8 \<Rightarrow> 'i io \<Rightarrow> 'i io" where
  "putc c st = (case stdout_text st of None \<Rightarrow> st | Some t \<Rightarrow> st\<lparr>stdout_text := Some (t @ [c])\<rparr>)"

partial_function (option) puts :: "mem \<Rightarrow> u32 \<Rightarrow> 'i io \<Rightarrow> 'i io option" where
  "puts m str st = (if m str \<noteq> 0 then puts m (str + 1) (putc (m str) st) else Some st)"

type_synonym 'i get_char = "'i \<Rightarrow> (u8 \<times> 'i) outcome option"

definition getc :: "'i get_char \<Rightarrow> 'i io \<Rightarrow> (u8 \<times> 'i io) outcome option" where
  "getc dev_getc st = run_bind (dev_getc (stdin_dev st)) (\<lambda>(c, i). Some (Inr (c, st\<lparr>stdin_dev := i\<rparr>)))"

definition set_echo :: "int \<Rightarrow> 'i io \<Rightarrow> 'i io" where
  "set_echo echo st = st\<lparr>should_echo := echo\<rparr>"

definition echo_back :: "u8 \<Rightarrow> 'i io \<Rightarrow> 'i io" where
  "echo_back c st = (if should_echo st \<noteq> 0 then putc c st else st)"

text \<open>
  One round of the loop. \<open>continue\<close> goes to the test \<open>*str++ != '\n'\<close>, so a backspace moves
  the pointer back once more than it should and the test reads the byte there.
\<close>

partial_function (option) gets_loop ::
  "'i get_char \<Rightarrow> u32 \<Rightarrow> u32 \<Rightarrow> mem \<Rightarrow> 'i io \<Rightarrow> (mem \<times> 'i io) outcome option" where
  "gets_loop dev_getc start str m st =
     run_bind (getc dev_getc st) (\<lambda>(c, st).
       let m = m(str := c);
           (str, m, st) =
             (if c = 8
              then if start < str then (str - 2, m(str := 0, str - 1 := 0), echo_back c st)
                   else if str = start then (str - 1, m(str := 0), st)
                   else (str, m, st)
              else (str, m, echo_back c st))
       in if m str \<noteq> 10 then gets_loop dev_getc start (str + 1) m st
          else Some (Inr (m(str := 0), st)))"

definition gets :: "'i get_char \<Rightarrow> u32 \<Rightarrow> mem \<Rightarrow> 'i io \<Rightarrow> (mem \<times> 'i io) outcome option" where
  "gets dev_getc str m st = gets_loop dev_getc str str m st"

section \<open>The debug log\<close>

definition debug_names :: "cstring list" where
  "debug_names = [[70, 65, 84, 65, 76], [69, 82, 82, 79, 82], [87, 65, 82, 78], [73, 78, 70, 79],
     [68, 69, 66, 85, 71], [65, 76, 76], [79, 70, 70]]"

definition debug_putc :: "u8 \<Rightarrow> 'i io \<Rightarrow> 'i io" where
  "debug_putc c st = (case dbgout_text st of None \<Rightarrow> st | Some t \<Rightarrow> st\<lparr>dbgout_text := Some (t @ [c])\<rparr>)"

definition set_log_level :: "int \<Rightarrow> 'i io \<Rightarrow> 'i io" where
  "set_log_level level st = st\<lparr>log_level := level\<rparr>"

definition get_log_level :: "'i io \<Rightarrow> int" where
  "get_log_level st = log_level st"

text \<open>
  \<open>str\<close> gives the strings behind pointers; the prefix \<open>"[%s] %s: "\<close> is printed with the level's
  name and the function at \<open>func\<close>, each behind a pointer of its own here.
\<close>

definition log_prefix :: cstring where
  "log_prefix = [91, 37, 115, 93, 32, 37, 115, 58, 32]"

definition debug_printf ::
  "(u32 \<Rightarrow> cstring) \<Rightarrow> nat \<Rightarrow> cstring \<Rightarrow> cstring \<Rightarrow> u32 list \<Rightarrow> 'i io \<Rightarrow> 'i io outcome" where
  "debug_printf str level func fmt va st =
     (if log_level st < int level then Inr st
      else if length debug_names \<le> level then Inl WildAccess
      else bind_outcome (fctprintf debug_putc (\<lambda>p. if p = 0 then debug_names ! level else func) log_prefix [0, 1] st)
        (\<lambda>(st, _). bind_outcome (vfctprintf debug_putc str fmt va st) (\<lambda>(st, _). Inr (debug_putc 10 st))))"

definition dprintf_raw :: "(u32 \<Rightarrow> cstring) \<Rightarrow> cstring \<Rightarrow> u32 list \<Rightarrow> 'i io \<Rightarrow> 'i io outcome" where
  "dprintf_raw str fmt va st = bind_outcome (vfctprintf debug_putc str fmt va st) (\<lambda>(st, _). Inr st)"

section \<open>Output\<close>

lemma puts_cstr:
  "cstr m p s \<Longrightarrow> puts m p st = Some (fold putc s st)"
proof (induction s arbitrary: p st)
  case Nil
  then show ?case by (simp add: puts.simps)
next
  case (Cons c s)
  then show ?case by (subst puts.simps) simp
qed

lemma putc_fields [simp]:
  "stdin_dev (putc c st) = stdin_dev st" "should_echo (putc c st) = should_echo st"
  "dbgout_text (putc c st) = dbgout_text st" "log_level (putc c st) = log_level st"
  "stdout_text (putc c st) = map_option (\<lambda>t. t @ [c]) (stdout_text st)"
  by (simp_all add: putc_def split: option.splits)

lemma fold_putc_fields [simp]:
  "stdin_dev (fold putc s st) = stdin_dev st" "should_echo (fold putc s st) = should_echo st"
  "dbgout_text (fold putc s st) = dbgout_text st" "log_level (fold putc s st) = log_level st"
  "stdout_text (fold putc s st) = map_option (\<lambda>t. t @ s) (stdout_text st)"
  by (induction s arbitrary: st) (simp_all add: option.map_comp comp_def option.map_ident)

lemma echo_back_fields [simp]:
  "stdin_dev (echo_back c st) = stdin_dev st" "should_echo (echo_back c st) = should_echo st"
  "stdout_text (echo_back c st) = (if should_echo st \<noteq> 0 then map_option (\<lambda>t. t @ [c]) (stdout_text st) else stdout_text st)"
  by (simp_all add: echo_back_def)

section \<open>Line editing\<close>

text \<open>
  What a typed line becomes, and what is echoed: a backspace takes the last character away and
  is echoed if there is one.
\<close>

fun edit :: "cstring \<Rightarrow> u8 list \<Rightarrow> cstring" where
  "edit line [] = line"
| "edit line (c # cs) = edit (if c = 8 then butlast line else line @ [c]) cs"

fun echoed :: "cstring \<Rightarrow> u8 list \<Rightarrow> u8 list" where
  "echoed line [] = []"
| "echoed line (c # cs) = (if c = 8 \<and> line = [] then [] else [c])
     @ echoed (if c = 8 then butlast line else line @ [c]) cs"

text \<open>The line typed so far lies at the start of the buffer.\<close>

definition line_at :: "mem \<Rightarrow> u32 \<Rightarrow> cstring \<Rightarrow> bool" where
  "line_at m start line \<longleftrightarrow> (\<forall>i < length line. m (start + of_nat i) = line ! i)"

lemma line_at_Nil [simp]: "line_at m start []"
  by (simp add: line_at_def)

lemma offset_neq: "i \<noteq> j \<Longrightarrow> i < 4294967296 \<Longrightarrow> j < 4294967296 \<Longrightarrow> (p :: u32) + of_nat i \<noteq> p + of_nat j"
  using unat_of_nat_u32 [of i] unat_of_nat_u32 [of j] by auto

lemma before_start: "n < 4294967295 \<Longrightarrow> (start :: u32) + of_nat n \<noteq> start - 1"
proof
  assume "n < 4294967295" "start + of_nat n = start - 1"
  then have "(of_nat n :: u32) = - 1" by (metis add_left_cancel diff_conv_add_uminus)
  then have "unat (of_nat n :: u32) = unat (- 1 :: u32)" by simp
  then show False using \<open>n < 4294967295\<close>
    by (simp add: unat_of_nat_u32 unsigned_minus_1_eq_mask mask_eq_exp_minus_1)
qed

lemma line_at_beyond:
  "line_at m start line \<Longrightarrow> length line \<le> k \<Longrightarrow> k < 4294967296 \<Longrightarrow> line_at (m(start + of_nat k := c)) start line"
  using offset_neq [of _ k start] by (simp add: line_at_def)

lemma line_at_snoc:
  "line_at m start line \<Longrightarrow> length line < 4294967296 \<Longrightarrow>
   line_at (m(start + of_nat (length line) := c)) start (line @ [c])"
  using offset_neq [of _ "length line" start] by (auto simp: line_at_def nth_append less_Suc_eq)

lemma line_at_butlast: "line_at m start line \<Longrightarrow> line_at m start (butlast line)"
  by (simp add: line_at_def nth_butlast)

lemma line_at_cstr:
  "line_at m start line \<Longrightarrow> cstring_ok line \<Longrightarrow> length line < 4294967296 \<Longrightarrow>
   cstr (m(start + of_nat (length line) := 0)) start line"
  using line_at_beyond [of m start line "length line" 0] by (simp add: cstr_iff line_at_def)

text \<open>What \<open>gets\<close> relies on: the input delivers a list of characters, one per call.\<close>

locale char_source =
  fixes dev_getc :: "'i get_char"
    and delivers :: "'i \<Rightarrow> u8 list \<Rightarrow> bool"
  assumes delivers_Cons: "delivers i (c # cs) \<Longrightarrow> \<exists>k. dev_getc i = Some (Inr (c, k)) \<and> delivers k cs"
begin

lemma getc_delivers:
  assumes "delivers (stdin_dev st) (c # cs)"
  obtains k where "getc dev_getc st = Some (Inr (c, st\<lparr>stdin_dev := k\<rparr>))" "delivers k cs"
  using delivers_Cons [OF assms] by (auto simp: getc_def)

lemma gets_loop_line:
  assumes "delivers (stdin_dev st) (cs @ 10 # rest)" "10 \<notin> set cs" "cstring_ok cs"
    and "line_at m start line" "10 \<notin> set line" "cstring_ok line"
    and "m (start - 1) \<noteq> 10" "unat start + length line + length cs < 4294967295"
  shows "\<exists>m' st'. gets_loop dev_getc start (start + of_nat (length line)) m st = Some (Inr (m', st'))
    \<and> cstr m' start (edit line cs) \<and> (\<forall>a. \<not> in_block a start (Suc (length line + length cs)) \<longrightarrow> m' a = m a)
    \<and> delivers (stdin_dev st') rest \<and> should_echo st' = should_echo st
    \<and> stdout_text st' = (if should_echo st \<noteq> 0 then map_option (\<lambda>t. t @ echoed line cs @ [10]) (stdout_text st)
        else stdout_text st)"
  using assms
proof (induction cs arbitrary: line m st)
  case Nil
  then have "delivers (stdin_dev st) (10 # rest)" by simp
  then obtain k where g: "getc dev_getc st = Some (Inr (10, st\<lparr>stdin_dev := k\<rparr>))" and k: "delivers k rest"
    by (rule getc_delivers)
  have blk: "in_block (start + of_nat (length line)) start (Suc (length line))"
    using Nil by (intro in_block_offset) (simp add: unat_of_nat_u32)
  let ?m = "m(start + of_nat (length line) := 0)"
  have "gets_loop dev_getc start (start + of_nat (length line)) m st
      = Some (Inr (?m, echo_back 10 (st\<lparr>stdin_dev := k\<rparr>)))"
    by (subst gets_loop.simps) (simp add: g)
  moreover have "cstr ?m start line" using Nil line_at_cstr by simp
  moreover have "\<forall>a. \<not> in_block a start (Suc (length line)) \<longrightarrow> ?m a = m a" using blk by auto
  ultimately show ?case
    by (intro exI [of _ ?m] exI [of _ "echo_back 10 (st\<lparr>stdin_dev := k\<rparr>)"]) (simp add: k del: fun_upd_apply)
next
  case (Cons c cs)
  let ?p = "start + of_nat (length line)"
  have "delivers (stdin_dev st) (c # cs @ 10 # rest)" using Cons.prems by simp
  then obtain k where g: "getc dev_getc st = Some (Inr (c, st\<lparr>stdin_dev := k\<rparr>))" and d: "delivers k (cs @ 10 # rest)"
    by (rule getc_delivers)
  have ps: "start < ?p" if "line \<noteq> []"
    using that Cons.prems(8) by (simp add: word_less_nat_alt unat_add_u32 unat_of_nat_u32)
  define line' where "line' = (if c = 8 then butlast line else line @ [c])"
  define m1 where "m1 = (if c = 8 then (if line = [] then m(?p := 0) else m(?p := 0, ?p - 1 := 0)) else m(?p := c))"
  define st1 where "st1 = (if c = 8 \<and> line = [] then st\<lparr>stdin_dev := k\<rparr> else echo_back c (st\<lparr>stdin_dev := k\<rparr>))"
  have prev: "?p - 1 = start + of_nat (length (butlast line))" if "line \<noteq> []"
    using that by (cases line rule: rev_cases) simp_all
  have len: "length line' + length cs \<le> Suc (length line + length cs)" "length line < 4294967295"
    using Cons.prems(8) by (auto simp: line'_def)
  have at: "line_at m1 start line'"
  proof (cases "c = 8")
    case True
    have "line_at (m(?p := 0)) start (butlast line)"
      using line_at_beyond [OF line_at_butlast [OF Cons.prems(4)], of "length line" 0] len by simp
    then show ?thesis using True len line_at_beyond [of "m(?p := 0)" start "butlast line" "length (butlast line)" 0]
      by (simp add: m1_def line'_def prev)
  next
    case False
    then show ?thesis using line_at_snoc [OF Cons.prems(4)] len by (simp add: m1_def line'_def)
  qed
  have before: "m1 (start - 1) \<noteq> 10"
    using Cons.prems(7) before_start [of "length line" start] before_start [of "length (butlast line)" start] len
    by (auto simp: m1_def prev split: if_splits)
  have step: "gets_loop dev_getc start ?p m st
      = gets_loop dev_getc start (start + of_nat (length line')) m1 st1"
  proof -
    have last: "m1 (?p - 2) \<noteq> 10" if c: "c = 8" "line \<noteq> []"
    proof (cases "butlast line" rule: rev_cases)
      case Nil
      then have "?p - 2 = start - 1" using c by (cases line) (auto split: if_splits)
      then show ?thesis using before by simp
    next
      case (snoc l d)
      then have l: "line' = l @ [d]" "d \<in> set line"
        using c in_set_butlastD [of d line] by (auto simp: line'_def)
      have "?p - 2 = start + of_nat (length l)" using prev [OF c(2)] snoc by (simp add: algebra_simps)
      moreover have "m1 (start + of_nat (length l)) = d" using at by (auto simp: line_at_def l nth_append)
      ultimately have "m1 (?p - 2) = d" by (simp only:)
      then show ?thesis using l(2) Cons.prems(5) by (simp only:) blast
    qed
    show ?thesis
    proof (cases "c = 8")
      case True
      then show ?thesis using last before ps prev
        by (subst gets_loop.simps) (auto simp: g m1_def st1_def line'_def algebra_simps)
    next
      case False
      then show ?thesis using Cons.prems(2)
        by (subst gets_loop.simps) (simp add: g m1_def st1_def line'_def algebra_simps)
    qed
  qed
  have "\<exists>m' st'. gets_loop dev_getc start (start + of_nat (length line')) m1 st1 = Some (Inr (m', st'))
    \<and> cstr m' start (edit line' cs) \<and> (\<forall>a. \<not> in_block a start (Suc (length line' + length cs)) \<longrightarrow> m' a = m1 a)
    \<and> delivers (stdin_dev st') rest \<and> should_echo st' = should_echo st1
    \<and> stdout_text st' = (if should_echo st1 \<noteq> 0 then map_option (\<lambda>t. t @ echoed line' cs @ [10]) (stdout_text st1)
        else stdout_text st1)"
  proof (rule Cons.IH)
    show "delivers (stdin_dev st1) (cs @ 10 # rest)" using d by (simp add: st1_def)
    show "10 \<notin> set cs" "cstring_ok cs" using Cons.prems by simp_all
    show "10 \<notin> set line'" "cstring_ok line'" using Cons.prems in_set_butlastD [of _ line]
      by (auto simp: line'_def cstring_ok_def)
    show "unat start + length line' + length cs < 4294967295" using Cons.prems(8) len by simp
  qed (fact at before)+
  then obtain m' st' where r: "gets_loop dev_getc start (start + of_nat (length line')) m1 st1 = Some (Inr (m', st'))"
    "cstr m' start (edit line' cs)" "\<forall>a. \<not> in_block a start (Suc (length line' + length cs)) \<longrightarrow> m' a = m1 a"
    "delivers (stdin_dev st') rest" "should_echo st' = should_echo st1"
    "stdout_text st' = (if should_echo st1 \<noteq> 0 then map_option (\<lambda>t. t @ echoed line' cs @ [10]) (stdout_text st1)
        else stdout_text st1)" by blast
  have frame: "m' a = m a" if a: "\<not> in_block a start (Suc (length line + length (c # cs)))" for a
  proof -
    have "in_block (start + of_nat i) start (Suc (length line + length (c # cs)))" if "i \<le> length line" for i
      using that len by (intro in_block_offset) (simp add: unat_of_nat_u32)
    from this [of "length line"] this [of "length (butlast line)"] have "m1 a = m a"
      using a by (auto simp: m1_def prev)
    moreover have "\<not> in_block a start (Suc (length line' + length cs))"
      using a len(1) in_block_mono [of a start "Suc (length line' + length cs)"] by auto
    ultimately show ?thesis using r(3) by simp
  qed
  show ?case
  proof (intro exI [of _ m'] exI [of _ st'] conjI allI impI)
    show "gets_loop dev_getc start ?p m st = Some (Inr (m', st'))" using step r(1) by simp
    show "cstr m' start (edit line (c # cs))" using r(2) by (simp add: line'_def)
    show "should_echo st' = should_echo st" using r(5) by (simp add: st1_def)
    show "stdout_text st' = (if should_echo st \<noteq> 0 then map_option (\<lambda>t. t @ echoed line (c # cs) @ [10]) (stdout_text st)
        else stdout_text st)"
      using r(6) by (auto simp: st1_def line'_def option.map_comp comp_def)
  qed (use frame r(4) in auto)
qed

end

section \<open>The debug output\<close>

definition with_debug :: "u8 list \<Rightarrow> 'i io \<Rightarrow> 'i io" where
  "with_debug t st = st\<lparr>dbgout_text := map_option (\<lambda>s. s @ t) (dbgout_text st)\<rparr>"

lemma fold_debug_putc: "fold debug_putc t st = with_debug t st"
  by (induction t arbitrary: st)
    (simp_all add: with_debug_def debug_putc_def option.map_comp comp_def option.map_ident split: option.splits)

lemma with_debug_simps [simp]:
  "with_debug [] st = st" "with_debug t (with_debug s st) = with_debug (s @ t) st"
  by (simp_all add: with_debug_def option.map_comp comp_def option.map_ident)

lemma out_all_wrapped: "out_all (out_wrapped f) n t i s = fold f (filter (\<lambda>c. c \<noteq> 0) t) s"
  by (induction t arbitrary: i s) (simp_all add: out_wrapped_def)

lemma dprintf_raw_text:
  "format_text str fmt va = Inr t \<Longrightarrow> 0 \<notin> set t \<Longrightarrow> dprintf_raw str fmt va st = Inr (with_debug t st)"
proof -
  assume "format_text str fmt va = Inr t" "0 \<notin> set t"
  moreover from this(2) have "filter (\<lambda>c. c \<noteq> 0) t = t" by (intro filter_True) auto
  ultimately show ?thesis
    by (simp add: dprintf_raw_def vfctprintf_def vsnprintf_core_def Let_def out_all_wrapped fold_debug_putc out_wrapped_def)
qed

lemma dprintf_plain:
  "37 \<notin> set t \<Longrightarrow> 0 \<notin> set t \<Longrightarrow> dprintf_raw str t [] st = Inr (with_debug t st)"
  using format_text_plain [of t str "[]" "[]"] by (intro dprintf_raw_text) simp_all

end
