(* ===== verification/Pio.thy ===== *)
theory Pio
  imports Micro_Prelude
begin

text \<open>
  Port access (\<open>kern/io/pio.c\<close>). Each function is a single machine instruction; what the
  devices behind the ports do is a parameter, their state is \<open>'h\<close>. \<open>trace_ports\<close> is one such
  hardware: it records what is written and answers reads from a script.
\<close>

record 'h ports =
  outb :: "u16 \<Rightarrow> u8 \<Rightarrow> 'h \<Rightarrow> 'h"
  inb :: "u16 \<Rightarrow> 'h \<Rightarrow> u8 \<times> 'h"
  outw :: "u16 \<Rightarrow> u16 \<Rightarrow> 'h \<Rightarrow> 'h"
  inw :: "u16 \<Rightarrow> 'h \<Rightarrow> u16 \<times> 'h"
  outl :: "u16 \<Rightarrow> u32 \<Rightarrow> 'h \<Rightarrow> 'h"
  inl :: "u16 \<Rightarrow> 'h \<Rightarrow> u32 \<times> 'h"

definition trace_ports :: "(u16 \<Rightarrow> u32) \<Rightarrow> (u16 \<times> u32) list ports" where
  "trace_ports answer = \<lparr>outb = (\<lambda>p v h. h @ [(p, ucast v)]), inb = (\<lambda>p h. (ucast (answer p), h)),
     outw = (\<lambda>p v h. h @ [(p, ucast v)]), inw = (\<lambda>p h. (ucast (answer p), h)),
     outl = (\<lambda>p v h. h @ [(p, v)]), inl = (\<lambda>p h. (answer p, h))\<rparr>"

lemma trace_ports_simps [simp]:
  "outb (trace_ports a) p b h = h @ [(p, ucast b)]" "inb (trace_ports a) p h = (ucast (a p), h)"
  "outw (trace_ports a) p s h = h @ [(p, ucast s)]" "inw (trace_ports a) p h = (ucast (a p), h)"
  "outl (trace_ports a) p l h = h @ [(p, l)]" "inl (trace_ports a) p h = (a p, h)"
  by (simp_all add: trace_ports_def)

end
