(* ===== verification/Interrupts.thy ===== *)
theory Interrupts
  imports Stdio Pio
begin

text \<open>
  Interrupts (\<open>kern/sys/interrupts.c\<close>, \<open>kern/backtrace.c\<close>): the descriptor table, the two tables of
  handlers, the dispatch and the programming of the interrupt controllers. A handler is a name,
  \<open>None\<close> a null pointer; what a handler does is a parameter, except for those of this file. The
  stubs in assembly that build the frame and the loading of the table are not modelled. \<open>hang\<close>
  does not return: the value is \<open>None\<close>.
\<close>

unbundle bit_operations_syntax

section \<open>State\<close>

record idt_entry =
  offset_low :: u16
  selector :: u16
  reserved0 :: u8
  gate_type :: "4 word"
  storage_segment :: "1 word"
  dpl :: "2 word"
  present :: "1 word"
  offset_high :: u16

record intr_frame =
  fr_gs :: u16
  fr_fs :: u16
  fr_es :: u16
  fr_ds :: u16
  fr_ss :: u16
  fr_edi :: u32
  fr_esi :: u32
  fr_ebp :: u32
  fr_ebx :: u32
  fr_edx :: u32
  fr_ecx :: u32
  fr_eax :: u32
  fr_esp :: u32
  int_no :: u32
  err_code :: u32
  fr_eip :: u32
  fr_cs :: u32
  fr_eflags :: u32

text \<open>The handlers that the kernel registers; any other by its address.\<close>

datatype intr_handler = Do_nothing | Irq0_handle | Keyboard_handle_irq | Ne2k_handle_irq | Intr_at u32
datatype ll_intr_handler = Exception | Dump_regs | Syscall_handle | Ll_at u32

record ('h, 'i) cpu =
  idt :: "idt_entry list"
  bound_handlers :: "intr_handler option list"
  ll_bound_handlers :: "ll_intr_handler option list"
  chw :: 'h
  cmem :: mem
  cio :: "'i io"

type_synonym ('h, 'i, 'z) intr_call = "u32 \<Rightarrow> u32 \<Rightarrow> ('h, 'i, 'z) cpu_scheme \<Rightarrow> ('h, 'i, 'z) cpu_scheme outcome option"
type_synonym ('h, 'i, 'z) ll_call =
  "intr_frame \<Rightarrow> ('h, 'i, 'z) cpu_scheme \<Rightarrow> (intr_frame \<times> ('h, 'i, 'z) cpu_scheme) outcome option"

definition INTR_COUNT :: int where "INTR_COUNT = 256"
definition KERNEL_CSEL :: u16 where "KERNEL_CSEL = 8"
definition PIC0_REG_CTRL :: u16 where "PIC0_REG_CTRL = 0x20"
definition PIC0_REG_DATA :: u16 where "PIC0_REG_DATA = 0x21"
definition PIC1_REG_CTRL :: u16 where "PIC1_REG_CTRL = 0xa0"
definition PIC1_REG_DATA :: u16 where "PIC1_REG_DATA = 0xa1"

definition IRQ_TO_INTR :: "int \<Rightarrow> int" where
  "IRQ_TO_INTR x = x + 32"

definition at_ports :: "('h \<Rightarrow> 'h) \<Rightarrow> ('h, 'i, 'z) cpu_scheme \<Rightarrow> ('h, 'i, 'z) cpu_scheme" where
  "at_ports f st = st\<lparr>chw := f (chw st)\<rparr>"

section \<open>Diagnosis\<close>

definition out :: "(u32 \<Rightarrow> cstring) \<Rightarrow> cstring \<Rightarrow> u32 list \<Rightarrow> ('h, 'i, 'z) cpu_scheme \<Rightarrow> ('h, 'i, 'z) cpu_scheme outcome" where
  "out str fmt va st = bind_outcome (printf str fmt va []) (\<lambda>(t, _). Inr (st\<lparr>cio := fold putc t (cio st)\<rparr>))"

definition dbg :: "cstring \<Rightarrow> u32 list \<Rightarrow> ('h, 'i, 'z) cpu_scheme \<Rightarrow> ('h, 'i, 'z) cpu_scheme outcome" where
  "dbg fmt va st = bind_outcome (dprintf_raw (\<lambda>_. []) fmt va (cio st)) (\<lambda>io. Inr (st\<lparr>cio := io\<rparr>))"

definition ANSI_CODE :: "string \<Rightarrow> cstring" where
  "ANSI_CODE x = [27, 91] @ lit x @ [109]"

definition exception_names :: "string list" where
  "exception_names = [''#DE'', ''#DB'', ''NMI'', ''#BP'', ''#OF'', ''#BR'', ''#UD'', ''#NM'', ''#DF'', ''#MF'', ''#TS'', ''#NP'',
     ''#SS'', ''#GP'', ''#PF'', ''RESERVED'', ''#MF'', ''#AC'', ''#MC'', ''#XM'', ''#VE'', ''#CP'']"

text \<open>
  \<open>frame\<close> is the frame pointer of the caller. The debug output has a conversion without an argument:
  it prints the word \<open>stray frame\<close> that lies where the argument would.
\<close>

partial_function (option) backtrace_from ::
  "(u32 \<Rightarrow> u32) \<Rightarrow> u32 \<Rightarrow> ('h, 'i, 'z) cpu_scheme \<Rightarrow> ('h, 'i, 'z) cpu_scheme outcome option" where
  "backtrace_from stray frame st =
     (if 0x1000 \<le> frame \<and> load32 (cmem st) frame \<noteq> 0
      then run_bind (Some (bind_outcome (out (\<lambda>_. []) (lit '' %p'' @ [10]) [load32 (cmem st) (frame + 4)] st)
               (dbg (lit ''0x%p '') [stray frame])))
             (\<lambda>st. backtrace_from stray (load32 (cmem st) frame) st)
      else Some (Inr st))"

definition backtrace :: "(u32 \<Rightarrow> u32) \<Rightarrow> u32 \<Rightarrow> ('h, 'i, 'z) cpu_scheme \<Rightarrow> ('h, 'i, 'z) cpu_scheme outcome option" where
  "backtrace stray frame st =
     run_bind (Some (bind_outcome (out (\<lambda>_. []) ([10] @ lit ''backtrace:'' @ [10]) [] st)
         (dbg (ANSI_CODE ''31'' @ [10] @ lit ''backtrace: '') []))) (\<lambda>st.
     run_bind (backtrace_from stray frame st) (\<lambda>st.
       Some (dbg (ANSI_CODE ''0'') [] st)))"

definition register_lines :: "intr_frame \<Rightarrow> (cstring \<times> u32 list) list" where
  "register_lines frame =
    [(lit ''eax: %08x ebx: %08x'' @ [10], [fr_eax frame, fr_ebx frame]),
     (lit ''ecx: %08x edx: %08x'' @ [10], [fr_ecx frame, fr_edx frame]),
     (lit ''esi: %08x edi: %08x'' @ [10], [fr_esi frame, fr_edi frame]),
     (lit ''eip: %08x efl: %08x'' @ [10], [fr_eip frame, fr_eflags frame]),
     (lit ''esp: %08x'' @ [10], [fr_esp frame]),
     (lit ''cs: %04x ss: %04x ds: %04x'' @ [10], [fr_cs frame, ucast (fr_ss frame), ucast (fr_ds frame)]),
     (lit ''es: %04x fs: %04x gs: %04x'' @ [10], [ucast (fr_es frame), ucast (fr_fs frame), ucast (fr_gs frame)])]"

definition dump_regs :: "(u32 \<Rightarrow> u32) \<Rightarrow> u32 \<Rightarrow> ('h, 'i, 'z) ll_call" where
  "dump_regs stray ebp frame st =
     (let lines = register_lines frame in
      run_bind (Some (each_outcome (\<lambda>(fmt, va). out (\<lambda>_. []) fmt va) lines st)) (\<lambda>st.
      run_bind (Some (dbg (ANSI_CODE ''31'' @ [10] @ lit ''register dump:'' @ [10]) [] st)) (\<lambda>st.
      run_bind (Some (each_outcome (\<lambda>(fmt, va). dbg fmt va) lines st)) (\<lambda>st.
      run_bind (Some (dbg (ANSI_CODE ''0'') [] st)) (\<lambda>st.
      run_bind (backtrace stray ebp st) (\<lambda>st. Some (Inr (frame, st))))))))"

definition exception_report :: "(u32 \<Rightarrow> u32) \<Rightarrow> u32 \<Rightarrow> ('h, 'i, 'z) ll_call" where
  "exception_report stray ebp frame st =
     run_bind (Some (out (\<lambda>_. if int_no frame < 22 then lit (exception_names ! unat (int_no frame)) else lit ''no name'')
       ([10] @ lit ''!!! Unhandled interrupt [%s] !!!'' @ [10]) [0] st)) (\<lambda>st.
     run_bind (Some (out (\<lambda>_. []) (lit ''int num: %d, err code: %08x'' @ [10]) [int_no frame, err_code frame] st)) (\<lambda>st.
       dump_regs stray ebp frame st))"

definition hang :: "'s \<Rightarrow> 's outcome option" where
  "hang st = None"

definition exception :: "(u32 \<Rightarrow> u32) \<Rightarrow> u32 \<Rightarrow> ('h, 'i, 'z) ll_call" where
  "exception stray ebp frame st = run_bind (exception_report stray ebp frame st) hang"

section \<open>The tables\<close>

definition make_gate :: "int \<Rightarrow> u32 \<Rightarrow> int \<Rightarrow> int \<Rightarrow> ('h, 'i, 'z) cpu_scheme \<Rightarrow> ('h, 'i, 'z) cpu_scheme outcome" where
  "make_gate i fn dpl' gate_type' st =
     (if 0 \<le> i \<and> i < int (length (idt st))
      then Inr (st\<lparr>idt := (idt st)[nat i := (idt st ! nat i)\<lparr>offset_low := ucast (fn AND 0xffff),
        offset_high := ucast (drop_bit 16 (fn AND 0xffff0000)), reserved0 := 0, dpl := of_int dpl',
        gate_type := of_int gate_type', present := 1, selector := KERNEL_CSEL\<rparr>]\<rparr>)
      else Inl WildAccess)"

definition register_handler :: "int \<Rightarrow> intr_handler option \<Rightarrow> ('h, 'i, 'z) cpu_scheme \<Rightarrow> ('h, 'i, 'z) cpu_scheme" where
  "register_handler n handler st =
     (if 0 \<le> n \<and> n < INTR_COUNT then st\<lparr>bound_handlers := (bound_handlers st)[nat n := handler]\<rparr> else st)"

definition register_ll_handler :: "int \<Rightarrow> ll_intr_handler option \<Rightarrow> ('h, 'i, 'z) cpu_scheme \<Rightarrow> ('h, 'i, 'z) cpu_scheme" where
  "register_ll_handler n handler st =
     (if 0 \<le> n \<and> n < INTR_COUNT then st\<lparr>ll_bound_handlers := (ll_bound_handlers st)[nat n := handler]\<rparr> else st)"

definition do_nothing :: "('h, 'i, 'z) intr_call" where
  "do_nothing n err_no st = Some (Inr st)"

section \<open>The interrupt controllers\<close>

definition disable_pic :: "'h ports \<Rightarrow> 'h \<Rightarrow> 'h" where
  "disable_pic io = outb io PIC1_REG_DATA 0xff \<circ> outb io PIC0_REG_DATA 0xff"

definition interrupts_pic_init :: "'h ports \<Rightarrow> 'h \<Rightarrow> 'h" where
  "interrupts_pic_init io h = fold (\<lambda>(port, v). outb io port v)
     [(PIC0_REG_DATA, 0xff), (PIC1_REG_DATA, 0xff),
      (PIC0_REG_CTRL, 0x11), (PIC0_REG_DATA, 0x20), (PIC0_REG_DATA, 0x04), (PIC0_REG_DATA, 0x01),
      (PIC1_REG_CTRL, 0x11), (PIC1_REG_DATA, 0x28), (PIC1_REG_DATA, 0x02), (PIC1_REG_DATA, 0x01),
      (PIC0_REG_DATA, 0), (PIC1_REG_DATA, 0)] h"

definition interrupts_eoi :: "'h ports \<Rightarrow> int \<Rightarrow> 'h \<Rightarrow> 'h" where
  "interrupts_eoi io irq h =
     (let h = outb io PIC0_REG_CTRL 0x20 h in if 0x28 \<le> irq then outb io PIC1_REG_CTRL 0x20 h else h)"

text \<open>The two ports are exchanged: \<open>pic > 0\<close> names the first controller.\<close>

definition get_pic_mask :: "'h ports \<Rightarrow> int \<Rightarrow> 'h \<Rightarrow> u8 \<times> 'h" where
  "get_pic_mask io pic h = inb io (if 0 < pic then 0x21 else 0xa1) h"

definition set_pic_mask :: "'h ports \<Rightarrow> int \<Rightarrow> u8 \<Rightarrow> 'h \<Rightarrow> 'h" where
  "set_pic_mask io pic msk h = outb io (if 0 < pic then 0x21 else 0xa1) msk h"

section \<open>Initialisation and dispatch\<close>

text \<open>The stubs are in assembly. The result is the descriptor for \<open>lidt\<close>, its limit; the base is the table.\<close>

definition init_slot :: "(int \<Rightarrow> u32) \<Rightarrow> int \<Rightarrow> ('h, 'i, 'z) cpu_scheme \<Rightarrow> ('h, 'i, 'z) cpu_scheme outcome" where
  "init_slot interrupts_stubs i st = bind_outcome (make_gate i (interrupts_stubs i) 0 15 st) (\<lambda>st.
     Inr (register_ll_handler i (Some Exception) (st\<lparr>bound_handlers := (bound_handlers st)[nat i := None]\<rparr>)))"

definition interrupts_init :: "'h ports \<Rightarrow> (int \<Rightarrow> u32) \<Rightarrow> ('h, 'i, 'z) cpu_scheme \<Rightarrow> (u16 \<times> ('h, 'i, 'z) cpu_scheme) outcome" where
  "interrupts_init io interrupts_stubs st =
     bind_outcome (each_outcome (init_slot interrupts_stubs) [0..INTR_COUNT - 1] (at_ports (disable_pic io) st)) (\<lambda>st.
       let st = register_handler (IRQ_TO_INTR 0) (Some Do_nothing) st;
           st = register_ll_handler 3 (Some Dump_regs) st;
           st = at_ports (interrupts_pic_init io) st
       in Inr (of_int (INTR_COUNT * 8 - 1), st))"

definition interrupts_handle_int ::
  "(intr_handler \<Rightarrow> ('h, 'i, 'z) intr_call) \<Rightarrow> (ll_intr_handler \<Rightarrow> ('h, 'i, 'z) ll_call) \<Rightarrow> 'h ports \<Rightarrow> ('h, 'i, 'z) ll_call" where
  "interrupts_handle_int call call_ll io frame st =
     (let n = unat (int_no frame) in
      if length (bound_handlers st) \<le> n \<or> length (ll_bound_handlers st) \<le> n then Some (Inl WildAccess)
      else run_bind
        (case bound_handlers st ! n of
           Some h \<Rightarrow> run_bind (call h (int_no frame) (err_code frame) st) (\<lambda>st. Some (Inr (frame, st)))
         | None \<Rightarrow> (case ll_bound_handlers st ! n of
             Some h \<Rightarrow> call_ll h frame st
           | None \<Rightarrow> Some (Inr (frame, st))))
        (\<lambda>(frame, st). Some (Inr (frame,
           if 0x20 \<le> int_no frame \<and> int_no frame < 0x30 then at_ports (interrupts_eoi io (sint (int_no frame))) st else st))))"

text \<open>The handlers of this file; \<open>call\<close> and \<open>call_ll\<close> are the others.\<close>

definition run_handler :: "(intr_handler \<Rightarrow> ('h, 'i, 'z) intr_call) \<Rightarrow> intr_handler \<Rightarrow> ('h, 'i, 'z) intr_call" where
  "run_handler call h = (case h of Do_nothing \<Rightarrow> do_nothing | _ \<Rightarrow> call h)"

definition run_ll_handler ::
  "(u32 \<Rightarrow> u32) \<Rightarrow> u32 \<Rightarrow> (ll_intr_handler \<Rightarrow> ('h, 'i, 'z) ll_call) \<Rightarrow> ll_intr_handler \<Rightarrow> ('h, 'i, 'z) ll_call" where
  "run_ll_handler stray ebp call_ll h =
     (case h of Exception \<Rightarrow> exception stray ebp | Dump_regs \<Rightarrow> dump_regs stray ebp | _ \<Rightarrow> call_ll h)"

section \<open>Gates\<close>

text \<open>The entry point that the processor reads from a gate.\<close>

definition gate_target :: "idt_entry \<Rightarrow> u32" where
  "gate_target e = ucast (offset_low e) OR push_bit 16 (ucast (offset_high e))"

definition gate_to :: "u32 \<Rightarrow> idt_entry \<Rightarrow> bool" where
  "gate_to fn e \<longleftrightarrow> gate_target e = fn \<and> selector e = KERNEL_CSEL \<and> gate_type e = 15 \<and> dpl e = 0 \<and> present e = 1 \<and> reserved0 e = 0"

lemma offset_masks: "bit (0xffff :: int) n \<longleftrightarrow> n < 16" "bit (0xffff0000 :: int) n \<longleftrightarrow> 16 \<le> n \<and> n < 32"
proof -
  have m: "(0xffff :: int) = mask 16" "(0xffff0000 :: int) = push_bit 16 (mask 16)" by (simp_all add: mask_eq_exp_minus_1)
  show "bit (0xffff :: int) n \<longleftrightarrow> n < 16" "bit (0xffff0000 :: int) n \<longleftrightarrow> 16 \<le> n \<and> n < 32"
    unfolding m bit_push_bit_iff bit_mask_iff by auto
qed

lemma offset_join: "(ucast (ucast (fn AND 0xffff) :: u16) :: u32)
    OR push_bit 16 (ucast (ucast (drop_bit 16 (fn AND 0xffff0000)) :: u16)) = (fn :: u32)"
proof (rule bit_word_eqI)
  fix n :: nat
  assume "n < LENGTH(32)"
  then consider "n < 16" | "16 \<le> n" "n < 32" by fastforce
  then show "bit ((ucast (ucast (fn AND 0xffff) :: u16) :: u32)
    OR push_bit 16 (ucast (ucast (drop_bit 16 (fn AND 0xffff0000)) :: u16))) n = bit fn n"
    by cases (auto simp: bit_simps offset_masks)
qed

section \<open>The tables after the initialisation\<close>

definition tables_ok :: "('h, 'i, 'z) cpu_scheme \<Rightarrow> bool" where
  "tables_ok st \<longleftrightarrow> length (idt st) = 256 \<and> length (bound_handlers st) = 256 \<and> length (ll_bound_handlers st) = 256"

lemma register_handler_ok [simp]: "tables_ok (register_handler n h st) = tables_ok st"
    "tables_ok (register_ll_handler n g st) = tables_ok st" "tables_ok (at_ports f st) = tables_ok st"
  by (simp_all add: register_handler_def register_ll_handler_def at_ports_def tables_ok_def)

lemma init_slots:
  assumes "tables_ok st" "k \<le> 256"
  shows "\<exists>I B L. each_outcome (init_slot stubs) (map int [0..<k]) st = Inr (st\<lparr>idt := I, bound_handlers := B, ll_bound_handlers := L\<rparr>)
    \<and> length I = 256 \<and> length B = 256 \<and> length L = 256
    \<and> (\<forall>n < k. gate_to (stubs (int n)) (I ! n) \<and> B ! n = None \<and> L ! n = Some Exception)"
  using assms(2)
proof (induction k)
  case 0
  show ?case using assms(1) by (intro exI [of _ "idt st"] exI [of _ "bound_handlers st"] exI [of _ "ll_bound_handlers st"])
      (simp add: tables_ok_def)
next
  case (Suc k)
  then obtain I B L where ih: "each_outcome (init_slot stubs) (map int [0..<k]) st = Inr (st\<lparr>idt := I, bound_handlers := B, ll_bound_handlers := L\<rparr>)"
    "length I = 256" "length B = 256" "length L = 256"
    "\<And>n. n < k \<Longrightarrow> gate_to (stubs (int n)) (I ! n) \<and> B ! n = None \<and> L ! n = Some Exception" by force
  let ?I = "I[k := (I ! k)\<lparr>offset_low := ucast (stubs (int k) AND 0xffff), offset_high := ucast (drop_bit 16 (stubs (int k) AND 0xffff0000)),
    reserved0 := 0, dpl := 0, gate_type := 15, present := 1, selector := KERNEL_CSEL\<rparr>]"
  have "each_outcome (init_slot stubs) (map int [0..<Suc k]) st
      = Inr (st\<lparr>idt := ?I, bound_handlers := B[k := None], ll_bound_handlers := L[k := Some Exception]\<rparr>)"
    using ih(1-4) Suc.prems by (simp add: each_outcome_append init_slot_def make_gate_def register_ll_handler_def INTR_COUNT_def)
  moreover have "gate_to (stubs (int n)) (?I ! n) \<and> B[k := None] ! n = None \<and> L[k := Some Exception] ! n = Some Exception" if "n < Suc k" for n
    using that ih(2-5) Suc.prems by (cases "n = k") (simp_all add: gate_to_def gate_target_def offset_join [simplified])
  ultimately show ?case using ih(2-4) by (intro exI) (rule conjI, assumption, simp)
qed

lemma int_upt: "[0..int k - 1] = map int [0..<k]"
  by (induction k) (simp_all add: upto_rec2)

lemma interrupts_init_tables:
  fixes st :: "('h, 'i, 'z) cpu_scheme"
  assumes "tables_ok st"
  obtains I B L where "interrupts_init io stubs st = Inr (2047, st\<lparr>idt := I, bound_handlers := B, ll_bound_handlers := L,
      chw := interrupts_pic_init io (disable_pic io (chw st))\<rparr>)"
    "length I = 256" "length B = 256" "length L = 256" "\<And>n. n < 256 \<Longrightarrow> gate_to (stubs (int n)) (I ! n)"
    "\<And>n. n < 256 \<Longrightarrow> B ! n = (if n = 32 then Some Do_nothing else None)"
    "\<And>n. n < 256 \<Longrightarrow> L ! n = Some (if n = 3 then Dump_regs else Exception)"
proof -
  obtain I B L where i: "each_outcome (init_slot stubs) [0..255] (at_ports (disable_pic io) st)
      = Inr (at_ports (disable_pic io) st\<lparr>idt := I, bound_handlers := B, ll_bound_handlers := L\<rparr>)"
    "length I = 256" "length B = 256" "length L = 256"
    "\<And>n. n < 256 \<Longrightarrow> gate_to (stubs (int n)) (I ! n) \<and> B ! n = None \<and> L ! n = Some Exception"
    using init_slots [of "at_ports (disable_pic io) st" 256 stubs] assms int_upt [of 256] by force
  show ?thesis
  proof (rule that [where I = I and B = "B[32 := Some Do_nothing]" and L = "L[3 := Some Dump_regs]"])
    show "interrupts_init io stubs st = Inr (2047, st\<lparr>idt := I, bound_handlers := B[32 := Some Do_nothing], ll_bound_handlers := L[3 := Some Dump_regs],
      chw := interrupts_pic_init io (disable_pic io (chw st))\<rparr>)"
      using i(1) by (simp add: interrupts_init_def INTR_COUNT_def register_handler_def register_ll_handler_def IRQ_TO_INTR_def at_ports_def Let_def)
  qed (use i in \<open>simp_all add: nth_list_update\<close>)
qed

section \<open>Dispatch\<close>

text \<open>Registrations in their order, and the handlers of an interrupt after them.\<close>

datatype registration = Bind int "intr_handler option" | Bind_ll int "ll_intr_handler option"

fun register :: "registration \<Rightarrow> ('h, 'i, 'z) cpu_scheme \<Rightarrow> ('h, 'i, 'z) cpu_scheme" where
  "register (Bind n h) st = register_handler n h st"
| "register (Bind_ll n h) st = register_ll_handler n h st"

fun rebound :: "nat \<Rightarrow> registration \<Rightarrow> intr_handler option \<times> ll_intr_handler option \<Rightarrow> intr_handler option \<times> ll_intr_handler option" where
  "rebound k (Bind n h) (b, l) = (if n = int k then h else b, l)"
| "rebound k (Bind_ll n h) (b, l) = (b, if n = int k then h else l)"

definition handlers_of :: "registration list \<Rightarrow> nat \<Rightarrow> intr_handler option \<times> ll_intr_handler option" where
  "handlers_of regs k = fold (rebound k) regs (if k = 32 then Some Do_nothing else None, Some (if k = 3 then Dump_regs else Exception))"

text \<open>The end of an interrupt is told to the controllers that raised it: the second one through the first.\<close>

definition acknowledged :: "'h ports \<Rightarrow> nat \<Rightarrow> 'h \<Rightarrow> 'h" where
  "acknowledged io n h =
     (if n \<in> {0x20..0x27} then outb io 0x20 0x20 h else if n \<in> {0x28..0x2f} then outb io 0xa0 0x20 (outb io 0x20 0x20 h) else h)"

lemma register_slots:
  "tables_ok st \<Longrightarrow> k < 256 \<Longrightarrow>
    (bound_handlers (register r st) ! k, ll_bound_handlers (register r st) ! k) = rebound k r (bound_handlers st ! k, ll_bound_handlers st ! k)
      \<and> tables_ok (register r st) \<and> idt (register r st) = idt st \<and> chw (register r st) = chw st"
  by (cases r) (auto simp: register_handler_def register_ll_handler_def tables_ok_def INTR_COUNT_def nth_list_update)

lemma registers_slots:
  "tables_ok st \<Longrightarrow> k < 256 \<Longrightarrow>
    (bound_handlers (fold register regs st) ! k, ll_bound_handlers (fold register regs st) ! k)
      = fold (rebound k) regs (bound_handlers st ! k, ll_bound_handlers st ! k)
      \<and> tables_ok (fold register regs st) \<and> idt (fold register regs st) = idt st \<and> chw (fold register regs st) = chw st"
proof (induction regs arbitrary: st)
  case (Cons r regs)
  then show ?case using register_slots [OF Cons.prems, of r] by simp
qed simp

lemma eoi_acknowledged: "(if 0x20 \<le> n \<and> n < 0x30 then at_ports (interrupts_eoi io (sint n)) st else st) = at_ports (acknowledged io (unat (n :: u32))) st"
proof (cases "0x20 \<le> n \<and> n < 0x30")
  case True
  then have n: "32 \<le> unat n" "unat n < 48" by (simp_all add: word_le_nat_alt word_less_nat_alt)
  then have e: "sint n = int (unat n)" by (intro sint_small_u32) simp
  have "0x28 \<le> sint n \<longleftrightarrow> 0x28 \<le> unat n" unfolding e by presburger
  then show ?thesis using True n
    by (auto simp: at_ports_def interrupts_eoi_def acknowledged_def PIC0_REG_CTRL_def PIC1_REG_CTRL_def Let_def)
next
  case False
  then have "unat n < 32 \<or> 48 \<le> unat n" by (auto simp: word_le_nat_alt word_less_nat_alt)
  then show ?thesis using False by (auto simp: at_ports_def acknowledged_def)
qed

text \<open>C30: Interrupt initialisation makes every gate lead to its stub, and after any registrations an interrupt below 256 is
  handled by the last ordinary handler registered for it, else by the last low-level one, else not at all, where at
  first the timer has an empty ordinary handler, interrupt 3 dumps the registers and all others are exceptions;
  afterwards its end is acknowledged at the first controller, and at the second one too if it came from there.\<close>

theorem interrupts_dispatch:
  assumes "tables_ok st" "unat (int_no frame) < 256"
  shows "\<exists>st0. interrupts_init io stubs st = Inr (2047, st0) \<and> (\<forall>n. n < 256 \<longrightarrow> gate_to (stubs (int n)) (idt st0 ! n))
    \<and> (let st1 = fold register regs st0 in
        interrupts_handle_int call call_ll io frame st1 =
          run_bind (case handlers_of regs (unat (int_no frame)) of
              (Some h, _) \<Rightarrow> run_bind (call h (int_no frame) (err_code frame) st1) (\<lambda>st. Some (Inr (frame, st)))
            | (None, Some h) \<Rightarrow> call_ll h frame st1
            | (None, None) \<Rightarrow> Some (Inr (frame, st1)))
          (\<lambda>(frame, st). Some (Inr (frame, at_ports (acknowledged io (unat (int_no frame))) st))))"
proof -
  obtain I B L where i: "interrupts_init io stubs st = Inr (2047, st\<lparr>idt := I, bound_handlers := B, ll_bound_handlers := L,
      chw := interrupts_pic_init io (disable_pic io (chw st))\<rparr>)" (is "_ = Inr (_, ?st0)")
    "length I = 256" "length B = 256" "length L = 256" "\<And>n. n < 256 \<Longrightarrow> gate_to (stubs (int n)) (I ! n)"
    "\<And>n. n < 256 \<Longrightarrow> B ! n = (if n = 32 then Some Do_nothing else None)"
    "\<And>n. n < 256 \<Longrightarrow> L ! n = Some (if n = 3 then Dump_regs else Exception)"
    using interrupts_init_tables [OF assms(1), of io stubs] by metis
  have t: "tables_ok ?st0" using i by (simp add: tables_ok_def)
  let ?n = "unat (int_no frame)" and ?st1 = "fold register regs ?st0"
  have r: "(bound_handlers ?st1 ! ?n, ll_bound_handlers ?st1 ! ?n) = handlers_of regs ?n" "tables_ok ?st1"
    using registers_slots [OF t assms(2), of regs] i(6, 7) assms(2) by (simp_all add: handlers_of_def)
  have "interrupts_handle_int call call_ll io frame ?st1 =
          run_bind (case handlers_of regs ?n of
              (Some h, _) \<Rightarrow> run_bind (call h (int_no frame) (err_code frame) ?st1) (\<lambda>st. Some (Inr (frame, st)))
            | (None, Some h) \<Rightarrow> call_ll h frame ?st1
            | (None, None) \<Rightarrow> Some (Inr (frame, ?st1)))
          (\<lambda>(frame, st). Some (Inr (frame, at_ports (acknowledged io (unat (int_no frame))) st)))"
    using r(2) assms(2) unfolding interrupts_handle_int_def eoi_acknowledged
    by (simp add: tables_ok_def Let_def flip: r(1) split: option.splits)
  then show ?thesis using i(1, 5) by (intro exI [of _ ?st0]) (simp add: Let_def)
qed

definition cpu0 :: "((u16 \<times> u32) list, unit) cpu" where
  "cpu0 = \<lparr>idt = replicate 256 (idt_entry.make 0 0 0 0 0 0 0 0), bound_handlers = replicate 256 None,
     ll_bound_handlers = replicate 256 None, chw = [], cmem = (\<lambda>_. 0),
     cio = \<lparr>stdin_dev = (), stdout_text = None, dbgout_text = None, should_echo = 1, log_level = 5\<rparr>\<rparr>"

definition frame0 :: intr_frame where
  "frame0 = intr_frame.make 0 0 0 0 0 0 0 0 0 0 0 0 0 0 0 0 0 0"

text \<open>The keyboard's interrupt after its handler was registered.\<close>

theorem interrupts_dispatch_witness:
  "\<exists>st0 st1. interrupts_init (trace_ports (\<lambda>_. 0)) of_int cpu0 = Inr (2047, st0)
    \<and> interrupts_handle_int (\<lambda>h n err st. Some (Inr (at_ports (\<lambda>h. h @ [(0x60, n)]) st))) (\<lambda>h f st. None) (trace_ports (\<lambda>_. 0))
        (frame0\<lparr>int_no := 33\<rparr>) (register_handler 33 (Some Keyboard_handle_irq) st0) = Some (Inr (frame0\<lparr>int_no := 33\<rparr>, st1))
    \<and> chw st1 = chw st0 @ [(0x60, 33), (0x20, 0x20)]"
proof -
  have t: "tables_ok cpu0" "unat (int_no (frame0\<lparr>int_no := 33\<rparr>)) < 256" by (simp_all add: tables_ok_def cpu0_def)
  have c: "chw (register_handler n h st) = chw st" for n h and st :: "((u16 \<times> u32) list, unit) cpu"
    by (simp add: register_handler_def)
  obtain st0 where st0: "interrupts_init (trace_ports (\<lambda>_. 0)) of_int cpu0 = Inr (2047, st0)"
    "interrupts_handle_int (\<lambda>h n err st. Some (Inr (at_ports (\<lambda>h. h @ [(0x60, n)]) st))) (\<lambda>h f st. None) (trace_ports (\<lambda>_. 0))
        (frame0\<lparr>int_no := 33\<rparr>) (fold register [Bind 33 (Some Keyboard_handle_irq)] st0)
      = Some (Inr (frame0\<lparr>int_no := 33\<rparr>, at_ports (acknowledged (trace_ports (\<lambda>_. 0)) 33)
          (at_ports (\<lambda>h. h @ [(0x60, 33)]) (register_handler 33 (Some Keyboard_handle_irq) st0))))"
    using interrupts_dispatch [OF t, where io = "trace_ports (\<lambda>_. 0)" and stubs = of_int and call = "\<lambda>h n err st. Some (Inr (at_ports (\<lambda>h. h @ [(0x60, n)]) st))"
        and call_ll = "\<lambda>h f st. None" and regs = "[Bind 33 (Some Keyboard_handle_irq)]"]
    by (auto simp: Let_def handlers_of_def)
  then show ?thesis by (simp add: at_ports_def acknowledged_def c)
qed

end
