(* ===== verification/Kalloc.thy ===== *)
theory Kalloc
  imports Cmem
begin

text \<open>
  The dynamic memory allocator (\<open>kern/alloc.c\<close>, \<open>kern/alloc.h\<close>) at the level of bytes. The
  allocator's three static variables and the flat memory form the state; a block header is the
  24 bytes of \<open>mem_block_t\<close>, read and written through its six 32-bit fields. The search over
  the chain is a \<open>partial_function (option)\<close>: \<open>None\<close> is a chain that never ends, \<open>Some (Inl e)\<close>
  a failed \<open>ASSERT\<close>. Above it stand the list of blocks that a well-formed heap represents
  (\<open>heap\<close>), what each operation does to that list, and the allocator contract as a locale.
\<close>

section \<open>The code\<close>

text \<open>\<open>MEM_BLOCK_MAGIC\<close>, \<open>enum mem_block_state\<close>, \<open>enum mem_flags\<close> and the fields of \<open>mem_block_t\<close>.\<close>

definition MEM_BLOCK_MAGIC :: u32 where "MEM_BLOCK_MAGIC = 0xbadbaddd"
definition MEM_STATE_USED :: u32 where "MEM_STATE_USED = 0"
definition MEM_STATE_FREE :: u32 where "MEM_STATE_FREE = 1"
definition MEM_CRITICAL :: u32 where "MEM_CRITICAL = 1"

abbreviation sizeof_mem_block :: u32 where "sizeof_mem_block \<equiv> 24"

abbreviation blk_magic :: "mem \<Rightarrow> u32 \<Rightarrow> u32" where "blk_magic m b \<equiv> load32 m b"
abbreviation blk_flags :: "mem \<Rightarrow> u32 \<Rightarrow> u32" where "blk_flags m b \<equiv> load32 m (b + 4)"
abbreviation blk_size :: "mem \<Rightarrow> u32 \<Rightarrow> u32" where "blk_size m b \<equiv> load32 m (b + 8)"
abbreviation blk_state :: "mem \<Rightarrow> u32 \<Rightarrow> u32" where "blk_state m b \<equiv> load32 m (b + 12)"
abbreviation blk_addr :: "mem \<Rightarrow> u32 \<Rightarrow> u32" where "blk_addr m b \<equiv> load32 m (b + 16)"
abbreviation blk_next :: "mem \<Rightarrow> u32 \<Rightarrow> u32" where "blk_next m b \<equiv> load32 m (b + 20)"

abbreviation set_magic :: "u32 \<Rightarrow> u32 \<Rightarrow> mem \<Rightarrow> mem" where "set_magic b v m \<equiv> store32 m b v"
abbreviation set_flags :: "u32 \<Rightarrow> u32 \<Rightarrow> mem \<Rightarrow> mem" where "set_flags b v m \<equiv> store32 m (b + 4) v"
abbreviation set_size :: "u32 \<Rightarrow> u32 \<Rightarrow> mem \<Rightarrow> mem" where "set_size b v m \<equiv> store32 m (b + 8) v"
abbreviation set_state :: "u32 \<Rightarrow> u32 \<Rightarrow> mem \<Rightarrow> mem" where "set_state b v m \<equiv> store32 m (b + 12) v"
abbreviation set_addr :: "u32 \<Rightarrow> u32 \<Rightarrow> mem \<Rightarrow> mem" where "set_addr b v m \<equiv> store32 m (b + 16) v"
abbreviation set_next :: "u32 \<Rightarrow> u32 \<Rightarrow> mem \<Rightarrow> mem" where "set_next b v m \<equiv> store32 m (b + 20) v"

record alloc_state =
  ram :: mem
  mem_start :: u32
  head :: u32
  mem_size :: u32

definition init_alloc :: "alloc_state \<Rightarrow> u32 \<Rightarrow> u32 \<Rightarrow> alloc_state" where
  "init_alloc st start sz =
     st\<lparr>mem_start := start, mem_size := sz, head := start,
        ram := (set_flags start MEM_CRITICAL o set_magic start MEM_BLOCK_MAGIC
          o set_state start MEM_STATE_USED o set_size start 0 o set_next start 0) (ram st)\<rparr>"

definition aligned_size :: "u32 \<Rightarrow> u32" where
  "aligned_size sz = (if sz mod 64 = 0 then sz else (sz div 64) * 64 + 64)"

text \<open>The \<open>for\<close> loop of \<open>kalloc\<close>: the block it stops at, and whether that block is reused.\<close>

partial_function (option) kalloc_search :: "mem \<Rightarrow> u32 \<Rightarrow> u32 \<Rightarrow> (u32 \<times> bool) option" where
  "kalloc_search m current allocated_size =
     (if blk_state m current = MEM_STATE_FREE \<and> allocated_size \<le> blk_size m current
      then Some (current, True)
      else if blk_next m current = 0 then Some (current, False)
      else kalloc_search m (blk_next m current) allocated_size)"

definition kalloc :: "alloc_state \<Rightarrow> u32 \<Rightarrow> (u32 \<times> alloc_state) outcome option" where
  "kalloc st sz =
     (if mem_start st = 0 then Some (Inl (AssertFailed ''Allocator was used before initialised''))
      else let allocated_size = aligned_size sz; m = ram st in
        if allocated_size = 0 then Some (Inr (0, st))
        else Option.bind (kalloc_search m (head st) allocated_size) (\<lambda>(current, reuse).
          if reuse
          then Some (Inr (current + sizeof_mem_block,
            st\<lparr>ram := (set_flags current 0 o set_addr current (current + sizeof_mem_block)
              o set_state current MEM_STATE_USED) m\<rparr>))
          else let nxt = current + sizeof_mem_block + blk_size m current in
            Some (assert_that (blk_magic m current = MEM_BLOCK_MAGIC)
                ''Memory corruption detected, magic value not present''
              (assert_that (nxt \<le> mem_start st + mem_size st) ''Out of memory, cannot allocate''
                (Inr (nxt + sizeof_mem_block,
                  st\<lparr>ram := (set_next current nxt o set_addr nxt (nxt + sizeof_mem_block)
                    o set_flags nxt 0 o set_magic nxt MEM_BLOCK_MAGIC o set_state nxt MEM_STATE_USED
                    o set_next nxt 0 o set_size nxt allocated_size) m\<rparr>))))))"

definition owns :: "alloc_state \<Rightarrow> u32 \<Rightarrow> bool" where
  "owns st ptr \<longleftrightarrow> mem_start st \<le> ptr \<and> ptr \<le> mem_start st + mem_size st"

definition kfree :: "alloc_state \<Rightarrow> u32 \<Rightarrow> alloc_state outcome" where
  "kfree st ptr =
     (let m = ram st; block = ptr - sizeof_mem_block in
      assert_that (owns st ptr) ''Tried to free invalid address''
      (assert_that (blk_flags m block AND MEM_CRITICAL = 0) ''Tried to free critical memory''
      (assert_that (blk_state m block = MEM_STATE_USED) ''Tried to free already free memory''
      (assert_that (blk_magic m block = MEM_BLOCK_MAGIC)
          ''Memory corruption detected, magic value not present''
        (Inr (st\<lparr>ram := set_state block MEM_STATE_FREE m\<rparr>))))))"

definition krealloc :: "alloc_state \<Rightarrow> u32 \<Rightarrow> u32 \<Rightarrow> (u32 \<times> alloc_state) outcome option" where
  "krealloc st ptr new_size =
     (if ptr = 0 then kalloc st new_size
      else let m = ram st; block = ptr - sizeof_mem_block in
        if \<not> owns st ptr then Some (Inl (AssertFailed ''Tried to realloc invalid address''))
        else if blk_state m block \<noteq> MEM_STATE_USED
        then Some (Inl (AssertFailed ''Tried to realloc unused block''))
        else if blk_magic m block \<noteq> MEM_BLOCK_MAGIC
        then Some (Inl (AssertFailed ''Tried to realloc corrupted block''))
        else if new_size < blk_size m block
        then Some (Inr (ptr, st\<lparr>ram := set_size block new_size m\<rparr>))
        else Option.bind (kalloc st new_size) (\<lambda>r. Some (bind_outcome r (\<lambda>(new_block, st).
          bind_outcome
            (kfree (st\<lparr>ram := memcpy (ram st) new_block ptr (blk_size (ram st) block)\<rparr>) ptr)
            (\<lambda>st. Inr (new_block, st))))))"

definition kallocz :: "alloc_state \<Rightarrow> u32 \<Rightarrow> (u32 \<times> alloc_state) outcome option" where
  "kallocz st sz =
     Option.bind (kalloc st sz) (\<lambda>r. Some (bind_outcome r (\<lambda>(data, st).
       Inr (data, st\<lparr>ram := memset (ram st) data 0 sz\<rparr>))))"

partial_function (option) alloc_search_addr :: "mem \<Rightarrow> u32 \<Rightarrow> u32 \<Rightarrow> bool option" where
  "alloc_search_addr m current ptr =
     (if current = 0 then Some False
      else if blk_addr m current = ptr then Some True
      else alloc_search_addr m (blk_next m current) ptr)"

definition alloc_valid_addr :: "alloc_state \<Rightarrow> u32 \<Rightarrow> bool \<Rightarrow> bool option" where
  "alloc_valid_addr st ptr quick =
     (if ptr < mem_start st \<or> mem_start st + mem_size st < ptr then Some False
      else if quick then Some (blk_magic (ram st) (ptr - sizeof_mem_block) = MEM_BLOCK_MAGIC)
      else alloc_search_addr (ram st) (head st) ptr)"

partial_function (option) alloc_used_loop :: "mem \<Rightarrow> u32 \<Rightarrow> bool \<Rightarrow> u32 \<Rightarrow> u32 option" where
  "alloc_used_loop m current all tot =
     (if current = 0 then Some tot
      else alloc_used_loop m (blk_next m current) all
        (if blk_state m current \<noteq> MEM_STATE_FREE \<or> all then tot + blk_size m current else tot))"

definition alloc_used :: "alloc_state \<Rightarrow> bool \<Rightarrow> u32 option" where
  "alloc_used st all = alloc_used_loop (ram st) (head st) all 0"

definition alloc_total :: "alloc_state \<Rightarrow> u32" where
  "alloc_total st = mem_size st"

definition kmmcritical :: "alloc_state \<Rightarrow> u32 \<Rightarrow> alloc_state outcome" where
  "kmmcritical st ptr =
     (let m = ram st; block = ptr - sizeof_mem_block in
      assert_that (owns st ptr) ''Tried mark as critical an invalid address''
        (Inr (st\<lparr>ram := set_flags block (blk_flags m block OR MEM_CRITICAL) m\<rparr>)))"


section \<open>Well-formed heaps\<close>

text \<open>
  The list of blocks of the chain, in address order: where the header is, its fields, and
  whether the block is free. \<open>seg m p bs q\<close>: following \<open>next\<close> from \<open>p\<close> visits exactly the
  headers \<open>bs\<close> and arrives at \<open>q\<close>.
\<close>

record block =
  at :: u32
  bflags :: u32
  bsize :: u32
  bfree :: bool
  baddr :: u32

definition hdr :: "mem \<Rightarrow> block \<Rightarrow> bool" where
  "hdr m b \<longleftrightarrow> blk_magic m (at b) = MEM_BLOCK_MAGIC \<and> blk_flags m (at b) = bflags b
     \<and> blk_size m (at b) = bsize b \<and> blk_addr m (at b) = baddr b
     \<and> blk_state m (at b) = (if bfree b then MEM_STATE_FREE else MEM_STATE_USED)"

fun seg :: "mem \<Rightarrow> u32 \<Rightarrow> block list \<Rightarrow> u32 \<Rightarrow> bool" where
  "seg m p [] q \<longleftrightarrow> p = q"
| "seg m p (b # bs) q \<longleftrightarrow> p \<noteq> 0 \<and> at b = p \<and> hdr m b \<and> seg m (blk_next m p) bs q"

definition block_end :: "block \<Rightarrow> nat" where
  "block_end b = unat (at b) + 24 + unat (bsize b)"

fun layout :: "nat \<Rightarrow> block list \<Rightarrow> bool" where
  "layout lo [] \<longleftrightarrow> True"
| "layout lo (b # bs) \<longleftrightarrow> lo \<le> unat (at b) \<and> block_end b < 4294967296 \<and> layout (block_end b) bs"

definition heap :: "alloc_state \<Rightarrow> block list \<Rightarrow> bool" where
  "heap st bs \<longleftrightarrow> mem_start st \<noteq> 0 \<and> head st = mem_start st
     \<and> unat (mem_start st) + unat (mem_size st) < 4294967296
     \<and> seg (ram st) (head st) bs 0 \<and> layout (unat (mem_start st)) bs
     \<and> bs \<noteq> [] \<and> bsize (hd bs) = 0 \<and> \<not> bfree (hd bs) \<and> bflags (hd bs) AND MEM_CRITICAL \<noteq> 0
     \<and> (\<forall>b \<in> set (tl bs). baddr b = at b + 24)"

text \<open>The bytes a block offers its owner.\<close>

definition payload :: "block \<Rightarrow> u32 \<Rightarrow> bool" where
  "payload b a \<longleftrightarrow> in_block a (at b + 24) (unat (bsize b))"

lemma seg_append: "seg m p (xs @ ys) q \<longleftrightarrow> (\<exists>r. seg m p xs r \<and> seg m r ys q)"
  by (induction xs arbitrary: p) auto

lemma layout_append: "layout lo (xs @ ys) \<longleftrightarrow>
  layout lo xs \<and> layout (if xs = [] then lo else block_end (last xs)) ys"
  by (induction xs arbitrary: lo) auto

lemma layout_ge: "layout lo bs \<Longrightarrow> b \<in> set bs \<Longrightarrow> lo \<le> unat (at b) \<and> block_end b < 4294967296"
  by (induction bs arbitrary: lo) (auto simp: block_end_def, fastforce)

lemma layout_mono: "layout lo bs \<Longrightarrow> lo' \<le> lo \<Longrightarrow> layout lo' bs"
  by (cases bs) auto

text \<open>Two blocks of a heap are the same or lie one after the other.\<close>

lemma layout_disjoint:
  "layout lo bs \<Longrightarrow> b \<in> set bs \<Longrightarrow> c \<in> set bs \<Longrightarrow>
   b = c \<or> block_end b \<le> unat (at c) \<or> block_end c \<le> unat (at b)"
  by (induction bs arbitrary: lo) (auto dest: layout_ge)

lemma layout_at_inj: "layout lo bs \<Longrightarrow> b \<in> set bs \<Longrightarrow> c \<in> set bs \<Longrightarrow> at b = at c \<Longrightarrow> b = c"
  using layout_disjoint [of lo bs b c] by (auto simp: block_end_def)

section \<open>Stores into a header\<close>

lemma sep4_nat:
  assumes "unat x + 4 \<le> unat y \<or> unat y + 4 \<le> unat x" "unat x \<le> 4294967292" "unat y \<le> 4294967292"
  shows "sep4 x y"
  using assms by (auto simp: sep4_def word_le_nat_alt unat_diff_u32)

lemma unat_hdr_field: "unat b + 24 < 4294967296 \<Longrightarrow> k \<le> 20 \<Longrightarrow> unat (b + k) = unat b + unat (k :: u32)"
  by (intro unat_add_u32) (simp add: word_le_nat_alt)

lemma header_load_other:
  assumes "unat b + 24 \<le> unat c \<or> unat c + 24 \<le> unat b" "unat b + 24 < 4294967296"
    "unat c + 24 < 4294967296" "k \<le> 20" "j \<le> 20"
  shows "load32 (store32 m (b + k) v) (c + j) = load32 m (c + j)"
proof (rule load32_store32_other, rule sep4_nat)
  have kj: "unat k \<le> 20" "unat j \<le> 20" using assms(4,5) by (simp_all add: word_le_nat_alt)
  note u = unat_hdr_field [OF assms(2,4)] unat_hdr_field [OF assms(3,5)]
  show "unat (b + k) + 4 \<le> unat (c + j) \<or> unat (c + j) + 4 \<le> unat (b + k)"
    "unat (b + k) \<le> 4294967292" "unat (c + j) \<le> 4294967292"
    unfolding u using assms(1-3) kj by linarith+
qed

lemma sep4_fields [simp]:
  "sep4 b (b + 4)" "sep4 b (b + 8)" "sep4 b (b + 12)" "sep4 b (b + 16)" "sep4 b (b + 20)"
  "sep4 (b + 4) b" "sep4 (b + 8) b" "sep4 (b + 12) b" "sep4 (b + 16) b" "sep4 (b + 20) b"
  by (simp_all add: sep4_def word_le_nat_alt)

lemma sep4_fields' [simp]:
  "sep4 (b + numeral k) (b + numeral j) \<longleftrightarrow> 4 \<le> (numeral j - numeral k :: u32) \<and> 4 \<le> (numeral k - numeral j :: u32)"
  by (simp add: sep4_def)

lemma header_byte_other:
  assumes "\<not> in_block a b 24" "k \<le> 20"
  shows "store32 m (b + k) v a = m a"
proof (rule store32_outside)
  have "unat k \<le> 20" using assms(2) by (simp add: word_le_nat_alt)
  moreover have "24 \<le> unat (a - b)" using assms(1) by (simp add: in_block_def)
  ultimately have le: "k \<le> a - b" and ge: "4 \<le> unat (a - b) - unat k"
    by (simp_all add: word_le_nat_alt)
  have eq: "a - (b + k) = (a - b) - k" by (simp add: algebra_simps)
  have "unat (a - (b + k)) = unat (a - b) - unat k" unfolding eq by (rule unat_sub [OF le])
  with ge show "4 \<le> a - (b + k)" by (simp add: word_le_nat_alt)
qed

lemmas header_byte_others =
  header_byte_other [where k = 0, simplified] header_byte_other [where k = 4, simplified]
  header_byte_other [where k = 8, simplified] header_byte_other [where k = 12, simplified]
  header_byte_other [where k = 16, simplified] header_byte_other [where k = 20, simplified]

definition clear_of :: "block \<Rightarrow> u32 \<Rightarrow> bool" where
  "clear_of c b \<longleftrightarrow> (unat b + 24 \<le> unat (at c) \<or> unat (at c) + 24 \<le> unat b)
     \<and> unat b + 24 < 4294967296 \<and> unat (at c) + 24 < 4294967296"

lemma header_field_other:
  "clear_of c b \<Longrightarrow> k \<le> 20 \<Longrightarrow> j \<le> 20 \<Longrightarrow> load32 (store32 m (b + k) v) (at c + j) = load32 m (at c + j)"
  by (simp add: clear_of_def header_load_other)

lemma header_field_others [simp]:
  assumes "clear_of c b" "k \<le> 20"
  shows "load32 (store32 m (b + k) v) (at c) = load32 m (at c)"
    "load32 (store32 m (b + k) v) (at c + 4) = load32 m (at c + 4)"
    "load32 (store32 m (b + k) v) (at c + 8) = load32 m (at c + 8)"
    "load32 (store32 m (b + k) v) (at c + 12) = load32 m (at c + 12)"
    "load32 (store32 m (b + k) v) (at c + 16) = load32 m (at c + 16)"
    "load32 (store32 m (b + k) v) (at c + 20) = load32 m (at c + 20)"
  using header_field_other [OF assms, of 0] header_field_other [OF assms, of 4]
    header_field_other [OF assms, of 8] header_field_other [OF assms, of 12]
    header_field_other [OF assms, of 16] header_field_other [OF assms, of 20] by simp_all

lemma header_field_others_0 [simp]:
  assumes "clear_of c b"
  shows "load32 (store32 m b v) (at c) = load32 m (at c)"
    "load32 (store32 m b v) (at c + 4) = load32 m (at c + 4)"
    "load32 (store32 m b v) (at c + 8) = load32 m (at c + 8)"
    "load32 (store32 m b v) (at c + 12) = load32 m (at c + 12)"
    "load32 (store32 m b v) (at c + 16) = load32 m (at c + 16)"
    "load32 (store32 m b v) (at c + 20) = load32 m (at c + 20)"
  using header_field_others [OF assms, of 0] by simp_all

lemma hdr_clear:
  "clear_of c b \<Longrightarrow> k \<le> 20 \<Longrightarrow> hdr (store32 m (b + k) v) c = hdr m c"
  "clear_of c b \<Longrightarrow> hdr (store32 m b v) c = hdr m c"
  by (simp_all add: hdr_def)

text \<open>Updating one block of a chain.\<close>

definition upd_block :: "u32 \<Rightarrow> (block \<Rightarrow> block) \<Rightarrow> block list \<Rightarrow> block list" where
  "upd_block p f bs = map (\<lambda>b. if at b = p then f b else b) bs"

lemma seg_map:
  assumes "\<And>c. c \<in> set bs \<Longrightarrow> hdr m c \<Longrightarrow>
      at (f c) = at c \<and> hdr m' (f c) \<and> blk_next m' (at c) = blk_next m (at c)"
  shows "seg m p bs q \<Longrightarrow> seg m' p (map f bs) q"
  using assms
proof (induction bs arbitrary: p)
  case (Cons b bs)
  then show ?case using Cons.prems(2) [of b] by auto
qed simp

lemma layout_map:
  assumes "\<And>c. c \<in> set bs \<Longrightarrow> at (f c) = at c \<and> bsize (f c) \<le> bsize c"
  shows "layout lo bs \<Longrightarrow> layout lo (map f bs)"
  using assms
proof (induction bs arbitrary: lo)
  case (Cons b bs)
  then have "block_end (f b) \<le> block_end b"
    by (simp add: block_end_def word_le_nat_alt)
  with Cons show ?case by (auto intro: layout_mono)
qed simp


section \<open>What the loops compute\<close>

definition fits :: "u32 \<Rightarrow> block \<Rightarrow> bool" where
  "fits sz b \<longleftrightarrow> bfree b \<and> sz \<le> bsize b"

lemma mem_states [simp]: "MEM_STATE_USED \<noteq> MEM_STATE_FREE" "MEM_STATE_FREE \<noteq> MEM_STATE_USED"
  by (simp_all add: MEM_STATE_FREE_def MEM_STATE_USED_def)

lemma hdr_state: "hdr m b \<Longrightarrow> blk_state m (at b) = MEM_STATE_FREE \<longleftrightarrow> bfree b"
  by (simp add: hdr_def MEM_STATE_FREE_def MEM_STATE_USED_def)

lemma kalloc_search_seg:
  "seg m p bs 0 \<Longrightarrow> bs \<noteq> [] \<Longrightarrow> kalloc_search m p sz =
     Some (case find (fits sz) bs of Some b \<Rightarrow> (at b, True) | None \<Rightarrow> (at (last bs), False))"
proof (induction bs arbitrary: p)
  case (Cons b bs)
  then have b: "at b = p" "hdr m b" "p \<noteq> 0" "seg m (blk_next m p) bs 0" by auto
  have z: "blk_next m p = 0 \<longleftrightarrow> bs = []" using b(4) by (cases bs) auto
  have "blk_state m p = MEM_STATE_FREE \<and> sz \<le> blk_size m p \<longleftrightarrow> fits sz b"
    using b hdr_state [of m b] by (auto simp: fits_def hdr_def)
  then show ?case using Cons.IH [OF b(4)] b(1) z
    by (cases "fits sz b"; cases "find (fits sz) bs"; subst kalloc_search.simps) auto
qed simp

lemma alloc_search_seg:
  "seg m p bs 0 \<Longrightarrow> alloc_search_addr m p ptr = Some (\<exists>b \<in> set bs. baddr b = ptr)"
proof (induction bs arbitrary: p)
  case (Cons b bs)
  then show ?case by (subst alloc_search_addr.simps) (auto simp: hdr_def)
qed (simp add: alloc_search_addr.simps)

lemma alloc_used_seg:
  "seg m p bs 0 \<Longrightarrow> alloc_used_loop m p all t =
     Some (t + sum_list (map bsize (filter (\<lambda>b. \<not> bfree b \<or> all) bs)))"
proof (induction bs arbitrary: p t)
  case (Cons b bs)
  then have "hdr m b" "at b = p" "p \<noteq> 0" by auto
  with Cons show ?case
    by (subst alloc_used_loop.simps) (auto simp: hdr_state hdr_def add.assoc)
qed (simp add: alloc_used_loop.simps)

lemma heap_D:
  assumes "heap st bs"
  shows "mem_start st \<noteq> 0" "head st = mem_start st" "seg (ram st) (head st) bs 0"
    "layout (unat (mem_start st)) bs" "bs \<noteq> []"
    "unat (mem_start st) + unat (mem_size st) < 4294967296"
  using assms unfolding heap_def by blast+

lemma heap_limit:
  "heap st bs \<Longrightarrow> unat (mem_start st + mem_size st) = unat (mem_start st) + unat (mem_size st)"
  by (simp add: heap_def unat_add_u32)

lemma seg_hdr: "seg m p bs q \<Longrightarrow> b \<in> set bs \<Longrightarrow> hdr m b \<and> at b \<noteq> 0"
  by (induction bs arbitrary: p) auto

lemma heap_hdr: "heap st bs \<Longrightarrow> b \<in> set bs \<Longrightarrow> hdr (ram st) b"
  using seg_hdr heap_D(3) by blast

lemma heap_clear:
  assumes "heap st bs" "b \<in> set bs" "c \<in> set bs" "at c \<noteq> at b"
  shows "clear_of c (at b)"
  using layout_disjoint [OF heap_D(4) [OF assms(1)] assms(2,3)] assms(4)
    layout_ge [OF heap_D(4) [OF assms(1)] assms(2)] layout_ge [OF heap_D(4) [OF assms(1)] assms(3)]
  by (auto simp: clear_of_def block_end_def)

lemma heap_payload_header:
  assumes h: "heap st bs" and b: "b \<in> set bs" and c: "c \<in> set bs" and p: "payload b a"
  shows "\<not> in_block a (at c) 24"
proof -
  have e: "block_end b < 4294967296" "block_end c < 4294967296"
    using layout_ge [OF heap_D(4) [OF h]] b c by blast+
  have u: "unat (at b + 24) = unat (at b) + 24" using e by (subst unat_add_u32) (simp_all add: block_end_def)
  have d: "unat (a - (at b + 24)) < unat (bsize b)" using p by (simp add: payload_def in_block_def)
  then have a: "unat (at b) + 24 \<le> unat a" "unat a < block_end b"
    using e unfolding unat_diff_u32 u block_end_def by (auto split: if_splits)
  from layout_disjoint [OF heap_D(4) [OF h] b c] show ?thesis
    using a e by (auto simp: in_block_def unat_diff_u32 block_end_def split: if_splits)
qed

text \<open>An operation that rewrites fields of one header \<open>b\<close> and gives it the fields of \<open>f b\<close>.\<close>

lemma heap_update:
  assumes h: "heap st bs" and b: "b \<in> set bs"
    and other: "\<And>c. c \<in> set bs \<Longrightarrow> clear_of c (at b) \<Longrightarrow> hdr m c = hdr (ram st) c \<and> blk_next m (at c) = blk_next (ram st) (at c)"
    and self: "hdr m (f b)" "blk_next m (at b) = blk_next (ram st) (at b)" "at (f b) = at b"
      "bsize (f b) \<le> bsize b" "baddr (f b) = at b + 24 \<or> baddr (f b) = baddr b"
    and first: "b = hd bs \<Longrightarrow> bsize (f b) = 0 \<and> \<not> bfree (f b) \<and> bflags (f b) AND MEM_CRITICAL \<noteq> 0"
  shows "heap (st\<lparr>ram := m\<rparr>) (upd_block (at b) f bs)"
proof -
  note D = heap_D [OF h]
  have uniq: "c \<in> set bs \<Longrightarrow> at c = at b \<Longrightarrow> c = b" for c
    using layout_at_inj [OF D(4) _ b] by simp
  have "seg m (head st) (upd_block (at b) f bs) 0"
    unfolding upd_block_def
  proof (rule seg_map [OF _ D(3)])
    fix c assume c: "c \<in> set bs" "hdr (ram st) c"
    show "at (if at c = at b then f c else c) = at c \<and> hdr m (if at c = at b then f c else c)
        \<and> blk_next m (at c) = blk_next (ram st) (at c)"
      using self uniq [OF c(1)] other [OF c(1) heap_clear [OF h b c(1)]] c(2) by auto
  qed
  moreover have "layout (unat (mem_start st)) (upd_block (at b) f bs)"
    unfolding upd_block_def
    by (rule layout_map [OF _ D(4)]) (use self uniq in auto)
  moreover have "bsize (hd (upd_block (at b) f bs)) = 0 \<and> \<not> bfree (hd (upd_block (at b) f bs))
      \<and> bflags (hd (upd_block (at b) f bs)) AND MEM_CRITICAL \<noteq> 0"
    using first uniq [of "hd bs"] h D(5) by (auto simp: upd_block_def hd_map heap_def)
  moreover have "baddr c = at c + 24" if c: "c \<in> set (tl (upd_block (at b) f bs))" for c
  proof -
    obtain d where d: "d \<in> set (tl bs)" "c = (if at d = at b then f d else d)"
      using c by (auto simp: upd_block_def map_tl [symmetric])
    then have "baddr d = at d + 24" using h by (simp add: heap_def)
    moreover have "at d = at b \<Longrightarrow> d = b" using uniq d(1) D(5) by (cases bs) auto
    ultimately show ?thesis using d(2) self(3,5) by auto
  qed
  moreover have "upd_block (at b) f bs \<noteq> []" using D(5) by (simp add: upd_block_def)
  ultimately show ?thesis using D unfolding heap_def by simp
qed


section \<open>The operations on the block list\<close>

definition first_fit :: "u32 \<Rightarrow> block list \<Rightarrow> block option" where
  "first_fit sz bs = find (fits sz) bs"

definition reuse :: "block \<Rightarrow> block" where
  "reuse b = b\<lparr>bfree := False, bflags := 0, baddr := at b + 24\<rparr>"

definition new_block :: "u32 \<Rightarrow> u32 \<Rightarrow> block" where
  "new_block a sz = \<lparr>at = a, bflags = 0, bsize = sz, bfree = False, baddr = a + 24\<rparr>"

definition end_of :: "block list \<Rightarrow> u32" where
  "end_of bs = at (last bs) + 24 + bsize (last bs)"

lemma first_fit_D: "first_fit sz bs = Some b \<Longrightarrow> b \<in> set bs \<and> bfree b \<and> sz \<le> bsize b"
  by (auto simp: first_fit_def find_Some_iff fits_def)

lemma last_hdr: "heap st bs \<Longrightarrow> hdr (ram st) (last bs)"
  using heap_hdr heap_D(5) by (meson last_in_set)

lemma kalloc_cases:
  assumes h: "heap st bs" and sz: "aligned_size sz \<noteq> 0"
  shows "kalloc st sz = (case first_fit (aligned_size sz) bs of
      Some b \<Rightarrow> Some (Inr (at b + 24, st\<lparr>ram := set_flags (at b) 0 (set_addr (at b) (at b + 24)
        (set_state (at b) MEM_STATE_USED (ram st)))\<rparr>))
    | None \<Rightarrow> let l = at (last bs); n = end_of bs in
        if n \<le> mem_start st + mem_size st
        then Some (Inr (n + 24, st\<lparr>ram := set_next l n (set_addr n (n + 24) (set_flags n 0
          (set_magic n MEM_BLOCK_MAGIC (set_state n MEM_STATE_USED (set_next n 0
          (set_size n (aligned_size sz) (ram st)))))))\<rparr>))
        else Some (Inl (AssertFailed ''Out of memory, cannot allocate'')))"
  using kalloc_search_seg [OF heap_D(3,5) [OF h], of "aligned_size sz"] last_hdr [OF h] heap_D(1) [OF h] sz
  by (auto simp: kalloc_def first_fit_def Let_def hdr_def end_of_def assert_that_def split: option.splits)

lemma fields_same [simp]:
  "load32 (store32 m (b + 4) v) b = load32 m b" "load32 (store32 m (b + 8) v) b = load32 m b"
  "load32 (store32 m (b + 12) v) b = load32 m b" "load32 (store32 m (b + 16) v) b = load32 m b"
  "load32 (store32 m (b + 20) v) b = load32 m b"
  "load32 (store32 m b v) (b + 4) = load32 m (b + 4)" "load32 (store32 m b v) (b + 8) = load32 m (b + 8)"
  "load32 (store32 m b v) (b + 12) = load32 m (b + 12)" "load32 (store32 m b v) (b + 16) = load32 m (b + 16)"
  "load32 (store32 m b v) (b + 20) = load32 m (b + 20)"
  by (simp_all add: load32_store32_other)

text \<open>Reusing a free block.\<close>

lemma heap_reuse:
  assumes h: "heap st bs" and f: "first_fit sz bs = Some b"
  shows "heap (st\<lparr>ram := set_flags (at b) 0 (set_addr (at b) (at b + 24)
    (set_state (at b) MEM_STATE_USED (ram st)))\<rparr>) (upd_block (at b) reuse bs)"
proof (rule heap_update [OF h])
  show b: "b \<in> set bs" using first_fit_D [OF f] by simp
  show "b = hd bs \<Longrightarrow> bsize (reuse b) = 0 \<and> \<not> bfree (reuse b) \<and> bflags (reuse b) AND MEM_CRITICAL \<noteq> 0"
    using h first_fit_D [OF f] by (simp add: heap_def)
qed (use heap_hdr [OF h] first_fit_D [OF f] in \<open>auto simp: hdr_clear hdr_def reuse_def\<close>)

text \<open>Appending a block after the last one.\<close>

lemma unat_end_of:
  assumes h: "heap st bs"
  shows "unat (end_of bs) = block_end (last bs)"
proof -
  have "block_end (last bs) < 4294967296"
    using layout_ge [OF heap_D(4) [OF h]] heap_D(5) [OF h] by (meson last_in_set)
  then show ?thesis by (simp add: end_of_def block_end_def unat_add_u32)
qed

lemma before_end:
  assumes "layout lo bs" "b \<in> set bs"
  shows "block_end b \<le> block_end (last bs)"
  using assms
proof (induction bs arbitrary: lo)
  case (Cons c bs)
  show ?case
  proof (cases "bs = []")
    case False
    then have "block_end c \<le> block_end (last bs)"
      using Cons.prems layout_ge [of "block_end c" bs "last bs"] by (simp add: block_end_def)
    with Cons False show ?thesis by auto
  qed (use Cons in auto)
qed simp

lemma seg_cong:
  assumes "\<And>c. c \<in> set bs \<Longrightarrow> hdr m c \<Longrightarrow> hdr m' c \<and> blk_next m' (at c) = blk_next m (at c)"
  shows "seg m p bs q \<Longrightarrow> seg m' p bs q"
  using seg_map [of bs m "\<lambda>c. c" m' p q] assms by simp

definition append_block :: "u32 \<Rightarrow> u32 \<Rightarrow> u32 \<Rightarrow> mem \<Rightarrow> mem" where
  "append_block l n sz m = set_next l n (set_addr n (n + 24) (set_flags n 0
     (set_magic n MEM_BLOCK_MAGIC (set_state n MEM_STATE_USED (set_next n 0 (set_size n sz m))))))"

lemma heap_append:
  assumes h: "heap st bs" and fit: "unat (end_of bs) + 24 + unat sz < 4294967296"
  shows "heap (st\<lparr>ram := append_block (at (last bs)) (end_of bs) sz (ram st)\<rparr>) (bs @ [new_block (end_of bs) sz])"
proof -
  let ?m = "append_block (at (last bs)) (end_of bs) sz (ram st)"
  let ?n = "end_of bs"
  note D = heap_D [OF h] and E = unat_end_of [OF h]
  obtain xs l where bs: "bs = xs @ [l]" using D(5) by (metis append_butlast_last_id)
  have L: "at (last bs) = at l" "l \<in> set bs" by (simp_all add: bs)
  have old: "clear_of c ?n" if "c \<in> set bs" for c
    using before_end [OF D(4) that] layout_ge [OF D(4) that] fit
    by (simp add: clear_of_def E block_end_def)
  have left: "clear_of c (at l)" if "c \<in> set xs" for c
  proof (rule heap_clear [OF h L(2)])
    show "c \<in> set bs" using that bs by simp
    show "at c \<noteq> at l"
      using D(4) that unfolding bs layout_append by (auto dest!: before_end simp: block_end_def split: if_splits)
  qed
  have new: "unat (at l) + 24 \<le> unat ?n" "unat (at l) + 24 < 4294967296" "unat ?n + 24 < 4294967296"
    using fit E by (simp_all add: bs block_end_def)
  note fields = header_load_other [OF disjI1 [OF new(1)] new(2,3), of 20]
  have other: "load32 (set_next (at l) ?n m) (?n + j) = load32 m (?n + j)" if "j \<le> 20" for m j
    using fields [of j m ?n] that by simp
  note others = other [of 0, simplified] other [of 4, simplified] other [of 8, simplified]
    other [of 12, simplified] other [of 16, simplified] other [of 20, simplified]
  have "hdr ?m (new_block ?n sz)" "blk_next ?m ?n = 0"
    unfolding append_block_def L(1) by (simp_all add: hdr_def new_block_def others)
  moreover have "hdr ?m l" "blk_next ?m (at l) = ?n"
    using heap_hdr [OF h L(2)] old [OF L(2)] unfolding append_block_def L(1)
    by (simp_all add: hdr_def)
  moreover have "seg ?m (head st) xs (at l)"
  proof (rule seg_cong)
    show "seg (ram st) (head st) xs (at l)" using D(3) unfolding bs seg_append by auto
    show "hdr ?m c \<and> blk_next ?m (at c) = blk_next (ram st) (at c)"
      if "c \<in> set xs" "hdr (ram st) c" for c
      using that(2) left [OF that(1)] old [of c] that(1) bs unfolding append_block_def L(1)
      by (simp add: hdr_def)
  qed
  moreover have "at l \<noteq> 0" using seg_hdr [OF D(3) L(2)] by simp
  moreover have "?n \<noteq> 0" using E by (auto simp: block_end_def)
  ultimately have seg: "seg ?m (head st) (bs @ [new_block ?n sz]) 0"
    unfolding bs append_assoc seg_append by (intro exI [of _ "at l"]) (simp add: new_block_def)
  have "layout (unat (mem_start st)) (bs @ [new_block ?n sz])"
    using D(4,5) fit E by (simp add: layout_append new_block_def block_end_def)
  with seg show ?thesis using h D(5)
    by (auto simp: heap_def hd_append tl_append new_block_def split: list.splits)
qed

section \<open>What kalloc, kfree and krealloc do to the block list\<close>

text \<open>The abstract allocation: the first free block that is large enough, or a new last block.\<close>

definition alloc_blocks :: "u32 \<Rightarrow> block list \<Rightarrow> u32 \<times> block list" where
  "alloc_blocks sz bs = (case first_fit sz bs of
     Some b \<Rightarrow> (at b + 24, upd_block (at b) reuse bs)
   | None \<Rightarrow> (end_of bs + 24, bs @ [new_block (end_of bs) sz]))"

text \<open>There is room: a free block fits, or the end of the last block is within the heap.\<close>

definition room :: "alloc_state \<Rightarrow> block list \<Rightarrow> u32 \<Rightarrow> bool" where
  "room st bs sz \<longleftrightarrow> first_fit sz bs \<noteq> None \<or> end_of bs \<le> mem_start st + mem_size st"

text \<open>The top of the heap is far enough below 4 GiB for a request of this size.\<close>

definition below_top :: "alloc_state \<Rightarrow> u32 \<Rightarrow> bool" where
  "below_top st sz \<longleftrightarrow> unat (mem_start st) + unat (mem_size st) + 24 + unat sz < 4294967296"

lemma kalloc_ok:
  assumes h: "heap st bs" and sz: "aligned_size sz \<noteq> 0" and r: "room st bs (aligned_size sz)"
    and t: "below_top st (aligned_size sz)"
  shows "\<exists>m. kalloc st sz = Some (Inr (fst (alloc_blocks (aligned_size sz) bs), st\<lparr>ram := m\<rparr>))
    \<and> heap (st\<lparr>ram := m\<rparr>) (snd (alloc_blocks (aligned_size sz) bs))
    \<and> (\<forall>b \<in> set bs. \<forall>a. payload b a \<longrightarrow> m a = ram st a)"
proof (cases "first_fit (aligned_size sz) bs")
  case (Some b)
  let ?m = "set_flags (at b) 0 (set_addr (at b) (at b + 24) (set_state (at b) MEM_STATE_USED (ram st)))"
  have "b \<in> set bs" using first_fit_D [OF Some] by simp
  then have "payload c a \<Longrightarrow> c \<in> set bs \<Longrightarrow> ?m a = ram st a" for c a
    using heap_payload_header [OF h, of c b a] by (simp add: header_byte_others)
  then show ?thesis
    using kalloc_cases [OF h sz] heap_reuse [OF h Some] Some
    by (intro exI [of _ ?m]) (simp add: alloc_blocks_def)
next
  case None
  let ?m = "append_block (at (last bs)) (end_of bs) (aligned_size sz) (ram st)"
  have n: "end_of bs \<le> mem_start st + mem_size st" using r None by (simp add: room_def)
  then have "unat (end_of bs) \<le> unat (mem_start st) + unat (mem_size st)"
    using heap_limit [OF h] by (simp add: word_le_nat_alt)
  with t have fit: "unat (end_of bs) + 24 + unat (aligned_size sz) < 4294967296"
    by (simp add: below_top_def)
  note new = heap_append [OF h fit]
  have "?m a = ram st a" if "c \<in> set bs" "payload c a" for c a
  proof -
    have "\<not> in_block a (at (last bs)) 24"
      using heap_payload_header [OF h that(1) _ that(2)] heap_D(5) [OF h] by simp
    moreover have "\<not> in_block a (at (new_block (end_of bs) (aligned_size sz))) 24"
      using heap_payload_header [OF new, of c _ a] that by simp
    ultimately show ?thesis by (simp add: append_block_def new_block_def header_byte_others)
  qed
  then show ?thesis
    using kalloc_cases [OF h sz] new None n
    by (intro exI [of _ ?m]) (simp add: alloc_blocks_def append_block_def Let_def)
qed

lemma alloc_blocks_fst_nonzero:
  assumes h: "heap st bs" and t: "below_top st sz" and r: "room st bs sz"
  shows "\<exists>b \<in> set (snd (alloc_blocks sz bs)). at b + 24 = fst (alloc_blocks sz bs) \<and> \<not> bfree b
    \<and> sz \<le> bsize b \<and> bflags b = 0"
proof (cases "first_fit sz bs")
  case (Some b)
  then have "b \<in> set bs" "sz \<le> bsize b" using first_fit_D by blast+
  then have "reuse b \<in> set (upd_block (at b) reuse bs)"
    by (auto simp: upd_block_def intro: rev_image_eqI)
  then show ?thesis using Some \<open>sz \<le> bsize b\<close>
    by (intro bexI [of _ "reuse b"]) (simp_all add: alloc_blocks_def reuse_def)
qed (simp add: alloc_blocks_def new_block_def)

section \<open>kfree, kmmcritical\<close>

lemma owns_iff: "heap st bs \<Longrightarrow> b \<in> set bs \<Longrightarrow> owns st (at b + 24) \<longleftrightarrow> at b + 24 \<le> mem_start st + mem_size st"
proof -
  assume h: "heap st bs" "b \<in> set bs"
  then have "unat (mem_start st) \<le> unat (at b)" "block_end b < 4294967296"
    using layout_ge [OF heap_D(4)] by blast+
  then have "mem_start st \<le> at b + 24"
    by (simp add: word_le_nat_alt block_end_def unat_add_u32)
  then show ?thesis by (simp add: owns_def)
qed

definition mark_free :: "block \<Rightarrow> block" where
  "mark_free b = b\<lparr>bfree := True\<rparr>"

lemma kfree_cases:
  assumes h: "heap st bs" and b: "b \<in> set bs"
  shows "kfree st (at b + 24) =
    (if \<not> at b + 24 \<le> mem_start st + mem_size st then Inl (AssertFailed ''Tried to free invalid address'')
     else if bflags b AND MEM_CRITICAL \<noteq> 0 then Inl (AssertFailed ''Tried to free critical memory'')
     else if bfree b then Inl (AssertFailed ''Tried to free already free memory'')
     else Inr (st\<lparr>ram := set_state (at b) MEM_STATE_FREE (ram st)\<rparr>))"
  using heap_hdr [OF h b] owns_iff [OF h b]
  by (simp add: kfree_def hdr_def Let_def assert_that_def)

lemma heap_free:
  assumes h: "heap st bs" and b: "b \<in> set bs" and nc: "bflags b AND MEM_CRITICAL = 0"
  shows "heap (st\<lparr>ram := set_state (at b) MEM_STATE_FREE (ram st)\<rparr>) (upd_block (at b) mark_free bs)"
  by (rule heap_update [OF h b])
    (use heap_hdr [OF h b] nc h in \<open>auto simp: hdr_clear hdr_def mark_free_def heap_def\<close>)

lemma heap_payload_frame:
  assumes h: "heap st bs" and b: "b \<in> set bs" and c: "c \<in> set bs" "payload c a" and k: "k \<le> 20"
  shows "store32 (ram st) (at b + k) v a = ram st a"
  using header_byte_other [OF heap_payload_header [OF h c(1) b c(2)] k] .

lemma or_critical: "(x OR MEM_CRITICAL) AND MEM_CRITICAL \<noteq> 0"
proof -
  have "(x OR MEM_CRITICAL) AND MEM_CRITICAL = MEM_CRITICAL"
    by (rule bit_word_eqI) (auto simp: bit_simps)
  then show ?thesis by (simp add: MEM_CRITICAL_def)
qed

definition mark_critical :: "block \<Rightarrow> block" where
  "mark_critical b = b\<lparr>bflags := bflags b OR MEM_CRITICAL\<rparr>"

lemma kmmcritical_ok:
  assumes h: "heap st bs" and b: "b \<in> set bs" and o: "at b + 24 \<le> mem_start st + mem_size st"
  shows "\<exists>m. kmmcritical st (at b + 24) = Inr (st\<lparr>ram := m\<rparr>)
    \<and> heap (st\<lparr>ram := m\<rparr>) (upd_block (at b) mark_critical bs)"
proof -
  let ?m = "set_flags (at b) (bflags b OR MEM_CRITICAL) (ram st)"
  have "heap (st\<lparr>ram := ?m\<rparr>) (upd_block (at b) mark_critical bs)"
    by (rule heap_update [OF h b])
      (use heap_hdr [OF h b] h in \<open>auto simp: hdr_clear hdr_def mark_critical_def heap_def or_critical\<close>)
  then show ?thesis
    using heap_hdr [OF h b] owns_iff [OF h b] o
    by (intro exI [of _ ?m]) (simp add: kmmcritical_def hdr_def Let_def)
qed

section \<open>init_alloc\<close>

lemma init_heap:
  assumes "start \<noteq> 0" "unat start + unat sz < 4294967296" "unat start + 24 < 4294967296"
  shows "heap (init_alloc st start sz)
    [\<lparr>at = start, bflags = MEM_CRITICAL, bsize = 0, bfree = False, baddr = blk_addr (ram st) start\<rparr>]"
  using assms by (simp add: heap_def init_alloc_def hdr_def block_end_def MEM_CRITICAL_def)

section \<open>The block list of a heap is unique\<close>

lemma seg_unique: "seg m p bs 0 \<Longrightarrow> seg m p cs 0 \<Longrightarrow> bs = cs"
proof (induction bs arbitrary: p cs)
  case Nil
  then show ?case by (cases cs) auto
next
  case (Cons b bs)
  then obtain c cs' where cs: "cs = c # cs'" by (cases cs) auto
  have "hdr m b" "hdr m c" "at b = at c" using Cons.prems cs by auto
  then have "b = c" by (auto simp: hdr_def split: if_splits)
  with Cons cs show ?case by auto
qed

lemma heap_unique: "heap st bs \<Longrightarrow> heap st cs \<Longrightarrow> bs = cs"
  using seg_unique heap_D(3) by blast

section \<open>krealloc\<close>

lemma round_up_64:
  "(n + 63) div 64 * 64 = (if n mod 64 = 0 then n else n div 64 * 64 + (64 :: nat))"
proof -
  define q where "q = n div 64"
  define r where "r = n mod 64"
  have n: "n = r + q * 64" and r: "r < 64" by (simp_all add: q_def r_def)
  have "(n + 63) div 64 = (r + 63) div 64 + q" unfolding n by simp
  moreover have "(r + 63) div 64 = (if r = 0 then 0 else 1)" using r by (auto intro: div_nat_eqI)
  ultimately show ?thesis unfolding q_def [symmetric] r_def [symmetric] using n by simp
qed

lemma unat_aligned_size:
  "unat (aligned_size sz) = (let k = (unat sz + 63) div 64 * 64 in if k = 4294967296 then 0 else k)"
proof -
  define n where "n = unat sz"
  have n: "n < 4294967296" by (simp add: n_def)
  show ?thesis
  proof (cases "n mod 64 = 0")
    case True
    then have "sz mod 64 = 0" by (simp add: n_def word_unat_eq_iff unat_mod)
    moreover have "(n + 63) div 64 * 64 = n" using True by (simp add: round_up_64)
    ultimately show ?thesis using n by (simp add: aligned_size_def n_def [symmetric])
  next
    case False
    then have m: "sz mod 64 \<noteq> 0" by (simp add: n_def word_unat_eq_iff unat_mod)
    have k: "(n + 63) div 64 * 64 = n div 64 * 64 + 64" using False by (simp add: round_up_64)
    have u: "unat (sz div 64 * 64) = n div 64 * 64"
    proof -
      have d: "unat (sz div 64) = n div 64" by (simp add: unat_div n_def)
      have "n div 64 * 64 < 4294967296" using n by linarith
      then show ?thesis unfolding unat_word_ariths(2) d by simp
    qed
    have "unat (sz div 64 * 64 + 64) = (n div 64 * 64 + 64) mod 4294967296"
      by (simp add: unat_word_ariths(1) u [simplified])
    moreover have "n div 64 < 67108864" using n by (simp add: div_less_iff_less_mult)
    then have "n div 64 * 64 + 64 \<le> 4294967296" by linarith
    ultimately show ?thesis using m k by (auto simp: aligned_size_def n_def [symmetric] Let_def)
  qed
qed

lemma aligned_size_ge: "aligned_size sz \<noteq> 0 \<Longrightarrow> sz \<le> aligned_size sz"
proof -
  assume "aligned_size sz \<noteq> 0"
  then have "unat (aligned_size sz) \<noteq> 0" by (simp add: unat_eq_zero)
  then have "unat (aligned_size sz) = (unat sz + 63) div 64 * 64"
    by (simp add: unat_aligned_size Let_def split: if_splits)
  then show ?thesis unfolding word_le_nat_alt by (simp add: round_up_64) linarith
qed

lemma payload_iff:
  "block_end b < 4294967296 \<Longrightarrow> payload b a \<longleftrightarrow> unat (at b) + 24 \<le> unat a \<and> unat a < block_end b"
proof -
  assume e: "block_end b < 4294967296"
  then have u: "unat (at b + 24) = unat (at b) + 24" by (subst unat_add_u32) (simp_all add: block_end_def)
  show ?thesis
    unfolding payload_def in_block_def unat_diff_u32 u block_end_def
    using e unat_lt_2p32 [of a] by (auto simp: block_end_def split: if_splits simp del: unat_lt_2p32)
qed

lemma payload_disjoint:
  assumes "heap st bs" "b \<in> set bs" "c \<in> set bs" "b \<noteq> c" "payload b a"
  shows "\<not> payload c a"
  using layout_disjoint [OF heap_D(4) [OF assms(1)] assms(2,3)] assms(4,5)
    layout_ge [OF heap_D(4) [OF assms(1)] assms(2)] layout_ge [OF heap_D(4) [OF assms(1)] assms(3)]
  by (auto simp: payload_iff)

text \<open>Writes inside payloads leave the heap as it is.\<close>

lemma heap_payload_write:
  assumes h: "heap st bs" and m: "\<And>a. m a = ram st a \<or> (\<exists>b \<in> set bs. payload b a)"
  shows "heap (st\<lparr>ram := m\<rparr>) bs"
proof -
  have l: "load32 m (at c + j) = load32 (ram st) (at c + j)" if c: "c \<in> set bs" and j: "j \<le> 20" for c j
  proof (rule load32_cong)
    fix i :: u32 assume i: "i < 4"
    have "unat j + unat i < 24" using i j unfolding word_less_nat_alt word_le_nat_alt by simp
    then have "in_block (at c + j + i) (at c) 24"
      by (simp add: in_block_def add.assoc unat_add_u32)
    then show "m (at c + j + i) = ram st (at c + j + i)"
      using m heap_payload_header [OF h _ c] by blast
  qed
  have "seg m (head st) bs 0"
    by (rule seg_cong [OF _ heap_D(3) [OF h]])
      (use l [of _ 0] l [of _ 4] l [of _ 8] l [of _ 12] l [of _ 16] l [of _ 20] in \<open>simp add: hdr_def\<close>)
  then show ?thesis using h by (simp add: heap_def)
qed

lemma upd_keeps: "c \<in> set bs \<Longrightarrow> at c \<noteq> p \<Longrightarrow> c \<in> set (upd_block p f bs)"
  by (auto simp: upd_block_def intro: rev_image_eqI)

lemma alloc_keeps_live:
  assumes h: "heap st bs" and c: "c \<in> set bs" "\<not> bfree c"
  shows "c \<in> set (snd (alloc_blocks sz bs))"
proof (cases "first_fit sz bs")
  case (Some b)
  then have "b \<in> set bs" "bfree b" using first_fit_D by blast+
  then have "at c \<noteq> at b" using layout_at_inj [OF heap_D(4) [OF h]] c by blast
  then show ?thesis using Some c by (simp add: alloc_blocks_def upd_keeps)
qed (simp add: alloc_blocks_def c)

text \<open>The block that an allocation returns is none of the live ones.\<close>

lemma alloc_new_block:
  assumes h: "heap st bs" and h': "heap st' (snd (alloc_blocks sz bs))"
    and c: "c \<in> set bs" "\<not> bfree c"
    and b: "b \<in> set (snd (alloc_blocks sz bs))" "at b + 24 = fst (alloc_blocks sz bs)"
  shows "b \<noteq> c"
proof (cases "first_fit sz bs")
  case (Some f)
  then have f: "f \<in> set bs" "bfree f" using first_fit_D by blast+
  then have "at c \<noteq> at f" using layout_at_inj [OF heap_D(4) [OF h]] c by blast
  then show ?thesis using Some b(2) by (auto simp: alloc_blocks_def)
next
  case None
  then have "at b = end_of bs" using b(2) by (simp add: alloc_blocks_def)
  moreover have "unat (at c) < unat (end_of bs)"
    using before_end [OF heap_D(4) [OF h] c(1)] by (simp add: unat_end_of [OF h] block_end_def)
  ultimately show ?thesis by auto
qed

lemma krealloc_grow:
  assumes h: "heap st bs" and b: "b \<in> set bs" "\<not> bfree b" "bflags b AND MEM_CRITICAL = 0"
    and own: "at b + 24 \<le> mem_start st + mem_size st" and grow: "bsize b \<le> n"
    and sz: "aligned_size n \<noteq> 0" and r: "room st bs (aligned_size n)" and t: "below_top st (aligned_size n)"
  defines "p \<equiv> fst (alloc_blocks (aligned_size n) bs)"
    and "bs' \<equiv> upd_block (at b) mark_free (snd (alloc_blocks (aligned_size n) bs))"
  shows "\<exists>m. krealloc st (at b + 24) n = Some (Inr (p, st\<lparr>ram := m\<rparr>)) \<and> heap (st\<lparr>ram := m\<rparr>) bs'
    \<and> (\<forall>i < unat (bsize b). m (p + of_nat i) = ram st (at b + 24 + of_nat i))
    \<and> (\<forall>c \<in> set bs. \<not> bfree c \<longrightarrow> (\<forall>a. payload c a \<longrightarrow> m a = ram st a))"
proof -
  let ?cs = "snd (alloc_blocks (aligned_size n) bs)"
  obtain m1 where k: "kalloc st n = Some (Inr (p, st\<lparr>ram := m1\<rparr>))" and h1: "heap (st\<lparr>ram := m1\<rparr>) ?cs"
    and pay1: "\<forall>c \<in> set bs. \<forall>a. payload c a \<longrightarrow> m1 a = ram st a"
    using kalloc_ok [OF h sz r t] unfolding p_def by blast
  obtain q where q: "q \<in> set ?cs" "at q + 24 = p" "aligned_size n \<le> bsize q"
    using alloc_blocks_fst_nonzero [OF h t r] unfolding p_def by blast
  have live: "c \<in> set ?cs" "q \<noteq> c" if "c \<in> set bs" "\<not> bfree c" for c
    using alloc_keeps_live [OF h that] alloc_new_block [OF h h1 that q(1)] q(2) by (simp_all add: p_def)
  note bq = live [OF b(1,2)]
  have le: "unat (bsize b) \<le> unat (bsize q)"
    using grow aligned_size_ge [OF sz] q(3) unfolding word_le_nat_alt by linarith
  have inq: "payload q a" if "in_block a p (unat (bsize b))" for a
    using that le q(2) by (auto simp: payload_def intro: in_block_mono)
  have "apart p (at b + 24) (unat (bsize b))"
    unfolding apart_def using inq payload_disjoint [OF h1 q(1) bq] by (auto simp: payload_def)
  then have cp: "memcpy m1 p (at b + 24) (bsize b) = copied m1 p (at b + 24) (unat (bsize b))"
    by (rule memcpy_eq)
  define m2 where "m2 = copied m1 p (at b + 24) (unat (bsize b))"
  have "m2 a = m1 a \<or> payload q a" for a
    using inq [of a] by (auto simp: m2_def copied_def)
  then have h2: "heap (st\<lparr>ram := m2\<rparr>) ?cs"
    using heap_payload_write [OF h1, of m2] q(1) by auto
  define m3 where "m3 = set_state (at b) MEM_STATE_FREE m2"
  have free: "kfree (st\<lparr>ram := m2\<rparr>) (at b + 24) = Inr (st\<lparr>ram := m3\<rparr>)"
    using kfree_cases [OF h2 bq(1)] b own by (simp add: m3_def)
  have h3: "heap (st\<lparr>ram := m3\<rparr>) bs'"
    using heap_free [OF h2 bq(1) b(3)] by (simp add: m3_def bs'_def)
  have frame3: "payload c a \<Longrightarrow> c \<in> set ?cs \<Longrightarrow> m3 a = m2 a" for c a
    using heap_payload_frame [OF h2 bq(1), of c a 12] by (simp add: m3_def)
  have "krealloc st (at b + 24) n = Some (Inr (p, st\<lparr>ram := m3\<rparr>))"
  proof -
    have nz: "at b + 24 \<noteq> 0"
      using layout_ge [OF heap_D(4) [OF h] b(1)] by (auto simp: word_eq_unat_u32 block_end_def unat_add_u32)
    have fields: "blk_state (ram st) (at b) = MEM_STATE_USED" "blk_magic (ram st) (at b) = MEM_BLOCK_MAGIC"
      "blk_size (ram st) (at b) = bsize b" "blk_size m1 (at b) = bsize b"
      using heap_hdr [OF h b(1)] heap_hdr [OF h1 bq(1)] b(2) by (simp_all add: hdr_def)
    show ?thesis
      using nz fields owns_iff [OF h b(1)] own grow k free cp
      by (simp add: krealloc_def Let_def not_less [symmetric] m2_def [symmetric])
  qed
  moreover have "m3 (p + of_nat i) = ram st (at b + 24 + of_nat i)" if i: "i < unat (bsize b)" for i
  proof -
    have u: "unat (of_nat i :: u32) = i" using i unat_lt_2p32 [of "bsize b"] by (intro unat_of_nat_u32) linarith
    then have "in_block (p + of_nat i) p (unat (bsize b))" using i by (simp add: in_block_def)
    then have "m3 (p + of_nat i) = m1 (at b + 24 + of_nat i)"
      using frame3 [OF inq q(1), of "p + of_nat i"] by (simp add: m2_def copied_def)
    also have "payload b (at b + 24 + of_nat i)" using i u by (simp add: payload_def in_block_def)
    then have "m1 (at b + 24 + of_nat i) = ram st (at b + 24 + of_nat i)" using pay1 b(1) by blast
    finally show ?thesis .
  qed
  moreover have "m3 a = ram st a" if c: "c \<in> set bs" "\<not> bfree c" "payload c a" for c a
  proof -
    have "\<not> payload q a" using payload_disjoint [OF h1 _ q(1) _ c(3)] live [OF c(1,2)] by metis
    then have "m2 a = m1 a" using inq [of a] by (auto simp: m2_def copied_def)
    then show ?thesis using frame3 [OF c(3) live(1) [OF c(1,2)]] pay1 c by simp
  qed
  ultimately show ?thesis using h3 by (intro exI [of _ m3]) blast
qed

lemma krealloc_shrink:
  assumes h: "heap st bs" and b: "b \<in> set bs" "\<not> bfree b" "b \<noteq> hd bs"
    and own: "at b + 24 \<le> mem_start st + mem_size st" and n: "n < bsize b"
  shows "\<exists>m. krealloc st (at b + 24) n = Some (Inr (at b + 24, st\<lparr>ram := m\<rparr>))
    \<and> heap (st\<lparr>ram := m\<rparr>) (upd_block (at b) (bsize_update (\<lambda>_. n)) bs)
    \<and> (\<forall>c \<in> set bs. \<forall>a. payload c a \<longrightarrow> m a = ram st a)"
proof -
  let ?m = "set_size (at b) n (ram st)"
  have "heap (st\<lparr>ram := ?m\<rparr>) (upd_block (at b) (bsize_update (\<lambda>_. n)) bs)"
    by (rule heap_update [OF h b(1)])
      (use heap_hdr [OF h b(1)] n b(3) in \<open>auto simp: hdr_clear hdr_def\<close>)
  moreover have "at b + 24 \<noteq> 0"
    using layout_ge [OF heap_D(4) [OF h] b(1)] by (auto simp: word_eq_unat_u32 block_end_def unat_add_u32)
  ultimately show ?thesis
    using heap_hdr [OF h b(1)] owns_iff [OF h b(1)] own n b heap_payload_frame [OF h b(1), of _ _ 8]
    by (intro exI [of _ ?m]) (simp add: krealloc_def Let_def hdr_def)
qed

section \<open>The allocator contract\<close>

text \<open>
  What a client of an allocator may rely on: an allocation gives a block that is large enough
  and disjoint from every block owned before, and changes none of their bytes; a free gives up
  one block and leaves the others. A client that makes several requests gets pairwise disjoint
  blocks: this follows from the contract alone.
\<close>

fun alloc_many :: "('s \<Rightarrow> u32 \<Rightarrow> (u32 \<times> 's) option) \<Rightarrow> 's \<Rightarrow> u32 list \<Rightarrow> (u32 list \<times> 's) option" where
  "alloc_many alloc s [] = Some ([], s)"
| "alloc_many alloc s (n # ns) = Option.bind (alloc s n) (\<lambda>(p, s).
     Option.bind (alloc_many alloc s ns) (\<lambda>(ps, s). Some (p # ps, s)))"

definition apart_blocks :: "u32 \<Rightarrow> nat \<Rightarrow> u32 \<Rightarrow> nat \<Rightarrow> bool" where
  "apart_blocks p j q k \<longleftrightarrow> (\<forall>a. \<not> (in_block a p j \<and> in_block a q k))"

lemma apart_blocks_mono: "apart_blocks p j q k \<Longrightarrow> j' \<le> j \<Longrightarrow> k' \<le> k \<Longrightarrow> apart_blocks p j' q k'"
  unfolding apart_blocks_def by (meson in_block_mono)

locale allocator =
  fixes alloc :: "'s \<Rightarrow> u32 \<Rightarrow> (u32 \<times> 's) option"
    and free :: "'s \<Rightarrow> u32 \<Rightarrow> 's option"
    and wf :: "'s \<Rightarrow> bool"
    and request :: "'s \<Rightarrow> u32 \<Rightarrow> bool"
    and owned :: "'s \<Rightarrow> u32 \<Rightarrow> nat \<Rightarrow> bool"
    and bytes :: "'s \<Rightarrow> mem"
  assumes alloc_wf: "wf s \<Longrightarrow> request s n \<Longrightarrow> alloc s n = Some (p, s') \<Longrightarrow> wf s'"
    and alloc_request: "wf s \<Longrightarrow> alloc s n = Some (p, s') \<Longrightarrow> request s' r = request s r"
    and alloc_gives: "wf s \<Longrightarrow> request s n \<Longrightarrow> alloc s n = Some (p, s') \<Longrightarrow> \<exists>k \<ge> unat n. owned s' p k"
    and alloc_keeps: "wf s \<Longrightarrow> request s n \<Longrightarrow> alloc s n = Some (p, s') \<Longrightarrow> owned s q j \<Longrightarrow>
      owned s' q j \<and> (\<forall>a. in_block a q j \<longrightarrow> bytes s' a = bytes s a)"
    and alloc_fresh: "wf s \<Longrightarrow> request s n \<Longrightarrow> alloc s n = Some (p, s') \<Longrightarrow> owned s q j \<Longrightarrow>
      owned s' p k \<Longrightarrow> apart_blocks p k q j"
    and free_wf: "wf s \<Longrightarrow> owned s p k \<Longrightarrow> free s p = Some s' \<Longrightarrow> wf s' \<and> \<not> owned s' p j"
    and free_keeps: "wf s \<Longrightarrow> owned s p k \<Longrightarrow> free s p = Some s' \<Longrightarrow> owned s q j \<Longrightarrow> q \<noteq> p \<Longrightarrow>
      owned s' q j \<and> (\<forall>a. in_block a q j \<longrightarrow> bytes s' a = bytes s a)"
begin

lemma alloc_many_keeps:
  "alloc_many alloc s ns = Some (ps, s') \<Longrightarrow> wf s \<Longrightarrow> \<forall>n \<in> set ns. request s n \<Longrightarrow> owned s q j \<Longrightarrow>
   wf s' \<and> owned s' q j \<and> (\<forall>a. in_block a q j \<longrightarrow> bytes s' a = bytes s a)"
proof (induction ns arbitrary: s ps)
  case (Cons n ns)
  then obtain p s1 ps1 where 1: "alloc s n = Some (p, s1)" "alloc_many alloc s1 ns = Some (ps1, s')"
    by auto
  have req: "request s n" "\<forall>n \<in> set ns. request s1 n"
    using Cons.prems(3) alloc_request [OF Cons.prems(2) 1(1)] by simp_all
  note k = alloc_keeps [OF Cons.prems(2) req(1) 1(1) Cons.prems(4)]
  show ?case
    using Cons.IH [OF 1(2) alloc_wf [OF Cons.prems(2) req(1) 1(1)] req(2)] k by auto
qed simp

lemma alloc_many_apart:
  "alloc_many alloc s ns = Some (ps, s') \<Longrightarrow> wf s \<Longrightarrow> \<forall>n \<in> set ns. request s n \<Longrightarrow>
   wf s' \<and> length ps = length ns
   \<and> (\<forall>i < length ns. \<exists>k \<ge> unat (ns ! i). owned s' (ps ! i) k)
   \<and> (\<forall>i < length ns. \<forall>q j. owned s q j \<longrightarrow> apart_blocks (ps ! i) (unat (ns ! i)) q j)
   \<and> (\<forall>i j. i < j \<and> j < length ns \<longrightarrow> apart_blocks (ps ! j) (unat (ns ! j)) (ps ! i) (unat (ns ! i)))"
proof (induction ns arbitrary: s ps)
  case (Cons n ns)
  then obtain p s1 ps1 where 1: "alloc s n = Some (p, s1)" "alloc_many alloc s1 ns = Some (ps1, s')"
      and ps: "ps = p # ps1"
    by auto
  have req: "request s n" "\<forall>n \<in> set ns. request s1 n"
    using Cons.prems(3) alloc_request [OF Cons.prems(2) 1(1)] by simp_all
  note w1 = alloc_wf [OF Cons.prems(2) req(1) 1(1)]
  note IH = Cons.IH [OF 1(2) w1 req(2)]
  obtain k where k: "unat n \<le> k" "owned s1 p k" using alloc_gives [OF Cons.prems(2) req(1) 1(1)] by blast
  have k': "owned s' p k" using alloc_many_keeps [OF 1(2) w1 req(2) k(2)] by simp
  have fresh: "apart_blocks p (unat n) q j" if "owned s q j" for q j
    using alloc_fresh [OF Cons.prems(2) req(1) 1(1) that k(2)] k(1) by (auto elim: apart_blocks_mono)
  have old: "owned s1 q j" if "owned s q j" for q j
    using alloc_keeps [OF Cons.prems(2) req(1) 1(1) that] by simp
  have later: "apart_blocks (ps1 ! i) (unat (ns ! i)) p (unat n)" if "i < length ns" for i
    using IH that k by (meson apart_blocks_mono order_refl)
  show ?case
    using IH k k' fresh old later by (auto simp: ps nth_Cons split: nat.splits)
qed simp

end

text \<open>The model's operations as partial functions: a failed assertion gives nothing back.\<close>

definition kalloc_opt :: "alloc_state \<Rightarrow> u32 \<Rightarrow> (u32 \<times> alloc_state) option" where
  "kalloc_opt st n = (case kalloc st n of Some (Inr r) \<Rightarrow> Some r | _ \<Rightarrow> None)"

definition kfree_opt :: "alloc_state \<Rightarrow> u32 \<Rightarrow> alloc_state option" where
  "kfree_opt st p = (case kfree st p of Inr st' \<Rightarrow> Some st' | _ \<Rightarrow> None)"

definition heap_wf :: "alloc_state \<Rightarrow> bool" where
  "heap_wf st \<longleftrightarrow> (\<exists>bs. heap st bs)"

definition heap_request :: "alloc_state \<Rightarrow> u32 \<Rightarrow> bool" where
  "heap_request st n \<longleftrightarrow> aligned_size n \<noteq> 0 \<and> below_top st (aligned_size n)"

text \<open>An allocation that succeeds, and the end of a live block, as the clients of the allocator use them.\<close>

lemma kalloc_block:
  assumes h: "heap st bs" and req: "heap_request st n" and r: "room st bs (aligned_size n)"
  obtains m q bs' where "kalloc st n = Some (Inr (at q + 24, st\<lparr>ram := m\<rparr>))" "heap (st\<lparr>ram := m\<rparr>) bs'"
    "q \<in> set bs'" "\<not> bfree q" "bflags q = 0" "unat n \<le> unat (bsize q)"
    "\<And>c. c \<in> set bs \<Longrightarrow> \<not> bfree c \<Longrightarrow> c \<in> set bs' \<and> c \<noteq> q"
    "\<And>c a. c \<in> set bs \<Longrightarrow> payload c a \<Longrightarrow> m a = ram st a"
    "bs' = snd (alloc_blocks (aligned_size n) bs)" "at q + 24 = fst (alloc_blocks (aligned_size n) bs)"
proof -
  have sz: "aligned_size n \<noteq> 0" and t: "below_top st (aligned_size n)" using req by (simp_all add: heap_request_def)
  define bs' where "bs' = snd (alloc_blocks (aligned_size n) bs)"
  obtain m where k: "kalloc st n = Some (Inr (fst (alloc_blocks (aligned_size n) bs), st\<lparr>ram := m\<rparr>))"
    and h': "heap (st\<lparr>ram := m\<rparr>) bs'" and pay: "\<forall>b \<in> set bs. \<forall>a. payload b a \<longrightarrow> m a = ram st a"
    using kalloc_ok [OF h sz r t] unfolding bs'_def by blast
  obtain q where q: "q \<in> set bs'" "at q + 24 = fst (alloc_blocks (aligned_size n) bs)" "\<not> bfree q"
    "aligned_size n \<le> bsize q" "bflags q = 0"
    using alloc_blocks_fst_nonzero [OF h t r] unfolding bs'_def by blast
  have "unat n \<le> unat (bsize q)"
    using aligned_size_ge [OF sz] q(4) unfolding word_le_nat_alt by linarith
  moreover have "c \<in> set bs' \<and> c \<noteq> q" if "c \<in> set bs" "\<not> bfree c" for c
    using alloc_keeps_live [OF h that] alloc_new_block [OF h h' [unfolded bs'_def] that] q(1,2) unfolding bs'_def by blast
  ultimately show ?thesis using that [of q m bs'] k h' pay q unfolding bs'_def by simp
qed

lemma kfree_block:
  assumes h: "heap st bs" and q: "q \<in> set bs" "\<not> bfree q" "bflags q = 0" "at q + 24 \<le> mem_start st + mem_size st"
  obtains m where "kfree st (at q + 24) = Inr (st\<lparr>ram := m\<rparr>)" "heap (st\<lparr>ram := m\<rparr>) (upd_block (at q) mark_free bs)"
    "\<And>c a. c \<in> set bs \<Longrightarrow> payload c a \<Longrightarrow> m a = ram st a"
    "\<And>c. c \<in> set bs \<Longrightarrow> c \<noteq> q \<Longrightarrow> c \<in> set (upd_block (at q) mark_free bs)"
proof -
  let ?m = "set_state (at q) MEM_STATE_FREE (ram st)"
  have "kfree st (at q + 24) = Inr (st\<lparr>ram := ?m\<rparr>)" using kfree_cases [OF h q(1)] q(2-4) by simp
  moreover have "heap (st\<lparr>ram := ?m\<rparr>) (upd_block (at q) mark_free bs)" using q by (intro heap_free [OF h q(1)]) simp
  moreover have "?m a = ram st a" if "c \<in> set bs" "payload c a" for c a
    using heap_payload_frame [OF h q(1) that, of 12] by simp
  moreover have "c \<in> set (upd_block (at q) mark_free bs)" if "c \<in> set bs" "c \<noteq> q" for c
    using that layout_at_inj [OF heap_D(4) [OF h] _ q(1)] by (intro upd_keeps) auto
  ultimately show ?thesis using that [of ?m] by blast
qed

definition heap_owned :: "alloc_state \<Rightarrow> u32 \<Rightarrow> nat \<Rightarrow> bool" where
  "heap_owned st p k \<longleftrightarrow> (\<exists>bs b. heap st bs \<and> b \<in> set bs \<and> \<not> bfree b \<and> p = at b + 24 \<and> k = unat (bsize b))"

lemma heap_owned_iff:
  "heap st bs \<Longrightarrow> heap_owned st p k \<longleftrightarrow> (\<exists>b \<in> set bs. \<not> bfree b \<and> p = at b + 24 \<and> k = unat (bsize b))"
  using heap_unique unfolding heap_owned_def by blast

lemma kalloc_optD:
  assumes h: "heap st bs" and q: "heap_request st n" and k: "kalloc_opt st n = Some (p, st')"
  shows "p = fst (alloc_blocks (aligned_size n) bs) \<and> heap st' (snd (alloc_blocks (aligned_size n) bs))
    \<and> (\<forall>b \<in> set bs. \<forall>a. payload b a \<longrightarrow> ram st' a = ram st a) \<and> room st bs (aligned_size n)
    \<and> mem_start st' = mem_start st \<and> mem_size st' = mem_size st"
proof -
  have sz: "aligned_size n \<noteq> 0" and t: "below_top st (aligned_size n)"
    using q by (simp_all add: heap_request_def)
  have r: "room st bs (aligned_size n)"
    using k kalloc_cases [OF h sz]
    by (auto simp: kalloc_opt_def room_def Let_def split: option.splits if_splits)
  then show ?thesis using kalloc_ok [OF h sz r t] k by (auto simp: kalloc_opt_def)
qed

lemma upd_free: "c \<in> set (upd_block p mark_free bs) \<Longrightarrow> at c = p \<Longrightarrow> bfree c"
proof -
  assume "c \<in> set (upd_block p mark_free bs)" and p: "at c = p"
  then obtain d where d: "c = (if at d = p then mark_free d else d)"
    unfolding upd_block_def set_map by (elim imageE) blast
  show "bfree c"
  proof (cases "at d = p")
    case True
    then show ?thesis using d by (simp add: mark_free_def)
  next
    case False
    then have "c = d" using d by simp
    with p False show ?thesis by simp
  qed
qed

lemma kfree_optD:
  assumes h: "heap st bs" and b: "b \<in> set bs" and k: "kfree_opt st (at b + 24) = Some st'"
  shows "heap st' (upd_block (at b) mark_free bs) \<and> (\<forall>c \<in> set bs. \<forall>a. payload c a \<longrightarrow> ram st' a = ram st a)"
proof -
  have "bflags b AND MEM_CRITICAL = 0" "st' = st\<lparr>ram := set_state (at b) MEM_STATE_FREE (ram st)\<rparr>"
    using k kfree_cases [OF h b] by (auto simp: kfree_opt_def split: if_splits)
  then show ?thesis
    using heap_free [OF h b] heap_payload_frame [OF h b, of _ _ 12] by simp
qed

interpretation kernel: allocator kalloc_opt kfree_opt heap_wf heap_request heap_owned ram
proof (unfold_locales, goal_cases)
  case (1 s n p s')
  then show ?case using kalloc_optD unfolding heap_wf_def by blast
next
  case (2 s n p s' r)
  then have "mem_start s' = mem_start s \<and> mem_size s' = mem_size s"
    by (auto simp: kalloc_opt_def kalloc_def Let_def assert_that_def split: option.splits sum.splits if_splits)
  then show ?case by (simp add: heap_request_def below_top_def)
next
  case (3 s n p s')
  then obtain bs where h: "heap s bs" unfolding heap_wf_def by blast
  note k = kalloc_optD [OF h 3(2,3)]
  have t: "below_top s (aligned_size n)" "aligned_size n \<noteq> 0" using 3(2) by (simp_all add: heap_request_def)
  obtain b where b: "b \<in> set (snd (alloc_blocks (aligned_size n) bs))" "p = at b + 24" "\<not> bfree b"
      "aligned_size n \<le> bsize b"
    using alloc_blocks_fst_nonzero [OF h t(1)] k by metis
  then have "heap_owned s' p (unat (bsize b))" using k heap_owned_iff by blast
  moreover have "unat n \<le> unat (bsize b)"
    using aligned_size_ge [OF t(2)] b(4) unfolding word_le_nat_alt by linarith
  ultimately show ?case by blast
next
  case (4 s n p s' q j)
  then obtain bs where h: "heap s bs" unfolding heap_wf_def by blast
  obtain c where c: "c \<in> set bs" "\<not> bfree c" "q = at c + 24" "j = unat (bsize c)"
    using 4(4) heap_owned_iff [OF h] by blast
  note k = kalloc_optD [OF h 4(2,3)]
  show ?case
    using k alloc_keeps_live [OF h c(1,2)] c by (auto simp: heap_owned_def payload_def)
next
  case (5 s n p s' q j k)
  then obtain bs where h: "heap s bs" unfolding heap_wf_def by blast
  obtain c where c: "c \<in> set bs" "\<not> bfree c" "q = at c + 24" "j = unat (bsize c)"
    using 5(4) heap_owned_iff [OF h] by blast
  note K = kalloc_optD [OF h 5(2,3)]
  then have h': "heap s' (snd (alloc_blocks (aligned_size n) bs))" by simp
  obtain b where b: "b \<in> set (snd (alloc_blocks (aligned_size n) bs))" "p = at b + 24" "k = unat (bsize b)"
    using 5(5) heap_owned_iff [OF h'] by blast
  have "b \<noteq> c" using alloc_new_block [OF h h' c(1,2) b(1)] b(2) K by simp
  then show ?case
    using payload_disjoint [OF h' b(1) alloc_keeps_live [OF h c(1,2)]] b c
    by (auto simp: apart_blocks_def payload_def)
next
  case (6 s p k s' j)
  then obtain bs where h: "heap s bs" unfolding heap_wf_def by blast
  obtain b where b: "b \<in> set bs" "p = at b + 24" using 6(2) heap_owned_iff [OF h] by blast
  then have h': "heap s' (upd_block (at b) mark_free bs)" using kfree_optD [OF h b(1)] 6(3) by simp
  have "\<not> heap_owned s' p j"
    unfolding heap_owned_iff [OF h'] b(2) using upd_free by auto
  then show ?case using h' unfolding heap_wf_def by blast
next
  case (7 s p k s' q j)
  then obtain bs where h: "heap s bs" unfolding heap_wf_def by blast
  obtain b where b: "b \<in> set bs" "p = at b + 24" using 7(2) heap_owned_iff [OF h] by blast
  obtain c where c: "c \<in> set bs" "\<not> bfree c" "q = at c + 24" "j = unat (bsize c)"
    using 7(4) heap_owned_iff [OF h] by blast
  have "at c \<noteq> at b" using 7(5) b(2) c(3) by auto
  then have in': "c \<in> set (upd_block (at b) mark_free bs)" by (rule upd_keeps [OF c(1)])
  have f: "heap s' (upd_block (at b) mark_free bs)" "\<forall>c \<in> set bs. \<forall>a. payload c a \<longrightarrow> ram s' a = ram s a"
    using kfree_optD [OF h b(1), of s'] 7(3) unfolding b(2) by blast+
  have "heap_owned s' q j" unfolding heap_owned_iff [OF f(1)] using in' c by blast
  then show ?case using f(2) c by (auto simp: payload_def)
qed

section \<open>The properties\<close>

text \<open>A small heap for the witnesses: 64 KiB from 0x1000, just initialised.\<close>

definition ram0 :: mem where "ram0 = (\<lambda>_. 0)"

definition heap0 :: alloc_state where
  "heap0 = init_alloc \<lparr>ram = ram0, mem_start = 0, head = 0, mem_size = 0\<rparr> 0x1000 0x10000"

definition root0 :: block where
  "root0 = \<lparr>at = 0x1000, bflags = MEM_CRITICAL, bsize = 0, bfree = False, baddr = 0\<rparr>"

lemma heap0_ok: "heap heap0 [root0]"
  using init_heap [of "0x1000" "0x10000" "\<lparr>ram = ram0, mem_start = 0, head = 0, mem_size = 0\<rparr>"]
  by (simp add: heap0_def root0_def load32_def ram0_def)

lemma heap0_room: "heap_request heap0 100" "room heap0 [root0] (aligned_size 100)"
  by (simp_all add: heap_request_def room_def below_top_def aligned_size_def heap0_def init_alloc_def
    root0_def end_of_def)

text \<open>A heap with one live block of 128 bytes, which begins with the bytes \<open>xs\<close>, over the memory \<open>m\<close>.\<close>

definition heap1 :: "mem \<Rightarrow> u8 list \<Rightarrow> alloc_state" where
  "heap1 m xs = (let h = init_alloc \<lparr>ram = m, mem_start = 0, head = 0, mem_size = 0\<rparr> 0x1000 0x10000
     in h\<lparr>ram := write_bytes (append_block 0x1000 0x1018 128 (ram h)) 0x1030 xs\<rparr>)"

lemma heap1_ok:
  assumes "length xs \<le> 128" "load32 m 0x1010 = 0"
  shows "heap (heap1 m xs) [root0, new_block 0x1018 128]"
proof -
  let ?h = "init_alloc \<lparr>ram = m, mem_start = 0, head = 0, mem_size = 0\<rparr> 0x1000 0x10000"
  have h0: "heap ?h [root0]"
    using init_heap [of "0x1000" "0x10000" "\<lparr>ram = m, mem_start = 0, head = 0, mem_size = 0\<rparr>"] assms(2)
    by (simp add: root0_def)
  have h1: "heap (?h\<lparr>ram := append_block 0x1000 0x1018 128 (ram ?h)\<rparr>) [root0, new_block 0x1018 128]"
    using heap_append [OF h0, where sz = 128] by (simp add: end_of_def root0_def)
  have "write_bytes m 0x1030 xs a = m a \<or> payload (new_block 0x1018 128) a" for a m
    using write_bytes_outside [of a "0x1030" xs m] in_block_mono [of a "0x1030" "length xs" 128] assms
    by (auto simp: payload_def new_block_def)
  then have "heap (?h\<lparr>ram := append_block 0x1000 0x1018 128 (ram ?h),
      ram := write_bytes (append_block 0x1000 0x1018 128 (ram ?h)) 0x1030 xs\<rparr>) [root0, new_block 0x1018 128]"
    by (intro heap_payload_write [OF h1]) auto
  then show ?thesis by (simp add: heap1_def Let_def)
qed

lemma heap1_fields [simp]: "mem_start (heap1 m xs) = 0x1000" "mem_size (heap1 m xs) = 0x10000"
  by (simp_all add: heap1_def init_alloc_def Let_def)

lemma heap1_byte: "i < length xs \<Longrightarrow> length xs \<le> 4294967296 \<Longrightarrow> ram (heap1 m xs) (0x1030 + of_nat i) = xs ! i"
  by (simp add: heap1_def Let_def write_bytes_nth)

lemma heap1_room:
  assumes "0 < unat n" "unat n \<le> 0x1000"
  shows "heap_request (heap1 m xs) n" "room (heap1 m xs) [root0, new_block 0x1018 128] (aligned_size n)"
proof -
  have k: "0 < (unat n + 63) div 64" "(unat n + 63) div 64 \<le> 0x40" using assms by simp_all
  moreover have "unat (aligned_size n) = (unat n + 63) div 64 * 64" using k by (simp add: unat_aligned_size Let_def)
  ultimately have "0 < unat (aligned_size n)" "unat (aligned_size n) \<le> 0x1000" by simp_all
  then show "heap_request (heap1 m xs) n" "room (heap1 m xs) [root0, new_block 0x1018 128] (aligned_size n)"
    by (auto simp: heap_request_def below_top_def room_def end_of_def new_block_def)
qed

lemma heap0_alloc: "alloc_blocks (aligned_size 100) [root0] = (0x1030, [root0, new_block 0x1018 128])"
  by (simp add: alloc_blocks_def first_fit_def fits_def root0_def end_of_def aligned_size_def)

text \<open>
  C4: On every well-formed heap, \<open>kalloc\<close> ends and is a first-fit allocation: it takes the first
  free block of the chain that is large enough for the request rounded up to 64 bytes, otherwise
  it appends a block after the last one, and it fails its \<open>ASSERT\<close> exactly when that new header
  would start above the end of the heap. The heap stays well-formed and no byte of a payload changes.
\<close>

theorem kalloc_first_fit:
  assumes "heap st bs" "aligned_size n \<noteq> 0" "below_top st (aligned_size n)"
  shows "(\<not> room st bs (aligned_size n) \<longrightarrow>
        kalloc st n = Some (Inl (AssertFailed ''Out of memory, cannot allocate'')))
    \<and> (room st bs (aligned_size n) \<longrightarrow>
        (\<exists>m. kalloc st n = Some (Inr (fst (alloc_blocks (aligned_size n) bs), st\<lparr>ram := m\<rparr>))
          \<and> heap (st\<lparr>ram := m\<rparr>) (snd (alloc_blocks (aligned_size n) bs))
          \<and> (\<forall>b \<in> set bs. \<forall>a. payload b a \<longrightarrow> m a = ram st a)))"
proof (intro conjI impI)
  assume "\<not> room st bs (aligned_size n)"
  then show "kalloc st n = Some (Inl (AssertFailed ''Out of memory, cannot allocate''))"
    using kalloc_cases [OF assms(1,2)] by (simp add: room_def Let_def)
qed (rule kalloc_ok [OF assms(1,2) _ assms(3)])

lemma kalloc_first_fit_witness:
  "\<exists>m. kalloc heap0 100 = Some (Inr (0x1030, heap0\<lparr>ram := m\<rparr>))
    \<and> heap (heap0\<lparr>ram := m\<rparr>) [root0, new_block 0x1018 128]"
  using kalloc_first_fit [OF heap0_ok, of 100] heap0_room heap0_alloc by (auto simp: heap_request_def)

text \<open>
  C5: Memory safety of a run of allocations: when a list of requests is served one after the
  other, every block is owned at the end, is at least as large as requested, and is disjoint
  from every other one and from everything that was allocated before.
\<close>

theorem kalloc_blocks_disjoint:
  assumes "heap_wf st" "\<forall>n \<in> set ns. heap_request st n" "alloc_many kalloc_opt st ns = Some (ps, st')"
  shows "heap_wf st' \<and> length ps = length ns
    \<and> (\<forall>i < length ns. \<exists>k \<ge> unat (ns ! i). heap_owned st' (ps ! i) k)
    \<and> (\<forall>i < length ns. \<forall>q j. heap_owned st q j \<longrightarrow> apart_blocks (ps ! i) (unat (ns ! i)) q j)
    \<and> (\<forall>i j. i < j \<and> j < length ns \<longrightarrow> apart_blocks (ps ! j) (unat (ns ! j)) (ps ! i) (unat (ns ! i)))"
  by (rule kernel.alloc_many_apart) (use assms in auto)

lemma kalloc_blocks_disjoint_witness:
  "\<exists>ps st'. alloc_many kalloc_opt heap0 [100] = Some (ps, st') \<and> heap_wf st' \<and> length ps = 1"
proof -
  have wf: "heap_wf heap0" using heap0_ok by (auto simp: heap_wf_def)
  obtain m where "kalloc heap0 100 = Some (Inr (fst (alloc_blocks (aligned_size 100) [root0]), heap0\<lparr>ram := m\<rparr>))"
    using kalloc_ok [OF heap0_ok] heap0_room by (auto simp: heap_request_def)
  then have "alloc_many kalloc_opt heap0 [100]
      = Some ([fst (alloc_blocks (aligned_size 100) [root0])], heap0\<lparr>ram := m\<rparr>)"
    by (simp add: kalloc_opt_def)
  with kalloc_blocks_disjoint [OF wf _ this] heap0_room(1) show ?thesis by auto
qed

text \<open>
  C6: \<open>kfree\<close> on the payload address of a block of the heap: the four outcomes. An address above
  the end, a critical block and a block that is already free fail their \<open>ASSERT\<close>; otherwise the
  block, and only it, becomes free, a second \<open>kfree\<close> of it fails, and a later request that is not
  larger than the freed block cannot run out of memory.
\<close>

theorem kfree_outcomes:
  assumes "heap st bs" "b \<in> set bs"
  shows "(\<not> at b + 24 \<le> mem_start st + mem_size st \<longrightarrow>
        kfree st (at b + 24) = Inl (AssertFailed ''Tried to free invalid address''))
    \<and> (at b + 24 \<le> mem_start st + mem_size st \<and> bflags b AND MEM_CRITICAL \<noteq> 0 \<longrightarrow>
        kfree st (at b + 24) = Inl (AssertFailed ''Tried to free critical memory''))
    \<and> (at b + 24 \<le> mem_start st + mem_size st \<and> bflags b AND MEM_CRITICAL = 0 \<and> bfree b \<longrightarrow>
        kfree st (at b + 24) = Inl (AssertFailed ''Tried to free already free memory''))
    \<and> (at b + 24 \<le> mem_start st + mem_size st \<and> bflags b AND MEM_CRITICAL = 0 \<and> \<not> bfree b \<longrightarrow>
        (\<exists>st'. kfree st (at b + 24) = Inr st' \<and> heap st' (upd_block (at b) mark_free bs)
          \<and> kfree st' (at b + 24) = Inl (AssertFailed ''Tried to free already free memory'')
          \<and> (\<forall>n \<le> bsize b. room st' (upd_block (at b) mark_free bs) n)))"
proof (intro conjI impI)
  assume ok: "at b + 24 \<le> mem_start st + mem_size st \<and> bflags b AND MEM_CRITICAL = 0 \<and> \<not> bfree b"
  let ?st = "st\<lparr>ram := set_state (at b) MEM_STATE_FREE (ram st)\<rparr>"
  let ?bs = "upd_block (at b) mark_free bs"
  have h: "heap ?st ?bs" using heap_free assms ok by blast
  have b: "mark_free b \<in> set ?bs" using assms(2) by (auto simp: upd_block_def intro: rev_image_eqI)
  have m: "at (mark_free b) = at b" "bflags (mark_free b) = bflags b" "bfree (mark_free b)"
    "bsize (mark_free b) = bsize b" by (simp_all add: mark_free_def)
  have again: "kfree ?st (at b + 24) = Inl (AssertFailed ''Tried to free already free memory'')"
    using kfree_cases [OF h b] ok unfolding m(1,2) using m(3) by simp
  have first: "kfree st (at b + 24) = Inr ?st" using kfree_cases [OF assms] ok by simp
  have room: "room ?st ?bs n" if "n \<le> bsize b" for n
    using b m that by (auto simp: room_def first_fit_def find_None_iff fits_def)
  show "\<exists>st'. kfree st (at b + 24) = Inr st' \<and> heap st' ?bs
      \<and> kfree st' (at b + 24) = Inl (AssertFailed ''Tried to free already free memory'')
      \<and> (\<forall>n \<le> bsize b. room st' ?bs n)"
    by (intro exI [of _ ?st] conjI allI impI first h again room)
qed (use kfree_cases [OF assms] in simp_all)

lemma kfree_outcomes_witness:
  "kfree heap0 0x1018 = Inl (AssertFailed ''Tried to free critical memory'')"
  using kfree_outcomes [OF heap0_ok, of root0]
  by (simp add: root0_def heap0_def init_alloc_def MEM_CRITICAL_def)

text \<open>The abstract reallocation.\<close>

definition realloc_blocks :: "block \<Rightarrow> u32 \<Rightarrow> block list \<Rightarrow> u32 \<times> block list" where
  "realloc_blocks b n bs =
     (if n < bsize b then (at b + 24, upd_block (at b) (bsize_update (\<lambda>_. n)) bs)
      else (fst (alloc_blocks (aligned_size n) bs),
            upd_block (at b) mark_free (snd (alloc_blocks (aligned_size n) bs))))"

text \<open>
  C7: \<open>krealloc\<close> of a live, non-critical block. A smaller size shrinks it in place; otherwise the
  content moves to a block of at least the new size, the old block becomes free, and, in both
  cases, the heap stays well-formed and the payload of every live block is unchanged.
\<close>

theorem krealloc_preserves:
  assumes "heap st bs" "b \<in> set bs" "b \<noteq> hd bs" "\<not> bfree b" "bflags b AND MEM_CRITICAL = 0"
    and "at b + 24 \<le> mem_start st + mem_size st" "aligned_size n \<noteq> 0"
    and "room st bs (aligned_size n)" "below_top st (aligned_size n)"
  shows "\<exists>m. krealloc st (at b + 24) n = Some (Inr (fst (realloc_blocks b n bs), st\<lparr>ram := m\<rparr>))
    \<and> heap (st\<lparr>ram := m\<rparr>) (snd (realloc_blocks b n bs))
    \<and> (\<forall>i < min (unat n) (unat (bsize b)).
         m (fst (realloc_blocks b n bs) + of_nat i) = ram st (at b + 24 + of_nat i))
    \<and> (\<forall>c \<in> set bs. \<not> bfree c \<longrightarrow> (\<forall>a. payload c a \<longrightarrow> m a = ram st a))"
proof (cases "n < bsize b")
  case True
  then obtain m where m: "krealloc st (at b + 24) n = Some (Inr (at b + 24, st\<lparr>ram := m\<rparr>))"
    "heap (st\<lparr>ram := m\<rparr>) (upd_block (at b) (bsize_update (\<lambda>_. n)) bs)"
    "\<forall>c \<in> set bs. \<forall>a. payload c a \<longrightarrow> m a = ram st a"
    using krealloc_shrink [OF assms(1,2,4,3,6)] by blast
  have "m (at b + 24 + of_nat i) = ram st (at b + 24 + of_nat i)" if i: "i < unat n" for i
  proof -
    have "i < unat (bsize b)" using i True unfolding word_less_nat_alt by linarith
    moreover have "unat (of_nat i :: u32) \<le> i" by (rule unat_word_of_nat_le)
    ultimately have "payload b (at b + 24 + of_nat i)" by (simp add: payload_def in_block_def)
    then show ?thesis using m(3) assms(2) by blast
  qed
  then show ?thesis using m True by (intro exI [of _ m]) (simp add: realloc_blocks_def)
next
  case False
  then have le: "bsize b \<le> n" by simp
  then have "min (unat n) (unat (bsize b)) = unat (bsize b)" by (simp add: word_le_nat_alt)
  then show ?thesis
    using krealloc_grow [OF assms(1,2,4,5,6) le assms(7-9)] False
    by (simp only: realloc_blocks_def if_False fst_conv snd_conv)
qed

lemma krealloc_preserves_witness:
  "\<exists>m m'. krealloc (heap0\<lparr>ram := m\<rparr>) 0x1030 10 = Some (Inr (0x1030, heap0\<lparr>ram := m'\<rparr>))
    \<and> m' 0x1030 = m 0x1030"
proof -
  obtain m where h: "heap (heap0\<lparr>ram := m\<rparr>) [root0, new_block 0x1018 128]"
    using kalloc_ok [OF heap0_ok, of 100] heap0_room heap0_alloc by (auto simp: heap_request_def)
  have r: "realloc_blocks (new_block 0x1018 128) 10 [root0, new_block 0x1018 128]
      = (0x1030, upd_block 0x1018 (bsize_update (\<lambda>_. 10)) [root0, new_block 0x1018 128])"
    by (simp add: realloc_blocks_def new_block_def)
  obtain m' where m': "krealloc (heap0\<lparr>ram := m\<rparr>) (at (new_block 0x1018 128) + 24) 10
      = Some (Inr (0x1030, heap0\<lparr>ram := m, ram := m'\<rparr>))"
    "\<forall>i < min (unat (10 :: u32)) (unat (bsize (new_block 0x1018 128))).
      m' (0x1030 + of_nat i) = ram (heap0\<lparr>ram := m\<rparr>) (at (new_block 0x1018 128) + 24 + of_nat i)"
    using krealloc_preserves [OF h, of "new_block 0x1018 128" 10] unfolding r fst_conv
    by (auto simp: new_block_def root0_def heap0_def init_alloc_def aligned_size_def room_def
        end_of_def below_top_def)
  have "m' 0x1030 = m 0x1030" using m'(2) [rule_format, of 0] by (simp add: new_block_def)
  then show ?thesis using m'(1) by (intro exI [of _ m] exI [of _ m']) (simp add: new_block_def)
qed

text \<open>
  \<open>kallocz\<close> returns an owned block whose requested bytes are all zero; the heap stays
  well-formed and the payload of every live block keeps its bytes.
\<close>

theorem kallocz_zeroes:
  assumes "heap st bs" "heap_request st n" "room st bs (aligned_size n)"
  shows "\<exists>p m. kallocz st n = Some (Inr (p, st\<lparr>ram := m\<rparr>))
    \<and> heap (st\<lparr>ram := m\<rparr>) (snd (alloc_blocks (aligned_size n) bs))
    \<and> (\<forall>a. in_block a p (unat n) \<longrightarrow> m a = 0)
    \<and> (\<forall>c \<in> set bs. \<not> bfree c \<longrightarrow> (\<forall>a. payload c a \<longrightarrow> m a = ram st a))"
proof -
  have sz: "aligned_size n \<noteq> 0" and t: "below_top st (aligned_size n)"
    using assms(2) by (simp_all add: heap_request_def)
  define p where "p = fst (alloc_blocks (aligned_size n) bs)"
  obtain m where k: "kalloc st n = Some (Inr (p, st\<lparr>ram := m\<rparr>))"
      and h1: "heap (st\<lparr>ram := m\<rparr>) (snd (alloc_blocks (aligned_size n) bs))"
      and pay: "\<forall>b \<in> set bs. \<forall>a. payload b a \<longrightarrow> m a = ram st a"
    using kalloc_ok [OF assms(1) sz assms(3) t] unfolding p_def by blast
  obtain q where q: "q \<in> set (snd (alloc_blocks (aligned_size n) bs))" "at q + 24 = p" "aligned_size n \<le> bsize q"
    using alloc_blocks_fst_nonzero [OF assms(1) t assms(3)] unfolding p_def by blast
  define m2 where "m2 = memset m p 0 n"
  have "unat n \<le> unat (bsize q)"
    using aligned_size_ge [OF sz] q(3) unfolding word_le_nat_alt by linarith
  then have inq: "in_block a p (unat n) \<Longrightarrow> payload q a" for a
    using q(2) by (auto simp: payload_def intro: in_block_mono)
  have "m2 a = m a \<or> payload q a" for a using inq by (simp add: m2_def memset_eq)
  then have h2: "heap (st\<lparr>ram := m2\<rparr>) (snd (alloc_blocks (aligned_size n) bs))"
    using heap_payload_write [OF h1, of m2] q(1) by auto
  have "m2 a = ram st a" if c: "c \<in> set bs" "\<not> bfree c" "payload c a" for c a
  proof -
    have "c \<in> set (snd (alloc_blocks (aligned_size n) bs))" "q \<noteq> c"
      using alloc_keeps_live [OF assms(1) c(1,2)] alloc_new_block [OF assms(1) h1 c(1,2) q(1)] q(2)
      by (simp_all add: p_def)
    then have "\<not> payload q a" using payload_disjoint [OF h1 _ q(1) _ c(3)] by metis
    then show ?thesis using inq pay c by (auto simp: m2_def memset_eq)
  qed
  moreover have "kallocz st n = Some (Inr (p, st\<lparr>ram := m2\<rparr>))"
    by (simp add: kallocz_def k m2_def)
  ultimately show ?thesis using h2
    by (intro exI [of _ p] exI [of _ m2]) (auto simp: m2_def memset_eq)
qed

lemma kallocz_zeroes_witness:
  "\<exists>p m. kallocz heap0 100 = Some (Inr (p, heap0\<lparr>ram := m\<rparr>)) \<and> (\<forall>a. in_block a p 100 \<longrightarrow> m a = 0)"
proof -
  have "unat (100 :: u32) = 100" by simp
  then show ?thesis using kallocz_zeroes [OF heap0_ok heap0_room] by metis
qed

text \<open>
  The queries on a well-formed heap end: \<open>alloc_used\<close> is the sum of the sizes of the blocks
  that are not free (of all blocks when asked so), and the exhaustive \<open>alloc_valid_addr\<close> accepts
  exactly the addresses in range that some block of the chain records as its own, free blocks
  included.
\<close>

theorem alloc_queries:
  assumes "heap st bs"
  shows "alloc_used st all = Some (sum_list (map bsize (filter (\<lambda>b. \<not> bfree b \<or> all) bs)))
    \<and> alloc_valid_addr st ptr False = Some (owns st ptr \<and> (\<exists>b \<in> set bs. baddr b = ptr))"
  using alloc_used_seg [OF heap_D(3) [OF assms]] alloc_search_seg [OF heap_D(3) [OF assms]]
  by (auto simp: alloc_used_def alloc_valid_addr_def owns_def not_less not_le)

lemma alloc_queries_witness:
  "alloc_used heap0 True = Some 0 \<and> alloc_valid_addr heap0 0x1018 False = Some False"
  using alloc_queries [OF heap0_ok, of True "0x1018"] by (simp add: root0_def)

text \<open>
  The out-of-memory check looks only at where the new header starts: there is a well-formed
  heap on which \<open>kalloc\<close> succeeds and returns a block that ends above the end of the heap.
\<close>

theorem kalloc_overruns:
  "\<exists>st bs p st' bs' b. heap st bs \<and> kalloc st 100 = Some (Inr (p, st')) \<and> heap st' bs' \<and> b \<in> set bs'
    \<and> p = at b + 24 \<and> unat (mem_start st) + unat (mem_size st) < block_end b"
proof -
  define st where "st = init_alloc \<lparr>ram = ram0, mem_start = 0, head = 0, mem_size = 0\<rparr> 0x1000 0x20"
  have h: "heap st [root0]"
    using init_heap [of "0x1000" "0x20" "\<lparr>ram = ram0, mem_start = 0, head = 0, mem_size = 0\<rparr>"]
    by (simp add: st_def root0_def load32_def ram0_def)
  have "aligned_size 100 \<noteq> 0" "room st [root0] (aligned_size 100)" "below_top st (aligned_size 100)"
    by (simp_all add: room_def below_top_def aligned_size_def st_def init_alloc_def root0_def end_of_def)
  from kalloc_ok [OF h this] obtain m where m: "kalloc st 100 = Some (Inr (0x1030, st\<lparr>ram := m\<rparr>))"
    "heap (st\<lparr>ram := m\<rparr>) [root0, new_block 0x1018 128]" unfolding heap0_alloc by auto
  show ?thesis
    using h m
    by (intro exI [of _ st] exI [of _ "[root0]"] exI [of _ "0x1030"] exI [of _ "st\<lparr>ram := m\<rparr>"]
        exI [of _ "[root0, new_block 0x1018 128]"] exI [of _ "new_block 0x1018 128"])
      (simp add: new_block_def block_end_def st_def init_alloc_def)
qed

end
