(* ===== verification/Elf.thy ===== *)
theory Elf
  imports Kalloc Cstring
begin

text \<open>
  The program loader (\<open>kern/exe/elf.c\<close>, \<open>kern/exe/elf.h\<close>): 32-bit ELF files in memory, read field
  by field, whose loadable segments are copied into a block of the allocator. The processor that
  runs the code at the entry point is a parameter, a function of the address, the arguments and
  the whole memory; so is the handler of a module's symbol table, which theory Mod provides.
\<close>

section \<open>The code\<close>

text \<open>The fields of \<open>struct elf_header\<close>, \<open>elf_program_header\<close>, \<open>elf_section_header\<close>, all packed.\<close>

definition e_entry :: "mem \<Rightarrow> u32 \<Rightarrow> u32" where "e_entry m elf = load32 m (elf + 24)"
definition e_phoff :: "mem \<Rightarrow> u32 \<Rightarrow> u32" where "e_phoff m elf = load32 m (elf + 28)"
definition e_shoff :: "mem \<Rightarrow> u32 \<Rightarrow> u32" where "e_shoff m elf = load32 m (elf + 32)"
definition e_phnum :: "mem \<Rightarrow> u32 \<Rightarrow> nat" where "e_phnum m elf = unat (load16 m (elf + 44))"
definition e_shnum :: "mem \<Rightarrow> u32 \<Rightarrow> nat" where "e_shnum m elf = unat (load16 m (elf + 48))"

definition p_type :: "mem \<Rightarrow> u32 \<Rightarrow> u32" where "p_type m phdr = load32 m phdr"
definition p_offset :: "mem \<Rightarrow> u32 \<Rightarrow> u32" where "p_offset m phdr = load32 m (phdr + 4)"
definition p_paddr :: "mem \<Rightarrow> u32 \<Rightarrow> u32" where "p_paddr m phdr = load32 m (phdr + 12)"
definition p_filesz :: "mem \<Rightarrow> u32 \<Rightarrow> u32" where "p_filesz m phdr = load32 m (phdr + 16)"
definition p_memsz :: "mem \<Rightarrow> u32 \<Rightarrow> u32" where "p_memsz m phdr = load32 m (phdr + 20)"

definition sh_name :: "mem \<Rightarrow> u32 \<Rightarrow> u32" where "sh_name m shdr = load32 m shdr"
definition sh_type :: "mem \<Rightarrow> u32 \<Rightarrow> u32" where "sh_type m shdr = load32 m (shdr + 4)"
definition sh_offset :: "mem \<Rightarrow> u32 \<Rightarrow> u32" where "sh_offset m shdr = load32 m (shdr + 16)"
definition sh_size :: "mem \<Rightarrow> u32 \<Rightarrow> u32" where "sh_size m shdr = load32 m (shdr + 20)"

definition ELF_PT_LOAD :: u32 where "ELF_PT_LOAD = 1"

text \<open>The headers are 32 and 40 bytes long; \<open>phdr_at\<close> is the value of \<open>phdr\<close> in round \<open>i\<close> of a loop.\<close>

definition phdr_at :: "u32 \<Rightarrow> nat \<Rightarrow> u32" where "phdr_at phdr i = phdr + of_nat (32 * i)"
definition shdr_at :: "u32 \<Rightarrow> nat \<Rightarrow> u32" where "shdr_at shdr i = shdr + of_nat (40 * i)"

definition get_elf_size :: "mem \<Rightarrow> u32 \<Rightarrow> u32" where
  "get_elf_size m elf =
     fold (\<lambda>i total. let phdr = phdr_at (elf + e_phoff m elf) i in
         if p_type m phdr = ELF_PT_LOAD then total + p_memsz m phdr else total)
       [0..<e_phnum m elf] 0"

text \<open>The number of segments is read from the header in each round; it is below 65536.\<close>

function load_segments :: "u32 \<Rightarrow> u32 \<Rightarrow> u32 \<Rightarrow> nat \<Rightarrow> mem \<Rightarrow> mem" where
  "load_segments elf base phdr i m =
     (if i < e_phnum m elf
      then let p = phdr_at phdr i in load_segments elf base phdr (i + 1)
        (if p_type m p = ELF_PT_LOAD then memcpy m (base + p_paddr m p) (elf + p_offset m p) (p_filesz m p) else m)
      else m)"
  by pat_completeness auto
termination
proof (relation "measure (\<lambda>(elf, base, phdr, i, m). 65536 - i)")
  fix elf base phdr i m and p x
  assume "i < e_phnum m elf"
  moreover have "e_phnum m elf < 65536" using unsigned_less [of "load16 m (elf + 44)", where ?'a = nat] by (simp add: e_phnum_def)
  ultimately show "((elf, base, phdr, i + 1, x), elf, base, phdr, i, m) \<in> measure (\<lambda>(elf, base, phdr, i, m). 65536 - i)"
    by simp
qed simp

declare load_segments.simps [simp del]

type_synonym 'w machine = "alloc_state \<times> 'w"

definition elf_run ::
  "(u32 \<Rightarrow> int \<Rightarrow> u32 \<Rightarrow> 'w machine \<Rightarrow> 'w machine outcome option) \<Rightarrow> u32 \<Rightarrow> int \<Rightarrow> u32 \<Rightarrow> 'w machine \<Rightarrow> 'w machine outcome option" where
  "elf_run call elf argc argv st =
     (let (h, w) = st; phdr = elf + e_phoff (ram h) elf in
      run_bind (kalloc h (get_elf_size (ram h) elf)) (\<lambda>(base, h).
        let m = load_segments elf base phdr 0 (ram h) in
        run_bind (call (base + e_entry m elf) argc argv (h\<lparr>ram := m\<rparr>, w)) (\<lambda>(h, w).
          Some (bind_outcome (kfree h base) (\<lambda>h. Inr (h, w))))))"

text \<open>The offset of the last string table among the sections.\<close>

definition strtab_offset :: "mem \<Rightarrow> u32 \<Rightarrow> u32 \<Rightarrow> u32" where
  "strtab_offset m elf shdr =
     fold (\<lambda>i off. let s = shdr_at shdr i in if sh_type m s = 3 then sh_offset m s else off) [0..<e_shnum m elf] 0"

definition exports_section :: "mem \<Rightarrow> u32 \<Rightarrow> u32 \<Rightarrow> u32 \<Rightarrow> u32 option" where
  "exports_section m elf shdr shstrtab_off =
     map_option (shdr_at shdr)
       (find (\<lambda>i. strcmp_lit (lit ''exports'') m (elf + shstrtab_off + sh_name m (shdr_at shdr i)) = 0) [0..<e_shnum m elf])"

definition elf_load_mod ::
  "(u32 \<Rightarrow> u32 \<Rightarrow> 'w machine \<Rightarrow> 'w machine outcome option) \<Rightarrow> (u32 \<Rightarrow> u32 \<Rightarrow> u32 \<Rightarrow> 'w machine \<Rightarrow> 'w machine outcome option)
    \<Rightarrow> u32 \<Rightarrow> 'w machine \<Rightarrow> 'w machine outcome option" where
  "elf_load_mod call add_to_symtab elf st =
     (let (h, w) = st; phdr = elf + e_phoff (ram h) elf; shdr = elf + e_shoff (ram h) elf in
      run_bind (kalloc h (get_elf_size (ram h) elf)) (\<lambda>(base, h).
        let m = load_segments elf base phdr 0 (ram h); shstrtab_off = strtab_offset m elf shdr; st = (h\<lparr>ram := m\<rparr>, w) in
        if shstrtab_off = 0 then Some (Inl (AssertFailed ''Offset was zero for shstrtab''))
        else run_bind (case exports_section m elf shdr shstrtab_off of
            None \<Rightarrow> Some (Inr st)
          | Some tmp \<Rightarrow> add_to_symtab base (elf + sh_offset m tmp) (sh_size m tmp) st) (\<lambda>(h, w).
        let entry = base + e_entry (ram h) elf in
        run_bind (if entry \<noteq> 0 then call entry base (h, w) else Some (Inr (h, w))) (\<lambda>(h, w).
          Some (bind_outcome (kfree h base) (\<lambda>h. Inr (h, w)))))))"

section \<open>Images\<close>

text \<open>
  A file of \<open>len\<close> bytes at \<open>elf\<close> whose tables and segments lie inside it, and whose segments, as
  the loader places them, lie side by side in the size that the loader computes for them.
\<close>

definition ph :: "mem \<Rightarrow> u32 \<Rightarrow> nat \<Rightarrow> u32" where
  "ph m elf k = phdr_at (elf + e_phoff m elf) k"

definition loads :: "mem \<Rightarrow> u32 \<Rightarrow> nat \<Rightarrow> bool" where
  "loads m elf k \<longleftrightarrow> k < e_phnum m elf \<and> p_type m (ph m elf k) = ELF_PT_LOAD"

definition image_ok :: "mem \<Rightarrow> u32 \<Rightarrow> nat \<Rightarrow> bool" where
  "image_ok m elf len \<longleftrightarrow> 52 \<le> len \<and> len \<le> 4294967296 \<and> unat (e_phoff m elf) + 32 * e_phnum m elf \<le> len
     \<and> (\<forall>k. loads m elf k \<longrightarrow> unat (p_offset m (ph m elf k)) + unat (p_filesz m (ph m elf k)) \<le> len)"

definition segment_end :: "mem \<Rightarrow> u32 \<Rightarrow> nat \<Rightarrow> nat" where
  "segment_end m elf k = unat (p_paddr m (ph m elf k)) + unat (p_filesz m (ph m elf k))"

definition segments_ok :: "mem \<Rightarrow> u32 \<Rightarrow> nat \<Rightarrow> bool" where
  "segments_ok m elf n \<longleftrightarrow> (\<forall>k. loads m elf k \<longrightarrow> segment_end m elf k \<le> n)
     \<and> (\<forall>k l. loads m elf k \<and> loads m elf l \<and> k \<noteq> l \<longrightarrow>
         segment_end m elf k \<le> unat (p_paddr m (ph m elf l)) \<or> segment_end m elf l \<le> unat (p_paddr m (ph m elf k)))"

text \<open>Byte \<open>j\<close> of segment \<open>k\<close>: where it is in the file and where it goes.\<close>

definition seg_src :: "mem \<Rightarrow> u32 \<Rightarrow> nat \<Rightarrow> nat \<Rightarrow> u32" where
  "seg_src m elf k j = elf + p_offset m (ph m elf k) + of_nat j"

definition seg_dst :: "mem \<Rightarrow> u32 \<Rightarrow> u32 \<Rightarrow> nat \<Rightarrow> nat \<Rightarrow> u32" where
  "seg_dst m elf base k j = base + p_paddr m (ph m elf k) + of_nat j"

definition segment_in :: "mem \<Rightarrow> mem \<Rightarrow> u32 \<Rightarrow> u32 \<Rightarrow> nat \<Rightarrow> bool" where
  "segment_in m' m elf base k \<longleftrightarrow> (\<forall>j < unat (p_filesz m (ph m elf k)). m' (seg_dst m elf base k j) = m (seg_src m elf k j))"

text \<open>The fields read the same in two memories that agree on the image.\<close>

definition same_image :: "mem \<Rightarrow> mem \<Rightarrow> u32 \<Rightarrow> nat \<Rightarrow> bool" where
  "same_image m' m elf len \<longleftrightarrow> (\<forall>a. in_block a elf len \<longrightarrow> m' a = m a)"

lemma image_load32:
  assumes "same_image m' m elf len" "unat k + 4 \<le> len" "len \<le> 4294967296"
  shows "load32 m' (elf + k) = load32 m (elf + k)"
proof (rule load32_cong)
  fix i :: u32 assume "i < 4"
  then have "unat i < 4" by (simp add: word_less_nat_alt)
  then have "unat (k + i) < len" using assms(2,3) by (simp add: unat_add_u32)
  then show "m' (elf + k + i) = m (elf + k + i)"
    using assms(1) in_block_offset [of "k + i" len elf] by (simp add: same_image_def add.assoc)
qed

lemma image_load16:
  assumes "same_image m' m elf len" "unat k + 2 \<le> len" "len \<le> 4294967296"
  shows "load16 m' (elf + k) = load16 m (elf + k)"
proof (rule load16_cong)
  show "m' (elf + k) = m (elf + k)"
    using assms in_block_offset [of k len elf] by (simp add: same_image_def)
  have "unat (k + 1) < len" using assms(2,3) by (simp add: unat_add_u32)
  then show "m' (elf + k + 1) = m (elf + k + 1)"
    using assms(1) in_block_offset [of "k + 1" len elf] by (simp add: same_image_def add.assoc)
qed

lemma image_header:
  assumes "same_image m' m elf len" "52 \<le> len" "len \<le> 4294967296"
  shows "e_entry m' elf = e_entry m elf" "e_phoff m' elf = e_phoff m elf" "e_shoff m' elf = e_shoff m elf"
    "e_phnum m' elf = e_phnum m elf" "e_shnum m' elf = e_shnum m elf"
  using assms image_load32 [OF assms(1) _ assms(3)] image_load16 [OF assms(1) _ assms(3)]
  by (simp_all add: e_entry_def e_phoff_def e_shoff_def e_phnum_def e_shnum_def)

lemma image_phdr:
  assumes "same_image m' m elf len" "image_ok m elf len" "k < e_phnum m elf"
  shows "p_type m' (ph m elf k) = p_type m (ph m elf k)" "p_offset m' (ph m elf k) = p_offset m (ph m elf k)"
    "p_paddr m' (ph m elf k) = p_paddr m (ph m elf k)" "p_filesz m' (ph m elf k) = p_filesz m (ph m elf k)"
proof -
  have l: "unat (e_phoff m elf) + 32 * k + 32 \<le> len" "len \<le> 4294967296" using assms(2,3) by (simp_all add: image_ok_def)
  have u: "unat (e_phoff m elf + of_nat (32 * k) + of_nat d) = unat (e_phoff m elf) + 32 * k + d" if "d < 32" for d
    using l that by (simp add: unat_add_u32 unat_of_nat_u32 del: of_nat_mult)
  have "load32 m' (ph m elf k + of_nat d) = load32 m (ph m elf k + of_nat d)" if "d \<le> 28" for d
    using image_load32 [OF assms(1), of "e_phoff m elf + of_nat (32 * k) + of_nat d"] u [of d] l that
    by (simp add: ph_def phdr_at_def add.assoc del: of_nat_mult)
  from this [of 0] this [of 4] this [of 12] this [of 16]
  show "p_type m' (ph m elf k) = p_type m (ph m elf k)" "p_offset m' (ph m elf k) = p_offset m (ph m elf k)"
    "p_paddr m' (ph m elf k) = p_paddr m (ph m elf k)" "p_filesz m' (ph m elf k) = p_filesz m (ph m elf k)"
    by (simp_all add: p_type_def p_offset_def p_paddr_def p_filesz_def)
qed

lemma same_image_header:
  assumes "same_image m' m elf len" "image_ok m elf len"
  shows "e_entry m' elf = e_entry m elf" "e_phoff m' elf = e_phoff m elf" "e_phnum m' elf = e_phnum m elf" "ph m' elf = ph m elf"
  using image_header [OF assms(1)] assms(2) by (simp_all add: image_ok_def ph_def [abs_def])

section \<open>Loading\<close>

lemma seg_dst_in:
  assumes "segments_ok m elf n" "n \<le> 4294967296" "loads m elf k" "j < unat (p_filesz m (ph m elf k))"
  shows "in_block (seg_dst m elf base k j) base n"
    and "loads m elf l \<Longrightarrow> in_block (seg_dst m elf base k j) (base + p_paddr m (ph m elf l)) (unat (p_filesz m (ph m elf l))) \<Longrightarrow> l = k"
proof -
  let ?x = "p_paddr m (ph m elf k) + of_nat j"
  have e: "segment_end m elf k \<le> n" using assms(1,3) by (simp add: segments_ok_def)
  have j: "unat (of_nat j :: u32) = j" using e assms(2,4) by (intro unat_of_nat_u32) (simp add: segment_end_def)
  have x: "unat ?x = unat (p_paddr m (ph m elf k)) + j"
    using e assms(2,4) by (simp add: unat_add_u32 j segment_end_def)
  show "in_block (seg_dst m elf base k j) base n"
    using in_block_offset [of ?x n base] e assms(4) x by (simp add: seg_dst_def segment_end_def add.assoc)
  assume l: "loads m elf l"
    and blk: "in_block (seg_dst m elf base k j) (base + p_paddr m (ph m elf l)) (unat (p_filesz m (ph m elf l)))"
  let ?y = "p_paddr m (ph m elf l)"
  have el: "segment_end m elf l \<le> n" using assms(1) l by (simp add: segments_ok_def)
  have d: "unat (?x - ?y) < unat (p_filesz m (ph m elf l))" using blk by (simp add: in_block_def seg_dst_def algebra_simps)
  show "l = k"
  proof (rule ccontr)
    assume "l \<noteq> k"
    then have "segment_end m elf k \<le> unat ?y \<or> segment_end m elf l \<le> unat (p_paddr m (ph m elf k))"
      using assms(1,3) l by (simp add: segments_ok_def)
    then show False
      using d x el assms(2,4) unat_diff_u32 [of ?x ?y] by (auto simp: segment_end_def split: if_splits)
  qed
qed

lemma load_round:
  assumes ok: "image_ok m0 elf len" "segments_ok m0 elf n" "n \<le> 4294967296"
    and dis: "\<And>a. in_block a elf len \<Longrightarrow> \<not> in_block a base n"
    and img: "same_image m m0 elf len" and l: "loads m0 elf i"
  defines "m1 \<equiv> memcpy m (base + p_paddr m (ph m0 elf i)) (elf + p_offset m (ph m0 elf i)) (p_filesz m (ph m0 elf i))"
  shows "\<not> in_block a base n \<Longrightarrow> m1 a = m a" "segment_in m1 m0 elf base i"
    "loads m0 elf k \<Longrightarrow> segment_in m m0 elf base k \<Longrightarrow> segment_in m1 m0 elf base k"
proof -
  let ?d = "base + p_paddr m0 (ph m0 elf i)" and ?s = "elf + p_offset m0 (ph m0 elf i)" and ?n = "unat (p_filesz m0 (ph m0 elf i))"
  have i: "i < e_phnum m0 elf" using l by (simp add: loads_def)
  note f = image_phdr [OF img ok(1) i]
  have src: "in_block (?s + of_nat j) elf len" if "j < ?n" for j
  proof -
    have "unat (p_offset m0 (ph m0 elf i)) + ?n \<le> len" "len \<le> 4294967296" using ok(1) l by (simp_all add: image_ok_def)
    then have "unat (p_offset m0 (ph m0 elf i) + of_nat j) < len" using that by (simp add: unat_add_u32 unat_of_nat_u32)
    then show ?thesis using in_block_offset [of "p_offset m0 (ph m0 elf i) + of_nat j" len elf] by (simp add: add.assoc)
  qed
  have dst: "in_block (?d + of_nat j) base n" if "j < ?n" for j
    using seg_dst_in(1) [OF ok(2,3) l that, of base] by (simp add: seg_dst_def)
  have blk: "\<exists>j < ?n. a = p + of_nat j" if "in_block a p ?n" for a p
    using that unfolding in_block_def by (intro exI [of _ "unat (a - p)"]) simp
  have ap: "apart ?d ?s ?n" unfolding apart_def
  proof (intro allI notI)
    fix a assume a: "in_block a ?d ?n \<and> in_block a ?s ?n"
    then have "in_block a base n" using blk [of a ?d] dst by blast
    moreover have "in_block a elf len" using a blk [of a ?s] src by blast
    ultimately show False using dis by blast
  qed
  have m1: "m1 = copied m ?d ?s ?n" unfolding m1_def f using memcpy_eq [OF ap] by simp
  show "m1 a = m a" if "\<not> in_block a base n"
  proof -
    have "\<not> in_block a ?d ?n" using that blk [of a ?d] dst by blast
    then show ?thesis unfolding m1 by (rule copied_outside)
  qed
  show "segment_in m1 m0 elf base i"
    using copied_source [OF ap] src img unfolding segment_in_def m1 seg_dst_def seg_src_def same_image_def
    by (simp add: less_imp_le)
  show "segment_in m1 m0 elf base k" if "loads m0 elf k" "segment_in m m0 elf base k"
  proof (cases "k = i")
    case False
    have "m1 (seg_dst m0 elf base k j) = m (seg_dst m0 elf base k j)" if "j < unat (p_filesz m0 (ph m0 elf k))" for j
      unfolding m1 using seg_dst_in(2) [OF ok(2,3) \<open>loads m0 elf k\<close> that l] False by (intro copied_outside) blast
    then show ?thesis using that by (simp add: segment_in_def)
  qed (use \<open>segment_in m1 m0 elf base i\<close> in simp)
qed

lemma load_segments_all:
  assumes ok: "image_ok m0 elf len" "segments_ok m0 elf n" "n \<le> 4294967296"
    and dis: "\<And>a. in_block a elf len \<Longrightarrow> \<not> in_block a base n"
    and img: "same_image m m0 elf len" and r: "i + r = e_phnum m0 elf"
  defines "m' \<equiv> load_segments elf base (elf + e_phoff m0 elf) i m"
  shows "(\<forall>a. \<not> in_block a base n \<longrightarrow> m' a = m a)
    \<and> (\<forall>k. loads m0 elf k \<and> (i \<le> k \<or> segment_in m m0 elf base k) \<longrightarrow> segment_in m' m0 elf base k)"
  using img r unfolding m'_def
proof (induction r arbitrary: i m)
  case 0
  then show ?case
    using same_image_header [OF 0(1) ok(1)] by (subst (1 2) load_segments.simps) (auto simp: loads_def)
next
  case (Suc r)
  note f = image_phdr [OF Suc.prems(1) ok(1), of i]
  have i: "i < e_phnum m0 elf" using Suc.prems(2) by simp
  define m1 where "m1 = (if loads m0 elf i then
    memcpy m (base + p_paddr m (ph m0 elf i)) (elf + p_offset m (ph m0 elf i)) (p_filesz m (ph m0 elf i)) else m)"
  have step: "load_segments elf base (elf + e_phoff m0 elf) i m = load_segments elf base (elf + e_phoff m0 elf) (i + 1) m1"
    using i same_image_header [OF Suc.prems(1) ok(1)] f(1) [OF i]
    by (subst load_segments.simps) (simp add: Let_def ph_def [symmetric] loads_def m1_def)
  have out: "m1 a = m a" if "\<not> in_block a base n" for a
    using load_round(1) [OF ok dis Suc.prems(1) _ that, of i] by (simp add: m1_def)
  have "same_image m1 m0 elf len"
    using Suc.prems(1) out dis by (simp add: same_image_def)
  then have ih: "(\<forall>a. \<not> in_block a base n \<longrightarrow> load_segments elf base (elf + e_phoff m0 elf) (i + 1) m1 a = m1 a)
    \<and> (\<forall>k. loads m0 elf k \<and> (i + 1 \<le> k \<or> segment_in m1 m0 elf base k) \<longrightarrow>
        segment_in (load_segments elf base (elf + e_phoff m0 elf) (i + 1) m1) m0 elf base k)"
    using Suc.IH [of m1 "i + 1"] Suc.prems(2) by simp
  have "segment_in m1 m0 elf base k" if "loads m0 elf k" "k = i \<or> segment_in m m0 elf base k" for k
    using that load_round(2,3) [OF ok dis Suc.prems(1), of i] by (auto simp: m1_def)
  moreover have "i \<le> k \<longleftrightarrow> i + 1 \<le> k \<or> k = i" for k by auto
  ultimately show ?case unfolding step using ih out by metis
qed

text \<open>The image in memory, in a live block of a heap that has room for its segments.\<close>

definition image_ready :: "alloc_state \<Rightarrow> block list \<Rightarrow> u32 \<Rightarrow> nat \<Rightarrow> bool" where
  "image_ready h bs elf len \<longleftrightarrow> heap h bs \<and> (\<exists>b \<in> set bs. \<not> bfree b \<and> (\<forall>a. in_block a elf len \<longrightarrow> payload b a))
     \<and> image_ok (ram h) elf len \<and> segments_ok (ram h) elf (unat (get_elf_size (ram h) elf))
     \<and> heap_request h (get_elf_size (ram h) elf) \<and> room h bs (aligned_size (get_elf_size (ram h) elf))"

definition loaded :: "alloc_state \<Rightarrow> block list \<Rightarrow> u32 \<Rightarrow> block \<Rightarrow> mem \<Rightarrow> block list \<Rightarrow> bool" where
  "loaded h bs elf q m bs' \<longleftrightarrow> heap (h\<lparr>ram := m\<rparr>) bs' \<and> q \<in> set bs' \<and> \<not> bfree q \<and> bflags q = 0
     \<and> at q + 24 = fst (alloc_blocks (aligned_size (get_elf_size (ram h) elf)) bs)
     \<and> unat (get_elf_size (ram h) elf) \<le> unat (bsize q)
     \<and> (\<forall>k. loads (ram h) elf k \<longrightarrow> segment_in m (ram h) elf (at q + 24) k)
     \<and> (\<forall>c \<in> set bs. \<not> bfree c \<longrightarrow> c \<in> set bs' \<and> c \<noteq> q \<and> (\<forall>a. payload c a \<longrightarrow> m a = ram h a))"

lemma elf_load:
  assumes "image_ready h bs elf len"
  obtains q m1 m bs' where "kalloc h (get_elf_size (ram h) elf) = Some (Inr (at q + 24, h\<lparr>ram := m1\<rparr>))"
    "load_segments elf (at q + 24) (elf + e_phoff (ram h) elf) 0 m1 = m" "loaded h bs elf q m bs'"
    "same_image m (ram h) elf len"
proof -
  let ?n = "get_elf_size (ram h) elf"
  have h: "heap h bs" and img: "image_ok (ram h) elf len" and seg: "segments_ok (ram h) elf (unat ?n)"
    and req: "heap_request h ?n" "room h bs (aligned_size ?n)"
    using assms by (simp_all add: image_ready_def)
  obtain b where b: "b \<in> set bs" "\<not> bfree b" "\<And>a. in_block a elf len \<Longrightarrow> payload b a"
    using assms unfolding image_ready_def by blast
  obtain m1 q bs' where k: "kalloc h ?n = Some (Inr (at q + 24, h\<lparr>ram := m1\<rparr>))" and h': "heap (h\<lparr>ram := m1\<rparr>) bs'"
    and q: "q \<in> set bs'" "\<not> bfree q" "bflags q = 0" "unat ?n \<le> unat (bsize q)"
    and live: "\<And>c. c \<in> set bs \<Longrightarrow> \<not> bfree c \<Longrightarrow> c \<in> set bs' \<and> c \<noteq> q"
    and pay: "\<And>c a. c \<in> set bs \<Longrightarrow> payload c a \<Longrightarrow> m1 a = ram h a"
    and fst: "at q + 24 = fst (alloc_blocks (aligned_size ?n) bs)"
    by (rule kalloc_block [OF h req]) blast
  have qb: "payload q a" if "in_block a (at q + 24) (unat ?n)" for a
    using in_block_mono [OF that q(4)] by (simp add: payload_def)
  have dis: "\<not> in_block a (at q + 24) (unat ?n)" if "c \<in> set bs" "\<not> bfree c" "payload c a" for c a
    using payload_disjoint [OF h' q(1), of c a] live [OF that(1,2)] that(3) qb by blast
  have same: "same_image m1 (ram h) elf len" using pay b by (simp add: same_image_def)
  define m where "m = load_segments elf (at q + 24) (elf + e_phoff (ram h) elf) 0 m1"
  have "\<not> in_block a (at q + 24) (unat ?n)" if "in_block a elf len" for a
    using dis b(1,2) b(3) [OF that] by blast
  then have l: "\<And>a. \<not> in_block a (at q + 24) (unat ?n) \<Longrightarrow> m a = m1 a"
    "\<And>k. loads (ram h) elf k \<Longrightarrow> segment_in m (ram h) elf (at q + 24) k"
    using load_segments_all [OF img seg _ _ same, of "at q + 24" 0] unfolding m_def by simp_all
  have "heap (h\<lparr>ram := m\<rparr>) bs'" using heap_payload_write [OF h', of m] l(1) qb q(1) by auto
  moreover have "m a = ram h a" if "c \<in> set bs" "\<not> bfree c" "payload c a" for c a
    using l(1) dis [OF that] pay that by simp
  ultimately have "loaded h bs elf q m bs'" using q fst live l(2) by (simp add: loaded_def)
  moreover have "same_image m (ram h) elf len" using \<open>loaded h bs elf q m bs'\<close> b by (simp add: loaded_def same_image_def)
  ultimately show ?thesis using that [of q m1 m bs'] k m_def by simp
qed

text \<open>
  Loading a module hands the base of the new block to the handler of its symbols, and frees that block
  when the entry point has returned: what the handler keeps points into free memory.
\<close>

lemma module_code_freed:
  assumes "image_ready h bs elf len"
  obtains q m bs' where "loaded h bs elf q m bs'"
    "\<And>call (add :: u32 \<Rightarrow> u32 \<Rightarrow> u32 \<Rightarrow> 'w machine \<Rightarrow> 'w machine outcome option) w tmp h1 w1 h2 w2 bs2. strtab_offset m elf (elf + e_shoff (ram h) elf) \<noteq> 0 \<Longrightarrow>
      exports_section m elf (elf + e_shoff (ram h) elf) (strtab_offset m elf (elf + e_shoff (ram h) elf)) = Some tmp \<Longrightarrow>
      add (at q + 24) (elf + sh_offset m tmp) (sh_size m tmp) (h\<lparr>ram := m\<rparr>, w) = Some (Inr (h1, w1)) \<Longrightarrow>
      at q + 24 + e_entry (ram h1) elf \<noteq> 0 \<Longrightarrow>
      call (at q + 24 + e_entry (ram h1) elf) (at q + 24) (h1, w1) = Some (Inr (h2, w2)) \<Longrightarrow>
      heap h2 bs2 \<Longrightarrow> q \<in> set bs2 \<Longrightarrow> at q + 24 \<le> mem_start h2 + mem_size h2 \<Longrightarrow>
      \<exists>m'. elf_load_mod call add elf (h, w) = Some (Inr (h2\<lparr>ram := m'\<rparr>, w2))
        \<and> heap (h2\<lparr>ram := m'\<rparr>) (upd_block (at q) mark_free bs2)"
proof -
  obtain q m1 m bs' where e: "kalloc h (get_elf_size (ram h) elf) = Some (Inr (at q + 24, h\<lparr>ram := m1\<rparr>))"
    "load_segments elf (at q + 24) (elf + e_phoff (ram h) elf) 0 m1 = m" "loaded h bs elf q m bs'"
    by (rule elf_load [OF assms]) blast
  have q: "\<not> bfree q" "bflags q = 0" using e(3) by (simp_all add: loaded_def)
  show ?thesis
  proof (rule that [OF e(3)])
    fix call :: "u32 \<Rightarrow> u32 \<Rightarrow> 'w machine \<Rightarrow> 'w machine outcome option"
      and add :: "u32 \<Rightarrow> u32 \<Rightarrow> u32 \<Rightarrow> 'w machine \<Rightarrow> 'w machine outcome option" and w tmp h1 w1 h2 w2 bs2
    let ?off = "strtab_offset m elf (elf + e_shoff (ram h) elf)"
    assume s: "?off \<noteq> 0" "exports_section m elf (elf + e_shoff (ram h) elf) ?off = Some tmp"
      "add (at q + 24) (elf + sh_offset m tmp) (sh_size m tmp) (h\<lparr>ram := m\<rparr>, w) = Some (Inr (h1, w1))"
      "at q + 24 + e_entry (ram h1) elf \<noteq> 0"
      "call (at q + 24 + e_entry (ram h1) elf) (at q + 24) (h1, w1) = Some (Inr (h2, w2))"
      and h2: "heap h2 bs2" "q \<in> set bs2" "at q + 24 \<le> mem_start h2 + mem_size h2"
    obtain m' where f: "kfree h2 (at q + 24) = Inr (h2\<lparr>ram := m'\<rparr>)" "heap (h2\<lparr>ram := m'\<rparr>) (upd_block (at q) mark_free bs2)"
      by (rule kfree_block [OF h2(1,2) q h2(3)]) blast
    have "elf_load_mod call add elf (h, w) = Some (Inr (h2\<lparr>ram := m'\<rparr>, w2))"
      by (simp add: elf_load_mod_def Let_def e(1,2) s f(1))
    then show "\<exists>m'. elf_load_mod call add elf (h, w) = Some (Inr (h2\<lparr>ram := m'\<rparr>, w2))
        \<and> heap (h2\<lparr>ram := m'\<rparr>) (upd_block (at q) mark_free bs2)"
      using f(2) by blast
  qed
qed

section \<open>The property\<close>

text \<open>
  C25: Running a program: for an image whose segments fit into the sum of their sizes, the code at
  the entry point is called with a memory in which a new block holds a copy of every loadable segment,
  and every other live block is as it was; when the program returns and the heap is still in order, the
  block is freed.
\<close>

theorem elf_run_loads:
  assumes "image_ready h bs elf len"
  shows "\<exists>q m bs'. loaded h bs elf q m bs' \<and>
    (\<forall>call argc argv w h' w'. call (at q + 24 + e_entry (ram h) elf) argc argv (h\<lparr>ram := m\<rparr>, w) = Some (Inr (h', w'))
        \<and> heap h' bs' \<and> at q + 24 \<le> mem_start h' + mem_size h' \<longrightarrow>
      (\<exists>m'. elf_run call elf argc argv (h, w) = Some (Inr (h'\<lparr>ram := m'\<rparr>, w'))
        \<and> heap (h'\<lparr>ram := m'\<rparr>) (upd_block (at q) mark_free bs')))"
proof -
  obtain q m1 m bs' where e: "kalloc h (get_elf_size (ram h) elf) = Some (Inr (at q + 24, h\<lparr>ram := m1\<rparr>))"
    "load_segments elf (at q + 24) (elf + e_phoff (ram h) elf) 0 m1 = m" "loaded h bs elf q m bs'"
    "same_image m (ram h) elf len"
    by (rule elf_load [OF assms]) blast
  have img: "image_ok (ram h) elf len" using assms by (simp add: image_ready_def)
  have run: "\<exists>m'. elf_run call elf argc argv (h, w) = Some (Inr (h'\<lparr>ram := m'\<rparr>, w'))
      \<and> heap (h'\<lparr>ram := m'\<rparr>) (upd_block (at q) mark_free bs')"
    if c: "call (at q + 24 + e_entry (ram h) elf) argc argv (h\<lparr>ram := m\<rparr>, w) = Some (Inr (h', w'))"
      "heap h' bs'" "at q + 24 \<le> mem_start h' + mem_size h'" for call argc argv w h' w'
  proof -
    have q: "q \<in> set bs'" "\<not> bfree q" "bflags q = 0" using e(3) by (simp_all add: loaded_def)
    obtain m' where f: "kfree h' (at q + 24) = Inr (h'\<lparr>ram := m'\<rparr>)" "heap (h'\<lparr>ram := m'\<rparr>) (upd_block (at q) mark_free bs')"
      by (rule kfree_block [OF c(2) q c(3)]) blast
    have "elf_run call elf argc argv (h, w) = Some (Inr (h'\<lparr>ram := m'\<rparr>, w'))"
      by (simp add: elf_run_def Let_def e(1,2) same_image_header(1) [OF e(4) img] c(1) f(1))
    then show ?thesis using f(2) by blast
  qed
  show ?thesis
    by (rule exI [of _ q], rule exI [of _ m], rule exI [of _ bs'], rule conjI [OF e(3)], intro allI impI, elim conjE)
      (rule run)
qed

text \<open>A file with one program header and four bytes of code, which the program's first act reads.\<close>

definition tiny_elf :: "u8 list" where
  "tiny_elf = replicate 28 0 @ [52, 0, 0, 0] @ replicate 12 0 @ [1, 0] @ replicate 6 0
     @ [1, 0, 0, 0, 84, 0, 0, 0] @ replicate 8 0 @ [4, 0, 0, 0, 8, 0, 0, 0] @ replicate 8 0 @ [0xc3, 1, 2, 3]"

lemma tiny_byte: "in_block a 0x1030 88 \<Longrightarrow> ram (heap1 (\<lambda>_. 0) tiny_elf) a = tiny_elf ! unat (a - 0x1030)"
  by (simp add: heap1_def Let_def write_bytes_def tiny_elf_def)

lemma tiny_fields:
  "e_phoff (ram (heap1 (\<lambda>_. 0) tiny_elf)) 0x1030 = 52" "e_phnum (ram (heap1 (\<lambda>_. 0) tiny_elf)) 0x1030 = 1"
  "e_entry (ram (heap1 (\<lambda>_. 0) tiny_elf)) 0x1030 = 0"
  "p_type (ram (heap1 (\<lambda>_. 0) tiny_elf)) 0x1064 = 1" "p_offset (ram (heap1 (\<lambda>_. 0) tiny_elf)) 0x1064 = 84"
  "p_paddr (ram (heap1 (\<lambda>_. 0) tiny_elf)) 0x1064 = 0" "p_filesz (ram (heap1 (\<lambda>_. 0) tiny_elf)) 0x1064 = 4"
  "p_memsz (ram (heap1 (\<lambda>_. 0) tiny_elf)) 0x1064 = 8"
  by (simp_all add: e_phoff_def e_phnum_def e_entry_def p_type_def p_offset_def p_paddr_def p_filesz_def p_memsz_def
      load32_def load16_def tiny_byte in_block_def, simp_all add: tiny_elf_def nth_append)

lemma tiny_ready: "image_ready (heap1 (\<lambda>_. 0) tiny_elf) [root0, new_block 0x1018 128] 0x1030 88"
proof -
  let ?m = "ram (heap1 (\<lambda>_. 0) tiny_elf)"
  have ph: "ph ?m 0x1030 0 = 0x1064" by (simp add: ph_def phdr_at_def tiny_fields)
  have size: "get_elf_size ?m 0x1030 = 8"
    using ph by (simp add: get_elf_size_def tiny_fields Let_def ELF_PT_LOAD_def ph_def)
  have l: "loads ?m 0x1030 k \<longleftrightarrow> k = 0" for k using ph by (auto simp: loads_def tiny_fields ELF_PT_LOAD_def)
  have "image_ok ?m 0x1030 88" using ph l by (simp add: image_ok_def tiny_fields)
  moreover have "segments_ok ?m 0x1030 8" by (auto simp: segments_ok_def l) (simp add: segment_end_def ph tiny_fields)
  moreover have "payload (new_block 0x1018 128) a" if "in_block a 0x1030 88" for a
    using in_block_mono [OF that, of 128] by (simp add: payload_def new_block_def)
  moreover have "heap (heap1 (\<lambda>_. 0) tiny_elf) [root0, new_block 0x1018 128]"
    by (rule heap1_ok) (simp_all add: tiny_elf_def load32_def)
  ultimately show ?thesis using heap1_room [of 8] by (simp add: image_ready_def size new_block_def)
qed

lemma elf_run_loads_witness:
  "\<exists>h'. elf_run (\<lambda>entry argc argv (h, w). Some (Inr (h, ram h entry))) 0x1030 0 0 (heap1 (\<lambda>_. 0) tiny_elf, 0)
     = Some (Inr (h', 0xc3))"
proof -
  let ?h = "heap1 (\<lambda>_. 0) tiny_elf" and ?bs = "[root0, new_block 0x1018 128]"
  let ?call = "\<lambda>entry (argc :: int) (argv :: u32) (h, w). Some (Inr (h, ram h entry))"
  obtain q m bs' where l: "loaded ?h ?bs 0x1030 q m bs'"
    and run: "\<forall>call argc argv w h' w'. call (at q + 24 + e_entry (ram ?h) 0x1030) argc argv (?h\<lparr>ram := m\<rparr>, w) = Some (Inr (h', w' :: u8))
        \<and> heap h' bs' \<and> at q + 24 \<le> mem_start h' + mem_size h' \<longrightarrow>
      (\<exists>m'. elf_run call 0x1030 argc argv (?h, w) = Some (Inr (h'\<lparr>ram := m'\<rparr>, w'))
        \<and> heap (h'\<lparr>ram := m'\<rparr>) (upd_block (at q) mark_free bs'))"
    using elf_run_loads [OF tiny_ready, where ?'a = u8] by (elim exE conjE) (rule that)
  have ph: "ph (ram ?h) 0x1030 0 = 0x1064" by (simp add: ph_def phdr_at_def tiny_fields)
  have size: "get_elf_size (ram ?h) 0x1030 = 8"
    using ph by (simp add: get_elf_size_def tiny_fields Let_def ELF_PT_LOAD_def ph_def)
  have q: "at q + 24 = 0x10c8" using l
    by (simp add: loaded_def size alloc_blocks_def first_fit_def fits_def root0_def new_block_def end_of_def aligned_size_def)
  have "loads (ram ?h) 0x1030 0" using ph by (simp add: loads_def tiny_fields ELF_PT_LOAD_def)
  then have "segment_in m (ram ?h) 0x1030 (at q + 24) 0" using l unfolding loaded_def by blast
  then have "m 0x10c8 = ram ?h 0x1084"
    unfolding segment_in_def q seg_dst_def seg_src_def ph using tiny_fields by (auto dest: spec [of _ 0])
  then have "m 0x10c8 = 0xc3" by (simp add: tiny_byte in_block_def) (simp add: tiny_elf_def nth_append)
  then show ?thesis
    using run [THEN spec, THEN spec, THEN spec, THEN spec, THEN spec, THEN spec, of ?call 0 0 0 "?h\<lparr>ram := m\<rparr>" "0xc3"] l
    by (auto simp: q tiny_fields loaded_def)
qed

end
