(* ===== verification/Heap_Client.thy ===== *)
theory Heap_Client
  imports Kalloc
begin

text \<open>
  The allocator as the parts of the kernel use it: what a request leaves as it is, how much room a
  sequence of requests needs, and the three things a client does with its block, asking for it, writing
  into it and giving it back.
\<close>

text \<open>Nothing below the heap is written.\<close>

lemma store32_below:
  assumes "unat a < unat b" "unat b + 24 \<le> 4294967296" "k \<le> 20"
  shows "store32 m (b + k) v a = m a"
proof (rule store32_outside)
  have k: "unat k \<le> 20" using assms(3) by (simp add: word_le_nat_alt)
  then have "unat (b + k) = unat b + unat k" using assms(2) by (intro unat_add_u32) simp
  then have "unat (a - (b + k)) = unat a + 4294967296 - (unat b + unat k)" using assms(1) by (simp add: unat_diff_u32)
  then show "4 \<le> a - (b + k)" using assms k by (simp add: word_le_nat_alt)
qed

lemma kalloc_below:
  assumes h: "heap st bs" and q: "heap_request st n" and k: "kalloc st n = Some (Inr (p, st'))"
    and a: "unat a < unat (mem_start st)"
  shows "ram st' a = ram st a"
proof -
  have sz: "aligned_size n \<noteq> 0" and t: "below_top st (aligned_size n)" using q by (simp_all add: heap_request_def)
  have at: "unat a < unat (at c) \<and> unat (at c) + 24 \<le> 4294967296" if "c \<in> set bs" for c
    using layout_ge [OF heap_D(4) [OF h] that] a by (simp add: block_end_def)
  have w: "store32 m (at c + j) v a = m a" "store32 m (at c) v a = m a" if "c \<in> set bs" "j \<le> 20" for c j m v
    using store32_below [of a "at c"] at [OF that(1)] that(2) store32_below [of a "at c" 0] by auto
  show ?thesis
  proof (cases "first_fit (aligned_size n) bs")
    case (Some b)
    then have "b \<in> set bs" using first_fit_D by blast
    then show ?thesis using kalloc_cases [OF h sz] Some k w by auto
  next
    case None
    then have e: "end_of bs \<le> mem_start st + mem_size st" using kalloc_cases [OF h sz] k by (auto simp: Let_def split: if_splits)
    have l: "last bs \<in> set bs" using heap_D(5) [OF h] by simp
    have "unat (end_of bs) + 24 \<le> 4294967296"
      using e t by (simp add: word_le_nat_alt below_top_def unat_add_u32)
    moreover have "unat a < unat (end_of bs)"
      using unat_end_of [OF h] at [OF l] by (simp add: block_end_def)
    ultimately have n: "store32 m (end_of bs + j) v a = m a" "store32 m (end_of bs) v a = m a" if "j \<le> 20" for j m v
      using store32_below [of a "end_of bs"] that store32_below [of a "end_of bs" 0] by auto
    show ?thesis using kalloc_cases [OF h sz] None k e w [OF l] n n(2) [of 0] by (auto simp: Let_def)
  qed
qed

text \<open>What an allocation leaves as it is: the bytes of live blocks and those below the heap.\<close>

definition safe :: "alloc_state \<Rightarrow> block list \<Rightarrow> u32 \<Rightarrow> bool" where
  "safe h bs a \<longleftrightarrow> unat a < unat (mem_start h) \<or> (\<exists>c \<in> set bs. \<not> bfree c \<and> payload c a)"

text \<open>Space for \<open>k\<close> more bytes of blocks with their headers behind the last block.\<close>

definition space :: "alloc_state \<Rightarrow> block list \<Rightarrow> nat \<Rightarrow> bool" where
  "space h bs k \<longleftrightarrow> unat (end_of bs) + k \<le> unat (mem_start h) + unat (mem_size h) \<and> unat (mem_start h) + unat (mem_size h) + 4096 < 4294967296"

text \<open>Addresses of live blocks that a client got.\<close>

definition live :: "block list \<Rightarrow> u32 set \<Rightarrow> bool" where
  "live bs L \<longleftrightarrow> (\<forall>p \<in> L. \<exists>c \<in> set bs. \<not> bfree c \<and> bflags c = 0 \<and> p = at c + 24)"

lemma end_of_reuse: "bs \<noteq> [] \<Longrightarrow> end_of (upd_block p reuse bs) = end_of bs"
  by (simp add: end_of_def upd_block_def last_map reuse_def)

lemma space_top:
  assumes "heap h bs" "space h bs k" "b \<in> set bs"
  shows "at b + 24 \<le> mem_start h + mem_size h"
proof -
  have b: "unat (at b) + 24 \<le> block_end b" "block_end b < 4294967296"
    using layout_ge [OF heap_D(4) [OF assms(1)] assms(3)] by (simp_all add: block_end_def)
  have "block_end b \<le> unat (end_of bs)"
    using before_end [OF heap_D(4) [OF assms(1)] assms(3)] unat_end_of [OF assms(1)] by simp
  moreover have "unat (at b + 24) = unat (at b) + 24" by (subst unat_add_u32) (use b in simp_all)
  moreover have "unat (mem_start h + mem_size h) = unat (mem_start h) + unat (mem_size h)"
    using assms(2) by (intro unat_add_u32) (simp add: space_def)
  ultimately show ?thesis using b(1) assms(2) by (simp add: word_le_nat_alt space_def)
qed

lemma alloc_space:
  assumes h: "heap h bs" and s: "space h bs (24 + unat (aligned_size n) + k)" and n: "aligned_size n \<noteq> 0" "unat (aligned_size n) \<le> 4000"
  obtains m q bs' where "kalloc h n = Some (Inr (at q + 24, h\<lparr>ram := m\<rparr>))" "heap (h\<lparr>ram := m\<rparr>) bs'"
    "q \<in> set bs'" "\<not> bfree q" "bflags q = 0" "unat n \<le> unat (bsize q)"
    "\<And>c. c \<in> set bs \<Longrightarrow> \<not> bfree c \<Longrightarrow> c \<in> set bs' \<and> c \<noteq> q"
    "\<And>a. safe h bs a \<Longrightarrow> m a = ram h a" "space (h\<lparr>ram := m\<rparr>) bs' k"
proof -
  have top: "unat (mem_start h + mem_size h) = unat (mem_start h) + unat (mem_size h)"
    using s by (intro unat_add_u32) (simp add: space_def)
  have req: "heap_request h n" using s n by (simp add: heap_request_def below_top_def space_def)
  have r: "room h bs (aligned_size n)" using s top by (simp add: room_def space_def word_le_nat_alt)
  obtain m q bs' where q: "kalloc h n = Some (Inr (at q + 24, h\<lparr>ram := m\<rparr>))" "heap (h\<lparr>ram := m\<rparr>) bs'"
    "q \<in> set bs'" "\<not> bfree q" "bflags q = 0" "unat n \<le> unat (bsize q)"
    "\<And>c. c \<in> set bs \<Longrightarrow> \<not> bfree c \<Longrightarrow> c \<in> set bs' \<and> c \<noteq> q"
    "\<And>c a. c \<in> set bs \<Longrightarrow> payload c a \<Longrightarrow> m a = ram h a" "bs' = snd (alloc_blocks (aligned_size n) bs)"
    "at q + 24 = fst (alloc_blocks (aligned_size n) bs)"
    by (rule kalloc_block [OF h req r]) (rule that, assumption+)
  have "space (h\<lparr>ram := m\<rparr>) bs' k"
  proof (cases "first_fit (aligned_size n) bs")
    case None
    have "unat (end_of bs + 24 + aligned_size n) = unat (end_of bs) + 24 + unat (aligned_size n)"
      using s by (simp add: space_def unat_add_u32)
    then show ?thesis using None s q(9) by (simp add: alloc_blocks_def space_def end_of_def new_block_def)
  next
    case (Some b)
    then show ?thesis using s end_of_reuse [OF heap_D(5) [OF h]] q(9) by (simp add: alloc_blocks_def space_def)
  qed
  moreover have "m a = ram h a" if "safe h bs a" for a
    using that kalloc_below [OF h req q(1)] q(8) by (auto simp: safe_def)
  ultimately show ?thesis by (intro that [OF q(1-6)]) (use q(7) in auto)
qed

lemma free_space:
  assumes h: "heap h bs" and s: "space h bs k" and q: "q \<in> set bs" "\<not> bfree q" "bflags q = 0"
  obtains m bs' where "kfree h (at q + 24) = Inr (h\<lparr>ram := m\<rparr>)" "heap (h\<lparr>ram := m\<rparr>) bs'" "space (h\<lparr>ram := m\<rparr>) bs' k"
    "\<And>c. c \<in> set bs \<Longrightarrow> c \<noteq> q \<Longrightarrow> c \<in> set bs'" "\<And>a. safe h bs a \<Longrightarrow> m a = ram h a"
proof -
  have top: "at q + 24 \<le> mem_start h + mem_size h" by (rule space_top [OF h s q(1)])
  let ?m = "set_state (at q) MEM_STATE_FREE (ram h)" and ?bs = "upd_block (at q) mark_free bs"
  have "kfree h (at q + 24) = Inr (h\<lparr>ram := ?m\<rparr>)" using kfree_cases [OF h q(1)] q top by simp
  moreover have "heap (h\<lparr>ram := ?m\<rparr>) ?bs" using q by (intro heap_free [OF h q(1)]) simp
  moreover have "end_of ?bs = end_of bs"
    using heap_D(5) [OF h] by (simp add: end_of_def upd_block_def last_map mark_free_def)
  then have "space (h\<lparr>ram := ?m\<rparr>) ?bs k" using s by (simp add: space_def)
  moreover have "c \<in> set ?bs" if "c \<in> set bs" "c \<noteq> q" for c
    using that layout_at_inj [OF heap_D(4) [OF h] _ q(1)] by (intro upd_keeps) auto
  moreover have "?m a = ram h a" if a: "safe h bs a" for a
  proof (cases "unat a < unat (mem_start h)")
    case True
    then have "unat a < unat (at q)" "unat (at q) + 24 \<le> 4294967296"
      using layout_ge [OF heap_D(4) [OF h] q(1)] by (simp_all add: block_end_def)
    then show ?thesis by (intro store32_below) simp_all
  next
    case False
    then show ?thesis using a heap_payload_frame [OF h q(1), of _ _ 12] by (auto simp: safe_def)
  qed
  ultimately show ?thesis using that [of ?m ?bs] by blast
qed

lemma write_space:
  assumes "heap h bs" "space h bs k" "q \<in> set bs" "\<And>a. m a = ram h a \<or> payload q a"
  shows "heap (h\<lparr>ram := m\<rparr>) bs" "space (h\<lparr>ram := m\<rparr>) bs k"
  using heap_payload_write [OF assms(1), of m] assms(2-4) by (auto simp: space_def)

lemma alloc_live:
  assumes h: "heap h bs" and s: "space h bs (24 + unat (aligned_size n) + k)" and n: "aligned_size n \<noteq> 0" "unat (aligned_size n) \<le> 4000"
    and l: "live bs L"
  obtains p h' bs' where "kalloc h n = Some (Inr (p, h'))" "heap h' bs'" "space h' bs' k" "p \<notin> L" "live bs' (insert p L)"
proof -
  obtain m q bs' where q: "kalloc h n = Some (Inr (at q + 24, h\<lparr>ram := m\<rparr>))" "heap (h\<lparr>ram := m\<rparr>) bs'" "q \<in> set bs'" "\<not> bfree q" "bflags q = 0"
    "\<And>c. c \<in> set bs \<Longrightarrow> \<not> bfree c \<Longrightarrow> c \<in> set bs' \<and> c \<noteq> q" "space (h\<lparr>ram := m\<rparr>) bs' k"
    by (rule alloc_space [OF h s n]) (rule that, assumption+)
  have "at c \<noteq> at q" if "c \<in> set bs" "\<not> bfree c" for c
    using q(6) [OF that] layout_at_inj [OF heap_D(4) [OF q(2)]] q(3) by blast
  then have "at q + 24 \<notin> L" using l unfolding live_def by (metis add_right_cancel)
  moreover have "live bs' (insert (at q + 24) L)" using l q(3-6) unfolding live_def by blast
  ultimately show ?thesis using that q(1, 2, 7) by blast
qed

lemma heap1_below:
  assumes "unat a < 0x1000" "length xs \<le> 128"
  shows "ram (heap1 m xs) a = m a"
proof -
  have w: "store32 m c v a = m a" if "0x1000 \<le> unat c" "unat c \<le> 0x2000" for c v m
    using that assms(1) by (intro store32_outside) (simp add: word_le_nat_alt unat_diff_u32)
  have "\<not> in_block a 0x1030 (length xs)" using assms by (simp add: in_block_def unat_diff_u32)
  then show ?thesis by (simp add: heap1_def Let_def write_bytes_outside append_block_def init_alloc_def w)
qed

section \<open>A state with a heap in it\<close>

text \<open>
  Drivers keep the heap inside a larger state and hold blocks that they got from it: the addresses in
  \<open>L\<close>. Asking for a block gives an address that is not held, and the others stay held.
\<close>

definition alloc_in :: "('s \<Rightarrow> alloc_state) \<Rightarrow> (alloc_state \<Rightarrow> 's \<Rightarrow> 's) \<Rightarrow> u32 \<Rightarrow> 's \<Rightarrow> (u32 \<times> 's) outcome option" where
  "alloc_in get put n st = run_bind (kalloc (get st) n) (\<lambda>(p, h). Some (Inr (p, put h st)))"

definition allocz_in :: "('s \<Rightarrow> alloc_state) \<Rightarrow> (alloc_state \<Rightarrow> 's \<Rightarrow> 's) \<Rightarrow> u32 \<Rightarrow> 's \<Rightarrow> (u32 \<times> 's) outcome option" where
  "allocz_in get put n st = run_bind (kallocz (get st) n) (\<lambda>(p, h). Some (Inr (p, put h st)))"

definition holds :: "alloc_state \<Rightarrow> u32 set \<Rightarrow> nat \<Rightarrow> bool" where
  "holds h L k \<longleftrightarrow> (\<exists>bs. heap h bs \<and> space h bs k \<and> live bs L)"

lemma holds_alloc:
  assumes "holds h L (24 + unat (aligned_size n) + k)" "aligned_size n \<noteq> 0" "unat (aligned_size n) \<le> 4000"
  obtains p h' where "kalloc h n = Some (Inr (p, h'))" "p \<notin> L" "holds h' (insert p L) k"
proof -
  obtain bs where bs: "heap h bs" "space h bs (24 + unat (aligned_size n) + k)" "live bs L"
    using assms(1) by (auto simp: holds_def)
  obtain p h' bs' where p: "kalloc h n = Some (Inr (p, h'))" "heap h' bs'" "space h' bs' k" "p \<notin> L" "live bs' (insert p L)"
    by (rule alloc_live [OF bs(1, 2) assms(2, 3) bs(3)])
  then show ?thesis using that by (auto simp: holds_def)
qed

lemma holds_allocz:
  assumes "holds h L (24 + unat (aligned_size n) + k)" "aligned_size n \<noteq> 0" "unat (aligned_size n) \<le> 4000"
  obtains p h' where "kallocz h n = Some (Inr (p, h'))" "p \<notin> L" "holds h' (insert p L) k"
proof -
  obtain bs where bs: "heap h bs" "space h bs (24 + unat (aligned_size n) + k)" "live bs L"
    using assms(1) by (auto simp: holds_def)
  obtain m q bs' where q: "kalloc h n = Some (Inr (at q + 24, h\<lparr>ram := m\<rparr>))" "heap (h\<lparr>ram := m\<rparr>) bs'" "q \<in> set bs'" "\<not> bfree q" "bflags q = 0"
    "unat n \<le> unat (bsize q)" "\<And>c. c \<in> set bs \<Longrightarrow> \<not> bfree c \<Longrightarrow> c \<in> set bs' \<and> c \<noteq> q" "space (h\<lparr>ram := m\<rparr>) bs' k"
    by (rule alloc_space [OF bs(1, 2) assms(2, 3)]) (rule that, assumption+)
  have "memset m (at q + 24) 0 n a = ram (h\<lparr>ram := m\<rparr>) a \<or> payload q a" for a
    using in_block_mono [of a "at q + 24" "unat n" "unat (bsize q)"] q(6) by (auto simp: memset_eq payload_def)
  note w = write_space [OF q(2, 8, 3) this]
  have "at c \<noteq> at q" if "c \<in> set bs" "\<not> bfree c" for c
    using q(7) [OF that] layout_at_inj [OF heap_D(4) [OF q(2)]] q(3) by blast
  then have new: "at q + 24 \<notin> L" using bs(3) unfolding live_def by (metis add_right_cancel)
  have "live bs' (insert (at q + 24) L)" using bs(3) q(3, 4, 5, 7) unfolding live_def by blast
  then have "holds (h\<lparr>ram := memset m (at q + 24) 0 n\<rparr>) (insert (at q + 24) L) k" using w by (auto simp: holds_def)
  moreover have "kallocz h n = Some (Inr (at q + 24, h\<lparr>ram := memset m (at q + 24) 0 n\<rparr>))" using q(1) by (simp add: kallocz_def)
  ultimately show ?thesis using that new by blast
qed

text \<open>Giving a block back: the others stay held.\<close>

lemma holds_free:
  assumes "holds h (insert p L) k" "p \<notin> L"
  obtains h' where "kfree h p = Inr h'" "holds h' L k"
proof -
  obtain bs where bs: "heap h bs" "space h bs k" "live bs (insert p L)" using assms(1) by (auto simp: holds_def)
  obtain c where c: "c \<in> set bs" "\<not> bfree c" "bflags c = 0" "p = at c + 24" using bs(3) by (auto simp: live_def)
  obtain m bs' where m: "kfree h (at c + 24) = Inr (h\<lparr>ram := m\<rparr>)" "heap (h\<lparr>ram := m\<rparr>) bs'" "space (h\<lparr>ram := m\<rparr>) bs' k"
    "\<And>d. d \<in> set bs \<Longrightarrow> d \<noteq> c \<Longrightarrow> d \<in> set bs'"
    by (rule free_space [OF bs(1, 2) c(1-3)]) (rule that, assumption+)
  have "live bs' L"
    unfolding live_def
  proof
    fix x
    assume x: "x \<in> L"
    then obtain d where d: "d \<in> set bs" "\<not> bfree d" "bflags d = 0" "x = at d + 24" using bs(3) unfolding live_def by blast
    then have "d \<noteq> c" using assms(2) c(4) x by blast
    then show "\<exists>d \<in> set bs'. \<not> bfree d \<and> bflags d = 0 \<and> x = at d + 24" using d m(4) by blast
  qed
  then show ?thesis using that m(1-3) c(4) by (auto simp: holds_def)
qed

locale heap_holder =
  fixes get :: "'s \<Rightarrow> alloc_state" and put :: "alloc_state \<Rightarrow> 's \<Rightarrow> 's"
  assumes get_put: "get (put h st) = h"
begin

lemma alloc_ready:
  assumes "holds (get st) L (24 + unat (aligned_size n) + k)" "aligned_size n \<noteq> 0" "unat (aligned_size n) \<le> 4000"
  obtains p h where "alloc_in get put n st = Some (Inr (p, put h st))" "p \<notin> L" "holds (get (put h st)) (insert p L) k"
  by (rule holds_alloc [OF assms]) (rule that, simp_all add: alloc_in_def get_put)

lemma allocz_ready:
  assumes "holds (get st) L (24 + unat (aligned_size n) + k)" "aligned_size n \<noteq> 0" "unat (aligned_size n) \<le> 4000"
  obtains p h where "allocz_in get put n st = Some (Inr (p, put h st))" "p \<notin> L" "holds (get (put h st)) (insert p L) k"
  by (rule holds_allocz [OF assms]) (rule that, simp_all add: allocz_in_def get_put)

lemma free_ready:
  assumes "holds (get st) (insert p L) k" "p \<notin> L"
  obtains h where "kfree (get st) p = Inr h" "holds (get (put h st)) L k"
  by (rule holds_free [OF assms]) (rule that, simp_all add: get_put)

end

end
