(* ===== verification/Klist.thy ===== *)
theory Klist
  imports Micro_Prelude
begin

text \<open>
  The doubly linked lists of \<open>kern/list.c\<close> and \<open>kern/list.h\<close>. The nodes live in a typed heap
  from addresses to \<open>struct list_node\<close>; a \<open>struct list\<close> at \<open>l\<close> is its head node at \<open>l\<close> and its
  tail node 12 bytes further. \<open>list_rep h l ns\<close> says that the list at \<open>l\<close> has the nodes \<open>ns\<close>, in
  order; the empty list has two forms, the null pointers of \<open>list_init\<close> and the linked head and
  tail that \<open>list_remove\<close> leaves.
\<close>

section \<open>The code\<close>

record list_node =
  nxt :: u32
  prev :: u32
  node_value :: u32

type_synonym nodes = "u32 \<Rightarrow> list_node"

definition set_nxt :: "u32 \<Rightarrow> u32 \<Rightarrow> nodes \<Rightarrow> nodes" where
  "set_nxt a x h = h(a := (h a)\<lparr>nxt := x\<rparr>)"

definition set_prev :: "u32 \<Rightarrow> u32 \<Rightarrow> nodes \<Rightarrow> nodes" where
  "set_prev a x h = h(a := (h a)\<lparr>prev := x\<rparr>)"

abbreviation list_tail_node :: "u32 \<Rightarrow> u32" where "list_tail_node l \<equiv> l + 12"

definition list_init :: "nodes \<Rightarrow> u32 \<Rightarrow> nodes outcome" where
  "list_init h list = assert_that (list \<noteq> 0) ''Initializing null list''
     (Inr ((set_nxt (list_tail_node list) 0 o set_prev (list_tail_node list) 0
        o set_nxt list 0 o set_prev list 0) h))"

definition list_append :: "nodes \<Rightarrow> u32 \<Rightarrow> u32 \<Rightarrow> nodes outcome" where
  "list_append h list item =
     (let head = list; tail = list_tail_node list; p = prev (h tail) in
      if p \<noteq> 0
      then Inr ((set_nxt item tail o set_prev item p o set_nxt p item o set_prev tail item) h)
      else assert_that (nxt (h head) = 0) ''Expected empty list''
        (Inr ((set_nxt item tail o set_prev item head o set_nxt head item o set_prev tail item) h)))"

text \<open>\<open>list_node\<close>: the node that \<open>kalloc\<close> returned at \<open>node\<close> gets its value.\<close>

definition list_node_init :: "nodes \<Rightarrow> u32 \<Rightarrow> u32 \<Rightarrow> nodes" where
  "list_node_init h node data = h(node := (h node)\<lparr>node_value := data\<rparr>)"

definition list_value :: "nodes \<Rightarrow> u32 \<Rightarrow> u32" where
  "list_value h item = node_value (h item)"

text \<open>The result is the heap of links and the node that is given back to the allocator.\<close>

definition list_remove :: "nodes \<Rightarrow> u32 \<Rightarrow> nodes \<times> u32" where
  "list_remove h item =
     (let p = prev (h item); n = nxt (h item) in ((set_prev n p o set_nxt p n) h, item))"

definition list_insert :: "nodes \<Rightarrow> u32 \<Rightarrow> u32 \<Rightarrow> nodes" where
  "list_insert h before item =
     (let oldnext = nxt (h before) in (set_prev oldnext item o set_nxt before item) h)"

definition list_next :: "nodes \<Rightarrow> u32 \<Rightarrow> u32" where "list_next h item = nxt (h item)"
definition list_prev :: "nodes \<Rightarrow> u32 \<Rightarrow> u32" where "list_prev h item = prev (h item)"
definition list_head :: "nodes \<Rightarrow> u32 \<Rightarrow> u32" where "list_head h list = nxt (h list)"
definition list_tail :: "nodes \<Rightarrow> u32 \<Rightarrow> u32" where "list_tail h list = prev (h (list_tail_node list))"

text \<open>
  \<open>LIST_FOREACH\<close>: the body may change the links and a state of its own; the next node is read
  from the current one after the body.
\<close>

partial_function (option) list_foreach ::
  "(u32 \<Rightarrow> nodes \<times> 's \<Rightarrow> nodes \<times> 's) \<Rightarrow> u32 \<Rightarrow> nodes \<times> 's \<Rightarrow> (nodes \<times> 's) option" where
  "list_foreach body i s =
     (if i \<noteq> 0 \<and> list_next (fst s) i \<noteq> 0
      then let s = body i s in list_foreach body (list_next (fst s) i) s
      else Some s)"

definition list_iterate :: "nodes \<Rightarrow> u32 \<Rightarrow> (u32 \<Rightarrow> nodes \<times> 's \<Rightarrow> nodes \<times> 's) \<Rightarrow> 's \<Rightarrow> (nodes \<times> 's) option" where
  "list_iterate h list consumer s = list_foreach consumer (list_head h list) (h, s)"

definition list_enumerate ::
  "nodes \<Rightarrow> u32 \<Rightarrow> (int \<Rightarrow> u32 \<Rightarrow> nodes \<times> 's \<Rightarrow> nodes \<times> 's) \<Rightarrow> 's \<Rightarrow> (nodes \<times> 's) option" where
  "list_enumerate h list enumerator s =
     map_option (\<lambda>(h, i, s). (h, s))
       (list_foreach (\<lambda>current (h, i, s). let (h, s) = enumerator i current (h, s) in (h, i + 1, s))
         (list_head h list) (h, 0, s))"

section \<open>Lists in the heap\<close>

fun linked :: "nodes \<Rightarrow> u32 list \<Rightarrow> bool" where
  "linked h (x # y # zs) \<longleftrightarrow> nxt (h x) = y \<and> prev (h y) = x \<and> linked h (y # zs)"
| "linked h _ \<longleftrightarrow> True"

definition list_rep :: "nodes \<Rightarrow> u32 \<Rightarrow> u32 list \<Rightarrow> bool" where
  "list_rep h l ns \<longleftrightarrow> 0 \<notin> set (l # ns @ [l + 12]) \<and> distinct (l # ns @ [l + 12]) \<and> nxt (h (l + 12)) = 0
     \<and> (ns = [] \<and> nxt (h l) = 0 \<and> prev (h (l + 12)) = 0 \<or> linked h (l # ns @ [l + 12]))"

lemma set_nxt_simps [simp]:
  "nxt (set_nxt a x h b) = (if b = a then x else nxt (h b))"
  "prev (set_nxt a x h b) = prev (h b)" "node_value (set_nxt a x h b) = node_value (h b)"
  by (simp_all add: set_nxt_def)

lemma set_prev_simps [simp]:
  "prev (set_prev a x h b) = (if b = a then x else prev (h b))"
  "nxt (set_prev a x h b) = nxt (h b)" "node_value (set_prev a x h b) = node_value (h b)"
  by (simp_all add: set_prev_def)

lemma linked_append: "linked h (xs @ y # zs) \<longleftrightarrow> linked h (xs @ [y]) \<and> linked h (y # zs)"
proof (induction xs)
  case (Cons x xs)
  then show ?case by (cases xs) auto
qed simp

lemma linked_cong:
  "(\<And>x. x \<in> set (butlast xs) \<Longrightarrow> nxt (h' x) = nxt (h x)) \<Longrightarrow>
   (\<And>x. x \<in> set (tl xs) \<Longrightarrow> prev (h' x) = prev (h x)) \<Longrightarrow> linked h' xs = linked h xs"
proof (induction xs rule: induct_list012)
  case (3 x y zs)
  have "linked h' (y # zs) = linked h (y # zs)"
    by (rule "3.IH"(2)) (use 3(3,4) in \<open>auto split: if_splits\<close>)
  then show ?case using 3(3) [of x] 3(4) [of y] by simp
qed simp_all

text \<open>The links around one node.\<close>

lemma linked_at:
  "linked h (xs @ x # y # zs) \<longleftrightarrow> linked h (xs @ [x]) \<and> nxt (h x) = y \<and> prev (h y) = x \<and> linked h (y # zs)"
  using linked_append [of h xs x "y # zs"] by simp

lemma init_rep:
  assumes "l \<noteq> 0" "l + 12 \<noteq> 0"
  shows "\<exists>h'. list_init h l = Inr h' \<and> list_rep h' l []"
  using assms by (simp add: list_init_def list_rep_def)

lemma append_rep:
  assumes r: "list_rep h l ns" and new: "item \<noteq> 0" "item \<notin> set (l # ns @ [l + 12])"
  shows "\<exists>h'. list_append h l item = Inr h' \<and> list_rep h' l (ns @ [item])
    \<and> (\<forall>a. node_value (h' a) = node_value (h a))"
proof -
  note D = r [unfolded list_rep_def]
  show ?thesis
  proof (cases "prev (h (l + 12)) = 0")
    case True
    have "ns = [] \<and> nxt (h l) = 0"
    proof -
      have False if lk: "linked h (l # ns @ [l + 12])"
      proof -
        have "prev (h (l + 12)) = last (l # ns)"
          using lk linked_at [of h "butlast (l # ns)" "last (l # ns)" "l + 12" "[]"]
          by (metis append_Cons append_butlast_last_id append_assoc append_Cons append_Nil list.distinct(1))
        moreover have "last (l # ns) \<in> set (l # ns)" by (rule last_in_set) simp
        ultimately show False using True D by (metis Un_iff append_Cons set_append)
      qed
      with D show ?thesis by blast
    qed
    then show ?thesis using D new True by (auto simp: list_append_def list_rep_def Let_def)
  next
    case False
    then have lk: "linked h (l # ns @ [l + 12])" using D by blast
    define ys p where "ys = butlast (l # ns)" and "p = last (l # ns)"
    have lns: "l # ns = ys @ [p]" by (simp add: ys_def p_def)
    have lk': "linked h (ys @ [p])" "nxt (h p) = l + 12" "prev (h (l + 12)) = p"
      using lk linked_at [of h ys p "l + 12" "[]"] by (metis append.assoc append_Cons append_Nil lns)+
    have dist: "distinct (ys @ [p] @ [l + 12])" "0 \<notin> set (ys @ [p] @ [l + 12])"
      using D unfolding append_assoc [symmetric] lns [symmetric] by auto
    have new': "item \<notin> set (ys @ [p] @ [l + 12])"
      using new(2) unfolding append_assoc [symmetric] lns [symmetric] by simp
    let ?h = "(set_nxt item (l + 12) o set_prev item p o set_nxt p item o set_prev (l + 12) item) h"
    have "linked ?h (ys @ [p])"
    proof (subst linked_cong)
      show "nxt (?h x) = nxt (h x)" if "x \<in> set (butlast (ys @ [p]))" for x
        using that dist new' by (auto simp: butlast_append)
      show "prev (?h x) = prev (h x)" if "x \<in> set (tl (ys @ [p]))" for x
        using list.set_sel(2) [OF _ that] dist new' by auto
    qed (rule lk')
    moreover have "nxt (?h p) = item" "prev (?h item) = p" "nxt (?h item) = l + 12"
      "prev (?h (l + 12)) = item" using dist new' by auto
    ultimately have "linked ?h (ys @ p # item # [l + 12])" by (simp only: linked_at linked.simps simp_thms)
    moreover have "ys @ p # item # [l + 12] = l # (ns @ [item]) @ [l + 12]"
      using lns by (metis append.assoc append_Cons append_Nil)
    ultimately have "linked ?h (l # (ns @ [item]) @ [l + 12])" by (simp only:)
    moreover have "list_append h l item = Inr ?h"
      using False lk'(3) by (simp add: list_append_def Let_def)
    ultimately show ?thesis
      using D new dist(1) by (intro exI [of _ ?h]) (auto simp: list_rep_def)
  qed
qed

lemma append_frame:
  assumes r: "list_rep h l ns" and a: "list_append h l item = Inr h'" "a \<notin> set (l # ns @ [l + 12, item])"
  shows "h' a = h a"
proof -
  have "prev (h (l + 12)) \<in> set (l # ns)" if "prev (h (l + 12)) \<noteq> 0"
  proof -
    have lk: "linked h (l # ns @ [l + 12])" using r that by (auto simp: list_rep_def)
    have "prev (h (l + 12)) = last (l # ns)"
      using lk linked_at [of h "butlast (l # ns)" "last (l # ns)" "l + 12" "[]"]
      by (metis append_Cons append_butlast_last_id append_assoc append_Cons append_Nil list.distinct(1))
    then show ?thesis using last_in_set [of "l # ns"] by simp
  qed
  then show ?thesis using a
    by (auto simp: list_append_def Let_def set_nxt_def set_prev_def assert_that_def split: if_splits)
qed

lemma rep_cong:
  "list_rep h l ns \<Longrightarrow> (\<And>a. a \<in> set (l # ns @ [l + 12]) \<Longrightarrow> h' a = h a) \<Longrightarrow> list_rep h' l ns"
proof -
  assume r: "list_rep h l ns" and eq: "\<And>a. a \<in> set (l # ns @ [l + 12]) \<Longrightarrow> h' a = h a"
  have "linked h' (l # ns @ [l + 12]) = linked h (l # ns @ [l + 12])"
    by (rule linked_cong) (use eq in \<open>auto dest!: in_set_butlastD split: if_splits\<close>)
  then show ?thesis using r eq unfolding list_rep_def by simp
qed

lemma remove_rep:
  assumes r: "list_rep h l (xs @ item # ys)"
  shows "\<exists>h'. list_remove h item = (h', item) \<and> list_rep h' l (xs @ ys)
    \<and> (\<forall>a. node_value (h' a) = node_value (h a)) \<and> h' item = h item"
proof -
  define us p where "us = butlast (l # xs)" and "p = last (l # xs)"
  define q vs where "q = hd (ys @ [l + 12])" and "vs = tl (ys @ [l + 12])"
  have lxs: "l # xs = us @ [p]" and qvs: "ys @ [l + 12] = q # vs"
    by (simp_all add: us_def p_def q_def vs_def)
  have all: "l # (xs @ item # ys) @ [l + 12] = us @ p # item # q # vs"
    using lxs qvs by (metis append.assoc append_Cons append_Nil)
  note D = r [unfolded list_rep_def all]
  have lk: "linked h (us @ [p])" "nxt (h p) = item" "prev (h item) = p" "nxt (h item) = q"
    "prev (h q) = item" "linked h (q # vs)"
    using D by (auto simp: linked_at)
  let ?h = "(set_prev q p o set_nxt p q) h"
  have dist: "distinct (us @ p # item # q # vs)" using D by blast
  have "linked ?h (us @ [p])"
  proof (subst linked_cong)
    show "nxt (?h x) = nxt (h x)" if "x \<in> set (butlast (us @ [p]))" for x
      using that dist by (auto simp: butlast_append)
    show "prev (?h x) = prev (h x)" if "x \<in> set (tl (us @ [p]))" for x
      using list.set_sel(2) [OF _ that] dist by auto
  qed (rule lk)
  moreover have "linked ?h (q # vs)"
  proof (subst linked_cong)
    show "nxt (?h x) = nxt (h x)" if "x \<in> set (butlast (q # vs))" for x
      using in_set_butlastD [OF that] dist by auto
    show "prev (?h x) = prev (h x)" if "x \<in> set (tl (q # vs))" for x
      using that dist by auto
  qed (rule lk)
  ultimately have "linked ?h (us @ p # q # vs)" using dist by (simp add: linked_at)
  moreover have rest: "l # (xs @ ys) @ [l + 12] = us @ p # q # vs"
    using lxs qvs by (metis append.assoc append_Cons append_Nil)
  moreover have "nxt (?h (l + 12)) = 0"
  proof -
    have "l + 12 \<in> set (q # vs)" unfolding qvs [symmetric] by simp
    then have "l + 12 \<noteq> p" using dist by auto
    then show ?thesis using D by simp
  qed
  ultimately have "list_rep ?h l (xs @ ys)"
    using D unfolding list_rep_def rest by auto
  moreover have "list_remove h item = (?h, item)" by (simp add: list_remove_def lk Let_def)
  moreover have "item \<noteq> p" "item \<noteq> q" using dist by auto
  then have "?h item = h item" by (simp add: set_prev_def set_nxt_def)
  ultimately show ?thesis by (intro exI [of _ ?h]) simp
qed

section \<open>Iteration\<close>

text \<open>The nodes visited from \<open>x\<close> along the next pointers, up to a node without successor.\<close>

fun npath :: "nodes \<Rightarrow> u32 list \<Rightarrow> bool" where
  "npath h (x # y # zs) \<longleftrightarrow> x \<noteq> 0 \<and> nxt (h x) = y \<and> npath h (y # zs)"
| "npath h [x] \<longleftrightarrow> x \<noteq> 0 \<and> nxt (h x) = 0"
| "npath h [] \<longleftrightarrow> True"

lemma foreach_path:
  assumes body: "\<And>i s. fst (body i (h, s)) = h"
  shows "npath h (ns @ [e]) \<Longrightarrow> list_foreach body (hd (ns @ [e])) (h, s)
    = Some (h, fold (\<lambda>i s. snd (body i (h, s))) ns s)"
proof (induction ns arbitrary: s)
  case Nil
  then show ?case by (subst list_foreach.simps) (simp add: list_next_def)
next
  case (Cons x ns)
  have n: "nxt (h x) = hd (ns @ [e])" "x \<noteq> 0" "hd (ns @ [e]) \<noteq> 0" "npath h (ns @ [e])"
    using Cons.prems by (cases ns; cases "tl ns"; auto)+
  obtain s' where b: "body x (h, s) = (h, s')" using body [of x s] by (metis prod.collapse)
  show ?case
    using Cons.IH [OF n(4), of s'] n(1-3)
    by (subst list_foreach.simps) (simp add: list_next_def Let_def b)
qed

lemma linked_npath: "linked h xs \<Longrightarrow> 0 \<notin> set xs \<Longrightarrow> xs \<noteq> [] \<Longrightarrow> nxt (h (last xs)) = 0 \<Longrightarrow> npath h xs"
  by (induction xs rule: induct_list012) auto

lemma rep_path:
  assumes "list_rep h l ns"
  shows "list_head h l = 0 \<and> ns = [] \<or> list_head h l = hd (ns @ [l + 12]) \<and> npath h (ns @ [l + 12])"
proof (cases "linked h (l # ns @ [l + 12])")
  case True
  note D = assms [unfolded list_rep_def]
  have "npath h (l # ns @ [l + 12])" using True D by (intro linked_npath) auto
  then have "npath h (ns @ [l + 12])" "nxt (h l) = hd (ns @ [l + 12])" by (cases ns; simp)+
  then show ?thesis by (simp add: list_head_def)
qed (use assms in \<open>auto simp: list_rep_def list_head_def\<close>)

lemma iterate_rep:
  assumes r: "list_rep h l ns" and body: "\<And>i s. fst (body i (h, s)) = h"
  shows "list_iterate h l body s = Some (h, fold (\<lambda>i s. snd (body i (h, s))) ns s)"
  using rep_path [OF r]
proof
  assume "list_head h l = 0 \<and> ns = []"
  then show ?thesis unfolding list_iterate_def by (subst list_foreach.simps) simp
next
  assume "list_head h l = hd (ns @ [l + 12]) \<and> npath h (ns @ [l + 12])"
  then show ?thesis
    using foreach_path [of body h, OF body, of ns "l + 12" s] by (simp add: list_iterate_def)
qed

section \<open>A sequence contract\<close>

text \<open>What a client that only appends and removes may rely on.\<close>

locale sequence =
  fixes add :: "'s \<Rightarrow> 'a \<Rightarrow> 's option"
    and del :: "'s \<Rightarrow> 'a \<Rightarrow> 's"
    and holds :: "'s \<Rightarrow> 'a list \<Rightarrow> bool"
    and fresh :: "'s \<Rightarrow> 'a \<Rightarrow> bool"
  assumes add_ok: "holds s xs \<Longrightarrow> fresh s x \<Longrightarrow> x \<notin> set xs \<Longrightarrow> \<exists>s'. add s x = Some s' \<and> holds s' (xs @ [x])"
    and del_ok: "holds s (xs @ x # ys) \<Longrightarrow> holds (del s x) (xs @ ys)"
    and fresh_add: "add s x = Some s' \<Longrightarrow> fresh s' y = fresh s y"
begin

primrec add_all :: "'s \<Rightarrow> 'a list \<Rightarrow> 's option" where
  "add_all s [] = Some s"
| "add_all s (x # xs) = Option.bind (add s x) (\<lambda>s. add_all s xs)"

lemma add_all_ok:
  "holds s xs \<Longrightarrow> \<forall>y \<in> set ys. fresh s y \<Longrightarrow> distinct (xs @ ys) \<Longrightarrow>
   \<exists>s'. add_all s ys = Some s' \<and> holds s' (xs @ ys)"
proof (induction ys arbitrary: s xs)
  case (Cons y ys)
  then obtain s1 where s1: "add s y = Some s1" "holds s1 (xs @ [y])"
    using add_ok [of s xs y] by auto
  then have "\<exists>s'. add_all s1 ys = Some s' \<and> holds s' ((xs @ [y]) @ ys)"
    using Cons fresh_add [OF s1(1)] by (intro Cons.IH) auto
  then show ?case using s1(1) by auto
qed simp

text \<open>Removing elements one by one, in any order, leaves the others in order.\<close>

lemma del_fold:
  "holds s xs \<Longrightarrow> distinct xs \<Longrightarrow> distinct ds \<Longrightarrow> set ds \<subseteq> set xs \<Longrightarrow>
   holds (fold (\<lambda>d s. del s d) ds s) (filter (\<lambda>x. x \<notin> set ds) xs)"
proof (induction ds arbitrary: s xs)
  case (Cons d ds)
  then obtain us vs where xs: "xs = us @ d # vs" by (metis list.set_intros(1) split_list subsetD)
  have "holds (del s d) (us @ vs)" using Cons.prems(1) xs del_ok by simp
  moreover have "set ds \<subseteq> set (us @ vs)" using Cons.prems xs by auto
  ultimately have "holds (fold (\<lambda>d s. del s d) ds (del s d)) (filter (\<lambda>x. x \<notin> set ds) (us @ vs))"
    using Cons.prems xs by (intro Cons.IH) auto
  moreover have "filter (\<lambda>x. x \<notin> set ds) (us @ vs) = filter (\<lambda>x. x \<notin> set (d # ds)) xs"
  proof -
    have "filter (\<lambda>x. x \<notin> set ds) us = filter (\<lambda>x. x \<notin> set (d # ds)) us"
      "filter (\<lambda>x. x \<notin> set ds) vs = filter (\<lambda>x. x \<notin> set (d # ds)) vs"
      by (rule filter_cong; use Cons.prems(2) xs in auto)+
    then show ?thesis by (simp add: xs)
  qed
  ultimately show ?case by simp
qed simp

end

text \<open>The list at a fixed address: nodes other than the head, the tail and null may be added.\<close>

definition node_at :: "u32 \<Rightarrow> u32 \<Rightarrow> bool" where
  "node_at l item \<longleftrightarrow> item \<noteq> 0 \<and> item \<noteq> l \<and> item \<noteq> l + 12"

definition append_at :: "u32 \<Rightarrow> nodes \<Rightarrow> u32 \<Rightarrow> nodes option" where
  "append_at l h item = (case list_append h l item of Inr h' \<Rightarrow> Some h' | Inl _ \<Rightarrow> None)"

interpretation klist: sequence "append_at l" "\<lambda>h item. fst (list_remove h item)" "\<lambda>h. list_rep h l" "\<lambda>h. node_at l"
  for l
proof (unfold_locales, goal_cases)
  case (1 s xs x)
  then show ?case using append_rep [of s l xs x] by (auto simp: append_at_def node_at_def)
next
  case (2 s xs x ys)
  then show ?case using remove_rep [of s l xs x ys] by auto
qed simp

section \<open>The properties\<close>

text \<open>
  C13: Appending any distinct nodes to an initialised list and then removing any of them, in any
  order, leaves exactly the other nodes in the order in which they were appended.
\<close>

theorem list_append_remove:
  assumes "l \<noteq> 0" "l + 12 \<noteq> 0" "distinct ns" "\<forall>n \<in> set ns. node_at l n"
    and "distinct ds" "set ds \<subseteq> set ns"
  shows "\<exists>h0 h1. list_init h l = Inr h0 \<and> klist.add_all l h0 ns = Some h1 \<and> list_rep h1 l ns
    \<and> list_rep (fold (\<lambda>d h. fst (list_remove h d)) ds h1) l (filter (\<lambda>n. n \<notin> set ds) ns)"
proof -
  obtain h0 where h0: "list_init h l = Inr h0" "list_rep h0 l []"
    using init_rep [OF assms(1,2)] by blast
  obtain h1 where h1: "klist.add_all l h0 ns = Some h1" "list_rep h1 l ns"
    using klist.add_all_ok [of h0 l "[]" ns] h0(2) assms(3,4) by auto
  then show ?thesis using h0 klist.del_fold [OF h1(2) assms(3,5,6)] by blast
qed

lemma list_append_remove_witness:
  "\<exists>h0 h1. list_init (\<lambda>_. \<lparr>nxt = 0, prev = 0, node_value = 0\<rparr>) 0x100 = Inr h0
     \<and> klist.add_all 0x100 h0 [0x200, 0x300] = Some h1
     \<and> list_rep (fst (list_remove h1 0x200)) 0x100 [0x300]"
  using list_append_remove [of "0x100" "[0x200, 0x300]" "[0x200]" "\<lambda>_. \<lparr>nxt = 0, prev = 0, node_value = 0\<rparr>"]
  by (auto simp: node_at_def)

lemma fold_enumerate:
  "fold (\<lambda>x (i, s). (i + 1, f i x s)) xs (i :: int, s)
    = (i + int (length xs), fold (\<lambda>(i, x). f i x) (zip (map (\<lambda>k. i + int k) [0..<length xs]) xs) s)"
proof (induction xs arbitrary: i s)
  case (Cons x xs)
  have "map (\<lambda>k. i + int k) [0..<length (x # xs)] = i # map (\<lambda>k. i + 1 + int k) [0..<length xs]"
    by (simp add: upt_conv_Cons map_Suc_upt [symmetric] algebra_simps del: upt_Suc)
  with Cons [of "i + 1" "f i x s"] show ?case by simp
qed simp


lemma enumerate_rep:
  assumes r: "list_rep h l ns" and body: "\<And>k i s. fst (f k i (h, s)) = h"
  shows "list_enumerate h l f s = Some (h, fold (\<lambda>(k, i) s. snd (f k i (h, s)))
    (zip (map int [0..<length ns]) ns) s)"
proof -
  define B where "B = (\<lambda>current (h, k, s). case f k current (h, s) of (h, s) \<Rightarrow> (h, k + 1, s))"
  have B: "B i (h, k, s) = (h, k + 1, snd (f k i (h, s)))" for i k s
    using body [of k i s] by (cases "f k i (h, s)") (simp add: B_def)
  have "list_iterate h l B (0, s) = Some (h, fold (\<lambda>i s. snd (B i (h, s))) ns (0, s))"
    by (rule iterate_rep [OF r]) (auto simp: B)
  also have "fold (\<lambda>i s. snd (B i (h, s))) ns (0, s) = fold (\<lambda>i (k, s). (k + 1, snd (f k i (h, s)))) ns (0, s)"
    by (rule fold_cong) (auto simp: B)
  finally show ?thesis
    using fold_enumerate [of "\<lambda>k i s. snd (f k i (h, s))" ns 0 s]
    by (simp add: list_enumerate_def list_iterate_def B_def [symmetric])
qed

text \<open>
  Iteration ends and visits every node once, in order: with a consumer that does not change
  the links, \<open>list_iterate\<close> folds it over the nodes of the list, and \<open>list_enumerate\<close> also passes
  the position.
\<close>

theorem list_iterate_visits:
  assumes "list_rep h l ns" "\<forall>i s. fst (consumer i (h, s)) = h" "\<forall>k i s. fst (f k i (h, s)) = h"
  shows "list_iterate h l consumer s = Some (h, fold (\<lambda>i s. snd (consumer i (h, s))) ns s)
    \<and> list_enumerate h l f s = Some (h, fold (\<lambda>(k, i) s. snd (f k i (h, s))) (zip (map int [0..<length ns]) ns) s)"
  by (intro conjI iterate_rep [OF assms(1)] enumerate_rep [OF assms(1)]) (simp_all add: assms(2,3))

lemma list_iterate_visits_witness:
  "\<exists>h. list_rep h 0x100 [0x200, 0x300]
    \<and> list_iterate h 0x100 (\<lambda>i (h, s). (h, s @ [i])) [] = Some (h, [0x200, 0x300])"
proof -
  obtain h0 where h0: "list_init (\<lambda>_. \<lparr>nxt = 0, prev = 0, node_value = 0\<rparr>) 0x100 = Inr h0" "list_rep h0 0x100 []"
    using init_rep [of "0x100" "\<lambda>_. \<lparr>nxt = 0, prev = 0, node_value = 0\<rparr>"] by auto
  have "\<exists>h1. klist.add_all 0x100 h0 [0x200, 0x300] = Some h1 \<and> list_rep h1 0x100 ([] @ [0x200, 0x300])"
    by (rule klist.add_all_ok [OF h0(2)]) (simp_all add: node_at_def)
  then obtain h where h: "list_rep h 0x100 [0x200, 0x300]" by auto
  from list_iterate_visits [OF h, of "\<lambda>i (h, s). (h, s @ [i])" "\<lambda>k i (h, s). (h, s)" "[]"] h
  show ?thesis by auto
qed

lemma npath_upto:
  "npath h (xs @ b # ys) \<Longrightarrow> (\<And>x. x \<in> set xs \<Longrightarrow> nxt (h' x) = nxt (h x)) \<Longrightarrow>
   nxt (h' b) = e \<Longrightarrow> e \<noteq> 0 \<Longrightarrow> nxt (h' e) = 0 \<Longrightarrow> npath h' (xs @ [b, e])"
proof (induction xs)
  case Nil
  then show ?case by (cases ys) auto
next
  case (Cons x xs)
  then show ?case by (cases xs) auto
qed

lemma insert_iterate:
  assumes r: "list_rep h l (xs @ b # ys)" and new: "node_at l item" "item \<notin> set (xs @ b # ys)" "nxt (h item) = 0"
    and body: "\<And>i s. fst (body i (list_insert h b item, s)) = list_insert h b item"
  shows "list_iterate (list_insert h b item) l body s
    = Some (list_insert h b item, fold (\<lambda>i s. snd (body i (list_insert h b item, s))) (xs @ [b]) s)"
proof -
  let ?h = "list_insert h b item"
  have d: "distinct (l # (xs @ b # ys) @ [l + 12])" using r by (simp add: list_rep_def)
  have n: "nxt (?h x) = (if x = b then item else nxt (h x))" for x by (simp add: list_insert_def Let_def)
  have p: "list_head h l = hd ((xs @ b # ys) @ [l + 12])" "npath h (xs @ b # (ys @ [l + 12]))"
    using rep_path [OF r] by auto
  have "npath ?h (xs @ [b, item])"
    by (rule npath_upto [OF p(2)]) (use n d new in \<open>auto simp: node_at_def\<close>)
  then have path: "npath ?h ((xs @ [b]) @ [item])" by simp
  have "list_head ?h l = hd ((xs @ [b]) @ [item])"
    using p(1) d by (cases xs) (auto simp: list_head_def n)
  then show ?thesis
    using foreach_path [of body ?h, OF body path, of s] by (simp add: list_iterate_def)
qed

text \<open>
  \<open>list_insert\<close> links its neighbours to the new node but never sets the new node's own
  pointers: inserting a node whose next pointer is null after the node \<open>b\<close> of a list makes an
  iteration stop after \<open>b\<close>, so the nodes behind it are no longer reached.
\<close>

theorem list_insert_truncates:
  assumes "list_rep h l (xs @ b # ys)" "node_at l item" "item \<notin> set (xs @ b # ys)" "nxt (h item) = 0"
  shows "list_iterate (list_insert h b item) l (\<lambda>i (h, s). (h, s @ [i])) [] = Some (list_insert h b item, xs @ [b])"
proof -
  have "fold (\<lambda>i s. s @ [i]) zs (s :: u32 list) = s @ zs" for zs s by (induction zs arbitrary: s) simp_all
  then show ?thesis using insert_iterate [OF assms, of "\<lambda>i (h, s). (h, s @ [i])" "[]"] by simp
qed

lemma list_insert_truncates_witness:
  "\<exists>h. list_rep h 0x100 [0x200, 0x300]
    \<and> (\<exists>h'. list_iterate (list_insert h 0x200 0x400) 0x100 (\<lambda>i (h, s). (h, s @ [i])) [] = Some (h', [0x200]))"
proof -
  let ?h0 = "(\<lambda>_. \<lparr>nxt = 0, prev = 0, node_value = 0\<rparr>) :: nodes"
  define h where "h = ?h0(0x100 := \<lparr>nxt = 0x200, prev = 0, node_value = 0\<rparr>,
    0x200 := \<lparr>nxt = 0x300, prev = 0x100, node_value = 0\<rparr>,
    0x300 := \<lparr>nxt = 0x10c, prev = 0x200, node_value = 0\<rparr>,
    0x10c := \<lparr>nxt = 0, prev = 0x300, node_value = 0\<rparr>)"
  have h: "list_rep h 0x100 ([] @ 0x200 # [0x300])" by (simp add: h_def list_rep_def)
  have "nxt (h 0x400) = 0" by (simp add: h_def)
  with list_insert_truncates [OF h, of "0x400"] h show ?thesis by (auto simp: node_at_def)
qed

end
