(* ===== verification/Mod.thy ===== *)
theory Mod
  imports Elf Heap_Client Klist Printf
begin

text \<open>
  The module system (\<open>kern/mod.c\<close>, \<open>lib/export.h\<close>): the symbol tables of the kernel and of loaded
  modules, kept as two lists of pointers to \<open>struct symbol\<close>. The symbols lie in the flat memory, the
  nodes of the lists in the typed heap of theory Klist, at addresses that the allocator gives. What
  runs when an initialisation function or an entry point is called is a parameter.
\<close>

section \<open>The code\<close>

record 'w mods =
  links :: nodes
  exports :: u32
  modules :: u32
  outside :: 'w

type_synonym 'w modm = "'w mods machine"

definition sym_name :: "mem \<Rightarrow> u32 \<Rightarrow> u32" where "sym_name m s = load32 m s"
definition sym_fn :: "mem \<Rightarrow> u32 \<Rightarrow> u32" where "sym_fn m s = load32 m (s + 4)"

definition mod_init :: "'w modm \<Rightarrow> 'w modm outcome" where
  "mod_init st = (let (h, w) = st in
     bind_outcome (list_init (links w) (exports w)) (\<lambda>ls.
     bind_outcome (list_init ls (modules w)) (\<lambda>ls. Inr (h, w\<lparr>links := ls\<rparr>))))"

text \<open>\<open>list_append(list, list_node(sym))\<close>; a node has 12 bytes.\<close>

definition append_symbol :: "('w mods \<Rightarrow> u32) \<Rightarrow> u32 \<Rightarrow> 'w modm \<Rightarrow> 'w modm outcome option" where
  "append_symbol list s st = (let (h, w) = st in
     run_bind (kalloc h 12) (\<lambda>(node, h).
       Some (bind_outcome (list_append (list_node_init (links w) node s) (list w) node) (\<lambda>ls.
         Inr (h, w\<lparr>links := ls\<rparr>)))))"

definition module_sym_add :: "u32 \<Rightarrow> 'w modm \<Rightarrow> 'w modm outcome option" where
  "module_sym_add s st = append_symbol exports s st"

text \<open>\<open>strncmp\<close> with a literal and its length.\<close>

fun has_prefix :: "cstring \<Rightarrow> mem \<Rightarrow> u32 \<Rightarrow> bool" where
  "has_prefix [] m p \<longleftrightarrow> True"
| "has_prefix (c # cs) m p \<longleftrightarrow> c = m p \<and> has_prefix cs m (p + 1)"

definition EXPORT_MOD_INIT_PREFIX :: cstring where "EXPORT_MOD_INIT_PREFIX = lit ''__init$''"
definition EXPORT_MOD_EARLY_INIT_PREFIX :: cstring where "EXPORT_MOD_EARLY_INIT_PREFIX = lit ''__einit$''"

text \<open>The symbols of a table of \<open>size\<close> bytes, eight bytes each.\<close>

definition table :: "u32 \<Rightarrow> u32 \<Rightarrow> u32 list" where
  "table symtab sz = map (\<lambda>i. symtab + of_nat (8 * i)) [0..<unat sz div 8]"

definition mod_ksymtab_early_init :: "(u32 \<Rightarrow> 'w modm \<Rightarrow> 'w modm outcome option) \<Rightarrow> u32 \<Rightarrow> u32 \<Rightarrow> 'w modm \<Rightarrow> 'w modm outcome option" where
  "mod_ksymtab_early_init call symtab symtab_size st = run_each (\<lambda>s st. let m = ram (fst st) in
       if has_prefix EXPORT_MOD_EARLY_INIT_PREFIX m (sym_name m s) then call (sym_fn m s) st else Some (Inr st))
     (table symtab symtab_size) st"

definition mod_ksymtab_add :: "(u32 \<Rightarrow> 'w modm \<Rightarrow> 'w modm outcome option) \<Rightarrow> u32 \<Rightarrow> u32 \<Rightarrow> 'w modm \<Rightarrow> 'w modm outcome option" where
  "mod_ksymtab_add call symtab symtab_size st = run_each (\<lambda>s st. let m = ram (fst st) in
       if has_prefix EXPORT_MOD_INIT_PREFIX m (sym_name m s) then call (sym_fn m s) st
       else if \<not> has_prefix EXPORT_MOD_EARLY_INIT_PREFIX m (sym_name m s) then module_sym_add s st
       else Some (Inr st))
     (table symtab symtab_size) st"

definition set_symbol :: "u32 \<Rightarrow> u32 \<Rightarrow> u32 \<Rightarrow> 'w modm \<Rightarrow> 'w modm" where
  "set_symbol s name fn st = (let (h, w) = st in
     (h\<lparr>ram := store32 (store32 (ram h) s name) (s + 4) fn\<rparr>, w))"

definition mod_symtab_add :: "u32 \<Rightarrow> u32 \<Rightarrow> u32 \<Rightarrow> 'w modm \<Rightarrow> 'w modm outcome option" where
  "mod_symtab_add base symtab szsymtab st = (let m = ram (fst st) in
     run_bind (append_symbol modules symtab (set_symbol symtab (sym_name m symtab + base) base st))
       (run_each (\<lambda>s st. let m = ram (fst st) in
           append_symbol exports s (set_symbol s (sym_name m s + base) (sym_fn m s + base) st))
         (tl (table symtab szsymtab))))"

text \<open>The lists printed: each line is the text of \<open>mod_list_callback\<close>.\<close>

definition mod_list_callback :: "mem \<Rightarrow> u32 \<Rightarrow> nodes \<times> u8 list outcome \<Rightarrow> nodes \<times> u8 list outcome" where
  "mod_list_callback m node st = (let (ls, t) = st; md = list_value ls node in
     (ls, bind_outcome t (\<lambda>t. bind_outcome
       (printf (mem_str m) (lit ''%-20s %08x'' @ [10]) [sym_name m md, sym_fn m md] t) (\<lambda>(t, _). Inr t))))"

definition mod_list :: "'w modm \<Rightarrow> u8 list outcome option" where
  "mod_list st = (let (h, w) = st in
     map_option snd (list_iterate (links w) (modules w) (mod_list_callback (ram h)) (Inr [])))"

definition mod_sym_list :: "'w modm \<Rightarrow> u8 list outcome option" where
  "mod_sym_list st = (let (h, w) = st in
     map_option snd (list_iterate (links w) (exports w) (mod_list_callback (ram h)) (Inr [])))"

partial_function (option) mod_sym_get_from :: "mem \<Rightarrow> nodes \<Rightarrow> u32 \<Rightarrow> u32 \<Rightarrow> u32 option" where
  "mod_sym_get_from m ls name current =
     (let current = list_next ls current in
      if current \<noteq> 0 \<and> nxt (ls current) \<noteq> 0
      then let s = list_value ls current in
        Option.bind (strcmp m (sym_name m s) name) (\<lambda>r.
          if r = 0 then Some (sym_fn m s) else mod_sym_get_from m ls name current)
      else Some 0)"

definition mod_sym_get :: "u32 \<Rightarrow> 'w modm \<Rightarrow> u32 option" where
  "mod_sym_get name st = (let (h, w) = st in mod_sym_get_from (ram h) (links w) name (exports w))"

definition mod_load :: "(u32 \<Rightarrow> u32 \<Rightarrow> 'w modm \<Rightarrow> 'w modm outcome option) \<Rightarrow> u32 \<Rightarrow> 'w modm \<Rightarrow> 'w modm outcome option" where
  "mod_load call md st = elf_load_mod call mod_symtab_add md st"

section \<open>Nodes from the allocator\<close>

text \<open>Room for \<open>k\<close> more nodes behind the last block, each with its header in 88 bytes.\<close>

definition node_room :: "alloc_state \<Rightarrow> block list \<Rightarrow> nat \<Rightarrow> bool" where
  "node_room h bs k \<longleftrightarrow> unat (end_of bs) + 88 * k \<le> unat (mem_start h) + unat (mem_size h)
     \<and> unat (mem_start h) + unat (mem_size h) + 88 < 4294967296"

lemma aligned_12: "aligned_size 12 = 64"
  by (simp add: aligned_size_def)

lemma node_room_request:
  assumes "node_room h bs (Suc k)"
  shows "heap_request h 12" "room h bs (aligned_size 12)"
proof -
  have "unat (mem_start h + mem_size h) = unat (mem_start h) + unat (mem_size h)"
    using assms by (intro unat_add_u32) (simp add: node_room_def)
  then show "heap_request h 12" "room h bs (aligned_size 12)"
    using assms by (simp_all add: node_room_def heap_request_def below_top_def room_def aligned_12 word_le_nat_alt)
qed

lemma node_room_step:
  assumes h: "heap h bs" and r: "node_room h bs (Suc k)" and f: "mem_start h' = mem_start h" "mem_size h' = mem_size h"
  shows "node_room h' (snd (alloc_blocks 64 bs)) k"
proof (cases "first_fit 64 bs")
  case None
  have "unat (end_of bs + 24 + 64) = unat (end_of bs) + 88" using r by (simp add: node_room_def unat_add_u32)
  then show ?thesis using None r f by (simp add: alloc_blocks_def node_room_def end_of_def new_block_def)
next
  case (Some b)
  then show ?thesis using r f end_of_reuse [OF heap_D(5) [OF h]] by (simp add: alloc_blocks_def node_room_def)
qed

section \<open>The lists of symbols\<close>

text \<open>One list grows by a node, the other one, elsewhere, stays.\<close>

lemma append_node:
  assumes r: "list_rep ls l ns" "list_rep ls l' ms"
    and dis: "set (l # ns @ [l + 12]) \<inter> set (l' # ms @ [l' + 12]) = {}"
    and node: "node \<noteq> 0" "node \<notin> set (l # ns @ [l + 12])" "node \<notin> set (l' # ms @ [l' + 12])"
  obtains ls' where "list_append (list_node_init ls node s) l node = Inr ls'" "list_rep ls' l (ns @ [node])" "list_rep ls' l' ms"
    "node_value (ls' node) = s" "\<And>x. x \<noteq> node \<Longrightarrow> node_value (ls' x) = node_value (ls x)"
proof -
  let ?ls = "list_node_init ls node s"
  have same: "?ls a = ls a" if "a \<noteq> node" for a using that by (simp add: list_node_init_def)
  have r0: "list_rep ?ls l ns" by (rule rep_cong [OF r(1)]) (use same node(2) in metis)
  obtain ls' where a: "list_append ?ls l node = Inr ls'" "list_rep ls' l (ns @ [node])"
    and v: "\<And>a. node_value (ls' a) = node_value (?ls a)"
    using append_rep [OF r0 node(1,2)] by blast
  have "list_rep ls' l' ms"
  proof (rule rep_cong [OF r(2)])
    fix x assume x: "x \<in> set (l' # ms @ [l' + 12])"
    then have "x \<notin> set (l # ns @ [l + 12, node])" using dis node(3) by auto
    then have "ls' x = ?ls x" by (rule append_frame [OF r0 a(1)])
    also have "\<dots> = ls x" by (rule same) (use x node(3) in metis)
    finally show "ls' x = ls x" .
  qed
  then show ?thesis using that [OF a] v by (simp add: list_node_init_def)
qed

text \<open>The machine: the nodes are live blocks, the heads of the lists lie below the heap.\<close>

definition mods_ok :: "'w modm \<Rightarrow> block list \<Rightarrow> u32 list \<Rightarrow> u32 list \<Rightarrow> bool" where
  "mods_ok st bs ns ms \<longleftrightarrow> heap (fst st) bs
     \<and> list_rep (links (snd st)) (exports (snd st)) ns \<and> list_rep (links (snd st)) (modules (snd st)) ms
     \<and> set (exports (snd st) # ns @ [exports (snd st) + 12]) \<inter> set (modules (snd st) # ms @ [modules (snd st) + 12]) = {}
     \<and> (\<forall>x \<in> set (ns @ ms). \<exists>c \<in> set bs. \<not> bfree c \<and> x = at c + 24)
     \<and> (\<forall>x \<in> {exports (snd st), exports (snd st) + 12, modules (snd st), modules (snd st) + 12}.
         unat x < unat (mem_start (fst st)))"

lemma append_symbol_step:
  assumes ok: "mods_ok (h, w) bs ns ms" and room: "node_room h bs (Suc k)"
  obtains m q bs' where "kalloc h 12 = Some (Inr (at q + 24, h\<lparr>ram := m\<rparr>))" "heap (h\<lparr>ram := m\<rparr>) bs'"
    "q \<in> set bs'" "\<not> bfree q" "at q + 24 \<noteq> 0"
    "at q + 24 \<notin> set (exports w # ns @ [exports w + 12])" "at q + 24 \<notin> set (modules w # ms @ [modules w + 12])"
    "\<And>c. c \<in> set bs \<Longrightarrow> \<not> bfree c \<Longrightarrow> c \<in> set bs'" "\<And>a. safe h bs a \<Longrightarrow> m a = ram h a" "node_room (h\<lparr>ram := m\<rparr>) bs' k"
proof -
  have h: "heap h bs" using ok by (simp add: mods_ok_def)
  note req = node_room_request [OF room]
  obtain m q bs' where k: "kalloc h 12 = Some (Inr (at q + 24, h\<lparr>ram := m\<rparr>))" and h': "heap (h\<lparr>ram := m\<rparr>) bs'"
    and q: "q \<in> set bs'" "\<not> bfree q" and live: "\<And>c. c \<in> set bs \<Longrightarrow> \<not> bfree c \<Longrightarrow> c \<in> set bs' \<and> c \<noteq> q"
    and pay: "\<And>c a. c \<in> set bs \<Longrightarrow> payload c a \<Longrightarrow> m a = ram h a"
    and bs': "bs' = snd (alloc_blocks (aligned_size 12) bs)"
    by (rule kalloc_block [OF h req]) blast
  have at: "unat (mem_start h) \<le> unat (at q)" "unat (at q) + 24 + unat (bsize q) < 4294967296"
    using layout_ge [OF heap_D(4) [OF h'] q(1)] by (simp_all add: block_end_def)
  then have p: "unat (at q + 24) = unat (at q) + 24" by (simp add: unat_add_u32)
  have "at q + 24 \<noteq> 0" using p by auto
  moreover have nodes: "at q + 24 \<noteq> x" if "x \<in> set (ns @ ms)" for x
  proof -
    obtain c where c: "c \<in> set bs" "\<not> bfree c" "x = at c + 24" using ok \<open>x \<in> set (ns @ ms)\<close> unfolding mods_ok_def by auto
    then show ?thesis using live [OF c(1,2)] layout_at_inj [OF heap_D(4) [OF h'], of c q] q(1) by auto
  qed
  moreover have statics: "at q + 24 \<noteq> x" if "x \<in> {exports w, exports w + 12, modules w, modules w + 12}" for x
  proof -
    have "unat x < unat (mem_start h)" using ok that unfolding mods_ok_def by auto
    then show ?thesis using p at by auto
  qed
  moreover have "m a = ram h a" if "safe h bs a" for a
    using that pay kalloc_below [OF h req(1) k, of a] by (auto simp: safe_def)
  moreover have "node_room (h\<lparr>ram := m\<rparr>) bs' k"
    using node_room_step [OF h room, of "h\<lparr>ram := m\<rparr>"] by (simp add: bs' aligned_12)
  moreover have "at q + 24 \<notin> set (exports w # ns @ [exports w + 12])" "at q + 24 \<notin> set (modules w # ms @ [modules w + 12])"
    using nodes statics by auto
  ultimately show ?thesis using that [of q m bs'] k h' q live by blast
qed

lemma append_symbol_ok:
  assumes ok: "mods_ok (h, w) bs ns ms" and room: "node_room h bs (Suc k)"
  obtains m ls node bs' where
    "append_symbol (if b then exports else modules) s (h, w) = Some (Inr (h\<lparr>ram := m\<rparr>, w\<lparr>links := ls\<rparr>))"
    "mods_ok (h\<lparr>ram := m\<rparr>, w\<lparr>links := ls\<rparr>) bs' (if b then ns @ [node] else ns) (if b then ms else ms @ [node])"
    "node_room (h\<lparr>ram := m\<rparr>) bs' k" "node_value (ls node) = s"
    "\<And>x. x \<in> set (ns @ ms) \<Longrightarrow> node_value (ls x) = node_value (links w x)"
    "\<And>c. c \<in> set bs \<Longrightarrow> \<not> bfree c \<Longrightarrow> c \<in> set bs'" "\<And>a. safe h bs a \<Longrightarrow> m a = ram h a"
proof -
  note O = ok [unfolded mods_ok_def fst_conv snd_conv]
  obtain m q bs' where k: "kalloc h 12 = Some (Inr (at q + 24, h\<lparr>ram := m\<rparr>))" and h': "heap (h\<lparr>ram := m\<rparr>) bs'"
    and q: "q \<in> set bs'" "\<not> bfree q" "at q + 24 \<noteq> 0" "at q + 24 \<notin> set (exports w # ns @ [exports w + 12])"
      "at q + 24 \<notin> set (modules w # ms @ [modules w + 12])"
    and live: "\<And>c. c \<in> set bs \<Longrightarrow> \<not> bfree c \<Longrightarrow> c \<in> set bs'" and same: "\<And>a. safe h bs a \<Longrightarrow> m a = ram h a"
    and r: "node_room (h\<lparr>ram := m\<rparr>) bs' k"
    by (rule append_symbol_step [OF ok room]) blast
  let ?l = "(if b then exports else modules) w" and ?ns = "if b then ns @ [at q + 24] else ns"
    and ?ms = "if b then ms else ms @ [at q + 24]"
  obtain ls where a: "list_append (list_node_init (links w) (at q + 24) s) ?l (at q + 24) = Inr ls"
    and ls: "list_rep ls (exports w) ?ns" "list_rep ls (modules w) ?ms"
    and v: "node_value (ls (at q + 24)) = s" "\<And>x. x \<noteq> at q + 24 \<Longrightarrow> node_value (ls x) = node_value (links w x)"
  proof (cases b)
    case True
    show thesis
      by (rule append_node [of "links w" "exports w" ns "modules w" ms "at q + 24" s]) (use O q True that in simp_all)
  next
    case False
    have "set (modules w # ms @ [modules w + 12]) \<inter> set (exports w # ns @ [exports w + 12]) = {}" using O by blast
    then show thesis
      by (rule append_node [of "links w" "modules w" ms "exports w" ns "at q + 24" s, rotated 2]) (use O q False that in simp_all)
  qed
  have n: "\<exists>c \<in> set bs'. \<not> bfree c \<and> x = at c + 24" if "x \<in> set ns \<or> x \<in> set ms" for x
    using O live that by (metis Un_iff set_append)
  have "append_symbol (if b then exports else modules) s (h, w) = Some (Inr (h\<lparr>ram := m\<rparr>, w\<lparr>links := ls\<rparr>))"
    using a by (simp add: append_symbol_def k)
  moreover have "mods_ok (h\<lparr>ram := m\<rparr>, w\<lparr>links := ls\<rparr>) bs' ?ns ?ms"
    using h' ls O q n unfolding mods_ok_def by (cases b) auto
  moreover have "node_value (ls x) = node_value (links w x)" if "x \<in> set (ns @ ms)" for x
  proof (rule v(2))
    show "x \<noteq> at q + 24" using that q(4,5) by (metis Un_iff list.set_intros(2) set_append)
  qed
  ultimately show ?thesis using that [of m ls bs' "at q + 24"] r v(1) live same by blast
qed

section \<open>Symbols in memory\<close>

text \<open>The symbol at \<open>s\<close> has the name \<open>t\<close> and the address \<open>f\<close>, and lies with its name in the bytes \<open>K\<close>.\<close>

definition symbol_in :: "(u32 \<Rightarrow> bool) \<Rightarrow> mem \<Rightarrow> u32 \<Rightarrow> cstring \<times> u32 \<Rightarrow> bool" where
  "symbol_in K m s = (\<lambda>(t, f). cstr m (sym_name m s) t \<and> sym_fn m s = f
     \<and> (\<forall>a. in_block a s 8 \<or> in_block a (sym_name m s) (Suc (length t)) \<longrightarrow> K a))"

definition symbols :: "(u32 \<Rightarrow> bool) \<Rightarrow> mem \<Rightarrow> nodes \<Rightarrow> u32 list \<Rightarrow> (cstring \<times> u32) list \<Rightarrow> bool" where
  "symbols K m ls ns xs \<longleftrightarrow> list_all2 (\<lambda>x. symbol_in K m (node_value (ls x))) ns xs"

lemma symbol_fields_cong:
  assumes "\<And>a. in_block a s 8 \<Longrightarrow> m' a = m a"
  shows "sym_name m' s = sym_name m s" "sym_fn m' s = sym_fn m s"
proof -
  have i: "in_block (s + i) s 8" if "unat i < 8" for i using that by (rule in_block_offset)
  show "sym_name m' s = sym_name m s" unfolding sym_name_def
    by (rule load32_cong) (use assms i in \<open>simp add: word_less_nat_alt\<close>)
  have "in_block (s + 4 + j) s 8" if "j < 4" for j
    using i [of "4 + j"] that by (simp add: word_less_nat_alt unat_add_u32 add.assoc)
  then show "sym_fn m' s = sym_fn m s" unfolding sym_fn_def by (intro load32_cong assms)
qed

lemma symbol_in_cong:
  assumes s: "symbol_in K m s x" and eq: "\<And>a. K a \<Longrightarrow> m' a = m a"
  shows "symbol_in K m' s x"
proof -
  obtain t f where x: "x = (t, f)" by force
  have f: "sym_name m' s = sym_name m s" "sym_fn m' s = sym_fn m s"
    using symbol_fields_cong [of s m' m] s eq by (auto simp: symbol_in_def x)
  have "cstr m' (sym_name m s) t = cstr m (sym_name m s) t"
    by (rule cstr_block_cong) (use s eq in \<open>simp add: symbol_in_def x\<close>)
  then show ?thesis using s f by (simp add: symbol_in_def x)
qed

lemma symbols_cong:
  assumes "symbols K m ls ns xs" "\<And>a. K a \<Longrightarrow> m' a = m a" "\<And>x. x \<in> set ns \<Longrightarrow> node_value (ls' x) = node_value (ls x)"
  shows "symbols K m' ls' ns xs"
  using assms(1,3) unfolding symbols_def
  by (induction ns xs rule: list_all2_induct) (auto intro: symbol_in_cong assms(2))

lemma symbols_mono: "symbols K m ls ns xs \<Longrightarrow> (\<And>a. K a \<Longrightarrow> L a) \<Longrightarrow> symbols L m ls ns xs"
  unfolding symbols_def by (erule list_all2_mono) (auto simp: symbol_in_def)

lemma mod_sym_get_npath:
  assumes t: "cstr m name t"
  shows "npath ls (ns @ [e]) \<Longrightarrow> list_next ls cur = hd (ns @ [e]) \<Longrightarrow> symbols K m ls ns xs \<Longrightarrow>
    mod_sym_get_from m ls name cur = Some (case map_of xs t of None \<Rightarrow> 0 | Some f \<Rightarrow> f)"
proof (induction ns arbitrary: cur xs)
  case Nil
  then show ?case by (subst mod_sym_get_from.simps) (simp add: symbols_def)
next
  case (Cons x ns)
  have n: "nxt (ls x) = hd (ns @ [e])" "x \<noteq> 0" "hd (ns @ [e]) \<noteq> 0" "npath ls (ns @ [e])"
    using Cons.prems(1) by (cases ns; cases "tl ns"; auto)+
  obtain s f ys where xs: "xs = (s, f) # ys" "symbol_in K m (node_value (ls x)) (s, f)" "symbols K m ls ns ys"
    using Cons.prems(3) by (auto simp: symbols_def list_all2_Cons1)
  have c: "strcmp m (sym_name m (node_value (ls x))) name = Some (strdiff s t)"
    using xs(2) by (intro strcmp_cstr t) (simp add: symbol_in_def)
  have "strdiff s t = 0 \<longleftrightarrow> s = t"
    using xs(2) cstr_ok [OF t] by (intro strdiff_0_iff) (auto simp: symbol_in_def dest: cstr_ok)
  then show ?case
    using Cons.IH [OF n(4) _ xs(3), of x] n Cons.prems(2) xs c
    by (subst mod_sym_get_from.simps) (simp add: Let_def list_next_def list_value_def symbol_in_def)
qed

lemma mod_sym_get_symbols:
  assumes "list_rep ls l ns" "symbols K m ls ns xs" "cstr m name t"
  shows "mod_sym_get_from m ls name l = Some (case map_of xs t of None \<Rightarrow> 0 | Some f \<Rightarrow> f)"
  using rep_path [OF assms(1)]
proof
  assume "list_head ls l = 0 \<and> ns = []"
  then show ?thesis using assms(2) by (subst mod_sym_get_from.simps) (simp add: list_head_def list_next_def symbols_def)
next
  assume "list_head ls l = hd (ns @ [l + 12]) \<and> npath ls (ns @ [l + 12])"
  then show ?thesis
    using mod_sym_get_npath [OF assms(3) _ _ assms(2), where e = "l + 12" and cur = l] by (simp add: list_head_def list_next_def)
qed

section \<open>Adding a table\<close>

text \<open>The table of a module: \<open>n\<close> symbols in a live block, their names, once relocated, in other safe bytes.\<close>

definition entry :: "u32 \<Rightarrow> nat \<Rightarrow> u32" where
  "entry symtab i = symtab + of_nat (8 * i)"

definition around :: "alloc_state \<Rightarrow> block list \<Rightarrow> u32 \<Rightarrow> nat \<Rightarrow> u32 \<Rightarrow> bool" where
  "around h bs symtab n a \<longleftrightarrow> safe h bs a \<and> \<not> in_block a symtab (8 * n)"

definition table_ready :: "alloc_state \<Rightarrow> block list \<Rightarrow> u32 \<Rightarrow> u32 \<Rightarrow> cstring list \<Rightarrow> bool" where
  "table_ready h bs base symtab ts \<longleftrightarrow> ts \<noteq> [] \<and> 8 * length ts < 4294967296
     \<and> (\<exists>c \<in> set bs. \<not> bfree c \<and> (\<forall>a. in_block a symtab (8 * length ts) \<longrightarrow> payload c a))
     \<and> (\<forall>i < length ts. let p = base + sym_name (ram h) (entry symtab i) in cstr (ram h) p (ts ! i)
         \<and> (\<forall>a. in_block a p (Suc (length (ts ! i))) \<longrightarrow> around h bs symtab (length ts) a))"

lemma entry_block:
  assumes "i < n" "8 * n < 4294967296"
  shows "in_block a (entry symtab i) 8 \<Longrightarrow> in_block a symtab (8 * n)"
    and "in_block a (entry symtab i) 8 \<Longrightarrow> in_block a (entry symtab j) 8 \<Longrightarrow> j < n \<Longrightarrow> i = j"
proof -
  have d: "in_block a (entry symtab k) 8 \<longleftrightarrow> 8 * k \<le> unat (a - symtab) \<and> unat (a - symtab) < 8 * k + 8" if "k < n" for k
    using that assms(2) dist_shift_u32 [of "8 * k" a symtab] unat_lt_2p32 [of "a - symtab"]
    unfolding in_block_def entry_def by (auto simp del: of_nat_mult unat_lt_2p32)
  show "in_block a symtab (8 * n)" if "in_block a (entry symtab i) 8"
    using that d [OF assms(1)] assms(1) unfolding in_block_def [of _ symtab] by linarith
  show "i = j" if "in_block a (entry symtab i) 8" "in_block a (entry symtab j) 8" "j < n"
    using that d [OF assms(1)] d [OF that(3)] by linarith
qed

lemma set_symbol_bytes:
  assumes m': "m' = ram (fst (set_symbol s name fn (h, w)))"
  shows "\<not> in_block a s 8 \<Longrightarrow> m' a = ram h a" "sym_name m' s = name" "sym_fn m' s = fn"
proof -
  show "m' a = ram h a" if "\<not> in_block a s 8"
  proof -
    have "4 \<le> a - s" "4 \<le> a - (s + 4)"
      using that dist_shift_u32 [of 4 a s] by (auto simp: in_block_def word_le_nat_alt not_less split: if_splits)
    then show ?thesis by (simp add: m' set_symbol_def store32_outside)
  qed
  show "sym_name m' s = name" "sym_fn m' s = fn"
    by (simp_all add: m' set_symbol_def sym_name_def sym_fn_def)
qed

text \<open>One round: the entry is relocated in place and appended to one of the lists.\<close>

lemma symbol_round:
  assumes ok: "mods_ok (h, w) bs ns ms" and room: "node_room h bs (Suc k)"
    and c: "c \<in> set bs" "\<not> bfree c" "\<And>a. in_block a s 8 \<Longrightarrow> payload c a"
  obtains m ls node bs' where
    "append_symbol (if b then exports else modules) s (set_symbol s name fn (h, w)) = Some (Inr (h\<lparr>ram := m\<rparr>, w\<lparr>links := ls\<rparr>))"
    "mods_ok (h\<lparr>ram := m\<rparr>, w\<lparr>links := ls\<rparr>) bs' (if b then ns @ [node] else ns) (if b then ms else ms @ [node])"
    "node_room (h\<lparr>ram := m\<rparr>) bs' k" "node_value (ls node) = s"
    "\<And>x. x \<in> set (ns @ ms) \<Longrightarrow> node_value (ls x) = node_value (links w x)"
    "\<And>c. c \<in> set bs \<Longrightarrow> \<not> bfree c \<Longrightarrow> c \<in> set bs'"
    "\<And>a. safe h bs a \<Longrightarrow> \<not> in_block a s 8 \<Longrightarrow> m a = ram h a" "sym_name m s = name" "sym_fn m s = fn"
proof -
  define m1 where "m1 = ram (fst (set_symbol s name fn (h, w)))"
  have st: "set_symbol s name fn (h, w) = (h\<lparr>ram := m1\<rparr>, w)" by (simp add: set_symbol_def m1_def)
  note m1 = set_symbol_bytes [OF m1_def]
  have safe1: "safe (h\<lparr>ram := m1\<rparr>) bs = safe h bs" by (simp add: safe_def fun_eq_iff)
  have "heap (h\<lparr>ram := m1\<rparr>) bs"
  proof (rule heap_payload_write)
    show "m1 a = ram h a \<or> (\<exists>b \<in> set bs. payload b a)" for a using m1(1) [of a] c by blast
  qed (use ok in \<open>simp add: mods_ok_def\<close>)
  then have ok1: "mods_ok (h\<lparr>ram := m1\<rparr>, w) bs ns ms" using ok by (simp add: mods_ok_def)
  have room1: "node_room (h\<lparr>ram := m1\<rparr>) bs (Suc k)" using room by (simp add: node_room_def)
  obtain m ls node bs' where a: "append_symbol (if b then exports else modules) s (h\<lparr>ram := m1\<rparr>, w)
      = Some (Inr (h\<lparr>ram := m1\<rparr>\<lparr>ram := m\<rparr>, w\<lparr>links := ls\<rparr>))"
    "mods_ok (h\<lparr>ram := m1\<rparr>\<lparr>ram := m\<rparr>, w\<lparr>links := ls\<rparr>) bs' (if b then ns @ [node] else ns) (if b then ms else ms @ [node])"
    "node_room (h\<lparr>ram := m1\<rparr>\<lparr>ram := m\<rparr>) bs' k" "node_value (ls node) = s"
    "\<And>x. x \<in> set (ns @ ms) \<Longrightarrow> node_value (ls x) = node_value (links w x)"
    "\<And>c. c \<in> set bs \<Longrightarrow> \<not> bfree c \<Longrightarrow> c \<in> set bs'" "\<And>a. safe h bs a \<Longrightarrow> m a = m1 a"
    by (rule append_symbol_ok [OF ok1 room1, where b = b and s = s, unfolded safe1]) simp
  have s: "m a = m1 a" if "in_block a s 8" for a using a(7) c that by (auto simp: safe_def)
  show ?thesis
    using that [of m ls bs' node] a st m1 symbol_fields_cong [of s m m1, OF s] by simp
qed

text \<open>
  The state after the first \<open>j\<close> symbols of a table: they have been relocated, the others and all
  that lies around the table are as at the start.
\<close>

definition table_upto :: "alloc_state \<Rightarrow> block list \<Rightarrow> u32 \<Rightarrow> cstring list \<Rightarrow> nat \<Rightarrow> 'w modm \<Rightarrow> block list \<Rightarrow> u32 list
    \<Rightarrow> (cstring \<times> u32) list \<Rightarrow> u32 list \<Rightarrow> bool" where
  "table_upto h0 bs0 symtab ts j st bs ns xs ms \<longleftrightarrow> mods_ok st bs ns ms \<and> node_room (fst st) bs (length ts - j)
     \<and> mem_start (fst st) = mem_start h0 \<and> (\<forall>c \<in> set bs0. \<not> bfree c \<longrightarrow> c \<in> set bs)
     \<and> (\<forall>a. around h0 bs0 symtab (length ts) a \<longrightarrow> ram (fst st) a = ram h0 a)
     \<and> (\<forall>i a. j \<le> i \<and> i < length ts \<and> in_block a (entry symtab i) 8 \<longrightarrow> ram (fst st) a = ram h0 a)
     \<and> symbols (\<lambda>a. around h0 bs0 symtab (length ts) a \<or> in_block a symtab (8 * j)) (ram (fst st)) (links (snd st)) ns xs"

lemma table_round:
  assumes t: "table_ready h0 bs0 base symtab ts" and j: "j < length ts"
    and inv: "table_upto h0 bs0 symtab ts j (h, w) bs ns xs ms"
  obtains st' node bs' where
    "append_symbol (if b then exports else modules) (entry symtab j)
       (set_symbol (entry symtab j) (base + sym_name (ram h) (entry symtab j)) fn (h, w)) = Some (Inr st')"
    "table_upto h0 bs0 symtab ts (Suc j) st' bs' (if b then ns @ [node] else ns) (if b then xs @ [(ts ! j, fn)] else xs)
       (if b then ms else ms @ [node])"
    "sym_fn (ram h) (entry symtab j) = sym_fn (ram h0) (entry symtab j)"
proof -
  let ?n = "length ts" and ?s = "entry symtab j" and ?K = "around h0 bs0 symtab (length ts)"
  note I = inv [unfolded table_upto_def fst_conv snd_conv]
  have n: "8 * ?n < 4294967296" using t by (simp add: table_ready_def)
  have raw: "\<And>a. in_block a ?s 8 \<Longrightarrow> ram h a = ram h0 a" using I j by blast
  note F = symbol_fields_cong [OF raw]
  let ?p = "base + sym_name (ram h0) ?s"
  have p: "cstr (ram h0) ?p (ts ! j)" "\<And>a. in_block a ?p (Suc (length (ts ! j))) \<Longrightarrow> ?K a"
    using t j unfolding table_ready_def Let_def by blast+
  obtain c where c: "c \<in> set bs" "\<not> bfree c" "\<And>a. in_block a ?s 8 \<Longrightarrow> payload c a"
  proof -
    obtain c where "c \<in> set bs0" "\<not> bfree c" "\<And>a. in_block a symtab (8 * ?n) \<Longrightarrow> payload c a"
      using t unfolding table_ready_def by blast
    then show thesis using that [of c] I entry_block(1) [OF j n] by blast
  qed
  have room: "node_room h bs (Suc (?n - Suc j))" using I j by (simp add: Suc_diff_Suc)
  have ok: "mods_ok (h, w) bs ns ms" using I by blast
  have safe: "safe h bs a" if "safe h0 bs0 a" for a using that I unfolding safe_def by auto
  obtain m ls node bs' where a: "append_symbol (if b then exports else modules) ?s (set_symbol ?s ?p fn (h, w))
      = Some (Inr (h\<lparr>ram := m\<rparr>, w\<lparr>links := ls\<rparr>))"
    "mods_ok (h\<lparr>ram := m\<rparr>, w\<lparr>links := ls\<rparr>) bs' (if b then ns @ [node] else ns) (if b then ms else ms @ [node])"
    "node_room (h\<lparr>ram := m\<rparr>) bs' (?n - Suc j)" "node_value (ls node) = ?s"
    and v: "\<And>x. x \<in> set (ns @ ms) \<Longrightarrow> node_value (ls x) = node_value (links w x)"
    and live: "\<And>c. c \<in> set bs \<Longrightarrow> \<not> bfree c \<Longrightarrow> c \<in> set bs'"
    and same: "\<And>a. safe h bs a \<Longrightarrow> \<not> in_block a ?s 8 \<Longrightarrow> m a = ram h a"
    and fields: "sym_name m ?s = ?p" "sym_fn m ?s = fn"
    by (rule symbol_round [OF ok room c(1,2), where s = ?s and b = b and name = ?p and fn = fn])
      (erule c(3), rule that, assumption+)
  have K: "safe h bs a \<and> \<not> in_block a ?s 8" if "?K a" for a
    using that safe entry_block(1) [OF j n] unfolding around_def by blast
  have tsafe: "safe h0 bs0 a" if "in_block a symtab (8 * ?n)" for a
    using t that unfolding table_ready_def safe_def by blast
  have other: "m a = ram h a" if "i < ?n" "i \<noteq> j" "in_block a (entry symtab i) 8" for i a
    using same [OF safe [OF tsafe [OF entry_block(1) [OF that(1) n that(3)]]]] entry_block(2) [OF j n _ that(3,1)] that(2) by blast
  let ?K' = "\<lambda>a. ?K a \<or> in_block a symtab (8 * Suc j)"
  have old: "symbols ?K' m ls ns xs"
  proof (rule symbols_mono)
    show "symbols (\<lambda>a. ?K a \<or> in_block a symtab (8 * j)) m ls ns xs"
    proof (rule symbols_cong [of _ "ram h" "links w"])
      fix a assume "?K a \<or> in_block a symtab (8 * j)"
      then show "m a = ram h a"
      proof
        assume "in_block a symtab (8 * j)"
        then have "\<not> in_block a ?s 8" "in_block a symtab (8 * ?n)"
          using in_block_split_excl [of "8 * j" 8 a symtab] j n in_block_mono [of a symtab "8 * j" "8 * ?n"]
          by (auto simp: entry_def simp del: of_nat_mult)
        then show ?thesis using same safe tsafe by blast
      qed (use K same in blast)
    qed (use I v in auto)
    show "?K' a" if "?K a \<or> in_block a symtab (8 * j)" for a
      using that in_block_mono [of a symtab "8 * j" "8 * Suc j"] by auto
  qed
  have new: "symbol_in ?K' m ?s (ts ! j, fn)"
  proof -
    have "cstr m ?p (ts ! j) = cstr (ram h0) ?p (ts ! j)"
    proof (rule cstr_block_cong)
      fix a assume "in_block a ?p (Suc (length (ts ! j)))"
      then have "?K a" by (rule p(2))
      then show "m a = ram h0 a" using K same I by metis
    qed
    moreover have "in_block a symtab (8 * Suc j)" if "in_block a ?s 8" for a
      using entry_block(1) [of j "Suc j" a symtab, OF _ _ that] j n by simp
    ultimately show ?thesis using fields p by (auto simp: symbol_in_def)
  qed
  have "table_upto h0 bs0 symtab ts (Suc j) (h\<lparr>ram := m\<rparr>, w\<lparr>links := ls\<rparr>) bs' (if b then ns @ [node] else ns)
      (if b then xs @ [(ts ! j, fn)] else xs) (if b then ms else ms @ [node])"
    unfolding table_upto_def
  proof (intro conjI allI impI)
    show "ram (fst (h\<lparr>ram := m\<rparr>, w\<lparr>links := ls\<rparr>)) a = ram h0 a" if "?K a" for a
      using that K same I by (metis alloc_state.select_convs(1) alloc_state.surjective alloc_state.update_convs(1) fst_conv)
    show "ram (fst (h\<lparr>ram := m\<rparr>, w\<lparr>links := ls\<rparr>)) a = ram h0 a"
      if "Suc j \<le> i \<and> i < ?n \<and> in_block a (entry symtab i) 8" for i a
    proof -
      have "ram h a = ram h0 a" using I that Suc_leD by blast
      then show ?thesis using that other [of i a] by simp
    qed
    show "symbols ?K' (ram (fst (h\<lparr>ram := m\<rparr>, w\<lparr>links := ls\<rparr>))) (links (snd (h\<lparr>ram := m\<rparr>, w\<lparr>links := ls\<rparr>)))
        (if b then ns @ [node] else ns) (if b then xs @ [(ts ! j, fn)] else xs)"
      using old new a(4) by (simp add: symbols_def list_all2_appendI)
  qed (use a I live in auto)
  then show ?thesis using that [of "(h\<lparr>ram := m\<rparr>, w\<lparr>links := ls\<rparr>)"] a(1) F by simp
qed

lemma table_rest:
  assumes t: "table_ready h0 bs0 base symtab ts" and n: "j + r = length ts"
    and inv: "table_upto h0 bs0 symtab ts j st bs ns xs ms"
  defines "fn \<equiv> \<lambda>i. base + sym_fn (ram h0) (entry symtab i)"
  shows "\<exists>st' bs' ns'. run_each (\<lambda>s st. let m = ram (fst st) in
        append_symbol exports s (set_symbol s (sym_name m s + base) (sym_fn m s + base) st)) (map (entry symtab) [j..<length ts]) st
      = Some (Inr st') \<and> table_upto h0 bs0 symtab ts (length ts) st' bs' (ns @ ns') (xs @ map (\<lambda>i. (ts ! i, fn i)) [j..<length ts]) ms"
  using n inv
proof (induction r arbitrary: j st bs ns xs)
  case 0
  then show ?case by (intro exI [of _ st] exI [of _ bs] exI [of _ "[]"]) simp
next
  case (Suc r)
  obtain h w where st: "st = (h, w)" by force
  have j: "j < length ts" using Suc.prems(1) by simp
  obtain st1 node bs1 where a: "append_symbol (if True then exports else modules) (entry symtab j)
       (set_symbol (entry symtab j) (base + sym_name (ram h) (entry symtab j)) (fn j) (h, w)) = Some (Inr st1)"
    "table_upto h0 bs0 symtab ts (Suc j) st1 bs1 (if True then ns @ [node] else ns) (if True then xs @ [(ts ! j, fn j)] else xs)
       (if True then ms else ms @ [node])"
    "sym_fn (ram h) (entry symtab j) = sym_fn (ram h0) (entry symtab j)"
    by (rule table_round [OF t j Suc.prems(2) [unfolded st], where b = True and fn = "fn j"]) blast
  obtain st' bs' ns' where ih: "run_each (\<lambda>s st. let m = ram (fst st) in
        append_symbol exports s (set_symbol s (sym_name m s + base) (sym_fn m s + base) st)) (map (entry symtab) [Suc j..<length ts]) st1
      = Some (Inr st')"
    "table_upto h0 bs0 symtab ts (length ts) st' bs' ((ns @ [node]) @ ns') ((xs @ [(ts ! j, fn j)]) @ map (\<lambda>i. (ts ! i, fn i)) [Suc j..<length ts]) ms"
    using Suc.IH [of "Suc j" st1 bs1 "ns @ [node]" "xs @ [(ts ! j, fn j)]"] a(2) Suc.prems(1) by auto
  have js: "[j..<length ts] = j # [Suc j..<length ts]" using j by (rule upt_conv_Cons)
  show ?case
    using ih a(1,3) unfolding js
    by (intro exI [of _ st'] exI [of _ bs'] exI [of _ "node # ns'"]) (simp add: st Let_def add.commute fn_def)
qed

lemma symbols_get:
  assumes "mods_ok st bs ns ms" "symbols K (ram (fst st)) (links (snd st)) ns xs" "cstr (ram (fst st)) p t"
  shows "mod_sym_get p st = Some (case map_of xs t of None \<Rightarrow> 0 | Some f \<Rightarrow> f)"
  using mod_sym_get_symbols [OF _ assms(2,3), of "exports (snd st)"] assms(1)
  by (cases st) (simp add: mod_sym_get_def mods_ok_def)

section \<open>The properties\<close>

text \<open>
  C26: Loading the symbols of a module: given room for the nodes, \<open>mod_symtab_add\<close> ends, and afterwards
  \<open>mod_sym_get\<close> ends for every name and returns the address of the first symbol of that name among those
  known before and then the module's own, relocated by its base, and \<open>NULL\<close> for any other name. The lists and
  the heap stay well-formed, and no byte of a live block outside the table, nor one below the heap, changes.
\<close>

theorem module_symbols_resolve:
  assumes "mods_ok (h, w) bs ns ms" "table_ready h bs base symtab ts" "node_room h bs (length ts)"
    and "unat sz div 8 = length ts" "symbols (around h bs symtab (length ts)) (ram h) (links w) ns xs"
  shows "\<exists>st' bs' ns' node. mod_symtab_add base symtab sz (h, w) = Some (Inr st') \<and> mods_ok st' bs' (ns @ ns') (ms @ [node])
    \<and> (\<forall>a. around h bs symtab (length ts) a \<longrightarrow> ram (fst st') a = ram h a)
    \<and> (\<forall>p t. cstr (ram (fst st')) p t \<longrightarrow> mod_sym_get p st' = Some
        (case map_of (xs @ map (\<lambda>i. (ts ! i, base + sym_fn (ram h) (entry symtab i))) [1..<length ts]) t of
           None \<Rightarrow> 0 | Some f \<Rightarrow> f))"
proof -
  have j: "0 < length ts" using assms(2) by (simp add: table_ready_def)
  have e0: "entry symtab 0 = symtab" by (simp add: entry_def)
  have inv: "table_upto h bs symtab ts 0 (h, w) bs ns xs ms"
    using assms by (simp add: table_upto_def around_def [abs_def] safe_def [abs_def])
  obtain st1 node bs1 where a: "append_symbol (if False then exports else modules) (entry symtab 0)
       (set_symbol (entry symtab 0) (base + sym_name (ram h) (entry symtab 0)) base (h, w)) = Some (Inr st1)"
    "table_upto h bs symtab ts (Suc 0) st1 bs1 (if False then ns @ [node] else ns) (if False then xs @ [(ts ! 0, base)] else xs)
       (if False then ms else ms @ [node])"
    by (rule table_round [OF assms(2) j inv, where b = False and fn = base]) blast
  obtain st' bs' ns' where r: "run_each (\<lambda>s st. let m = ram (fst st) in
        append_symbol exports s (set_symbol s (sym_name m s + base) (sym_fn m s + base) st)) (map (entry symtab) [Suc 0..<length ts]) st1
      = Some (Inr st')"
    "table_upto h bs symtab ts (length ts) st' bs' (ns @ ns')
       (xs @ map (\<lambda>i. (ts ! i, base + sym_fn (ram h) (entry symtab i))) [Suc 0..<length ts]) (ms @ [node])"
    using table_rest [OF assms(2), of "Suc 0" "length ts - Suc 0" st1 bs1 ns xs "ms @ [node]"] a(2) j by auto
  have tl: "tl (table symtab sz) = map (entry symtab) [Suc 0..<length ts]"
    using j by (simp add: table_def assms(4) entry_def [abs_def] map_tl [symmetric] tl_upt)
  have "mod_symtab_add base symtab sz (h, w) = Some (Inr st')"
    using a(1) r(1) e0 unfolding mod_symtab_add_def tl by (simp add: Let_def add.commute)
  moreover have "mods_ok st' bs' (ns @ ns') (ms @ [node])" using r(2) by (simp add: table_upto_def)
  moreover from this have "mod_sym_get p st' = Some
        (case map_of (xs @ map (\<lambda>i. (ts ! i, base + sym_fn (ram h) (entry symtab i))) [1..<length ts]) t of
           None \<Rightarrow> 0 | Some f \<Rightarrow> f)" if "cstr (ram (fst st')) p t" for p t
    using symbols_get [OF _ _ that] r(2) unfolding table_upto_def One_nat_def by blast
  moreover have "\<forall>a. around h bs symtab (length ts) a \<longrightarrow> ram (fst st') a = ram h a" using r(2) by (simp add: table_upto_def)
  ultimately show ?thesis by blast
qed

definition module_mem :: mem where
  "module_mem = (\<lambda>_. 0)(0x110 := 109, 0x114 := 102)"

definition module_bytes :: "u8 list" where
  "module_bytes = [0x10, 0, 0, 0, 0, 0, 0, 0, 0x14, 0, 0, 0, 0x30, 0, 0, 0]"

definition module0 :: "unit modm" where
  "module0 = (heap1 module_mem module_bytes,
     \<lparr>links = (\<lambda>_. \<lparr>nxt = 0, prev = 0, node_value = 0\<rparr>), exports = 0x200, modules = 0x220, outside = ()\<rparr>)"

lemma module_symbols_resolve_witness:
  "\<exists>st'. mod_symtab_add 0x100 0x1030 16 module0 = Some (Inr st') \<and> mod_sym_get 0x114 st' = Some 0x130"
proof -
  let ?h = "heap1 module_mem module_bytes" and ?bs = "[root0, new_block 0x1018 128]"
  let ?w = "\<lparr>links = (\<lambda>_. \<lparr>nxt = 0, prev = 0, node_value = 0\<rparr>), exports = 0x200, modules = 0x220, outside = ()\<rparr>"
  have heap: "heap ?h ?bs" by (rule heap1_ok) (simp_all add: module_bytes_def load32_def module_mem_def)
  have below: "ram ?h a = module_mem a" if "unat a < 0x1000" for a
    using that by (intro heap1_below) (simp_all add: module_bytes_def)
  have byte: "ram ?h a = module_bytes ! unat (a - 0x1030)" if "in_block a 0x1030 16" for a
  proof -
    have "length module_bytes = 16" by (simp add: module_bytes_def)
    then show ?thesis using that by (simp add: heap1_def Let_def write_bytes_def)
  qed
  have fields: "sym_name (ram ?h) (entry 0x1030 0) = 0x10" "sym_name (ram ?h) (entry 0x1030 1) = 0x14" "sym_fn (ram ?h) (entry 0x1030 1) = 0x30"
    by (simp_all add: sym_name_def sym_fn_def entry_def load32_def byte in_block_def, simp_all add: module_bytes_def)
  have ok: "mods_ok (?h, ?w) ?bs [] []" using heap by (simp add: mods_ok_def list_rep_def)
  have pay: "payload (new_block 0x1018 128) a" if "in_block a 0x1030 16" for a
    using in_block_mono [OF that, of 128] by (simp add: payload_def new_block_def)
  have ar: "around ?h ?bs 0x1030 2 a" if "unat a < 0x1000" for a
    using that by (simp add: around_def safe_def in_block_def unat_diff_u32)
  have small: "unat a < 0x1000" if "in_block a p (Suc (Suc 0))" "p \<in> {0x110, 0x114}" for a p
    using that in_block_Suc [of 1 a p] by auto
  have names: "cstr (ram ?h) 0x110 (lit ''m'')" "cstr (ram ?h) 0x114 (lit ''f'')"
    by (simp_all add: lit_def below, simp_all add: module_mem_def)
  have "\<exists>c \<in> set ?bs. \<not> bfree c \<and> (\<forall>a. in_block a 0x1030 16 \<longrightarrow> payload c a)"
    using pay by (auto simp: new_block_def)
  moreover have "(\<forall>a. in_block a 0x110 (Suc (Suc 0)) \<longrightarrow> around ?h ?bs 0x1030 2 a)"
    "(\<forall>a. in_block a 0x114 (Suc (Suc 0)) \<longrightarrow> around ?h ?bs 0x1030 2 a)"
    using small ar by blast+
  ultimately have tab: "table_ready ?h ?bs 0x100 0x1030 [lit ''m'', lit ''f'']"
    using names fields by (simp add: table_ready_def All_less_Suc lit_def numeral_2_eq_2)
  have room: "node_room ?h ?bs 2" by (simp add: node_room_def end_of_def new_block_def)
  have sy: "symbols (around ?h ?bs 0x1030 2) (ram ?h) (links ?w) [] []" by (simp add: symbols_def)
  have L: "length [lit ''m'', lit ''f''] = 2" by simp
  have xs: "[] @ map (\<lambda>i. ([lit ''m'', lit ''f''] ! i, 0x100 + sym_fn (ram ?h) (entry 0x1030 i))) [1..<2] = [(lit ''f'', 0x130)]"
    using fields by (simp add: upt_rec)
  obtain st' where st': "mod_symtab_add 0x100 0x1030 16 (?h, ?w) = Some (Inr st')"
    "\<And>a. around ?h ?bs 0x1030 2 a \<Longrightarrow> ram (fst st') a = ram ?h a"
    "\<And>p t. cstr (ram (fst st')) p t \<Longrightarrow> mod_sym_get p st' = Some (case map_of [(lit ''f'', 0x130)] t of None \<Rightarrow> 0 | Some f \<Rightarrow> f)"
    using module_symbols_resolve [OF ok tab, unfolded L, OF room _ sy, where sz = 16, unfolded xs] by auto
  have "cstr (ram (fst st')) 0x114 (lit ''f'')"
    using names(2) st'(2) ar by (simp add: lit_def)
  from st'(3) [OF this] st'(1) show ?thesis by (auto simp: module0_def)
qed

end
