(* ===== verification/Syscall.thy ===== *)
theory Syscall
  imports Interrupts Mod
begin

text \<open>
  System calls (\<open>kern/sys/syscall.c\<close>, \<open>kern/syscalls.c\<close>): the table of calls, its static and dynamic
  numbers, and the handler of interrupt 128. A call is a name for its function; the calls of the
  kernel are defined here, any other is a parameter. The pointer to the arguments that a call gets
  points to five words, here a list.
\<close>

section \<open>The code\<close>

definition SYSCALL_NR_MAX :: int where "SYSCALL_NR_MAX = 128"
definition SYSCALL_NR_RESERVED :: int where "SYSCALL_NR_RESERVED = 32"

datatype syscall_fn = Syscall_puts | Syscall_sysgetdynamic | Syscall_getmodsym | Syscall_at u32

record syscall_entry =
  sc_name :: u32
  sc_fn :: "syscall_fn option"

record ('h, 'i) sys = "('h, 'i) cpu" +
  syscall_table :: "syscall_entry list"
  syscall_max :: int
  smods :: "unit mods"

type_synonym ('h, 'i, 'z) sys_call = "u32 list \<Rightarrow> ('h, 'i, 'z) sys_scheme \<Rightarrow> (int \<times> ('h, 'i, 'z) sys_scheme) outcome option"

text \<open>The test \<open>syscall_nr >= 0\<close> is on an unsigned number.\<close>

definition syscall_handle :: "(syscall_fn \<Rightarrow> ('h, 'i, 'z) sys_call) \<Rightarrow>
    intr_frame \<Rightarrow> ('h, 'i, 'z) sys_scheme \<Rightarrow> (intr_frame \<times> ('h, 'i, 'z) sys_scheme) outcome option" where
  "syscall_handle call frame st =
     (let syscall_nr = unat (fr_eax frame) in
      if int syscall_nr < SYSCALL_NR_MAX
      then (case sc_fn (syscall_table st ! syscall_nr) of
          Some fn \<Rightarrow> run_bind (call fn [fr_ecx frame, fr_edx frame, fr_ebx frame, fr_esi frame, fr_edi frame] st)
            (\<lambda>(r, st). Some (Inr (frame\<lparr>fr_eax := of_int r\<rparr>, st)))
        | None \<Rightarrow> Some (bind_outcome (debug_printf (\<lambda>_. []) 4 (lit ''syscall_handle'') (lit ''spurious syscall %d'') [fr_eax frame] (cio st))
            (\<lambda>io. Inr (frame, st\<lparr>cio := io\<rparr>))))
      else Some (Inr (frame, st)))"

definition set_entry :: "int \<Rightarrow> u32 \<Rightarrow> syscall_fn option \<Rightarrow> ('h, 'i, 'z) sys_scheme \<Rightarrow> ('h, 'i, 'z) sys_scheme" where
  "set_entry i name fn st = st\<lparr>syscall_table := (syscall_table st)[nat i := \<lparr>sc_name = name, sc_fn = fn\<rparr>]\<rparr>"

text \<open>The result with the number that \<open>*nr\<close> gets.\<close>

definition register_syscall :: "u32 \<Rightarrow> syscall_fn \<Rightarrow> ('h, 'i, 'z) sys_scheme \<Rightarrow> (int \<times> int option) \<times> ('h, 'i, 'z) sys_scheme" where
  "register_syscall name func st =
     (if syscall_max st + 1 < SYSCALL_NR_MAX
      then ((1, Some (syscall_max st)), (set_entry (syscall_max st) name (Some func) st)\<lparr>syscall_max := syscall_max st + 1\<rparr>)
      else ((0, None), st))"

definition register_syscall_static :: "u32 \<Rightarrow> syscall_fn \<Rightarrow> int \<Rightarrow> ('h, 'i, 'z) sys_scheme \<Rightarrow> int \<times> ('h, 'i, 'z) sys_scheme" where
  "register_syscall_static name func nr st =
     (if 0 \<le> nr \<and> nr < SYSCALL_NR_RESERVED then (1, set_entry nr name (Some func) st) else (0, st))"

fun syscall_named :: "mem \<Rightarrow> syscall_entry list \<Rightarrow> u32 \<Rightarrow> int list \<Rightarrow> int option" where
  "syscall_named m tab name [] = Some (- 1)"
| "syscall_named m tab name (i # is) =
     (let e = tab ! nat i in
      if sc_fn e \<noteq> None \<and> sc_name e \<noteq> 0
      then Option.bind (strcmp m (sc_name e) name) (\<lambda>r. if r = 0 then Some i else syscall_named m tab name is)
      else syscall_named m tab name is)"

definition get_syscall_dynamic :: "u32 \<Rightarrow> ('h, 'i, 'z) sys_scheme \<Rightarrow> int option" where
  "get_syscall_dynamic name st = syscall_named (cmem st) (syscall_table st) name [0..syscall_max st - 1]"

definition syscall_init :: "('h, 'i, 'z) sys_scheme \<Rightarrow> ('h, 'i, 'z) sys_scheme" where
  "syscall_init st =
     register_ll_handler 128 (Some Syscall_handle) (fold (\<lambda>i. set_entry i 0 None) [0..SYSCALL_NR_RESERVED - 1] st)"

section \<open>The calls of the kernel\<close>

definition syscall_puts :: "('h, 'i, 'z) sys_call" where
  "syscall_puts args st =
     (if args ! 0 = 0 then Some (Inl (AssertFailed ''Null call to puts''))
      else map_option (\<lambda>io. Inr (0, st\<lparr>cio := io\<rparr>)) (puts (cmem st) (args ! 0) (cio st)))"

definition syscall_sysgetdynamic :: "('h, 'i, 'z) sys_call" where
  "syscall_sysgetdynamic args st = map_option (\<lambda>r. Inr (r, st)) (get_syscall_dynamic (args ! 0) st)"

definition syscall_getmodsym :: "('h, 'i, 'z) sys_call" where
  "syscall_getmodsym args st =
     map_option (\<lambda>p. Inr (sint p, st)) (mod_sym_get_from (cmem st) (links (smods st)) (args ! 0) (exports (smods st)))"

text \<open>\<open>lits\<close> gives the addresses of the string literals.\<close>

definition syscalls_init :: "(string \<Rightarrow> u32) \<Rightarrow> ('h, 'i, 'z) sys_scheme \<Rightarrow> ('h, 'i, 'z) sys_scheme" where
  "syscalls_init lits st =
     (let st = snd (register_syscall_static (lits ''sysgetdynamic'') Syscall_sysgetdynamic 0 st);
          st = snd (register_syscall (lits ''puts'') Syscall_puts st)
      in snd (register_syscall (lits ''getmodsym'') Syscall_getmodsym st))"

definition run_syscall :: "(syscall_fn \<Rightarrow> ('h, 'i, 'z) sys_call) \<Rightarrow> syscall_fn \<Rightarrow> ('h, 'i, 'z) sys_call" where
  "run_syscall call fn = (case fn of Syscall_puts \<Rightarrow> syscall_puts | Syscall_sysgetdynamic \<Rightarrow> syscall_sysgetdynamic
     | Syscall_getmodsym \<Rightarrow> syscall_getmodsym | Syscall_at a \<Rightarrow> call fn)"

text \<open>The low-level handlers with that of the system calls.\<close>

definition system_ll :: "(u32 \<Rightarrow> u32) \<Rightarrow> u32 \<Rightarrow> (syscall_fn \<Rightarrow> ('h, 'i, 'z) sys_call)
    \<Rightarrow> (ll_intr_handler \<Rightarrow> intr_frame \<Rightarrow> ('h, 'i, 'z) sys_scheme \<Rightarrow> (intr_frame \<times> ('h, 'i, 'z) sys_scheme) outcome option)
    \<Rightarrow> ll_intr_handler \<Rightarrow> intr_frame \<Rightarrow> ('h, 'i, 'z) sys_scheme \<Rightarrow> (intr_frame \<times> ('h, 'i, 'z) sys_scheme) outcome option" where
  "system_ll stray ebp call other = run_ll_handler stray ebp
     (\<lambda>h. if h = Syscall_handle then syscall_handle (run_syscall call) else other h)"

section \<open>The way into a call\<close>

definition calls_ready :: "('h, 'i, 'z) sys_scheme \<Rightarrow> bool" where
  "calls_ready st \<longleftrightarrow> tables_ok st \<and> bound_handlers st ! 128 = None \<and> ll_bound_handlers st ! 128 = Some Syscall_handle
     \<and> length (syscall_table st) = 128"

lemma set_entry_fields [simp]:
  "tables_ok (set_entry i n f st) = tables_ok st" "bound_handlers (set_entry i n f st) = bound_handlers st"
  "ll_bound_handlers (set_entry i n f st) = ll_bound_handlers st" "cmem (set_entry i n f st) = cmem st"
  "cio (set_entry i n f st) = cio st" "syscall_max (set_entry i n f st) = syscall_max st" "smods (set_entry i n f st) = smods st"
  "length (syscall_table (set_entry i n f st)) = length (syscall_table st)"
  "syscall_table (set_entry i n f st) = (syscall_table st)[nat i := \<lparr>sc_name = n, sc_fn = f\<rparr>]"
  "tables_ok (st\<lparr>syscall_max := k\<rparr>) = tables_ok st"
  by (simp_all add: set_entry_def tables_ok_def)

lemma run_bind_returns: "run_bind r f = Some (Inr y) \<longleftrightarrow> (\<exists>x. r = Some (Inr x) \<and> f x = Some (Inr y))"
proof (cases r)
  case (Some x)
  then show ?thesis by (cases x) simp_all
qed simp

lemma interrupt_128:
  assumes "calls_ready st" "int_no frame = 128"
  shows "interrupts_handle_int call_intr (system_ll stray ebp call other) io frame st = syscall_handle (run_syscall call) frame st"
proof -
  let ?r = "syscall_handle (run_syscall call) frame st"
  have i: "int_no frame' = 128" if "?r = Some (Inr (frame', st'))" for frame' st'
    using that assms(2)
    by (auto simp: syscall_handle_def Let_def run_bind_returns outcome_simps split: if_splits option.splits)
  have "interrupts_handle_int call_intr (system_ll stray ebp call other) io frame st
      = run_bind ?r (\<lambda>(frame, st). Some (Inr (frame,
           if 0x20 \<le> int_no frame \<and> int_no frame < 0x30 then at_ports (interrupts_eoi io (sint (int_no frame))) st else st)))"
    using assms by (simp add: interrupts_handle_int_def calls_ready_def tables_ok_def system_ll_def run_ll_handler_def Let_def)
  also have "\<dots> = ?r"
  proof (cases ?r)
    case (Some x)
    then show ?thesis using i by (cases x) auto
  qed simp
  finally show ?thesis .
qed

lemma set_entries:
  "fold (\<lambda>i. set_entry i 0 None) is st
    = st\<lparr>syscall_table := fold (\<lambda>i t. t[nat i := \<lparr>sc_name = 0, sc_fn = None\<rparr>]) is (syscall_table st)\<rparr>"
  by (induction "is" arbitrary: st) (simp_all add: set_entry_def)

lemma cleared_entries:
  "length t = 128 \<Longrightarrow> k \<le> 128 \<Longrightarrow> n < 128 \<Longrightarrow> length (fold (\<lambda>i t. t[nat i := e]) (map int [0..<k]) t) = 128
    \<and> fold (\<lambda>i t. t[nat i := e]) (map int [0..<k]) t ! n = (if n < k then e else t ! n)"
  by (induction k) (auto simp: nth_list_update)

lemma syscall_init_ready:
  assumes "tables_ok st" "bound_handlers st ! 128 = None" "length (syscall_table st) = 128"
  shows "calls_ready (syscall_init st)" "syscall_max (syscall_init st) = syscall_max st" "cmem (syscall_init st) = cmem st"
    "cio (syscall_init st) = cio st" "smods (syscall_init st) = smods st"
    "\<And>n. n < 32 \<Longrightarrow> syscall_table (syscall_init st) ! n = \<lparr>sc_name = 0, sc_fn = None\<rparr>"
  using assms cleared_entries [OF assms(3), of 32 0 "\<lparr>sc_name = 0, sc_fn = None\<rparr>"] cleared_entries [OF assms(3), of 32 _ "\<lparr>sc_name = 0, sc_fn = None\<rparr>"]
  unfolding syscall_init_def set_entries SYSCALL_NR_RESERVED_def
  by (simp_all add: calls_ready_def tables_ok_def register_ll_handler_def INTR_COUNT_def int_upt [of 32, simplified])

section \<open>Numbers and names\<close>

lemma register_syscall_ready:
  assumes "calls_ready st" "32 \<le> syscall_max st" "syscall_max st < 127"
  shows "calls_ready (snd (register_syscall name fn st))"
  using assms by (simp add: register_syscall_def SYSCALL_NR_MAX_def calls_ready_def)

lemma syscall_named_skip:
  "(\<And>i. i \<in> set is \<Longrightarrow> sc_fn (tab ! nat i) = None) \<Longrightarrow> syscall_named m tab name (is @ js) = syscall_named m tab name js"
  by (induction "is") (simp_all add: Let_def)

lemma syscall_named_step:
  assumes "sc_fn (tab ! nat i) \<noteq> None" "sc_name (tab ! nat i) \<noteq> 0" "cstr m (sc_name (tab ! nat i)) t" "cstr m p s"
  shows "syscall_named m tab p (i # is) = (if s = t then Some i else syscall_named m tab p is)"
  using assms strcmp_cstr [OF assms(3, 4)] strdiff_0_iff [OF cstr_ok [OF assms(3)] cstr_ok [OF assms(4)]] by (auto simp: Let_def)

definition literals_at :: "(string \<Rightarrow> u32) \<Rightarrow> mem \<Rightarrow> string list \<Rightarrow> bool" where
  "literals_at lits m ts \<longleftrightarrow> (\<forall>t \<in> set ts. lits t \<noteq> 0 \<and> cstr m (lits t) (lit t))"

lemma syscalls_init_named:
  assumes "calls_ready st" "syscall_max st = 32" "\<And>n. n < 32 \<Longrightarrow> sc_fn (syscall_table st ! n) = None"
    "literals_at lits (cmem st) [''sysgetdynamic'', ''puts'', ''getmodsym'']" "cstr (cmem st) p s"
  shows "get_syscall_dynamic p (syscalls_init lits st) = Some (if s = lit ''sysgetdynamic'' then 0
     else if s = lit ''puts'' then 32 else if s = lit ''getmodsym'' then 33 else - 1)" (is ?named)
    "calls_ready (syscalls_init lits st)" "cmem (syscalls_init lits st) = cmem st" "cio (syscalls_init lits st) = cio st"
    "smods (syscalls_init lits st) = smods st"
    "sc_fn (syscall_table (syscalls_init lits st) ! 0) = Some Syscall_sysgetdynamic"
    "sc_fn (syscall_table (syscalls_init lits st) ! 32) = Some Syscall_puts"
    "sc_fn (syscall_table (syscalls_init lits st) ! 33) = Some Syscall_getmodsym"
proof -
  let ?st = "syscalls_init lits st"
  let ?tab = "(syscall_table st)[0 := \<lparr>sc_name = lits ''sysgetdynamic'', sc_fn = Some Syscall_sysgetdynamic\<rparr>,
    32 := \<lparr>sc_name = lits ''puts'', sc_fn = Some Syscall_puts\<rparr>, 33 := \<lparr>sc_name = lits ''getmodsym'', sc_fn = Some Syscall_getmodsym\<rparr>]"
  have t: "syscall_table ?st = ?tab" and m: "syscall_max ?st = 34" and len: "length (syscall_table st) = 128"
    and c: "cmem ?st = cmem st"
    using assms(1, 2) by (simp_all add: syscalls_init_def register_syscall_static_def register_syscall_def SYSCALL_NR_RESERVED_def
        SYSCALL_NR_MAX_def calls_ready_def Let_def)
  have "[0..33] = 0 # [1..31] @ [32, 33 :: int]" by (simp add: upto.simps)
  moreover have "syscall_named (cmem st) ?tab p ([1..31] @ [32, 33]) = syscall_named (cmem st) ?tab p [32, 33]"
    by (rule syscall_named_skip) (use assms(3) len in \<open>auto simp: nth_list_update\<close>)
  moreover have "syscall_named (cmem st) ?tab p (i # is) = (if s = lit t then Some i else syscall_named (cmem st) ?tab p is)"
    if "i = 0 \<and> t = ''sysgetdynamic'' \<or> i = 32 \<and> t = ''puts'' \<or> i = 33 \<and> t = ''getmodsym''" for i t "is"
    by (rule syscall_named_step) (use that assms(4, 5) len in \<open>auto simp: literals_at_def\<close>)
  ultimately show ?named
    unfolding get_syscall_dynamic_def t m c by (simp del: syscall_named.simps(2))
  show "calls_ready ?st" "cmem ?st = cmem st" "cio ?st = cio st" "smods ?st = smods st"
    using assms(1, 2) by (simp_all add: syscalls_init_def register_syscall_static_def register_syscall_def SYSCALL_NR_RESERVED_def
        SYSCALL_NR_MAX_def calls_ready_def Let_def)
  show "sc_fn (syscall_table ?st ! 0) = Some Syscall_sysgetdynamic" "sc_fn (syscall_table ?st ! 32) = Some Syscall_puts"
    "sc_fn (syscall_table ?st ! 33) = Some Syscall_getmodsym" using len by (simp_all add: t)
qed

text \<open>Dynamic numbers are given in order from 32; the last entry of the table is never used.\<close>

fun register_all :: "(u32 \<times> syscall_fn) list \<Rightarrow> ('h, 'i, 'z) sys_scheme \<Rightarrow> (int \<times> int option) list \<times> ('h, 'i, 'z) sys_scheme" where
  "register_all [] st = ([], st)"
| "register_all ((name, fn) # xs) st = (let (r, st) = register_syscall name fn st; (rs, st) = register_all xs st in (r # rs, st))"

lemma register_all_numbers:
  assumes "length (syscall_table st) = 128" "32 \<le> syscall_max st" "syscall_max st \<le> 127"
  shows "fst (register_all xs st)
      = map (\<lambda>i. if syscall_max st + int i < 127 then (1, Some (syscall_max st + int i)) else (0, None)) [0..<length xs]
    \<and> (\<forall>i < length xs. syscall_max st + int i < 127 \<longrightarrow>
        syscall_table (snd (register_all xs st)) ! nat (syscall_max st + int i) = \<lparr>sc_name = fst (xs ! i), sc_fn = Some (snd (xs ! i))\<rparr>)
    \<and> (\<forall>n. int n < syscall_max st \<longrightarrow> syscall_table (snd (register_all xs st)) ! n = syscall_table st ! n)"
  using assms
proof (induction xs arbitrary: st)
  case (Cons x xs)
  obtain name fn where x: "x = (name, fn)" by force
  have split: "[0..<length (x # xs)] = 0 # map Suc [0..<length xs]" by (simp add: map_Suc_upt upt_conv_Cons del: upt_Suc)
  show ?case
  proof (cases "syscall_max st < 127")
    case True
    then obtain st' where r: "register_syscall name fn st = ((1, Some (syscall_max st)), st')" "syscall_max st' = syscall_max st + 1"
      "length (syscall_table st') = 128" "syscall_table st' = (syscall_table st)[nat (syscall_max st) := \<lparr>sc_name = name, sc_fn = Some fn\<rparr>]"
      using Cons.prems by (simp_all add: register_syscall_def SYSCALL_NR_MAX_def)
    note ih = Cons.IH [OF r(3)]
    have n: "nat (syscall_max st + 1 + int i) = nat (syscall_max st + int (Suc i))" for i by simp
    have "syscall_table (snd (register_all (x # xs) st)) ! nat (syscall_max st + int i) = \<lparr>sc_name = fst ((x # xs) ! i), sc_fn = Some (snd ((x # xs) ! i))\<rparr>"
      if "i < length (x # xs)" "syscall_max st + int i < 127" for i
      using that ih r Cons.prems x by (cases i) (simp_all add: split_beta Let_def n)
    moreover have "syscall_table (snd (register_all (x # xs) st)) ! n = syscall_table st ! n" if "int n < syscall_max st" for n
      using that ih r Cons.prems x True by (auto simp: split_beta Let_def nth_list_update)
    moreover have "fst (register_all (x # xs) st)
        = map (\<lambda>i. if syscall_max st + int i < 127 then (1, Some (syscall_max st + int i)) else (0, None)) [0..<length (x # xs)]"
      unfolding split using ih r Cons.prems True x by (simp add: split_beta Let_def comp_def algebra_simps)
    ultimately show ?thesis by blast
  next
    case False
    then have r: "register_syscall name fn st = ((0, None), st)" by (simp add: register_syscall_def SYSCALL_NR_MAX_def)
    show ?thesis unfolding split using Cons.IH [OF Cons.prems] r False x by (simp add: split_beta Let_def comp_def)
  qed
qed simp

text \<open>An interrupt 128 with a number in \<open>eax\<close>.\<close>

definition trap :: "(intr_handler \<Rightarrow> u32 \<Rightarrow> u32 \<Rightarrow> ('h, 'i, 'z) sys_scheme \<Rightarrow> ('h, 'i, 'z) sys_scheme outcome option)
    \<Rightarrow> (ll_intr_handler \<Rightarrow> intr_frame \<Rightarrow> ('h, 'i, 'z) sys_scheme \<Rightarrow> (intr_frame \<times> ('h, 'i, 'z) sys_scheme) outcome option)
    \<Rightarrow> 'h ports \<Rightarrow> intr_frame \<Rightarrow> u32 \<Rightarrow> ('h, 'i, 'z) sys_scheme \<Rightarrow> (intr_frame \<times> ('h, 'i, 'z) sys_scheme) outcome option" where
  "trap call_intr call_ll io frame nr st = interrupts_handle_int call_intr call_ll io (frame\<lparr>int_no := 128, fr_eax := nr\<rparr>) st"

text \<open>C31: Once the interrupts and the system calls are initialised, interrupt 128 is the way into the kernel: with 0 in \<open>eax\<close> it
  finds the number of the call whose name \<open>ecx\<close> points to, with the numbers it finds it prints the string at \<open>ecx\<close> or
  looks up the exported symbol of that name, and the result comes back in \<open>eax\<close>, all other registers kept. Further
  calls are numbered from 34 on and found in the table by that number, but the last of its 128 entries is never given.\<close>

theorem syscall_services:
  fixes st :: "('h, 'i, 'z) sys_scheme"
  assumes "tables_ok st" "length (syscall_table st) = 128" "syscall_max st = 32"
    "interrupts_init io stubs st = Inr (l, st0)" "literals_at lits (cmem st) [''sysgetdynamic'', ''puts'', ''getmodsym'']"
    "cstr (cmem st) (fr_ecx frame) s" "fr_ecx frame \<noteq> 0" "kst = syscalls_init lits (syscall_init st0)" "int_no frame = 128"
  shows "trap call_intr (system_ll stray ebp call other) io frame 0 kst
      = Some (Inr (frame\<lparr>fr_eax := (if s = lit ''sysgetdynamic'' then 0 else if s = lit ''puts'' then 32
          else if s = lit ''getmodsym'' then 33 else - 1)\<rparr>, kst))
    \<and> trap call_intr (system_ll stray ebp call other) io frame 32 kst = Some (Inr (frame\<lparr>fr_eax := 0\<rparr>, kst\<lparr>cio := fold putc s (cio kst)\<rparr>))
    \<and> trap call_intr (system_ll stray ebp call other) io frame 33 kst = map_option (\<lambda>f. Inr (frame\<lparr>fr_eax := f\<rparr>, kst))
        (mod_sym_get_from (cmem st) (links (smods st)) (fr_ecx frame) (exports (smods st)))
    \<and> map snd (fst (register_all xs kst)) = map (\<lambda>i. if 34 + i < 127 then Some (34 + int i) else None) [0..<length xs]
    \<and> (\<forall>i < length xs. 34 + i < 127 \<longrightarrow> syscall_table (snd (register_all xs kst)) ! (34 + i) = \<lparr>sc_name = fst (xs ! i), sc_fn = Some (snd (xs ! i))\<rparr>)"
proof (intro conjI)
  obtain I B L where i: "interrupts_init io stubs st = Inr (2047, st\<lparr>idt := I, bound_handlers := B, ll_bound_handlers := L,
      chw := interrupts_pic_init io (disable_pic io (chw st))\<rparr>)"
    "length I = 256" "length B = 256" "length L = 256" "\<And>n. n < 256 \<Longrightarrow> B ! n = (if n = 32 then Some Do_nothing else None)"
    using interrupts_init_tables [OF assms(1), of io stubs] by metis
  have st0: "st0 = st\<lparr>idt := I, bound_handlers := B, ll_bound_handlers := L, chw := interrupts_pic_init io (disable_pic io (chw st))\<rparr>"
    using i(1) assms(4) by simp
  have 0: "tables_ok st0" "bound_handlers st0 ! 128 = None" "length (syscall_table st0) = 128"
    using i assms(2) by (simp_all add: st0 tables_ok_def)
  note init = syscall_init_ready [OF 0]
  have "syscall_max (syscall_init st0) = 32" "cmem (syscall_init st0) = cmem st" "smods (syscall_init st0) = smods st"
    using init assms(3) by (simp_all add: st0)
  then have named: "get_syscall_dynamic (fr_ecx frame) kst = Some (if s = lit ''sysgetdynamic'' then 0
     else if s = lit ''puts'' then 32 else if s = lit ''getmodsym'' then 33 else - 1)"
    "calls_ready kst" "cmem kst = cmem st" "smods kst = smods st"
    "sc_fn (syscall_table kst ! 0) = Some Syscall_sysgetdynamic" "sc_fn (syscall_table kst ! 32) = Some Syscall_puts"
    "sc_fn (syscall_table kst ! 33) = Some Syscall_getmodsym" "syscall_max kst = 34"
    using syscalls_init_named [OF init(1), of lits "fr_ecx frame" s] init(6) assms(5, 6) unfolding assms(8)
    by (simp_all add: syscalls_init_def register_syscall_static_def register_syscall_def SYSCALL_NR_MAX_def SYSCALL_NR_RESERVED_def Let_def)
  have "frame\<lparr>int_no := 128\<rparr> = frame" using assms(9) by (cases frame) simp
  then have f: "frame\<lparr>int_no := 128, fr_eax := n\<rparr> = frame\<lparr>fr_eax := n\<rparr>" for n by simp
  have step: "trap call_intr (system_ll stray ebp call other) io frame n kst = syscall_handle (run_syscall call) (frame\<lparr>fr_eax := n\<rparr>) kst" for n
    unfolding trap_def f by (rule interrupt_128 [OF named(2)]) (simp add: assms(9))
  show "trap call_intr (system_ll stray ebp call other) io frame 0 kst = Some (Inr (frame\<lparr>fr_eax := (if s = lit ''sysgetdynamic'' then 0 else if s = lit ''puts'' then 32
        else if s = lit ''getmodsym'' then 33 else - 1)\<rparr>, kst))"
    unfolding step by (simp add: syscall_handle_def SYSCALL_NR_MAX_def named run_syscall_def syscall_sysgetdynamic_def)
  show "trap call_intr (system_ll stray ebp call other) io frame 32 kst = Some (Inr (frame\<lparr>fr_eax := 0\<rparr>, kst\<lparr>cio := fold putc s (cio kst)\<rparr>))"
    unfolding step using puts_cstr [OF assms(6), of "cio kst"] assms(7)
    by (simp add: syscall_handle_def SYSCALL_NR_MAX_def named run_syscall_def syscall_puts_def)
  show "trap call_intr (system_ll stray ebp call other) io frame 33 kst = map_option (\<lambda>f. Inr (frame\<lparr>fr_eax := f\<rparr>, kst))
        (mod_sym_get_from (cmem st) (links (smods st)) (fr_ecx frame) (exports (smods st)))"
    unfolding step
    by (cases "mod_sym_get_from (cmem st) (links (smods st)) (fr_ecx frame) (exports (smods st))")
      (simp_all add: syscall_handle_def SYSCALL_NR_MAX_def named run_syscall_def syscall_getmodsym_def)
  have len: "length (syscall_table kst) = 128" using named(2) by (simp add: calls_ready_def)
  note numbers = register_all_numbers [OF len, of xs, unfolded named(8), simplified]
  show "map snd (fst (register_all xs kst)) = map (\<lambda>i. if 34 + i < 127 then Some (34 + int i) else None) [0..<length xs]"
    using numbers by (simp add: comp_def)
  show "\<forall>i < length xs. 34 + i < 127 \<longrightarrow> syscall_table (snd (register_all xs kst)) ! (34 + i) = \<lparr>sc_name = fst (xs ! i), sc_fn = Some (snd (xs ! i))\<rparr>"
    using numbers by (auto simp: nat_add_distrib)
qed

definition sys_text :: "u8 list" where
  "sys_text = lit ''sysgetdynamic'' @ [0] @ lit ''puts'' @ [0] @ lit ''getmodsym'' @ [0]"

definition sys_lits :: "string \<Rightarrow> u32" where
  "sys_lits t = (if t = ''sysgetdynamic'' then 0x100 else if t = ''puts'' then 0x10e else 0x113)"

definition sys0 :: "((u16 \<times> u32) list, unit) sys" where
  "sys0 = cpu.extend (cpu0\<lparr>cmem := write_bytes (\<lambda>_. 0) 0x100 sys_text, cio := (cio cpu0)\<lparr>stdout_text := Some []\<rparr>\<rparr>)
     \<lparr>syscall_table = replicate 128 \<lparr>sc_name = 0, sc_fn = None\<rparr>, syscall_max = 32,
      smods = \<lparr>links = (\<lambda>_. \<lparr>nxt = 0, prev = 0, node_value = 0\<rparr>), exports = 0x200, modules = 0x220, outside = ()\<rparr>\<rparr>"

lemma sys0_ready: "tables_ok sys0" "length (syscall_table sys0) = 128" "syscall_max sys0 = 32"
  by (simp_all add: sys0_def cpu.defs cpu0_def tables_ok_def)

lemma sys0_text: "sys_text ! i = cmem sys0 (0x100 + of_nat i)" if "i < 29"
  using that by (simp add: sys0_def cpu.defs sys_text_def lit_def write_bytes_nth)

lemma sys0_strings: "cstr (cmem sys0) (0x100 + of_nat i) s" if "i + length s < 29" "take (length s + 1) (drop i sys_text) = s @ [0]" "0 \<notin> set s"
proof -
  have "cmem sys0 (0x100 + of_nat (i + j)) = (s @ [0]) ! j" if "j < length s + 1" for j
  proof -
    have "(s @ [0]) ! j = sys_text ! (i + j)"
      using that \<open>i + length s < 29\<close> by (simp flip: \<open>take (length s + 1) (drop i sys_text) = s @ [0]\<close> add: sys_text_def lit_def)
    then show ?thesis using that \<open>i + length s < 29\<close> sys0_text [of "i + j"] by simp
  qed
  from this [of "length s"] this [of j for j] show ?thesis using \<open>0 \<notin> set s\<close>
    by (auto simp: cstr_iff nth_append add.assoc cstring_ok_def)
qed

text \<open>The call to find a call finds \<open>puts\<close>, and that call prints its name.\<close>

theorem syscall_services_witness:
  "\<exists>st0 kst. interrupts_init (trace_ports (\<lambda>_. 0)) of_int sys0 = Inr (2047, st0) \<and> kst = syscalls_init sys_lits (syscall_init st0)
    \<and> trap (\<lambda>h n e st. None) (system_ll id 0 (\<lambda>f a st. None) (\<lambda>h f st. None)) (trace_ports (\<lambda>_. 0))
        (frame0\<lparr>int_no := 128, fr_ecx := 0x10e\<rparr>) 0 kst = Some (Inr (frame0\<lparr>int_no := 128, fr_ecx := 0x10e, fr_eax := 32\<rparr>, kst))
    \<and> trap (\<lambda>h n e st. None) (system_ll id 0 (\<lambda>f a st. None) (\<lambda>h f st. None)) (trace_ports (\<lambda>_. 0))
        (frame0\<lparr>int_no := 128, fr_ecx := 0x10e\<rparr>) 32 kst
      = Some (Inr (frame0\<lparr>int_no := 128, fr_ecx := 0x10e, fr_eax := 0\<rparr>, kst\<lparr>cio := fold putc (lit ''puts'') (cio kst)\<rparr>))
    \<and> map snd (fst (register_all [(7, Syscall_at 9)] kst)) = [Some 34]"
proof -
  have l: "cstr (cmem sys0) 0x100 (lit ''sysgetdynamic'')" "cstr (cmem sys0) 0x10e (lit ''puts'')" "cstr (cmem sys0) 0x113 (lit ''getmodsym'')"
    using sys0_strings [of 0 "lit ''sysgetdynamic''"] sys0_strings [of 14 "lit ''puts''"] sys0_strings [of 19 "lit ''getmodsym''"]
    by (simp_all add: sys_text_def lit_def)
  obtain st0 where st0: "interrupts_init (trace_ports (\<lambda>_. 0)) of_int sys0 = Inr (2047, st0)"
    using interrupts_init_tables [OF sys0_ready(1), of "trace_ports (\<lambda>_. 0)" of_int] by metis
  have lits: "literals_at sys_lits (cmem sys0) [''sysgetdynamic'', ''puts'', ''getmodsym'']"
    using l by (simp add: literals_at_def sys_lits_def)
  let ?f = "frame0\<lparr>int_no := 128, fr_ecx := 0x10e\<rparr>"
  have "cstr (cmem sys0) (fr_ecx ?f) (lit ''puts'')" "fr_ecx ?f \<noteq> 0" using l by simp_all
  from syscall_services [OF sys0_ready st0 lits this refl, where call_intr = "\<lambda>h n e st. None" and stray = id and ebp = 0
      and call = "\<lambda>f a st. None" and other = "\<lambda>h f st. None" and xs = "[(7, Syscall_at 9)]"]
  show ?thesis using st0 by (intro exI [of _ st0] exI [of _ "syscalls_init sys_lits (syscall_init st0)"]) (simp add: lit_def)
qed

end
