(* ===== verification/Kv_Store.thy ===== *)
theory Kv_Store
  imports Micro_Prelude
begin

text \<open>
  The contract shared by the kernel's key-value stores: the hash table of \<open>kern/htbl.c\<close> and
  the environment of \<open>kern/env.c\<close>. A put may be refused (\<open>admits\<close> says when it is not);
  afterwards the key reads as the value put last and every other key as before. What a client
  that puts a list of bindings then reads follows from the contract.
\<close>

locale kv_store =
  fixes lookup :: "'s \<Rightarrow> 'k \<Rightarrow> 'v option"
    and update :: "'s \<Rightarrow> 'k \<Rightarrow> 'v \<Rightarrow> 's option"
    and ok :: "'s \<Rightarrow> bool"
    and admits :: "'s \<Rightarrow> 'k \<Rightarrow> bool"
  assumes update_ok: "ok s \<Longrightarrow> admits s k \<Longrightarrow> \<exists>s'. update s k v = Some s' \<and> ok s'"
    and lookup_update: "ok s \<Longrightarrow> admits s k \<Longrightarrow> update s k v = Some s' \<Longrightarrow>
      lookup s' j = (if j = k then Some v else lookup s j)"
begin

primrec update_all :: "'s \<Rightarrow> ('k \<times> 'v) list \<Rightarrow> 's option" where
  "update_all s [] = Some s"
| "update_all s (b # bs) = Option.bind (update s (fst b) (snd b)) (\<lambda>s. update_all s bs)"

text \<open>Every state on the way admits the next key.\<close>

primrec admits_all :: "'s \<Rightarrow> ('k \<times> 'v) list \<Rightarrow> bool" where
  "admits_all s [] \<longleftrightarrow> True"
| "admits_all s (b # bs) \<longleftrightarrow> admits s (fst b)
     \<and> (\<forall>s'. update s (fst b) (snd b) = Some s' \<longrightarrow> admits_all s' bs)"

text \<open>The last binding of a key wins, and keys that are not bound keep their value.\<close>

lemma update_all_lookup:
  "ok s \<Longrightarrow> admits_all s bs \<Longrightarrow> \<exists>s'. update_all s bs = Some s' \<and> ok s'
     \<and> (\<forall>k. lookup s' k = (case map_of (rev bs) k of Some v \<Rightarrow> Some v | None \<Rightarrow> lookup s k))"
proof (induction bs arbitrary: s)
  case (Cons b bs)
  obtain s1 where s1: "update s (fst b) (snd b) = Some s1" "ok s1"
    using update_ok [OF Cons.prems(1), of "fst b" "snd b"] Cons.prems(2) by auto
  then obtain s' where s': "update_all s1 bs = Some s'" "ok s'"
    "\<forall>k. lookup s' k = (case map_of (rev bs) k of Some v \<Rightarrow> Some v | None \<Rightarrow> lookup s1 k)"
    using Cons.IH [OF s1(2)] Cons.prems(2) by auto
  have "lookup s1 k = (if k = fst b then Some (snd b) else lookup s k)" for k
    using lookup_update [OF Cons.prems(1) _ s1(1)] Cons.prems(2) by simp
  then show ?case using s1 s' by (auto simp: map_add_def split: option.splits)
qed simp

end

end
