(* ===== verification/Htbl.thy ===== *)
theory Htbl
  imports Kv_Store
begin

text \<open>
  The hash table (\<open>kern/htbl.c\<close>, \<open>kern/htbl.h\<close>): open addressing with linear probing over a
  power-of-two array of entries, FNV-1a hashing, and doubling when the table is half full. Keys
  are C string values (the table owns copies made by \<open>strdup\<close>), an entry without a key is
  \<open>None\<close>; a stored value is a (non-null) pointer of type \<open>'v\<close>. The probe loop ends only if the
  table has a free entry, and \<open>htbl_put\<close> and \<open>htbl_expand\<close> call each other, so both are
  \<open>partial_function (option)\<close>. Memory allocation is taken to succeed: \<open>kalloc\<close> does not return
  when memory is exhausted.
\<close>

unbundle bit_operations_syntax

section \<open>The code\<close>

record 'v htbl =
  entries :: "(cstring \<times> 'v) option list"
  capacity :: u32
  tbl_length :: u32

definition HTBL_INITIAL_CAPACITY :: u32 where "HTBL_INITIAL_CAPACITY = 32"

text \<open>\<open>kallocz(n * sizeof(struct htbl_entry))\<close>: the product is a 32-bit product.\<close>

definition alloc_entries :: "u32 \<Rightarrow> (cstring \<times> 'v) option list" where
  "alloc_entries n = replicate (unat (n * 8) div 8) None"

definition htbl_create :: "'v htbl" where
  "htbl_create = \<lparr>entries = alloc_entries HTBL_INITIAL_CAPACITY,
     capacity = HTBL_INITIAL_CAPACITY, tbl_length = 0\<rparr>"

text \<open>What \<open>htbl_destroy\<close> frees, in order: the keys, the entries, the table.\<close>

datatype freed = FreedKey cstring | FreedEntries | FreedTable

definition htbl_destroy :: "'v htbl \<Rightarrow> freed list" where
  "htbl_destroy table = concat (map (\<lambda>e. case e of None \<Rightarrow> [] | Some (k, _) \<Rightarrow> [FreedKey k]) (entries table))
     @ [FreedEntries, FreedTable]"

definition FNV_OFFSET_32 :: u32 where "FNV_OFFSET_32 = 2166136261"
definition FNV_PRIME_32 :: u32 where "FNV_PRIME_32 = 16777619"

definition fnv1a32_hash :: "cstring \<Rightarrow> u32" where
  "fnv1a32_hash key = fold (\<lambda>c hash. (hash XOR ucast c) * FNV_PRIME_32) key FNV_OFFSET_32"

text \<open>
  The loop shared by \<open>htbl_get\<close> and \<open>htbl_put\<close>: the index it stops at, where the entry is
  free or holds the key.
\<close>

partial_function (option) htbl_probe ::
  "(cstring \<times> 'v) option list \<Rightarrow> u32 \<Rightarrow> cstring \<Rightarrow> u32 \<Rightarrow> u32 outcome option" where
  "htbl_probe es cap key index =
     (if length es \<le> unat index then Some (Inl WildAccess)
      else case es ! unat index of
        None \<Rightarrow> Some (Inr index)
      | Some (k, v) \<Rightarrow>
          if k = key then Some (Inr index)
          else htbl_probe es cap key (if cap \<le> index + 1 then 0 else index + 1))"

definition htbl_index :: "u32 \<Rightarrow> cstring \<Rightarrow> u32" where
  "htbl_index cap key = fnv1a32_hash key AND (cap - 1)"

definition htbl_get :: "'v htbl \<Rightarrow> cstring \<Rightarrow> 'v option outcome option" where
  "htbl_get table key =
     run_bind (htbl_probe (entries table) (capacity table) key (htbl_index (capacity table) key))
       (\<lambda>index. Some (Inr (map_option snd (entries table ! unat index))))"

text \<open>
  \<open>htbl_put\<close> with \<open>htbl_expand\<close> in place: the loop over the old entries puts each into a
  temporary table of twice the capacity.
\<close>

partial_function (option) htbl_put :: "'v htbl \<Rightarrow> cstring \<Rightarrow> 'v \<Rightarrow> 'v htbl outcome option" where
  "htbl_put table key value =
     run_bind
       (if capacity table div 2 \<le> tbl_length table
        then let extended_capacity = capacity table * 2;
                 temp_tbl = \<lparr>entries = alloc_entries extended_capacity,
                   capacity = extended_capacity, tbl_length = 0\<rparr>
             in run_bind
               (run_each (\<lambda>i temp_tbl.
                  if length (entries table) \<le> i then Some (Inl WildAccess)
                  else case entries table ! i of
                    None \<Rightarrow> Some (Inr temp_tbl)
                  | Some e \<Rightarrow> htbl_put temp_tbl (fst e) (snd e))
                [0..<unat (capacity table)] temp_tbl)
               (\<lambda>temp_tbl. Some (Inr (table\<lparr>entries := entries temp_tbl, capacity := extended_capacity\<rparr>)))
        else Some (Inr table))
     (\<lambda>table. run_bind (htbl_probe (entries table) (capacity table) key (htbl_index (capacity table) key))
       (\<lambda>index. case entries table ! unat index of
          Some e \<Rightarrow> Some (Inr (table\<lparr>entries := (entries table)[unat index := Some (fst e, value)]\<rparr>))
        | None \<Rightarrow> Some (Inr (table\<lparr>entries := (entries table)[unat index := Some (key, value)],
            tbl_length := tbl_length table + 1\<rparr>))))"

text \<open>The same two functions with the recursion named.\<close>

definition htbl_expand :: "'v htbl \<Rightarrow> 'v htbl outcome option" where
  "htbl_expand table =
     (let extended_capacity = capacity table * 2;
          temp_tbl = \<lparr>entries = alloc_entries extended_capacity,
            capacity = extended_capacity, tbl_length = 0\<rparr>
      in run_bind
        (run_each (\<lambda>i temp_tbl.
           if length (entries table) \<le> i then Some (Inl WildAccess)
           else case entries table ! i of
             None \<Rightarrow> Some (Inr temp_tbl)
           | Some e \<Rightarrow> htbl_put temp_tbl (fst e) (snd e))
         [0..<unat (capacity table)] temp_tbl)
        (\<lambda>temp_tbl. Some (Inr (table\<lparr>entries := entries temp_tbl, capacity := extended_capacity\<rparr>))))"

definition htbl_store :: "'v htbl \<Rightarrow> cstring \<Rightarrow> 'v \<Rightarrow> 'v htbl outcome option" where
  "htbl_store table key value =
     run_bind (htbl_probe (entries table) (capacity table) key (htbl_index (capacity table) key))
       (\<lambda>index. case entries table ! unat index of
          Some e \<Rightarrow> Some (Inr (table\<lparr>entries := (entries table)[unat index := Some (fst e, value)]\<rparr>))
        | None \<Rightarrow> Some (Inr (table\<lparr>entries := (entries table)[unat index := Some (key, value)],
            tbl_length := tbl_length table + 1\<rparr>)))"

lemma htbl_put_unfold:
  "htbl_put table key value =
     run_bind (if capacity table div 2 \<le> tbl_length table then htbl_expand table else Some (Inr table))
       (\<lambda>table. htbl_store table key value)"
  by (subst htbl_put.simps) (simp only: htbl_expand_def htbl_store_def Let_def)

section \<open>Probing\<close>

text \<open>Slot \<open>d\<close> of the probe sequence of a key in an array of \<open>n\<close> entries.\<close>

definition slot :: "nat \<Rightarrow> cstring \<Rightarrow> nat \<Rightarrow> nat" where
  "slot n key d = (unat (fnv1a32_hash key) + d) mod n"

definition stops_at :: "(cstring \<times> 'v) option list \<Rightarrow> cstring \<Rightarrow> nat \<Rightarrow> bool" where
  "stops_at es key i \<longleftrightarrow> (case es ! i of None \<Rightarrow> True | Some (k, v) \<Rightarrow> k = key)"

definition pow2 :: "u32 \<Rightarrow> bool" where
  "pow2 cap \<longleftrightarrow> (\<exists>j. 1 \<le> j \<and> j \<le> 28 \<and> unat cap = 2 ^ j)"

lemma htbl_index_slot: "pow2 cap \<Longrightarrow> unat (htbl_index cap key) = slot (unat cap) key 0"
proof -
  assume "pow2 cap"
  then obtain j where j: "j \<le> 28" "unat cap = 2 ^ j" by (auto simp: pow2_def)
  have "cap = of_nat (unat cap)" by simp
  then have "cap = 2 ^ j" unfolding j(2) by simp
  then have "fnv1a32_hash key AND (cap - 1) = take_bit j (fnv1a32_hash key)"
    by (simp add: take_bit_eq_mask mask_eq_exp_minus_1)
  then have "unat (htbl_index cap key) = take_bit j (unat (fnv1a32_hash key))"
    by (simp only: htbl_index_def unsigned_take_bit_eq)
  then show ?thesis by (simp add: slot_def j(2) take_bit_eq_mod)
qed

lemma probe_step:
  fixes cap :: u32
  assumes "0 < cap" "unat i = slot (unat cap) key d"
  shows "unat (if cap \<le> i + 1 then 0 else i + 1) = slot (unat cap) key (Suc d)"
proof -
  have lt: "i < cap" using assms by (simp add: word_less_nat_alt slot_def word_gt_0 unat_gt_0)
  have s: "slot (unat cap) key (Suc d) = (if Suc (unat i) = unat cap then 0 else Suc (unat i))"
    using assms(2) by (simp add: slot_def mod_Suc)
  have "cap \<le> i + 1 \<longleftrightarrow> Suc (unat i) = unat cap"
    using lt unat_inc_u32 [OF lt] by (auto simp: word_le_nat_alt word_less_nat_alt)
  then show ?thesis using s unat_inc_u32 [OF lt] by auto
qed

lemma htbl_probe_stops:
  fixes cap :: u32
  assumes es: "length es = unat cap" "0 < cap"
  shows "unat i = slot (unat cap) key d \<Longrightarrow> stops_at es key (slot (unat cap) key (d + n)) \<Longrightarrow>
    (\<And>e. e < n \<Longrightarrow> \<not> stops_at es key (slot (unat cap) key (d + e))) \<Longrightarrow>
    \<exists>j. htbl_probe es cap key i = Some (Inr j) \<and> unat j = slot (unat cap) key (d + n)"
proof (induction n arbitrary: i d)
  case 0
  have "unat i < length es" using es 0(1) by (simp add: slot_def word_gt_0 unat_gt_0)
  with 0 show ?case
    by (subst htbl_probe.simps) (auto simp: stops_at_def split: option.splits)
next
  case (Suc n)
  have in_range: "unat i < length es" using es Suc(2) by (simp add: slot_def word_gt_0 unat_gt_0)
  have "\<not> stops_at es key (unat i)" using Suc.prems(1) Suc.prems(3) [of 0] by simp
  then have "htbl_probe es cap key i = htbl_probe es cap key (if cap \<le> i + 1 then 0 else i + 1)"
    using in_range by (subst htbl_probe.simps) (auto simp: stops_at_def split: option.splits)
  moreover have "\<exists>j. htbl_probe es cap key (if cap \<le> i + 1 then 0 else i + 1) = Some (Inr j)
      \<and> unat j = slot (unat cap) key (Suc d + n)"
    by (rule Suc.IH [OF probe_step [OF es(2) Suc.prems(1)]])
      (use Suc.prems(2) Suc.prems(3) [of "Suc _"] in auto)
  ultimately show ?case by simp
qed

section \<open>Well-formed tables\<close>

definition keys_at :: "(cstring \<times> 'v) option list \<Rightarrow> nat \<Rightarrow> cstring option" where
  "keys_at es i = map_option fst (es ! i)"

text \<open>
  Every key is stored once, and the slots of its probe sequence before the one that holds it
  are all taken.
\<close>

definition probe_ok :: "(cstring \<times> 'v) option list \<Rightarrow> bool" where
  "probe_ok es \<longleftrightarrow> (\<forall>i < length es. \<forall>k. keys_at es i = Some k \<longrightarrow>
      (\<exists>d < length es. i = slot (length es) k d \<and> (\<forall>e < d. es ! slot (length es) k e \<noteq> None)))
    \<and> (\<forall>i < length es. \<forall>j < length es. \<forall>k. keys_at es i = Some k \<longrightarrow> keys_at es j = Some k \<longrightarrow> i = j)"

definition taken :: "(cstring \<times> 'v) option list \<Rightarrow> nat" where
  "taken es = length (filter (\<lambda>e. e \<noteq> None) es)"

definition htbl_ok :: "'v htbl \<Rightarrow> bool" where
  "htbl_ok t \<longleftrightarrow> pow2 (capacity t) \<and> length (entries t) = unat (capacity t)
     \<and> probe_ok (entries t) \<and> unat (tbl_length t) = taken (entries t)
     \<and> tbl_length t \<le> capacity t div 2"

text \<open>The finite map a table represents.\<close>

fun entry_of :: "(cstring \<times> 'v) option list \<Rightarrow> cstring \<Rightarrow> 'v option" where
  "entry_of [] k = None"
| "entry_of (None # es) k = entry_of es k"
| "entry_of (Some (k', v) # es) k = (if k' = k then Some v else entry_of es k)"

lemma probe_ok_unique:
  assumes "probe_ok es" "i < length es" "j < length es" "keys_at es i = Some k" "keys_at es j = Some k"
  shows "i = j"
  using assms(1) [unfolded probe_ok_def, THEN conjunct2, rule_format, OF assms(2-5)] .

lemma taken_update:
  "i < length es \<Longrightarrow> taken (es[i := Some e]) = (if es ! i = None then Suc (taken es) else taken es)"
proof (induction es arbitrary: i)
  case (Cons a es)
  then show ?case by (cases i) (auto simp: taken_def)
qed simp

lemma taken_free: "taken es < length es \<Longrightarrow> \<exists>i < length es. es ! i = None"
proof (rule ccontr)
  assume "taken es < length es" "\<not> (\<exists>i < length es. es ! i = None)"
  then have "filter (\<lambda>e. e \<noteq> None) es = es" by (simp add: filter_id_conv) (metis in_set_conv_nth)
  with \<open>taken es < length es\<close> show False by (simp add: taken_def)
qed

lemma entry_of_SomeD: "entry_of es k = Some v \<Longrightarrow> \<exists>i < length es. es ! i = Some (k, v)"
proof (induction es k rule: entry_of.induct)
  case (2 es k)
  then obtain i where "i < length es" "es ! i = Some (k, v)" by auto
  then show ?case by (intro exI [of _ "Suc i"]) simp
next
  case (3 k' w es k)
  show ?case
  proof (cases "k' = k")
    case False
    then obtain i where "i < length es" "es ! i = Some (k, v)" using 3 by auto
    then show ?thesis by (intro exI [of _ "Suc i"]) simp
  qed (use 3 in auto)
qed simp

lemma entry_of_None: "entry_of es k = None \<longleftrightarrow> (\<forall>i < length es. keys_at es i \<noteq> Some k)"
  by (induction es k rule: entry_of.induct) (auto simp: keys_at_def All_less_Suc2)

lemma entry_of_nth:
  assumes "probe_ok es"
  shows "entry_of es k = Some v \<longleftrightarrow> (\<exists>i < length es. es ! i = Some (k, v))"
proof
  assume "\<exists>i < length es. es ! i = Some (k, v)"
  then obtain i where i: "i < length es" "es ! i = Some (k, v)" by blast
  have ki: "keys_at es i = Some k" using i by (simp add: keys_at_def)
  then have "entry_of es k \<noteq> None" unfolding entry_of_None using i(1) by blast
  then obtain w where w: "entry_of es k = Some w" by blast
  obtain j where j: "j < length es" "es ! j = Some (k, w)" using entry_of_SomeD [OF w] by blast
  have "keys_at es j = Some k" using j by (simp add: keys_at_def)
  then have "i = j" using probe_ok_unique [OF assms i(1) j(1) ki] by simp
  then show "entry_of es k = Some v" using i(2) j(2) w by simp
qed (rule entry_of_SomeD)

lemma slot_onto: "i < n \<Longrightarrow> \<exists>d < n. slot n k d = i"
proof -
  assume "i < n"
  let ?h = "unat (fnv1a32_hash k) mod n"
  have "?h < n" using \<open>i < n\<close> by simp
  then have "?h + (if ?h \<le> i then i - ?h else n + i - ?h) = (if ?h \<le> i then i else n + i)" by simp
  then have "(?h + (if ?h \<le> i then i - ?h else n + i - ?h)) mod n = i"
    using \<open>i < n\<close> by (cases "?h \<le> i") simp_all
  moreover have "(if ?h \<le> i then i - ?h else n + i - ?h) < n" using \<open>i < n\<close> by auto
  ultimately have "(?h + (if ?h \<le> i then i - ?h else n + i - ?h)) mod n = i"
    "(if ?h \<le> i then i - ?h else n + i - ?h) < n" by blast+
  then show ?thesis unfolding slot_def by (metis mod_add_left_eq)
qed

text \<open>Where the probe for a key stops in a well-formed array with a free entry.\<close>

lemma probe_result:
  fixes cap :: u32
  assumes "probe_ok es" "length es = unat cap" "pow2 cap" "taken es < length es"
  shows "\<exists>j d. htbl_probe es cap k (htbl_index cap k) = Some (Inr j) \<and> unat j < length es
    \<and> unat j = slot (length es) k d \<and> d < length es
    \<and> (\<forall>e < d. es ! slot (length es) k e \<noteq> None \<and> keys_at es (slot (length es) k e) \<noteq> Some k)
    \<and> (case es ! unat j of Some (k', v) \<Rightarrow> k' = k \<and> entry_of es k = Some v | None \<Rightarrow> entry_of es k = None)"
proof -
  let ?n = "length es"
  let ?P = "\<lambda>d. stops_at es k (slot ?n k d)"
  obtain f where f: "f < ?n" "es ! f = None" using taken_free [OF assms(4)] by blast
  obtain df where df: "df < ?n" "slot ?n k df = f" using slot_onto [OF f(1)] by blast
  have "?P df" using f df by (simp add: stops_at_def)
  define d where "d = (LEAST d. ?P d)"
  have d: "?P d" "d \<le> df" "\<And>e. e < d \<Longrightarrow> \<not> ?P e"
    unfolding d_def using \<open>?P df\<close> by (auto intro: LeastI Least_le dest: not_less_Least)
  have pos: "0 < cap" using f(1) assms(2) by (cases "cap = 0") (auto simp: word_gt_0)
  obtain j where j: "htbl_probe es cap k (htbl_index cap k) = Some (Inr j)" "unat j = slot (unat cap) k (0 + d)"
    using htbl_probe_stops [OF assms(2) pos htbl_index_slot [OF assms(3)], of k d] d(1,3) assms(2) by auto
  have jn: "unat j < ?n" "unat j = slot ?n k d"
    using j(2) f(1) assms(2) by (auto simp: slot_def intro: mod_less_divisor)
  have before: "es ! slot ?n k e \<noteq> None \<and> keys_at es (slot ?n k e) \<noteq> Some k" if "e < d" for e
    using d(3) [OF that] by (auto simp: stops_at_def keys_at_def split: option.splits)
  have "case es ! unat j of Some (k', v) \<Rightarrow> k' = k \<and> entry_of es k = Some v | None \<Rightarrow> entry_of es k = None"
  proof (cases "es ! unat j")
    case (Some e)
    then show ?thesis
      using d(1) jn entry_of_nth [OF assms(1), of k] by (fastforce simp: stops_at_def split: prod.splits)
  next
    case None
    have "keys_at es i \<noteq> Some k" if i: "i < ?n" for i
    proof
      assume k: "keys_at es i = Some k"
      then obtain e where e: "i = slot ?n k e" "\<forall>e' < e. es ! slot ?n k e' \<noteq> None"
        using assms(1) i unfolding probe_ok_def by blast
      consider "e < d" | "e = d" | "d < e" by linarith
      then show False
      proof cases
        case 1 then show False using before k e(1) by simp
      next
        case 2 then show False using None k e(1) jn(2) by (simp add: keys_at_def)
      next
        case 3 then show False using e(2) None jn(2) by auto
      qed
    qed
    then show ?thesis using None entry_of_None [of es k] by simp
  qed
  then show ?thesis using j(1) jn before d(2) df(1) by (intro exI [of _ j] exI [of _ d]) auto
qed

section \<open>Storing\<close>

lemma probe_ok_store:
  assumes ok: "probe_ok es" and d: "i = slot (length es) k d" "d < length es"
    and before: "\<forall>e < d. es ! slot (length es) k e \<noteq> None"
    and i: "i < length es" "keys_at es i = None \<or> keys_at es i = Some k"
    and new: "es ! i = None \<Longrightarrow> \<forall>j < length es. keys_at es j \<noteq> Some k"
  shows "probe_ok (es[i := Some (k, v)])"
proof -
  let ?es = "es[i := Some (k, v)]"
  have taken: "es ! j \<noteq> None \<Longrightarrow> ?es ! j \<noteq> None" for j
    using i(1) by (cases "j = i") simp_all
  have key: "keys_at ?es j = (if j = i then Some k else keys_at es j)" for j
    using i(1) by (simp add: keys_at_def)
  have only: "keys_at es j = Some k \<Longrightarrow> j < length es \<Longrightarrow> j = i" for j
    using new i ok unfolding probe_ok_def by (cases "es ! i") (auto simp: keys_at_def)
  show ?thesis
    unfolding probe_ok_def length_list_update
  proof (intro conjI allI impI)
    fix j k' assume j: "j < length es" "keys_at ?es j = Some k'"
    show "\<exists>d < length es. j = slot (length es) k' d \<and> (\<forall>e < d. ?es ! slot (length es) k' e \<noteq> None)"
    proof (cases "j = i")
      case True
      then have "k' = k" using j key by simp
      then show ?thesis using True d before taken by blast
    next
      case False
      then have "keys_at es j = Some k'" using j key by simp
      then obtain d' where "d' < length es" "j = slot (length es) k' d'"
        "\<forall>e < d'. es ! slot (length es) k' e \<noteq> None" using ok j(1) unfolding probe_ok_def by blast
      then show ?thesis using taken by blast
    qed
  next
    fix j j' k' assume "j < length es" "j' < length es" "keys_at ?es j = Some k'" "keys_at ?es j' = Some k'"
    then show "j = j'"
      using only ok unfolding key probe_ok_def by (auto split: if_splits)
  qed
qed

lemma entry_of_store:
  assumes "probe_ok es" "probe_ok (es[i := Some (k, v)])" "i < length es"
    "keys_at es i = None \<or> keys_at es i = Some k"
  shows "entry_of (es[i := Some (k, v)]) j = (if j = k then Some v else entry_of es j)"
proof (cases "j = k")
  case True
  have "\<exists>i' < length (es[i := Some (k, v)]). es[i := Some (k, v)] ! i' = Some (k, v)"
    using assms(3) by (intro exI [of _ i]) simp
  then show ?thesis using True entry_of_nth [OF assms(2)] by simp
next
  case False
  have "es[i := Some (k, v)] ! i' = Some (j, w) \<longleftrightarrow> es ! i' = Some (j, w)" for i' w
    using assms(3,4) False by (cases "i' = i") (auto simp: keys_at_def)
  then have "entry_of (es[i := Some (k, v)]) j = Some w \<longleftrightarrow> entry_of es j = Some w" for w
    unfolding entry_of_nth [OF assms(1)] entry_of_nth [OF assms(2)] by simp
  then have "entry_of (es[i := Some (k, v)]) j = entry_of es j" by (rule option_ext)
  then show ?thesis using False by simp
qed

text \<open>\<open>htbl_ok\<close> without the bound on the fill: what holds inside \<open>htbl_put\<close>.\<close>

definition tbl_ok :: "'v htbl \<Rightarrow> bool" where
  "tbl_ok t \<longleftrightarrow> pow2 (capacity t) \<and> length (entries t) = unat (capacity t)
     \<and> probe_ok (entries t) \<and> unat (tbl_length t) = taken (entries t)"

definition htbl_map :: "'v htbl \<Rightarrow> cstring \<Rightarrow> 'v option" where
  "htbl_map t = entry_of (entries t)"

lemma htbl_store_ok:
  assumes t: "tbl_ok t" and free: "tbl_length t < capacity t"
  shows "\<exists>t'. htbl_store t k v = Some (Inr t') \<and> tbl_ok t' \<and> htbl_map t' = (htbl_map t)(k \<mapsto> v)
    \<and> capacity t' = capacity t
    \<and> tbl_length t' = (if htbl_map t k = None then tbl_length t + 1 else tbl_length t)"
proof -
  let ?es = "entries t"
  have T: "pow2 (capacity t)" "length ?es = unat (capacity t)" "probe_ok ?es"
    "unat (tbl_length t) = taken ?es" using t by (simp_all add: tbl_ok_def)
  have "taken ?es < length ?es" using free T by (simp add: word_less_nat_alt)
  then obtain j d where p: "htbl_probe ?es (capacity t) k (htbl_index (capacity t) k) = Some (Inr j)"
    "unat j < length ?es" "unat j = slot (length ?es) k d" "d < length ?es"
    and before: "\<forall>e < d. ?es ! slot (length ?es) k e \<noteq> None \<and> keys_at ?es (slot (length ?es) k e) \<noteq> Some k"
    and res: "case ?es ! unat j of Some (k', v) \<Rightarrow> k' = k \<and> entry_of ?es k = Some v | None \<Rightarrow> entry_of ?es k = None"
    using probe_result [OF T(3,2,1), of k] by blast
  have ki: "keys_at ?es (unat j) = None \<or> keys_at ?es (unat j) = Some k"
    using res by (auto simp: keys_at_def split: option.splits)
  have new: "?es ! unat j = None \<Longrightarrow> \<forall>i < length ?es. keys_at ?es i \<noteq> Some k"
    using res entry_of_None [of ?es k] by simp
  let ?es' = "?es[unat j := Some (k, v)]"
  have ok': "probe_ok ?es'"
    by (rule probe_ok_store [OF T(3) p(3,4) _ p(2) ki new]) (use before in auto)
  have map': "entry_of ?es' = (entry_of ?es)(k \<mapsto> v)"
    using entry_of_store [OF T(3) ok' p(2) ki] by (auto simp: fun_eq_iff)
  define t' where "t' = (if ?es ! unat j = None then t\<lparr>entries := ?es', tbl_length := tbl_length t + 1\<rparr>
    else t\<lparr>entries := ?es'\<rparr>)"
  have st: "htbl_store t k v = Some (Inr t')"
    using p(1) res by (auto simp: htbl_store_def t'_def split: option.splits)
  have "unat (tbl_length t + 1) = Suc (unat (tbl_length t))" by (rule unat_inc_u32 [OF free])
  then have "tbl_ok t'"
    using T ok' taken_update [OF p(2), of "(k, v)"] by (auto simp: tbl_ok_def t'_def)
  moreover have "htbl_map t k = None \<longleftrightarrow> ?es ! unat j = None"
    using res by (auto simp: htbl_map_def split: option.splits)
  ultimately show ?thesis
    using st map' by (intro exI [of _ t']) (auto simp: t'_def htbl_map_def)
qed

section \<open>Expanding\<close>

definition can_grow :: "'v htbl \<Rightarrow> bool" where
  "can_grow t \<longleftrightarrow> unat (capacity t) \<le> 2 ^ 27"

lemma pow2_double:
  assumes "pow2 cap" "unat cap \<le> 2 ^ 27"
  shows "pow2 (cap * 2)" "unat (cap * 2) = unat cap * 2"
proof -
  obtain j where j: "1 \<le> j" "unat cap = 2 ^ j" using assms(1) by (auto simp: pow2_def)
  then have "j \<le> 27"
    using assms(2) power_le_imp_le_exp [of "2 :: nat" j 27] by (simp only: one_less_numeral_iff semiring_norm)
  show u: "unat (cap * 2) = unat cap * 2" using assms(2) by (simp add: unat_word_ariths)
  show "pow2 (cap * 2)"
    unfolding pow2_def u using j \<open>j \<le> 27\<close> by (intro exI [of _ "Suc j"]) simp
qed

lemma alloc_entries_pow2: "pow2 n \<Longrightarrow> alloc_entries n = replicate (unat n) None"
proof -
  assume "pow2 n"
  then obtain j where j: "j \<le> 28" "unat n = 2 ^ j" by (auto simp: pow2_def)
  have "(2 :: nat) ^ j \<le> 2 ^ 28" using j(1) by (intro power_increasing) simp_all
  then have "unat (n * 8) = unat n * 8" unfolding unat_word_ariths j(2) by simp
  then show ?thesis by (simp add: alloc_entries_def)
qed

lemma empty_ok:
  "pow2 n \<Longrightarrow> tbl_ok \<lparr>entries = alloc_entries n, capacity = n, tbl_length = 0\<rparr>"
  by (auto simp: tbl_ok_def alloc_entries_pow2 probe_ok_def keys_at_def taken_def)

lemma entry_of_empty: "entry_of (replicate n None) k = None"
  by (induction n) simp_all

lemma entry_of_snoc:
  "entry_of (es @ [e]) k = (case entry_of es k of Some v \<Rightarrow> Some v
     | None \<Rightarrow> (case e of Some (k', v) \<Rightarrow> if k' = k then Some v else None | None \<Rightarrow> None))"
  by (induction es k rule: entry_of.induct) (auto split: option.splits prod.splits)

lemma taken_snoc: "taken (es @ [e]) = taken es + (if e = None then 0 else 1)"
  by (simp add: taken_def)

lemma taken_take: "taken (take n es) \<le> taken es"
proof -
  have "filter P (take n es) @ filter P (drop n es) = filter P es" for P
    by (metis append_take_drop_id filter_append)
  then show ?thesis unfolding taken_def by (metis length_append le_add1)
qed

lemma refill:
  fixes t :: "'v htbl"
  assumes ok: "htbl_ok t" and g: "can_grow t"
  defines "temp \<equiv> \<lparr>entries = alloc_entries (capacity t * 2), capacity = capacity t * 2, tbl_length = 0\<rparr>"
    and "F \<equiv> \<lambda>i tt. if length (entries t) \<le> i then Some (Inl WildAccess)
       else case entries t ! i of None \<Rightarrow> Some (Inr tt) | Some e \<Rightarrow> htbl_put tt (fst e) (snd e)"
  shows "n \<le> length (entries t) \<Longrightarrow> \<exists>tt. run_each F [0..<n] temp = Some (Inr tt) \<and> tbl_ok tt
    \<and> capacity tt = capacity t * 2 \<and> htbl_map tt = entry_of (take n (entries t))
    \<and> unat (tbl_length tt) = taken (take n (entries t))"
proof (induction n)
  case 0
  have "pow2 (capacity t * 2)" using ok g pow2_double by (auto simp: htbl_ok_def can_grow_def)
  then show ?case
    using empty_ok [of "capacity t * 2"]
    by (auto simp: temp_def htbl_map_def alloc_entries_pow2 entry_of_empty taken_def fun_eq_iff)
next
  case (Suc n)
  let ?es = "entries t"
  obtain tt where tt: "run_each F [0..<n] temp = Some (Inr tt)" "tbl_ok tt" "capacity tt = capacity t * 2"
    "htbl_map tt = entry_of (take n ?es)" "unat (tbl_length tt) = taken (take n ?es)"
    using Suc by auto
  have split: "take (Suc n) ?es = take n ?es @ [?es ! n]" using Suc.prems by (simp add: take_Suc_conv_app_nth)
  have run: "run_each F [0..<Suc n] temp = F n tt" using tt(1)
    by (simp add: run_each_append) (cases "F n tt"; auto split: sum.splits simp: run_bind_def)
  have in_range: "\<not> length ?es \<le> n" using Suc.prems by simp
  show ?case
  proof (cases "?es ! n")
    case None
    then have "F n tt = Some (Inr tt)" using in_range by (simp add: F_def)
    moreover have "entry_of (take (Suc n) ?es) = entry_of (take n ?es)"
      unfolding split None by (auto simp: entry_of_snoc fun_eq_iff split: option.splits)
    ultimately show ?thesis using tt run by (simp add: split taken_snoc None)
  next
    case (Some e)
    obtain k v where e: "e = (k, v)" by (cases e)
    have cap: "unat (capacity tt) = unat (capacity t) * 2"
      using tt(3) ok g pow2_double by (auto simp: htbl_ok_def can_grow_def)
    have "taken (take n ?es) \<le> unat (capacity t div 2)"
      using taken_take [of n ?es] ok by (simp add: htbl_ok_def word_le_nat_alt)
    moreover have c2: "0 < unat (capacity t)" using ok by (auto simp: htbl_ok_def pow2_def)
    ultimately have low: "unat (tbl_length tt) < unat (capacity t)"
      using tt(5) by (simp add: unat_div)
    then have nogrow: "\<not> capacity tt div 2 \<le> tbl_length tt" and free: "tbl_length tt < capacity tt"
      using cap by (simp_all add: word_le_nat_alt word_less_nat_alt unat_div)
    have fresh: "entry_of (take n ?es) k = None"
    proof -
      have "keys_at ?es i \<noteq> Some k" if "i < n" for i
      proof
        assume "keys_at ?es i = Some k"
        moreover have "keys_at ?es n = Some k" using Some e by (simp add: keys_at_def)
        ultimately show False
          using probe_ok_unique [of ?es i n k] ok that in_range by (simp add: htbl_ok_def)
      qed
      then show ?thesis by (auto simp: entry_of_None keys_at_def)
    qed
    obtain t' where t': "htbl_store tt k v = Some (Inr t')" "tbl_ok t'" "htbl_map t' = (htbl_map tt)(k \<mapsto> v)"
      "capacity t' = capacity tt" "tbl_length t' = tbl_length tt + 1"
      using htbl_store_ok [OF tt(2) free, of k v] fresh tt(4) by auto
    have "F n tt = Some (Inr t')"
      using in_range Some e t'(1) nogrow by (simp add: F_def htbl_put_unfold)
    moreover have "entry_of (take (Suc n) ?es) = (entry_of (take n ?es))(k \<mapsto> v)"
      unfolding split using Some e fresh by (auto simp: entry_of_snoc fun_eq_iff split: option.splits)
    moreover have "unat (tbl_length tt + 1) = Suc (unat (tbl_length tt))" by (rule unat_inc_u32 [OF free])
    ultimately show ?thesis using tt t' run
      by (simp add: split taken_snoc Some del: fun_upd_apply)
  qed
qed

lemma htbl_expand_ok:
  assumes ok: "htbl_ok t" and g: "can_grow t"
  shows "\<exists>t'. htbl_expand t = Some (Inr t') \<and> tbl_ok t' \<and> htbl_map t' = htbl_map t
    \<and> capacity t' = capacity t * 2 \<and> tbl_length t' = tbl_length t"
proof -
  have len: "length (entries t) = unat (capacity t)" using ok by (simp add: htbl_ok_def)
  obtain tt where tt: "run_each (\<lambda>i tt. if length (entries t) \<le> i then Some (Inl WildAccess)
       else case entries t ! i of None \<Rightarrow> Some (Inr tt) | Some e \<Rightarrow> htbl_put tt (fst e) (snd e))
      [0..<unat (capacity t)]
      \<lparr>entries = alloc_entries (capacity t * 2), capacity = capacity t * 2, tbl_length = 0\<rparr> = Some (Inr tt)"
    "tbl_ok tt" "capacity tt = capacity t * 2" "htbl_map tt = entry_of (entries t)"
    "unat (tbl_length tt) = taken (entries t)"
    using refill [OF ok g, of "length (entries t)"] len by auto
  let ?t = "t\<lparr>entries := entries tt, capacity := capacity t * 2\<rparr>"
  have "htbl_expand t = Some (Inr ?t)" using tt(1) by (simp add: htbl_expand_def Let_def)
  moreover have "tbl_ok ?t" using tt ok by (auto simp: tbl_ok_def htbl_ok_def)
  ultimately show ?thesis using tt(4) by (intro exI [of _ ?t]) (simp add: htbl_map_def)
qed

section \<open>htbl_get and htbl_put\<close>

lemma htbl_fill: "htbl_ok t \<Longrightarrow> tbl_ok t \<and> tbl_length t < capacity t \<and> 2 \<le> unat (capacity t)"
proof -
  assume ok: "htbl_ok t"
  then obtain j where j: "1 \<le> j" "unat (capacity t) = 2 ^ j" by (auto simp: htbl_ok_def pow2_def)
  have "(2 :: nat) ^ 1 \<le> 2 ^ j" using j(1) by (intro power_increasing) simp_all
  then have "2 \<le> unat (capacity t)" using j(2) by simp
  moreover have "unat (tbl_length t) \<le> unat (capacity t) div 2"
    using ok by (simp add: htbl_ok_def word_le_nat_alt unat_div)
  ultimately show ?thesis using ok by (simp add: htbl_ok_def tbl_ok_def word_less_nat_alt)
qed

lemma htbl_get_ok: "htbl_ok t \<Longrightarrow> htbl_get t k = Some (Inr (htbl_map t k))"
proof -
  assume ok: "htbl_ok t"
  then have "taken (entries t) < length (entries t)"
    using htbl_fill [OF ok] by (simp add: htbl_ok_def word_less_nat_alt)
  then obtain j where j: "htbl_probe (entries t) (capacity t) k (htbl_index (capacity t) k) = Some (Inr j)"
    "case entries t ! unat j of Some (k', v) \<Rightarrow> k' = k \<and> entry_of (entries t) k = Some v
      | None \<Rightarrow> entry_of (entries t) k = None"
    using probe_result [of "entries t" "capacity t" k] ok unfolding htbl_ok_def by blast
  then show ?thesis by (auto simp: htbl_get_def htbl_map_def split: option.splits)
qed

lemma htbl_put_ok:
  assumes ok: "htbl_ok t" and g: "can_grow t"
  shows "\<exists>t'. htbl_put t k v = Some (Inr t') \<and> htbl_ok t' \<and> htbl_map t' = (htbl_map t)(k \<mapsto> v)
    \<and> capacity t' = (if capacity t div 2 \<le> tbl_length t then capacity t * 2 else capacity t)
    \<and> tbl_length t' = (if htbl_map t k = None then tbl_length t + 1 else tbl_length t)"
proof -
  note F = htbl_fill [OF ok]
  define grow where "grow \<longleftrightarrow> capacity t div 2 \<le> tbl_length t"
  have cap2: "unat (capacity t * 2) = unat (capacity t) * 2"
    using ok g pow2_double by (auto simp: htbl_ok_def can_grow_def)
  obtain t1 where t1: "(if grow then htbl_expand t else Some (Inr t)) = Some (Inr t1)" "tbl_ok t1"
    "htbl_map t1 = htbl_map t" "capacity t1 = (if grow then capacity t * 2 else capacity t)"
    "tbl_length t1 = tbl_length t"
    using htbl_expand_ok [OF ok g] F by (cases grow) auto
  have fill: "unat (tbl_length t1) < unat (capacity t1 div 2)"
    using F cap2 t1(4,5) by (auto simp: grow_def unat_div word_less_nat_alt not_le)
  then have free: "tbl_length t1 < capacity t1" by (simp add: word_less_nat_alt unat_div)
  obtain t' where t': "htbl_store t1 k v = Some (Inr t')" "tbl_ok t'" "htbl_map t' = (htbl_map t1)(k \<mapsto> v)"
    "capacity t' = capacity t1"
    "tbl_length t' = (if htbl_map t1 k = None then tbl_length t1 + 1 else tbl_length t1)"
    using htbl_store_ok [OF t1(2) free, of k v] by blast
  have "tbl_length t' \<le> capacity t' div 2"
    using fill unat_inc_u32 [OF free] unfolding t'(4,5) by (simp add: word_le_nat_alt)
  then have "htbl_ok t'" using t'(2) by (simp add: htbl_ok_def tbl_ok_def)
  moreover have "htbl_put t k v = Some (Inr t')"
    using t1(1) t'(1) by (simp add: htbl_put_unfold grow_def)
  ultimately show ?thesis using t' t1 by (intro exI [of _ t']) (simp add: grow_def)
qed

lemma htbl_create_ok: "htbl_ok (htbl_create :: 'v htbl) \<and> htbl_map (htbl_create :: 'v htbl) = Map.empty
  \<and> capacity (htbl_create :: 'v htbl) = 32 \<and> tbl_length (htbl_create :: 'v htbl) = 0"
proof -
  have p: "pow2 (32 :: u32)" unfolding pow2_def by (intro exI [of _ 5]) simp
  show ?thesis
    using empty_ok [OF p] by (auto simp: htbl_create_def HTBL_INITIAL_CAPACITY_def htbl_ok_def tbl_ok_def
        htbl_map_def alloc_entries_pow2 [OF p] entry_of_empty fun_eq_iff)
qed

section \<open>The hash table is a key-value store\<close>

definition htbl_lookup :: "'v htbl \<Rightarrow> cstring \<Rightarrow> 'v option" where
  "htbl_lookup t k = (case htbl_get t k of Some (Inr v) \<Rightarrow> v | _ \<Rightarrow> None)"

definition htbl_update :: "'v htbl \<Rightarrow> cstring \<Rightarrow> 'v \<Rightarrow> 'v htbl option" where
  "htbl_update t k v = (case htbl_put t k v of Some (Inr t') \<Rightarrow> Some t' | _ \<Rightarrow> None)"

lemma htbl_lookup_map: "htbl_ok t \<Longrightarrow> htbl_lookup t k = htbl_map t k"
  by (simp add: htbl_lookup_def htbl_get_ok)

interpretation tbl: kv_store htbl_lookup htbl_update htbl_ok "\<lambda>t k. can_grow t"
proof (unfold_locales, goal_cases)
  case (1 t k v)
  then show ?case using htbl_put_ok [of t k v] by (auto simp: htbl_update_def)
next
  case (2 t k v t' j)
  then show ?case using htbl_put_ok [of t k v] by (auto simp: htbl_update_def htbl_lookup_map)
qed

text \<open>The table never grows past four times its fill, so it can take many keys.\<close>

lemma htbl_admits_all:
  assumes "htbl_ok t" "unat (capacity t) \<le> max 32 (4 * unat (tbl_length t))"
    "unat (tbl_length t) + length bs \<le> 2 ^ 24"
  shows "tbl.admits_all t bs"
  using assms
proof (induction bs arbitrary: t)
  case (Cons b bs)
  have g: "can_grow t" using Cons.prems(2,3) by (auto simp: can_grow_def)
  obtain t' where t': "htbl_put t (fst b) (snd b) = Some (Inr t')" "htbl_ok t'"
    "capacity t' = (if capacity t div 2 \<le> tbl_length t then capacity t * 2 else capacity t)"
    "tbl_length t' = (if htbl_map t (fst b) = None then tbl_length t + 1 else tbl_length t)"
    using htbl_put_ok [OF Cons.prems(1) g, of "fst b" "snd b"] by blast
  have len: "unat (tbl_length t) \<le> unat (tbl_length t')" "unat (tbl_length t') \<le> Suc (unat (tbl_length t))"
    using unat_inc_u32 [of "tbl_length t" "capacity t"] htbl_fill [OF Cons.prems(1)] by (auto simp: t'(4))
  have cap: "unat (capacity t * 2) = unat (capacity t) * 2"
    using Cons.prems(1) g pow2_double by (auto simp: htbl_ok_def can_grow_def)
  have "unat (capacity t') \<le> max 32 (4 * unat (tbl_length t'))"
  proof (cases "capacity t div 2 \<le> tbl_length t")
    case True
    moreover have "even (unat (capacity t))"
      using Cons.prems(1) by (auto simp: htbl_ok_def pow2_def)
    ultimately have "unat (capacity t) \<le> 2 * unat (tbl_length t)"
      by (auto simp: word_le_nat_alt unat_div)
    then show ?thesis using t'(3) cap True len(1) by simp
  qed (use t'(3) Cons.prems(2) len(1) in auto)
  moreover have "htbl_update t (fst b) (snd b) = Some s \<Longrightarrow> s = t'" for s
    using t'(1) by (simp add: htbl_update_def)
  ultimately show ?case using Cons.IH [OF t'(2)] Cons.prems(3) len g by auto
qed simp

section \<open>The properties\<close>

text \<open>
  C8: On a well-formed table \<open>htbl_get\<close> ends and returns the value the table maps the key to, or
  \<open>NULL\<close>; \<open>htbl_put\<close> ends, keeps the table well-formed (power-of-two capacity, at most half
  full, every key reachable by its probe sequence, no key twice) and maps the key to the new value
  and every other key to what it was, whether or not the table had to be expanded.
\<close>

theorem htbl_put_get:
  assumes "htbl_ok t" "can_grow t"
  shows "htbl_get t j = Some (Inr (htbl_map t j))
    \<and> (\<exists>t'. htbl_put t k v = Some (Inr t') \<and> htbl_ok t' \<and> htbl_map t' = (htbl_map t)(k \<mapsto> v)
        \<and> htbl_get t' j = Some (Inr (if j = k then Some v else htbl_map t j))
        \<and> tbl_length t' = (if htbl_map t k = None then tbl_length t + 1 else tbl_length t))"
proof -
  obtain t' where t': "htbl_put t k v = Some (Inr t')" "htbl_ok t'" "htbl_map t' = (htbl_map t)(k \<mapsto> v)"
    "tbl_length t' = (if htbl_map t k = None then tbl_length t + 1 else tbl_length t)"
    using htbl_put_ok [OF assms, of k v] by blast
  have "htbl_get t' j = Some (Inr (if j = k then Some v else htbl_map t j))"
    using htbl_get_ok [OF t'(2)] by (simp add: t'(3))
  then show ?thesis using htbl_get_ok [OF assms(1)] t' by (intro conjI exI [of _ t']) simp_all
qed

lemma htbl_put_get_witness:
  "\<exists>t'. htbl_put htbl_create [104] (7 :: nat) = Some (Inr t') \<and> htbl_get t' [104] = Some (Inr (Some 7))"
proof -
  have "htbl_ok (htbl_create :: nat htbl)" "can_grow (htbl_create :: nat htbl)"
    using htbl_create_ok [where ?'v = nat] by (auto simp: can_grow_def)
  from htbl_put_get [OF this, of "[104]" "[104]" 7] show ?thesis by auto
qed

text \<open>
  Expansion is transparent: \<open>htbl_expand\<close> ends, doubles the capacity, and the new entries,
  refilled through \<open>htbl_put\<close> without a further expansion, represent the same map and are
  well-formed.
\<close>

theorem htbl_expand_transparent:
  assumes "htbl_ok t" "can_grow t"
  shows "\<exists>t'. htbl_expand t = Some (Inr t') \<and> htbl_ok t' \<and> capacity t' = capacity t * 2
    \<and> (\<forall>k. htbl_get t' k = htbl_get t k)"
proof -
  obtain t' where t': "htbl_expand t = Some (Inr t')" "tbl_ok t'" "htbl_map t' = htbl_map t"
    "capacity t' = capacity t * 2" "tbl_length t' = tbl_length t"
    using htbl_expand_ok [OF assms] by blast
  have "unat (capacity t * 2) = unat (capacity t) * 2"
    using assms pow2_double by (auto simp: htbl_ok_def can_grow_def)
  then have "tbl_length t' \<le> capacity t' div 2"
    using htbl_fill [OF assms(1)] t'(4,5) by (simp add: word_le_nat_alt word_less_nat_alt unat_div)
  then have ok': "htbl_ok t'" using t'(2) by (simp add: htbl_ok_def tbl_ok_def)
  then show ?thesis using t' htbl_get_ok [OF ok'] htbl_get_ok [OF assms(1)] by auto
qed

lemma htbl_expand_transparent_witness:
  "\<exists>t'. htbl_expand (htbl_create :: nat htbl) = Some (Inr t') \<and> capacity t' = 64"
proof -
  have "htbl_ok (htbl_create :: nat htbl)" "can_grow (htbl_create :: nat htbl)"
    using htbl_create_ok [where ?'v = nat] by (auto simp: can_grow_def)
  from htbl_expand_transparent [OF this] show ?thesis
    using htbl_create_ok [where ?'v = nat] by auto
qed

text \<open>
  A new table takes any list of up to \<open>2 ^ 24\<close> bindings: every \<open>htbl_put\<close> returns, and afterwards
  the table reads, for every key, as the last binding of that key.
\<close>

theorem htbl_put_many:
  fixes bs :: "(cstring \<times> 'v) list"
  assumes "length bs \<le> 2 ^ 24"
  shows "\<exists>t. tbl.update_all htbl_create bs = Some t \<and> htbl_ok t
    \<and> (\<forall>k. htbl_lookup t k = map_of (rev bs) k)"
proof -
  note C = htbl_create_ok [where ?'v = 'v]
  have "tbl.admits_all htbl_create bs"
    using assms C by (intro htbl_admits_all) auto
  then obtain t where t: "tbl.update_all htbl_create bs = Some t" "htbl_ok t"
    "\<forall>k. htbl_lookup t k = (case map_of (rev bs) k of Some v \<Rightarrow> Some v | None \<Rightarrow> htbl_lookup htbl_create k)"
    using tbl.update_all_lookup [of htbl_create bs] C by auto
  have "htbl_lookup t k = map_of (rev bs) k" for k
    using t(3) C by (simp add: htbl_lookup_map split: option.splits)
  then show ?thesis using t by blast
qed

lemma htbl_put_many_witness:
  "\<exists>t. tbl.update_all htbl_create [([97], 1 :: nat), ([98], 2), ([97], 3)] = Some t
     \<and> htbl_lookup t [97] = Some 3 \<and> htbl_lookup t [98] = Some 2 \<and> htbl_lookup t [99] = None"
  using htbl_put_many [of "[([97], 1 :: nat), ([98], 2), ([97], 3)]"] by auto

end
