(* ===== verification/Kconfig.thy ===== *)
theory Kconfig
  imports Htbl Cstring
begin

text \<open>
  The configuration store (\<open>kern/config.c\<close>, \<open>kern/config.h\<close>): a hash table of namespaces, each
  a hash table of typed values, addressed by paths \<open>namespace:key\<close>. The namespace table holds
  pointers to the inner tables, so those live in a store of tables indexed by their number of
  creation. A namespace that was never registered gives a null table, on which \<open>htbl_get\<close> and
  \<open>htbl_put\<close> fail their \<open>ASSERT\<close>. Strings are values; the frees of old values are not visible.
\<close>

section \<open>The code\<close>

definition CONFIG_TYPE_INT :: int where "CONFIG_TYPE_INT = 1"
definition CONFIG_TYPE_STR :: int where "CONFIG_TYPE_STR = 2"
definition CONFIG_TYPE_OBJ :: int where "CONFIG_TYPE_OBJ = 3"

text \<open>\<open>struct config_value\<close>: the tag and the union.\<close>

datatype config_value = Ival int | Sval cstring | Oval u32

fun config_type :: "config_value \<Rightarrow> int" where
  "config_type (Ival i) = CONFIG_TYPE_INT"
| "config_type (Sval s) = CONFIG_TYPE_STR"
| "config_type (Oval p) = CONFIG_TYPE_OBJ"

record config =
  namespaces :: "nat htbl"
  tables :: "nat \<Rightarrow> config_value htbl"
  created :: nat

definition config_init :: "config \<Rightarrow> config" where
  "config_init st = st\<lparr>namespaces := htbl_create\<rparr>"

definition config_newns :: "config \<Rightarrow> cstring \<Rightarrow> config outcome option" where
  "config_newns st name =
     run_bind (htbl_put (namespaces st) name (created st))
       (\<lambda>t. Some (Inr (st\<lparr>namespaces := t, tables := (tables st)(created st := htbl_create),
          created := created st + 1\<rparr>)))"

text \<open>The namespace and the key of a path, \<open>None\<close> for a path without a colon.\<close>

definition config_parse_key :: "cstring \<Rightarrow> (cstring \<times> cstring) option" where
  "config_parse_key path = map_option (\<lambda>sep. (take sep path, drop (Suc sep) path)) (find_char 58 path)"

definition config_get_common :: "config \<Rightarrow> cstring \<Rightarrow> cstring \<Rightarrow> config_value option outcome option" where
  "config_get_common st ns ns_key =
     run_bind (htbl_get (namespaces st) ns) (\<lambda>ns_table. case ns_table of
         None \<Rightarrow> Some (Inl (AssertFailed ''NULL table''))
       | Some t \<Rightarrow> htbl_get (tables st t) ns_key)"

definition config_set_common :: "config \<Rightarrow> cstring \<Rightarrow> cstring \<Rightarrow> config_value \<Rightarrow> config outcome option" where
  "config_set_common st ns ns_key v =
     run_bind (htbl_get (namespaces st) ns) (\<lambda>ns_table. case ns_table of
         None \<Rightarrow> Some (Inl (AssertFailed ''NULL table''))
       | Some t \<Rightarrow> run_bind (htbl_put (tables st t) ns_key v)
           (\<lambda>t'. Some (Inr (st\<lparr>tables := (tables st)(t := t')\<rparr>))))"

definition config_setstrns :: "config \<Rightarrow> cstring \<Rightarrow> cstring \<Rightarrow> cstring \<Rightarrow> config outcome option" where
  "config_setstrns st ns key v =
     run_bind (config_get_common st ns key) (\<lambda>old_value. config_set_common st ns key (Sval v))"

definition config_setobjns :: "config \<Rightarrow> cstring \<Rightarrow> cstring \<Rightarrow> u32 \<Rightarrow> config outcome option" where
  "config_setobjns st ns key v = config_set_common st ns key (Oval v)"

definition config_setintns :: "config \<Rightarrow> cstring \<Rightarrow> cstring \<Rightarrow> int \<Rightarrow> config outcome option" where
  "config_setintns st ns key v = config_set_common st ns key (Ival v)"

text \<open>A null string or object result is \<open>None\<close>, respectively 0.\<close>

definition config_getstrns :: "config \<Rightarrow> cstring \<Rightarrow> cstring \<Rightarrow> cstring option outcome option" where
  "config_getstrns st ns key = run_bind (config_get_common st ns key)
     (\<lambda>r. Some (Inr (case r of Some (Sval s) \<Rightarrow> Some s | _ \<Rightarrow> None)))"

definition config_getobjns :: "config \<Rightarrow> cstring \<Rightarrow> cstring \<Rightarrow> u32 outcome option" where
  "config_getobjns st ns key = run_bind (config_get_common st ns key)
     (\<lambda>r. Some (Inr (case r of Some (Oval p) \<Rightarrow> p | _ \<Rightarrow> 0)))"

definition config_getintns :: "config \<Rightarrow> cstring \<Rightarrow> cstring \<Rightarrow> int outcome option" where
  "config_getintns st ns key = run_bind (config_get_common st ns key)
     (\<lambda>r. Some (Inr (case r of Some (Ival i) \<Rightarrow> i | _ \<Rightarrow> 0)))"

definition config_existsns :: "config \<Rightarrow> cstring \<Rightarrow> cstring \<Rightarrow> bool outcome option" where
  "config_existsns st ns key = run_bind (config_get_common st ns key) (\<lambda>r. Some (Inr (r \<noteq> None)))"

definition config_gettypens :: "config \<Rightarrow> cstring \<Rightarrow> cstring \<Rightarrow> int outcome option" where
  "config_gettypens st ns key = run_bind (config_get_common st ns key)
     (\<lambda>r. Some (Inr (case r of None \<Rightarrow> 0 | Some v \<Rightarrow> config_type v)))"

definition config_setstr :: "config \<Rightarrow> cstring \<Rightarrow> cstring \<Rightarrow> config outcome option" where
  "config_setstr st key v = (case config_parse_key key of
     None \<Rightarrow> Some (Inr st) | Some (ns, ns_key) \<Rightarrow> config_setstrns st ns ns_key v)"

definition config_setint :: "config \<Rightarrow> cstring \<Rightarrow> int \<Rightarrow> config outcome option" where
  "config_setint st key v = (case config_parse_key key of
     None \<Rightarrow> Some (Inr st) | Some (ns, ns_key) \<Rightarrow> config_setintns st ns ns_key v)"

definition config_setobj :: "config \<Rightarrow> cstring \<Rightarrow> u32 \<Rightarrow> config outcome option" where
  "config_setobj st key v = (case config_parse_key key of
     None \<Rightarrow> Some (Inr st) | Some (ns, ns_key) \<Rightarrow> config_setobjns st ns ns_key v)"

definition config_getstr :: "config \<Rightarrow> cstring \<Rightarrow> cstring option outcome option" where
  "config_getstr st key = (case config_parse_key key of
     None \<Rightarrow> Some (Inr None) | Some (ns, ns_key) \<Rightarrow> config_getstrns st ns ns_key)"

definition config_getobj :: "config \<Rightarrow> cstring \<Rightarrow> u32 outcome option" where
  "config_getobj st key = (case config_parse_key key of
     None \<Rightarrow> Some (Inr 0) | Some (ns, ns_key) \<Rightarrow> config_getobjns st ns ns_key)"

definition config_getint :: "config \<Rightarrow> cstring \<Rightarrow> int outcome option" where
  "config_getint st key = (case config_parse_key key of
     None \<Rightarrow> Some (Inr 0) | Some (ns, ns_key) \<Rightarrow> config_getintns st ns ns_key)"

definition config_exists :: "config \<Rightarrow> cstring \<Rightarrow> bool outcome option" where
  "config_exists st key = (case config_parse_key key of
     None \<Rightarrow> Some (Inr False) | Some (ns, ns_key) \<Rightarrow> config_existsns st ns ns_key)"

definition config_gettype :: "config \<Rightarrow> cstring \<Rightarrow> int outcome option" where
  "config_gettype st key = (case config_parse_key key of
     None \<Rightarrow> Some (Inr 0) | Some (ns, ns_key) \<Rightarrow> config_gettypens st ns ns_key)"

section \<open>Well-formed configurations\<close>

definition config_ok :: "config \<Rightarrow> bool" where
  "config_ok st \<longleftrightarrow> htbl_ok (namespaces st) \<and> (\<forall>t < created st. htbl_ok (tables st t))
     \<and> (\<forall>ns t. htbl_map (namespaces st) ns = Some t \<longrightarrow> t < created st)
     \<and> (\<forall>ns ns' t. htbl_map (namespaces st) ns = Some t \<longrightarrow> htbl_map (namespaces st) ns' = Some t \<longrightarrow> ns = ns')"

text \<open>What a configuration holds, as a map from namespaces and keys.\<close>

definition config_map :: "config \<Rightarrow> cstring \<times> cstring \<Rightarrow> config_value option" where
  "config_map st p = (case htbl_map (namespaces st) (fst p) of
     None \<Rightarrow> None | Some t \<Rightarrow> htbl_map (tables st t) (snd p))"

definition has_ns :: "config \<Rightarrow> cstring \<Rightarrow> bool" where
  "has_ns st ns \<longleftrightarrow> htbl_map (namespaces st) ns \<noteq> None"

definition config_admits :: "config \<Rightarrow> cstring \<times> cstring \<Rightarrow> bool" where
  "config_admits st p \<longleftrightarrow> (\<exists>t. htbl_map (namespaces st) (fst p) = Some t \<and> can_grow (tables st t))"

lemma config_get_common_ok:
  "config_ok st \<Longrightarrow> config_get_common st ns k =
     Some (if has_ns st ns then Inr (config_map st (ns, k)) else Inl (AssertFailed ''NULL table''))"
  by (auto simp: config_get_common_def config_ok_def htbl_get_ok has_ns_def config_map_def
      split: option.splits)

lemma config_set_common_ok:
  assumes ok: "config_ok st" and a: "config_admits st (ns, k)"
  shows "\<exists>st'. config_set_common st ns k v = Some (Inr st') \<and> config_ok st'
    \<and> config_map st' = (config_map st)((ns, k) \<mapsto> v) \<and> namespaces st' = namespaces st"
proof -
  obtain t where t: "htbl_map (namespaces st) ns = Some t" "can_grow (tables st t)"
    using a by (auto simp: config_admits_def)
  have O: "htbl_ok (namespaces st)" "htbl_ok (tables st t)" using ok t(1) by (auto simp: config_ok_def)
  have inj: "htbl_map (namespaces st) ns' = Some t \<Longrightarrow> ns' = ns" for ns'
    using ok t(1) unfolding config_ok_def by metis
  obtain t' where t': "htbl_put (tables st t) k v = Some (Inr t')" "htbl_ok t'"
    "htbl_map t' = (htbl_map (tables st t))(k \<mapsto> v)"
    using htbl_put_ok [OF O(2) t(2), of k v] by blast
  let ?st = "st\<lparr>tables := (tables st)(t := t')\<rparr>"
  have "config_set_common st ns k v = Some (Inr ?st)"
    by (simp add: config_set_common_def htbl_get_ok [OF O(1)] t(1) t'(1))
  moreover have "config_ok ?st" using ok t'(2) by (auto simp: config_ok_def)
  moreover have "config_map ?st p = ((config_map st)((ns, k) \<mapsto> v)) p" for p
  proof (cases p)
    case (Pair ns' k')
    show ?thesis
    proof (cases "ns' = ns")
      case True
      then show ?thesis using Pair t(1) t'(3) by (simp add: config_map_def)
    next
      case False
      then have "htbl_map (namespaces st) ns' \<noteq> Some t" using inj by blast
      then show ?thesis using Pair False by (simp add: config_map_def split: option.splits)
    qed
  qed
  ultimately show ?thesis by (intro exI [of _ ?st]) (auto simp: fun_eq_iff)
qed

lemma config_newns_ok:
  assumes ok: "config_ok st" and g: "can_grow (namespaces st)"
  shows "\<exists>st'. config_newns st ns = Some (Inr st') \<and> config_ok st' \<and> has_ns st' ns
    \<and> (\<forall>p. config_map st' p = (if fst p = ns then None else config_map st p))
    \<and> (\<forall>ns'. has_ns st' ns' \<longleftrightarrow> ns' = ns \<or> has_ns st ns') \<and> config_admits st' (ns, k)"
proof -
  have O: "htbl_ok (namespaces st)" using ok by (simp add: config_ok_def)
  obtain t where t: "htbl_put (namespaces st) ns (created st) = Some (Inr t)" "htbl_ok t"
    "htbl_map t = (htbl_map (namespaces st))(ns \<mapsto> created st)"
    using htbl_put_ok [OF O g, of ns "created st"] by blast
  let ?st = "st\<lparr>namespaces := t, tables := (tables st)(created st := htbl_create), created := created st + 1\<rparr>"
  note C = htbl_create_ok [where ?'v = config_value]
  have lt: "htbl_map (namespaces st) ns' = Some t' \<Longrightarrow> t' < created st" for ns' t'
    using ok by (auto simp: config_ok_def)
  have inj: "htbl_map (namespaces st) n = Some t' \<Longrightarrow> htbl_map (namespaces st) n' = Some t' \<Longrightarrow> n = n'" for n t' n'
    using ok unfolding config_ok_def by metis
  have "config_newns st ns = Some (Inr ?st)" by (simp add: config_newns_def t(1))
  moreover have "config_ok ?st"
  proof -
    have "\<forall>n n' t'. htbl_map t n = Some t' \<longrightarrow> htbl_map t n' = Some t' \<longrightarrow> n = n'"
    proof (intro allI impI)
      fix n n' t' assume "htbl_map t n = Some t'" "htbl_map t n' = Some t'"
      then show "n = n'" using lt [of n t'] lt [of n' t'] inj [of n t' n']
        unfolding t(3) by (auto split: if_splits)
    qed
    moreover have "\<forall>i < created ?st. htbl_ok (tables ?st i)"
      using ok C by (auto simp: config_ok_def less_Suc_eq)
    moreover have "\<forall>n i. htbl_map t n = Some i \<longrightarrow> i < created ?st"
      using lt by (auto simp: t(3) less_Suc_eq)
    ultimately show ?thesis using t(2) by (simp add: config_ok_def)
  qed
  moreover have "config_map ?st p = (if fst p = ns then None else config_map st p)" for p
  proof (cases "fst p = ns")
    case True
    then show ?thesis by (simp add: config_map_def t(3) C)
  next
    case False
    then show ?thesis using lt by (fastforce simp: config_map_def t(3) split: option.splits)
  qed
  moreover have "config_admits ?st (ns, k)"
    using C by (simp add: config_admits_def t(3) can_grow_def)
  ultimately show ?thesis
    by (intro exI [of _ ?st]) (auto simp: has_ns_def t(3))
qed

section \<open>The configuration is a key-value store\<close>

definition config_update :: "config \<Rightarrow> cstring \<times> cstring \<Rightarrow> config_value \<Rightarrow> config option" where
  "config_update st p v = (case config_set_common st (fst p) (snd p) v of Some (Inr st') \<Rightarrow> Some st' | _ \<Rightarrow> None)"

interpretation conf: kv_store config_map config_update config_ok config_admits
proof (unfold_locales, goal_cases)
  case (1 st p v)
  then show ?case using config_set_common_ok [of st "fst p" "snd p" v] by (auto simp: config_update_def)
next
  case (2 st p v st' q)
  then show ?case using config_set_common_ok [of st "fst p" "snd p" v] by (auto simp: config_update_def)
qed

lemma config_setstrns_eq:
  "config_ok st \<Longrightarrow> has_ns st ns \<Longrightarrow> config_setstrns st ns k v = config_set_common st ns k (Sval v)"
  by (simp add: config_setstrns_def config_get_common_ok)

lemma admits_has_ns: "config_admits st (ns, k) \<Longrightarrow> has_ns st ns"
  by (auto simp: config_admits_def has_ns_def)

lemma config_set_paths:
  assumes ok: "config_ok st" and p: "config_parse_key path = Some (ns, k)" and a: "config_admits st (ns, k)"
  shows "config_setstr st path s = config_set_common st ns k (Sval s)"
    "config_setint st path i = config_set_common st ns k (Ival i)"
    "config_setobj st path ptr = config_set_common st ns k (Oval ptr)"
  using p config_setstrns_eq [OF ok admits_has_ns [OF a]]
  by (simp_all add: config_setstr_def config_setint_def config_setobj_def config_setintns_def config_setobjns_def)

text \<open>What the six readers of a path return.\<close>

lemma config_get_paths:
  assumes ok: "config_ok st" and p: "config_parse_key path = Some (ns, k)" and n: "has_ns st ns"
  shows "config_getstr st path = Some (Inr (case config_map st (ns, k) of Some (Sval s) \<Rightarrow> Some s | _ \<Rightarrow> None))"
    "config_getint st path = Some (Inr (case config_map st (ns, k) of Some (Ival i) \<Rightarrow> i | _ \<Rightarrow> 0))"
    "config_getobj st path = Some (Inr (case config_map st (ns, k) of Some (Oval q) \<Rightarrow> q | _ \<Rightarrow> 0))"
    "config_exists st path = Some (Inr (config_map st (ns, k) \<noteq> None))"
    "config_gettype st path = Some (Inr (case config_map st (ns, k) of None \<Rightarrow> 0 | Some v \<Rightarrow> config_type v))"
  using p config_get_common_ok [OF ok, of ns k] n
  by (simp_all add: config_getstr_def config_getint_def config_getobj_def config_exists_def
      config_gettype_def config_getstrns_def config_getintns_def config_getobjns_def
      config_existsns_def config_gettypens_def)

lemma parse_path: "58 \<notin> set ns \<Longrightarrow> config_parse_key (ns @ 58 # k) = Some (ns, k)"
proof -
  assume "58 \<notin> set ns"
  then have "find_char 58 (ns @ 58 # k) = Some (length ns)" by (induction ns) auto
  then show ?thesis by (simp add: config_parse_key_def)
qed

section \<open>The properties\<close>


text \<open>A configuration with one registered namespace, for the witnesses.\<close>

definition config0 :: config where
  "config0 = config_init \<lparr>namespaces = htbl_create, tables = (\<lambda>_. htbl_create), created = 0\<rparr>"

lemma config0_ok: "config_ok config0 \<and> can_grow (namespaces config0) \<and> \<not> has_ns config0 ns"
  using htbl_create_ok [where ?'v = nat]
  by (simp add: config0_def config_init_def config_ok_def has_ns_def can_grow_def)


text \<open>
  Every reader and writer of a path whose namespace was never registered fails the null-table
  \<open>ASSERT\<close>, also the presence check \<open>config_exists\<close>, whose contract is to return zero for a key
  that is not present.
\<close>

theorem config_unknown_namespace:
  assumes "config_ok st" "config_parse_key path = Some (ns, k)" "\<not> has_ns st ns"
  shows "config_exists st path = Some (Inl (AssertFailed ''NULL table''))
    \<and> config_gettype st path = Some (Inl (AssertFailed ''NULL table''))
    \<and> config_getstr st path = Some (Inl (AssertFailed ''NULL table''))
    \<and> config_getint st path = Some (Inl (AssertFailed ''NULL table''))
    \<and> config_getobj st path = Some (Inl (AssertFailed ''NULL table''))
    \<and> config_setstr st path s = Some (Inl (AssertFailed ''NULL table''))
    \<and> config_setint st path i = Some (Inl (AssertFailed ''NULL table''))"
proof -
  have "htbl_get (namespaces st) ns = Some (Inr None)"
    using assms(1,3) by (simp add: config_ok_def has_ns_def htbl_get_ok)
  then show ?thesis
    using assms(2) config_get_common_ok [OF assms(1), of ns k] assms(3)
    by (simp add: config_exists_def config_existsns_def config_gettype_def config_gettypens_def
        config_getstr_def config_getstrns_def config_getint_def config_getintns_def config_getobj_def
        config_getobjns_def config_setstr_def config_setstrns_def config_setint_def config_setintns_def
        config_set_common_def)
qed

lemma config_unknown_namespace_witness:
  "config_exists config0 [110, 58, 107] = Some (Inl (AssertFailed ''NULL table''))"
  using config_unknown_namespace [of config0 "[110, 58, 107]" "[110]" "[107]"] config0_ok
  by (simp add: config_parse_key_def)

end
