(* ===== verification/Kenv.thy ===== *)
theory Kenv
  imports Kv_Store Cstring
begin

text \<open>
  The environment (\<open>kern/env.c\<close>, \<open>kern/env.h\<close>): 128 slots searched linearly, each with a status
  byte, a key of at most 63 characters and a value pointer, and the parsing of \<open>key=value\<close>
  lines into it. Keys and lines are C string values; a slot that was never used has status 0.
  A value is a non-null pointer of type \<open>'v\<close>, \<open>None\<close> for the zero of a fresh slot.
\<close>

section \<open>The code\<close>

definition ENV_SIZE :: nat where "ENV_SIZE = 128"
definition ENV_KEY_LEN :: nat where "ENV_KEY_LEN = 64"
definition ENV_PRESENT :: u8 where "ENV_PRESENT = 1"
definition ENV_EMPTY :: u8 where "ENV_EMPTY = 2"

record 'v env_item =
  status :: u8
  ekey :: cstring
  evalue :: "'v option"

record 'v env =
  env_max :: nat
  current :: nat
  items :: "'v env_item list"

definition env_init :: "'v env" where
  "env_init = \<lparr>env_max = ENV_SIZE, current = 0,
     items = replicate ENV_SIZE \<lparr>status = 0, ekey = [], evalue = None\<rparr>\<rparr>"

text \<open>The loops return the first index that satisfies their test; \<open>None\<close> is the result -1.\<close>

definition env_index :: "'v env \<Rightarrow> cstring \<Rightarrow> nat option" where
  "env_index env key =
     find (\<lambda>i. status (items env ! i) AND ENV_PRESENT \<noteq> 0 \<and> key = ekey (items env ! i)) [0..<current env]"

definition env_first_free :: "'v env \<Rightarrow> nat option \<times> 'v env" where
  "env_first_free env =
     (case find (\<lambda>i. status (items env ! i) AND ENV_EMPTY \<noteq> 0) [0..<current env] of
        Some i \<Rightarrow> (Some i, env)
      | None \<Rightarrow> if env_max env \<le> current env then (None, env)
          else (Some (current env), env\<lparr>current := current env + 1\<rparr>))"

definition set_item :: "nat \<Rightarrow> ('v env_item \<Rightarrow> 'v env_item) \<Rightarrow> 'v env \<Rightarrow> 'v env" where
  "set_item i f env = env\<lparr>items := (items env)[i := f (items env ! i)]\<rparr>"

definition env_put :: "'v env \<Rightarrow> cstring \<Rightarrow> 'v \<Rightarrow> 'v env outcome" where
  "env_put env key value = (case env_index env key of
     Some index \<Rightarrow> Inr (set_item index (evalue_update (\<lambda>_. Some value)) env)
   | None \<Rightarrow> assert_that (length key < ENV_KEY_LEN) ''Key too long for environment''
       (case env_first_free env of
          (Some index, env) \<Rightarrow> Inr (set_item index
            (\<lambda>_. \<lparr>status = ENV_PRESENT, ekey = key, evalue = Some value\<rparr>) env)
        | (None, env) \<Rightarrow> Inr env))"

text \<open>The returned pointer is the address of the item, here its index.\<close>

definition env_remove :: "'v env \<Rightarrow> cstring \<Rightarrow> nat option \<times> 'v env" where
  "env_remove env key = (case env_index env key of
     Some index \<Rightarrow> (Some index, set_item index (status_update (\<lambda>_. ENV_EMPTY)) env)
   | None \<Rightarrow> (None, env))"

definition env_get :: "'v env \<Rightarrow> cstring \<Rightarrow> 'v option" where
  "env_get env key = (case env_index env key of Some index \<Rightarrow> evalue (items env ! index) | None \<Rightarrow> None)"

text \<open>The calls of the iterator, in order.\<close>

definition env_iterate :: "'v env \<Rightarrow> (cstring \<times> 'v option) list" where
  "env_iterate env = map (\<lambda>i. (ekey (items env ! i), evalue (items env ! i)))
     (filter (\<lambda>i. status (items env ! i) AND ENV_PRESENT \<noteq> 0) [0..<current env])"

text \<open>The split at the first \<open>=\<close> is in place: the value is the rest of the same string.\<close>

definition env_kvp_str_add :: "cstring env \<Rightarrow> cstring \<Rightarrow> (bool \<times> cstring env) outcome" where
  "env_kvp_str_add env kvp_string = (case find_char 61 kvp_string of
     None \<Rightarrow> Inr (False, env)
   | Some mid \<Rightarrow> bind_outcome (env_put env (take mid kvp_string) (drop (Suc mid) kvp_string))
       (\<lambda>env. Inr (True, env)))"

lemma length_after_token: "token_of ds s \<noteq> [] \<Longrightarrow> length (after_token ds s) < length s"
proof -
  assume t: "token_of ds s \<noteq> []"
  then have "dropWhile (\<lambda>c. c \<in> set ds) s \<noteq> []" unfolding token_of_def by force
  then have "length (after_token ds s) < length (dropWhile (\<lambda>c. c \<in> set ds) s)"
    by (cases "dropWhile (\<lambda>c. c \<in> set ds) s") (simp_all add: after_token_def)
  also have "\<dots> \<le> length s" by (rule length_dropWhile_le)
  finally show ?thesis .
qed

text \<open>\<open>strtok\<close> with the delimiter \<open>\n\<close>: the first token and the text saved for the next call.\<close>

function env_kvp_lines_add :: "cstring env \<Rightarrow> cstring \<Rightarrow> (bool \<times> cstring env) outcome" where
  "env_kvp_lines_add env kvp_lines =
     (let token = token_of [10] kvp_lines in
      if token = [] then Inr (True, env)
      else bind_outcome (env_kvp_str_add env token) (\<lambda>(added, env).
        if \<not> added then Inr (False, env)
        else env_kvp_lines_add env (after_token [10] kvp_lines)))"
  by pat_completeness auto
termination
  by (relation "measure (\<lambda>(env, s). length s)") (auto simp: length_after_token)

declare env_kvp_lines_add.simps [simp del]

section \<open>Well-formed environments\<close>

definition present :: "'v env \<Rightarrow> nat \<Rightarrow> bool" where
  "present env i \<longleftrightarrow> status (items env ! i) = ENV_PRESENT"

definition env_ok :: "'v env \<Rightarrow> bool" where
  "env_ok env \<longleftrightarrow> env_max env = ENV_SIZE \<and> length (items env) = ENV_SIZE \<and> current env \<le> ENV_SIZE
     \<and> (\<forall>i < current env. status (items env ! i) = ENV_PRESENT \<or> status (items env ! i) = ENV_EMPTY)
     \<and> (\<forall>i < current env. present env i \<longrightarrow> length (ekey (items env ! i)) < ENV_KEY_LEN
          \<and> evalue (items env ! i) \<noteq> None)
     \<and> (\<forall>i < current env. \<forall>j < current env. present env i \<longrightarrow> present env j \<longrightarrow>
          ekey (items env ! i) = ekey (items env ! j) \<longrightarrow> i = j)"

text \<open>There is a slot for a new key.\<close>

definition env_room :: "'v env \<Rightarrow> bool" where
  "env_room env \<longleftrightarrow> current env < ENV_SIZE \<or> (\<exists>i < current env. status (items env ! i) = ENV_EMPTY)"

lemma status_bits [simp]:
  "ENV_PRESENT \<noteq> 0" "ENV_EMPTY \<noteq> 0" "ENV_EMPTY AND ENV_PRESENT = 0" "ENV_PRESENT AND ENV_EMPTY = 0"
  "ENV_PRESENT \<noteq> ENV_EMPTY" "ENV_EMPTY \<noteq> ENV_PRESENT"
  by (simp_all add: ENV_PRESENT_def ENV_EMPTY_def)

lemma find_upt_Some: "find P [0..<n] = Some i \<Longrightarrow> i < n \<and> P i"
  by (auto simp: find_Some_iff)

lemma find_upt_None: "find P [0..<n] = None \<longleftrightarrow> (\<forall>i < n. \<not> P i)"
  by (simp add: find_None_iff)

lemma env_okD:
  assumes "env_ok env"
  shows "env_max env = ENV_SIZE" "length (items env) = ENV_SIZE" "current env \<le> ENV_SIZE"
    "\<And>i. i < current env \<Longrightarrow> status (items env ! i) = ENV_PRESENT \<or> status (items env ! i) = ENV_EMPTY"
    "\<And>i. i < current env \<Longrightarrow> present env i \<Longrightarrow> length (ekey (items env ! i)) < ENV_KEY_LEN"
    "\<And>i. i < current env \<Longrightarrow> present env i \<Longrightarrow> \<exists>v. evalue (items env ! i) = Some v"
    "\<And>i j. i < current env \<Longrightarrow> j < current env \<Longrightarrow> present env i \<Longrightarrow> present env j \<Longrightarrow>
       ekey (items env ! i) = ekey (items env ! j) \<Longrightarrow> i = j"
  using assms unfolding env_ok_def by blast+

lemma status_iff:
  assumes "env_ok env" "i < current env"
  shows "status (items env ! i) AND ENV_PRESENT \<noteq> 0 \<longleftrightarrow> present env i"
    and "status (items env ! i) AND ENV_EMPTY \<noteq> 0 \<longleftrightarrow> \<not> present env i"
  using env_okD(4) [OF assms] by (auto simp: present_def)

lemma env_indexD:
  assumes "env_ok env" "env_index env k = Some i"
  shows "i < current env \<and> present env i \<and> ekey (items env ! i) = k"
  using find_upt_Some [OF assms(2) [unfolded env_index_def]] status_iff [OF assms(1)] by blast

lemma env_index_None:
  assumes "env_ok env"
  shows "env_index env k = None \<longleftrightarrow> (\<forall>i < current env. present env i \<longrightarrow> ekey (items env ! i) \<noteq> k)"
  unfolding env_index_def find_upt_None using status_iff [OF assms] by blast

lemma env_index_at:
  assumes "env_ok env" "i < current env" "present env i"
  shows "env_index env (ekey (items env ! i)) = Some i"
proof (cases "env_index env (ekey (items env ! i))")
  case None
  then show ?thesis using env_index_None [OF assms(1)] assms(2,3) by blast
next
  case (Some j)
  then show ?thesis using env_indexD [OF assms(1) Some] env_okD(7) [OF assms(1)] assms(2,3) by metis
qed

lemma env_get_None:
  assumes "env_ok env"
  shows "env_get env k = None \<longleftrightarrow> env_index env k = None"
proof (cases "env_index env k")
  case (Some i)
  then show ?thesis
    using env_okD(6) [OF assms] env_indexD [OF assms Some] by (fastforce simp: env_get_def)
qed (simp add: env_get_def)

text \<open>
  Replacing a slot below \<open>current\<close> by an item for the key \<open>k\<close>, when no other slot holds \<open>k\<close>:
  the two ways \<open>env_put\<close> stores.
\<close>

lemma env_store:
  assumes ok: "env_ok env" and n: "n = current env \<or> (n = Suc (current env) \<and> i = current env)"
    and i: "i < n" "n \<le> ENV_SIZE" and k: "length k < ENV_KEY_LEN"
    and other: "\<And>j. j < current env \<Longrightarrow> j \<noteq> i \<Longrightarrow> present env j \<Longrightarrow> ekey (items env ! j) \<noteq> k"
    and old: "i < current env \<Longrightarrow> present env i \<Longrightarrow> ekey (items env ! i) = k"
    and item: "it = \<lparr>status = ENV_PRESENT, ekey = k, evalue = Some v\<rparr>"
  defines "env' \<equiv> env\<lparr>current := n, items := (items env)[i := it]\<rparr>"
  shows "env_ok env'" "env_get env' j = (if j = k then Some v else env_get env j)"
proof -
  note D = env_okD [OF ok]
  have il: "i < length (items env)" using i D(2) by simp
  have nth: "items env' ! j = (if j = i then it else items env ! j)" for j
    using il by (simp add: env'_def)
  have pres: "present env' j \<longleftrightarrow> j = i \<or> present env j" for j
    by (simp add: present_def nth item)
  have cur: "j < n \<Longrightarrow> j \<noteq> i \<Longrightarrow> j < current env" for j using n by auto
  have c': "current env' = n" by (simp add: env'_def)
  show ok': "env_ok env'"
    unfolding env_ok_def c' pres nth
  proof (intro conjI allI impI)
    show "env_max env' = ENV_SIZE" "length (items env') = ENV_SIZE" "n \<le> ENV_SIZE"
      using D i by (simp_all add: env'_def)
    fix j assume j: "j < n"
    show "status (if j = i then it else items env ! j) = ENV_PRESENT
        \<or> status (if j = i then it else items env ! j) = ENV_EMPTY"
      using D(4) cur [OF j] by (auto simp: item)
    assume p: "j = i \<or> present env j"
    show "length (ekey (if j = i then it else items env ! j)) < ENV_KEY_LEN"
      using D(5) cur [OF j] p k by (auto simp: item)
    show "evalue (if j = i then it else items env ! j) \<noteq> None"
      using D(6) cur [OF j] p by (auto simp: item)
    fix l assume l: "l < n" "l = i \<or> present env l"
      "ekey (if j = i then it else items env ! j) = ekey (if l = i then it else items env ! l)"
    show "j = l"
    proof (cases "j = i"; cases "l = i")
      assume c: "j = i" "l \<noteq> i"
      then have "ekey (items env ! l) = k" using l(3) by (simp add: item)
      then show "j = l" using other [OF cur [OF l(1) c(2)] c(2)] l(2) c(2) by blast
    next
      assume c: "j \<noteq> i" "l = i"
      then have "ekey (items env ! j) = k" using l(3) by (simp add: item)
      then show "j = l" using other [OF cur [OF j c(1)] c(1)] p c(1) by blast
    next
      assume c: "j \<noteq> i" "l \<noteq> i"
      then have "ekey (items env ! j) = ekey (items env ! l)" using l(3) by simp
      then show "j = l" using D(7) [OF cur [OF j c(1)] cur [OF l(1) c(2)]] p l(2) c by blast
    qed simp
  qed
  show "env_get env' j = (if j = k then Some v else env_get env j)"
  proof (cases "j = k")
    case True
    have "env_index env' (ekey (items env' ! i)) = Some i"
      using env_index_at [OF ok'] i(1) by (simp add: c' pres)
    then show ?thesis using True by (simp add: env_get_def nth item)
  next
    case False
    show ?thesis
    proof (cases "env_index env j")
      case None
      then have "env_index env' j = None"
        unfolding env_index_None [OF ok] env_index_None [OF ok'] c' pres nth using cur False by (auto simp: item)
      then show ?thesis using None False by (simp add: env_get_def)
    next
      case (Some l)
      then have l: "l < current env" "present env l" "ekey (items env ! l) = j"
        using env_indexD [OF ok] by blast+
      then have "l \<noteq> i" using old False by auto
      moreover have "l < n" using l(1) n by auto
      ultimately have "env_index env' (ekey (items env' ! l)) = Some l"
        using env_index_at [OF ok'] l(2) by (simp add: c' pres)
      then show ?thesis using Some \<open>l \<noteq> i\<close> l(3) False by (simp add: env_get_def nth)
    qed
  qed
qed

lemma env_put_ok:
  assumes ok: "env_ok env" and k: "length k < ENV_KEY_LEN" and room: "env_index env k \<noteq> None \<or> env_room env"
  shows "\<exists>env'. env_put env k v = Inr env' \<and> env_ok env' \<and> (\<forall>j. env_get env' j = (if j = k then Some v else env_get env j))"
proof (cases "env_index env k")
  case (Some i)
  note I = env_indexD [OF ok Some]
  have it: "(items env ! i)\<lparr>evalue := Some v\<rparr> = \<lparr>status = ENV_PRESENT, ekey = k, evalue = Some v\<rparr>"
    using I by (cases "items env ! i") (simp add: present_def)
  have "env_put env k v = Inr (env\<lparr>current := current env,
      items := (items env)[i := (items env ! i)\<lparr>evalue := Some v\<rparr>]\<rparr>)"
    using Some by (simp add: env_put_def set_item_def)
  moreover have other: "ekey (items env ! j) \<noteq> k" if "j < current env" "j \<noteq> i" "present env j" for j
    using env_okD(7) [OF ok, of j i] that I by auto
  ultimately show ?thesis
    using env_store [OF ok _ _ _ k other _ it, where n = "current env"] I env_okD(3) [OF ok] by auto
next
  case None
  have fresh: "ekey (items env ! j) \<noteq> k" if "j < current env" "present env j" for j
    using None env_index_None [OF ok] that by blast
  show ?thesis
  proof (cases "find (\<lambda>i. status (items env ! i) AND ENV_EMPTY \<noteq> 0) [0..<current env]")
    case (Some i)
    have i: "i < current env" "\<not> present env i"
      using find_upt_Some [OF Some] status_iff(2) [OF ok] by blast+
    have "env_put env k v = Inr (env\<lparr>current := current env,
        items := (items env)[i := \<lparr>status = ENV_PRESENT, ekey = k, evalue = Some v\<rparr>]\<rparr>)"
      using None Some k by (simp add: env_put_def env_first_free_def set_item_def)
    then show ?thesis
      using env_store [OF ok _ _ _ k _ _ refl, where n = "current env" and i = i and v = v] i fresh env_okD(3) [OF ok] by auto
  next
    case full: None
    then have "\<forall>i < current env. present env i"
      using status_iff(2) [OF ok] unfolding find_upt_None by blast
    then have lt: "current env < ENV_SIZE"
      using room None by (auto simp: env_room_def present_def)
    have "env_put env k v = Inr (env\<lparr>current := Suc (current env),
        items := (items env)[current env := \<lparr>status = ENV_PRESENT, ekey = k, evalue = Some v\<rparr>]\<rparr>)"
      using None full k lt env_okD(1) [OF ok] by (simp add: env_put_def env_first_free_def set_item_def)
    then show ?thesis
      using env_store [OF ok _ _ _ k _ _ refl, where n = "Suc (current env)" and i = "current env" and v = v] fresh lt by auto
  qed
qed

text \<open>The two ways \<open>env_put\<close> refuses a new key: too long, or no slot.\<close>

lemma env_put_refused:
  assumes ok: "env_ok env" and new: "env_index env k = None"
  shows "\<not> length k < ENV_KEY_LEN \<Longrightarrow> env_put env k v = Inl (AssertFailed ''Key too long for environment'')"
    and "length k < ENV_KEY_LEN \<Longrightarrow> \<not> env_room env \<Longrightarrow> env_put env k v = Inr env"
proof -
  show "\<not> length k < ENV_KEY_LEN \<Longrightarrow> env_put env k v = Inl (AssertFailed ''Key too long for environment'')"
    using new by (simp add: env_put_def)
  assume k: "length k < ENV_KEY_LEN" and room: "\<not> env_room env"
  then have "\<forall>i < current env. present env i" "ENV_SIZE \<le> current env"
    using env_okD(4) [OF ok] by (auto simp: env_room_def present_def)
  then have "find (\<lambda>i. status (items env ! i) AND ENV_EMPTY \<noteq> 0) [0..<current env] = None"
    using status_iff(2) [OF ok] unfolding find_upt_None by blast
  then show "env_put env k v = Inr env"
    using new k \<open>ENV_SIZE \<le> current env\<close> env_okD(1) [OF ok] by (simp add: env_put_def env_first_free_def)
qed

lemma env_remove_ok:
  assumes ok: "env_ok env" and r: "env_remove env k = (r, env')"
  shows "env_ok env' \<and> r = env_index env k \<and> (\<forall>j. env_get env' j = (if j = k then None else env_get env j))"
proof (cases "env_index env k")
  case None
  then show ?thesis using ok r env_get_None [OF ok] by (auto simp: env_remove_def)
next
  case (Some i)
  note I = env_indexD [OF ok Some] and D = env_okD [OF ok]
  have e': "env' = env\<lparr>items := (items env)[i := (items env ! i)\<lparr>status := ENV_EMPTY\<rparr>]\<rparr>" and ri: "r = Some i"
    using r Some by (auto simp: env_remove_def set_item_def)
  have il: "i < length (items env)" using I D(2,3) by simp
  have nth: "items env' ! j = (if j = i then (items env ! i)\<lparr>status := ENV_EMPTY\<rparr> else items env ! j)" for j
    using il by (simp add: e')
  have pres: "present env' j \<longleftrightarrow> j \<noteq> i \<and> present env j" for j by (simp add: present_def nth)
  have cur: "current env' = current env" by (simp add: e')
  have ok': "env_ok env'"
    unfolding env_ok_def cur pres
  proof (intro conjI allI impI)
    show "env_max env' = ENV_SIZE" "length (items env') = ENV_SIZE" "current env \<le> ENV_SIZE"
      using D by (simp_all add: e')
  next
    fix j assume "j < current env"
    then show "status (items env' ! j) = ENV_PRESENT \<or> status (items env' ! j) = ENV_EMPTY"
      using D(4) by (simp add: nth)
  next
    fix j assume "j < current env" "j \<noteq> i \<and> present env j"
    then show "length (ekey (items env' ! j)) < ENV_KEY_LEN" "evalue (items env' ! j) \<noteq> None"
      using D(5,6) by (simp_all add: nth)
  next
    fix j l assume "j < current env" "l < current env" "j \<noteq> i \<and> present env j" "l \<noteq> i \<and> present env l"
      "ekey (items env' ! j) = ekey (items env' ! l)"
    then show "j = l" using D(7) by (simp add: nth)
  qed
  have "env_get env' j = (if j = k then None else env_get env j)" for j
  proof (cases "j = k")
    case True
    have "present env l \<longrightarrow> l \<noteq> i \<longrightarrow> ekey (items env ! l) \<noteq> k" if "l < current env" for l
      using D(7) [of l i] that I by auto
    then have "env_index env' k = None"
      unfolding env_index_None [OF ok'] cur pres nth by simp
    then show ?thesis using True by (simp add: env_get_def)
  next
    case False
    show ?thesis
    proof (cases "env_index env j")
      case None
      then have "env_index env' j = None"
        unfolding env_index_None [OF ok] env_index_None [OF ok'] cur pres nth by auto
      then show ?thesis using None False by (simp add: env_get_def)
    next
      case (Some l)
      note L = env_indexD [OF ok Some]
      then have "l \<noteq> i" using I False by auto
      then have "env_index env' (ekey (items env' ! l)) = Some l"
        using env_index_at [OF ok'] L by (simp add: cur pres)
      then show ?thesis using Some \<open>l \<noteq> i\<close> L False by (simp add: env_get_def nth)
    qed
  qed
  then show ?thesis using ok' ri Some by simp
qed

lemma env_init_ok: "env_ok env_init \<and> env_get env_init k = None \<and> env_room (env_init :: 'v env)"
  by (simp add: env_ok_def env_init_def env_get_def env_index_def env_room_def ENV_SIZE_def)

section \<open>The environment is a key-value store\<close>

definition env_update :: "'v env \<Rightarrow> cstring \<Rightarrow> 'v \<Rightarrow> 'v env option" where
  "env_update env k v = (case env_put env k v of Inr env' \<Rightarrow> Some env' | Inl e \<Rightarrow> None)"

lemma env_update_Some: "env_update env k v = Some e \<longleftrightarrow> env_put env k v = Inr e"
  by (simp add: env_update_def split: sum.splits)

definition env_admits :: "'v env \<Rightarrow> cstring \<Rightarrow> bool" where
  "env_admits env k \<longleftrightarrow> length k < ENV_KEY_LEN \<and> (env_index env k \<noteq> None \<or> env_room env)"

interpretation kenv: kv_store env_get env_update env_ok env_admits
proof (unfold_locales, goal_cases)
  case (1 env k v)
  then show ?case using env_put_ok [of env k v] by (auto simp: env_update_def env_admits_def)
next
  case (2 env k v env' j)
  then show ?case using env_put_ok [of env k v] by (auto simp: env_update_def env_admits_def)
qed

section \<open>Lines of bindings\<close>

text \<open>A binding that can be written as a line and read back: no newline, no \<open>=\<close> in the key.\<close>

definition line_ok :: "cstring \<times> cstring \<Rightarrow> bool" where
  "line_ok b \<longleftrightarrow> 10 \<notin> set (fst b) \<and> 61 \<notin> set (fst b) \<and> 10 \<notin> set (snd b)"

definition render :: "(cstring \<times> cstring) list \<Rightarrow> cstring" where
  "render bs = concat (map (\<lambda>b. fst b @ 61 # snd b @ [10]) bs)"

lemma find_char_first: "c \<notin> set xs \<Longrightarrow> find_char c (xs @ c # ys) = Some (length xs)"
  by (induction xs) auto

lemma line_token:
  assumes "line_ok b"
  shows "token_of [10] (fst b @ 61 # snd b @ 10 # rest) = fst b @ 61 # snd b"
    and "after_token [10] (fst b @ 61 # snd b @ 10 # rest) = rest"
proof -
  have head: "dropWhile (\<lambda>c. c \<in> set [10]) (fst b @ 61 # snd b @ 10 # rest) = fst b @ 61 # snd b @ 10 # rest"
    using assms by (cases "fst b") (auto simp: line_ok_def)
  have "takeWhile (\<lambda>c. c \<notin> set [10]) ((fst b @ 61 # snd b) @ 10 # rest) = fst b @ 61 # snd b"
    using assms by (subst takeWhile_append2) (auto simp: line_ok_def)
  then show tok: "token_of [10] (fst b @ 61 # snd b @ 10 # rest) = fst b @ 61 # snd b"
    unfolding token_of_def head by simp
  show "after_token [10] (fst b @ 61 # snd b @ 10 # rest) = rest"
    unfolding after_token_def tok head by simp
qed

lemma kvp_lines_step:
  assumes "line_ok b" "env_put env (fst b) (snd b) = Inr env'"
  shows "env_kvp_lines_add env (render (b # bs)) = env_kvp_lines_add env' (render bs)"
proof -
  have r: "render (b # bs) = fst b @ 61 # snd b @ 10 # render bs" by (simp add: render_def)
  have "env_kvp_str_add env (fst b @ 61 # snd b) = Inr (True, env')"
    using assms find_char_first [of 61 "fst b" "snd b"] by (simp add: env_kvp_str_add_def line_ok_def)
  then show ?thesis
    unfolding r by (subst env_kvp_lines_add.simps) (simp add: line_token [OF assms(1)] Let_def)
qed

lemma kvp_lines_render:
  "kenv.update_all env bs = Some env' \<Longrightarrow> \<forall>b \<in> set bs. line_ok b \<Longrightarrow>
   env_kvp_lines_add env (render bs) = Inr (True, env')"
proof (induction bs arbitrary: env)
  case Nil
  then show ?case by (subst env_kvp_lines_add.simps) (simp add: render_def token_of_def)
next
  case (Cons b bs)
  then obtain e where e: "env_put env (fst b) (snd b) = Inr e" "kenv.update_all e bs = Some env'"
    by (auto simp: env_update_Some)
  then show ?case using Cons kvp_lines_step [OF _ e(1)] by simp
qed

section \<open>The properties\<close>

text \<open>
  C9: The environment on a well-formed state: a put of a short key that is known or has a slot
  makes that key, and only it, read as the new value; a put of a new key without a slot changes
  nothing and one of a long new key fails its \<open>ASSERT\<close>; a remove makes the key, and only it,
  unbound; the state stays well-formed throughout.
\<close>

theorem env_operations:
  assumes "env_ok env"
  shows "(env_admits env k \<longrightarrow> (\<exists>env'. env_put env k v = Inr env' \<and> env_ok env'
        \<and> (\<forall>j. env_get env' j = (if j = k then Some v else env_get env j))))
    \<and> (env_index env k = None \<and> \<not> length k < ENV_KEY_LEN \<longrightarrow>
        env_put env k v = Inl (AssertFailed ''Key too long for environment''))
    \<and> (env_index env k = None \<and> length k < ENV_KEY_LEN \<and> \<not> env_room env \<longrightarrow> env_put env k v = Inr env)
    \<and> (\<exists>r env'. env_remove env k = (r, env') \<and> r = env_index env k \<and> env_ok env'
        \<and> (\<forall>j. env_get env' j = (if j = k then None else env_get env j)))"
proof (intro conjI impI)
  assume "env_admits env k"
  then show "\<exists>env'. env_put env k v = Inr env' \<and> env_ok env'
      \<and> (\<forall>j. env_get env' j = (if j = k then Some v else env_get env j))"
    using env_put_ok [OF assms] by (simp add: env_admits_def)
next
  obtain r env' where r: "env_remove env k = (r, env')" by (cases "env_remove env k")
  then show "\<exists>r env'. env_remove env k = (r, env') \<and> r = env_index env k \<and> env_ok env'
      \<and> (\<forall>j. env_get env' j = (if j = k then None else env_get env j))"
    using env_remove_ok [OF assms r] by blast
qed (use env_put_refused [OF assms] in auto)

lemma env_operations_witness:
  "\<exists>env'. env_put (env_init :: nat env) [107] 5 = Inr env' \<and> env_get env' [107] = Some 5"
proof -
  have a: "env_ok (env_init :: nat env)" "env_admits (env_init :: nat env) [107]"
    using env_init_ok by (auto simp: env_admits_def ENV_KEY_LEN_def)
  from conjunct1 [OF env_operations [OF a(1), of "[107]" 5]] a(2) show ?thesis by auto
qed

text \<open>
  C10: Reading back a configuration text: when the environment has room for the bindings, adding
  the text that writes them one per line as \<open>key=value\<close> reports success, and afterwards each key
  reads as the value on its last line and the other keys as before.
\<close>

theorem env_lines_roundtrip:
  assumes "env_ok env" "kenv.admits_all env bs" "\<forall>b \<in> set bs. line_ok b"
  shows "\<exists>env'. env_kvp_lines_add env (render bs) = Inr (True, env') \<and> env_ok env'
    \<and> (\<forall>k. env_get env' k = (case map_of (rev bs) k of Some v \<Rightarrow> Some v | None \<Rightarrow> env_get env k))"
  using kenv.update_all_lookup [OF assms(1,2)] kvp_lines_render assms(3) by blast

lemma env_lines_roundtrip_witness:
  "\<exists>env'. env_kvp_lines_add env_init (render [([97], [49])]) = Inr (True, env') \<and> env_get env' [97] = Some [49]"
proof -
  have "env_ok (env_init :: cstring env)" "kenv.admits_all env_init [([97], [49 :: u8])]"
    using env_init_ok by (auto simp: env_admits_def ENV_KEY_LEN_def)
  from env_lines_roundtrip [OF this] show ?thesis by (auto simp: line_ok_def)
qed

text \<open>
  \<open>env_remove\<close> returns the address of the removed item and not the value stored in it, as its
  comment says: removing a bound key returns a pointer whatever value is stored.
\<close>

theorem env_remove_returns_item:
  assumes "env_ok env" "env_get env k = Some v"
  shows "\<exists>i < current env. fst (env_remove env k) = Some i \<and> ekey (items env ! i) = k
    \<and> evalue (items (snd (env_remove env k)) ! i) = Some v"
proof -
  have "env_index env k \<noteq> None" using assms env_get_None [OF assms(1)] by force
  then obtain i where i: "env_index env k = Some i" by blast
  note I = env_indexD [OF assms(1) i]
  then have "i < length (items env)" using env_okD(2,3) [OF assms(1)] by simp
  then show ?thesis using I i assms(2)
    by (intro exI [of _ i]) (simp add: env_remove_def set_item_def env_get_def)
qed

lemma env_remove_returns_item_witness:
  "\<exists>env. env_get env [107] = Some (5 :: nat) \<and> (\<exists>i. fst (env_remove env [107]) = Some i)"
proof -
  have a: "env_ok (env_init :: nat env)" "env_admits (env_init :: nat env) [107]"
    using env_init_ok by (auto simp: env_admits_def ENV_KEY_LEN_def)
  obtain e where e: "env_ok e" "env_get e [107] = Some (5 :: nat)"
    using env_put_ok [OF a(1), of "[107]" 5] a(2) by (auto simp: env_admits_def)
  from env_remove_returns_item [OF e] e(2) show ?thesis by blast
qed

end
