(* ===== verification/Bdrive.thy ===== *)
theory Bdrive
  imports Cstring
begin

text \<open>
  BIOS hard disks (\<open>kern/io/bios_drive.c\<close>) and real-mode addresses (\<open>kern/sys/addressing.h\<close>).
  Memory is the flat byte memory of theory Cmem; \<open>lmda\<close> and \<open>lmb\<close> are the addresses of
  \<open>low_mem_disk_addr\<close> and \<open>low_mem_buffer\<close>, which the loader places in low memory. The BIOS
  is a parameter: a function from the registers, the memory and a disk state to new ones, run
  by \<open>bios_interrupt\<close>.
\<close>

section \<open>Real-mode addresses\<close>

definition SEGOF :: "u32 \<Rightarrow> u32" where "SEGOF x = drop_bit 4 x"
definition OFFOF :: "u32 \<Rightarrow> u32" where "OFFOF x = x AND 0x0f"
definition LIN_TO_REAL :: "u32 \<Rightarrow> u32" where "LIN_TO_REAL lin = push_bit 16 (SEGOF lin) OR OFFOF lin"
definition REAL_TO_LIN :: "u32 \<Rightarrow> u32 \<Rightarrow> u32" where "REAL_TO_LIN seg off = push_bit 4 seg + off"
definition PACKED_SEGOF :: "u32 \<Rightarrow> u32" where "PACKED_SEGOF real = drop_bit 16 real"
definition PACKED_OFFOF :: "u32 \<Rightarrow> u32" where "PACKED_OFFOF real = real AND 0xffff"
definition U32REAL_TO_LIN :: "u32 \<Rightarrow> u32" where
  "U32REAL_TO_LIN real = REAL_TO_LIN (PACKED_SEGOF real) (PACKED_OFFOF real)"

section \<open>Registers and the disk address packet\<close>

record int_regs =
  edi :: u32
  esi :: u32
  ebp :: u32
  esp :: u32
  ebx :: u32
  edx :: u32
  ecx :: u32
  eax :: u32
  flags :: u16
  es :: u16
  ds :: u16
  fs :: u16
  gs :: u16

definition zero_regs :: int_regs where
  "zero_regs = \<lparr>edi = 0, esi = 0, ebp = 0, esp = 0, ebx = 0, edx = 0, ecx = 0, eax = 0,
     flags = 0, es = 0, ds = 0, fs = 0, gs = 0\<rparr>"

definition EFL_CF :: u16 where "EFL_CF = 0x0001"

type_synonym 'd bios = "nat \<Rightarrow> int_regs \<Rightarrow> mem \<Rightarrow> 'd \<Rightarrow> int_regs \<times> mem \<times> 'd"

record bdrive =
  drive_nr :: u8
  block_size :: u32

text \<open>The packed \<open>struct disk_addr\<close> filled in for a transfer through the low buffer.\<close>

definition fill_disk_addr :: "u32 \<Rightarrow> u32 \<Rightarrow> u64 \<Rightarrow> u32 \<Rightarrow> mem \<Rightarrow> mem" where
  "fill_disk_addr lmda lmb lba blocks m =
     (let m = memset m lmda 0 16;
          m = m(lmda := 16);
          m = store16 m (lmda + 2) (ucast blocks);
          m = store32 m (lmda + 8) (ucast (lba AND 0xffffffff));
          m = store32 m (lmda + 12) (ucast (drop_bit 32 lba));
          buf_seg = ucast (SEGOF lmb) :: u16;
          buf_off = ucast (OFFOF lmb) :: u16
      in store32 m (lmda + 4) (ucast buf_off OR push_bit 16 (ucast buf_seg)))"

definition transfer_regs :: "u32 \<Rightarrow> bdrive \<Rightarrow> u32 \<Rightarrow> int_regs" where
  "transfer_regs lmda dev command =
     zero_regs\<lparr>eax := command, esi := OFFOF lmda, ds := ucast (SEGOF lmda), edx := ucast (drive_nr dev)\<rparr>"

section \<open>Transfers\<close>

definition bdrive_read4k ::
  "'d bios \<Rightarrow> u32 \<Rightarrow> u32 \<Rightarrow> bdrive \<Rightarrow> u64 \<Rightarrow> u32 \<Rightarrow> u32 \<Rightarrow> mem \<times> 'd \<Rightarrow> (int \<times> mem \<times> 'd) outcome" where
  "bdrive_read4k bios lmda lmb dev lba blocks buffer st =
     (case st of (m, d) \<Rightarrow>
        assert_that (blocks * block_size dev \<le> 4096) ''Read would have overflowed''
          (let m = fill_disk_addr lmda lmb lba blocks m;
               (regs, m, d) = bios 0x13 (transfer_regs lmda dev 0x4200) m d
           in assert_that (flags regs AND EFL_CF = 0) ''Error reading from disk''
                (Inr (0, memcpy m buffer lmb (blocks * block_size dev), d))))"

partial_function (option) bdrive_read_loop ::
  "'d bios \<Rightarrow> u32 \<Rightarrow> u32 \<Rightarrow> bdrive \<Rightarrow> u64 \<Rightarrow> u32 \<Rightarrow> u32 \<Rightarrow> u32 \<Rightarrow> u32 \<Rightarrow> mem \<times> 'd \<Rightarrow> (bool \<times> mem \<times> 'd) outcome option" where
  "bdrive_read_loop bios lmda lmb dev lba max_blocks blocks_left cursor offset st =
     (if 0 < sint blocks_left
      then (let nr_blocks = min blocks_left max_blocks in
        run_bind (Some (bdrive_read4k bios lmda lmb dev (lba + ucast offset) nr_blocks cursor st)) (\<lambda>(ret, st).
          if ret \<noteq> 0 then Some (Inr (False, st))
          else bdrive_read_loop bios lmda lmb dev lba max_blocks (blocks_left - nr_blocks)
                 (cursor + nr_blocks * block_size dev) (offset + nr_blocks) st))
      else Some (Inr (True, st)))"

text \<open>The divisor \<open>block_size\<close> is the constant 512 of \<open>bdrive_create\<close>.\<close>

definition bdrive_read ::
  "'d bios \<Rightarrow> u32 \<Rightarrow> u32 \<Rightarrow> bdrive \<Rightarrow> u64 \<Rightarrow> u32 \<Rightarrow> u32 \<Rightarrow> mem \<times> 'd \<Rightarrow> (int \<times> mem \<times> 'd) outcome option" where
  "bdrive_read bios lmda lmb dev lba blocks buffer st =
     run_bind (bdrive_read_loop bios lmda lmb dev lba (4096 div block_size dev) blocks buffer 0 st)
       (\<lambda>(ok, st). Some (Inr (if ok then sint blocks else -1, st)))"

definition bdrive_write4k ::
  "'d bios \<Rightarrow> u32 \<Rightarrow> u32 \<Rightarrow> bdrive \<Rightarrow> u64 \<Rightarrow> u32 \<Rightarrow> u32 \<Rightarrow> mem \<times> 'd \<Rightarrow> (int \<times> mem \<times> 'd) outcome" where
  "bdrive_write4k bios lmda lmb dev lba blocks buffer st =
     (case st of (m, d) \<Rightarrow>
        assert_that (blocks * 512 \<le> block_size dev) ''Write would have overflowed''
          (let m = fill_disk_addr lmda lmb lba blocks m;
               m = memcpy m lmb buffer (blocks * block_size dev);
               (regs, m, d) = bios 0x13 (transfer_regs lmda dev 0x4300) m d
           in assert_that (flags regs AND EFL_CF = 0) ''Error writing to disk'' (Inr (0, m, d))))"

partial_function (option) bdrive_write_loop ::
  "'d bios \<Rightarrow> u32 \<Rightarrow> u32 \<Rightarrow> bdrive \<Rightarrow> u64 \<Rightarrow> u32 \<Rightarrow> u32 \<Rightarrow> u32 \<Rightarrow> u32 \<Rightarrow> mem \<times> 'd \<Rightarrow> (bool \<times> mem \<times> 'd) outcome option" where
  "bdrive_write_loop bios lmda lmb dev lba max_blocks blocks_left cursor offset st =
     (if 0 < blocks_left
      then (let nr_blocks = min blocks_left max_blocks in
        run_bind (Some (bdrive_write4k bios lmda lmb dev (lba + ucast offset) nr_blocks cursor st)) (\<lambda>(ret, st).
          if ret \<noteq> 0 then Some (Inr (False, st))
          else bdrive_write_loop bios lmda lmb dev lba max_blocks (blocks_left - nr_blocks)
                 (cursor + nr_blocks * block_size dev) (offset + nr_blocks) st))
      else Some (Inr (True, st)))"

definition bdrive_write ::
  "'d bios \<Rightarrow> u32 \<Rightarrow> u32 \<Rightarrow> bdrive \<Rightarrow> u64 \<Rightarrow> u32 \<Rightarrow> u32 \<Rightarrow> mem \<times> 'd \<Rightarrow> (int \<times> mem \<times> 'd) outcome option" where
  "bdrive_write bios lmda lmb dev lba blocks buffer st =
     run_bind (bdrive_write_loop bios lmda lmb dev lba (4096 div block_size dev) blocks buffer 0 st)
       (\<lambda>(ok, st). Some (Inr (if ok then sint blocks else -1, st)))"

section \<open>Probing\<close>

definition bdrive_create :: "u8 \<Rightarrow> bdrive" where
  "bdrive_create nr = \<lparr>drive_nr = nr, block_size = 512\<rparr>"

definition bdrive_reset :: "'d bios \<Rightarrow> u8 \<Rightarrow> mem \<times> 'd \<Rightarrow> mem \<times> 'd" where
  "bdrive_reset bios nr st = snd (bios 0x13 (zero_regs\<lparr>eax := 0x0000, edx := ucast nr\<rparr>) (fst st) (snd st))"

text \<open>
  One turn of the loop of \<open>bdrive_probe\<close>; \<open>regs.edx & 0xff > 0\<close> is \<open>regs.edx & (0xff > 0)\<close>.
\<close>

definition bdrive_probe_one :: "'d bios \<Rightarrow> nat \<Rightarrow> bdrive list \<times> mem \<times> 'd \<Rightarrow> bdrive list \<times> mem \<times> 'd" where
  "bdrive_probe_one bios i s =
     (case s of (found, m, d) \<Rightarrow>
        let drive_nr = 0x80 OR of_nat i;
            (regs, m, d) = bios 0x13 (zero_regs\<lparr>eax := 0x0800, edx := ucast drive_nr\<rparr>) m d
        in if flags regs AND EFL_CF \<noteq> 0 then (found, bdrive_reset bios drive_nr (m, d))
           else if edx regs AND (if 0xff > (0 :: int) then 1 else 0) \<noteq> 0
           then (found @ [bdrive_create drive_nr], m, d)
           else (found, m, d))"

definition bdrive_probe :: "'d bios \<Rightarrow> bool \<Rightarrow> mem \<times> 'd \<Rightarrow> bdrive list \<times> mem \<times> 'd" where
  "bdrive_probe bios first_probe st =
     (if \<not> first_probe then ([], st)
      else (let (found, st) = fold (bdrive_probe_one bios) [0..<4] ([], st)
        in (found, bdrive_reset bios 0x80 st)))"

section \<open>Address conversion\<close>

lemma bit_mask_words:
  "bit (15 :: int) n \<longleftrightarrow> n < 4" "bit (65535 :: int) n \<longleftrightarrow> n < 16" "bit (4294967295 :: int) n \<longleftrightarrow> n < 32"
  using bit_mask_iff [of 4 n, where ?'a = int] bit_mask_iff [of 16 n, where ?'a = int]
    bit_mask_iff [of 32 n, where ?'a = int] by (auto simp: mask_eq_exp_minus_1)

lemma low_bits: "x < 0x100000 \<Longrightarrow> bit (x :: u32) n \<Longrightarrow> n < 20"
proof -
  assume x: "x < 0x100000" and b: "bit x n"
  have "unat x < 2 ^ 20" using x by (simp add: word_less_nat_alt)
  then have "take_bit 20 x = x" by (simp add: word_unat_eq_iff unsigned_take_bit_eq take_bit_nat_eq_self)
  then have "bit (take_bit 20 x) n" using b by simp
  then show "n < 20" by (simp add: bit_take_bit_iff)
qed

lemma seg_off_join: "push_bit 4 (SEGOF x) + OFFOF x = x"
proof -
  have "push_bit 4 (SEGOF x) AND OFFOF x = 0"
    by (rule bit_word_eqI) (auto simp: bit_simps SEGOF_def OFFOF_def bit_mask_words)
  then have "push_bit 4 (SEGOF x) + OFFOF x = push_bit 4 (SEGOF x) OR OFFOF x"
    by (rule disjunctive_add_eq_or)
  also have "\<dots> = x"
    by (rule bit_word_eqI) (auto simp: bit_simps SEGOF_def OFFOF_def bit_mask_words)
  finally show ?thesis .
qed

lemma seg_word: "x < 0x100000 \<Longrightarrow> (ucast (ucast (SEGOF x) :: u16) :: u32) = SEGOF x"
  using low_bits [of x] by (intro bit_word_eqI) (fastforce simp: bit_simps SEGOF_def)

lemma off_word: "(ucast (ucast (OFFOF x) :: u16) :: u32) = OFFOF x"
  by (rule bit_word_eqI) (auto simp: bit_simps OFFOF_def bit_mask_words)

lemma seg_ds_lin: "x < 0x100000 \<Longrightarrow> REAL_TO_LIN (ucast (ucast (SEGOF x) :: u16)) (OFFOF x) = x"
  by (simp add: REAL_TO_LIN_def seg_word seg_off_join)

lemma packed_lin: "x < 0x100000 \<Longrightarrow> U32REAL_TO_LIN (OFFOF x OR push_bit 16 (SEGOF x)) = x"
proof -
  assume x: "x < 0x100000"
  have s: "PACKED_SEGOF (OFFOF x OR push_bit 16 (SEGOF x)) = SEGOF x"
    using low_bits [OF x] by (intro bit_word_eqI) (fastforce simp: bit_simps PACKED_SEGOF_def SEGOF_def OFFOF_def
      bit_mask_words)
  have o: "PACKED_OFFOF (OFFOF x OR push_bit 16 (SEGOF x)) = OFFOF x"
    by (rule bit_word_eqI) (auto simp: bit_simps PACKED_OFFOF_def SEGOF_def OFFOF_def bit_mask_words)
  show ?thesis by (simp add: U32REAL_TO_LIN_def s o REAL_TO_LIN_def seg_off_join)
qed

section \<open>The packet\<close>

lemma fill_disk_addr:
  fixes m :: mem and lmda lmb blocks :: u32 and lba :: u64
  defines "m' \<equiv> fill_disk_addr lmda lmb lba blocks m"
  shows "m' lmda = 16" "load16 m' (lmda + 2) = ucast blocks" "load32 m' (lmda + 8) = ucast lba"
    "load32 m' (lmda + 12) = ucast (drop_bit 32 lba)"
    "load32 m' (lmda + 4) = ucast (ucast (OFFOF lmb) :: u16) OR push_bit 16 (ucast (ucast (SEGOF lmb) :: u16))"
    "\<not> in_block a lmda 16 \<Longrightarrow> m' a = m a"
proof -
  note d = m'_def fill_disk_addr_def Let_def
  have n: "lmda + i \<noteq> lmda + j \<longleftrightarrow> i \<noteq> j" for i j by simp
  show "m' lmda = 16" unfolding d by (simp add: store32_outside store16_def)
  show "load16 m' (lmda + 2) = ucast blocks"
    unfolding d by (subst load16_cong [where m' = "store16 _ _ _"]) (auto simp: store32_outside add.assoc)
  show "load32 m' (lmda + 8) = ucast lba"
    unfolding d by (simp add: sep4_def) (rule bit_word_eqI, simp add: bit_simps bit_mask_words)
  show "load32 m' (lmda + 12) = ucast (drop_bit 32 lba)" unfolding d by (simp add: sep4_def)
  show "load32 m' (lmda + 4) = ucast (ucast (OFFOF lmb) :: u16) OR push_bit 16 (ucast (ucast (SEGOF lmb) :: u16))"
    unfolding d by simp
  show "m' a = m a" if a: "\<not> in_block a lmda 16"
  proof -
    have k: "a \<noteq> lmda + of_nat k" if "k < 16" for k
      using a that in_block_offset [of "of_nat k" 16 lmda] by (auto simp: unat_of_nat)
    have s: "store32 mm (lmda + of_nat j) v a = mm a" if "j \<le> 12" for mm j v
    proof (rule store32_other)
      fix i :: u32 assume "i < 4"
      then have "unat i < 4" by (simp add: word_less_nat_alt)
      then show "a \<noteq> lmda + of_nat j + i" using k [of "j + unat i"] that by (simp add: add.assoc)
    qed
    have "a \<noteq> 3 + lmda" using k [of 3] by (simp add: add.commute)
    then show ?thesis
      unfolding d using k [of 0] k [of 2] k [of 3] s [of 4] s [of 8] s [of 12] a
      by (simp add: store16_def memset_eq)
  qed
qed

section \<open>Reading\<close>

text \<open>
  What the BIOS documents of INT 13h, AH=42h: the packet at DS:SI gives a count of at most 127
  sectors, a segment:offset buffer and a 64-bit LBA; if the sectors exist, they are stored in the
  buffer, nothing else in memory changes, and the carry flag is clear.
\<close>

definition sectors :: "('d \<Rightarrow> u8 \<Rightarrow> nat \<Rightarrow> u8 list) \<Rightarrow> 'd \<Rightarrow> u8 \<Rightarrow> nat \<Rightarrow> nat \<Rightarrow> u8 list" where
  "sectors content d drive lba n = concat (map (\<lambda>i. content d drive (lba + i)) [0..<n])"

definition packet_at :: "int_regs \<Rightarrow> u32" where
  "packet_at regs = REAL_TO_LIN (ucast (ds regs)) (esi regs)"

definition packet_lba :: "mem \<Rightarrow> u32 \<Rightarrow> nat" where
  "packet_lba m dap = unat (load32 m (dap + 8)) + 4294967296 * unat (load32 m (dap + 12))"

definition int13_reads :: "'d bios \<Rightarrow> ('d \<Rightarrow> u8 \<Rightarrow> nat \<Rightarrow> u8 list) \<Rightarrow> ('d \<Rightarrow> u8 \<Rightarrow> nat) \<Rightarrow> bool" where
  "int13_reads bios content extent \<longleftrightarrow>
     (\<forall>regs m d. let dap = packet_at regs; drive = ucast (edx regs); n = unat (load16 m (dap + 2)) in
        eax regs = 0x4200 \<and> m dap = 16 \<and> n \<le> 127 \<and> packet_lba m dap + n \<le> extent d drive \<longrightarrow>
        (\<exists>regs'. bios 0x13 regs m d = (regs', write_bytes m (U32REAL_TO_LIN (load32 m (dap + 4)))
            (sectors content d drive (packet_lba m dap) n), d) \<and> flags regs' AND EFL_CF = 0))"

definition low_area :: "u32 \<Rightarrow> u32 \<Rightarrow> u32 \<Rightarrow> bool" where
  "low_area lmda lmb a \<longleftrightarrow> in_block a lmda 16 \<or> in_block a lmb 4096"

lemma length_sectors:
  "(\<And>l. length (content d drive l) = 512) \<Longrightarrow> length (sectors content d drive lba n) = 512 * n"
  by (induction n) (simp_all add: sectors_def)

lemma sectors_append:
  "sectors content d drive lba (j + k) = sectors content d drive lba j @ sectors content d drive (lba + j) k"
  by (induction k) (simp_all add: sectors_def add.assoc)

lemma lba_split: "unat (ucast (lba :: u64) :: u32) + 4294967296 * unat (ucast (drop_bit 32 lba) :: u32) = unat lba"
proof -
  have "unat (ucast lba :: u32) = unat lba mod 4294967296" by (simp add: unsigned_ucast_eq take_bit_eq_mod)
  moreover have "unat (drop_bit 32 lba) = unat lba div 4294967296"
    by (simp add: drop_bit_eq_div unat_div)
  moreover have "unat lba div 4294967296 < 4294967296"
    using unsigned_less [of lba, where ?'a = nat] by (simp add: less_mult_imp_div_less)
  then have "unat (ucast (drop_bit 32 lba) :: u32) = unat lba div 4294967296"
    by (simp add: unsigned_ucast_eq take_bit_nat_eq_self \<open>unat (drop_bit 32 lba) = _\<close>)
  ultimately show ?thesis by simp
qed

lemma bdrive_read4k_sectors:
  assumes bios: "int13_reads bios content extent" and len: "\<And>l. length (content d (drive_nr dev) l) = 512"
    and low: "lmda < 0x100000" "lmb < 0x100000"
    and dev: "block_size dev = 512" and n: "unat blocks \<le> 8"
    and disk: "unat lba + unat blocks \<le> extent d (drive_nr dev)"
    and buf: "\<And>i. i < 512 * unat blocks \<Longrightarrow> \<not> low_area lmda lmb (buffer + of_nat i)"
  shows "\<exists>m'. bdrive_read4k bios lmda lmb dev lba blocks buffer (m, d) = Inr (0, m', d) \<and>
    (\<forall>a. \<not> low_area lmda lmb a \<longrightarrow>
       m' a = write_bytes m buffer (sectors content d (drive_nr dev) (unat lba) (unat blocks)) a)"
proof -
  let ?n = "512 * unat blocks" and ?m = "fill_disk_addr lmda lmb lba blocks m"
  let ?secs = "sectors content d (drive_nr dev) (unat lba) (unat blocks)"
  let ?regs = "transfer_regs lmda dev 0x4200"
  have b: "unat (blocks * 512) = ?n" using n by (simp add: unat_word_ariths)
  have dap: "packet_at ?regs = lmda"
    by (simp add: packet_at_def transfer_regs_def zero_regs_def seg_ds_lin low(1))
  have cnt: "unat (load16 ?m (lmda + 2)) = unat blocks"
    using n by (simp add: fill_disk_addr(2) unsigned_ucast_eq take_bit_nat_eq_self)
  have pl: "packet_lba ?m lmda = unat lba"
    by (simp add: packet_lba_def fill_disk_addr(3,4) lba_split)
  have tgt: "U32REAL_TO_LIN (load32 ?m (lmda + 4)) = lmb"
    by (simp add: fill_disk_addr(5) seg_word off_word packed_lin low(2))
  have dr: "ucast (edx ?regs) = drive_nr dev" "eax ?regs = 0x4200"
    by (simp_all add: transfer_regs_def zero_regs_def) (rule bit_word_eqI, simp add: bit_simps)
  obtain regs' where r: "bios 0x13 ?regs ?m d = (regs', write_bytes ?m lmb ?secs, d)" "flags regs' AND EFL_CF = 0"
    using bios [unfolded int13_reads_def, rule_format, of ?regs ?m d] n disk
    by (auto simp: Let_def dap cnt pl tgt dr fill_disk_addr(1))
  let ?m1 = "write_bytes ?m lmb ?secs"
  have ls: "length ?secs = ?n" by (rule length_sectors) (rule len)
  have ap: "apart buffer lmb ?n"
    unfolding apart_def
  proof (intro allI notI)
    fix a
    assume a: "in_block a buffer ?n \<and> in_block a lmb ?n"
    then have "in_block a lmb 4096" using n by (intro in_block_mono [OF conjunct2 [OF a]]) simp
    then have "low_area lmda lmb a" by (simp add: low_area_def)
    moreover have "a = buffer + of_nat (unat (a - buffer))" by simp
    ultimately show False using buf [of "unat (a - buffer)"] a by (metis in_block_def)
  qed
  have "bdrive_read4k bios lmda lmb dev lba blocks buffer (m, d)
    = Inr (0, memcpy ?m1 buffer lmb (blocks * 512), d)"
    using r n b by (simp add: bdrive_read4k_def dev Let_def word_le_nat_alt)
  moreover have "memcpy ?m1 buffer lmb (blocks * 512) a = write_bytes m buffer ?secs a" if "\<not> low_area lmda lmb a" for a
  proof -
    have "memcpy ?m1 buffer lmb (blocks * 512) = copied ?m1 buffer lmb ?n"
      using ap by (simp add: memcpy_eq b)
    moreover have "?m1 a = m a"
      using that n ls in_block_mono [of a lmb ?n 4096]
      by (auto simp: low_area_def write_bytes_def fill_disk_addr(6))
    ultimately show ?thesis
      using n by (auto simp: copied_def write_bytes_def ls in_block_def)
  qed
  ultimately show ?thesis by blast
qed

lemma write_bytes_append:
  assumes "length xs + length ys \<le> 4294967296"
  shows "write_bytes (write_bytes m p xs) (p + of_nat (length xs)) ys a = write_bytes m p (xs @ ys) a"
proof (cases "in_block a (p + of_nat (length xs)) (length ys)")
  case True
  then have "\<not> in_block a p (length xs)" using in_block_split_excl [OF assms] by blast
  moreover have "unat (a - (p + of_nat (length xs))) = unat (a - p) - length xs"
    using True calculation assms dist_shift_u32 [of "length xs" a p]
    by (cases "length xs = 4294967296") (auto simp: in_block_def split: if_splits)
  ultimately show ?thesis
    using True assms by (simp add: write_bytes_def in_block_split nth_append) (simp add: in_block_def)
next
  case False
  then show ?thesis
    using assms by (simp add: write_bytes_def in_block_split nth_append) (simp add: in_block_def)
qed

lemma write_bytes_cong: "m a = m' a \<Longrightarrow> write_bytes m p xs a = write_bytes m' p xs a"
  by (simp add: write_bytes_def)

lemma next_lba:
  assumes "unat offset + unat (k :: u32) < 4294967296" "unat (lba + ucast offset) + unat k < 18446744073709551616"
  shows "unat ((lba :: u64) + ucast (offset + k)) = unat (lba + ucast offset) + unat k"
proof -
  have "(ucast (offset + k) :: u64) = ucast offset + ucast k"
    using assms(1) by (simp add: word_unat_eq_iff unsigned_ucast_eq unat_word_ariths take_bit_nat_eq_self)
  then show ?thesis
    using assms(2) by (simp add: unat_word_ariths unsigned_ucast_eq take_bit_nat_eq_self flip: add.assoc)
qed

lemma bdrive_read_loop_sectors:
  assumes bios: "int13_reads bios content extent" and len: "\<And>l. length (content d (drive_nr dev) l) = 512"
    and low: "lmda < 0x100000" "lmb < 0x100000" and dev: "block_size dev = 512"
    and ext: "extent d (drive_nr dev) < 18446744073709551616"
  shows "unat left < 2147483648 \<Longrightarrow> 512 * unat left \<le> 4294967296 \<Longrightarrow> unat offset + unat left < 4294967296 \<Longrightarrow>
    unat (lba + ucast offset) + unat left \<le> extent d (drive_nr dev) \<Longrightarrow>
    (\<forall>i < 512 * unat left. \<not> low_area lmda lmb (cursor + of_nat i)) \<Longrightarrow>
    \<exists>m'. bdrive_read_loop bios lmda lmb dev lba 8 left cursor offset (m, d) = Some (Inr (True, m', d)) \<and>
      (\<forall>a. \<not> low_area lmda lmb a \<longrightarrow> m' a
        = write_bytes m cursor (sectors content d (drive_nr dev) (unat (lba + ucast offset)) (unat left)) a)"
proof (induction "unat left" arbitrary: left offset cursor m rule: less_induct)
  case less
  show ?case
  proof (cases "left = 0")
    case True
    then show ?thesis by (subst bdrive_read_loop.simps) (simp add: sectors_def)
  next
    case False
    then have pos: "0 < unat left" by (simp add: unat_gt_0)
    then have sl: "0 < sint left"
      using less.prems(1) pos by (simp only: sint_small_u32 of_nat_0_less_iff)
    let ?k = "min left 8"
    have k: "unat ?k = min (unat left) 8" by (simp add: min_def word_le_nat_alt)
    have k': "unat (left - ?k) = unat left - unat ?k" by (rule unat_sub) simp
    let ?l = "unat (lba + ucast offset)"
    have "unat ?k \<le> 8" "?l + unat ?k \<le> extent d (drive_nr dev)" using k less.prems(4) by simp_all
    moreover have "\<not> low_area lmda lmb (cursor + of_nat i)" if "i < 512 * unat ?k" for i
      using less.prems(5) that k by simp
    ultimately obtain m1 where m1: "bdrive_read4k bios lmda lmb dev (lba + ucast offset) ?k cursor (m, d) = Inr (0, m1, d)"
      "\<forall>a. \<not> low_area lmda lmb a \<longrightarrow> m1 a = write_bytes m cursor (sectors content d (drive_nr dev) ?l (unat ?k)) a"
      using bdrive_read4k_sectors [OF bios len low dev, of ?k "lba + ucast offset" cursor m] by blast
    have nl: "unat (lba + ucast (offset + ?k)) = ?l + unat ?k"
      using less.prems ext k by (intro next_lba) linarith+
    have no: "unat (offset + ?k) = unat offset + unat ?k" using less.prems k by (intro unat_add_u32) linarith
    have cur: "cursor + ?k * 512 = cursor + of_nat (512 * unat ?k)" by (simp add: mult.commute)
    have "\<not> low_area lmda lmb (cursor + ?k * 512 + of_nat i)" if "i < 512 * unat (left - ?k)" for i
      using less.prems(5) [rule_format, of "512 * unat ?k + i"] that k k' unfolding cur by (simp add: add.assoc)
    moreover have "512 * unat (left - ?k) \<le> 4294967296" using less.prems(2) k' by simp
    ultimately obtain m2 where m2: "bdrive_read_loop bios lmda lmb dev lba 8 (left - ?k) (cursor + ?k * 512) (offset + ?k) (m1, d)
        = Some (Inr (True, m2, d))"
      "\<forall>a. \<not> low_area lmda lmb a \<longrightarrow> m2 a = write_bytes m1 (cursor + ?k * 512)
         (sectors content d (drive_nr dev) (?l + unat ?k) (unat left - unat ?k)) a"
      using less.hyps [of "left - ?k" "offset + ?k" "cursor + ?k * 512" m1] less.prems k k' pos
      by (auto simp: nl no)
    have run: "bdrive_read_loop bios lmda lmb dev lba 8 left cursor offset (m, d) = Some (Inr (True, m2, d))"
      using sl m1(1) m2(1) by (subst bdrive_read_loop.simps) (simp add: Let_def dev)
    have "m2 a = write_bytes m cursor (sectors content d (drive_nr dev) ?l (unat left)) a" if "\<not> low_area lmda lmb a" for a
    proof -
      let ?xs = "sectors content d (drive_nr dev) ?l (unat ?k)"
        and ?ys = "sectors content d (drive_nr dev) (?l + unat ?k) (unat left - unat ?k)"
      have ln: "length ?xs = 512 * unat ?k" "length ?ys = 512 * (unat left - unat ?k)"
        by (simp_all only: length_sectors [of content d "drive_nr dev", OF len])
      have "m2 a = write_bytes m1 (cursor + of_nat (length ?xs)) ?ys a"
        using m2(2) that by (simp add: ln cur)
      also have "\<dots> = write_bytes (write_bytes m cursor ?xs) (cursor + of_nat (length ?xs)) ?ys a"
        by (rule write_bytes_cong) (use m1(2) that in simp)
      also have "\<dots> = write_bytes m cursor (?xs @ ?ys) a"
      proof (rule write_bytes_append)
        show "length ?xs + length ?ys \<le> 4294967296" unfolding ln using less.prems(2) k by simp
      qed
      also have "?xs @ ?ys = sectors content d (drive_nr dev) ?l (unat left)"
        using sectors_append [of content d "drive_nr dev" ?l "unat ?k" "unat left - unat ?k"] k by simp
      finally show ?thesis .
    qed
    then show ?thesis using run by blast
  qed
qed

lemma sectors_nth:
  assumes "\<And>l. length (content d drive l) = 512"
  shows "i < n \<Longrightarrow> j < 512 \<Longrightarrow> sectors content d drive lba n ! (512 * i + j) = content d drive (lba + i) ! j"
proof (induction n)
  case (Suc n)
  have l: "length (sectors content d drive lba n) = 512 * n" by (rule length_sectors) (rule assms)
  have s: "sectors content d drive lba (Suc n) = sectors content d drive lba n @ content d drive (lba + n)"
    by (simp add: sectors_def)
  show ?case
  proof (cases "i < n")
    case True
    then have "512 * i + j < 512 * n" using Suc.prems(2) by linarith
    then show ?thesis using Suc True by (simp add: s l nth_append)
  next
    case False
    then have "i = n" using Suc.prems(1) by simp
    then show ?thesis using Suc.prems(2) by (simp add: s l nth_append)
  qed
qed simp


text \<open>A BIOS whose sector \<open>l\<close> is 512 times the byte \<open>l\<close>.\<close>

definition numbered_disk :: "unit \<Rightarrow> u8 \<Rightarrow> nat \<Rightarrow> u8 list" where
  "numbered_disk d drive l = replicate 512 (of_nat l)"

definition reading_bios :: "unit bios" where
  "reading_bios n regs m d = (regs\<lparr>flags := 0\<rparr>, write_bytes m (U32REAL_TO_LIN (load32 m (packet_at regs + 4)))
     (sectors numbered_disk d (ucast (edx regs)) (packet_lba m (packet_at regs)) (unat (load16 m (packet_at regs + 2)))), d)"


section \<open>Writing\<close>

text \<open>INT 13h, AH=43h: the sectors get the contents of the buffer; memory does not change.\<close>

definition int13_writes :: "'d bios \<Rightarrow> ('d \<Rightarrow> u8 \<Rightarrow> nat \<Rightarrow> u8 list) \<Rightarrow> ('d \<Rightarrow> u8 \<Rightarrow> nat) \<Rightarrow> bool" where
  "int13_writes bios content extent \<longleftrightarrow>
     (\<forall>regs m d. let dap = packet_at regs; drive = ucast (edx regs); n = unat (load16 m (dap + 2));
          lba = packet_lba m dap; p = U32REAL_TO_LIN (load32 m (dap + 4)) in
        eax regs = 0x4300 \<and> m dap = 16 \<and> n \<le> 127 \<and> lba + n \<le> extent d drive \<longrightarrow>
        (\<exists>regs' d'. bios 0x13 regs m d = (regs', m, d') \<and> flags regs' AND EFL_CF = 0 \<and>
          (\<forall>i < n. content d' drive (lba + i) = map (\<lambda>j. m (p + of_nat (512 * i + j))) [0..<512]) \<and>
          (\<forall>dr l. dr \<noteq> drive \<or> l < lba \<or> lba + n \<le> l \<longrightarrow> content d' dr l = content d dr l)))"

text \<open>
  \<open>bdrive_write\<close> of one sector stores the 512 bytes of the buffer in that sector and no
  other; of none it does nothing; every write of two or more sectors fails the size check,
  which compares 512 times the count with the size of one block.
\<close>

theorem bdrive_write_blocks:
  assumes bios: "int13_writes bios content extent" and low: "lmda < 0x100000" "lmb < 0x100000"
    and dev: "block_size dev = 512" and lba: "unat lba < extent d (drive_nr dev)"
    and buf: "\<forall>i < 512. \<not> low_area lmda lmb (buffer + of_nat i)"
    and low_apart: "\<forall>a. \<not> (in_block a lmda 16 \<and> in_block a lmb 4096)"
  shows "(\<exists>m' d'. bdrive_write bios lmda lmb dev lba 1 buffer (m, d) = Some (Inr (1, m', d')) \<and>
      content d' = (content d)(drive_nr dev := (content d (drive_nr dev))
        (unat lba := map (\<lambda>j. m (buffer + of_nat j)) [0..<512]))) \<and>
    bdrive_write bios lmda lmb dev lba 0 buffer (m, d) = Some (Inr (0, m, d)) \<and>
    (1 < blocks \<longrightarrow> bdrive_write bios lmda lmb dev lba blocks buffer (m, d)
       = Some (Inl (AssertFailed ''Write would have overflowed'')))"
proof (intro conjI impI)
  let ?f = "fill_disk_addr lmda lmb lba 1 m"
  let ?m = "memcpy ?f lmb buffer 512"
  let ?regs = "transfer_regs lmda dev 0x4300"
  have ap: "apart lmb buffer 512"
    unfolding apart_def
  proof (intro allI notI)
    fix a
    assume a: "in_block a lmb 512 \<and> in_block a buffer 512"
    then have "in_block a lmb 4096" by (intro in_block_mono [OF conjunct1 [OF a]]) simp
    then show False using buf [rule_format, of "unat (a - buffer)"] a by (simp add: in_block_def low_area_def)
  qed
  have mc: "?m = copied ?f lmb buffer 512" using ap by (simp add: memcpy_eq)
  have outside: "?m a = ?f a" if "in_block a lmda 16" for a
    using low_apart that in_block_mono [of a lmb 512 4096] by (auto simp: mc copied_def)
  have cell: "in_block (lmda + k) lmda 16" if "unat k < 16" for k using that by (rule in_block_offset)
  have dap: "packet_at ?regs = lmda"
    by (simp add: packet_at_def transfer_regs_def zero_regs_def seg_ds_lin low(1))
  have ld: "load32 ?m (lmda + k) = load32 ?f (lmda + k)" if "unat k \<le> 12" for k
  proof (rule load32_cong)
    fix i :: u32
    assume "i < 4"
    then have "unat i < 4" by (simp add: word_less_nat_alt)
    then have "unat (k + i) < 16" using that by (simp add: unat_add_u32)
    then show "?m (lmda + k + i) = ?f (lmda + k + i)" using cell [of "k + i"] by (simp add: outside add.assoc)
  qed
  have cnt: "load16 ?m (lmda + 2) = 1"
    using cell [of 2] cell [of 3] load16_cong [of ?m "lmda + 2" ?f] by (simp add: outside fill_disk_addr(2) add.assoc)
  have first: "?m lmda = 16" using cell [of 0] by (simp add: outside fill_disk_addr(1))
  have pl: "packet_lba ?m lmda = unat lba"
    by (simp add: packet_lba_def ld fill_disk_addr(3,4) lba_split)
  have tgt: "U32REAL_TO_LIN (load32 ?m (lmda + 4)) = lmb"
    by (simp add: ld fill_disk_addr(5) seg_word off_word packed_lin low(2))
  have dr: "ucast (edx ?regs) = drive_nr dev" "eax ?regs = 0x4300"
    by (simp_all add: transfer_regs_def zero_regs_def) (rule bit_word_eqI, simp add: bit_simps)
  obtain regs' d' where r: "bios 0x13 ?regs ?m d = (regs', ?m, d')" "flags regs' AND EFL_CF = 0"
    "content d' (drive_nr dev) (unat lba) = map (\<lambda>j. ?m (lmb + of_nat j)) [0..<512]"
    "\<And>dr l. dr \<noteq> drive_nr dev \<or> l < unat lba \<or> unat lba + 1 \<le> l \<Longrightarrow> content d' dr l = content d dr l"
    using bios [unfolded int13_writes_def, rule_format, of ?regs ?m d] lba
    by (auto simp: Let_def dap cnt pl tgt dr first)
  have byte: "?m (lmb + of_nat j) = m (buffer + of_nat j)" if "j < 512" for j
  proof -
    have u: "unat (of_nat j :: u32) = j" using that by (simp add: unat_of_nat_u32)
    then have "in_block (lmb + of_nat j) lmb 512" using that by (intro in_block_offset) simp
    then have "?m (lmb + of_nat j) = ?f (buffer + of_nat j)" by (simp add: mc copied_def)
    also have "\<dots> = m (buffer + of_nat j)"
      using buf that by (intro fill_disk_addr(6)) (simp add: low_area_def)
    finally show ?thesis .
  qed
  have c: "content d' = (content d)(drive_nr dev := (content d (drive_nr dev))
      (unat lba := map (\<lambda>j. m (buffer + of_nat j)) [0..<512]))"
  proof (intro ext)
    fix dr l
    show "content d' dr l = ((content d)(drive_nr dev := (content d (drive_nr dev))
      (unat lba := map (\<lambda>j. m (buffer + of_nat j)) [0..<512]))) dr l"
      using r(3) r(4) [of dr l] byte
      by (cases "dr = drive_nr dev"; cases l "unat lba" rule: linorder_cases) auto
  qed
  have "bdrive_write4k bios lmda lmb dev lba 1 buffer (m, d) = Inr (0, ?m, d')"
    using r(1,2) by (simp add: bdrive_write4k_def dev Let_def)
  then have "bdrive_write bios lmda lmb dev lba 1 buffer (m, d) = Some (Inr (1, ?m, d'))"
    by (simp add: bdrive_write_def dev bdrive_write_loop.simps [of _ _ _ _ _ _ 1] bdrive_write_loop.simps [of _ _ _ _ _ _ 0]
        Let_def min_def)
  then show "\<exists>m' d'. bdrive_write bios lmda lmb dev lba 1 buffer (m, d) = Some (Inr (1, m', d')) \<and>
      content d' = (content d)(drive_nr dev := (content d (drive_nr dev))
        (unat lba := map (\<lambda>j. m (buffer + of_nat j)) [0..<512]))"
    using c by blast
  show "bdrive_write bios lmda lmb dev lba 0 buffer (m, d) = Some (Inr (0, m, d))"
    by (simp add: bdrive_write_def bdrive_write_loop.simps)
  assume b: "1 < blocks"
  then have n: "2 \<le> unat (min blocks 8)" "unat (min blocks 8) \<le> 8" "0 < blocks"
    by (auto simp: min_def word_less_nat_alt word_le_nat_alt)
  then have "unat (min blocks 8 * 512) = unat (min blocks 8) * 512" by (simp add: unat_word_ariths)
  then have "\<not> min blocks 8 * 512 \<le> 512" using n(1) by (simp add: word_le_nat_alt)
  then show "bdrive_write bios lmda lmb dev lba blocks buffer (m, d) = Some (Inl (AssertFailed ''Write would have overflowed''))"
    using n(3) by (simp add: bdrive_write_def dev bdrive_write_loop.simps [of _ _ _ _ _ _ blocks] Let_def bdrive_write4k_def)
qed

definition writing_bios :: "(u8 \<Rightarrow> nat \<Rightarrow> u8 list) bios" where
  "writing_bios k regs m d =
     (let dap = packet_at regs; lba = packet_lba m dap; n = unat (load16 m (dap + 2));
          p = U32REAL_TO_LIN (load32 m (dap + 4)) in
      (regs\<lparr>flags := 0\<rparr>, m, \<lambda>dr l. if dr = ucast (edx regs) \<and> lba \<le> l \<and> l < lba + n
         then map (\<lambda>j. m (p + of_nat (512 * (l - lba) + j))) [0..<512] else d dr l))"

lemma bdrive_write_blocks_witness:
  "(\<exists>m' d'. bdrive_write writing_bios 0x600 0x7000 (bdrive_create 0x80) 5 1 0x100000 (\<lambda>_. 7, \<lambda>_ _. []) = Some (Inr (1, m', d'))
      \<and> d' 0x80 5 = replicate 512 7)
   \<and> bdrive_write writing_bios 0x600 0x7000 (bdrive_create 0x80) 5 2 0x100000 (\<lambda>_. 7, \<lambda>_ _. [])
      = Some (Inl (AssertFailed ''Write would have overflowed''))"
proof -
  have w: "int13_writes writing_bios id (\<lambda>_ _. 1000)"
    by (auto simp: int13_writes_def writing_bios_def Let_def)
  have "unat (1047040 + of_nat i :: u32) = 1047040 + i" "unat (1019904 + of_nat i :: u32) = 1019904 + i" if "i < 512" for i
    using that by (subst unat_add_u32; simp add: unat_of_nat_u32)+
  then have b: "\<forall>i < 512. \<not> low_area 0x600 0x7000 (0x100000 + of_nat i)" by (simp add: low_area_def in_block_def)
  have ap: "\<forall>a. \<not> (in_block a 0x600 16 \<and> in_block a 0x7000 4096)"
  proof (intro allI notI)
    fix a :: u32
    assume "in_block a 0x600 16 \<and> in_block a 0x7000 4096"
    then show False using unat_diff_u32 [of a "0x600"] unat_diff_u32 [of a "0x7000"]
      by (simp add: in_block_def split: if_splits) arith
  qed
  note app = bdrive_write_blocks [OF w, where lmda = "0x600" and lmb = "0x7000" and dev = "bdrive_create 0x80" and
      lba = 5 and d = "\<lambda>_ _. []" and buffer = "0x100000" and m = "\<lambda>_. 7" and blocks = 2]
  have "map (\<lambda>j. 7 :: u8) [0..<512] = replicate 512 7" by (rule map_replicate_trivial [THEN trans]) simp
  then show ?thesis using app b ap by (auto simp: bdrive_create_def)
qed

section \<open>Finding the disks\<close>

text \<open>INT 13h, AH=08h: the first \<open>n\<close> drives exist, and DL returns their number \<open>n\<close>.\<close>

definition bios_counts :: "'d bios \<Rightarrow> nat \<Rightarrow> bool" where
  "bios_counts bios n \<longleftrightarrow>
     (\<forall>i < 4. \<forall>m d. \<exists>regs m' d'.
        bios 0x13 (zero_regs\<lparr>eax := 0x0800, edx := ucast ((0x80 :: u8) OR of_nat i)\<rparr>) m d = (regs, m', d') \<and>
        (flags regs AND EFL_CF = 0 \<longleftrightarrow> i < n) \<and> (i < n \<longrightarrow> edx regs AND 0xff = of_nat n))"

lemma odd_bit: "n < 5 \<Longrightarrow> x AND 0xff = (of_nat n :: u32) \<Longrightarrow> x AND 1 \<noteq> 0 \<longleftrightarrow> odd n"
proof -
  assume n: "n < 5" and x: "x AND 0xff = (of_nat n :: u32)"
  have "x AND 1 = (x AND 0xff) AND 1" by (rule bit_word_eqI) (auto simp: bit_simps bit_1_iff bit_numeral_rec)
  also have "\<dots> = of_nat n AND 1" by (simp only: x)
  finally have e: "x AND 1 = of_nat n AND 1" .
  have "n = 0 \<or> n = 1 \<or> n = 2 \<or> n = 3 \<or> n = 4" using n by linarith
  then show ?thesis unfolding e by (elim disjE) simp_all
qed

lemma bdrive_probe_one_found:
  assumes "bios_counts bios n" "n < 5" "i < 4"
  shows "fst (bdrive_probe_one bios i (found, m, d))
    = found @ (if i < n \<and> odd n then [bdrive_create (0x80 OR of_nat i)] else [])"
proof -
  obtain regs m' d' where
    "bios 0x13 (zero_regs\<lparr>eax := 0x0800, edx := ucast ((0x80 :: u8) OR of_nat i)\<rparr>) m d = (regs, m', d')"
    "flags regs AND EFL_CF = 0 \<longleftrightarrow> i < n" "i < n \<longrightarrow> edx regs AND 0xff = of_nat n"
    using assms by (fastforce simp: bios_counts_def)
  then show ?thesis using odd_bit [OF assms(2), of "edx regs"] by (simp add: bdrive_probe_one_def Let_def)
qed

text \<open>
  If the BIOS reports \<open>n\<close> disks (at most four), the first probe registers exactly these, in
  order, when \<open>n\<close> is odd, and none when \<open>n\<close> is even: \<open>regs.edx & 0xff > 0\<close> tests bit 0 only.
\<close>

theorem bdrive_probe_parity:
  assumes "bios_counts bios n" "n < 5"
  shows "fst (bdrive_probe bios True (m, d))
    = (if odd n then map (\<lambda>i. bdrive_create (0x80 OR of_nat i)) [0..<n] else [])"
proof -
  have "fst (fold (bdrive_probe_one bios) [0..<k] ([], m, d))
      = (if odd n then map (\<lambda>i. bdrive_create (0x80 OR of_nat i)) [0..<min k n] else [])" if "k \<le> 4" for k
    using that
  proof (induction k)
    case (Suc k)
    obtain found m' d' where f: "fold (bdrive_probe_one bios) [0..<k] ([], m, d) = (found, m', d')"
      by (cases "fold (bdrive_probe_one bios) [0..<k] ([], m, d)") auto
    have "fst (bdrive_probe_one bios k (found, m', d'))
        = found @ (if k < n \<and> odd n then [bdrive_create (0x80 OR of_nat k)] else [])"
      using assms Suc.prems by (intro bdrive_probe_one_found) simp_all
    then show ?case using Suc f by (auto simp: min_def)
  qed simp
  moreover have "min 4 n = n" using assms(2) by simp
  ultimately show ?thesis by (simp add: bdrive_probe_def split_beta del: upt_conv_Cons_Cons)
qed

definition counting_bios :: "nat \<Rightarrow> unit bios" where
  "counting_bios n k regs m d = (if edx regs < 0x80 + of_nat n then (regs\<lparr>flags := 0, edx := of_nat n\<rparr>, m, d)
     else (regs\<lparr>flags := 1\<rparr>, m, d))"

lemma bdrive_probe_parity_witness:
  "fst (bdrive_probe (counting_bios 2) True (\<lambda>_. 0, ())) = []
   \<and> fst (bdrive_probe (counting_bios 1) True (\<lambda>_. 0, ())) = [bdrive_create 0x80]"
proof -
  have "bios_counts (counting_bios n) n" if n: "n = 1 \<or> n = 2" for n
    unfolding bios_counts_def
  proof (intro allI impI)
    fix i m d
    assume "(i :: nat) < 4"
    then have "i = 0 \<or> i = 1 \<or> i = 2 \<or> i = 3" by linarith
    then show "\<exists>regs m' d'.
        counting_bios n 0x13 (zero_regs\<lparr>eax := 0x0800, edx := ucast ((0x80 :: u8) OR of_nat i)\<rparr>) m d = (regs, m', d') \<and>
        (flags regs AND EFL_CF = 0 \<longleftrightarrow> i < n) \<and> (i < n \<longrightarrow> edx regs AND 0xff = of_nat n)"
      using n by (elim disjE) (simp_all add: counting_bios_def EFL_CF_def)
  qed
  then show ?thesis using bdrive_probe_parity [of "counting_bios 2" 2] bdrive_probe_parity [of "counting_bios 1" 1] by simp
qed

end
