(* ===== verification/Kernel.thy ===== *)
theory Kernel
  imports Stdio Kconfig Kenv Bdrive Pio
begin

text \<open>
  The kernel's own services (\<open>kern/kernel.c\<close>): the memory dump, the system timer, power off,
  and the configuration that \<open>kernel_late_init\<close> sets up. The BIOS and the ports are the parameters
  of theories Bdrive and Pio.
\<close>

section \<open>The memory dump\<close>

text \<open>
  A row reads eight bytes. Each character is printed by passing a string of one character as the
  format: a percent sign is an unfinished conversion.
\<close>

definition printable :: "u8 \<Rightarrow> u8" where
  "printable c = (if 32 \<le> c \<and> c \<le> 126 then c else 46)"

definition dump_byte :: "mem \<Rightarrow> u32 \<Rightarrow> nat \<Rightarrow> 'i io \<Rightarrow> 'i io outcome" where
  "dump_byte m p j st =
     bind_outcome (dprintf_raw (\<lambda>_. []) (lit ''%02x '') [ucast (m (p + of_nat j))] st) (\<lambda>st.
       if (j + 1) mod 4 = 0 then dprintf_raw (\<lambda>_. []) (lit '' '') [] st else Inr st)"

definition dump_row :: "mem \<Rightarrow> u32 \<Rightarrow> 'i io \<Rightarrow> 'i io outcome" where
  "dump_row m p st =
     bind_outcome (dprintf_raw (\<lambda>_. []) (lit ''0x%08x: '') [p] st) (\<lambda>st.
     bind_outcome (each_outcome (dump_byte m p) [0..<8] st) (\<lambda>st.
     bind_outcome (dprintf_raw (\<lambda>_. []) (lit ''   |'') [] st) (\<lambda>st.
     bind_outcome (each_outcome (\<lambda>j. dprintf_raw (\<lambda>_. []) [printable (m (p + of_nat j))] []) [0..<8] st) (\<lambda>st.
       dprintf_raw (\<lambda>_. []) (lit ''|'' @ [10]) [] st))))"

partial_function (option) dump_loop :: "mem \<Rightarrow> u32 \<Rightarrow> u32 \<Rightarrow> u32 \<Rightarrow> 'i io \<Rightarrow> 'i io outcome option" where
  "dump_loop m startaddr len i st =
     (if i < len then run_bind (Some (dump_row m (startaddr + i) st)) (dump_loop m startaddr len (i + 8))
      else Some (Inr st))"

definition dump_memory :: "mem \<Rightarrow> u32 \<Rightarrow> u32 \<Rightarrow> 'i io \<Rightarrow> 'i io outcome option" where
  "dump_memory m input_buffer len st =
     run_bind (dump_loop m input_buffer len 0 st) (\<lambda>st. Some (dprintf_raw (\<lambda>_. []) [10] [] st))"

section \<open>Timer and power\<close>

definition set_timer_reload :: "'h ports \<Rightarrow> u16 \<Rightarrow> 'h \<Rightarrow> 'h" where
  "set_timer_reload io reload h = outb io 0x40 (ucast (drop_bit 8 reload)) (outb io 0x40 (ucast (reload AND 0xff)) h)"

definition irq0_handle :: "u32 \<Rightarrow> u32" where
  "irq0_handle ticks = ticks + 1"

definition kticks :: "u32 \<Rightarrow> u32" where
  "kticks ticks = ticks"

text \<open>The three calls of the APM interface, the registers kept from call to call.\<close>

definition kpoweroff :: "'d bios \<Rightarrow> mem \<times> 'd \<Rightarrow> (mem \<times> 'd) outcome" where
  "kpoweroff bios st =
     (let (regs, m, d) = bios 0x15 (zero_regs\<lparr>eax := 0x5301\<rparr>) (fst st) (snd st) in
      assert_that (flags regs AND EFL_CF = 0) ''APM not supported''
        (let (regs, m, d) = bios 0x15 (regs\<lparr>eax := 0x530f, ebx := 1, ecx := 1\<rparr>) m d;
             (regs, m, d) = bios 0x15 (regs\<lparr>eax := 0x5307, ebx := 1, ecx := 3\<rparr>) m d
         in Inr (m, d)))"

section \<open>Configuration at start\<close>

text \<open>\<open>out_var\<close> and \<open>in_var\<close> are the addresses of the variables \<open>stdout\<close> and \<open>stdin\<close>.\<close>

definition late_config :: "u32 \<Rightarrow> u32 \<Rightarrow> config \<Rightarrow> config outcome option" where
  "late_config out_var in_var st =
     run_bind (config_newns st (lit ''sys'')) (\<lambda>st.
     run_bind (config_setstr st (lit ''sys:prompt'') (lit ''# '')) (\<lambda>st.
     run_bind (config_setobj st (lit ''sys:&stdout'') out_var) (\<lambda>st.
     run_bind (config_setobj st (lit ''sys:&stdin'') in_var) (\<lambda>st.
       config_setstr st (lit ''sys:def_fs'') (lit ''hd0p0'')))))"

definition timer_init :: "'h ports \<Rightarrow> 'h \<Rightarrow> u32 \<times> 'h" where
  "timer_init io h = (0, set_timer_reload io 11932 h)"

section \<open>What a dump prints\<close>

definition byte_text :: "mem \<Rightarrow> u32 \<Rightarrow> nat \<Rightarrow> u8 list" where
  "byte_text m p j = hex2 (m (p + of_nat j)) @ [32] @ (if (j + 1) mod 4 = 0 then [32] else [])"

definition row_text :: "mem \<Rightarrow> u32 \<Rightarrow> u8 list" where
  "row_text m p = lit ''0x'' @ hex8 False p @ lit '': '' @ concat (map (byte_text m p) [0..<8])
     @ lit ''   |'' @ map (\<lambda>j. printable (m (p + of_nat j))) [0..<8] @ lit ''|'' @ [10]"

lemma dump_byte_text: "dump_byte m p j (st :: 'a io) = Inr (with_debug (byte_text m p j) st)"
proof -
  have "lit ''%02x '' = 37 # 48 # 50 # 120 # [32]" by (simp add: lit_def)
  then have "format_text (\<lambda>_. []) (lit ''%02x '') [ucast (m (p + of_nat j))] = Inr (hex2 (m (p + of_nat j)) @ [32])"
    using format_text_plain [of "[32]" "\<lambda>_. []" "[]" "[]"]
    by (simp add: format_text_percent format_zeropad_2 hex2_def unat_u8_u32)
  then have 1: "dprintf_raw (\<lambda>_. []) (lit ''%02x '') [ucast (m (p + of_nat j))] st
      = Inr (with_debug (hex2 (m (p + of_nat j)) @ [32]) st)" for st :: "'a io"
    using hex_nonzero by (intro dprintf_raw_text) simp_all
  have 2: "dprintf_raw (\<lambda>_. []) (lit '' '') [] st = Inr (with_debug [32] st)" for st :: "'a io"
    using dprintf_plain [of "[32]" "\<lambda>_. []" st] by (simp add: lit_def)
  show ?thesis by (simp add: dump_byte_def byte_text_def 1 2)
qed

lemma each_outcome_debug:
  "(\<And>x s. x \<in> set xs \<Longrightarrow> f x s = Inr (with_debug (t x) s)) \<Longrightarrow>
   each_outcome f xs s = Inr (with_debug (concat (map t xs)) s)"
  by (induction xs arbitrary: s) simp_all

lemma each_outcome_debug_fails:
  "(\<And>x s. x \<in> set xs \<Longrightarrow> f x s = (if P x then Inl e else Inr (with_debug (t x) s))) \<Longrightarrow> \<exists>x \<in> set xs. P x \<Longrightarrow>
   each_outcome f xs s = Inl e"
  by (induction xs arbitrary: s) auto

lemma printable_percent: "printable c = 37 \<longleftrightarrow> c = 37" "printable c \<noteq> 0"
  by (auto simp: printable_def word_le_nat_alt)

lemma dprintf_printable:
  "dprintf_raw (\<lambda>_. []) [printable c] [] st = (if c = 37 then Inl WildAccess else Inr (with_debug [printable c] st))"
proof (cases "c = 37")
  case True
  have "format_text (\<lambda>_. []) [37] [] = Inl WildAccess"
    by (simp add: format_text_percent eval_conversion_def eval_width_def eval_precision_def is_digit_simps)
  moreover have "printable 37 = 37" by (simp add: printable_def)
  ultimately show ?thesis using True by (simp add: dprintf_raw_def vfctprintf_def vsnprintf_core_def)
next
  case False
  then show ?thesis using dprintf_plain [of "[printable c]" "\<lambda>_. []"] printable_percent [of c] by auto
qed

lemma dump_row_text:
  "dump_row m p (st :: 'a io) = (if \<exists>j < 8. m (p + of_nat j) = 37 then Inl WildAccess else Inr (with_debug (row_text m p) st))"
proof -
  have "lit ''0x%08x: '' = lit ''0x'' @ 37 # 48 # 56 # 120 # lit '': ''" by (simp add: lit_def)
  then have "format_text (\<lambda>_. []) (lit ''0x%08x: '') [p] = Inr (lit ''0x'' @ hex8 False p @ lit '': '')"
    using format_text_plain [of "lit ''0x''" "\<lambda>_. []"] format_text_plain [of "lit '': ''" "\<lambda>_. []" "[]" "[]"]
    by (simp add: format_text_percent eval_conversion_08x lit_def)
  then have 1: "dprintf_raw (\<lambda>_. []) (lit ''0x%08x: '') [p] st = Inr (with_debug (lit ''0x'' @ hex8 False p @ lit '': '') st)" for st :: "'a io"
    using hex_nonzero by (intro dprintf_raw_text) (auto simp: lit_def)
  have 2: "each_outcome (dump_byte m p) [0..<8] st = Inr (with_debug (concat (map (byte_text m p) [0..<8])) st)" for st :: "'a io"
    by (rule each_outcome_debug) (rule dump_byte_text)
  have 3: "dprintf_raw (\<lambda>_. []) (lit ''   |'') [] st = Inr (with_debug (lit ''   |'') st)"
    "dprintf_raw (\<lambda>_. []) (lit ''|'' @ [10]) [] st = Inr (with_debug (lit ''|'' @ [10]) st)" for st :: "'a io"
    by (intro dprintf_plain; simp add: lit_def)+
  let ?f = "\<lambda>j. dprintf_raw (\<lambda>_. []) [printable (m (p + of_nat j))] []"
  show ?thesis
  proof (cases "\<exists>j < 8. m (p + of_nat j) = 37")
    case True
    then have "each_outcome ?f [0..<8] s = Inl WildAccess" for s :: "'a io"
      by (intro each_outcome_debug_fails [where P = "\<lambda>j. m (p + of_nat j) = 37" and t = "\<lambda>j. [printable (m (p + of_nat j))]"])
        (auto simp: dprintf_printable)
    then show ?thesis using True 1 2 3 by (simp add: dump_row_def)
  next
    case False
    then have "each_outcome ?f [0..<8] s = Inr (with_debug (concat (map (\<lambda>j. [printable (m (p + of_nat j))]) [0..<8])) s)" for s :: "'a io"
      by (intro each_outcome_debug) (auto simp: dprintf_printable)
    then show ?thesis using False 1 2 3 by (simp add: dump_row_def row_text_def)
  qed
qed

definition dump_rows :: "u32 \<Rightarrow> nat" where
  "dump_rows len = (unat len + 7) div 8"

definition dump_percent :: "mem \<Rightarrow> u32 \<Rightarrow> nat \<Rightarrow> bool" where
  "dump_percent m p k = (\<exists>j < 8. m (p + of_nat (8 * k) + of_nat j) = 37)"

definition dump_text :: "mem \<Rightarrow> u32 \<Rightarrow> nat list \<Rightarrow> u8 list" where
  "dump_text m p ks = concat (map (\<lambda>k. row_text m (p + of_nat (8 * k))) ks)"

lemma dump_loop_from:
  assumes "k + r = dump_rows len" "unat len \<le> 4294967288"
  shows "dump_loop m p len (of_nat (8 * k)) (st :: 'a io) =
    Some (if \<exists>i \<in> set [k..<k + r]. dump_percent m p i then Inl WildAccess
          else Inr (with_debug (dump_text m p [k..<k + r]) st))"
  using assms(1)
proof (induction r arbitrary: k st)
  case 0
  then have "unat len \<le> 8 * k" "8 * k < 4294967296" using assms(2) by (simp_all add: dump_rows_def)
  then have "\<not> (of_nat (8 * k) :: u32) < len" by (simp add: word_less_nat_alt unat_of_nat_u32 del: of_nat_mult)
  then show ?case by (subst dump_loop.simps) (simp add: dump_text_def del: of_nat_mult)
next
  case (Suc r)
  then have "8 * k < unat len" using assms(2) by (simp add: dump_rows_def)
  then have lt: "(of_nat (8 * k) :: u32) < len"
    using unat_lt_2p32 [of len] by (simp add: word_less_nat_alt unat_of_nat_u32 del: of_nat_mult unat_lt_2p32)
  have step: "(of_nat (8 * k) :: u32) + 8 = of_nat (8 * Suc k)" by simp
  have row: "dump_row m (p + of_nat (8 * k)) st
      = (if dump_percent m p k then Inl WildAccess else Inr (with_debug (row_text m (p + of_nat (8 * k))) st))"
    by (simp only: dump_row_text dump_percent_def)
  have ks: "[k..<k + Suc r] = k # [Suc k..<Suc k + r]" by (simp add: upt_rec)
  have ih: "dump_loop m p len (of_nat (8 * k) + 8) s =
    Some (if \<exists>i \<in> set [Suc k..<Suc k + r]. dump_percent m p i then Inl WildAccess
          else Inr (with_debug (dump_text m p [Suc k..<Suc k + r]) s))" for s :: "'a io"
    unfolding step using Suc by (intro Suc.IH) simp
  show ?case
    using lt row unfolding ks
    by (subst dump_loop.simps) (simp add: ih dump_text_def del: of_nat_mult upt_Suc)
qed

section \<open>The property\<close>

text \<open>
  The memory dump: it ends, and sends to the debug device one row for every eight bytes of the
  length, rounded up, each with its address, its bytes in hexadecimal in two groups of four and
  its printable characters, and an empty line. If a percent sign is among the bytes of the rows, the
  dump instead ends in an access to an argument that does not exist, because every character is passed as
  the format.
\<close>

theorem dump_memory_rows:
  assumes "unat len \<le> 4294967288"
  shows "dump_memory m p len (st :: 'a io) =
    Some (if \<exists>k < dump_rows len. dump_percent m p k then Inl WildAccess
          else Inr (with_debug (dump_text m p [0..<dump_rows len] @ [10]) st))"
proof -
  have "dprintf_raw (\<lambda>_. []) [10] [] s = Inr (with_debug [10] s)" for s :: "'a io"
    by (rule dprintf_plain) simp_all
  then show ?thesis
    using dump_loop_from [of 0 "dump_rows len" len m p st] assms by (auto simp: dump_memory_def)
qed

theorem dump_memory_rows_witness:
  "let m = (\<lambda>_. 0)(0x20 := 0x41, 0x24 := 0xff :: u8);
       st = \<lparr>stdin_dev = (), stdout_text = None, dbgout_text = Some [], should_echo = 1, log_level = 3\<rparr> in
   (dump_memory m 0x20 5 st = Some (Inr (st\<lparr>dbgout_text :=
       Some (lit ''0x00000020: 41 00 00 00  ff 00 00 00     |A.......|'' @ [10, 10])\<rparr>)))
   \<and> dump_memory (m(0x23 := 37)) 0x20 5 st = Some (Inl WildAccess)"
proof -
  have r: "dump_rows 5 = 1" by (simp add: dump_rows_def)
  let ?m = "(\<lambda>_. 0)(0x20 := 0x41, 0x24 := 0xff :: u8)"
  let ?st = "\<lparr>stdin_dev = (), stdout_text = None, dbgout_text = Some [], should_echo = 1, log_level = 3\<rparr>"
  have "\<not> dump_percent ?m 0x20 0" by (simp add: dump_percent_def)
  moreover have "dump_text ?m 0x20 [0..<1] = lit ''0x00000020: 41 00 00 00  ff 00 00 00     |A.......|'' @ [10]"
    by code_simp
  moreover have "dump_percent (?m(0x23 := 37)) 0x20 0"
    unfolding dump_percent_def by (rule exI [of _ 3]) simp
  ultimately show ?thesis
    using dump_memory_rows [of 5 ?m "0x20" ?st] dump_memory_rows [of 5 "?m(0x23 := 37)" "0x20" ?st]
    by (simp add: r with_debug_def Let_def del: fun_upd_apply)
qed

end
