(* ===== verification/Boot.thy ===== *)
theory Boot
  imports Syscall Kernel Kenv
begin

text \<open>
  The end of the start of the kernel (\<open>kernel_late_init\<close> of \<open>kern/kernel.c\<close>), which puts the parts
  together: the system calls, the timer with its interrupt, the environment and the configuration. The state is
  that of theory Syscall with the variables of \<open>kernel.c\<close>. \<open>kernel_main\<close>, which calls it, is theory Start, the \<open>main\<close> called afterwards theory Session. The
  log is left out.
\<close>

section \<open>The code\<close>

record ('h, 'i) kern = "('h, 'i) sys" +
  kticks_var :: u32
  kb_available :: int
  root_env :: "cstring env"
  kconf :: config

definition keyboard_init :: "('h, 'i, 'z) cpu_scheme \<Rightarrow> ('h, 'i, 'z) cpu_scheme" where
  "keyboard_init st = register_handler (IRQ_TO_INTR 1) (Some Keyboard_handle_irq) st"

text \<open>What the two handlers of the kernel do; those of the drivers are a parameter.\<close>

definition kernel_handler :: "(intr_handler \<Rightarrow> u32 \<Rightarrow> u32 \<Rightarrow> ('h, 'i, 'z) kern_scheme \<Rightarrow> ('h, 'i, 'z) kern_scheme outcome option) \<Rightarrow>
    intr_handler \<Rightarrow> u32 \<Rightarrow> u32 \<Rightarrow> ('h, 'i, 'z) kern_scheme \<Rightarrow> ('h, 'i, 'z) kern_scheme outcome option" where
  "kernel_handler other h n e st = (case h of
     Irq0_handle \<Rightarrow> Some (Inr (st\<lparr>kticks_var := irq0_handle (kticks_var st)\<rparr>))
   | Keyboard_handle_irq \<Rightarrow> Some (Inr (st\<lparr>kb_available := 1\<rparr>))
   | Do_nothing \<Rightarrow> do_nothing n e st
   | _ \<Rightarrow> other h n e st)"

definition kernel_late_init :: "'h ports \<Rightarrow> (string \<Rightarrow> u32) \<Rightarrow> u32 \<Rightarrow> u32 \<Rightarrow> ('h, 'i, 'z) kern_scheme \<Rightarrow> ('h, 'i, 'z) kern_scheme outcome option" where
  "kernel_late_init io lits out_var in_var st =
     (let st = syscalls_init lits st;
          (t, h) = timer_init io (chw st);
          st = st\<lparr>chw := h, kticks_var := t\<rparr>;
          st = register_handler (IRQ_TO_INTR 0) (Some Irq0_handle) st;
          st = st\<lparr>root_env := env_init\<rparr>
      in run_bind (late_config out_var in_var (kconf st)) (\<lambda>c. Some (Inr (st\<lparr>kconf := c\<rparr>))))"

section \<open>The configuration at the start\<close>

text \<open>A namespace with at most \<open>j\<close> keys, whose table has not grown.\<close>

definition small_ns :: "config \<Rightarrow> cstring \<Rightarrow> u32 \<Rightarrow> bool" where
  "small_ns st ns j \<longleftrightarrow> (\<exists>t. htbl_map (namespaces st) ns = Some t \<and> capacity (tables st t) = 32 \<and> tbl_length (tables st t) \<le> j)"

lemma small_admits: "small_ns st ns j \<Longrightarrow> config_admits st (ns, k)"
  by (auto simp: small_ns_def config_admits_def can_grow_def)

lemma config_set_small:
  assumes ok: "config_ok st" and s: "small_ns st ns j" and j: "j < 16"
  obtains st' where "config_set_common st ns k v = Some (Inr st')" "config_ok st'"
    "config_map st' = (config_map st)((ns, k) \<mapsto> v)" "small_ns st' ns (j + 1)"
proof -
  obtain t where t: "htbl_map (namespaces st) ns = Some t" "capacity (tables st t) = 32" "tbl_length (tables st t) \<le> j"
    using s by (auto simp: small_ns_def)
  have O: "htbl_ok (namespaces st)" "htbl_ok (tables st t)" using ok t(1) by (auto simp: config_ok_def)
  obtain t' where t': "htbl_put (tables st t) k v = Some (Inr t')"
    "capacity t' = (if capacity (tables st t) div 2 \<le> tbl_length (tables st t) then capacity (tables st t) * 2 else capacity (tables st t))"
    "tbl_length t' = (if htbl_map (tables st t) k = None then tbl_length (tables st t) + 1 else tbl_length (tables st t))"
    using htbl_put_ok [OF O(2), of k v] t(2) by (auto simp: can_grow_def)
  obtain st' where st': "config_set_common st ns k v = Some (Inr st')" "config_ok st'" "config_map st' = (config_map st)((ns, k) \<mapsto> v)"
    using config_set_common_ok [OF ok small_admits [OF s]] by blast
  have "st' = st\<lparr>tables := (tables st)(t := t')\<rparr>"
    using st'(1) by (simp add: config_set_common_def htbl_get_ok [OF O(1)] t(1) t'(1))
  moreover have "tbl_length (tables st t) < 16" using t(3) j by (rule le_less_trans)
  then have "capacity t' = 32" using t(2) t'(2) by (simp add: not_le [symmetric])
  moreover have "tbl_length t' \<le> j + 1"
    using t(3) t'(3) j by (auto simp: word_le_nat_alt word_less_nat_alt unat_word_ariths)
  ultimately have "small_ns st' ns (j + 1)" using t(1) by (simp add: small_ns_def)
  then show ?thesis using that st' by blast
qed

lemma newns_small:
  assumes "config_ok st" "can_grow (namespaces st)"
  obtains st' where "config_newns st ns = Some (Inr st')" "config_ok st'" "small_ns st' ns 0"
proof -
  obtain t where t: "htbl_put (namespaces st) ns (created st) = Some (Inr t)" "htbl_map t = (htbl_map (namespaces st))(ns \<mapsto> created st)"
    using htbl_put_ok [of "namespaces st" ns "created st"] assms by (auto simp: config_ok_def)
  obtain st' where st': "config_newns st ns = Some (Inr st')" "config_ok st'" using config_newns_ok [OF assms, of ns] by blast
  have "st' = st\<lparr>namespaces := t, tables := (tables st)(created st := htbl_create), created := created st + 1\<rparr>"
    using st'(1) t(1) by (simp add: config_newns_def)
  then have "small_ns st' ns 0" using t(2) htbl_create_ok [where ?'v = config_value] by (simp add: small_ns_def)
  then show ?thesis using that st' by blast
qed

definition sys_key :: "string \<Rightarrow> cstring \<times> cstring" where
  "sys_key k = (lit ''sys'', lit k)"

lemma late_config_map:
  assumes "config_ok st" "can_grow (namespaces st)"
  obtains st' where "late_config out_var in_var st = Some (Inr st')" "config_ok st'" "has_ns st' (lit ''sys'')"
    "config_map st' (sys_key ''prompt'') = Some (Sval (lit ''# ''))" "config_map st' (sys_key ''def_fs'') = Some (Sval (lit ''hd0p0''))"
    "config_map st' (sys_key ''&stdout'') = Some (Oval out_var)" "config_map st' (sys_key ''&stdin'') = Some (Oval in_var)"
proof -
  obtain s0 where 0: "config_newns st (lit ''sys'') = Some (Inr s0)" "config_ok s0" "small_ns s0 (lit ''sys'') 0"
    by (rule newns_small [OF assms])
  obtain s1 where 1: "config_set_common s0 (lit ''sys'') (lit ''prompt'') (Sval (lit ''# '')) = Some (Inr s1)" "config_ok s1"
    "config_map s1 = (config_map s0)((lit ''sys'', lit ''prompt'') \<mapsto> Sval (lit ''# ''))" "small_ns s1 (lit ''sys'') (0 + 1)"
    by (rule config_set_small [OF 0(2, 3)]) simp_all
  obtain s2 where 2: "config_set_common s1 (lit ''sys'') (lit ''&stdout'') (Oval out_var) = Some (Inr s2)" "config_ok s2"
    "config_map s2 = (config_map s1)((lit ''sys'', lit ''&stdout'') \<mapsto> Oval out_var)" "small_ns s2 (lit ''sys'') (0 + 1 + 1)"
    by (rule config_set_small [OF 1(2, 4)]) simp_all
  obtain s3 where 3: "config_set_common s2 (lit ''sys'') (lit ''&stdin'') (Oval in_var) = Some (Inr s3)" "config_ok s3"
    "config_map s3 = (config_map s2)((lit ''sys'', lit ''&stdin'') \<mapsto> Oval in_var)" "small_ns s3 (lit ''sys'') (0 + 1 + 1 + 1)"
    by (rule config_set_small [OF 2(2, 4)]) simp_all
  obtain s4 where 4: "config_set_common s3 (lit ''sys'') (lit ''def_fs'') (Sval (lit ''hd0p0'')) = Some (Inr s4)" "config_ok s4"
    "config_map s4 = (config_map s3)((lit ''sys'', lit ''def_fs'') \<mapsto> Sval (lit ''hd0p0''))" "small_ns s4 (lit ''sys'') (0 + 1 + 1 + 1 + 1)"
    by (rule config_set_small [OF 3(2, 4)]) simp_all
  have p: "config_parse_key (lit ''sys:prompt'') = Some (lit ''sys'', lit ''prompt'')" "config_parse_key (lit ''sys:&stdout'') = Some (lit ''sys'', lit ''&stdout'')"
    "config_parse_key (lit ''sys:&stdin'') = Some (lit ''sys'', lit ''&stdin'')" "config_parse_key (lit ''sys:def_fs'') = Some (lit ''sys'', lit ''def_fs'')"
    by (simp_all add: config_parse_key_def lit_def)
  have run: "late_config out_var in_var st = Some (Inr s4)"
    by (simp add: late_config_def 0(1) config_set_paths [OF 0(2) p(1) small_admits [OF 0(3)]] 1(1)
      config_set_paths [OF 1(2) p(2) small_admits [OF 1(4)]] 2(1) config_set_paths [OF 2(2) p(3) small_admits [OF 2(4)]] 3(1)
      config_set_paths [OF 3(2) p(4) small_admits [OF 3(4)]] 4(1))
  have "has_ns s4 (lit ''sys'')" using 4(4) by (auto simp: small_ns_def has_ns_def)
  then show ?thesis
    by (rule that [OF run 4(2)]) (simp_all add: 1(3) 2(3) 3(3) 4(3) sys_key_def lit_def)
qed

section \<open>The kernel when \<open>main\<close> is called\<close>

text \<open>Interrupts one after the other.\<close>

definition interrupts_run :: "(intr_handler \<Rightarrow> u32 \<Rightarrow> u32 \<Rightarrow> ('h, 'i, 'z) kern_scheme \<Rightarrow> ('h, 'i, 'z) kern_scheme outcome option) \<Rightarrow>
    (ll_intr_handler \<Rightarrow> intr_frame \<Rightarrow> ('h, 'i, 'z) kern_scheme \<Rightarrow> (intr_frame \<times> ('h, 'i, 'z) kern_scheme) outcome option) \<Rightarrow> 'h ports \<Rightarrow>
    intr_frame list \<Rightarrow> ('h, 'i, 'z) kern_scheme \<Rightarrow> ('h, 'i, 'z) kern_scheme outcome option" where
  "interrupts_run other call_ll io = run_each (\<lambda>frame st.
     run_bind (interrupts_handle_int (kernel_handler other) call_ll io frame st) (\<lambda>(frame, st). Some (Inr st)))"

lemma bound_step:
  assumes "tables_ok st" "unat (int_no frame) < 256" "bound_handlers st ! unat (int_no frame) = Some h"
    "kernel_handler other h (int_no frame) (err_code frame) st = Some (Inr st')"
  shows "run_bind (interrupts_handle_int (kernel_handler other) call_ll io frame st) (\<lambda>(frame, st). Some (Inr st))
    = Some (Inr (at_ports (acknowledged io (unat (int_no frame))) st'))"
  using assms by (simp add: interrupts_handle_int_def tables_ok_def Let_def eoi_acknowledged)

lemma timer_runs:
  assumes "tables_ok st" "bound_handlers st ! 32 = Some Irq0_handle" "\<forall>f \<in> set frames. int_no f = 32"
  shows "interrupts_run other call_ll io frames st
    = Some (Inr (st\<lparr>kticks_var := kticks_var st + of_nat (length frames), chw := (acknowledged io 32 ^^ length frames) (chw st)\<rparr>))"
  using assms
proof (induction frames arbitrary: st)
  case Nil
  then show ?case by (simp add: interrupts_run_def)
next
  case (Cons f fs)
  let ?st = "st\<lparr>kticks_var := kticks_var st + 1\<rparr>"
  have "run_bind (interrupts_handle_int (kernel_handler other) call_ll io f st) (\<lambda>(frame, st). Some (Inr st))
      = Some (Inr (at_ports (acknowledged io 32) ?st))"
    using Cons.prems bound_step [of st f Irq0_handle other ?st call_ll io] by (simp add: kernel_handler_def irq0_handle_def)
  moreover have "interrupts_run other call_ll io fs (at_ports (acknowledged io 32) ?st)
      = Some (Inr (st\<lparr>kticks_var := kticks_var st + of_nat (length (f # fs)), chw := (acknowledged io 32 ^^ length (f # fs)) (chw st)\<rparr>))"
    using Cons.IH [of "at_ports (acknowledged io 32) ?st"] Cons.prems
    by (simp add: at_ports_def tables_ok_def funpow_swap1 add.assoc)
  ultimately show ?case by (simp add: interrupts_run_def)
qed

lemma set_table_other [simp]:
  "root_env (register_handler n h st) = root_env st" "kconf (register_handler n h st) = kconf (st :: ('h, 'i, 'z) kern_scheme)"
  "kticks_var (register_handler n h st) = kticks_var st" "kb_available (register_handler n h st) = kb_available st"
  by (simp_all add: register_handler_def)

lemma syscalls_init_eq:
  assumes "syscall_max st = 32"
  shows "syscalls_init lits st = st\<lparr>syscall_table := (syscall_table st)[0 := \<lparr>sc_name = lits ''sysgetdynamic'', sc_fn = Some Syscall_sysgetdynamic\<rparr>,
    32 := \<lparr>sc_name = lits ''puts'', sc_fn = Some Syscall_puts\<rparr>, 33 := \<lparr>sc_name = lits ''getmodsym'', sc_fn = Some Syscall_getmodsym\<rparr>],
    syscall_max := 34\<rparr>"
  using assms by (simp add: syscalls_init_def register_syscall_static_def register_syscall_def set_entry_def
    SYSCALL_NR_MAX_def SYSCALL_NR_RESERVED_def Let_def)

lemma syscall_init_eq:
  "\<exists>T. syscall_init st = register_ll_handler 128 (Some Syscall_handle) (st\<lparr>syscall_table := T\<rparr>) \<and> length T = length (syscall_table st)"
proof -
  have "\<exists>T. fold (\<lambda>i. set_entry i 0 None) is st = st\<lparr>syscall_table := T\<rparr> \<and> length T = length (syscall_table st)" for "is" and st :: "('a, 'b, 'c) sys_scheme"
  proof (induction "is" arbitrary: st)
    case Nil
    then show ?case by (intro exI [of _ "syscall_table st"]) simp
  next
    case (Cons i "is")
    then show ?case using Cons [of "set_entry i 0 None st"] by (auto simp: set_entry_def)
  qed
  then show ?thesis unfolding syscall_init_def by metis
qed

lemma handlers_bound:
  assumes "length (syscall_table st) = 128" "length (bound_handlers st) = 256" "length (ll_bound_handlers st) = 256"
  obtains T where "keyboard_init (syscall_init st) = st\<lparr>syscall_table := T,
      ll_bound_handlers := (ll_bound_handlers st)[128 := Some Syscall_handle],
      bound_handlers := (bound_handlers st)[33 := Some Keyboard_handle_irq]\<rparr>" "length T = 128"
proof -
  obtain T where "syscall_init st = register_ll_handler 128 (Some Syscall_handle) (st\<lparr>syscall_table := T\<rparr>)" "length T = 128"
    using syscall_init_eq [of st] assms(1) by auto
  then show ?thesis using that assms
    by (simp add: keyboard_init_def register_handler_def register_ll_handler_def IRQ_TO_INTR_def INTR_COUNT_def)
qed

text \<open>The state in which \<open>kernel_late_init\<close> is called: the parts before it have bound their handlers.\<close>

definition early_done :: "('h, 'i, 'z) kern_scheme \<Rightarrow> bool" where
  "early_done st \<longleftrightarrow> tables_ok st \<and> bound_handlers st ! 33 = Some Keyboard_handle_irq \<and> bound_handlers st ! 128 = None
     \<and> ll_bound_handlers st ! 128 = Some Syscall_handle \<and> length (syscall_table st) = 128 \<and> syscall_max st = 32
     \<and> config_ok (kconf st) \<and> can_grow (namespaces (kconf st))"

text \<open>What holds when \<open>main\<close> is called.\<close>

definition services_up :: "(intr_handler \<Rightarrow> u32 \<Rightarrow> u32 \<Rightarrow> ('h, 'i, 'z) kern_scheme \<Rightarrow> ('h, 'i, 'z) kern_scheme outcome option) \<Rightarrow>
    (ll_intr_handler \<Rightarrow> intr_frame \<Rightarrow> ('h, 'i, 'z) kern_scheme \<Rightarrow> (intr_frame \<times> ('h, 'i, 'z) kern_scheme) outcome option) \<Rightarrow> 'h ports \<Rightarrow>
    u32 \<Rightarrow> u32 \<Rightarrow> ('h, 'i, 'z) kern_scheme \<Rightarrow> bool" where
  "services_up other call_ll io out_var in_var kst \<longleftrightarrow>
     (\<forall>frames. (\<forall>f \<in> set frames. int_no f = 32) \<longrightarrow> (\<exists>kst'. interrupts_run other call_ll io frames kst = Some (Inr kst')
        \<and> kticks (kticks_var kst') = of_nat (length frames) \<and> chw kst' = (outb io 0x20 0x20 ^^ length frames) (chw kst)))
    \<and> (\<forall>f. int_no f = 33 \<longrightarrow> interrupts_run other call_ll io [f] kst = Some (Inr (kst\<lparr>kb_available := 1, chw := outb io 0x20 0x20 (chw kst)\<rparr>)))
    \<and> calls_ready kst \<and> map (\<lambda>n. sc_fn (syscall_table kst ! n)) [0, 32, 33] = map Some [Syscall_sysgetdynamic, Syscall_puts, Syscall_getmodsym]
    \<and> (\<forall>k. env_get (root_env kst) k = None)
    \<and> config_getstr (kconf kst) (lit ''sys:prompt'') = Some (Inr (Some (lit ''# '')))
    \<and> config_getstr (kconf kst) (lit ''sys:def_fs'') = Some (Inr (Some (lit ''hd0p0'')))
    \<and> config_getobj (kconf kst) (lit ''sys:&stdout'') = Some (Inr out_var) \<and> config_getobj (kconf kst) (lit ''sys:&stdin'') = Some (Inr in_var)"

lemma config_getters:
  assumes "config_ok c" "has_ns c (lit ''sys'')"
    "config_map c (sys_key ''prompt'') = Some (Sval (lit ''# ''))" "config_map c (sys_key ''def_fs'') = Some (Sval (lit ''hd0p0''))"
    "config_map c (sys_key ''&stdout'') = Some (Oval out_var)" "config_map c (sys_key ''&stdin'') = Some (Oval in_var)"
  shows "config_getstr c (lit ''sys:prompt'') = Some (Inr (Some (lit ''# '')))"
    "config_getstr c (lit ''sys:def_fs'') = Some (Inr (Some (lit ''hd0p0'')))"
    "config_getobj c (lit ''sys:&stdout'') = Some (Inr out_var)" "config_getobj c (lit ''sys:&stdin'') = Some (Inr in_var)"
proof -
  have p: "config_parse_key (lit ''sys:prompt'') = Some (sys_key ''prompt'')" "config_parse_key (lit ''sys:&stdout'') = Some (sys_key ''&stdout'')"
    "config_parse_key (lit ''sys:&stdin'') = Some (sys_key ''&stdin'')" "config_parse_key (lit ''sys:def_fs'') = Some (sys_key ''def_fs'')"
    by (simp_all add: config_parse_key_def lit_def sys_key_def)
  show "config_getstr c (lit ''sys:prompt'') = Some (Inr (Some (lit ''# '')))"
    "config_getstr c (lit ''sys:def_fs'') = Some (Inr (Some (lit ''hd0p0'')))"
    "config_getobj c (lit ''sys:&stdout'') = Some (Inr out_var)" "config_getobj c (lit ''sys:&stdin'') = Some (Inr in_var)"
    using assms(3-6) config_get_paths [OF assms(1) p(1) [unfolded sys_key_def] assms(2)] config_get_paths [OF assms(1) p(2) [unfolded sys_key_def] assms(2)]
      config_get_paths [OF assms(1) p(3) [unfolded sys_key_def] assms(2)] config_get_paths [OF assms(1) p(4) [unfolded sys_key_def] assms(2)]
    by (simp_all add: sys_key_def)
qed

lemma kernel_late_up:
  assumes "early_done st"
  obtains c T where "kernel_late_init io lits out_var in_var st = Some (Inr (st\<lparr>kconf := c, syscall_table := T, syscall_max := 34,
      bound_handlers := (bound_handlers st)[32 := Some Irq0_handle], chw := outb io 0x40 0x2e (outb io 0x40 0x9c (chw st)),
      kticks_var := 0, root_env := env_init\<rparr>))"
    "services_up other call_ll io out_var in_var (st\<lparr>kconf := c, syscall_table := T, syscall_max := 34,
      bound_handlers := (bound_handlers st)[32 := Some Irq0_handle], chw := outb io 0x40 0x2e (outb io 0x40 0x9c (chw st)),
      kticks_var := 0, root_env := env_init\<rparr>)"
proof -
  note E = assms [unfolded early_done_def]
  obtain c where c: "late_config out_var in_var (kconf st) = Some (Inr c)" "config_ok c" "has_ns c (lit ''sys'')"
    "config_map c (sys_key ''prompt'') = Some (Sval (lit ''# ''))" "config_map c (sys_key ''def_fs'') = Some (Sval (lit ''hd0p0''))"
    "config_map c (sys_key ''&stdout'') = Some (Oval out_var)" "config_map c (sys_key ''&stdin'') = Some (Oval in_var)"
    using E by (auto intro: late_config_map)
  let ?T = "(syscall_table st)[0 := \<lparr>sc_name = lits ''sysgetdynamic'', sc_fn = Some Syscall_sysgetdynamic\<rparr>,
    32 := \<lparr>sc_name = lits ''puts'', sc_fn = Some Syscall_puts\<rparr>, 33 := \<lparr>sc_name = lits ''getmodsym'', sc_fn = Some Syscall_getmodsym\<rparr>]"
  let ?k = "st\<lparr>kconf := c, syscall_table := ?T, syscall_max := 34, bound_handlers := (bound_handlers st)[32 := Some Irq0_handle],
    chw := outb io 0x40 0x2e (outb io 0x40 0x9c (chw st)), kticks_var := 0, root_env := env_init\<rparr>"
  have timer: "timer_init io h = (0, outb io 0x40 0x2e (outb io 0x40 0x9c h))" for h
    by (simp add: timer_init_def set_timer_reload_def drop_bit_eq_div)
  have len: "length (bound_handlers st) = 256" using E by (simp add: tables_ok_def)
  have run: "kernel_late_init io lits out_var in_var st = Some (Inr ?k)"
    unfolding kernel_late_init_def
    by (subst syscalls_init_eq) (simp_all add: E timer Let_def register_handler_def IRQ_TO_INTR_def INTR_COUNT_def c(1))
  have ok: "tables_ok ?k" using E by (simp add: tables_ok_def)
  have h: "bound_handlers ?k ! 32 = Some Irq0_handle" "bound_handlers ?k ! 33 = Some Keyboard_handle_irq" using E len by simp_all
  have ack: "acknowledged io 32 = outb io 0x20 0x20" "acknowledged io 33 = outb io 0x20 0x20" by (simp_all add: acknowledged_def fun_eq_iff)
  have ticks: "\<exists>kst'. interrupts_run other call_ll io frames ?k = Some (Inr kst')
      \<and> kticks (kticks_var kst') = of_nat (length frames) \<and> chw kst' = (outb io 0x20 0x20 ^^ length frames) (chw ?k)"
    if "\<forall>f \<in> set frames. int_no f = 32" for frames
    using timer_runs [OF ok h(1) that, of other call_ll io] by (simp add: ack kticks_def)
  have key: "interrupts_run other call_ll io [f] ?k = Some (Inr (?k\<lparr>kb_available := 1, chw := outb io 0x20 0x20 (chw ?k)\<rparr>))" if "int_no f = 33" for f
    using bound_step [OF ok, of f Keyboard_handle_irq other "?k\<lparr>kb_available := 1\<rparr>" call_ll io] h(2) that
    by (simp add: interrupts_run_def kernel_handler_def ack at_ports_def)
  have calls: "calls_ready ?k" "map (\<lambda>n. sc_fn (syscall_table ?k ! n)) [0, 32, 33] = map Some [Syscall_sysgetdynamic, Syscall_puts, Syscall_getmodsym]"
    using E ok by (simp_all add: calls_ready_def)
  have env: "env_get (root_env ?k) k = None" for k by (simp add: conjunct1 [OF conjunct2 [OF env_init_ok]])
  have "services_up other call_ll io out_var in_var ?k"
    unfolding services_up_def using ticks key calls env config_getters [OF c(2-7)] by simp
  then show ?thesis using that run by blast
qed

text \<open>The parts of the start that bind handlers, in the order of \<open>kernel_main\<close>, with the empty configuration.\<close>

definition handlers_up :: "('h, 'i, 'z) kern_scheme \<Rightarrow> ('h, 'i, 'z) kern_scheme" where
  "handlers_up st = keyboard_init (syscall_init (st\<lparr>kconf := config_init (kconf st)\<rparr>))"

text \<open>
  When \<open>main\<close> is called, after the initialisations in the order of \<open>kernel_main\<close> and \<open>kernel_late_init\<close>: the timer is set to
  a divisor of 11932, no tick has passed, and from then on every timer interrupt adds one tick and is acknowledged, so
  that \<open>kticks\<close> is the number of interrupts; a key makes its scan code available; interrupt 128 leads to the system calls,
  where 0, 32 and 33 are those of the kernel; the environment is empty; and the configuration has the prompt, the
  default file system and the addresses of the two variables of the standard devices.
\<close>

theorem kernel_starts:
  assumes "tables_ok st" "length (syscall_table st) = 128" "syscall_max st = 32" "created (kconf st) = 0"
    "interrupts_init io stubs st = Inr (2047, st0)"
  shows "\<exists>kst. kernel_late_init io lits out_var in_var (handlers_up st0) = Some (Inr kst)
    \<and> chw kst = outb io 0x40 0x2e (outb io 0x40 0x9c (interrupts_pic_init io (disable_pic io (chw st))))
    \<and> (\<forall>frames. (\<forall>f \<in> set frames. int_no f = 32) \<longrightarrow> (\<exists>kst'. interrupts_run other call_ll io frames kst = Some (Inr kst')
        \<and> kticks (kticks_var kst') = of_nat (length frames) \<and> chw kst' = (outb io 0x20 0x20 ^^ length frames) (chw kst)))
    \<and> (\<forall>f. int_no f = 33 \<longrightarrow> interrupts_run other call_ll io [f] kst = Some (Inr (kst\<lparr>kb_available := 1, chw := outb io 0x20 0x20 (chw kst)\<rparr>)))
    \<and> calls_ready kst \<and> map (\<lambda>n. sc_fn (syscall_table kst ! n)) [0, 32, 33] = map Some [Syscall_sysgetdynamic, Syscall_puts, Syscall_getmodsym]
    \<and> (\<forall>k. env_get (root_env kst) k = None)
    \<and> config_getstr (kconf kst) (lit ''sys:prompt'') = Some (Inr (Some (lit ''# '')))
    \<and> config_getstr (kconf kst) (lit ''sys:def_fs'') = Some (Inr (Some (lit ''hd0p0'')))
    \<and> config_getobj (kconf kst) (lit ''sys:&stdout'') = Some (Inr out_var) \<and> config_getobj (kconf kst) (lit ''sys:&stdin'') = Some (Inr in_var)"
proof -
  obtain I B L where i: "interrupts_init io stubs st = Inr (2047, st\<lparr>idt := I, bound_handlers := B, ll_bound_handlers := L,
      chw := interrupts_pic_init io (disable_pic io (chw st))\<rparr>)"
    "length I = 256" "length B = 256" "length L = 256" "\<And>n. n < 256 \<Longrightarrow> B ! n = (if n = 32 then Some Do_nothing else None)"
    using interrupts_init_tables [OF assms(1), of io stubs] by metis
  have st0: "st0 = st\<lparr>idt := I, bound_handlers := B, ll_bound_handlers := L, chw := interrupts_pic_init io (disable_pic io (chw st))\<rparr>"
    using i(1) assms(5) by simp
  obtain T where up: "handlers_up st0 = (st0\<lparr>kconf := config_init (kconf st0)\<rparr>)\<lparr>syscall_table := T,
      ll_bound_handlers := L[128 := Some Syscall_handle], bound_handlers := B[33 := Some Keyboard_handle_irq]\<rparr>" "length T = 128"
    using handlers_bound [of "st0\<lparr>kconf := config_init (kconf st0)\<rparr>"] assms(2) i(2-4) by (auto simp: handlers_up_def st0)
  have "early_done (handlers_up st0)"
    using i assms htbl_create_ok [where ?'v = nat] up(2)
    unfolding up(1) early_done_def by (simp add: st0 tables_ok_def config_init_def config_ok_def can_grow_def)
  moreover have hw: "chw (handlers_up st0) = interrupts_pic_init io (disable_pic io (chw st))" unfolding up(1) by (simp add: st0)
  ultimately obtain kst where kst: "kernel_late_init io lits out_var in_var (handlers_up st0) = Some (Inr kst)"
    "chw kst = outb io 0x40 0x2e (outb io 0x40 0x9c (interrupts_pic_init io (disable_pic io (chw st))))"
    "services_up other call_ll io out_var in_var kst"
    using kernel_late_up [of "handlers_up st0" io lits out_var in_var other call_ll] by force
  show ?thesis
    by (rule exI, rule conjI [OF kst(1)], rule conjI [OF kst(2)], rule kst(3) [unfolded services_up_def])
qed

definition kern0 :: "((u16 \<times> u32) list, unit) kern" where
  "kern0 = sys.extend sys0 \<lparr>kticks_var = 7, kb_available = 0, root_env = env_init, kconf = config0\<rparr>"

text \<open>The bytes for the timer are \<open>0x9c\<close> and \<open>0x2e\<close>.\<close>

theorem kernel_starts_witness:
  "\<exists>st0 kst kst'. interrupts_init (trace_ports (\<lambda>_. 0)) of_int kern0 = Inr (2047, st0)
    \<and> kernel_late_init (trace_ports (\<lambda>_. 0)) sys_lits 0x600 0x604 (handlers_up st0) = Some (Inr kst)
    \<and> interrupts_run (\<lambda>h n e st. None) (\<lambda>h f st. None) (trace_ports (\<lambda>_. 0)) (replicate 3 (frame0\<lparr>int_no := 32\<rparr>)) kst = Some (Inr kst')
    \<and> kticks (kticks_var kst') = 3"
proof -
  have t: "tables_ok kern0" "length (syscall_table kern0) = 128" "syscall_max kern0 = 32" "created (kconf kern0) = 0"
    using sys0_ready by (simp_all add: kern0_def sys.defs tables_ok_def config0_def config_init_def)
  obtain st0 where i: "interrupts_init (trace_ports (\<lambda>_. 0)) of_int kern0 = Inr (2047, st0)"
    using interrupts_init_tables [OF t(1), of "trace_ports (\<lambda>_. 0)" of_int] by metis
  have f: "\<forall>f \<in> set (replicate 3 (frame0\<lparr>int_no := 32\<rparr>)). int_no f = 32" by simp
  show ?thesis
    using kernel_starts [OF t i, of sys_lits "0x600" "0x604" "\<lambda>h n e st. None" "\<lambda>h f st. None"] i f by fastforce
qed

end
