(* ===== verification/Cherry_Font.thy ===== *)
theory Cherry_Font
  imports Micro_Prelude
begin

text \<open>
  The font of the framebuffer console (\<open>kern/res/cherry_font.h\<close>): 192 characters from the blank on, thirteen rows
  of one byte each. The table is given in two halves; it has an initialiser for all but the last character.
\<close>

definition font_cherry_ascii :: "u8 list list" where
  "font_cherry_ascii = [
     [0x00, 0x00, 0x00, 0x00, 0x00, 0x00, 0x00, 0x00, 0x00, 0x00, 0x00, 0x00, 0x00],
     [0x00, 0x00, 0x10, 0x10, 0x10, 0x10, 0x10, 0x10, 0x00, 0x10, 0x10, 0x00, 0x00],
     [0x00, 0x00, 0x28, 0x28, 0x28, 0x00, 0x00, 0x00, 0x00, 0x00, 0x00, 0x00, 0x00],
     [0x00, 0x00, 0x28, 0x28, 0x7c, 0x28, 0x28, 0x28, 0x7c, 0x28, 0x28, 0x00, 0x00],
     [0x00, 0x00, 0x10, 0x38, 0x54, 0x50, 0x30, 0x18, 0x14, 0x54, 0x38, 0x10, 0x00],
     [0x00, 0x00, 0x24, 0x54, 0x58, 0x28, 0x10, 0x28, 0x34, 0x54, 0x48, 0x00, 0x00],
     [0x00, 0x00, 0x10, 0x28, 0x28, 0x10, 0x30, 0x4a, 0x4a, 0x44, 0x3a, 0x00, 0x00],
     [0x00, 0x00, 0x18, 0x10, 0x20, 0x00, 0x00, 0x00, 0x00, 0x00, 0x00, 0x00, 0x00],
     [0x00, 0x08, 0x10, 0x10, 0x20, 0x20, 0x20, 0x20, 0x20, 0x10, 0x10, 0x08, 0x00],
     [0x00, 0x20, 0x10, 0x10, 0x08, 0x08, 0x08, 0x08, 0x08, 0x10, 0x10, 0x20, 0x00],
     [0x00, 0x00, 0x00, 0x00, 0x00, 0x28, 0x10, 0x7c, 0x10, 0x28, 0x00, 0x00, 0x00],
     [0x00, 0x00, 0x00, 0x00, 0x00, 0x10, 0x10, 0x7c, 0x10, 0x10, 0x00, 0x00, 0x00],
     [0x00, 0x00, 0x00, 0x00, 0x00, 0x00, 0x00, 0x00, 0x00, 0x10, 0x10, 0x20, 0x00],
     [0x00, 0x00, 0x00, 0x00, 0x00, 0x00, 0x00, 0x7c, 0x00, 0x00, 0x00, 0x00, 0x00],
     [0x00, 0x00, 0x00, 0x00, 0x00, 0x00, 0x00, 0x00, 0x00, 0x10, 0x10, 0x00, 0x00],
     [0x00, 0x04, 0x04, 0x08, 0x08, 0x10, 0x10, 0x10, 0x20, 0x20, 0x40, 0x40, 0x00],
     [0x00, 0x00, 0x38, 0x44, 0x44, 0x4c, 0x54, 0x64, 0x44, 0x44, 0x38, 0x00, 0x00],
     [0x00, 0x00, 0x10, 0x30, 0x50, 0x10, 0x10, 0x10, 0x10, 0x10, 0x10, 0x00, 0x00],
     [0x00, 0x00, 0x38, 0x44, 0x44, 0x04, 0x08, 0x10, 0x20, 0x40, 0x7c, 0x00, 0x00],
     [0x00, 0x00, 0x38, 0x44, 0x04, 0x04, 0x18, 0x04, 0x04, 0x44, 0x38, 0x00, 0x00],
     [0x00, 0x00, 0x08, 0x18, 0x18, 0x28, 0x28, 0x48, 0x7c, 0x08, 0x08, 0x00, 0x00],
     [0x00, 0x00, 0x7c, 0x40, 0x40, 0x40, 0x78, 0x04, 0x04, 0x04, 0x78, 0x00, 0x00],
     [0x00, 0x00, 0x38, 0x40, 0x40, 0x40, 0x78, 0x44, 0x44, 0x44, 0x38, 0x00, 0x00],
     [0x00, 0x00, 0x7c, 0x04, 0x04, 0x08, 0x08, 0x10, 0x10, 0x20, 0x20, 0x00, 0x00],
     [0x00, 0x00, 0x38, 0x44, 0x44, 0x44, 0x38, 0x44, 0x44, 0x44, 0x38, 0x00, 0x00],
     [0x00, 0x00, 0x38, 0x44, 0x44, 0x44, 0x3c, 0x04, 0x04, 0x04, 0x38, 0x00, 0x00],
     [0x00, 0x00, 0x00, 0x00, 0x10, 0x10, 0x00, 0x00, 0x00, 0x10, 0x10, 0x00, 0x00],
     [0x00, 0x00, 0x00, 0x00, 0x08, 0x08, 0x00, 0x00, 0x00, 0x08, 0x08, 0x10, 0x00],
     [0x00, 0x00, 0x00, 0x00, 0x04, 0x18, 0x60, 0x80, 0x60, 0x18, 0x04, 0x00, 0x00],
     [0x00, 0x00, 0x00, 0x00, 0x00, 0x00, 0x7c, 0x00, 0x7c, 0x00, 0x00, 0x00, 0x00],
     [0x00, 0x00, 0x00, 0x00, 0x40, 0x30, 0x0c, 0x02, 0x0c, 0x30, 0x40, 0x00, 0x00],
     [0x00, 0x00, 0x38, 0x44, 0x44, 0x04, 0x18, 0x10, 0x00, 0x10, 0x10, 0x00, 0x00],
     [0x00, 0x00, 0x38, 0x44, 0x5c, 0x54, 0x54, 0x54, 0x4c, 0x40, 0x3c, 0x00, 0x00],
     [0x00, 0x00, 0x10, 0x10, 0x28, 0x28, 0x28, 0x38, 0x44, 0x44, 0x44, 0x00, 0x00],
     [0x00, 0x00, 0x78, 0x44, 0x44, 0x44, 0x78, 0x44, 0x44, 0x44, 0x78, 0x00, 0x00],
     [0x00, 0x00, 0x38, 0x44, 0x40, 0x40, 0x40, 0x40, 0x40, 0x44, 0x38, 0x00, 0x00],
     [0x00, 0x00, 0x78, 0x44, 0x44, 0x44, 0x44, 0x44, 0x44, 0x44, 0x78, 0x00, 0x00],
     [0x00, 0x00, 0x7c, 0x40, 0x40, 0x40, 0x78, 0x40, 0x40, 0x40, 0x7c, 0x00, 0x00],
     [0x00, 0x00, 0x7c, 0x40, 0x40, 0x40, 0x78, 0x40, 0x40, 0x40, 0x40, 0x00, 0x00],
     [0x00, 0x00, 0x38, 0x44, 0x40, 0x40, 0x4c, 0x44, 0x44, 0x44, 0x38, 0x00, 0x00],
     [0x00, 0x00, 0x44, 0x44, 0x44, 0x44, 0x7c, 0x44, 0x44, 0x44, 0x44, 0x00, 0x00],
     [0x00, 0x00, 0x38, 0x10, 0x10, 0x10, 0x10, 0x10, 0x10, 0x10, 0x38, 0x00, 0x00],
     [0x00, 0x00, 0x3c, 0x04, 0x04, 0x04, 0x04, 0x04, 0x04, 0x04, 0x38, 0x00, 0x00],
     [0x00, 0x00, 0x44, 0x44, 0x48, 0x48, 0x70, 0x48, 0x48, 0x44, 0x44, 0x00, 0x00],
     [0x00, 0x00, 0x40, 0x40, 0x40, 0x40, 0x40, 0x40, 0x40, 0x40, 0x7c, 0x00, 0x00],
     [0x00, 0x00, 0x44, 0x7c, 0x44, 0x44, 0x44, 0x44, 0x44, 0x44, 0x44, 0x00, 0x00],
     [0x00, 0x00, 0x44, 0x44, 0x64, 0x64, 0x54, 0x4c, 0x4c, 0x44, 0x44, 0x00, 0x00],
     [0x00, 0x00, 0x38, 0x44, 0x44, 0x44, 0x44, 0x44, 0x44, 0x44, 0x38, 0x00, 0x00],
     [0x00, 0x00, 0x78, 0x44, 0x44, 0x44, 0x78, 0x40, 0x40, 0x40, 0x40, 0x00, 0x00],
     [0x00, 0x00, 0x38, 0x44, 0x44, 0x44, 0x44, 0x44, 0x44, 0x44, 0x38, 0x0c, 0x00],
     [0x00, 0x00, 0x78, 0x44, 0x44, 0x44, 0x78, 0x48, 0x48, 0x44, 0x44, 0x00, 0x00],
     [0x00, 0x00, 0x38, 0x44, 0x40, 0x40, 0x38, 0x04, 0x04, 0x44, 0x38, 0x00, 0x00],
     [0x00, 0x00, 0x7c, 0x10, 0x10, 0x10, 0x10, 0x10, 0x10, 0x10, 0x10, 0x00, 0x00],
     [0x00, 0x00, 0x44, 0x44, 0x44, 0x44, 0x44, 0x44, 0x44, 0x44, 0x3c, 0x00, 0x00],
     [0x00, 0x00, 0x44, 0x44, 0x44, 0x28, 0x28, 0x28, 0x28, 0x10, 0x10, 0x00, 0x00],
     [0x00, 0x00, 0x44, 0x44, 0x44, 0x44, 0x44, 0x44, 0x44, 0x7c, 0x44, 0x00, 0x00],
     [0x00, 0x00, 0x44, 0x44, 0x28, 0x28, 0x10, 0x28, 0x28, 0x44, 0x44, 0x00, 0x00],
     [0x00, 0x00, 0x44, 0x44, 0x28, 0x28, 0x28, 0x10, 0x10, 0x10, 0x10, 0x00, 0x00],
     [0x00, 0x00, 0x7c, 0x04, 0x08, 0x08, 0x10, 0x20, 0x20, 0x40, 0x7c, 0x00, 0x00],
     [0x00, 0x38, 0x20, 0x20, 0x20, 0x20, 0x20, 0x20, 0x20, 0x20, 0x20, 0x38, 0x00],
     [0x00, 0x40, 0x40, 0x20, 0x20, 0x10, 0x10, 0x10, 0x08, 0x08, 0x04, 0x04, 0x00],
     [0x00, 0x1c, 0x04, 0x04, 0x04, 0x04, 0x04, 0x04, 0x04, 0x04, 0x04, 0x1c, 0x00],
     [0x00, 0x00, 0x10, 0x28, 0x44, 0x00, 0x00, 0x00, 0x00, 0x00, 0x00, 0x00, 0x00],
     [0x00, 0x00, 0x00, 0x00, 0x00, 0x00, 0x00, 0x00, 0x00, 0x00, 0x7c, 0x00, 0x00],
     [0x00, 0x00, 0x30, 0x10, 0x08, 0x00, 0x00, 0x00, 0x00, 0x00, 0x00, 0x00, 0x00],
     [0x00, 0x00, 0x00, 0x00, 0x38, 0x04, 0x04, 0x3c, 0x44, 0x44, 0x3c, 0x00, 0x00],
     [0x00, 0x00, 0x40, 0x40, 0x78, 0x44, 0x44, 0x44, 0x44, 0x44, 0x78, 0x00, 0x00],
     [0x00, 0x00, 0x00, 0x00, 0x38, 0x44, 0x40, 0x40, 0x40, 0x44, 0x38, 0x00, 0x00],
     [0x00, 0x00, 0x04, 0x04, 0x3c, 0x44, 0x44, 0x44, 0x44, 0x44, 0x3c, 0x00, 0x00],
     [0x00, 0x00, 0x00, 0x00, 0x38, 0x44, 0x44, 0x7c, 0x40, 0x44, 0x38, 0x00, 0x00],
     [0x00, 0x00, 0x1c, 0x20, 0x78, 0x20, 0x20, 0x20, 0x20, 0x20, 0x20, 0x00, 0x00],
     [0x00, 0x00, 0x00, 0x00, 0x3c, 0x44, 0x44, 0x44, 0x44, 0x44, 0x3c, 0x04, 0x38],
     [0x00, 0x00, 0x40, 0x40, 0x5c, 0x64, 0x44, 0x44, 0x44, 0x44, 0x44, 0x00, 0x00],
     [0x00, 0x10, 0x10, 0x00, 0x30, 0x10, 0x10, 0x10, 0x10, 0x10, 0x10, 0x00, 0x00],
     [0x00, 0x10, 0x10, 0x00, 0x30, 0x10, 0x10, 0x10, 0x10, 0x10, 0x10, 0x10, 0x60],
     [0x00, 0x00, 0x40, 0x40, 0x44, 0x48, 0x50, 0x70, 0x50, 0x48, 0x44, 0x00, 0x00],
     [0x00, 0x00, 0x30, 0x10, 0x10, 0x10, 0x10, 0x10, 0x10, 0x10, 0x10, 0x00, 0x00],
     [0x00, 0x00, 0x00, 0x00, 0x7c, 0x54, 0x54, 0x54, 0x54, 0x54, 0x54, 0x00, 0x00],
     [0x00, 0x00, 0x00, 0x00, 0x5c, 0x64, 0x44, 0x44, 0x44, 0x44, 0x44, 0x00, 0x00],
     [0x00, 0x00, 0x00, 0x00, 0x38, 0x44, 0x44, 0x44, 0x44, 0x44, 0x38, 0x00, 0x00],
     [0x00, 0x00, 0x00, 0x00, 0x78, 0x44, 0x44, 0x44, 0x44, 0x44, 0x78, 0x40, 0x40],
     [0x00, 0x00, 0x00, 0x00, 0x3c, 0x44, 0x44, 0x44, 0x44, 0x44, 0x3c, 0x04, 0x04],
     [0x00, 0x00, 0x00, 0x00, 0x5c, 0x60, 0x40, 0x40, 0x40, 0x40, 0x40, 0x00, 0x00],
     [0x00, 0x00, 0x00, 0x00, 0x38, 0x44, 0x40, 0x38, 0x04, 0x44, 0x38, 0x00, 0x00],
     [0x00, 0x00, 0x20, 0x20, 0x78, 0x20, 0x20, 0x20, 0x20, 0x20, 0x18, 0x00, 0x00],
     [0x00, 0x00, 0x00, 0x00, 0x44, 0x44, 0x44, 0x44, 0x44, 0x44, 0x3c, 0x00, 0x00],
     [0x00, 0x00, 0x00, 0x00, 0x44, 0x44, 0x28, 0x28, 0x28, 0x10, 0x10, 0x00, 0x00],
     [0x00, 0x00, 0x00, 0x00, 0x44, 0x44, 0x44, 0x44, 0x44, 0x7c, 0x44, 0x00, 0x00],
     [0x00, 0x00, 0x00, 0x00, 0x44, 0x44, 0x28, 0x10, 0x28, 0x44, 0x44, 0x00, 0x00],
     [0x00, 0x00, 0x00, 0x00, 0x44, 0x44, 0x44, 0x44, 0x44, 0x44, 0x3c, 0x04, 0x38],
     [0x00, 0x00, 0x00, 0x00, 0x7c, 0x04, 0x08, 0x10, 0x20, 0x40, 0x7c, 0x00, 0x00],
     [0x00, 0x18, 0x20, 0x20, 0x20, 0x20, 0xc0, 0x20, 0x20, 0x20, 0x20, 0x18, 0x00],
     [0x00, 0x10, 0x10, 0x10, 0x10, 0x10, 0x10, 0x10, 0x10, 0x10, 0x10, 0x10, 0x00],
     [0x00, 0x30, 0x08, 0x08, 0x08, 0x08, 0x06, 0x08, 0x08, 0x08, 0x08, 0x30, 0x00],
     [0x00, 0x00, 0x00, 0x00, 0x00, 0x32, 0x5a, 0x4c, 0x00, 0x00, 0x00, 0x00, 0x00],
     [0x00, 0x00, 0x00, 0x00, 0x00, 0x00, 0x00, 0x00, 0x00, 0x44, 0x7c, 0x00, 0x00]]"

definition font_cherry_latin :: "u8 list list" where
  "font_cherry_latin = [
     [0x00, 0x00, 0x10, 0x10, 0x00, 0x10, 0x10, 0x10, 0x10, 0x10, 0x10, 0x00, 0x00],
     [0x00, 0x00, 0x00, 0x10, 0x38, 0x54, 0x50, 0x50, 0x50, 0x54, 0x38, 0x10, 0x00],
     [0x00, 0x0c, 0x12, 0x12, 0x10, 0x10, 0x3c, 0x10, 0x10, 0x22, 0x7e, 0x00, 0x00],
     [0x00, 0x00, 0x00, 0x42, 0x3c, 0x24, 0x24, 0x3c, 0x42, 0x00, 0x00, 0x00, 0x00],
     [0x00, 0x44, 0x44, 0x28, 0x28, 0x28, 0x7c, 0x10, 0x7c, 0x10, 0x10, 0x00, 0x00],
     [0x00, 0x10, 0x10, 0x10, 0x10, 0x00, 0x00, 0x00, 0x10, 0x10, 0x10, 0x10, 0x00],
     [0x00, 0x30, 0x48, 0x40, 0x20, 0x50, 0x48, 0x48, 0x28, 0x10, 0x08, 0x48, 0x30],
     [0x00, 0x28, 0x28, 0x00, 0x00, 0x00, 0x00, 0x00, 0x00, 0x00, 0x00, 0x00, 0x00],
     [0x00, 0x00, 0x38, 0x44, 0x9a, 0xa2, 0xa2, 0xa2, 0xa2, 0x9a, 0x44, 0x38, 0x00],
     [0x18, 0x04, 0x1c, 0x24, 0x1c, 0x00, 0x3c, 0x00, 0x00, 0x00, 0x00, 0x00, 0x00],
     [0x00, 0x00, 0x00, 0x00, 0x00, 0x00, 0x24, 0x48, 0x48, 0x24, 0x00, 0x00, 0x00],
     [0x00, 0x00, 0x00, 0x00, 0x00, 0x00, 0x00, 0x7c, 0x04, 0x04, 0x04, 0x00, 0x00],
     [0x00, 0x00, 0x00, 0x00, 0x00, 0x00, 0x00, 0x38, 0x00, 0x00, 0x00, 0x00, 0x00],
     [0x00, 0x00, 0x38, 0x44, 0xb2, 0xaa, 0xaa, 0xb2, 0xaa, 0xaa, 0x44, 0x38, 0x00],
     [0x00, 0x7c, 0x00, 0x00, 0x00, 0x00, 0x00, 0x00, 0x00, 0x00, 0x00, 0x00, 0x00],
     [0x00, 0x18, 0x24, 0x24, 0x18, 0x00, 0x00, 0x00, 0x00, 0x00, 0x00, 0x00, 0x00],
     [0x00, 0x00, 0x00, 0x00, 0x00, 0x10, 0x10, 0x7c, 0x10, 0x10, 0x7c, 0x00, 0x00],
     [0x00, 0x18, 0x24, 0x04, 0x08, 0x10, 0x20, 0x3c, 0x00, 0x00, 0x00, 0x00, 0x00],
     [0x00, 0x18, 0x24, 0x04, 0x18, 0x04, 0x24, 0x18, 0x00, 0x00, 0x00, 0x00, 0x00],
     [0x00, 0x08, 0x10, 0x00, 0x00, 0x00, 0x00, 0x00, 0x00, 0x00, 0x00, 0x00, 0x00],
     [0x00, 0x00, 0x00, 0x44, 0x44, 0x44, 0x44, 0x44, 0x44, 0x64, 0x5a, 0x40, 0x40],
     [0x00, 0x3c, 0x74, 0x74, 0x74, 0x74, 0x34, 0x14, 0x14, 0x14, 0x14, 0x00, 0x00],
     [0x00, 0x00, 0x00, 0x00, 0x00, 0x00, 0x10, 0x10, 0x00, 0x00, 0x00, 0x00, 0x00],
     [0x00, 0x00, 0x00, 0x00, 0x00, 0x00, 0x00, 0x00, 0x00, 0x00, 0x00, 0x10, 0x20],
     [0x00, 0x10, 0x30, 0x50, 0x10, 0x10, 0x10, 0x10, 0x00, 0x00, 0x00, 0x00, 0x00],
     [0x00, 0x18, 0x24, 0x24, 0x18, 0x00, 0x3c, 0x00, 0x00, 0x00, 0x00, 0x00, 0x00],
     [0x00, 0x00, 0x00, 0x00, 0x00, 0x00, 0x48, 0x24, 0x24, 0x48, 0x00, 0x00, 0x00],
     [0x00, 0x20, 0x60, 0xa2, 0x24, 0x28, 0x10, 0x24, 0x4c, 0x94, 0x1e, 0x04, 0x04],
     [0x00, 0x20, 0x60, 0xa2, 0x24, 0x28, 0x10, 0x2c, 0x52, 0x82, 0x04, 0x08, 0x1e],
     [0x60, 0x90, 0x20, 0x12, 0x94, 0x68, 0x10, 0x24, 0x4c, 0x94, 0x1e, 0x04, 0x04],
     [0x00, 0x10, 0x10, 0x00, 0x00, 0x10, 0x30, 0x40, 0x44, 0x44, 0x38, 0x00, 0x00],
     [0x20, 0x10, 0x00, 0x10, 0x10, 0x28, 0x28, 0x38, 0x44, 0x44, 0x44, 0x00, 0x00],
     [0x08, 0x10, 0x00, 0x10, 0x10, 0x28, 0x28, 0x38, 0x44, 0x44, 0x44, 0x00, 0x00],
     [0x10, 0x28, 0x00, 0x10, 0x10, 0x28, 0x28, 0x38, 0x44, 0x44, 0x44, 0x00, 0x00],
     [0x14, 0x28, 0x00, 0x10, 0x10, 0x28, 0x28, 0x38, 0x44, 0x44, 0x44, 0x00, 0x00],
     [0x28, 0x28, 0x00, 0x10, 0x10, 0x28, 0x28, 0x38, 0x44, 0x44, 0x44, 0x00, 0x00],
     [0x10, 0x28, 0x10, 0x10, 0x10, 0x28, 0x28, 0x38, 0x44, 0x44, 0x44, 0x00, 0x00],
     [0x00, 0x00, 0x0e, 0x18, 0x18, 0x28, 0x2e, 0x38, 0x48, 0x48, 0x4e, 0x00, 0x00],
     [0x00, 0x38, 0x44, 0x40, 0x40, 0x40, 0x40, 0x40, 0x40, 0x44, 0x38, 0x10, 0x20],
     [0x20, 0x10, 0x00, 0x7c, 0x40, 0x40, 0x78, 0x40, 0x40, 0x40, 0x7c, 0x00, 0x00],
     [0x10, 0x20, 0x00, 0x7c, 0x40, 0x40, 0x78, 0x40, 0x40, 0x40, 0x7c, 0x00, 0x00],
     [0x10, 0x28, 0x00, 0x7c, 0x40, 0x40, 0x78, 0x40, 0x40, 0x40, 0x7c, 0x00, 0x00],
     [0x28, 0x28, 0x00, 0x7c, 0x40, 0x40, 0x78, 0x40, 0x40, 0x40, 0x7c, 0x00, 0x00],
     [0x20, 0x10, 0x00, 0x38, 0x10, 0x10, 0x10, 0x10, 0x10, 0x10, 0x38, 0x00, 0x00],
     [0x08, 0x10, 0x00, 0x38, 0x10, 0x10, 0x10, 0x10, 0x10, 0x10, 0x38, 0x00, 0x00],
     [0x10, 0x28, 0x00, 0x38, 0x10, 0x10, 0x10, 0x10, 0x10, 0x10, 0x38, 0x00, 0x00],
     [0x28, 0x28, 0x00, 0x38, 0x10, 0x10, 0x10, 0x10, 0x10, 0x10, 0x38, 0x00, 0x00],
     [0x00, 0x00, 0x70, 0x48, 0x44, 0x44, 0xe4, 0x44, 0x44, 0x48, 0x70, 0x00, 0x00],
     [0x28, 0x50, 0x00, 0x44, 0x64, 0x64, 0x54, 0x54, 0x4c, 0x4c, 0x44, 0x00, 0x00],
     [0x20, 0x10, 0x00, 0x38, 0x44, 0x44, 0x44, 0x44, 0x44, 0x44, 0x38, 0x00, 0x00],
     [0x10, 0x20, 0x00, 0x38, 0x44, 0x44, 0x44, 0x44, 0x44, 0x44, 0x38, 0x00, 0x00],
     [0x10, 0x28, 0x00, 0x38, 0x44, 0x44, 0x44, 0x44, 0x44, 0x44, 0x38, 0x00, 0x00],
     [0x28, 0x50, 0x00, 0x38, 0x44, 0x44, 0x44, 0x44, 0x44, 0x44, 0x38, 0x00, 0x00],
     [0x28, 0x28, 0x00, 0x38, 0x44, 0x44, 0x44, 0x44, 0x44, 0x44, 0x38, 0x00, 0x00],
     [0x00, 0x00, 0x00, 0x00, 0x44, 0x28, 0x10, 0x28, 0x44, 0x00, 0x00, 0x00, 0x00],
     [0x00, 0x00, 0x3a, 0x44, 0x4c, 0x4c, 0x54, 0x64, 0x64, 0x44, 0xb8, 0x00, 0x00],
     [0x20, 0x10, 0x00, 0x44, 0x44, 0x44, 0x44, 0x44, 0x44, 0x44, 0x3c, 0x00, 0x00],
     [0x10, 0x20, 0x00, 0x44, 0x44, 0x44, 0x44, 0x44, 0x44, 0x44, 0x3c, 0x00, 0x00],
     [0x10, 0x28, 0x00, 0x44, 0x44, 0x44, 0x44, 0x44, 0x44, 0x44, 0x3c, 0x00, 0x00],
     [0x28, 0x28, 0x00, 0x44, 0x44, 0x44, 0x44, 0x44, 0x44, 0x44, 0x3c, 0x00, 0x00],
     [0x10, 0x20, 0x00, 0x44, 0x44, 0x28, 0x28, 0x10, 0x10, 0x10, 0x10, 0x00, 0x00],
     [0x00, 0x00, 0x40, 0x40, 0x78, 0x44, 0x44, 0x44, 0x44, 0x78, 0x40, 0x40, 0x00],
     [0x00, 0x00, 0x30, 0x48, 0x48, 0x50, 0x58, 0x44, 0x44, 0x44, 0x48, 0x00, 0x00],
     [0x00, 0x20, 0x10, 0x00, 0x38, 0x04, 0x04, 0x3c, 0x44, 0x44, 0x3c, 0x00, 0x00],
     [0x00, 0x08, 0x10, 0x00, 0x38, 0x04, 0x04, 0x3c, 0x44, 0x44, 0x3c, 0x00, 0x00],
     [0x00, 0x10, 0x28, 0x00, 0x38, 0x04, 0x04, 0x3c, 0x44, 0x44, 0x3c, 0x00, 0x00],
     [0x00, 0x14, 0x28, 0x00, 0x38, 0x04, 0x04, 0x3c, 0x44, 0x44, 0x3c, 0x00, 0x00],
     [0x00, 0x28, 0x28, 0x00, 0x38, 0x04, 0x04, 0x3c, 0x44, 0x44, 0x3c, 0x00, 0x00],
     [0x10, 0x28, 0x10, 0x00, 0x38, 0x04, 0x04, 0x3c, 0x44, 0x44, 0x3c, 0x00, 0x00],
     [0x00, 0x00, 0x00, 0x00, 0x6c, 0x12, 0x12, 0x7c, 0x90, 0x90, 0x6c, 0x00, 0x00],
     [0x00, 0x00, 0x00, 0x00, 0x38, 0x44, 0x40, 0x40, 0x40, 0x44, 0x38, 0x10, 0x20],
     [0x00, 0x20, 0x10, 0x00, 0x38, 0x44, 0x44, 0x7c, 0x40, 0x44, 0x38, 0x00, 0x00],
     [0x00, 0x08, 0x10, 0x00, 0x38, 0x44, 0x44, 0x7c, 0x40, 0x44, 0x38, 0x00, 0x00],
     [0x00, 0x10, 0x28, 0x00, 0x38, 0x44, 0x44, 0x7c, 0x40, 0x44, 0x38, 0x00, 0x00],
     [0x00, 0x28, 0x28, 0x00, 0x38, 0x44, 0x44, 0x7c, 0x40, 0x44, 0x38, 0x00, 0x00],
     [0x00, 0x20, 0x10, 0x00, 0x30, 0x10, 0x10, 0x10, 0x10, 0x10, 0x10, 0x00, 0x00],
     [0x00, 0x08, 0x10, 0x00, 0x30, 0x10, 0x10, 0x10, 0x10, 0x10, 0x10, 0x00, 0x00],
     [0x00, 0x10, 0x28, 0x00, 0x30, 0x10, 0x10, 0x10, 0x10, 0x10, 0x10, 0x00, 0x00],
     [0x00, 0x28, 0x28, 0x00, 0x30, 0x10, 0x10, 0x10, 0x10, 0x10, 0x10, 0x00, 0x00],
     [0x00, 0x48, 0x30, 0x50, 0x18, 0x28, 0x44, 0x44, 0x44, 0x44, 0x38, 0x00, 0x00],
     [0x00, 0x14, 0x28, 0x00, 0x5c, 0x64, 0x44, 0x44, 0x44, 0x44, 0x44, 0x00, 0x00],
     [0x00, 0x20, 0x10, 0x00, 0x38, 0x44, 0x44, 0x44, 0x44, 0x44, 0x38, 0x00, 0x00],
     [0x00, 0x08, 0x10, 0x00, 0x38, 0x44, 0x44, 0x44, 0x44, 0x44, 0x38, 0x00, 0x00],
     [0x00, 0x10, 0x28, 0x00, 0x38, 0x44, 0x44, 0x44, 0x44, 0x44, 0x38, 0x00, 0x00],
     [0x00, 0x14, 0x28, 0x00, 0x38, 0x44, 0x44, 0x44, 0x44, 0x44, 0x38, 0x00, 0x00],
     [0x00, 0x28, 0x28, 0x00, 0x38, 0x44, 0x44, 0x44, 0x44, 0x44, 0x38, 0x00, 0x00],
     [0x00, 0x00, 0x00, 0x10, 0x10, 0x00, 0x7c, 0x00, 0x10, 0x10, 0x00, 0x00, 0x00],
     [0x00, 0x00, 0x00, 0x00, 0x3a, 0x44, 0x4c, 0x54, 0x64, 0x44, 0xb8, 0x00, 0x00],
     [0x00, 0x20, 0x10, 0x00, 0x44, 0x44, 0x44, 0x44, 0x44, 0x44, 0x3c, 0x00, 0x00],
     [0x00, 0x08, 0x10, 0x00, 0x44, 0x44, 0x44, 0x44, 0x44, 0x44, 0x3c, 0x00, 0x00],
     [0x00, 0x10, 0x28, 0x00, 0x44, 0x44, 0x44, 0x44, 0x44, 0x44, 0x3c, 0x00, 0x00],
     [0x00, 0x28, 0x28, 0x00, 0x44, 0x44, 0x44, 0x44, 0x44, 0x44, 0x3c, 0x00, 0x00],
     [0x00, 0x08, 0x10, 0x00, 0x44, 0x44, 0x44, 0x44, 0x44, 0x44, 0x3c, 0x04, 0x38],
     [0x00, 0x40, 0x40, 0x58, 0x64, 0x44, 0x44, 0x44, 0x44, 0x64, 0x58, 0x40, 0x40],
     [0x00, 0x28, 0x28, 0x00, 0x44, 0x44, 0x44, 0x44, 0x44, 0x44, 0x3c, 0x04, 0x38]]"

definition font_cherry :: "u8 list list" where
  "font_cherry = font_cherry_ascii @ font_cherry_latin @ [replicate 13 0]"

text \<open>The bytes as \<open>char_bitmap\<close> reads them; \<open>other\<close> is what lies before and behind the table.\<close>

definition cherry_byte :: "(int \<Rightarrow> u8) \<Rightarrow> int \<Rightarrow> u8" where
  "cherry_byte other i = (if 0 \<le> i \<and> i < 2496 then font_cherry ! nat (i div 13) ! nat (i mod 13) else other i)"

end
