(* ===== verification/Driver.thy ===== *)
theory Driver
  imports Cnum
begin

text \<open>
  The driver manager (\<open>kern/io/driver.c\<close>, \<open>driver.h\<close>). Devices and drivers are objects known
  by their address, the two lists hold those addresses in order (theory Klist shows that the
  linked lists represent such lists). A function pointer is an address, 0 for NULL; what the
  pointers call is a parameter of the model, a record \<open>calls\<close> of the effects that a
  \<open>destroy\<close>, \<open>inform\<close>, \<open>probe\<close> or \<open>probe_directed\<close> function has on the whole state, the
  lists included. \<open>LIST_FOREACH\<close> reads the list live: elements that a callback appends are
  visited, and a callback may remove elements. \<open>rest\<close> is the state of everything outside the manager.
\<close>

section \<open>Data\<close>

definition DEVICE_TYPE_UNKNOWN :: int where "DEVICE_TYPE_UNKNOWN = -1"
definition DEVICE_TYPE_NONE :: int where "DEVICE_TYPE_NONE = 0"
definition DEVICE_TYPE_CON :: int where "DEVICE_TYPE_CON = 1"
definition DEVICE_TYPE_FRAMEBUFFER :: int where "DEVICE_TYPE_FRAMEBUFFER = 2"
definition DEVICE_TYPE_CHAR :: int where "DEVICE_TYPE_CHAR = 3"
definition DEVICE_TYPE_BLOCK :: int where "DEVICE_TYPE_BLOCK = 4"
definition DEVICE_TYPE_FS :: int where "DEVICE_TYPE_FS = 5"

record device =
  dev_name :: cstring
  dev_destroy :: u32
  dev_setparam :: u32
  dev_inform :: u32
  internal_dev :: u32
  device_priv :: u32
  dev_type :: int
  subdevices :: "u32 list option"
  num_subdevices :: u32

text \<open>A device whose bytes are zero.\<close>

definition zero_device :: device where
  "zero_device = \<lparr>dev_name = [], dev_destroy = 0, dev_setparam = 0, dev_inform = 0, internal_dev = 0, device_priv = 0,
     dev_type = DEVICE_TYPE_NONE, subdevices = None, num_subdevices = 0\<rparr>"

record driver =
  drv_name :: cstring
  modname :: cstring
  drv_probe :: u32
  probe_directed :: u32
  type_for :: int
  depends_on :: int
  first_probe :: bool
  disabled :: bool
  driver_priv :: u32

record 'x mgr =
  drivers :: "u32 list"
  devices :: "u32 list"
  driver_at :: "u32 \<Rightarrow> driver"
  device_at :: "u32 \<Rightarrow> device"
  rest :: 'x

type_synonym ('x, 'a) run = "'x mgr \<Rightarrow> ('a \<times> 'x mgr) outcome option"
type_synonym 'x proc = "'x mgr \<Rightarrow> 'x mgr outcome option"

text \<open>The function behind a pointer, applied to the arguments of the C call.\<close>

record 'x calls =
  call_destroy :: "u32 \<Rightarrow> u32 \<Rightarrow> 'x proc"
  call_inform :: "u32 \<Rightarrow> u32 \<Rightarrow> u32 \<Rightarrow> int \<Rightarrow> int \<Rightarrow> u32 \<Rightarrow> ('x, int) run"
  call_probe :: "u32 \<Rightarrow> u32 \<Rightarrow> 'x proc"
  call_probe_directed :: "u32 \<Rightarrow> u32 \<Rightarrow> u32 \<Rightarrow> 'x proc"

definition assert_proc :: "bool \<Rightarrow> string \<Rightarrow> 'x proc \<Rightarrow> 'x proc" where
  "assert_proc c msg k st = (if c then k st else Some (Inl (AssertFailed msg)))"

section \<open>The lists\<close>

text \<open>
  \<open>LIST_FOREACH\<close> goes on after the element that the callback was called for: where the list changed before
  it, that is no longer position \<open>i\<close>. An element that was itself removed leaves its successor at its
  position.
\<close>

definition resume :: "'a \<Rightarrow> nat \<Rightarrow> 'a list \<Rightarrow> nat" where
  "resume x i xs = (if i < length xs \<and> xs ! i = x then Suc i
     else case find (\<lambda>j. xs ! j = x) (rev [0..<min i (length xs)]) of Some j \<Rightarrow> Suc j | None \<Rightarrow> i)"

lemma resume_same [simp]: "i < length xs \<Longrightarrow> xs ! i = x \<Longrightarrow> resume x i xs = Suc i"
  by (simp add: resume_def)

partial_function (option) foreach_from ::
  "('s \<Rightarrow> 'a list) \<Rightarrow> ('a \<Rightarrow> 's \<Rightarrow> 's outcome option) \<Rightarrow> nat \<Rightarrow> 's \<Rightarrow> 's outcome option" where
  "foreach_from get f i s =
     (if i < length (get s) then run_bind (f (get s ! i) s) (\<lambda>s'. foreach_from get f (resume (get s ! i) i (get s')) s')
      else Some (Inr s))"

definition driver_init :: "'x mgr \<Rightarrow> 'x mgr" where
  "driver_init st = st\<lparr>drivers := [], devices := []\<rparr>"

definition device_register :: "'x calls \<Rightarrow> u32 \<Rightarrow> 'x proc" where
  "device_register c device st =
     foreach_from drivers (\<lambda>drv st.
        if depends_on (driver_at st drv) \<noteq> DEVICE_TYPE_NONE
          \<and> depends_on (driver_at st drv) = dev_type (device_at st device)
        then assert_proc (probe_directed (driver_at st drv) \<noteq> 0) ''Device defining depends_on must define probe_directed''
          (\<lambda>st. call_probe_directed c (probe_directed (driver_at st drv)) drv device st) st
        else Some (Inr st))
      0 (st\<lparr>devices := devices st @ [device]\<rparr>)"

text \<open>
  \<open>device_deregister\<close> and \<open>device_deregister_subdevices\<close> call each other; the pointer
  \<open>num_subdevices\<close> elements of the array are visited by index.
\<close>

partial_function (option) device_deregister :: "'x calls \<Rightarrow> u32 \<Rightarrow> 'x mgr \<Rightarrow> (bool \<times> 'x mgr) outcome option" where
  "device_deregister c device st =
     (if device \<in> set (devices st)
      then run_bind
        (case subdevices (device_at st device) of
           None \<Rightarrow> Some (Inr st)
         | Some subs \<Rightarrow>
             if length subs < unat (num_subdevices (device_at st device)) then Some (Inl WildAccess)
             else run_bind (run_each (\<lambda>sub st. run_bind (device_deregister c sub st) (\<lambda>r. Some (Inr (snd r))))
                     (take (unat (num_subdevices (device_at st device))) subs) st)
               (\<lambda>st. Some (Inr (st\<lparr>device_at := (device_at st)
                  (device := (device_at st device)\<lparr>num_subdevices := 0\<rparr>)\<rparr>))))
        (\<lambda>st. run_bind (if dev_destroy (device_at st device) \<noteq> 0
             then call_destroy c (dev_destroy (device_at st device)) device st else Some (Inr st))
           (\<lambda>st. Some (Inr (True, st\<lparr>devices := remove1 device (devices st)\<rparr>))))
      else Some (Inr (False, st)))"

definition device_deregister_subdevices :: "'x calls \<Rightarrow> u32 \<Rightarrow> ('x, bool) run" where
  "device_deregister_subdevices c device st =
     (case subdevices (device_at st device) of
        None \<Rightarrow> Some (Inr (False, st))
      | Some subs \<Rightarrow>
          if length subs < unat (num_subdevices (device_at st device)) then Some (Inl WildAccess)
          else run_bind (run_each (\<lambda>sub st. run_bind (device_deregister c sub st) (\<lambda>r. Some (Inr (snd r))))
                  (take (unat (num_subdevices (device_at st device))) subs) st)
            (\<lambda>st. Some (Inr (True, st\<lparr>device_at := (device_at st)
               (device := (device_at st device)\<lparr>num_subdevices := 0\<rparr>)\<rparr>))))"

definition device_inform_subdevices :: "'x calls \<Rightarrow> u32 \<Rightarrow> int \<Rightarrow> int \<Rightarrow> u32 \<Rightarrow> ('x, int) run" where
  "device_inform_subdevices c device typ ident aux st =
     (case subdevices (device_at st device) of
        None \<Rightarrow> Some (Inr (0, st))
      | Some subs \<Rightarrow>
          if length subs < unat (num_subdevices (device_at st device)) then Some (Inl WildAccess)
          else run_each (\<lambda>sub (ret, st).
              if dev_inform (device_at st sub) \<noteq> 0
              then run_bind (call_inform c (dev_inform (device_at st sub)) sub device typ ident aux st)
                (\<lambda>(tmp, st). Some (Inr (if tmp < ret then tmp else ret, st)))
              else Some (Inr (ret, st)))
            (take (unat (num_subdevices (device_at st device))) subs) (0, st))"

definition driver_first_probe :: "'x calls \<Rightarrow> u32 \<Rightarrow> 'x proc" where
  "driver_first_probe c driver st =
     (let st = st\<lparr>driver_at := (driver_at st)(driver := (driver_at st driver)\<lparr>first_probe := True\<rparr>)\<rparr>;
          d = driver_at st driver
      in run_bind
        (if drv_probe d \<noteq> 0 then call_probe c (drv_probe d) driver st
         else if depends_on d \<noteq> DEVICE_TYPE_NONE
         then foreach_from devices (\<lambda>dev st.
             if dev_type (device_at st dev) = depends_on (driver_at st driver)
             then call_probe_directed c (probe_directed (driver_at st driver)) driver dev st
             else Some (Inr st)) 0 st
         else call_probe_directed c (probe_directed d) driver 0 st)
        (\<lambda>st. Some (Inr (st\<lparr>driver_at := (driver_at st)(driver := (driver_at st driver)\<lparr>first_probe := False\<rparr>)\<rparr>))))"

definition driver_register :: "'x calls \<Rightarrow> u32 \<Rightarrow> 'x proc" where
  "driver_register c driver st =
     (let st = st\<lparr>drivers := drivers st @ [driver]\<rparr>
      in assert_proc (drv_probe (driver_at st driver) \<noteq> 0 \<or> probe_directed (driver_at st driver) \<noteq> 0)
           ''Driver must define probe''
           (\<lambda>st. if \<not> disabled (driver_at st driver) then driver_first_probe c driver st else Some (Inr st)) st)"

definition driver_deregister :: "u32 \<Rightarrow> 'x mgr \<Rightarrow> bool \<times> 'x mgr" where
  "driver_deregister driver st =
     (if driver \<in> set (drivers st) then (True, st\<lparr>drivers := remove1 driver (drivers st)\<rparr>) else (False, st))"

definition driver_enable :: "'x calls \<Rightarrow> u32 \<Rightarrow> 'x proc" where
  "driver_enable c driver st =
     driver_first_probe c driver
       (st\<lparr>driver_at := (driver_at st)(driver := (driver_at st driver)\<lparr>disabled := False\<rparr>)\<rparr>)"

definition device_foreach :: "(u32 \<Rightarrow> 'x proc) \<Rightarrow> 'x proc" where
  "device_foreach fn st = foreach_from devices fn 0 st"

definition driver_foreach :: "(u32 \<Rightarrow> 'x proc) \<Rightarrow> 'x proc" where
  "driver_foreach fn st = foreach_from drivers fn 0 st"

definition device_firstmatch :: "(device \<Rightarrow> bool) \<Rightarrow> 'x mgr \<Rightarrow> u32 option" where
  "device_firstmatch pred st = find (\<lambda>dev. pred (device_at st dev)) (devices st)"

definition driver_get_by_modname :: "cstring \<Rightarrow> 'x mgr \<Rightarrow> u32 option" where
  "driver_get_by_modname name st = find (\<lambda>drv. strdiff name (modname (driver_at st drv)) = 0) (drivers st)"

definition device_get_by_name :: "cstring \<Rightarrow> 'x mgr \<Rightarrow> u32 option" where
  "device_get_by_name name st = find (\<lambda>dev. strdiff name (dev_name (device_at st dev)) = 0) (devices st)"

definition driver_probe_for :: "'x calls \<Rightarrow> int \<Rightarrow> u32 \<Rightarrow> 'x proc" where
  "driver_probe_for c typ invoker st =
     foreach_from drivers (\<lambda>drv st.
       if type_for (driver_at st drv) = typ
       then (if drv_probe (driver_at st drv) \<noteq> 0 then call_probe c (drv_probe (driver_at st drv)) drv st
             else call_probe_directed c (probe_directed (driver_at st drv)) drv invoker st)
       else Some (Inr st)) 0 st"

definition device_get_internal :: "int \<Rightarrow> string \<Rightarrow> u32 \<Rightarrow> 'x mgr \<Rightarrow> u32 outcome" where
  "device_get_internal typ msg dev st =
     assert_that (dev_type (device_at st dev) = typ) msg (Inr (internal_dev (device_at st dev)))"

definition device_get_chardev :: "u32 \<Rightarrow> 'x mgr \<Rightarrow> u32 outcome" where
  "device_get_chardev = device_get_internal DEVICE_TYPE_CHAR ''Device must be a chardev''"

definition device_get_console :: "u32 \<Rightarrow> 'x mgr \<Rightarrow> u32 outcome" where
  "device_get_console = device_get_internal DEVICE_TYPE_CON ''Device must be a console''"

definition device_get_blkdev :: "u32 \<Rightarrow> 'x mgr \<Rightarrow> u32 outcome" where
  "device_get_blkdev = device_get_internal DEVICE_TYPE_BLOCK ''Device must be a block device''"

definition device_get_fs :: "u32 \<Rightarrow> 'x mgr \<Rightarrow> u32 outcome" where
  "device_get_fs = device_get_internal DEVICE_TYPE_FS ''Device must be a FS device''"

section \<open>Device numbers\<close>

text \<open>
  \<open>atoi\<close> on string values, \<open>strncmp\<close> with a prefix of its own length, and the bitmap of 64 bytes:
  a write below it (a negative number) is a \<open>WildAccess\<close>.
\<close>

definition atoi_str :: "cstring \<Rightarrow> int" where
  "atoi_str s =
     (let neg_flag = s \<noteq> [] \<and> hd s = 45;
          s = (if s \<noteq> [] \<and> (hd s = 45 \<or> hd s = 43) then tl s else s);
          n = fold (\<lambda>c n. int32 (10 * n - (sint c - 48))) s 0
      in if neg_flag then n else int32 (- n))"

definition suffix_mark :: "cstring \<Rightarrow> cstring \<Rightarrow> u8 list \<Rightarrow> u8 list outcome" where
  "suffix_mark pre name bitmap =
     (if take (length pre) name = pre
      then (let suffix_num = atoi_str (drop (length pre) name)
        in assert_that (suffix_num < 512) ''Suffix numbers greater than 512 not supported''
          (if suffix_num < 0 then Inl WildAccess
           else (let i = nat suffix_num div 8
             in Inr (bitmap[i := bitmap ! i OR push_bit (nat suffix_num mod 8) 1]))))
      else Inr bitmap)"

primrec suffix_marks :: "cstring \<Rightarrow> cstring list \<Rightarrow> u8 list \<Rightarrow> u8 list outcome" where
  "suffix_marks pre [] bitmap = Inr bitmap"
| "suffix_marks pre (name # names) bitmap =
     bind_outcome (suffix_mark pre name bitmap) (suffix_marks pre names)"

definition device_get_first_available_suffix :: "cstring \<Rightarrow> 'x mgr \<Rightarrow> nat outcome" where
  "device_get_first_available_suffix pre st =
     bind_outcome (suffix_marks pre (map (\<lambda>d. dev_name (device_at st d)) (devices st)) (replicate 64 0))
       (\<lambda>bitmap. Inr (case find (\<lambda>i. \<not> bit (bitmap ! (i div 8)) (i mod 8)) [0..<512] of
          Some i \<Rightarrow> i | None \<Rightarrow> 512))"

section \<open>Iteration\<close>

lemma foreach_static:
  assumes "\<And>x s s'. f x s = Some (Inr s') \<Longrightarrow> get s' = get s"
  shows "foreach_from get f i s = run_each f (drop i (get s)) s"
proof (induction "length (get s) - i" arbitrary: i s)
  case 0
  then show ?case by (subst foreach_from.simps) simp
next
  case (Suc n)
  then have i: "i < length (get s)" by simp
  then have d: "drop i (get s) = get s ! i # drop (Suc i) (get s)" by (simp add: Cons_nth_drop_Suc)
  show ?case
  proof (cases "f (get s ! i) s")
    case (Some r)
    show ?thesis
    proof (cases r)
      case (Inr s')
      then have g: "get s' = get s" using assms Some by simp
      then have "foreach_from get f (Suc i) s' = run_each f (drop (Suc i) (get s')) s'"
        using Suc(2) by (intro Suc(1)) simp
      then show ?thesis using i Some Inr g by (subst foreach_from.simps) (simp add: d)
    qed (use i Some in \<open>subst foreach_from.simps, simp add: d\<close>)
  qed (use i in \<open>subst foreach_from.simps, simp add: d\<close>)
qed

section \<open>Deregistering a tree of devices\<close>

text \<open>The devices under \<open>d\<close>: reached from it through the subdevices of registered devices.\<close>

inductive under :: "('a \<Rightarrow> 'a list) \<Rightarrow> 'a set \<Rightarrow> 'a \<Rightarrow> 'a \<Rightarrow> bool" for S D where
  self: "d \<in> D \<Longrightarrow> under S D d d"
| sub: "d \<in> D \<Longrightarrow> s \<in> set (S d) \<Longrightarrow> under S D s e \<Longrightarrow> under S D d e"

inductive_cases underE: "under S D d e"

lemma under_registered: "under S D d e \<Longrightarrow> d \<in> D \<and> e \<in> D"
  by (induction rule: under.induct) auto

lemma under_iff: "under S D d e \<longleftrightarrow> d \<in> D \<and> (e = d \<or> (\<exists>s \<in> set (S d). under S D s e))"
  by (auto intro: under.intros elim: underE)

lemma under_closed:
  "under S D d p \<Longrightarrow> s \<in> set (S p) \<Longrightarrow> under S D s e \<Longrightarrow> under S D d e"
  by (induction rule: under.induct) (auto intro: under.sub)

lemma under_remove:
  assumes closed: "\<And>p s e. p \<in> L \<Longrightarrow> s \<in> set (S p) \<Longrightarrow> under S D s e \<Longrightarrow> e \<in> L"
  shows "under S (D - L) d e \<longleftrightarrow> under S D d e \<and> e \<notin> L"
proof
  assume "under S (D - L) d e"
  then show "under S D d e \<and> e \<notin> L"
    by (induction rule: under.induct) (auto intro: under.intros)
next
  assume "under S D d e \<and> e \<notin> L"
  then have "under S D d e" "e \<notin> L" by simp_all
  then show "under S (D - L) d e"
    by (induction rule: under.induct) (auto intro: under.intros dest: closed)
qed

text \<open>No element is followed by one of its children.\<close>

primrec children_first :: "('a \<Rightarrow> 'a list) \<Rightarrow> 'a list \<Rightarrow> bool" where
  "children_first S [] \<longleftrightarrow> True"
| "children_first S (p # ps) \<longleftrightarrow> set (S p) \<inter> set ps = {} \<and> children_first S ps"

lemma children_first_append:
  "children_first S (ps @ qs) \<longleftrightarrow>
     children_first S ps \<and> children_first S qs \<and> (\<forall>p \<in> set ps. set (S p) \<inter> set qs = {})"
  by (induction ps) auto

definition subs_of :: "(u32 \<Rightarrow> device) \<Rightarrow> u32 \<Rightarrow> u32 list" where
  "subs_of dv d = (case subdevices (dv d) of None \<Rightarrow> [] | Some xs \<Rightarrow> take (unat (num_subdevices (dv d))) xs)"

definition destroy_log :: "(u32 \<Rightarrow> u32 \<Rightarrow> 'x \<Rightarrow> 'x) \<Rightarrow> (u32 \<Rightarrow> device) \<Rightarrow> u32 list \<Rightarrow> 'x \<Rightarrow> 'x" where
  "destroy_log destroyed dv L =
     fold (\<lambda>d. if dev_destroy (dv d) \<noteq> 0 then destroyed (dev_destroy (dv d)) d else id) L"

lemma destroy_log_simps [simp]:
  "destroy_log destroyed dv [] x = x"
  "destroy_log destroyed dv (A @ B) x = destroy_log destroyed dv B (destroy_log destroyed dv A x)"
  "destroy_log destroyed dv [d] x = (if dev_destroy (dv d) \<noteq> 0 then destroyed (dev_destroy (dv d)) d x else x)"
  by (simp_all add: destroy_log_def)

definition intact :: "(u32 \<Rightarrow> device) \<Rightarrow> 'x mgr \<Rightarrow> bool" where
  "intact dv st \<longleftrightarrow> distinct (devices st) \<and> (\<forall>d \<in> set (devices st). device_at st d = dv d)"

definition gone :: "(u32 \<Rightarrow> u32 \<Rightarrow> 'x \<Rightarrow> 'x) \<Rightarrow> (u32 \<Rightarrow> device) \<Rightarrow> 'x mgr \<Rightarrow> u32 list \<Rightarrow> 'x mgr \<Rightarrow> bool" where
  "gone destroyed dv st L st' \<longleftrightarrow> distinct L \<and> set L \<subseteq> set (devices st) \<and> children_first (subs_of dv) L
     \<and> devices st' = filter (\<lambda>d. d \<notin> set L) (devices st) \<and> drivers st' = drivers st
     \<and> rest st' = destroy_log destroyed dv L (rest st) \<and> intact dv st'"

lemma gone_refl: "intact dv st \<Longrightarrow> gone destroyed dv st [] st"
  by (simp add: gone_def intact_def)

lemma gone_trans:
  assumes 1: "gone destroyed dv st L st1" and 2: "gone destroyed dv st1 M st2"
    and closed: "\<And>p s. p \<in> set L \<Longrightarrow> s \<in> set (subs_of dv p) \<Longrightarrow> s \<in> set (devices st) \<Longrightarrow> s \<in> set L"
  shows "gone destroyed dv st (L @ M) st2"
proof -
  have M: "set M \<subseteq> set (devices st) - set L" using 1 2 by (auto simp: gone_def)
  then have "set (subs_of dv p) \<inter> set M = {}" if "p \<in> set L" for p using closed [OF that] by blast
  moreover have "filter (\<lambda>d. d \<notin> set M) (filter (\<lambda>d. d \<notin> set L) (devices st)) = filter (\<lambda>d. d \<notin> set (L @ M)) (devices st)"
    by (induction "devices st") simp_all
  ultimately show ?thesis using 1 2 M by (auto simp: gone_def children_first_append)
qed

definition destroy_ok :: "'x calls \<Rightarrow> (u32 \<Rightarrow> u32 \<Rightarrow> 'x \<Rightarrow> 'x) \<Rightarrow> bool" where
  "destroy_ok c destroyed \<longleftrightarrow>
     (\<forall>f d st. call_destroy c f d st = Some (Inr (st\<lparr>rest := destroyed f d (rest st)\<rparr>)))"

definition deregisters :: "'x calls \<Rightarrow> (u32 \<Rightarrow> u32 \<Rightarrow> 'x \<Rightarrow> 'x) \<Rightarrow> (u32 \<Rightarrow> device) \<Rightarrow> u32 \<Rightarrow> 'x mgr \<Rightarrow> bool" where
  "deregisters c destroyed dv d st \<longleftrightarrow>
     (\<exists>L st'. device_deregister c d st = Some (Inr (d \<in> set (devices st), st')) \<and> gone destroyed dv st L st'
        \<and> set L = {e. under (subs_of dv) (set (devices st)) d e})"

lemma deregister_each:
  assumes "\<And>s st. s \<in> set xs \<Longrightarrow> intact dv st \<Longrightarrow> deregisters c destroyed dv s st" "intact dv st"
  shows "\<exists>L st'. run_each (\<lambda>sub st. run_bind (device_deregister c sub st) (\<lambda>r. Some (Inr (snd r)))) xs st = Some (Inr st')
    \<and> gone destroyed dv st L st' \<and> set L = {e. \<exists>s \<in> set xs. under (subs_of dv) (set (devices st)) s e}"
  using assms
proof (induction xs arbitrary: st)
  case Nil
  then show ?case by (auto intro!: exI [of _ "[]"] gone_refl)
next
  case (Cons x xs)
  let ?S = "subs_of dv" and ?D = "set (devices st)"
  obtain L st1 where 1: "device_deregister c x st = Some (Inr (x \<in> ?D, st1))" "gone destroyed dv st L st1"
    "set L = {e. under ?S ?D x e}"
    using Cons.prems(1) [of x st] Cons.prems(2) by (auto simp: deregisters_def)
  have i1: "intact dv st1" using 1(2) by (simp add: gone_def)
  obtain M st2 where 2: "run_each (\<lambda>sub st. run_bind (device_deregister c sub st) (\<lambda>r. Some (Inr (snd r)))) xs st1
      = Some (Inr st2)" "gone destroyed dv st1 M st2"
    "set M = {e. \<exists>s \<in> set xs. under ?S (set (devices st1)) s e}"
    using Cons.IH [OF Cons.prems(1) i1] by auto
  have D1: "set (devices st1) = ?D - set L" using 1(2) by (auto simp: gone_def)
  have closed: "e \<in> set L" if "p \<in> set L" "s \<in> set (?S p)" "under ?S ?D s e" for p s e
    using that 1(3) by (auto intro: under_closed)
  have M: "set M = {e. \<exists>s \<in> set xs. under ?S ?D s e} - set L"
    using under_remove [of "set L" ?S ?D] closed unfolding 2(3) D1 by blast
  have "gone destroyed dv st (L @ M) st2"
    by (rule gone_trans [OF 1(2) 2(2)]) (auto intro: closed under.self)
  moreover have "set (L @ M) = {e. \<exists>s \<in> set (x # xs). under ?S ?D s e}" using M 1(3) by auto
  ultimately show ?case using 1(1) 2(1) by (intro exI [of _ "L @ M"] exI [of _ st2]) simp
qed

lemma deregister_tree:
  assumes c: "destroy_ok c destroyed"
    and rank: "\<And>d s. s \<in> set (subs_of dv d) \<Longrightarrow> rank s < (rank d :: nat)"
    and len: "\<And>d xs. subdevices (dv d) = Some xs \<Longrightarrow> unat (num_subdevices (dv d)) \<le> length xs"
  shows "intact dv st \<Longrightarrow> deregisters c destroyed dv d st"
proof (induction "rank d" arbitrary: d st rule: less_induct)
  case less
  let ?S = "subs_of dv" and ?D = "set (devices st)"
  let ?step = "\<lambda>sub st. run_bind (device_deregister c sub st) (\<lambda>r. Some (Inr (snd r)))"
  show ?case
  proof (cases "d \<in> ?D")
    case False
    then have "device_deregister c d st = Some (Inr (False, st))" by (simp add: device_deregister.simps)
    then show ?thesis
      using False gone_refl [OF less.prems] by (auto simp: deregisters_def under_iff [of ?S ?D d] intro!: exI [of _ "[]"])
  next
    case True
    obtain L st1 where L: "run_each ?step (?S d) st = Some (Inr st1)" "gone destroyed dv st L st1"
      "set L = {e. \<exists>s \<in> set (?S d). under ?S ?D s e}"
      using deregister_each [of "?S d" dv c destroyed st] less rank by blast
    have dv: "device_at st d = dv d" using less.prems True by (simp add: intact_def)
    have under_rank: "rank e < rank d" if "under ?S ?D s e" "rank s < rank d" for s e
      using that by (induction rule: under.induct) (auto dest: rank)
    then have d: "d \<notin> set L" using L(3) rank by blast
    have in1: "d \<in> set (devices st1)" "device_at st1 d = dv d"
      using L(2) d True by (auto simp: gone_def intact_def)
    define st2 where "st2 = (if subdevices (dv d) = None then st1
      else st1\<lparr>device_at := (device_at st1)(d := (dv d)\<lparr>num_subdevices := 0\<rparr>)\<rparr>)"
    define st3 where "st3 = (if dev_destroy (dv d) \<noteq> 0
      then st2\<lparr>rest := destroyed (dev_destroy (dv d)) d (rest st2)\<rparr> else st2)"
    define st4 where "st4 = st3\<lparr>devices := remove1 d (devices st3)\<rparr>"
    have run: "device_deregister c d st = Some (Inr (True, st4))"
    proof (cases "subdevices (dv d)")
      case None
      then have "st1 = st" "L = []" using L by (auto simp: subs_of_def)
      then show ?thesis using True None c
        by (subst device_deregister.simps) (simp add: dv destroy_ok_def st2_def st3_def st4_def)
    next
      case (Some xs)
      then have S: "?S d = take (unat (num_subdevices (dv d))) xs" by (simp add: subs_of_def)
      have n: "\<not> length xs < unat (num_subdevices (dv d))" using len [OF Some] by simp
      have dd: "dev_destroy (device_at st2 d) = dev_destroy (dv d)" by (simp add: st2_def in1)
      have "run_bind (run_each ?step (?S d) st) (\<lambda>st. Some (Inr (st\<lparr>device_at := (device_at st)
          (d := (device_at st d)\<lparr>num_subdevices := 0\<rparr>)\<rparr>))) = Some (Inr st2)"
        using Some by (simp add: L(1) st2_def in1)
      then show ?thesis using True Some n c dd
        by (subst device_deregister.simps) (simp add: dv destroy_ok_def st3_def st4_def S)
    qed
    have keep: "devices st3 = devices st1" "drivers st3 = drivers st1" "rest st2 = rest st1"
      "\<And>e. e \<noteq> d \<Longrightarrow> device_at st3 e = device_at st1 e"
      by (auto simp: st3_def st2_def)
    have i1: "intact dv st1" using L(2) by (simp add: gone_def)
    have last: "gone destroyed dv st1 [d] st4"
      using in1(1) i1 keep
      by (auto simp: gone_def intact_def st4_def st3_def distinct_remove1_removeAll removeAll_filter_not_eq
          intro!: filter_cong)
    have closed: "s \<in> set L" if "p \<in> set L" "s \<in> set (?S p)" "s \<in> ?D" for p s
      using that L(3) under_closed [of ?S ?D _ p s s] by (auto intro: under.self)
    have "gone destroyed dv st (L @ [d]) st4" by (rule gone_trans [OF L(2) last closed])
    moreover have "set (L @ [d]) = {e. under ?S ?D d e}" using L(3) True by (auto simp: under_iff [of ?S ?D d])
    ultimately show ?thesis
      unfolding deregisters_def by (intro exI [of _ "L @ [d]"] exI [of _ st4]) (simp add: run True)
  qed
qed

text \<open>
  C15: when no device is (through its subdevices) below itself and the \<open>destroy\<close> functions leave
  the lists alone, \<open>device_deregister\<close> ends; it reports whether the device was registered, and
  removes from the device list exactly the registered devices under it, keeping the others in
  order; each removed device is destroyed once, and none before its subdevices.
\<close>

theorem device_deregister_tree:
  assumes "destroy_ok c destroyed" "distinct (devices st)"
    and "\<And>d s. s \<in> set (subs_of (device_at st) d) \<Longrightarrow> rank s < (rank d :: nat)"
    and "\<And>d xs. subdevices (device_at st d) = Some xs \<Longrightarrow> unat (num_subdevices (device_at st d)) \<le> length xs"
  shows "\<exists>L st'. device_deregister c d st = Some (Inr (d \<in> set (devices st), st')) \<and>
    set L = {e. under (subs_of (device_at st)) (set (devices st)) d e} \<and> distinct L \<and>
    devices st' = filter (\<lambda>e. e \<notin> set L) (devices st) \<and> drivers st' = drivers st \<and>
    rest st' = destroy_log destroyed (device_at st) L (rest st) \<and> children_first (subs_of (device_at st)) L"
  using deregister_tree [OF assms(1,3,4), where st = st and d = d] assms(2)
  by (fastforce simp: deregisters_def gone_def intact_def)

text \<open>A console on a framebuffer: destroying device 1 destroys its subdevice 2 first.\<close>

definition tree_mgr :: "u32 list mgr" where
  "tree_mgr = \<lparr>drivers = [], devices = [3, 1, 2], driver_at = (\<lambda>_. undefined),
     device_at = (\<lambda>d. \<lparr>dev_name = [], dev_destroy = 100, dev_setparam = 0, dev_inform = 0, internal_dev = 0, device_priv = 0,
       dev_type = 0, subdevices = (if d = 1 then Some [2] else None), num_subdevices = (if d = 1 then 1 else 0)\<rparr>),
     rest = []\<rparr>"

definition tree_calls :: "u32 list calls" where
  "tree_calls = \<lparr>call_destroy = (\<lambda>f d st. Some (Inr (st\<lparr>rest := rest st @ [d]\<rparr>))), call_inform = (\<lambda>_ _ _ _ _ _ _. None),
     call_probe = (\<lambda>_ _ _. None), call_probe_directed = (\<lambda>_ _ _ _. None)\<rparr>"

lemma device_deregister_tree_witness:
  "\<exists>st'. device_deregister tree_calls 1 tree_mgr = Some (Inr (True, st')) \<and> devices st' = [3] \<and> rest st' = [2, 1]"
proof -
  let ?S = "subs_of (device_at tree_mgr)"
  have S: "?S d = (if d = 1 then [2] else [])" for d by (simp add: subs_of_def tree_mgr_def)
  have c: "destroy_ok tree_calls (\<lambda>f d log. log @ [d])" by (simp add: destroy_ok_def tree_calls_def)
  have u: "{e. under ?S (set (devices tree_mgr)) 1 e} = {1, 2}"
    by (auto simp: under_iff [of ?S _ 1] under_iff [of ?S _ 2] S) (simp_all add: tree_mgr_def)
  have dl: "destroy_log (\<lambda>f d log. log @ [d]) (device_at tree_mgr) L x = x @ L" for L x
    by (induction L arbitrary: x) (simp_all add: destroy_log_def tree_mgr_def)
  obtain L st' where *: "device_deregister tree_calls 1 tree_mgr = Some (Inr (1 \<in> set (devices tree_mgr), st'))"
    "set L = {1, 2}" "distinct L" "devices st' = filter (\<lambda>e. e \<notin> set L) (devices tree_mgr)" "rest st' = L"
    "children_first ?S L"
  proof -
    have r: "(if s = 1 then 1 else 0) < (if d = 1 then 1 else 0 :: nat)" if "s \<in> set (?S d)" for d s
      using that by (auto simp: S split: if_splits)
    have n: "unat (num_subdevices (device_at tree_mgr d)) \<le> length xs"
      if "subdevices (device_at tree_mgr d) = Some xs" for d xs
      using that by (auto simp: tree_mgr_def split: if_splits)
    have "distinct (devices tree_mgr)" "rest tree_mgr = []" by (simp_all add: tree_mgr_def)
    then show ?thesis
      using that device_deregister_tree [where rank = "\<lambda>d. if d = 1 then 1 else 0", OF c _ r n, where d = 1] by (auto simp: u dl)
  qed
  have "length L = 2" using *(2,3) distinct_card [of L] by simp
  then obtain a b where L: "L = [a, b]" by (auto simp: length_Suc_conv numeral_2_eq_2)
  have "a = 2 \<and> b = 1"
    using *(2,6) unfolding L by (auto simp: S doubleton_eq_iff)
  then show ?thesis using * L by (auto simp: tree_mgr_def)
qed

section \<open>The first free number\<close>

lemma atoi_cstr:
  assumes "cstr m p s"
  shows "atoi m p = Some (atoi_str s)"
proof -
  have fold: "fold (\<lambda>c n. int32 (10 * n - (sint c - 48))) t (int32 n) = int32 (fold atoi_step t n)" for t :: cstring and n
    by (induction t arbitrary: n) (simp_all add: int32_wrap atoi_step_def)
  show ?thesis
  proof (cases s)
    case Nil
    then show ?thesis using assms atoi_loop_cstr [of m p "[]" 0] by (simp add: atoi_def atoi_str_def int32_id [of 0])
  next
    case (Cons c t)
    then show ?thesis
      using assms atoi_loop_cstr [of m p s 0] atoi_loop_cstr [of m "p + 1" t 0] fold [of _ 0]
      by (auto simp: atoi_def atoi_str_def int32_id [of 0])
  qed
qed

lemma atoi_str_radix: "n < 512 \<Longrightarrow> atoi_str (radix_text 10 n) = int n"
proof -
  assume n: "n < 512"
  have fold: "fold (\<lambda>c n. int32 (10 * n - (sint c - 48))) t (int32 n) = int32 (fold atoi_step t n)" for t :: cstring and n
    by (induction t arbitrary: n) (simp_all add: int32_wrap atoi_step_def)
  have z: "int32 0 = 0" by (simp add: int32_id)
  have "fold (\<lambda>c n. int32 (10 * n - (sint c - 48))) (radix_text 10 n) 0 = - int n"
    using fold [of "radix_text 10 n" 0] n by (simp add: z fold_atoi_radix int32_id)
  moreover have "radix_text 10 n \<noteq> []" by (simp add: radix_text_def udigits_nonempty)
  then have "hd (radix_text 10 n) \<noteq> 45 \<and> hd (radix_text 10 n) \<noteq> 43"
    using radix_text_hd [of "hd (radix_text 10 n)" n] hd_in_set by blast
  ultimately show ?thesis using n by (simp add: atoi_str_def int32_id)
qed

definition bit_at :: "u8 list \<Rightarrow> nat \<Rightarrow> bool" where
  "bit_at bitmap i \<longleftrightarrow> bit (bitmap ! (i div 8)) (i mod 8)"

lemma bit_at_set:
  assumes "length bitmap = 64" "n < 512" "i < 512"
  shows "bit_at (bitmap[n div 8 := bitmap ! (n div 8) OR push_bit (n mod 8) 1]) i \<longleftrightarrow> bit_at bitmap i \<or> i = n"
proof -
  have "n div 8 < length bitmap" using assms by simp
  moreover have "i = n \<longleftrightarrow> i div 8 = n div 8 \<and> i mod 8 = n mod 8" by (metis div_mult_mod_eq)
  ultimately show ?thesis
    by (cases "n div 8 = i div 8") (auto simp: bit_at_def bit_or_iff bit_exp_iff)
qed

definition numbered :: "cstring \<Rightarrow> cstring \<Rightarrow> bool" where
  "numbered pre name \<longleftrightarrow> (take (length pre) name = pre \<longrightarrow> (\<exists>n < 512. name = pre @ radix_text 10 n))"

lemma suffix_marks_bits:
  assumes "\<And>name. name \<in> set names \<Longrightarrow> numbered pre name" "length bitmap = 64"
  shows "\<exists>bitmap'. suffix_marks pre names bitmap = Inr bitmap' \<and> length bitmap' = 64 \<and>
    (\<forall>i < 512. bit_at bitmap' i \<longleftrightarrow> bit_at bitmap i \<or> pre @ radix_text 10 i \<in> set names)"
  using assms
proof (induction names arbitrary: bitmap)
  case (Cons name names)
  show ?case
  proof (cases "take (length pre) name = pre")
    case True
    then obtain n where n: "n < 512" "name = pre @ radix_text 10 n"
      using Cons.prems(1) [of name] by (auto simp: numbered_def)
    let ?b = "bitmap[n div 8 := bitmap ! (n div 8) OR push_bit (n mod 8) 1]"
    have s: "suffix_mark pre name bitmap = Inr ?b"
      using n(1) by (simp add: suffix_mark_def n(2) atoi_str_radix Let_def)
    have "pre @ radix_text 10 i = name \<longleftrightarrow> i = n" if "i < 512" for i
      using that n atoi_str_radix by (metis append_same_eq same_append_eq of_nat_eq_iff)
    then show ?thesis
      using Cons.IH [of ?b] Cons.prems bit_at_set [OF Cons.prems(2) n(1)] by (auto simp: s)
  next
    case False
    then have "pre @ radix_text 10 i \<noteq> name" for i by auto
    then show ?thesis using False Cons by (auto simp: suffix_mark_def)
  qed
qed simp

text \<open>
  When every device whose name starts with the prefix is named by it and a number below 512,
  \<open>device_get_first_available_suffix\<close> returns the least number that is not taken, and 512 only
  if all are; but a partition \<open>hd0p0\<close> breaks that convention for \<open>hd\<close>: \<open>atoi\<close> reads 640
  from \<open>0p0\<close>, so naming another disk fails the assertion.
\<close>

theorem first_available_suffix:
  assumes "\<forall>d \<in> set (devices st). numbered pre (dev_name (device_at st d))"
  shows "\<exists>k \<le> 512. device_get_first_available_suffix pre st = Inr k \<and>
    (\<forall>i < k. pre @ radix_text 10 i \<in> (\<lambda>d. dev_name (device_at st d)) ` set (devices st)) \<and>
    (k < 512 \<longrightarrow> pre @ radix_text 10 k \<notin> (\<lambda>d. dev_name (device_at st d)) ` set (devices st))"
proof -
  let ?names = "map (\<lambda>d. dev_name (device_at st d)) (devices st)"
  obtain b where b: "suffix_marks pre ?names (replicate 64 0) = Inr b"
    "\<forall>i < 512. bit_at b i \<longleftrightarrow> pre @ radix_text 10 i \<in> set ?names"
    using suffix_marks_bits [of ?names pre "replicate 64 0"] assms by (auto simp: bit_at_def)
  define r where "r = find (\<lambda>i. \<not> bit_at b i) [0..<512]"
  have eq: "device_get_first_available_suffix pre st = Inr (case r of Some i \<Rightarrow> i | None \<Rightarrow> 512)"
    using b(1) by (simp add: device_get_first_available_suffix_def r_def bit_at_def)
  show ?thesis
  proof (cases r)
    case None
    then have "\<forall>i < 512. bit_at b i" by (auto simp: r_def find_None_iff)
    then show ?thesis using eq None b(2) by auto
  next
    case (Some i)
    then have "i < 512" "\<not> bit_at b i" "\<forall>j < i. bit_at b j"
      by (auto simp: r_def find_Some_iff)
    then show ?thesis using eq Some b(2) by (intro exI [of _ i]) auto
  qed
qed

definition disks_mgr :: "cstring list \<Rightarrow> unit mgr" where
  "disks_mgr names = \<lparr>drivers = [], devices = map of_nat [0..<length names], driver_at = (\<lambda>_. undefined),
     device_at = (\<lambda>d. \<lparr>dev_name = names ! unat d, dev_destroy = 0, dev_setparam = 0, dev_inform = 0, internal_dev = 0,
       device_priv = 0, dev_type = DEVICE_TYPE_BLOCK, subdevices = None, num_subdevices = 0\<rparr>), rest = ()\<rparr>"

lemma partition_name_panics:
  "device_get_first_available_suffix [104, 100] (disks_mgr [[104, 100, 48], [104, 100, 48, 112, 48]])
   = Inl (AssertFailed ''Suffix numbers greater than 512 not supported'')"
  by (simp add: device_get_first_available_suffix_def disks_mgr_def suffix_mark_def atoi_str_def int32_def Let_def)

lemma first_available_suffix_witness:
  "\<exists>k \<le> 512. device_get_first_available_suffix [104, 100] (disks_mgr [[104, 100, 48]]) = Inr k \<and> k \<noteq> 0"
proof -
  let ?st = "disks_mgr [[104, 100, 48]]"
  have d: "devices ?st = [0]" "dev_name (device_at ?st 0) = [104, 100] @ radix_text 10 0"
    by (simp_all add: disks_mgr_def radix_text_def)
  have "\<forall>d \<in> set (devices ?st). numbered [104, 100] (dev_name (device_at ?st d))"
    unfolding d(1) by (simp add: d(2) numbered_def) (auto intro: exI [of _ 0])
  from first_available_suffix [OF this] show ?thesis by (auto simp: d intro: gr0I)
qed

text \<open>Iterations that change nothing, and the registration of a device that no driver waits for.\<close>

lemma run_each_skip: "(\<And>x. x \<in> set xs \<Longrightarrow> f x st = Some (Inr st)) \<Longrightarrow> run_each f xs st = Some (Inr st)"
  by (induction xs) simp_all

lemma foreach_skip:
  assumes "\<And>x. x \<in> set (get st) \<Longrightarrow> f x st = Some (Inr st)"
  shows "foreach_from get f i st = Some (Inr st)"
proof (induction "length (get st) - i" arbitrary: i)
  case 0
  then show ?case by (subst foreach_from.simps) simp
next
  case (Suc n)
  then have "foreach_from get f (Suc i) st = Some (Inr st)" by (intro Suc(1)) simp
  then show ?case using Suc(2) assms by (subst foreach_from.simps) simp
qed

lemma register_plain:
  assumes "\<And>drv. drv \<in> set (drivers st) \<Longrightarrow> depends_on (driver_at st drv) \<noteq> dev_type (device_at st d)"
  shows "device_register c d st = Some (Inr (st\<lparr>devices := devices st @ [d]\<rparr>))"
  unfolding device_register_def by (rule foreach_skip) (use assms in auto)

text \<open>The devices of one kind that are numbered without a gap leave their count as the next number.\<close>

lemma next_suffix:
  assumes "\<forall>d \<in> set (devices st). take (length pre) (dev_name (device_at st d)) = pre
      \<longrightarrow> (\<exists>i < k. dev_name (device_at st d) = pre @ radix_text 10 i)"
    "\<forall>i < k. pre @ radix_text 10 i \<in> (\<lambda>d. dev_name (device_at st d)) ` set (devices st)" "k < 512"
  shows "device_get_first_available_suffix pre st = Inr k"
proof -
  let ?names = "(\<lambda>d. dev_name (device_at st d)) ` set (devices st)"
  have "\<forall>d \<in> set (devices st). numbered pre (dev_name (device_at st d))"
    unfolding numbered_def using assms(1) order.strict_trans [OF _ assms(3)] by blast
  from first_available_suffix [OF this] obtain n where n: "n \<le> 512" "device_get_first_available_suffix pre st = Inr n"
    "\<forall>i < n. pre @ radix_text 10 i \<in> ?names" "n < 512 \<longrightarrow> pre @ radix_text 10 n \<notin> ?names" by blast
  have "pre @ radix_text 10 k \<notin> ?names"
  proof
    assume "pre @ radix_text 10 k \<in> ?names"
    then obtain d where d: "d \<in> set (devices st)" "dev_name (device_at st d) = pre @ radix_text 10 k" by auto
    then have "take (length pre) (dev_name (device_at st d)) = pre" by simp
    then obtain i where i: "i < k" "dev_name (device_at st d) = pre @ radix_text 10 i" using assms(1) d(1) by blast
    then have "radix_text 10 k = radix_text 10 i" using d(2) by simp
    then show False using atoi_str_radix [of k] atoi_str_radix [of i] i(1) assms(3) by simp
  qed
  then have "\<not> k < n" using n(3) by blast
  moreover have "\<not> n < k" using n(1, 4) assms(2, 3) by auto
  ultimately show ?thesis using n(2) by simp
qed

lemma suffix_cong:
  assumes "devices st' = devices st" "\<And>x. x \<in> set (devices st) \<Longrightarrow> dev_name (device_at st' x) = dev_name (device_at st x)"
  shows "device_get_first_available_suffix pre st' = device_get_first_available_suffix pre st"
proof -
  have "map (\<lambda>x. dev_name (device_at st' x)) (devices st') = map (\<lambda>x. dev_name (device_at st x)) (devices st)"
    using assms by simp
  then show ?thesis unfolding device_get_first_available_suffix_def by (simp only:)
qed

end
