(* ===== verification/Console.thy ===== *)
theory Console
  imports Micro_Prelude
begin

text \<open>
  Text consoles (\<open>kern/io/console.c\<close>, \<open>console.h\<close>). The function pointers of a
  \<open>console_t\<close> are the fields of a record of operations on the console, those that
  \<open>console_clear_row\<close> uses first, since the \<open>scroll\<close> functions call it; \<open>priv\<close> is the
  state behind the \<open>priv\<close> pointer together with the device. An interface locale states what a
  text display promises; in it, the code implements an abstract terminal, a list of rows.
\<close>

section \<open>The code\<close>

record 'p con =
  x_pos :: int
  y_pos :: int
  cwidth :: int
  cheight :: int
  priv :: 'p

record 'p draws =
  put_xy :: "'p con \<Rightarrow> int \<Rightarrow> int \<Rightarrow> u8 \<Rightarrow> 'p con outcome"
  set_cursor :: "'p con \<Rightarrow> int \<Rightarrow> int \<Rightarrow> 'p con outcome"
  set_colour :: "'p con \<Rightarrow> u16 \<Rightarrow> 'p con outcome"
  invalidate :: "'p con \<Rightarrow> int \<Rightarrow> int \<Rightarrow> int \<Rightarrow> int \<Rightarrow> 'p con outcome"
  clear :: "'p con \<Rightarrow> 'p con outcome"

record 'p console_ops = "'p draws" +
  scroll :: "'p con \<Rightarrow> 'p con outcome"

definition console_erase :: "'p console_ops \<Rightarrow> 'p con \<Rightarrow> 'p con outcome" where
  "console_erase ops con =
     (if 0 < x_pos con
      then (let con = con\<lparr>x_pos := x_pos con - 1\<rparr> in
        bind_outcome (put_xy ops con (x_pos con) (y_pos con) 32) (\<lambda>con.
          invalidate ops con (x_pos con) (y_pos con) 1 1))
      else assert_that (x_pos con = 0) ''Negative con->x_pos''
        (assert_that (0 < y_pos con) ''Zero con->y_pos on erase''
          (let con = con\<lparr>y_pos := y_pos con - 1, x_pos := cwidth con - 1\<rparr> in
            bind_outcome (put_xy ops con (x_pos con) (y_pos con) 32) (\<lambda>con.
              invalidate ops con (x_pos con) (y_pos con) 1 1))))"

text \<open>The step to the next row, which \<open>console_putc\<close> writes out twice.\<close>

definition console_next_row :: "'p console_ops \<Rightarrow> 'p con \<Rightarrow> 'p con outcome" where
  "console_next_row ops con =
     (let con = con\<lparr>x_pos := 0, y_pos := y_pos con + 1\<rparr> in
      if cheight con \<le> y_pos con
      then (let con = con\<lparr>y_pos := y_pos con - 1\<rparr> in
        bind_outcome (scroll ops con) (\<lambda>con. invalidate ops con 0 0 (cwidth con) (cheight con)))
      else Inr con)"

definition console_putc :: "'p console_ops \<Rightarrow> u8 \<Rightarrow> 'p con \<Rightarrow> 'p con outcome" where
  "console_putc ops c con =
     bind_outcome
       (if c = 10 then console_next_row ops con
        else if c = 8 then console_erase ops con
        else if c = 13 then Inr (con\<lparr>x_pos := 0\<rparr>)
        else bind_outcome (put_xy ops con (x_pos con) (y_pos con) c) (\<lambda>con.
          bind_outcome (invalidate ops con (x_pos con) (y_pos con) 1 1) (\<lambda>con.
            let con = con\<lparr>x_pos := x_pos con + 1\<rparr> in
            if cwidth con \<le> x_pos con then console_next_row ops con else Inr con)))
       (\<lambda>con. set_cursor ops con (x_pos con) (y_pos con))"

definition console_pad :: "'p console_ops \<Rightarrow> int \<Rightarrow> 'p con \<Rightarrow> 'p con outcome" where
  "console_pad ops n = each_outcome (\<lambda>_. console_putc ops 32) [0..<nat n]"

definition console_clear :: "'p console_ops \<Rightarrow> 'p con \<Rightarrow> 'p con outcome" where
  "console_clear ops con =
     bind_outcome (each_outcome (\<lambda>y. each_outcome (\<lambda>x con. put_xy ops con (int x) (int y) 32) [0..<nat (cwidth con)])
         [0..<nat (cheight con)] con) (\<lambda>con.
       bind_outcome (clear ops con) (\<lambda>con.
         bind_outcome (invalidate ops con 0 0 (cwidth con) (cheight con)) (\<lambda>con.
           Inr (con\<lparr>x_pos := 0, y_pos := 0\<rparr>))))"

text \<open>The position and the size in the last call are the code's.\<close>

definition console_clear_row :: "('p, 'm) draws_scheme \<Rightarrow> int \<Rightarrow> 'p con \<Rightarrow> 'p con outcome" where
  "console_clear_row ops row con =
     bind_outcome (each_outcome (\<lambda>x con. put_xy ops con (int x) row 32) [0..<nat (cwidth con)] con)
       (\<lambda>con. invalidate ops con row 0 (cwidth con) 1)"

definition console_colour :: "'p console_ops \<Rightarrow> u16 \<Rightarrow> 'p con \<Rightarrow> 'p con outcome" where
  "console_colour ops colour con = set_colour ops con colour"

text \<open>The \<open>putc\<close> of the character device made by \<open>console_get_chardev\<close>; the return value is 1.\<close>

definition chardev_putc :: "'p console_ops \<Rightarrow> int \<Rightarrow> 'p con \<Rightarrow> (int \<times> 'p con) outcome" where
  "chardev_putc ops c con = bind_outcome (console_putc ops (word_of_int c) con) (\<lambda>con. Inr (1, con))"

definition console_puts :: "'p console_ops \<Rightarrow> u8 list \<Rightarrow> 'p con \<Rightarrow> 'p con outcome" where
  "console_puts ops = each_outcome (console_putc ops)"

section \<open>An abstract terminal\<close>

text \<open>A cursor and the rows from top to bottom; \<open>g\<close> is what a character looks like.\<close>

record 'c terminal =
  tx :: nat
  ty :: nat
  rows :: "'c list list"

definition term_next_row :: "'c \<Rightarrow> nat \<Rightarrow> 'c terminal \<Rightarrow> 'c terminal" where
  "term_next_row blank w t =
     (if Suc (ty t) < length (rows t) then t\<lparr>tx := 0, ty := Suc (ty t)\<rparr>
      else t\<lparr>tx := 0, rows := tl (rows t) @ [replicate w blank]\<rparr>)"

definition term_put :: "'c \<Rightarrow> 'c terminal \<Rightarrow> 'c terminal" where
  "term_put c t = t\<lparr>rows := (rows t)[ty t := (rows t ! ty t)[tx t := c]]\<rparr>"

definition term_putc :: "(u8 \<Rightarrow> 'c) \<Rightarrow> nat \<Rightarrow> u8 \<Rightarrow> 'c terminal \<Rightarrow> 'c terminal option" where
  "term_putc g w c t =
     (if c = 10 then Some (term_next_row (g 32) w t)
      else if c = 13 then Some (t\<lparr>tx := 0\<rparr>)
      else if c = 8
      then (if 0 < tx t then Some (term_put (g 32) (t\<lparr>tx := tx t - 1\<rparr>))
        else if 0 < ty t then Some (term_put (g 32) (t\<lparr>tx := w - 1, ty := ty t - 1\<rparr>)) else None)
      else (let t = term_put (g c) t in
        Some (if Suc (tx t) < w then t\<lparr>tx := Suc (tx t)\<rparr> else term_next_row (g 32) w t)))"

fun term_puts :: "(u8 \<Rightarrow> 'c) \<Rightarrow> nat \<Rightarrow> u8 list \<Rightarrow> 'c terminal \<Rightarrow> 'c terminal option" where
  "term_puts g w [] t = Some t"
| "term_puts g w (c # cs) t = Option.bind (term_putc g w c t) (term_puts g w cs)"

definition term_ok :: "nat \<Rightarrow> nat \<Rightarrow> 'c terminal \<Rightarrow> bool" where
  "term_ok w h t \<longleftrightarrow> tx t < w \<and> ty t < h \<and> length (rows t) = h \<and> (\<forall>r \<in> set (rows t). length r = w)"

section \<open>The text display\<close>

definition in_screen :: "'p con \<Rightarrow> int \<Rightarrow> int \<Rightarrow> bool" where
  "in_screen con x y \<longleftrightarrow> 0 \<le> x \<and> x < cwidth con \<and> 0 \<le> y \<and> y < cheight con"

definition inside :: "'p con \<Rightarrow> int \<Rightarrow> int \<Rightarrow> int \<Rightarrow> int \<Rightarrow> bool" where
  "inside con x y w h \<longleftrightarrow> 0 \<le> x \<and> 0 \<le> y \<and> 0 \<le> w \<and> 0 \<le> h \<and> x + w \<le> cwidth con \<and> y + h \<le> cheight con"

definition same_geometry :: "'p con \<Rightarrow> 'p con \<Rightarrow> bool" where
  "same_geometry con con' \<longleftrightarrow> x_pos con' = x_pos con \<and> y_pos con' = y_pos con \<and>
     cwidth con' = cwidth con \<and> cheight con' = cheight con"

lemma same_geometry_refl [simp]: "same_geometry con con"
  by (simp add: same_geometry_def)

lemma same_geometry_trans: "same_geometry a b \<Longrightarrow> same_geometry b c \<Longrightarrow> same_geometry a c"
  by (simp add: same_geometry_def)

lemma same_geometryD [simp]:
  assumes "same_geometry con con'"
  shows "x_pos con' = x_pos con" "y_pos con' = y_pos con" "cwidth con' = cwidth con" "cheight con' = cheight con"
  using assms by (simp_all add: same_geometry_def)

definition screen_of :: "('p con \<Rightarrow> int \<Rightarrow> int \<Rightarrow> 'c) \<Rightarrow> 'p con \<Rightarrow> 'c terminal" where
  "screen_of cell con = \<lparr>tx = nat (x_pos con), ty = nat (y_pos con),
     rows = map (\<lambda>y. map (\<lambda>x. cell con (int x) (int y)) [0..<nat (cwidth con)]) [0..<nat (cheight con)]\<rparr>"

definition cursor_in :: "'p con \<Rightarrow> bool" where
  "cursor_in con \<longleftrightarrow> in_screen con (x_pos con) (y_pos con)"

text \<open>What a call does to the display: the cells after it, nothing else changed.\<close>

definition draws_to :: "('p con \<Rightarrow> int \<Rightarrow> int \<Rightarrow> 'c) \<Rightarrow> ('p con \<Rightarrow> u8 \<Rightarrow> 'c) \<Rightarrow> ('p con \<Rightarrow> bool) \<Rightarrow>
    'p con \<Rightarrow> 'p con outcome \<Rightarrow> (int \<Rightarrow> int \<Rightarrow> 'c) \<Rightarrow> bool" where
  "draws_to cell glyph ok con r f \<longleftrightarrow> (\<exists>con'. r = Inr con' \<and> ok con' \<and> same_geometry con con' \<and> glyph con' = glyph con \<and>
     (\<forall>i j. in_screen con i j \<longrightarrow> cell con' i j = f i j))"

lemma drawsE:
  assumes "draws_to cell glyph ok con r f"
  obtains con' where "r = Inr con'" "ok con'" "same_geometry con con'" "glyph con' = glyph con"
    "\<And>i j. in_screen con i j \<Longrightarrow> cell con' i j = f i j"
  using assms unfolding draws_to_def by blast

lemma put_row_draws:
  assumes put: "\<And>con x y c. ok con \<Longrightarrow> in_screen con x y \<Longrightarrow> draws_to cell glyph ok con (putf con x y c)
      (\<lambda>i j. if i = x \<and> j = y then glyph con c else cell con i j)"
    and "ok con" "0 \<le> y" "y < cheight con" "n \<le> nat (cwidth con)"
  shows "draws_to cell glyph ok con (each_outcome (\<lambda>x con. putf con (int x) y c) [0..<n] con)
    (\<lambda>i j. if j = y \<and> i < int n then glyph con c else cell con i j)"
  using assms(5)
proof (induction n)
  case 0
  have "cell con i j = (if j = y \<and> i < int 0 then glyph con c else cell con i j)" if "in_screen con i j" for i j
    using that by (simp add: in_screen_def)
  then show ?case using assms(2) unfolding draws_to_def by simp
next
  case (Suc n)
  then obtain c1 where c1: "each_outcome (\<lambda>x con. putf con (int x) y c) [0..<n] con = Inr c1" "ok c1"
    "same_geometry con c1" "glyph c1 = glyph con"
    "\<And>i j. in_screen con i j \<Longrightarrow> cell c1 i j = (if j = y \<and> i < int n then glyph con c else cell con i j)"
    by (elim drawsE [OF Suc.IH [OF Suc_leD]]) blast
  have ins: "in_screen c1 (int n) y" using Suc.prems assms(3,4) c1(3) by (simp add: in_screen_def)
  obtain c2 where c2: "putf c1 (int n) y c = Inr c2" "ok c2" "same_geometry c1 c2" "glyph c2 = glyph c1"
    "\<And>i j. in_screen c1 i j \<Longrightarrow> cell c2 i j = (if i = int n \<and> j = y then glyph c1 c else cell c1 i j)"
    by (rule drawsE [OF put [OF c1(2) ins]]) blast
  have "each_outcome (\<lambda>x con. putf con (int x) y c) [0..<Suc n] con = Inr c2"
    using c1(1) c2(1) by (simp add: each_outcome_append)
  moreover have "same_geometry con c2" using c1(3) c2(3) by (rule same_geometry_trans)
  moreover have "cell c2 i j = (if j = y \<and> i < int (Suc n) then glyph con c else cell con i j)" if "in_screen con i j" for i j
  proof -
    have "in_screen c1 i j" using that c1(3) by (simp add: in_screen_def)
    note e = c2(5) [OF this]
    have "i < int (Suc n) \<longleftrightarrow> i = int n \<or> i < int n" by auto
    then show ?thesis unfolding e c1(5) [OF that] c1(4) by auto
  qed
  ultimately show ?case using c1 c2 unfolding draws_to_def by auto
qed

text \<open>What the cells promise, and (for a display whose cursor is not drawn into them) the cursor.\<close>

locale text_cells =
  fixes ops :: "'p console_ops"
    and cell :: "'p con \<Rightarrow> int \<Rightarrow> int \<Rightarrow> 'c"
    and glyph :: "'p con \<Rightarrow> u8 \<Rightarrow> 'c"
    and ok :: "'p con \<Rightarrow> bool"
  assumes put: "ok con \<Longrightarrow> in_screen con x y \<Longrightarrow> draws_to cell glyph ok con (put_xy ops con x y c)
        (\<lambda>i j. if i = x \<and> j = y then glyph con c else cell con i j)"
    and inval: "ok con \<Longrightarrow> inside con x y w h \<Longrightarrow> draws_to cell glyph ok con (invalidate ops con x y w h) (cell con)"
    and clear_cells: "ok con \<Longrightarrow> \<forall>i j. in_screen con i j \<longrightarrow> cell con i j = glyph con 32 \<Longrightarrow>
        draws_to cell glyph ok con (clear ops con) (\<lambda>_ _. glyph con 32)"
    and scroll_up: "ok con \<Longrightarrow> 0 < cheight con \<Longrightarrow> y_pos con = cheight con - 1 \<Longrightarrow>
        draws_to cell glyph ok con (scroll ops con)
          (\<lambda>i j. if j = cheight con - 1 then glyph con 32 else cell con i (j + 1))"
    and moved: "ok (con\<lparr>x_pos := a\<rparr>) = ok con" "ok (con\<lparr>y_pos := b\<rparr>) = ok con"
      "cell (con\<lparr>x_pos := a\<rparr>) = cell con" "cell (con\<lparr>y_pos := b\<rparr>) = cell con"
      "glyph (con\<lparr>x_pos := a\<rparr>) = glyph con" "glyph (con\<lparr>y_pos := b\<rparr>) = glyph con"
begin

text \<open>The effect of a call on the screen.\<close>

definition displays :: "'p con \<Rightarrow> 'p con outcome \<Rightarrow> 'c terminal \<Rightarrow> bool" where
  "displays con r t \<longleftrightarrow> (\<exists>con'. r = Inr con' \<and> ok con' \<and> glyph con' = glyph con \<and> cwidth con' = cwidth con \<and>
     cheight con' = cheight con \<and> screen_of cell con' = t \<and> cursor_in con')"

lemma same_cells:
  assumes "same_geometry con con'" "\<And>i j. in_screen con i j \<Longrightarrow> cell con' i j = cell con i j"
  shows "screen_of cell con' = screen_of cell con"
proof -
  have "cell con' (int x) (int y) = cell con (int x) (int y)" if "x < nat (cwidth con)" "y < nat (cheight con)" for x y
    by (rule assms(2)) (use that in \<open>simp add: in_screen_def zless_nat_eq_int_zless\<close>)
  then show ?thesis using assms(1) by (simp add: screen_of_def)
qed

lemma put_screen:
  assumes "same_geometry con con'" "cursor_in con"
    and "\<And>i j. in_screen con i j \<Longrightarrow> cell con' i j = (if i = x_pos con \<and> j = y_pos con then c else cell con i j)"
  shows "screen_of cell con' = term_put c (screen_of cell con)"
proof -
  define x y where "x = nat (x_pos con)" and "y = nat (y_pos con)"
  then have xy: "x_pos con = int x" "y_pos con = int y" "x < nat (cwidth con)" "y < nat (cheight con)"
    using assms(2) by (simp_all add: cursor_in_def in_screen_def)
  have c: "cell con' (int i) (int j) = (if i = x \<and> j = y then c else cell con (int i) (int j))"
    if "i < nat (cwidth con)" "j < nat (cheight con)" for i j
    using that xy(1,2) assms(3) [of "int i" "int j"] by (simp add: in_screen_def zless_nat_eq_int_zless)
  have "map (\<lambda>j. map (\<lambda>i. cell con' (int i) (int j)) [0..<nat (cwidth con)]) [0..<nat (cheight con)]
      = (map (\<lambda>j. map (\<lambda>i. cell con (int i) (int j)) [0..<nat (cwidth con)]) [0..<nat (cheight con)])
          [y := (map (\<lambda>i. cell con (int i) (int y)) [0..<nat (cwidth con)])[x := c]]"
    using c xy(3,4) by (simp add: list_eq_iff_nth_eq nth_list_update)
  then show ?thesis using assms(1) xy by (simp add: term_put_def screen_of_def)
qed

lemma scroll_screen:
  assumes "same_geometry con con'" "0 < cheight con"
    and "\<And>i j. in_screen con i j \<Longrightarrow> cell con' i j = (if j = cheight con - 1 then c else cell con i (j + 1))"
  shows "rows (screen_of cell con') = tl (rows (screen_of cell con)) @ [replicate (nat (cwidth con)) c]"
proof -
  obtain h where h: "cheight con = int (Suc h)" using assms(2) by (metis pos_int_cases Suc_pred)
  have c: "cell con' (int i) (int j) = (if j = h then c else cell con (int i) (int (Suc j)))"
    if "i < nat (cwidth con)" "j < Suc h" for i j
    using that assms(3) [of "int i" "int j"] h by (simp add: in_screen_def zless_nat_eq_int_zless algebra_simps)
  have "map (\<lambda>i. cell con' (int i) (int h)) [0..<nat (cwidth con)] = replicate (nat (cwidth con)) c"
    using c [of _ h] by (simp add: list_eq_iff_nth_eq)
  moreover have "map (\<lambda>j. map (\<lambda>i. cell con' (int i) (int j)) [0..<nat (cwidth con)]) [0..<h]
      = map (\<lambda>j. map (\<lambda>i. cell con (int i) (int (Suc j))) [0..<nat (cwidth con)]) [0..<h]"
    using c by simp
  ultimately have "map (\<lambda>j. map (\<lambda>i. cell con' (int i) (int j)) [0..<nat (cwidth con)]) [0..<Suc h]
      = map (\<lambda>j. map (\<lambda>i. cell con (int i) (int (Suc j))) [0..<nat (cwidth con)]) [0..<h]
          @ [replicate (nat (cwidth con)) c]"
    by simp
  moreover have "tl [0..<Suc h] = map Suc [0..<h]" 
    by (simp only: upt_conv_Cons [of 0 "Suc h"] zero_less_Suc list.sel map_Suc_upt)
  moreover have "nat (cheight con) = Suc h" using h by simp
  ultimately show ?thesis using assms(1) by (simp add: screen_of_def map_tl [symmetric] comp_def del: upt_Suc)
qed

end

context text_cells
begin

lemma next_row_displays:
  assumes "ok con" "cursor_in con \<or> x_pos con = cwidth con" "0 < cwidth con" "0 \<le> y_pos con" "y_pos con < cheight con"
  shows "\<exists>con'. console_next_row ops con = Inr con' \<and> ok con' \<and> glyph con' = glyph con \<and> cwidth con' = cwidth con \<and>
     cheight con' = cheight con \<and> cursor_in con' \<and>
     screen_of cell con' = term_next_row (glyph con 32) (nat (cwidth con)) (screen_of cell con)"
proof (cases "y_pos con + 1 < cheight con")
  case True
  let ?con = "con\<lparr>x_pos := 0, y_pos := y_pos con + 1\<rparr>"
  have "console_next_row ops con = Inr ?con" using True by (simp add: console_next_row_def)
  moreover have "screen_of cell ?con = term_next_row (glyph con 32) (nat (cwidth con)) (screen_of cell con)"
    using True assms(4) Suc_nat_eq_nat_zadd1 [OF assms(4)] zless_nat_conj [of "y_pos con + 1" "cheight con"]
    by (simp add: screen_of_def term_next_row_def moved add.commute)
  ultimately show ?thesis using assms True by (auto simp: moved cursor_in_def in_screen_def)
next
  case False
  then have y: "y_pos con = cheight con - 1" using assms by simp
  let ?con = "con\<lparr>x_pos := 0, y_pos := cheight con - 1\<rparr>"
  have ok: "ok ?con" "0 < cheight ?con" "y_pos ?con = cheight ?con - 1" using assms y by (simp_all add: moved)
  obtain c1 where c1: "scroll ops ?con = Inr c1" "ok c1" "same_geometry ?con c1" "glyph c1 = glyph ?con"
    "\<And>i j. in_screen ?con i j \<Longrightarrow> cell c1 i j = (if j = cheight ?con - 1 then glyph ?con 32 else cell ?con i (j + 1))"
    by (rule drawsE [OF scroll_up [OF ok]]) blast
  have "inside c1 0 0 (cwidth c1) (cheight c1)" using c1(3) assms(3-5) by (simp add: inside_def)
  note inv = inval [OF c1(2) this]
  obtain c2 where c2: "invalidate ops c1 0 0 (cwidth c1) (cheight c1) = Inr c2" "ok c2" "same_geometry c1 c2" "glyph c2 = glyph c1"
    "\<And>i j. in_screen c1 i j \<Longrightarrow> cell c2 i j = cell c1 i j"
    by (rule drawsE [OF inv]) blast
  have run: "console_next_row ops con = Inr c2"
    using y assms(5) c1(1,3) c2(1) by (simp add: console_next_row_def Let_def)
  have "screen_of cell c2 = screen_of cell c1" by (rule same_cells [OF c2(3,5)])
  moreover have "rows (screen_of cell c1) = tl (rows (screen_of cell ?con)) @ [replicate (nat (cwidth ?con)) (glyph ?con 32)]"
    by (rule scroll_screen [OF c1(3) ok(2) c1(5)])
  moreover have "rows (screen_of cell ?con) = rows (screen_of cell con)" by (simp add: screen_of_def moved)
  moreover have "tx (screen_of cell c1) = 0" "ty (screen_of cell c1) = ty (screen_of cell con)"
    using c1(3) y by (simp_all add: screen_of_def)
  moreover have "\<not> Suc (ty (screen_of cell con)) < length (rows (screen_of cell con))"
    using y assms(4) by (simp add: screen_of_def)
  ultimately have "screen_of cell c2 = term_next_row (glyph con 32) (nat (cwidth con)) (screen_of cell con)"
    unfolding term_next_row_def by (simp add: moved)
  moreover have "cursor_in c2" using assms y c1(3) c2(3) by (simp add: cursor_in_def in_screen_def)
  ultimately show ?thesis using run c1(4) c2(2,4) c1(3) c2(3) by (simp add: moved)
qed

lemma put_displays:
  assumes "ok con" "cursor_in con"
  shows "displays con (bind_outcome (put_xy ops con (x_pos con) (y_pos con) c) (\<lambda>con. invalidate ops con (x_pos con) (y_pos con) 1 1))
    (term_put (glyph con c) (screen_of cell con)) \<and>
    (\<forall>con'. bind_outcome (put_xy ops con (x_pos con) (y_pos con) c) (\<lambda>con. invalidate ops con (x_pos con) (y_pos con) 1 1)
       = Inr con' \<longrightarrow> x_pos con' = x_pos con \<and> y_pos con' = y_pos con)"
proof -
  obtain c1 where c1: "put_xy ops con (x_pos con) (y_pos con) c = Inr c1" "ok c1" "same_geometry con c1" "glyph c1 = glyph con"
    "\<And>i j. in_screen con i j \<Longrightarrow> cell c1 i j = (if i = x_pos con \<and> j = y_pos con then glyph con c else cell con i j)"
    using put [OF assms(1) assms(2) [unfolded cursor_in_def]] by (rule drawsE) blast
  have "inside c1 (x_pos c1) (y_pos c1) 1 1"
    using c1(3) assms(2) by (simp add: inside_def cursor_in_def in_screen_def)
  note inv = inval [OF c1(2) this]
  obtain c2 where c2: "invalidate ops c1 (x_pos c1) (y_pos c1) 1 1 = Inr c2" "ok c2" "same_geometry c1 c2" "glyph c2 = glyph c1"
    "\<And>i j. in_screen c1 i j \<Longrightarrow> cell c2 i j = cell c1 i j"
    by (rule drawsE [OF inv]) blast
  have s2: "screen_of cell c2 = screen_of cell c1" by (rule same_cells [OF c2(3,5)])
  have s1: "screen_of cell c1 = term_put (glyph con c) (screen_of cell con)" by (rule put_screen [OF c1(3) assms(2) c1(5)])
  have "cursor_in c2" using assms(2) c1(3) c2(3) by (simp add: cursor_in_def in_screen_def)
  then show ?thesis using c1 c2 s1 s2 by (auto simp: displays_def)
qed

lemma erase_displays:
  assumes "ok con" "cursor_in con"
  shows "case term_putc (glyph con) (nat (cwidth con)) 8 (screen_of cell con) of
      None \<Rightarrow> console_erase ops con = Inl (AssertFailed ''Zero con->y_pos on erase'')
    | Some t \<Rightarrow> displays con (console_erase ops con) t"
proof -
  have g: "0 \<le> x_pos con" "x_pos con < cwidth con" "0 \<le> y_pos con" "y_pos con < cheight con"
    using assms(2) by (simp_all add: cursor_in_def in_screen_def)
  consider (left) "0 < x_pos con" | (up) "x_pos con = 0" "0 < y_pos con" | (corner) "x_pos con = 0" "y_pos con = 0"
    using g by linarith
  then show ?thesis
  proof cases
    case left
    let ?con = "con\<lparr>x_pos := x_pos con - 1\<rparr>"
    have "ok ?con" "cursor_in ?con" using assms left g by (auto simp: moved cursor_in_def in_screen_def)
    note d = conjunct1 [OF put_displays [OF this, of 32]]
    have "screen_of cell ?con = (screen_of cell con)\<lparr>tx := tx (screen_of cell con) - 1\<rparr>"
      using left by (simp add: screen_of_def moved nat_diff_distrib)
    then show ?thesis using d left by (simp add: console_erase_def term_putc_def displays_def moved screen_of_def)
  next
    case up
    let ?con = "con\<lparr>y_pos := y_pos con - 1, x_pos := cwidth con - 1\<rparr>"
    have "ok ?con" "cursor_in ?con" using assms up g by (auto simp: moved cursor_in_def in_screen_def)
    note d = conjunct1 [OF put_displays [OF this, of 32]]
    have "screen_of cell ?con = (screen_of cell con)\<lparr>tx := nat (cwidth con) - 1, ty := ty (screen_of cell con) - 1\<rparr>"
      using up g by (simp add: screen_of_def moved nat_diff_distrib)
    then show ?thesis using d up by (simp add: console_erase_def term_putc_def displays_def moved screen_of_def)
  next
    case corner
    then show ?thesis by (simp add: console_erase_def term_putc_def screen_of_def)
  qed
qed

end

locale text_display = text_cells ops cell glyph ok
  for ops :: "'p console_ops"
    and cell :: "'p con \<Rightarrow> int \<Rightarrow> int \<Rightarrow> 'c"
    and glyph :: "'p con \<Rightarrow> u8 \<Rightarrow> 'c"
    and ok :: "'p con \<Rightarrow> bool" +
  assumes cursor: "ok con \<Longrightarrow> in_screen con x y \<Longrightarrow> draws_to cell glyph ok con (set_cursor ops con x y) (cell con)"
begin

lemma putc_displays:
  assumes "ok con" "cursor_in con"
  shows "case term_putc (glyph con) (nat (cwidth con)) c (screen_of cell con) of
      None \<Rightarrow> console_putc ops c con = Inl (AssertFailed ''Zero con->y_pos on erase'')
    | Some t \<Rightarrow> displays con (console_putc ops c con) t"
proof -
  have g: "0 \<le> x_pos con" "x_pos con < cwidth con" "0 \<le> y_pos con" "y_pos con < cheight con"
    using assms(2) by (simp_all add: cursor_in_def in_screen_def)
  have set: "displays con (bind_outcome r (\<lambda>con. set_cursor ops con (x_pos con) (y_pos con))) t"
    if d: "displays con r t" for r t
  proof -
    obtain c1 where c1: "r = Inr c1" "ok c1" "glyph c1 = glyph con" "cwidth c1 = cwidth con" "cheight c1 = cheight con"
      "screen_of cell c1 = t" "cursor_in c1" using d unfolding displays_def by blast
    obtain c2 where c2: "set_cursor ops c1 (x_pos c1) (y_pos c1) = Inr c2" "ok c2" "same_geometry c1 c2" "glyph c2 = glyph c1"
      "\<And>i j. in_screen c1 i j \<Longrightarrow> cell c2 i j = cell c1 i j"
      using cursor [OF c1(2) c1(7) [unfolded cursor_in_def]] by (rule drawsE) blast
    have "screen_of cell c2 = t" using same_cells [OF c2(3,5)] c1(6) by simp
    moreover have "cursor_in c2" using c1(7) c2(3) by (simp add: cursor_in_def in_screen_def)
    ultimately show ?thesis using c1 c2 by (simp add: displays_def)
  qed
  consider (nl) "c = 10" | (bs) "c = 8" | (cr) "c = 13" | (plain) "c \<noteq> 10" "c \<noteq> 8" "c \<noteq> 13" by blast
  then show ?thesis
  proof cases
    case nl
    have "displays con (console_next_row ops con) (term_next_row (glyph con 32) (nat (cwidth con)) (screen_of cell con))"
      using next_row_displays [OF assms(1)] assms(2) g by (auto simp: displays_def)
    from set [OF this] show ?thesis using nl by (simp add: console_putc_def term_putc_def)
  next
    case bs
    then show ?thesis using erase_displays [OF assms] set
      by (auto simp: console_putc_def split: option.splits)
  next
    case cr
    have "displays con (Inr (con\<lparr>x_pos := 0\<rparr>)) ((screen_of cell con)\<lparr>tx := 0\<rparr>)"
      using assms(1) g by (simp add: displays_def moved screen_of_def cursor_in_def in_screen_def)
    from set [OF this] show ?thesis using cr by (simp add: console_putc_def term_putc_def)
  next
    case plain
    note p = put_displays [OF assms, of c]
    obtain c1 where c1: "bind_outcome (put_xy ops con (x_pos con) (y_pos con) c) (\<lambda>con. invalidate ops con (x_pos con) (y_pos con) 1 1) = Inr c1"
      "ok c1" "glyph c1 = glyph con" "cwidth c1 = cwidth con" "cheight c1 = cheight con"
      "screen_of cell c1 = term_put (glyph con c) (screen_of cell con)" "x_pos c1 = x_pos con" "y_pos c1 = y_pos con"
      using p unfolding displays_def by blast
    let ?c = "c1\<lparr>x_pos := x_pos c1 + 1\<rparr>"
    have ok: "ok ?c" using c1(2) by (simp add: moved)
    have scr: "screen_of cell ?c = (screen_of cell c1)\<lparr>tx := Suc (nat (x_pos con))\<rparr>"
      using g(1) c1(7) by (simp add: screen_of_def moved nat_add_distrib)
    have tx: "tx (term_put (glyph con c) (screen_of cell con)) = nat (x_pos con)"
      by (simp add: term_put_def screen_of_def)
    have next_tx: "term_next_row b w (t\<lparr>tx := n\<rparr>) = term_next_row b w t" for b w n and t :: "'c terminal"
      by (simp add: term_next_row_def)
    have run: "console_putc ops c con = bind_outcome (if cwidth ?c \<le> x_pos ?c then console_next_row ops ?c else Inr ?c)
        (\<lambda>con. set_cursor ops con (x_pos con) (y_pos con))"
      using plain c1(1) by (auto simp: console_putc_def bind_outcome_def Let_def split: sum.splits)
    show ?thesis
    proof (cases "x_pos con + 1 < cwidth con")
      case True
      then have "displays con (Inr ?c) ((screen_of cell c1)\<lparr>tx := Suc (nat (x_pos con))\<rparr>)"
        using ok scr g c1 by (simp add: displays_def cursor_in_def in_screen_def moved)
      from set [OF this] have "displays con (console_putc ops c con) ((screen_of cell c1)\<lparr>tx := Suc (nat (x_pos con))\<rparr>)"
        unfolding run using True c1(4,7) by simp
      moreover have "Suc (nat (x_pos con)) < nat (cwidth con)" using True g(1) by linarith
      ultimately show ?thesis using plain c1(6) tx by (simp add: term_putc_def Let_def)
    next
      case False
      then have x: "x_pos con + 1 = cwidth con" using g by simp
      then have "displays con (console_next_row ops ?c) (term_next_row (glyph con 32) (nat (cwidth con)) (screen_of cell c1))"
        using next_row_displays [OF ok] g c1 scr next_tx by (auto simp: displays_def moved)
      moreover have "\<not> Suc (nat (x_pos con)) < nat (cwidth con)" using x g(1) by linarith
      ultimately show ?thesis using set run x plain c1(4-8) tx by (simp add: term_putc_def Let_def)
    qed
  qed
qed

lemma puts_displays:
  assumes "ok con" "cursor_in con"
  shows "case term_puts (glyph con) (nat (cwidth con)) s (screen_of cell con) of
      None \<Rightarrow> console_puts ops s con = Inl (AssertFailed ''Zero con->y_pos on erase'')
    | Some t \<Rightarrow> displays con (console_puts ops s con) t"
  using assms
proof (induction s arbitrary: con)
  case Nil
  then show ?case by (simp add: console_puts_def displays_def)
next
  case (Cons c s)
  show ?case
  proof (cases "term_putc (glyph con) (nat (cwidth con)) c (screen_of cell con)")
    case None
    then show ?thesis using putc_displays [OF Cons.prems, of c] by (simp add: console_puts_def)
  next
    case (Some t)
    then obtain c1 where c1: "console_putc ops c con = Inr c1" "ok c1" "glyph c1 = glyph con" "cwidth c1 = cwidth con"
      "cheight c1 = cheight con" "screen_of cell c1 = t" "cursor_in c1"
      using putc_displays [OF Cons.prems, of c] by (auto simp: displays_def)
    then show ?thesis using Cons.IH [OF c1(2,7)] Some
      by (auto simp: console_puts_def displays_def split: option.splits)
  qed
qed

end


context text_cells
begin

lemma clear_cells_displays:
  assumes "ok con" "n \<le> nat (cheight con)"
  shows "draws_to cell glyph ok con
    (each_outcome (\<lambda>y. each_outcome (\<lambda>x con. put_xy ops con (int x) (int y) c) [0..<nat (cwidth con)]) [0..<n] con)
    (\<lambda>i j. if j < int n then glyph con c else cell con i j)"
  using assms(2)
proof (induction n)
  case 0
  have "cell con i j = (if j < int 0 then glyph con c else cell con i j)" if "in_screen con i j" for i j
    using that by (simp add: in_screen_def)
  then show ?case using assms(1) unfolding draws_to_def by simp
next
  case (Suc n)
  let ?rows = "\<lambda>n con'. each_outcome (\<lambda>y. each_outcome (\<lambda>x con. put_xy ops con (int x) (int y) c) [0..<nat (cwidth con)]) [0..<n] con'"
  obtain c1 where c1: "?rows n con = Inr c1" "ok c1" "same_geometry con c1" "glyph c1 = glyph con"
    "\<And>i j. in_screen con i j \<Longrightarrow> cell c1 i j = (if j < int n then glyph con c else cell con i j)"
    by (rule drawsE [OF Suc.IH [OF Suc_leD [OF Suc.prems]]]) blast
  have n: "int n < cheight c1" using Suc.prems c1(3) by simp
  have row: "draws_to cell glyph ok c1 (each_outcome (\<lambda>x con. put_xy ops con (int x) (int n) c) [0..<nat (cwidth c1)] c1)
      (\<lambda>i j. if j = int n \<and> i < int (nat (cwidth c1)) then glyph c1 c else cell c1 i j)"
    by (rule put_row_draws [where putf = "put_xy ops"]) (use put c1(2) n in auto)
  obtain c2 where c2: "each_outcome (\<lambda>x con. put_xy ops con (int x) (int n) c) [0..<nat (cwidth c1)] c1 = Inr c2" "ok c2"
    "same_geometry c1 c2" "glyph c2 = glyph c1"
    "\<And>i j. in_screen c1 i j \<Longrightarrow> cell c2 i j = (if j = int n \<and> i < int (nat (cwidth c1)) then glyph c1 c else cell c1 i j)"
    by (rule drawsE [OF row]) blast
  have "?rows (Suc n) con = Inr c2"
    using c1(1,3) c2(1) by (simp add: each_outcome_append)
  moreover have "same_geometry con c2" using c1(3) c2(3) by (rule same_geometry_trans)
  moreover have "cell c2 i j = (if j < int (Suc n) then glyph con c else cell con i j)" if "in_screen con i j" for i j
  proof -
    have ins: "in_screen c1 i j" "i < int (nat (cwidth c1))" using that c1(3) by (simp_all add: in_screen_def)
    note e = c2(5) [OF ins(1)]
    have "j < int (Suc n) \<longleftrightarrow> j = int n \<or> j < int n" by auto
    then show ?thesis unfolding e c1(5) [OF that] c1(4) using ins(2) by auto
  qed
  ultimately show ?case using c1 c2 unfolding draws_to_def by auto
qed

lemma clear_displays:
  assumes "ok con" "0 < cwidth con" "0 < cheight con"
  shows "displays con (console_clear ops con)
    \<lparr>tx = 0, ty = 0, rows = replicate (nat (cheight con)) (replicate (nat (cwidth con)) (glyph con 32))\<rparr>"
proof -
  obtain c1 where c1: "each_outcome (\<lambda>y. each_outcome (\<lambda>x con. put_xy ops con (int x) (int y) 32) [0..<nat (cwidth con)])
      [0..<nat (cheight con)] con = Inr c1" "ok c1" "same_geometry con c1" "glyph c1 = glyph con"
    "\<And>i j. in_screen con i j \<Longrightarrow> cell c1 i j = (if j < int (nat (cheight con)) then glyph con 32 else cell con i j)"
    by (rule drawsE [OF clear_cells_displays [OF assms(1) order_refl]]) blast
  have blank: "\<forall>i j. in_screen c1 i j \<longrightarrow> cell c1 i j = glyph c1 32"
    using c1(3-5) by (simp add: in_screen_def)
  obtain c2 where c2: "clear ops c1 = Inr c2" "ok c2" "same_geometry c1 c2" "glyph c2 = glyph c1"
    "\<And>i j. in_screen c1 i j \<Longrightarrow> cell c2 i j = glyph c1 32"
    by (rule drawsE [OF clear_cells [OF c1(2) blank]]) blast
  have "inside c2 0 0 (cwidth c2) (cheight c2)" using c1(3) c2(3) assms(2,3) by (simp add: inside_def)
  note inv = inval [OF c2(2) this]
  obtain c3 where c3: "invalidate ops c2 0 0 (cwidth c2) (cheight c2) = Inr c3" "ok c3" "same_geometry c2 c3" "glyph c3 = glyph c2"
    "\<And>i j. in_screen c2 i j \<Longrightarrow> cell c3 i j = cell c2 i j"
    by (rule drawsE [OF inv]) blast
  have dims: "cwidth c3 = cwidth con" "cheight c3 = cheight con" using c1(3) c2(3) c3(3) by simp_all
  have cells: "cell c3 (int x) (int y) = glyph con 32" if "x < nat (cwidth con)" "y < nat (cheight con)" for x y
  proof -
    have "in_screen con (int x) (int y)" using that by (simp add: in_screen_def zless_nat_eq_int_zless)
    then have "in_screen c1 (int x) (int y)" "in_screen c2 (int x) (int y)" using c1(3) c2(3) by (simp_all add: in_screen_def)
    then show ?thesis using c1(4) c2(5) c3(5) by simp
  qed
  let ?c = "c3\<lparr>x_pos := 0, y_pos := 0\<rparr>"
  have "console_clear ops con = Inr ?c" using c1(1) c2(1) c3(1) by (simp add: console_clear_def)
  moreover have "map (\<lambda>y. map (\<lambda>x. cell c3 (int x) (int y)) [0..<nat (cwidth con)]) [0..<nat (cheight con)]
      = replicate (nat (cheight con)) (replicate (nat (cwidth con)) (glyph con 32))"
    using cells by (simp add: list_eq_iff_nth_eq)
  then have "screen_of cell ?c = \<lparr>tx = 0, ty = 0, rows = replicate (nat (cheight con)) (replicate (nat (cwidth con)) (glyph con 32))\<rparr>"
    by (simp add: screen_of_def moved dims)
  ultimately show ?thesis
    using assms c1(4) c2(4) c3(2,4) dims by (simp add: displays_def moved cursor_in_def in_screen_def)
qed

end

section \<open>Printing lines\<close>

definition plain :: "u8 list \<Rightarrow> bool" where
  "plain s \<longleftrightarrow> 8 \<notin> set s \<and> 10 \<notin> set s \<and> 13 \<notin> set s"

definition padded :: "(u8 \<Rightarrow> 'c) \<Rightarrow> nat \<Rightarrow> u8 list \<Rightarrow> 'c list" where
  "padded g w s = map g s @ replicate (w - length s) (g 32)"

lemma term_puts_append: "term_puts g w (xs @ ys) t = Option.bind (term_puts g w xs t) (term_puts g w ys)"
proof (induction xs arbitrary: t)
  case (Cons x xs)
  then show ?case by (cases "term_putc g w x t") simp_all
qed simp

lemma term_puts_plain:
  assumes "plain s" "tx t + length s < w" "ty t < length (rows t)" "length (rows t ! ty t) = w"
  shows "term_puts g w s t = Some (t\<lparr>tx := tx t + length s,
    rows := (rows t)[ty t := take (tx t) (rows t ! ty t) @ map g s @ drop (tx t + length s) (rows t ! ty t)]\<rparr>)"
  using assms
proof (induction s arbitrary: t)
  case (Cons c s)
  let ?t = "(term_put (g c) t)\<lparr>tx := Suc (tx t)\<rparr>"
  have "term_putc g w c t = Some ?t"
    using Cons.prems by (auto simp: term_putc_def plain_def Let_def term_put_def)
  moreover have "take (Suc (tx t)) ((rows t ! ty t)[tx t := g c]) = take (tx t) (rows t ! ty t) @ [g c]"
    using Cons.prems by (simp add: take_Suc_conv_app_nth)
  moreover have "term_puts g w s ?t = Some (?t\<lparr>tx := tx ?t + length s,
    rows := (rows ?t)[ty ?t := take (tx ?t) (rows ?t ! ty ?t) @ map g s @ drop (tx ?t + length s) (rows ?t ! ty ?t)]\<rparr>)"
    using Cons.prems by (intro Cons.IH) (auto simp: plain_def term_put_def)
  ultimately show ?case using Cons.prems by (simp add: term_put_def)
qed simp

text \<open>The rows after printing lines from a clear screen: the last of them, and a blank row.\<close>

definition lines_shown :: "(u8 \<Rightarrow> 'c) \<Rightarrow> nat \<Rightarrow> nat \<Rightarrow> u8 list list \<Rightarrow> 'c terminal" where
  "lines_shown g w h ls = \<lparr>tx = 0, ty = min (length ls) (h - 1),
     rows = drop (Suc (length ls) - h) (map (padded g w) ls @ [padded g w []]) @ replicate (h - Suc (length ls)) (padded g w [])\<rparr>"

lemma term_puts_line:
  assumes "plain s" "length s < w" "length ls < h" "0 < h" "ty t = length ls" "tx t = 0"
    and "rows t = ls @ [padded g w []] @ replicate (h - Suc (length ls)) (padded g w [])"
  shows "term_puts g w (s @ [10]) t = Some (term_next_row (g 32) w (t\<lparr>tx := length s,
    rows := ls @ [padded g w s] @ replicate (h - Suc (length ls)) (padded g w [])\<rparr>))"
proof -
  have "term_puts g w s t = Some (t\<lparr>tx := length s, rows := ls @ [padded g w s] @ replicate (h - Suc (length ls)) (padded g w [])\<rparr>)"
    using assms by (subst term_puts_plain) (simp_all add: padded_def)
  then show ?thesis by (simp add: term_puts_append term_putc_def)
qed

lemma term_puts_lines:
  assumes "\<forall>s \<in> set ls. plain s \<and> length s < w" "0 < h"
  shows "term_puts g w (concat (map (\<lambda>s. s @ [10]) ls)) \<lparr>tx = 0, ty = 0, rows = replicate h (replicate w (g 32))\<rparr>
    = Some (lines_shown g w h ls)"
  using assms(1)
proof (induction ls rule: rev_induct)
  case Nil
  have "replicate h (replicate w (g 32)) = padded g w [] # replicate (h - 1) (padded g w [])"
    using assms(2) by (cases h) (simp_all add: padded_def)
  then show ?case using assms(2) by (simp add: lines_shown_def Suc_diff_le)
next
  case (snoc s ls)
  let ?b = "padded g w []" and ?n = "length ls"
  have r: "replicate w (g 32) = ?b" by (simp add: padded_def)
  let ?all = "drop (Suc ?n - h) (map (padded g w) ls)"
  have all: "length ?all = min ?n (h - 1)" "drop (Suc ?n - h) (map (padded g w) ls @ [?b]) = ?all @ [?b]"
    using assms(2) by (auto simp: min_def)
  have rep: "h - Suc (length ?all) = h - Suc ?n" using all(1) by simp
  have "term_puts g w (s @ [10]) (lines_shown g w h ls)
      = Some (term_next_row (g 32) w ((lines_shown g w h ls)\<lparr>tx := length s,
          rows := ?all @ [padded g w s] @ replicate (h - Suc (length ?all)) ?b\<rparr>))"
    using snoc.prems assms(2) all rep by (intro term_puts_line) (auto simp: lines_shown_def min_def)
  also have "\<dots> = Some (lines_shown g w h (ls @ [s]))"
  proof (cases "Suc ?n < h")
    case True
    then have "replicate (h - Suc ?n) ?b = ?b # replicate (h - Suc (Suc ?n)) ?b"
      by (simp add: Suc_diff_Suc [symmetric])
    then show ?thesis using True all by (simp add: lines_shown_def term_next_row_def)
  next
    case False
    then obtain k where k: "Suc ?n - h = k" "Suc (Suc ?n) - h = Suc k" "k \<le> ?n" using assms(2) by (cases "Suc ?n - h") auto
    have "drop k (map (padded g w) (ls @ [s])) = ?all @ [padded g w s]" using k by simp
    then have "drop (Suc k) (map (padded g w) (ls @ [s])) = tl (?all @ [padded g w s])" by (metis drop_Suc tl_drop)
    then have "drop (Suc (Suc ?n) - h) (map (padded g w) (ls @ [s]) @ [?b]) = tl (?all @ [padded g w s]) @ [?b]"
      using k by (simp only: k(2) drop_append [of _ _ "[?b]"] length_map length_append) simp
    then show ?thesis using False all r assms(2) by (simp add: lines_shown_def term_next_row_def min_def)
  qed
  finally show ?case using snoc by (simp add: term_puts_append)
qed

end
