(* ===== verification/Vga.thy ===== *)
theory Vga
  imports Console Pio Bdrive
begin

text \<open>
  The VGA text console (\<open>kern/io/vga.c\<close>). The buffer at \<open>VGA_BUFFER_ADDR\<close> is a memory of
  16-bit cells indexed from its start, with no bounds; \<open>hw\<close> is the hardware behind the ports.
\<close>

section \<open>The code\<close>

record 'h vga_state =
  colour :: u16
  vga_buffer :: "int \<Rightarrow> u16"
  hw :: 'h

type_synonym 'h vga = "'h vga_state con"

definition on_hw :: "('h \<Rightarrow> 'h) \<Rightarrow> 'h vga \<Rightarrow> 'h vga" where
  "on_hw f con = con\<lparr>priv := (priv con)\<lparr>hw := f (hw (priv con))\<rparr>\<rparr>"

definition vga_entry :: "u8 \<Rightarrow> u8 \<Rightarrow> u16" where
  "vga_entry c col = ucast c OR push_bit 8 (ucast col)"

definition vga_colour :: "u8 \<Rightarrow> u8 \<Rightarrow> u8" where
  "vga_colour fg bg = fg OR push_bit 4 bg"

definition vga_disable_cursor :: "'h ports \<Rightarrow> 'h \<Rightarrow> 'h" where
  "vga_disable_cursor io h = outb io 0x3d5 0x20 (outb io 0x3d4 0x0a h)"

definition vga_cursor_width :: "'h ports \<Rightarrow> u8 \<Rightarrow> u8 \<Rightarrow> 'h \<Rightarrow> 'h" where
  "vga_cursor_width io start stop h =
     (let h = outb io 0x3d4 0x0a h;
          (v, h) = inb io 0x3d5 h;
          h = outb io 0x3d5 (v AND 0xc0 OR start) h;
          h = outb io 0x3d4 0x0b h;
          (v, h) = inb io 0x3d5 h
      in outb io 0x3d5 (v AND 0xe0 OR stop) h)"

definition vga_set_cursor :: "'h ports \<Rightarrow> 'h vga \<Rightarrow> int \<Rightarrow> int \<Rightarrow> 'h vga outcome" where
  "vga_set_cursor io con x y =
     (let pos = word_of_int (y * cwidth con + x) :: u16 in
      Inr (on_hw (\<lambda>h. let h = outb io 0x3d4 0x0f h;
          h = outb io 0x3d5 (ucast (pos AND 0xff)) h;
          h = outb io 0x3d4 0x0e h
        in outb io 0x3d5 (ucast (drop_bit 8 pos AND 0xff)) h) con))"

definition poke :: "'h vga \<Rightarrow> int \<Rightarrow> u16 \<Rightarrow> 'h vga" where
  "poke con i v = con\<lparr>priv := (priv con)\<lparr>vga_buffer := (vga_buffer (priv con))(i := v)\<rparr>\<rparr>"

definition vga_put_xy :: "'h vga \<Rightarrow> int \<Rightarrow> int \<Rightarrow> u8 \<Rightarrow> 'h vga outcome" where
  "vga_put_xy con x y c =
     assert_that (x \<le> cwidth con \<and> y \<le> cheight con) ''Out of bounds for screen''
       (Inr (poke con (y * cwidth con + x) (vga_entry c (ucast (colour (priv con))))))"

definition vga_set_mode :: "'d bios \<Rightarrow> u8 \<Rightarrow> mem \<times> 'd \<Rightarrow> mem \<times> 'd" where
  "vga_set_mode bios mode st = snd (bios 0x10 (zero_regs\<lparr>eax := ucast mode\<rparr>) (fst st) (snd st))"

definition vga_set_colour :: "'h vga \<Rightarrow> u16 \<Rightarrow> 'h vga outcome" where
  "vga_set_colour con c = Inr (con\<lparr>priv := (priv con)\<lparr>colour := c\<rparr>\<rparr>)"

definition vga_null :: "'h vga \<Rightarrow> 'h vga outcome" where
  "vga_null con = Inr con"

definition vga_draws :: "'h ports \<Rightarrow> 'h vga_state draws" where
  "vga_draws io = \<lparr>put_xy = vga_put_xy, set_cursor = vga_set_cursor io, set_colour = vga_set_colour,
     invalidate = (\<lambda>con _ _ _ _. vga_null con), clear = vga_null\<rparr>"

definition vga_scroll_cell :: "int \<Rightarrow> int \<Rightarrow> 'h vga \<Rightarrow> 'h vga" where
  "vga_scroll_cell y x con =
     poke con (y * cwidth con + x) (vga_buffer (priv con) ((y + 1) * cwidth con + x))"

definition vga_scroll :: "'h ports \<Rightarrow> 'h vga \<Rightarrow> 'h vga outcome" where
  "vga_scroll io con =
     (let con = fold (\<lambda>y con. fold (\<lambda>x. vga_scroll_cell (int y) (int x)) [0..<nat (cwidth con)] con)
        [0..<nat (cheight con)] con
      in console_clear_row (vga_draws io) (y_pos con) con)"

definition vga_ops :: "'h ports \<Rightarrow> 'h vga_state console_ops" where
  "vga_ops io = draws.extend (vga_draws io) \<lparr>scroll = vga_scroll io\<rparr>"

definition COLOUR_WHITE :: u8 where "COLOUR_WHITE = 15"
definition COLOUR_BLUE :: u8 where "COLOUR_BLUE = 1"

text \<open>The position is set by \<open>console_clear\<close>; \<open>b\<close> is what the screen showed before.\<close>

definition vga_init :: "'h ports \<Rightarrow> u16 \<Rightarrow> (int \<Rightarrow> u16) \<Rightarrow> 'h \<Rightarrow> 'h vga outcome" where
  "vga_init io col b h =
     (let con = \<lparr>x_pos = 0, y_pos = 0, cwidth = 80, cheight = 25,
            priv = \<lparr>colour = col, vga_buffer = b, hw = vga_cursor_width io 14 15 h\<rparr>\<rparr>
      in bind_outcome (console_clear (vga_ops io) con) (\<lambda>con. Inr (con\<lparr>x_pos := 0, y_pos := 0\<rparr>)))"

section \<open>The display\<close>

definition vga_cell :: "'h vga \<Rightarrow> int \<Rightarrow> int \<Rightarrow> u16" where
  "vga_cell con i j = vga_buffer (priv con) (j * cwidth con + i)"

definition vga_glyph :: "'h vga \<Rightarrow> u8 \<Rightarrow> u16" where
  "vga_glyph con c = vga_entry c (ucast (colour (priv con)))"

lemma vga_ops_simps [simp]:
  "put_xy (vga_ops io) = vga_put_xy" "set_cursor (vga_ops io) = vga_set_cursor io"
  "set_colour (vga_ops io) = vga_set_colour" "invalidate (vga_ops io) con x y w h = Inr con"
  "clear (vga_ops io) con = Inr con" "scroll (vga_ops io) = vga_scroll io"
  "put_xy (vga_draws io) = vga_put_xy" "invalidate (vga_draws io) con x y w h = Inr con"
  by (simp_all add: vga_ops_def vga_draws_def draws.defs vga_null_def)

text \<open>Two cells of the screen are different cells of the buffer.\<close>

lemma cell_index:
  fixes w :: int
  assumes "0 \<le> x" "x < w" "0 \<le> i" "i < w"
  shows "j * w + i = y * w + x \<longleftrightarrow> i = x \<and> j = y"
proof
  assume e: "j * w + i = y * w + x"
  have "(j * w + i) mod w = i" "(y * w + x) mod w = x" using assms by simp_all
  with e have "i = x" by simp
  with e show "i = x \<and> j = y" using assms by simp
qed simp

text \<open>The cells below \<open>n\<close> have been moved up by one row.\<close>

definition moved_up :: "int \<Rightarrow> int \<Rightarrow> (int \<Rightarrow> u16) \<Rightarrow> int \<Rightarrow> u16" where
  "moved_up w n b k = (if 0 \<le> k \<and> k < n then b (k + w) else b k)"

lemma moved_up_step:
  assumes "0 \<le> n" "0 < w"
  shows "(moved_up w n b)(n := moved_up w n b (n + w)) = moved_up w (n + 1) b"
  using assms by (auto simp: moved_up_def fun_eq_iff)

definition with_buffer :: "'h vga \<Rightarrow> (int \<Rightarrow> u16) \<Rightarrow> 'h vga" where
  "with_buffer con b = con\<lparr>priv := (priv con)\<lparr>vga_buffer := b\<rparr>\<rparr>"

lemma with_buffer_simps [simp]:
  "cwidth (with_buffer con b) = cwidth con" "cheight (with_buffer con b) = cheight con"
  "x_pos (with_buffer con b) = x_pos con" "y_pos (with_buffer con b) = y_pos con"
  "vga_buffer (priv (with_buffer con b)) = b" "colour (priv (with_buffer con b)) = colour (priv con)"
  "hw (priv (with_buffer con b)) = hw (priv con)"
  "with_buffer con (vga_buffer (priv con)) = con" "poke (with_buffer con b) i v = with_buffer con (b(i := v))"
  by (simp_all add: with_buffer_def poke_def)

lemma scroll_row:
  assumes "0 < cwidth con" "0 \<le> y" "n \<le> nat (cwidth con)"
  shows "fold (\<lambda>x. vga_scroll_cell y (int x)) [0..<n] (with_buffer con (moved_up (cwidth con) (y * cwidth con) b))
    = with_buffer con (moved_up (cwidth con) (y * cwidth con + int n) b)"
  using assms(3)
proof (induction n)
  case (Suc n)
  have "0 \<le> y * cwidth con + int n" using assms by simp
  from moved_up_step [OF this assms(1), of b] show ?case
    using Suc by (simp add: vga_scroll_cell_def algebra_simps)
qed simp

lemma scroll_rows:
  assumes "0 < cwidth con"
  shows "fold (\<lambda>y con. fold (\<lambda>x. vga_scroll_cell (int y) (int x)) [0..<nat (cwidth con)] con) [0..<n] con
    = with_buffer con (moved_up (cwidth con) (int n * cwidth con) (vga_buffer (priv con)))"
proof (induction n)
  case 0
  have "moved_up (cwidth con) 0 (vga_buffer (priv con)) = vga_buffer (priv con)"
    by (auto simp: moved_up_def fun_eq_iff)
  then show ?case by simp
next
  case (Suc n)
  then show ?case
    using scroll_row [OF assms, of "int n" "nat (cwidth con)" "vga_buffer (priv con)"] assms
    by (simp add: algebra_simps)
qed

section \<open>The VGA console as a text display\<close>

definition vga_ok :: "'h vga \<Rightarrow> bool" where
  "vga_ok con \<longleftrightarrow> 0 < cwidth con \<and> 0 < cheight con"

lemma glyph_with_buffer [simp]: "vga_glyph (with_buffer con b) = vga_glyph con"
  by (simp add: vga_glyph_def fun_eq_iff)

lemma vga_put_draws:
  assumes "vga_ok con" "in_screen con x y"
  shows "draws_to vga_cell vga_glyph vga_ok con (vga_put_xy con x y c)
    (\<lambda>i j. if i = x \<and> j = y then vga_glyph con c else vga_cell con i j)"
proof -
  have "0 \<le> x" "x < cwidth con" "y < cheight con" using assms(2) by (simp_all add: in_screen_def)
  note idx = cell_index [OF this(1,2)]
  let ?con = "poke con (y * cwidth con + x) (vga_glyph con c)"
  have "vga_put_xy con x y c = Inr ?con"
    using assms(2) by (simp add: vga_put_xy_def in_screen_def vga_glyph_def)
  moreover have "vga_cell ?con i j = (if i = x \<and> j = y then vga_glyph con c else vga_cell con i j)" if "in_screen con i j" for i j
    using that idx [of i j y] by (simp add: poke_def vga_cell_def in_screen_def)
  ultimately show ?thesis
    using assms(1) by (simp add: draws_to_def vga_ok_def same_geometry_def poke_def vga_glyph_def fun_eq_iff del: same_geometryD)
qed

lemma each_put_blank:
  assumes "vga_ok con" "0 \<le> y" "y < cheight con" "n \<le> nat (cwidth con)"
  shows "each_outcome (\<lambda>x con. vga_put_xy con (int x) y 32) [0..<n] con
    = Inr (with_buffer con (\<lambda>k. if y * cwidth con \<le> k \<and> k < y * cwidth con + int n then vga_glyph con 32 else vga_buffer (priv con) k))"
  using assms(4)
proof (induction n)
  case (Suc n)
  have "(\<lambda>k. if y * cwidth con \<le> k \<and> k < y * cwidth con + int n then vga_glyph con 32 else vga_buffer (priv con) k)
      (y * cwidth con + int n := vga_glyph con 32)
    = (\<lambda>k. if y * cwidth con \<le> k \<and> k < y * cwidth con + int (Suc n) then vga_glyph con 32 else vga_buffer (priv con) k)"
    by (auto simp: fun_eq_iff)
  then show ?case using Suc assms(3) by (simp add: each_outcome_append vga_put_xy_def vga_glyph_def del: fun_upd_apply)
next
  case 0
  have "(\<lambda>k. if y * cwidth con \<le> k \<and> k < y * cwidth con + int 0 then vga_glyph con 32 else vga_buffer (priv con) k)
    = vga_buffer (priv con)" by (auto simp: fun_eq_iff)
  then show ?case by simp
qed

lemma vga_scroll_draws:
  assumes "vga_ok con" "0 < cheight con" "y_pos con = cheight con - 1"
  shows "draws_to vga_cell vga_glyph vga_ok con (vga_scroll io con)
    (\<lambda>i j. if j = cheight con - 1 then vga_glyph con 32 else vga_cell con i (j + 1))"
proof -
  let ?w = "cwidth con" and ?h = "cheight con"
  let ?b = "moved_up ?w (?h * ?w) (vga_buffer (priv con))"
  let ?b' = "\<lambda>k. if y_pos con * ?w \<le> k \<and> k < y_pos con * ?w + ?w then vga_glyph con 32 else ?b k"
  have w: "0 < ?w" using assms(1) by (simp add: vga_ok_def)
  have ok: "vga_ok (with_buffer con ?b)" using assms(1) by (simp add: vga_ok_def)
  have "vga_scroll io con = Inr (with_buffer (with_buffer con ?b) ?b')"
    using each_put_blank [OF ok, of "y_pos con" "nat ?w", unfolded with_buffer_simps glyph_with_buffer] scroll_rows [OF w, of "nat ?h"] assms(2,3) w
    by (simp add: vga_scroll_def console_clear_row_def Let_def)
  moreover have "with_buffer (with_buffer con ?b) ?b' = with_buffer con ?b'" by (simp add: with_buffer_def)
  moreover have "vga_cell (with_buffer con ?b') i j = (if j = ?h - 1 then vga_glyph con 32 else vga_cell con i (j + 1))"
    if "in_screen con i j" for i j
  proof -
    have ij: "0 \<le> i" "i < ?w" "0 \<le> j" "j < ?h" using that by (simp_all add: in_screen_def)
    show ?thesis
    proof (cases "j = ?h - 1")
      case True
      then show ?thesis using ij assms(3) by (simp add: vga_cell_def)
    next
      case False
      then have "(j + 1) * ?w \<le> (?h - 1) * ?w" using ij w by (intro mult_right_mono) auto
      then have "j * ?w + i < (?h - 1) * ?w" "(?h - 1) * ?w \<le> ?h * ?w" "0 \<le> j * ?w + i"
        using ij w by (simp_all add: algebra_simps)
      then have "vga_cell (with_buffer con ?b') i j = vga_buffer (priv con) (j * ?w + i + ?w)"
        unfolding vga_cell_def with_buffer_simps assms(3) moved_up_def by auto
      also have "\<dots> = vga_cell con i (j + 1)" by (simp add: vga_cell_def algebra_simps)
      finally show ?thesis using False by simp
    qed
  qed
  ultimately show ?thesis
    using assms(1) by (simp add: draws_to_def vga_ok_def same_geometry_def vga_glyph_def fun_eq_iff del: same_geometryD)
qed

interpretation vga: text_display "vga_ops io" vga_cell vga_glyph vga_ok for io :: "'h ports"
proof unfold_locales
  fix con :: "'h vga" and x y w h a b :: int and c :: u8
  show "vga_ok con \<Longrightarrow> in_screen con x y \<Longrightarrow> draws_to vga_cell vga_glyph vga_ok con (put_xy (vga_ops io) con x y c)
      (\<lambda>i j. if i = x \<and> j = y then vga_glyph con c else vga_cell con i j)"
    using vga_put_draws by simp
  show "vga_ok con \<Longrightarrow> in_screen con x y \<Longrightarrow> draws_to vga_cell vga_glyph vga_ok con (set_cursor (vga_ops io) con x y) (vga_cell con)"
    by (simp add: draws_to_def vga_set_cursor_def on_hw_def vga_ok_def same_geometry_def vga_glyph_def vga_cell_def Let_def fun_eq_iff del: same_geometryD)
  show "vga_ok con \<Longrightarrow> inside con x y w h \<Longrightarrow> draws_to vga_cell vga_glyph vga_ok con (invalidate (vga_ops io) con x y w h) (vga_cell con)"
    by (simp add: draws_to_def)
  show "vga_ok con \<Longrightarrow> \<forall>i j. in_screen con i j \<longrightarrow> vga_cell con i j = vga_glyph con 32 \<Longrightarrow>
      draws_to vga_cell vga_glyph vga_ok con (clear (vga_ops io) con) (\<lambda>_ _. vga_glyph con 32)"
    by (simp add: draws_to_def)
  show "vga_ok con \<Longrightarrow> 0 < cheight con \<Longrightarrow> y_pos con = cheight con - 1 \<Longrightarrow>
      draws_to vga_cell vga_glyph vga_ok con (scroll (vga_ops io) con)
        (\<lambda>i j. if j = cheight con - 1 then vga_glyph con 32 else vga_cell con i (j + 1))"
    using vga_scroll_draws by simp
qed (simp_all add: vga_ok_def vga_cell_def vga_glyph_def fun_eq_iff)

text \<open>
  C19: the VGA console is a terminal: from a cursor on the screen, printing any bytes moves the
  cursor and the cells of the screen (characters with their colours) as the abstract terminal
  does, scrolling included, and keeps the cursor on the screen; it fails only where the terminal
  has no answer, a backspace at the top left corner.
\<close>

theorem vga_prints:
  assumes "vga_ok con" "cursor_in con"
  shows "case term_puts (vga_glyph con) (nat (cwidth con)) s (screen_of vga_cell con) of
      None \<Rightarrow> console_puts (vga_ops io) s con = Inl (AssertFailed ''Zero con->y_pos on erase'')
    | Some t \<Rightarrow> \<exists>con'. console_puts (vga_ops io) s con = Inr con' \<and> vga_ok con' \<and> cursor_in con' \<and>
        screen_of vga_cell con' = t"
  using vga.puts_displays [OF assms, of io s] by (auto simp: vga.displays_def split: option.splits)

definition small_vga :: "unit vga" where
  "small_vga = \<lparr>x_pos = 1, y_pos = 1, cwidth = 3, cheight = 2,
     priv = \<lparr>colour = 0x1f, vga_buffer = (\<lambda>_. 0x1f20), hw = ()\<rparr>\<rparr>"

definition no_ports :: "unit ports" where
  "no_ports = \<lparr>outb = (\<lambda>_ _ _. ()), inb = (\<lambda>_ _. (0, ())), outw = (\<lambda>_ _ _. ()), inw = (\<lambda>_ _. (0, ())),
     outl = (\<lambda>_ _ _. ()), inl = (\<lambda>_ _. (0, ()))\<rparr>"

lemma vga_prints_witness:
  "\<exists>con'. console_puts (vga_ops no_ports) [65, 66, 67] small_vga = Inr con' \<and> vga_ok con' \<and> cursor_in con' \<and>
     screen_of vga_cell con' = \<lparr>tx = 1, ty = 1, rows = [[0x1f20, 0x1f41, 0x1f42], [0x1f43, 0x1f20, 0x1f20]]\<rparr>"
proof -
  have "vga_ok small_vga" "cursor_in small_vga"
    by (simp_all add: small_vga_def vga_ok_def cursor_in_def in_screen_def)
  note v = vga_prints [OF this, where s = "[65, 66, 67]" and io = no_ports]
  have s: "screen_of vga_cell small_vga = \<lparr>tx = 1, ty = 1, rows = [[0x1f20, 0x1f20, 0x1f20], [0x1f20, 0x1f20, 0x1f20]]\<rparr>"
    by (simp add: small_vga_def screen_of_def vga_cell_def upt_rec)
  have g: "vga_glyph small_vga 65 = 0x1f41" "vga_glyph small_vga 66 = 0x1f42" "vga_glyph small_vga 67 = 0x1f43"
    "vga_glyph small_vga 32 = 0x1f20" "nat (cwidth small_vga) = 3"
    by (simp_all add: small_vga_def vga_glyph_def vga_entry_def)
  have t: "term_puts (vga_glyph small_vga) 3 [65, 66, 67] \<lparr>tx = 1, ty = 1, rows = [[0x1f20, 0x1f20, 0x1f20], [0x1f20, 0x1f20, 0x1f20]]\<rparr>
      = Some \<lparr>tx = 1, ty = 1, rows = [[0x1f20, 0x1f41, 0x1f42], [0x1f43, 0x1f20, 0x1f20]]\<rparr>"
    by (simp add: term_putc_def term_put_def term_next_row_def g numeral_3_eq_3)
  show ?thesis using v unfolding s g(5) t by simp
qed

text \<open>
  After \<open>vga_init\<close>, printing any number of lines shorter than the 80 columns, each ended
  by a newline, shows exactly the last 24 of them in order, left-justified and padded with blanks,
  above a blank row with the cursor at its start (fewer lines stand at the top of a blank screen).
\<close>

theorem vga_shows_lines:
  assumes "\<forall>s \<in> set ls. plain s \<and> length s < 80"
  shows "\<exists>con con'. vga_init io col b h = Inr con \<and>
    console_puts (vga_ops io) (concat (map (\<lambda>s. s @ [10]) ls)) con = Inr con' \<and>
    screen_of vga_cell con' = lines_shown (\<lambda>c. vga_entry c (ucast col)) 80 25 ls"
proof -
  let ?con = "\<lparr>x_pos = 0, y_pos = 0, cwidth = 80, cheight = 25,
    priv = \<lparr>colour = col, vga_buffer = b, hw = vga_cursor_width io 14 15 h\<rparr>\<rparr>"
  let ?g = "\<lambda>c. vga_entry c (ucast col)"
  have ok: "vga_ok ?con" by (simp add: vga_ok_def)
  then obtain c1 where c1: "console_clear (vga_ops io) ?con = Inr c1" "vga_ok c1" "vga_glyph c1 = vga_glyph ?con"
    "cwidth c1 = 80" "cheight c1 = 25"
    "screen_of vga_cell c1 = \<lparr>tx = 0, ty = 0, rows = replicate 25 (replicate 80 (vga_glyph ?con 32))\<rparr>" "cursor_in c1"
    using vga.clear_displays [OF ok, of io] by (auto simp: vga.displays_def)
  let ?c1 = "c1\<lparr>x_pos := 0, y_pos := 0\<rparr>"
  have g: "vga_glyph ?c1 = ?g" using c1(3) by (simp add: vga_glyph_def fun_eq_iff)
  have s: "screen_of vga_cell ?c1 = \<lparr>tx = 0, ty = 0, rows = replicate 25 (replicate 80 (?g 32))\<rparr>"
    using c1(6) by (simp add: screen_of_def vga_cell_def vga_glyph_def)
  have "vga_ok ?c1" "cursor_in ?c1" using c1(2,4,5) by (simp_all add: vga_ok_def cursor_in_def in_screen_def)
  from vga.puts_displays [OF this, of io "concat (map (\<lambda>s. s @ [10]) ls)"]
  obtain c2 where "console_puts (vga_ops io) (concat (map (\<lambda>s. s @ [10]) ls)) ?c1 = Inr c2"
    "screen_of vga_cell c2 = lines_shown ?g 80 25 ls"
    unfolding s g using term_puts_lines [OF assms, of 25 ?g] c1(4) by (auto simp: vga.displays_def)
  moreover have "vga_init io col b h = Inr ?c1" using c1(1) by (simp add: vga_init_def)
  ultimately show ?thesis by blast
qed

lemma vga_shows_lines_witness:
  "\<exists>con con'. vga_init no_ports 0x1f (\<lambda>_. 0) () = Inr con \<and> console_puts (vga_ops no_ports) [72, 105, 10] con = Inr con' \<and>
     hd (rows (screen_of vga_cell con')) = 0x1f48 # 0x1f69 # replicate 78 0x1f20"
proof -
  obtain con con' where "vga_init no_ports 0x1f (\<lambda>_. 0) () = Inr con" "console_puts (vga_ops no_ports) [72, 105, 10] con = Inr con'"
    "screen_of vga_cell con' = lines_shown (\<lambda>c. vga_entry c (ucast (0x1f :: u16))) 80 25 [[72, 105]]"
    using vga_shows_lines [where ls = "[[72, 105]]" and io = no_ports and col = "0x1f" and b = "\<lambda>_. 0" and h = "()"] by (auto simp: plain_def)
  then show ?thesis by (auto simp: lines_shown_def padded_def vga_entry_def)
qed

end
