(* ===== verification/Framebuffer.thy ===== *)
theory Framebuffer
  imports Micro_Prelude
begin

text \<open>
  Framebuffer devices (\<open>kern/io/framebuffer.h\<close>): the function pointers of an \<open>fbdev_t\<close> as a record
  of operations, and what its clients rely on as an interface locale: pixels can be set and read
  back, and the screen can be shifted up.
\<close>

record 'f fbdev =
  fbwidth :: int
  fbheight :: int
  fbbpp :: int
  fbpriv :: 'f

record 'f fb_ops =
  put_pixel :: "'f fbdev \<Rightarrow> int \<Rightarrow> int \<Rightarrow> u32 \<Rightarrow> 'f fbdev"
  get_pixel :: "'f fbdev \<Rightarrow> int \<Rightarrow> int \<Rightarrow> u32"
  fb_invalidate :: "'f fbdev \<Rightarrow> int \<Rightarrow> int \<Rightarrow> int \<Rightarrow> int \<Rightarrow> 'f fbdev"
  shift :: "'f fbdev \<Rightarrow> int \<Rightarrow> 'f fbdev"

definition FBDEV_SETRES :: int where "FBDEV_SETRES = 0"
definition FBDEV_CHANGE_RESOLUTION :: int where "FBDEV_CHANGE_RESOLUTION = 1"

definition on_fb :: "'f fbdev \<Rightarrow> int \<Rightarrow> int \<Rightarrow> bool" where
  "on_fb fb x y \<longleftrightarrow> 0 \<le> x \<and> x < fbwidth fb \<and> 0 \<le> y \<and> y < fbheight fb"

text \<open>A rectangle whose lines, read on from line to line, end before the end of the buffer.\<close>

definition fits_fb :: "'f fbdev \<Rightarrow> int \<Rightarrow> int \<Rightarrow> int \<Rightarrow> int \<Rightarrow> bool" where
  "fits_fb fb x y w h \<longleftrightarrow> 0 \<le> x \<and> 0 \<le> y \<and> 0 \<le> w \<and> 0 \<le> h \<and>
     (h = 0 \<or> (y + h - 1) * fbwidth fb + x + w \<le> fbwidth fb * fbheight fb)"

definition same_mode :: "'f fbdev \<Rightarrow> 'f fbdev \<Rightarrow> bool" where
  "same_mode fb fb' \<longleftrightarrow> fbwidth fb' = fbwidth fb \<and> fbheight fb' = fbheight fb \<and> fbbpp fb' = fbbpp fb"

locale pixel_display =
  fixes fops :: "'f fb_ops" and ok :: "'f fbdev \<Rightarrow> bool"
  assumes put: "ok fb \<Longrightarrow> on_fb fb x y \<Longrightarrow> ok (put_pixel fops fb x y c) \<and> same_mode fb (put_pixel fops fb x y c)"
    and get_put: "ok fb \<Longrightarrow> on_fb fb x y \<Longrightarrow> on_fb fb i j \<Longrightarrow>
        get_pixel fops (put_pixel fops fb x y c) i j = (if i = x \<and> j = y then c else get_pixel fops fb i j)"
    and inval: "ok fb \<Longrightarrow> fits_fb fb x y w h \<Longrightarrow>
        ok (fb_invalidate fops fb x y w h) \<and> same_mode fb (fb_invalidate fops fb x y w h)"
    and get_inval: "ok fb \<Longrightarrow> fits_fb fb x y w h \<Longrightarrow> on_fb fb i j \<Longrightarrow>
        get_pixel fops (fb_invalidate fops fb x y w h) i j = get_pixel fops fb i j"
    and shifted: "ok fb \<Longrightarrow> 0 < n \<Longrightarrow> n \<le> fbheight fb \<Longrightarrow> ok (shift fops fb n) \<and> same_mode fb (shift fops fb n)"
    and get_shift: "ok fb \<Longrightarrow> 0 < n \<Longrightarrow> n \<le> fbheight fb \<Longrightarrow> on_fb fb i j \<Longrightarrow>
        get_pixel fops (shift fops fb n) i j = get_pixel fops fb i (if j + n < fbheight fb then j + n else j)"
begin

text \<open>Drawing a list of pixels one after the other: the last colour of a pixel stays.\<close>

definition draw :: "((int \<times> int) \<times> u32) list \<Rightarrow> 'f fbdev \<Rightarrow> 'f fbdev" where
  "draw ps fb = fold (\<lambda>((x, y), c) fb. put_pixel fops fb x y c) ps fb"

lemma draw_pixels:
  assumes "ok fb" "\<forall>p \<in> set ps. on_fb fb (fst (fst p)) (snd (fst p))"
  shows "ok (draw ps fb) \<and> same_mode fb (draw ps fb) \<and>
    (\<forall>i j. on_fb fb i j \<longrightarrow> get_pixel fops (draw ps fb) i j
       = (case map_of (rev ps) (i, j) of Some c \<Rightarrow> c | None \<Rightarrow> get_pixel fops fb i j))"
  using assms(2)
proof (induction ps rule: rev_induct)
  case Nil
  then show ?case using assms(1) by (simp add: draw_def same_mode_def)
next
  case (snoc p ps)
  obtain x y c where p: "p = ((x, y), c)" by (metis surj_pair)
  let ?fb = "draw ps fb"
  have ih: "ok ?fb" "same_mode fb ?fb" "\<And>i j. on_fb fb i j \<Longrightarrow> get_pixel fops ?fb i j
      = (case map_of (rev ps) (i, j) of Some c \<Rightarrow> c | None \<Rightarrow> get_pixel fops fb i j)"
    using snoc by auto
  have on: "on_fb ?fb i j \<longleftrightarrow> on_fb fb i j" for i j using ih(2) by (simp add: on_fb_def same_mode_def)
  have xy: "on_fb ?fb x y" using snoc.prems p on by simp
  have d: "draw (ps @ [p]) fb = put_pixel fops ?fb x y c" by (simp add: draw_def p)
  have "get_pixel fops (draw (ps @ [p]) fb) i j
      = (case map_of (rev (ps @ [p])) (i, j) of Some c \<Rightarrow> c | None \<Rightarrow> get_pixel fops fb i j)" if "on_fb fb i j" for i j
    using get_put [OF ih(1) xy, of i j c] that ih(3) [OF that] unfolding d by (auto simp: p on split: option.splits)
  moreover have "same_mode fb (draw (ps @ [p]) fb)"
    using put [OF ih(1) xy, of c] ih(2) by (simp add: d same_mode_def)
  ultimately show ?case using put [OF ih(1) xy, of c] by (simp add: d)
qed

end

section \<open>Rectangles\<close>

definition rect :: "int \<Rightarrow> int \<Rightarrow> nat \<Rightarrow> nat \<Rightarrow> (int \<times> int) list" where
  "rect px py w h = concat (map (\<lambda>y. map (\<lambda>x. (px + int x, py + int y)) [0..<w]) [0..<h])"

lemma int_range: "int ` {0..<n} = {0..<int n}"
  by (simp add: image_int_atLeastLessThan)

lemma set_rect: "(i, j) \<in> set (rect px py w h) \<longleftrightarrow> px \<le> i \<and> i < px + int w \<and> py \<le> j \<and> j < py + int h"
proof
  assume "(i, j) \<in> set (rect px py w h)"
  then show "px \<le> i \<and> i < px + int w \<and> py \<le> j \<and> j < py + int h" by (auto simp: rect_def)
next
  assume a: "px \<le> i \<and> i < px + int w \<and> py \<le> j \<and> j < py + int h"
  then have "i = px + int (nat (i - px))" "nat (i - px) < w" "j = py + int (nat (j - py))" "nat (j - py) < h" by auto
  then show "(i, j) \<in> set (rect px py w h)" unfolding rect_def by (fastforce simp del: int_nat_eq)
qed

lemma fold_rect:
  "fold (\<lambda>y. fold (\<lambda>x. f (px + int x) (py + int y)) [0..<w]) [0..<h] s = fold (\<lambda>(i, j). f i j) (rect px py w h) s"
proof (induction h)
  case (Suc h)
  have "fold (\<lambda>(i, j). f i j) (map (\<lambda>x. (px + int x, py + int h)) [0..<w]) s = fold (\<lambda>x. f (px + int x) (py + int h)) [0..<w] s" for s
    by (simp add: fold_map comp_def)
  then show ?case using Suc by (simp add: rect_def)
qed (simp add: rect_def)

context pixel_display
begin

lemma put_rect:
  fixes col :: "int \<Rightarrow> int \<Rightarrow> u32"
  assumes "ok fb" "0 \<le> px" "px + int w \<le> fbwidth fb" "0 \<le> py" "py + int h \<le> fbheight fb"
  defines "fb' \<equiv> fold (\<lambda>y. fold (\<lambda>x fb. put_pixel fops fb (px + int x) (py + int y) (col (px + int x) (py + int y))) [0..<w]) [0..<h] fb"
  shows "ok fb'" "same_mode fb fb'"
    and "on_fb fb i j \<Longrightarrow> get_pixel fops fb' i j
      = (if px \<le> i \<and> i < px + int w \<and> py \<le> j \<and> j < py + int h then col i j else get_pixel fops fb i j)"
proof -
  let ?ps = "map (\<lambda>k. (k, col (fst k) (snd k))) (rect px py w h)"
  have "fb' = fold (\<lambda>(i, j) fb. put_pixel fops fb i j (col i j)) (rect px py w h) fb"
    unfolding fb'_def by (rule fold_rect [where f = "\<lambda>i j fb. put_pixel fops fb i j (col i j)"])
  also have "\<dots> = draw ?ps fb"
    unfolding draw_def fold_map by (rule fold_cong) (auto simp: comp_def split: prod.splits)
  finally have fb': "fb' = draw ?ps fb" .
  have on: "\<forall>p \<in> set ?ps. on_fb fb (fst (fst p)) (snd (fst p))"
  proof
    fix p
    assume "p \<in> set ?ps"
    then have "(fst (fst p), snd (fst p)) \<in> set (rect px py w h)" by auto
    then show "on_fb fb (fst (fst p)) (snd (fst p))" using assms(2-5) unfolding set_rect on_fb_def by linarith
  qed
  note d = draw_pixels [OF assms(1) on, folded fb']
  have "map_of (rev ?ps) (i, j)
      = (if px \<le> i \<and> i < px + int w \<and> py \<le> j \<and> j < py + int h then Some (col i j) else None)" for i j
    unfolding set_rect [symmetric] rev_map map_of_map_restrict by (simp add: restrict_map_def)
  then show "ok fb'" "same_mode fb fb'" "on_fb fb i j \<Longrightarrow> get_pixel fops fb' i j
      = (if px \<le> i \<and> i < px + int w \<and> py \<le> j \<and> j < py + int h then col i j else get_pixel fops fb i j)"
    using d by auto
qed

end

end
