(* ===== verification/Vesa.thy ===== *)
theory Vesa
  imports Framebuffer Bdrive Kalloc
begin

text \<open>
  The VBE framebuffer driver (\<open>kern/io/vesa.c\<close>). Both buffers lie in the flat byte memory; the
  video BIOS is the parameter of theory Bdrive, memory comes from the allocator of theory Kalloc.
  A mode number and its information are read through the low buffer at \<open>lmb\<close>.
\<close>

section \<open>The code\<close>

definition VBE_STATUS_OK :: u32 where "VBE_STATUS_OK = 0x004f"

record vbe_mode =
  mode_attrs :: u16
  x_res :: u16
  y_res :: u16
  mode_bpp :: u8
  memory_model :: u8
  phys_base_ptr :: u32
  lin_pitch :: u16

definition vbe_mode_at :: "mem \<Rightarrow> u32 \<Rightarrow> vbe_mode" where
  "vbe_mode_at m p = \<lparr>mode_attrs = load16 m p, x_res = load16 m (p + 18), y_res = load16 m (p + 20),
     mode_bpp = m (p + 25), memory_model = m (p + 27), phys_base_ptr = load32 m (p + 40), lin_pitch = load16 m (p + 50)\<rparr>"

record vesa_priv =
  vwidth :: int
  vheight :: int
  bits_per_pixel :: int
  bytes_per_pixel :: int
  pitch :: int
  framebuffer :: u32
  backbuffer :: u32

definition vbe_ok :: "u32 \<Rightarrow> bool" where
  "vbe_ok ret \<longleftrightarrow> ret AND 0xffff = VBE_STATUS_OK"

type_synonym 'd machine = "alloc_state \<times> 'd"

definition video_int :: "'d bios \<Rightarrow> int_regs \<Rightarrow> 'd machine \<Rightarrow> int_regs \<times> 'd machine" where
  "video_int bios regs st =
     (case st of (a, d) \<Rightarrow> case bios 0x10 regs (ram a) d of (regs, m, d) \<Rightarrow> (regs, a\<lparr>ram := m\<rparr>, d))"

definition vesa_set_mode :: "'d bios \<Rightarrow> int \<Rightarrow> 'd machine \<Rightarrow> bool \<times> 'd machine" where
  "vesa_set_mode bios mode st =
     (let (regs, st) = video_int bios (zero_regs\<lparr>eax := 0x4f02, ebx := 0x4000 OR word_of_int mode\<rparr>) st
      in (vbe_ok (eax regs), st))"

definition vesa_get_mode :: "'d bios \<Rightarrow> 'd machine \<Rightarrow> int \<times> 'd machine" where
  "vesa_get_mode bios st =
     (let (regs, st) = video_int bios (zero_regs\<lparr>eax := 0x4f03\<rparr>) st
      in (if vbe_ok (eax regs) then uint (ebx regs AND 0x1fff) else -1, st))"

definition vesa_get_info :: "'d bios \<Rightarrow> u32 \<Rightarrow> int \<Rightarrow> 'd machine \<Rightarrow> vbe_mode option \<times> 'd machine" where
  "vesa_get_info bios lmb mode st =
     (let (regs, st) = video_int bios
            (zero_regs\<lparr>es := ucast (SEGOF lmb), edi := OFFOF lmb, eax := 0x4f01, ecx := word_of_int mode\<rparr>) st
      in (if vbe_ok (eax regs) then Some (vbe_mode_at (ram (fst st)) lmb) else None, st))"

text \<open>The 512 bytes of the information block go to \<open>info\<close>.\<close>

definition vesa_get_info_block :: "'d bios \<Rightarrow> u32 \<Rightarrow> u32 \<Rightarrow> 'd machine \<Rightarrow> bool \<times> 'd machine" where
  "vesa_get_info_block bios lmb info st =
     (let m = memset (ram (fst st)) lmb 0 512;
          m = write_bytes m lmb [86, 66, 69, 50];
          (regs, a, d) = video_int bios
            (zero_regs\<lparr>es := ucast (SEGOF lmb), edi := OFFOF lmb, eax := 0x4f00\<rparr>) ((fst st)\<lparr>ram := m\<rparr>, snd st)
      in if vbe_ok (eax regs) then (True, a\<lparr>ram := memcpy (ram a) info lmb 512\<rparr>, d) else (False, a, d))"

type_synonym vesa_mode_fn = "u16 \<Rightarrow> u16 \<Rightarrow> u8 \<Rightarrow> bool"

text \<open>The loop over the mode numbers, those that \<open>i\<close> can reach.\<close>

primrec find_mode_in ::
  "'d bios \<Rightarrow> u32 \<Rightarrow> int \<Rightarrow> int \<Rightarrow> int \<Rightarrow> vesa_mode_fn option \<Rightarrow> u16 list \<Rightarrow> 'd machine \<Rightarrow> int \<times> 'd machine" where
  "find_mode_in bios lmb x y bpp mode_ok [] st = (-1, st)"
| "find_mode_in bios lmb x y bpp mode_ok (mode # modes) st =
     (if mode = 0xffff then (-1, st)
      else (let (mib, st) = vesa_get_info bios lmb (uint mode) st in
        case mib of
          None \<Rightarrow> find_mode_in bios lmb x y bpp mode_ok modes st
        | Some mib \<Rightarrow>
            if mode_attrs mib AND 0x90 \<noteq> 0 \<and> memory_model mib = 6 \<and>
               (uint (x_res mib) = x \<and> uint (y_res mib) = y \<and> uint (mode_bpp mib) = bpp \<or>
                (case mode_ok of None \<Rightarrow> False | Some f \<Rightarrow> f (x_res mib) (y_res mib) (mode_bpp mib)))
            then (uint mode, st)
            else find_mode_in bios lmb x y bpp mode_ok modes st))"

text \<open>
  \<open>mode_buffer\<close> holds 4096 16-bit numbers, of which the copy initialises the first
  \<open>4096 - mode_off\<close> bytes; \<open>junk\<close> is what the others hold. The loop bound counts numbers.
\<close>

definition mode_numbers :: "(nat \<Rightarrow> u16) \<Rightarrow> mem \<Rightarrow> u32 \<Rightarrow> nat \<Rightarrow> u16 list" where
  "mode_numbers junk m p n = map (\<lambda>i. if 2 * i + 1 < n then load16 m (p + of_nat (2 * i)) else junk i) [0..<n]"

definition vesa_find_mode ::
  "'d bios \<Rightarrow> u32 \<Rightarrow> (nat \<Rightarrow> u16) \<Rightarrow> int \<Rightarrow> int \<Rightarrow> int \<Rightarrow> vesa_mode_fn option \<Rightarrow> 'd machine \<Rightarrow>
   (int \<times> 'd machine) outcome option" where
  "vesa_find_mode bios lmb junk x y bpp mode_ok st =
     run_bind (kalloc (fst st) 4096) (\<lambda>(info, a).
       let (found, a, d) = vesa_get_info_block bios lmb info (a\<lparr>ram := memset (ram a) info 0 4096\<rparr>, snd st) in
       if \<not> found then Some (Inr (-1, a, d))
       else (let mode_off = sint (U32REAL_TO_LIN (load32 (ram a) (info + 14)) - lmb) in
         if mode_off < 0 \<or> 4096 < mode_off then Some (Inl WildAccess)
         else (let modes = mode_numbers junk (ram a) (info + word_of_int mode_off) (nat (4096 - mode_off)) in
           run_bind (Some (kfree a info)) (\<lambda>a. Some (Inr (find_mode_in bios lmb x y bpp mode_ok modes (a, d)))))))"

definition ERR_INVALID :: int where "ERR_INVALID = 2"

text \<open>\<open>stale\<close> is what the uninitialised \<open>info\<close> holds if the BIOS refuses to fill it.\<close>

definition vesa_set_res ::
  "'d bios \<Rightarrow> u32 \<Rightarrow> (nat \<Rightarrow> u16) \<Rightarrow> vbe_mode \<Rightarrow> vesa_priv \<Rightarrow> int \<Rightarrow> int \<Rightarrow> int \<Rightarrow> 'd machine \<Rightarrow>
   (int \<times> vesa_priv \<times> 'd machine) outcome option" where
  "vesa_set_res bios lmb junk stale v x y bpp st =
     run_bind (vesa_find_mode bios lmb junk x y bpp None st) (\<lambda>(mode, st).
       if mode = -1 then Some (Inr (- ERR_INVALID, v, st))
       else (let (info, st) = vesa_get_info bios lmb mode st;
                 info = (case info of None \<Rightarrow> stale | Some i \<Rightarrow> i);
                 (set, st) = vesa_set_mode bios mode st
             in if \<not> set then Some (Inr (- ERR_INVALID, v, st))
                else run_bind (if backbuffer v \<noteq> 0 then Some (kfree (fst st) (backbuffer v)) else Some (Inr (fst st))) (\<lambda>a.
                  let bits = uint (mode_bpp info); bytes = bits div 8 in
                  run_bind (kallocz a (word_of_int (uint (x_res info) * uint (y_res info) * bytes))) (\<lambda>(buf, a).
                    Some (Inr (0, \<lparr>vwidth = uint (x_res info), vheight = uint (y_res info), bits_per_pixel = bits,
                      bytes_per_pixel = bytes, pitch = uint (lin_pitch info), framebuffer = phys_base_ptr info,
                      backbuffer = buf\<rparr>, a, snd st))))))"

record vesa_state =
  vp :: vesa_priv
  vmem :: mem

definition pixel_addr :: "vesa_priv \<Rightarrow> u32 \<Rightarrow> int \<Rightarrow> int \<Rightarrow> u32" where
  "pixel_addr v base x y = base + word_of_int (x * bytes_per_pixel v + pitch v * y)"

definition with_mem :: "vesa_state fbdev \<Rightarrow> mem \<Rightarrow> vesa_state fbdev" where
  "with_mem dev m = dev\<lparr>fbpriv := (fbpriv dev)\<lparr>vmem := m\<rparr>\<rparr>"

definition vesa_put_pixel :: "vesa_state fbdev \<Rightarrow> int \<Rightarrow> int \<Rightarrow> u32 \<Rightarrow> vesa_state fbdev" where
  "vesa_put_pixel dev x y c =
     (let v = vp (fbpriv dev) in with_mem dev (store32 (vmem (fbpriv dev)) (pixel_addr v (backbuffer v) x y) c))"

definition vesa_get_pixel :: "vesa_state fbdev \<Rightarrow> int \<Rightarrow> int \<Rightarrow> u32" where
  "vesa_get_pixel dev x y =
     (let v = vp (fbpriv dev) in load32 (vmem (fbpriv dev)) (pixel_addr v (backbuffer v) x y))"

definition vesa_shift :: "vesa_state fbdev \<Rightarrow> int \<Rightarrow> vesa_state fbdev" where
  "vesa_shift dev yshift =
     (let v = vp (fbpriv dev) in with_mem dev (fold (\<lambda>y m.
        memcpy m (backbuffer v + word_of_int (pitch v * int y)) (backbuffer v + word_of_int (pitch v * (int y + yshift)))
          (word_of_int (pitch v))) [0..<nat (vheight v - yshift)] (vmem (fbpriv dev))))"

definition vesa_invalidate :: "vesa_state fbdev \<Rightarrow> int \<Rightarrow> int \<Rightarrow> int \<Rightarrow> int \<Rightarrow> vesa_state fbdev" where
  "vesa_invalidate dev x_start y_start width height =
     (let v = vp (fbpriv dev); m = vmem (fbpriv dev) in
      if bits_per_pixel v = 8
      then with_mem dev (fold (\<lambda>y. fold (\<lambda>x m.
             let offset = word_of_int (x * pitch v * y) in m(framebuffer v + offset := m (backbuffer v + offset)))
               [x_start..x_start + width - 1]) [y_start..y_start + height - 1] m)
      else with_mem dev (memblit m (framebuffer v) (backbuffer v) (word_of_int (vwidth v)) (word_of_int (vheight v))
             (word_of_int (bytes_per_pixel v)) (word_of_int x_start) (word_of_int y_start)
             (word_of_int width) (word_of_int height)))"

definition vesa_ops :: "vesa_state fb_ops" where
  "vesa_ops = \<lparr>put_pixel = vesa_put_pixel, get_pixel = vesa_get_pixel, fb_invalidate = vesa_invalidate, shift = vesa_shift\<rparr>"

section \<open>Pixels of the back buffer\<close>

definition vesa_ok :: "vesa_state fbdev \<Rightarrow> bool" where
  "vesa_ok dev \<longleftrightarrow> (let v = vp (fbpriv dev); n = nat (4 * (fbwidth dev * fbheight dev)) in
     vwidth v = fbwidth dev \<and> vheight v = fbheight dev \<and> bits_per_pixel v = 32 \<and> bytes_per_pixel v = 4 \<and>
     pitch v = 4 * fbwidth dev \<and> 0 < fbwidth dev \<and> 0 < fbheight dev \<and> n \<le> 2147483648 \<and>
     apart (framebuffer v) (backbuffer v) n)"

definition pix :: "vesa_state fbdev \<Rightarrow> int \<Rightarrow> int \<Rightarrow> nat" where
  "pix dev x y = nat (y * fbwidth dev + x)"

lemma sep4_offsets:
  assumes "m + 4 \<le> n \<or> n + 4 \<le> m" "m \<le> 2147483648" "n \<le> 2147483648"
  shows "sep4 (b + of_nat m) (b + of_nat n)"
proof -
  have d: "4 \<le> unat (of_nat i - of_nat j :: u32)" if "i + 4 \<le> j \<or> j + 4 \<le> i" "i \<le> 2147483648" "j \<le> 2147483648" for i j
    using that unfolding unat_diff_u32 by (auto simp: unat_of_nat_u32)
  have "(4 :: u32) \<le> of_nat i - of_nat j" if "i + 4 \<le> j \<or> j + 4 \<le> i" "i \<le> 2147483648" "j \<le> 2147483648" for i j
    using d [OF that] by (simp add: word_le_nat_alt)
  then show ?thesis using assms by (auto simp: sep4_def)
qed

lemma pix_less:
  assumes "on_fb dev x y"
  shows "pix dev x y < nat (fbwidth dev * fbheight dev)"
proof -
  have *: "0 \<le> x" "x < fbwidth dev" "0 \<le> y" "y + 1 \<le> fbheight dev" using assms by (simp_all add: on_fb_def)
  then have "(y + 1) * fbwidth dev \<le> fbheight dev * fbwidth dev" by (intro mult_right_mono) auto
  then have "y * fbwidth dev + x < fbwidth dev * fbheight dev" using * by (simp add: algebra_simps)
  moreover have "0 \<le> y * fbwidth dev + x" using * by simp
  ultimately show ?thesis by (simp add: pix_def zless_nat_conj)
qed

lemma pix_inj:
  assumes "on_fb dev x y" "on_fb dev i j"
  shows "pix dev i j = pix dev x y \<longleftrightarrow> i = x \<and> j = y"
proof -
  have *: "0 \<le> x" "x < fbwidth dev" "0 \<le> y" "0 \<le> i" "i < fbwidth dev" "0 \<le> j" using assms by (simp_all add: on_fb_def)
  have "j * fbwidth dev + i = y * fbwidth dev + x \<longleftrightarrow> i = x \<and> j = y"
  proof
    assume e: "j * fbwidth dev + i = y * fbwidth dev + x"
    have "(j * fbwidth dev + i) mod fbwidth dev = i" "(y * fbwidth dev + x) mod fbwidth dev = x" using * by simp_all
    with e have "i = x" by simp
    with e show "i = x \<and> j = y" using * by simp
  qed simp
  moreover have "0 \<le> j * fbwidth dev + i" "0 \<le> y * fbwidth dev + x" using * by simp_all
  ultimately show ?thesis by (simp add: pix_def eq_nat_nat_iff)
qed

lemma pixel_addr_pix:
  assumes "vesa_ok dev" "0 \<le> x" "0 \<le> y"
  shows "pixel_addr (vp (fbpriv dev)) b x y = b + of_nat (4 * pix dev x y)"
proof -
  have "x * bytes_per_pixel (vp (fbpriv dev)) + pitch (vp (fbpriv dev)) * y = int (4 * pix dev x y)"
    using assms by (simp add: vesa_ok_def Let_def pix_def algebra_simps)
  then show ?thesis by (simp only: pixel_addr_def of_int_of_nat_eq)
qed

lemma with_mem_simps [simp]:
  "fbwidth (with_mem dev m) = fbwidth dev" "fbheight (with_mem dev m) = fbheight dev" "fbbpp (with_mem dev m) = fbbpp dev"
  "vp (fbpriv (with_mem dev m)) = vp (fbpriv dev)" "vmem (fbpriv (with_mem dev m)) = m"
  "vesa_ok (with_mem dev m) = vesa_ok dev" "same_mode dev (with_mem dev m)" "on_fb (with_mem dev m) x y = on_fb dev x y"
  "pix (with_mem dev m) x y = pix dev x y"
  by (simp_all add: with_mem_def vesa_ok_def same_mode_def on_fb_def pix_def)

lemma vesa_get_put:
  assumes "vesa_ok dev" "on_fb dev x y" "on_fb dev i j"
  shows "vesa_get_pixel (vesa_put_pixel dev x y c) i j = (if i = x \<and> j = y then c else vesa_get_pixel dev i j)"
proof -
  let ?b = "backbuffer (vp (fbpriv dev))" and ?m = "vmem (fbpriv dev)"
  have n: "nat (4 * (fbwidth dev * fbheight dev)) \<le> 2147483648" using assms(1) by (simp add: vesa_ok_def Let_def)
  have lt: "4 * pix dev x y + 4 \<le> 2147483648" "4 * pix dev i j + 4 \<le> 2147483648"
    using pix_less [OF assms(2)] pix_less [OF assms(3)] n by (simp_all add: nat_mult_distrib)
  have a: "pixel_addr (vp (fbpriv dev)) ?b x y = ?b + of_nat (4 * pix dev x y)"
    "pixel_addr (vp (fbpriv dev)) ?b i j = ?b + of_nat (4 * pix dev i j)"
    using assms by (auto intro!: pixel_addr_pix simp: on_fb_def simp del: of_nat_mult)
  show ?thesis
  proof (cases "i = x \<and> j = y")
    case False
    then have "pix dev i j \<noteq> pix dev x y" using pix_inj [OF assms(2,3)] by simp
    then have "sep4 (?b + of_nat (4 * pix dev x y)) (?b + of_nat (4 * pix dev i j))"
      using lt by (intro sep4_offsets) auto
    then show ?thesis using False
      unfolding vesa_get_pixel_def vesa_put_pixel_def Let_def with_mem_simps a by (simp only: load32_store32_other if_False)
  qed (simp add: vesa_get_pixel_def vesa_put_pixel_def Let_def)
qed

text \<open>\<open>memcpy\<close> of rows upwards: what the buffer holds after the first \<open>r\<close> rows.\<close>

definition rows_up :: "mem \<Rightarrow> u32 \<Rightarrow> nat \<Rightarrow> nat \<Rightarrow> mem" where
  "rows_up m b p n = (\<lambda>a. if in_block a b n then m (a + of_nat p) else m a)"

lemma rows_up_step:
  assumes "r * k + (s + 1) * k \<le> 2147483648" "0 < s"
  shows "memcpy (rows_up m b (s * k) (r * k)) (b + of_nat (r * k)) (b + of_nat ((r + s) * k)) (of_nat k)
    = rows_up m b (s * k) (r * k + k)"
proof -
  let ?d = "b + of_nat (r * k)" and ?s = "b + of_nat ((r + s) * k)"
  have k: "k \<le> s * k" using assms(2) by simp
  have len: "unat (of_nat k :: u32) = k" using assms(1) by (intro unat_of_nat_u32) simp
  have off: "?s = ?d + of_nat (s * k)" by (simp add: algebra_simps)
  have src: "\<not> in_block (a + of_nat (s * k)) b (r * k + k)" if a: "in_block a ?d k" for a
  proof -
    have eq: "a + of_nat (s * k) - b = (a - ?d) + of_nat (r * k + s * k)" by (simp add: algebra_simps)
    have u: "unat ((a - ?d) + of_nat (r * k + s * k)) = unat (a - ?d) + (r * k + s * k)"
    proof -
      have n: "unat (of_nat (r * k + s * k) :: u32) = r * k + s * k"
        using assms(1) by (intro unat_of_nat_u32) (simp add: algebra_simps)
      then show ?thesis using a assms(1) by (subst unat_add_u32) (simp_all only: n in_block_def, simp)
    qed
    show ?thesis using k unfolding in_block_def eq u by linarith
  qed
  have "apart ?d ?s (unat (of_nat k :: u32))"
    unfolding apart_def len
  proof (intro allI notI)
    fix a
    assume a: "in_block a ?d k \<and> in_block a ?s k"
    then have "in_block (a - of_nat (s * k)) ?d k" unfolding off in_block_def by (simp add: algebra_simps)
    from src [OF this] have "\<not> in_block a b (r * k + k)" by simp
    moreover have "in_block a b (r * k + k)" using a assms(1) by (simp add: in_block_split)
    ultimately show False by simp
  qed
  then have "memcpy (rows_up m b (s * k) (r * k)) ?d ?s (of_nat k) = copied (rows_up m b (s * k) (r * k)) ?d ?s k"
    by (simp add: memcpy_eq len)
  also have "\<dots> = rows_up m b (s * k) (r * k + k)"
  proof
    fix a
    show "copied (rows_up m b (s * k) (r * k)) ?d ?s k a = rows_up m b (s * k) (r * k + k) a"
    proof (cases "in_block a ?d k")
      case True
      have e: "?s + (a - ?d) = a + of_nat (s * k)" unfolding off by (simp add: algebra_simps)
      have "\<not> in_block (a + of_nat (s * k)) b (r * k)" using src [OF True] by (meson in_block_mono le_add1)
      moreover have "in_block a b (r * k + k)" using True assms(1) by (simp add: in_block_split)
      ultimately show ?thesis using True by (simp only: copied_def rows_up_def e if_True if_False)
    next
      case False
      then have "in_block a b (r * k + k) \<longleftrightarrow> in_block a b (r * k)" using assms(1) by (simp add: in_block_split)
      then show ?thesis using False by (simp add: copied_def rows_up_def)
    qed
  qed
  finally show ?thesis .
qed

lemma rows_up_all:
  assumes "0 < s" "(r + s) * k \<le> 2147483648"
  shows "fold (\<lambda>y m. memcpy m (b + of_nat (y * k)) (b + of_nat ((y + s) * k)) (of_nat k)) [0..<r] m = rows_up m b (s * k) (r * k)"
  using assms(2)
proof (induction r)
  case 0
  then show ?case by (simp add: rows_up_def)
next
  case (Suc r)
  have "(r + s) * k \<le> (Suc r + s) * k" by simp
  then have "(r + s) * k \<le> 2147483648" using Suc.prems by (rule order_trans)
  moreover have "r * k + (s + 1) * k \<le> 2147483648" using Suc.prems by (simp add: algebra_simps)
  ultimately show ?case
    using Suc.IH rows_up_step [of r k s m b] assms(1) by (simp add: algebra_simps del: of_nat_mult of_nat_add)
qed

lemma load32_moved:
  assumes "\<And>t. t < 4 \<Longrightarrow> m (a + t) = m' (a' + t)"
  shows "load32 m a = load32 m' a'"
  using assms [of 0] assms [of 1] assms [of 2] assms [of 3] by (simp add: load32_def)

lemma in_block_pixel:
  assumes "t < 4" "4 * p + 4 \<le> 2147483648"
  shows "in_block (b + of_nat (4 * p) + t) b (4 * n) \<longleftrightarrow> p < n"
proof -
  have t: "unat t < 4" using assms(1) by (simp add: word_less_nat_alt)
  have e: "b + of_nat (4 * p) + t - b = of_nat (4 * p) + t" by simp
  have p: "unat (of_nat (4 * p) :: u32) = 4 * p" using assms(2) by (intro unat_of_nat_u32) simp
  have "unat (of_nat (4 * p) + t :: u32) = 4 * p + unat t"
    using t assms(2) by (subst unat_add_u32) (simp_all add: p del: of_nat_mult)
  then show ?thesis unfolding in_block_def e using t by linarith
qed

lemma four_times_bound: "a + 1 \<le> b \<Longrightarrow> 4 * b \<le> 2147483648 \<Longrightarrow> 4 * a + 4 \<le> (2147483648 :: nat)"
  by linarith

lemma vesa_get_shift:
  assumes "vesa_ok dev" "0 < n" "n \<le> fbheight dev" "on_fb dev i j"
  shows "vesa_get_pixel (vesa_shift dev n) i j = vesa_get_pixel dev i (if j + n < fbheight dev then j + n else j)"
proof -
  let ?v = "vp (fbpriv dev)" and ?m = "vmem (fbpriv dev)"
  let ?b = "backbuffer ?v"
  define w s r x y where "w = nat (fbwidth dev)" and "s = nat n" and "r = nat (fbheight dev - n)" and "x = nat i" and "y = nat j"
  have ok: "vheight ?v = fbheight dev" "pitch ?v = 4 * fbwidth dev" "0 < fbwidth dev" "nat (4 * (fbwidth dev * fbheight dev)) \<le> 2147483648"
    using assms(1) by (simp_all add: vesa_ok_def Let_def)
  have w: "fbwidth dev = int w" "n = int s" "fbheight dev = int (r + s)" "0 < s" "i = int x" "j = int y" "x < w"
    using ok assms(2-4) by (simp_all add: w_def s_def r_def x_def y_def on_fb_def)
  have yr: "y < r + s" using assms(2-4) unfolding r_def s_def y_def on_fb_def by linarith
  have "4 * (fbwidth dev * fbheight dev) = int ((r + s) * (4 * w))" by (simp add: w algebra_simps)
  then have size: "(r + s) * (4 * w) \<le> 2147483648" using ok(4) by (simp only: nat_int)
  have p: "pitch ?v = int (4 * w)" by (simp add: ok(2) w(1))
  have "word_of_int (int (4 * w) * int y) = (of_nat (y * (4 * w)) :: u32)"
    "word_of_int (int (4 * w) * (int y + int s)) = (of_nat ((y + s) * (4 * w)) :: u32)" for y
    by (simp_all only: of_nat_add [symmetric] of_nat_mult [symmetric] of_int_of_nat_eq mult.commute)
  then have sh: "vesa_shift dev n = with_mem dev (rows_up ?m ?b (s * (4 * w)) (r * (4 * w)))"
    using rows_up_all [OF w(4) size, of ?b ?m]
    by (simp only: vesa_shift_def Let_def of_int_of_nat_eq ok(1) p w(2,3)) simp
  have px: "pix dev (int x) (int y) = y * w + x" for x y
    by (simp add: pix_def w(1) nat_add_distrib nat_mult_distrib)
  have addr: "pixel_addr ?v ?b (int x) (int y) = ?b + of_nat (4 * (y * w + x))" for x y
    using pixel_addr_pix [OF assms(1), of "int x" "int y" ?b] by (simp only: px of_nat_0_le_iff)
  have "(y * w + x) + 1 \<le> (y + 1) * w" using w(7) by simp
  also have "\<dots> \<le> (r + s) * w" using yr by (intro mult_right_mono) simp_all
  finally have lt: "4 * (y * w + x) + 4 \<le> 2147483648"
    using size unfolding mult.left_commute [of "r + s" 4 w]
    by (rule four_times_bound)
  have blk: "in_block (?b + of_nat (4 * (y * w + x)) + t) ?b (r * (4 * w)) \<longleftrightarrow> y * w + x < r * w" if "t < 4" for t
    using in_block_pixel [OF that lt, of ?b "r * w"] by (simp only: mult.left_commute)
  have load: "vesa_get_pixel (vesa_shift dev n) i j = load32 (rows_up ?m ?b (s * (4 * w)) (r * (4 * w))) (?b + of_nat (4 * (y * w + x)))"
    by (simp only: sh vesa_get_pixel_def Let_def with_mem_simps addr w(5,6))
  show ?thesis
  proof (cases "y < r")
    case True
    have "(y + 1) * w \<le> r * w" using True by (intro mult_right_mono) simp_all
    then have "y * w + x < r * w" using w(7) by simp
    moreover have "?b + of_nat (4 * ((y + s) * w + x)) + t = ?b + of_nat (4 * (y * w + x)) + t + of_nat (s * (4 * w))" for t
      by (simp add: algebra_simps)
    ultimately have "load32 (rows_up ?m ?b (s * (4 * w)) (r * (4 * w))) (?b + of_nat (4 * (y * w + x)))
        = load32 ?m (?b + of_nat (4 * ((y + s) * w + x)))"
      by (intro load32_moved) (simp only: rows_up_def blk if_True)
    moreover have "vesa_get_pixel dev i (j + n) = load32 ?m (?b + of_nat (4 * ((y + s) * w + x)))"
      unfolding w(2,5,6) of_nat_add [symmetric] by (simp only: vesa_get_pixel_def Let_def addr)
    ultimately show ?thesis using load True w by simp
  next
    case False
    then have "r * w \<le> y * w + x" by (simp add: trans_le_add1)
    then have "\<not> y * w + x < r * w" by (simp only: not_less)
    then have "load32 (rows_up ?m ?b (s * (4 * w)) (r * (4 * w))) (?b + of_nat (4 * (y * w + x)))
        = load32 ?m (?b + of_nat (4 * (y * w + x)))"
      by (intro load32_moved) (simp only: rows_up_def blk if_False)
    moreover have "vesa_get_pixel dev i j = load32 ?m (?b + of_nat (4 * (y * w + x)))"
      by (simp only: vesa_get_pixel_def Let_def addr w(5,6))
    ultimately show ?thesis using load False w by simp
  qed
qed

section \<open>Copying to the screen\<close>

text \<open>\<open>h\<close> lines of \<open>c\<close> bytes, \<open>k\<close> bytes apart, from offset \<open>off\<close> of the source to that of the target.\<close>

definition in_lines :: "u32 \<Rightarrow> u32 \<Rightarrow> nat \<Rightarrow> nat \<Rightarrow> nat \<Rightarrow> nat \<Rightarrow> bool" where
  "in_lines a d off h k c \<longleftrightarrow> (\<exists>l < h. in_block a (d + of_nat (off + l * k)) c)"

lemma in_lines_Suc: "in_lines a d off (Suc h) k c \<longleftrightarrow> in_block a (d + of_nat off) c \<or> in_lines a d (off + k) h k c"
  unfolding in_lines_def Ex_less_Suc2 by (simp add: algebra_simps)

lemma in_lines_block:
  assumes "in_lines a d off h k c" "\<And>l. l < h \<Longrightarrow> off + l * k + c \<le> n" "n \<le> 2147483648"
  shows "in_block a d n"
proof -
  obtain l where l: "l < h" "in_block a (d + of_nat (off + l * k)) c" using assms(1) by (auto simp: in_lines_def)
  have "off + l * k + c \<le> n" by (rule assms(2) [OF l(1)])
  moreover have "in_block a d (off + l * k + c)"
    using l(2) calculation assms(3) in_block_split [of "off + l * k" c a d] by simp
  ultimately show ?thesis using in_block_mono by blast
qed

lemma memblit_lines_eq:
  assumes "apart d s n" "n \<le> 2147483648" "\<And>l. l < h \<Longrightarrow> off + l * k + c \<le> n"
  shows "memblit_lines h m (d + of_nat off) (s + of_nat off) (of_nat k) (of_nat c)
    = (\<lambda>a. if in_lines a d off h k c then m (s + (a - d)) else m a)"
  using assms(3)
proof (induction h arbitrary: m off)
  case 0
  then show ?case by (simp add: in_lines_def)
next
  case (Suc h)
  let ?m = "memcpy m (d + of_nat off) (s + of_nat off) (of_nat c)"
  have c: "off + c \<le> n" using Suc.prems [of 0] by simp
  have len: "unat (of_nat c :: u32) = c" using c assms(2) by (intro unat_of_nat_u32) simp
  have ap: "apart (d + of_nat off) (s + of_nat off) c"
    by (rule apart_shift [OF apart_mono [OF assms(1) c]]) (use c assms(2) in simp)
  have m: "?m = copied m (d + of_nat off) (s + of_nat off) c" using memcpy_eq [of "d + of_nat off" "s + of_nat off" "of_nat c" m] ap len by simp
  have rest: "off + k + l * k + c \<le> n" if "l < h" for l using Suc.prems [of "Suc l"] that by (simp add: algebra_simps)
  have "memblit_lines (Suc h) m (d + of_nat off) (s + of_nat off) (of_nat k) (of_nat c)
      = memblit_lines h ?m (d + of_nat (off + k)) (s + of_nat (off + k)) (of_nat k) (of_nat c)"
    by (simp add: algebra_simps)
  also have "\<dots> = (\<lambda>a. if in_lines a d (off + k) h k c then ?m (s + (a - d)) else ?m a)"
    by (rule Suc.IH [OF rest])
  also have "\<dots> = (\<lambda>a. if in_lines a d off (Suc h) k c then m (s + (a - d)) else m a)"
  proof
    fix a
    have e: "s + of_nat off + (a - (d + of_nat off)) = s + (a - d)" by simp
    show "(if in_lines a d (off + k) h k c then ?m (s + (a - d)) else ?m a)
        = (if in_lines a d off (Suc h) k c then m (s + (a - d)) else m a)"
    proof (cases "in_lines a d (off + k) h k c")
      case True
      have "in_block a d n" by (rule in_lines_block [OF True rest assms(2)])
      then have "in_block (s + (a - d)) s n" by (simp add: in_block_def)
      then have "\<not> in_block (s + (a - d)) d n" using assms(1) by (auto simp: apart_def)
      moreover have "in_block b d n" if "in_block b (d + of_nat off) c" for b
        using that c assms(2) in_block_split [of off c b d] in_block_mono by auto
      ultimately have "?m (s + (a - d)) = m (s + (a - d))" unfolding m copied_def by auto
      then show ?thesis using True by (simp add: in_lines_Suc)
    next
      case False
      then show ?thesis unfolding m copied_def e in_lines_Suc by simp
    qed
  qed
  finally show ?case .
qed

lemma vesa_invalidate_eq:
  assumes "vesa_ok dev" "fits_fb dev x y w h"
  shows "vesa_invalidate dev x y w h = with_mem dev (\<lambda>a.
    if in_lines a (framebuffer (vp (fbpriv dev))) (4 * pix dev x y) (nat h) (4 * nat (fbwidth dev)) (4 * nat w)
    then vmem (fbpriv dev) (backbuffer (vp (fbpriv dev)) + (a - framebuffer (vp (fbpriv dev)))) else vmem (fbpriv dev) a)" (is ?eq)
    and "l < nat h \<Longrightarrow> 4 * pix dev x y + l * (4 * nat (fbwidth dev)) + 4 * nat w \<le> nat (4 * (fbwidth dev * fbheight dev))"
proof -
  let ?v = "vp (fbpriv dev)" and ?m = "vmem (fbpriv dev)"
  have ok: "vwidth ?v = fbwidth dev" "bits_per_pixel ?v = 32" "bytes_per_pixel ?v = 4" "0 < fbwidth dev" "0 < fbheight dev"
    "nat (4 * (fbwidth dev * fbheight dev)) \<le> 2147483648"
    "apart (framebuffer ?v) (backbuffer ?v) (nat (4 * (fbwidth dev * fbheight dev)))"
    using assms(1) by (simp_all add: vesa_ok_def Let_def)
  have fits: "0 \<le> x" "0 \<le> y" "0 \<le> w" "0 \<le> h" "h = 0 \<or> (y + h - 1) * fbwidth dev + x + w \<le> fbwidth dev * fbheight dev"
    using assms(2) by (simp_all add: fits_fb_def)
  have bound: "4 * pix dev x y + l * (4 * nat (fbwidth dev)) + 4 * nat w \<le> nat (4 * (fbwidth dev * fbheight dev))"
    if l: "l < nat h" for l
  proof -
    have "int l \<le> h - 1" using l by linarith
    then have "(y + int l) * fbwidth dev \<le> (y + h - 1) * fbwidth dev" using ok(4) by (intro mult_right_mono) auto
    then have "(y + int l) * fbwidth dev + x + w \<le> fbwidth dev * fbheight dev" using fits(5) l by auto
    then have "4 * (y * fbwidth dev + x) + int l * (4 * fbwidth dev) + 4 * w \<le> 4 * (fbwidth dev * fbheight dev)"
      by (simp add: algebra_simps)
    moreover have "int (4 * pix dev x y + l * (4 * nat (fbwidth dev)) + 4 * nat w)
        = 4 * (y * fbwidth dev + x) + int l * (4 * fbwidth dev) + 4 * w"
      using fits ok(4) by (simp add: pix_def)
    ultimately show ?thesis by linarith
  qed
  show "l < nat h \<Longrightarrow> 4 * pix dev x y + l * (4 * nat (fbwidth dev)) + 4 * nat w \<le> nat (4 * (fbwidth dev * fbheight dev))"
    by (rule bound)
  have off: "word_of_int x * word_of_int 4 + word_of_int y * (word_of_int (fbwidth dev) * word_of_int 4) = (of_nat (4 * pix dev x y) :: u32)"
  proof -
    have "x * 4 + y * (fbwidth dev * 4) = int (4 * pix dev x y)" using fits ok(4) by (simp add: pix_def)
    then show ?thesis by (simp only: of_int_mult [symmetric] of_int_add [symmetric] of_int_of_nat_eq)
  qed
  have k: "word_of_int (fbwidth dev) * word_of_int 4 = (of_nat (4 * nat (fbwidth dev)) :: u32)"
    "word_of_int w * word_of_int 4 = (of_nat (4 * nat w) :: u32)" using ok(4) fits(3) by simp_all
  have h: "unat (word_of_int h :: u32) = nat h"
  proof -
    have "fbwidth dev * 1 \<le> fbwidth dev * fbheight dev" "1 * fbheight dev \<le> fbwidth dev * fbheight dev"
      using ok(4,5) by (intro mult_mono; simp)+
    moreover have "(h - 1) * 1 \<le> (y + h - 1) * fbwidth dev" if "h \<noteq> 0" using that fits(2,4) ok(4) by (intro mult_mono) auto
    ultimately have up: "h \<noteq> 0 \<Longrightarrow> h - 1 \<le> (y + h - 1) * fbwidth dev" by simp
    have "h \<le> fbwidth dev * fbheight dev + 1"
    proof (cases "h = 0")
      case True
      have "0 < fbwidth dev * fbheight dev" using ok(4,5) by simp
      then show ?thesis using True by simp
    next
      case False
      then have "(y + h - 1) * fbwidth dev + x + w \<le> fbwidth dev * fbheight dev" using fits(5) by simp
      then show ?thesis using up [OF False] fits(1,3) by linarith
    qed
    moreover have "4 * (fbwidth dev * fbheight dev) \<le> 2147483648" using ok(6) by (simp add: nat_le_iff)
    ultimately have "h < 4294967296" by linarith
    then have "nat h < 4294967296" by simp
    then show ?thesis using fits(4) by (metis int_nat_eq of_int_of_nat_eq unat_of_nat_u32)
  qed
  have "memblit ?m (framebuffer ?v) (backbuffer ?v) (word_of_int (fbwidth dev)) (word_of_int (vheight ?v))
        (word_of_int 4) (word_of_int x) (word_of_int y) (word_of_int w) (word_of_int h)
      = memblit_lines (nat h) ?m (framebuffer ?v + of_nat (4 * pix dev x y)) (backbuffer ?v + of_nat (4 * pix dev x y))
          (of_nat (4 * nat (fbwidth dev))) (of_nat (4 * nat w))"
    unfolding memblit_def Let_def off unfolding k h ..
  also have "\<dots> = (\<lambda>a. if in_lines a (framebuffer ?v) (4 * pix dev x y) (nat h) (4 * nat (fbwidth dev)) (4 * nat w)
      then ?m (backbuffer ?v + (a - framebuffer ?v)) else ?m a)"
    by (rule memblit_lines_eq [OF ok(7,6) bound])
  finally show ?eq using ok(1-3) by (simp add: vesa_invalidate_def Let_def)
qed

text \<open>What the monitor shows: the pixel in the framebuffer itself.\<close>

definition vesa_screen :: "vesa_state fbdev \<Rightarrow> int \<Rightarrow> int \<Rightarrow> u32" where
  "vesa_screen dev x y = (let v = vp (fbpriv dev) in load32 (vmem (fbpriv dev)) (pixel_addr v (framebuffer v) x y))"

lemma vesa_get_invalidate:
  assumes "vesa_ok dev" "fits_fb dev x y w h" "on_fb dev i j"
  shows "vesa_get_pixel (vesa_invalidate dev x y w h) i j = vesa_get_pixel dev i j"
proof -
  let ?v = "vp (fbpriv dev)" and ?n = "nat (4 * (fbwidth dev * fbheight dev))"
  have n: "?n \<le> 2147483648" "apart (framebuffer ?v) (backbuffer ?v) ?n" using assms(1) by (simp_all add: vesa_ok_def Let_def)
  have addr: "pixel_addr ?v (backbuffer ?v) i j = backbuffer ?v + of_nat (4 * pix dev i j)"
    using assms by (auto intro!: pixel_addr_pix simp: on_fb_def simp del: of_nat_mult)
  have lt: "4 * pix dev i j + 4 \<le> 2147483648" using pix_less [OF assms(3)] n(1) by (simp add: nat_mult_distrib)
  have "\<not> in_lines (backbuffer ?v + of_nat (4 * pix dev i j) + t) (framebuffer ?v) (4 * pix dev x y) (nat h) (4 * nat (fbwidth dev)) (4 * nat w)"
    if t: "t < 4" for t
  proof
    let ?a = "backbuffer ?v + of_nat (4 * pix dev i j) + t"
    assume l: "in_lines ?a (framebuffer ?v) (4 * pix dev x y) (nat h) (4 * nat (fbwidth dev)) (4 * nat w)"
    have "in_block ?a (framebuffer ?v) ?n"
      by (rule in_lines_block [OF l vesa_invalidate_eq(2) [OF assms(1,2)] n(1)])
    moreover have "?n = 4 * nat (fbwidth dev * fbheight dev)" by (simp add: nat_mult_distrib)
    then have "in_block ?a (backbuffer ?v) ?n"
      using in_block_pixel [OF t lt] pix_less [OF assms(3)] by simp
    ultimately show False using n(2) by (auto simp: apart_def)
  qed
  then show ?thesis unfolding vesa_invalidate_eq(1) [OF assms(1,2)] vesa_get_pixel_def Let_def with_mem_simps addr
    by (intro load32_moved) simp
qed

interpretation vesa: pixel_display vesa_ops vesa_ok
proof unfold_locales
  fix fb :: "vesa_state fbdev" and x y i j w h n :: int and c
  show "vesa_ok fb \<Longrightarrow> on_fb fb x y \<Longrightarrow> vesa_ok (put_pixel vesa_ops fb x y c) \<and> same_mode fb (put_pixel vesa_ops fb x y c)"
    by (simp add: vesa_ops_def vesa_put_pixel_def Let_def)
  show "vesa_ok fb \<Longrightarrow> on_fb fb x y \<Longrightarrow> on_fb fb i j \<Longrightarrow>
      get_pixel vesa_ops (put_pixel vesa_ops fb x y c) i j = (if i = x \<and> j = y then c else get_pixel vesa_ops fb i j)"
    using vesa_get_put by (simp add: vesa_ops_def)
  show "vesa_ok fb \<Longrightarrow> fits_fb fb x y w h \<Longrightarrow>
      vesa_ok (fb_invalidate vesa_ops fb x y w h) \<and> same_mode fb (fb_invalidate vesa_ops fb x y w h)"
    by (simp add: vesa_ops_def vesa_invalidate_eq(1))
  show "vesa_ok fb \<Longrightarrow> fits_fb fb x y w h \<Longrightarrow> on_fb fb i j \<Longrightarrow>
      get_pixel vesa_ops (fb_invalidate vesa_ops fb x y w h) i j = get_pixel vesa_ops fb i j"
    using vesa_get_invalidate by (simp add: vesa_ops_def)
  show "vesa_ok fb \<Longrightarrow> 0 < n \<Longrightarrow> n \<le> fbheight fb \<Longrightarrow> vesa_ok (shift vesa_ops fb n) \<and> same_mode fb (shift vesa_ops fb n)"
    by (simp add: vesa_ops_def vesa_shift_def Let_def)
  show "vesa_ok fb \<Longrightarrow> 0 < n \<Longrightarrow> n \<le> fbheight fb \<Longrightarrow> on_fb fb i j \<Longrightarrow>
      get_pixel vesa_ops (shift vesa_ops fb n) i j = get_pixel vesa_ops fb i (if j + n < fbheight fb then j + n else j)"
    using vesa_get_shift by (simp add: vesa_ops_def)
qed

lemma in_block_pixels:
  assumes "t < 4" "4 * p + 4 \<le> 2147483648" "4 * (q + n) \<le> 2147483648"
  shows "in_block (b + of_nat (4 * p) + t) (b + of_nat (4 * q)) (4 * n) \<longleftrightarrow> q \<le> p \<and> p < q + n"
proof (cases "q \<le> p")
  case True
  have "b + of_nat (4 * p) + t = (b + of_nat (4 * q)) + of_nat (4 * (p - q)) + t"
    using True by (simp add: algebra_simps of_nat_diff)
  then show ?thesis using in_block_pixel [OF assms(1), of "p - q" "b + of_nat (4 * q)" n] assms(2) True by auto
next
  case False
  have "\<not> in_block (b + of_nat (4 * p) + t) (b + of_nat (4 * q)) (4 * n)"
  proof
    assume "in_block (b + of_nat (4 * p) + t) (b + of_nat (4 * q)) (4 * n)"
    moreover have "in_block (b + of_nat (4 * p) + t) b (4 * q)"
      using in_block_pixel [OF assms(1,2), of b q] False by simp
    ultimately show False using in_block_split_excl [of "4 * q" "4 * n" "b + of_nat (4 * p) + t" b] assms(3) by simp
  qed
  then show ?thesis using False by simp
qed

lemma in_lines_rectangle:
  assumes "t < 4" "on_fb dev i j" "nat (4 * (fbwidth dev * fbheight dev)) \<le> 2147483648"
    and "0 \<le> x" "0 \<le> y" "0 \<le> w" "0 \<le> h" "x + w \<le> fbwidth dev" "y + h \<le> fbheight dev"
  shows "in_lines (b + of_nat (4 * pix dev i j) + t) b (4 * pix dev x y) (nat h) (4 * nat (fbwidth dev)) (4 * nat w)
    \<longleftrightarrow> x \<le> i \<and> i < x + w \<and> y \<le> j \<and> j < y + h"
proof -
  define W H i' j' x' y' w' h' where "W = nat (fbwidth dev)" and "H = nat (fbheight dev)" and "i' = nat i" and "j' = nat j"
    and "x' = nat x" and "y' = nat y" and "w' = nat w" and "h' = nat h"
  have n: "fbwidth dev = int W" "fbheight dev = int H" "i = int i'" "j = int j'" "x = int x'" "y = int y'" "w = int w'" "h = int h'"
    "i' < W" "j' < H" "x' + w' \<le> W" "y' + h' \<le> H"
    using assms by (simp_all add: W_def H_def i'_def j'_def x'_def y'_def w'_def h'_def on_fb_def)
  have px: "pix dev (int a) (int b) = b * W + a" for a b by (simp add: pix_def n(1) nat_add_distrib nat_mult_distrib)
  have "nat (4 * (fbwidth dev * fbheight dev)) = 4 * (H * W)" by (simp add: n nat_mult_distrib)
  then have size: "4 * (H * W) \<le> 2147483648" using assms(3) by simp
  have row: "r * W + a + c \<le> H * W" if "r < H" "a + c \<le> W" for r a c
  proof -
    have "(r + 1) * W \<le> H * W" using that(1) by (intro mult_right_mono) simp_all
    then show ?thesis using that(2) by simp
  qed
  have p: "4 * (j' * W + i') + 4 \<le> 2147483648"
    by (rule four_times_bound [OF _ size]) (use row [of j' i' 1] n in simp)
  have "in_block (b + of_nat (4 * (j' * W + i')) + t) (b + of_nat (4 * (y' * W + x') + l * (4 * W))) (4 * w')
      \<longleftrightarrow> j' = y' + l \<and> x' \<le> i' \<and> i' < x' + w'" if l: "l < h'" for l
  proof -
    have q: "4 * (y' * W + x') + l * (4 * W) = 4 * ((y' + l) * W + x')" by (simp add: algebra_simps)
    have "4 * ((y' + l) * W + x' + w') \<le> 4 * (H * W)" using row [of "y' + l" x' w'] l n by (intro mult_left_mono) simp_all
    then have "in_block (b + of_nat (4 * (j' * W + i')) + t) (b + of_nat (4 * (y' * W + x') + l * (4 * W))) (4 * w')
        \<longleftrightarrow> (y' + l) * W + x' \<le> j' * W + i' \<and> j' * W + i' < (y' + l) * W + x' + w'"
      unfolding q by (intro in_block_pixels [OF assms(1) p]) (use size in linarith)
    also have "\<dots> \<longleftrightarrow> j' = y' + l \<and> x' \<le> i' \<and> i' < x' + w'"
    proof
      assume a: "(y' + l) * W + x' \<le> j' * W + i' \<and> j' * W + i' < (y' + l) * W + x' + w'"
      then have "j' * W + i' < (y' + l) * W + W" using n(11) by linarith
      then have "j' * W < (y' + l + 1) * W" by simp
      then have "j' < y' + l + 1" by (simp only: mult_less_cancel2)
      moreover have "(y' + l) * W < (j' + 1) * W" using a n(9) by simp
      then have "y' + l < j' + 1" by (simp only: mult_less_cancel2)
      ultimately have "j' = y' + l" by simp
      then show "j' = y' + l \<and> x' \<le> i' \<and> i' < x' + w'" using a by simp
    qed simp
    finally show ?thesis .
  qed
  then have "in_lines (b + of_nat (4 * pix dev i j) + t) b (4 * pix dev x y) (nat h) (4 * nat (fbwidth dev)) (4 * nat w)
      \<longleftrightarrow> (\<exists>l < h'. j' = y' + l \<and> x' \<le> i' \<and> i' < x' + w')"
    unfolding in_lines_def by (simp only: n px nat_int cong: conj_cong)
  also have "\<dots> \<longleftrightarrow> x' \<le> i' \<and> i' < x' + w' \<and> y' \<le> j' \<and> j' < y' + h'" by presburger
  finally show ?thesis unfolding n nat_int of_nat_add [symmetric] of_nat_le_iff of_nat_less_iff .
qed

lemma sep4_disjoint:
  assumes "\<And>s t. s < 4 \<Longrightarrow> t < 4 \<Longrightarrow> a + s \<noteq> b + t"
  shows "sep4 a b"
proof -
  have "\<not> b - a < 4" using assms [of "b - a" 0] by auto
  moreover have "\<not> a - b < 4" using assms [of 0 "a - b"] by auto
  ultimately show ?thesis by (simp add: sep4_def not_less)
qed


text \<open>A screen of two by two pixels.\<close>

definition tiny_vesa :: "vesa_state fbdev" where
  "tiny_vesa = \<lparr>fbwidth = 2, fbheight = 2, fbbpp = 32, fbpriv = \<lparr>vp = \<lparr>vwidth = 2, vheight = 2, bits_per_pixel = 32,
     bytes_per_pixel = 4, pitch = 8, framebuffer = 0x1000, backbuffer = 0x2000\<rparr>, vmem = (\<lambda>_. 0)\<rparr>\<rparr>"

lemma tiny_vesa_ok: "vesa_ok tiny_vesa"
proof -
  have "apart 0x1000 0x2000 16"
    unfolding apart_def in_block_def unat_diff_u32 by auto
  then show ?thesis by (simp add: vesa_ok_def tiny_vesa_def)
qed


end
