(* ===== verification/Fbcon.thy ===== *)
theory Fbcon
  imports Console Vesa
begin

text \<open>
  The framebuffer console (\<open>kern/io/fbcon.c\<close>, \<open>fbcon.h\<close>) on any framebuffer of theory
  Framebuffer. A bitmap is a memory of bytes indexed from a pointer, with no bounds; a character
  has its signed value. The characters it draws make a text display in the sense of theory
  Console, apart from the cursor, which is drawn into the picture.
\<close>

section \<open>The code\<close>

record fbcon_font =
  data :: "int \<Rightarrow> u8"
  char_width :: u8
  char_width_bytes :: u8
  char_height :: u8

record 'f fbcon_priv =
  fb :: "'f fbdev"
  fg_colour :: u32
  bg_colour :: u32
  colour_map :: "u32 list"
  font :: fbcon_font
  cursor_x :: int
  cursor_y :: int
  cursor_bitmap :: "int \<Rightarrow> u8"

type_synonym 'f fbcon = "'f fbcon_priv con"

definition on_fbcon :: "('f fbdev \<Rightarrow> 'f fbdev) \<Rightarrow> 'f fbcon \<Rightarrow> 'f fbcon" where
  "on_fbcon f con = con\<lparr>priv := (priv con)\<lparr>fb := f (fb (priv con))\<rparr>\<rparr>"

definition fb_mask :: "int list" where
  "fb_mask = [128, 64, 32, 16, 8, 4, 2, 1]"

definition bitmap_bit :: "(int \<Rightarrow> u8) \<Rightarrow> int \<Rightarrow> int \<Rightarrow> int \<Rightarrow> bool" where
  "bitmap_bit bitmap wbytes x y =
     (let idx = y * wbytes + drop_bit 3 x; off = x AND 7
      in uint (bitmap idx) AND fb_mask ! nat off \<noteq> 0)"

definition fb_put_bitmap ::
  "'f fb_ops \<Rightarrow> int \<Rightarrow> int \<Rightarrow> int \<Rightarrow> int \<Rightarrow> int \<Rightarrow> u32 \<Rightarrow> u32 \<Rightarrow> (int \<Rightarrow> u8) \<Rightarrow> 'f fbcon \<Rightarrow> 'f fbcon" where
  "fb_put_bitmap fops px_x px_y width height wbytes fg bg bitmap =
     on_fbcon (fold (\<lambda>y. fold (\<lambda>x fb.
       put_pixel fops fb (px_x + int x) (px_y + int y) (if bitmap_bit bitmap wbytes (int x) (int y) then fg else bg))
         [0..<nat width]) [0..<nat height])"

definition fb_putxy :: "'f fb_ops \<Rightarrow> 'f fbcon \<Rightarrow> int \<Rightarrow> int \<Rightarrow> u8 \<Rightarrow> 'f fbcon outcome" where
  "fb_putxy fops con x_base y_base c =
     (let con = (if cursor_x (priv con) = x_base \<and> cursor_y (priv con) = y_base
            then con\<lparr>priv := (priv con)\<lparr>cursor_x := -1, cursor_y := -1\<rparr>\<rparr> else con);
          p = priv con; f = font p;
          width = uint (char_width f); height = uint (char_height f); wbytes = uint (char_width_bytes f)
      in Inr (fb_put_bitmap fops (x_base * width) (y_base * height) width height wbytes (fg_colour p) (bg_colour p)
           (\<lambda>i. data f (height * wbytes * (sint c - 32) + i)) con))"

definition fbcon_invalidate :: "'f fb_ops \<Rightarrow> 'f fbcon \<Rightarrow> int \<Rightarrow> int \<Rightarrow> int \<Rightarrow> int \<Rightarrow> 'f fbcon outcome" where
  "fbcon_invalidate fops con x y width height =
     (let w = uint (char_width (font (priv con))); h = uint (char_height (font (priv con)))
      in Inr (on_fbcon (\<lambda>f. fb_invalidate fops f (x * w) (y * h) (width * w) (height * h)) con))"

definition fb_set_cursor :: "'f fb_ops \<Rightarrow> 'f fbcon \<Rightarrow> int \<Rightarrow> int \<Rightarrow> 'f fbcon outcome" where
  "fb_set_cursor fops con x y =
     (let old_x = cursor_x (priv con); old_y = cursor_y (priv con) in
      bind_outcome
        (if old_x \<noteq> -1 \<and> old_y \<noteq> -1
         then bind_outcome (fb_putxy fops con old_x old_y 32) (\<lambda>con. fbcon_invalidate fops con old_x old_y 1 1)
         else Inr con)
        (\<lambda>con. let p = priv con; f = font p;
             width = uint (char_width f); height = uint (char_height f);
             con = fb_put_bitmap fops (x * width) (y * height) width height (uint (char_width_bytes f))
               (fg_colour p) (bg_colour p) (cursor_bitmap p) con
           in bind_outcome (fbcon_invalidate fops con x y 1 1) (\<lambda>con.
             Inr (con\<lparr>priv := (priv con)\<lparr>cursor_x := x, cursor_y := y\<rparr>\<rparr>))))"

definition base_colour_map :: "u32 list" where
  "base_colour_map = [0x000000, 0x0000ff, 0x00ff00, 0x008b8b, 0xff0000, 0x800080, 0x964b00, 0x808080,
     0x696969, 0x87cefa, 0x90ee90, 0x00ffff, 0xfa8072, 0xff00ff, 0xffff00, 0xffffff]"

definition fb_set_colour :: "'f fbcon \<Rightarrow> u16 \<Rightarrow> 'f fbcon outcome" where
  "fb_set_colour con colour =
     (let fg = colour AND 0xf; bg = drop_bit 4 colour AND 0xf; p = priv con
      in Inr (con\<lparr>priv := p\<lparr>bg_colour := colour_map p ! unat bg, fg_colour := colour_map p ! unat fg\<rparr>\<rparr>))"

definition fb_clear :: "'f fb_ops \<Rightarrow> 'f fbcon \<Rightarrow> 'f fbcon outcome" where
  "fb_clear fops con =
     (let width = fbwidth (fb (priv con)); height = fbheight (fb (priv con)) in
      Inr (on_fbcon (\<lambda>f. fb_invalidate fops (fold (\<lambda>y. fold (\<lambda>x fb. put_pixel fops fb (int x) (int y) (bg_colour (priv con)))
        [0..<nat width]) [0..<nat height] f) 0 0 width height) con))"

definition fbcon_draws :: "'f fb_ops \<Rightarrow> 'f fbcon_priv draws" where
  "fbcon_draws fops = \<lparr>put_xy = fb_putxy fops, set_cursor = fb_set_cursor fops, set_colour = fb_set_colour,
     invalidate = fbcon_invalidate fops, clear = fb_clear fops\<rparr>"

definition fb_scroll :: "'f fb_ops \<Rightarrow> 'f fbcon \<Rightarrow> 'f fbcon outcome" where
  "fb_scroll fops con =
     (let con = on_fbcon (\<lambda>f. shift fops f (uint (char_height (font (priv con))))) con
      in console_clear_row (fbcon_draws fops) (y_pos con) con)"

definition fbcon_ops :: "'f fb_ops \<Rightarrow> 'f fbcon_priv console_ops" where
  "fbcon_ops fops = draws.extend (fbcon_draws fops) \<lparr>scroll = fb_scroll fops\<rparr>"

text \<open>\<open>kallocz\<close> returns the bitmap zeroed; one byte per row has the bar of the cursor.\<close>

definition fbcon_gencursor :: "'f fbcon \<Rightarrow> 'f fbcon" where
  "fbcon_gencursor con =
     (let f = font (priv con);
          bmp = fold (\<lambda>i b. b(int i * uint (char_width_bytes f) := 0x40)) [0..<unat (char_height f)] (\<lambda>_. 0)
      in con\<lparr>priv := (priv con)\<lparr>cursor_bitmap := bmp\<rparr>\<rparr>)"

text \<open>The division by a zero font width or height is a trap.\<close>

definition fbcon_dimensions :: "'f fbcon \<Rightarrow> 'f fbcon outcome" where
  "fbcon_dimensions con =
     (let f = font (priv con) in
      if char_width f = 0 \<or> char_height f = 0 then Inl WildAccess
      else Inr (con\<lparr>cwidth := fbwidth (fb (priv con)) div uint (char_width f),
        cheight := fbheight (fb (priv con)) div uint (char_height f)\<rparr>))"

definition fbcon_resize :: "'f fb_ops \<Rightarrow> 'f fbcon \<Rightarrow> 'f fbcon outcome" where
  "fbcon_resize fops con =
     bind_outcome (fbcon_dimensions con) (\<lambda>con'.
       if cwidth con' = cwidth con \<and> cheight con' = cheight con then Inr con'
       else console_clear (fbcon_ops fops) con')"

datatype fbcon_setparam_id =
    FBCON_SETPARAM_COLOURSCHEME "u32 list"
  | FBCON_SETPARAM_FONT fbcon_font
  | FBCON_SETPARAM_RESIZE

definition fbcon_setparam :: "'f fb_ops \<Rightarrow> 'f fbcon \<Rightarrow> fbcon_setparam_id \<Rightarrow> (int \<times> 'f fbcon) outcome" where
  "fbcon_setparam fops con param =
     bind_outcome
       (case param of
          FBCON_SETPARAM_COLOURSCHEME cs \<Rightarrow> Inr (con\<lparr>priv := (priv con)\<lparr>colour_map := take 16 cs\<rparr>\<rparr>)
        | FBCON_SETPARAM_FONT f \<Rightarrow>
            bind_outcome (fbcon_dimensions (con\<lparr>priv := (priv con)\<lparr>font := f\<rparr>\<rparr>)) (\<lambda>con.
              console_clear (fbcon_ops fops) (fbcon_gencursor con))
        | FBCON_SETPARAM_RESIZE \<Rightarrow> Inr con)
       (\<lambda>con. Inr (0, con))"

text \<open>Types of device and change are the integers of \<open>driver.h\<close>.\<close>

definition fbcon_inform :: "'f fb_ops \<Rightarrow> 'f fbcon \<Rightarrow> int \<Rightarrow> int \<Rightarrow> int \<Rightarrow> (int \<times> 'f fbcon) outcome" where
  "fbcon_inform fops con sender_type change change_id =
     bind_outcome (if sender_type = 2 \<and> change = 0 \<and> change_id = FBDEV_CHANGE_RESOLUTION then fbcon_resize fops con else Inr con)
       (\<lambda>con. Inr (0, con))"

definition fbcon_create :: "'f fb_ops \<Rightarrow> (int \<Rightarrow> u8) \<Rightarrow> 'f fbdev \<Rightarrow> 'f fbcon outcome" where
  "fbcon_create fops font_cherry dev =
     (let f = \<lparr>data = font_cherry, char_width = 7, char_width_bytes = 1, char_height = 13\<rparr>;
          con = \<lparr>x_pos = 0, y_pos = 0, cwidth = 0, cheight = 0, priv = \<lparr>fb = dev,
            fg_colour = base_colour_map ! 15, bg_colour = base_colour_map ! 1, colour_map = base_colour_map,
            font = f, cursor_x = -1, cursor_y = -1, cursor_bitmap = (\<lambda>_. 0)\<rparr>\<rparr>
      in bind_outcome (fbcon_dimensions (fbcon_gencursor con)) (console_clear (fbcon_ops fops)))"

section \<open>Cells of pixels\<close>

abbreviation fwidth :: "'f fbcon \<Rightarrow> int" where "fwidth con \<equiv> uint (char_width (font (priv con)))"
abbreviation fheight :: "'f fbcon \<Rightarrow> int" where "fheight con \<equiv> uint (char_height (font (priv con)))"
abbreviation fbytes :: "'f fbcon \<Rightarrow> int" where "fbytes con \<equiv> uint (char_width_bytes (font (priv con)))"

text \<open>The rows of pixels of a bitmap in the current colours, and those of a cell.\<close>

definition bitmap_cell :: "'f fbcon \<Rightarrow> (int \<Rightarrow> u8) \<Rightarrow> u32 list list" where
  "bitmap_cell con bitmap = map (\<lambda>y. map (\<lambda>x. if bitmap_bit bitmap (fbytes con) (int x) (int y)
     then fg_colour (priv con) else bg_colour (priv con)) [0..<nat (fwidth con)]) [0..<nat (fheight con)]"

definition char_bitmap :: "'f fbcon \<Rightarrow> u8 \<Rightarrow> int \<Rightarrow> u8" where
  "char_bitmap con c = (\<lambda>i. data (font (priv con)) (fheight con * fbytes con * (sint c - 32) + i))"

definition fbcon_glyph :: "'f fbcon \<Rightarrow> u8 \<Rightarrow> u32 list list" where
  "fbcon_glyph con c = bitmap_cell con (char_bitmap con c)"

definition fbcon_cell :: "'f fb_ops \<Rightarrow> 'f fbcon \<Rightarrow> int \<Rightarrow> int \<Rightarrow> u32 list list" where
  "fbcon_cell fops con i j = map (\<lambda>y. map (\<lambda>x. get_pixel fops (fb (priv con)) (i * fwidth con + int x) (j * fheight con + int y))
     [0..<nat (fwidth con)]) [0..<nat (fheight con)]"

definition fbcon_ok :: "('f fbdev \<Rightarrow> bool) \<Rightarrow> 'f fbcon \<Rightarrow> bool" where
  "fbcon_ok ok con \<longleftrightarrow> ok (fb (priv con)) \<and> 0 < fwidth con \<and> 0 < fheight con \<and> 0 < cwidth con \<and> 0 < cheight con \<and>
     cwidth con * fwidth con \<le> fbwidth (fb (priv con)) \<and> cheight con * fheight con \<le> fbheight (fb (priv con)) \<and>
     (\<forall>x < nat (fwidth con). \<forall>y < nat (fheight con). \<not> bitmap_bit (char_bitmap con 32) (fbytes con) (int x) (int y))"

lemma on_fbcon_simps [simp]:
  "x_pos (on_fbcon f con) = x_pos con" "y_pos (on_fbcon f con) = y_pos con"
  "cwidth (on_fbcon f con) = cwidth con" "cheight (on_fbcon f con) = cheight con"
  "fb (priv (on_fbcon f con)) = f (fb (priv con))" "font (priv (on_fbcon f con)) = font (priv con)"
  "fg_colour (priv (on_fbcon f con)) = fg_colour (priv con)" "bg_colour (priv (on_fbcon f con)) = bg_colour (priv con)"
  "cursor_x (priv (on_fbcon f con)) = cursor_x (priv con)" "cursor_y (priv (on_fbcon f con)) = cursor_y (priv con)"
  "cursor_bitmap (priv (on_fbcon f con)) = cursor_bitmap (priv con)"
  "bitmap_cell (on_fbcon f con) = bitmap_cell con" "char_bitmap (on_fbcon f con) = char_bitmap con"
  "fbcon_glyph (on_fbcon f con) = fbcon_glyph con" "same_geometry con (on_fbcon f con)"
  by (simp_all add: on_fbcon_def bitmap_cell_def char_bitmap_def fbcon_glyph_def fun_eq_iff same_geometry_def del: same_geometryD)

lemma fbcon_ok_on:
  assumes "fbcon_ok ok con" "ok (f (fb (priv con)))" "same_mode (fb (priv con)) (f (fb (priv con)))"
  shows "fbcon_ok ok (on_fbcon f con)"
  using assms unfolding fbcon_ok_def by (simp add: same_mode_def)

text \<open>A pixel of cell \<open>i\<close> lies in the span of cell \<open>x\<close> only if the cells are the same.\<close>

lemma cell_span:
  fixes w :: int
  assumes "0 \<le> d" "d < w"
  shows "x * w \<le> i * w + d \<and> i * w + d < x * w + w \<longleftrightarrow> i = x"
proof
  assume a: "x * w \<le> i * w + d \<and> i * w + d < x * w + w"
  have w: "0 < w" using assms by simp
  have "x * w < (i + 1) * w" using a assms(2) by (simp add: distrib_right)
  then have "x < i + 1" using w by (simp only: mult_less_cancel_right_pos)
  moreover have "i * w < (x + 1) * w" using a assms(1) by (simp add: distrib_right)
  then have "i < x + 1" using w by (simp only: mult_less_cancel_right_pos)
  ultimately show "i = x" by simp
qed (use assms in simp)

lemma cell_inside:
  fixes w :: int
  assumes "0 \<le> i" "i < n" "0 \<le> d" "d < w" "n * w \<le> W"
  shows "0 \<le> i * w + d" "i * w + d < W"
proof -
  have "(i + 1) * w \<le> n * w" using assms by (intro mult_right_mono) auto
  then show "i * w + d < W" using assms(4,5) by (simp add: distrib_right)
qed (use assms in simp)

lemma cell_pixel_on:
  assumes "fbcon_ok ok con" "in_screen con i j" "x < nat (fwidth con)" "y < nat (fheight con)"
  shows "on_fb (fb (priv con)) (i * fwidth con + int x) (j * fheight con + int y)"
proof -
  have "0 \<le> i" "i < cwidth con" "0 \<le> j" "j < cheight con" using assms(2) by (simp_all add: in_screen_def)
  moreover have "int x < fwidth con" "int y < fheight con" using assms(3,4) by linarith+
  ultimately show ?thesis unfolding on_fb_def
    using cell_inside [of i "cwidth con" "int x" "fwidth con" "fbwidth (fb (priv con))"]
      cell_inside [of j "cheight con" "int y" "fheight con" "fbheight (fb (priv con))"] assms(1)
    by (simp add: fbcon_ok_def)
qed

context pixel_display
begin

lemma fb_put_bitmap_cell:
  fixes bitmap :: "int \<Rightarrow> u8"
  assumes "fbcon_ok ok con" "in_screen con x y"
  defines "con' \<equiv> fb_put_bitmap fops (x * fwidth con) (y * fheight con) (fwidth con) (fheight con) (fbytes con)
    (fg_colour (priv con)) (bg_colour (priv con)) bitmap con"
  shows "fbcon_ok ok con'" "same_geometry con con'" "fbcon_glyph con' = fbcon_glyph con"
    and "in_screen con i j \<Longrightarrow> fbcon_cell fops con' i j = (if i = x \<and> j = y then bitmap_cell con bitmap else fbcon_cell fops con i j)"
proof -
  let ?w = "fwidth con" and ?h = "fheight con" and ?fb = "fb (priv con)"
  let ?col = "\<lambda>i j. if bitmap_bit bitmap (fbytes con) (i - x * ?w) (j - y * ?h) then fg_colour (priv con) else bg_colour (priv con)"
  have ok: "ok ?fb" "0 < ?w" "0 < ?h" using assms(1) by (simp_all add: fbcon_ok_def)
  have xy: "0 \<le> x" "x < cwidth con" "0 \<le> y" "y < cheight con" using assms(2) by (simp_all add: in_screen_def)
  have b: "0 \<le> x * ?w" "x * ?w + int (nat ?w) \<le> fbwidth ?fb" "0 \<le> y * ?h" "y * ?h + int (nat ?h) \<le> fbheight ?fb"
    using cell_inside [of x "cwidth con" "?w - 1" ?w "fbwidth ?fb"] cell_inside [of y "cheight con" "?h - 1" ?h "fbheight ?fb"]
      xy ok assms(1) by (simp_all add: fbcon_ok_def)
  note r = put_rect [OF ok(1) b, where col = ?col]
  let ?fb' = "fold (\<lambda>v. fold (\<lambda>u fb. put_pixel fops fb (x * ?w + int u) (y * ?h + int v) (?col (x * ?w + int u) (y * ?h + int v)))
    [0..<nat ?w]) [0..<nat ?h] ?fb"
  have fb': "fb (priv con') = ?fb'" by (simp add: con'_def fb_put_bitmap_def)
  show "fbcon_ok ok con'"
    unfolding con'_def fb_put_bitmap_def by (rule fbcon_ok_on [OF assms(1)]) (use r(1,2) in simp_all)
  show "same_geometry con con'" "fbcon_glyph con' = fbcon_glyph con" by (simp_all add: con'_def fb_put_bitmap_def)
  show "fbcon_cell fops con' i j = (if i = x \<and> j = y then bitmap_cell con bitmap else fbcon_cell fops con i j)"
    if ij: "in_screen con i j"
  proof -
    have px: "get_pixel fops (fb (priv con')) (i * ?w + int u) (j * ?h + int v)
        = (if i = x \<and> j = y then if bitmap_bit bitmap (fbytes con) (int u) (int v) then fg_colour (priv con) else bg_colour (priv con)
           else get_pixel fops ?fb (i * ?w + int u) (j * ?h + int v))" if uv: "u < nat ?w" "v < nat ?h" for u v
    proof -
      have "0 \<le> int u" "int u < ?w" "0 \<le> int v" "int v < ?h" using uv by linarith+
      note s = cell_span [OF this(1,2), of x i] cell_span [OF this(3,4), of y j]
      show ?thesis
        unfolding fb' r(3) [OF cell_pixel_on [OF assms(1) ij uv]] using s ok by auto
    qed
    have same: "font (priv con') = font (priv con)" by (simp add: con'_def fb_put_bitmap_def)
    show ?thesis unfolding fbcon_cell_def bitmap_cell_def same using px by (auto intro!: map_cong)
  qed
qed

end

section \<open>The text cells\<close>

lemma fbcon_ops_simps [simp]:
  "put_xy (fbcon_ops fops) = fb_putxy fops" "set_cursor (fbcon_ops fops) = fb_set_cursor fops"
  "set_colour (fbcon_ops fops) = fb_set_colour" "invalidate (fbcon_ops fops) = fbcon_invalidate fops"
  "clear (fbcon_ops fops) = fb_clear fops" "scroll (fbcon_ops fops) = fb_scroll fops"
  "put_xy (fbcon_draws fops) = fb_putxy fops" "invalidate (fbcon_draws fops) = fbcon_invalidate fops"
  by (simp_all add: fbcon_ops_def fbcon_draws_def draws.defs)

text \<open>The fields of the cursor do not matter for the cells.\<close>

definition with_cursor :: "int \<Rightarrow> int \<Rightarrow> 'f fbcon \<Rightarrow> 'f fbcon" where
  "with_cursor x y con = con\<lparr>priv := (priv con)\<lparr>cursor_x := x, cursor_y := y\<rparr>\<rparr>"

lemma with_cursor_simps [simp]:
  "same_geometry con (with_cursor x y con)" "fbcon_glyph (with_cursor x y con) = fbcon_glyph con"
  "fbcon_cell fops (with_cursor x y con) = fbcon_cell fops con" "fbcon_ok ok (with_cursor x y con) = fbcon_ok ok con"
  "fb (priv (with_cursor x y con)) = fb (priv con)" "font (priv (with_cursor x y con)) = font (priv con)"
  "fg_colour (priv (with_cursor x y con)) = fg_colour (priv con)" "bg_colour (priv (with_cursor x y con)) = bg_colour (priv con)"
  "cursor_bitmap (priv (with_cursor x y con)) = cursor_bitmap (priv con)"
  "bitmap_cell (with_cursor x y con) = bitmap_cell con" "char_bitmap (with_cursor x y con) = char_bitmap con"
  "in_screen (with_cursor x y con) i j = in_screen con i j"
  by (simp_all add: with_cursor_def same_geometry_def fbcon_glyph_def bitmap_cell_def char_bitmap_def
      fbcon_cell_def fbcon_ok_def in_screen_def fun_eq_iff del: same_geometryD)

context pixel_display
begin

lemma fb_putxy_draws:
  assumes "fbcon_ok ok con" "in_screen con x y"
  shows "draws_to (fbcon_cell fops) fbcon_glyph (fbcon_ok ok) con (fb_putxy fops con x y c)
    (\<lambda>i j. if i = x \<and> j = y then fbcon_glyph con c else fbcon_cell fops con i j)"
proof -
  define c0 where "c0 = (if cursor_x (priv con) = x \<and> cursor_y (priv con) = y then with_cursor (-1) (-1) con else con)"
  have c0: "same_geometry con c0" "fbcon_glyph c0 = fbcon_glyph con" "fbcon_cell fops c0 = fbcon_cell fops con"
    "fbcon_ok ok c0" "\<And>i j. in_screen c0 i j = in_screen con i j"
    using assms(1) by (simp_all add: c0_def)
  let ?con' = "fb_put_bitmap fops (x * fwidth c0) (y * fheight c0) (fwidth c0) (fheight c0) (fbytes c0)
    (fg_colour (priv c0)) (bg_colour (priv c0)) (char_bitmap c0 c) c0"
  have "fb_putxy fops con x y c = Inr ?con'"
    by (simp add: fb_putxy_def Let_def with_cursor_def char_bitmap_def c0_def)
  moreover have "in_screen c0 x y" using assms(2) c0(5) by simp
  note d = fb_put_bitmap_cell [OF c0(4) this, where bitmap = "char_bitmap c0 c"]
  have "same_geometry con ?con'" by (rule same_geometry_trans [OF c0(1) d(2)])
  moreover have "fbcon_glyph ?con' = fbcon_glyph con" using d(3) c0(2) by simp
  moreover have "fbcon_cell fops ?con' i j = (if i = x \<and> j = y then fbcon_glyph con c else fbcon_cell fops con i j)"
    if "in_screen con i j" for i j
    using d(4) [where i = i and j = j] that c0(2,3,5) by (simp add: fbcon_glyph_def fun_eq_iff)
  ultimately show ?thesis using d(1) unfolding draws_to_def by blast
qed

lemma on_fbcon_draws:
  assumes "fbcon_ok ok con" "ok (f (fb (priv con)))" "same_mode (fb (priv con)) (f (fb (priv con)))"
    and "\<And>i j. on_fb (fb (priv con)) i j \<Longrightarrow> get_pixel fops (f (fb (priv con))) i j = get_pixel fops (fb (priv con)) i j"
  shows "draws_to (fbcon_cell fops) fbcon_glyph (fbcon_ok ok) con (Inr (on_fbcon f con)) (fbcon_cell fops con)"
proof -
  have "fbcon_cell fops (on_fbcon f con) i j = fbcon_cell fops con i j" if ij: "in_screen con i j" for i j
    unfolding fbcon_cell_def using assms(4) [OF cell_pixel_on [OF assms(1) ij]] by (auto intro!: map_cong)
  then show ?thesis using fbcon_ok_on [where f = f, OF assms(1-3)] unfolding draws_to_def by simp
qed

lemma fits_cells:
  assumes "fbcon_ok ok con" "0 \<le> x" "0 \<le> y" "0 \<le> w" "0 \<le> h" "x * fwidth con + w * fwidth con \<le> fbwidth (fb (priv con)) * k"
    and "y + h \<le> cheight con" "y * fheight con + h * fheight con + k \<le> fbheight (fb (priv con)) + 1"
  shows "fits_fb (fb (priv con)) (x * fwidth con) (y * fheight con) (w * fwidth con) (h * fheight con)"
proof -
  have W: "0 \<le> fbwidth (fb (priv con))"
    using assms(1) by (simp add: fbcon_ok_def) (smt (verit) mult_nonneg_nonneg)
  have "(y * fheight con + h * fheight con - 1) * fbwidth (fb (priv con)) + fbwidth (fb (priv con)) * k
      = (y * fheight con + h * fheight con + k - 1) * fbwidth (fb (priv con))" by (simp add: algebra_simps)
  also have "\<dots> \<le> fbheight (fb (priv con)) * fbwidth (fb (priv con))" using assms(8) W by (intro mult_right_mono) auto
  finally have "(y * fheight con + h * fheight con - 1) * fbwidth (fb (priv con)) + x * fwidth con + w * fwidth con
      \<le> fbwidth (fb (priv con)) * fbheight (fb (priv con))" using assms(6) by (simp add: mult.commute)
  then show ?thesis using assms(1-5) by (simp add: fits_fb_def fbcon_ok_def)
qed

lemma fbcon_invalidate_draws:
  assumes "fbcon_ok ok con" "inside con x y w h"
  shows "draws_to (fbcon_cell fops) fbcon_glyph (fbcon_ok ok) con (fbcon_invalidate fops con x y w h) (fbcon_cell fops con)"
proof -
  have g: "0 \<le> x" "0 \<le> y" "0 \<le> w" "0 \<le> h" "x + w \<le> cwidth con" "y + h \<le> cheight con"
    using assms(2) by (simp_all add: inside_def)
  have f: "0 < fwidth con" "0 < fheight con" "cwidth con * fwidth con \<le> fbwidth (fb (priv con))"
    "cheight con * fheight con \<le> fbheight (fb (priv con))" using assms(1) by (simp_all add: fbcon_ok_def)
  have "(x + w) * fwidth con \<le> cwidth con * fwidth con" "(y + h) * fheight con \<le> cheight con * fheight con"
    using g f by (auto intro!: mult_right_mono)
  then have "fits_fb (fb (priv con)) (x * fwidth con) (y * fheight con) (w * fwidth con) (h * fheight con)"
    using g f by (intro fits_cells [OF assms(1), where k = 1]) (auto simp: distrib_right)
  note i = inval [OF _ this] get_inval [OF _ this]
  have "ok (fb (priv con))" using assms(1) by (simp add: fbcon_ok_def)
  then show ?thesis unfolding fbcon_invalidate_def Let_def by (intro on_fbcon_draws [OF assms(1)]) (use i in auto)
qed

end

context pixel_display
begin

lemma fbcon_blank:
  assumes "fbcon_ok ok con"
  shows "fbcon_glyph con 32 = replicate (nat (fheight con)) (replicate (nat (fwidth con)) (bg_colour (priv con)))"
  using assms by (simp add: fbcon_glyph_def bitmap_cell_def fbcon_ok_def list_eq_iff_nth_eq)

lemma fb_clear_draws:
  assumes "fbcon_ok ok con"
  shows "draws_to (fbcon_cell fops) fbcon_glyph (fbcon_ok ok) con (fb_clear fops con) (\<lambda>_ _. fbcon_glyph con 32)"
proof -
  let ?fb = "fb (priv con)" and ?bg = "bg_colour (priv con)"
  let ?fb1 = "fold (\<lambda>y. fold (\<lambda>x fb. put_pixel fops fb (0 + int x) (0 + int y) ?bg) [0..<nat (fbwidth ?fb)]) [0..<nat (fbheight ?fb)] ?fb"
  let ?f = "\<lambda>f. fb_invalidate fops (fold (\<lambda>y. fold (\<lambda>x fb. put_pixel fops fb (int x) (int y) ?bg) [0..<nat (fbwidth ?fb)])
    [0..<nat (fbheight ?fb)] f) 0 0 (fbwidth ?fb) (fbheight ?fb)"
  have ok: "ok ?fb" using assms by (simp add: fbcon_ok_def)
  have on0: "on_fb ?fb (0 * fwidth con + int 0) (0 * fheight con + int 0)"
  proof (rule cell_pixel_on [OF assms])
    have "0 < fwidth con" "0 < fheight con" using assms by (simp_all add: fbcon_ok_def)
    then show "0 < nat (fwidth con)" "0 < nat (fheight con)" by (simp_all only: zero_less_nat_eq)
    show "in_screen con 0 0" using assms by (simp add: in_screen_def fbcon_ok_def)
  qed
  then have dims: "0 < fbwidth ?fb" "0 < fbheight ?fb" by (simp_all add: on_fb_def)
  note r = put_rect [OF ok, of 0 "nat (fbwidth ?fb)" 0 "nat (fbheight ?fb)", where col = "\<lambda>_ _. ?bg"]
  have r1: "ok ?fb1" "same_mode ?fb ?fb1" "\<And>i j. on_fb ?fb i j \<Longrightarrow> get_pixel fops ?fb1 i j = ?bg"
    using r dims by (simp_all add: on_fb_def)
  have w1: "fbwidth ?fb1 = fbwidth ?fb" "fbheight ?fb1 = fbheight ?fb" using r1(2) by (simp_all add: same_mode_def)
  have fits: "fits_fb ?fb1 0 0 (fbwidth ?fb) (fbheight ?fb)"
    unfolding fits_fb_def w1 using dims by (simp add: algebra_simps)
  have f: "?f ?fb = fb_invalidate fops ?fb1 0 0 (fbwidth ?fb) (fbheight ?fb)" by simp
  have okf: "ok (?f ?fb)" "same_mode ?fb (?f ?fb)" "\<And>i j. on_fb ?fb i j \<Longrightarrow> get_pixel fops (?f ?fb) i j = ?bg"
    unfolding f using inval [OF r1(1) fits] get_inval [OF r1(1) fits] r1(2,3) w1 by (auto simp: same_mode_def on_fb_def)
  have "fb_clear fops con = Inr (on_fbcon ?f con)" by (simp only: fb_clear_def Let_def)
  moreover have "fbcon_ok ok (on_fbcon ?f con)" by (rule fbcon_ok_on [where f = ?f, OF assms okf(1,2)])
  moreover have "fbcon_cell fops (on_fbcon ?f con) i j = fbcon_glyph con 32" if ij: "in_screen con i j" for i j
  proof -
    have "get_pixel fops (?f ?fb) (i * fwidth con + int x) (j * fheight con + int y) = ?bg"
      if "x < nat (fwidth con)" "y < nat (fheight con)" for x y
      by (rule okf(3) [OF cell_pixel_on [OF assms ij that]])
    then show ?thesis unfolding fbcon_blank [OF assms] fbcon_cell_def on_fbcon_simps by (simp add: list_eq_iff_nth_eq)
  qed
  ultimately show ?thesis unfolding draws_to_def by simp
qed

lemma fb_scroll_draws:
  assumes "fbcon_ok ok con" "y_pos con = cheight con - 1"
  shows "draws_to (fbcon_cell fops) fbcon_glyph (fbcon_ok ok) con (fb_scroll fops con)
    (\<lambda>i j. if j = cheight con - 1 then fbcon_glyph con 32 else fbcon_cell fops con i (j + 1))"
proof -
  let ?fb = "fb (priv con)" and ?h = "fheight con" and ?w = "fwidth con"
  let ?f = "\<lambda>f. shift fops f ?h"
  let ?c1 = "on_fbcon ?f con"
  have k: "ok ?fb" "0 < ?w" "0 < ?h" "0 < cwidth con" "0 < cheight con"
    "cwidth con * ?w \<le> fbwidth ?fb" "cheight con * ?h \<le> fbheight ?fb" using assms(1) by (simp_all add: fbcon_ok_def)
  have hh: "?h \<le> fbheight ?fb" "?w \<le> fbwidth ?fb"
    using mult_right_mono [of 1 "cheight con" ?h] mult_right_mono [of 1 "cwidth con" ?w] k by linarith+
  note s = shifted [OF k(1,3) hh(1)] get_shift [OF k(1,3) hh(1)]
  have ok1: "fbcon_ok ok ?c1" by (rule fbcon_ok_on [where f = ?f, OF assms(1)]) (use s(1) in simp_all)
  have cell1: "fbcon_cell fops ?c1 i j = fbcon_cell fops con i (j + 1)" if ij: "in_screen con i j" "j \<noteq> cheight con - 1" for i j
  proof -
    have "get_pixel fops (?f ?fb) (i * ?w + int x) (j * ?h + int y) = get_pixel fops ?fb (i * ?w + int x) ((j + 1) * ?h + int y)"
      if xy: "x < nat ?w" "y < nat ?h" for x y
    proof -
      have "in_screen con i (j + 1)" using ij by (simp add: in_screen_def)
      then have "(j + 1) * ?h + int y < fbheight ?fb" using cell_pixel_on [OF assms(1) _ xy] by (simp add: on_fb_def)
      then show ?thesis using s(2) [OF cell_pixel_on [OF assms(1) ij(1) xy]] by (simp add: algebra_simps)
    qed
    then show ?thesis unfolding fbcon_cell_def on_fbcon_simps by (auto intro!: map_cong)
  qed
  have row: "draws_to (fbcon_cell fops) fbcon_glyph (fbcon_ok ok) ?c1
      (each_outcome (\<lambda>x con. fb_putxy fops con (int x) (y_pos ?c1) 32) [0..<nat (cwidth ?c1)] ?c1)
      (\<lambda>i j. if j = y_pos ?c1 \<and> i < int (nat (cwidth ?c1)) then fbcon_glyph ?c1 32 else fbcon_cell fops ?c1 i j)"
    by (rule put_row_draws [where putf = "fb_putxy fops"]) (use fb_putxy_draws ok1 k assms(2) in auto)
  obtain c2 where c2: "each_outcome (\<lambda>x con. fb_putxy fops con (int x) (y_pos ?c1) 32) [0..<nat (cwidth ?c1)] ?c1 = Inr c2"
    "fbcon_ok ok c2" "same_geometry ?c1 c2" "fbcon_glyph c2 = fbcon_glyph ?c1"
    "\<And>i j. in_screen ?c1 i j \<Longrightarrow> fbcon_cell fops c2 i j
      = (if j = y_pos ?c1 \<and> i < int (nat (cwidth ?c1)) then fbcon_glyph ?c1 32 else fbcon_cell fops ?c1 i j)"
    by (rule drawsE [OF row]) blast
  let ?r = "cheight con - 1" and ?fb2 = "fb (priv c2)"
  have g: "cwidth c2 = cwidth con" "cheight c2 = cheight con" "y_pos ?c1 = ?r"
    using c2(3) assms(2) by (simp_all del: on_fbcon_simps(14))
  have k2: "ok ?fb2" "0 < fwidth c2" "0 < fheight c2" "cwidth con * fwidth c2 \<le> fbwidth ?fb2" "cheight con * fheight c2 \<le> fbheight ?fb2"
    using c2(2) g by (simp_all add: fbcon_ok_def)
  have "fwidth c2 \<le> fbwidth ?fb2" using mult_right_mono [of 1 "cwidth con" "fwidth c2"] k k2 by linarith
  then have "?r * fwidth c2 \<le> ?r * fbwidth ?fb2" using k by (intro mult_left_mono) auto
  then have x: "?r * fwidth c2 + cwidth con * fwidth c2 \<le> fbwidth ?fb2 * cheight con"
    using k2(4) by (simp add: algebra_simps)
  have "0 \<le> ?r * (fheight c2 - 1)" using k k2 by simp
  then have y: "0 * fheight c2 + 1 * fheight c2 + cheight con \<le> fbheight ?fb2 + 1" using k2(5) by (simp add: algebra_simps)
  have "fits_fb ?fb2 (?r * fwidth c2) (0 * fheight c2) (cwidth con * fwidth c2) (1 * fheight c2)"
    by (rule fits_cells [OF c2(2), where k = "cheight con"]) (use x y k g in simp_all)
  note i = inval [OF k2(1) this] get_inval [OF k2(1) this]
  have "draws_to (fbcon_cell fops) fbcon_glyph (fbcon_ok ok) c2 (fbcon_invalidate fops c2 ?r 0 (cwidth c2) 1) (fbcon_cell fops c2)"
    unfolding fbcon_invalidate_def Let_def g(1) by (intro on_fbcon_draws [OF c2(2)]) (use i in auto)
  then obtain c3 where c3: "fbcon_invalidate fops c2 ?r 0 (cwidth c2) 1 = Inr c3" "fbcon_ok ok c3" "same_geometry c2 c3"
    "fbcon_glyph c3 = fbcon_glyph c2" "\<And>i j. in_screen c2 i j \<Longrightarrow> fbcon_cell fops c3 i j = fbcon_cell fops c2 i j"
    by (rule drawsE) blast
  have "fb_scroll fops con = Inr c3"
    using c2(1) c3(1) assms(2) by (simp add: fb_scroll_def console_clear_row_def)
  moreover have "same_geometry con c3"
    by (rule same_geometry_trans [OF on_fbcon_simps(15) same_geometry_trans [OF c2(3) c3(3)]])
  moreover have "fbcon_cell fops c3 i j = (if j = ?r then fbcon_glyph con 32 else fbcon_cell fops con i (j + 1))"
    if ij: "in_screen con i j" for i j
  proof -
    have in1: "in_screen ?c1 i j" "in_screen c2 i j" "i < int (nat (cwidth ?c1))" using ij g by (simp_all add: in_screen_def)
    show ?thesis unfolding c3(5) [OF in1(2)] c2(5) [OF in1(1)] g(3) using in1(3) cell1 [OF ij] by auto
  qed
  ultimately show ?thesis using c2(4) c3(2,4) unfolding draws_to_def by auto
qed

end

lemma fbcon_moved:
  "fbcon_ok ok (con\<lparr>x_pos := a\<rparr>) = fbcon_ok ok con" "fbcon_ok ok (con\<lparr>y_pos := a\<rparr>) = fbcon_ok ok con"
  "fbcon_cell fops (con\<lparr>x_pos := a\<rparr>) = fbcon_cell fops con" "fbcon_cell fops (con\<lparr>y_pos := a\<rparr>) = fbcon_cell fops con"
  "fbcon_glyph (con\<lparr>x_pos := a\<rparr>) = fbcon_glyph con" "fbcon_glyph (con\<lparr>y_pos := a\<rparr>) = fbcon_glyph con"
  by (simp_all add: fbcon_ok_def fbcon_cell_def fbcon_glyph_def bitmap_cell_def char_bitmap_def fun_eq_iff)

text \<open>A framebuffer console on any pixel display has the cells of a text display.\<close>

sublocale pixel_display \<subseteq> cells: text_cells "fbcon_ops fops" "fbcon_cell fops" fbcon_glyph "fbcon_ok ok"
proof unfold_locales
qed (simp_all add: fbcon_moved fb_putxy_draws fbcon_invalidate_draws fb_clear_draws fb_scroll_draws)

section \<open>The cursor\<close>

text \<open>Drawing keeps the font and the colours, and the tracked cursor unless it is drawn over.\<close>

definition same_look :: "'f fbcon \<Rightarrow> 'f fbcon \<Rightarrow> bool" where
  "same_look con con' \<longleftrightarrow> font (priv con') = font (priv con) \<and> fg_colour (priv con') = fg_colour (priv con) \<and>
     bg_colour (priv con') = bg_colour (priv con) \<and> cursor_bitmap (priv con') = cursor_bitmap (priv con) \<and>
     (cursor_x (priv con') = cursor_x (priv con) \<and> cursor_y (priv con') = cursor_y (priv con) \<or>
      cursor_x (priv con') = -1 \<and> cursor_y (priv con') = -1)"

lemma same_look_refl [simp]: "same_look con con"
  by (simp add: same_look_def)

lemma same_look_trans: "same_look a b \<Longrightarrow> same_look b c \<Longrightarrow> same_look a c"
  unfolding same_look_def by auto

lemma same_look_bitmap:
  assumes "same_look con con'"
  shows "bitmap_cell con' = bitmap_cell con" "cursor_bitmap (priv con') = cursor_bitmap (priv con)"
  using assms by (simp_all add: same_look_def bitmap_cell_def fun_eq_iff)

lemma putxy_look: "fb_putxy fops con x y c = Inr con' \<Longrightarrow> same_look con con'"
  by (auto simp: fb_putxy_def fb_put_bitmap_def Let_def same_look_def)

lemma row_look: "each_outcome (\<lambda>x con. fb_putxy fops con (int x) y c) xs con = Inr con' \<Longrightarrow> same_look con con'"
proof (induction xs arbitrary: con)
  case (Cons x xs)
  then obtain c1 where c1: "fb_putxy fops con (int x) y c = Inr c1" "each_outcome (\<lambda>x con. fb_putxy fops con (int x) y c) xs c1 = Inr con'"
    by (auto simp: bind_outcome_Inr)
  show ?case by (rule same_look_trans [OF putxy_look [OF c1(1)] Cons.IH [OF c1(2)]])
qed simp

lemma invalidate_look:
  "fbcon_invalidate fops con x y w h = Inr con' \<Longrightarrow> same_look con con'"
  by (auto simp: fbcon_invalidate_def Let_def same_look_def)

context pixel_display
begin

lemma fb_set_cursor_draws:
  assumes "fbcon_ok ok con" "in_screen con x y"
    and "cursor_x (priv con) = -1 \<or> cursor_y (priv con) = -1 \<or> in_screen con (cursor_x (priv con)) (cursor_y (priv con))"
  shows "\<exists>con'. fb_set_cursor fops con x y = Inr con' \<and> fbcon_ok ok con' \<and> same_geometry con con' \<and> fbcon_glyph con' = fbcon_glyph con \<and>
    cursor_x (priv con') = x \<and> cursor_y (priv con') = y \<and>
    (\<forall>i j. in_screen con i j \<longrightarrow> fbcon_cell fops con' i j =
      (if i = x \<and> j = y then bitmap_cell con (cursor_bitmap (priv con))
       else if i = cursor_x (priv con) \<and> j = cursor_y (priv con) then fbcon_glyph con 32 else fbcon_cell fops con i j))"
proof -
  let ?ox = "cursor_x (priv con)" and ?oy = "cursor_y (priv con)"
  let ?erase = "if ?ox \<noteq> -1 \<and> ?oy \<noteq> -1
    then bind_outcome (fb_putxy fops con ?ox ?oy 32) (\<lambda>con. fbcon_invalidate fops con ?ox ?oy 1 1) else Inr con"
  have "\<exists>c1. ?erase = Inr c1 \<and> fbcon_ok ok c1 \<and> same_geometry con c1 \<and> fbcon_glyph c1 = fbcon_glyph con \<and> same_look con c1 \<and>
    (\<forall>i j. in_screen con i j \<longrightarrow> fbcon_cell fops c1 i j = (if i = ?ox \<and> j = ?oy then fbcon_glyph con 32 else fbcon_cell fops con i j))"
  proof (cases "?ox \<noteq> -1 \<and> ?oy \<noteq> -1")
    case True
    then have ins: "in_screen con ?ox ?oy" using assms(3) by simp
    obtain c1 where c1: "fb_putxy fops con ?ox ?oy 32 = Inr c1" "fbcon_ok ok c1" "same_geometry con c1" "fbcon_glyph c1 = fbcon_glyph con"
      "\<And>i j. in_screen con i j \<Longrightarrow> fbcon_cell fops c1 i j = (if i = ?ox \<and> j = ?oy then fbcon_glyph con 32 else fbcon_cell fops con i j)"
      by (rule drawsE [OF fb_putxy_draws [OF assms(1) ins]]) blast
    have "inside c1 ?ox ?oy 1 1" using ins c1(3) by (simp add: inside_def in_screen_def)
    note d = fbcon_invalidate_draws [OF c1(2) this]
    obtain c2 where c2: "fbcon_invalidate fops c1 ?ox ?oy 1 1 = Inr c2" "fbcon_ok ok c2" "same_geometry c1 c2" "fbcon_glyph c2 = fbcon_glyph c1"
      "\<And>i j. in_screen c1 i j \<Longrightarrow> fbcon_cell fops c2 i j = fbcon_cell fops c1 i j"
      by (rule drawsE [OF d]) blast
    have in1: "in_screen c1 i j \<longleftrightarrow> in_screen con i j" for i j using c1(3) by (simp add: in_screen_def)
    show ?thesis
    proof (intro exI conjI allI impI)
      show "?erase = Inr c2" unfolding if_P [OF True] c1(1) bind_outcome_simps by (rule c2(1))
      show "fbcon_ok ok c2" "same_geometry con c2" by (rule c2(2), rule same_geometry_trans [OF c1(3) c2(3)])
      show "fbcon_glyph c2 = fbcon_glyph con" unfolding c2(4) by (rule c1(4))
      show "same_look con c2" by (rule same_look_trans [OF putxy_look [OF c1(1)] invalidate_look [OF c2(1)]])
      show "fbcon_cell fops c2 i j = (if i = ?ox \<and> j = ?oy then fbcon_glyph con 32 else fbcon_cell fops con i j)"
        if "in_screen con i j" for i j unfolding c2(5) [OF iffD2 [OF in1 that]] by (rule c1(5) [OF that])
    qed
  next
    case False
    then have out: "\<not> in_screen con ?ox ?oy" unfolding in_screen_def by linarith
    have cell: "fbcon_cell fops con i j = (if i = ?ox \<and> j = ?oy then fbcon_glyph con 32 else fbcon_cell fops con i j)"
      if "in_screen con i j" for i j
    proof -
      have "\<not> (i = ?ox \<and> j = ?oy)" using that out by blast
      then show ?thesis by (simp only: if_False)
    qed
    show ?thesis
    proof (intro exI conjI allI impI)
      show "?erase = Inr con" by (simp only: if_not_P [OF False])
    qed (rule assms(1) same_geometry_refl refl same_look_refl | erule cell)+
  qed
  then obtain c1 where c1: "?erase = Inr c1" "fbcon_ok ok c1" "same_geometry con c1" "fbcon_glyph c1 = fbcon_glyph con" "same_look con c1"
    "\<And>i j. in_screen con i j \<Longrightarrow> fbcon_cell fops c1 i j = (if i = ?ox \<and> j = ?oy then fbcon_glyph con 32 else fbcon_cell fops con i j)"
    by blast
  let ?c2 = "fb_put_bitmap fops (x * fwidth c1) (y * fheight c1) (fwidth c1) (fheight c1) (fbytes c1)
    (fg_colour (priv c1)) (bg_colour (priv c1)) (cursor_bitmap (priv c1)) c1"
  have in1: "in_screen c1 i j \<longleftrightarrow> in_screen con i j" for i j using c1(3) by (simp add: in_screen_def)
  have "in_screen c1 x y" using assms(2) by (simp add: in1)
  note p = fb_put_bitmap_cell [OF c1(2) this, where bitmap = "cursor_bitmap (priv c1)"]
  have in2: "in_screen ?c2 i j \<longleftrightarrow> in_screen con i j" for i j using p(2) in1 by (simp add: in_screen_def)
  have "inside ?c2 x y 1 1" using assms(2) in2 [of x y] by (simp add: inside_def in_screen_def)
  note d = fbcon_invalidate_draws [OF p(1) this]
  obtain c3 where c3: "fbcon_invalidate fops ?c2 x y 1 1 = Inr c3" "fbcon_ok ok c3" "same_geometry ?c2 c3" "fbcon_glyph c3 = fbcon_glyph ?c2"
    "\<And>i j. in_screen ?c2 i j \<Longrightarrow> fbcon_cell fops c3 i j = fbcon_cell fops ?c2 i j"
    by (rule drawsE [OF d]) blast
  have look: "bitmap_cell c1 (cursor_bitmap (priv c1)) = bitmap_cell con (cursor_bitmap (priv con))"
    by (simp only: same_look_bitmap [OF c1(5)])
  have "fb_set_cursor fops con x y = Inr (with_cursor x y c3)"
    using c1(1) c3(1) by (simp add: fb_set_cursor_def Let_def with_cursor_def)
  moreover have "same_geometry con (with_cursor x y c3)"
    by (rule same_geometry_trans [OF c1(3) same_geometry_trans [OF p(2) same_geometry_trans [OF c3(3)]]]) simp
  moreover have "fbcon_cell fops c3 i j = (if i = x \<and> j = y then bitmap_cell con (cursor_bitmap (priv con))
       else if i = ?ox \<and> j = ?oy then fbcon_glyph con 32 else fbcon_cell fops con i j)" if ij: "in_screen con i j" for i j
    unfolding c3(5) [OF iffD2 [OF in2 ij]] p(4) [OF iffD2 [OF in1 ij]] c1(6) [OF ij] look ..
  moreover have "cursor_x (priv (with_cursor x y c3)) = x \<and> cursor_y (priv (with_cursor x y c3)) = y" by (simp add: with_cursor_def)
  ultimately show ?thesis using c1(4) p(3) c3(2,4) by (intro exI [of _ "with_cursor x y c3"]) simp
qed

end

lemma screen_cell:
  "in_screen con i j \<Longrightarrow> rows (screen_of cell con) ! nat j ! nat i = cell con i j"
  by (simp add: screen_of_def in_screen_def)

lemma scroll_look: "fb_scroll fops con = Inr con' \<Longrightarrow> same_look con con'"
proof -
  assume a: "fb_scroll fops con = Inr con'"
  let ?c = "on_fbcon (\<lambda>f. shift fops f (fheight con)) con"
  obtain c1 where c1: "each_outcome (\<lambda>x con. fb_putxy fops con (int x) (y_pos ?c) 32) [0..<nat (cwidth ?c)] ?c = Inr c1"
    "fbcon_invalidate fops c1 (y_pos ?c) 0 (cwidth c1) 1 = Inr con'"
    using a by (auto simp: fb_scroll_def console_clear_row_def bind_outcome_Inr)
  have "same_look con ?c" by (simp add: same_look_def)
  then show ?thesis by (rule same_look_trans [OF _ same_look_trans [OF row_look [OF c1(1)] invalidate_look [OF c1(2)]]])
qed

lemma next_row_look:
  assumes "console_next_row (fbcon_ops fops) con = Inr con'"
  shows "same_look con con'"
proof (cases "cheight con \<le> y_pos con + 1")
  case True
  then obtain c1 where c1: "fb_scroll fops (con\<lparr>x_pos := 0, y_pos := y_pos con\<rparr>) = Inr c1"
    "fbcon_invalidate fops c1 0 0 (cwidth c1) (cheight c1) = Inr con'"
    using assms by (auto simp: console_next_row_def bind_outcome_Inr Let_def)
  have "same_look con (con\<lparr>x_pos := 0, y_pos := y_pos con\<rparr>)" by (simp add: same_look_def)
  then show ?thesis by (rule same_look_trans [OF _ same_look_trans [OF scroll_look [OF c1(1)] invalidate_look [OF c1(2)]]])
next
  case False
  then show ?thesis using assms by (auto simp: console_next_row_def Let_def same_look_def)
qed

context pixel_display
begin

lemma newline_cursor:
  assumes "fbcon_ok ok con" "cursor_in con" "cursor_x (priv con) = x_pos con" "cursor_y (priv con) = y_pos con"
  shows "\<exists>con'. console_putc (fbcon_ops fops) 10 con = Inr con' \<and>
    (y_pos con + 1 < cheight con \<longrightarrow> fbcon_cell fops con' (x_pos con) (y_pos con) = fbcon_glyph con 32) \<and>
    (y_pos con + 1 = cheight con \<and> 0 < y_pos con \<longrightarrow>
       fbcon_cell fops con' (x_pos con) (y_pos con - 1) = fbcon_cell fops con (x_pos con) (y_pos con)) \<and>
    fbcon_cell fops con' 0 (y_pos con') = bitmap_cell con (cursor_bitmap (priv con))"
proof -
  have g: "0 \<le> x_pos con" "x_pos con < cwidth con" "0 \<le> y_pos con" "y_pos con < cheight con"
    using assms(2) by (simp_all add: cursor_in_def in_screen_def)
  obtain c1 where c1: "console_next_row (fbcon_ops fops) con = Inr c1" "fbcon_ok ok c1" "fbcon_glyph c1 = fbcon_glyph con"
    "cwidth c1 = cwidth con" "cheight c1 = cheight con" "cursor_in c1"
    "screen_of (fbcon_cell fops) c1 = term_next_row (fbcon_glyph con 32) (nat (cwidth con)) (screen_of (fbcon_cell fops) con)"
    using cells.next_row_displays [OF assms(1)] assms(2) g by auto
  note look = next_row_look [OF c1(1)]
  have ins: "in_screen c1 i j \<longleftrightarrow> in_screen con i j" for i j using c1(4,5) by (simp add: in_screen_def)
  have "cursor_x (priv c1) = -1 \<or> cursor_y (priv c1) = -1 \<or> in_screen c1 (cursor_x (priv c1)) (cursor_y (priv c1))"
    using look assms(2-4) unfolding ins cursor_in_def same_look_def by auto
  from fb_set_cursor_draws [OF c1(2) c1(6) [unfolded cursor_in_def] this]
  obtain c2 where c2: "fb_set_cursor fops c1 (x_pos c1) (y_pos c1) = Inr c2" "same_geometry c1 c2"
    "\<And>i j. in_screen c1 i j \<Longrightarrow> fbcon_cell fops c2 i j =
      (if i = x_pos c1 \<and> j = y_pos c1 then bitmap_cell c1 (cursor_bitmap (priv c1))
       else if i = cursor_x (priv c1) \<and> j = cursor_y (priv c1) then fbcon_glyph c1 32 else fbcon_cell fops c1 i j)"
    by blast
  have n: "nat (x_pos c1) = 0" "nat (y_pos c1) = (if Suc (nat (y_pos con)) < nat (cheight con) then Suc (nat (y_pos con)) else nat (y_pos con))"
    using arg_cong [OF c1(7), of tx] arg_cong [OF c1(7), of ty] by (simp_all add: screen_of_def term_next_row_def split: if_splits)
  have nn: "0 \<le> x_pos c1" "0 \<le> y_pos c1" using c1(6) by (simp_all add: cursor_in_def in_screen_def)
  have "Suc (nat (y_pos con)) < nat (cheight con) \<longleftrightarrow> y_pos con + 1 < cheight con" using g by linarith
  with n have ny: "nat (y_pos c1) = (if y_pos con + 1 < cheight con then nat (y_pos con) + 1 else nat (y_pos con))" by simp
  have "y_pos c1 = (if y_pos con + 1 < cheight con then y_pos con + 1 else y_pos con)"
  proof (cases "y_pos con + 1 < cheight con")
    case True
    with ny have "nat (y_pos c1) = nat (y_pos con) + 1" by (simp only: if_True)
    then have "y_pos c1 = y_pos con + 1" using nn(2) g(3) by linarith
    then show ?thesis by (simp only: True if_True)
  next
    case False
    with ny have "nat (y_pos c1) = nat (y_pos con)" by (simp only: if_False)
    then have "y_pos c1 = y_pos con" using nn(2) g(3) by linarith
    then show ?thesis by (simp only: False if_False)
  qed
  moreover have "x_pos c1 = 0" using n(1) nn(1) by linarith
  ultimately have pos: "x_pos c1 = 0" "y_pos c1 = (if y_pos con + 1 < cheight con then y_pos con + 1 else y_pos con)"
    by blast+
  have run: "console_putc (fbcon_ops fops) 10 con = Inr c2" using c1(1) c2(1) by (simp add: console_putc_def)
  have pos2: "y_pos c2 = y_pos c1" using c2(2) by simp
  show ?thesis
  proof (intro exI conjI impI)
    show "console_putc (fbcon_ops fops) 10 con = Inr c2" by (rule run)
    show "fbcon_cell fops c2 0 (y_pos c2) = bitmap_cell con (cursor_bitmap (priv con))"
      using c2(3) [of 0 "y_pos c1"] c1(6) pos(1) pos2 same_look_bitmap [OF look] by (simp add: cursor_in_def)
    show "fbcon_cell fops c2 (x_pos con) (y_pos con) = fbcon_glyph con 32" if next_row: "y_pos con + 1 < cheight con"
    proof -
      have "c1 = con\<lparr>x_pos := 0, y_pos := y_pos con + 1\<rparr>" using c1(1) next_row by (simp add: console_next_row_def)
      then have cur: "cursor_x (priv c1) = x_pos con" "cursor_y (priv c1) = y_pos con" using assms(3,4) by simp_all
      have "in_screen c1 (x_pos con) (y_pos con)" using assms(2) unfolding ins cursor_in_def .
      note e = c2(3) [OF this, unfolded cur]
      have "\<not> (x_pos con = x_pos c1 \<and> y_pos con = y_pos c1)" using pos(2) next_row by auto
      then show ?thesis unfolding e c1(3) by (simp only: if_False simp_thms if_True)
    qed
    show "fbcon_cell fops c2 (x_pos con) (y_pos con - 1) = fbcon_cell fops con (x_pos con) (y_pos con)"
      if last: "y_pos con + 1 = cheight con \<and> 0 < y_pos con"
    proof -
      have in1: "in_screen con (x_pos con) (y_pos con - 1)" "in_screen con (x_pos con) (y_pos con)"
        using g last by (simp_all add: in_screen_def)
      have "cursor_x (priv c1) = x_pos con \<and> cursor_y (priv c1) = y_pos con \<or> cursor_x (priv c1) = -1 \<and> cursor_y (priv c1) = -1"
        using look assms(3,4) by (simp add: same_look_def)
      then have "\<not> (x_pos con = cursor_x (priv c1) \<and> y_pos con - 1 = cursor_y (priv c1))"
        using g(1) by (elim disjE conjE) simp_all
      moreover have "\<not> (x_pos con = x_pos c1 \<and> y_pos con - 1 = y_pos c1)" using pos(2) last by auto
      ultimately have "fbcon_cell fops c2 (x_pos con) (y_pos con - 1) = fbcon_cell fops c1 (x_pos con) (y_pos con - 1)"
        unfolding c2(3) [OF iffD2 [OF ins in1(1)]] by (simp only: if_False)
      also have "\<dots> = rows (screen_of (fbcon_cell fops) c1) ! nat (y_pos con - 1) ! nat (x_pos con)"
        using screen_cell [of c1 "x_pos con" "y_pos con - 1" "fbcon_cell fops"] in1(1) by (simp add: ins)
      also have "\<dots> = rows (screen_of (fbcon_cell fops) con) ! nat (y_pos con) ! nat (x_pos con)"
      proof -
        have len: "length (rows (screen_of (fbcon_cell fops) con)) = nat (cheight con)" "ty (screen_of (fbcon_cell fops) con) = nat (y_pos con)"
          by (simp_all add: screen_of_def)
        obtain k where k: "nat (y_pos con) = Suc k" using last by (metis gr0_implies_Suc zero_less_nat_eq)
        have "nat (cheight con) = Suc (Suc k)" "nat (y_pos con - 1) = k" using k last by linarith+
        then show ?thesis using len k unfolding c1(7) by (simp add: term_next_row_def nth_append nth_tl)
      qed
      also have "\<dots> = fbcon_cell fops con (x_pos con) (y_pos con)" by (rule screen_cell [OF in1(2)])
      finally show ?thesis .
    qed
  qed
qed

end

section \<open>The console on a VBE framebuffer\<close>

text \<open>
  C21: on a 32-bit VBE framebuffer the console draws text as the abstract terminal has it, every
  cell being the bitmap of a character in the colours of the console: clearing blanks all cells,
  putting a character changes its cell and no other, and stepping to the next row scrolls the
  cells up by one row when the last row is reached.
\<close>

theorem fbcon_draws_text:
  assumes "fbcon_ok vesa_ok con" "cursor_in con"
  shows "(\<exists>con'. console_clear (fbcon_ops vesa_ops) con = Inr con' \<and> screen_of (fbcon_cell vesa_ops) con'
      = \<lparr>tx = 0, ty = 0, rows = replicate (nat (cheight con)) (replicate (nat (cwidth con)) (fbcon_glyph con 32))\<rparr>) \<and>
    (\<exists>con'. bind_outcome (fb_putxy vesa_ops con (x_pos con) (y_pos con) c)
        (\<lambda>con. fbcon_invalidate vesa_ops con (x_pos con) (y_pos con) 1 1) = Inr con' \<and>
      screen_of (fbcon_cell vesa_ops) con' = term_put (fbcon_glyph con c) (screen_of (fbcon_cell vesa_ops) con)) \<and>
    (\<exists>con'. console_next_row (fbcon_ops vesa_ops) con = Inr con' \<and>
      screen_of (fbcon_cell vesa_ops) con' = term_next_row (fbcon_glyph con 32) (nat (cwidth con)) (screen_of (fbcon_cell vesa_ops) con))"
proof (intro conjI)
  have g: "0 < cwidth con" "0 < cheight con" "0 \<le> y_pos con" "y_pos con < cheight con"
    using assms by (simp_all add: fbcon_ok_def cursor_in_def in_screen_def)
  show "\<exists>con'. console_clear (fbcon_ops vesa_ops) con = Inr con' \<and> screen_of (fbcon_cell vesa_ops) con'
      = \<lparr>tx = 0, ty = 0, rows = replicate (nat (cheight con)) (replicate (nat (cwidth con)) (fbcon_glyph con 32))\<rparr>"
    using vesa.cells.clear_displays [OF assms(1) g(1,2)] unfolding vesa.cells.displays_def by blast
  show "\<exists>con'. bind_outcome (fb_putxy vesa_ops con (x_pos con) (y_pos con) c)
        (\<lambda>con. fbcon_invalidate vesa_ops con (x_pos con) (y_pos con) 1 1) = Inr con' \<and>
      screen_of (fbcon_cell vesa_ops) con' = term_put (fbcon_glyph con c) (screen_of (fbcon_cell vesa_ops) con)"
    using vesa.cells.put_displays [OF assms, of c] unfolding vesa.cells.displays_def fbcon_ops_simps by blast
  show "\<exists>con'. console_next_row (fbcon_ops vesa_ops) con = Inr con' \<and>
      screen_of (fbcon_cell vesa_ops) con' = term_next_row (fbcon_glyph con 32) (nat (cwidth con)) (screen_of (fbcon_cell vesa_ops) con)"
    using vesa.cells.next_row_displays [OF assms(1) disjI1 [OF assms(2)] g(1,3,4)] by blast
qed

text \<open>Two rows of two cells of one pixel; only \<open>A\<close> has its pixel set.\<close>

definition tiny_fbcon :: "vesa_state fbcon" where
  "tiny_fbcon = \<lparr>x_pos = 1, y_pos = 1, cwidth = 2, cheight = 2, priv = \<lparr>fb = vesa_put_pixel tiny_vesa 1 1 0xffffff,
     fg_colour = 0xffffff, bg_colour = 0, colour_map = base_colour_map,
     font = \<lparr>data = (\<lambda>i. if i = 33 then 0x80 else 0), char_width = 1, char_width_bytes = 1, char_height = 1\<rparr>,
     cursor_x = 1, cursor_y = 1, cursor_bitmap = (\<lambda>_. 0x80)\<rparr>\<rparr>"

lemma tiny_fbcon_ok: "fbcon_ok vesa_ok tiny_fbcon" "cursor_in tiny_fbcon"
proof -
  have on: "on_fb tiny_vesa 1 1" by (simp add: on_fb_def tiny_vesa_def)
  have "vesa_ok (vesa_put_pixel tiny_vesa 1 1 0xffffff)" using tiny_vesa_ok by (simp add: vesa_put_pixel_def Let_def)
  moreover have "fbwidth (vesa_put_pixel tiny_vesa 1 1 0xffffff) = 2" "fbheight (vesa_put_pixel tiny_vesa 1 1 0xffffff) = 2"
    by (simp_all add: vesa_put_pixel_def Let_def) (simp_all add: tiny_vesa_def)
  ultimately show "fbcon_ok vesa_ok tiny_fbcon"
    by (simp add: fbcon_ok_def tiny_fbcon_def bitmap_bit_def char_bitmap_def Let_def)
  show "cursor_in tiny_fbcon" by (simp add: cursor_in_def in_screen_def tiny_fbcon_def)
qed

lemma fbcon_draws_text_witness:
  "\<exists>con'. console_clear (fbcon_ops vesa_ops) tiny_fbcon = Inr con' \<and> screen_of (fbcon_cell vesa_ops) con'
     = \<lparr>tx = 0, ty = 0, rows = [[[[0]], [[0]]], [[[0]], [[0]]]]\<rparr>"
proof -
  have "fbcon_glyph tiny_fbcon 32 = [[0]]" "cwidth tiny_fbcon = 2" "cheight tiny_fbcon = 2"
    by (simp_all add: tiny_fbcon_def fbcon_glyph_def bitmap_cell_def bitmap_bit_def char_bitmap_def Let_def)
  then show ?thesis using conjunct1 [OF fbcon_draws_text [OF tiny_fbcon_ok, of 32]] by (simp add: numeral_2_eq_2)
qed

text \<open>
  A newline removes the cursor from the cell it leaves, except on the last row: there the
  picture of the cursor is scrolled up with its row and stays on the screen as a ghost, while the
  cursor is drawn again at the start of the new row.
\<close>

theorem fbcon_newline_ghost:
  assumes "fbcon_ok vesa_ok con" "cursor_in con" "cursor_x (priv con) = x_pos con" "cursor_y (priv con) = y_pos con"
  shows "\<exists>con'. console_putc (fbcon_ops vesa_ops) 10 con = Inr con' \<and>
    (y_pos con + 1 < cheight con \<longrightarrow> fbcon_cell vesa_ops con' (x_pos con) (y_pos con) = fbcon_glyph con 32) \<and>
    (y_pos con + 1 = cheight con \<and> 0 < y_pos con \<longrightarrow>
       fbcon_cell vesa_ops con' (x_pos con) (y_pos con - 1) = fbcon_cell vesa_ops con (x_pos con) (y_pos con)) \<and>
    fbcon_cell vesa_ops con' 0 (y_pos con') = bitmap_cell con (cursor_bitmap (priv con))"
  by (rule vesa.newline_cursor [OF assms])

lemma fbcon_newline_ghost_witness:
  "\<exists>con'. console_putc (fbcon_ops vesa_ops) 10 tiny_fbcon = Inr con' \<and> fbcon_cell vesa_ops con' 1 0 = [[0xffffff]]"
proof -
  have c: "x_pos tiny_fbcon = 1" "y_pos tiny_fbcon = 1" "cheight tiny_fbcon = 2" "cursor_x (priv tiny_fbcon) = 1" "cursor_y (priv tiny_fbcon) = 1"
    by (simp_all add: tiny_fbcon_def)
  have on: "on_fb tiny_vesa 1 1" by (simp add: on_fb_def tiny_vesa_def)
  have "fbcon_cell vesa_ops tiny_fbcon 1 1 = [[0xffffff]]"
    using vesa_get_put [OF tiny_vesa_ok on on, of "0xffffff"] by (simp add: fbcon_cell_def tiny_fbcon_def vesa_ops_def)
  then show ?thesis using fbcon_newline_ghost [OF tiny_fbcon_ok] c by auto
qed

end
