(* ===== verification/Displays.thy ===== *)
theory Displays
  imports Cherry_Font Heap_Client Driver Printf Vga Fbcon
begin

text \<open>
  Consoles as devices (\<open>kern/io/fbcon.c\<close>, \<open>kern/io/vga.c\<close>): the drivers' probes, which allocate the records of
  a device, name it and register it, and the change of the system's console to the framebuffer. The
  records are at the addresses that the allocator gives. As in theory Fbcon a framebuffer is a value of its
  own with its pixels. The log is left out.
\<close>

section \<open>The code\<close>

record con_chardev =
  cc_putc :: u32
  cc_getc :: u32
  cc_priv :: u32

text \<open>The functions behind the pointers, by their addresses, and the bytes around the font.\<close>

record fbcon_code =
  at_fbcon_destroy :: u32
  at_fbcon_setparam :: u32
  at_fbcon_inform :: u32
  at_chardev_putc :: u32
  beside_font :: "int \<Rightarrow> u8"

text \<open>The variables \<open>console\<close> and \<open>stdout\<close> of the kernel are part of the state.\<close>

record 'f screens =
  d_heap :: alloc_state
  fbdev_at :: "u32 \<Rightarrow> 'f fbdev"
  fbcon_at :: "u32 \<Rightarrow> 'f fbcon"
  con_priv_at :: "u32 \<Rightarrow> u32"
  fb_at :: "u32 \<Rightarrow> u32"
  bitmap_at :: "u32 \<Rightarrow> u32"
  con_chardev_at :: "u32 \<Rightarrow> con_chardev"
  the_console :: u32
  the_stdout :: u32

definition d_with_heap :: "alloc_state \<Rightarrow> 'f screens mgr \<Rightarrow> 'f screens mgr" where
  "d_with_heap h st = st\<lparr>rest := (rest st)\<lparr>d_heap := h\<rparr>\<rparr>"

definition d_alloc :: "u32 \<Rightarrow> 'f screens mgr \<Rightarrow> (u32 \<times> 'f screens mgr) outcome option" where
  "d_alloc = alloc_in (\<lambda>st. d_heap (rest st)) d_with_heap"

definition d_allocz :: "u32 \<Rightarrow> 'f screens mgr \<Rightarrow> (u32 \<times> 'f screens mgr) outcome option" where
  "d_allocz = allocz_in (\<lambda>st. d_heap (rest st)) d_with_heap"

definition d_free :: "u32 \<Rightarrow> 'f screens mgr \<Rightarrow> 'f screens mgr outcome" where
  "d_free p st = bind_outcome (kfree (d_heap (rest st)) p) (\<lambda>h. Inr (d_with_heap h st))"

definition fbcon_destroy :: "u32 \<Rightarrow> 'f screens mgr \<Rightarrow> 'f screens mgr outcome" where
  "fbcon_destroy dev st = (let con = internal_dev (device_at st dev) in
     bind_outcome (d_free (con_priv_at (rest st) con) st) (\<lambda>st. bind_outcome (d_free con st) (d_free dev)))"

definition console_get_chardev :: "fbcon_code \<Rightarrow> u32 \<Rightarrow> u32 \<Rightarrow> 'f screens \<Rightarrow> 'f screens" where
  "console_get_chardev code con chardev st =
     st\<lparr>con_chardev_at := (con_chardev_at st)(chardev := \<lparr>cc_putc = at_chardev_putc code, cc_getc = 0, cc_priv = con\<rparr>)\<rparr>"

text \<open>
  The sizes are those of a console, of \<open>fbcon_priv_t\<close>, of the bitmap of the cursor and of a device; the
  console itself is the one of theory Fbcon, drawn on the framebuffer.
\<close>

definition fbcon_new :: "fbcon_code \<Rightarrow> 'f fb_ops \<Rightarrow> u32 \<Rightarrow> 'f screens mgr \<Rightarrow> (u32 \<times> 'f screens mgr) outcome option" where
  "fbcon_new code fops fbd st =
     run_bind (d_alloc 44 st) (\<lambda>(con, st).
     run_bind (d_alloc 96 st) (\<lambda>(pr, st).
     run_bind (d_allocz 13 st) (\<lambda>(bmp, st).
     run_bind (d_allocz 96 st) (\<lambda>(dev, st).
     let st = st\<lparr>device_at := (device_at st)(dev := zero_device\<lparr>dev_destroy := at_fbcon_destroy code,
           dev_setparam := at_fbcon_setparam code, dev_inform := at_fbcon_inform code, internal_dev := con\<rparr>),
         rest := (rest st)\<lparr>con_priv_at := (con_priv_at (rest st))(con := pr), fb_at := (fb_at (rest st))(pr := fbd),
           bitmap_at := (bitmap_at (rest st))(pr := bmp)\<rparr>\<rparr> in
     run_bind (Some (device_get_first_available_suffix (lit ''fbcon'') st)) (\<lambda>i.
     run_bind (Some (format_text (\<lambda>_. []) (lit ''fbcon%d'') [of_nat i])) (\<lambda>name.
     let st = st\<lparr>device_at := (device_at st)(dev := (device_at st dev)\<lparr>dev_name := name, num_subdevices := 0,
           subdevices := None, dev_type := DEVICE_TYPE_CON\<rparr>)\<rparr> in
     run_bind (Some (fbcon_create fops (cherry_byte (beside_font code)) (fbdev_at (rest st) fbd))) (\<lambda>c.
       Some (Inr (dev, st\<lparr>rest := (rest st)\<lparr>fbcon_at := (fbcon_at (rest st))(con := c),
         fbdev_at := (fbdev_at (rest st))(fbd := fb (priv c))\<rparr>\<rparr>)))))))))"

definition use_console :: "fbcon_code \<Rightarrow> u32 \<Rightarrow> 'f screens mgr \<Rightarrow> 'f screens mgr outcome option" where
  "use_console code con st =
     (let st = st\<lparr>rest := (rest st)\<lparr>the_console := con\<rparr>\<rparr> in
      run_bind (Some (d_free (the_stdout (rest st)) st)) (\<lambda>st.
      run_bind (d_alloc 12 st) (\<lambda>(out, st).
        Some (Inr (st\<lparr>rest := console_get_chardev code con out ((rest st)\<lparr>the_stdout := out\<rparr>)\<rparr>)))))"

definition fbcon_dev_foreach_callback ::
  "fbcon_code \<Rightarrow> 'f fb_ops \<Rightarrow> 'f screens calls \<Rightarrow> u32 \<Rightarrow> 'f screens mgr \<Rightarrow> 'f screens mgr outcome option" where
  "fbcon_dev_foreach_callback code fops c dev st =
     (let fbd = internal_dev (device_at st dev) in
      if dev_type (device_at st dev) \<noteq> DEVICE_TYPE_FRAMEBUFFER \<or> subdevices (device_at st dev) \<noteq> None
        \<or> \<not> (0 < fbwidth (fbdev_at (rest st) fbd) \<and> 0 < fbheight (fbdev_at (rest st) fbd)) then Some (Inr st)
      else run_bind (fbcon_new code fops fbd st) (\<lambda>(new_con, st).
        run_bind (d_alloc 4 st) (\<lambda>(_, st).
        let st = st\<lparr>device_at := (device_at st)(dev := (device_at st dev)\<lparr>subdevices := Some [new_con], num_subdevices := 1\<rparr>)\<rparr> in
        run_bind (device_register c new_con st) (\<lambda>st.
        run_bind (case device_get_by_name (lit ''vga0'') st of
            None \<Rightarrow> Some (Inr st)
          | Some vga \<Rightarrow> run_bind (device_deregister c vga st) (\<lambda>r. Some (Inr (snd r)))) (\<lambda>st.
        run_bind (Some (device_get_console new_con st)) (\<lambda>con. use_console code con st))))))"

definition fbcon_probe :: "fbcon_code \<Rightarrow> 'f fb_ops \<Rightarrow> 'f screens calls \<Rightarrow> u32 \<Rightarrow> u32 \<Rightarrow> 'f screens mgr \<Rightarrow> 'f screens mgr outcome option" where
  "fbcon_probe code fops c driver invoker st = device_foreach (fbcon_dev_foreach_callback code fops c) st"

definition fbcon_driver :: "u32 \<Rightarrow> driver" where
  "fbcon_driver probe = \<lparr>drv_name = lit ''Framebuffer console'', modname = [], drv_probe = 0, probe_directed = probe,
     type_for = DEVICE_TYPE_CON, depends_on = DEVICE_TYPE_FRAMEBUFFER, first_probe = False, disabled = False, driver_priv = 0\<rparr>"

section \<open>The text console and the framebuffer as devices\<close>

text \<open>The text console: what the screen showed and the hardware before are in the state.\<close>

record 'h vga_screen =
  g_heap :: alloc_state
  text_cells_at :: "int \<Rightarrow> u16"
  vga_hw :: 'h
  vga_at :: "u32 \<Rightarrow> 'h vga"

definition g_alloc :: "u32 \<Rightarrow> 'h vga_screen mgr \<Rightarrow> (u32 \<times> 'h vga_screen mgr) outcome option" where
  "g_alloc = alloc_in (\<lambda>st. g_heap (rest st)) (\<lambda>h st. st\<lparr>rest := (rest st)\<lparr>g_heap := h\<rparr>\<rparr>)"

text \<open>A device record that is not cleared keeps what the address held in the fields that are not set.\<close>

definition vga_probe :: "'h ports \<Rightarrow> 'h vga_screen calls \<Rightarrow> u32 \<Rightarrow> 'h vga_screen mgr \<Rightarrow> 'h vga_screen mgr outcome option" where
  "vga_probe io c driver st =
     (if \<not> first_probe (driver_at st driver) then Some (Inr st)
      else run_bind (g_alloc 96 st) (\<lambda>(dev, st).
        run_bind (Some (format_text (\<lambda>_. []) (lit ''vga%d'') [0])) (\<lambda>name.
        let st = st\<lparr>device_at := (device_at st)(dev := (device_at st dev)\<lparr>dev_type := DEVICE_TYPE_CON, dev_name := name,
              dev_destroy := 0, device_priv := 0\<rparr>)\<rparr> in
        run_bind (g_alloc 44 st) (\<lambda>(con, st).
        run_bind (g_alloc 8 st) (\<lambda>(_, st).
        run_bind (Some (vga_init io (ucast (vga_colour COLOUR_WHITE COLOUR_BLUE)) (text_cells_at (rest st)) (vga_hw (rest st)))) (\<lambda>v.
        let st = st\<lparr>device_at := (device_at st)(dev := (device_at st dev)\<lparr>internal_dev := con\<rparr>),
              rest := (rest st)\<lparr>vga_at := (vga_at (rest st))(con := v), text_cells_at := vga_buffer (priv v), vga_hw := hw (priv v)\<rparr>\<rparr> in
        device_register c dev st))))))"

definition vga_driver :: "u32 \<Rightarrow> driver" where
  "vga_driver probe = \<lparr>drv_name = lit ''VGA text mode console'', modname = [], drv_probe = probe, probe_directed = 0,
     type_for = DEVICE_TYPE_CON, depends_on = DEVICE_TYPE_NONE, first_probe = False, disabled = False, driver_priv = 0\<rparr>"

text \<open>The VBE framebuffer: its pixels are in the memory of the allocator, its record has the address of its data.\<close>

record 'd vbe_card =
  b_heap :: alloc_state
  b_bios :: 'd
  fb_rec_at :: "u32 \<Rightarrow> u32 fbdev"
  vesa_priv_at :: "u32 \<Rightarrow> vesa_priv"

record vesa_code =
  low_mem_buffer :: u32
  stale_modes :: "nat \<Rightarrow> u16"
  stale_info :: vbe_mode
  at_vesa_destroy :: u32
  at_vesa_setparam :: u32

definition b_with :: "'d machine \<Rightarrow> 'd vbe_card mgr \<Rightarrow> 'd vbe_card mgr" where
  "b_with m st = st\<lparr>rest := (rest st)\<lparr>b_heap := fst m, b_bios := snd m\<rparr>\<rparr>"

definition b_alloc :: "u32 \<Rightarrow> 'd vbe_card mgr \<Rightarrow> (u32 \<times> 'd vbe_card mgr) outcome option" where
  "b_alloc = alloc_in (\<lambda>st. b_heap (rest st)) (\<lambda>h st. st\<lparr>rest := (rest st)\<lparr>b_heap := h\<rparr>\<rparr>)"

definition vesa_destroy :: "u32 \<Rightarrow> 'd vbe_card mgr \<Rightarrow> 'd vbe_card mgr outcome" where
  "vesa_destroy dev st =
     (let fbd = internal_dev (device_at st dev); v = fbpriv (fb_rec_at (rest st) fbd) in
      bind_outcome (kfree (b_heap (rest st)) (backbuffer (vesa_priv_at (rest st) v))) (\<lambda>h.
      bind_outcome (kfree h v) (\<lambda>h. bind_outcome (kfree h fbd) (\<lambda>h. Inr (b_with (h, b_bios (rest st)) st)))))"

text \<open>\<open>vesa_set_res\<close> on the data at an address.\<close>

definition set_res_at :: "'d bios \<Rightarrow> vesa_code \<Rightarrow> u32 \<Rightarrow> int \<Rightarrow> int \<Rightarrow> int \<Rightarrow> 'd vbe_card mgr \<Rightarrow> (int \<times> 'd vbe_card mgr) outcome option" where
  "set_res_at bios code v x y bpp st =
     run_bind (vesa_set_res bios (low_mem_buffer code) (stale_modes code) (stale_info code) (vesa_priv_at (rest st) v) x y bpp
       (b_heap (rest st), b_bios (rest st))) (\<lambda>(err, p, m).
         let st = b_with m st in Some (Inr (err, st\<lparr>rest := (rest st)\<lparr>vesa_priv_at := (vesa_priv_at (rest st))(v := p)\<rparr>\<rparr>)))"

definition copy_mode :: "u32 \<Rightarrow> 'd vbe_card mgr \<Rightarrow> 'd vbe_card mgr" where
  "copy_mode fbd st =
     (let v = vesa_priv_at (rest st) (fbpriv (fb_rec_at (rest st) fbd)) in
      st\<lparr>rest := (rest st)\<lparr>fb_rec_at := (fb_rec_at (rest st))(fbd := (fb_rec_at (rest st) fbd)\<lparr>fbwidth := vwidth v,
        fbheight := vheight v, fbbpp := bits_per_pixel v\<rparr>)\<rparr>\<rparr>)"

definition CHANGE_TYPE_PARAM :: int where "CHANGE_TYPE_PARAM = 0"

text \<open>\<open>req\<close> is the request behind \<open>aux\<close>: the width, the height and the depth.\<close>

definition vesa_setparam ::
  "'d bios \<Rightarrow> vesa_code \<Rightarrow> 'd vbe_card calls \<Rightarrow> u32 \<Rightarrow> int \<Rightarrow> int \<times> int \<times> int \<Rightarrow> 'd vbe_card mgr \<Rightarrow> (int \<times> 'd vbe_card mgr) outcome option" where
  "vesa_setparam bios code c dev paramid req st =
     (if paramid \<noteq> FBDEV_SETRES then Some (Inr (- ERR_INVALID, st))
      else (let fbd = internal_dev (device_at st dev); (x, y, bpp) = req in
        run_bind (set_res_at bios code (fbpriv (fb_rec_at (rest st) fbd)) x y bpp st) (\<lambda>(err, st).
          if err < 0 then Some (Inr (err, st))
          else device_inform_subdevices c dev CHANGE_TYPE_PARAM FBDEV_CHANGE_RESOLUTION 0 (copy_mode fbd st))))"

definition zero_vesa :: vesa_priv where
  "zero_vesa = \<lparr>vwidth = 0, vheight = 0, bits_per_pixel = 0, bytes_per_pixel = 0, pitch = 0, framebuffer = 0, backbuffer = 0\<rparr>"

definition vesa_probe :: "'d bios \<Rightarrow> vesa_code \<Rightarrow> 'd vbe_card calls \<Rightarrow> u32 \<Rightarrow> 'd vbe_card mgr \<Rightarrow> 'd vbe_card mgr outcome option" where
  "vesa_probe bios code c driver st =
     (if \<not> first_probe (driver_at st driver) then Some (Inr st)
      else (let (mode, m) = vesa_get_mode bios (b_heap (rest st), b_bios (rest st)); st = b_with m st in
        if mode = -1 then Some (Inr st)
        else run_bind (allocz_in (\<lambda>st. b_heap (rest st)) (\<lambda>h st. st\<lparr>rest := (rest st)\<lparr>b_heap := h\<rparr>\<rparr>) 28 st) (\<lambda>(v, st).
        let st = st\<lparr>rest := (rest st)\<lparr>vesa_priv_at := (vesa_priv_at (rest st))(v := zero_vesa)\<rparr>\<rparr> in
        run_bind (b_alloc 32 st) (\<lambda>(fbd, st).
        let st = st\<lparr>rest := (rest st)\<lparr>fb_rec_at := (fb_rec_at (rest st))(fbd := (fb_rec_at (rest st) fbd)\<lparr>fbpriv := v\<rparr>)\<rparr>\<rparr> in
        run_bind (b_alloc 96 st) (\<lambda>(dev, st).
        run_bind (Some (device_get_first_available_suffix (lit ''vesafb'') st)) (\<lambda>i.
        run_bind (Some (format_text (\<lambda>_. []) (lit ''vesafb%d'') [of_nat i])) (\<lambda>name.
        let st = st\<lparr>device_at := (device_at st)(dev := (device_at st dev)\<lparr>internal_dev := fbd, dev_type := DEVICE_TYPE_FRAMEBUFFER,
              dev_name := name, dev_destroy := at_vesa_destroy code, device_priv := 0, dev_setparam := at_vesa_setparam code\<rparr>)\<rparr> in
        run_bind (set_res_at bios code v 800 600 32 st) (\<lambda>(err, st).
          if err < 0 then Some (Inr st) else device_register c dev (copy_mode fbd st)))))))))"

definition vesa_driver :: "u32 \<Rightarrow> driver" where
  "vesa_driver probe = \<lparr>drv_name = lit ''VBE 3.0 framebuffer'', modname = lit ''vesafb'', drv_probe = probe, probe_directed = 0,
     type_for = DEVICE_TYPE_FRAMEBUFFER, depends_on = DEVICE_TYPE_NONE, first_probe = False, disabled = True, driver_priv = 0\<rparr>"

section \<open>The console of the kernel's font\<close>

text \<open>A character as the table has it: the seven high bits of its rows.\<close>

definition cherry_glyph :: "u32 \<Rightarrow> u32 \<Rightarrow> u8 \<Rightarrow> u32 list list" where
  "cherry_glyph fg bg c = map (\<lambda>y. map (\<lambda>x. if bit (font_cherry ! (unat c - 32) ! y) (7 - x) then fg else bg) [0..<7]) [0..<13]"

lemma mask_bit: "off < 8 \<Longrightarrow> (uint (b :: u8) AND fb_mask ! off \<noteq> 0) \<longleftrightarrow> bit b (7 - off)"
proof -
  assume "off < 8"
  then have "fb_mask ! off = 2 ^ (7 - off)"
    by (auto simp: fb_mask_def less_Suc_eq numeral_eq_Suc)
  then show ?thesis by (simp add: and_exp_eq_0_iff_not_bit bit_uint_iff bit_imp_le_length) (auto dest: bit_imp_le_length)
qed

lemma cherry_bit:
  assumes "32 \<le> unat c" "unat c < 128" "x < 7" "y < 13"
  shows "bitmap_bit (\<lambda>i. cherry_byte other (13 * 1 * (sint (c :: u8) - 32) + i)) 1 (int x) (int y)
    \<longleftrightarrow> bit (font_cherry ! (unat c - 32) ! y) (7 - x)"
proof -
  have u: "uint c = int (unat c)" by simp
  then have "uint c < 128" using assms(2) by linarith
  moreover have "- 128 \<le> uint c" using uint_ge_0 [of c] by linarith
  ultimately have c: "sint c = int (unat c)" unfolding sint_uint u [symmetric] by (intro signed_take_bit_int_eq_self) simp_all
  have "drop_bit 3 (int x) = 0" using assms(3) by (simp add: drop_bit_eq_div)
  moreover have "int x AND 7 = take_bit 3 (int x)" by (simp add: take_bit_eq_mask mask_eq_exp_minus_1)
  then have "int x AND 7 = int x" using assms(3) by (simp add: take_bit_int_eq_self)
  moreover have "cherry_byte other (13 * (int (unat c) - 32) + int y) = font_cherry ! (unat c - 32) ! y"
  proof -
    define i where "i = 13 * (int (unat c) - 32) + int y"
    have "i = int (13 * (unat c - 32) + y)" using assms by (simp add: i_def of_nat_diff)
    moreover have "13 * (unat c - 32) + y < 2496" using assms by simp
    ultimately have "0 \<le> i" "i < 2496" "nat (i div 13) = unat c - 32" "nat (i mod 13) = y"
      using assms(4) by (simp_all add: nat_div_distrib nat_mod_distrib)
    then show ?thesis unfolding i_def [symmetric] by (simp add: cherry_byte_def)
  qed
  ultimately show ?thesis using assms(3) by (simp add: bitmap_bit_def Let_def c mask_bit)
qed

lemma cherry_blank: "y < 13 \<Longrightarrow> font_cherry ! 0 ! y = 0"
  by (simp add: font_cherry_def font_cherry_ascii_def less_Suc_eq numeral_eq_Suc) auto

text \<open>The console that \<open>fbcon_create\<close> makes before it is cleared.\<close>

definition raw_fbcon :: "(int \<Rightarrow> u8) \<Rightarrow> vesa_state fbdev \<Rightarrow> vesa_state fbcon" where
  "raw_fbcon other fbd = fbcon_gencursor \<lparr>x_pos = 0, y_pos = 0, cwidth = fbwidth fbd div 7, cheight = fbheight fbd div 13,
     priv = \<lparr>fb = fbd, fg_colour = 0xffffff, bg_colour = 0x0000ff, colour_map = base_colour_map,
       font = \<lparr>data = cherry_byte other, char_width = 7, char_width_bytes = 1, char_height = 13\<rparr>,
       cursor_x = -1, cursor_y = -1, cursor_bitmap = (\<lambda>_. 0)\<rparr>\<rparr>"

lemma raw_fbcon_fields:
  "fb (priv (raw_fbcon other fbd)) = fbd" "cwidth (raw_fbcon other fbd) = fbwidth fbd div 7"
  "cheight (raw_fbcon other fbd) = fbheight fbd div 13"
  "font (priv (raw_fbcon other fbd)) = \<lparr>data = cherry_byte other, char_width = 7, char_width_bytes = 1, char_height = 13\<rparr>"
  "fg_colour (priv (raw_fbcon other fbd)) = 0xffffff" "bg_colour (priv (raw_fbcon other fbd)) = 0x0000ff"
  by (simp_all add: raw_fbcon_def fbcon_gencursor_def Let_def)

lemma fbcon_create_raw:
  "fbcon_create vesa_ops (cherry_byte other) fbd = console_clear (fbcon_ops vesa_ops) (raw_fbcon other fbd)"
  by (simp add: fbcon_create_def raw_fbcon_def fbcon_dimensions_def fbcon_gencursor_def Let_def base_colour_map_def)

lemma raw_glyph:
  assumes "32 \<le> unat c" "unat c < 128"
  shows "fbcon_glyph (raw_fbcon other fbd) c = cherry_glyph 0xffffff 0x0000ff c"
  using cherry_bit [OF assms, of _ _ other]
  by (simp add: fbcon_glyph_def bitmap_cell_def char_bitmap_def raw_fbcon_fields cherry_glyph_def)

lemma raw_ok:
  assumes "vesa_ok fbd" "7 \<le> fbwidth fbd" "13 \<le> fbheight fbd"
  shows "fbcon_ok vesa_ok (raw_fbcon other fbd)"
proof -
  have "fbwidth fbd div 7 * 7 \<le> fbwidth fbd" "fbheight fbd div 13 * 13 \<le> fbheight fbd" by linarith+
  moreover have "0 < fbwidth fbd div 7" "0 < fbheight fbd div 13" using assms by linarith+
  moreover have "\<not> bitmap_bit (char_bitmap (raw_fbcon other fbd) 32) 1 (int x) (int y)" if "x < 7" "y < 13" for x y
    using cherry_bit [of 32 x y other] cherry_blank [OF that(2)] that by (simp add: char_bitmap_def raw_fbcon_fields)
  ultimately show ?thesis using assms(1) by (simp add: fbcon_ok_def raw_fbcon_fields)
qed

lemma made_blank:
  assumes "vesa_ok fbd" "7 \<le> fbwidth fbd" "13 \<le> fbheight fbd"
  shows "\<exists>con. fbcon_create vesa_ops (cherry_byte other) fbd = Inr con \<and> fbcon_ok vesa_ok con \<and> cursor_in con
    \<and> cwidth con = fbwidth fbd div 7 \<and> cheight con = fbheight fbd div 13
    \<and> screen_of (fbcon_cell vesa_ops) con = \<lparr>tx = 0, ty = 0,
        rows = replicate (nat (fbheight fbd div 13)) (replicate (nat (fbwidth fbd div 7)) (cherry_glyph 0xffffff 0x0000ff 32))\<rparr>
    \<and> fbcon_glyph con = fbcon_glyph (raw_fbcon other fbd)"
proof -
  have "0 < cwidth (raw_fbcon other fbd)" "0 < cheight (raw_fbcon other fbd)"
    using assms(2, 3) unfolding raw_fbcon_fields by linarith+
  from vesa.cells.clear_displays [OF raw_ok [OF assms] this] show ?thesis
    unfolding vesa.cells.displays_def fbcon_create_raw by (auto simp: raw_fbcon_fields raw_glyph)
qed

text \<open>
  C38: The console created on a 32-bit VBE framebuffer with room for a character has its width over 7
  columns and its height over 13 rows, all blank, the cursor in the corner; it is well-formed, so text is drawn on it
  as on the abstract terminal, and every ASCII character from the blank on looks as the table of the font has it,
  white on blue.
\<close>

theorem fbcon_starts_blank:
  assumes "vesa_ok fbd" "7 \<le> fbwidth fbd" "13 \<le> fbheight fbd"
  shows "\<exists>con. fbcon_create vesa_ops (cherry_byte other) fbd = Inr con \<and> fbcon_ok vesa_ok con \<and> cursor_in con
    \<and> cwidth con = fbwidth fbd div 7 \<and> cheight con = fbheight fbd div 13
    \<and> screen_of (fbcon_cell vesa_ops) con = \<lparr>tx = 0, ty = 0,
        rows = replicate (nat (fbheight fbd div 13)) (replicate (nat (fbwidth fbd div 7)) (cherry_glyph 0xffffff 0x0000ff 32))\<rparr>
    \<and> (\<forall>c. 32 \<le> unat c \<and> unat c < 128 \<longrightarrow> fbcon_glyph con c = cherry_glyph 0xffffff 0x0000ff c)"
  using made_blank [OF assms, of other] raw_glyph [of _ other fbd] by metis

section \<open>The change of the console\<close>

lemma d_sizes: "aligned_size 44 = 64" "aligned_size 96 = 128" "aligned_size 13 = 64" "aligned_size 4 = 64" "aligned_size 12 = 64"
  by (simp_all add: aligned_size_def)

interpretation screens: heap_holder "\<lambda>st :: 'f screens mgr. d_heap (rest st)" d_with_heap
  by unfold_locales (simp add: d_with_heap_def)

definition d_ready :: "'f screens mgr \<Rightarrow> u32 set \<Rightarrow> nat \<Rightarrow> bool" where
  "d_ready st L k \<longleftrightarrow> holds (d_heap (rest st)) L k"

lemma d_alloc_ready:
  assumes "d_ready st L (24 + unat (aligned_size n) + k)" "aligned_size n \<noteq> 0" "unat (aligned_size n) \<le> 4000"
  obtains p h where "d_alloc n st = Some (Inr (p, st\<lparr>rest := (rest st)\<lparr>d_heap := h\<rparr>\<rparr>))" "p \<notin> L"
    "d_ready (st\<lparr>rest := (rest st)\<lparr>d_heap := h\<rparr>\<rparr>) (insert p L) k"
  by (rule screens.alloc_ready [OF assms(1) [unfolded d_ready_def] assms(2, 3)])
    (rule that, simp_all add: d_alloc_def d_ready_def d_with_heap_def)

lemma d_allocz_ready:
  assumes "d_ready st L (24 + unat (aligned_size n) + k)" "aligned_size n \<noteq> 0" "unat (aligned_size n) \<le> 4000"
  obtains p h where "d_allocz n st = Some (Inr (p, st\<lparr>rest := (rest st)\<lparr>d_heap := h\<rparr>\<rparr>))" "p \<notin> L"
    "d_ready (st\<lparr>rest := (rest st)\<lparr>d_heap := h\<rparr>\<rparr>) (insert p L) k"
  by (rule screens.allocz_ready [OF assms(1) [unfolded d_ready_def] assms(2, 3)])
    (rule that, simp_all add: d_allocz_def d_ready_def d_with_heap_def)

lemma d_free_ready:
  assumes "d_ready st (insert p L) k" "p \<notin> L"
  obtains h where "d_free p st = Inr (st\<lparr>rest := (rest st)\<lparr>d_heap := h\<rparr>\<rparr>)" "d_ready (st\<lparr>rest := (rest st)\<lparr>d_heap := h\<rparr>\<rparr>) L k"
  by (rule screens.free_ready [OF assms(1) [unfolded d_ready_def] assms(2)])
    (rule that, simp_all add: d_free_def d_ready_def d_with_heap_def)

text \<open>A framebuffer console that was just made for a framebuffer: blank, and known to the driver manager by its name.\<close>

definition blank_console :: "fbcon_code \<Rightarrow> vesa_state screens mgr \<Rightarrow> u32 \<Rightarrow> cstring \<Rightarrow> int \<Rightarrow> int \<Rightarrow> bool" where
  "blank_console code st d name w h \<longleftrightarrow> dev_name (device_at st d) = name \<and> dev_type (device_at st d) = DEVICE_TYPE_CON
     \<and> dev_destroy (device_at st d) = at_fbcon_destroy code \<and> dev_setparam (device_at st d) = at_fbcon_setparam code
     \<and> dev_inform (device_at st d) = at_fbcon_inform code
     \<and> (let con = fbcon_at (rest st) (internal_dev (device_at st d)) in fbcon_ok vesa_ok con \<and> cursor_in con
        \<and> screen_of (fbcon_cell vesa_ops) con = \<lparr>tx = 0, ty = 0,
            rows = replicate (nat (h div 13)) (replicate (nat (w div 7)) (cherry_glyph 0xffffff 0x0000ff 32))\<rparr>)"

definition d_same :: "u32 set \<Rightarrow> 'f screens mgr \<Rightarrow> 'f screens mgr \<Rightarrow> bool" where
  "d_same L st st' \<longleftrightarrow> (\<forall>x \<in> L. device_at st' x = device_at st x \<and> fbcon_at (rest st') x = fbcon_at (rest st) x
     \<and> con_chardev_at (rest st') x = con_chardev_at (rest st) x)"

lemma new_fbcon:
  assumes "d_ready st L (480 + k)" "vesa_ok (fbdev_at (rest st) fbd)" "7 \<le> fbwidth (fbdev_at (rest st) fbd)"
    "13 \<le> fbheight (fbdev_at (rest st) fbd)" "set (devices st) \<subseteq> L" "i < 512"
    "device_get_first_available_suffix (lit ''fbcon'') st = Inr i"
  obtains d L' st' where "fbcon_new code vesa_ops fbd st = Some (Inr (d, st'))" "L \<subseteq> L'" "d \<in> L'" "d \<notin> L" "d_ready st' L' k"
    "blank_console code st' d (lit ''fbcon'' @ radix_text 10 i) (fbwidth (fbdev_at (rest st) fbd)) (fbheight (fbdev_at (rest st) fbd))"
    "internal_dev (device_at st' d) \<in> L'" "internal_dev (device_at st' d) \<notin> L" "d_same L st st'"
    "devices st' = devices st" "drivers st' = drivers st" "driver_at st' = driver_at st" "the_stdout (rest st') = the_stdout (rest st)"
proof -
  have s1: "d_ready st L (24 + unat (aligned_size 44) + (392 + k))" using assms(1) by (simp add: d_sizes)
  obtain con h1 where 1: "d_alloc 44 st = Some (Inr (con, st\<lparr>rest := (rest st)\<lparr>d_heap := h1\<rparr>\<rparr>))" "con \<notin> L"
    "d_ready (st\<lparr>rest := (rest st)\<lparr>d_heap := h1\<rparr>\<rparr>) (insert con L) (392 + k)"
    by (rule d_alloc_ready [OF s1]) (simp_all add: d_sizes)
  let ?st1 = "st\<lparr>rest := (rest st)\<lparr>d_heap := h1\<rparr>\<rparr>"
  have s2: "d_ready ?st1 (insert con L) (24 + unat (aligned_size 96) + (240 + k))" using 1(3) by (simp add: d_sizes)
  obtain pr h2 where 2: "d_alloc 96 ?st1 = Some (Inr (pr, ?st1\<lparr>rest := (rest ?st1)\<lparr>d_heap := h2\<rparr>\<rparr>))" "pr \<notin> insert con L"
    "d_ready (?st1\<lparr>rest := (rest ?st1)\<lparr>d_heap := h2\<rparr>\<rparr>) (insert pr (insert con L)) (240 + k)"
    by (rule d_alloc_ready [OF s2]) (simp_all add: d_sizes)
  let ?st2 = "st\<lparr>rest := (rest st)\<lparr>d_heap := h2\<rparr>\<rparr>"
  have s3: "d_ready ?st2 (insert pr (insert con L)) (24 + unat (aligned_size 13) + (152 + k))" using 2(3) by (simp add: d_sizes)
  obtain bmp h3 where 3: "d_allocz 13 ?st2 = Some (Inr (bmp, ?st2\<lparr>rest := (rest ?st2)\<lparr>d_heap := h3\<rparr>\<rparr>))" "bmp \<notin> insert pr (insert con L)"
    "d_ready (?st2\<lparr>rest := (rest ?st2)\<lparr>d_heap := h3\<rparr>\<rparr>) (insert bmp (insert pr (insert con L))) (152 + k)"
    by (rule d_allocz_ready [OF s3]) (simp_all add: d_sizes)
  let ?st3 = "st\<lparr>rest := (rest st)\<lparr>d_heap := h3\<rparr>\<rparr>" and ?L3 = "insert bmp (insert pr (insert con L))"
  have s4: "d_ready ?st3 ?L3 (24 + unat (aligned_size 96) + k)" using 3(3) by (simp add: d_sizes)
  obtain d h4 where 4: "d_allocz 96 ?st3 = Some (Inr (d, ?st3\<lparr>rest := (rest ?st3)\<lparr>d_heap := h4\<rparr>\<rparr>))" "d \<notin> ?L3"
    "d_ready (?st3\<lparr>rest := (rest ?st3)\<lparr>d_heap := h4\<rparr>\<rparr>) (insert d ?L3) k"
    by (rule d_allocz_ready [OF s4]) (simp_all add: d_sizes)
  obtain v where v: "fbcon_create vesa_ops (cherry_byte (beside_font code)) (fbdev_at (rest st) fbd) = Inr v" "fbcon_ok vesa_ok v"
    "cursor_in v" "screen_of (fbcon_cell vesa_ops) v = \<lparr>tx = 0, ty = 0, rows = replicate (nat (fbheight (fbdev_at (rest st) fbd) div 13))
      (replicate (nat (fbwidth (fbdev_at (rest st) fbd) div 7)) (cherry_glyph 0xffffff 0x0000ff 32))\<rparr>"
    using made_blank [OF assms(2-4)] by blast
  let ?name = "lit ''fbcon'' @ radix_text 10 i"
  let ?dev = "zero_device\<lparr>dev_destroy := at_fbcon_destroy code, dev_setparam := at_fbcon_setparam code,
     dev_inform := at_fbcon_inform code, internal_dev := con\<rparr>"
  let ?st4 = "st\<lparr>device_at := (device_at st)(d := ?dev),
     rest := (rest st)\<lparr>d_heap := h4, con_priv_at := (con_priv_at (rest st))(con := pr), fb_at := (fb_at (rest st))(pr := fbd),
       bitmap_at := (bitmap_at (rest st))(pr := bmp)\<rparr>\<rparr>"
  have sfx: "device_get_first_available_suffix (lit ''fbcon'') ?st4 = Inr i"
    by (subst suffix_cong [of _ st]) (use assms(5, 7) 4(2) in auto)
  have "sint (of_nat i :: u32) = int i" using assms(6) by (simp add: signed_of_nat signed_take_bit_int_eq_self)
  then have name: "format_text (\<lambda>_. []) (lit ''fbcon%d'') [of_nat i] = Inr ?name" by (simp add: lit_def format_steps decimal_radix)
  let ?st5 = "st\<lparr>device_at := (device_at st)(d := ?dev\<lparr>dev_name := ?name, num_subdevices := 0, subdevices := None, dev_type := DEVICE_TYPE_CON\<rparr>),
     rest := (rest ?st4)\<lparr>fbcon_at := (fbcon_at (rest st))(con := v), fbdev_at := (fbdev_at (rest st))(fbd := fb (priv v))\<rparr>\<rparr>"
  have run: "fbcon_new code vesa_ops fbd st = Some (Inr (d, ?st5))"
    using 1(1) 2(1) 3(1) 4(1) sfx name v(1) by (simp add: fbcon_new_def Let_def)
  show ?thesis
    by (rule that [OF run, of "insert d ?L3"])
      (use 1(2) 2(2) 3(2) 4(2, 3) v(2-4) in \<open>auto simp: blank_console_def d_same_def d_ready_def Let_def\<close>)
qed

lemma find_prefix: "find P xs = Some x \<Longrightarrow> find P (xs @ ys) = Some x"
  by (induction xs) (auto split: if_splits)

lemma get_by_name_more:
  assumes "device_get_by_name name st = Some x" "devices st' = devices st @ new"
    "\<And>y. y \<in> set (devices st) \<Longrightarrow> dev_name (device_at st' y) = dev_name (device_at st y)"
  shows "device_get_by_name name st' = Some x"
proof -
  have "find (\<lambda>dev. strdiff name (dev_name (device_at st' dev)) = 0) (devices st) = Some x"
    using assms(1) unfolding device_get_by_name_def by (rule trans [rotated]) (rule find_cong, simp_all add: assms(3))
  then show ?thesis by (simp add: device_get_by_name_def assms(2) find_prefix)
qed

text \<open>A device without subdevices and without a function to destroy it is only taken from the list.\<close>

lemma deregister_plain:
  assumes "device \<in> set (devices st)" "subdevices (device_at st device) = None" "dev_destroy (device_at st device) = 0"
  shows "device_deregister c device st = Some (Inr (True, st\<lparr>devices := remove1 device (devices st)\<rparr>))"
  using assms by (subst device_deregister.simps) simp

definition con_plain :: "'f screens mgr \<Rightarrow> bool" where
  "con_plain st \<longleftrightarrow> (\<forall>drv \<in> set (drivers st). depends_on (driver_at st drv) \<noteq> DEVICE_TYPE_CON)"

text \<open>A framebuffer that no console is bound to, beside the text console \<open>vga0\<close> that is in use.\<close>

definition unbound_fb :: "vesa_state screens mgr \<Rightarrow> u32 set \<Rightarrow> u32 \<Rightarrow> u32 \<Rightarrow> bool" where
  "unbound_fb st L dev vga \<longleftrightarrow> set (devices st) \<subseteq> L \<and> the_stdout (rest st) \<notin> L \<and> dev \<in> set (devices st)
     \<and> dev_type (device_at st dev) = DEVICE_TYPE_FRAMEBUFFER \<and> subdevices (device_at st dev) = None
     \<and> vesa_ok (fbdev_at (rest st) (internal_dev (device_at st dev)))
     \<and> 7 \<le> fbwidth (fbdev_at (rest st) (internal_dev (device_at st dev)))
     \<and> 13 \<le> fbheight (fbdev_at (rest st) (internal_dev (device_at st dev)))
     \<and> device_get_by_name (lit ''vga0'') st = Some vga \<and> vga \<noteq> dev \<and> subdevices (device_at st vga) = None \<and> dev_destroy (device_at st vga) = 0
     \<and> (\<forall>d \<in> set (devices st). take 5 (dev_name (device_at st d)) \<noteq> lit ''fbcon'')"

definition taken_over :: "fbcon_code \<Rightarrow> u32 set \<Rightarrow> u32 \<Rightarrow> u32 \<Rightarrow> vesa_state screens mgr \<Rightarrow> vesa_state screens mgr \<Rightarrow> u32 \<Rightarrow> bool" where
  "taken_over code L dev vga st st' new \<longleftrightarrow> new \<notin> L \<and> devices st' = remove1 vga (devices st) @ [new]
     \<and> (let fbd = fbdev_at (rest st) (internal_dev (device_at st dev)) in
        blank_console code st' new (lit ''fbcon0'') (fbwidth fbd) (fbheight fbd))
     \<and> device_at st' dev = (device_at st dev)\<lparr>subdevices := Some [new], num_subdevices := 1\<rparr>
     \<and> the_console (rest st') = internal_dev (device_at st' new)
     \<and> con_chardev_at (rest st') (the_stdout (rest st')) = \<lparr>cc_putc = at_chardev_putc code, cc_getc = 0, cc_priv = the_console (rest st')\<rparr>
     \<and> d_same (L - {dev}) st st'"

lemma callback_takes_over:
  assumes ready: "d_ready st (insert (the_stdout (rest st)) L) 656" and plain: "con_plain st" and u: "unbound_fb st L dev vga"
  shows "\<exists>new st'. fbcon_dev_foreach_callback code vesa_ops c dev st = Some (Inr st') \<and> taken_over code L dev vga st st' new"
proof -
  let ?out = "the_stdout (rest st)" and ?fbd = "internal_dev (device_at st dev)"
  have u': "set (devices st) \<subseteq> insert ?out L" "?out \<notin> L" "dev \<in> set (devices st)" "dev \<in> L"
    "vesa_ok (fbdev_at (rest st) ?fbd)" "7 \<le> fbwidth (fbdev_at (rest st) ?fbd)" "13 \<le> fbheight (fbdev_at (rest st) ?fbd)"
    "device_get_by_name (lit ''vga0'') st = Some vga" "vga \<noteq> dev" "subdevices (device_at st vga) = None" "dev_destroy (device_at st vga) = 0"
    using u by (auto simp: unbound_fb_def)
  have vga: "vga \<in> set (devices st)" using u'(8) unfolding device_get_by_name_def find_Some_iff by auto
  have len: "length (lit ''fbcon'') = 5" by (simp add: lit_def)
  have sfx: "device_get_first_available_suffix (lit ''fbcon'') st = Inr 0"
    by (rule next_suffix) (use u in \<open>auto simp: unbound_fb_def len\<close>)
  have r0: "d_ready st (insert ?out L) (480 + 176)" using ready by simp
  obtain d L1 st1 where 1: "fbcon_new code vesa_ops ?fbd st = Some (Inr (d, st1))" "insert ?out L \<subseteq> L1" "d \<in> L1" "d \<notin> insert ?out L"
    "d_ready st1 L1 176" "blank_console code st1 d (lit ''fbcon'' @ radix_text 10 0) (fbwidth (fbdev_at (rest st) ?fbd)) (fbheight (fbdev_at (rest st) ?fbd))"
    "internal_dev (device_at st1 d) \<in> L1" "internal_dev (device_at st1 d) \<notin> insert ?out L" "d_same (insert ?out L) st st1"
    "devices st1 = devices st" "drivers st1 = drivers st" "driver_at st1 = driver_at st" "the_stdout (rest st1) = ?out"
    by (rule new_fbcon [OF r0 u'(5-7) u'(1) _ sfx]) simp_all
  have s2: "d_ready st1 L1 (24 + unat (aligned_size 4) + 88)" using 1(5) by (simp add: d_sizes)
  obtain p h2 where 2: "d_alloc 4 st1 = Some (Inr (p, st1\<lparr>rest := (rest st1)\<lparr>d_heap := h2\<rparr>\<rparr>))" "p \<notin> L1"
    "d_ready (st1\<lparr>rest := (rest st1)\<lparr>d_heap := h2\<rparr>\<rparr>) (insert p L1) 88"
    by (rule d_alloc_ready [OF s2]) (simp_all add: d_sizes)
  let ?st2 = "st1\<lparr>rest := (rest st1)\<lparr>d_heap := h2\<rparr>, device_at := (device_at st1)(dev := (device_at st1 dev)\<lparr>subdevices := Some [d], num_subdevices := 1\<rparr>)\<rparr>"
  let ?st3 = "?st2\<lparr>devices := devices st @ [d]\<rparr>" and ?st4 = "?st2\<lparr>devices := remove1 vga (devices st) @ [d]\<rparr>"
  have same1: "\<And>x. x \<in> insert ?out L \<Longrightarrow> device_at st1 x = device_at st x" using 1(9) unfolding d_same_def by blast
  have dd: "d \<noteq> dev" "vga \<in> L" "vga \<in> insert ?out L" using 1(4) u'(4) vga u unfolding unbound_fb_def by auto
  have con: "dev_type (device_at st1 d) = DEVICE_TYPE_CON" using 1(6) by (simp add: blank_console_def)
  have reg: "device_register c d ?st2 = Some (Inr ?st3)"
    using register_plain [of ?st2 d c] plain con dd 1(10-12) by (simp add: con_plain_def)
  have name: "device_get_by_name (lit ''vga0'') ?st3 = Some vga"
    by (rule get_by_name_more [OF u'(8)]) (use same1 u'(1) in auto)
  have dereg: "device_deregister c vga ?st3 = Some (Inr (True, ?st4))"
    using deregister_plain [of vga ?st3 c] vga u'(9-11) same1 [OF dd(3)] by (simp add: remove1_append)
  have getc: "device_get_console d ?st4 = Inr (internal_dev (device_at st1 d))"
    using con dd by (simp add: device_get_console_def device_get_internal_def)
  let ?con = "internal_dev (device_at st1 d)" and ?L2 = "insert p L1 - {?out}"
  let ?st5 = "?st4\<lparr>rest := (rest ?st4)\<lparr>the_console := ?con\<rparr>\<rparr>"
  have "insert ?out ?L2 = insert p L1" using 1(2) by auto
  then have r5: "d_ready ?st5 (insert ?out ?L2) 88" using 2(3) by (simp add: d_ready_def)
  obtain h5 where 5: "d_free ?out ?st5 = Inr (?st5\<lparr>rest := (rest ?st5)\<lparr>d_heap := h5\<rparr>\<rparr>)" "d_ready (?st5\<lparr>rest := (rest ?st5)\<lparr>d_heap := h5\<rparr>\<rparr>) ?L2 88"
    by (rule d_free_ready [OF r5]) simp_all
  have s6: "d_ready (?st5\<lparr>rest := (rest ?st5)\<lparr>d_heap := h5\<rparr>\<rparr>) ?L2 (24 + unat (aligned_size 12) + 0)" using 5(2) by (simp add: d_sizes)
  obtain q h6 where 6: "d_alloc 12 (?st5\<lparr>rest := (rest ?st5)\<lparr>d_heap := h5\<rparr>\<rparr>) = Some (Inr (q, ?st5\<lparr>rest := (rest ?st5)\<lparr>d_heap := h6\<rparr>\<rparr>))" "q \<notin> ?L2"
    by (rule d_alloc_ready [OF s6]) (simp_all add: d_sizes)
  let ?st' = "?st5\<lparr>rest := console_get_chardev code ?con q ((rest ?st5)\<lparr>d_heap := h6, the_stdout := q\<rparr>)\<rparr>"
  have use: "use_console code ?con ?st4 = Some (Inr ?st')"
    using 5(1) 6(1) 1(13) by (simp add: use_console_def Let_def console_get_chardev_def)
  have run: "fbcon_dev_foreach_callback code vesa_ops c dev st = Some (Inr ?st')"
    unfolding fbcon_dev_foreach_callback_def Let_def
    using u u' 1(1) 2(1) reg name dereg getc use by (simp add: unbound_fb_def fbcon_dev_foreach_callback_def)
  have "dev_name (device_at st1 d) = lit ''fbcon0''" using 1(6) by (simp add: blank_console_def radix_text_def lit_def)
  then have b: "blank_console code st1 d (lit ''fbcon0'') (fbwidth (fbdev_at (rest st) ?fbd)) (fbheight (fbdev_at (rest st) ?fbd))"
    using 1(6) by (simp add: blank_console_def)
  have "taken_over code L dev vga st ?st' d"
    unfolding taken_over_def Let_def
  proof (intro conjI)
    show "d \<notin> L" using 1(4) by simp
    show "blank_console code ?st' d (lit ''fbcon0'') (fbwidth (fbdev_at (rest st) ?fbd)) (fbheight (fbdev_at (rest st) ?fbd))"
      using b dd(1) by (simp add: blank_console_def console_get_chardev_def)
    show "device_at ?st' dev = (device_at st dev)\<lparr>subdevices := Some [d], num_subdevices := 1\<rparr>" using same1 [of dev] u'(4) by simp
    show "the_console (rest ?st') = internal_dev (device_at ?st' d)" using dd(1) by (simp add: console_get_chardev_def)
    have "q \<notin> L" using 6(2) 1(2) u'(2) by auto
    then show "d_same (L - {dev}) st ?st'" using 1(9) by (auto simp: d_same_def console_get_chardev_def)
  qed (simp_all add: console_get_chardev_def)
  then show ?thesis using run by blast
qed



lemma callback_skip:
  "dev_type (device_at st d) \<noteq> DEVICE_TYPE_FRAMEBUFFER \<or> subdevices (device_at st d) \<noteq> None \<Longrightarrow>
    fbcon_dev_foreach_callback code fops c d st = Some (Inr st)"
  by (auto simp: fbcon_dev_foreach_callback_def Let_def)

lemma foreach_to:
  assumes "n \<le> length (get st)" "\<And>j. j < n \<Longrightarrow> f (get st ! j) st = Some (Inr st)"
  shows "foreach_from get f 0 st = foreach_from get f n st"
  using assms
proof (induction n)
  case (Suc n)
  have "foreach_from get f n st = foreach_from get f (Suc n) st"
    using Suc.prems(1) Suc.prems(2) [of n] by (subst foreach_from.simps) simp
  then show ?case using Suc by simp
qed simp


definition cell_vesa :: "vesa_state fbdev" where
  "cell_vesa = \<lparr>fbwidth = 7, fbheight = 13, fbbpp = 32, fbpriv = \<lparr>vp = \<lparr>vwidth = 7, vheight = 13, bits_per_pixel = 32,
     bytes_per_pixel = 4, pitch = 28, framebuffer = 0x1000, backbuffer = 0x2000\<rparr>, vmem = (\<lambda>_. 0)\<rparr>\<rparr>"

lemma cell_vesa_ok: "vesa_ok cell_vesa"
proof -
  have "apart 0x1000 0x2000 364"
    unfolding apart_def in_block_def unat_diff_u32 by auto
  then show ?thesis by (simp add: vesa_ok_def cell_vesa_def)
qed

theorem fbcon_starts_blank_witness:
  "\<exists>con. fbcon_create vesa_ops (cherry_byte (\<lambda>_. 0)) cell_vesa = Inr con
    \<and> screen_of (fbcon_cell vesa_ops) con = \<lparr>tx = 0, ty = 0, rows = [[cherry_glyph 0xffffff 0x0000ff 32]]\<rparr>"
  using fbcon_starts_blank [OF cell_vesa_ok, of "\<lambda>_. 0"] by (auto simp: cell_vesa_def)

definition two_screens :: "alloc_state \<Rightarrow> u32 \<Rightarrow> u32 \<Rightarrow> u32 \<Rightarrow> vesa_state screens mgr" where
  "two_screens h out vga dev = \<lparr>drivers = [0x500], devices = [vga, dev], driver_at = (\<lambda>_. fbcon_driver 0x600),
     device_at = (\<lambda>x. if x = dev then zero_device\<lparr>dev_name := lit ''vesafb0'', dev_type := DEVICE_TYPE_FRAMEBUFFER, internal_dev := 0x700\<rparr>
       else zero_device\<lparr>dev_name := lit ''vga0'', dev_type := DEVICE_TYPE_CON, internal_dev := 0x710\<rparr>),
     rest = \<lparr>d_heap = h, fbdev_at = (\<lambda>_. cell_vesa), fbcon_at = (\<lambda>_. tiny_fbcon), con_priv_at = (\<lambda>_. 0), fb_at = (\<lambda>_. 0),
       bitmap_at = (\<lambda>_. 0), con_chardev_at = (\<lambda>_. \<lparr>cc_putc = 0, cc_getc = 0, cc_priv = 0\<rparr>), the_console = 0x710, the_stdout = out\<rparr>\<rparr>"


end
