(* ===== verification/Gdt.thy ===== *)
theory Gdt
  imports Cmem
begin

text \<open>
  The segment descriptors (\<open>kern/sys/gdt.c\<close>): the table of the kernel encoded into the bytes that the
  processor reads. The instructions that load it (\<open>lgdt\<close>, the far jump) are not modelled.
\<close>

unbundle bit_operations_syntax

section \<open>The code\<close>

record gdt_entry =
  gbase :: u32
  glimit :: u32
  gtype :: u32
  gflags :: u32

definition GDT_GRANULARITY :: u32 where "GDT_GRANULARITY = 0x80"
definition GDT_SIZE :: u32 where "GDT_SIZE = 0x40"

definition GDT_TYPE :: "u32 \<Rightarrow> u32 \<Rightarrow> u32 \<Rightarrow> u32 \<Rightarrow> u32 \<Rightarrow> u32" where
  "GDT_TYPE rw dc executable segtype priv = push_bit 1 (rw AND 1) OR push_bit 2 (dc AND 1) OR push_bit 3 (executable AND 1)
     OR push_bit 4 (segtype AND 1) OR push_bit 6 (priv AND 2) OR 0x80"

definition gdt :: "gdt_entry list" where
  "gdt =
    [\<lparr>gbase = 0, glimit = 0, gtype = 0, gflags = 0\<rparr>,
     \<lparr>gbase = 0, glimit = 0xffffffff, gtype = GDT_TYPE 1 0 1 1 0, gflags = GDT_SIZE\<rparr>,
     \<lparr>gbase = 0, glimit = 0xffffffff, gtype = GDT_TYPE 1 0 0 1 0, gflags = GDT_SIZE\<rparr>,
     \<lparr>gbase = 0, glimit = 0xffff, gtype = GDT_TYPE 1 0 1 1 0, gflags = 0xb0\<rparr>,
     \<lparr>gbase = 0, glimit = 0xffff, gtype = GDT_TYPE 1 0 0 1 0, gflags = 0xb0\<rparr>]"

text \<open>The last byte of the base is the truth value of \<open>&&\<close>.\<close>

definition encode_entry :: "mem \<Rightarrow> u32 \<Rightarrow> gdt_entry \<Rightarrow> mem" where
  "encode_entry m dst src =
     (let (src, m) = (if 65536 < glimit src
            then (src\<lparr>glimit := drop_bit 12 (glimit src)\<rparr>, m(dst + 6 := ucast GDT_GRANULARITY))
            else (src, m(dst + 6 := 0)));
          m = m(dst + 5 := ucast (gtype src));
          m = m(dst := ucast (glimit src AND 0xff));
          m = m(dst + 1 := ucast (drop_bit 8 (glimit src) AND 0xff));
          m = m(dst + 6 := m (dst + 6) OR ucast (drop_bit 16 (glimit src) AND 0x0f));
          m = m(dst + 6 := m (dst + 6) OR ucast (gflags src AND 0xf0));
          m = m(dst + 2 := ucast (gbase src AND 0xff));
          m = m(dst + 3 := ucast (drop_bit 8 (gbase src) AND 0xff));
          m = m(dst + 4 := ucast (drop_bit 16 (gbase src) AND 0xff))
      in m(dst + 7 := (if drop_bit 24 (gbase src) \<noteq> 0 \<and> (0xff :: u32) \<noteq> 0 then 1 else 0)))"

definition encode :: "u32 \<Rightarrow> mem \<Rightarrow> mem" where
  "encode gdt_buffer m = fold (\<lambda>i m. encode_entry m (gdt_buffer + of_nat (i * 8)) (gdt ! i)) [0..<length gdt] m"

text \<open>\<open>gdt_init\<close> up to the load: the table and the pointer for \<open>lgdt\<close>, its limit and base.\<close>

definition gdt_init :: "u32 \<Rightarrow> mem \<Rightarrow> (u16 \<times> u32) \<times> mem" where
  "gdt_init gdt_buffer m = ((of_nat (8 * length gdt), gdt_buffer), encode gdt_buffer m)"

section \<open>What the processor reads\<close>

definition desc_base :: "mem \<Rightarrow> u32 \<Rightarrow> u32" where
  "desc_base m p = ucast (m (p + 2)) OR push_bit 8 (ucast (m (p + 3))) OR push_bit 16 (ucast (m (p + 4)))
     OR push_bit 24 (ucast (m (p + 7)))"

definition desc_granular :: "mem \<Rightarrow> u32 \<Rightarrow> bool" where
  "desc_granular m p \<longleftrightarrow> bit (m (p + 6)) 7"

definition desc_limit :: "mem \<Rightarrow> u32 \<Rightarrow> u32" where
  "desc_limit m p = (let l = ucast (m p) OR push_bit 8 (ucast (m (p + 1))) OR push_bit 16 (ucast (m (p + 6) AND 0x0f))
     in if desc_granular m p then push_bit 12 l OR 0xfff else l)"

definition desc_access :: "mem \<Rightarrow> u32 \<Rightarrow> u8" where
  "desc_access m p = m (p + 5)"

text \<open>The flags above the limit: granularity, operand size, long mode, available.\<close>

definition desc_flags :: "mem \<Rightarrow> u32 \<Rightarrow> u8" where
  "desc_flags m p = m (p + 6) AND 0xf0"

lemma encode_byte6:
  "encode_entry m p e (p + 6) = (if 65536 < glimit e then 0x80 OR ucast (drop_bit 28 (glimit e) AND 0x0f) else ucast (drop_bit 16 (glimit e) AND 0x0f))
     OR ucast (gflags e AND 0xf0)"
  by (simp add: encode_entry_def Let_def GDT_GRANULARITY_def)

lemma small_bits: "(w :: u32) \<le> 65536 \<Longrightarrow> bit w n \<Longrightarrow> n < 17"
proof -
  assume w: "w \<le> 65536" "bit w n"
  then have "bit (unat w) n" using bit_imp_le_length [of w n] by (simp add: bit_unsigned_iff)
  moreover have "take_bit 17 (unat w) = unat w" using w(1) by (intro take_bit_nat_eq_self) (simp add: word_le_nat_alt)
  ultimately show "n < 17" by (metis bit_take_bit_iff)
qed

lemma mask_words:
  "(0xfff :: int) = mask 12" "(0x0f :: int) = mask 4" "(0xff :: int) = mask 8" "(0xf0 :: int) = push_bit 4 (mask 4)"
  "(0x80 :: int) = push_bit 7 1"
  by (simp_all add: mask_eq_exp_minus_1)

lemma bit_masks: "bit (0xfff :: int) n \<longleftrightarrow> n < 12" "bit (0x0f :: int) n \<longleftrightarrow> n < 4"
    "bit (0xf0 :: int) n \<longleftrightarrow> 4 \<le> n \<and> n < 8" "bit (0x80 :: int) n \<longleftrightarrow> n = 7" "bit (0xff :: int) n \<longleftrightarrow> n < 8"
  unfolding mask_words bit_push_bit_iff bit_mask_iff bit_1_iff by auto

lemma encode_bytes:
  "encode_entry m p e p = ucast (if 65536 < glimit e then drop_bit 12 (glimit e) else glimit e)"
  "encode_entry m p e (p + 1) = ucast (drop_bit 8 (if 65536 < glimit e then drop_bit 12 (glimit e) else glimit e))"
  "encode_entry m p e (p + 2) = ucast (gbase e)" "encode_entry m p e (p + 3) = ucast (drop_bit 8 (gbase e))"
  "encode_entry m p e (p + 4) = ucast (drop_bit 16 (gbase e))" "encode_entry m p e (p + 5) = ucast (gtype e)"
  "encode_entry m p e (p + 7) = (if drop_bit 24 (gbase e) \<noteq> 0 then 1 else 0)"
  by (simp_all add: encode_entry_def Let_def) (auto intro!: bit_word_eqI simp: bit_simps bit_masks)

lemma flag_7: "(f :: u32) AND 0x80 \<noteq> 0 \<longleftrightarrow> bit f 7"
  using and_exp_eq_0_iff_not_bit [of f 7] by simp

lemma encode_granular: "desc_granular (encode_entry m p e) p \<longleftrightarrow> 65536 < glimit e \<or> gflags e AND 0x80 \<noteq> 0"
  unfolding desc_granular_def encode_byte6 flag_7 by (auto simp: bit_simps bit_masks)

text \<open>The bits of the limit that the entry keeps.\<close>

lemma byte6_low: "encode_entry m p e (p + 6) AND 0x0f =
    ucast (drop_bit 16 (if 65536 < glimit e then drop_bit 12 (glimit e) else glimit e) AND 0x0f)"
  unfolding encode_byte6 by (rule bit_word_eqI) (auto simp: bit_simps bit_masks)

lemma bytes_20: "(ucast (ucast l :: u8) :: u32) OR push_bit 8 (ucast (ucast (drop_bit 8 l) :: u8))
    OR push_bit 16 (ucast (ucast (drop_bit 16 l AND 0x0f) :: u8)) = take_bit 20 (l :: u32)"
proof (rule bit_word_eqI)
  fix n :: nat
  assume "n < LENGTH(32)"
  consider "n < 8" | "8 \<le> n" "n < 16" | "16 \<le> n" "n < 20" | "20 \<le> n" "n < 24" | "24 \<le> n" by linarith
  then show "bit ((ucast (ucast l :: u8) :: u32) OR push_bit 8 (ucast (ucast (drop_bit 8 l) :: u8))
    OR push_bit 16 (ucast (ucast (drop_bit 16 l AND 0x0f) :: u8))) n = bit (take_bit 20 l) n"
    by cases (simp_all add: bit_simps bit_masks less_diff_conv2 not_less, (auto simp: bit_simps bit_masks less_diff_conv2 not_less)?)
qed

lemma encode_limit:
  "desc_limit (encode_entry m p e) p = (if 65536 < glimit e then glimit e OR 0xfff
     else if gflags e AND 0x80 \<noteq> 0 then push_bit 12 (glimit e) OR 0xfff else glimit e)"
proof (cases "65536 < glimit e")
  case True
  have "push_bit 12 (take_bit 20 (drop_bit 12 (glimit e))) OR 0xfff = glimit e OR 0xfff"
    by (rule bit_word_eqI) (auto simp: bit_simps bit_masks less_diff_conv2)
  then show ?thesis using True
    unfolding desc_limit_def Let_def encode_granular byte6_low encode_bytes bytes_20 by simp
next
  case False
  then have "take_bit 20 (glimit e) = glimit e"
    using small_bits [of "glimit e"] by (intro bit_word_eqI) (fastforce simp: bit_simps)
  then show ?thesis using False
    unfolding desc_limit_def Let_def encode_granular byte6_low encode_bytes bytes_20 by simp
qed

lemma encode_base:
  "desc_base (encode_entry m p e) p = take_bit 24 (gbase e) OR (if drop_bit 24 (gbase e) \<noteq> 0 then 0x1000000 else 0)"
proof -
  have "(ucast (ucast (gbase e) :: u8) :: u32) OR push_bit 8 (ucast (ucast (drop_bit 8 (gbase e)) :: u8))
      OR push_bit 16 (ucast (ucast (drop_bit 16 (gbase e)) :: u8)) = take_bit 24 (gbase e)"
  proof (rule bit_word_eqI)
    fix n :: nat
    assume "n < LENGTH(32)"
    consider "n < 8" | "8 \<le> n" "n < 16" | "16 \<le> n" "n < 24" | "24 \<le> n" by linarith
    then show "bit ((ucast (ucast (gbase e) :: u8) :: u32) OR push_bit 8 (ucast (ucast (drop_bit 8 (gbase e)) :: u8))
      OR push_bit 16 (ucast (ucast (drop_bit 16 (gbase e)) :: u8))) n = bit (take_bit 24 (gbase e)) n"
      by cases (simp_all add: bit_simps less_diff_conv2 not_less, (auto simp: bit_simps less_diff_conv2 not_less)?)
  qed
  then show ?thesis unfolding desc_base_def encode_bytes by (simp flip: or.assoc)
qed

lemma encode_flags: "desc_flags (encode_entry m p e) p = (if 65536 < glimit e then 0x80 else 0) OR ucast (gflags e AND 0xf0)"
  unfolding desc_flags_def encode_byte6 by (rule bit_word_eqI) (auto simp: bit_simps bit_masks)

lemma encode_access: "desc_access (encode_entry m p e) p = ucast (gtype e)"
  by (simp add: desc_access_def encode_bytes)

lemma encode_entry_frame: "a - p \<ge> 8 \<Longrightarrow> encode_entry m p e a = m a"
proof -
  have "\<not> (8 :: u32) \<le> 1" by (simp add: word_le_nat_alt)
  then show "8 \<le> a - p \<Longrightarrow> encode_entry m p e a = m a" by (auto simp: encode_entry_def Let_def)
qed

text \<open>The descriptors only look at their eight bytes.\<close>

lemma desc_cong:
  assumes "\<And>k. k < 8 \<Longrightarrow> m (p + k) = m' (p + k)"
  shows "desc_base m p = desc_base m' p \<and> desc_limit m p = desc_limit m' p \<and> desc_access m p = desc_access m' p \<and> desc_flags m p = desc_flags m' p"
  using assms [of 0] assms [of 1] assms [of 2] assms [of 3] assms [of 4] assms [of 5] assms [of 6] assms [of 7]
  by (simp add: desc_base_def desc_limit_def desc_access_def desc_flags_def desc_granular_def)

lemma encode_entry_indep:
  assumes "k < 8" shows "encode_entry m p e (p + k) = encode_entry m' p e (p + k)"
proof -
  have "unat k < 8" using assms by (simp add: word_less_nat_alt)
  then consider "k = 0" | "k = 1" | "k = 2" | "k = 3" | "k = 4" | "k = 5" | "k = 6" | "k = 7"
    unfolding word_unat_eq_iff [of k] by simp linarith
  then show ?thesis by cases (simp_all add: encode_bytes encode_byte6)
qed

lemma encode_upto:
  fixes buf :: u32
  assumes "n \<le> 5" "i < n" "k < 8"
  defines "d \<equiv> buf + of_nat (i * 8)"
  shows "fold (\<lambda>i m. encode_entry m (buf + of_nat (i * 8)) (gdt ! i)) [0..<n] m (d + k) = encode_entry m d (gdt ! i) (d + k)"
  using assms(1, 2)
proof (induction n)
  case (Suc n)
  show ?case
  proof (cases "i = n")
    case True
    then show ?thesis using encode_entry_indep [OF assms(3)] by (simp add: d_def)
  next
    case False
    have k: "unat k < 8" using assms(3) by (simp add: word_less_nat_alt)
    have n: "i < n" "n < 5" using False Suc.prems by auto
    let ?j = "int (i * 8 + unat k) - int (n * 8)"
    have p: "(2 :: int) ^ 32 = 4294967296" by simp
    have j: "- 32 \<le> ?j" "?j \<le> - 1" using n k by linarith+
    have "d + k - (buf + of_nat (n * 8)) = of_nat (i * 8) + of_nat (unat k) - of_nat (n * 8)" by (simp add: d_def)
    also have "\<dots> = of_int ?j" by simp
    finally have "uint (d + k - (buf + of_nat (n * 8))) = ?j mod 2 ^ 32"
      by (simp only: uint_word_of_int) simp
    also have "\<dots> = (?j + 2 ^ 32) mod 2 ^ 32" by simp
    also have "\<dots> = ?j + 2 ^ 32"
    proof (rule mod_pos_pos_trivial)
      show "0 \<le> ?j + 2 ^ 32" using j(1) p by linarith
      show "?j + 2 ^ 32 < 2 ^ 32" using j(2) p by linarith
    qed
    finally have "8 \<le> uint (d + k - (buf + of_nat (n * 8)))" using j(1) p by linarith
    then have "8 \<le> d + k - (buf + of_nat (n * 8))" unfolding word_le_def by simp
    then show ?thesis using Suc n by (simp add: encode_entry_frame)
  qed
qed simp

lemma gdt_length: "length gdt = 5" by (simp add: gdt_def)

lemma encode_descriptors:
  fixes buf :: u32
  assumes "i < 5"
  defines "d \<equiv> buf + of_nat (i * 8)"
  shows "desc_base (encode buf m) d = desc_base (encode_entry m d (gdt ! i)) d \<and> desc_limit (encode buf m) d = desc_limit (encode_entry m d (gdt ! i)) d
    \<and> desc_access (encode buf m) d = desc_access (encode_entry m d (gdt ! i)) d \<and> desc_flags (encode buf m) d = desc_flags (encode_entry m d (gdt ! i)) d"
  unfolding d_def encode_def gdt_length by (rule desc_cong, rule encode_upto) (use assms(1) in simp_all)


end
