(* ===== verification/Loader.thy ===== *)
theory Loader
  imports Cmem
begin

text \<open>
  The second stage of the boot loader in C (\<open>loader/stage2_hl.c\<close>): it moves the kernel to the address it is linked
  for, clears its uninitialised data and tells it where memory is free. The symbols that the linker
  defines are a record of addresses. What the first stage and the BIOS put into memory is the memory at the start.
\<close>

unbundle bit_operations_syntax

section \<open>The code\<close>

record linked =
  kload_addr :: u32
  kphys_addr :: u32
  kend :: u32
  kbss_end :: u32

record kstart_info =
  drive_number :: u8
  free_memory :: u32
  memory_start :: u32

text \<open>The loader's own copies of the library functions; a count of 0 runs no instruction.\<close>

definition stage2_memcpy :: "mem \<Rightarrow> u32 \<Rightarrow> u32 \<Rightarrow> u32 \<Rightarrow> mem" where
  "stage2_memcpy m dst src len = fst ((movsb ^^ unat (len AND 3)) ((movsl ^^ unat (len div 4)) (m, src, dst)))"

definition stage2_memset :: "mem \<Rightarrow> u32 \<Rightarrow> u8 \<Rightarrow> u32 \<Rightarrow> mem" where
  "stage2_memset m memory v len = rep_stosb (unat len) m memory v"

text \<open>The fields of the packed \<open>struct startup_info\<close> that are read.\<close>

definition extended2 :: "mem \<Rightarrow> u32 \<Rightarrow> u16" where "extended2 m s = load16 m (s + 2)"
definition startup_drive :: "mem \<Rightarrow> u32 \<Rightarrow> u16" where "startup_drive m s = load16 m (s + 8)"

text \<open>\<open>stage2_hl\<close> up to the call of \<open>kernel_main\<close>: the argument of that call and the memory.\<close>

definition stage2_hl :: "linked \<Rightarrow> u32 \<Rightarrow> mem \<Rightarrow> kstart_info \<times> mem" where
  "stage2_hl lk start_info m =
     (let ksize = kend lk - kload_addr lk;
          m = stage2_memcpy m (kload_addr lk) (kphys_addr lk) ksize;
          m = stage2_memset m (kend lk) 0 (kbss_end lk - kend lk)
      in (\<lparr>drive_number = ucast (startup_drive m start_info), free_memory = ucast (extended2 m start_info), memory_start = kbss_end lk\<rparr>, m))"

section \<open>What the kernel finds\<close>

lemma stage2_memcpy_eq: "apart dst src (unat len) \<Longrightarrow> stage2_memcpy m dst src len = copied m dst src (unat len)"
  unfolding stage2_memcpy_def by (intro rep_movs_eq) (simp_all add: memcpy_counts)

text \<open>
  The image is at its address, what follows it up to the end of the uninitialised data is zero, nothing else
  changed, and the information is that of the first stage, cut to the types of the fields.
\<close>

lemma stage2_loads:
  assumes "apart (kload_addr lk) (kphys_addr lk) (unat (kend lk - kload_addr lk))" "kload_addr lk \<le> kend lk" "kend lk \<le> kbss_end lk"
    and "\<And>a. in_block a s 10 \<Longrightarrow> \<not> in_block a (kload_addr lk) (unat (kbss_end lk - kload_addr lk))"
  shows "fst (stage2_hl lk s m) = \<lparr>drive_number = ucast (startup_drive m s), free_memory = ucast (extended2 m s), memory_start = kbss_end lk\<rparr>"
    "snd (stage2_hl lk s m) a = (if in_block a (kload_addr lk) (unat (kend lk - kload_addr lk)) then m (kphys_addr lk + (a - kload_addr lk))
       else if in_block a (kend lk) (unat (kbss_end lk - kend lk)) then 0 else m a)"
proof -
  let ?n = "unat (kend lk - kload_addr lk)" and ?k = "unat (kbss_end lk - kend lk)"
  have split: "in_block a (kload_addr lk) (?n + ?k) \<longleftrightarrow> in_block a (kload_addr lk) ?n \<or> in_block a (kend lk) ?k"
    and excl: "in_block a (kload_addr lk) ?n \<Longrightarrow> \<not> in_block a (kend lk) ?k" for a
  proof -
    have "?n + ?k \<le> 4294967296" using assms(2, 3) unat_lt_2p32 [of "kbss_end lk"] by (simp add: word_le_nat_alt unat_sub del: unat_lt_2p32)
    then show "in_block a (kload_addr lk) (?n + ?k) \<longleftrightarrow> in_block a (kload_addr lk) ?n \<or> in_block a (kend lk) ?k"
      "in_block a (kload_addr lk) ?n \<Longrightarrow> \<not> in_block a (kend lk) ?k"
      using in_block_split [of ?n ?k a "kload_addr lk"] in_block_split_excl [of ?n ?k a "kload_addr lk"] by simp_all
  qed
  have sum: "unat (kbss_end lk - kload_addr lk) = ?n + ?k" using assms(2, 3) by (simp add: word_le_nat_alt unat_sub)
  have m: "snd (stage2_hl lk s m) = (\<lambda>a. if in_block a (kload_addr lk) ?n then m (kphys_addr lk + (a - kload_addr lk))
       else if in_block a (kend lk) ?k then 0 else m a)"
    using excl by (auto simp: stage2_hl_def Let_def stage2_memcpy_eq [OF assms(1)] stage2_memset_def rep_stosb_eq copied_def fun_eq_iff)
  then show "snd (stage2_hl lk s m) a = (if in_block a (kload_addr lk) ?n then m (kphys_addr lk + (a - kload_addr lk))
       else if in_block a (kend lk) ?k then 0 else m a)" by simp
  have same: "snd (stage2_hl lk s m) (s + i) = m (s + i)" if "unat i < 10" for i
    using assms(4) [OF in_block_offset [OF that, of s]] split [of "s + i"] by (simp add: m sum)
  have "load16 (snd (stage2_hl lk s m)) (s + i) = load16 m (s + i)" if "unat i < 9" for i
    using same [of i] same [of "i + 1"] that by (intro load16_cong) (simp_all add: unat_add_u32 add.assoc)
  then show "fst (stage2_hl lk s m) = \<lparr>drive_number = ucast (startup_drive m s), free_memory = ucast (extended2 m s), memory_start = kbss_end lk\<rparr>"
    by (simp add: stage2_hl_def Let_def startup_drive_def extended2_def)
qed

end
