(* ===== verification/Start.thy ===== *)
theory Start
  imports Boot Displays Gdt Loader
begin

text \<open>
  The start of the kernel (\<open>kernel_main\<close> of \<open>kern/kernel.c\<close>), called by the loader (theory Loader), up to the call of \<open>main\<close>: the
  parts of the kernel are initialised one after the other over one state. The functions that the symbol
  table of the kernel names, which register the drivers, are a parameter. The stack is the address that the
  stack pointer is set to. The log is left out.
\<close>

section \<open>The code\<close>

text \<open>
  The state of the kernel with the register of the segment table, the variables of the allocator, the device
  manager and the variables of \<open>kernel.c\<close>; \<open>cmem\<close> is the memory of all of them.
\<close>

record ('h, 'i, 'x) up = "('h, 'i) kern" +
  gdtr :: "u16 \<times> u32"
  heap_start :: u32
  heap_head :: u32
  heap_bytes :: u32
  devs :: "'x mgr"
  stdout_var :: u32
  stdin_var :: u32
  dbgout_var :: u32
  console_var :: u32
  chardevs :: "u32 \<Rightarrow> con_chardev"
  sinfo :: kstart_info
  stack_top :: u32

definition heap_of :: "('h, 'i, 'x) up \<Rightarrow> alloc_state" where
  "heap_of st = \<lparr>ram = cmem st, mem_start = heap_start st, head = heap_head st, mem_size = heap_bytes st\<rparr>"

definition with_heap :: "alloc_state \<Rightarrow> ('h, 'i, 'x) up \<Rightarrow> ('h, 'i, 'x) up" where
  "with_heap h st = st\<lparr>cmem := ram h, heap_start := mem_start h, heap_head := head h, heap_bytes := mem_size h\<rparr>"

text \<open>The state as theory Mod has it, and back.\<close>

definition mods_view :: "('h, 'i, 'x) up \<Rightarrow> ('h, 'i, 'x) up modm" where
  "mods_view st = (heap_of st, \<lparr>links = links (smods st), exports = exports (smods st), modules = modules (smods st), outside = st\<rparr>)"

definition merged :: "('h, 'i, 'x) up modm \<Rightarrow> ('h, 'i, 'x) up" where
  "merged x = (let (h, w) = x in
     with_heap h ((outside w)\<lparr>smods := \<lparr>links = links w, exports = exports w, modules = modules w, outside = ()\<rparr>\<rparr>))"

definition in_mods :: "(('h, 'i, 'x) up modm \<Rightarrow> ('h, 'i, 'x) up modm outcome option) \<Rightarrow> ('h, 'i, 'x) up \<Rightarrow> ('h, 'i, 'x) up outcome option" where
  "in_mods f st = run_bind (f (mods_view st)) (\<lambda>x. Some (Inr (merged x)))"

definition call_in :: "(u32 \<Rightarrow> ('h, 'i, 'x) up \<Rightarrow> ('h, 'i, 'x) up outcome option) \<Rightarrow> u32 \<Rightarrow> ('h, 'i, 'x) up modm \<Rightarrow> ('h, 'i, 'x) up modm outcome option" where
  "call_in call f x = run_bind (call f (merged x)) (\<lambda>st. Some (Inr (mods_view st)))"

text \<open>The getter of a device found by its name; without such a device it reads through \<open>NULL\<close>.\<close>

definition named_device :: "string \<Rightarrow> (u32 \<Rightarrow> 'x mgr \<Rightarrow> u32 outcome) \<Rightarrow> ('h, 'i, 'x) up \<Rightarrow> u32 outcome option" where
  "named_device name get st = (case device_get_by_name (lit name) (devs st) of
     None \<Rightarrow> Some (Inl WildAccess) | Some d \<Rightarrow> Some (get d (devs st)))"

text \<open>Addresses in the image: tables, variables, functions and string literals.\<close>

record image =
  at_gdt_buffer :: u32
  kexp_start :: u32
  kexp_end :: u32
  at_stdout :: u32
  at_stdin :: u32
  at_console_putc :: u32
  at_keyboard_getc :: u32
  at_literal :: "string \<Rightarrow> u32"
  at_stub :: "int \<Rightarrow> u32"

definition STACK_MAGIC :: u32 where "STACK_MAGIC = 0xc0ffebad"

definition keyboard_get_chardev :: "image \<Rightarrow> u32 \<Rightarrow> ('h, 'i, 'x) up \<Rightarrow> ('h, 'i, 'x) up" where
  "keyboard_get_chardev img dev st =
     st\<lparr>chardevs := (chardevs st)(dev := \<lparr>cc_putc = 0, cc_getc = at_keyboard_getc img, cc_priv = 0\<rparr>)\<rparr>"

definition early_console :: "image \<Rightarrow> u32 \<Rightarrow> ('h, 'i, 'x) up \<Rightarrow> ('h, 'i, 'x) up outcome option" where
  "early_console img con st =
     (let st = st\<lparr>console_var := con\<rparr> in
      run_bind (alloc_in heap_of with_heap 12 st) (\<lambda>(out, st).
        Some (Inr (st\<lparr>stdout_var := out, chardevs := (chardevs st)
          (out := \<lparr>cc_putc = at_console_putc img, cc_getc = 0, cc_priv = con\<rparr>)\<rparr>))))"

definition input_device :: "image \<Rightarrow> ('h, 'i, 'x) up \<Rightarrow> ('h, 'i, 'x) up outcome option" where
  "input_device img st =
     run_bind (alloc_in heap_of with_heap 12 (keyboard_init st)) (\<lambda>(inp, st).
       Some (Inr (keyboard_get_chardev img inp (st\<lparr>stdin_var := inp\<rparr>))))"

definition new_stack :: "('h, 'i, 'x) up \<Rightarrow> ('h, 'i, 'x) up outcome option" where
  "new_stack st =
     run_bind (alloc_in heap_of with_heap (32 * 1024) st) (\<lambda>(stack, st).
       Some (Inr (st\<lparr>cmem := store32 (cmem st) stack STACK_MAGIC, stack_top := stack + 32 * 1024\<rparr>)))"

definition kernel_main :: "image \<Rightarrow> 'h ports \<Rightarrow> (u32 \<Rightarrow> ('h, 'i, 'x) up \<Rightarrow> ('h, 'i, 'x) up outcome option) \<Rightarrow> kstart_info
    \<Rightarrow> ('h, 'i, 'x) up \<Rightarrow> ('h, 'i, 'x) up outcome option" where
  "kernel_main img io call start_info st =
     (let st = st\<lparr>stdout_var := 0, dbgout_var := 0, console_var := 0\<rparr> in
      run_bind (Some (interrupts_init io (at_stub img) st)) (\<lambda>(_, st).
      let (pointer, m) = gdt_init (at_gdt_buffer img) (cmem st);
          st = st\<lparr>cmem := m, gdtr := pointer\<rparr>;
          st = with_heap (init_alloc (heap_of st) (memory_start start_info) (free_memory start_info * 64 * 1024)) st;
          st = st\<lparr>devs := driver_init (devs st)\<rparr> in
      run_bind (in_mods (\<lambda>x. Some (mod_init x)) st) (\<lambda>st.
      let st = st\<lparr>kconf := config_init (kconf st)\<rparr>;
          ksymtab_size = kexp_end img - kexp_start img in
      run_bind (in_mods (mod_ksymtab_early_init (call_in call) (kexp_start img) ksymtab_size) st) (\<lambda>st.
      run_bind (named_device ''sp0'' device_get_chardev st) (\<lambda>dbg.
      run_bind (in_mods (mod_ksymtab_add (call_in call) (kexp_start img) ksymtab_size) (st\<lparr>dbgout_var := dbg\<rparr>)) (\<lambda>st.
      run_bind (named_device ''vga0'' device_get_console st) (\<lambda>con.
      run_bind (early_console img con st) (\<lambda>st.
      run_bind (input_device img (syscall_init st)) (\<lambda>st.
      run_bind (new_stack (st\<lparr>sinfo := start_info\<rparr>)) (\<lambda>st.
        kernel_late_init io (at_literal img) (at_stdout img) (at_stdin img) st))))))))))"

section \<open>One state, several views\<close>

lemma heap_view [simp]:
  "heap_of (with_heap h st) = h" "with_heap (heap_of st) st = st" "merged (mods_view st) = st" "fst (mods_view st) = heap_of st"
  "heap_of (merged x) = fst x" "links (smods (merged x)) = links (snd x)" "exports (smods (merged x)) = exports (snd x)"
  "modules (smods (merged x)) = modules (snd x)" "links (snd (mods_view st)) = links (smods st)"
  "exports (snd (mods_view st)) = exports (smods st)" "modules (snd (mods_view st)) = modules (smods st)"
  by (simp_all add: heap_of_def with_heap_def merged_def mods_view_def split: prod.split)

interpretation started: heap_holder heap_of with_heap
  by unfold_locales simp

text \<open>In units of a small block of 64 bytes with its header.\<close>

lemma space_node_room: "space h bs (88 * k) \<Longrightarrow> node_room h bs k"
  by (simp add: space_def node_room_def)

lemma node_room_space: "node_room h bs k \<Longrightarrow> unat (mem_start h) + unat (mem_size h) + 4096 < 4294967296 \<Longrightarrow> space h bs (88 * k)"
  by (simp add: space_def node_room_def)

lemma mods_ok_kept:
  assumes "mods_ok x bs ns ms" "heap (fst y) bs'" "\<And>c. c \<in> set bs \<Longrightarrow> \<not> bfree c \<Longrightarrow> c \<in> set bs'" "mem_start (fst y) = mem_start (fst x)"
    and "links (snd y) = links (snd x)" "exports (snd y) = exports (snd x)" "modules (snd y) = modules (snd x)"
  shows "mods_ok y bs' ns ms"
  using assms unfolding mods_ok_def by metis

lemma merged_update:
  "merged (h\<lparr>ram := m\<rparr>, w\<lparr>links := l\<rparr>) = (merged (h, w))\<lparr>cmem := m, smods := (smods (merged (h, w)))\<lparr>links := l\<rparr>\<rparr>"
  by (cases "outside w") (simp add: merged_def with_heap_def)

lemma has_prefix_cstr: "cstr m q t \<Longrightarrow> cstring_ok p \<Longrightarrow> has_prefix p m q \<longleftrightarrow> take (length p) t = p"
  by (induction p arbitrary: q t) (case_tac t; auto)+

section \<open>The functions of the symbol table\<close>

text \<open>A device of that name and type is the one that its name finds.\<close>

definition found :: "'x mgr \<Rightarrow> string \<times> int \<Rightarrow> bool" where
  "found g = (\<lambda>(n, t). \<exists>d. device_get_by_name (lit n) g = Some d \<and> dev_type (device_at g d) = t)"

text \<open>
  What the kernel relies on of an initialisation function: on a device manager that satisfies the
  invariant \<open>I\<close> and with room for \<open>k\<close> blocks it returns, the devices \<open>D\<close> are found afterwards, those found before still are,
  and outside the devices and the ports it only uses memory that it asked the allocator for.
\<close>

definition init_fn :: "('x mgr \<Rightarrow> bool) \<Rightarrow> (u32 \<Rightarrow> ('h, 'i, 'x) up \<Rightarrow> ('h, 'i, 'x) up outcome option) \<Rightarrow> u32 \<Rightarrow> nat \<Rightarrow> (string \<times> int) set \<Rightarrow> bool" where
  "init_fn I call f k D \<longleftrightarrow> (\<forall>st bs r. I (devs st) \<and> heap (heap_of st) bs \<and> space (heap_of st) bs (88 * (k + r)) \<longrightarrow>
     (\<exists>m h g bs'. call f st = Some (Inr (st\<lparr>cmem := m, chw := h, devs := g\<rparr>))
        \<and> heap ((heap_of st)\<lparr>ram := m\<rparr>) bs' \<and> space ((heap_of st)\<lparr>ram := m\<rparr>) bs' (88 * r)
        \<and> (\<forall>c \<in> set bs. \<not> bfree c \<longrightarrow> c \<in> set bs') \<and> (\<forall>a. safe (heap_of st) bs a \<longrightarrow> m a = cmem st a)
        \<and> I g \<and> (\<forall>x. x \<in> D \<or> found (devs st) x \<longrightarrow> found g x)))"

definition early_symbol :: "cstring \<Rightarrow> bool" where
  "early_symbol t \<longleftrightarrow> take (length EXPORT_MOD_EARLY_INIT_PREFIX) t = EXPORT_MOD_EARLY_INIT_PREFIX"

definition init_symbol :: "cstring \<Rightarrow> bool" where
  "init_symbol t \<longleftrightarrow> take (length EXPORT_MOD_INIT_PREFIX) t = EXPORT_MOD_INIT_PREFIX"

definition plain_symbol :: "cstring \<times> u32 \<Rightarrow> bool" where
  "plain_symbol x \<longleftrightarrow> \<not> init_symbol (fst x) \<and> \<not> early_symbol (fst x)"

lemma prefixes_ok: "cstring_ok EXPORT_MOD_INIT_PREFIX" "cstring_ok EXPORT_MOD_EARLY_INIT_PREFIX"
  by (simp_all add: EXPORT_MOD_INIT_PREFIX_def EXPORT_MOD_EARLY_INIT_PREFIX_def lit_def)

text \<open>The state after some rounds over the symbol table: what may have changed since \<open>base\<close>, and room for \<open>n\<close> more blocks.\<close>

definition so_far :: "('x mgr \<Rightarrow> bool) \<Rightarrow> (u32 \<Rightarrow> bool) \<Rightarrow> ('h, 'i, 'x) up \<Rightarrow> (cstring \<times> u32) list \<Rightarrow> nat \<Rightarrow> (string \<times> int) set
    \<Rightarrow> ('h, 'i, 'x) up modm \<Rightarrow> bool" where
  "so_far I K base xs n F x \<longleftrightarrow> (\<exists>m h g ls bs ns ms.
     merged x = base\<lparr>cmem := m, chw := h, devs := g, smods := (smods base)\<lparr>links := ls\<rparr>\<rparr>
     \<and> mods_ok x bs ns ms \<and> space (fst x) bs (88 * n) \<and> (\<forall>a. K a \<longrightarrow> m a = cmem base a) \<and> symbols K m ls ns xs
     \<and> I g \<and> (\<forall>y \<in> F. found g y))"

lemma so_farE:
  assumes "so_far I K base xs n F x"
  obtains m h g ls bs ns ms where "merged x = base\<lparr>cmem := m, chw := h, devs := g, smods := (smods base)\<lparr>links := ls\<rparr>\<rparr>"
    "mods_ok x bs ns ms" "space (fst x) bs (88 * n)" "\<And>a. K a \<Longrightarrow> m a = cmem base a" "symbols K m ls ns xs" "I g" "\<forall>y \<in> F. found g y"
  using assms unfolding so_far_def by blast

text \<open>One round: a function is called, a symbol is exported, or nothing is done.\<close>

lemma call_round:
  assumes "so_far I K base xs (k + n) F x" "init_fn I call f k D" "\<And>a. K a \<Longrightarrow> unat a < unat (heap_start base)"
  obtains x' where "call_in call f x = Some (Inr x')" "so_far I K base xs n (F \<union> D) x'"
proof -
  obtain m h g ls bs ns ms where u: "merged x = base\<lparr>cmem := m, chw := h, devs := g, smods := (smods base)\<lparr>links := ls\<rparr>\<rparr>"
    "mods_ok x bs ns ms" "space (fst x) bs (88 * (k + n))" "\<And>a. K a \<Longrightarrow> m a = cmem base a" "symbols K m ls ns xs" "I g" "\<forall>y \<in> F. found g y"
    using assms(1) unfolding so_far_def by blast
  let ?st = "merged x"
  have "heap (fst x) bs" using u(2) by (simp add: mods_ok_def)
  then obtain m' h' g' bs' where c: "call f ?st = Some (Inr (?st\<lparr>cmem := m', chw := h', devs := g'\<rparr>))"
    "heap ((heap_of ?st)\<lparr>ram := m'\<rparr>) bs'" "space ((heap_of ?st)\<lparr>ram := m'\<rparr>) bs' (88 * n)"
    "\<And>c. c \<in> set bs \<Longrightarrow> \<not> bfree c \<Longrightarrow> c \<in> set bs'" "\<And>a. safe (heap_of ?st) bs a \<Longrightarrow> m' a = cmem ?st a"
    "I g'" "\<And>y. y \<in> D \<or> found (devs ?st) y \<Longrightarrow> found g' y"
  proof -
    have g: "devs ?st = g" using u(1) by simp
    from \<open>heap (fst x) bs\<close> have "I (devs ?st) \<and> heap (heap_of ?st) bs \<and> space (heap_of ?st) bs (88 * (k + n))" using u(3, 6) g by simp
    from mp [OF spec [OF spec [OF spec [OF assms(2) [unfolded init_fn_def]]]] this] show thesis using that by blast
  qed
  let ?x = "mods_view (?st\<lparr>cmem := m', chw := h', devs := g'\<rparr>)"
  have v: "fst ?x = (heap_of ?st)\<lparr>ram := m'\<rparr>" "links (snd ?x) = links (snd x)" "exports (snd ?x) = exports (snd x)" "modules (snd ?x) = modules (snd x)"
    by (simp_all add: heap_of_def)
  have start: "mem_start (fst x) = heap_start base" using arg_cong [OF heap_view(5) [of x], of mem_start] unfolding u(1) by (simp add: heap_of_def)
  have g: "devs ?st = g" using u(1) by simp
  have same: "m' a = cmem base a" if "K a" for a
    using c(5) [of a] assms(3) [OF that] u(1) u(4) [OF that] start by (simp add: safe_def heap_of_def)
  have "so_far I K base xs n (F \<union> D) ?x"
    unfolding so_far_def
  proof (intro exI conjI)
    show "merged ?x = base\<lparr>cmem := m', chw := h', devs := g', smods := (smods base)\<lparr>links := ls\<rparr>\<rparr>" by (simp add: u(1))
    show "mods_ok ?x bs' ns ms" by (rule mods_ok_kept [OF u(2)]) (use v c in simp_all)
    show "space (fst ?x) bs' (88 * n)" using c(3) v(1) by simp
    show "\<forall>a. K a \<longrightarrow> m' a = cmem base a" using same by blast
    show "symbols K m' ls ns xs" by (rule symbols_cong [OF u(5)]) (simp_all add: same u(4))
  qed (use c(6, 7) u(7) g in auto)
  then show ?thesis using that c(1) by (simp add: call_in_def)
qed

lemma export_round:
  assumes "so_far I K base xs (Suc n) F x" "symbol_in K (cmem base) s y" "\<And>a. K a \<Longrightarrow> unat a < unat (heap_start base)"
  obtains x' where "module_sym_add s x = Some (Inr x')" "so_far I K base (xs @ [y]) n F x'"
proof -
  obtain m h g ls bs ns ms where u: "merged x = base\<lparr>cmem := m, chw := h, devs := g, smods := (smods base)\<lparr>links := ls\<rparr>\<rparr>"
    "mods_ok x bs ns ms" "space (fst x) bs (88 * Suc n)" "\<And>a. K a \<Longrightarrow> m a = cmem base a" "symbols K m ls ns xs" "I g" "\<forall>y \<in> F. found g y"
    using assms(1) unfolding so_far_def by blast
  obtain hp w where x: "x = (hp, w)" by force
  have hp: "ram hp = m" "mem_start hp = heap_start base" "links w = ls"
    using arg_cong [OF heap_view(5) [of x], of mem_start] arg_cong [OF heap_view(5) [of x], of ram] heap_view(6) [of x]
    unfolding u(1) by (simp_all add: x heap_of_def)
  obtain m' ls' node bs' where a: "append_symbol exports s (hp, w) = Some (Inr (hp\<lparr>ram := m'\<rparr>, w\<lparr>links := ls'\<rparr>))"
    "mods_ok (hp\<lparr>ram := m'\<rparr>, w\<lparr>links := ls'\<rparr>) bs' (ns @ [node]) ms" "node_room (hp\<lparr>ram := m'\<rparr>) bs' n" "node_value (ls' node) = s"
    "\<And>x. x \<in> set (ns @ ms) \<Longrightarrow> node_value (ls' x) = node_value (links w x)" "\<And>a. safe hp bs a \<Longrightarrow> m' a = ram hp a"
    by (rule append_symbol_ok [of hp w bs ns ms n True s]) (use u(2, 3) x space_node_room in auto)
  have same: "m' a = cmem base a" if "K a" for a
    using a(6) [of a] assms(3) [OF that] u(4) [OF that] hp by (simp add: safe_def)
  have "so_far I K base (xs @ [y]) n F (hp\<lparr>ram := m'\<rparr>, w\<lparr>links := ls'\<rparr>)"
    unfolding so_far_def
  proof (intro exI conjI)
    show "merged (hp\<lparr>ram := m'\<rparr>, w\<lparr>links := ls'\<rparr>) = base\<lparr>cmem := m', chw := h, devs := g, smods := (smods base)\<lparr>links := ls'\<rparr>\<rparr>"
      using u(1) unfolding x merged_update by simp
    show "mods_ok (hp\<lparr>ram := m'\<rparr>, w\<lparr>links := ls'\<rparr>) bs' (ns @ [node]) ms" by (rule a(2))
    show "space (fst (hp\<lparr>ram := m'\<rparr>, w\<lparr>links := ls'\<rparr>)) bs' (88 * n)"
      using node_room_space [OF a(3)] u(3) by (simp add: x space_def)
    show "\<forall>a. K a \<longrightarrow> m' a = cmem base a" using same by blast
    have "symbols K m' ls' ns xs" by (rule symbols_cong [OF u(5)]) (use a(5) hp(3) same u(4) in simp_all)
    moreover have "symbol_in K m' s y" by (rule symbol_in_cong [OF assms(2)]) (rule same)
    ultimately show "symbols K m' ls' (ns @ [node]) (xs @ [y])" using a(4) by (simp add: symbols_def list_all2_appendI)
  qed (use u(6, 7) in auto)
  then show ?thesis using that a(1) by (simp add: module_sym_add_def x)
qed

definition early_round :: "(u32 \<Rightarrow> ('h, 'i, 'x) up \<Rightarrow> ('h, 'i, 'x) up outcome option) \<Rightarrow> u32 \<Rightarrow> ('h, 'i, 'x) up modm \<Rightarrow> ('h, 'i, 'x) up modm outcome option" where
  "early_round call s x = (let m = ram (fst x) in
     if has_prefix EXPORT_MOD_EARLY_INIT_PREFIX m (sym_name m s) then call_in call (sym_fn m s) x else Some (Inr x))"

definition late_round :: "(u32 \<Rightarrow> ('h, 'i, 'x) up \<Rightarrow> ('h, 'i, 'x) up outcome option) \<Rightarrow> u32 \<Rightarrow> ('h, 'i, 'x) up modm \<Rightarrow> ('h, 'i, 'x) up modm outcome option" where
  "late_round call s x = (let m = ram (fst x) in
     if has_prefix EXPORT_MOD_INIT_PREFIX m (sym_name m s) then call_in call (sym_fn m s) x
     else if \<not> has_prefix EXPORT_MOD_EARLY_INIT_PREFIX m (sym_name m s) then module_sym_add s x else Some (Inr x))"

text \<open>The blocks that a round may need, for functions that need \<open>need f\<close>.\<close>

definition early_cost :: "(u32 \<Rightarrow> nat) \<Rightarrow> cstring \<times> u32 \<Rightarrow> nat" where
  "early_cost need y = (if early_symbol (fst y) then need (snd y) else 0)"

definition late_cost :: "(u32 \<Rightarrow> nat) \<Rightarrow> cstring \<times> u32 \<Rightarrow> nat" where
  "late_cost need y = (if init_symbol (fst y) then need (snd y) else if plain_symbol y then 1 else 0)"

lemma so_far_symbol:
  assumes "so_far I K base xs n F x" "symbol_in K (cmem base) s y"
  shows "has_prefix EXPORT_MOD_INIT_PREFIX (ram (fst x)) (sym_name (ram (fst x)) s) \<longleftrightarrow> init_symbol (fst y)"
    "has_prefix EXPORT_MOD_EARLY_INIT_PREFIX (ram (fst x)) (sym_name (ram (fst x)) s) \<longleftrightarrow> early_symbol (fst y)"
    "sym_fn (ram (fst x)) s = snd y"
proof -
  obtain m h g ls where u: "merged x = base\<lparr>cmem := m, chw := h, devs := g, smods := (smods base)\<lparr>links := ls\<rparr>\<rparr>"
    "\<forall>a. K a \<longrightarrow> m a = cmem base a"
    using assms(1) unfolding so_far_def by blast
  have m: "ram (fst x) = m" using arg_cong [OF heap_view(5) [of x], of ram] unfolding u(1) by (simp add: heap_of_def)
  have "symbol_in K m s y" by (rule symbol_in_cong [OF assms(2)]) (use u(2) in blast)
  then have "cstr m (sym_name m s) (fst y)" "sym_fn m s = snd y" by (auto simp: symbol_in_def split: prod.splits)
  then show "has_prefix EXPORT_MOD_INIT_PREFIX (ram (fst x)) (sym_name (ram (fst x)) s) \<longleftrightarrow> init_symbol (fst y)"
    "has_prefix EXPORT_MOD_EARLY_INIT_PREFIX (ram (fst x)) (sym_name (ram (fst x)) s) \<longleftrightarrow> early_symbol (fst y)"
    "sym_fn (ram (fst x)) s = snd y"
    using has_prefix_cstr prefixes_ok by (simp_all add: m init_symbol_def early_symbol_def)
qed

lemma early_step:
  assumes "so_far I K base xs (early_cost need y + n) F x" "symbol_in K (cmem base) s y" "\<And>a. K a \<Longrightarrow> unat a < unat (heap_start base)"
    and "early_symbol (fst y) \<Longrightarrow> init_fn I call (snd y) (need (snd y)) (D (snd y))"
  obtains x' where "early_round call s x = Some (Inr x')" "so_far I K base xs n (F \<union> (if early_symbol (fst y) then D (snd y) else {})) x'"
proof (cases "early_symbol (fst y)")
  case True
  then show ?thesis
    using call_round [OF _ assms(4) [OF True] assms(3), where xs = xs and n = n and F = F and x = x] assms(1) so_far_symbol [OF assms(1, 2)] that
    by (auto simp: early_round_def early_cost_def)
qed (use assms(1) so_far_symbol [OF assms(1, 2)] that in \<open>auto simp: early_round_def early_cost_def\<close>)

lemma late_step:
  assumes "so_far I K base xs (late_cost need y + n) F x" "symbol_in K (cmem base) s y" "\<And>a. K a \<Longrightarrow> unat a < unat (heap_start base)"
    and "init_symbol (fst y) \<Longrightarrow> init_fn I call (snd y) (need (snd y)) (D (snd y))"
  obtains x' where "late_round call s x = Some (Inr x')"
    "so_far I K base (xs @ filter plain_symbol [y]) n (F \<union> (if init_symbol (fst y) then D (snd y) else {})) x'"
proof -
  consider "init_symbol (fst y)" | "\<not> init_symbol (fst y)" "early_symbol (fst y)" | "plain_symbol y" by (auto simp: plain_symbol_def)
  then show ?thesis
  proof cases
    case 1
    then show ?thesis
      using call_round [OF _ assms(4) [OF 1] assms(3), where xs = xs and n = n and F = F and x = x] assms(1) so_far_symbol [OF assms(1, 2)] that
      by (auto simp: late_round_def late_cost_def plain_symbol_def)
  next
    case 2
    then show ?thesis using assms(1) so_far_symbol [OF assms(1, 2)] that by (auto simp: late_round_def late_cost_def plain_symbol_def)
  next
    case 3
    then have "so_far I K base xs (Suc n) F x" using assms(1) by (simp add: late_cost_def plain_symbol_def)
    from export_round [OF this assms(2, 3)] show ?thesis
      using 3 so_far_symbol [OF assms(1, 2)] that by (auto simp: late_round_def plain_symbol_def)
  qed
qed

text \<open>The rounds over a table.\<close>

lemma early_rounds:
  assumes "list_all2 (symbol_in K (cmem base)) ss syms" "\<And>a. K a \<Longrightarrow> unat a < unat (heap_start base)"
    and "\<And>y. y \<in> set syms \<Longrightarrow> early_symbol (fst y) \<Longrightarrow> init_fn I call (snd y) (need (snd y)) (D (snd y))"
    and "so_far I K base xs (sum_list (map (early_cost need) syms) + n) F x"
  shows "\<exists>x'. run_each (early_round call) ss x = Some (Inr x')
    \<and> so_far I K base xs n (F \<union> (\<Union>y \<in> set (filter (\<lambda>y. early_symbol (fst y)) syms). D (snd y))) x'"
  using assms(1, 3, 4)
proof (induction ss syms arbitrary: F x rule: list_all2_induct)
  case (Cons s ss y syms)
  have f: "early_symbol (fst y) \<Longrightarrow> init_fn I call (snd y) (need (snd y)) (D (snd y))" by (rule Cons.prems(1)) simp_all
  have u: "so_far I K base xs (early_cost need y + (sum_list (map (early_cost need) syms) + n)) F x" using Cons.prems(2) by (simp add: add.assoc)
  obtain x1 where 1: "early_round call s x = Some (Inr x1)"
    "so_far I K base xs (sum_list (map (early_cost need) syms) + n) (F \<union> (if early_symbol (fst y) then D (snd y) else {})) x1"
    by (rule early_step [where need = need and D = D and call = call, OF u Cons.hyps(1) assms(2) f]) (assumption | rule that)+
  obtain x' where 2: "run_each (early_round call) ss x1 = Some (Inr x')"
    "so_far I K base xs n ((F \<union> (if early_symbol (fst y) then D (snd y) else {})) \<union> (\<Union>y \<in> set (filter (\<lambda>y. early_symbol (fst y)) syms). D (snd y))) x'"
    using Cons.IH [OF Cons.prems(1) 1(2)] by auto
  have "(F \<union> (if early_symbol (fst y) then D (snd y) else {})) \<union> (\<Union>y \<in> set (filter (\<lambda>y. early_symbol (fst y)) syms). D (snd y))
      = F \<union> (\<Union>y \<in> set (filter (\<lambda>y. early_symbol (fst y)) (y # syms)). D (snd y))"
    by (simp del: set_filter add: Un_assoc)
  then show ?case using 1(1) 2 by (simp del: set_filter)
qed simp

lemma late_rounds:
  assumes "list_all2 (symbol_in K (cmem base)) ss syms" "\<And>a. K a \<Longrightarrow> unat a < unat (heap_start base)"
    and "\<And>y. y \<in> set syms \<Longrightarrow> init_symbol (fst y) \<Longrightarrow> init_fn I call (snd y) (need (snd y)) (D (snd y))"
    and "so_far I K base xs (sum_list (map (late_cost need) syms) + n) F x"
  shows "\<exists>x'. run_each (late_round call) ss x = Some (Inr x')
    \<and> so_far I K base (xs @ filter plain_symbol syms) n (F \<union> (\<Union>y \<in> set (filter (\<lambda>y. init_symbol (fst y)) syms). D (snd y))) x'"
  using assms(1, 3, 4)
proof (induction ss syms arbitrary: xs F x rule: list_all2_induct)
  case (Cons s ss y syms)
  have f: "init_symbol (fst y) \<Longrightarrow> init_fn I call (snd y) (need (snd y)) (D (snd y))" by (rule Cons.prems(1)) simp_all
  have u: "so_far I K base xs (late_cost need y + (sum_list (map (late_cost need) syms) + n)) F x" using Cons.prems(2) by (simp add: add.assoc)
  obtain x1 where 1: "late_round call s x = Some (Inr x1)"
    "so_far I K base (xs @ filter plain_symbol [y]) (sum_list (map (late_cost need) syms) + n) (F \<union> (if init_symbol (fst y) then D (snd y) else {})) x1"
    by (rule late_step [where need = need and D = D and call = call, OF u Cons.hyps(1) assms(2) f]) (assumption | rule that)+
  obtain x' where 2: "run_each (late_round call) ss x1 = Some (Inr x')"
    "so_far I K base ((xs @ filter plain_symbol [y]) @ filter plain_symbol syms) n
      ((F \<union> (if init_symbol (fst y) then D (snd y) else {})) \<union> (\<Union>y \<in> set (filter (\<lambda>y. init_symbol (fst y)) syms). D (snd y))) x'"
    using Cons.IH [OF Cons.prems(1) 1(2)] by auto
  have "(F \<union> (if init_symbol (fst y) then D (snd y) else {})) \<union> (\<Union>y \<in> set (filter (\<lambda>y. init_symbol (fst y)) syms). D (snd y))
      = F \<union> (\<Union>y \<in> set (filter (\<lambda>y. init_symbol (fst y)) (y # syms)). D (snd y))"
    by (simp del: set_filter add: Un_assoc)
  moreover have "(xs @ filter plain_symbol [y]) @ filter plain_symbol syms = xs @ filter plain_symbol (y # syms)" by simp
  ultimately show ?case using 1(1) 2 by (simp del: set_filter)
qed simp

section \<open>The parts before and after the symbol table\<close>

lemma encode_frame:
  assumes "\<not> in_block a buf 40"
  shows "encode buf m a = m a"
proof -
  have "8 \<le> a - (buf + of_nat (i * 8))" if "i < 5" for i
  proof -
    have "40 \<le> unat (a - buf)" using assms by (simp add: in_block_def)
    then have "unat (a - (buf + of_nat (i * 8))) = unat (a - buf) - i * 8"
      using that by (subst dist_shift_u32) auto
    then show ?thesis using \<open>40 \<le> unat (a - buf)\<close> that by (simp add: word_le_nat_alt)
  qed
  then have "fold (\<lambda>i m. encode_entry m (buf + of_nat (i * 8)) (gdt ! i)) [0..<n] m a = m a" if "n \<le> 5" for n
    using that by (induction n) (simp_all add: encode_entry_frame)
  from this [of "length gdt"] show ?thesis by (simp add: encode_def) (simp add: gdt_def)
qed

text \<open>The two lists of theory Mod lie below the heap, in different places.\<close>

definition lists_placed :: "u32 \<Rightarrow> 'w mods \<Rightarrow> bool" where
  "lists_placed start w \<longleftrightarrow> (let A = {exports w, exports w + 12}; B = {modules w, modules w + 12} in
     A \<inter> B = {} \<and> 0 \<notin> A \<union> B \<and> (\<forall>x \<in> A \<union> B. unat x < unat start))"

lemma mod_init_placed:
  assumes "heap h bs" "lists_placed (mem_start h) w"
  obtains ls where "mod_init (h, w) = Inr (h, w\<lparr>links := ls\<rparr>)" "mods_ok (h, w\<lparr>links := ls\<rparr>) bs [] []"
proof -
  obtain l1 where 1: "list_init (links w) (exports w) = Inr l1" "list_rep l1 (exports w) []"
    using init_rep [of "exports w" "links w"] assms(2) by (auto simp: lists_placed_def Let_def)
  obtain l2 where 2: "list_init l1 (modules w) = Inr l2" "list_rep l2 (modules w) []"
    using init_rep [of "modules w" l1] assms(2) by (auto simp: lists_placed_def Let_def)
  have "l2 x = l1 x" if "x \<in> {exports w, exports w + 12}" for x
    using 2(1) assms(2) that unfolding list_init_def assert_that_Inr lists_placed_def Let_def
    by (auto simp: set_nxt_def set_prev_def)
  then have "list_rep l2 (exports w) []" by (intro rep_cong [OF 1(2)]) auto
  then show ?thesis using that 1(1) 2 assms by (simp add: mod_init_def mods_ok_def lists_placed_def Let_def)
qed

text \<open>An allocation in the state of the kernel.\<close>

lemma with_heap_ram: "with_heap ((heap_of st)\<lparr>ram := m\<rparr>) st = st\<lparr>cmem := m\<rparr>"
  by (simp add: with_heap_def heap_of_def)

lemma heap_of_cmem: "(heap_of st)\<lparr>ram := m\<rparr> = heap_of (st\<lparr>cmem := m\<rparr>)"
  by (simp add: heap_of_def)

lemma small_alloc:
  assumes "heap (heap_of st) bs" "space (heap_of st) bs (88 * Suc k)" "live bs L"
  obtains p m bs' where "alloc_in heap_of with_heap 12 st = Some (Inr (p, st\<lparr>cmem := m\<rparr>))" "heap (heap_of (st\<lparr>cmem := m\<rparr>)) bs'"
    "space (heap_of (st\<lparr>cmem := m\<rparr>)) bs' (88 * k)" "p \<notin> L" "live bs' (insert p L)" "\<And>a. unat a < unat (heap_start st) \<Longrightarrow> m a = cmem st a"
proof -
  have s: "space (heap_of st) bs (24 + unat (aligned_size 12) + 88 * k)" using assms(2) by (simp add: aligned_12)
  obtain m q bs' where q: "kalloc (heap_of st) 12 = Some (Inr (at q + 24, (heap_of st)\<lparr>ram := m\<rparr>))" "heap ((heap_of st)\<lparr>ram := m\<rparr>) bs'"
    "q \<in> set bs'" "\<not> bfree q" "bflags q = 0" "\<And>c. c \<in> set bs \<Longrightarrow> \<not> bfree c \<Longrightarrow> c \<in> set bs' \<and> c \<noteq> q"
    "\<And>a. safe (heap_of st) bs a \<Longrightarrow> m a = ram (heap_of st) a" "space ((heap_of st)\<lparr>ram := m\<rparr>) bs' (88 * k)"
    by (rule alloc_space [OF assms(1) s]) (simp_all add: aligned_12)
  have "at c \<noteq> at q" if "c \<in> set bs" "\<not> bfree c" for c
    using q(6) [OF that] layout_at_inj [OF heap_D(4) [OF q(2)]] q(3) by blast
  then have "at q + 24 \<notin> L" using assms(3) unfolding live_def by (metis add_right_cancel)
  moreover have "live bs' (insert (at q + 24) L)" using assms(3) q(3-6) unfolding live_def by blast
  moreover have "m a = cmem st a" if "unat a < unat (heap_start st)" for a using q(7) [of a] that by (simp add: safe_def heap_of_def)
  moreover have "alloc_in heap_of with_heap 12 st = Some (Inr (at q + 24, st\<lparr>cmem := m\<rparr>))" using q(1) by (simp add: alloc_in_def with_heap_ram)
  ultimately show ?thesis using that q(2, 8) unfolding heap_of_cmem by blast
qed

text \<open>The stack is a block of the heap, with the mark in its first word.\<close>

lemma stack_ready:
  assumes "heap (heap_of st) bs" "space (heap_of st) bs (88 * 373)" "live bs L"
    and "unat (heap_start st) + unat (heap_bytes st) + 36864 < 4294967296"
  obtains p m bs' where "new_stack st = Some (Inr (st\<lparr>cmem := m, stack_top := p + 32768\<rparr>))" "heap (heap_of (st\<lparr>cmem := m\<rparr>)) bs'"
    "p \<notin> L" "live bs' (insert p L)" "load32 m p = STACK_MAGIC" "\<And>a. unat a < unat (heap_start st) \<Longrightarrow> m a = cmem st a"
    "\<exists>q \<in> set bs'. p = at q + 24 \<and> 32768 \<le> unat (bsize q)"
proof -
  have a: "aligned_size 32768 = 32768" by (simp add: aligned_size_def)
  have req: "heap_request (heap_of st) 32768" using assms(4) by (simp add: heap_request_def below_top_def a heap_of_def)
  have "unat (heap_start st + heap_bytes st) = unat (heap_start st) + unat (heap_bytes st)"
    using assms(4) by (intro unat_add_u32) simp
  then have r: "room (heap_of st) bs (aligned_size 32768)" using assms(2) by (simp add: room_def space_def word_le_nat_alt heap_of_def)
  obtain m q bs' where q: "kalloc (heap_of st) 32768 = Some (Inr (at q + 24, (heap_of st)\<lparr>ram := m\<rparr>))" "heap ((heap_of st)\<lparr>ram := m\<rparr>) bs'"
    "q \<in> set bs'" "\<not> bfree q" "bflags q = 0" "unat (32768 :: u32) \<le> unat (bsize q)"
    "\<And>c. c \<in> set bs \<Longrightarrow> \<not> bfree c \<Longrightarrow> c \<in> set bs' \<and> c \<noteq> q"
    by (rule kalloc_block [OF assms(1) req r]) blast
  let ?p = "at q + 24" and ?m = "store32 m (at q + 24) STACK_MAGIC"
  have pay: "?m a = m a \<or> payload q a" for a
  proof (cases "4 \<le> a - ?p")
    case False
    then have "in_block a ?p 4" by (simp add: in_block_def word_le_nat_alt)
    then show ?thesis using in_block_mono [of a ?p 4 "unat (bsize q)"] q(6) by (simp add: payload_def)
  qed (simp add: store32_outside)
  have h: "heap (heap_of (st\<lparr>cmem := ?m\<rparr>)) bs'"
    using heap_payload_write [OF q(2), of ?m] pay q(3) by (auto simp: heap_of_def)
  have "at c \<noteq> at q" if "c \<in> set bs" "\<not> bfree c" for c
    using q(7) [OF that] layout_at_inj [OF heap_D(4) [OF q(2)]] q(3) by blast
  then have "?p \<notin> L" using assms(3) unfolding live_def by (metis add_right_cancel)
  have "live bs' (insert ?p L)" using assms(3) q(3-5, 7) unfolding live_def by blast
  have below: "?m a = cmem st a" if "unat a < unat (heap_start st)" for a
  proof -
    have "unat (heap_start st) \<le> unat (at q)" "unat (at q) + 24 + unat (bsize q) < 4294967296"
      using layout_ge [OF heap_D(4) [OF q(2)] q(3)] by (simp_all add: block_end_def heap_of_def)
    then have "\<not> payload q a" using that by (simp add: payload_def in_block_def unat_diff_u32 unat_add_u32)
    then show ?thesis using pay [of a] kalloc_below [OF assms(1) req q(1)] that by (auto simp: heap_of_def)
  qed
  have ns: "new_stack st = Some (Inr (st\<lparr>cmem := ?m, stack_top := ?p + 32768\<rparr>))"
    using q(1) by (simp add: new_stack_def alloc_in_def with_heap_ram)
  have "\<exists>c \<in> set bs'. ?p = at c + 24 \<and> 32768 \<le> unat (bsize c)" using q(3, 6) by auto
  then show ?thesis by (intro that [OF ns h \<open>?p \<notin> L\<close> \<open>live bs' (insert ?p L)\<close> load32_store32_same below])
qed

section \<open>From the loader to \<open>main\<close>\<close>

text \<open>
  The memory that the kernel is started with: the symbol table, of the symbols \<open>syms\<close>, with its names, the table of
  the segments and the two lists below the heap, and room for the blocks that are needed, 375 of them for the
  two character devices and the stack; the variables with an initial value have it.
\<close>

definition boot_ready :: "image \<Rightarrow> kstart_info \<Rightarrow> (u32 \<Rightarrow> nat) \<Rightarrow> (cstring \<times> u32) list \<Rightarrow> ('h, 'i, 'x) up \<Rightarrow> bool" where
  "boot_ready img info need syms st \<longleftrightarrow>
     tables_ok st \<and> length (syscall_table st) = 128 \<and> syscall_max st = 32 \<and> created (kconf st) = 0
     \<and> memory_start info \<noteq> 0 \<and> unat (memory_start info) + 65536 * unat (free_memory info) + 36864 < 4294967296
     \<and> 24 + 88 * (sum_list (map (early_cost need) syms) + (sum_list (map (late_cost need) syms) + 375)) \<le> 65536 * unat (free_memory info)
     \<and> lists_placed (memory_start info) (smods st)
     \<and> (\<forall>a. in_block a (at_gdt_buffer img) 40 \<longrightarrow> unat a < unat (memory_start info))
     \<and> unat (kexp_end img - kexp_start img) div 8 = length syms
     \<and> (\<forall>i < length syms. symbol_in (\<lambda>a. unat a < unat (memory_start info) \<and> \<not> in_block a (at_gdt_buffer img) 40)
          (cmem st) (entry (kexp_start img) i) (syms ! i))"

text \<open>Every initialisation function keeps its contract; one called early finds the debug port, one called later the text console.\<close>

definition drivers_known :: "('x mgr \<Rightarrow> bool) \<Rightarrow> (u32 \<Rightarrow> ('h, 'i, 'x) up \<Rightarrow> ('h, 'i, 'x) up outcome option) \<Rightarrow> (u32 \<Rightarrow> nat)
    \<Rightarrow> (u32 \<Rightarrow> (string \<times> int) set) \<Rightarrow> (cstring \<times> u32) list \<Rightarrow> bool" where
  "drivers_known I call need D syms \<longleftrightarrow>
     (\<forall>y \<in> set syms. early_symbol (fst y) \<or> init_symbol (fst y) \<longrightarrow> init_fn I call (snd y) (need (snd y)) (D (snd y)))
     \<and> (\<exists>y \<in> set syms. early_symbol (fst y) \<and> (''sp0'', DEVICE_TYPE_CHAR) \<in> D (snd y))
     \<and> (\<exists>y \<in> set syms. init_symbol (fst y) \<and> (''vga0'', DEVICE_TYPE_CON) \<in> D (snd y))"

lemma boot_symbols:
  assumes "boot_ready img info need syms st" "\<And>a. unat a < unat (memory_start info) \<Longrightarrow> m a = encode (at_gdt_buffer img) (cmem st) a"
  shows "list_all2 (symbol_in (\<lambda>a. unat a < unat (memory_start info)) m) (table (kexp_start img) (kexp_end img - kexp_start img)) syms"
proof -
  let ?K = "\<lambda>a. unat a < unat (memory_start info) \<and> \<not> in_block a (at_gdt_buffer img) 40"
  have n: "unat (kexp_end img - kexp_start img) div 8 = length syms" using assms(1) by (simp add: boot_ready_def)
  have "symbol_in (\<lambda>a. unat a < unat (memory_start info)) m (entry (kexp_start img) i) (syms ! i)" if "i < length syms" for i
  proof -
    have "symbol_in ?K (cmem st) (entry (kexp_start img) i) (syms ! i)" using assms(1) that by (simp add: boot_ready_def)
    then have "symbol_in ?K m (entry (kexp_start img) i) (syms ! i)"
      by (rule symbol_in_cong) (use assms(2) encode_frame in auto)
    then show ?thesis by (auto simp: symbol_in_def)
  qed
  then show ?thesis by (auto simp: list_all2_conv_all_nth table_def n entry_def)
qed

text \<open>Up to the first round over the symbol table.\<close>

lemma kernel_main_base:
  assumes r: "boot_ready img info need syms st" and I: "I (driver_init (devs st))"
  obtains base where
    "\<And>call. kernel_main img io call info st =
      run_bind (in_mods (mod_ksymtab_early_init (call_in call) (kexp_start img) (kexp_end img - kexp_start img)) base) (\<lambda>st.
      run_bind (named_device ''sp0'' device_get_chardev st) (\<lambda>dbg.
      run_bind (in_mods (mod_ksymtab_add (call_in call) (kexp_start img) (kexp_end img - kexp_start img)) (st\<lparr>dbgout_var := dbg\<rparr>)) (\<lambda>st.
      run_bind (named_device ''vga0'' device_get_console st) (\<lambda>con.
      run_bind (early_console img con st) (\<lambda>st.
      run_bind (input_device img (syscall_init st)) (\<lambda>st.
      run_bind (new_stack (st\<lparr>sinfo := info\<rparr>)) (\<lambda>st.
        kernel_late_init io (at_literal img) (at_stdout img) (at_stdin img) st)))))))"
    "so_far I (\<lambda>a. unat a < unat (memory_start info)) base []
       (sum_list (map (early_cost need) syms) + (sum_list (map (late_cost need) syms) + 375)) {} (mods_view base)"
    "\<And>a. unat a < unat (memory_start info) \<Longrightarrow> cmem base a = encode (at_gdt_buffer img) (cmem st) a"
    "heap_start base = memory_start info" "heap_bytes base = free_memory info * 64 * 1024" "gdtr base = (40, at_gdt_buffer img)"
    "tables_ok base" "bound_handlers base ! 128 = None" "length (syscall_table base) = 128" "syscall_max base = 32"
    "config_ok (kconf base)" "can_grow (namespaces (kconf base))"
proof -
  let ?gb = "at_gdt_buffer img" and ?start = "memory_start info" and ?size = "free_memory info * 64 * 1024"
  note R = r [unfolded boot_ready_def]
  let ?st1 = "st\<lparr>stdout_var := 0, dbgout_var := 0, console_var := 0\<rparr>"
  have "tables_ok ?st1" using R by (simp add: tables_ok_def)
  then obtain T B L where i: "interrupts_init io (at_stub img) ?st1 = Inr (2047, ?st1\<lparr>idt := T, bound_handlers := B, ll_bound_handlers := L,
      chw := interrupts_pic_init io (disable_pic io (chw ?st1))\<rparr>)"
    "length T = 256" "length B = 256" "length L = 256" "\<And>n. n < 256 \<Longrightarrow> B ! n = (if n = 32 then Some Do_nothing else None)"
    using interrupts_init_tables [of ?st1 io "at_stub img"] by metis
  let ?st2 = "?st1\<lparr>idt := T, bound_handlers := B, ll_bound_handlers := L, chw := interrupts_pic_init io (disable_pic io (chw ?st1))\<rparr>"
  let ?st3 = "?st2\<lparr>cmem := encode ?gb (cmem st), gdtr := (40, ?gb)\<rparr>"
  have size: "unat ?size = 65536 * unat (free_memory info)"
  proof -
    have "65536 * unat (free_memory info) < 4294967296" using R by simp
    from unat_of_nat_u32 [OF this] show ?thesis by simp
  qed
  define b where "b = \<lparr>at = ?start, bflags = MEM_CRITICAL, bsize = 0, bfree = False, baddr = blk_addr (ram (heap_of ?st3)) ?start\<rparr>"
  obtain h where h: "init_alloc (heap_of ?st3) ?start ?size = h" "heap h [b]" "mem_start h = ?start" "mem_size h = ?size"
    "\<And>a. unat a < unat ?start \<Longrightarrow> ram h a = encode ?gb (cmem st) a"
  proof (rule that [OF refl])
    show "heap (init_alloc (heap_of ?st3) ?start ?size) [b]" unfolding b_def using R size by (intro init_heap) simp_all
    show "ram (init_alloc (heap_of ?st3) ?start ?size) a = encode ?gb (cmem st) a" if "unat a < unat ?start" for a
      using that R store32_below [of a ?start] store32_below [of a ?start 0] by (simp add: init_alloc_def heap_of_def)
  qed (simp_all add: init_alloc_def)
  let ?st4 = "(with_heap h ?st3)\<lparr>devs := driver_init (devs st)\<rparr>"
  let ?w = "\<lparr>links = links (smods st), exports = exports (smods st), modules = modules (smods st), outside = ?st4\<rparr>"
  have v: "mods_view ?st4 = (h, ?w)" by (simp add: mods_view_def heap_of_def with_heap_def)
  have "lists_placed (mem_start h) ?w" using R unfolding h(3) by (simp add: lists_placed_def)
  then obtain ls where ls: "mod_init (h, ?w) = Inr (h, ?w\<lparr>links := ls\<rparr>)" "mods_ok (h, ?w\<lparr>links := ls\<rparr>) [b] [] []"
    using mod_init_placed [OF h(2), of ?w] by metis
  define base where "base = ?st4\<lparr>smods := (smods st)\<lparr>links := ls\<rparr>, kconf := config_init (kconf st)\<rparr>"
  have mx: "(merged (h, ?w\<lparr>links := ls\<rparr>))\<lparr>kconf := config_init (kconf st)\<rparr> = base"
    by (cases st) (simp add: merged_def with_heap_def base_def)
  have m1: "in_mods (\<lambda>x. Some (mod_init x)) ?st4 = Some (Inr (merged (h, ?w\<lparr>links := ls\<rparr>)))" by (simp only: in_mods_def v ls(1) run_bind_simps)
  have g: "gdt_init ?gb m = ((40, ?gb), encode ?gb m)" for m by (simp add: gdt_init_def) (simp add: gdt_def)
  have f: "devs (with_heap h ?st3) = devs st" "cmem ?st2 = cmem st" "kconf (merged (h, ?w\<lparr>links := ls\<rparr>)) = kconf st"
    by (simp_all add: with_heap_def merged_def)
  have hb: "heap_of base = h" by (simp add: base_def heap_of_def with_heap_def)
  show ?thesis
  proof (rule that)
    show "kernel_main img io call info st =
      run_bind (in_mods (mod_ksymtab_early_init (call_in call) (kexp_start img) (kexp_end img - kexp_start img)) base) (\<lambda>st.
      run_bind (named_device ''sp0'' device_get_chardev st) (\<lambda>dbg.
      run_bind (in_mods (mod_ksymtab_add (call_in call) (kexp_start img) (kexp_end img - kexp_start img)) (st\<lparr>dbgout_var := dbg\<rparr>)) (\<lambda>st.
      run_bind (named_device ''vga0'' device_get_console st) (\<lambda>con.
      run_bind (early_console img con st) (\<lambda>st.
      run_bind (input_device img (syscall_init st)) (\<lambda>st.
      run_bind (new_stack (st\<lparr>sinfo := info\<rparr>)) (\<lambda>st.
        kernel_late_init io (at_literal img) (at_stdout img) (at_stdin img) st)))))))" for call
      unfolding kernel_main_def Let_def i(1) run_bind_simps prod.case g f(2) h(1) f(1) m1 f(3) mx by (rule refl)
    show "so_far I (\<lambda>a. unat a < unat ?start) base []
       (sum_list (map (early_cost need) syms) + (sum_list (map (late_cost need) syms) + 375)) {} (mods_view base)"
      unfolding so_far_def
    proof (intro exI conjI)
      show "merged (mods_view base) = base\<lparr>cmem := cmem base, chw := chw base, devs := devs base,
          smods := (smods base)\<lparr>links := links (smods base)\<rparr>\<rparr>" by simp
      show "mods_ok (mods_view base) [b] [] []"
        by (rule mods_ok_kept [OF ls(2)]) (simp_all add: hb h(2), simp_all add: base_def)
      have "end_of [b] = ?start + 24" by (simp add: end_of_def b_def)
      moreover have "unat (?start + 24) = unat ?start + unat (24 :: u32)" by (intro unat_add_u32) (use R in simp)
      ultimately show "space (fst (mods_view base)) [b] (88 * (sum_list (map (early_cost need) syms) + (sum_list (map (late_cost need) syms) + 375)))"
        using R size by (simp add: hb space_def h(3, 4))
      show "I (devs base)" using I by (simp add: base_def)
    qed (simp_all add: symbols_def)
  qed (use i(2-5) R h(3-5) htbl_create_ok [where ?'v = nat] in
    \<open>simp_all add: base_def with_heap_def tables_ok_def config_init_def config_ok_def can_grow_def\<close>)
qed

text \<open>The devices and the stack of the kernel: three blocks of the heap.\<close>

definition blocks_given :: "('h, 'i, 'x) up \<Rightarrow> bool" where
  "blocks_given kst \<longleftrightarrow> (\<exists>bs. heap (heap_of kst) bs \<and> live bs {stdout_var kst, stdin_var kst, stack_top kst - 32768}
     \<and> distinct [stdout_var kst, stdin_var kst, stack_top kst - 32768]
     \<and> (\<exists>q \<in> set bs. stack_top kst - 32768 = at q + 24 \<and> 32768 \<le> unat (bsize q))
     \<and> load32 (cmem kst) (stack_top kst - 32768) = STACK_MAGIC)"

definition devices_given :: "image \<Rightarrow> u32 \<Rightarrow> ('h, 'i, 'x) up \<Rightarrow> bool" where
  "devices_given img con kst \<longleftrightarrow> console_var kst = con
     \<and> chardevs kst (stdout_var kst) = \<lparr>cc_putc = at_console_putc img, cc_getc = 0, cc_priv = con\<rparr>
     \<and> chardevs kst (stdin_var kst) = \<lparr>cc_putc = 0, cc_getc = at_keyboard_getc img, cc_priv = 0\<rparr>"

lemma kernel_main_tail:
  assumes "heap (heap_of st) bs" "space (heap_of st) bs (88 * 375)"
    and "unat (heap_start st) + unat (heap_bytes st) + 36864 < 4294967296"
    and t: "tables_ok st" "bound_handlers st ! 128 = None" "length (syscall_table st) = 128" "syscall_max st = 32"
      "config_ok (kconf st)" "can_grow (namespaces (kconf st))"
  obtains kst where "run_bind (early_console img con st) (\<lambda>st.
      run_bind (input_device img (syscall_init st)) (\<lambda>st.
      run_bind (new_stack (st\<lparr>sinfo := info\<rparr>)) (\<lambda>st.
        kernel_late_init io (at_literal img) (at_stdout img) (at_stdin img) st))) = Some (Inr kst)"
    "services_up other call_ll io (at_stdout img) (at_stdin img) kst" "blocks_given kst" "devices_given img con kst"
    "\<And>a. unat a < unat (heap_start st) \<Longrightarrow> cmem kst a = cmem st a" "smods kst = smods st" "devs kst = devs st"
    "gdtr kst = gdtr st" "dbgout_var kst = dbgout_var st" "sinfo kst = info"
proof -
  let ?st1 = "st\<lparr>console_var := con\<rparr>"
  have h1: "heap (heap_of ?st1) bs" "space (heap_of ?st1) bs (88 * Suc 374)" "live bs {}"
    using assms(1, 2) by (simp_all add: heap_of_def live_def)
  obtain out m2 bs2 where out: "alloc_in heap_of with_heap 12 ?st1 = Some (Inr (out, ?st1\<lparr>cmem := m2\<rparr>))" "heap (heap_of (?st1\<lparr>cmem := m2\<rparr>)) bs2"
    "space (heap_of (?st1\<lparr>cmem := m2\<rparr>)) bs2 (88 * 374)" "live bs2 {out}" "\<And>a. unat a < unat (heap_start ?st1) \<Longrightarrow> m2 a = cmem ?st1 a"
    by (rule small_alloc [OF h1]) (rule that, assumption+)
  let ?st2 = "?st1\<lparr>cmem := m2, stdout_var := out, chardevs := (chardevs st)(out := \<lparr>cc_putc = at_console_putc img, cc_getc = 0, cc_priv = con\<rparr>)\<rparr>"
  have c: "early_console img con st = Some (Inr ?st2)" using out(1) by (simp add: early_console_def)
  obtain T where T: "keyboard_init (syscall_init ?st2) = ?st2\<lparr>syscall_table := T, ll_bound_handlers := (ll_bound_handlers ?st2)[128 := Some Syscall_handle],
      bound_handlers := (bound_handlers ?st2)[33 := Some Keyboard_handle_irq]\<rparr>" "length T = 128"
    using handlers_bound [of ?st2] t(1, 3) by (auto simp: tables_ok_def)
  let ?st3 = "?st2\<lparr>syscall_table := T, ll_bound_handlers := (ll_bound_handlers st)[128 := Some Syscall_handle],
      bound_handlers := (bound_handlers st)[33 := Some Keyboard_handle_irq]\<rparr>"
  have h3: "heap (heap_of ?st3) bs2" "space (heap_of ?st3) bs2 (88 * Suc 373)" using out(2, 3) by (simp_all add: heap_of_def)
  obtain inp m4 bs4 where inp: "alloc_in heap_of with_heap 12 ?st3 = Some (Inr (inp, ?st3\<lparr>cmem := m4\<rparr>))" "heap (heap_of (?st3\<lparr>cmem := m4\<rparr>)) bs4"
    "space (heap_of (?st3\<lparr>cmem := m4\<rparr>)) bs4 (88 * 373)" "inp \<notin> {out}" "live bs4 {inp, out}" "\<And>a. unat a < unat (heap_start ?st3) \<Longrightarrow> m4 a = cmem ?st3 a"
    by (rule small_alloc [OF h3 out(4)]) (rule that, assumption+)
  let ?st4 = "keyboard_get_chardev img inp (?st3\<lparr>cmem := m4, stdin_var := inp\<rparr>)"
  have i: "input_device img (syscall_init ?st2) = Some (Inr ?st4)" unfolding input_device_def T(1) using inp(1) by simp
  let ?st5 = "?st4\<lparr>sinfo := info\<rparr>"
  have h5: "heap (heap_of ?st5) bs4" "space (heap_of ?st5) bs4 (88 * 373)" "unat (heap_start ?st5) + unat (heap_bytes ?st5) + 36864 < 4294967296"
    using inp(2, 3) assms(3) by (simp_all add: heap_of_def keyboard_get_chardev_def)
  obtain p m6 bs6 where p: "new_stack ?st5 = Some (Inr (?st5\<lparr>cmem := m6, stack_top := p + 32768\<rparr>))" "heap (heap_of (?st5\<lparr>cmem := m6\<rparr>)) bs6"
    "p \<notin> {inp, out}" "live bs6 (insert p {inp, out})" "load32 m6 p = STACK_MAGIC" "\<And>a. unat a < unat (heap_start ?st5) \<Longrightarrow> m6 a = cmem ?st5 a"
    "\<exists>q \<in> set bs6. p = at q + 24 \<and> 32768 \<le> unat (bsize q)"
    by (rule stack_ready [OF h5(1, 2) inp(5) h5(3)]) (rule that, assumption+)
  let ?st6 = "?st5\<lparr>cmem := m6, stack_top := p + 32768\<rparr>"
  have "early_done ?st6" using t T(2) by (simp add: early_done_def tables_ok_def keyboard_get_chardev_def)
  then obtain c' T' where late: "kernel_late_init io (at_literal img) (at_stdout img) (at_stdin img) ?st6
      = Some (Inr (?st6\<lparr>kconf := c', syscall_table := T', syscall_max := 34,
      bound_handlers := (bound_handlers ?st6)[32 := Some Irq0_handle], chw := outb io 0x40 0x2e (outb io 0x40 0x9c (chw ?st6)),
      kticks_var := 0, root_env := env_init\<rparr>))"
    "services_up other call_ll io (at_stdout img) (at_stdin img) (?st6\<lparr>kconf := c', syscall_table := T', syscall_max := 34,
      bound_handlers := (bound_handlers ?st6)[32 := Some Irq0_handle], chw := outb io 0x40 0x2e (outb io 0x40 0x9c (chw ?st6)),
      kticks_var := 0, root_env := env_init\<rparr>)"
    by (rule kernel_late_up)
  let ?k = "?st6\<lparr>kconf := c', syscall_table := T', syscall_max := 34,
      bound_handlers := (bound_handlers ?st6)[32 := Some Irq0_handle], chw := outb io 0x40 0x2e (outb io 0x40 0x9c (chw ?st6)),
      kticks_var := 0, root_env := env_init\<rparr>"
  have f: "heap_of ?k = heap_of (?st5\<lparr>cmem := m6\<rparr>)" "stdout_var ?k = out" "stdin_var ?k = inp" "stack_top ?k - 32768 = p" "cmem ?k = m6"
    by (simp_all add: heap_of_def keyboard_get_chardev_def)
  have blocks: "blocks_given ?k"
    unfolding blocks_given_def f
  proof (intro exI conjI)
    show "heap (heap_of (?st5\<lparr>cmem := m6\<rparr>)) bs6" by (rule p(2))
    show "live bs6 {out, inp, p}" using p(4) by (simp add: insert_commute)
  qed (use inp(4) p(3, 5, 7) in auto)
  have devices: "devices_given img con ?k" using inp(4) by (simp add: devices_given_def keyboard_get_chardev_def)
  have below: "cmem ?k a = cmem st a" if "unat a < unat (heap_start st)" for a
    using that p(6) [of a] inp(6) [of a] out(5) [of a] by (simp add: keyboard_get_chardev_def)
  have run: "run_bind (early_console img con st) (\<lambda>st.
      run_bind (input_device img (syscall_init st)) (\<lambda>st.
      run_bind (new_stack (st\<lparr>sinfo := info\<rparr>)) (\<lambda>st.
        kernel_late_init io (at_literal img) (at_stdout img) (at_stdin img) st))) = Some (Inr ?k)"
    unfolding c run_bind_simps i p(1) late(1) by (rule refl)
  show ?thesis by (rule that [OF run late(2) blocks devices below]) (simp_all add: keyboard_get_chardev_def)
qed

lemma so_far_dbgout:
  assumes "so_far I K base xs n F x"
  shows "so_far I K (base\<lparr>dbgout_var := d\<rparr>) xs n F (mods_view ((merged x)\<lparr>dbgout_var := d\<rparr>))"
proof -
  obtain m h g ls bs ns ms where u: "merged x = base\<lparr>cmem := m, chw := h, devs := g, smods := (smods base)\<lparr>links := ls\<rparr>\<rparr>"
    "mods_ok x bs ns ms" "space (fst x) bs (88 * n)" "\<forall>a. K a \<longrightarrow> m a = cmem base a" "symbols K m ls ns xs" "I g" "\<forall>y \<in> F. found g y"
    using assms unfolding so_far_def by blast
  let ?x = "mods_view ((merged x)\<lparr>dbgout_var := d\<rparr>)"
  have v: "fst ?x = fst x" "links (snd ?x) = links (snd x)" "exports (snd ?x) = exports (snd x)" "modules (snd ?x) = modules (snd x)"
    using heap_view(5) [of x] by (simp_all add: heap_of_def)
  show ?thesis
    unfolding so_far_def
  proof (intro exI conjI)
    show "merged ?x = base\<lparr>dbgout_var := d, cmem := m, chw := h, devs := g, smods := (smods (base\<lparr>dbgout_var := d\<rparr>))\<lparr>links := ls\<rparr>\<rparr>"
      by (simp add: u(1))
    show "mods_ok ?x bs ns ms" by (rule mods_ok_kept [OF u(2)]) (use v u(2) in \<open>simp_all add: mods_ok_def\<close>)
  qed (use u v in simp_all)
qed

lemma rounds_eq:
  "mod_ksymtab_early_init (call_in call) t sz = run_each (early_round call) (table t sz)"
  "mod_ksymtab_add (call_in call) t sz = run_each (late_round call) (table t sz)"
  by (simp_all add: fun_eq_iff mod_ksymtab_early_init_def mod_ksymtab_add_def early_round_def [abs_def] late_round_def [abs_def])

lemma found_device:
  "found (devs st) (name, DEVICE_TYPE_CHAR) \<Longrightarrow> \<exists>d. device_get_by_name (lit name) (devs st) = Some d
     \<and> named_device name device_get_chardev st = Some (Inr (internal_dev (device_at (devs st) d)))"
  "found (devs st) (name, DEVICE_TYPE_CON) \<Longrightarrow> \<exists>d. device_get_by_name (lit name) (devs st) = Some d
     \<and> named_device name device_get_console st = Some (Inr (internal_dev (device_at (devs st) d)))"
  by (auto simp: found_def named_device_def device_get_chardev_def device_get_console_def device_get_internal_def)


section \<open>A kernel with two drivers\<close>

text \<open>
  The symbol table has a function that registers the debug port, one that registers the text console, and an exported
  symbol. Each function registers one device, at the address of the function.
\<close>

definition boot_symbols0 :: "(cstring \<times> u32) list" where
  "boot_symbols0 = [(lit ''__einit$s'', 0x5000), (lit ''__init$v'', 0x5008), (lit ''kalloc'', 0x5010)]"

definition boot_mem :: mem where
  "boot_mem = write_bytes (write_bytes (write_bytes (write_bytes (\<lambda>_. 0) 0x200 (lit ''__einit$s'')) 0x210 (lit ''__init$v'')) 0x220 (lit ''kalloc''))
     0x300 [0, 2, 0, 0, 0, 0x50, 0, 0, 0x10, 2, 0, 0, 8, 0x50, 0, 0, 0x20, 2, 0, 0, 0x10, 0x50, 0, 0]"

definition device0 :: "u32 \<Rightarrow> device" where
  "device0 f = (if f = 0x5000 then zero_device\<lparr>dev_name := lit ''sp0'', dev_type := DEVICE_TYPE_CHAR, internal_dev := f + 4\<rparr>
     else zero_device\<lparr>dev_name := lit ''vga0'', dev_type := DEVICE_TYPE_CON, internal_dev := f + 4\<rparr>)"

definition add_device :: "u32 \<Rightarrow> 'x mgr \<Rightarrow> 'x mgr" where
  "add_device f g = g\<lparr>devices := devices g @ [f], device_at := (device_at g)(f := device0 f)\<rparr>"

definition call0 :: "u32 \<Rightarrow> ('h, 'i, 'x) up \<Rightarrow> ('h, 'i, 'x) up outcome option" where
  "call0 f st = Some (Inr (st\<lparr>devs := add_device f (devs st)\<rparr>))"

definition gives0 :: "u32 \<Rightarrow> (string \<times> int) set" where
  "gives0 f = (if f = 0x5000 then {(''sp0'', DEVICE_TYPE_CHAR)} else {(''vga0'', DEVICE_TYPE_CON)})"

definition plain_devices :: "'x mgr \<Rightarrow> bool" where
  "plain_devices g \<longleftrightarrow> set (devices g) \<subseteq> {0x5000, 0x5008} \<and> (\<forall>f \<in> set (devices g). device_at g f = device0 f)"

definition image0 :: image where
  "image0 = \<lparr>at_gdt_buffer = 0x800, kexp_start = 0x300, kexp_end = 0x318, at_stdout = 0x900, at_stdin = 0x904, at_console_putc = 0x5020,
     at_keyboard_getc = 0x5030, at_literal = sys_lits, at_stub = of_int\<rparr>"

definition info0 :: kstart_info where
  "info0 = \<lparr>drive_number = 0x80, free_memory = 2, memory_start = 0x1000\<rparr>"

definition up0 :: "((u16 \<times> u32) list, unit, unit) up" where
  "up0 = (kern.extend kern0 \<lparr>gdtr = (0, 0), heap_start = 0, heap_head = 0, heap_bytes = 0,
     devs = \<lparr>drivers = [], devices = [], driver_at = (\<lambda>_. vga_driver 0), device_at = (\<lambda>_. zero_device), rest = ()\<rparr>,
     stdout_var = 0, stdin_var = 0, dbgout_var = 0, console_var = 0, chardevs = (\<lambda>_. \<lparr>cc_putc = 0, cc_getc = 0, cc_priv = 0\<rparr>),
     sinfo = info0, stack_top = 0\<rparr>)
     \<lparr>cmem := boot_mem, smods := \<lparr>links = (\<lambda>_. \<lparr>nxt = 0, prev = 0, node_value = 0\<rparr>), exports = 0x910, modules = 0x930, outside = ()\<rparr>\<rparr>"

lemma find_append: "find P (xs @ ys) = (case find P xs of Some x \<Rightarrow> Some x | None \<Rightarrow> find P ys)"
  by (induction xs) auto

lemma device0_names:
  "strdiff (lit ''sp0'') (dev_name (device0 d)) = 0 \<longleftrightarrow> d = 0x5000" "strdiff (lit ''vga0'') (dev_name (device0 d)) = 0 \<longleftrightarrow> d \<noteq> 0x5000"
  by (simp_all add: device0_def lit_def)

lemma add_device_found:
  assumes "plain_devices g" "f \<in> {0x5000, 0x5008}"
  shows "plain_devices (add_device f g)" "x \<in> gives0 f \<or> found g x \<Longrightarrow> found (add_device f g) x"
proof -
  show p: "plain_devices (add_device f g)" using assms by (auto simp: plain_devices_def add_device_def)
  have by_name: "device_get_by_name s h = find (\<lambda>d. strdiff s (dev_name (device0 d)) = 0) (devices h)" if "plain_devices h" for s and h :: "'a mgr"
    unfolding device_get_by_name_def by (rule find_cong) (use that in \<open>simp_all add: plain_devices_def\<close>)
  have type: "dev_type (device_at h d) = dev_type (device0 d)" if "plain_devices h" "device_get_by_name s h = Some d" for s d and h :: "'a mgr"
    using that unfolding by_name [OF that(1)] find_Some_iff plain_devices_def by (metis nth_mem)
  have get: "device_get_by_name s (add_device f g) = (case device_get_by_name s g of Some d \<Rightarrow> Some d
      | None \<Rightarrow> if strdiff s (dev_name (device0 f)) = 0 then Some f else None)" for s
    unfolding by_name [OF assms(1)] by_name [OF p] by (simp add: add_device_def find_append split: option.split)
  obtain n t where x: "x = (n, t)" by force
  assume a: "x \<in> gives0 f \<or> found g x"
  show "found (add_device f g) x"
  proof (cases "found g x")
    case True
    then obtain d where d: "device_get_by_name (lit n) g = Some d" "dev_type (device_at g d) = t" by (auto simp: found_def x)
    then have "device_get_by_name (lit n) (add_device f g) = Some d" by (simp add: get)
    then show ?thesis using type [OF p] type [OF assms(1) d(1)] d(2) by (simp add: found_def x)
  next
    case False
    then have g: "(n, t) \<in> gives0 f" using a x by simp
    then have s: "strdiff (lit n) (dev_name (device0 f)) = 0" "dev_type (device0 f) = t"
      by (auto simp: gives0_def device0_names split: if_splits) (auto simp: device0_def)
    obtain d where d: "device_get_by_name (lit n) (add_device f g) = Some d" 
      using s(1) by (cases "device_get_by_name (lit n) g") (auto simp: get)
    then have "strdiff (lit n) (dev_name (device0 d)) = 0" unfolding by_name [OF p] find_Some_iff by blast
    then have "dev_type (device0 d) = t" using g by (auto simp: gives0_def device0_names split: if_splits) (auto simp: device0_def)
    then show ?thesis using d type [OF p d] by (simp add: found_def x)
  qed
qed

lemma low_block:
  assumes "in_block a p n" "unat p + n \<le> 2048"
  shows "unat a < 4096 \<and> \<not> in_block a 0x800 40"
  using assms by (auto simp: in_block_def unat_diff_u32 split: if_splits)

lemma boot_names: "cstr boot_mem 0x200 (lit ''__einit$s'')" "cstr boot_mem 0x210 (lit ''__init$v'')" "cstr boot_mem 0x220 (lit ''kalloc'')"
  by (simp_all add: lit_def boot_mem_def write_bytes_def in_block_def)

lemma boot_symbols0_at:
  assumes "i < 3"
  shows "symbol_in (\<lambda>a. unat a < 4096 \<and> \<not> in_block a 0x800 40) boot_mem (entry 0x300 i) (boot_symbols0 ! i)"
proof -
  have fields: "sym_name boot_mem (entry 0x300 0) = 0x200" "sym_name boot_mem (entry 0x300 1) = 0x210" "sym_name boot_mem (entry 0x300 2) = 0x220"
    "sym_fn boot_mem (entry 0x300 0) = 0x5000" "sym_fn boot_mem (entry 0x300 1) = 0x5008" "sym_fn boot_mem (entry 0x300 2) = 0x5010"
    by (simp_all add: sym_name_def sym_fn_def entry_def load32_def boot_mem_def write_bytes_def in_block_def)
  consider "i = 0" | "i = 1" | "i = 2" using assms by linarith
  then show ?thesis
    using boot_names fields low_block by cases (auto simp: symbol_in_def boot_symbols0_def lit_def entry_def)
qed

lemma call0_init: "f \<in> {0x5000, 0x5008} \<Longrightarrow> init_fn plain_devices call0 f 0 (gives0 f)"
  unfolding init_fn_def
proof (intro allI impI)
  fix st :: "('h, 'i, 'x) up" and bs r
  assume f: "f \<in> {0x5000, 0x5008}"
  assume a: "plain_devices (devs st) \<and> heap (heap_of st) bs \<and> space (heap_of st) bs (88 * (0 + r))"
  let ?g = "add_device f (devs st)"
  have same: "(heap_of st)\<lparr>ram := cmem st\<rparr> = heap_of st" by (simp add: heap_of_def)
  show "\<exists>m h g bs'. call0 f st = Some (Inr (st\<lparr>cmem := m, chw := h, devs := g\<rparr>))
      \<and> heap ((heap_of st)\<lparr>ram := m\<rparr>) bs' \<and> space ((heap_of st)\<lparr>ram := m\<rparr>) bs' (88 * r)
      \<and> (\<forall>c \<in> set bs. \<not> bfree c \<longrightarrow> c \<in> set bs') \<and> (\<forall>a. safe (heap_of st) bs a \<longrightarrow> m a = cmem st a)
      \<and> plain_devices g \<and> (\<forall>x. x \<in> gives0 f \<or> found (devs st) x \<longrightarrow> found g x)"
    using a f add_device_found [where g = "devs st" and f = f]
    by (intro exI [of _ "cmem st"] exI [of _ "chw st"] exI [of _ ?g] exI [of _ bs]) (simp add: same call0_def)
qed

lemma boot0_ready: "boot_ready image0 info0 (\<lambda>_. 0) boot_symbols0 up0"
proof -
  have k: "tables_ok kern0" "length (syscall_table kern0) = 128" "syscall_max kern0 = 32" "created (kconf kern0) = 0"
    using sys0_ready by (simp_all add: kern0_def sys.defs tables_ok_def config0_def config_init_def)
  have b: "unat a < 4096" if "in_block a 0x800 40" for a
    using that by (auto simp: in_block_def unat_diff_u32 split: if_splits)
  have p: "early_symbol (lit ''__einit$s'')" "\<not> early_symbol (lit ''__init$v'')" "\<not> early_symbol (lit ''kalloc'')"
    "\<not> init_symbol (lit ''__einit$s'')" "init_symbol (lit ''__init$v'')" "\<not> init_symbol (lit ''kalloc'')"
    by (simp_all add: early_symbol_def init_symbol_def EXPORT_MOD_INIT_PREFIX_def EXPORT_MOD_EARLY_INIT_PREFIX_def lit_def)
  have c: "sum_list (map (early_cost (\<lambda>_. 0)) boot_symbols0) = 0" "sum_list (map (late_cost (\<lambda>_. 0)) boot_symbols0) = 1"
    using p by (simp_all add: boot_symbols0_def early_cost_def late_cost_def plain_symbol_def)
  have up: "tables_ok up0 = tables_ok kern0" "syscall_table up0 = syscall_table kern0" "syscall_max up0 = syscall_max kern0" "kconf up0 = kconf kern0"
    by (simp_all add: up0_def kern.defs tables_ok_def)
  have n: "length boot_symbols0 = 3" by (simp add: boot_symbols0_def)
  show ?thesis
    using k b boot_symbols0_at unfolding boot_ready_def up c n
    by (simp add: image0_def info0_def) (simp add: up0_def kern.defs lists_placed_def)
qed


section \<open>The end of the heap\<close>

text \<open>
  The BIOS counts the memory above 16 MiB, where the kernel is loaded; the heap gets as many bytes but starts behind
  the kernel, so that it reaches past the end of the memory by the size of the kernel.
\<close>

lemma heap_past_memory:
  assumes "stage2_hl lk s m = (info, m')" "16777216 < unat (kbss_end lk)"
  shows "mem_start (init_alloc h (memory_start info) (free_memory info * 64 * 1024)) = kbss_end lk"
    "16777216 + 65536 * unat (extended2 m' s) < unat (kbss_end lk) + unat (mem_size (init_alloc h (memory_start info) (free_memory info * 64 * 1024)))"
proof -
  have i: "memory_start info = kbss_end lk" "free_memory info = ucast (extended2 m' s)"
    using assms(1) by (auto simp: stage2_hl_def Let_def)
  show "mem_start (init_alloc h (memory_start info) (free_memory info * 64 * 1024)) = kbss_end lk" by (simp add: init_alloc_def i)
  have "unat (extended2 m' s) < 65536" using unsigned_less [of "extended2 m' s", where ?'a = nat] by simp
  then have "65536 * unat (extended2 m' s) < 4294967296" by simp
  from unat_of_nat_u32 [OF this] have "unat (free_memory info * 64 * 1024) = 65536 * unat (extended2 m' s)" by (simp add: i)
  then show "16777216 + 65536 * unat (extended2 m' s) < unat (kbss_end lk) + unat (mem_size (init_alloc h (memory_start info) (free_memory info * 64 * 1024)))"
    using assms(2) by (simp add: init_alloc_def)
qed

end
