(* ===== verification/Fat.thy ===== *)
theory Fat
  imports Cstring
begin

text \<open>
  The FAT16 driver (\<open>kern/fs/fat.c\<close>). The block device is the \<open>read\<close> function of
  \<open>blkdev_t\<close>, from an LBA and a block count to the return code and the bytes it stores (theory
  Bdrive shows that the BIOS driver delivers the sectors in order and returns the count). A
  buffer is the list of its bytes, a heap block never fails to be allocated, and a read or
  write outside a buffer is \<open>WildAccess\<close>; a cluster chain need not end, so what follows it
  is option-valued.
\<close>

section \<open>Structures on disk\<close>

record blkdev =
  blk_read :: "u64 \<Rightarrow> u32 \<Rightarrow> int \<times> u8 list"

definition le16 :: "u8 list \<Rightarrow> nat \<Rightarrow> u16" where
  "le16 b i = ucast (b ! i) OR push_bit 8 (ucast (b ! (i + 1)))"

definition le32 :: "u8 list \<Rightarrow> nat \<Rightarrow> u32" where
  "le32 b i = ucast (le16 b i) OR push_bit 16 (ucast (le16 b (i + 2)))"

text \<open>The packed BIOS parameter block at the start of the first sector.\<close>

record fat_bpb =
  bpb_bytes_per_sector :: u16
  sectors_per_cluster :: u8
  nr_reserved_sectors :: u16
  nr_fats :: u8
  nr_root_entries :: u16
  sectors_per_fat :: u16

definition fat_bpb_of :: "u8 list \<Rightarrow> fat_bpb" where
  "fat_bpb_of s = \<lparr>bpb_bytes_per_sector = le16 s 11, sectors_per_cluster = s ! 13, nr_reserved_sectors = le16 s 14,
     nr_fats = s ! 16, nr_root_entries = le16 s 17, sectors_per_fat = le16 s 22\<rparr>"

text \<open>A 32-byte directory entry.\<close>

record fat_dir =
  dir_name :: "u8 list"
  attrs :: u8
  cluster_low :: u16
  dir_size :: u32

definition fat_dir_of :: "u8 list \<Rightarrow> nat \<Rightarrow> fat_dir" where
  "fat_dir_of buf i = (let e = drop (32 * i) buf in
     \<lparr>dir_name = take 11 e, attrs = e ! 11, cluster_low = le16 e 26, dir_size = le32 e 28\<rparr>)"

definition FAT_ATTR_HIDDEN :: u8 where "FAT_ATTR_HIDDEN = 2"
definition FAT_ATTR_SYSTEM :: u8 where "FAT_ATTR_SYSTEM = 4"
definition FAT_ATTR_VOLID :: u8 where "FAT_ATTR_VOLID = 8"
definition FAT_ATTR_DIR :: u8 where "FAT_ATTR_DIR = 16"

record fat_priv =
  start_lba :: u32
  num_sectors :: u32
  bytes_per_cluster :: u32
  bytes_per_sector :: u32
  data_start_sector :: u32
  fat_start_sector :: u32
  root_dir_sector :: u32
  nr_root_dir_sectors :: u32
  bpb :: fat_bpb
  blk :: blkdev

record fat_file =
  start_cluster :: u32
  current_cluster :: u32
  current_offset :: u32
  fsize :: u32
  dir_contents :: "u8 list option"

definition FAT_CLUSTER_END :: u32 where "FAT_CLUSTER_END = 0xfff8"

section \<open>Clusters\<close>

definition sector_of_cluster :: "fat_priv \<Rightarrow> u32 \<Rightarrow> u32" where
  "sector_of_cluster p cluster = (cluster - 2) * ucast (sectors_per_cluster (bpb p)) + data_start_sector p"

definition cluster_of_sector :: "fat_priv \<Rightarrow> u32 \<Rightarrow> u32" where
  "cluster_of_sector p sector = (sector - data_start_sector p) div ucast (sectors_per_cluster (bpb p)) + 2"

definition read_cluster :: "fat_priv \<Rightarrow> u32 \<Rightarrow> int \<times> u8 list" where
  "read_cluster p cluster =
     blk_read (blk p) (ucast (start_lba p + sector_of_cluster p cluster)) (ucast (sectors_per_cluster (bpb p)))"

definition next_cluster :: "fat_priv \<Rightarrow> u32 \<Rightarrow> u32" where
  "next_cluster p current =
     (let fat_offset = current * 2;
          fat_sector = fat_start_sector p + fat_offset div bytes_per_sector p;
          ent_offset = fat_offset mod bytes_per_sector p;
          fat_table = snd (blk_read (blk p) (ucast (start_lba p + fat_sector)) 1)
      in ucast (le16 fat_table (unat ent_offset)))"

text \<open>The bytes of a chain; \<open>size\<close> is their number. A null \<open>data\<close> is the empty list.\<close>

partial_function (option) read_cluster_chain :: "fat_priv \<Rightarrow> u32 \<Rightarrow> u8 list option" where
  "read_cluster_chain p cluster =
     (if 0 < cluster \<and> cluster \<le> FAT_CLUSTER_END
      then Option.bind (read_cluster_chain p (next_cluster p cluster)) (\<lambda>tail. Some (snd (read_cluster p cluster) @ tail))
      else Some [])"

section \<open>Directories\<close>

text \<open>\<open>memcpy\<close> into a local array at an offset.\<close>

definition put_at :: "nat \<Rightarrow> u8 list \<Rightarrow> u8 list \<Rightarrow> u8 list outcome" where
  "put_at i xs buf =
     (if i + length xs \<le> length buf then Inr (take i buf @ xs @ drop (i + length xs) buf) else Inl WildAccess)"

definition dir_namebuf :: "cstring \<Rightarrow> u8 list outcome" where
  "dir_namebuf name =
     (let namebuf = replicate 11 32 @ [0] in
      case find_char 46 name of
        Some k \<Rightarrow> bind_outcome (put_at 0 (take k name) namebuf) (put_at 8 (drop (Suc k) name))
      | None \<Rightarrow> put_at 0 name namebuf)"

text \<open>\<open>stricmp\<close> on string values.\<close>

fun stridiff :: "cstring \<Rightarrow> cstring \<Rightarrow> int" where
  "stridiff [] t = - (case t of [] \<Rightarrow> 0 | d # _ \<Rightarrow> uint d)"
| "stridiff (c # s) [] = uint c"
| "stridiff (c # s) (d # t) = (if tolower (uint c) = tolower (uint d) then stridiff s t else uint c - uint d)"

definition c_str :: "u8 list \<Rightarrow> cstring" where
  "c_str b = takeWhile (\<lambda>c. c \<noteq> 0) b"

text \<open>
  The search loop at entry \<open>i\<close>. The bound lets \<open>dir\<close> reach the end of the buffer, whose first
  byte past the end is then read.
\<close>

function find_dir_ent_from :: "cstring \<Rightarrow> u8 list \<Rightarrow> nat \<Rightarrow> fat_dir option outcome" where
  "find_dir_ent_from name buf i =
     (if length buf < 32 * i + 32 then Inl WildAccess
      else if buf ! (32 * i) = 0 then Inr None
      else bind_outcome (dir_namebuf name) (\<lambda>namebuf.
        if stridiff (c_str namebuf) (c_str (dir_name (fat_dir_of buf i))) = 0 then Inr (Some (fat_dir_of buf i))
        else if length buf < 32 * Suc i then Inr None
        else find_dir_ent_from name buf (Suc i)))"
  by pat_completeness auto
termination by (relation "measure (\<lambda>(name, buf, i). length buf - i)") auto

declare find_dir_ent_from.simps [simp del]

definition find_dir_ent :: "cstring \<Rightarrow> u8 list \<Rightarrow> fat_dir option outcome" where
  "find_dir_ent name buf = find_dir_ent_from name buf 0"

definition root_dir :: "fat_priv \<Rightarrow> u8 list" where
  "root_dir p = snd (blk_read (blk p) (ucast (start_lba p + root_dir_sector p)) (nr_root_dir_sectors p))"

text \<open>The loop over the path; a null component makes \<open>strchr\<close> read from address 0.\<close>

fun find_path :: "fat_priv \<Rightarrow> cstring option list \<Rightarrow> u8 list \<Rightarrow> fat_dir option outcome option" where
  "find_path p [] buf = Some (Inl WildAccess)"
| "find_path p (None # path) buf = Some (Inl WildAccess)"
| "find_path p (Some name # path) buf =
     run_bind (Some (find_dir_ent name buf)) (\<lambda>r. case r of
        None \<Rightarrow> Some (Inr None)
      | Some d \<Rightarrow>
          if path = [] then Some (Inr (Some d))
          else Option.bind (read_cluster_chain p (ucast (cluster_low d))) (find_path p path))"

definition find_dir :: "fat_priv \<Rightarrow> cstring option list \<Rightarrow> fat_dir option outcome option" where
  "find_dir p path =
     (if path = [None] then Some (if length (root_dir p) < 32 then Inl WildAccess else Inr (Some (fat_dir_of (root_dir p) 0)))
      else find_path p path (root_dir p))"

definition dir_line :: "fat_dir \<Rightarrow> u8 list" where
  "dir_line d =
     (if attrs d AND (FAT_ATTR_HIDDEN OR FAT_ATTR_SYSTEM) \<noteq> 0 then []
      else if attrs d AND FAT_ATTR_DIR \<noteq> 0 then dir_name d @ [32, 32, 60, 68, 73, 82, 62, 32, 10]
      else if attrs d AND FAT_ATTR_VOLID \<noteq> 0 then dir_name d @ [32, 32, 60, 86, 79, 76, 62, 32, 10]
      else take 8 (dir_name d) @ [32] @ take 3 (drop 8 (dir_name d)) @ [32, 32, 32, 32, 32, 32, 32, 10])"

function dir_lines :: "u8 list \<Rightarrow> nat \<Rightarrow> u8 list" where
  "dir_lines buf i =
     (if 32 * i < length buf \<and> buf ! (32 * i) \<noteq> 0 then dir_line (fat_dir_of buf i) @ dir_lines buf (Suc i) else [])"
  by pat_completeness auto
termination by (relation "measure (\<lambda>(buf, i). length buf - i)") auto

declare dir_lines.simps [simp del]

definition get_dir_contents :: "fat_priv \<Rightarrow> fat_dir \<Rightarrow> bool \<Rightarrow> u8 list option" where
  "get_dir_contents p d is_root =
     Option.bind (if is_root then Some (root_dir p) else read_cluster_chain p (ucast (cluster_low d)))
       (\<lambda>cldata. Some (dir_lines cldata 0))"

section \<open>Files\<close>

definition fat_open :: "fat_priv \<Rightarrow> cstring option list \<Rightarrow> fat_file option outcome option" where
  "fat_open p path = run_bind (find_dir p path) (\<lambda>r. case r of
      None \<Rightarrow> Some (Inr None)
    | Some d \<Rightarrow>
        if attrs d AND (FAT_ATTR_DIR OR FAT_ATTR_VOLID) = 0
        then Some (Inr (Some \<lparr>start_cluster = ucast (cluster_low d), current_cluster = ucast (cluster_low d),
          current_offset = 0, fsize = dir_size d, dir_contents = None\<rparr>))
        else Option.bind (get_dir_contents p d (attrs d AND FAT_ATTR_VOLID \<noteq> 0)) (\<lambda>contents.
          Some (Inr (Some \<lparr>start_cluster = FAT_CLUSTER_END, current_cluster = FAT_CLUSTER_END, current_offset = 0,
            fsize = of_nat (length (c_str contents)), dir_contents = Some contents\<rparr>))))"

text \<open>\<open>fat_seek\<close> returns before the code that would seek.\<close>

definition fat_seek :: "fat_priv \<Rightarrow> fat_file \<Rightarrow> int \<Rightarrow> int \<Rightarrow> int" where
  "fat_seek p file mode offset = 0"

text \<open>The reading functions return the code, the bytes stored in \<open>buf\<close> and the file.\<close>

definition read_contents :: "fat_file \<Rightarrow> u8 list \<Rightarrow> u32 \<Rightarrow> int \<times> u8 list \<times> fat_file" where
  "read_contents file contents count =
     (if fsize file \<le> current_offset file then (0, [], file)
      else (let to_read = min (fsize file - current_offset file) count
        in (sint to_read, take (unat to_read) (drop (unat (current_offset file)) contents),
            file\<lparr>current_offset := current_offset file + to_read\<rparr>)))"

text \<open>
  The loop over the full clusters: whether it met the end of the chain, the cluster, what
  remains, and the bytes copied.
\<close>

partial_function (option) fat_read_loop ::
  "fat_priv \<Rightarrow> u32 \<Rightarrow> u32 \<Rightarrow> u8 list \<Rightarrow> (bool \<times> u32 \<times> u32 \<times> u8 list) option" where
  "fat_read_loop p clus remaining outp =
     (if bytes_per_cluster p < remaining
      then (if FAT_CLUSTER_END \<le> clus then Some (True, clus, remaining, outp)
        else fat_read_loop p (next_cluster p clus) (remaining - bytes_per_cluster p)
               (outp @ take (unat (bytes_per_cluster p)) (snd (read_cluster p clus))))
      else Some (False, clus, remaining, outp))"

definition fat_read :: "fat_priv \<Rightarrow> fat_file \<Rightarrow> u32 \<Rightarrow> (int \<times> u8 list \<times> fat_file) outcome option" where
  "fat_read p file count =
     (let clbytes = bytes_per_cluster p;
          clus = current_cluster file;
          full_size = min count (fsize file - current_offset file)
      in if full_size = 0 then Some (Inr (0, [], file))
         else case dir_contents file of
           Some contents \<Rightarrow> Some (Inr (read_contents file contents count))
         | None \<Rightarrow>
             if fst (read_cluster p clus) \<noteq> int (unat (sectors_per_cluster (bpb p))) then Some (Inr (-1, [], file))
             else if clbytes = 0 then Some (Inl WildAccess)
             else (let clus_off = current_offset file mod clbytes;
                       firstclus_cnt = min (clbytes - clus_off) full_size;
                       outp = take (unat firstclus_cnt) (drop (unat clus_off) (snd (read_cluster p clus)));
                       remaining = full_size - firstclus_cnt;
                       clus = (if firstclus_cnt = clbytes - clus_off then next_cluster p clus else clus)
                   in Option.bind (fat_read_loop p clus remaining outp) (\<lambda>(ended, clus, remaining, outp).
                     if ended
                     then Some (Inr (sint (count - remaining), outp, file\<lparr>current_cluster := clus,
                       current_offset := current_offset file + (count - remaining)\<rparr>))
                     else (let outp = (if 0 < remaining
                             then outp @ take (unat (min clbytes remaining)) (snd (read_cluster p clus)) else outp);
                           remaining = (if 0 < remaining then remaining - min clbytes remaining else remaining)
                       in Some (Inr (sint (full_size - remaining), outp, file\<lparr>current_cluster := clus,
                         current_offset := current_offset file + (full_size - remaining)\<rparr>))))))"

section \<open>Mounting\<close>

definition fat_create :: "blkdev \<Rightarrow> u32 \<Rightarrow> u32 \<Rightarrow> fat_priv outcome" where
  "fat_create dev lba n =
     (let b = fat_bpb_of (snd (blk_read dev (ucast lba) 1));
          bps = ucast (bpb_bytes_per_sector b) :: u32
      in assert_that (bps = 512) ''Bad FAT sector size''
        (let root = (ucast (nr_root_entries b) * 32 + (bps - 1)) div bps;
             data = ucast (nr_reserved_sectors b) + ucast (nr_fats b) * ucast (sectors_per_fat b) + root
         in Inr \<lparr>start_lba = lba, num_sectors = n, bytes_per_cluster = bps * ucast (sectors_per_cluster b),
              bytes_per_sector = bps, data_start_sector = data, fat_start_sector = ucast (nr_reserved_sectors b),
              root_dir_sector = data - root, nr_root_dir_sectors = root, bpb = b, blk = dev\<rparr>))"

text \<open>The partitions of the master boot record with type \<open>0x0e\<close>, in order.\<close>

definition fat_probe_directed :: "blkdev \<Rightarrow> fat_priv list outcome" where
  "fat_probe_directed dev =
     (let mbr = snd (blk_read dev 0 1)
      in fold (\<lambda>i r. bind_outcome r (\<lambda>found.
           if mbr ! (446 + 16 * i + 4) = 0x0e
           then bind_outcome (fat_create dev (le32 mbr (446 + 16 * i + 8)) (le32 mbr (446 + 16 * i + 12)))
             (\<lambda>p. Inr (found @ [p]))
           else Inr found)) [0..<4] (Inr []))"

section \<open>Cluster chains\<close>

abbreviation cluster_data :: "fat_priv \<Rightarrow> u32 \<Rightarrow> u8 list" where
  "cluster_data p c \<equiv> snd (read_cluster p c)"

fun linked :: "fat_priv \<Rightarrow> u32 list \<Rightarrow> bool" where
  "linked p [] \<longleftrightarrow> True"
| "linked p [c] \<longleftrightarrow> 0 < c \<and> c < FAT_CLUSTER_END"
| "linked p (c # d # cs) \<longleftrightarrow> 0 < c \<and> c < FAT_CLUSTER_END \<and> next_cluster p c = d \<and> linked p (d # cs)"

lemma linked_nth: "linked p cs \<Longrightarrow> i < length cs \<Longrightarrow> 0 < cs ! i \<and> cs ! i < FAT_CLUSTER_END"
proof (induction p cs arbitrary: i rule: linked.induct)
  case (3 p c d cs)
  then show ?case by (cases i) auto
qed auto

lemma linked_next: "linked p cs \<Longrightarrow> Suc i < length cs \<Longrightarrow> next_cluster p (cs ! i) = cs ! Suc i"
proof (induction p cs arbitrary: i rule: linked.induct)
  case (3 p c d cs)
  then show ?case by (cases i) auto
qed auto

lemma read_cluster_chain_linked:
  "linked p cs \<Longrightarrow> cs \<noteq> [] \<Longrightarrow> read_cluster_chain p (hd cs)
     = Option.bind (read_cluster_chain p (next_cluster p (last cs))) (\<lambda>rest. Some (concat (map (cluster_data p) cs) @ rest))"
proof (induction p cs rule: linked.induct)
  case (2 p c)
  then have "0 < c \<and> c \<le> FAT_CLUSTER_END" by (auto intro: less_imp_le)
  then show ?case by (subst read_cluster_chain.simps) simp
next
  case (3 p c d cs)
  then have "0 < c \<and> c \<le> FAT_CLUSTER_END" by (auto intro: less_imp_le)
  then have "read_cluster_chain p c = Option.bind (read_cluster_chain p (next_cluster p c)) (\<lambda>tail. Some (cluster_data p c @ tail))"
    by (subst read_cluster_chain.simps) simp
  then show ?case using 3 by (cases "read_cluster_chain p (next_cluster p (last (d # cs)))") auto
qed simp

text \<open>
  A file on a chain: every cluster is read whole, and the chain is long enough for the size.
\<close>

definition file_data :: "fat_priv \<Rightarrow> u32 list \<Rightarrow> u8 list" where
  "file_data p cs = concat (map (cluster_data p) cs)"

definition file_ok :: "fat_priv \<Rightarrow> u32 list \<Rightarrow> nat \<Rightarrow> bool" where
  "file_ok p cs n \<longleftrightarrow> linked p cs \<and> 0 < bytes_per_cluster p \<and> n \<le> length cs * unat (bytes_per_cluster p) \<and> n < 2147483648
     \<and> (\<forall>c \<in> set cs. fst (read_cluster p c) = int (unat (sectors_per_cluster (bpb p)))
          \<and> length (cluster_data p c) = unat (bytes_per_cluster p))"

definition at_pos :: "fat_priv \<Rightarrow> u32 list \<Rightarrow> fat_file \<Rightarrow> nat \<Rightarrow> bool" where
  "at_pos p cs f off \<longleftrightarrow> current_offset f = of_nat off \<and> off \<le> unat (fsize f) \<and> dir_contents f = None
     \<and> (off < unat (fsize f) \<longrightarrow> current_cluster f = cs ! (off div unat (bytes_per_cluster p)))"

lemma drop_file_data:
  "(\<forall>c \<in> set cs. length (cluster_data p c) = n) \<Longrightarrow> drop (i * n) (file_data p cs) = file_data p (drop i cs)"
proof (induction cs arbitrary: i)
  case (Cons c cs)
  then show ?case by (cases i) (simp_all add: file_data_def)
qed (simp add: file_data_def)

lemma length_file_data:
  "(\<forall>c \<in> set cs. length (cluster_data p c) = n) \<Longrightarrow> length (file_data p cs) = length cs * n"
  by (induction cs) (simp_all add: file_data_def)

lemma file_data_slice:
  assumes "\<forall>c \<in> set cs. length (cluster_data p c) = n" "i < length cs" "o' + k \<le> n"
  shows "take k (drop (i * n + o') (file_data p cs)) = take k (drop o' (cluster_data p (cs ! i)))"
proof -
  have "drop (i * n + o') (file_data p cs) = drop o' (file_data p (drop i cs))"
    using drop_file_data [OF assms(1), of i] by (simp add: add.commute flip: drop_drop)
  also have "drop i cs = cs ! i # drop (Suc i) cs" using assms(2) by (simp add: Cons_nth_drop_Suc)
  also have "file_data p (cs ! i # drop (Suc i) cs) = cluster_data p (cs ! i) @ file_data p (drop (Suc i) cs)"
    by (simp add: file_data_def)
  finally show ?thesis using assms by simp
qed

lemma fat_read_loop_data:
  assumes "file_ok p cs n" and cl: "cl = unat (bytes_per_cluster p)"
  shows "0 < unat r \<Longrightarrow> i * cl + unat r \<le> length cs * cl \<Longrightarrow>
    \<exists>j r'. fat_read_loop p (cs ! i) r acc
        = Some (False, cs ! (i + j), r', acc @ take (j * cl) (drop (i * cl) (file_data p cs)))
      \<and> unat r = j * cl + unat r' \<and> 0 < unat r' \<and> unat r' \<le> cl"
proof (induction "unat r" arbitrary: r i acc rule: less_induct)
  case less
  have len: "\<forall>c \<in> set cs. length (cluster_data p c) = cl" and lk: "linked p cs" and pos: "0 < cl"
    using assms by (auto simp: file_ok_def unat_gt_0)
  show ?case
  proof (cases "bytes_per_cluster p < r")
    case False
    then have "unat r \<le> cl" by (simp add: cl word_less_nat_alt)
    then show ?thesis
      using False less.prems by (subst fat_read_loop.simps) (auto intro!: exI [of _ 0] exI [of _ r])
  next
    case True
    let ?r = "r - bytes_per_cluster p"
    have gt: "cl < unat r" using True by (simp add: cl word_less_nat_alt)
    then have r: "unat ?r = unat r - cl" using True by (simp add: cl unat_sub)
    have "i * cl + cl < length cs * cl" using less.prems(2) gt by linarith
    then have "Suc i * cl < length cs * cl" by simp
    then have i: "Suc i < length cs" by (metis mult_less_cancel2)
    have ne: "\<not> FAT_CLUSTER_END \<le> cs ! i" using linked_nth [OF lk, of i] i by (simp add: not_le)
    have nx: "next_cluster p (cs ! i) = cs ! Suc i" by (rule linked_next [OF lk i])
    have d: "take cl (drop (i * cl) (file_data p cs)) = take cl (cluster_data p (cs ! i))"
      using file_data_slice [OF len, of i 0 cl] i by simp
    have "Suc i * cl + unat ?r \<le> length cs * cl" using less.prems(2) r gt by simp
    then obtain j r' where j: "fat_read_loop p (cs ! Suc i) ?r (acc @ take cl (cluster_data p (cs ! i)))
        = Some (False, cs ! (Suc i + j), r', (acc @ take cl (cluster_data p (cs ! i)))
            @ take (j * cl) (drop (Suc i * cl) (file_data p cs)))"
      "unat ?r = j * cl + unat r'" "0 < unat r'" "unat r' \<le> cl"
      using less.hyps [of ?r "Suc i" "acc @ take cl (cluster_data p (cs ! i))"] r gt pos by auto
    have t: "take cl (cluster_data p (cs ! i)) @ take (j * cl) (drop (Suc i * cl) (file_data p cs))
        = take (Suc j * cl) (drop (i * cl) (file_data p cs))"
      using take_add [of cl "j * cl" "drop (i * cl) (file_data p cs)"] d by (simp add: add.commute)
    have "fat_read_loop p (cs ! i) r acc = fat_read_loop p (cs ! Suc i) ?r (acc @ take cl (cluster_data p (cs ! i)))"
      using True ne nx by (subst fat_read_loop.simps) (simp flip: cl)
    then have "fat_read_loop p (cs ! i) r acc
        = Some (False, cs ! (i + Suc j), r', acc @ take (Suc j * cl) (drop (i * cl) (file_data p cs)))"
      by (simp only: j(1) t append_assoc add_Suc_right add_Suc)
    moreover have "unat r = Suc j * cl + unat r'" using j(2) r gt by simp
    ultimately show ?thesis using j(3,4) by blast
  qed
qed

section \<open>Reading a file\<close>

lemma mod_less_u32: "0 < (b :: u32) \<Longrightarrow> a mod b < b"
  by (simp add: word_less_nat_alt unat_mod)

text \<open>One read of \<open>n > 0\<close> bytes at \<open>off\<close>, up to the loop over the full clusters.\<close>

lemma fat_read_run:
  assumes f: "dir_contents f = None" "fst (read_cluster p (current_cluster f)) = int (unat (sectors_per_cluster (bpb p)))"
    and uo: "unat (current_offset f) = off" and off: "off < unat (fsize f)"
    and n: "n = min (unat count) (unat (fsize f) - off)" "0 < n"
    and cl: "cl = unat (bytes_per_cluster p)" and clp: "0 < cl"
  shows "\<exists>full r. unat full = n \<and> unat r = n - min (cl - off mod cl) n \<and>
    fat_read p f count = Option.bind (fat_read_loop p
        (if cl - off mod cl \<le> n then next_cluster p (current_cluster f) else current_cluster f) r
        (take (min (cl - off mod cl) n) (drop (off mod cl) (cluster_data p (current_cluster f)))))
      (\<lambda>(ended, clus, remaining, outp).
        if ended
        then Some (Inr (sint (count - remaining), outp, f\<lparr>current_cluster := clus,
          current_offset := current_offset f + (count - remaining)\<rparr>))
        else (let outp = (if 0 < remaining
                then outp @ take (unat (min (bytes_per_cluster p) remaining)) (cluster_data p clus) else outp);
              remaining = (if 0 < remaining then remaining - min (bytes_per_cluster p) remaining else remaining)
          in Some (Inr (sint (full - remaining), outp, f\<lparr>current_cluster := clus,
            current_offset := current_offset f + (full - remaining)\<rparr>))))"
proof -
  let ?o = "off mod cl"
  let ?first = "cl - ?o"
  have o: "?o < cl" using clp by simp
  let ?full = "min count (fsize f - current_offset f)"
  have full: "unat ?full = n"
    using off uo by (simp add: n(1) min_def word_le_nat_alt unat_sub)
  let ?co = "current_offset f mod bytes_per_cluster p"
  have co: "unat ?co = ?o" by (simp add: unat_mod uo cl)
  have cow: "unat (bytes_per_cluster p - ?co) = ?first"
    using o by (simp add: unat_sub word_le_nat_alt co less_imp_le flip: cl)
  let ?fc = "min (bytes_per_cluster p - ?co) ?full"
  have fc: "unat ?fc = min ?first n" using full cow by (simp add: min_def word_le_nat_alt)
  have r: "unat (?full - ?fc) = n - min ?first n" by (subst unat_sub [OF min.cobounded2]) (simp add: full fc)
  have fceq: "?fc = bytes_per_cluster p - ?co \<longleftrightarrow> ?first \<le> n"
    by (simp add: word_eq_unat_u32 fc cow) linarith
  have "?full \<noteq> 0" using full n(2) by (metis unat_0 less_irrefl)
  moreover have "bytes_per_cluster p \<noteq> 0" using clp cl by auto
  ultimately show ?thesis
  proof (intro exI [of _ ?full, OF exI [of _ "?full - ?fc"]] conjI)
    show "unat ?full = n" by (rule full)
    show "unat (?full - ?fc) = n - min ?first n" by (rule r)
  qed (unfold fat_read_def Let_def, simp only: f co fc fceq option.case if_False simp_thms)
qed

lemma word_of_unat_u32: "unat (w :: u32) = n \<Longrightarrow> w = of_nat n"
  by (drule arg_cong [where f = "of_nat :: nat \<Rightarrow> u32"]) simp

text \<open>A read inside one cluster, whatever that cluster is.\<close>

lemma fat_read_within:
  assumes f: "dir_contents f = None" "fst (read_cluster p (current_cluster f)) = int (unat (sectors_per_cluster (bpb p)))"
    and uo: "unat (current_offset f) = off" and off: "off < unat (fsize f)" and sz: "unat (fsize f) < 2147483648"
    and n: "n = min (unat count) (unat (fsize f) - off)" "0 < n"
    and cl: "cl = unat (bytes_per_cluster p)" "0 < cl" and le: "n \<le> cl - off mod cl"
  shows "fat_read p f count = Some (Inr (int n, take n (drop (off mod cl) (cluster_data p (current_cluster f))),
    f\<lparr>current_cluster := if n = cl - off mod cl then next_cluster p (current_cluster f) else current_cluster f,
      current_offset := of_nat (off + n)\<rparr>))"
proof -
  let ?clus = "if cl - off mod cl \<le> n then next_cluster p (current_cluster f) else current_cluster f"
  let ?c1 = "take (min (cl - off mod cl) n) (drop (off mod cl) (cluster_data p (current_cluster f)))"
  from fat_read_run [OF f uo off n cl] obtain full r where *: "unat full = n" "unat r = n - min (cl - off mod cl) n"
    "fat_read p f count = Option.bind (fat_read_loop p ?clus r ?c1)
      (\<lambda>(ended, clus, remaining, outp).
        if ended
        then Some (Inr (sint (count - remaining), outp, f\<lparr>current_cluster := clus,
          current_offset := current_offset f + (count - remaining)\<rparr>))
        else (let outp = (if 0 < remaining
                then outp @ take (unat (min (bytes_per_cluster p) remaining)) (cluster_data p clus) else outp);
              remaining = (if 0 < remaining then remaining - min (bytes_per_cluster p) remaining else remaining)
          in Some (Inr (sint (full - remaining), outp, f\<lparr>current_cluster := clus,
            current_offset := current_offset f + (full - remaining)\<rparr>))))"
    by blast
  have "unat r = 0" using *(2) le by simp
  then have r0: "r = 0" by (simp only: unat_eq_zero)
  have "fat_read_loop p ?clus 0 ?c1 = Some (False, ?clus, 0, ?c1)" by (subst fat_read_loop.simps) simp
  moreover have "n < 2147483648" using n(1) sz by simp
  then have "sint full = int n" using sint_small_u32 [of full] *(1) by (simp only:)
  moreover have "current_offset f + full = of_nat (off + n)"
    using word_of_unat_u32 [OF uo] word_of_unat_u32 [OF *(1)] by simp
  moreover have "(cl - off mod cl \<le> n) = (n = cl - off mod cl)" using le by auto
  ultimately show ?thesis
    unfolding *(3) r0 using le by (simp add: min_absorb2)
qed

text \<open>
  A read in a file: the bytes, the new offset and the new current cluster. A read that leaves
  the first cluster and ends with a whole cluster stays on that cluster.
\<close>

lemma fat_read_step:
  assumes ok: "file_ok p cs (unat (fsize f))" and pos: "at_pos p cs f off"
    and n: "n = min (unat count) (unat (fsize f) - off)" "0 < n"
    and cl: "cl = unat (bytes_per_cluster p)"
  shows "\<exists>f'. fat_read p f count = Some (Inr (int n, take n (drop off (file_data p cs)), f')) \<and>
    current_offset f' = of_nat (off + n) \<and> fsize f' = fsize f \<and> dir_contents f' = None \<and>
    current_cluster f' = (if n < cl - off mod cl then cs ! (off div cl)
      else if n = cl - off mod cl then next_cluster p (cs ! (off div cl)) else cs ! ((off + n - 1) div cl))"
proof -
  let ?i = "off div cl" and ?o = "off mod cl" and ?D = "file_data p cs"
  let ?first = "cl - ?o"
  have clp: "0 < cl" and len: "\<forall>c \<in> set cs. length (cluster_data p c) = cl" and lk: "linked p cs"
    and sz: "unat (fsize f) \<le> length cs * cl" "unat (fsize f) < 2147483648"
    using ok by (auto simp: file_ok_def cl unat_gt_0)
  have o: "?o < cl" "off = ?i * cl + ?o" using clp by simp_all
  have off: "off < unat (fsize f)" using n by simp
  have uo: "unat (current_offset f) = off"
    using pos sz off by (auto simp: at_pos_def intro!: unat_of_nat_u32)
  have "?i * cl < length cs * cl" using o off sz(1) by linarith
  then have i: "?i < length cs" by (metis mult_less_cancel2)
  have cur: "current_cluster f = cs ! ?i" "dir_contents f = None" using pos off by (simp_all add: at_pos_def cl)
  have rc: "fst (read_cluster p (current_cluster f)) = int (unat (sectors_per_cluster (bpb p)))"
    using ok i by (simp add: file_ok_def cur)
  let ?c1 = "take (min ?first n) (drop ?o (cluster_data p (cs ! ?i)))"
  have c1: "?c1 = take (min ?first n) (drop off ?D)"
    using file_data_slice [OF len i, of ?o "min ?first n"] o by simp
  have s0: "n < 2147483648" using n(1) sz(2) by simp
  show ?thesis
  proof (cases "n \<le> ?first")
    case True
    have "?c1 = take n (drop ?o (cluster_data p (cs ! ?i)))" using True by (simp add: min_absorb2)
    then show ?thesis
      using fat_read_within [OF cur(2) rc uo off sz(2) n cl clp True] True c1
      by (auto simp: cur min_absorb2)
  next
    case False
    let ?clus = "if ?first \<le> n then next_cluster p (current_cluster f) else current_cluster f"
    from fat_read_run [OF cur(2) rc uo off n cl clp] obtain full r where full: "unat full = n"
      and r: "unat r = n - min ?first n"
      and run: "fat_read p f count = Option.bind (fat_read_loop p ?clus r
          (take (min ?first n) (drop ?o (cluster_data p (current_cluster f)))))
        (\<lambda>(ended, clus, remaining, outp).
          if ended
          then Some (Inr (sint (count - remaining), outp, f\<lparr>current_cluster := clus,
            current_offset := current_offset f + (count - remaining)\<rparr>))
          else (let outp = (if 0 < remaining
                  then outp @ take (unat (min (bytes_per_cluster p) remaining)) (cluster_data p clus) else outp);
                remaining = (if 0 < remaining then remaining - min (bytes_per_cluster p) remaining else remaining)
            in Some (Inr (sint (full - remaining), outp, f\<lparr>current_cluster := clus,
              current_offset := current_offset f + (full - remaining)\<rparr>))))"
      by blast
    have s: "sint full = int n" "current_offset f + full = of_nat (off + n)"
      using s0 sint_small_u32 [of full] full word_of_unat_u32 [OF uo] word_of_unat_u32 [OF full]
      by (simp_all only: of_nat_add)
    have rn: "unat r = n - ?first" "0 < n - ?first" using False by (simp_all add: r)
    have e: "?i * cl + cl = off + ?first" using o by linarith
    have "Suc ?i * cl < length cs * cl" using e False n(1) sz(1) off by simp
    then have i1: "Suc ?i < length cs" by (metis mult_less_cancel2)
    have nx: "(if ?first \<le> n then next_cluster p (cs ! ?i) else cs ! ?i) = cs ! Suc ?i"
      using False linked_next [OF lk i1] by simp
    have ub: "off + n \<le> length cs * cl" using n(1) sz(1) off by (simp add: min_def split: if_splits)
    have e2: "Suc ?i * cl + unat r = off + n" using rn e by simp
    have fits: "Suc ?i * cl + unat r \<le> length cs * cl" using e2 ub by simp
    have "0 < unat r" using rn by simp
    from fat_read_loop_data [OF ok cl this fits, of ?c1] obtain j r' where j: "fat_read_loop p (cs ! Suc ?i) r ?c1
        = Some (False, cs ! (Suc ?i + j), r', ?c1 @ take (j * cl) (drop (Suc ?i * cl) ?D))"
      "unat r = j * cl + unat r'" "0 < unat r'" "unat r' \<le> cl"
      by blast
    have last: "Suc ?i + j < length cs"
    proof -
      have "(Suc ?i + j) * cl < length cs * cl"
        using j(2,3) e2 ub by (simp add: add_mult_distrib)
      then show ?thesis by (metis mult_less_cancel2)
    qed
    have mn: "min (bytes_per_cluster p) r' = r'" using j(4) by (intro min_absorb2) (simp add: cl word_le_nat_alt)
    have r'0: "0 < r'" using j(3) by (simp add: word_less_nat_alt)
    have d2: "take (unat r') (cluster_data p (cs ! (Suc ?i + j))) = take (unat r') (drop ((Suc ?i + j) * cl) ?D)"
      using file_data_slice [OF len last, of 0 "unat r'"] j(4) by simp
    have total: "?c1 @ take (j * cl) (drop (Suc ?i * cl) ?D) @ take (unat r') (drop ((Suc ?i + j) * cl) ?D)
        = take n (drop off ?D)"
    proof -
      have nn: "n = ?first + (j * cl + unat r')" using j(2) rn(1) False by linarith
      have "take n (drop off ?D) = take ?first (drop off ?D) @ take (j * cl + unat r') (drop (?first + off) ?D)"
        unfolding nn by (simp add: take_add)
      moreover have "drop (?first + off) ?D = drop (Suc ?i * cl) ?D" using e by (simp add: add.commute)
      moreover have "drop (j * cl) (drop (Suc ?i * cl) ?D) = drop ((Suc ?i + j) * cl) ?D"
        by (simp add: add_mult_distrib add.commute add.left_commute)
      moreover have "?c1 = take ?first (drop off ?D)" using c1 False by (simp add: min_absorb1)
      ultimately show ?thesis by (simp add: take_add)
    qed
    then have total': "(?c1 @ take (j * cl) (drop (Suc ?i * cl) ?D)) @ take (unat r') (cluster_data p (cs ! (Suc ?i + j)))
        = take n (drop off ?D)"
      by (simp only: append_assoc d2)
    have "off + n - 1 = (Suc ?i + j) * cl + (unat r' - 1)"
      using j(2,3) e2 by (simp add: add_mult_distrib)
    moreover have "((Suc ?i + j) * cl + (unat r' - 1)) div cl = Suc ?i + j + (unat r' - 1) div cl"
      by (rule div_mult_self3) (use clp in simp)
    moreover have "(unat r' - 1) div cl = 0" using j(3,4) clp by simp
    ultimately have idx: "(off + n - 1) div cl = Suc ?i + j" by simp
    have "fat_read p f count = Some (Inr (int n, take n (drop off ?D),
        f\<lparr>current_cluster := cs ! (Suc ?i + j), current_offset := of_nat (off + n)\<rparr>))"
      unfolding run cur(1) nx j(1)
      by (simp only: Option.bind.simps prod.case if_False Let_def r'0 if_True mn total' diff_self diff_zero s)
    then show ?thesis using False pos idx by (auto simp: at_pos_def)
  qed
qed

lemma fat_read_pos:
  assumes ok: "file_ok p cs (unat (fsize f))" and pos: "at_pos p cs f off"
    and n: "n = min (unat count) (unat (fsize f) - off)" and cl: "cl = unat (bytes_per_cluster p)"
  shows "\<exists>f'. fat_read p f count = Some (Inr (int n, take n (drop off (file_data p cs)), f')) \<and> fsize f' = fsize f \<and>
    (n \<le> cl - off mod cl \<or> (off + n) mod cl \<noteq> 0 \<or> off + n = unat (fsize f) \<longrightarrow> at_pos p cs f' (off + n))"
proof (cases "n = 0")
  case True
  have sz: "unat (fsize f) < 2147483648" and off: "off \<le> unat (fsize f)" using ok pos by (auto simp: file_ok_def at_pos_def)
  have uo: "unat (current_offset f) = off"
    using pos sz off by (auto simp: at_pos_def intro!: unat_of_nat_u32)
  have "unat (min count (fsize f - current_offset f)) = 0"
    using True off uo by (simp add: n min_def word_le_nat_alt unat_sub split: if_splits)
  then have "min count (fsize f - current_offset f) = 0" by (simp only: unat_eq_zero)
  then have "fat_read p f count = Some (Inr (0, [], f))" by (simp add: fat_read_def)
  then show ?thesis using True pos by simp
next
  case False
  then have n0: "0 < n" by simp
  have clp: "0 < cl" and lk: "linked p cs" and sz: "unat (fsize f) \<le> length cs * cl"
    using ok by (auto simp: file_ok_def cl unat_gt_0)
  have le: "off + n \<le> unat (fsize f)" using pos n by (auto simp: at_pos_def)
  obtain f' where f': "fat_read p f count = Some (Inr (int n, take n (drop off (file_data p cs)), f'))"
    "current_offset f' = of_nat (off + n)" "fsize f' = fsize f" "dir_contents f' = None"
    "current_cluster f' = (if n < cl - off mod cl then cs ! (off div cl)
      else if n = cl - off mod cl then next_cluster p (cs ! (off div cl)) else cs ! ((off + n - 1) div cl))"
    using fat_read_step [OF ok pos n n0 cl] by blast
  have o: "off = off div cl * cl + off mod cl" "off mod cl < cl" using clp by simp_all
  have "current_cluster f' = cs ! ((off + n) div cl)"
    if c: "n \<le> cl - off mod cl \<or> (off + n) mod cl \<noteq> 0" and lt: "off + n < unat (fsize f)"
  proof (cases n "cl - off mod cl" rule: linorder_cases)
    case less
    then have "off + n = off div cl * cl + (off mod cl + n)" "off mod cl + n < cl" using o by linarith+
    then have "(off + n) div cl = off div cl" using clp div_mult_self3 [of cl "off div cl" "off mod cl + n"] by simp
    then show ?thesis using less f'(5) by simp
  next
    case equal
    then have e: "off + n = Suc (off div cl) * cl" using o by (simp only: mult_Suc)
    then have d: "(off + n) div cl = Suc (off div cl)" using clp by (metis nonzero_mult_div_cancel_right less_numeral_extra(3))
    have "Suc (off div cl) * cl < length cs * cl" using e lt sz by linarith
    then have "Suc (off div cl) < length cs" by (metis mult_less_cancel2)
    then show ?thesis using equal f'(5) linked_next [OF lk] d by simp
  next
    case greater
    then have m: "(off + n) mod cl \<noteq> 0" using c by simp
    have "(off + n - 1) div cl = (off + n) div cl"
    proof -
      obtain r where r: "off + n = (off + n) div cl * cl + Suc r" "Suc r < cl"
        using m clp by (metis div_mult_mod_eq mod_less_divisor not0_implies_Suc)
      then have "off + n - 1 = (off + n) div cl * cl + r" "r < cl" by linarith+
      then show ?thesis using clp div_mult_self3 [of cl "(off + n) div cl" r] by simp
    qed
    then show ?thesis using greater f'(5) by simp
  qed
  then have "at_pos p cs f' (off + n)"
    if "n \<le> cl - off mod cl \<or> (off + n) mod cl \<noteq> 0 \<or> off + n = unat (fsize f)"
    using that le f'(2-4) by (auto simp: at_pos_def simp flip: cl)
  then show ?thesis using f'(1,3) by blast
qed

text \<open>
  C17: \<open>fat_read\<close> at any offset of a file whose clusters are chained ends and delivers the next
  bytes of the file, as many as asked for or as are left; the file is then positioned after them,
  so the next read continues, except when a read crosses a cluster boundary and ends on another:
  then the current cluster is one behind the offset.
\<close>

theorem fat_read_file:
  assumes "file_ok p cs (unat (fsize f))" "at_pos p cs f off"
    and "n = min (unat count) (unat (fsize f) - off)" and "cl = unat (bytes_per_cluster p)"
  shows "\<exists>f'. fat_read p f count = Some (Inr (int n, take n (drop off (file_data p cs)), f')) \<and> fsize f' = fsize f \<and>
    (n \<le> cl - off mod cl \<or> (off + n) mod cl \<noteq> 0 \<or> off + n = unat (fsize f) \<longrightarrow> at_pos p cs f' (off + n)) \<and>
    (cl - off mod cl < n \<and> (off + n) mod cl = 0 \<longrightarrow> current_cluster f' = cs ! ((off + n) div cl - 1))"
proof -
  obtain f' where f': "fat_read p f count = Some (Inr (int n, take n (drop off (file_data p cs)), f'))"
    "fsize f' = fsize f"
    "n \<le> cl - off mod cl \<or> (off + n) mod cl \<noteq> 0 \<or> off + n = unat (fsize f) \<longrightarrow> at_pos p cs f' (off + n)"
    using fat_read_pos [OF assms] by blast
  have last: "cl - off mod cl < n \<and> (off + n) mod cl = 0 \<longrightarrow> current_cluster f' = cs ! ((off + n) div cl - 1)"
  proof
    assume s': "cl - off mod cl < n \<and> (off + n) mod cl = 0"
    note s = conjunct1 [OF s'] conjunct2 [OF s']
    have clp: "0 < cl" using assms(1,4) by (auto simp: file_ok_def unat_gt_0)
    have n0: "0 < n" using s(1) by simp
    have cur: "current_cluster f' = cs ! ((off + n - 1) div cl)"
      using fat_read_step [OF assms(1-3) n0 assms(4)] f'(1) s(1) by auto
    obtain k where k: "off + n = Suc k * cl"
      using s(2) n0 clp by (metis add_gr_0 mod_0_imp_dvd dvd_div_mult_self gr0_implies_Suc mult_eq_0_iff not_gr_zero)
    have "off + n - 1 = k * cl + (cl - 1)" using clp by (simp add: k)
    then have d1: "(off + n - 1) div cl = k" using clp div_mult_self3 [of cl k "cl - 1"] by simp
    have d2: "(off + n) div cl = Suc k" unfolding k using clp by (intro nonzero_mult_div_cancel_right) simp
    show "current_cluster f' = cs ! ((off + n) div cl - 1)" unfolding cur d1 d2 by (simp only: diff_Suc_1)
  qed
  show ?thesis by (rule exI [of _ f'], intro conjI, rule f'(1), rule f'(2), rule f'(3), rule last)
qed

text \<open>A disk with a chain of the clusters 2, 3, 4; other sectors hold their number 512 times.\<close>

definition toy_sector :: "nat \<Rightarrow> u8 list" where
  "toy_sector l = (if l = 1 then [0xf8, 0xff, 0xff, 0xff, 3, 0, 4, 0, 0xff, 0xff] @ replicate 502 0
     else replicate 512 (of_nat l))"

definition toy_blk :: blkdev where
  "toy_blk = \<lparr>blk_read = (\<lambda>lba n. (int (unat n), concat (map (\<lambda>i. toy_sector (unat lba + i)) [0..<unat n])))\<rparr>"

definition toy_priv :: fat_priv where
  "toy_priv = \<lparr>start_lba = 0, num_sectors = 100, bytes_per_cluster = 512, bytes_per_sector = 512, data_start_sector = 3,
     fat_start_sector = 1, root_dir_sector = 2, nr_root_dir_sectors = 1,
     bpb = \<lparr>bpb_bytes_per_sector = 512, sectors_per_cluster = 1, nr_reserved_sectors = 1, nr_fats = 1,
       nr_root_entries = 16, sectors_per_fat = 1\<rparr>, blk = toy_blk\<rparr>"

definition toy_file :: fat_file where
  "toy_file = \<lparr>start_cluster = 2, current_cluster = 2, current_offset = 0, fsize = 1300, dir_contents = None\<rparr>"

lemma toy_file_ok: "file_ok toy_priv [2, 3, 4] 1300" and toy_at_pos: "at_pos toy_priv [2, 3, 4] toy_file 0"
  by (simp_all add: file_ok_def at_pos_def toy_priv_def toy_file_def toy_blk_def toy_sector_def read_cluster_def
      sector_of_cluster_def next_cluster_def le16_def FAT_CLUSTER_END_def)

lemma fat_read_file_witness:
  "\<exists>f'. fat_read toy_priv toy_file 600 = Some (Inr (600, take 600 (file_data toy_priv [2, 3, 4]), f'))
     \<and> at_pos toy_priv [2, 3, 4] f' 600"
proof -
  have s: "unat (fsize toy_file) = 1300" "unat (bytes_per_cluster toy_priv) = 512"
    by (simp_all add: toy_file_def toy_priv_def)
  have n: "600 = min (unat (600 :: u32)) (unat (fsize toy_file) - 0)" by (simp add: s)
  show ?thesis using fat_read_file [OF _ toy_at_pos n refl] toy_file_ok by (auto simp: s)
qed

lemma fat_read_again:
  assumes ok: "file_ok p cs (unat (fsize f))" and pos: "at_pos p cs f off" and cl: "cl = unat (bytes_per_cluster p)"
    and n: "n = unat count" "cl - off mod cl < n" "(off + n) mod cl = 0" "off + n < unat (fsize f)"
    and k: "0 < unat k" "unat k \<le> cl" "off + n + unat k \<le> unat (fsize f)"
  shows "\<exists>f' f''. fat_read p f count = Some (Inr (int n, take n (drop off (file_data p cs)), f')) \<and>
    fat_read p f' k = Some (Inr (int (unat k), take (unat k) (drop (off + n - cl) (file_data p cs)), f''))"
proof -
  have len: "\<forall>c \<in> set cs. length (cluster_data p c) = cl" and clp: "0 < cl"
    and sz: "unat (fsize f) \<le> length cs * cl" "unat (fsize f) < 2147483648"
    using ok by (auto simp: file_ok_def cl unat_gt_0)
  have n': "n = min (unat count) (unat (fsize f) - off)" "0 < n" using n by simp_all
  obtain f' where f': "fat_read p f count = Some (Inr (int n, take n (drop off (file_data p cs)), f'))"
    "current_offset f' = of_nat (off + n)" "fsize f' = fsize f" "dir_contents f' = None"
    using fat_read_step [OF ok pos n' cl] by blast
  have cur: "current_cluster f' = cs ! ((off + n) div cl - 1)"
    using fat_read_file [OF ok pos n'(1) cl] f'(1) n(2,3) by auto
  obtain i where i: "off + n = Suc i * cl"
    using n(3) n'(2) clp by (metis add_gr_0 mod_0_imp_dvd dvd_div_mult_self gr0_implies_Suc mult_eq_0_iff not_gr_zero)
  have d: "(off + n) div cl = Suc i" unfolding i using clp by (intro nonzero_mult_div_cancel_right) simp
  have "Suc i * cl < length cs * cl" using i n(4) sz(1) by linarith
  then have il: "i < length cs" by (metis mult_less_cancel2 Suc_lessD)
  have cc: "current_cluster f' = cs ! i" by (simp add: cur d)
  have rc: "fst (read_cluster p (current_cluster f')) = int (unat (sectors_per_cluster (bpb p)))"
    using ok il by (simp add: file_ok_def cc)
  have uo: "unat (current_offset f') = off + n" unfolding f'(2) using n(4) sz(2) by (intro unat_of_nat_u32) linarith
  have m: "(off + n) mod cl = 0" by (rule n(3))
  have kk: "unat k = min (unat k) (unat (fsize f') - (off + n))" using k(3) f'(3) by simp
  have "fat_read p f' k = Some (Inr (int (unat k), take (unat k) (drop ((off + n) mod cl) (cluster_data p (current_cluster f'))),
    f'\<lparr>current_cluster := if unat k = cl - (off + n) mod cl then next_cluster p (current_cluster f') else current_cluster f',
      current_offset := of_nat (off + n + unat k)\<rparr>))"
    by (rule fat_read_within [OF f'(4) rc uo _ _ kk k(1) cl clp]) (use n(4) sz(2) f'(3) k(2) m in simp_all)
  moreover have "take (unat k) (cluster_data p (cs ! i)) = take (unat k) (drop (off + n - cl) (file_data p cs))"
    using file_data_slice [OF len il, of 0 "unat k"] k(2) by (simp add: i)
  ultimately show ?thesis using f'(1) by (simp add: cc m)
qed

text \<open>
  A read that crosses a cluster boundary and ends on another, short of the end of the file,
  breaks the next one: the next read (of at most a cluster) delivers again the bytes of the
  cluster just read instead of the following ones.
\<close>

theorem fat_read_repeats_cluster:
  assumes "file_ok p cs (unat (fsize f))" "at_pos p cs f off" "cl = unat (bytes_per_cluster p)"
    and "cl - off mod cl < unat count" "(off + unat count) mod cl = 0" "off + unat count < unat (fsize f)"
    and "0 < unat k" "unat k \<le> cl" "off + unat count + unat k \<le> unat (fsize f)"
  shows "\<exists>f' f''. fat_read p f count = Some (Inr (int (unat count), take (unat count) (drop off (file_data p cs)), f')) \<and>
    fat_read p f' k = Some (Inr (int (unat k), take (unat k) (drop (off + unat count - cl) (file_data p cs)), f''))"
  by (rule fat_read_again [OF assms(1-3) refl assms(4-9)])

lemma fat_read_repeats_cluster_witness:
  "\<exists>f' f''. fat_read toy_priv toy_file 1024 = Some (Inr (1024, take 1024 (file_data toy_priv [2, 3, 4]), f'))
     \<and> fat_read toy_priv f' 3 = Some (Inr (3, [4, 4, 4], f''))"
proof -
  have s: "unat (fsize toy_file) = 1300" "unat (bytes_per_cluster toy_priv) = 512"
    by (simp_all add: toy_file_def toy_priv_def)
  have "take 3 (drop 512 (file_data toy_priv [2, 3, 4])) = [4, 4, 4]"
    by (simp add: file_data_def toy_priv_def toy_blk_def toy_sector_def read_cluster_def sector_of_cluster_def numeral_3_eq_3)
  then show ?thesis
    using fat_read_repeats_cluster [OF _ toy_at_pos refl, of 1024 3] toy_file_ok by (auto simp: s)
qed

section \<open>Chains and directories\<close>

text \<open>
  \<open>read_cluster_chain\<close> returns the data of a linked chain when the entry after it is above
  \<open>0xfff8\<close> or 0; after the end marker \<open>0xfff8\<close> itself it goes on and appends cluster \<open>0xfff8\<close>
  and what its entry leads to; on a cyclic chain it never returns.
\<close>

theorem read_cluster_chain_end:
  assumes "linked p cs" "cs \<noteq> []" "file_data p cs \<noteq> []"
  shows "(FAT_CLUSTER_END < next_cluster p (last cs) \<or> next_cluster p (last cs) = 0 \<longrightarrow>
      read_cluster_chain p (hd cs) = Some (file_data p cs)) \<and>
    (next_cluster p (last cs) = FAT_CLUSTER_END \<longrightarrow> read_cluster_chain p (hd cs)
       = map_option (\<lambda>rest. file_data p cs @ cluster_data p FAT_CLUSTER_END @ rest)
           (read_cluster_chain p (next_cluster p FAT_CLUSTER_END))) \<and>
    (next_cluster p (last cs) = hd cs \<longrightarrow> read_cluster_chain p (hd cs) = None)"
proof (intro conjI impI)
  let ?e = "next_cluster p (last cs)"
  have eq: "read_cluster_chain p (hd cs) = Option.bind (read_cluster_chain p ?e) (\<lambda>rest. Some (file_data p cs @ rest))"
    using read_cluster_chain_linked [OF assms(1,2)] by (simp add: file_data_def)
  show "read_cluster_chain p (hd cs) = Some (file_data p cs)" if "FAT_CLUSTER_END < ?e \<or> ?e = 0"
  proof -
    have "read_cluster_chain p ?e = Some []" using that by (subst read_cluster_chain.simps) auto
    then show ?thesis by (simp add: eq)
  qed
  show "read_cluster_chain p (hd cs) = map_option (\<lambda>rest. file_data p cs @ cluster_data p FAT_CLUSTER_END @ rest)
      (read_cluster_chain p (next_cluster p FAT_CLUSTER_END))" if e: "?e = FAT_CLUSTER_END"
  proof -
    have "0 < FAT_CLUSTER_END \<and> FAT_CLUSTER_END \<le> FAT_CLUSTER_END" by (simp add: FAT_CLUSTER_END_def)
    then have "read_cluster_chain p FAT_CLUSTER_END = Option.bind (read_cluster_chain p (next_cluster p FAT_CLUSTER_END))
        (\<lambda>tail. Some (cluster_data p FAT_CLUSTER_END @ tail))"
      by (subst read_cluster_chain.simps) simp
    then show ?thesis unfolding eq e by (cases "read_cluster_chain p (next_cluster p FAT_CLUSTER_END)") simp_all
  qed
  show "read_cluster_chain p (hd cs) = None" if "?e = hd cs"
  proof (cases "read_cluster_chain p (hd cs)")
    case (Some xs)
    then have "Some xs = Some (file_data p cs @ xs)" using eq unfolding that Some by (simp only: Option.bind.simps)
    then show ?thesis using assms(3) by simp
  qed
qed

lemma read_cluster_chain_end_witness:
  "read_cluster_chain toy_priv 2 = Some (file_data toy_priv [2, 3, 4])"
proof -
  have "file_data toy_priv [2, 3, 4] \<noteq> []" "FAT_CLUSTER_END < next_cluster toy_priv 4"
    by (simp_all add: file_data_def toy_priv_def toy_blk_def toy_sector_def read_cluster_def sector_of_cluster_def
        next_cluster_def le16_def FAT_CLUSTER_END_def)
  moreover have "linked toy_priv [2, 3, 4]" using toy_file_ok by (simp add: file_ok_def)
  ultimately show ?thesis using read_cluster_chain_end [of toy_priv "[2, 3, 4]"] by simp
qed

definition lower :: "cstring \<Rightarrow> int list" where
  "lower s = map (\<lambda>c. tolower (uint c)) s"

lemma tolower_u8_0: "tolower (uint (c :: u8)) = 0 \<longleftrightarrow> c = 0"
proof -
  have "uint c XOR 0x20 \<noteq> 0" if "65 \<le> uint c"
  proof
    assume "uint c XOR 0x20 = 0"
    then have "uint c = 0x20" by (metis xor.left_neutral xor.assoc xor_self_eq xor.right_neutral)
    then show False using that by simp
  qed
  then show ?thesis by (auto simp: tolower_def uint_0_iff)
qed

lemma stridiff_0: "0 \<notin> set s \<Longrightarrow> 0 \<notin> set t \<Longrightarrow> stridiff s t = 0 \<longleftrightarrow> lower s = lower t"
proof (induction s t rule: stridiff.induct)
  case (1 t)
  then show ?case by (cases t) (auto simp: lower_def uint_0_iff)
next
  case (3 c s d t)
  then show ?case by (auto simp: lower_def)
qed (auto simp: lower_def uint_0_iff)

lemma stricmp_cstr: "cstr m a s \<Longrightarrow> cstr m b t \<Longrightarrow> stricmp m a b = Some (stridiff s t)"
proof (induction s t arbitrary: a b rule: stridiff.induct)
  case (1 t)
  then show ?case by (cases t) (simp_all add: stricmp.simps)
next
  case (2 c s)
  then have "tolower (uint c) \<noteq> 0" by (simp add: tolower_u8_0)
  then show ?case using 2 by (simp add: stricmp.simps tolower_def)
next
  case (3 c s d t)
  then show ?case by (subst stricmp.simps) auto
qed

definition key83 :: "cstring \<Rightarrow> cstring \<Rightarrow> cstring" where
  "key83 base ext = base @ replicate (8 - length base) 32 @ ext @ replicate (3 - length ext) 32"

lemma find_char_append: "d \<notin> set s \<Longrightarrow> find_char d (s @ d # t) = Some (length s)"
  by (induction s) auto

lemma dir_namebuf_83:
  assumes "46 \<notin> set base" "length base \<le> 8" "length ext \<le> 3"
  shows "dir_namebuf (base @ 46 # ext) = Inr (key83 base ext @ [0])"
proof -
  have r: "replicate (11 - length base) (32 :: u8) = replicate (8 - length base) 32 @ replicate 3 32"
    using assms(2) by (simp flip: replicate_add)
  have "put_at 0 base (replicate 11 32 @ [0]) = Inr ((base @ replicate (8 - length base) 32) @ replicate 3 32 @ [0])"
    using assms(2) r by (simp add: put_at_def)
  moreover have "put_at 8 ext ((base @ replicate (8 - length base) 32) @ replicate 3 32 @ [0]) = Inr (key83 base ext @ [0])"
    using assms(2,3) by (simp add: put_at_def key83_def)
  ultimately show ?thesis
    using assms by (simp add: dir_namebuf_def find_char_append Let_def del: append_assoc replicate.simps)
qed

lemma c_str_ok: "0 \<notin> set (c_str b)"
  by (auto simp: c_str_def dest: set_takeWhileD)

lemma find_dir_ent_from_eq:
  assumes nb: "dir_namebuf name = Inr nb" and len: "length buf = 32 * m"
  shows "i \<le> m \<Longrightarrow> find_dir_ent_from name buf i
    = (case find (\<lambda>j. buf ! (32 * j) = 0 \<or> stridiff (c_str nb) (c_str (dir_name (fat_dir_of buf j))) = 0) [i..<m] of
         None \<Rightarrow> Inl WildAccess
       | Some j \<Rightarrow> Inr (if buf ! (32 * j) = 0 then None else Some (fat_dir_of buf j)))"
proof (induction "m - i" arbitrary: i)
  case 0
  then show ?case using len by (subst find_dir_ent_from.simps) simp
next
  case (Suc k)
  then have i: "i < m" by simp
  have u: "[i..<m] = i # [Suc i..<m]" using i by (simp add: upt_conv_Cons)
  have "find_dir_ent_from name buf (Suc i) = (case find (\<lambda>j. buf ! (32 * j) = 0
      \<or> stridiff (c_str nb) (c_str (dir_name (fat_dir_of buf j))) = 0) [Suc i..<m] of
         None \<Rightarrow> Inl WildAccess
       | Some j \<Rightarrow> Inr (if buf ! (32 * j) = 0 then None else Some (fat_dir_of buf j)))"
    using Suc by (intro Suc.hyps) simp_all
  then show ?case using i len by (subst find_dir_ent_from.simps) (simp add: nb u)
qed

text \<open>
  \<open>find_dir_ent\<close> for an 8.3 name returns the first directory entry before the free entry that
  ends the directory whose padded name is equal but for case, and \<open>NULL\<close> when the end comes
  first; in a directory without a free entry and without the name it reads past the buffer.
\<close>

theorem find_dir_ent_83:
  assumes name: "46 \<notin> set base" "length base \<le> 8" "length ext \<le> 3" "0 \<notin> set (base @ ext)"
    and len: "length buf = 32 * m"
  shows "find_dir_ent (base @ 46 # ext) buf
    = (case find (\<lambda>i. buf ! (32 * i) = 0 \<or> lower (c_str (dir_name (fat_dir_of buf i))) = lower (key83 base ext)) [0..<m] of
         None \<Rightarrow> Inl WildAccess
       | Some i \<Rightarrow> Inr (if buf ! (32 * i) = 0 then None else Some (fat_dir_of buf i)))"
proof -
  have k: "0 \<notin> set (key83 base ext)" using name(4) by (auto simp: key83_def)
  then have c: "c_str (key83 base ext @ [0]) = key83 base ext"
    by (simp add: c_str_def takeWhile_append)
  have "stridiff (key83 base ext) (c_str b) = 0 \<longleftrightarrow> lower (c_str b) = lower (key83 base ext)" for b
    by (subst stridiff_0 [OF k c_str_ok]) (rule eq_commute)
  then show ?thesis
    using find_dir_ent_from_eq [OF dir_namebuf_83 [OF name(1-3)] len, of 0] by (simp add: find_dir_ent_def c)
qed

lemma find_dir_ent_83_witness:
  "find_dir_ent [97, 46, 98] ([65, 32, 32, 32, 32, 32, 32, 32, 66, 32, 32] @ replicate 21 0)
   = Inr (Some (fat_dir_of ([65, 32, 32, 32, 32, 32, 32, 32, 66, 32, 32] @ replicate 21 0) 0))"
proof -
  let ?b = "[65, 32, 32, 32, 32, 32, 32, 32, 66, 32, 32] @ replicate 21 (0 :: u8)"
  have k: "key83 [97] [98] = [97, 32, 32, 32, 32, 32, 32, 32, 98, 32, 32]"
    by (simp add: key83_def numeral_eq_Suc)
  have "dir_name (fat_dir_of ?b 0) = [65, 32, 32, 32, 32, 32, 32, 32, 66, 32, 32]" "length ?b = 32 * 1"
    by (simp_all add: fat_dir_of_def Let_def)
  then show ?thesis
    using find_dir_ent_83 [of "[97]" "[98]" ?b 1] by (simp add: k lower_def c_str_def tolower_def)
qed

end
