(* ===== verification/Fs.thy ===== *)
theory Fs
  imports Fat Driver Kconfig
begin

text \<open>
  Files (\<open>kern/fs/fs.c\<close>, \<open>kern/io/fsdev.h\<close>): paths are split into components, the default
  file system is the device that the configuration names, and whole files are read in chunks of
  2048 bytes. The functions of an \<open>fsdev_t\<close> are the fields of a record, for FAT those of theory
  Fat; \<open>fsdev_at\<close> gives the \<open>fsdev_t\<close> behind an \<open>internal_dev\<close> pointer.
\<close>

section \<open>The code\<close>

record 'f fsdev =
  fsd_open :: "cstring option list \<Rightarrow> 'f option outcome option"
  fsd_read :: "('f \<Rightarrow> u32 \<Rightarrow> (int \<times> u8 list \<times> 'f) outcome option) option"

definition fat_fsdev :: "fat_priv \<Rightarrow> fat_file fsdev" where
  "fat_fsdev p = \<lparr>fsd_open = fat_open p, fsd_read = Some (fat_read p)\<rparr>"

record 'f filehandle =
  fh_file :: 'f
  fh_fs :: "'f fsdev"

text \<open>
  \<open>strtok\<close> writes a zero after each token it finds: the first with the separator \<open>/\<close>, the others
  with a space. A component is what lies between two such zeros, spaces before a token included.
\<close>

function space_parts :: "cstring \<Rightarrow> cstring list" where
  "space_parts s =
     (if token_of [32] s = [] then []
      else (takeWhile (\<lambda>c. c = 32) s @ token_of [32] s) # space_parts (after_token [32] s))"
  by pat_completeness auto
termination
proof (relation "measure length")
  fix s
  assume *: "token_of [32] s \<noteq> ([] :: cstring)"
  then have "dropWhile (\<lambda>c. c \<in> set [32]) s \<noteq> []" unfolding token_of_def by (metis takeWhile.simps(1))
  then have "length (after_token [32] s) < length (dropWhile (\<lambda>c. c \<in> set [32]) s)"
    by (cases "dropWhile (\<lambda>c. c \<in> set [32]) s") (simp_all add: after_token_def)
  also have "\<dots> \<le> length s" by (rule length_dropWhile_le)
  finally show "(after_token [32] s, s) \<in> measure length" by simp
qed simp

declare space_parts.simps [simp del]

definition path_parts :: "cstring \<Rightarrow> cstring option list" where
  "path_parts path =
     (let token = token_of [47] path in
      if token = [] then [None] else map Some (token # space_parts (after_token [47] path)))"

text \<open>A null device or a null name is dereferenced.\<close>

definition fs_open ::
  "config \<Rightarrow> (u32 \<Rightarrow> 'f fsdev) \<Rightarrow> 'x mgr \<Rightarrow> cstring \<Rightarrow> 'f filehandle option outcome option" where
  "fs_open conf fsdev_at st path =
     run_bind (config_getstrns conf [115, 121, 115] [100, 101, 102, 95, 102, 115]) (\<lambda>def_fs.
       case Option.bind def_fs (\<lambda>name. device_get_by_name name st) of
         None \<Rightarrow> Some (Inl WildAccess)
       | Some dev \<Rightarrow> run_bind (Some (device_get_fs dev st)) (\<lambda>a.
           run_bind (fsd_open (fsdev_at a) (path_parts path)) (\<lambda>file.
             Some (Inr (map_option (\<lambda>f. \<lparr>fh_file = f, fh_fs = fsdev_at a\<rparr>) file)))))"

definition fs_read :: "'f filehandle option \<Rightarrow> u32 \<Rightarrow> (int \<times> u8 list \<times> 'f filehandle option) outcome option" where
  "fs_read handle count = (case handle of
     None \<Rightarrow> Some (Inr (0, [], None))
   | Some h \<Rightarrow> (case fsd_read (fh_fs h) of
         None \<Rightarrow> Some (Inr (0, [], handle))
       | Some rd \<Rightarrow> run_bind (rd (fh_file h) count) (\<lambda>(ret, bytes, f). Some (Inr (ret, bytes, Some (h\<lparr>fh_file := f\<rparr>))))))"

text \<open>
  The reading loop. The heap block \<open>buf\<close> grows with the file; its bytes are given by their
  offset, and what it held before is a parameter. The result of a failed read, \<open>-1\<close>, is a large
  \<open>size_t\<close>.
\<close>

partial_function (option) fs_read_full_loop ::
  "'f filehandle option \<Rightarrow> mem \<Rightarrow> u32 \<Rightarrow> (mem \<times> u32 \<times> 'f filehandle option) outcome option" where
  "fs_read_full_loop handle buf offset =
     run_bind (fs_read handle 2048) (\<lambda>(ret, bytes, handle).
       if (of_int ret :: u32) \<le> 0 then Some (Inr (buf, offset, handle))
       else fs_read_full_loop handle (write_bytes buf offset bytes) (offset + of_int ret))"

definition fs_read_full :: "mem \<Rightarrow> 'f filehandle option \<Rightarrow> (u8 list \<times> u32) outcome option" where
  "fs_read_full buf0 handle =
     run_bind (fs_read_full_loop handle buf0 0) (\<lambda>(buf, offset, handle).
       Some (Inr (map (\<lambda>i. buf (of_nat i)) [0..<unat offset], offset)))"

section \<open>Reading whole files\<close>

lemma write_prefix:
  assumes "map (\<lambda>i. m (of_nat i)) [0..<n] = take n D" "n + length xs < 4294967296" "take (length xs) (drop n D) = xs"
  shows "map (\<lambda>i. write_bytes m (of_nat n) xs (of_nat i)) [0..<n + length xs] = take (n + length xs) D"
proof -
  have lo: "write_bytes m (of_nat n) xs (of_nat i) = m (of_nat i)" if "i < n" for i
  proof (rule write_bytes_outside)
    have u: "unat (of_nat i :: u32) = i" "unat (of_nat n :: u32) = n"
      using that assms(2) by (auto intro!: unat_of_nat_u32)
    show "\<not> in_block (of_nat i :: u32) (of_nat n) (length xs)"
      using that assms(2) unat_diff_u32 [of "of_nat i" "of_nat n"] by (simp only: in_block_def u) simp
  qed
  have hi: "write_bytes m (of_nat n) xs (of_nat (n + i)) = xs ! i" if "i < length xs" for i
    using write_bytes_nth [OF that, of m "of_nat n"] assms(2) by simp
  have "map (\<lambda>i. write_bytes m (of_nat n) xs (of_nat i)) [0..<n + length xs]
      = map (\<lambda>i. write_bytes m (of_nat n) xs (of_nat i)) [0..<n]
        @ map (\<lambda>i. write_bytes m (of_nat n) xs (of_nat (n + i))) [0..<length xs]"
    by (rule nth_equalityI) (auto simp: nth_append)
  also have "map (\<lambda>i. write_bytes m (of_nat n) xs (of_nat i)) [0..<n] = take n D"
    unfolding assms(1) [symmetric] by (rule map_cong) (auto simp: lo)
  also have "map (\<lambda>i. write_bytes m (of_nat n) xs (of_nat (n + i))) [0..<length xs] = xs"
    using hi by (intro nth_equalityI) (simp_all del: of_nat_add)
  also have "take n D @ xs = take (n + length xs) D" by (simp add: take_add assms(3))
  finally show ?thesis .
qed

lemma chunk_fits:
  assumes "(2048 :: nat) dvd cl" "2048 dvd off" "0 < cl"
  shows "2048 \<le> cl - off mod cl"
proof -
  have "2048 dvd cl - off mod cl" using assms by (simp add: dvd_diff_nat dvd_mod)
  moreover have "0 < cl - off mod cl" using assms(3) by simp
  ultimately show ?thesis by (rule dvd_imp_le)
qed

lemma fs_read_full_loop_file:
  assumes cl: "cl = unat (bytes_per_cluster p)" "2048 dvd cl" and D: "D = file_data p cs"
  shows "file_ok p cs (unat (fsize f)) \<Longrightarrow> at_pos p cs f off \<Longrightarrow> 2048 dvd off \<or> off = unat (fsize f) \<Longrightarrow>
    map (\<lambda>i. buf (of_nat i)) [0..<off] = take off D \<Longrightarrow>
    \<exists>buf' h. fs_read_full_loop (Some \<lparr>fh_file = f, fh_fs = fat_fsdev p\<rparr>) buf (of_nat off)
        = Some (Inr (buf', fsize f, h)) \<and> map (\<lambda>i. buf' (of_nat i)) [0..<unat (fsize f)] = take (unat (fsize f)) D"
proof (induction "unat (fsize f) - off" arbitrary: f off buf rule: less_induct)
  case less
  let ?sz = "unat (fsize f)" and ?h = "\<lambda>f. Some \<lparr>fh_file = f, fh_fs = fat_fsdev p\<rparr>"
  define n where "n = min (unat (2048 :: u32)) (?sz - off)"
  have n2: "n \<le> 2048" by (simp add: n_def)
  have sz: "?sz < 2147483648" and clp: "0 < cl" and len: "?sz \<le> length D"
    using less.prems(1) length_file_data [of cs p cl] by (auto simp: file_ok_def cl unat_gt_0 D)
  have off: "off \<le> ?sz" using less.prems(2) by (simp add: at_pos_def)
  obtain f' where f': "fat_read p f 2048 = Some (Inr (int n, take n (drop off D), f'))" "fsize f' = fsize f"
    "n \<le> cl - off mod cl \<or> (off + n) mod cl \<noteq> 0 \<or> off + n = ?sz \<longrightarrow> at_pos p cs f' (off + n)"
    using fat_read_pos [OF less.prems(1,2) n_def cl(1)] D by blast
  have rd: "fs_read (?h f) 2048 = Some (Inr (int n, take n (drop off D), ?h f'))"
    by (simp add: fs_read_def fat_fsdev_def f'(1))
  show ?case
  proof (cases "off = ?sz")
    case True
    then have "n = 0" by (simp add: n_def)
    then have "fs_read_full_loop (?h f) buf (of_nat off) = Some (Inr (buf, of_nat off, ?h f'))"
      using rd by (subst fs_read_full_loop.simps) simp
    then show ?thesis using True less.prems(4) by simp
  next
    case False
    then have lt: "off < ?sz" and dvd: "2048 dvd off" using off less.prems(3) by auto
    have n0: "0 < n" using lt by (simp add: n_def)
    have pos': "at_pos p cs f' (off + n)"
      using f'(3) chunk_fits [OF cl(2) dvd clp] n2 by linarith
    have nw: "\<not> (of_int (int n) :: u32) \<le> 0"
      using n0 n2 by (simp add: word_le_nat_alt unat_of_nat_u32)
    have lx: "length (take n (drop off D)) = n" using lt len by (simp add: n_def)
    have up: "off + n \<le> ?sz" using lt by (simp add: n_def)
    have run: "fs_read_full_loop (?h f) buf (of_nat off)
        = fs_read_full_loop (?h f') (write_bytes buf (of_nat off) (take n (drop off D))) (of_nat (off + n))"
      using rd nw by (subst fs_read_full_loop.simps) simp
    have buf': "map (\<lambda>i. write_bytes buf (of_nat off) (take n (drop off D)) (of_nat i)) [0..<off + n] = take (off + n) D"
      using write_prefix [OF less.prems(4), of "take n (drop off D)"] up sz lx by simp
    have next_dvd: "2048 dvd off + n \<or> off + n = unat (fsize f')"
    proof (cases "2048 \<le> ?sz - off")
      case True
      then have "n = 2048" by (simp add: n_def)
      then show ?thesis using dvd by simp
    next
      case False
      then show ?thesis using lt f'(2) by (simp add: n_def)
    qed
    have "unat (fsize f') - (off + n) < ?sz - off" using lt n0 f'(2) by simp
    from less.hyps [OF this _ pos' next_dvd buf'] less.prems(1) show ?thesis
      unfolding run by (simp add: f'(2))
  qed
qed

text \<open>
  C18: for a FAT file at its start whose clusters have a multiple of 2048 bytes, \<open>fs_read_full\<close>
  ends and returns exactly the bytes of the file and their number.
\<close>

theorem fs_read_full_contents:
  assumes "file_ok p cs (unat (fsize f))" "at_pos p cs f 0" "2048 dvd unat (bytes_per_cluster p)"
  shows "fs_read_full buf0 (Some \<lparr>fh_file = f, fh_fs = fat_fsdev p\<rparr>)
    = Some (Inr (take (unat (fsize f)) (file_data p cs), fsize f))"
proof -
  obtain buf' h where "fs_read_full_loop (Some \<lparr>fh_file = f, fh_fs = fat_fsdev p\<rparr>) buf0 (of_nat 0)
      = Some (Inr (buf', fsize f, h))" "map (\<lambda>i. buf' (of_nat i)) [0..<unat (fsize f)] = take (unat (fsize f)) (file_data p cs)"
    using fs_read_full_loop_file [OF refl assms(3) refl assms(1,2), of buf0] by auto
  then show ?thesis by (simp add: fs_read_full_def)
qed

text \<open>The toy disk with clusters of four sectors.\<close>

definition wide_priv :: fat_priv where
  "wide_priv = toy_priv\<lparr>bytes_per_cluster := 2048, bpb := (bpb toy_priv)\<lparr>sectors_per_cluster := 4\<rparr>\<rparr>"

definition wide_file :: fat_file where
  "wide_file = toy_file\<lparr>fsize := 5000\<rparr>"

lemma fs_read_full_contents_witness:
  "fs_read_full (\<lambda>_. 0) (Some \<lparr>fh_file = wide_file, fh_fs = fat_fsdev wide_priv\<rparr>)
   = Some (Inr (take 5000 (file_data wide_priv [2, 3, 4]), 5000))"
proof -
  have s: "unat (fsize wide_file) = 5000" "fsize wide_file = 5000" "unat (bytes_per_cluster wide_priv) = 2048"
    by (simp_all add: wide_file_def wide_priv_def)
  have "file_ok wide_priv [2, 3, 4] 5000" "at_pos wide_priv [2, 3, 4] wide_file 0"
    by (simp_all add: file_ok_def at_pos_def wide_priv_def wide_file_def toy_priv_def toy_file_def toy_blk_def toy_sector_def
        read_cluster_def sector_of_cluster_def next_cluster_def le16_def FAT_CLUSTER_END_def length_concat comp_def sum_list_triv)
  then show ?thesis using fs_read_full_contents [of wide_priv "[2, 3, 4]" wide_file "\<lambda>_. 0"] by (simp add: s)
qed

section \<open>Paths\<close>

lemma token_all: "s \<noteq> [] \<Longrightarrow> set s \<inter> set ds = {} \<Longrightarrow> token_of ds s = s \<and> after_token ds s = []"
proof -
  assume s: "s \<noteq> []" "set s \<inter> set ds = {}"
  then have "dropWhile (\<lambda>c. c \<in> set ds) s = s" by (cases s) auto
  moreover have "takeWhile (\<lambda>c. c \<notin> set ds) s = s" using s(2) by (auto simp: takeWhile_eq_all_conv)
  ultimately show ?thesis unfolding token_of_def after_token_def by (simp only: drop_all le_Suc_eq order_refl simp_thms)
qed

lemma token_first:
  assumes "s \<noteq> []" "set s \<inter> set ds = {}" "d \<in> set ds"
  shows "token_of ds (s @ d # t) = s" "after_token ds (s @ d # t) = t"
proof -
  have "dropWhile (\<lambda>c. c \<in> set ds) (s @ d # t) = s @ d # t" using assms by (cases s) auto
  moreover have "takeWhile (\<lambda>c. c \<notin> set ds) (s @ d # t) = s" using assms by (subst takeWhile_append2) auto
  ultimately show "token_of ds (s @ d # t) = s" "after_token ds (s @ d # t) = t"
    by (simp_all add: token_of_def after_token_def)
qed

text \<open>
  A path is split at its first separator only: of \<open>d/rest\<close> with no space in \<open>rest\<close> the
  components are \<open>d\<close> and \<open>rest\<close>, whatever separators \<open>rest\<close> contains, so no path of three
  levels reaches a file; a path of separators alone is the root.
\<close>

theorem path_parts_two_levels:
  assumes "d \<noteq> []" "47 \<notin> set d" "tail \<noteq> []" "32 \<notin> set tail"
  shows "path_parts (d @ 47 # tail) = [Some d, Some tail] \<and> path_parts d = [Some d] \<and>
    path_parts (replicate n 47) = [None]"
proof -
  have "token_of [32] tail = tail \<and> after_token [32] tail = []"
    using assms(3,4) by (intro token_all) auto
  moreover have "takeWhile (\<lambda>c. c = 32) tail = []" using assms(3,4) by (cases tail) auto
  ultimately have "space_parts tail = [tail]"
    using assms(3) by (subst space_parts.simps) (simp add: space_parts.simps [of "[]"] token_of_def)
  moreover have "token_of [47] (d @ 47 # tail) = d" "after_token [47] (d @ 47 # tail) = tail"
    using assms(1,2) by (auto intro!: token_first)
  moreover have "token_of [47] d = d \<and> after_token [47] d = []" using assms(1,2) by (intro token_all) auto
  moreover have "dropWhile (\<lambda>c. c \<in> set [47]) (replicate n (47 :: u8)) = []" by (simp add: dropWhile_eq_Nil_conv)
  then have "token_of [47] (replicate n 47) = []" by (simp add: token_of_def)
  ultimately show ?thesis
    using assms(1) by (simp add: path_parts_def Let_def space_parts.simps [of "[]"] token_of_def [of _ "[]"])
qed

lemma path_parts_two_levels_witness: "path_parts [97, 47, 98, 47, 99] = [Some [97], Some [98, 47, 99]]"
  using path_parts_two_levels [of "[97]" "[98, 47, 99]"] by simp

end
