(* ===== verification/Volumes.thy ===== *)
theory Volumes
  imports Heap_Client Fs Bdrive Printf
begin

text \<open>
  Disks and their file systems as devices (\<open>kern/io/bios_drive.c\<close>, \<open>kern/fs/fat.c\<close>): the drivers'
  probes, which allocate the records of a device, name it and register it. The records are at the
  addresses that the allocator gives; \<open>kallocz\<close> clears them. What the drivers read is as in theories
  Bdrive and Fat: the BIOS and the contents of the disks are parameters. The log is left out.
\<close>

section \<open>The code\<close>

record blockdev =
  bd_write :: u32
  bd_read :: u32
  bd_block_size :: u32
  bd_priv :: u32

record fsdevice =
  fn_open :: u32
  fn_read :: u32
  fn_seek :: u32
  fn_close :: u32
  fd_priv :: u32

text \<open>The functions behind the pointers, by their addresses.\<close>

record vol_code =
  at_bdrive_destroy :: u32
  at_bdrive_write :: u32
  at_bdrive_read :: u32
  at_fat_open :: u32
  at_fat_close :: u32
  at_fat_read :: u32

record 'd volumes =
  v_heap :: alloc_state
  v_bios :: 'd
  drive_at :: "u32 \<Rightarrow> u8"
  blockdev_at :: "u32 \<Rightarrow> blockdev"
  fsdevice_at :: "u32 \<Rightarrow> fsdevice"
  fat_at :: "u32 \<Rightarrow> fat_priv"

definition v_with_heap :: "alloc_state \<Rightarrow> 'd volumes mgr \<Rightarrow> 'd volumes mgr" where
  "v_with_heap h st = st\<lparr>rest := (rest st)\<lparr>v_heap := h\<rparr>\<rparr>"

definition v_alloc :: "u32 \<Rightarrow> 'd volumes mgr \<Rightarrow> (u32 \<times> 'd volumes mgr) outcome option" where
  "v_alloc = alloc_in (\<lambda>st. v_heap (rest st)) v_with_heap"

definition v_allocz :: "u32 \<Rightarrow> 'd volumes mgr \<Rightarrow> (u32 \<times> 'd volumes mgr) outcome option" where
  "v_allocz = allocz_in (\<lambda>st. v_heap (rest st)) v_with_heap"

text \<open>The sizes are those of \<open>struct device\<close>, \<open>bdrive_priv\<close> and \<open>blockdev\<close> on this machine.\<close>

definition bdrive_new :: "vol_code \<Rightarrow> u8 \<Rightarrow> 'd volumes mgr \<Rightarrow> (u32 \<times> 'd volumes mgr) outcome option" where
  "bdrive_new code nr st =
     run_bind (v_allocz 96 st) (\<lambda>(dev, st).
     let st = st\<lparr>device_at := (device_at st)(dev := zero_device\<lparr>dev_destroy := at_bdrive_destroy code, dev_type := DEVICE_TYPE_BLOCK\<rparr>)\<rparr> in
     run_bind (v_alloc 1 st) (\<lambda>(priv, st).
     let st = st\<lparr>rest := (rest st)\<lparr>drive_at := (drive_at (rest st))(priv := nr)\<rparr>\<rparr> in
     run_bind (v_alloc 16 st) (\<lambda>(bd, st).
     let st = st\<lparr>device_at := (device_at st)(dev := (device_at st dev)\<lparr>internal_dev := bd\<rparr>),
         rest := (rest st)\<lparr>blockdev_at := (blockdev_at (rest st))(bd := \<lparr>bd_write = at_bdrive_write code, bd_read = at_bdrive_read code,
           bd_block_size = 512, bd_priv = priv\<rparr>)\<rparr>\<rparr> in
     run_bind (Some (device_get_first_available_suffix (lit ''hd'') st)) (\<lambda>i.
     run_bind (Some (format_text (\<lambda>_. []) (lit ''hd%d'') [of_nat i])) (\<lambda>name.
       Some (Inr (dev, st\<lparr>device_at := (device_at st)(dev := (device_at st dev)\<lparr>dev_name := name\<rparr>)\<rparr>)))))))"

definition with_bios :: "mem \<times> 'd \<Rightarrow> 'd volumes mgr \<Rightarrow> 'd volumes mgr" where
  "with_bios md st = st\<lparr>rest := (rest st)\<lparr>v_heap := (v_heap (rest st))\<lparr>ram := fst md\<rparr>, v_bios := snd md\<rparr>\<rparr>"

definition probe_drive :: "'d bios \<Rightarrow> vol_code \<Rightarrow> 'd volumes calls \<Rightarrow> nat \<Rightarrow> 'd volumes mgr \<Rightarrow> 'd volumes mgr outcome option" where
  "probe_drive bios code c i st =
     (let nr = 0x80 OR of_nat i;
          (regs, m, d) = bios 0x13 (zero_regs\<lparr>eax := 0x0800, edx := ucast nr\<rparr>) (ram (v_heap (rest st))) (v_bios (rest st));
          st = with_bios (m, d) st
      in if flags regs AND EFL_CF \<noteq> 0 then Some (Inr (with_bios (bdrive_reset bios nr (m, d)) st))
         else if edx regs AND 1 \<noteq> 0
         then run_bind (bdrive_new code nr st) (\<lambda>(dev, st). device_register c dev st)
         else Some (Inr st))"

definition bdrive_probe_devices :: "'d bios \<Rightarrow> vol_code \<Rightarrow> 'd volumes calls \<Rightarrow> u32 \<Rightarrow> 'd volumes mgr \<Rightarrow> 'd volumes mgr outcome option" where
  "bdrive_probe_devices bios code c driver st =
     (if \<not> first_probe (driver_at st driver) then Some (Inr st)
      else run_bind (run_each (probe_drive bios code c) [0..<4] st) (\<lambda>st.
        Some (Inr (with_bios (bdrive_reset bios 0x80 (ram (v_heap (rest st)), v_bios (rest st))) st))))"

definition bdrive_destroy :: "u32 \<Rightarrow> 'd volumes mgr \<Rightarrow> 'd volumes mgr outcome" where
  "bdrive_destroy dev st = (let bd = internal_dev (device_at st dev) in
     bind_outcome (kfree (v_heap (rest st)) (bd_priv (blockdev_at (rest st) bd))) (\<lambda>h.
     bind_outcome (kfree h bd) (\<lambda>h. bind_outcome (kfree h dev) (\<lambda>h. Inr (v_with_heap h st)))))"

definition bdrive_driver :: "u32 \<Rightarrow> driver" where
  "bdrive_driver probe = \<lparr>drv_name = lit ''BIOS interrupt hard disk'', modname = [], drv_probe = probe, probe_directed = 0,
     type_for = DEVICE_TYPE_BLOCK, depends_on = DEVICE_TYPE_NONE, first_probe = False, disabled = False, driver_priv = 0\<rparr>"

text \<open>
  A read through a block device calls the function it names for the drive of its private data: \<open>disk\<close>
  gives both as the \<open>read\<close> function of theory Fat.
\<close>

definition blk_of :: "(u32 \<Rightarrow> u8 \<Rightarrow> blkdev) \<Rightarrow> 'd volumes mgr \<Rightarrow> u32 \<Rightarrow> blkdev" where
  "blk_of disk st bd = (let b = blockdev_at (rest st) bd in disk (bd_read b) (drive_at (rest st) (bd_priv b)))"

text \<open>\<open>struct fat_priv\<close> has 548 bytes, \<open>fsdev_t\<close> 20.\<close>

definition fat_new :: "vol_code \<Rightarrow> u32 \<Rightarrow> blkdev \<Rightarrow> u32 \<Rightarrow> u32 \<Rightarrow> 'd volumes mgr \<Rightarrow> (u32 \<times> 'd volumes mgr) outcome option" where
  "fat_new code invoker b start n st =
     run_bind (v_allocz 96 st) (\<lambda>(dev, st).
     let st = st\<lparr>device_at := (device_at st)(dev := zero_device)\<rparr> in
     run_bind (v_alloc 548 st) (\<lambda>(priv, st).
     run_bind (v_allocz 20 st) (\<lambda>(fsdev, st).
     let st = st\<lparr>device_at := (device_at st)(dev := (device_at st dev)\<lparr>internal_dev := fsdev, device_priv := priv, dev_type := DEVICE_TYPE_FS\<rparr>),
         rest := (rest st)\<lparr>fsdevice_at := (fsdevice_at (rest st))(fsdev := \<lparr>fn_open = at_fat_open code, fn_read = at_fat_read code,
           fn_seek = 0, fn_close = at_fat_close code, fd_priv = priv\<rparr>)\<rparr>\<rparr> in
     run_bind (Some (format_text (\<lambda>_. dev_name (device_at st invoker)) (lit ''%sp'') [0])) (\<lambda>pre.
     run_bind (Some (device_get_first_available_suffix pre st)) (\<lambda>i.
     run_bind (Some (format_text (\<lambda>_. pre) (lit ''%s%d'') [0, of_nat i])) (\<lambda>name.
     let st = st\<lparr>device_at := (device_at st)(dev := (device_at st dev)\<lparr>dev_name := name\<rparr>)\<rparr> in
     run_bind (Some (fat_create b start n)) (\<lambda>p.
       Some (Inr (dev, st\<lparr>rest := (rest st)\<lparr>fat_at := (fat_at (rest st))(priv := p)\<rparr>\<rparr>)))))))))"

definition probe_partition :: "vol_code \<Rightarrow> 'd volumes calls \<Rightarrow> u32 \<Rightarrow> blkdev \<Rightarrow> u8 list \<Rightarrow> nat \<Rightarrow> 'd volumes mgr \<Rightarrow> 'd volumes mgr outcome option" where
  "probe_partition code c invoker b mbr i st =
     (if mbr ! (446 + 16 * i + 4) = 0x0e
      then run_bind (fat_new code invoker b (le32 mbr (446 + 16 * i + 8)) (le32 mbr (446 + 16 * i + 12)) st)
        (\<lambda>(dev, st). device_register c dev st)
      else Some (Inr st))"

definition fat_probe_device :: "vol_code \<Rightarrow> (u32 \<Rightarrow> u8 \<Rightarrow> blkdev) \<Rightarrow> 'd volumes calls \<Rightarrow> u32 \<Rightarrow> 'd volumes mgr \<Rightarrow> 'd volumes mgr outcome option" where
  "fat_probe_device code disk c invoker st =
     (if invoker = 0 \<or> dev_type (device_at st invoker) \<noteq> DEVICE_TYPE_BLOCK then Some (Inr st)
      else run_bind (Some (device_get_blkdev invoker st)) (\<lambda>bd.
        let b = blk_of disk st bd in
        run_each (probe_partition code c invoker b (snd (blk_read b 0 1))) [0..<4] st))"

definition fat_driver :: "u32 \<Rightarrow> driver" where
  "fat_driver probe = \<lparr>drv_name = lit ''FAT filesystem'', modname = [], drv_probe = 0, probe_directed = probe,
     type_for = DEVICE_TYPE_FS, depends_on = DEVICE_TYPE_BLOCK, first_probe = False, disabled = False, driver_priv = 0\<rparr>"

text \<open>\<open>fat_close\<close> on an open file at an address; \<open>contents\<close> is its \<open>dir_contents\<close>.\<close>

definition fat_close :: "u32 \<Rightarrow> u32 \<Rightarrow> alloc_state \<Rightarrow> alloc_state outcome" where
  "fat_close contents file h =
     bind_outcome (if contents \<noteq> 0 then kfree h contents else Inr h) (\<lambda>h. kfree h file)"

text \<open>\<open>fs_close\<close> on a handle at an address with its file; the \<open>close\<close> function of the file system may be missing.\<close>

definition fs_close :: "(u32 \<Rightarrow> alloc_state \<Rightarrow> alloc_state outcome) option \<Rightarrow> u32 \<Rightarrow> u32 \<Rightarrow> alloc_state \<Rightarrow> alloc_state outcome" where
  "fs_close close handle file h =
     (if handle = 0 then Inr h
      else bind_outcome (case close of None \<Rightarrow> Inr h | Some f \<Rightarrow> f file h) (\<lambda>h. kfree h handle))"

text \<open>Closing a file of a FAT volume gives back its handle, the file and, of a directory, the contents, and nothing else.\<close>

lemma fs_close_gives_back:
  assumes "holds h (insert handle (insert file (if contents = 0 then L else insert contents L))) k" "handle \<noteq> 0"
    and "distinct [handle, file, contents]" "{handle, file, contents} \<inter> L = {}"
  obtains h' where "fs_close (Some (fat_close contents)) handle file h = Inr h'" "holds h' L k"
proof -
  obtain h1 where 1: "(if contents \<noteq> 0 then kfree h contents else Inr h) = Inr h1" "holds h1 (insert file (insert handle L)) k"
  proof (cases "contents = 0")
    case True
    then show ?thesis using that assms(1) by (simp add: insert_commute)
  next
    case False
    then have "holds h (insert contents (insert file (insert handle L))) k" using assms(1) by (simp add: insert_commute)
    from holds_free [OF this] show ?thesis using assms(3, 4) False that by auto
  qed
  have "file \<notin> insert handle L" using assms(3, 4) by auto
  from holds_free [OF 1(2) this] obtain h2 where 2: "kfree h1 file = Inr h2" "holds h2 (insert handle L) k" .
  have "handle \<notin> L" using assms(4) by auto
  from holds_free [OF 2(2) this] obtain h3 where 3: "kfree h2 handle = Inr h3" "holds h3 L k" .
  show ?thesis using that [of h3] 1(1) 2(1) 3 assms(2) by (simp add: fs_close_def fat_close_def)
qed

section \<open>Partitions as devices\<close>

lemma vol_sizes: "aligned_size 96 = 128" "aligned_size 548 = 576" "aligned_size 20 = 64"
  by (simp_all add: aligned_size_def)

interpretation vol: heap_holder "\<lambda>st :: 'd volumes mgr. v_heap (rest st)" v_with_heap
  by unfold_locales (simp add: v_with_heap_def)

definition vol_ready :: "'d volumes mgr \<Rightarrow> u32 set \<Rightarrow> nat \<Rightarrow> bool" where
  "vol_ready st L k \<longleftrightarrow> holds (v_heap (rest st)) L k"

lemma vol_ready_cong: "v_heap (rest st') = v_heap (rest st) \<Longrightarrow> vol_ready st' L k = vol_ready st L k"
  by (simp add: vol_ready_def)

lemma v_alloc_ready:
  assumes "vol_ready st L (24 + unat (aligned_size n) + k)" "aligned_size n \<noteq> 0" "unat (aligned_size n) \<le> 4000"
  obtains p h where "v_alloc n st = Some (Inr (p, st\<lparr>rest := (rest st)\<lparr>v_heap := h\<rparr>\<rparr>))" "p \<notin> L"
    "vol_ready (st\<lparr>rest := (rest st)\<lparr>v_heap := h\<rparr>\<rparr>) (insert p L) k"
  by (rule vol.alloc_ready [OF assms(1) [unfolded vol_ready_def] assms(2, 3)])
    (rule that, simp_all add: v_alloc_def vol_ready_def v_with_heap_def)

lemma v_allocz_ready:
  assumes "vol_ready st L (24 + unat (aligned_size n) + k)" "aligned_size n \<noteq> 0" "unat (aligned_size n) \<le> 4000"
  obtains p h where "v_allocz n st = Some (Inr (p, st\<lparr>rest := (rest st)\<lparr>v_heap := h\<rparr>\<rparr>))" "p \<notin> L"
    "vol_ready (st\<lparr>rest := (rest st)\<lparr>v_heap := h\<rparr>\<rparr>) (insert p L) k"
  by (rule vol.allocz_ready [OF assms(1) [unfolded vol_ready_def] assms(2, 3)])
    (rule that, simp_all add: v_allocz_def vol_ready_def v_with_heap_def)

text \<open>A device for a file system: its name, its functions and what is known of the partition.\<close>

definition fs_volume :: "vol_code \<Rightarrow> 'd volumes mgr \<Rightarrow> u32 \<Rightarrow> cstring \<times> fat_priv \<Rightarrow> bool" where
  "fs_volume code st d = (\<lambda>(name, p). dev_name (device_at st d) = name \<and> dev_type (device_at st d) = DEVICE_TYPE_FS
     \<and> (let priv = device_priv (device_at st d) in
        fsdevice_at (rest st) (internal_dev (device_at st d)) = \<lparr>fn_open = at_fat_open code, fn_read = at_fat_read code,
          fn_seek = 0, fn_close = at_fat_close code, fd_priv = priv\<rparr>
        \<and> fat_at (rest st) priv = p))"

definition vol_same :: "u32 set \<Rightarrow> 'd volumes mgr \<Rightarrow> 'd volumes mgr \<Rightarrow> bool" where
  "vol_same L st st' \<longleftrightarrow> (\<forall>x \<in> L. device_at st' x = device_at st x \<and> fsdevice_at (rest st') x = fsdevice_at (rest st) x
     \<and> fat_at (rest st') x = fat_at (rest st) x)
   \<and> blockdev_at (rest st') = blockdev_at (rest st) \<and> drive_at (rest st') = drive_at (rest st)"

lemma new_fat:
  assumes "vol_ready st L (840 + k)" "fat_create b start n = Inr p" "invoker \<in> L" "i < 512"
    and suffix: "device_get_first_available_suffix (dev_name (device_at st invoker) @ [112]) st = Inr i"
    and devs: "set (devices st) \<subseteq> L"
  obtains d L' st' where "fat_new code invoker b start n st = Some (Inr (d, st'))" "L \<subseteq> L'" "d \<in> L'" "d \<notin> L" "vol_ready st' L' k"
    "fs_volume code st' d (dev_name (device_at st invoker) @ [112] @ radix_text 10 i, p)"
    "device_priv (device_at st' d) \<in> L'" "internal_dev (device_at st' d) \<in> L'" "vol_same L st st'"
    "devices st' = devices st" "drivers st' = drivers st" "driver_at st' = driver_at st"
proof -
  let ?N = "dev_name (device_at st invoker) @ [112]"
  have s1: "vol_ready st L (24 + unat (aligned_size 96) + (688 + k))" using assms(1) by (simp add: vol_sizes)
  obtain d h1 where 1: "v_allocz 96 st = Some (Inr (d, st\<lparr>rest := (rest st)\<lparr>v_heap := h1\<rparr>\<rparr>))" "d \<notin> L"
    "vol_ready (st\<lparr>rest := (rest st)\<lparr>v_heap := h1\<rparr>\<rparr>) (insert d L) (688 + k)"
    by (rule v_allocz_ready [OF s1]) (simp_all add: vol_sizes)
  let ?st1 = "st\<lparr>rest := (rest st)\<lparr>v_heap := h1\<rparr>, device_at := (device_at st)(d := zero_device)\<rparr>"
  have s2: "vol_ready ?st1 (insert d L) (24 + unat (aligned_size 548) + (88 + k))" using 1(3) by (simp add: vol_sizes vol_ready_def)
  obtain priv h2 where 2: "v_alloc 548 ?st1 = Some (Inr (priv, ?st1\<lparr>rest := (rest ?st1)\<lparr>v_heap := h2\<rparr>\<rparr>))" "priv \<notin> insert d L"
    "vol_ready (?st1\<lparr>rest := (rest ?st1)\<lparr>v_heap := h2\<rparr>\<rparr>) (insert priv (insert d L)) (88 + k)"
    by (rule v_alloc_ready [OF s2]) (simp_all add: vol_sizes)
  let ?st2 = "?st1\<lparr>rest := (rest ?st1)\<lparr>v_heap := h2\<rparr>\<rparr>"
  have s3: "vol_ready ?st2 (insert priv (insert d L)) (24 + unat (aligned_size 20) + k)" using 2(3) by (simp add: vol_sizes)
  obtain fd h3 where 3: "v_allocz 20 ?st2 = Some (Inr (fd, ?st2\<lparr>rest := (rest ?st2)\<lparr>v_heap := h3\<rparr>\<rparr>))" "fd \<notin> insert priv (insert d L)"
    "vol_ready (?st2\<lparr>rest := (rest ?st2)\<lparr>v_heap := h3\<rparr>\<rparr>) (insert fd (insert priv (insert d L))) k"
    by (rule v_allocz_ready [OF s3]) (simp_all add: vol_sizes)
  let ?st3 = "st\<lparr>device_at := (device_at st)(d := zero_device\<lparr>internal_dev := fd, device_priv := priv, dev_type := DEVICE_TYPE_FS\<rparr>),
       rest := (rest st)\<lparr>v_heap := h3, fsdevice_at := (fsdevice_at (rest st))(fd := \<lparr>fn_open = at_fat_open code, fn_read = at_fat_read code,
           fn_seek = 0, fn_close = at_fat_close code, fd_priv = priv\<rparr>)\<rparr>\<rparr>"
  have di: "d \<noteq> invoker" using 1(2) assms(3) by blast
  have sfx: "device_get_first_available_suffix ?N ?st3 = Inr i"
    by (subst suffix_cong [of _ st]) (use devs 1(2) suffix in auto)
  have pre: "format_text (\<lambda>_. dev_name (device_at ?st3 invoker)) (lit ''%sp'') [0] = Inr ?N"
    using di by (simp add: lit_def format_steps)
  have i32: "sint (of_nat i :: u32) = int i" using assms(4) by (simp add: sint_sbintrunc' signed_of_nat signed_take_bit_int_eq_self)
  then have name: "format_text (\<lambda>_. ?N) (lit ''%s%d'') [0, of_nat i] = Inr (?N @ radix_text 10 i)"
    by (simp add: lit_def format_steps decimal_radix)
  let ?st4 = "?st3\<lparr>device_at := (device_at ?st3)(d := (device_at ?st3 d)\<lparr>dev_name := ?N @ radix_text 10 i\<rparr>),
     rest := (rest ?st3)\<lparr>fat_at := (fat_at (rest ?st3))(priv := p)\<rparr>\<rparr>"
  have run: "fat_new code invoker b start n st = Some (Inr (d, ?st4))"
    using 1(1) 2(1) 3(1) pre sfx name di assms(2) by (simp add: fat_new_def Let_def)
  show ?thesis
    by (rule that [OF run, of "insert fd (insert priv (insert d L))"])
      (use 1(2) 2(2) 3(2, 3) in \<open>auto simp: fs_volume_def vol_same_def vol_ready_def Let_def\<close>)
qed

lemma vol_ready_less: "vol_ready st L k \<Longrightarrow> j \<le> k \<Longrightarrow> vol_ready st L j"
  by (auto simp: vol_ready_def holds_def space_def)

definition fs_plain :: "'d volumes mgr \<Rightarrow> bool" where
  "fs_plain st \<longleftrightarrow> (\<forall>drv \<in> set (drivers st). depends_on (driver_at st drv) \<noteq> DEVICE_TYPE_FS)"

text \<open>The devices whose name starts with \<open>pre\<close> are \<open>pre0\<close>, \<open>pre1\<close> and so on, \<open>k\<close> of them.\<close>

definition numbered_upto :: "cstring \<Rightarrow> nat \<Rightarrow> 'd volumes mgr \<Rightarrow> bool" where
  "numbered_upto pre k st \<longleftrightarrow>
     (\<forall>d \<in> set (devices st). take (length pre) (dev_name (device_at st d)) = pre \<longrightarrow> (\<exists>i < k. dev_name (device_at st d) = pre @ radix_text 10 i))
   \<and> (\<forall>i < k. pre @ radix_text 10 i \<in> (\<lambda>d. dev_name (device_at st d)) ` set (devices st))"

lemma numbered_upto_next: "numbered_upto pre k st \<Longrightarrow> k < 512 \<Longrightarrow> device_get_first_available_suffix pre st = Inr k"
  unfolding numbered_upto_def by (rule next_suffix) blast+

lemma numbered_upto_add:
  assumes "numbered_upto pre k st" "devices st' = devices st @ [d]" "\<And>x. x \<in> set (devices st) \<Longrightarrow> dev_name (device_at st' x) = dev_name (device_at st x)"
    "dev_name (device_at st' d) = pre @ radix_text 10 k"
  shows "numbered_upto pre (Suc k) st'"
  using assms unfolding numbered_upto_def by (auto simp: less_Suc_eq image_iff)

fun volumes_from :: "cstring \<Rightarrow> nat \<Rightarrow> fat_priv list \<Rightarrow> (cstring \<times> fat_priv) list" where
  "volumes_from pre k [] = []"
| "volumes_from pre k (p # ps) = (pre @ radix_text 10 k, p) # volumes_from pre (Suc k) ps"

definition holds_volume :: "vol_code \<Rightarrow> u32 set \<Rightarrow> 'd volumes mgr \<Rightarrow> u32 \<Rightarrow> cstring \<times> fat_priv \<Rightarrow> bool" where
  "holds_volume code L st d v \<longleftrightarrow> fs_volume code st d v \<and> d \<in> L \<and> device_priv (device_at st d) \<in> L \<and> internal_dev (device_at st d) \<in> L"

lemma holds_volume_mono:
  "holds_volume code L st d v \<Longrightarrow> vol_same L st st' \<Longrightarrow> L \<subseteq> L' \<Longrightarrow> holds_volume code L' st' d v"
  by (auto simp: holds_volume_def vol_same_def fs_volume_def Let_def split: prod.splits)

text \<open>The partitions that \<open>fat_probe_directed\<close> of theory Fat finds, one entry of the table at a time.\<close>

fun gather :: "('i \<Rightarrow> bool) \<Rightarrow> ('i \<Rightarrow> 'a outcome) \<Rightarrow> 'i list \<Rightarrow> 'a list outcome" where
  "gather T c [] = Inr []"
| "gather T c (i # is) = (if T i then bind_outcome (c i) (\<lambda>p. bind_outcome (gather T c is) (\<lambda>ps. Inr (p # ps))) else gather T c is)"

lemma fold_gather:
  "fold (\<lambda>i r. bind_outcome r (\<lambda>found. if T i then bind_outcome (c i) (\<lambda>p. Inr (found @ [p])) else Inr found)) is (Inr found)
   = bind_outcome (gather T c is) (\<lambda>ps. Inr (found @ ps))" (is "fold ?g _ _ = _")
proof (induction "is" arbitrary: found)
  case (Cons i "is")
  have inl: "fold ?g is (Inl e) = Inl e" for "is" e by (induction "is") simp_all
  show ?case by (cases "c i"; cases "gather T c is") (simp_all add: inl Cons)
qed simp

definition is_fat_part :: "u8 list \<Rightarrow> nat \<Rightarrow> bool" where
  "is_fat_part mbr i \<longleftrightarrow> mbr ! (446 + 16 * i + 4) = 0x0e"

definition part_priv :: "blkdev \<Rightarrow> u8 list \<Rightarrow> nat \<Rightarrow> fat_priv outcome" where
  "part_priv b mbr i = fat_create b (le32 mbr (446 + 16 * i + 8)) (le32 mbr (446 + 16 * i + 12))"

lemma fat_probe_gather:
  "fat_probe_directed b = (let mbr = snd (blk_read b 0 1) in gather (is_fat_part mbr) (part_priv b mbr) [0..<4])"
proof -
  let ?mbr = "snd (blk_read b 0 1)"
  have "fat_probe_directed b = bind_outcome (gather (is_fat_part ?mbr) (part_priv b ?mbr) [0..<4]) (\<lambda>ps. Inr ([] @ ps))"
    unfolding fat_probe_directed_def Let_def is_fat_part_def [symmetric] part_priv_def [symmetric] by (rule fold_gather)
  then show ?thesis by (cases "gather (is_fat_part ?mbr) (part_priv b ?mbr) [0..<4]") simp_all
qed

text \<open>Partitions are registered one after the other, with the next number each.\<close>

lemma add_volumes:
  assumes "vol_ready st L (840 * length is)" "fs_plain st" "invoker \<in> L" "set (devices st) \<subseteq> L"
    "numbered_upto (dev_name (device_at st invoker) @ [112]) k st" "k + length is \<le> 512"
    "gather (is_fat_part mbr) (part_priv b mbr) is = Inr ps"
  shows "\<exists>ds L' st'. run_each (probe_partition code c invoker b mbr) is st = Some (Inr st') \<and> devices st' = devices st @ ds
    \<and> distinct ds \<and> set ds \<inter> L = {} \<and> L \<subseteq> L' \<and> vol_same L st st' \<and> drivers st' = drivers st \<and> driver_at st' = driver_at st
    \<and> list_all2 (holds_volume code L' st') ds (volumes_from (dev_name (device_at st invoker) @ [112]) k ps)"
  using assms
proof (induction "is" arbitrary: st L k ps)
  case Nil
  then show ?case by (intro exI [of _ "[]"] exI [of _ L] exI [of _ st]) (simp add: vol_same_def)
next
  case (Cons i "is")
  let ?pre = "dev_name (device_at st invoker) @ [112]"
  show ?case
  proof (cases "is_fat_part mbr i")
    case False
    then have skip: "probe_partition code c invoker b mbr i st = Some (Inr st)" by (simp add: probe_partition_def is_fat_part_def)
    have "vol_ready st L (840 * length is)" by (rule vol_ready_less [OF Cons.prems(1)]) simp
    from Cons.IH [OF this Cons.prems(2, 3, 4, 5)] Cons.prems(6, 7) False skip show ?thesis by simp
  next
    case True
    then obtain p qs where p: "part_priv b mbr i = Inr p" "gather (is_fat_part mbr) (part_priv b mbr) is = Inr qs" "ps = p # qs"
      using Cons.prems(7) by (auto simp: outcome_simps)
    have r: "vol_ready st L (840 + 840 * length is)" using Cons.prems(1) by simp
    have k: "k < 512" using Cons.prems(6) by simp
    obtain d L1 st1 where 1: "fat_new code invoker b (le32 mbr (446 + 16 * i + 8)) (le32 mbr (446 + 16 * i + 12)) st = Some (Inr (d, st1))"
      "L \<subseteq> L1" "d \<in> L1" "d \<notin> L" "vol_ready st1 L1 (840 * length is)" "fs_volume code st1 d (dev_name (device_at st invoker) @ [112] @ radix_text 10 k, p)"
      "device_priv (device_at st1 d) \<in> L1" "internal_dev (device_at st1 d) \<in> L1" "vol_same L st st1"
      "devices st1 = devices st" "drivers st1 = drivers st" "driver_at st1 = driver_at st"
      by (rule new_fat [OF r p(1) [unfolded part_priv_def] Cons.prems(3) k numbered_upto_next [OF Cons.prems(5) k] Cons.prems(4)])
        (rule that, assumption+)
    let ?st1 = "st1\<lparr>devices := devices st1 @ [d]\<rparr>"
    have reg: "device_register c d st1 = Some (Inr ?st1)"
      using 1(6, 11, 12) Cons.prems(2) by (intro register_plain) (auto simp: fs_plain_def fs_volume_def)
    have step: "probe_partition code c invoker b mbr i st = Some (Inr ?st1)"
      using True 1(1) reg by (simp add: probe_partition_def is_fat_part_def)
    have inv: "device_at ?st1 invoker = device_at st invoker" using 1(9) Cons.prems(3) by (simp add: vol_same_def)
    have a: "vol_ready ?st1 L1 (840 * length is)" using 1(5) by (simp add: vol_ready_def)
    have b: "fs_plain ?st1" using Cons.prems(2) 1(11, 12) by (simp add: fs_plain_def)
    have c: "set (devices ?st1) \<subseteq> L1" "invoker \<in> L1" using Cons.prems(3, 4) 1(2, 3, 10) by auto
    have n: "numbered_upto (dev_name (device_at ?st1 invoker) @ [112]) (Suc k) ?st1" unfolding inv
      by (rule numbered_upto_add [OF Cons.prems(5)]) (use 1(6, 9, 10) Cons.prems(4) in \<open>auto simp: vol_same_def fs_volume_def\<close>)
    have "Suc k + length is \<le> 512" using Cons.prems(6) by simp
    from Cons.IH [OF a b c(2, 1) n this p(2)] obtain ds L' st' where 2: "run_each (probe_partition code c invoker b mbr) is ?st1 = Some (Inr st')"
      "devices st' = devices ?st1 @ ds" "distinct ds" "set ds \<inter> L1 = {}" "L1 \<subseteq> L'" "vol_same L1 ?st1 st'" "drivers st' = drivers ?st1"
      "driver_at st' = driver_at ?st1" "list_all2 (holds_volume code L' st') ds (volumes_from (dev_name (device_at ?st1 invoker) @ [112]) (Suc k) qs)"
      by blast
    have "holds_volume code L1 ?st1 d (?pre @ radix_text 10 k, p)" using 1 by (simp add: holds_volume_def fs_volume_def)
    then have d: "holds_volume code L' st' d (?pre @ radix_text 10 k, p)" by (rule holds_volume_mono [OF _ 2(6, 5)])
    have same: "vol_same L st st'" using 2(6) 1(2, 9) unfolding vol_same_def by fastforce
    have "d \<notin> set ds" using 2(4) 1(3) by blast
    then show ?thesis
      by (intro exI [of _ "d # ds"] exI [of _ L'] exI [of _ st'])
        (use 1(2, 4, 10, 11, 12) 2 d same step inv p(3) in auto)
  qed
qed


definition one_part_sector :: "u8 list" where
  "one_part_sector = map (\<lambda>j. if j = 450 then 0x0e else if j = 454 then 1 else if j = 12 then 2 else 0) [0..<512]"

definition one_part_disk :: "u32 \<Rightarrow> u8 \<Rightarrow> blkdev" where
  "one_part_disk f nr = \<lparr>blk_read = (\<lambda>lba n. (1, one_part_sector))\<rparr>"

definition disk_state :: "alloc_state \<Rightarrow> unit volumes mgr" where
  "disk_state h = \<lparr>drivers = [0x500], devices = [0x1030], driver_at = (\<lambda>_. bdrive_driver 0x600),
     device_at = (\<lambda>_. zero_device\<lparr>dev_name := lit ''hd0'', dev_type := DEVICE_TYPE_BLOCK, internal_dev := 0x700\<rparr>),
     rest = \<lparr>v_heap = h, v_bios = (), drive_at = (\<lambda>_. 0x80),
       blockdev_at = (\<lambda>_. \<lparr>bd_write = 1, bd_read = 2, bd_block_size = 512, bd_priv = 0x710\<rparr>),
       fsdevice_at = (\<lambda>_. \<lparr>fn_open = 0, fn_read = 0, fn_seek = 0, fn_close = 0, fd_priv = 0\<rparr>),
       fat_at = (\<lambda>_. toy_priv)\<rparr>\<rparr>"

lemma one_part: "\<exists>p. fat_probe_directed (one_part_disk f nr) = Inr [p]"
proof -
  have b: "one_part_sector ! j = (if j = 450 then 0x0e else if j = 454 then 1 else if j = 12 then 2 else 0)" if "j < 512" for j
    using that by (simp add: one_part_sector_def)
  have c: "\<exists>p. fat_create (one_part_disk f nr) a n = Inr p" for a n
    by (simp add: fat_create_def one_part_disk_def fat_bpb_of_def le16_def b assert_that_def Let_def)
  then obtain p where p: "fat_create (one_part_disk f nr) (le32 one_part_sector 454) (le32 one_part_sector 458) = Inr p" by blast
  have "[0..<4] = [0, 1, 2, 3 :: nat]" by (simp add: upt_rec)
  then show ?thesis using p by (simp add: fat_probe_gather one_part_disk_def is_fat_part_def part_priv_def b Let_def)
qed


end
