(* ===== verification/Shell.thy ===== *)
theory Shell
  imports Stdio Kalloc Kenv Fs
begin

text \<open>
  The command shell (\<open>kern/main.c\<close>): command lines are split in place, an array of pointers to
  the words is allocated and the command of that name is called with it. Everything is at
  byte level: lines, words and the array lie in the flat memory of the allocator. A command is
  a function of its argument count and the address of its argument array; those of the table
  that touch only what is modelled here are defined, the others are a parameter, as are the
  file and program services, which theories Fs and Elf treat.
\<close>

section \<open>State\<close>

record ('i, 'x) sh =
  hp :: alloc_state
  tok_save :: u32
  sio :: "'i io"
  root_env :: "u32 env"
  conf :: config
  ticks :: u32
  cwd :: cstring
  world :: 'x

type_synonym ('i, 'x) command = "int \<Rightarrow> u32 \<Rightarrow> ('i, 'x) sh \<Rightarrow> ('i, 'x) sh outcome option"

record ('f, 's) services =
  sv_open :: "cstring \<Rightarrow> 's \<Rightarrow> ('f option \<times> 's) outcome option"
  sv_read_full :: "'f \<Rightarrow> 's \<Rightarrow> (u32 \<times> u32 \<times> 's) outcome option"
  sv_close :: "'f \<Rightarrow> 's \<Rightarrow> 's outcome option"
  sv_elf_run :: "u32 \<Rightarrow> int \<Rightarrow> u32 \<Rightarrow> 's \<Rightarrow> 's outcome option"

definition mem_of :: "('i, 'x) sh \<Rightarrow> mem" where
  "mem_of st = ram (hp st)"

definition with_ram :: "mem \<Rightarrow> ('i, 'x) sh \<Rightarrow> ('i, 'x) sh" where
  "with_ram m st = st\<lparr>hp := (hp st)\<lparr>ram := m\<rparr>\<rparr>"

definition print :: "(u32 \<Rightarrow> cstring) \<Rightarrow> cstring \<Rightarrow> u32 list \<Rightarrow> ('i, 'x) sh \<Rightarrow> ('i, 'x) sh outcome" where
  "print str fmt va st = bind_outcome (printf str fmt va []) (\<lambda>(t, _). Inr (st\<lparr>sio := fold putc t (sio st)\<rparr>))"

definition print_mem :: "cstring \<Rightarrow> u32 list \<Rightarrow> ('i, 'x) sh \<Rightarrow> ('i, 'x) sh outcome option" where
  "print_mem fmt va st = Some (print (mem_str (mem_of st)) fmt va st)"

definition argv_at :: "('i, 'x) sh \<Rightarrow> u32 \<Rightarrow> int \<Rightarrow> u32" where
  "argv_at st argv i = load32 (mem_of st) (argv + 4 * of_int i)"

definition sh_kalloc :: "u32 \<Rightarrow> ('i, 'x) sh \<Rightarrow> (u32 \<times> ('i, 'x) sh) outcome option" where
  "sh_kalloc n st = run_bind (kalloc (hp st) n) (\<lambda>(p, h). Some (Inr (p, st\<lparr>hp := h\<rparr>)))"

definition sh_kfree :: "u32 \<Rightarrow> ('i, 'x) sh \<Rightarrow> ('i, 'x) sh outcome" where
  "sh_kfree p st = bind_outcome (kfree (hp st) p) (\<lambda>h. Inr (st\<lparr>hp := h\<rparr>))"

text \<open>\<open>LOG_DEBUG\<close> is 4; a log line carries the name of the function that writes it.\<close>

definition sh_debug :: "string \<Rightarrow> cstring \<Rightarrow> u32 list \<Rightarrow> ('i, 'x) sh \<Rightarrow> ('i, 'x) sh outcome" where
  "sh_debug func fmt va st = bind_outcome
     (debug_printf (mem_str (mem_of st)) 4 (lit func) fmt va (sio st)) (\<lambda>io. Inr (st\<lparr>sio := io\<rparr>))"

section \<open>Commands\<close>

definition usage :: "string \<Rightarrow> u32 \<Rightarrow> ('i, 'x) sh \<Rightarrow> ('i, 'x) sh outcome option" where
  "usage args argv st = print_mem (lit (''Usage: %s '' @ args) @ [10]) [argv_at st argv 0] st"

definition uptime :: "('i, 'x) command" where
  "uptime argc argv st = print_mem (lit ''Up approximately %d.%d seconds'' @ [10]) [ticks st div 100, ticks st mod 100] st"

definition verb :: "('i, 'x) command" where
  "verb argc argv st =
     (if argc \<noteq> 2 then usage ''log_level'' argv st
      else Option.bind (atoi (mem_of st) (argv_at st argv 1)) (\<lambda>level.
        Some (Inr (st\<lparr>sio := set_log_level level (sio st)\<rparr>))))"

definition pwd :: "('i, 'x) command" where
  "pwd argc argv st = Some (print (\<lambda>_. cwd st) (lit ''%s'' @ [10]) [0] st)"

definition echo :: "('i, 'x) command" where
  "echo argc argv st =
     run_bind (run_each (\<lambda>i st. print_mem (lit ''%s '') [argv_at st argv i] st) [1..argc - 2] st)
       (\<lambda>st. print_mem (lit ''%s'' @ [10]) [argv_at st argv (argc - 1)] st)"

definition mem_status :: "('i, 'x) command" where
  "mem_status argc argv st =
     Option.bind (alloc_used (hp st) False) (\<lambda>used. Option.bind (alloc_used (hp st) True) (\<lambda>allocated.
       let total = alloc_total (hp st) in
       run_each (\<lambda>(fmt, va). print_mem (lit fmt @ [10]) va)
         [(''Memory status:'', []), (''Used      = %d bytes'', [used]),
          (''Allocated = %d bytes (includes freed)'', [allocated]),
          (''Available = %d bytes'', [total - used]), (''Total     = %d bytes'', [total])] st))"

definition colours :: "cstring list" where
  "colours = map lit [''black'', ''blue'', ''green'', ''cyan'', ''red'', ''purple'', ''brown'', ''gray'',
     ''dgrey'', ''lblue'', ''lgreen'', ''lcyan'', ''lred'', ''lpurple'', ''yellow'', ''white'']"

definition colour_from_str :: "mem \<Rightarrow> u32 \<Rightarrow> int" where
  "colour_from_str m str = (case find (\<lambda>i. strcmp_lit (colours ! i) m str = 0) [0..<length colours] of
     Some i \<Rightarrow> int i | None \<Rightarrow> 0)"

definition listcolours :: "('i, 'x) command" where
  "listcolours argc argv st = run_each (\<lambda>c st. Some (print (\<lambda>_. c) (lit ''%s'' @ [10]) [0] st)) colours st"

text \<open>
  The words from the third on are joined with spaces; the text must be quoted, and the quote at
  its end is overwritten. The size counts one byte more for each word: with no such word it is 0
  and the name itself is appended at address 0.
\<close>

definition strcat_lit :: "mem \<Rightarrow> u32 \<Rightarrow> cstring \<Rightarrow> mem option" where
  "strcat_lit m dst s = Option.bind (strend m dst) (\<lambda>d. Some (write_bytes m d (s @ [0])))"

fun value_size :: "('i, 'x) sh \<Rightarrow> u32 \<Rightarrow> int list \<Rightarrow> u32 \<Rightarrow> u32 option" where
  "value_size st argv [] bufsz = Some bufsz"
| "value_size st argv (i # is) bufsz =
     Option.bind (strlen (mem_of st) (argv_at st argv i)) (\<lambda>n. value_size st argv is (bufsz + (n + 1)))"

fun join_words :: "u32 \<Rightarrow> u32 \<Rightarrow> int list \<Rightarrow> ('i, 'x) sh \<Rightarrow> ('i, 'x) sh option" where
  "join_words buf argv [] st = Some st"
| "join_words buf argv (i # is) st =
     Option.bind (strcat (mem_of st) buf (argv_at st argv i)) (\<lambda>m.
       Option.bind (strcat_lit m buf [32]) (\<lambda>m. join_words buf argv is (with_ram m st)))"

definition quoted_value :: "int \<Rightarrow> u32 \<Rightarrow> ('i, 'x) sh \<Rightarrow> (u32 option \<times> ('i, 'x) sh) outcome option" where
  "quoted_value argc argv st =
     Option.bind (value_size st argv [2..argc - 1] 0) (\<lambda>bufsz.
     run_bind (kallocz (hp st) bufsz) (\<lambda>(buf, h).
     Option.bind (join_words buf argv [2..argc - 2] (st\<lparr>hp := h\<rparr>)) (\<lambda>st.
     Option.bind (strcat (mem_of st) buf (argv_at st argv (argc - 1))) (\<lambda>m.
       let st = with_ram m st in
       if m buf \<noteq> 34
       then run_bind (print_mem (lit ''value must start with quote'' @ [10]) [] st) (\<lambda>st.
              Some (bind_outcome (sh_kfree buf st) (\<lambda>st. Inr (None, st))))
       else if m (buf + bufsz - 2) \<noteq> 34
       then run_bind (print_mem (lit ''value must end with quote'' @ [10]) [] st) (\<lambda>st.
              Some (bind_outcome (sh_kfree buf st) (\<lambda>st. Inr (None, st))))
       else Some (Inr (Some buf, with_ram (m(buf + bufsz - 2 := 0)) st))))))"

text \<open>The environment keeps a copy of the key and the pointer to the value.\<close>

definition setenv :: "('i, 'x) command" where
  "setenv argc argv st =
     (if argc < 2 then usage ''var \"value\"'' argv st
      else run_bind (quoted_value argc argv st) (\<lambda>(buf, st). case buf of
        None \<Rightarrow> Some (Inr st)
      | Some buf \<Rightarrow> Some (bind_outcome
          (env_put (root_env st) (mem_str (mem_of st) (argv_at st argv 1)) (buf + 1))
          (\<lambda>e. Inr (st\<lparr>root_env := e\<rparr>)))))"

definition setconf :: "('i, 'x) command" where
  "setconf argc argv st =
     (if argc < 2 then usage ''namespace:key \"value\"'' argv st
      else run_bind (quoted_value argc argv st) (\<lambda>(buf, st). case buf of
        None \<Rightarrow> Some (Inr st)
      | Some buf \<Rightarrow> run_bind (config_setstr (conf st) (mem_str (mem_of st) (argv_at st argv 1))
            (mem_str (mem_of st) (buf + 1)))
          (\<lambda>c. Some (sh_kfree buf (st\<lparr>conf := c\<rparr>)))))"

definition getconf :: "('i, 'x) command" where
  "getconf argc argv st =
     (let key = mem_str (mem_of st) (argv_at st argv 1) in
      if argc < 1 then usage ''namespace:key'' argv st
      else run_bind (config_gettype (conf st) key) (\<lambda>type.
        if type = 0 then print_mem (lit ''Key does not exist'' @ [10]) [] st
        else if type = CONFIG_TYPE_INT then run_bind (config_getint (conf st) key) (\<lambda>ival.
          print_mem (lit ''INT     %s = %d (hex %x)'' @ [10]) [argv_at st argv 1, word_of_int ival, word_of_int ival] st)
        else if type = CONFIG_TYPE_STR then run_bind (config_getstr (conf st) key) (\<lambda>sval. case sval of
            None \<Rightarrow> Some (Inl WildAccess)
          | Some sval \<Rightarrow> Some (print (\<lambda>p. if p = 0 then key else sval) (lit ''STRING  %s = \"%s\"'' @ [10]) [0, 1] st))
        else if type = CONFIG_TYPE_OBJ then run_bind (config_getobj (conf st) key) (\<lambda>oval.
          print_mem (lit ''OBJECT  %s = %p'' @ [10]) [argv_at st argv 1, oval] st)
        else print_mem (lit ''Unknown type %d'') [word_of_int type] st))"

section \<open>Calling a command\<close>

text \<open>The table, in its order; \<open>others\<close> gives the commands that are not modelled here.\<close>

definition commands :: "(string \<Rightarrow> ('i, 'x) command) \<Rightarrow> (cstring \<times> ('i, 'x) command) list" where
  "commands others = map (\<lambda>name. (lit name,
     if name = ''uptime'' then uptime else if name = ''mem'' then mem_status
     else if name = ''listcolours'' then listcolours else if name = ''verb'' then verb
     else if name = ''pwd'' then pwd else if name = ''echo'' then echo
     else if name = ''setenv'' then setenv else if name = ''setconf'' then setconf
     else if name = ''getconf'' then getconf else others name))
   [''exec'', ''lsmod'', ''ldmod'', ''lssym'', ''lsdev'', ''lsdrv'', ''endrv'', ''uptime'', ''mem'', ''ver'', ''cpuid'',
    ''clear'', ''clock'', ''setres'', ''setfnt'', ''setcolour'', ''listcolours'', ''dino'', ''scancode'', ''verb'', ''brk'',
    ''dumpmem'', ''read'', ''pwd'', ''echo'', ''setenv'', ''setconf'', ''getconf'', ''poweroff'', ''exit'', ''help'',
    ''logo'', ''sysinfo'', ''selftest'', ''setscheme'']"

fun invoke_internal :: "(cstring \<times> ('i, 'x) command) list \<Rightarrow> u32 \<Rightarrow> int \<Rightarrow> u32 \<Rightarrow> ('i, 'x) sh
    \<Rightarrow> (bool \<times> ('i, 'x) sh) outcome option" where
  "invoke_internal [] name argc argv st = Some (Inr (False, st))"
| "invoke_internal ((cname, fn) # cmds) name argc argv st =
     (if strcmp_lit cname (mem_of st) name = 0
      then run_bind (fn argc argv st) (\<lambda>st. Some (Inr (True, st)))
      else invoke_internal cmds name argc argv st)"

text \<open>
  The path is built in a buffer of 256 bytes on the stack, at \<open>bin_name\<close>; nothing keeps a long
  name inside it.
\<close>

definition invoke_external ::
  "('f, ('i, 'x) sh) services \<Rightarrow> u32 \<Rightarrow> u32 \<Rightarrow> int \<Rightarrow> u32 \<Rightarrow> ('i, 'x) sh \<Rightarrow> (bool \<times> ('i, 'x) sh) outcome option" where
  "invoke_external sv bin_name name argc argv st =
     Option.bind (strcat (write_bytes (mem_of st) bin_name (lit ''bin/'' @ [0])) bin_name name) (\<lambda>m.
     Option.bind (strcat_lit m bin_name (lit ''.elf'')) (\<lambda>m.
       let st = with_ram m st in
       run_bind (sv_open sv (mem_str m bin_name) st) (\<lambda>(handle, st). case handle of
         None \<Rightarrow> Some (Inr (False, st))
       | Some handle \<Rightarrow>
           run_bind (sv_read_full sv handle st) (\<lambda>(module, size, st).
           run_bind (Some (sh_debug ''invoke_external'' (lit ''@%p, %d'') [module, size] st)) (\<lambda>st.
           run_bind (sv_elf_run sv module argc argv st) (\<lambda>st.
           run_bind (sv_close sv handle st) (\<lambda>st.
             Some (bind_outcome (sh_kfree module st) (\<lambda>st. Inr (True, st))))))))))"

section \<open>Command lines\<close>

definition strtok :: "u32 \<Rightarrow> u32 \<Rightarrow> ('i, 'x) sh \<Rightarrow> (u32 \<times> ('i, 'x) sh) option" where
  "strtok str delim st = map_option (\<lambda>(m, token, saveptr). (token, with_ram m (st\<lparr>tok_save := saveptr\<rparr>)))
     (strtok_r (mem_of st) str delim (tok_save st))"

definition strdup :: "u32 \<Rightarrow> ('i, 'x) sh \<Rightarrow> (u32 \<times> ('i, 'x) sh) outcome option" where
  "strdup s st = Option.bind (strlen (mem_of st) s) (\<lambda>n.
     run_bind (sh_kalloc (n + 1) st) (\<lambda>(str, st).
       Some (Inr (str, if str \<noteq> 0 then with_ram (memcpy (mem_of st) str s (n + 1)) st else st))))"

function strip_comment :: "mem \<Rightarrow> u32 \<Rightarrow> u32 \<Rightarrow> u32 \<Rightarrow> mem" where
  "strip_comment m cmdbuf cmdbuf_len i =
     (if i < cmdbuf_len
      then if m (cmdbuf + i) = 35 then m(cmdbuf + i := 0) else strip_comment m cmdbuf cmdbuf_len (i + 1)
      else m)"
  by pat_completeness auto
termination
  by (relation "measure (\<lambda>(m, cmdbuf, len, i). unat len - unat i)") (auto simp: unat_inc_u32 word_less_nat_alt)

declare strip_comment.simps [simp del]

partial_function (option) count_tokens :: "u32 \<Rightarrow> int \<Rightarrow> ('i, 'x) sh \<Rightarrow> (int \<times> ('i, 'x) sh) option" where
  "count_tokens space argc st =
     Option.bind (strtok 0 space st) (\<lambda>(token, st).
       if token \<noteq> 0 then count_tokens space (argc + 1) st else Some (argc, st))"

fun fill_argv :: "u32 \<Rightarrow> int list \<Rightarrow> u32 \<Rightarrow> mem \<Rightarrow> mem option" where
  "fill_argv argv [] tmp m = Some m"
| "fill_argv argv (i # is) tmp m =
     (let m = store32 m (argv + 4 * of_int i) tmp
      in Option.bind (strlen m tmp) (\<lambda>n. fill_argv argv is (tmp + (n + 1)) m))"

text \<open>
  \<open>space\<close> is the address of the literal \<open>" "\<close>. \<open>external\<close> is \<open>invoke_external\<close> with its services.
\<close>

definition call_command ::
  "(cstring \<times> ('i, 'x) command) list \<Rightarrow> (u32 \<Rightarrow> int \<Rightarrow> u32 \<Rightarrow> ('i, 'x) sh \<Rightarrow> (bool \<times> ('i, 'x) sh) outcome option)
    \<Rightarrow> u32 \<Rightarrow> u32 \<Rightarrow> int \<Rightarrow> u32 \<Rightarrow> ('i, 'x) sh \<Rightarrow> ('i, 'x) sh outcome option" where
  "call_command cmds external cmdbuf token argc argv st =
     run_bind (invoke_internal cmds token argc argv st) (\<lambda>(done_int, st).
     run_bind (if done_int then Some (Inr (True, st)) else external token argc argv st) (\<lambda>(done_ext, st).
     run_bind (if done_ext then Some (Inr st) else print_mem (lit ''? %s'' @ [10]) [cmdbuf] st) (\<lambda>st.
       Some (sh_kfree argv st))))"

definition process_command_string ::
  "(cstring \<times> ('i, 'x) command) list \<Rightarrow> (u32 \<Rightarrow> int \<Rightarrow> u32 \<Rightarrow> ('i, 'x) sh \<Rightarrow> (bool \<times> ('i, 'x) sh) outcome option)
    \<Rightarrow> u32 \<Rightarrow> u32 \<Rightarrow> ('i, 'x) sh \<Rightarrow> ('i, 'x) sh outcome option" where
  "process_command_string cmds external space cmdbuf st =
     Option.bind (strlen (mem_of st) cmdbuf) (\<lambda>cmdbuf_len.
       let st = with_ram (strip_comment (mem_of st) cmdbuf cmdbuf_len 0) st in
       if mem_of st cmdbuf = 0 then Some (Inr st)
       else Option.bind (strtok cmdbuf space st) (\<lambda>(token, st).
         Option.bind (count_tokens space 1 st) (\<lambda>(argc, st).
         run_bind (sh_kalloc (4 * of_int argc) st) (\<lambda>(argv, st).
         Option.bind (fill_argv argv [0..argc - 1] token (mem_of st)) (\<lambda>m.
           call_command cmds external cmdbuf token argc argv (with_ram m st))))))"

section \<open>Strings behind pointers\<close>

lemma mem_of_with_ram [simp]: "mem_of (with_ram m st) = m"
  by (simp add: mem_of_def with_ram_def)

lemma with_ram_fields [simp]:
  "sio (with_ram m st) = sio st" "root_env (with_ram m st) = root_env st" "conf (with_ram m st) = conf st"
  "world (with_ram m st) = world st" "tok_save (with_ram m st) = tok_save st" "ticks (with_ram m st) = ticks st"
  "cwd (with_ram m st) = cwd st" "with_ram m (with_ram m' st) = with_ram m st" "mem_of (st\<lparr>tok_save := p\<rparr>) = mem_of st"
  "(with_ram m st)\<lparr>tok_save := p\<rparr> = with_ram m (st\<lparr>tok_save := p\<rparr>)"
  "hp (with_ram m st) = (hp st)\<lparr>ram := m\<rparr>"
  by (simp_all add: with_ram_def mem_of_def)

lemma invoke_internal_eq:
  assumes "cstr (mem_of st) name s" "\<forall>(cname, _) \<in> set cmds. cstring_ok cname"
  shows "invoke_internal cmds name argc argv st = (case map_of cmds s of
    None \<Rightarrow> Some (Inr (False, st))
  | Some fn \<Rightarrow> run_bind (fn argc argv st) (\<lambda>st. Some (Inr (True, st))))"
  using assms(2)
proof (induction cmds)
  case (Cons c cmds)
  obtain cname fn where c: "c = (cname, fn)" by force
  have "strcmp_lit cname (mem_of st) name = 0 \<longleftrightarrow> cname = s"
    using strcmp_lit_cstr [OF assms(1)] strdiff_0_iff [OF _ cstr_ok [OF assms(1)]] Cons.prems c by auto
  then show ?case using Cons c by auto
qed simp

section \<open>Splitting a line\<close>

lemma strip_comment_eq:
  assumes "cstr m p s" "i \<le> length s" "35 \<notin> set (take i s)"
  shows "strip_comment m p (of_nat (length s)) (of_nat i)
    = (let n = length (takeWhile (\<lambda>c. c \<noteq> 35) s) in if n < length s then m(p + of_nat n := 0) else m)"
  using assms(2,3)
proof (induction "length s - i" arbitrary: i)
  case 0
  then have tw: "takeWhile (\<lambda>c. c \<noteq> 35) s = s" and i: "i = length s" by (auto simp: takeWhile_eq_all_conv)
  show ?case unfolding tw i by (subst strip_comment.simps) simp
next
  case (Suc d)
  have i: "i < length s" using Suc by simp
  then have lt: "(of_nat i :: u32) < of_nat (length s)"
    using cstr_length [OF assms(1)] by (simp add: word_less_nat_alt unat_of_nat_u32)
  have c: "m (p + of_nat i) = s ! i" using assms(1) i by (simp add: cstr_iff)
  have inc: "(of_nat i :: u32) + 1 = of_nat (Suc i)" by simp
  show ?case
  proof (cases "s ! i = 35")
    case True
    have "takeWhile (\<lambda>c. c \<noteq> 35) s = take i s"
      using i True Suc.prems(2) by (intro takeWhile_eq_take_P_nth) (auto simp: in_set_conv_nth)
    then show ?thesis using c lt i True by (subst strip_comment.simps) (simp add: Let_def)
  next
    case False
    have "35 \<notin> set (take (Suc i) s)" using Suc.prems(2) False i by (auto simp: take_Suc_conv_app_nth)
    then have "strip_comment m p (of_nat (length s)) (of_nat (Suc i))
      = (let n = length (takeWhile (\<lambda>c. c \<noteq> 35) s) in if n < length s then m(p + of_nat n := 0) else m)"
      using Suc i by (intro Suc.hyps(1)) simp_all
    then show ?thesis using c lt False by (subst strip_comment.simps) (simp add: add.commute)
  qed
qed

text \<open>Words in memory, one after the other, each with its terminating zero.\<close>

fun fields_at :: "mem \<Rightarrow> u32 \<Rightarrow> cstring list \<Rightarrow> bool" where
  "fields_at m p [] \<longleftrightarrow> True"
| "fields_at m p (f # fs) \<longleftrightarrow> cstr m p f \<and> fields_at m (p + of_nat (length f) + 1) fs"

lemma strtok_next:
  fixes st :: "('i, 'x) sh" and r :: cstring and str :: u32
  defines "k \<equiv> length (takeWhile (\<lambda>c. c = 32) r)" and "n \<equiv> length (token_of [32] r)"
    and "p \<equiv> (if str \<noteq> 0 then str else tok_save st)"
  assumes "cstr (mem_of st) p r" "cstr (mem_of st) space [32]" "p \<noteq> 0"
  shows "strtok str space st = Some
    (if token_of [32] r = [] then (0, with_ram (mem_of st) (st\<lparr>tok_save := p + of_nat (length r)\<rparr>))
     else if k + n < length r
     then (p + of_nat k, with_ram ((mem_of st)(p + of_nat (k + n) := 0)) (st\<lparr>tok_save := p + of_nat (k + n) + 1\<rparr>))
     else (p + of_nat k, with_ram (mem_of st) (st\<lparr>tok_save := p + of_nat (length r)\<rparr>)))"
proof -
  have "(\<lambda>c. c \<in> set [32 :: u8]) = (\<lambda>c. c = 32)" by auto
  then show ?thesis
    using strtok_r_eq [OF assms(4,5), of str "tok_save st"] assms(6) unfolding strtok_def k_def n_def p_def by simp
qed

fun fields_size :: "cstring list \<Rightarrow> nat" where
  "fields_size [] = 0"
| "fields_size (f # fs) = Suc (length f) + fields_size fs"

lemma fields_at_cong:
  "(\<And>a. in_block a p (fields_size fs) \<Longrightarrow> m' a = m a) \<Longrightarrow> fields_size fs \<le> 4294967296 \<Longrightarrow>
   fields_at m' p fs = fields_at m p fs"
proof (induction fs arbitrary: p)
  case (Cons f fs)
  have split: "in_block a p (Suc (length f) + fields_size fs)
      \<longleftrightarrow> in_block a p (Suc (length f)) \<or> in_block a (p + of_nat (length f) + 1) (fields_size fs)" for a
    using in_block_split [of "Suc (length f)" "fields_size fs" a p] Cons.prems(2) by (simp add: algebra_simps)
  have "cstr m' p f = cstr m p f" using Cons.prems(1) split by (intro cstr_block_cong) simp
  moreover have "fields_at m' (p + of_nat (length f) + 1) fs = fields_at m (p + of_nat (length f) + 1) fs"
    using Cons.prems split by (intro Cons.IH) simp_all
  ultimately show ?case by simp
qed simp

lemma in_block_sub:
  "in_block a (p + of_nat k) n \<Longrightarrow> k + n \<le> N \<Longrightarrow> N \<le> 4294967296 \<Longrightarrow> in_block a p N"
  using in_block_split [of k n a p] in_block_mono [of a p "k + n" N] by simp

lemma offset_nonzero: "0 < unat p \<Longrightarrow> unat p + k < 4294967296 \<Longrightarrow> unat (p + of_nat k :: u32) = unat p + k"
  by (simp add: unat_add_u32 unat_of_nat_u32)

lemma after_token_length:
  "token_of ds s \<noteq> [] \<Longrightarrow> length (takeWhile (\<lambda>c. c \<in> set ds) s) + length (token_of ds s) + length (after_token ds s) \<le> length s"
proof (cases "length (takeWhile (\<lambda>c. c \<in> set ds) s) + length (token_of ds s) < length s")
  case True
  then obtain d where "s = takeWhile (\<lambda>c. c \<in> set ds) s @ token_of ds s @ d # after_token ds s" by (rule token_split)
  then have "length s = length (takeWhile (\<lambda>c. c \<in> set ds) s @ token_of ds s @ d # after_token ds s)" by (rule arg_cong)
  then show ?thesis by simp
next
  case False
  note l = token_last [OF False]
  have "length s = length (takeWhile (\<lambda>c. c \<in> set ds) s @ token_of ds s)" by (rule arg_cong [OF l(1)])
  then show ?thesis using l(2) by simp
qed

lemma fields_size_space_parts: "fields_size (space_parts r) \<le> Suc (length r)"
proof (induction r rule: space_parts.induct)
  case (1 r)
  show ?case
  proof (cases "token_of [32] r = []")
    case True
    then show ?thesis by (subst space_parts.simps) simp
  next
    case False
    let ?pre = "takeWhile (\<lambda>c. c = 32) r"
    have sp: "space_parts r = (?pre @ token_of [32] r) # space_parts (after_token [32] r)"
      using False by (subst space_parts.simps) simp
    show ?thesis
    proof (cases "length ?pre + length (token_of [32] r) < length r")
      case True
      then obtain d where "r = ?pre @ token_of [32] r @ d # after_token [32] r"
        using token_split [of "[32]" r] by auto
      then have "length r = length (?pre @ token_of [32] r @ d # after_token [32] r)" by (rule arg_cong)
      then show ?thesis using 1 [OF False] by (simp add: sp)
    next
      case last: False
      then have "r = ?pre @ token_of [32] r" "after_token [32] r = []"
        using token_last [of "[32]" r] by auto
      moreover from this(1) have "length r = length (?pre @ token_of [32] r)" by (rule arg_cong)
      moreover have "space_parts [] = []" by (subst space_parts.simps) (simp add: token_of_def)
      ultimately show ?thesis by (simp add: sp)
    qed
  qed
qed

text \<open>One round of the counting loop: the field at the saved pointer, and the state for the rest.\<close>

lemma strtok_round:
  fixes st :: "('i, 'x) sh" and str :: u32
  defines "p \<equiv> (if str \<noteq> 0 then str else tok_save st)"
  assumes s: "cstr (mem_of st) p r" "cstr (mem_of st) space [32]" and p: "0 < unat p" "unat p + length r < 4294967296"
    and tok: "token_of [32] r \<noteq> []" and dis: "\<And>a. in_block a p (Suc (length r)) \<Longrightarrow> \<not> in_block a space 2"
  obtains m sv token where "strtok str space st = Some (token, with_ram m (st\<lparr>tok_save := sv\<rparr>))" "token \<noteq> 0"
    "token = p + of_nat (length (takeWhile (\<lambda>c. c = 32) r))"
    "cstr m p (takeWhile (\<lambda>c. c = 32) r @ token_of [32] r)" "cstr m sv (after_token [32] r)" "cstr m space [32]"
    "\<forall>a. \<not> in_block a p (length r) \<longrightarrow> m a = mem_of st a"
    "\<exists>j. sv = p + of_nat j \<and> j + length (after_token [32] r) \<le> length r
       \<and> (after_token [32] r \<noteq> [] \<longrightarrow> j = Suc (length (takeWhile (\<lambda>c. c = 32) r) + length (token_of [32] r)))"
proof -
  let ?pre = "takeWhile (\<lambda>c. c = 32) r" and ?tok = "token_of [32] r" and ?rest = "after_token [32] r"
  let ?k = "length ?pre" and ?n = "length ?tok"
  have p0: "p \<noteq> 0" using p(1) by auto
  note nxt = strtok_next [OF s [unfolded p_def] p0 [unfolded p_def], folded p_def]
  have len: "?k + ?n + length ?rest \<le> length r" using after_token_length [OF tok] by simp
  have tp: "p + of_nat ?k \<noteq> 0" using offset_nonzero [OF p(1), of ?k] p len by (auto simp: unat_eq_zero)
  show ?thesis
  proof (cases "?k + ?n < length r")
    case True
    then obtain d where d: "r = ?pre @ ?tok @ d # ?rest" using token_split [of "[32]" r] by auto
    let ?z = "p + of_nat (?k + ?n)"
    have "cstr (mem_of st) p ((?pre @ ?tok) @ d # ?rest)" using s(1) d by simp
    note two = cstr_prefix [OF this]
    have lenr: "length r = length (?pre @ ?tok @ d # ?rest)" using d by (rule arg_cong)
    have z: "in_block ?z p (length r)" using True p by (intro in_block_offset) (simp add: unat_of_nat_u32 del: of_nat_add)
    have "\<not> in_block ?z space 2" using z in_block_mono [OF z, of "Suc (length r)"] dis by simp
    then have "\<not> in_block ?z space (Suc (length [32 :: u8]))" by (simp add: numeral_2_eq_2)
    from cstr_upd [OF this] have sp: "cstr ((mem_of st)(?z := 0)) space [32]" using s(2) by blast
    show ?thesis
    proof (rule that)
      show "strtok str space st = Some (p + of_nat ?k, with_ram ((mem_of st)(?z := 0)) (st\<lparr>tok_save := ?z + 1\<rparr>))"
        using nxt tok True by simp
      show "cstr ((mem_of st)(?z := 0)) p (?pre @ ?tok)" "cstr ((mem_of st)(?z := 0)) (?z + 1) ?rest"
        using two by (simp_all add: add.assoc)
      show "\<forall>a. \<not> in_block a p (length r) \<longrightarrow> ((mem_of st)(?z := 0)) a = mem_of st a" using z by auto
      show "\<exists>j. ?z + 1 = p + of_nat j \<and> j + length ?rest \<le> length r \<and> (?rest \<noteq> [] \<longrightarrow> j = Suc (?k + ?n))"
        using lenr by (intro exI [of _ "Suc (?k + ?n)"]) (simp add: algebra_simps)
    qed (use tp sp in \<open>simp_all del: fun_upd_apply\<close>)
  next
    case False
    then have l: "r = ?pre @ ?tok" "?rest = []" using token_last [of "[32]" r] by auto
    show ?thesis
    proof (rule that)
      show "strtok str space st = Some (p + of_nat ?k, with_ram (mem_of st) (st\<lparr>tok_save := p + of_nat (length r)\<rparr>))"
        using nxt tok False by simp
      show "\<exists>j. p + of_nat (length r) = p + of_nat j \<and> j + length ?rest \<le> length r \<and> (?rest \<noteq> [] \<longrightarrow> j = Suc (?k + ?n))"
        using l by (intro exI [of _ "length r"]) simp
    qed (use tp s l cstr_end [OF s(1)] in auto)
  qed
qed

text \<open>A field, and the fields that later rounds find after it.\<close>

lemma field_then_rest:
  assumes "cstr m p f" "sv = p + of_nat j" "j + length t < 4294967296" "t \<noteq> [] \<Longrightarrow> j = Suc (length f)"
    and "fields_at m' sv (space_parts t)" "\<forall>a. \<not> in_block a sv (length t) \<longrightarrow> m' a = m a"
  shows "fields_at m' p (f # space_parts t)"
proof (cases "t = []")
  case True
  then have "m' = m" using assms(6) by auto
  moreover have "space_parts [] = []" by (subst space_parts.simps) (simp add: token_of_def)
  ultimately show ?thesis using True assms(1) by simp
next
  case False
  then have j: "j = Suc (length f)" using assms(4) by simp
  have "cstr m' p f = cstr m p f"
  proof (rule cstr_block_cong)
    fix a assume "in_block a p (Suc (length f))"
    then have "\<not> in_block a sv (length t)"
      using in_block_split_excl [of j "length t" a p] j assms(2,3) by simp
    then show "m' a = m a" using assms(6) by blast
  qed
  moreover have "p + of_nat (length f) + 1 = sv" using j assms(2) by (simp add: algebra_simps)
  ultimately show ?thesis using assms(1,5) by simp
qed

lemma count_tokens_fields:
  assumes "cstr (mem_of st) (tok_save st) r" "cstr (mem_of st) space [32]"
    and "0 < unat (tok_save st)" "unat (tok_save st) + length r < 4294967296"
    and "\<And>a. in_block a (tok_save st) (Suc (length r)) \<Longrightarrow> \<not> in_block a space 2"
  shows "\<exists>m sv. count_tokens space argc st = Some (argc + int (length (space_parts r)), with_ram m (st\<lparr>tok_save := sv\<rparr>))
    \<and> fields_at m (tok_save st) (space_parts r)
    \<and> (\<forall>a. \<not> in_block a (tok_save st) (length r) \<longrightarrow> m a = mem_of st a)"
  using assms
proof (induction r arbitrary: st argc rule: space_parts.induct)
  case (1 r)
  let ?p = "tok_save st" and ?pre = "takeWhile (\<lambda>c. c = 32) r" and ?tok = "token_of [32] r" and ?rest = "after_token [32] r"
  show ?case
  proof (cases "?tok = []")
    case True
    have "?p \<noteq> 0" using "1.prems"(3) by auto
    then show ?thesis using strtok_next [where str = 0 and st = st and r = r and space = space] "1.prems"(1,2) True
      by (subst count_tokens.simps) (auto simp: space_parts.simps [of r] intro!: exI [of _ "mem_of st"])
  next
    case False
    then have sp: "space_parts r = (?pre @ ?tok) # space_parts ?rest" by (subst space_parts.simps) simp
    obtain m sv token where st1: "strtok 0 space st = Some (token, with_ram m (st\<lparr>tok_save := sv\<rparr>))" "token \<noteq> 0"
      and "token = ?p + of_nat (length ?pre)"
      and m: "cstr m ?p (?pre @ ?tok)" "cstr m sv ?rest" "cstr m space [32]"
        "\<forall>a. \<not> in_block a ?p (length r) \<longrightarrow> m a = mem_of st a"
      and ex: "\<exists>j. sv = ?p + of_nat j \<and> j + length ?rest \<le> length r \<and> (?rest \<noteq> [] \<longrightarrow> j = Suc (length ?pre + length ?tok))"
      by (rule strtok_round [where str = 0 and st = st and r = r and space = space, unfolded if_False simp_thms, OF "1.prems"(1-4) False "1.prems"(5)]) blast
    from ex obtain j where j: "sv = ?p + of_nat j" "j + length ?rest \<le> length r"
      "?rest \<noteq> [] \<longrightarrow> j = Suc (length ?pre + length ?tok)" by blast
    have usv: "unat sv = unat ?p + j" using offset_nonzero [OF "1.prems"(3), of j] "1.prems"(4) j by simp
    let ?st1 = "with_ram m (st\<lparr>tok_save := sv\<rparr>)"
    have "\<exists>m' sv'. count_tokens space (argc + 1) ?st1
          = Some (argc + 1 + int (length (space_parts ?rest)), with_ram m' (?st1\<lparr>tok_save := sv'\<rparr>))
        \<and> fields_at m' (tok_save ?st1) (space_parts ?rest)
        \<and> (\<forall>a. \<not> in_block a (tok_save ?st1) (length ?rest) \<longrightarrow> m' a = mem_of ?st1 a)"
    proof (rule "1.IH" [OF False])
      show "\<not> in_block a space 2" if "in_block a (tok_save ?st1) (Suc (length ?rest))" for a
        using in_block_sub [of a ?p j "Suc (length ?rest)" "Suc (length r)"] that j "1.prems"(4,5) by simp
    qed (use m usv "1.prems"(3,4) j(2) in simp_all)
    then obtain m' sv' where r: "count_tokens space (argc + 1) ?st1
          = Some (argc + 1 + int (length (space_parts ?rest)), with_ram m' (st\<lparr>tok_save := sv'\<rparr>))"
        "fields_at m' sv (space_parts ?rest)" "\<And>a. \<not> in_block a sv (length ?rest) \<Longrightarrow> m' a = m a"
      by auto
    have frame: "m' a = mem_of st a" if "\<not> in_block a ?p (length r)" for a
      using that r(3) [of a] m(4) in_block_sub [of a ?p j "length ?rest" "length r"] j "1.prems"(4) by auto
    have first: "fields_at m' ?p (space_parts r)" unfolding sp
      by (rule field_then_rest [OF m(1) j(1)]) (use j r(2,3) "1.prems"(4) in auto)
    show ?thesis
      by (rule exI [of _ m'], rule exI [of _ sv'], subst count_tokens.simps)
        (use st1 r(1) first frame in \<open>simp add: sp algebra_simps\<close>)
  qed
qed

text \<open>The array of pointers to the words.\<close>

definition field_addr :: "u32 \<Rightarrow> cstring list \<Rightarrow> nat \<Rightarrow> u32" where
  "field_addr p fs i = p + of_nat (fields_size (take i fs))"

lemma fields_at_nth:
  "fields_at m p fs \<Longrightarrow> i < length fs \<Longrightarrow> cstr m (field_addr p fs i) (fs ! i)"
proof (induction fs arbitrary: p i)
  case (Cons f fs)
  show ?case
  proof (cases i)
    case (Suc k)
    have "field_addr p (f # fs) (Suc k) = field_addr (p + of_nat (length f) + 1) fs k"
      by (simp add: field_addr_def algebra_simps)
    then show ?thesis using Cons Suc by simp
  qed (use Cons in \<open>simp add: field_addr_def\<close>)
qed simp

lemma not_in_block_4: "\<not> in_block b a 4 \<longleftrightarrow> 4 \<le> b - (a :: u32)"
  by (simp add: in_block_def word_le_nat_alt not_less)

lemma fill_argv_fields:
  assumes "fields_at m p fs" "fields_size fs \<le> 4294967296" "4 * length fs < 4294967296"
    and "\<And>a. in_block a p (fields_size fs) \<Longrightarrow> \<not> in_block a (argv + of_nat (4 * j)) (4 * length fs)"
  shows "\<exists>m'. fill_argv argv (map int [j..<j + length fs]) p m = Some m'
    \<and> (\<forall>i < length fs. load32 m' (argv + of_nat (4 * (j + i))) = field_addr p fs i)
    \<and> (\<forall>a. \<not> in_block a (argv + of_nat (4 * j)) (4 * length fs) \<longrightarrow> m' a = m a)"
  using assms
proof (induction fs arbitrary: m p j)
  case (Cons f fs)
  let ?q = "argv + of_nat (4 * j)" and ?p' = "p + of_nat (length f) + 1"
  define m1 where "m1 = store32 m ?q p"
  have q': "argv + of_nat (4 * Suc j) = ?q + of_nat 4" by (simp add: algebra_simps)
  have blk: "in_block a ?q (4 * length (f # fs)) \<longleftrightarrow> in_block a ?q 4 \<or> in_block a (argv + of_nat (4 * Suc j)) (4 * length fs)" for a
    using in_block_split [of 4 "4 * length fs" a ?q] Cons.prems(3) unfolding q' by simp
  have split: "in_block a p (fields_size (f # fs))
      \<longleftrightarrow> in_block a p (Suc (length f)) \<or> in_block a ?p' (fields_size fs)" for a
    using in_block_split [of "Suc (length f)" "fields_size fs" a p] Cons.prems(2) by (simp add: algebra_simps)
  have same: "m1 a = m a" if "in_block a p (fields_size (f # fs))" for a
    using Cons.prems(4) [OF that] blk by (simp add: m1_def store32_outside not_in_block_4)
  have "fields_at m1 p (f # fs)"
    using fields_at_cong [of p "f # fs" m1 m] same Cons.prems(1,2) by blast
  then have at: "cstr m1 p f" "fields_at m1 ?p' fs" by simp_all
  have "\<exists>m'. fill_argv argv (map int [Suc j..<Suc j + length fs]) ?p' m1 = Some m'
    \<and> (\<forall>i < length fs. load32 m' (argv + of_nat (4 * (Suc j + i))) = field_addr ?p' fs i)
    \<and> (\<forall>a. \<not> in_block a (argv + of_nat (4 * Suc j)) (4 * length fs) \<longrightarrow> m' a = m1 a)"
    using at Cons.prems split blk by (intro Cons.IH) auto
  then obtain m' where m': "fill_argv argv (map int [Suc j..<Suc j + length fs]) ?p' m1 = Some m'"
    "\<And>i. i < length fs \<Longrightarrow> load32 m' (argv + of_nat (4 * (Suc j + i))) = field_addr ?p' fs i"
    "\<And>a. \<not> in_block a (argv + of_nat (4 * Suc j)) (4 * length fs) \<Longrightarrow> m' a = m1 a" by blast
  have cons: "map int [j..<j + length (f # fs)] = int j # map int [Suc j..<Suc j + length fs]"
    using upt_conv_Cons [of j "j + length (f # fs)"] by simp
  have addr: "argv + 4 * of_int (int j) = ?q" by simp
  have run: "fill_argv argv (map int [j..<j + length (f # fs)]) p m = Some m'"
    unfolding cons fill_argv.simps addr Let_def m1_def [symmetric] strlen_cstr [OF at(1)]
    using m'(1) by (simp add: algebra_simps)
  have "load32 m' ?q = load32 m1 ?q"
  proof (rule load32_cong)
    fix i :: u32 assume "i < 4"
    then have "in_block (?q + i) ?q 4" by (intro in_block_offset) (simp add: word_less_nat_alt)
    then have "\<not> in_block (?q + i) (argv + of_nat (4 * Suc j)) (4 * length fs)"
      using in_block_split_excl [of 4 "4 * length fs" "?q + i" ?q] Cons.prems(3) unfolding q' by simp
    then show "m' (?q + i) = m1 (?q + i)" by (rule m'(3))
  qed
  then have first: "load32 m' ?q = p" by (simp add: m1_def)
  have "load32 m' (argv + of_nat (4 * (j + i))) = field_addr p (f # fs) i" if "i < length (f # fs)" for i
  proof (cases i)
    case 0
    then show ?thesis using first by (simp add: field_addr_def)
  next
    case (Suc k)
    then have "load32 m' (argv + of_nat (4 * (Suc j + k))) = field_addr ?p' fs k" using m'(2) that by simp
    then show ?thesis using Suc by (simp add: field_addr_def algebra_simps)
  qed
  moreover have "m' a = m a" if "\<not> in_block a ?q (4 * length (f # fs))" for a
    using that m'(3) blk by (simp add: m1_def store32_outside not_in_block_4)
  ultimately show ?case using run by blast
qed simp

section \<open>Running a command line\<close>

text \<open>
  The words a line is split into: a comment is cut off, the first word is the first run of
  other characters than spaces, and each later one keeps the spaces in front of it but one.
\<close>

definition uncomment :: "cstring \<Rightarrow> cstring" where
  "uncomment line = takeWhile (\<lambda>c. c \<noteq> 35) line"

definition shell_args :: "cstring \<Rightarrow> cstring list" where
  "shell_args line = token_of [32] (uncomment line) # space_parts (after_token [32] (uncomment line))"

definition args_at :: "mem \<Rightarrow> u32 \<Rightarrow> cstring list \<Rightarrow> bool" where
  "args_at m argv args \<longleftrightarrow> (\<forall>i < length args. cstr m (load32 m (argv + of_nat (4 * i))) (args ! i))"

lemma payload_block:
  assumes h: "heap st bs" "b \<in> set bs" and blk: "\<And>a. in_block a p n \<Longrightarrow> payload b a" and n: "0 < n"
  shows "0 < unat p" "unat p + n < 4294967296"
proof -
  have e: "block_end b < 4294967296" using layout_ge [OF heap_D(4) [OF h(1)] h(2)] by simp
  have "payload b p" using blk n by simp
  then show p: "0 < unat p" using payload_iff [OF e] by simp
  show "unat p + n < 4294967296"
  proof (rule ccontr)
    assume c: "\<not> ?thesis"
    show False
    proof (cases "unat p + n = 4294967296")
      case True
      obtain k where k: "n = Suc k" using n by (cases n) auto
      have "payload b (p + of_nat k)" using True p k by (intro blk in_block_offset) (simp add: unat_of_nat_u32)
      then have "unat (p + of_nat k) < block_end b" using payload_iff [OF e] by simp
      moreover have "unat (p + of_nat k) = 4294967295" using True p k by (simp add: unat_add_u32 unat_of_nat_u32)
      ultimately show False using e by simp
    next
      case False
      have "in_block 0 p n" using c False p unat_lt_2p32 [of p] unfolding in_block_def unat_diff_u32
        by (simp del: unat_lt_2p32)
      then show False using blk [of 0] payload_iff [OF e] by simp
    qed
  qed
qed

lemma upto_int_upt: "[0..int n - 1] = map int [0..<n]"
  by (induction n) (simp_all add: upto_rec2)

text \<open>The split line: the first word at the token's address, the others behind it.\<close>

lemma split_line:
  assumes "cstr (mem_of st) p s" "cstr (mem_of st) space [32]" "0 < unat p" "unat p + length s < 4294967296"
    and tok: "token_of [32] s \<noteq> []" and dis: "\<And>a. in_block a p (Suc (length s)) \<Longrightarrow> \<not> in_block a space 2"
  obtains m sv token st1 where "strtok p space st = Some (token, st1)"
    "count_tokens space 1 st1 = Some (int (length (token_of [32] s # space_parts (after_token [32] s))),
       with_ram m (st\<lparr>tok_save := sv\<rparr>))"
    "fields_at m token (token_of [32] s # space_parts (after_token [32] s))"
    "\<forall>a. \<not> in_block a p (length s) \<longrightarrow> m a = mem_of st a"
    "\<forall>a. in_block a token (fields_size (token_of [32] s # space_parts (after_token [32] s)))
       \<longrightarrow> in_block a p (Suc (length s))"
proof -
  let ?pre = "takeWhile (\<lambda>c. c = 32) s" and ?tok = "token_of [32] s" and ?t = "after_token [32] s"
  have p0: "p \<noteq> 0" using assms(3) by auto
  obtain m sv token where t: "strtok p space st = Some (token, with_ram m (st\<lparr>tok_save := sv\<rparr>))" "token \<noteq> 0"
      "token = p + of_nat (length ?pre)" "cstr m p (?pre @ ?tok)" "cstr m sv ?t" "cstr m space [32]"
      "\<forall>a. \<not> in_block a p (length s) \<longrightarrow> m a = mem_of st a"
      "\<exists>j. sv = p + of_nat j \<and> j + length ?t \<le> length s \<and> (?t \<noteq> [] \<longrightarrow> j = Suc (length ?pre + length ?tok))"
    by (rule strtok_round [where str = p and st = st and r = s and space = space, unfolded if_P [OF p0],
          OF assms(1-4) tok dis]) blast
  then obtain j where j: "sv = p + of_nat j" "j + length ?t \<le> length s"
      "?t \<noteq> [] \<longrightarrow> j = Suc (length ?pre + length ?tok)" by blast
  let ?st1 = "with_ram m (st\<lparr>tok_save := sv\<rparr>)"
  have usv: "unat sv = unat p + j" using offset_nonzero [OF assms(3), of j] assms(4) j by simp
  have "\<exists>m' sv'. count_tokens space 1 ?st1 = Some (1 + int (length (space_parts ?t)), with_ram m' (?st1\<lparr>tok_save := sv'\<rparr>))
      \<and> fields_at m' (tok_save ?st1) (space_parts ?t)
      \<and> (\<forall>a. \<not> in_block a (tok_save ?st1) (length ?t) \<longrightarrow> m' a = mem_of ?st1 a)"
  proof (rule count_tokens_fields)
    show "\<not> in_block a space 2" if "in_block a (tok_save ?st1) (Suc (length ?t))" for a
      using in_block_sub [of a p j "Suc (length ?t)" "Suc (length s)"] that j assms(4) dis by simp
  qed (use t usv assms(3,4) j(2) in simp_all)
  then obtain m' sv' where c: "count_tokens space 1 ?st1 = Some (1 + int (length (space_parts ?t)), with_ram m' (st\<lparr>tok_save := sv'\<rparr>))"
      "fields_at m' sv (space_parts ?t)" "\<forall>a. \<not> in_block a sv (length ?t) \<longrightarrow> m' a = m a" by auto
  have "fields_at m' p ((?pre @ ?tok) # space_parts ?t)"
    by (rule field_then_rest [OF t(4) j(1)]) (use j c(2,3) assms(4) in auto)
  then have "cstr m' p (?pre @ ?tok)" "fields_at m' (token + of_nat (length ?tok) + 1) (space_parts ?t)"
    using t(3) by (simp_all add: algebra_simps)
  then have f: "fields_at m' token (?tok # space_parts ?t)" using t(3) cstr_drop by simp
  have frame: "\<forall>a. \<not> in_block a p (length s) \<longrightarrow> m' a = mem_of st a"
  proof (intro allI impI)
    fix a assume a: "\<not> in_block a p (length s)"
    then have "\<not> in_block a sv (length ?t)"
      using in_block_sub [of a p j "length ?t" "length s"] j assms(4) by auto
    then show "m' a = mem_of st a" using a c(3) t(7) by simp
  qed
  have size: "length ?pre + fields_size (?tok # space_parts ?t) \<le> Suc (length s)"
  proof (cases "?t = []")
    case True
    have "space_parts [] = []" by (subst space_parts.simps) (simp add: token_of_def)
    then show ?thesis using True after_token_length [OF tok] by simp
  next
    case False
    then show ?thesis using j fields_size_space_parts [of ?t] by simp
  qed
  have "\<forall>a. in_block a token (fields_size (?tok # space_parts ?t)) \<longrightarrow> in_block a p (Suc (length s))"
    using in_block_sub [OF _ size] assms(4) t(3) by simp
  then show ?thesis using that [OF t(1) _ f frame] c(1) by simp
qed

text \<open>The state in which the command runs: the heap with the array, and what is as before.\<close>

definition ready :: "alloc_state \<Rightarrow> block list \<Rightarrow> block \<Rightarrow> mem \<Rightarrow> u32 \<Rightarrow> u32 \<Rightarrow> cstring list \<Rightarrow> block list \<Rightarrow> bool" where
  "ready h bs b m argv token args bs' \<longleftrightarrow> heap (h\<lparr>ram := m\<rparr>) bs' \<and> args_at m argv args
     \<and> load32 m argv = token \<and> cstr m token (hd args)
     \<and> (\<exists>q \<in> set bs'. at q + 24 = argv \<and> \<not> bfree q \<and> bflags q = 0 \<and> q \<notin> {c \<in> set bs. \<not> bfree c})
     \<and> (\<forall>c \<in> set bs. \<not> bfree c \<longrightarrow> c \<in> set bs')
     \<and> (\<forall>c \<in> set bs. \<not> bfree c \<and> c \<noteq> b \<longrightarrow> (\<forall>a. payload c a \<longrightarrow> m a = ram h a))"

text \<open>A line in a live block of the heap with room for the array of its words.\<close>

definition line_ready :: "('i, 'x) sh \<Rightarrow> block list \<Rightarrow> block \<Rightarrow> u32 \<Rightarrow> u32 \<Rightarrow> cstring \<Rightarrow> bool" where
  "line_ready st bs b space cmdbuf line \<longleftrightarrow> heap (hp st) bs \<and> b \<in> set bs \<and> \<not> bfree b
     \<and> cstr (mem_of st) cmdbuf line \<and> (\<forall>a. in_block a cmdbuf (Suc (length line)) \<longrightarrow> payload b a)
     \<and> cstr (mem_of st) space [32] \<and> (\<forall>a. in_block a space 2 \<longrightarrow> \<not> payload b a)
     \<and> token_of [32] (uncomment line) \<noteq> [] \<and> 4 * length (shell_args line) < 4294967296
     \<and> heap_request (hp st) (of_nat (4 * length (shell_args line)))
     \<and> room (hp st) bs (aligned_size (of_nat (4 * length (shell_args line))))"

lemma process_command_runs:
  assumes ready: "line_ready st bs b space cmdbuf line"
  obtains m sv argv token bs' where
    "process_command_string cmds external space cmdbuf st
      = call_command cmds external cmdbuf token (int (length (shell_args line))) argv (with_ram m (st\<lparr>tok_save := sv\<rparr>))"
    "ready (hp st) bs b m argv token (shell_args line) bs'"
    "argv = fst (alloc_blocks (aligned_size (of_nat (4 * length (shell_args line)))) bs)"
proof -
  have h: "heap (hp st) bs" and b: "b \<in> set bs" "\<not> bfree b"
    and line: "cstr (mem_of st) cmdbuf line" "\<And>a. in_block a cmdbuf (Suc (length line)) \<Longrightarrow> payload b a"
    and sp: "cstr (mem_of st) space [32]" "\<And>a. in_block a space 2 \<Longrightarrow> \<not> payload b a"
    and tok: "token_of [32] (uncomment line) \<noteq> []" and n: "4 * length (shell_args line) < 4294967296"
    and req: "heap_request (hp st) (of_nat (4 * length (shell_args line)))"
      "room (hp st) bs (aligned_size (of_nat (4 * length (shell_args line))))"
    using ready unfolding line_ready_def by blast+
  let ?s = "uncomment line" and ?args = "shell_args line"
  let ?N = "of_nat (4 * length ?args) :: u32"
  have blk: "0 < unat cmdbuf" "unat cmdbuf + Suc (length line) < 4294967296"
    using payload_block [OF h b(1), of cmdbuf "Suc (length line)"] line(2) by simp_all
  define m1 where "m1 = strip_comment (mem_of st) cmdbuf (of_nat (length line)) 0"
  have m1: "m1 = (if length ?s < length line then (mem_of st)(cmdbuf + of_nat (length ?s) := 0) else mem_of st)"
    using strip_comment_eq [OF line(1), of 0] by (simp add: m1_def uncomment_def Let_def)
  have len: "length ?s \<le> length line" by (simp add: uncomment_def length_takeWhile_le)
  have s1: "cstr m1 cmdbuf ?s"
  proof (cases "length ?s < length line")
    case True
    then obtain c where "line = ?s @ c # drop (Suc (length ?s)) line"
      using takeWhile_split [of "\<lambda>c. c \<noteq> 35" line] by (auto simp: uncomment_def)
    then have "cstr (mem_of st) cmdbuf (?s @ c # drop (Suc (length ?s)) line)" using line(1) by simp
    from cstr_prefix(1) [OF this] show ?thesis using m1 True by simp
  next
    case False
    then have "?s = line" unfolding uncomment_def using takeWhile_eq_take [of "\<lambda>c. c \<noteq> 35" line] len
      by (metis le_neq_implies_less take_all uncomment_def order_refl)
    then show ?thesis using m1 False line(1) by simp
  qed
  have in_s: "in_block a cmdbuf (Suc (length line))" if "in_block a cmdbuf (Suc (length ?s))" for a
    using in_block_mono [OF that] len by simp
  have m1_frame: "m1 a = mem_of st a" if "\<not> in_block a cmdbuf (Suc (length line))" for a
    using that in_s in_block_offset [of "of_nat (length ?s)" "Suc (length ?s)" cmdbuf] m1
      le_less_trans [OF unat_word_of_nat_le, of "length ?s" "Suc (length ?s)"] by auto
  have dis: "\<not> in_block a space 2" if "in_block a cmdbuf (Suc (length line))" for a
    using line(2) [OF that] sp(2) by blast
  have sp1: "cstr m1 space [32]"
  proof -
    have "cstr m1 space [32] = cstr (mem_of st) space [32]"
    proof (rule cstr_block_cong)
      fix a assume "in_block a space (Suc (length [32 :: u8]))"
      then have "\<not> in_block a cmdbuf (Suc (length line))" using dis by (auto simp: numeral_2_eq_2)
      then show "m1 a = mem_of st a" by (rule m1_frame)
    qed
    then show ?thesis using sp(1) by simp
  qed
  have ne: "m1 cmdbuf \<noteq> 0" using s1 tok by (cases ?s) (auto simp: token_of_def)
  let ?st = "with_ram m1 st"
  obtain m sv token st1 where t: "strtok cmdbuf space ?st = Some (token, st1)"
    "count_tokens space 1 st1 = Some (int (length ?args), with_ram m (?st\<lparr>tok_save := sv\<rparr>))"
    "fields_at m token ?args" "\<forall>a. \<not> in_block a cmdbuf (length ?s) \<longrightarrow> m a = mem_of ?st a"
    "\<forall>a. in_block a token (fields_size ?args) \<longrightarrow> in_block a cmdbuf (Suc (length ?s))"
  proof (rule split_line [where st = ?st and p = cmdbuf and s = ?s and space = space, folded shell_args_def])
    show "cstr (mem_of ?st) cmdbuf ?s" "cstr (mem_of ?st) space [32]" using s1 sp1 by simp_all
    show "unat cmdbuf + length ?s < 4294967296" using blk(2) len by simp
    show "\<not> in_block a space 2" if "in_block a cmdbuf (Suc (length ?s))" for a using that in_s dis by blast
  qed (use blk(1) tok in blast)+
  have m_frame: "m a = ram (hp st) a \<or> payload b a" for a
  proof (cases "in_block a cmdbuf (Suc (length line))")
    case False
    then have "\<not> in_block a cmdbuf (length ?s)"
      using in_s [of a] in_block_mono [of a cmdbuf "length ?s" "Suc (length ?s)"] by auto
    then have "m a = m1 a" using t(4) by simp
    then show ?thesis using m1_frame [OF False] by (simp add: mem_of_def)
  qed (use line(2) in blast)
  have h2: "heap ((hp st)\<lparr>ram := m\<rparr>) bs" using heap_payload_write [OF h, of m] m_frame b(1) by blast
  have req2: "heap_request ((hp st)\<lparr>ram := m\<rparr>) ?N" "room ((hp st)\<lparr>ram := m\<rparr>) bs (aligned_size ?N)"
    using req by (simp_all add: heap_request_def below_top_def room_def del: of_nat_mult)
  define argv where "argv = fst (alloc_blocks (aligned_size ?N) bs)"
  obtain m3 q bs' where k: "kalloc ((hp st)\<lparr>ram := m\<rparr>) ?N = Some (Inr (argv, (hp st)\<lparr>ram := m3\<rparr>))"
    and h3: "heap ((hp st)\<lparr>ram := m3\<rparr>) bs'" and pay: "\<And>c a. c \<in> set bs \<Longrightarrow> payload c a \<Longrightarrow> m3 a = m a"
    and q: "q \<in> set bs'" "at q + 24 = argv" "\<not> bfree q" "unat ?N \<le> unat (bsize q)" "bflags q = 0"
    and live: "\<And>c. c \<in> set bs \<Longrightarrow> \<not> bfree c \<Longrightarrow> c \<in> set bs' \<and> c \<noteq> q"
    by (rule kalloc_block [OF h2 req2]) (auto simp: argv_def simp del: of_nat_mult)
  have Nq: "4 * length ?args \<le> unat (bsize q)"
  proof -
    have "unat ?N = 4 * length ?args" using n by (intro unat_of_nat_u32)
    then show ?thesis using q(4) by simp
  qed
  have inq: "payload q a" if "in_block a argv (4 * length ?args)" for a
    using in_block_mono [OF that Nq] q(2) by (simp add: payload_def)
  have qb: "\<not> payload c a" if "payload q a" "c \<in> set bs" "\<not> bfree c" for c a
    using payload_disjoint [OF h3 q(1) _ _ that(1)] live [OF that(2,3)] by blast
  have tokb: "payload b a" if "in_block a token (fields_size ?args)" for a
    using t(5) that in_s line(2) by blast
  have fsz: "fields_size ?args \<le> 4294967296"
  proof -
    have "fields_size ?args \<le> Suc (length ?s) + 1"
      using fields_size_space_parts [of "after_token [32] ?s"] after_token_length [OF tok]
      by (simp add: shell_args_def)
    then show ?thesis using blk(2) len by simp
  qed
  have f3: "fields_at m3 token ?args"
    using fields_at_cong [of token ?args m3 m] tokb pay b(1) fsz t(3) by blast
  have "\<exists>m'. fill_argv argv (map int [0..<0 + length ?args]) token m3 = Some m'
    \<and> (\<forall>i < length ?args. load32 m' (argv + of_nat (4 * (0 + i))) = field_addr token ?args i)
    \<and> (\<forall>a. \<not> in_block a (argv + of_nat (4 * 0)) (4 * length ?args) \<longrightarrow> m' a = m3 a)"
    by (rule fill_argv_fields [OF f3 fsz n]) (use tokb inq qb b in auto)
  then obtain m4 where m4: "fill_argv argv (map int [0..<length ?args]) token m3 = Some m4"
    "\<And>i. i < length ?args \<Longrightarrow> load32 m4 (argv + of_nat (4 * i)) = field_addr token ?args i"
    "\<And>a. \<not> in_block a argv (4 * length ?args) \<Longrightarrow> m4 a = m3 a" by auto
  have f4: "fields_at m4 token ?args"
    using fields_at_cong [of token ?args m4 m3] m4(3) tokb inq qb b fsz f3 by blast
  have h4: "heap ((hp st)\<lparr>ram := m4\<rparr>) bs'"
    using heap_payload_write [OF h3, of m4] m4(3) inq q(1) by auto
  have pos: "0 < length ?args" by (simp add: shell_args_def)
  have "ready (hp st) bs b m4 argv token ?args bs'"
    unfolding ready_def
  proof (intro conjI ballI impI allI)
    show "args_at m4 argv ?args" using fields_at_nth [OF f4] m4(2) by (simp add: args_at_def)
    show "load32 m4 argv = token" using m4(2) [of 0] pos by (simp add: field_addr_def)
    show "cstr m4 token (hd ?args)" using f4 by (simp add: shell_args_def)
    show "\<exists>q \<in> set bs'. at q + 24 = argv \<and> \<not> bfree q \<and> bflags q = 0 \<and> q \<notin> {c \<in> set bs. \<not> bfree c}" using q live by auto
    show "c \<in> set bs'" if "c \<in> set bs" "\<not> bfree c" for c using live that by blast
    show "m4 a = ram (hp st) a" if c: "c \<in> set bs" "\<not> bfree c \<and> c \<noteq> b" and a: "payload c a" for c a
    proof -
      have "\<not> payload b a" using payload_disjoint [OF h c(1) b(1) _ a] c(2) by blast
      moreover have "m4 a = m3 a" using m4(3) inq qb [OF _ c(1)] c(2) a by blast
      ultimately show ?thesis using pay c(1) a m_frame [of a] by auto
    qed
  qed (rule h4)
  moreover have "process_command_string cmds external space cmdbuf st
      = call_command cmds external cmdbuf token (int (length ?args)) argv (with_ram m4 (st\<lparr>tok_save := sv\<rparr>))"
  proof -
    let ?st3 = "(with_ram m (?st\<lparr>tok_save := sv\<rparr>))\<lparr>hp := (hp st)\<lparr>ram := m3\<rparr>\<rparr>"
    have a: "sh_kalloc (4 * of_int (int (length ?args))) (with_ram m (?st\<lparr>tok_save := sv\<rparr>)) = Some (Inr (argv, ?st3))"
      using k by (simp add: sh_kalloc_def)
    have b: "fill_argv argv [0..int (length ?args) - 1] token (mem_of ?st3) = Some m4"
      using m4(1) by (simp add: mem_of_def upto_int_upt)
    have c: "with_ram m4 ?st3 = with_ram m4 (st\<lparr>tok_save := sv\<rparr>)" by (simp add: with_ram_def)
    show ?thesis
      unfolding process_command_string_def strlen_cstr [OF line(1)] Option.bind.bind_lunit m1_def [symmetric] Let_def
        t(1,2) prod.case mem_of_with_ram if_not_P [OF ne] a b c run_bind_simps ..
  qed
  ultimately show ?thesis using that argv_def by blast
qed

section \<open>The echo command\<close>

lemma print_text:
  "format_text str fmt va = Inr t \<Longrightarrow> print str fmt va st = Inr (st\<lparr>sio := fold putc (filter (\<lambda>c. c \<noteq> 0) t) (sio st)\<rparr>)"
  by (simp add: print_def printf_def vsnprintf_core_def Let_def out_all_char out_char_def)

lemma print_word:
  assumes w: "cstr (mem_of st) p w" and that: "c \<noteq> 37" "c \<noteq> 0"
  shows "print_mem [37, 115, c] [p] st = Some (Inr (st\<lparr>sio := fold putc (w @ [c]) (sio st)\<rparr>))"
proof -
  have "0 \<notin> set w" using cstr_ok [OF w] by (simp add: cstring_ok_def)
  then have "filter (\<lambda>c. c \<noteq> 0) (w @ [c]) = w @ [c]" using that by (auto intro: filter_True)
  moreover have "format_text (mem_str (mem_of st)) [37, 115, c] [p] = Inr (w @ [c])"
    using that by (simp add: format_percent_s format_char format_end mem_str_cstr [OF w])
  ultimately show ?thesis using that by (simp add: print_mem_def print_text)
qed

lemma lit_formats [simp]: "lit ''%s '' = [37, 115, 32]" "lit ''%s'' = [37, 115]"
  by (simp_all add: lit_def)

lemma sio_fields [simp]:
  "mem_of (st\<lparr>sio := x\<rparr>) = mem_of st" "argv_at (st\<lparr>sio := x\<rparr>) = argv_at st" "hp (st\<lparr>sio := x\<rparr>) = hp st"
  by (auto simp: mem_of_def argv_at_def fun_eq_iff)

lemma argv_at_nat: "argv_at st argv (int i) = load32 (mem_of st) (argv + of_nat (4 * i))"
  by (simp add: argv_at_def)

text \<open>What \<open>echo\<close> prints for its words, the first of which is its own name.\<close>

definition echo_text :: "cstring list \<Rightarrow> cstring" where
  "echo_text args = concat (map (\<lambda>w. w @ [32]) (butlast (tl args))) @ last args @ [10]"

lemma echo_words:
  assumes "args_at (mem_of st) argv args" "j + n \<le> length args"
  shows "run_each (\<lambda>i st. print_mem (lit ''%s '') [argv_at st argv i] st) (map int [j..<j + n]) st
    = Some (Inr (st\<lparr>sio := fold putc (concat (map (\<lambda>w. w @ [32]) (take n (drop j args)))) (sio st)\<rparr>))"
  using assms
proof (induction n arbitrary: j st)
  case (Suc n)
  have j: "j < length args" using Suc.prems(2) by simp
  have "cstr (mem_of st) (argv_at st argv (int j)) (args ! j)" using Suc.prems(1) j by (simp add: args_at_def argv_at_nat)
  note p = print_word [OF this, of 32, simplified]
  let ?st = "st\<lparr>sio := fold putc (args ! j @ [32]) (sio st)\<rparr>"
  have ih: "run_each (\<lambda>i st. print_mem (lit ''%s '') [argv_at st argv i] st) (map int [Suc j..<Suc j + n]) ?st
    = Some (Inr (?st\<lparr>sio := fold putc (concat (map (\<lambda>w. w @ [32]) (take n (drop (Suc j) args)))) (sio ?st)\<rparr>))"
    by (rule Suc.IH) (use Suc.prems in auto)
  have "map int [j..<j + Suc n] = int j # map int [Suc j..<Suc j + n]" using upt_conv_Cons [of j "j + Suc n"] by simp
  moreover have "take (Suc n) (drop j args) = args ! j # take n (drop (Suc j) args)" using Cons_nth_drop_Suc [OF j] by (metis take_Suc_Cons)
  ultimately show ?case using p ih by simp
qed simp

lemma echo_prints:
  assumes "args_at (mem_of st) argv args" "args \<noteq> []"
  shows "echo (int (length args)) argv st = Some (Inr (st\<lparr>sio := fold putc (echo_text args) (sio st)\<rparr>))"
proof -
  let ?n = "length args - 2"
  have idx: "[1..int (length args) - 2] = map int [1..<1 + ?n]"
  proof (cases "length args")
    case (Suc k)
    have "[1..int k - 1] = map int [1..<k]" by (induction k) (auto simp: upto_rec2)
    then show ?thesis using Suc by (cases k) simp_all
  qed (use assms(2) in simp)
  have "take ?n (drop 1 args) = butlast (tl args)" by (simp add: drop_Suc butlast_conv_take numeral_2_eq_2)
  with echo_words [OF assms(1), of 1 ?n] assms(2)
  have w: "run_each (\<lambda>i st. print_mem (lit ''%s '') [argv_at st argv i] st) [1..int (length args) - 2] st
    = Some (Inr (st\<lparr>sio := fold putc (concat (map (\<lambda>w. w @ [32]) (butlast (tl args)))) (sio st)\<rparr>))"
    unfolding idx by (cases args) auto
  have l: "int (length args) - 1 = int (length args - 1)" using assms(2) by (cases args) simp_all
  let ?st = "st\<lparr>sio := fold putc (concat (map (\<lambda>w. w @ [32]) (butlast (tl args)))) (sio st)\<rparr>"
  have "cstr (mem_of ?st) (argv_at ?st argv (int (length args - 1))) (args ! (length args - 1))"
    using assms by (simp only: args_at_def argv_at_nat sio_fields) simp
  note p = print_word [OF this, of 10, folded last_conv_nth [OF assms(2)], simplified]
  show ?thesis unfolding echo_def w run_bind_simps l using p by (simp add: echo_text_def)
qed

lemma kfree_ready:
  assumes "ready h bs b m argv token args bs'" "argv \<le> mem_start h + mem_size h" "hp st = h\<lparr>ram := m\<rparr>"
  shows "\<exists>m' q. sh_kfree argv st = Inr (st\<lparr>hp := h\<lparr>ram := m'\<rparr>\<rparr>) \<and> heap (h\<lparr>ram := m'\<rparr>) (upd_block q mark_free bs')
    \<and> (\<forall>c \<in> set bs. \<not> bfree c \<and> c \<noteq> b \<longrightarrow> (\<forall>a. payload c a \<longrightarrow> m' a = ram h a))"
proof -
  from assms(1) obtain q where q: "q \<in> set bs'" "at q + 24 = argv" "\<not> bfree q" "bflags q = 0"
    and h: "heap (h\<lparr>ram := m\<rparr>) bs'" and live: "\<forall>c \<in> set bs. \<not> bfree c \<longrightarrow> c \<in> set bs'"
    and same: "\<forall>c \<in> set bs. \<not> bfree c \<and> c \<noteq> b \<longrightarrow> (\<forall>a. payload c a \<longrightarrow> m a = ram h a)"
    unfolding ready_def by blast
  have top: "at q + 24 \<le> mem_start (h\<lparr>ram := m\<rparr>) + mem_size (h\<lparr>ram := m\<rparr>)" using assms(2) q(2) by simp
  obtain m' where m': "kfree (h\<lparr>ram := m\<rparr>) (at q + 24) = Inr (h\<lparr>ram := m\<rparr>\<lparr>ram := m'\<rparr>)"
    "heap (h\<lparr>ram := m\<rparr>\<lparr>ram := m'\<rparr>) (upd_block (at q) mark_free bs')"
    "\<And>c a. c \<in> set bs' \<Longrightarrow> payload c a \<Longrightarrow> m' a = ram (h\<lparr>ram := m\<rparr>) a"
    by (rule kfree_block [OF h q(1,3,4) top]) blast
  then show ?thesis
    by (intro exI [of _ m'] exI [of _ "at q"]) (use q(2) assms(3) same live in \<open>auto simp: sh_kfree_def\<close>)
qed

lemma commands_names: "\<forall>(cname, _) \<in> set (commands others). cstring_ok cname"
  by (simp add: commands_def lit_def cstring_ok_def)

lemma commands_echo: "map_of (commands others) (lit ''echo'') = Some echo"
  by (simp add: commands_def lit_def)

section \<open>The properties\<close>


text \<open>A shell with one block for the line, at 0x1030, and the literal \<open>" "\<close> at 0x10.\<close>

definition shell_heap :: "cstring \<Rightarrow> alloc_state" where
  "shell_heap line = heap1 ((\<lambda>_. 0)(0x10 := 32)) (line @ [0])"

definition shell0 :: "cstring \<Rightarrow> (nat, nat) sh" where
  "shell0 line = \<lparr>hp = shell_heap line, tok_save = 0, sio = \<lparr>stdin_dev = 0, stdout_text = Some [], dbgout_text = None,
     should_echo = 1, log_level = 5\<rparr>, root_env = env_init, conf = config0, ticks = 0, cwd = [], world = 0\<rparr>"

lemma cstr_written:
  assumes "cstring_ok s" "length s < 4294967295"
  shows "cstr (write_bytes m p (s @ [0])) p s"
proof -
  have "write_bytes m p (s @ [0]) (p + of_nat i) = (s @ [0]) ! i" if "i \<le> length s" for i
    using that assms(2) by (simp add: write_bytes_def in_block_def unat_of_nat_u32)
  then show ?thesis using assms(1) by (simp add: cstr_iff nth_append)
qed

lemma shell_heap_ok: "length line < 127 \<Longrightarrow> heap (shell_heap line) [root0, new_block 0x1018 128]"
  unfolding shell_heap_def by (rule heap1_ok) (simp_all add: load32_def)

lemma shell_heap_space:
  assumes "length line < 127"
  shows "cstr (ram (shell_heap line)) 0x10 [32]"
proof -
  have "\<not> in_block a 0x1030 (length (line @ [0]))" if "a = 0x10 \<or> a = 0x11" for a
    using that assms by (auto simp: in_block_def unat_diff_u32)
  then show ?thesis
    by (simp add: shell_heap_def heap1_def Let_def write_bytes_outside append_block_def init_alloc_def store32_outside)
qed

lemma shell0_ready:
  assumes "length line < 127" "cstring_ok line" "token_of [32] (uncomment line) \<noteq> []" "length (shell_args line) = n"
    "0 < n" "n \<le> 16"
  shows "line_ready (shell0 line) [root0, new_block 0x1018 128] (new_block 0x1018 128) 0x10 0x1030 line"
proof -
  let ?b = "new_block 0x1018 128"
  have hp: "hp (shell0 line) = shell_heap line" "mem_of (shell0 line) = ram (shell_heap line)"
    by (simp_all add: shell0_def mem_of_def)
  have pay: "payload ?b a \<longleftrightarrow> in_block a 0x1030 128" for a by (simp add: payload_def new_block_def)
  have "cstr (ram (shell_heap line)) 0x1030 line"
    using cstr_written [OF assms(2), of _ "0x1030"] assms(1) by (simp add: shell_heap_def heap1_def Let_def)
  moreover have "payload ?b a" if "in_block a 0x1030 (Suc (length line))" for a
    using that assms(1) in_block_mono [of a "0x1030" "Suc (length line)" 128] by (simp add: pay)
  moreover have "\<not> payload ?b a" if "in_block a 0x10 2" for a
  proof -
    have "a = 0x10 \<or> a = 0x11" using that in_block_Suc [of 1 a "0x10"] by (simp add: numeral_2_eq_2)
    then show ?thesis by (auto simp: pay in_block_def unat_diff_u32)
  qed
  moreover have "heap_request (shell_heap line) (of_nat (4 * n)) \<and> room (shell_heap line) [root0, ?b] (aligned_size (of_nat (4 * n)))"
  proof -
    have u: "unat (of_nat (4 * n) :: u32) = 4 * n" using assms(6) by (intro unat_of_nat_u32) simp
    have "(4 * n + 63) div 64 = 1" using assms(5,6) by (intro div_nat_eqI) simp_all
    then have "unat (aligned_size (of_nat (4 * n))) = unat (64 :: u32)" by (simp only: unat_aligned_size u) simp
    then have "aligned_size (of_nat (4 * n)) = 64" by (simp only: word_unat_eq_iff)
    then show ?thesis
      by (simp add: heap_request_def below_top_def room_def shell_heap_def heap1_def Let_def init_alloc_def end_of_def new_block_def
          del: of_nat_mult)
  qed
  ultimately show ?thesis
    using shell_heap_ok [OF assms(1)] shell_heap_space [OF assms(1)] assms
    unfolding line_ready_def hp assms(4) by (simp add: new_block_def)
qed

definition hi_line :: cstring where
  "hi_line = lit ''echo hi  there #x''"

lemma hi_line_args: "shell_args hi_line = [lit ''echo'', lit ''hi'', lit '' there'']"
  by (simp add: hi_line_def lit_def shell_args_def uncomment_def token_of_def after_token_def space_parts.simps)

lemma hi_line_ready:
  "line_ready (shell0 hi_line) [root0, new_block 0x1018 128] (new_block 0x1018 128) 0x10 0x1030 hi_line"
proof (rule shell0_ready)
  show "length hi_line < 127" "cstring_ok hi_line" by (simp_all add: hi_line_def lit_def)
  show "length (shell_args hi_line) = 3" by (simp add: hi_line_args)
  show "token_of [32] (uncomment hi_line) \<noteq> []" by (simp add: hi_line_def lit_def uncomment_def token_of_def)
qed simp_all


lemma echo_line_ends:
  assumes "line_ready st bs b space cmdbuf line" "hd (shell_args line) = lit ''echo''"
    and "fst (alloc_blocks (aligned_size (of_nat (4 * length (shell_args line)))) bs) \<le> mem_start (hp st) + mem_size (hp st)"
  shows "\<exists>st' bs'. process_command_string (commands others) external space cmdbuf st = Some (Inr st')
    \<and> sio st' = fold putc (echo_text (shell_args line)) (sio st) \<and> heap (hp st') bs'
    \<and> (\<forall>c \<in> set bs. \<not> bfree c \<and> c \<noteq> b \<longrightarrow> (\<forall>a. payload c a \<longrightarrow> mem_of st' a = mem_of st a))"
proof -
  obtain m sv argv token bs' where r: "process_command_string (commands others) external space cmdbuf st
      = call_command (commands others) external cmdbuf token (int (length (shell_args line))) argv (with_ram m (st\<lparr>tok_save := sv\<rparr>))"
    "ready (hp st) bs b m argv token (shell_args line) bs'"
    and argv: "argv = fst (alloc_blocks (aligned_size (of_nat (4 * length (shell_args line)))) bs)"
    by (rule process_command_runs [OF assms(1)]) blast
  let ?st = "with_ram m (st\<lparr>tok_save := sv\<rparr>)" and ?argc = "int (length (shell_args line))"
  let ?st2 = "?st\<lparr>sio := fold putc (echo_text (shell_args line)) (sio ?st)\<rparr>"
  have e: "echo ?argc argv ?st = Some (Inr ?st2)"
    using r(2) by (intro echo_prints) (simp_all add: ready_def shell_args_def)
  have "cstr (mem_of ?st) token (hd (shell_args line))" using r(2) by (simp add: ready_def)
  note i = invoke_internal_eq [OF this commands_names [of others], where argc = ?argc and argv = argv, unfolded assms(2) commands_echo option.case e]
  have "hp ?st2 = (hp st)\<lparr>ram := m\<rparr>" by simp
  then obtain m' q where f: "sh_kfree argv ?st2 = Inr (?st2\<lparr>hp := (hp st)\<lparr>ram := m'\<rparr>\<rparr>)"
    "heap ((hp st)\<lparr>ram := m'\<rparr>) (upd_block q mark_free bs')"
    "\<forall>c \<in> set bs. \<not> bfree c \<and> c \<noteq> b \<longrightarrow> (\<forall>a. payload c a \<longrightarrow> m' a = ram (hp st) a)"
    using kfree_ready [OF r(2), of ?st2] assms(3) argv by auto
  show ?thesis
    by (intro exI [of _ "?st2\<lparr>hp := (hp st)\<lparr>ram := m'\<rparr>\<rparr>"] exI [of _ "upd_block q mark_free bs'"])
      (use f i in \<open>simp add: r(1) call_command_def mem_of_def\<close>)
qed

text \<open>
  The \<open>echo\<close> command, from the bytes of the line to the text: running any line whose first
  word is \<open>echo\<close> ends, prints the other words with a space between them and a newline, leaves the
  heap well-formed and every other live block as it was. This needs the array of words, which is
  freed, to begin inside the heap.
\<close>

theorem echo_line:
  assumes "line_ready st bs b space cmdbuf line" "hd (shell_args line) = lit ''echo''"
    and "fst (alloc_blocks (aligned_size (of_nat (4 * length (shell_args line)))) bs) \<le> mem_start (hp st) + mem_size (hp st)"
  shows "\<exists>st' bs'. process_command_string (commands others) external space cmdbuf st = Some (Inr st')
    \<and> sio st' = fold putc (echo_text (shell_args line)) (sio st) \<and> heap (hp st') bs'
    \<and> (\<forall>c \<in> set bs. \<not> bfree c \<and> c \<noteq> b \<longrightarrow> (\<forall>a. payload c a \<longrightarrow> mem_of st' a = mem_of st a))"
  by (rule echo_line_ends [OF assms])

lemma echo_line_witness:
  "\<exists>st'. process_command_string (commands (\<lambda>_ _ _ _. None)) (\<lambda>_ _ _ _. None) 0x10 0x1030 (shell0 hi_line) = Some (Inr st')
    \<and> stdout_text (sio st') = Some (lit ''hi  there'' @ [10])"
proof -
  have "fst (alloc_blocks (aligned_size 12) [root0, new_block 0x1018 128]) \<le> mem_start (hp (shell0 hi_line)) + mem_size (hp (shell0 hi_line))"
    by (simp add: alloc_blocks_def first_fit_def fits_def new_block_def end_of_def aligned_size_def shell0_def root0_def
        shell_heap_def heap1_def Let_def init_alloc_def)
  then obtain st' where "process_command_string (commands (\<lambda>_ _ _ _. None)) (\<lambda>_ _ _ _. None) 0x10 0x1030 (shell0 hi_line) = Some (Inr st')"
    "sio st' = fold putc (echo_text (shell_args hi_line)) (sio (shell0 hi_line))"
    using echo_line [OF hi_line_ready, of "\<lambda>_ _ _ _. None" "\<lambda>_ _ _ _. None"] by (auto simp: hi_line_args)
  moreover have "echo_text (shell_args hi_line) = lit ''hi  there'' @ [10]" by (simp add: hi_line_args echo_text_def lit_def)
  ultimately show ?thesis by (simp add: shell0_def)
qed

end
