(* ===== verification/Cpuid.thy ===== *)
theory Cpuid
  imports Shell Bdrive
begin

text \<open>
  The processor's identification (\<open>kern/sys/cpuid.c\<close>) and the command that prints it. The instruction
  is a parameter, from the values of \<open>eax\<close> and \<open>ecx\<close> to those of \<open>eax\<close>, \<open>ebx\<close>, \<open>ecx\<close> and \<open>edx\<close>.
\<close>

unbundle bit_operations_syntax

section \<open>The code\<close>

type_synonym cpu = "u32 \<Rightarrow> u32 \<Rightarrow> u32 \<times> u32 \<times> u32 \<times> u32"

definition cpuid_features :: "cstring list" where
  "cpuid_features = map lit [''fpu'', ''vme'', ''de'', ''pse'', ''tsc'', ''msr'', ''pae'', ''mce'', ''cx8'', ''apic'', ''!res!'',
     ''sep'', ''mtrr'', ''pge'', ''mca'', ''cmov'', ''pat'', ''pse-36'', ''psn'', ''clfsh'', ''!res!'', ''ds'', ''acpi'', ''mmx'',
     ''fxsr'', ''sse'', ''sse2'', ''ss'', ''htt'', ''tm'', ''ia64'', ''pbe'']"

definition cpuid :: "cpu \<Rightarrow> u32 \<Rightarrow> u32 list" where
  "cpuid cpu i = (let (a, b, c, d) = cpu i 0 in [a, b, c, d])"

fun put_regs :: "u32 \<Rightarrow> u32 list \<Rightarrow> mem \<Rightarrow> mem" where
  "put_regs p [] m = m"
| "put_regs p (r # rs) m = put_regs (p + 4) rs (store32 m p r)"

definition cpuid_get_vendor :: "cpu \<Rightarrow> u32 \<Rightarrow> mem \<Rightarrow> mem" where
  "cpuid_get_vendor cpu buf m =
     (let res = cpuid cpu 0; m = store32 m buf (res ! 1); m = store32 m (buf + 4) (res ! 3); m = store32 m (buf + 8) (res ! 2)
      in m(buf + 12 := 0))"

definition cpuid_check_feature :: "cpu \<Rightarrow> mem \<Rightarrow> u32 \<Rightarrow> int" where
  "cpuid_check_feature cpu m feature =
     (let feature_bit = fold (\<lambda>i b. if strcmp_lit (cpuid_features ! i) m feature = 0 then int i else b) [0..<32] (-1) in
      if feature_bit = -1 then -1 else sint (push_bit (nat feature_bit) 1 AND cpuid cpu 1 ! 3))"

definition cpuid_get_max_id :: "cpu \<Rightarrow> int" where
  "cpuid_get_max_id cpu = sint (cpuid cpu 0 ! 0)"

definition cpuid_get_brand :: "cpu \<Rightarrow> u32 \<Rightarrow> mem \<Rightarrow> mem" where
  "cpuid_get_brand cpu brand m =
     put_regs (brand + 32) (cpuid cpu 0x80000004) (put_regs (brand + 16) (cpuid cpu 0x80000003) (put_regs brand (cpuid cpu 0x80000002) m))"

text \<open>\<open>brand\<close> is the address of the array of 49 bytes on the stack; its last byte is not set.\<close>

definition cpuid_verbose_dump :: "cpu \<Rightarrow> u32 \<Rightarrow> ('i, 'x) sh \<Rightarrow> ('i, 'x) sh outcome option" where
  "cpuid_verbose_dump cpu brand st =
     (let res = cpuid cpu 1 in
      run_bind (run_each (\<lambda>(fmt, v). print_mem (lit fmt @ [10]) [v])
        [(''stepping id    %d'', res ! 0 AND 0x0f), (''model          %d'', drop_bit 4 (res ! 0) AND 0x0f),
         (''family id      %d'', drop_bit 8 (res ! 0) AND 0x0f), (''processor type %d'', drop_bit 12 (res ! 0) AND 0x03),
         (''ext. model     %d'', drop_bit 16 (res ! 0) AND 0x0f), (''ext. family id %d'', drop_bit 20 (res ! 0) AND 0xff)] st) (\<lambda>st.
      run_bind (print_mem (lit ''brand          %s'' @ [10]) [brand] (with_ram (cpuid_get_brand cpu brand (mem_of st)) st)) (\<lambda>st.
      run_bind (run_each (\<lambda>i st. if res ! 3 AND push_bit i 1 \<noteq> 0 then Some (print (\<lambda>_. cpuid_features ! i) (lit ''%s '') [0] st)
          else Some (Inr st)) [0..<32] st) (\<lambda>st.
        print_mem [10] [] st))))"

definition cmd_cpuid :: "cpu \<Rightarrow> u32 \<Rightarrow> u32 \<Rightarrow> ('i, 'x) command" where
  "cmd_cpuid cpu buf brand argc argv st =
     run_bind (print_mem (lit ''vendor         %s'' @ [10]) [buf] (with_ram (cpuid_get_vendor cpu buf (mem_of st)) st)) (\<lambda>st.
     run_bind (print_mem (lit ''max_id         %d'' @ [10]) [word_of_int (cpuid_get_max_id cpu)] st) (\<lambda>st.
       cpuid_verbose_dump cpu brand st))"

section \<open>Printing\<close>

definition says :: "cstring \<Rightarrow> ('i, 'x) sh \<Rightarrow> ('i, 'x) sh" where
  "says t st = st\<lparr>sio := fold putc t (sio st)\<rparr>"

lemma says_simps [simp]:
  "says t (says s st) = says (s @ t) st" "says [] st = st" "mem_of (says t st) = mem_of st" "hp (says t st) = hp st"
  "with_ram m (says t st) = says t (with_ram m st)" "argv_at (says t st) = argv_at st" "sio (says t st) = fold putc t (sio st)"
  "world (says t st) = world st" "conf (says t st) = conf st" "ticks (says t st) = ticks st"
  by (simp_all add: says_def with_ram_def mem_of_def fun_eq_iff argv_at_def)

lemma print_says:
  "format_text str fmt va = Inr t \<Longrightarrow> 0 \<notin> set t \<Longrightarrow> print str fmt va st = Inr (says t st)"
proof -
  assume "format_text str fmt va = Inr t" "0 \<notin> set t"
  moreover from this(2) have "filter (\<lambda>c. c \<noteq> 0) t = t" by (intro filter_True) auto
  ultimately show ?thesis by (simp add: print_text says_def)
qed

lemma print_mem_says:
  "format_text (mem_str (mem_of st)) fmt va = Inr t \<Longrightarrow> 0 \<notin> set t \<Longrightarrow> print_mem fmt va st = Some (Inr (says t st))"
  by (simp add: print_mem_def print_says)

lemma format_lit: "37 \<notin> set s \<Longrightarrow> format_text str s va = Inr s"
  using format_text_plain [of s str "[]" va] by simp

lemma mem_str_nonzero: "0 \<notin> set (mem_str m p)"
  by (auto simp: mem_str_def dest: set_takeWhileD)

lemma mem_str_write_bytes:
  assumes "0 \<in> set xs" "length xs < 4294967296"
  shows "mem_str (write_bytes m p xs) p = takeWhile (\<lambda>c. c \<noteq> 0) xs"
proof -
  obtain n where n: "n < length xs" "xs ! n = 0" "\<forall>i < n. xs ! i \<noteq> 0"
    using assms(1) exists_least_iff [of "\<lambda>n. n < length xs \<and> xs ! n = 0"] by (auto simp: in_set_conv_nth)
  have b: "write_bytes m p xs (p + of_nat i) = xs ! i" if "i \<le> n" for i using that n assms(2) by (intro write_bytes_nth) auto
  have "mem_str (write_bytes m p xs) p = map (\<lambda>i. write_bytes m p xs (p + of_nat i)) [0..<n]"
    unfolding mem_str_def using n assms(2) by (intro takeWhile_to_first) (auto simp: b)
  also have "\<dots> = take n xs" using n b by (intro nth_equalityI) auto
  also have "\<dots> = takeWhile (\<lambda>c. c \<noteq> 0) xs" using n by (intro takeWhile_eq_take_P_nth [symmetric]) auto
  finally show ?thesis .
qed

section \<open>The identification in memory\<close>

definition word_bytes :: "u32 \<Rightarrow> u8 list" where
  "word_bytes v = [ucast v, ucast (drop_bit 8 v), ucast (drop_bit 16 v), ucast (drop_bit 24 v)]"

lemma length_word_bytes [simp]: "length (word_bytes v) = 4"
  by (simp add: word_bytes_def)

lemma store32_bytes: "store32 m p v = write_bytes m p (word_bytes v)"
  by (auto simp: store32_def word_bytes_def write_bytes_def fun_eq_iff in_block_Suc add.assoc)

lemma put_regs_bytes:
  "4 * length rs < 4294967296 \<Longrightarrow> put_regs p rs m = write_bytes m p (concat (map word_bytes rs))"
proof (induction rs arbitrary: p m)
  case (Cons r rs)
  have "length (concat (map word_bytes rs)) = 4 * length rs" by (induction rs) simp_all
  then show ?case using Cons write_bytes_append [of "word_bytes r" "concat (map word_bytes rs)" m p]
    by (simp add: store32_bytes fun_eq_iff)
qed simp

definition vendor_bytes :: "cpu \<Rightarrow> u8 list" where
  "vendor_bytes cpu = (case cpu 0 0 of (a, b, c, d) \<Rightarrow> word_bytes b @ word_bytes d @ word_bytes c)"

definition leaf_bytes :: "cpu \<Rightarrow> u32 \<Rightarrow> u8 list" where
  "leaf_bytes cpu i = concat (map word_bytes (cpuid cpu i))"

definition brand_bytes :: "cpu \<Rightarrow> u8 list" where
  "brand_bytes cpu = leaf_bytes cpu 0x80000002 @ leaf_bytes cpu 0x80000003 @ leaf_bytes cpu 0x80000004"

lemma length_leaf [simp]: "length (leaf_bytes cpu i) = 16" "length (cpuid cpu i) = 4"
  by (simp_all add: leaf_bytes_def cpuid_def split: prod.splits)

lemma vendor_text: "mem_str (cpuid_get_vendor cpu buf m) buf = takeWhile (\<lambda>c. c \<noteq> 0) (vendor_bytes cpu @ [0])"
proof -
  obtain a b c d where r: "cpu 0 0 = (a, b, c, d)" by (metis prod_cases4)
  have "put_regs buf [b, d, c] m = write_bytes m buf (vendor_bytes cpu)"
    by (subst put_regs_bytes) (simp_all add: vendor_bytes_def r)
  then have "cpuid_get_vendor cpu buf m = (write_bytes m buf (vendor_bytes cpu))(buf + 12 := 0)"
    by (simp add: cpuid_get_vendor_def cpuid_def r Let_def add.commute)
  also have "\<dots> = write_bytes m buf (vendor_bytes cpu @ [0])"
    using write_bytes_snoc [of "vendor_bytes cpu" m buf 0] by (simp add: vendor_bytes_def r)
  finally have "cpuid_get_vendor cpu buf m = write_bytes m buf (vendor_bytes cpu @ [0])" .
  then show ?thesis using mem_str_write_bytes [of "vendor_bytes cpu @ [0]" m buf] by (simp add: vendor_bytes_def r)
qed

lemma brand_text:
  "0 \<in> set (brand_bytes cpu) \<Longrightarrow> mem_str (cpuid_get_brand cpu p m) p = takeWhile (\<lambda>c. c \<noteq> 0) (brand_bytes cpu)"
proof -
  assume z: "0 \<in> set (brand_bytes cpu)"
  let ?b = "leaf_bytes cpu 0x80000002" and ?c = "leaf_bytes cpu 0x80000003" and ?d = "leaf_bytes cpu 0x80000004"
  have "cpuid_get_brand cpu p m = write_bytes (write_bytes (write_bytes m p ?b) (p + 16) ?c) (p + 32) ?d"
    by (simp add: cpuid_get_brand_def put_regs_bytes leaf_bytes_def)
  also have "\<dots> = write_bytes m p (brand_bytes cpu)"
  proof
    fix a
    have "write_bytes (write_bytes m p ?b) (p + 16) ?c = write_bytes m p (?b @ ?c)" using write_bytes_append [of ?b ?c m p] by auto
    then show "write_bytes (write_bytes (write_bytes m p ?b) (p + 16) ?c) (p + 32) ?d a = write_bytes m p (brand_bytes cpu) a"
      using write_bytes_append [of "?b @ ?c" ?d m p a] by (simp add: brand_bytes_def)
  qed
  finally show ?thesis using z by (simp add: mem_str_write_bytes brand_bytes_def)
qed

section \<open>The property\<close>

text \<open>The report of the command, by the bits of the manual: a field of \<open>eax\<close> has its first bit and its width.\<close>

definition cpu_field :: "cpu \<Rightarrow> nat \<Rightarrow> nat \<Rightarrow> cstring" where
  "cpu_field cpu lo n = decimal (int (unat (case cpu 1 0 of (a, b, c, d) \<Rightarrow> take_bit n (drop_bit lo a)))) @ [10]"

definition cpu_feature_names :: "cpu \<Rightarrow> cstring" where
  "cpu_feature_names cpu = (case cpu 1 0 of (a, b, c, d) \<Rightarrow>
     concat (map (\<lambda>i. if bit d i then cpuid_features ! i @ [32] else []) [0..<32]))"

definition cpu_report :: "cpu \<Rightarrow> cstring" where
  "cpu_report cpu = lit ''vendor         '' @ takeWhile (\<lambda>c. c \<noteq> 0) (vendor_bytes cpu @ [0]) @ [10]
     @ lit ''max_id         '' @ decimal (sint (fst (cpu 0 0))) @ [10]
     @ lit ''stepping id    '' @ cpu_field cpu 0 4 @ lit ''model          '' @ cpu_field cpu 4 4
     @ lit ''family id      '' @ cpu_field cpu 8 4 @ lit ''processor type '' @ cpu_field cpu 12 2
     @ lit ''ext. model     '' @ cpu_field cpu 16 4 @ lit ''ext. family id '' @ cpu_field cpu 20 8
     @ lit ''brand          '' @ takeWhile (\<lambda>c. c \<noteq> 0) (brand_bytes cpu) @ [10] @ cpu_feature_names cpu @ [10]"

lemma print_number:
  assumes "37 \<notin> set s" "0 \<notin> set s"
  shows "print_mem (s @ 37 # 100 # [10]) [v] st = Some (Inr (says (s @ decimal (sint v) @ [10]) st))"
  by (rule print_mem_says) (use assms decimal_nonzero in \<open>auto simp: format_text_plain format_steps\<close>)

lemma field_bits: "(x :: u32) AND 0x0f = take_bit 4 x" "x AND 0x03 = take_bit 2 x" "x AND 0xff = take_bit 8 x"
  using take_bit_eq_mask [of 4 x] take_bit_eq_mask [of 2 x] take_bit_eq_mask [of 8 x] by (simp_all add: mask_eq_exp_minus_1)

lemma sint_take_bit: "n < 32 \<Longrightarrow> sint (take_bit n (x :: u32)) = int (unat (take_bit n x))"
proof -
  assume "n < 32"
  then have "(2 :: int) ^ n \<le> 2 ^ 31" by (intro power_increasing) simp_all
  then have "take_bit n (uint x) < 2 ^ 31" using take_bit_int_less_exp [of n "uint x"] by linarith
  then have "signed_take_bit 31 (take_bit n (uint x)) = take_bit n (uint x)"
    by (intro signed_take_bit_int_eq_self) (auto intro: order_trans [of _ 0])
  then show ?thesis by (simp add: sint_uint unsigned_take_bit_eq of_nat_take_bit)
qed

lemma field_printed:
  assumes "37 \<notin> set s" "0 \<notin> set s" "n < 32"
  shows "print_mem (s @ 37 # 100 # [10]) [take_bit n (drop_bit lo (cpuid cpu 1 ! 0))] st = Some (Inr (says (s @ cpu_field cpu lo n) st))"
proof -
  obtain a b c d where "cpu 1 0 = (a, b, c, d)" by (metis prod_cases4)
  then show ?thesis unfolding print_number [OF assms(1, 2)] sint_take_bit [OF assms(3)] by (simp add: cpu_field_def cpuid_def)
qed

lemma features_printed:
  "run_each (\<lambda>i st. if d AND push_bit i 1 \<noteq> 0 then Some (print (\<lambda>_. cpuid_features ! i) (lit ''%s '') [0] st) else Some (Inr st)) is st
    = Some (Inr (says (concat (map (\<lambda>i. if bit (d :: u32) i then cpuid_features ! i @ [32] else []) is)) st))" if "\<forall>i \<in> set is. i < 32"
  using that
proof (induction "is" arbitrary: st)
  case (Cons i "is")
  have "0 \<notin> set (cpuid_features ! i)"
  proof -
    have "\<forall>s \<in> set cpuid_features. 0 \<notin> set s" by (simp add: cpuid_features_def lit_def)
    moreover have "i < length cpuid_features" using Cons.prems by (simp add: cpuid_features_def)
    ultimately show ?thesis by simp
  qed
  then have "print (\<lambda>_. cpuid_features ! i) (lit ''%s '') [0] st = Inr (says (cpuid_features ! i @ [32]) st)"
    by (intro print_says) (simp_all add: format_steps)
  moreover have "d AND push_bit i 1 \<noteq> 0 \<longleftrightarrow> bit d i"
    using Cons.prems by (simp add: and_exp_eq_0_iff_not_bit push_bit_eq_mult)
  ultimately show ?case using Cons by simp
qed simp

text \<open>
  The command prints the vendor in the order \<open>ebx\<close>, \<open>edx\<close>, \<open>ecx\<close>, the highest function, the fields of the
  processor's signature as decimal numbers, its brand, and the names of exactly the features that it has, in their order.\<close>

theorem cpuid_command:
  assumes "0 \<in> set (brand_bytes cpu)"
  shows "\<exists>m. cmd_cpuid cpu buf brand argc argv st = Some (Inr (says (cpu_report cpu) (with_ram m st)))"
proof -
  obtain a b c d where r: "cpu 1 0 = (a, b, c, d)" by (metis prod_cases4)
  let ?eax = "cpuid cpu 1 ! 0" and ?m1 = "cpuid_get_vendor cpu buf (mem_of st)"
  let ?m2 = "cpuid_get_brand cpu brand ?m1"
  let ?F = "\<lambda>fmt name n lo. \<forall>s :: ('a, 'b) sh.
    print_mem (lit fmt @ [10]) [take_bit n (drop_bit lo ?eax)] s = Some (Inr (says (lit name @ cpu_field cpu lo n) s))"
  have field: "?F fmt name n lo"
    if "lit fmt @ [10] = lit name @ 37 # 100 # [10]" "37 \<notin> set (lit name)" "0 \<notin> set (lit name)" "n < 32"
    for fmt name n lo
    using field_printed [OF that(2-4)] unfolding that(1) by blast
  have fields: "?F ''stepping id    %d'' ''stepping id    '' 4 0" "?F ''model          %d'' ''model          '' 4 4"
    "?F ''family id      %d'' ''family id      '' 4 8" "?F ''processor type %d'' ''processor type '' 2 12"
    "?F ''ext. model     %d'' ''ext. model     '' 4 16" "?F ''ext. family id %d'' ''ext. family id '' 8 20"
    by (rule field; simp add: lit_def)+
  have v: "print_mem (lit ''vendor         %s'' @ [10]) [buf] (with_ram ?m1 st)
      = Some (Inr (says (lit ''vendor         '' @ takeWhile (\<lambda>c. c \<noteq> 0) (vendor_bytes cpu @ [0]) @ [10]) (with_ram ?m1 st)))"
    using mem_str_nonzero [of ?m1 buf] by (intro print_mem_says) (auto simp: lit_def format_steps vendor_text)
  have i: "print_mem (lit ''max_id         %d'' @ [10]) [word_of_int (cpuid_get_max_id cpu)] s
      = Some (Inr (says (lit ''max_id         '' @ decimal (sint (fst (cpu 0 0))) @ [10]) s))" for s :: "('a, 'b) sh"
    using decimal_nonzero
    by (intro print_mem_says) (auto simp: lit_def format_steps cpuid_get_max_id_def cpuid_def split: prod.splits)
  have n: "print_mem (lit ''brand          %s'' @ [10]) [brand] s
      = Some (Inr (says (lit ''brand          '' @ takeWhile (\<lambda>c. c \<noteq> 0) (brand_bytes cpu) @ [10]) s))" if "mem_of s = ?m2" for s :: "('a, 'b) sh"
    using mem_str_nonzero [of ?m2 brand] that by (intro print_mem_says) (auto simp: lit_def format_steps brand_text [OF assms])
  have e: "print_mem [10] [] s = Some (Inr (says [10] s))" for s :: "('a, 'b) sh"
    by (rule print_mem_says) (simp_all add: format_steps)
  have f: "run_each (\<lambda>i st. if cpuid cpu 1 ! 3 AND push_bit i 1 \<noteq> 0 then Some (print (\<lambda>_. cpuid_features ! i) (lit ''%s '') [0] st)
      else Some (Inr st)) [0..<32] s = Some (Inr (says (cpu_feature_names cpu) s))" for s :: "('a, 'b) sh"
    using features_printed [of "[0..<32]" d s] by (simp add: cpu_feature_names_def cpuid_def r)
  show ?thesis
    unfolding cmd_cpuid_def cpuid_verbose_dump_def field_bits Let_def v i run_bind_simps
    using fields unfolding drop_bit_0 id_apply
    by (intro exI [of _ ?m2]) (simp add: n e f cpu_report_def del: push_bit_of_1)
qed

text \<open>A processor of 2001 with a signature, a brand and some features.\<close>

definition cpu0 :: cpu where
  "cpu0 i c = (if i = 0 then (2, 0x756e6547, 0x6c65746e, 0x49656e69) else if i = 1 then (0x683, 0, 0, 0x0383f9ff)
     else if i = 0x80000002 then (0x4d555043, 0, 0, 0) else (0, 0, 0, 0))"

lemma cpuid_command_witness:
  "\<exists>m. cmd_cpuid cpu0 0x800 0x900 1 0x500 (shell0 []) = Some (Inr (says (cpu_report cpu0) (with_ram m (shell0 []))))"
proof -
  have "0 \<in> set (brand_bytes cpu0)"
    by (simp add: brand_bytes_def leaf_bytes_def cpuid_def cpu0_def word_bytes_def)
  then show ?thesis by (rule cpuid_command)
qed

section \<open>Looking for a feature\<close>

text \<open>A listed feature is reported by its bit; an unlisted name gives \<open>-1\<close>, which is not zero.\<close>

lemma feature_index:
  "i < 32 \<Longrightarrow> i \<noteq> 10 \<Longrightarrow> fold (\<lambda>j b. if cpuid_features ! j = cpuid_features ! i then int j else b) [0..<32] (-1) = int i"
proof -
  have "\<forall>i \<in> set [0..<32]. i \<noteq> 10 \<longrightarrow> fold (\<lambda>j b. if cpuid_features ! j = cpuid_features ! i then int j else b) [0..<32] (-1) = int i"
    by code_simp
  then show "i < 32 \<Longrightarrow> i \<noteq> 10 \<Longrightarrow> ?thesis" by simp
qed

lemma check_feature:
  assumes "cstr m p s" "cpu 1 0 = (a, b, c, d)"
  shows "i < 32 \<Longrightarrow> i \<noteq> 10 \<Longrightarrow> s = cpuid_features ! i \<Longrightarrow> cpuid_check_feature cpu m p \<noteq> 0 \<longleftrightarrow> bit d i"
    and "s \<notin> set cpuid_features \<Longrightarrow> cpuid_check_feature cpu m p = -1"
proof -
  have ok: "\<forall>w \<in> set cpuid_features. cstring_ok w" and len: "length cpuid_features = 32"
    by (simp_all add: cpuid_features_def cstring_ok_def lit_def)
  have eq: "strcmp_lit (cpuid_features ! j) m p = 0 \<longleftrightarrow> cpuid_features ! j = s" if "j < 32" for j
    using strcmp_lit_cstr [OF assms(1)] strdiff_0_iff [OF _ cstr_ok [OF assms(1)]] ok len that by simp
  have f: "fold (\<lambda>i b. if strcmp_lit (cpuid_features ! i) m p = 0 then int i else b) [0..<32] (-1)
      = fold (\<lambda>j b. if cpuid_features ! j = s then int j else b) [0..<32] (-1)"
    by (rule fold_cong) (auto simp: eq)
  have "sint (push_bit i 1 AND d) \<noteq> 0 \<longleftrightarrow> bit d i" if "i < 32"
    using and_exp_eq_0_iff_not_bit [of d i] that by (simp add: push_bit_eq_mult and.commute signed_eq_0_iff)
  then show "i < 32 \<Longrightarrow> i \<noteq> 10 \<Longrightarrow> s = cpuid_features ! i \<Longrightarrow> cpuid_check_feature cpu m p \<noteq> 0 \<longleftrightarrow> bit d i"
    using feature_index [of i] by (simp add: cpuid_check_feature_def f cpuid_def assms(2) del: push_bit_of_1)
  show "s \<notin> set cpuid_features \<Longrightarrow> cpuid_check_feature cpu m p = -1"
  proof -
    assume "s \<notin> set cpuid_features"
    then have "\<forall>j \<in> set [0..<32]. cpuid_features ! j \<noteq> s" using len by (metis atLeastLessThan_iff nth_mem set_upt)
    then have "fold (\<lambda>j b. if cpuid_features ! j = s then int j else b) [0..<32] (-1) = (-1 :: int)"
      by (intro fold_invariant [where Q = "\<lambda>j. cpuid_features ! j \<noteq> s" and P = "\<lambda>b. b = -1"]) auto
    then show ?thesis by (simp add: cpuid_check_feature_def f)
  qed
qed

end
