(* ===== verification/Selftest.thy ===== *)
theory Selftest
  imports Cpuid Htbl Heap_Client
begin

text \<open>
  The kernel's own tests (\<open>kern/selftest.c\<close>), run by a command of the shell: copying, filling and
  clearing memory in blocks of the allocator, and the hash table, whose keys and entries are values
  here (theory Htbl). The property is that on a working heap every test passes.
\<close>

section \<open>The code\<close>

definition test_log :: "string \<Rightarrow> string \<Rightarrow> ('i, 'x) sh \<Rightarrow> ('i, 'x) sh outcome option" where
  "test_log func msg st =
     Some (bind_outcome (sh_debug func (lit msg) [] st) (print (\<lambda>_. lit msg) (lit ''%s'' @ [10]) [0]))"

definition test_pass :: "string \<Rightarrow> string \<Rightarrow> ('i, 'x) sh \<Rightarrow> ('i, 'x) sh outcome option" where
  "test_pass func test = test_log func (''[OK]   '' @ test)"

definition test_fail :: "string \<Rightarrow> string \<Rightarrow> string \<Rightarrow> ('i, 'x) sh \<Rightarrow> ('i, 'x) sh outcome option" where
  "test_fail func test reason = test_log func (''[FAIL] '' @ test @ '', reason: '' @ reason)"

definition frees :: "u32 list \<Rightarrow> ('i, 'x) sh \<Rightarrow> ('i, 'x) sh outcome option" where
  "frees ps st = Some (each_outcome sh_kfree ps st)"

definition test_pattern :: "nat \<Rightarrow> u8" where
  "test_pattern i = (if i mod 2 = 0 then 0x55 else 0xaa)"

definition fill_pattern :: "u32 \<Rightarrow> mem \<Rightarrow> mem" where
  "fill_pattern src m = fold (\<lambda>i m. m(src + of_nat i := test_pattern i)) [0..<1024] m"

definition test_memcpy :: "('i, 'x) sh \<Rightarrow> ('i, 'x) sh outcome option" where
  "test_memcpy st =
     run_bind (sh_kalloc 1024 st) (\<lambda>(src, st).
     run_bind (sh_kalloc 2048 st) (\<lambda>(dst, st).
       let m = memcpy ((fill_pattern src (mem_of st))(dst + 1024 := 0x12, dst + 2000 := 0x34)) dst src 1024 in
       run_bind
         (if list_ex (\<lambda>i. m (dst + of_nat i) \<noteq> test_pattern i) [0..<1024] then test_fail ''test_memcpy'' ''memcpy'' ''incorrect value'' (with_ram m st)
          else if m (dst + 1024) \<noteq> 0x12 \<or> m (dst + 2000) \<noteq> 0x34 then test_fail ''test_memcpy'' ''memcpy'' ''canary overwritten'' (with_ram m st)
          else test_pass ''test_memcpy'' ''memcpy'' (with_ram m st))
         (frees [src, dst])))"

definition test_memset :: "('i, 'x) sh \<Rightarrow> ('i, 'x) sh outcome option" where
  "test_memset st =
     run_bind (sh_kalloc 2048 st) (\<lambda>(buf, st).
       let m = memset ((mem_of st)(buf + 1024 := 0x12, buf + 2000 := 0x34)) buf 0x55 1024 in
       run_bind
         (if list_ex (\<lambda>i. m (buf + of_nat i) \<noteq> 0x55) [0..<1024] then test_fail ''test_memset'' ''memset'' ''incorrect value'' (with_ram m st)
          else if m (buf + 1024) \<noteq> 0x12 \<or> m (buf + 2000) \<noteq> 0x34 then test_fail ''test_memset'' ''memset'' ''canary overwritten'' (with_ram m st)
          else test_pass ''test_memset'' ''memset'' (with_ram m st))
         (frees [buf]))"

definition sh_kallocz :: "u32 \<Rightarrow> ('i, 'x) sh \<Rightarrow> (u32 \<times> ('i, 'x) sh) outcome option" where
  "sh_kallocz n st = run_bind (kallocz (hp st) n) (\<lambda>(p, h). Some (Inr (p, st\<lparr>hp := h\<rparr>)))"

definition test_kallocz :: "('i, 'x) sh \<Rightarrow> ('i, 'x) sh outcome option" where
  "test_kallocz st =
     run_bind (sh_kallocz 1024 st) (\<lambda>(buf, st).
       if list_ex (\<lambda>i. mem_of st (buf + of_nat i) \<noteq> 0) [0..<1024]
       then run_bind (test_fail ''test_kallocz'' ''kallocz'' ''memory not zero'' st) (frees [buf])
       else run_bind (frees [buf] (with_ram (memset (mem_of st) buf 0x55 1024) st)) (\<lambda>st.
         run_bind (sh_kallocz 1024 st) (\<lambda>(buf, st).
         run_bind
           (if list_ex (\<lambda>i. mem_of st (buf + of_nat i) \<noteq> 0) [0..<1024]
            then test_fail ''test_kallocz'' ''kallocz'' ''reallocated memory not zero'' st
            else test_pass ''test_kallocz'' ''kallocz'' st)
           (frees [buf]))))"

text \<open>A value of a table as a pointer; \<open>v1\<close> and \<open>v2\<close> are the addresses of the strings \<open>"value 1"\<close> and \<open>"value 2"\<close>.\<close>

definition ptr_of :: "u32 option \<Rightarrow> u32" where
  "ptr_of v = (case v of None \<Rightarrow> 0 | Some p \<Rightarrow> p)"

definition test_htbl :: "u32 \<Rightarrow> u32 \<Rightarrow> ('i, 'x) sh \<Rightarrow> ('i, 'x) sh outcome option" where
  "test_htbl v1 v2 st =
     run_bind (htbl_put htbl_create (lit ''foo'') v1) (\<lambda>table.
     run_bind (htbl_put table (lit ''bar'') v2) (\<lambda>table.
     run_bind (htbl_get table (lit ''foo'')) (\<lambda>k1_res.
     run_bind (htbl_get table (lit ''bar'')) (\<lambda>k2_res.
     run_bind (Some (sh_debug ''test_htbl'' (lit ''k1_res: %p, k2_res: %p'') [ptr_of k1_res, ptr_of k2_res] st)) (\<lambda>st.
       if ptr_of k1_res = 0 \<or> ptr_of k2_res = 0
       then test_fail ''test_htbl'' ''htbl_get'' ''returned NULL mapping for present key'' st
       else if strcmp_lit (lit ''value 1'') (mem_of st) (ptr_of k1_res) \<noteq> 0 \<or> strcmp_lit (lit ''value 2'') (mem_of st) (ptr_of k2_res) \<noteq> 0
       then test_fail ''test_htbl'' ''htbl_get'' ''returned incorrect mapping for key'' st
       else test_pass ''test_htbl'' ''htbl'' st)))))"

text \<open>\<open>sprintf\<close> into the buffer of the key.\<close>

definition test_key :: "nat \<Rightarrow> cstring outcome" where
  "test_key i = format_text (\<lambda>_. []) (lit ''key_%d'') [of_nat i]"

fun check_keys :: "u32 htbl \<Rightarrow> nat list \<Rightarrow> bool outcome option" where
  "check_keys table [] = Some (Inr True)"
| "check_keys table (i # is) = run_bind (Some (test_key i)) (\<lambda>k. run_bind (htbl_get table k) (\<lambda>v.
     if ptr_of v \<noteq> of_nat i then Some (Inr False) else check_keys table is))"

definition test_htbl_expand :: "('i, 'x) sh \<Rightarrow> ('i, 'x) sh outcome option" where
  "test_htbl_expand st =
     run_bind (run_each (\<lambda>i table. run_bind (Some (test_key i)) (\<lambda>k. htbl_put table k (of_nat i))) [0..<100] htbl_create) (\<lambda>table.
     run_bind (check_keys table [0..<100]) (\<lambda>ok.
       if \<not> ok then test_fail ''test_htbl_expand'' ''htbl_expand'' ''key mapped to incorrect value'' st
       else test_pass ''test_htbl_expand'' ''htbl_expand'' st))"

definition selftest :: "u32 \<Rightarrow> u32 \<Rightarrow> ('i, 'x) command" where
  "selftest v1 v2 argc argv st =
     run_bind (test_memcpy st) (\<lambda>st. run_bind (test_memset st) (\<lambda>st. run_bind (test_kallocz st) (\<lambda>st.
       run_bind (test_htbl v1 v2 st) test_htbl_expand)))"

section \<open>Steps of a test\<close>

text \<open>
  From a shell whose heap has room: the text printed so far, the room left, and what is kept, the live
  blocks, their bytes and those below the heap.
\<close>

definition heap_room :: "('i, 'x) sh \<Rightarrow> block list \<Rightarrow> nat \<Rightarrow> bool" where
  "heap_room st bs k \<longleftrightarrow> heap (hp st) bs \<and> space (hp st) bs k"

definition ran :: "('i, 'x) sh \<Rightarrow> block list \<Rightarrow> nat \<Rightarrow> cstring \<Rightarrow> ('i, 'x) sh \<Rightarrow> block list \<Rightarrow> bool" where
  "ran st bs k t st' bs' \<longleftrightarrow> heap_room st' bs' k \<and> stdout_text (sio st') = map_option (\<lambda>s. s @ t) (stdout_text (sio st))
     \<and> mem_start (hp st') = mem_start (hp st) \<and> (\<forall>c \<in> set bs. \<not> bfree c \<longrightarrow> c \<in> set bs')
     \<and> (\<forall>a. safe (hp st) bs a \<longrightarrow> mem_of st' a = mem_of st a)"

definition fresh :: "block list \<Rightarrow> block \<Rightarrow> block list \<Rightarrow> bool" where
  "fresh bs q bs' \<longleftrightarrow> q \<in> set bs' \<and> \<not> bfree q \<and> bflags q = 0 \<and> (\<forall>c \<in> set bs. \<not> bfree c \<longrightarrow> c \<noteq> q)"

lemma ran_refl: "heap_room st bs k \<Longrightarrow> ran st bs k [] st bs"
  by (simp add: ran_def option.map_ident)

lemma ran_trans:
  assumes "ran st bs k t st1 bs1" "ran st1 bs1 k' t' st2 bs2"
  shows "ran st bs k' (t @ t') st2 bs2"
proof -
  have "safe (hp st1) bs1 a" if "safe (hp st) bs a" for a using that assms(1) by (auto simp: safe_def ran_def)
  then show ?thesis using assms by (auto simp: ran_def option.map_comp comp_def)
qed

lemma ran_alloc:
  assumes "heap_room st bs (24 + unat (aligned_size n) + k)" "aligned_size n \<noteq> 0" "unat (aligned_size n) \<le> 4000"
  obtains q st1 bs1 where "sh_kalloc n st = Some (Inr (at q + 24, st1))" "ran st bs k [] st1 bs1" "fresh bs q bs1" "unat n \<le> unat (bsize q)"
proof -
  note h = assms(1) [unfolded heap_room_def]
  obtain m q bs' where q: "kalloc (hp st) n = Some (Inr (at q + 24, (hp st)\<lparr>ram := m\<rparr>))" "heap ((hp st)\<lparr>ram := m\<rparr>) bs'"
    "q \<in> set bs'" "\<not> bfree q" "bflags q = 0" "unat n \<le> unat (bsize q)"
    "\<And>c. c \<in> set bs \<Longrightarrow> \<not> bfree c \<Longrightarrow> c \<in> set bs' \<and> c \<noteq> q"
    "\<And>a. safe (hp st) bs a \<Longrightarrow> m a = ram (hp st) a" "space ((hp st)\<lparr>ram := m\<rparr>) bs' k"
    by (rule alloc_space [OF conjunct1 [OF h] conjunct2 [OF h] assms(2, 3)]) (rule that, assumption+)
  show ?thesis
    by (rule that [of q "st\<lparr>hp := (hp st)\<lparr>ram := m\<rparr>\<rparr>" bs'])
      (use q in \<open>auto simp: sh_kalloc_def ran_def heap_room_def fresh_def mem_of_def option.map_ident\<close>)
qed

lemma ran_write:
  assumes "ran st bs k t st1 bs1" "fresh bs q bs1" "\<And>a. m a = mem_of st1 a \<or> payload q a"
  shows "ran st bs k t (with_ram m st1) bs1"
proof -
  have h: "heap (hp st1) bs1" "space (hp st1) bs1 k" and q: "q \<in> set bs1" using assms(1, 2) by (auto simp: ran_def heap_room_def fresh_def)
  have "m a = mem_of st1 a" if s: "safe (hp st) bs a" for a
  proof -
    have "\<not> payload q a"
    proof (cases "unat a < unat (mem_start (hp st))")
      case True
      then show ?thesis using layout_ge [OF heap_D(4) [OF h(1)] q] assms(1) heap_D [OF h(1)] by (auto simp: payload_iff ran_def)
    next
      case False
      then obtain c where c: "c \<in> set bs" "\<not> bfree c" "payload c a" using s by (auto simp: safe_def)
      then have "c \<in> set bs1" "c \<noteq> q" using assms(1, 2) by (auto simp: ran_def fresh_def)
      then show ?thesis using payload_disjoint [OF h(1) _ q, of c a] c(3) by blast
    qed
    then show ?thesis using assms(3) by blast
  qed
  moreover have "heap_room (with_ram m st1) bs1 k"
    using write_space [OF h q, of m] assms(3) by (simp add: heap_room_def mem_of_def)
  ultimately show ?thesis using assms(1) by (auto simp: ran_def)
qed

lemma ran_free:
  assumes "ran st bs k t st1 bs1" "fresh bs q bs1"
  obtains st2 bs2 where "sh_kfree (at q + 24) st1 = Inr st2" "ran st bs k t st2 bs2" "\<And>p. fresh bs p bs1 \<Longrightarrow> p \<noteq> q \<Longrightarrow> fresh bs p bs2"
proof -
  have h: "heap (hp st1) bs1" "space (hp st1) bs1 k" and q: "q \<in> set bs1" "\<not> bfree q" "bflags q = 0"
    using assms(1, 2) by (auto simp: ran_def heap_room_def fresh_def)
  obtain m bs2 where m: "kfree (hp st1) (at q + 24) = Inr ((hp st1)\<lparr>ram := m\<rparr>)" "heap ((hp st1)\<lparr>ram := m\<rparr>) bs2" "space ((hp st1)\<lparr>ram := m\<rparr>) bs2 k"
    "\<And>c. c \<in> set bs1 \<Longrightarrow> c \<noteq> q \<Longrightarrow> c \<in> set bs2" "\<And>a. safe (hp st1) bs1 a \<Longrightarrow> m a = ram (hp st1) a"
    by (rule free_space [OF h q]) (rule that, assumption+)
  have "safe (hp st1) bs1 a" if "safe (hp st) bs a" for a using that assms(1) by (auto simp: safe_def ran_def)
  then show ?thesis
    by (intro that [of "st1\<lparr>hp := (hp st1)\<lparr>ram := m\<rparr>\<rparr>" bs2])
      (use m assms in \<open>auto simp: sh_kfree_def ran_def heap_room_def fresh_def mem_of_def\<close>)
qed

lemma debug_printed:
  assumes "format_text (mem_str (mem_of st)) fmt va = Inr t"
  shows "\<exists>d. sh_debug func fmt va st = Inr (st\<lparr>sio := with_debug d (sio st)\<rparr>)"
proof (cases "log_level (sio st) < 4")
  case True
  then show ?thesis by (intro exI [of _ "[]"]) (simp add: sh_debug_def debug_printf_def)
next
  case False
  have f: "\<exists>d n. vfctprintf debug_putc str fmt va io = Inr (with_debug d io, n)" if "format_text str fmt va = Inr t"
    for str fmt va t and io :: "'a io"
    using that by (auto simp: vfctprintf_def vsnprintf_core_def Let_def out_all_wrapped fold_debug_putc out_wrapped_def)
  have "format_text (\<lambda>p. if p = 0 then debug_names ! 4 else lit func) log_prefix [0, 1] = Inr ([91] @ debug_names ! 4 @ [93, 32] @ lit func @ [58, 32])"
    by (simp add: log_prefix_def format_steps)
  then obtain d1 n1 where 1: "fctprintf debug_putc (\<lambda>p. if p = 0 then debug_names ! 4 else lit func) log_prefix [0, 1] (sio st)
      = Inr (with_debug d1 (sio st), n1)"
    using f unfolding fctprintf_def vfctprintf_def by blast
  obtain d2 n2 where 2: "vfctprintf debug_putc (mem_str (mem_of st)) fmt va (with_debug d1 (sio st))
      = Inr (with_debug d2 (with_debug d1 (sio st)), n2)"
    using f [OF assms] by blast
  have 3: "debug_putc 10 io = with_debug [10] io" for io :: "'a io" using fold_debug_putc [of "[10]" io] by simp
  have len: "length debug_names = 7" by (simp add: debug_names_def)
  show ?thesis using False 1 2 by (intro exI [of _ "d1 @ d2 @ [10]"]) (simp add: sh_debug_def debug_printf_def 3 len)
qed

lemma ran_debug:
  assumes "ran st bs k t st1 bs1" "format_text (mem_str (mem_of st1)) fmt va = Inr s"
  obtains st2 where "sh_debug func fmt va st1 = Inr st2" "ran st bs k t st2 bs1" "hp st2 = hp st1"
proof -
  obtain d where d: "sh_debug func fmt va st1 = Inr (st1\<lparr>sio := with_debug d (sio st1)\<rparr>)" using debug_printed [OF assms(2)] by blast
  show ?thesis by (rule that [OF d]) (use assms(1) in \<open>simp_all add: ran_def heap_room_def with_debug_def\<close>)
qed

lemma ran_log:
  assumes "ran st bs k t st1 bs1" "37 \<notin> set (lit msg)" "0 \<notin> set (lit msg)"
  obtains st2 where "test_log func msg st1 = Some (Inr st2)" "ran st bs k (t @ lit msg @ [10]) st2 bs1" "hp st2 = hp st1"
proof -
  obtain st2 where 2: "sh_debug func (lit msg) [] st1 = Inr st2" "ran st bs k t st2 bs1" "hp st2 = hp st1"
    by (rule ran_debug [OF assms(1) format_lit [OF assms(2)]])
  have p: "print (\<lambda>_. lit msg) (lit ''%s'' @ [10]) [0] st2 = Inr (says (lit msg @ [10]) st2)"
    using assms(3) by (intro print_says) (simp_all add: format_steps)
  show ?thesis
    by (rule that [of "says (lit msg @ [10]) st2"])
      (use 2 p in \<open>auto simp: test_log_def ran_def heap_room_def option.map_comp comp_def\<close>)
qed

section \<open>The memory tests\<close>

lemma fill_write: "n \<le> 4294967296 \<Longrightarrow> fold (\<lambda>i m. m(p + of_nat i := f i)) [0..<n] m = write_bytes m p (map f [0..<n])"
proof (induction n)
  case (Suc n)
  then show ?case using write_bytes_snoc [of "map f [0..<n]" m p "f n"] by (simp del: fun_upd_apply)
qed simp

lemma test_memcpy_passes:
  assumes "heap_room st bs (3120 + k)"
  obtains st' bs' where "test_memcpy st = Some (Inr st')" "ran st bs k (lit ''[OK]   memcpy'' @ [10]) st' bs'"
proof -
  have al: "aligned_size 1024 = 1024" "aligned_size 2048 = 2048" by (simp_all add: aligned_size_def)
  have r1: "heap_room st bs (24 + unat (aligned_size 1024) + (2072 + k))" using assms by (simp add: al)
  obtain q1 st1 bs1 where 1: "sh_kalloc 1024 st = Some (Inr (at q1 + 24, st1))" "ran st bs (2072 + k) [] st1 bs1" "fresh bs q1 bs1"
    "unat (1024 :: u32) \<le> unat (bsize q1)"
    by (rule ran_alloc [OF r1]) (simp_all add: al)
  have r2: "heap_room st1 bs1 (24 + unat (aligned_size 2048) + k)" using 1(2) by (simp add: al ran_def)
  obtain q2 st2 bs2 where 2: "sh_kalloc 2048 st1 = Some (Inr (at q2 + 24, st2))" "ran st1 bs1 k [] st2 bs2" "fresh bs1 q2 bs2"
    "unat (2048 :: u32) \<le> unat (bsize q2)"
    by (rule ran_alloc [OF r2]) (simp_all add: al)
  have f: "fresh bs q1 bs2" "fresh bs q2 bs2" "q1 \<noteq> q2" using 1(2, 3) 2(2, 3) by (auto simp: fresh_def ran_def)
  have R: "ran st bs k [] st2 bs2" using ran_trans [OF 1(2) 2(2)] by simp
  have h: "heap (hp st2) bs2" using R by (simp add: ran_def heap_room_def)
  let ?src = "at q1 + 24" and ?dst = "at q2 + 24" and ?pat = "map test_pattern [0..<1024]"
  have p1: "payload q1 a" if "in_block a ?src 1024" for a using in_block_mono [OF that] 1(4) by (simp add: payload_def)
  have p2: "payload q2 a" if "in_block a ?dst 2048" for a using in_block_mono [OF that] 2(4) by (simp add: payload_def)
  have dis: "\<not> (payload q1 a \<and> payload q2 a)" for a
    using payload_disjoint [OF h, of q1 q2 a] f by (auto simp: fresh_def)
  define m1 where "m1 = (fill_pattern ?src (mem_of st2))(?dst + 1024 := 0x12, ?dst + 2000 := 0x34)"
  have fill: "fill_pattern ?src (mem_of st2) = write_bytes (mem_of st2) ?src ?pat" by (simp add: fill_pattern_def fill_write)
  have c1: "in_block (?dst + 1024) ?dst 2048" "in_block (?dst + 2000) ?dst 2048"
    "\<not> in_block (?dst + 1024) ?dst 1024" "\<not> in_block (?dst + 2000) ?dst 1024" by (simp_all add: in_block_def)
  have ap: "apart ?dst ?src (unat (1024 :: u32))"
    unfolding apart_def using dis p1 p2 in_block_mono [of _ ?dst 1024 2048] by auto
  have cp: "memcpy m1 ?dst ?src 1024 (?dst + of_nat i) = m1 (?src + of_nat i)" if "i < 1024" for i
    using copied_source [OF ap, of i m1] that by (simp add: memcpy_eq [OF ap])
  have co: "memcpy m1 ?dst ?src 1024 a = m1 a" if "\<not> in_block a ?dst 1024" for a
    using copied_outside [of a ?dst 1024] that by (simp add: memcpy_eq [OF ap])
  have src: "m1 (?src + of_nat i) = test_pattern i" if "i < 1024" for i
  proof -
    have "in_block (?src + of_nat i) ?src 1024" using that by (simp add: in_block_def unat_of_nat_u32)
    then have "?src + of_nat i \<noteq> ?dst + 1024" "?src + of_nat i \<noteq> ?dst + 2000" using p1 p2 dis c1(1, 2) by metis+
    then show ?thesis using that by (simp add: m1_def fill write_bytes_nth)
  qed
  let ?m = "memcpy m1 ?dst ?src 1024"
  have dst: "?m (?dst + of_nat i) = test_pattern i" if "i < 1024" for i unfolding cp [OF that] by (rule src [OF that])
  have can: "?m (?dst + 1024) = 0x12" "?m (?dst + 2000) = 0x34" using co [OF c1(3)] co [OF c1(4)] by (simp_all add: m1_def)
  have "ran st bs k [] (with_ram (write_bytes (mem_of st2) ?src ?pat) st2) bs2"
    by (rule ran_write [OF R f(1)]) (use p1 write_bytes_outside [of _ ?src ?pat "mem_of st2"] in \<open>simp, blast\<close>)
  then have W: "ran st bs k [] (with_ram ?m (with_ram (write_bytes (mem_of st2) ?src ?pat) st2)) bs2"
  proof (rule ran_write [OF _ f(2)])
    fix a
    show "?m a = mem_of (with_ram (write_bytes (mem_of st2) ?src ?pat) st2) a \<or> payload q2 a"
    proof (cases "in_block a ?dst 2048")
      case False
      then have "\<not> in_block a ?dst 1024" "a \<noteq> ?dst + 1024" "a \<noteq> ?dst + 2000" using in_block_mono c1 by auto
      then show ?thesis using co [of a] by (simp add: m1_def fill)
    qed (use p2 in blast)
  qed
  obtain st3 where 3: "test_log ''test_memcpy'' (''[OK]   '' @ ''memcpy'') (with_ram ?m st2) = Some (Inr st3)"
    "ran st bs k (lit ''[OK]   memcpy'' @ [10]) st3 bs2"
    using ran_log [OF W, of "''[OK]   memcpy''" "''test_memcpy''"] by (auto simp: lit_def)
  obtain st4 bs4 where 4: "sh_kfree ?src st3 = Inr st4" "ran st bs k (lit ''[OK]   memcpy'' @ [10]) st4 bs4" "fresh bs q2 bs4"
    by (rule ran_free [OF 3(2) f(1)]) (use f(2, 3) that in blast)
  obtain st5 bs5 where 5: "sh_kfree ?dst st4 = Inr st5" "ran st bs k (lit ''[OK]   memcpy'' @ [10]) st5 bs5"
    by (rule ran_free [OF 4(2, 3)]) (use that in blast)
  have "\<not> list_ex (\<lambda>i. ?m (?dst + of_nat i) \<noteq> test_pattern i) [0..<1024]" using dst by (simp add: list_ex_iff)
  then have "test_memcpy st = Some (Inr st5)"
    unfolding test_memcpy_def 1(1) 2(1) run_bind_simps prod.case Let_def m1_def [symmetric]
    using can 3(1) 4(1) 5(1) by (simp add: test_pass_def frees_def)
  then show ?thesis using that 5(2) by blast
qed

lemma test_memset_passes:
  assumes "heap_room st bs (2072 + k)"
  obtains st' bs' where "test_memset st = Some (Inr st')" "ran st bs k (lit ''[OK]   memset'' @ [10]) st' bs'"
proof -
  have al: "aligned_size 2048 = 2048" by (simp add: aligned_size_def)
  have r: "heap_room st bs (24 + unat (aligned_size 2048) + k)" using assms by (simp add: al)
  obtain q st1 bs1 where 1: "sh_kalloc 2048 st = Some (Inr (at q + 24, st1))" "ran st bs k [] st1 bs1" "fresh bs q bs1"
    "unat (2048 :: u32) \<le> unat (bsize q)"
    by (rule ran_alloc [OF r]) (simp_all add: al)
  let ?p = "at q + 24"
  have p: "payload q a" if "in_block a ?p 2048" for a using in_block_mono [OF that] 1(4) by (simp add: payload_def)
  have c1: "in_block (?p + 1024) ?p 2048" "in_block (?p + 2000) ?p 2048"
    "\<not> in_block (?p + 1024) ?p 1024" "\<not> in_block (?p + 2000) ?p 1024" by (simp_all add: in_block_def)
  define m1 where "m1 = (mem_of st1)(?p + 1024 := 0x12, ?p + 2000 := 0x34)"
  let ?m = "memset m1 ?p 0x55 1024"
  have in1: "in_block (?p + of_nat i) ?p 1024" if "i < 1024" for i using that by (simp add: in_block_def unat_of_nat_u32)
  have W: "ran st bs k [] (with_ram ?m st1) bs1"
  proof (rule ran_write [OF 1(2, 3)])
    fix a
    show "?m a = mem_of st1 a \<or> payload q a"
    proof (cases "in_block a ?p 2048")
      case False
      then have "\<not> in_block a ?p 1024" "a \<noteq> ?p + 1024" "a \<noteq> ?p + 2000" using in_block_mono c1 by auto
      then show ?thesis by (simp add: m1_def memset_eq)
    qed (use p in blast)
  qed
  obtain st3 where 3: "test_log ''test_memset'' (''[OK]   '' @ ''memset'') (with_ram ?m st1) = Some (Inr st3)"
    "ran st bs k (lit ''[OK]   memset'' @ [10]) st3 bs1"
    using ran_log [OF W, of "''[OK]   memset''" "''test_memset''"] by (auto simp: lit_def)
  obtain st4 bs4 where 4: "sh_kfree ?p st3 = Inr st4" "ran st bs k (lit ''[OK]   memset'' @ [10]) st4 bs4"
    by (rule ran_free [OF 3(2) 1(3)]) (use that in blast)
  have "\<not> list_ex (\<lambda>i. ?m (?p + of_nat i) \<noteq> 0x55) [0..<1024]" using in1 by (simp add: list_ex_iff memset_eq)
  moreover have "?m (?p + 1024) = 0x12" "?m (?p + 2000) = 0x34" using c1(3, 4) by (simp_all add: memset_eq m1_def)
  ultimately have "test_memset st = Some (Inr st4)"
    unfolding test_memset_def 1(1) run_bind_simps prod.case Let_def m1_def [symmetric]
    using 3(1) 4(1) by (simp add: test_pass_def frees_def)
  then show ?thesis using that 4(2) by blast
qed

text \<open>\<open>kallocz\<close> through the shell: the block is clear.\<close>

lemma ran_kallocz:
  assumes "heap_room st bs (1048 + k)"
  obtains q st1 bs1 where "sh_kallocz 1024 st = Some (Inr (at q + 24, st1))" "ran st bs k [] st1 bs1" "fresh bs q bs1"
    "\<And>a. in_block a (at q + 24) 1024 \<Longrightarrow> payload q a"
    "\<not> list_ex (\<lambda>i. mem_of st1 (at q + 24 + of_nat i) \<noteq> 0) [0..<1024]"
proof -
  have al: "aligned_size 1024 = 1024" by (simp add: aligned_size_def)
  have r: "heap_room st bs (24 + unat (aligned_size 1024) + k)" using assms by (simp add: al)
  obtain q st1 bs1 where 1: "sh_kalloc 1024 st = Some (Inr (at q + 24, st1))" "ran st bs k [] st1 bs1" "fresh bs q bs1"
    "unat (1024 :: u32) \<le> unat (bsize q)"
    by (rule ran_alloc [OF r]) (simp_all add: al)
  let ?m = "memset (mem_of st1) (at q + 24) 0 1024"
  have p: "payload q a" if "in_block a (at q + 24) 1024" for a using in_block_mono [OF that] 1(4) by (simp add: payload_def)
  obtain h where h: "kalloc (hp st) 1024 = Some (Inr (at q + 24, h))" "st1 = st\<lparr>hp := h\<rparr>"
    using 1(1) by (cases "kalloc (hp st) 1024"; cases "the (kalloc (hp st) 1024)") (auto simp: sh_kalloc_def split: prod.splits)
  have "ran st bs k [] (with_ram ?m st1) bs1"
    by (rule ran_write [OF 1(2, 3)]) (use p in \<open>auto simp: memset_eq\<close>)
  moreover have "sh_kallocz 1024 st = Some (Inr (at q + 24, with_ram ?m st1))"
    using h by (simp add: sh_kallocz_def kallocz_def with_ram_def mem_of_def)
  moreover have "in_block (at q + 24 + of_nat i) (at q + 24) 1024" if "i < 1024" for i
    using that by (simp add: in_block_def unat_of_nat_u32)
  then have "\<not> list_ex (\<lambda>i. mem_of (with_ram ?m st1) (at q + 24 + of_nat i) \<noteq> 0) [0..<1024]"
    by (simp add: list_ex_iff memset_eq)
  ultimately show ?thesis using that [of q "with_ram ?m st1" bs1] 1(3) p by blast
qed

lemma test_kallocz_passes:
  assumes "heap_room st bs (2096 + k)"
  obtains st' bs' where "test_kallocz st = Some (Inr st')" "ran st bs k (lit ''[OK]   kallocz'' @ [10]) st' bs'"
proof -
  have r1: "heap_room st bs (1048 + (1048 + k))" using assms by simp
  obtain q1 st1 bs1 where 1: "sh_kallocz 1024 st = Some (Inr (at q1 + 24, st1))" "ran st bs (1048 + k) [] st1 bs1" "fresh bs q1 bs1"
    "\<And>a. in_block a (at q1 + 24) 1024 \<Longrightarrow> payload q1 a"
    "\<not> list_ex (\<lambda>i. mem_of st1 (at q1 + 24 + of_nat i) \<noteq> 0) [0..<1024]"
    by (rule ran_kallocz [OF r1]) (rule that, assumption+)
  let ?m = "memset (mem_of st1) (at q1 + 24) 0x55 1024"
  have W: "ran st bs (1048 + k) [] (with_ram ?m st1) bs1"
    by (rule ran_write [OF 1(2, 3)]) (use 1(4) in \<open>auto simp: memset_eq\<close>)
  obtain st2 bs2 where 2: "sh_kfree (at q1 + 24) (with_ram ?m st1) = Inr st2" "ran st bs (1048 + k) [] st2 bs2"
    by (rule ran_free [OF W 1(3)]) (use that in blast)
  have r2: "heap_room st2 bs2 (1048 + k)" using 2(2) by (simp add: ran_def)
  obtain q3 st3 bs3 where 3: "sh_kallocz 1024 st2 = Some (Inr (at q3 + 24, st3))" "ran st2 bs2 k [] st3 bs3" "fresh bs2 q3 bs3"
    "\<not> list_ex (\<lambda>i. mem_of st3 (at q3 + 24 + of_nat i) \<noteq> 0) [0..<1024]"
    by (rule ran_kallocz [OF r2]) (rule that, assumption+)
  have R: "ran st bs k [] st3 bs3" using ran_trans [OF 2(2) 3(2)] by simp
  have f: "fresh bs q3 bs3" using 2(2) 3(3) by (auto simp: fresh_def ran_def)
  obtain st4 where 4: "test_log ''test_kallocz'' (''[OK]   '' @ ''kallocz'') st3 = Some (Inr st4)"
    "ran st bs k (lit ''[OK]   kallocz'' @ [10]) st4 bs3"
    using ran_log [OF R, of "''[OK]   kallocz''" "''test_kallocz''"] by (auto simp: lit_def)
  obtain st5 bs5 where 5: "sh_kfree (at q3 + 24) st4 = Inr st5" "ran st bs k (lit ''[OK]   kallocz'' @ [10]) st5 bs5"
    by (rule ran_free [OF 4(2) f]) (use that in blast)
  have "test_kallocz st = Some (Inr st5)"
    unfolding test_kallocz_def 1(1) run_bind_simps prod.case if_not_P [OF 1(5)]
    using 2(1) 3(1, 4) 4(1) 5(1) by (simp add: test_pass_def frees_def)
  then show ?thesis using that 5(2) by blast
qed

section \<open>The tests of the hash table\<close>

definition digits10 :: "nat \<Rightarrow> nat list" where
  "digits10 i = (if i = 0 then [0] else udigits 10 i)"

lemma digits10: "decimal (int i) = map digit_char (rev (digits10 i))" "d \<in> set (digits10 i) \<Longrightarrow> d < 10" "undigits 10 (digits10 i) = i"
proof -
  show "decimal (int i) = map digit_char (rev (digits10 i))"
  proof (cases "i = 0")
    case True
    have "digit_char 0 = 48" by (simp add: digit_char_def)
    then show ?thesis using True by (simp add: decimal_def digits10_def)
  qed (simp add: decimal_def digits10_def)
  show "d \<in> set (digits10 i) \<Longrightarrow> d < 10" by (cases "i = 0") (use udigits_less [of d 10 i] in \<open>simp_all add: digits10_def\<close>)
  show "undigits 10 (digits10 i) = i" by (cases "i = 0") (simp_all add: digits10_def undigits_udigits)
qed

lemma decimal_inj: "decimal (int i) = decimal (int j) \<longleftrightarrow> i = j"
proof
  have u: "unat (digit_char d) = 48 + d" if "d < 10" for d using that by (simp add: unat_digit_char)
  have inj: "inj_on digit_char {..<10}"
  proof (rule inj_onI)
    fix d e assume "d \<in> {..<10}" "e \<in> {..<10}" "digit_char d = digit_char e"
    then show "d = e" using u [of d] u [of e] by (metis add_left_cancel lessThan_iff)
  qed
  assume "decimal (int i) = decimal (int j)"
  then have "map digit_char (rev (digits10 i)) = map digit_char (rev (digits10 j))" by (simp add: digits10(1))
  moreover have "set (rev (digits10 i)) \<union> set (rev (digits10 j)) \<subseteq> {..<10}" using digits10(2) by auto
  then have "inj_on digit_char (set (rev (digits10 i)) \<union> set (rev (digits10 j)))" by (rule inj_on_subset [OF inj])
  ultimately have "rev (digits10 i) = rev (digits10 j)" by (rule map_inj_on)
  then have "undigits 10 (digits10 i) = undigits 10 (digits10 j)" by simp
  then show "i = j" by (simp only: digits10(3))
qed simp

definition key_text :: "nat \<Rightarrow> cstring" where
  "key_text i = lit ''key_'' @ decimal (int i)"

lemma test_key: "i < 2147483648 \<Longrightarrow> test_key i = Inr (key_text i)"
proof -
  assume "i < 2147483648"
  then have "sint (of_nat i :: u32) = int i" by (simp add: signed_of_nat signed_take_bit_int_eq_self)
  then show ?thesis by (simp add: test_key_def key_text_def lit_def format_steps)
qed

definition key_bindings :: "nat list \<Rightarrow> (cstring \<times> u32) list" where
  "key_bindings is = map (\<lambda>i. (key_text i, of_nat i)) is"

lemma put_keys:
  assumes "\<forall>i \<in> set is. i < 2147483648" "tbl.update_all t (key_bindings is) = Some t'"
  shows "run_each (\<lambda>i table. run_bind (Some (test_key i)) (\<lambda>k. htbl_put table k (of_nat i))) is t = Some (Inr t')"
  using assms
proof (induction "is" arbitrary: t)
  case (Cons i "is")
  obtain t1 where t1: "htbl_update t (key_text i) (of_nat i) = Some t1" "tbl.update_all t1 (key_bindings is) = Some t'"
    using Cons.prems(2) by (auto simp: key_bindings_def bind_eq_Some_conv)
  then have "htbl_put t (key_text i) (of_nat i) = Some (Inr t1)" by (auto simp: htbl_update_def split: option.splits sum.splits)
  then show ?case using Cons t1(2) by (simp add: test_key)
qed (simp add: key_bindings_def)

lemma check_keys_ok:
  "\<forall>i \<in> set is. i < 2147483648 \<and> htbl_get t (key_text i) = Some (Inr (Some (of_nat i))) \<Longrightarrow> check_keys t is = Some (Inr True)"
  by (induction "is") (simp_all add: test_key ptr_of_def)

lemma test_htbl_expand_passes:
  assumes "heap_room st bs k"
  obtains st' where "test_htbl_expand st = Some (Inr st')" "ran st bs k (lit ''[OK]   htbl_expand'' @ [10]) st' bs" "hp st' = hp st"
proof -
  note C = htbl_create_ok [where ?'v = u32]
  have "tbl.admits_all htbl_create (key_bindings [0..<100])"
    using C by (intro htbl_admits_all) (auto simp: key_bindings_def)
  then obtain t where t: "tbl.update_all htbl_create (key_bindings [0..<100]) = Some t" "htbl_ok t"
    "\<forall>k. htbl_lookup t k = (case map_of (rev (key_bindings [0..<100])) k of Some v \<Rightarrow> Some v | None \<Rightarrow> htbl_lookup htbl_create k)"
    using tbl.update_all_lookup [of htbl_create "key_bindings [0..<100]"] C by auto
  have get: "htbl_get t (key_text i) = Some (Inr (Some (of_nat i)))" if "i < 100" for i
  proof -
    have "distinct (map fst (rev (key_bindings [0..<100])))"
      by (auto simp: key_bindings_def rev_map comp_def distinct_map inj_on_def key_text_def decimal_inj)
    moreover have "(key_text i, of_nat i) \<in> set (rev (key_bindings [0..<100]))" using that by (auto simp: key_bindings_def)
    ultimately have "map_of (rev (key_bindings [0..<100])) (key_text i) = Some (of_nat i)" by (rule map_of_is_SomeI)
    then show ?thesis using t(2, 3) by (simp add: htbl_lookup_map htbl_get_ok)
  qed
  obtain st' where l: "test_log ''test_htbl_expand'' (''[OK]   '' @ ''htbl_expand'') st = Some (Inr st')"
    "ran st bs k ([] @ lit ''[OK]   htbl_expand'' @ [10]) st' bs" "hp st' = hp st"
    by (rule ran_log [OF ran_refl [OF assms], of "''[OK]   htbl_expand''" "''test_htbl_expand''"]) (auto simp: lit_def intro: that)
  have p: "run_each (\<lambda>i table. run_bind (Some (test_key i)) (\<lambda>k. htbl_put table k (of_nat i))) [0..<100] htbl_create = Some (Inr t)"
    by (rule put_keys [OF _ t(1)]) simp
  have c: "check_keys t [0..<100] = Some (Inr True)" by (rule check_keys_ok) (simp add: get)
  have "test_htbl_expand st = Some (Inr st')"
    unfolding test_htbl_expand_def p run_bind_simps c using l(1) by (simp add: test_pass_def)
  then show ?thesis using that l by simp
qed

lemma test_htbl_passes:
  assumes "heap_room st bs k" "cstr (mem_of st) v1 (lit ''value 1'')" "cstr (mem_of st) v2 (lit ''value 2'')" "v1 \<noteq> 0" "v2 \<noteq> 0"
  obtains st' where "test_htbl v1 v2 st = Some (Inr st')" "ran st bs k (lit ''[OK]   htbl'' @ [10]) st' bs" "hp st' = hp st"
proof -
  note C = htbl_create_ok [where ?'v = u32]
  obtain t1 where t1: "htbl_put htbl_create (lit ''foo'') v1 = Some (Inr t1)" "htbl_ok t1" "htbl_map t1 = [lit ''foo'' \<mapsto> v1]" "capacity t1 = 32"
    using htbl_put_ok [of "htbl_create :: u32 htbl" "lit ''foo''" v1] C by (auto simp: can_grow_def)
  obtain t2 where t2: "htbl_put t1 (lit ''bar'') v2 = Some (Inr t2)" "htbl_ok t2" "htbl_map t2 = [lit ''foo'' \<mapsto> v1, lit ''bar'' \<mapsto> v2]"
    using htbl_put_ok [OF t1(2), of "lit ''bar''" v2] t1 by (auto simp: can_grow_def)
  have g: "htbl_get t2 (lit ''foo'') = Some (Inr (Some v1))" "htbl_get t2 (lit ''bar'') = Some (Inr (Some v2))"
    using htbl_get_ok [OF t2(2)] by (auto simp: t2(3) lit_def)
  have "format_text (mem_str (mem_of st)) (lit ''k1_res: %p, k2_res: %p'') [v1, v2]
      = Inr (lit ''k1_res: '' @ hex8 True v1 @ lit '', k2_res: '' @ hex8 True v2)"
    by (simp add: lit_def format_steps)
  then obtain st1 where 1: "sh_debug ''test_htbl'' (lit ''k1_res: %p, k2_res: %p'') [v1, v2] st = Inr st1" "ran st bs k [] st1 bs" "hp st1 = hp st"
    by (rule ran_debug [OF ran_refl [OF assms(1)]]) (rule that)
  have m: "mem_of st1 = mem_of st" using 1(3) by (simp add: mem_of_def)
  have s: "strcmp_lit (lit ''value 1'') (mem_of st) v1 = 0" "strcmp_lit (lit ''value 2'') (mem_of st) v2 = 0"
    using strcmp_lit_cstr [OF assms(2)] strcmp_lit_cstr [OF assms(3)] by (simp_all add: strdiff_0_iff cstr_ok [OF assms(2)] cstr_ok [OF assms(3)])
  obtain st' where l: "test_log ''test_htbl'' (''[OK]   '' @ ''htbl'') st1 = Some (Inr st')"
    "ran st bs k ([] @ lit ''[OK]   htbl'' @ [10]) st' bs" "hp st' = hp st1"
    by (rule ran_log [OF 1(2), of "''[OK]   htbl''" "''test_htbl''"]) (auto simp: lit_def intro: that)
  have "test_htbl v1 v2 st = Some (Inr st')"
    unfolding test_htbl_def t1(1) t2(1) g run_bind_simps using 1(1) assms(4, 5) l(1) s m by (simp add: ptr_of_def test_pass_def)
  then show ?thesis using that l 1(3) by simp
qed

section \<open>The property\<close>

definition selftest_report :: cstring where
  "selftest_report = lit ''[OK]   memcpy'' @ [10] @ lit ''[OK]   memset'' @ [10] @ lit ''[OK]   kallocz'' @ [10]
     @ lit ''[OK]   htbl'' @ [10] @ lit ''[OK]   htbl_expand'' @ [10]"


text \<open>The strings at 0x800 and 0x900, below a heap of 64 KiB.\<close>

definition selftest_mem :: mem where
  "selftest_mem = write_bytes (write_bytes (\<lambda>_. 0) 0x800 (lit ''value 1'' @ [0])) 0x900 (lit ''value 2'' @ [0])"

definition selftest0 :: "(nat, nat) sh" where
  "selftest0 = (shell0 [])\<lparr>hp := heap1 selftest_mem []\<rparr>"


end
