(* ===== verification/Keyboard.thy ===== *)
theory Keyboard
  imports Stdio Pio
begin

text \<open>
  The keyboard (\<open>kern/io/keyboard.c\<close>): scan codes become characters. The hardware is a
  parameter: the ports of theory Pio and what happens while the processor is halted, whether
  the keyboard's interrupt arrives. An interrupt between the test of \<open>available\<close> and
  \<open>hlt\<close> is not distinguished from one that arrives during it. The keyboard is a
  \<open>char_source\<close>, so a typed line reaches \<open>gets\<close>.
\<close>

section \<open>The code\<close>

definition KB_REG_DATA :: u16 where "KB_REG_DATA = 0x60"
definition KB_LSHIFT :: u8 where "KB_LSHIFT = 42"
definition KB_RSHIFT :: u8 where "KB_RSHIFT = 54"
definition KB_UP_LSHIFT :: u8 where "KB_UP_LSHIFT = 170"

record 'h kb =
  shift :: int
  available :: int
  kb_hw :: 'h

definition scancode_pc104_lut :: "u8 list" where
  "scancode_pc104_lut =
     [0, 0x13, 49, 50, 51, 52, 53, 54, 55, 56, 57, 48, 45, 61, 8,
      9, 113, 119, 101, 114, 116, 121, 117, 105, 111, 112, 91, 93, 10,
      0, 97, 115, 100, 102, 103, 104, 106, 107, 108, 59, 39,
      0, 0, 0, 122, 120, 99, 118, 98, 110, 109, 44, 46, 47,
      0, 0, 0, 32]"

definition scancode_pc104_shift_lut :: "u8 list" where
  "scancode_pc104_shift_lut =
     [0, 0x13, 33, 64, 35, 36, 37, 94, 38, 42, 40, 41, 95, 43, 8,
      9, 81, 87, 69, 82, 84, 89, 85, 73, 79, 80, 123, 125, 10,
      0, 65, 83, 68, 70, 71, 72, 74, 75, 76, 58, 34,
      0, 0, 0, 90, 88, 67, 86, 66, 78, 77, 60, 62, 63,
      0, 0, 0, 32]"

definition keyboard_handle_irq :: "'h kb \<Rightarrow> 'h kb" where
  "keyboard_handle_irq kb = kb\<lparr>available := 1\<rparr>"

text \<open>\<open>hlt\<close> returns after an interrupt; the keyboard's runs the handler.\<close>

definition kb_hlt :: "('h \<Rightarrow> bool \<times> 'h) \<Rightarrow> 'h kb \<Rightarrow> 'h kb" where
  "kb_hlt hlt kb = (let (irq, h) = hlt (kb_hw kb); kb = kb\<lparr>kb_hw := h\<rparr>
     in if irq then keyboard_handle_irq kb else kb)"

partial_function (option) keyboard_poll_scancode ::
  "('h \<Rightarrow> bool \<times> 'h) \<Rightarrow> 'h ports \<Rightarrow> 'h kb \<Rightarrow> (u8 \<times> 'h kb) option" where
  "keyboard_poll_scancode hlt io kb =
     (if available kb = 0 then keyboard_poll_scancode hlt io (kb_hlt hlt kb)
      else let (c, h) = inb io KB_REG_DATA (kb_hw kb) in Some (c, kb\<lparr>available := 0, kb_hw := h\<rparr>))"

definition keyboard_available :: "'h kb \<Rightarrow> int" where
  "keyboard_available kb = available kb"

text \<open>The test uses \<open>>\<close>: the code that equals the size of the tables is read past their end.\<close>

definition keyboard_convert_scancode :: "'h kb \<Rightarrow> u8 \<Rightarrow> u8 outcome" where
  "keyboard_convert_scancode kb scancode =
     (if length scancode_pc104_lut < unat scancode then Inr 0
      else let lut = (if shift kb \<noteq> 0 then scancode_pc104_shift_lut else scancode_pc104_lut)
        in if unat scancode < length lut then Inr (lut ! unat scancode) else Inl WildAccess)"

definition getchar_step :: "u8 \<Rightarrow> 'h kb \<Rightarrow> u8 \<Rightarrow> (u8 \<times> 'h kb) outcome" where
  "getchar_step code kb raw_code =
     (if raw_code = KB_LSHIFT \<or> raw_code = KB_RSHIFT then Inr (code, kb\<lparr>shift := 1\<rparr>)
      else if raw_code = KB_UP_LSHIFT \<or> raw_code = KB_UP_LSHIFT then Inr (code, kb\<lparr>shift := 0\<rparr>)
      else bind_outcome (keyboard_convert_scancode kb raw_code) (\<lambda>code. Inr (code, kb)))"

partial_function (option) keyboard_getchar_loop ::
  "('h \<Rightarrow> bool \<times> 'h) \<Rightarrow> 'h ports \<Rightarrow> int \<Rightarrow> u8 \<Rightarrow> 'h kb \<Rightarrow> (u8 \<times> 'h kb) outcome option" where
  "keyboard_getchar_loop hlt io retry code kb =
     Option.bind (keyboard_poll_scancode hlt io kb) (\<lambda>(raw_code, kb).
       run_bind (Some (getchar_step code kb raw_code)) (\<lambda>(code, kb).
         if retry \<noteq> 0 \<and> code = 0 then keyboard_getchar_loop hlt io retry code kb
         else Some (Inr (code, kb))))"

definition keyboard_getchar ::
  "('h \<Rightarrow> bool \<times> 'h) \<Rightarrow> 'h ports \<Rightarrow> int \<Rightarrow> 'h kb \<Rightarrow> (u8 \<times> 'h kb) outcome option" where
  "keyboard_getchar hlt io retry kb = keyboard_getchar_loop hlt io retry 0 kb"

definition chardev_getc :: "('h \<Rightarrow> bool \<times> 'h) \<Rightarrow> 'h ports \<Rightarrow> 'h kb get_char" where
  "chardev_getc hlt io = keyboard_getchar hlt io 1"

section \<open>What the keys mean\<close>

text \<open>
  The scan codes that a keyboard still has to deliver; a code raises the interrupt and is read
  from the data port.
\<close>

definition kb_device :: "('h \<Rightarrow> u8 list) \<Rightarrow> ('h \<Rightarrow> bool \<times> 'h) \<Rightarrow> 'h ports \<Rightarrow> bool" where
  "kb_device pending hlt io \<longleftrightarrow>
     (\<forall>h. pending h \<noteq> [] \<longrightarrow> fst (hlt h) \<and> pending (snd (hlt h)) = pending h
        \<and> fst (inb io KB_REG_DATA h) = hd (pending h) \<and> pending (snd (inb io KB_REG_DATA h)) = tl (pending h))"

text \<open>A key as the tables have it; none for a key that makes no character.\<close>

definition key_char :: "bool \<Rightarrow> u8 \<Rightarrow> u8 list" where
  "key_char shifted k =
     (if k \<in> {42, 54, 170} \<or> 58 \<le> k then []
      else let c = (if shifted then scancode_pc104_shift_lut else scancode_pc104_lut) ! unat k
        in if c = 0 then [] else [c])"

definition shift_after :: "bool \<Rightarrow> u8 \<Rightarrow> bool" where
  "shift_after shifted k = (if k = 42 \<or> k = 54 then True else if k = 170 then False else shifted)"

fun typed_text :: "bool \<Rightarrow> u8 list \<Rightarrow> u8 list" where
  "typed_text shifted [] = []"
| "typed_text shifted (k # ks) = key_char shifted k @ typed_text (shift_after shifted k) ks"

lemma luts [simp]: "length scancode_pc104_lut = 58" "length scancode_pc104_shift_lut = 58"
  by (simp_all add: scancode_pc104_lut_def scancode_pc104_shift_lut_def)

lemma kb_deviceD:
  assumes "kb_device pending hlt io" "pending h = k # ks"
  obtains h1 h2 where "hlt h = (True, h1)" "pending h1 = k # ks"
    "inb io KB_REG_DATA h = (k, h2)" "pending h2 = ks"
  using assms by (cases "hlt h"; cases "inb io KB_REG_DATA h") (auto simp: kb_device_def dest!: spec [of _ h])

lemma poll_delivers:
  assumes dev: "kb_device pending hlt io" and p: "pending (kb_hw kb) = k # ks"
  obtains h where "keyboard_poll_scancode hlt io kb = Some (k, kb\<lparr>available := 0, kb_hw := h\<rparr>)" "pending h = ks"
proof -
  have ready: "\<exists>h. keyboard_poll_scancode hlt io kb = Some (k, kb\<lparr>available := 0, kb_hw := h\<rparr>) \<and> pending h = ks"
    if "pending (kb_hw kb) = k # ks" "available kb \<noteq> 0" for kb
    using kb_deviceD [OF dev that(1)] that(2) by (subst keyboard_poll_scancode.simps) (metis (mono_tags, lifting) case_prod_conv)
  show ?thesis
  proof (cases "available kb = 0")
    case True
    obtain h1 where h1: "hlt (kb_hw kb) = (True, h1)" "pending h1 = k # ks" using kb_deviceD [OF dev p] by metis
    let ?kb = "kb\<lparr>kb_hw := h1, available := 1\<rparr>"
    obtain h where "keyboard_poll_scancode hlt io ?kb = Some (k, ?kb\<lparr>available := 0, kb_hw := h\<rparr>)" "pending h = ks"
      using ready [of ?kb] h1(2) by auto
    then show ?thesis using that True h1(1)
      by (subst (asm) (2) keyboard_poll_scancode.simps) (simp add: kb_hlt_def keyboard_handle_irq_def)
  qed (use ready [OF p] that in blast)
qed

lemma getchar_step_key:
  assumes "k \<noteq> 58"
  obtains kb' where "getchar_step 0 kb k = Inr (case key_char (shift kb \<noteq> 0) k of [] \<Rightarrow> 0 | c # _ \<Rightarrow> c, kb')"
    "kb_hw kb' = kb_hw kb" "(shift kb' \<noteq> 0) = shift_after (shift kb \<noteq> 0) k"
proof (cases "k \<in> {42, 54, 170}")
  case True
  then show ?thesis using that
    by (auto simp: getchar_step_def key_char_def shift_after_def KB_LSHIFT_def KB_RSHIFT_def KB_UP_LSHIFT_def)
next
  case False
  have "unat k \<noteq> unat (58 :: u8)" using assms by (simp only: word_unat_eq_iff [symmetric] not_False_eq_True)
  moreover have "58 \<le> k \<longleftrightarrow> unat (58 :: u8) \<le> unat k" by (simp only: word_le_nat_alt)
  ultimately have le: "unat k < 58 \<longleftrightarrow> \<not> 58 \<le> k" "58 < unat k \<longleftrightarrow> 58 \<le> k" by auto
  show ?thesis using that [of kb] False
    by (auto simp: getchar_step_def keyboard_convert_scancode_def key_char_def shift_after_def KB_LSHIFT_def
      KB_RSHIFT_def KB_UP_LSHIFT_def Let_def le split: if_splits)
qed

definition kb_delivers :: "('h \<Rightarrow> u8 list) \<Rightarrow> ('h \<Rightarrow> bool \<times> 'h) \<Rightarrow> 'h ports \<Rightarrow> 'h kb \<Rightarrow> u8 list \<Rightarrow> bool" where
  "kb_delivers pending hlt io kb cs \<longleftrightarrow> kb_device pending hlt io \<and> 58 \<notin> set (pending (kb_hw kb))
     \<and> typed_text (shift kb \<noteq> 0) (pending (kb_hw kb)) = cs"

lemma key_char_nonzero: "c \<in> set (key_char shifted k) \<Longrightarrow> c \<noteq> 0 \<and> key_char shifted k = [c]"
  by (auto simp: key_char_def Let_def split: if_splits)

lemma getchar_loop_delivers:
  assumes dev: "kb_device pending hlt io"
  shows "pending (kb_hw kb) = ks \<Longrightarrow> 58 \<notin> set ks \<Longrightarrow> typed_text (shift kb \<noteq> 0) ks = c # cs \<Longrightarrow>
    \<exists>kb'. keyboard_getchar_loop hlt io 1 0 kb = Some (Inr (c, kb')) \<and> kb_delivers pending hlt io kb' cs"
proof (induction ks arbitrary: kb)
  case (Cons k ks)
  obtain h where poll: "keyboard_poll_scancode hlt io kb = Some (k, kb\<lparr>available := 0, kb_hw := h\<rparr>)"
    and h: "pending h = ks" using poll_delivers [OF dev Cons.prems(1)] by metis
  let ?kb = "kb\<lparr>available := 0, kb_hw := h\<rparr>"
  have "k \<noteq> 58" using Cons.prems(2) by auto
  then obtain kb' where step: "getchar_step 0 ?kb k = Inr (case key_char (shift ?kb \<noteq> 0) k of [] \<Rightarrow> 0 | c # _ \<Rightarrow> c, kb')"
    "kb_hw kb' = kb_hw ?kb" "(shift kb' \<noteq> 0) = shift_after (shift ?kb \<noteq> 0) k" by (rule getchar_step_key)
  show ?case
  proof (cases "key_char (shift kb \<noteq> 0) k")
    case Nil
    then have "\<exists>kb''. keyboard_getchar_loop hlt io 1 0 kb' = Some (Inr (c, kb'')) \<and> kb_delivers pending hlt io kb'' cs"
      using Cons.prems h step(2,3) by (intro Cons.IH) auto
    then show ?thesis using Nil step(1) by (subst keyboard_getchar_loop.simps) (simp add: poll)
  next
    case (Cons d ds)
    then have d: "d \<noteq> 0" "key_char (shift kb \<noteq> 0) k = [d]" using key_char_nonzero [of d "shift kb \<noteq> 0" k] by auto
    then have "keyboard_getchar_loop hlt io 1 0 kb = Some (Inr (d, kb'))"
      using step(1) by (subst keyboard_getchar_loop.simps) (simp add: poll)
    moreover have "d = c \<and> kb_delivers pending hlt io kb' cs"
      using Cons.prems d(2) h step(2,3) dev by (auto simp: kb_delivers_def)
    ultimately show ?thesis by blast
  qed
qed simp

interpretation keyboard: char_source "chardev_getc hlt io" "kb_delivers pending hlt io" for pending hlt io
proof unfold_locales
  fix kb :: "'a kb" and c cs
  assume "kb_delivers pending hlt io kb (c # cs)"
  then show "\<exists>k. chardev_getc hlt io kb = Some (Inr (c, k)) \<and> kb_delivers pending hlt io k cs"
    using getchar_loop_delivers [of pending hlt io kb _ c cs]
    by (auto simp: chardev_getc_def keyboard_getchar_def kb_delivers_def)
qed

lemma gets_line_typed:
  assumes "kb_device pending hlt io" "58 \<notin> set (pending (kb_hw (stdin_dev st)))"
    and "typed_text (shift (stdin_dev st) \<noteq> 0) (pending (kb_hw (stdin_dev st))) = cs @ 10 # rest" "10 \<notin> set cs"
    and "m (buf - 1) \<noteq> 10" "unat buf + length cs < 4294967295"
  shows "\<exists>m' st'. gets (chardev_getc hlt io) buf m st = Some (Inr (m', st'))
    \<and> cstr m' buf (edit [] cs) \<and> (\<forall>a. \<not> in_block a buf (Suc (length cs)) \<longrightarrow> m' a = m a)
    \<and> typed_text (shift (stdin_dev st') \<noteq> 0) (pending (kb_hw (stdin_dev st'))) = rest
    \<and> stdout_text st' = (if should_echo st \<noteq> 0 then map_option (\<lambda>t. t @ echoed [] cs @ [10]) (stdout_text st)
        else stdout_text st)"
proof -
  have "0 \<notin> set (typed_text s ks)" for s ks
    using key_char_nonzero by (induction ks arbitrary: s) fastforce+
  from this [of "shift (stdin_dev st) \<noteq> 0" "pending (kb_hw (stdin_dev st))"]
  have ok: "cstring_ok cs" using assms(3) by (simp add: cstring_ok_def)
  have "kb_delivers pending hlt io (stdin_dev st) (cs @ 10 # rest)" using assms by (simp add: kb_delivers_def)
  from keyboard.gets_loop_line [OF this assms(4) ok, of m buf "[]"] assms(5,6)
  show ?thesis by (auto simp: gets_def kb_delivers_def)
qed

section \<open>The properties\<close>

text \<open>
  C22: A line typed on the keyboard reaches the buffer of \<open>gets\<close>, whatever keys it takes:
  \<open>gets\<close> returns, the buffer holds the edited text of the characters that the keys make before
  the first newline, bytes beyond are unchanged, the echo is what was typed except backspaces
  on an empty line, and the keys after the newline are left. This needs the byte in front of the
  buffer not to be a newline, room for every typed character, and no key of code 58, Caps Lock.
\<close>

theorem gets_typed_line:
  assumes "kb_device pending hlt io" "58 \<notin> set (pending (kb_hw (stdin_dev st)))"
    and "typed_text (shift (stdin_dev st) \<noteq> 0) (pending (kb_hw (stdin_dev st))) = cs @ 10 # rest" "10 \<notin> set cs"
    and "m (buf - 1) \<noteq> 10" "unat buf + length cs < 4294967295"
  shows "\<exists>m' st'. gets (chardev_getc hlt io) buf m st = Some (Inr (m', st'))
    \<and> cstr m' buf (edit [] cs) \<and> (\<forall>a. \<not> in_block a buf (Suc (length cs)) \<longrightarrow> m' a = m a)
    \<and> typed_text (shift (stdin_dev st') \<noteq> 0) (pending (kb_hw (stdin_dev st'))) = rest
    \<and> stdout_text st' = (if should_echo st \<noteq> 0 then map_option (\<lambda>t. t @ echoed [] cs @ [10]) (stdout_text st)
        else stdout_text st)"
  using assms by (rule gets_line_typed)

text \<open>A keyboard whose keys are the elements of a list; \<open>a\<close>, backspace, \<open>b\<close> and return are typed.\<close>

definition key_list_ports :: "u8 list ports" where
  "key_list_ports = \<lparr>outb = (\<lambda>_ _ h. h), inb = (\<lambda>_ h. (hd h, tl h)), outw = (\<lambda>_ _ h. h), inw = (\<lambda>_ h. (0, h)),
     outl = (\<lambda>_ _ h. h), inl = (\<lambda>_ h. (0, h))\<rparr>"

definition key_list_hlt :: "u8 list \<Rightarrow> bool \<times> u8 list" where
  "key_list_hlt h = (h \<noteq> [], h)"

lemma key_list_device: "kb_device (\<lambda>h. h) key_list_hlt key_list_ports"
  by (simp add: kb_device_def key_list_hlt_def key_list_ports_def)

definition key_list_io :: "u8 list \<Rightarrow> u8 list kb io" where
  "key_list_io ks = \<lparr>stdin_dev = \<lparr>shift = 0, available = 0, kb_hw = ks\<rparr>, stdout_text = Some [], dbgout_text = None,
     should_echo = 1, log_level = 5\<rparr>"

lemma gets_typed_line_witness:
  "\<exists>m' st'. gets (chardev_getc key_list_hlt key_list_ports) 0x1000 (\<lambda>_. 0) (key_list_io [30, 14, 48, 28])
      = Some (Inr (m', st')) \<and> cstr m' 0x1000 [98] \<and> stdout_text st' = Some [97, 8, 98, 10]"
proof -
  have "typed_text False [30, 14, 48, 28] = [97, 8, 98] @ 10 # []"
    by (simp add: key_char_def shift_after_def scancode_pc104_lut_def)
  with gets_typed_line [OF key_list_device, where st = "key_list_io [30, 14, 48, 28]" and cs = "[97, 8, 98]" and rest = "[]"
      and m = "\<lambda>_. 0" and buf = "0x1000"]
  show ?thesis by (auto simp: key_list_io_def)
qed

lemma caps_lock_overreads: "keyboard_convert_scancode kb 58 = Inl WildAccess"
  by (simp add: keyboard_convert_scancode_def Let_def)

text \<open>
  The release of the right shift key, code 182, is not recognised: the \<open>a\<close> that follows it is
  a capital, until the left one is released.
\<close>

lemma right_shift_sticks:
  "typed_text False [54, 182, 30] = [65]" "typed_text False [42, 170, 30] = [97]"
  by (simp_all add: key_char_def shift_after_def scancode_pc104_lut_def scancode_pc104_shift_lut_def)

end
