(* ===== verification/Conlib.thy ===== *)
theory Conlib
  imports Stdio Kconfig
begin

text \<open>
  Drawing on the console (\<open>kern/io/conlib.c\<close>). The device is found through the configuration,
  which holds the address of the variable \<open>stdout\<close>; that address is the parameter \<open>out_var\<close>.
\<close>

section \<open>The code\<close>

text \<open>\<open>*(chardev_t**)config_getobj("sys:&stdout")\<close>, dereferenced.\<close>

definition cl_output :: "u32 \<Rightarrow> config \<Rightarrow> 'i io \<Rightarrow> unit outcome option" where
  "cl_output out_var conf st = run_bind (config_getobj conf (lit ''sys:&stdout'')) (\<lambda>p.
     Some (if p = out_var \<and> stdout_text st \<noteq> None then Inr () else Inl WildAccess))"

definition cl_repeat :: "u32 \<Rightarrow> config \<Rightarrow> u8 \<Rightarrow> int \<Rightarrow> 'i io \<Rightarrow> 'i io outcome option" where
  "cl_repeat out_var conf c n st = run_bind (cl_output out_var conf st) (\<lambda>_. Some (Inr ((putc c ^^ nat n) st)))"

text \<open>The main text of a row: \<open>content\<close> and \<open>left\<close> after the loop, and what is printed.\<close>

function box_text :: "mem \<Rightarrow> u32 \<Rightarrow> int \<Rightarrow> 'i io \<Rightarrow> u32 \<times> int \<times> 'i io" where
  "box_text m content left st =
     (if 0 < left \<and> m content \<noteq> 0
      then if m content = 10 then (content + 1, left, st)
           else box_text m (content + 1) (left - 1) (putc (m content) st)
      else (content, left, st))"
  by pat_completeness auto
termination
  by (relation "measure (\<lambda>(m, content, left, st). nat left)") auto

declare box_text.simps [simp del]

partial_function (option) box_rows :: "mem \<Rightarrow> u8 \<Rightarrow> int \<Rightarrow> u32 \<Rightarrow> 'i io \<Rightarrow> 'i io option" where
  "box_rows m v_edge nr_textchr content st =
     (if m content = 0 then Some st
      else let (content, left, st) = box_text m content nr_textchr (putc 32 (putc v_edge st));
               st = (putc 32 ^^ nat left) st
           in box_rows m v_edge nr_textchr content (putc 10 (putc v_edge (putc 32 st))))"

definition cl_box :: "u32 \<Rightarrow> config \<Rightarrow> mem \<Rightarrow> u8 \<Rightarrow> u8 \<Rightarrow> u8 \<Rightarrow> int \<Rightarrow> u32 \<Rightarrow> int \<Rightarrow> 'i io \<Rightarrow> 'i io outcome option" where
  "cl_box out_var conf m corner v_edge h_edge width content flags st =
     (let nr_textchr = width - 4 in
      run_bind (cl_output out_var conf st) (\<lambda>_.
      run_bind (cl_repeat out_var conf h_edge (nr_textchr + 2) (putc corner st)) (\<lambda>st.
      Option.bind (box_rows m v_edge nr_textchr content (putc 10 (putc corner st))) (\<lambda>st.
      run_bind (cl_repeat out_var conf h_edge (nr_textchr + 2) (putc corner st)) (\<lambda>st.
        Some (Inr (putc 10 (putc corner st))))))))"

section \<open>Boxes\<close>

text \<open>
  The rows of a text in a box with \<open>w\<close> columns for text: a newline ends a row, unless the row is
  already full, when it makes an empty row of its own.
\<close>

definition row_part :: "nat \<Rightarrow> cstring \<Rightarrow> cstring" where
  "row_part w s = takeWhile (\<lambda>c. c \<noteq> 10) (take w s)"

definition row_rest :: "nat \<Rightarrow> cstring \<Rightarrow> cstring" where
  "row_rest w s = (let t = row_part w s; r = drop (length t) s in
     if length t < w \<and> r \<noteq> [] then tl r else r)"

lemma row_rest_shorter: "0 < w \<Longrightarrow> s \<noteq> [] \<Longrightarrow> length (row_rest w s) < length s"
  by (cases s; cases w) (auto simp: row_rest_def row_part_def Let_def)

function wrap :: "nat \<Rightarrow> cstring \<Rightarrow> cstring list" where
  "wrap w s = (if w = 0 \<or> s = [] then [] else row_part w s # wrap w (row_rest w s))"
  by pat_completeness auto
termination
  by (relation "measure (\<lambda>(w, s). length s)") (auto simp: row_rest_shorter)

declare wrap.simps [simp del]

definition box_row :: "nat \<Rightarrow> u8 \<Rightarrow> cstring \<Rightarrow> cstring" where
  "box_row w v_edge t = [v_edge, 32] @ t @ replicate (w - length t) 32 @ [32, v_edge, 10]"

definition box_edge :: "nat \<Rightarrow> u8 \<Rightarrow> u8 \<Rightarrow> cstring" where
  "box_edge w corner h_edge = [corner] @ replicate (w + 2) h_edge @ [corner, 10]"

lemma box_text_row:
  assumes "cstr m p s"
  shows "box_text m p (int w) st = (p + of_nat (length s - length (row_rest w s)), int (w - length (row_part w s)),
    fold putc (row_part w s) st)"
  using assms
proof (induction w arbitrary: p s st)
  case 0
  then show ?case by (subst box_text.simps) (simp add: row_part_def row_rest_def)
next
  case (Suc w)
  show ?case
  proof (cases s)
    case Nil
    then show ?thesis using Suc.prems by (subst box_text.simps) (simp add: row_part_def row_rest_def)
  next
    case (Cons c t)
    then have c: "m p = c" "c \<noteq> 0" "cstr m (p + 1) t" using Suc.prems by (auto simp: cstring_ok_def)
    show ?thesis
    proof (cases "c = 10")
      case True
      then show ?thesis using Cons c by (subst box_text.simps) (simp add: row_part_def row_rest_def)
    next
      case False
      have "row_part (Suc w) s = c # row_part w t" "row_rest (Suc w) s = row_rest w t"
        using Cons False by (simp_all add: row_part_def row_rest_def Let_def)
      moreover have "length (row_rest w t) \<le> length t" by (simp add: row_rest_def Let_def)
      ultimately show ?thesis
        using Suc.IH [OF c(3)] c(1,2) Cons False by (subst box_text.simps) (simp add: Suc_diff_le algebra_simps)
    qed
  qed
qed

lemma row_rest_suffix: "\<exists>r. s = r @ row_rest w s"
proof -
  let ?t = "row_part w s"
  have "\<exists>r. drop (length ?t) s = r @ row_rest w s"
    by (cases "drop (length ?t) s") (auto simp: row_rest_def Let_def)
  then show ?thesis by (metis append_assoc append_take_drop_id)
qed

lemma box_rows_wrap:
  assumes "0 < w" "cstr m p s"
  shows "box_rows m v_edge (int w) p (st :: 'a io) = Some (fold putc (concat (map (box_row w v_edge) (wrap w s))) st)"
  using assms
proof (induction w s arbitrary: p st rule: wrap.induct)
  case (1 w s)
  show ?case
  proof (cases "s = []")
    case True
    then show ?thesis using 1(3) by (subst box_rows.simps) (simp add: wrap.simps)
  next
    case False
    have ne: "m p \<noteq> 0" using 1(3) False by (cases s) (auto simp: cstring_ok_def)
    let ?q = "p + of_nat (length s - length (row_rest w s))"
    obtain r where r: "s = r @ row_rest w s" using row_rest_suffix by blast
    then have "length r = length s - length (row_rest w s)" by (metis diff_add_inverse2 length_append)
    then have q: "cstr m ?q (row_rest w s)" using cstr_drop [of m p r "row_rest w s"] 1(3) r by simp
    have "box_text m p (int w) st = (?q, int (w - length (row_part w s)), fold putc (row_part w s) st)" for st :: "'a io"
      by (rule box_text_row [OF 1(3)])
    then have "box_rows m v_edge (int w) p st = box_rows m v_edge (int w) ?q (fold putc (box_row w v_edge (row_part w s)) st)"
      using ne by (subst box_rows.simps) (simp add: Let_def box_row_def)
    then show ?thesis using 1(1) [OF _ 1(2) q] 1(2) False by (simp add: wrap.simps [of w s])
  qed
qed

text \<open>In a box without room for text the loop stays at the first character.\<close>

lemma box_rows_stuck: "nr \<le> 0 \<Longrightarrow> m p \<noteq> 0 \<Longrightarrow> box_rows m v_edge nr p st = None"
proof (rule ccontr)
  assume nr: "nr \<le> 0" "m p \<noteq> 0" and "box_rows m v_edge nr p st \<noteq> None"
  then obtain st' where "box_rows m v_edge nr p st = Some st'" by blast
  then have "\<not> (nr \<le> 0 \<and> m p \<noteq> 0)"
    by (rule box_rows.raw_induct [where P = "\<lambda>m v_edge nr p st st'. \<not> (nr \<le> 0 \<and> m p \<noteq> 0)", rotated])
      (auto simp: Let_def box_text.simps split: if_splits)
  then show False using nr by blast
qed

section \<open>The property\<close>

text \<open>The configuration names the console, which is there.\<close>

definition console_named :: "u32 \<Rightarrow> config \<Rightarrow> 'i io \<Rightarrow> bool" where
  "console_named out_var conf st \<longleftrightarrow> config_getobj conf (lit ''sys:&stdout'') = Some (Inr out_var) \<and> stdout_text st \<noteq> None"

lemma cl_output_named: "console_named out_var conf st \<Longrightarrow> cl_output out_var conf st = Some (Inr ())"
  by (simp add: console_named_def cl_output_def)

lemma console_named_fold [simp]: "console_named out_var conf (fold putc s st) = console_named out_var conf st"
  by (simp add: console_named_def)

lemma cl_repeat_named:
  "console_named out_var conf st \<Longrightarrow> cl_repeat out_var conf c n st = Some (Inr (fold putc (replicate (nat n) c) st))"
  by (simp add: cl_repeat_def cl_output_named)

text \<open>
  C27: A box of width above 4 ends and sends exactly its edges and rows to the console, each row with as many
  columns as the edges; with a width of at most 4 and any text to show it never ends.
\<close>

theorem cl_box_draws:
  assumes "console_named out_var conf (st :: 'a io)" "cstr m p s"
  shows "(4 < width \<longrightarrow> cl_box out_var conf m corner v_edge h_edge width p flags st =
      (let w = nat (width - 4) in
       Some (Inr (fold putc (box_edge w corner h_edge @ concat (map (box_row w v_edge) (wrap w s)) @ box_edge w corner h_edge) st)))
      \<and> (\<forall>t \<in> set (wrap (nat (width - 4)) s). length (box_row (nat (width - 4)) v_edge t) = nat width + 1))
    \<and> (width \<le> 4 \<and> s \<noteq> [] \<longrightarrow> cl_box out_var conf m corner v_edge h_edge width p flags st = None)"
proof (intro conjI impI)
  have out: "cl_output out_var conf st = Some (Inr ())" by (rule cl_output_named [OF assms(1)])
  have rep: "cl_repeat out_var conf c n (fold putc t st) = Some (Inr (fold putc (t @ replicate (nat n) c) st))" for c n t
    using cl_repeat_named [of out_var conf "fold putc t st"] assms(1) by simp
  let ?box = "cl_box out_var conf m corner v_edge h_edge width p flags st" and ?w = "nat (width - 4)"
  have box: "?box = Option.bind (box_rows m v_edge (width - 4) p (fold putc ([corner] @ replicate (nat (width - 2)) h_edge @ [corner, 10]) st))
      (\<lambda>st. run_bind (cl_repeat out_var conf h_edge (width - 2) (putc corner st)) (\<lambda>st. Some (Inr (putc 10 (putc corner st)))))"
    using rep [of h_edge "width - 2" "[corner]"] by (simp add: cl_box_def Let_def out)
  show "?box = (let w = ?w in
      Some (Inr (fold putc (box_edge w corner h_edge @ concat (map (box_row w v_edge) (wrap w s)) @ box_edge w corner h_edge) st)))"
    if w: "4 < width"
  proof -
    have rows: "box_rows m v_edge (width - 4) p st' = Some (fold putc (concat (map (box_row ?w v_edge) (wrap ?w s))) st')" for st' :: "'a io"
      using box_rows_wrap [OF _ assms(2), of ?w v_edge st'] w by simp
    have e: "nat (width - 2) = ?w + 2" using w by simp
    have again: "cl_repeat out_var conf h_edge (width - 2) (putc corner (fold putc t st))
        = Some (Inr (fold putc (t @ [corner] @ replicate (?w + 2) h_edge) st))" for t
      using rep [of h_edge "width - 2" "t @ [corner]"] e by simp
    show ?thesis unfolding box rows Option.bind.bind_lunit Let_def
      using again [of "box_edge ?w corner h_edge @ concat (map (box_row ?w v_edge) (wrap ?w s))"]
      by (simp add: box_edge_def e)
  qed
  show "\<forall>t \<in> set (wrap ?w s). length (box_row ?w v_edge t) = nat width + 1" if w: "4 < width"
  proof -
    have "length t \<le> v" if "t \<in> set (wrap v s)" for t v
      using that by (induction v s rule: wrap.induct)
        (subst (asm) (2) wrap.simps, auto simp: row_part_def split: if_splits intro: le_trans [OF length_takeWhile_le])
    then show ?thesis using w by (fastforce simp: box_row_def)
  qed
  show "?box = None" if "width \<le> 4 \<and> s \<noteq> []"
  proof -
    have "m p \<noteq> 0" using assms(2) that by (cases s) (auto simp: cstring_ok_def)
    then have "box_rows m v_edge (width - 4) p st' = None" for st' :: "'a io"
      using that by (intro box_rows_stuck) simp_all
    then show ?thesis unfolding box by simp
  qed
qed

declare htbl_probe.simps [code] htbl_put.simps [code]

definition console_conf :: config where
  "console_conf = (case run_bind (config_newns config0 (lit ''sys'')) (\<lambda>st. config_setobj st (lit ''sys:&stdout'') 0x100) of
     Some (Inr c) \<Rightarrow> c | _ \<Rightarrow> config0)"

lemma console_conf_stdout: "config_getobj console_conf (lit ''sys:&stdout'') = Some (Inr 0x100)"
  by code_simp

definition console_io :: "unit io" where
  "console_io = \<lparr>stdin_dev = (), stdout_text = Some [], dbgout_text = None, should_echo = 1, log_level = 5\<rparr>"

text \<open>A text of two lines; the first one fills its row, so that its newline makes an empty one.\<close>

lemma cl_box_draws_witness:
  "map_option (map_sum id stdout_text) (cl_box 0x100 console_conf ((\<lambda>_. 0)(0x10 := 97, 0x11 := 98, 0x12 := 10, 0x13 := 99)) 43 124 45 6 0x10 0 console_io)
     = Some (Inr (Some (lit ''+----+'' @ [10] @ lit ''| ab |'' @ [10] @ lit ''|    |'' @ [10] @ lit ''| c  |'' @ [10] @ lit ''+----+'' @ [10])))
   \<and> cl_box 0x100 console_conf ((\<lambda>_. 0)(0x10 := 97, 0x11 := 98, 0x12 := 10, 0x13 := 99)) 43 124 45 4 0x10 0 console_io = None"
proof -
  let ?m = "(\<lambda>_. 0)(0x10 := 97, 0x11 := 98, 0x12 := 10, 0x13 := 99 :: u8)"
  have n: "console_named 0x100 console_conf console_io" by (simp add: console_named_def console_conf_stdout console_io_def)
  have s: "cstr ?m 0x10 [97, 98, 10, 99]" by simp
  have w: "wrap 2 [97, 98, 10, 99] = [[97, 98], [], [99]]" by (simp add: wrap.simps row_part_def row_rest_def)
  have t: "stdout_text console_io = Some []" by (simp add: console_io_def)
  show ?thesis
    using cl_box_draws [OF n s, where width = 6 and corner = 43 and v_edge = 124 and h_edge = 45 and flags = 0]
      cl_box_draws [OF n s, where width = 4 and corner = 43 and v_edge = 124 and h_edge = 45 and flags = 0]
    by (simp add: w [unfolded numeral_2_eq_2] t box_edge_def box_row_def lit_def numeral_eq_Suc del: fun_upd_apply)
qed

end
