(* ===== verification/Commands.thy ===== *)
theory Commands
  imports Cpuid Selftest Keyboard Kernel Mod Conlib Console
begin

text \<open>
  The other commands of the shell (\<open>kern/main.c\<close>): those that reach outside the shell, to the console,
  the keyboard, files, modules, programs, devices and drivers. Their state is in a record behind the
  shell's own. The functions behind the pointers of devices and drivers, the BIOS, the code of programs
  and modules and the text of the build are parameters, as is what an interrupt does.
\<close>

unbundle bit_operations_syntax

section \<open>State\<close>

record ('p, 'd, 'w, 'b) env =
  env_con :: "'p con"
  env_mgr :: "'d mgr"
  env_mods :: "'w mods"
  env_bios :: 'b

type_synonym ('h, 'p, 'd, 'w, 'b) shell = "('h kb, ('p, 'd, 'w, 'b) env) sh"
type_synonym ('h, 'p, 'd, 'w, 'b) shell_command = "('h kb, ('p, 'd, 'w, 'b) env) command"

record ('f, 's) file_services = "('f, 's) services" +
  sv_read :: "'f \<Rightarrow> u32 \<Rightarrow> 's \<Rightarrow> (int \<times> u8 list \<times> 'f \<times> 's) outcome option"

definition puts_lits :: "cstring list \<Rightarrow> ('i, 'x) sh \<Rightarrow> ('i, 'x) sh" where
  "puts_lits ls st = st\<lparr>sio := fold putc (concat ls) (sio st)\<rparr>"

definition on_con :: "('p con \<Rightarrow> 'p con outcome) \<Rightarrow> ('h, 'p, 'd, 'w, 'b) shell \<Rightarrow> ('h, 'p, 'd, 'w, 'b) shell outcome" where
  "on_con f st = bind_outcome (f (env_con (world st))) (\<lambda>con. Inr (st\<lparr>world := (world st)\<lparr>env_con := con\<rparr>\<rparr>))"

definition kbd :: "('h, 'p, 'd, 'w, 'b) shell \<Rightarrow> 'h kb" where
  "kbd st = stdin_dev (sio st)"

definition with_kbd :: "'h kb \<Rightarrow> ('h, 'p, 'd, 'w, 'b) shell \<Rightarrow> ('h, 'p, 'd, 'w, 'b) shell" where
  "with_kbd k st = st\<lparr>sio := (sio st)\<lparr>stdin_dev := k\<rparr>\<rparr>"

definition mgr_of :: "('h, 'p, 'd, 'w, 'b) shell \<Rightarrow> 'd mgr" where
  "mgr_of st = env_mgr (world st)"

definition mods_of :: "('h, 'p, 'd, 'w, 'b) shell \<Rightarrow> 'w modm" where
  "mods_of st = (hp st, env_mods (world st))"

text \<open>What is behind the third argument of \<open>setparam\<close>; a font is given by its address.\<close>

datatype setparam_aux = Setres int int int | Font u32 | Colours "u32 list"

type_synonym 's setparam = "u32 \<Rightarrow> u32 \<Rightarrow> int \<Rightarrow> setparam_aux \<Rightarrow> 's \<Rightarrow> 's outcome option"

definition FBDEV_SETRES :: int where "FBDEV_SETRES = 0"
definition FBCON_SETPARAM_COLOURSCHEME :: int where "FBCON_SETPARAM_COLOURSCHEME = 1"
definition FBCON_SETPARAM_FONT :: int where "FBCON_SETPARAM_FONT = 2"

definition setparam_named :: "('h, 'p, 'd, 'w, 'b) shell setparam \<Rightarrow> u32 \<Rightarrow> int \<Rightarrow> setparam_aux
    \<Rightarrow> ('h, 'p, 'd, 'w, 'b) shell \<Rightarrow> ('h, 'p, 'd, 'w, 'b) shell outcome option" where
  "setparam_named setparam dev param aux st = setparam (dev_setparam (device_at (mgr_of st) dev)) dev param aux st"

section \<open>The display\<close>

definition clear_screen :: "'p console_ops \<Rightarrow> ('h, 'p, 'd, 'w, 'b) shell_command" where
  "clear_screen ops argc argv st = Some (on_con (console_clear ops) st)"

definition setcolour :: "'p console_ops \<Rightarrow> ('h, 'p, 'd, 'w, 'b) shell_command" where
  "setcolour ops argc argv st =
     (if argc \<noteq> 3 then usage ''fg_colour bg_colour'' argv st
      else let fg = word_of_int (colour_from_str (mem_of st) (argv_at st argv 1)) :: u8;
               bg = word_of_int (colour_from_str (mem_of st) (argv_at st argv 2)) :: u8
        in Some (bind_outcome (on_con (\<lambda>con. console_colour ops (ucast fg OR push_bit 4 (ucast bg)) con) st)
             (on_con (console_clear ops))))"

definition setres :: "('h, 'p, 'd, 'w, 'b) shell setparam \<Rightarrow> ('h, 'p, 'd, 'w, 'b) shell_command" where
  "setres setparam argc argv st =
     (if argc \<noteq> 4 then usage ''xres yres bpp'' argv st
      else Option.bind (atoi (mem_of st) (argv_at st argv 1)) (\<lambda>xres.
        Option.bind (atoi (mem_of st) (argv_at st argv 2)) (\<lambda>yres.
        Option.bind (atoi (mem_of st) (argv_at st argv 3)) (\<lambda>bpp.
          case device_get_by_name (lit ''vesafb0'') (mgr_of st) of
            None \<Rightarrow> Some (Inr st)
          | Some dev \<Rightarrow> setparam_named setparam dev FBDEV_SETRES (Setres xres yres bpp) st))))"

text \<open>The fields of a \<open>struct fbcon_font\<close> at an address, and the font in the file's bytes at \<open>data\<close>.\<close>

definition store_font :: "mem \<Rightarrow> u32 \<Rightarrow> u32 \<Rightarrow> mem" where
  "store_font m font data =
     (let w = m data; h = m (data + 1); m = m(font + 4 := w); m = m(font + 6 := h);
          m = m(font + 5 := w div 8 + (if w mod 8 \<noteq> 0 then 1 else 0))
      in store32 m font (data + 4))"

definition setfnt :: "('f, ('h, 'p, 'd, 'w, 'b) shell) file_services \<Rightarrow> ('h, 'p, 'd, 'w, 'b) shell setparam
    \<Rightarrow> ('h, 'p, 'd, 'w, 'b) shell_command" where
  "setfnt sv setparam argc argv st =
     (if argc \<noteq> 2 then usage ''font.fnt'' argv st
      else case device_get_by_name (lit ''fbcon0'') (mgr_of st) of
        None \<Rightarrow> Some (Inr st)
      | Some dev \<Rightarrow> run_bind (sv_open sv (mem_str (mem_of st) (argv_at st argv 1)) st) (\<lambda>(file, st).
          run_bind (sh_kalloc 8 st) (\<lambda>(font, st). case file of
            None \<Rightarrow> print_mem (lit ''No such file or directory'' @ [10]) [] st
          | Some file \<Rightarrow> run_bind (sv_read_full sv file st) (\<lambda>(data, size, st).
              if data = 0 \<or> size = 0
              then run_bind (print_mem (lit ''Unable to read font'' @ [10]) [] st) (sv_close sv file)
              else run_bind (Some (sh_debug ''setfnt'' (lit ''read %d, data@%p'') [size, data] st)) (\<lambda>st.
                run_bind (setparam_named setparam dev FBCON_SETPARAM_FONT (Font font) (with_ram (store_font (mem_of st) font data) st))
                  (sv_close sv file))))))"

text \<open>The list is read whatever the number of arguments is.\<close>

fun read_colours :: "('i, 'x) sh \<Rightarrow> u32 \<Rightarrow> int list \<Rightarrow> u32 list option" where
  "read_colours st argv [] = Some []"
| "read_colours st argv (i # is) = Option.bind (strtoul (mem_of st) (argv_at st argv (i + 1)) 16) (\<lambda>(c, _).
     map_option (Cons c) (read_colours st argv is))"

definition setscheme :: "('h, 'p, 'd, 'w, 'b) shell setparam \<Rightarrow> ('h, 'p, 'd, 'w, 'b) shell_command" where
  "setscheme setparam argc argv st =
     run_bind (if argc \<noteq> 17
        then run_bind (print_mem (lit ''Usage: %s c1 c2 c3 c4 c5 c6 c7 c8 c9 c10 c11 c12 c13 c14 c15 c16'') [argv_at st argv 0] st)
               (print_mem (lit ''       where c1-c16 are the 16 colours in order set out by '' @ [96] @ lit ''listcolours'' @ [96, 10]) [])
        else Some (Inr st)) (\<lambda>st.
     Option.bind (read_colours st argv [0..15]) (\<lambda>colours.
       case device_get_by_name (lit ''fbcon0'') (mgr_of st) of
         None \<Rightarrow> Some (Inr st)
       | Some fbcon \<Rightarrow> setparam_named setparam fbcon FBCON_SETPARAM_COLOURSCHEME (Colours colours) st))"

section \<open>The clock and the keyboard\<close>

text \<open>
  \<open>hlt\<close> returns after an interrupt: the keyboard's, and the number of the timer's that \<open>timer\<close> tells.
\<close>

definition sh_hlt :: "('h \<Rightarrow> bool \<times> 'h) \<Rightarrow> ('h \<Rightarrow> nat) \<Rightarrow> ('h, 'p, 'd, 'w, 'b) shell \<Rightarrow> ('h, 'p, 'd, 'w, 'b) shell" where
  "sh_hlt hlt timer st = with_kbd (kb_hlt hlt (kbd st)) (st\<lparr>ticks := (irq0_handle ^^ timer (kb_hw (kbd st))) (ticks st)\<rparr>)"

text \<open>The first part of a round: a key if there is one, and whether it ends the loop.\<close>

definition clock_key :: "('h \<Rightarrow> bool \<times> 'h) \<Rightarrow> 'h ports \<Rightarrow> ('h, 'p, 'd, 'w, 'b) shell
    \<Rightarrow> (bool \<times> ('h, 'p, 'd, 'w, 'b) shell) outcome option" where
  "clock_key hlt io st =
     (if keyboard_available (kbd st) \<noteq> 0
      then run_bind (keyboard_getchar hlt io 0 (kbd st)) (\<lambda>(c, k). Some (Inr (c = 113, with_kbd k st)))
      else Some (Inr (False, st)))"

partial_function (option) clock_loop :: "('h \<Rightarrow> bool \<times> 'h) \<Rightarrow> ('h \<Rightarrow> nat) \<Rightarrow> 'h ports \<Rightarrow> ('h, 'p, 'd, 'w, 'b) shell
    \<Rightarrow> ('h, 'p, 'd, 'w, 'b) shell outcome option" where
  "clock_loop hlt timer io st =
     run_bind (clock_key hlt io st) (\<lambda>(stop, st).
       if stop then Some (Inr st)
       else run_bind (print_mem ([13] @ lit ''%d.%d'') [kticks (ticks st) div 100, kticks (ticks st) mod 100] st)
         (\<lambda>st. clock_loop hlt timer io (sh_hlt hlt timer st)))"

definition clock :: "('h \<Rightarrow> bool \<times> 'h) \<Rightarrow> ('h \<Rightarrow> nat) \<Rightarrow> 'h ports \<Rightarrow> ('h, 'p, 'd, 'w, 'b) shell_command" where
  "clock hlt timer io argc argv st =
     run_bind (clock_loop hlt timer io (puts_lits [lit ''Clock demo. '', [39], lit ''q'', [39], lit '' to exit'', [10]] st))
       (\<lambda>st. Some (Inr (puts_lits [[10]] st)))"

text \<open>\<open>scratch\<close> is the address of \<open>main_scratch\<close>.\<close>

partial_function (option) scancode_loop :: "('h \<Rightarrow> bool \<times> 'h) \<Rightarrow> 'h ports \<Rightarrow> u32 \<Rightarrow> ('h, 'p, 'd, 'w, 'b) shell
    \<Rightarrow> ('h, 'p, 'd, 'w, 'b) shell option" where
  "scancode_loop hlt io scratch st =
     Option.bind (keyboard_poll_scancode hlt io (kbd st)) (\<lambda>(code, k).
       let st = with_kbd k st in
       Option.bind (itoa (mem_of st) (uint code) scratch 10) (\<lambda>m.
       Option.bind (puts m scratch (sio st)) (\<lambda>io'.
         let st = puts_lits [[10]] (with_ram m (st\<lparr>sio := io'\<rparr>)) in
         if code = 1 then Some st else scancode_loop hlt io scratch st)))"

definition scancode :: "('h \<Rightarrow> bool \<times> 'h) \<Rightarrow> 'h ports \<Rightarrow> u32 \<Rightarrow> ('h, 'p, 'd, 'w, 'b) shell_command" where
  "scancode hlt io scratch argc argv st = map_option Inr (scancode_loop hlt io scratch (puts_lits [lit ''esc to exit'', [10]] st))"

section \<open>Memory, files and programs\<close>

definition dumpmem :: "('i, 'x) command" where
  "dumpmem argc argv st =
     (if argc \<noteq> 3
      then run_bind (usage ''addr len'' argv st)
        (print_mem (lit ''       addr and len must be in hex, with no '' @ [39] @ lit ''0x'' @ [39] @ lit '' prefix.'' @ [10]) [])
      else Option.bind (strtoul (mem_of st) (argv_at st argv 1) 16) (\<lambda>(addr, _).
        Option.bind (strtoul (mem_of st) (argv_at st argv 2) 16) (\<lambda>(len, _).
          run_bind (dump_memory (mem_of st) addr len (sio st)) (\<lambda>io. Some (Inr (st\<lparr>sio := io\<rparr>))))))"

text \<open>\<open>int3\<close> is the breakpoint interrupt.\<close>

definition brk :: "(('i, 'x) sh \<Rightarrow> ('i, 'x) sh outcome option) \<Rightarrow> ('i, 'x) command" where
  "brk int3 argc argv st = int3 st"

text \<open>\<open>buf\<close> is the address of the array of 513 bytes on the stack.\<close>

partial_function (option) read_loop :: "('f, ('i, 'x) sh) file_services \<Rightarrow> u32 \<Rightarrow> 'f \<Rightarrow> ('i, 'x) sh
    \<Rightarrow> ('f \<times> ('i, 'x) sh) outcome option" where
  "read_loop sv buf file st =
     run_bind (sv_read sv file 512 st) (\<lambda>(rc, bytes, file, st).
       let st = with_ram (write_bytes (mem_of st) buf bytes) st in
       if 0 < rc
       then run_bind (print_mem (lit ''%s'') [buf] st) (\<lambda>st. read_loop sv buf file (with_ram (memset (mem_of st) buf 0 513) st))
       else Some (Inr (file, st)))"

definition read_file :: "('f, ('i, 'x) sh) file_services \<Rightarrow> u32 \<Rightarrow> ('i, 'x) command" where
  "read_file sv buf argc argv st =
     (if argc \<noteq> 2 then usage ''file_name'' argv st
      else run_bind (sv_open sv (mem_str (mem_of st) (argv_at st argv 1)) st) (\<lambda>(file, st). case file of
        None \<Rightarrow> print_mem (lit ''No such file or directory'' @ [10]) [] st
      | Some file \<Rightarrow> run_bind (read_loop sv buf file (with_ram (memset (mem_of st) buf 0 513) st)) (\<lambda>(file, st).
          sv_close sv file st)))"

text \<open>\<open>kpoweroff\<close>; the registers are passed by value, so their block of 42 bytes is only allocated.\<close>

definition poweroff :: "'b bios \<Rightarrow> ('h, 'p, 'd, 'w, 'b) shell_command" where
  "poweroff bios argc argv st =
     run_bind (print_mem (lit ''shutting down!'' @ [10]) [] st) (\<lambda>st.
     run_bind (Some (sh_debug ''kpoweroff'' (lit ''shutting down!'') [] st)) (\<lambda>st.
     run_bind (kallocz (hp st) 42) (\<lambda>(regs, h).
     run_bind (Some (kpoweroff bios (ram h, env_bios (world st)))) (\<lambda>(m, b).
       Some (Inr (st\<lparr>hp := h\<lparr>ram := m\<rparr>, world := (world st)\<lparr>env_bios := b\<rparr>\<rparr>))))))"

definition with_mods :: "'w modm \<Rightarrow> ('h, 'p, 'd, 'w, 'b) shell \<Rightarrow> ('h, 'p, 'd, 'w, 'b) shell" where
  "with_mods hw st = st\<lparr>hp := fst hw, world := (world st)\<lparr>env_mods := snd hw\<rparr>\<rparr>"

definition ldmod :: "('f, ('h, 'p, 'd, 'w, 'b) shell) file_services \<Rightarrow> (u32 \<Rightarrow> u32 \<Rightarrow> 'w modm \<Rightarrow> 'w modm outcome option)
    \<Rightarrow> ('h, 'p, 'd, 'w, 'b) shell_command" where
  "ldmod sv call argc argv st =
     (if argc \<noteq> 2 then usage ''file_name'' argv st
      else run_bind (sv_open sv (mem_str (mem_of st) (argv_at st argv 1)) st) (\<lambda>(handle, st). case handle of
        None \<Rightarrow> print_mem (lit ''No such file'' @ [10]) [] st
      | Some handle \<Rightarrow> run_bind (sv_read_full sv handle st) (\<lambda>(module, size, st).
          run_bind (mod_load call module (mods_of st)) (\<lambda>hw.
          run_bind (sv_close sv handle (with_mods hw st)) (\<lambda>st. Some (sh_kfree module st))))))"

definition exec :: "('f, ('i, 'x) sh) file_services \<Rightarrow> ('i, 'x) command" where
  "exec sv argc argv st =
     (if argc \<noteq> 2 then usage ''file_name'' argv st
      else run_bind (sv_open sv (mem_str (mem_of st) (argv_at st argv 1)) st) (\<lambda>(handle, st). case handle of
        None \<Rightarrow> print_mem (lit ''No such file'' @ [10]) [] st
      | Some handle \<Rightarrow> run_bind (sv_read_full sv handle st) (\<lambda>(module, size, st).
          run_bind (sv_elf_run sv module (argc - 1) (argv + 4) st) (\<lambda>st.
          run_bind (sv_close sv handle st) (\<lambda>st. Some (sh_kfree module st))))))"

definition lsmod :: "('h, 'p, 'd, 'w, 'b) shell_command" where
  "lsmod argc argv st = run_bind (mod_list (mods_of st)) (\<lambda>t. Some (Inr (st\<lparr>sio := fold putc t (sio st)\<rparr>)))"

definition lssym :: "('h, 'p, 'd, 'w, 'b) shell_command" where
  "lssym argc argv st = run_bind (mod_sym_list (mods_of st)) (\<lambda>t. Some (Inr (st\<lparr>sio := fold putc t (sio st)\<rparr>)))"

section \<open>Devices and drivers\<close>

definition lsdev_callback :: "u32 \<Rightarrow> ('h, 'p, 'd, 'w, 'b) shell \<Rightarrow> ('h, 'p, 'd, 'w, 'b) shell outcome option" where
  "lsdev_callback dev st = Some (print (\<lambda>_. dev_name (device_at (mgr_of st) dev)) (lit ''%s'' @ [10]) [0] st)"

definition lsdev :: "('h, 'p, 'd, 'w, 'b) shell_command" where
  "lsdev argc argv st = foreach_from (\<lambda>st. devices (mgr_of st)) lsdev_callback 0 st"

definition lsdrv_callback :: "u32 \<Rightarrow> ('h, 'p, 'd, 'w, 'b) shell \<Rightarrow> ('h, 'p, 'd, 'w, 'b) shell outcome option" where
  "lsdrv_callback drv st = (let d = driver_at (mgr_of st) drv in
     Some (print (\<lambda>p. if p = 0 then drv_name d else modname d) (lit ''%-32s %-8s %p'' @ [10]) [0, 1, drv] st))"

definition lsdrv :: "('h, 'p, 'd, 'w, 'b) shell_command" where
  "lsdrv argc argv st =
     run_bind (Some (print (\<lambda>p. if p = 0 then lit ''name'' else if p = 1 then lit ''modname'' else lit ''ptr'')
       (lit ''%-32s %-8s %s'' @ [10]) [0, 1, 2] st)) (foreach_from (\<lambda>st. drivers (mgr_of st)) lsdrv_callback 0)"

definition endrv :: "'d calls \<Rightarrow> ('h, 'p, 'd, 'w, 'b) shell_command" where
  "endrv c argc argv st =
     (let name = mem_str (mem_of st) (argv_at st argv 1) in
      if argc \<noteq> 2 then usage ''driver_modname'' argv st
      else case driver_get_by_modname name (mgr_of st) of
        None \<Rightarrow> print_mem (lit ''No such driver '' @ [39] @ lit ''%s'' @ [39, 10]) [argv_at st argv 1] st
      | Some driver \<Rightarrow>
          run_bind (if \<not> disabled (driver_at (mgr_of st) driver)
            then print_mem (lit ''Driver '' @ [39] @ lit ''%s'' @ [39] @ lit '' already enabled'' @ [10]) [argv_at st argv 1] st
            else Some (Inr st)) (\<lambda>st.
          run_bind (driver_enable c driver (mgr_of st)) (\<lambda>mgr.
            Some (Inr (st\<lparr>world := (world st)\<lparr>env_mgr := mgr\<rparr>\<rparr>)))))"

section \<open>Texts\<close>

definition dino_lines :: "cstring list" where
  "dino_lines = [
     lit ''                         .       .'' @ [10],
     lit ''                        / '' @ [96] @ lit ''.   .'' @ [39] @ lit '' '' @ [92, 10],
     lit ''                .---.  <    > <    >  .---.'' @ [10],
     lit ''                |    '' @ [92] @ lit ''  '' @ [92] @ lit '' - ~ ~ - /  /    |'' @ [10],
     lit ''                 ~-..-~             ~-..-~'' @ [10],
     lit ''             '' @ [92] @ lit ''~~~'' @ [92] @ lit ''.'' @ [39] @ lit ''                    '' @ [96] @ lit ''./~~~/'' @ [10],
     lit ''              '' @ [92] @ lit ''__/                        '' @ [92] @ lit ''__/'' @ [10],
     lit ''               /                  .-    .  '' @ [92, 10],
     lit ''        _._ _.-    .-~ ~-.       /       }   '' @ [92] @ lit ''/~~~/'' @ [10],
     lit ''    _.-'' @ [39] @ lit ''q  }~     /       }     {        ;    '' @ [92] @ lit ''__/'' @ [10],
     lit ''   {'' @ [39] @ lit ''__,  /      (       /      {       /      '' @ [96] @ lit ''. ,~~|   .     .'' @ [10],
     lit ''    '' @ [96, 39, 39, 39, 39] @ lit ''='' @ [39] @ lit ''~~-.__(      /_      |      /- _      '' @ [96] @ lit ''..-'' @ [39] @ lit ''   '' @ [92, 92] @ lit ''   //'' @ [10],
     lit ''                / '' @ [92] @ lit ''   =/  ~~--~~{    ./|    ~-.     '' @ [96] @ lit ''-..__'' @ [92, 92] @ lit ''_//_.-'' @ [39, 10],
     lit ''               {   '' @ [92] @ lit ''  +'' @ [92] @ lit ''         '' @ [92] @ lit ''  ='' @ [92] @ lit '' (        ~ - . _ _ _..---~'' @ [10],
     lit ''               |  | {   }         '' @ [92] @ lit ''   '' @ [92] @ lit ''_'' @ [92, 10],
     lit ''              '' @ [39] @ lit ''---.o___,'' @ [39] @ lit ''       .o___,'' @ [39, 10]]"

definition dino :: "('i, 'x) command" where
  "dino argc argv st = Some (Inr (puts_lits dino_lines st))"

definition help_lines :: "cstring list" where
  "help_lines = [
     lit ''Help Summary. WIP commands marked with [WIP] or if very unstable, not listed.'' @ [10],
     lit ''uptime      - display uptime in seconds'' @ [10],
     lit ''mem         - get memory status'' @ [10],
     lit ''cpuid       - display CPU info'' @ [10],
     lit ''brk         - cause a #BP interrupt'' @ [10],
     lit ''clear       - clear the display'' @ [10],
     lit ''clock       - updating clock demo'' @ [10],
     lit ''setcolour   - set the display colour'' @ [10],
     lit ''listcolours - list all available colours'' @ [10],
     lit ''scancode    - display raw scancodes'' @ [10],
     lit ''verb        - set log verbosity'' @ [10],
     lit ''read        - print out the contents of a file or directory'' @ [10],
     lit ''poweroff    - shut down the computer'' @ [10],
     lit ''exit        - alias to poweroff'' @ [10],
     lit ''help        - this help message'' @ [10]]"

definition help_cmd :: "('i, 'x) command" where
  "help_cmd argc argv st = Some (Inr (puts_lits help_lines st))"

definition logo_formats :: "cstring list" where
  "logo_formats = [
     [10],
     lit ''%-16s           ##                            ##'' @ [10],
     lit ''%-16s           ##                            ##'' @ [10],
     lit ''%-16s ##    ##  ########   #######   ####### #####'' @ [10],
     lit ''%-16s ##    ##  ##    ### ###   ### ###   ### ##'' @ [10],
     lit ''%-16s ##    ##  ##     ## ##     ## ##     ## ##'' @ [10],
     lit ''%-16s ##    ##  ###   ### ###   ### ###   ### ##'' @ [10],
     lit ''%-16s # ####  # ########   #######   #######  #####'' @ [10],
     lit ''%-16s ##'' @ [10],
     lit ''%-16s ##'' @ [10]]"

definition display_logo :: "('i, 'x) sh \<Rightarrow> ('i, 'x) sh outcome option" where
  "display_logo st = run_each (\<lambda>fmt st. Some (print (\<lambda>_. []) fmt (if fmt = [10] then [] else [0]) st)) logo_formats st"

definition logo :: "('i, 'x) command" where
  "logo argc argv st = display_logo st"

text \<open>The strings of the build: its branch, its revision and its date.\<close>

record build =
  VER_GIT_BRANCH :: cstring
  VER_GIT_REV :: cstring
  VER_BUILD_DATE :: cstring

definition VER_NAME :: cstring where "VER_NAME = lit ''microboot''"

definition ver :: "build \<Rightarrow> ('i, 'x) command" where
  "ver b argc argv st = Some (print (\<lambda>p. if p = 0 then VER_NAME else if p = 1 then VER_GIT_REV b else VER_BUILD_DATE b)
     (lit ''%s - %s (built %s)'' @ [10]) [0, 1, 2] st)"

text \<open>\<open>infobuf\<close> is the address of the array of 255 bytes on the stack, \<open>out_var\<close> that of \<open>stdout\<close>.\<close>

definition CL_NONE :: int where "CL_NONE = 0"

definition sysinfo_format :: "build \<Rightarrow> cstring" where
  "sysinfo_format b = lit ''SYSTEM SUMMARY '' @ VER_NAME @ [10, 10] @ lit ''branch        '' @ VER_GIT_BRANCH b @ [10]
     @ lit ''commit-id     '' @ VER_GIT_REV b @ [10] @ lit ''build-date    '' @ VER_BUILD_DATE b @ [10]"

definition display_sysinfo :: "build \<Rightarrow> u32 \<Rightarrow> u32 \<Rightarrow> ('i, 'x) sh \<Rightarrow> ('i, 'x) sh outcome option" where
  "display_sysinfo b infobuf out_var st =
     run_bind (Some (snprintf (\<lambda>_. []) (mem_of st) infobuf 255 (sysinfo_format b) [])) (\<lambda>(m, _).
     run_bind (cl_box out_var (conf st) m 42 42 42 80 infobuf CL_NONE (sio st)) (\<lambda>io.
       Some (Inr (with_ram m (st\<lparr>sio := io\<rparr>)))))"

definition sysinfo :: "build \<Rightarrow> u32 \<Rightarrow> u32 \<Rightarrow> ('i, 'x) command" where
  "sysinfo b infobuf out_var argc argv st = display_sysinfo b infobuf out_var st"

section \<open>The table\<close>

text \<open>What the commands need: the functions behind pointers, the hardware, and the addresses of their arrays.\<close>

record ('f, 'h, 'p, 'd, 'w, 'b) machinery =
  mc_ops :: "'p console_ops"
  mc_files :: "('f, ('h, 'p, 'd, 'w, 'b) shell) file_services"
  mc_setparam :: "('h, 'p, 'd, 'w, 'b) shell setparam"
  mc_hlt :: "'h \<Rightarrow> bool \<times> 'h"
  mc_timer :: "'h \<Rightarrow> nat"
  mc_ports :: "'h ports"
  mc_module :: "u32 \<Rightarrow> u32 \<Rightarrow> 'w modm \<Rightarrow> 'w modm outcome option"
  mc_bios :: "'b bios"
  mc_cpu :: cpu
  mc_drivers :: "'d calls"
  mc_build :: build
  mc_int3 :: "('h, 'p, 'd, 'w, 'b) shell \<Rightarrow> ('h, 'p, 'd, 'w, 'b) shell outcome option"
  mc_scratch :: u32
  mc_stack :: "string \<Rightarrow> u32"
  mc_stdout :: u32
  mc_literal :: "string \<Rightarrow> u32"

definition other_command :: "('f, 'h, 'p, 'd, 'w, 'b) machinery \<Rightarrow> string \<Rightarrow> ('h, 'p, 'd, 'w, 'b) shell_command" where
  "other_command mc name =
     (if name = ''exec'' then exec (mc_files mc) else if name = ''lsmod'' then lsmod
      else if name = ''ldmod'' then ldmod (mc_files mc) (mc_module mc) else if name = ''lssym'' then lssym
      else if name = ''lsdev'' then lsdev else if name = ''lsdrv'' then lsdrv else if name = ''endrv'' then endrv (mc_drivers mc)
      else if name = ''ver'' then ver (mc_build mc)
      else if name = ''cpuid'' then cmd_cpuid (mc_cpu mc) (mc_stack mc ''vendor'') (mc_stack mc ''brand'')
      else if name = ''clear'' then clear_screen (mc_ops mc) else if name = ''clock'' then clock (mc_hlt mc) (mc_timer mc) (mc_ports mc)
      else if name = ''setres'' then setres (mc_setparam mc) else if name = ''setfnt'' then setfnt (mc_files mc) (mc_setparam mc)
      else if name = ''setcolour'' then setcolour (mc_ops mc) else if name = ''dino'' then dino
      else if name = ''scancode'' then scancode (mc_hlt mc) (mc_ports mc) (mc_scratch mc)
      else if name = ''brk'' then brk (mc_int3 mc) else if name = ''dumpmem'' then dumpmem
      else if name = ''read'' then read_file (mc_files mc) (mc_stack mc ''buf'')
      else if name = ''poweroff'' \<or> name = ''exit'' then poweroff (mc_bios mc) else if name = ''help'' then help_cmd
      else if name = ''logo'' then logo else if name = ''sysinfo'' then sysinfo (mc_build mc) (mc_stack mc ''infobuf'') (mc_stdout mc)
      else if name = ''selftest'' then selftest (mc_literal mc ''value 1'') (mc_literal mc ''value 2'')
      else setscheme (mc_setparam mc))"

definition shell_commands :: "('f, 'h, 'p, 'd, 'w, 'b) machinery \<Rightarrow> (cstring \<times> ('h, 'p, 'd, 'w, 'b) shell_command) list" where
  "shell_commands mc = commands (other_command mc)"

section \<open>Reading a file\<close>

text \<open>The file services of the file systems (theory Fs): an open file is its handle.\<close>

definition reads_through_fs :: "('g filehandle, ('i, 'x) sh) file_services \<Rightarrow> bool" where
  "reads_through_fs sv \<longleftrightarrow> (\<forall>h n st. sv_read sv h n st =
     run_bind (fs_read (Some h) n) (\<lambda>(rc, bytes, h'). Some (Inr (rc, bytes, the h', st))))"

function chunk_text :: "nat \<Rightarrow> u8 list \<Rightarrow> cstring" where
  "chunk_text n D = (if n = 0 \<or> D = [] then [] else takeWhile (\<lambda>c. c \<noteq> 0) (take n D) @ chunk_text n (drop n D))"
  by pat_completeness auto
termination by (relation "measure (\<lambda>(n, D). length D)") auto

declare chunk_text.simps [simp del]

lemma chunk_text_plain: "0 < n \<Longrightarrow> 0 \<notin> set D \<Longrightarrow> chunk_text n D = D"
proof (induction n D rule: chunk_text.induct)
  case (1 n D)
  then have tw: "takeWhile (\<lambda>c. c \<noteq> 0) (take n D) = take n D"
    by (intro takeWhile_eq_all_conv [THEN iffD2]) (auto dest: in_set_takeD)
  have "0 \<notin> set (drop n D)" using 1 by (meson in_set_dropD)
  then have "D \<noteq> [] \<Longrightarrow> chunk_text n (drop n D) = drop n D" using 1 by simp
  then show ?case using 1(2) by (subst chunk_text.simps, unfold tw) simp
qed

lemma chunk_mem_str:
  assumes "length bytes \<le> 512"
  shows "mem_str (write_bytes (memset m buf 0 513) buf bytes) buf = takeWhile (\<lambda>c. c \<noteq> 0) bytes"
proof -
  let ?xs = "bytes @ replicate (513 - length bytes) 0"
  have "write_bytes (memset m buf 0 513) buf bytes = write_bytes m buf ?xs"
    using assms by (auto simp: write_bytes_def memset_eq fun_eq_iff in_block_def nth_append)
  moreover have "mem_str (write_bytes m buf ?xs) buf = takeWhile (\<lambda>c. c \<noteq> 0) ?xs"
    using assms by (intro mem_str_write_bytes) auto
  moreover have "takeWhile (\<lambda>c. c \<noteq> 0) ?xs = takeWhile (\<lambda>c. c \<noteq> 0) bytes"
  proof (cases "0 \<in> set bytes")
    case False
    then have "\<forall>x \<in> set bytes. x \<noteq> 0" by auto
    then have "takeWhile (\<lambda>c. c \<noteq> 0) bytes = bytes" by (rule takeWhile_eq_all_conv [THEN iffD2])
    moreover have "takeWhile (\<lambda>c. c \<noteq> 0) ?xs = bytes" using False by (subst takeWhile_append2) auto
    ultimately show ?thesis by (rule trans [rotated, OF sym])
  qed (simp add: takeWhile_append1 [where x = 0])
  ultimately show ?thesis by simp
qed

lemma chunk_inside:
  assumes "(512 :: nat) dvd cl" "512 dvd off" "0 < cl"
  shows "512 \<le> cl - off mod cl"
proof -
  have "512 dvd cl - off mod cl" using assms by (simp add: dvd_diff_nat dvd_mod)
  moreover have "0 < cl - off mod cl" using assms(3) by simp
  ultimately show ?thesis by (rule dvd_imp_le)
qed

lemma read_loop_file:
  assumes sv: "reads_through_fs sv" and cl: "cl = unat (bytes_per_cluster p)" "512 dvd cl"
  shows "file_ok p cs (unat (fsize f)) \<Longrightarrow> at_pos p cs f off \<Longrightarrow> 512 dvd off \<or> off = unat (fsize f) \<Longrightarrow>
    (\<forall>a. in_block a buf 513 \<longrightarrow> mem_of st a = 0) \<Longrightarrow>
    \<exists>h m'. read_loop sv buf \<lparr>fh_file = f, fh_fs = fat_fsdev p\<rparr> st
        = Some (Inr (h, says (chunk_text 512 (drop off (take (unat (fsize f)) (file_data p cs)))) (with_ram m' st)))
      \<and> (\<forall>a. \<not> in_block a buf 513 \<longrightarrow> m' a = mem_of st a)"
proof (induction "unat (fsize f) - off" arbitrary: f off st rule: less_induct)
  case less
  let ?sz = "unat (fsize f)" and ?h = "\<lambda>f. \<lparr>fh_file = f, fh_fs = fat_fsdev p\<rparr>" and ?D = "take (unat (fsize f)) (file_data p cs)"
  define n where "n = min (unat (512 :: u32)) (?sz - off)"
  define bytes where "bytes = take n (drop off (file_data p cs))"
  have nn: "n = min 512 (?sz - off)" by (simp add: n_def)
  then have n5: "n \<le> 512" by simp
  have clp: "0 < cl" and len: "?sz \<le> length (file_data p cs)"
    using less.prems(1) length_file_data [of cs p cl] by (auto simp: file_ok_def cl unat_gt_0)
  have off: "off \<le> ?sz" using less.prems(2) by (simp add: at_pos_def)
  obtain f' where f': "fat_read p f 512 = Some (Inr (int n, bytes, f'))" "fsize f' = fsize f"
    "n \<le> cl - off mod cl \<or> (off + n) mod cl \<noteq> 0 \<or> off + n = ?sz \<longrightarrow> at_pos p cs f' (off + n)"
    unfolding bytes_def using fat_read_pos [OF less.prems(1,2) n_def cl(1)] by blast
  have rd: "sv_read sv (?h f) 512 st = Some (Inr (int n, bytes, ?h f', st))"
    using sv by (simp add: reads_through_fs_def fs_read_def fat_fsdev_def f'(1))
  have lb: "length bytes = n" using len off by (simp add: bytes_def n_def)
  show ?case
  proof (cases "off = ?sz")
    case True
    then have "bytes = []" "n = 0" by (simp_all add: n_def bytes_def)
    then have "read_loop sv buf (?h f) st = Some (Inr (?h f', st))"
      using rd by (subst read_loop.simps) (simp add: with_ram_def mem_of_def)
    moreover have "drop off ?D = []" using True len by simp
    ultimately show ?thesis by (intro exI [of _ "?h f'"] exI [of _ "mem_of st"]) (simp add: chunk_text.simps with_ram_def mem_of_def)
  next
    case False
    then have lt: "off < ?sz" and dvd: "512 dvd off" using off less.prems(3) by auto
    have n0: "0 < n" using lt by (simp add: n_def)
    let ?m = "write_bytes (mem_of st) buf bytes"
    let ?st = "says (takeWhile (\<lambda>c. c \<noteq> 0) bytes) (with_ram (memset ?m buf 0 513) st)"
    have "mem_of st = memset (mem_of st) buf 0 513" using less.prems(4) by (auto simp: memset_eq)
    then have "mem_str ?m buf = takeWhile (\<lambda>c. c \<noteq> 0) bytes"
      using chunk_mem_str [of bytes "mem_of st" buf] lb n5 by metis
    then have "print_mem (lit ''%s'') [buf] (with_ram ?m st) = Some (Inr (says (takeWhile (\<lambda>c. c \<noteq> 0) bytes) (with_ram ?m st)))"
      using mem_str_nonzero [of ?m buf] by (intro print_mem_says) (simp_all add: format_steps)
    then have run: "read_loop sv buf (?h f) st = read_loop sv buf (?h f') ?st"
      using rd n0 by (subst read_loop.simps) simp
    have pos': "at_pos p cs f' (off + n)" using f'(3) chunk_inside [OF cl(2) dvd clp] n5 by linarith
    have next_dvd: "512 dvd off + n \<or> off + n = unat (fsize f')"
      using dvd lt f'(2) by (cases "512 \<le> ?sz - off") (auto simp: n_def)
    have ok': "file_ok p cs (unat (fsize f'))" using less.prems(1) f'(2) by simp
    have clear: "\<forall>a. in_block a buf 513 \<longrightarrow> mem_of ?st a = 0" by (simp add: memset_eq)
    have "unat (fsize f') - (off + n) < ?sz - off" using lt n0 f'(2) by simp
    from less.hyps [OF this ok' pos' next_dvd clear] obtain h m' where
      r: "read_loop sv buf (?h f') ?st = Some (Inr (h, says (chunk_text 512 (drop (off + n) ?D)) (with_ram m' ?st)))"
      "\<forall>a. \<not> in_block a buf 513 \<longrightarrow> m' a = mem_of ?st a"
      by (auto simp: f'(2))
    have "drop off ?D \<noteq> []" using lt len by simp
    moreover have "take 512 (drop off ?D) = bytes" using off by (simp add: bytes_def n_def take_drop min_def)
    moreover have "drop 512 (drop off ?D) = drop (off + n) ?D"
      using len by (cases "512 \<le> ?sz - off") (simp_all add: nn add.commute)
    ultimately have "chunk_text 512 (drop off ?D) = takeWhile (\<lambda>c. c \<noteq> 0) bytes @ chunk_text 512 (drop (off + n) ?D)"
      by (subst chunk_text.simps) simp
    moreover have "m' a = mem_of st a" if "\<not> in_block a buf 513" for a
    proof -
      have "\<not> in_block a buf n" using that in_block_mono [of a buf n 513] n5 by auto
      then show ?thesis using r(2) that by (simp add: memset_eq write_bytes_outside lb)
    qed
    ultimately show ?thesis using run r(1) by (intro exI [of _ h] exI [of _ m']) simp
  qed
qed


section \<open>Scan codes\<close>

lemma fold_putc_device: "fold putc t (io\<lparr>stdin_dev := k\<rparr>) = (fold putc t io)\<lparr>stdin_dev := k\<rparr>"
  by (induction t arbitrary: io) (simp_all add: putc_def split: option.splits)

lemma with_kbd_simps [simp]:
  "kbd (says t st) = kbd st" "kbd (with_kbd k st) = k" "kbd (with_ram m st) = kbd st" "mem_of (with_kbd k st) = mem_of st"
  "with_kbd k (with_kbd k' st) = with_kbd k st" "with_ram m (with_kbd k st) = with_kbd k (with_ram m st)"
  "says t (with_kbd k st) = with_kbd k (says t st)"
  by (simp_all add: kbd_def with_kbd_def says_def with_ram_def mem_of_def fold_putc_device)

definition scancode_text :: "u8 list \<Rightarrow> cstring" where
  "scancode_text cs = concat (map (\<lambda>c. decimal (uint c) @ [10]) cs)"

lemma decimal_short: "length (decimal (uint (c :: u8))) < 4"
proof -
  have "unat c < 256" using unsigned_less [of c, where ?'a = nat] by simp
  then have "nat \<bar>uint c\<bar> < 10 ^ 3" by simp
  then have "length (udigits 10 (nat \<bar>uint c\<bar>)) \<le> 3" by (rule udigits_length)
  then show ?thesis by (simp add: decimal_def)
qed

lemma puts_kbd:
  "with_ram m ((with_kbd k st)\<lparr>sio := fold putc t (sio (with_kbd k st))\<rparr>) = with_kbd k (with_ram m (says t st))"
  by (simp add: says_def with_kbd_def with_ram_def fold_putc_device)

lemma puts_newline: "puts_lits [[10]] st = says [10] st"
  by (simp add: puts_lits_def says_def)

lemma puts_lits_kbd: "puts_lits [[10]] (with_kbd k (with_ram m (says t st))) = with_kbd k (with_ram m (says (t @ [10]) st))"
  by (simp add: puts_newline)

lemma scancode_round:
  assumes "keyboard_poll_scancode hlt io (kbd st) = Some (c, k)"
  shows "scancode_loop hlt io scratch st = (let st = with_kbd k (with_ram (write_bytes (mem_of st) scratch (decimal (uint c) @ [0]))
        (says (decimal (uint c) @ [10]) st)) in if c = 1 then Some st else scancode_loop hlt io scratch st)"
proof -
  let ?m = "write_bytes (mem_of st) scratch (decimal (uint c) @ [0])"
  have "uint c < 256" "0 \<le> uint c" using unsigned_less [of c] by simp_all
  then have i: "itoa (mem_of st) (uint c) scratch 10 = Some ?m"
    by (intro itoa_10; linarith)
  have "cstr ?m scratch (decimal (uint c))"
    using decimal_short [of c] by (intro cstr_write_bytes decimal_ok) simp
  note p = puts_cstr [OF this]
  show ?thesis
    by (subst scancode_loop.simps)
      (simp only: assms Option.bind.simps prod.case Let_def with_kbd_simps(4) i p puts_kbd puts_lits_kbd)
qed

lemma scancode_loop_lists:
  assumes dev: "kb_device pending hlt io"
  shows "pending (kb_hw (kbd st)) = cs @ 1 # later \<Longrightarrow> 1 \<notin> set cs \<Longrightarrow>
    \<exists>m k. scancode_loop hlt io scratch st = Some (with_kbd k (with_ram m (says (scancode_text (cs @ [1])) st)))
      \<and> pending (kb_hw k) = later \<and> (\<forall>a. \<not> in_block a scratch 4 \<longrightarrow> m a = mem_of st a)"
proof (induction cs arbitrary: st)
  have frame: "write_bytes m scratch (decimal (uint (c :: u8)) @ [0]) a = m a" if "\<not> in_block a scratch 4" for c m a
    using that decimal_short [of c] in_block_mono [of a scratch "Suc (length (decimal (uint c)))" 4]
    by (intro write_bytes_outside) auto
  {
    case Nil
    obtain h where h: "keyboard_poll_scancode hlt io (kbd st) = Some (1, (kbd st)\<lparr>available := 0, kb_hw := h\<rparr>)" "pending h = later"
      using poll_delivers [OF dev, of "kbd st" 1 later] Nil by auto
    let ?k = "(kbd st)\<lparr>available := 0, kb_hw := h\<rparr>" and ?m = "write_bytes (mem_of st) scratch (decimal (uint (1 :: u8)) @ [0])"
    have "scancode_loop hlt io scratch st = Some (with_kbd ?k (with_ram ?m (says (scancode_text ([] @ [1])) st)))"
      unfolding scancode_round [OF h(1)] by (simp add: scancode_text_def)
    then show ?case using h(2) frame [where c = 1 and m = "mem_of st"] by (intro exI [of _ ?m] exI [of _ ?k]) simp
  next
    case (Cons c cs)
    obtain h where h: "keyboard_poll_scancode hlt io (kbd st) = Some (c, (kbd st)\<lparr>available := 0, kb_hw := h\<rparr>)" "pending h = cs @ 1 # later"
      using poll_delivers [OF dev, of "kbd st" c "cs @ 1 # later"] Cons.prems(1) by auto
    let ?k = "(kbd st)\<lparr>available := 0, kb_hw := h\<rparr>" and ?m = "write_bytes (mem_of st) scratch (decimal (uint c) @ [0])"
    let ?st = "with_kbd ?k (with_ram ?m (says (decimal (uint c) @ [10]) st))"
    have "pending (kb_hw (kbd ?st)) = cs @ 1 # later" "1 \<notin> set cs" "c \<noteq> 1" using h(2) Cons.prems(2) by auto
    from Cons.IH [OF this(1, 2)] obtain m k where mk:
      "scancode_loop hlt io scratch ?st = Some (with_kbd k (with_ram m (says (scancode_text (cs @ [1])) ?st)))"
      "pending (kb_hw k) = later" "\<forall>a. \<not> in_block a scratch 4 \<longrightarrow> m a = mem_of ?st a"
      by blast
    have "scancode_loop hlt io scratch st = Some (with_kbd k (with_ram m (says (scancode_text ((c # cs) @ [1])) st)))"
      unfolding scancode_round [OF h(1)] Let_def if_not_P [OF \<open>c \<noteq> 1\<close>] mk(1) by (simp add: scancode_text_def)
    then show ?case using mk(2, 3) frame [where c = c and m = "mem_of st"] by (intro exI [of _ m] exI [of _ k]) simp
  }
qed

text \<open>
  However the keyboard's interrupts arrive, the command \<open>scancode\<close> prints the decimal number of every code that comes,
  each on a line, up to and including the first escape, ends there, leaves the later codes for the next reader, and writes only
  the first four bytes of its buffer.\<close>

theorem scancode_lists:
  assumes "kb_device pending hlt io" "pending (kb_hw (kbd st)) = cs @ 1 # later" "1 \<notin> set cs"
  shows "\<exists>m k. scancode hlt io scratch argc argv st
      = Some (Inr (with_kbd k (with_ram m (says (lit ''esc to exit'' @ [10] @ scancode_text (cs @ [1])) st))))
    \<and> pending (kb_hw k) = later \<and> (\<forall>a. \<not> in_block a scratch 4 \<longrightarrow> m a = mem_of st a)"
proof -
  let ?st = "says (lit ''esc to exit'' @ [10]) st"
  have "puts_lits [lit ''esc to exit'', [10]] st = ?st" by (simp add: puts_lits_def says_def)
  moreover have "pending (kb_hw (kbd ?st)) = cs @ 1 # later" using assms(2) by simp
  note scancode_loop_lists [OF assms(1) this assms(3), of scratch]
  ultimately show ?thesis by (auto simp: scancode_def)
qed

section \<open>Examples\<close>

definition toy_services :: "(fat_file filehandle, (nat, nat) sh) file_services" where
  "toy_services = \<lparr>sv_open = (\<lambda>path st. Some (Inr (Some \<lparr>fh_file = toy_file, fh_fs = fat_fsdev toy_priv\<rparr>, st))),
     sv_read_full = (\<lambda>h st. None), sv_close = (\<lambda>h st. Some (Inr st)), sv_elf_run = (\<lambda>p argc argv st. None),
     sv_read = (\<lambda>h n st. run_bind (fs_read (Some h) n) (\<lambda>(rc, bytes, h'). Some (Inr (rc, bytes, the h', st))))\<rparr>"


definition keys0 :: "u8 list \<Rightarrow> (u8 list, unit, unit, unit, unit) shell" where
  "keys0 ks = \<lparr>hp = shell_heap [], tok_save = 0, sio = key_list_io ks, root_env = env_init, conf = config0, ticks = 0, cwd = [],
     world = \<lparr>env_con = \<lparr>x_pos = 0, y_pos = 0, cwidth = 80, cheight = 25, priv = ()\<rparr>,
       env_mgr = \<lparr>drivers = [], devices = [],
         driver_at = (\<lambda>_. \<lparr>drv_name = [], modname = [], drv_probe = 0, probe_directed = 0, type_for = 0, depends_on = 0,
           first_probe = False, disabled = False, driver_priv = 0\<rparr>),
         device_at = (\<lambda>_. \<lparr>dev_name = [], dev_destroy = 0, dev_setparam = 0, dev_inform = 0, internal_dev = 0, device_priv = 0,
           dev_type = 0, subdevices = None, num_subdevices = 0\<rparr>), rest = ()\<rparr>,
       env_mods = \<lparr>links = (\<lambda>_. \<lparr>nxt = 0, prev = 0, node_value = 0\<rparr>), exports = 0, modules = 0, outside = ()\<rparr>,
       env_bios = ()\<rparr>\<rparr>"

lemma scancode_lists_witness:
  "\<exists>m k. scancode key_list_hlt key_list_ports 0x1030 1 0x500 (keys0 [30, 158, 1, 28])
      = Some (Inr (with_kbd k (with_ram m (says (lit ''esc to exit'' @ [10] @ lit ''30'' @ [10] @ lit ''158'' @ [10] @ lit ''1'' @ [10])
          (keys0 [30, 158, 1, 28]))))) \<and> kb_hw k = [28]"
proof -
  have t: "scancode_text ([30, 158] @ [1]) = lit ''30'' @ [10] @ lit ''158'' @ [10] @ lit ''1'' @ [10]" by code_simp
  have p: "kb_hw (kbd (keys0 [30, 158, 1, 28])) = [30, 158] @ 1 # [28]" by (simp add: keys0_def kbd_def key_list_io_def)
  have "1 \<notin> set [30, 158 :: u8]" by simp
  from scancode_lists [OF key_list_device p this, of "0x1030" 1 "0x500"] show ?thesis unfolding t by blast
qed

end
