(* ===== verification/Serial.thy ===== *)
theory Serial
  imports Driver Heap_Client Printf Pio
begin

text \<open>
  The serial ports (\<open>kern/io/serial.c\<close>): polled output and input of characters, and the driver that
  registers the four devices. A device, a port and a character device are records at the addresses
  that the allocator gives; fields that the code does not set keep what the address held. A loop
  that polls for ever is \<open>None\<close>.
\<close>

unbundle bit_operations_syntax

section \<open>The code\<close>

definition SP_COM0_PORT :: u16 where "SP_COM0_PORT = 0x3f8"
definition SP_COM1_PORT :: u16 where "SP_COM1_PORT = 0x2f8"
definition SP_COM2_PORT :: u16 where "SP_COM2_PORT = 0x3e8"
definition SP_COM3_PORT :: u16 where "SP_COM3_PORT = 0x2e8"

record serial_port =
  sp_iobase :: u16
  sp_baudrate :: u32

text \<open>The functions behind \<open>putc\<close>, \<open>getc\<close> and \<open>destroy\<close>, by their addresses.\<close>

record sp_code =
  at_putc :: u32
  at_getc :: u32
  at_destroy :: u32

record chardev =
  cd_putc :: u32
  cd_getc :: u32
  cd_priv :: u32

record serial =
  sp_heap :: alloc_state
  sp_index :: int
  port_at :: "u32 \<Rightarrow> serial_port"
  chardev_at :: "u32 \<Rightarrow> chardev"

definition serial_tx_empty :: "'h ports \<Rightarrow> u16 \<Rightarrow> 'h \<Rightarrow> u8 \<times> 'h" where
  "serial_tx_empty io base h = (let (v, h) = inb io (base + 5) h in (v AND 0x20, h))"

definition serial_available :: "'h ports \<Rightarrow> u16 \<Rightarrow> 'h \<Rightarrow> u8 \<times> 'h" where
  "serial_available io base h = (let (v, h) = inb io (base + 5) h in (v AND 1, h))"

partial_function (option) poll :: "('h \<Rightarrow> u8 \<times> 'h) \<Rightarrow> 'h \<Rightarrow> 'h option" where
  "poll ready h = (let (v, h) = ready h in if v = 0 then poll ready h else Some h)"

definition serial_putc :: "'h ports \<Rightarrow> serial_port \<Rightarrow> u8 \<Rightarrow> 'h \<Rightarrow> 'h option" where
  "serial_putc io port c h =
     map_option (outb io (sp_iobase port) c) (poll (serial_tx_empty io (sp_iobase port)) h)"

definition serial_getc :: "'h ports \<Rightarrow> serial_port \<Rightarrow> 'h \<Rightarrow> (u8 \<times> 'h) option" where
  "serial_getc io port h =
     map_option (inb io (sp_iobase port)) (poll (serial_available io (sp_iobase port)) h)"

definition chardev_putc :: "'h ports \<Rightarrow> serial \<Rightarrow> u32 \<Rightarrow> int \<Rightarrow> 'h \<Rightarrow> (int \<times> 'h) option" where
  "chardev_putc io st dev c h =
     map_option (\<lambda>h. (1, h)) (serial_putc io (port_at st (cd_priv (chardev_at st dev))) (of_int c) h)"

definition chardev_getc :: "'h ports \<Rightarrow> serial \<Rightarrow> u32 \<Rightarrow> 'h \<Rightarrow> (int \<times> 'h) option" where
  "chardev_getc io st dev h =
     map_option (\<lambda>(c, h). (sint c, h)) (serial_getc io (port_at st (cd_priv (chardev_at st dev))) h)"

definition serial_get_chardev :: "sp_code \<Rightarrow> u32 \<Rightarrow> u32 \<Rightarrow> serial \<Rightarrow> serial" where
  "serial_get_chardev code port chardev st =
     st\<lparr>chardev_at := (chardev_at st)(chardev := \<lparr>cd_putc = at_putc code, cd_getc = at_getc code, cd_priv = port\<rparr>)\<rparr>"

definition serial_destroy :: "u32 \<Rightarrow> serial mgr \<Rightarrow> serial mgr outcome" where
  "serial_destroy dev st =
     bind_outcome (kfree (sp_heap (rest st)) (device_priv (device_at st dev))) (\<lambda>h.
     bind_outcome (kfree h dev) (\<lambda>h. Inr (st\<lparr>rest := (rest st)\<lparr>sp_heap := h\<rparr>\<rparr>)))"

definition sp_with_heap :: "alloc_state \<Rightarrow> serial mgr \<Rightarrow> serial mgr" where
  "sp_with_heap h st = st\<lparr>rest := (rest st)\<lparr>sp_heap := h\<rparr>\<rparr>"

definition sp_alloc :: "u32 \<Rightarrow> serial mgr \<Rightarrow> (u32 \<times> serial mgr) outcome option" where
  "sp_alloc = alloc_in (\<lambda>st. sp_heap (rest st)) sp_with_heap"

text \<open>The sizes of a port, of a device and of a character device on this machine.\<close>

definition serial_new_dev :: "sp_code \<Rightarrow> u16 \<Rightarrow> u32 \<Rightarrow> serial mgr \<Rightarrow> (u32 \<times> serial mgr) outcome option" where
  "serial_new_dev code base baudrate st =
     run_bind (sp_alloc 8 st) (\<lambda>(sp, st).
     let st = st\<lparr>rest := (rest st)\<lparr>port_at := (port_at (rest st))(sp := \<lparr>sp_iobase = base, sp_baudrate = baudrate\<rparr>)\<rparr>\<rparr> in
     run_bind (sp_alloc 96 st) (\<lambda>(dev, st).
     run_bind (Some (format_text (\<lambda>_. []) (lit ''sp%d'') [of_int (sp_index (rest st))])) (\<lambda>name.
     let st = st\<lparr>device_at := (device_at st)(dev := (device_at st dev)\<lparr>dev_type := DEVICE_TYPE_CHAR, dev_destroy := at_destroy code,
                   dev_name := name, device_priv := sp\<rparr>),
                 rest := (rest st)\<lparr>sp_index := sp_index (rest st) + 1\<rparr>\<rparr> in
     run_bind (sp_alloc 12 st) (\<lambda>(chardev, st).
       Some (Inr (dev, st\<lparr>device_at := (device_at st)(dev := (device_at st dev)\<lparr>internal_dev := chardev\<rparr>),
                          rest := serial_get_chardev code sp chardev (rest st)\<rparr>))))))"

definition serial_probe :: "sp_code \<Rightarrow> serial calls \<Rightarrow> u32 \<Rightarrow> serial mgr \<Rightarrow> serial mgr outcome option" where
  "serial_probe code c driver st =
     (if \<not> first_probe (driver_at st driver) then Some (Inr st)
      else run_each (\<lambda>base st. run_bind (serial_new_dev code base 115200 st) (\<lambda>(dev, st). device_register c dev st))
        [SP_COM0_PORT, SP_COM1_PORT, SP_COM2_PORT, SP_COM3_PORT] st)"

definition serial_driver :: "u32 \<Rightarrow> driver" where
  "serial_driver probe = \<lparr>drv_name = lit ''PIO serial'', modname = [], drv_probe = probe, probe_directed = 0, type_for = 0,
     depends_on = 0, first_probe = False, disabled = False, driver_priv = 0\<rparr>"

definition serial_register_driver :: "serial calls \<Rightarrow> u32 \<Rightarrow> serial mgr \<Rightarrow> serial mgr outcome option" where
  "serial_register_driver c driver st = driver_register c driver st"

section \<open>A port at work\<close>

text \<open>
  The UART: its transmitter is busy for some polls after each character, \<open>delay\<close> says how many
  after the \<open>n\<close>th; a character written while it is busy is lost. Characters come in after \<open>quiet\<close>
  polls each.
\<close>

record uart =
  busy :: nat
  tx :: "u8 list"
  rx :: "(nat \<times> u8) list"

definition uart_poll :: "uart \<Rightarrow> uart" where
  "uart_poll u = u\<lparr>busy := busy u - 1, rx := (case rx u of [] \<Rightarrow> [] | (q, c) # rs \<Rightarrow> (q - 1, c) # rs)\<rparr>"

definition uart_ports :: "u16 \<Rightarrow> (nat \<Rightarrow> nat) \<Rightarrow> uart ports" where
  "uart_ports base delay = \<lparr>
     outb = (\<lambda>p v u. if p = base \<and> busy u = 0 then u\<lparr>tx := tx u @ [v], busy := delay (length (tx u))\<rparr> else u),
     inb = (\<lambda>p u. if p = base + 5
        then ((if busy u = 0 then 0x20 else 0) OR (case rx u of (0, _) # _ \<Rightarrow> 1 | _ \<Rightarrow> 0), uart_poll u)
        else if p = base then (case rx u of (0, c) # rs \<Rightarrow> (c, u\<lparr>rx := rs\<rparr>) | _ \<Rightarrow> (0, u)) else (0, u)),
     outw = (\<lambda>p v u. u), inw = (\<lambda>p u. (0, u)), outl = (\<lambda>p v u. u), inl = (\<lambda>p u. (0, u))\<rparr>"

fun put_all :: "(u8 \<Rightarrow> 'h \<Rightarrow> 'h option) \<Rightarrow> u8 list \<Rightarrow> 'h \<Rightarrow> 'h option" where
  "put_all put [] h = Some h"
| "put_all put (c # cs) h = Option.bind (put c h) (put_all put cs)"

fun get_n :: "('h \<Rightarrow> (u8 \<times> 'h) option) \<Rightarrow> nat \<Rightarrow> 'h \<Rightarrow> (u8 list \<times> 'h) option" where
  "get_n getc 0 h = Some ([], h)"
| "get_n getc (Suc n) h = Option.bind (getc h) (\<lambda>(c, h). map_option (\<lambda>(cs, h). (c # cs, h)) (get_n getc n h))"

lemma uart_poll_fields [simp]:
  "busy (uart_poll u) = busy u - 1" "tx (uart_poll u) = tx u"
  "rx (uart_poll u) = (case rx u of [] \<Rightarrow> [] | (q, c) # rs \<Rightarrow> (q - 1, c) # rs)"
  by (simp_all add: uart_poll_def)

lemma uart_outb: "busy u = 0 \<Longrightarrow> outb (uart_ports base delay) base c u = u\<lparr>tx := tx u @ [c], busy := delay (length (tx u))\<rparr>"
  by (simp add: uart_ports_def)

lemma poll_tx:
  "\<exists>u'. poll (serial_tx_empty (uart_ports base delay) base) u = Some u' \<and> busy u' = 0 \<and> tx u' = tx u"
proof (induction "busy u" arbitrary: u)
  case 0
  have "serial_tx_empty (uart_ports base delay) base u = (0x20, uart_poll u)"
    using 0 by (simp add: serial_tx_empty_def uart_ports_def bit.conj_disj_distrib2 split: list.splits nat.splits)
  then show ?case using 0 by (subst poll.simps) simp
next
  case (Suc n)
  have "serial_tx_empty (uart_ports base delay) base u = (0, uart_poll u)"
    using Suc by (simp add: serial_tx_empty_def uart_ports_def split: list.splits nat.splits)
  moreover obtain u' where "poll (serial_tx_empty (uart_ports base delay) base) (uart_poll u) = Some u'" "busy u' = 0" "tx u' = tx (uart_poll u)"
    using Suc.hyps(1) [of "uart_poll u"] Suc.hyps(2) by fastforce
  ultimately show ?case by (subst poll.simps) simp
qed

lemma putc_sends:
  "\<exists>u'. serial_putc (uart_ports (sp_iobase port) delay) port c u = Some u' \<and> tx u' = tx u @ [c]"
proof -
  obtain u' where "poll (serial_tx_empty (uart_ports (sp_iobase port) delay) (sp_iobase port)) u = Some u'" "busy u' = 0" "tx u' = tx u"
    using poll_tx by blast
  then show ?thesis by (simp add: serial_putc_def uart_outb)
qed

lemma poll_rx:
  "rx u = (q, c) # rs \<Longrightarrow> \<exists>u'. poll (serial_available (uart_ports base delay) base) u = Some u' \<and> rx u' = (0, c) # rs \<and> tx u' = tx u"
proof (induction q arbitrary: u)
  case 0
  have "(32 OR 1 :: u8) AND 1 = 1" by simp
  then have "serial_available (uart_ports base delay) base u = (1, uart_poll u)"
    using 0 by (simp add: serial_available_def uart_ports_def bit.conj_disj_distrib2)
  then show ?case using 0 by (subst poll.simps) simp
next
  case (Suc q)
  have "serial_available (uart_ports base delay) base u = (0, uart_poll u)"
    using Suc.prems by (simp add: serial_available_def uart_ports_def)
  moreover obtain u' where "poll (serial_available (uart_ports base delay) base) (uart_poll u) = Some u'" "rx u' = (0, c) # rs" "tx u' = tx (uart_poll u)"
    using Suc.IH [of "uart_poll u"] Suc.prems by auto
  ultimately show ?case by (subst poll.simps) simp
qed

lemma getc_receives:
  "rx u = (q, c) # rs \<Longrightarrow> \<exists>u'. serial_getc (uart_ports (sp_iobase port) delay) port u = Some (c, u') \<and> rx u' = rs \<and> tx u' = tx u"
proof -
  assume "rx u = (q, c) # rs"
  then obtain u' where u': "poll (serial_available (uart_ports (sp_iobase port) delay) (sp_iobase port)) u = Some u'" "rx u' = (0, c) # rs" "tx u' = tx u"
    using poll_rx by blast
  moreover have "sp_iobase port \<noteq> sp_iobase port + 5" by simp
  ultimately show ?thesis by (simp add: serial_getc_def uart_ports_def)
qed

text \<open>C34: However long the transmitter is busy after each character, sending a text through a serial port ends and transmits
  exactly its characters in order, none lost to a busy transmitter; and reading as many characters as come in, however
  late, ends with those characters in their order.\<close>

theorem serial_text:
  "(\<exists>u'. put_all (serial_putc (uart_ports (sp_iobase port) delay) port) s u = Some u' \<and> tx u' = tx u @ s)
    \<and> (\<exists>u'. get_n (serial_getc (uart_ports (sp_iobase port) delay) port) (length (rx u)) u = Some (map snd (rx u), u') \<and> rx u' = [])"
proof
  show "\<exists>u'. put_all (serial_putc (uart_ports (sp_iobase port) delay) port) s u = Some u' \<and> tx u' = tx u @ s"
  proof (induction s arbitrary: u)
    case (Cons c s)
    obtain u1 where "serial_putc (uart_ports (sp_iobase port) delay) port c u = Some u1" "tx u1 = tx u @ [c]" using putc_sends by blast
    then show ?case using Cons [of u1] by auto
  qed simp
  show "\<exists>u'. get_n (serial_getc (uart_ports (sp_iobase port) delay) port) (length (rx u)) u = Some (map snd (rx u), u') \<and> rx u' = []"
  proof (induction "rx u" arbitrary: u)
    case (Cons x rs)
    obtain q c where x: "x = (q, c)" by force
    obtain u1 where 1: "serial_getc (uart_ports (sp_iobase port) delay) port u = Some (c, u1)" "rx u1 = rs"
      using getc_receives [of u q c rs] Cons.hyps(2) x by auto
    then have "\<exists>u'. get_n (serial_getc (uart_ports (sp_iobase port) delay) port) (length rs) u1 = Some (map snd rs, u') \<and> rx u' = []"
      using Cons.hyps(1) [of u1] by simp
    then show ?case using 1 x by (auto simp flip: Cons.hyps(2))
  qed simp
qed

section \<open>Registering the ports\<close>

lemma sizes: "aligned_size 8 = 64" "aligned_size 96 = 128" "aligned_size 12 = 64"
  by (simp_all add: aligned_size_def)

text \<open>The heap of the state holds the blocks of a driver (theory Heap_Client).\<close>

interpretation sp: heap_holder "\<lambda>st :: serial mgr. sp_heap (rest st)" sp_with_heap
  by unfold_locales (simp add: sp_with_heap_def)

definition sp_ready :: "serial mgr \<Rightarrow> u32 set \<Rightarrow> nat \<Rightarrow> bool" where
  "sp_ready st L k \<longleftrightarrow> holds (sp_heap (rest st)) L k"

lemma sp_alloc_ready:
  assumes "sp_ready st L (24 + unat (aligned_size n) + k)" "aligned_size n \<noteq> 0" "unat (aligned_size n) \<le> 4000"
  obtains p h' where "sp_alloc n st = Some (Inr (p, st\<lparr>rest := (rest st)\<lparr>sp_heap := h'\<rparr>\<rparr>))" "p \<notin> L"
    "sp_ready (st\<lparr>rest := (rest st)\<lparr>sp_heap := h'\<rparr>\<rparr>) (insert p L) k"
  by (rule sp.alloc_ready [OF assms(1) [unfolded sp_ready_def] assms(2, 3)])
    (rule that, simp_all add: sp_alloc_def sp_ready_def sp_with_heap_def)

text \<open>A registered port.\<close>

definition port_device :: "sp_code \<Rightarrow> serial mgr \<Rightarrow> u32 \<Rightarrow> cstring \<times> u16 \<Rightarrow> bool" where
  "port_device code st d = (\<lambda>(name, base). dev_name (device_at st d) = name \<and> dev_type (device_at st d) = DEVICE_TYPE_CHAR
     \<and> dev_destroy (device_at st d) = at_destroy code
     \<and> (let sp = device_priv (device_at st d) in
        chardev_at (rest st) (internal_dev (device_at st d)) = \<lparr>cd_putc = at_putc code, cd_getc = at_getc code, cd_priv = sp\<rparr>
        \<and> port_at (rest st) sp = \<lparr>sp_iobase = base, sp_baudrate = 115200\<rparr>))"

text \<open>The records at the addresses in \<open>L\<close> are the same in two states.\<close>

definition same_at :: "u32 set \<Rightarrow> serial mgr \<Rightarrow> serial mgr \<Rightarrow> bool" where
  "same_at L st st' \<longleftrightarrow> (\<forall>x \<in> L. device_at st' x = device_at st x \<and> port_at (rest st') x = port_at (rest st) x
     \<and> chardev_at (rest st') x = chardev_at (rest st) x)"

lemma new_port:
  assumes "sp_ready st L (328 + k)"
  obtains d L' st' where "serial_new_dev code base 115200 st = Some (Inr (d, st'))" "L \<subseteq> L'" "d \<in> L'" "d \<notin> L" "sp_ready st' L' k"
    "port_device code st' d (lit ''sp'' @ decimal (sint (of_int (sp_index (rest st)) :: u32)), base)"
    "device_priv (device_at st' d) \<in> L'" "internal_dev (device_at st' d) \<in> L'" "same_at L st st'"
    "sp_index (rest st') = sp_index (rest st) + 1" "devices st' = devices st" "drivers st' = drivers st" "driver_at st' = driver_at st"
proof -
  have s8: "sp_ready st L (24 + unat (aligned_size 8) + (240 + k))" using assms by (simp add: sizes)
  obtain sp h1 where 1: "sp_alloc 8 st = Some (Inr (sp, st\<lparr>rest := (rest st)\<lparr>sp_heap := h1\<rparr>\<rparr>))" "sp \<notin> L"
    "sp_ready (st\<lparr>rest := (rest st)\<lparr>sp_heap := h1\<rparr>\<rparr>) (insert sp L) (240 + k)"
    by (rule sp_alloc_ready [OF s8]) (simp_all add: sizes)
  let ?st1 = "st\<lparr>rest := (rest st)\<lparr>sp_heap := h1, port_at := (port_at (rest st))(sp := \<lparr>sp_iobase = base, sp_baudrate = 115200\<rparr>)\<rparr>\<rparr>"
  have s96: "sp_ready ?st1 (insert sp L) (24 + unat (aligned_size 96) + (88 + k))" using 1(3) by (simp add: sizes sp_ready_def)
  obtain d h2 where 2: "sp_alloc 96 ?st1 = Some (Inr (d, ?st1\<lparr>rest := (rest ?st1)\<lparr>sp_heap := h2\<rparr>\<rparr>))" "d \<notin> insert sp L"
    "sp_ready (?st1\<lparr>rest := (rest ?st1)\<lparr>sp_heap := h2\<rparr>\<rparr>) (insert d (insert sp L)) (88 + k)"
    by (rule sp_alloc_ready [OF s96]) (simp_all add: sizes)
  let ?name = "lit ''sp'' @ decimal (sint (of_int (sp_index (rest st)) :: u32))"
  have name: "format_text (\<lambda>_. []) (lit ''sp%d'') [of_int (sp_index (rest st))] = Inr ?name"
    by (simp add: lit_def format_steps)
  let ?st2 = "st\<lparr>device_at := (device_at st)(d := (device_at st d)\<lparr>dev_type := DEVICE_TYPE_CHAR, dev_destroy := at_destroy code, dev_name := ?name,
      device_priv := sp\<rparr>), rest := (rest st)\<lparr>port_at := (port_at (rest st))(sp := \<lparr>sp_iobase = base, sp_baudrate = 115200\<rparr>),
      sp_heap := h2, sp_index := sp_index (rest st) + 1\<rparr>\<rparr>"
  have s12: "sp_ready ?st2 (insert d (insert sp L)) (24 + unat (aligned_size 12) + k)" using 2(3) by (simp add: sizes sp_ready_def)
  obtain cd h3 where 3: "sp_alloc 12 ?st2 = Some (Inr (cd, ?st2\<lparr>rest := (rest ?st2)\<lparr>sp_heap := h3\<rparr>\<rparr>))" "cd \<notin> insert d (insert sp L)"
    "sp_ready (?st2\<lparr>rest := (rest ?st2)\<lparr>sp_heap := h3\<rparr>\<rparr>) (insert cd (insert d (insert sp L))) k"
    by (rule sp_alloc_ready [OF s12]) (simp_all add: sizes)
  let ?st3 = "?st2\<lparr>device_at := (device_at ?st2)(d := (device_at ?st2 d)\<lparr>internal_dev := cd\<rparr>),
      rest := serial_get_chardev code sp cd ((rest ?st2)\<lparr>sp_heap := h3\<rparr>)\<rparr>"
  have run: "serial_new_dev code base 115200 st = Some (Inr (d, ?st3))"
    using 1(1) 2(1) 3(1) by (simp add: serial_new_dev_def name Let_def)
  show ?thesis
    by (rule that [OF run, of "insert cd (insert d (insert sp L))"])
      (use 1(2) 2(2) 3(2, 3) in \<open>auto simp: port_device_def same_at_def sp_ready_def serial_get_chardev_def Let_def\<close>)
qed

definition no_dependents :: "serial mgr \<Rightarrow> bool" where
  "no_dependents st \<longleftrightarrow> (\<forall>drv \<in> set (drivers st). depends_on (driver_at st drv) \<noteq> DEVICE_TYPE_CHAR)"

lemma register_port:
  "no_dependents st \<Longrightarrow> dev_type (device_at st d) = DEVICE_TYPE_CHAR \<Longrightarrow>
    device_register c d st = Some (Inr (st\<lparr>devices := devices st @ [d]\<rparr>))"
  by (rule register_plain) (auto simp: no_dependents_def)

text \<open>Ports are registered one after the other; those before keep their records.\<close>

lemma port_device_cong:
  assumes "same_at L st st'" "d \<in> L" "device_priv (device_at st d) \<in> L" "internal_dev (device_at st d) \<in> L"
  shows "port_device code st' d p \<longleftrightarrow> port_device code st d p"
  using assms by (auto simp: port_device_def same_at_def Let_def split: prod.splits)

definition holds_port :: "sp_code \<Rightarrow> u32 set \<Rightarrow> serial mgr \<Rightarrow> u32 \<Rightarrow> cstring \<times> u16 \<Rightarrow> bool" where
  "holds_port code L st d p \<longleftrightarrow> port_device code st d p \<and> d \<in> L \<and> device_priv (device_at st d) \<in> L \<and> internal_dev (device_at st d) \<in> L"

lemma holds_port_mono:
  "holds_port code L st d p \<Longrightarrow> same_at L st st' \<Longrightarrow> L \<subseteq> L' \<Longrightarrow> holds_port code L' st' d p"
  using port_device_cong [of L st st' d code p] by (auto simp: holds_port_def same_at_def)

definition port_name :: "int \<Rightarrow> cstring" where
  "port_name i = lit ''sp'' @ decimal (sint (of_int i :: u32))"

fun ports_from :: "int \<Rightarrow> u16 list \<Rightarrow> (cstring \<times> u16) list" where
  "ports_from i [] = []"
| "ports_from i (b # bs) = (port_name i, b) # ports_from (i + 1) bs"

lemma add_ports:
  assumes "sp_ready st L (328 * length bases)" "no_dependents st"
  shows "\<exists>ds L' st'. run_each (\<lambda>base st. run_bind (serial_new_dev code base 115200 st) (\<lambda>(dev, st). device_register c dev st)) bases st
      = Some (Inr st') \<and> devices st' = devices st @ ds \<and> distinct ds \<and> set ds \<inter> L = {} \<and> L \<subseteq> L' \<and> same_at L st st'
    \<and> drivers st' = drivers st \<and> driver_at st' = driver_at st
    \<and> list_all2 (holds_port code L' st') ds (ports_from (sp_index (rest st)) bases)"
  using assms
proof (induction bases arbitrary: st L)
  case Nil
  then show ?case by (intro exI [of _ "[]"] exI [of _ L] exI [of _ st]) (simp add: same_at_def)
next
  case (Cons base bases)
  have r: "sp_ready st L (328 + 328 * length bases)" using Cons.prems(1) by simp
  obtain d L1 st1 where 1: "serial_new_dev code base 115200 st = Some (Inr (d, st1))" "L \<subseteq> L1" "d \<in> L1" "d \<notin> L" "sp_ready st1 L1 (328 * length bases)"
    "port_device code st1 d (port_name (sp_index (rest st)), base)" "device_priv (device_at st1 d) \<in> L1" "internal_dev (device_at st1 d) \<in> L1"
    "same_at L st st1" "sp_index (rest st1) = sp_index (rest st) + 1" "devices st1 = devices st" "drivers st1 = drivers st" "driver_at st1 = driver_at st"
    unfolding port_name_def by (rule new_port [OF r])
  let ?st1 = "st1\<lparr>devices := devices st1 @ [d]\<rparr>"
  have reg: "device_register c d st1 = Some (Inr ?st1)"
    using 1 Cons.prems(2) by (intro register_port) (auto simp: no_dependents_def port_device_def)
  have "sp_ready ?st1 L1 (328 * length bases)" "no_dependents ?st1" using 1 Cons.prems(2) by (simp_all add: sp_ready_def no_dependents_def)
  from Cons.IH [OF this] obtain ds L' st' where 2: "run_each (\<lambda>base st. run_bind (serial_new_dev code base 115200 st) (\<lambda>(dev, st). device_register c dev st)) bases ?st1
      = Some (Inr st')" "devices st' = devices st @ d # ds" "distinct ds" "set ds \<inter> L1 = {}" "L1 \<subseteq> L'" "same_at L1 ?st1 st'"
    "drivers st' = drivers st" "driver_at st' = driver_at st"
    "list_all2 (holds_port code L' st') ds (ports_from (sp_index (rest st) + 1) bases)"
    using 1 by (auto simp: add.assoc)
  have "holds_port code L1 ?st1 d (port_name (sp_index (rest st)), base)" using 1 by (simp add: holds_port_def port_device_def)
  then have d: "holds_port code L' st' d (port_name (sp_index (rest st)), base)" by (rule holds_port_mono [OF _ 2(6, 5)])
  have "same_at L ?st1 st'" using 2(6) 1(2) unfolding same_at_def by blast
  then have same: "same_at L st st'" using 1(9) by (simp add: same_at_def)
  show ?case
    by (intro exI [of _ "d # ds"] exI [of _ L'] exI [of _ st'])
      (use 1 2 d same reg in auto)
qed

text \<open>The first probe of the serial driver registers four character devices \<open>sp0\<close> to \<open>sp3\<close> behind the devices registered
  before, each with the port addresses of its connector behind its character device, and changes no record at a live
  address; every later probe does nothing.\<close>

theorem serial_probe_registers:
  assumes "sp_ready st L 1312" "no_dependents st" "sp_index (rest st) = 0" "first_probe (driver_at st drv)"
  shows "\<exists>ds st'. serial_probe code c drv st = Some (Inr st') \<and> devices st' = devices st @ ds \<and> distinct ds \<and> set ds \<inter> L = {} \<and> same_at L st st'
    \<and> list_all2 (port_device code st') ds [(lit ''sp0'', 0x3f8), (lit ''sp1'', 0x2f8), (lit ''sp2'', 0x3e8), (lit ''sp3'', 0x2e8)]
    \<and> (\<forall>st. \<not> first_probe (driver_at st drv) \<longrightarrow> serial_probe code c drv st = Some (Inr st))"
proof -
  have dec: "decimal 0 = [48]" "decimal 1 = [49]" "decimal 2 = [50]" "decimal 3 = [51]" by code_simp+
  have n: "port_name 0 = lit ''sp0''" "port_name 1 = lit ''sp1''" "port_name 2 = lit ''sp2''" "port_name 3 = lit ''sp3''"
    by (simp_all add: port_name_def dec lit_def)
  have r: "sp_ready st L (328 * length [SP_COM0_PORT, SP_COM1_PORT, SP_COM2_PORT, SP_COM3_PORT])" using assms(1) by simp
  from add_ports [OF r assms(2), of code c] assms(3) obtain ds L' st' where
    "run_each (\<lambda>base st. run_bind (serial_new_dev code base 115200 st) (\<lambda>(dev, st). device_register c dev st))
      [SP_COM0_PORT, SP_COM1_PORT, SP_COM2_PORT, SP_COM3_PORT] st = Some (Inr st')"
    "devices st' = devices st @ ds" "distinct ds" "set ds \<inter> L = {}" "same_at L st st'"
    "list_all2 (holds_port code L' st') ds [(lit ''sp0'', 0x3f8), (lit ''sp1'', 0x2f8), (lit ''sp2'', 0x3e8), (lit ''sp3'', 0x2e8)]"
    by (auto simp: n SP_COM0_PORT_def SP_COM1_PORT_def SP_COM2_PORT_def SP_COM3_PORT_def)
  moreover from this(6) have "list_all2 (port_device code st') ds [(lit ''sp0'', 0x3f8), (lit ''sp1'', 0x2f8), (lit ''sp2'', 0x3e8), (lit ''sp3'', 0x2e8)]"
    by (rule list_all2_mono) (simp add: holds_port_def)
  ultimately show ?thesis using assms(4) by (auto simp: serial_probe_def)
qed

definition serial0 :: "serial mgr" where
  "serial0 = \<lparr>drivers = [0x500], devices = [],
     driver_at = (\<lambda>_. (serial_driver 0x600)\<lparr>first_probe := True\<rparr>),
     device_at = (\<lambda>_. \<lparr>dev_name = [], dev_destroy = 0, dev_setparam = 0, dev_inform = 0, internal_dev = 0, device_priv = 0,
       dev_type = DEVICE_TYPE_UNKNOWN, subdevices = None, num_subdevices = 0\<rparr>),
     rest = \<lparr>sp_heap = heap0, sp_index = 0, port_at = (\<lambda>_. \<lparr>sp_iobase = 0, sp_baudrate = 0\<rparr>),
       chardev_at = (\<lambda>_. \<lparr>cd_putc = 0, cd_getc = 0, cd_priv = 0\<rparr>)\<rparr>\<rparr>"

lemma serial0_ready: "sp_ready serial0 {} 1312"
proof -
  have "space heap0 [root0] 1312" by (simp add: space_def end_of_def root0_def heap0_def init_alloc_def)
  then show ?thesis using heap0_ok by (auto simp: sp_ready_def holds_def live_def serial0_def)
qed

theorem serial_probe_registers_witness:
  "\<exists>ds st'. serial_probe \<lparr>at_putc = 1, at_getc = 2, at_destroy = 3\<rparr>
       \<lparr>call_destroy = (\<lambda>_ _. Some \<circ> Inr), call_inform = (\<lambda>_ _ _ _ _ _ st. Some (Inr (0, st))),
         call_probe = (\<lambda>_ _. Some \<circ> Inr), call_probe_directed = (\<lambda>_ _ _. Some \<circ> Inr)\<rparr> 0x500 serial0 = Some (Inr st')
    \<and> devices st' = ds \<and> distinct ds \<and> map (dev_name \<circ> device_at st') ds = [lit ''sp0'', lit ''sp1'', lit ''sp2'', lit ''sp3'']"
proof -
  have "no_dependents serial0" by (simp add: no_dependents_def serial0_def serial_driver_def DEVICE_TYPE_CHAR_def)
  moreover have "sp_index (rest serial0) = 0" "first_probe (driver_at serial0 0x500)" "devices serial0 = []" by (simp_all add: serial0_def)
  ultimately show ?thesis
    using serial_probe_registers [OF serial0_ready, of "0x500" "\<lparr>at_putc = 1, at_getc = 2, at_destroy = 3\<rparr>"
      "\<lparr>call_destroy = (\<lambda>_ _. Some \<circ> Inr), call_inform = (\<lambda>_ _ _ _ _ _ st. Some (Inr (0, st))),
         call_probe = (\<lambda>_ _. Some \<circ> Inr), call_probe_directed = (\<lambda>_ _ _. Some \<circ> Inr)\<rparr>"]
    by (auto simp: list_all2_Cons2 port_device_def)
qed

end
