(* ===== verification/Pci.thy ===== *)
theory Pci
  imports Interrupts
begin

text \<open>
  The PCI bus (\<open>kern/io/pci.c\<close>): configuration reads and writes through the two ports, and the search
  of all buses for the network card, whose initialisation is a parameter here (theory Ne2k has it).
  What the ports answer is a parameter; \<open>pci_mechanism\<close> states the documented behaviour of the
  configuration ports.
\<close>

unbundle bit_operations_syntax

section \<open>The code\<close>

definition PCI_CFG_ADDR :: u16 where "PCI_CFG_ADDR = 0xcf8"
definition PCI_CFG_DATA :: u16 where "PCI_CFG_DATA = 0xcfc"

definition PCI_REG :: "int \<Rightarrow> int \<Rightarrow> u8" where
  "PCI_REG reg off = of_int (reg * 4 + off)"

text \<open>The bit fields of \<open>pci_addr_t\<close>: eight bits of register, three of function, five of device, eight of bus.\<close>

definition pci_addr :: "u8 \<Rightarrow> u8 \<Rightarrow> u8 \<Rightarrow> u8 \<Rightarrow> u32" where
  "pci_addr bus dev func off =
     ucast off OR push_bit 8 (ucast (take_bit 3 func)) OR push_bit 11 (ucast (take_bit 5 dev)) OR push_bit 16 (ucast bus) OR push_bit 31 1"

definition pci_cfg_read_dword :: "'h ports \<Rightarrow> u8 \<Rightarrow> u8 \<Rightarrow> u8 \<Rightarrow> u8 \<Rightarrow> 'h \<Rightarrow> (u32 \<times> 'h) outcome" where
  "pci_cfg_read_dword io bus dev func off h =
     assert_that (off AND 3 = 0) ''Unaligned PCI read attempt''
       (Inr (inl io PCI_CFG_DATA (outl io PCI_CFG_ADDR (pci_addr bus dev func off) h)))"

definition pci_cfg_write_dword :: "'h ports \<Rightarrow> u8 \<Rightarrow> u8 \<Rightarrow> u8 \<Rightarrow> u8 \<Rightarrow> u32 \<Rightarrow> 'h \<Rightarrow> 'h outcome" where
  "pci_cfg_write_dword io bus dev func off data h =
     assert_that (off AND 3 = 0) ''Unaligned PCI read attempt''
       (Inr (outl io PCI_CFG_DATA data (outl io PCI_CFG_ADDR (pci_addr bus dev func off) h)))"

text \<open>The halves are exchanged.\<close>

definition pci_cfg_read_word :: "'h ports \<Rightarrow> u8 \<Rightarrow> u8 \<Rightarrow> u8 \<Rightarrow> u8 \<Rightarrow> 'h \<Rightarrow> (u16 \<times> 'h) outcome" where
  "pci_cfg_read_word io bus dev func off h =
     bind_outcome (pci_cfg_read_dword io bus dev func (off AND 0xfc) h) (\<lambda>(ret, h).
       Inr (ucast (if off AND 2 \<noteq> 0 then ret AND 0xffff else drop_bit 16 ret), h))"

text \<open>Reading with the ports of the machine.\<close>

definition read_word :: "'h ports \<Rightarrow> u8 \<Rightarrow> u8 \<Rightarrow> u8 \<Rightarrow> u8 \<Rightarrow> ('h, 'i, 'z) cpu_scheme \<Rightarrow> (u16 \<times> ('h, 'i, 'z) cpu_scheme) outcome" where
  "read_word io bus dev func off st =
     bind_outcome (pci_cfg_read_word io bus dev func off (chw st)) (\<lambda>(v, h). Inr (v, st\<lparr>chw := h\<rparr>))"

definition read_dev :: "'h ports \<Rightarrow> u8 \<Rightarrow> u8 \<Rightarrow> u8 \<Rightarrow> 'h \<Rightarrow> (u32 list \<times> 'h) outcome" where
  "read_dev io bus dev func h =
     each_outcome (\<lambda>i (desc, h). bind_outcome (pci_cfg_read_dword io bus dev func (PCI_REG i 0) h) (\<lambda>(v, h). Inr (desc @ [v], h)))
       [0..15] ([], h)"

type_synonym ('h, 'i, 'z) card_init = "u32 list \<Rightarrow> ('h, 'i, 'z) cpu_scheme \<Rightarrow> ('h, 'i, 'z) cpu_scheme outcome option"

definition pci_check_func :: "'h ports \<Rightarrow> ('h, 'i, 'z) card_init \<Rightarrow> u8 \<Rightarrow> u8 \<Rightarrow> u8
    \<Rightarrow> ('h, 'i, 'z) cpu_scheme \<Rightarrow> ('h, 'i, 'z) cpu_scheme outcome option" where
  "pci_check_func io ne2k_init bus dev func st =
     run_bind (Some (read_word io bus dev func 2 st)) (\<lambda>(vid, st).
     run_bind (Some (read_word io bus dev func 0 st)) (\<lambda>(did, st).
       if vid = 0x10ec \<and> did = 0x8029
       then run_bind (Some (read_dev io bus dev func (chw st))) (\<lambda>(buf, h). ne2k_init buf (st\<lparr>chw := h\<rparr>))
       else Some (Inr st)))"

definition pci_get_header_type :: "'h ports \<Rightarrow> u8 \<Rightarrow> u8 \<Rightarrow> u8 \<Rightarrow> ('h, 'i, 'z) cpu_scheme \<Rightarrow> (u8 \<times> ('h, 'i, 'z) cpu_scheme) outcome" where
  "pci_get_header_type io bus dev func st =
     bind_outcome (read_word io bus dev func (PCI_REG 3 2) st) (\<lambda>(w, st). Inr (ucast w, st))"

definition pci_check :: "'h ports \<Rightarrow> ('h, 'i, 'z) card_init \<Rightarrow> u8 \<Rightarrow> u8
    \<Rightarrow> ('h, 'i, 'z) cpu_scheme \<Rightarrow> ('h, 'i, 'z) cpu_scheme outcome option" where
  "pci_check io ne2k_init bus dev st =
     run_bind (Some (read_word io bus dev 0 0 st)) (\<lambda>(vid, st).
       if vid \<noteq> 0xffff
       then run_bind (pci_check_func io ne2k_init bus dev 0 st) (\<lambda>st.
            run_bind (Some (pci_get_header_type io bus dev 0 st)) (\<lambda>(header_type, st).
              if header_type AND 0x80 \<noteq> 0
              then run_each (\<lambda>i st. run_bind (Some (read_word io bus dev (of_nat i) 0 st)) (\<lambda>(vid, st).
                     if vid \<noteq> 0xffff then pci_check_func io ne2k_init bus dev (of_nat i) st else Some (Inr st))) [1..<8] st
              else Some (Inr st)))
       else Some (Inr st))"

definition pci_enumerate :: "'h ports \<Rightarrow> ('h, 'i, 'z) card_init \<Rightarrow> ('h, 'i, 'z) cpu_scheme \<Rightarrow> ('h, 'i, 'z) cpu_scheme outcome option" where
  "pci_enumerate io ne2k_init = run_each (\<lambda>bus. run_each (\<lambda>dev. pci_check io ne2k_init (of_nat bus) (of_nat dev)) [0..<32]) [0..<256]"

definition pci_test :: "'h ports \<Rightarrow> ('h, 'i, 'z) card_init \<Rightarrow> ('h, 'i, 'z) cpu_scheme \<Rightarrow> ('h, 'i, 'z) cpu_scheme outcome option" where
  "pci_test = pci_enumerate"

section \<open>The bus\<close>

text \<open>
  The ports answer a read after an address was written with the contents \<open>cfg\<close> of the configuration
  space at that address; \<open>ok\<close> are the states in which they do.
\<close>

definition pci_mechanism :: "'h ports \<Rightarrow> (u32 \<Rightarrow> u32) \<Rightarrow> ('h \<Rightarrow> bool) \<Rightarrow> bool" where
  "pci_mechanism io cfg ok \<longleftrightarrow> (\<forall>h a. ok h \<longrightarrow> fst (inl io PCI_CFG_DATA (outl io PCI_CFG_ADDR a h)) = cfg a
     \<and> ok (snd (inl io PCI_CFG_DATA (outl io PCI_CFG_ADDR a h))))"

text \<open>A register of a function, its vendor and its device number.\<close>

definition cfg_reg :: "(u32 \<Rightarrow> u32) \<Rightarrow> nat \<Rightarrow> nat \<Rightarrow> nat \<Rightarrow> nat \<Rightarrow> u32" where
  "cfg_reg cfg bus dev func r = cfg (pci_addr (of_nat bus) (of_nat dev) (of_nat func) (of_nat (4 * r)))"

definition vendor :: "(u32 \<Rightarrow> u32) \<Rightarrow> nat \<Rightarrow> nat \<Rightarrow> nat \<Rightarrow> u16" where
  "vendor cfg bus dev func = ucast (cfg_reg cfg bus dev func 0)"

definition product :: "(u32 \<Rightarrow> u32) \<Rightarrow> nat \<Rightarrow> nat \<Rightarrow> nat \<Rightarrow> u16" where
  "product cfg bus dev func = ucast (drop_bit 16 (cfg_reg cfg bus dev func 0))"

definition cache_line_size :: "(u32 \<Rightarrow> u32) \<Rightarrow> nat \<Rightarrow> nat \<Rightarrow> u8" where
  "cache_line_size cfg bus dev = ucast (cfg_reg cfg bus dev 0 3)"

definition descriptor :: "(u32 \<Rightarrow> u32) \<Rightarrow> nat \<Rightarrow> nat \<Rightarrow> nat \<Rightarrow> u32 list" where
  "descriptor cfg bus dev func = map (cfg_reg cfg bus dev func) [0..<16]"

text \<open>The functions of a device that the search looks at, and the cards that it finds, in order.\<close>

definition looked_at :: "(u32 \<Rightarrow> u32) \<Rightarrow> nat \<Rightarrow> nat \<Rightarrow> nat list" where
  "looked_at cfg bus dev = (if product cfg bus dev 0 = 0xffff then []
     else 0 # (if cache_line_size cfg bus dev AND 0x80 \<noteq> 0 then filter (\<lambda>f. product cfg bus dev f \<noteq> 0xffff) [1..<8] else []))"

definition cards :: "(u32 \<Rightarrow> u32) \<Rightarrow> nat \<Rightarrow> nat \<Rightarrow> u32 list list" where
  "cards cfg bus dev = map (descriptor cfg bus dev)
     (filter (\<lambda>f. vendor cfg bus dev f = 0x10ec \<and> product cfg bus dev f = 0x8029) (looked_at cfg bus dev))"

definition all_cards :: "(u32 \<Rightarrow> u32) \<Rightarrow> u32 list list" where
  "all_cards cfg = concat (map (\<lambda>bus. concat (map (cards cfg bus) [0..<32])) [0..<256])"

section \<open>Reading the bus\<close>

lemma read_word_eq:
  assumes "pci_mechanism io cfg ok" "ok (chw st)"
  obtains h where "ok h" "read_word io bus dev func off st
    = Inr (ucast (if off AND 2 \<noteq> 0 then cfg (pci_addr bus dev func (off AND 0xfc)) AND 0xffff
        else drop_bit 16 (cfg (pci_addr bus dev func (off AND 0xfc)))), st\<lparr>chw := h\<rparr>)"
proof -
  obtain v h where r: "inl io PCI_CFG_DATA (outl io PCI_CFG_ADDR (pci_addr bus dev func (off AND 0xfc)) (chw st)) = (v, h)" by force
  then have v: "v = cfg (pci_addr bus dev func (off AND 0xfc))" "ok h"
    using assms unfolding pci_mechanism_def by (metis fst_conv snd_conv)+
  have a: "(off AND 0xfc) AND 3 = 0" by (simp add: and.assoc)
  show ?thesis using r v by (intro that [of h]) (simp_all add: a read_word_def pci_cfg_read_word_def pci_cfg_read_dword_def)
qed

lemma low_word: "ucast (w AND 0xffff) = (ucast (w :: u32) :: u16)"
  by (rule bit_word_eqI) (auto simp: bit_simps offset_masks)

lemma read_vendor:
  assumes "pci_mechanism io cfg ok" "ok (chw st)"
  obtains h where "ok h" "read_word io (of_nat bus) (of_nat dev) (of_nat func) 2 st = Inr (vendor cfg bus dev func, st\<lparr>chw := h\<rparr>)"
  using read_word_eq [OF assms, of "of_nat bus" "of_nat dev" "of_nat func" 2]
  by (auto simp: vendor_def cfg_reg_def low_word intro: that)

lemma read_product:
  assumes "pci_mechanism io cfg ok" "ok (chw st)"
  obtains h where "ok h" "read_word io (of_nat bus) (of_nat dev) (of_nat func) 0 st = Inr (product cfg bus dev func, st\<lparr>chw := h\<rparr>)"
  using read_word_eq [OF assms, of "of_nat bus" "of_nat dev" "of_nat func" 0] by (auto simp: product_def cfg_reg_def intro: that)

lemma read_header:
  assumes "pci_mechanism io cfg ok" "ok (chw st)"
  obtains h where "ok h" "pci_get_header_type io (of_nat bus) (of_nat dev) 0 st = Inr (cache_line_size cfg bus dev, st\<lparr>chw := h\<rparr>)"
proof -
  have "(ucast (ucast (w :: u32) :: u16) :: u8) = ucast w" for w by (rule bit_word_eqI) (auto simp: bit_simps)
  moreover have "PCI_REG 3 2 = 14" by (simp add: PCI_REG_def)
  moreover obtain h where "ok h" "read_word io (of_nat bus) (of_nat dev) 0 14 st
      = Inr (ucast (cfg (pci_addr (of_nat bus) (of_nat dev) 0 12)), st\<lparr>chw := h\<rparr>)"
    using read_word_eq [OF assms, of "of_nat bus" "of_nat dev" 0 14] by (auto simp: low_word)
  ultimately show ?thesis by (intro that [of h]) (simp_all add: cache_line_size_def cfg_reg_def pci_get_header_type_def)
qed

lemma push_bit_and_low: "push_bit 2 (of_nat k :: u8) AND 3 = 0"
proof (rule bit_word_eqI)
  fix n :: nat
  have "bit (3 :: int) n \<longleftrightarrow> n < 2" using bit_mask_iff [of 2 n, where ?'a = int] by (simp add: mask_eq_exp_minus_1)
  then show "bit (push_bit 2 (of_nat k :: u8) AND 3) n = bit 0 n" by (auto simp: bit_simps)
qed

lemma read_dev_upto:
  assumes "pci_mechanism io cfg ok" "ok h" "k \<le> 16"
  shows "\<exists>h'. each_outcome (\<lambda>i (desc, h). bind_outcome (pci_cfg_read_dword io (of_nat bus) (of_nat dev) (of_nat func) (PCI_REG i 0) h)
      (\<lambda>(v, h). Inr (desc @ [v], h))) (map int [0..<k]) ([], h) = Inr (map (cfg_reg cfg bus dev func) [0..<k], h') \<and> ok h'"
  using assms(3)
proof (induction k)
  case 0
  then show ?case using assms(2) by simp
next
  case (Suc k)
  then obtain h' where h': "ok h'" "each_outcome (\<lambda>i (desc, h). bind_outcome (pci_cfg_read_dword io (of_nat bus) (of_nat dev) (of_nat func) (PCI_REG i 0) h)
      (\<lambda>(v, h). Inr (desc @ [v], h))) (map int [0..<k]) ([], h) = Inr (map (cfg_reg cfg bus dev func) [0..<k], h')" by auto
  obtain v h'' where r: "inl io PCI_CFG_DATA (outl io PCI_CFG_ADDR (pci_addr (of_nat bus) (of_nat dev) (of_nat func) (of_nat (4 * k))) h') = (v, h'')" by force
  then have v: "v = cfg_reg cfg bus dev func k" "ok h''"
    using assms(1) h'(1) unfolding pci_mechanism_def cfg_reg_def by (metis fst_conv snd_conv)+
  have reg: "PCI_REG (int k) 0 = of_nat (4 * k)" by (simp add: PCI_REG_def)
  have "(of_nat (4 * k) :: u8) = push_bit 2 (of_nat k)" by (simp add: push_bit_eq_mult)
  then have "(of_nat (4 * k) :: u8) AND 3 = 0" using push_bit_and_low [of k] by simp
  then show ?case using h' r v unfolding pci_cfg_read_dword_def by (auto simp: each_outcome_append pci_cfg_read_dword_def reg)
qed

section \<open>The search\<close>

lemma run_each_seen:
  assumes "\<And>x st. x \<in> set xs \<Longrightarrow> I st \<Longrightarrow> \<exists>st'. f x st = Some (Inr st') \<and> I st' \<and> seen st' = seen st @ g x" "I st"
  shows "\<exists>st'. run_each f xs st = Some (Inr st') \<and> I st' \<and> seen st' = seen st @ concat (map g xs)"
  using assms
proof (induction xs arbitrary: st)
  case (Cons x xs)
  obtain st1 where 1: "f x st = Some (Inr st1)" "I st1" "seen st1 = seen st @ g x" using Cons.prems(1) [of x st] Cons.prems(2) by auto
  then show ?case using Cons.IH [OF _ 1(2)] Cons.prems(1) by fastforce
qed simp

text \<open>What the search relies on: the initialisation of a card leaves the bus working; \<open>seen\<close> tells the cards it was given.\<close>

definition card_hook :: "('h, 'i, 'z) card_init \<Rightarrow> ('h \<Rightarrow> bool) \<Rightarrow> (('h, 'i, 'z) cpu_scheme \<Rightarrow> u32 list list) \<Rightarrow> bool" where
  "card_hook init ok seen \<longleftrightarrow> (\<forall>d st. ok (chw st) \<longrightarrow> (\<exists>st'. init d st = Some (Inr st') \<and> ok (chw st') \<and> seen st' = seen st @ [d]))
     \<and> (\<forall>h st. seen (st\<lparr>chw := h\<rparr>) = seen st)"

lemma hookE:
  assumes "card_hook init ok seen" "ok (chw st)"
  obtains st' where "init d st = Some (Inr st')" "ok (chw st')" "seen st' = seen st @ [d]"
  using assms unfolding card_hook_def by blast

lemma hook_seen: "card_hook init ok seen \<Longrightarrow> seen (st\<lparr>chw := h\<rparr>) = seen st"
  by (simp add: card_hook_def)

definition is_card :: "(u32 \<Rightarrow> u32) \<Rightarrow> nat \<Rightarrow> nat \<Rightarrow> nat \<Rightarrow> bool" where
  "is_card cfg bus dev f \<longleftrightarrow> vendor cfg bus dev f = 0x10ec \<and> product cfg bus dev f = 0x8029"

lemma check_func_seen:
  assumes "pci_mechanism io cfg ok" "card_hook init ok seen" "ok (chw st)"
  shows "\<exists>st'. pci_check_func io init (of_nat bus) (of_nat dev) (of_nat f) st = Some (Inr st') \<and> ok (chw st')
    \<and> seen st' = seen st @ (if is_card cfg bus dev f then [descriptor cfg bus dev f] else [])"
proof -
  obtain h1 where 1: "ok h1" "read_word io (of_nat bus) (of_nat dev) (of_nat f) 2 st = Inr (vendor cfg bus dev f, st\<lparr>chw := h1\<rparr>)"
    by (rule read_vendor [OF assms(1, 3)])
  have ok1: "ok (chw (st\<lparr>chw := h1\<rparr>))" using 1 by simp
  obtain h2 where 2: "ok h2" "read_word io (of_nat bus) (of_nat dev) (of_nat f) 0 (st\<lparr>chw := h1\<rparr>) = Inr (product cfg bus dev f, st\<lparr>chw := h2\<rparr>)"
    by (rule read_product [OF assms(1) ok1, of bus dev f]) (rule that, assumption, simp)
  obtain h3 where 3: "ok h3" "read_dev io (of_nat bus) (of_nat dev) (of_nat f) h2 = Inr (descriptor cfg bus dev f, h3)"
    using read_dev_upto [OF assms(1) 2(1), of 16 bus dev f] int_upt [of 16] by (auto simp: read_dev_def descriptor_def)
  obtain st' where "init (descriptor cfg bus dev f) (st\<lparr>chw := h3\<rparr>) = Some (Inr st')" "ok (chw st')" "seen st' = seen st @ [descriptor cfg bus dev f]"
    by (rule hookE [OF assms(2), where st = "st\<lparr>chw := h3\<rparr>" and d = "descriptor cfg bus dev f"])
      (use 3(1) hook_seen [OF assms(2)] in simp_all)
  then show ?thesis using 1 2 3 assms(2) by (auto simp: pci_check_func_def is_card_def card_hook_def)
qed

lemma check_seen:
  assumes "pci_mechanism io cfg ok" "card_hook init ok seen" "ok (chw st)"
  shows "\<exists>st'. pci_check io init (of_nat bus) (of_nat dev) st = Some (Inr st') \<and> ok (chw st') \<and> seen st' = seen st @ cards cfg bus dev"
proof -
  let ?g = "\<lambda>f. if is_card cfg bus dev f then [descriptor cfg bus dev f] else []"
  obtain h1 where 1: "ok h1" "read_word io (of_nat bus) (of_nat dev) 0 0 st = Inr (product cfg bus dev 0, st\<lparr>chw := h1\<rparr>)"
    by (rule read_product [OF assms(1, 3), of bus dev 0]) (rule that, assumption, simp)
  show ?thesis
  proof (cases "product cfg bus dev 0 = 0xffff")
    case True
    then show ?thesis using 1 hook_seen [OF assms(2)] by (simp add: pci_check_def cards_def looked_at_def)
  next
    case False
    have ok1: "ok (chw (st\<lparr>chw := h1\<rparr>))" using 1 by simp
    obtain st2 where 2: "pci_check_func io init (of_nat bus) (of_nat dev) 0 (st\<lparr>chw := h1\<rparr>) = Some (Inr st2)" "ok (chw st2)"
      "seen st2 = seen st @ ?g 0"
      using check_func_seen [OF assms(1, 2) ok1, of bus dev 0] hook_seen [OF assms(2)] by auto
    obtain h3 where 3: "ok h3" "pci_get_header_type io (of_nat bus) (of_nat dev) 0 st2 = Inr (cache_line_size cfg bus dev, st2\<lparr>chw := h3\<rparr>)"
      by (rule read_header [OF assms(1) 2(2), of bus dev])
    let ?step = "\<lambda>i st. run_bind (Some (read_word io (of_nat bus) (of_nat dev) (of_nat i) 0 st)) (\<lambda>(vid, st).
                     if vid \<noteq> 0xffff then pci_check_func io init (of_nat bus) (of_nat dev) (of_nat i) st else Some (Inr st))"
    have step: "\<exists>st'. ?step i st = Some (Inr st') \<and> ok (chw st') \<and> seen st' = seen st @ (if product cfg bus dev i \<noteq> 0xffff then ?g i else [])"
      if o: "ok (chw st)" for i st
    proof -
      obtain h where h: "ok h" "read_word io (of_nat bus) (of_nat dev) (of_nat i) 0 st = Inr (product cfg bus dev i, st\<lparr>chw := h\<rparr>)"
        by (rule read_product [OF assms(1) o, of bus dev i])
      then have "ok (chw (st\<lparr>chw := h\<rparr>))" by simp
      from check_func_seen [OF assms(1, 2) this, of bus dev i] show ?thesis using h hook_seen [OF assms(2)] by auto
    qed
    have "ok (chw (st2\<lparr>chw := h3\<rparr>))" using 3 by simp
    then obtain st4 where 4: "run_each ?step [1..<8] (st2\<lparr>chw := h3\<rparr>) = Some (Inr st4)" "ok (chw st4)"
      "seen st4 = seen st2 @ concat (map (\<lambda>i. if product cfg bus dev i \<noteq> 0xffff then ?g i else []) [1..<8])"
      using run_each_seen [of "[1..<8]" "\<lambda>st. ok (chw st)" ?step seen, OF step] hook_seen [OF assms(2)] by fastforce
    have g: "concat (map (\<lambda>i. if product cfg bus dev i \<noteq> 0xffff then ?g i else []) xs)
      = map (descriptor cfg bus dev) (filter (is_card cfg bus dev) (filter (\<lambda>f. product cfg bus dev f \<noteq> 0xffff) xs))" for xs
      by (induction xs) auto
    have "(\<lambda>f. vendor cfg bus dev f = 0x10ec \<and> product cfg bus dev f = 0x8029) = is_card cfg bus dev" by (simp add: is_card_def fun_eq_iff)
    then show ?thesis using False 1 2 3 4 hook_seen [OF assms(2)] unfolding pci_check_def cards_def looked_at_def g
      by (cases "cache_line_size cfg bus dev AND 0x80 = 0") simp_all
  qed
qed

text \<open>C32: On a bus whose configuration ports work, the search ends and initialises, in order, the cards it recognises: in each
  device that answers, the functions of vendor 0x10ec and product 0x8029 among function 0 and, where the top bit of the
  cache line size of function 0 is set, which is not the mark of a device of several functions, the functions 1 to 7 that
  answer; each is given its sixteen registers.\<close>

theorem pci_finds_cards:
  assumes "pci_mechanism io cfg ok" "card_hook init ok seen" "ok (chw st)"
  shows "\<exists>st'. pci_enumerate io init st = Some (Inr st') \<and> ok (chw st') \<and> seen st' = seen st @ all_cards cfg"
proof -
  have bus: "\<exists>st'. run_each (\<lambda>dev. pci_check io init (of_nat bus) (of_nat dev)) [0..<32] st = Some (Inr st') \<and> ok (chw st')
      \<and> seen st' = seen st @ concat (map (cards cfg bus) [0..<32])" if "ok (chw st)" for bus st
    by (rule run_each_seen [where I = "\<lambda>st. ok (chw st)"]) (use check_seen [OF assms(1, 2)] that in auto)
  show ?thesis unfolding pci_enumerate_def all_cards_def
    by (rule run_each_seen [where I = "\<lambda>st. ok (chw st)"]) (use bus assms(3) in auto)
qed

text \<open>A bus with one card, a machine that notes the cards.\<close>

definition card_cfg :: "u32 \<Rightarrow> u32" where
  "card_cfg a = (if a = pci_addr 0 3 0 0 then 0x802910ec else 0xffffffff)"

definition bus_ports :: "u32 ports" where
  "bus_ports = \<lparr>outb = (\<lambda>p v h. h), inb = (\<lambda>p h. (0, h)), outw = (\<lambda>p v h. h), inw = (\<lambda>p h. (0, h)),
     outl = (\<lambda>p v h. if p = 0xcf8 then v else h), inl = (\<lambda>p h. (if p = 0xcfc then card_cfg h else 0, h))\<rparr>"

definition note_card :: "(u32, u32 list list, unit) card_init" where
  "note_card d st = Some (Inr (st\<lparr>cio := (cio st)\<lparr>stdin_dev := stdin_dev (cio st) @ [d]\<rparr>\<rparr>))"

definition bus_cpu :: "(u32, u32 list list) cpu" where
  "bus_cpu = \<lparr>idt = [], bound_handlers = [], ll_bound_handlers = [], chw = 0, cmem = (\<lambda>_. 0),
     cio = \<lparr>stdin_dev = [], stdout_text = None, dbgout_text = None, should_echo = 1, log_level = 5\<rparr>\<rparr>"

theorem pci_finds_cards_witness:
  "\<exists>st'. pci_enumerate bus_ports note_card bus_cpu = Some (Inr st')
    \<and> 0x802910ec # replicate 15 0xffffffff \<in> set (stdin_dev (cio st'))"
proof -
  have m: "pci_mechanism bus_ports card_cfg (\<lambda>_. True)"
    by (simp add: pci_mechanism_def bus_ports_def PCI_CFG_ADDR_def PCI_CFG_DATA_def)
  have h: "card_hook note_card (\<lambda>_. True) (\<lambda>st. stdin_dev (cio st))" by (simp add: card_hook_def note_card_def)
  have "cfg_reg card_cfg 0 3 0 0 = 0x802910ec" by (simp add: cfg_reg_def card_cfg_def)
  then have c: "is_card card_cfg 0 3 0" "product card_cfg 0 3 0 = 0x8029" by (simp_all add: is_card_def vendor_def product_def)
  have "cfg_reg card_cfg 0 3 0 i = 0xffffffff" if "i \<in> {1..<16}" for i
  proof -
    have "i \<in> set [1..<16]" using that by simp
    then show ?thesis by (simp add: upt_rec cfg_reg_def card_cfg_def pci_addr_def) auto
  qed
  then have "descriptor card_cfg 0 3 0 = 0x802910ec # replicate 15 0xffffffff"
    using \<open>cfg_reg card_cfg 0 3 0 0 = 0x802910ec\<close> by (simp add: descriptor_def upt_rec numeral_eq_Suc)
  moreover have "0 \<in> set (looked_at card_cfg 0 3)" using c(2) by (simp add: looked_at_def)
  ultimately have "0x802910ec # replicate 15 0xffffffff \<in> set (cards card_cfg 0 3)"
    using c(1) unfolding cards_def is_card_def by (auto intro: rev_image_eqI)
  then have "0x802910ec # replicate 15 0xffffffff \<in> set (concat (map (cards card_cfg 0) [0..<32]))"
    unfolding set_concat set_map by (intro UN_I [of "cards card_cfg 0 3"] imageI) simp_all
  then have "0x802910ec # replicate 15 0xffffffff \<in> set (all_cards card_cfg)"
    unfolding all_cards_def set_concat [of "map (\<lambda>bus. concat (map (cards card_cfg bus) [0..<32])) [0..<256]"] set_map
    by (intro UN_I [of "concat (map (cards card_cfg 0) [0..<32])"] image_eqI [of _ _ 0]) simp_all
  then show ?thesis using pci_finds_cards [OF m h, of bus_cpu] by (auto simp: bus_cpu_def)
qed

end
