(* ===== verification/Ne2k.thy ===== *)
theory Ne2k
  imports Pci
begin

text \<open>
  The NE2000 network card (\<open>kern/net/ne2k.c\<close>) over its ports, and what the driver makes of a card
  with the documented registers. A polling loop that is never left is \<open>None\<close>.
\<close>

unbundle bit_operations_syntax

section \<open>The code\<close>

definition NE2K_REG_CMD :: u16 where "NE2K_REG_CMD = 0x00"
definition NE2K_REG_TPSR :: u16 where "NE2K_REG_TPSR = 0x04"
definition NE2K_REG_TBCR0 :: u16 where "NE2K_REG_TBCR0 = 0x05"
definition NE2K_REG_TBCR1 :: u16 where "NE2K_REG_TBCR1 = 0x06"
definition NE2K_REG_INT_STAT :: u16 where "NE2K_REG_INT_STAT = 0x07"
definition NE2K_RSAR0 :: u16 where "NE2K_RSAR0 = 0x08"
definition NE2K_RSAR1 :: u16 where "NE2K_RSAR1 = 0x09"
definition NE2K_RBCR0 :: u16 where "NE2K_RBCR0 = 0x0a"
definition NE2K_RBCR1 :: u16 where "NE2K_RBCR1 = 0x0b"
definition NE2K_REG_RX_CFG :: u16 where "NE2K_REG_RX_CFG = 0x0c"
definition NE2K_REG_TX_CFG :: u16 where "NE2K_REG_TX_CFG = 0x0d"
definition NE2K_REG_DATA_CFG :: u16 where "NE2K_REG_DATA_CFG = 0x0e"
definition NE2K_REG_INT_MASK :: u16 where "NE2K_REG_INT_MASK = 0x0f"
definition NE2K_REG_DATA :: u16 where "NE2K_REG_DATA = 0x10"
definition NE2K_REG_RESET :: u16 where "NE2K_REG_RESET = 0x1f"
definition NE2K_CMD_START :: u8 where "NE2K_CMD_START = 2"
definition NE2K_CMD_REMOTE_READ :: u8 where "NE2K_CMD_REMOTE_READ = 8"
definition NE2K_CMD_REMOTE_WRITE :: u8 where "NE2K_CMD_REMOTE_WRITE = 16"

record ('h, 'i) nic = "('h, 'i) cpu" +
  iobase :: u16

text \<open>\<open>while ((inb(port) & mask) == 0);\<close>\<close>

partial_function (option) wait_for :: "'h ports \<Rightarrow> u16 \<Rightarrow> u8 \<Rightarrow> 'h \<Rightarrow> 'h option" where
  "wait_for io port msk h = (let (v, h) = inb io port h in if v AND msk = 0 then wait_for io port msk h else Some h)"

definition writes :: "'h ports \<Rightarrow> u16 \<Rightarrow> (u16 \<times> u8) list \<Rightarrow> 'h \<Rightarrow> 'h" where
  "writes io base = fold (\<lambda>(reg, v). outb io (base + reg) v)"

definition ne2k_tx_packet :: "'h ports \<Rightarrow> u16 \<Rightarrow> mem \<Rightarrow> u32 \<Rightarrow> u32 \<Rightarrow> 'h \<Rightarrow> (u8 \<times> 'h) option" where
  "ne2k_tx_packet io base m packet len h =
     (let txbuf = 0x40;
          h = writes io base
            [(NE2K_REG_CMD, 0x22), (NE2K_RBCR0, ucast (len AND 0xff)), (NE2K_RBCR1, ucast (drop_bit 8 len AND 0xff)),
             (NE2K_REG_INT_STAT, 0x40), (NE2K_RSAR0, 0), (NE2K_RSAR1, txbuf),
             (NE2K_REG_CMD, NE2K_CMD_REMOTE_WRITE OR NE2K_CMD_START)] h;
          h = fold (\<lambda>i. outb io (base + NE2K_REG_DATA) (m (packet + of_nat i))) [0..<unat len] h
      in Option.bind (wait_for io (base + NE2K_REG_INT_STAT) 0x40 h) (\<lambda>h.
        let h = writes io base
            [(NE2K_REG_TPSR, txbuf), (NE2K_REG_TBCR0, ucast (len AND 0xff)), (NE2K_REG_TBCR1, ucast (drop_bit 8 len AND 0xff)),
             (NE2K_REG_CMD, 6)] h
        in Some (inb io (base + NE2K_REG_INT_STAT) h)))"

definition pin :: "'h ports \<Rightarrow> u16 \<Rightarrow> ('h, 'i, 'z) cpu_scheme \<Rightarrow> u8 \<times> ('h, 'i, 'z) cpu_scheme" where
  "pin io port st = (let (v, h) = inb io port (chw st) in (v, st\<lparr>chw := h\<rparr>))"

definition pout :: "'h ports \<Rightarrow> u16 \<Rightarrow> u8 \<Rightarrow> ('h, 'i, 'z) cpu_scheme \<Rightarrow> ('h, 'i, 'z) cpu_scheme" where
  "pout io port v = at_ports (outb io port v)"

definition ne2k_handle_irq :: "'h ports \<Rightarrow> u32 \<Rightarrow> u32 \<Rightarrow> ('h, 'i, 'z) nic_scheme \<Rightarrow> ('h, 'i, 'z) nic_scheme outcome option" where
  "ne2k_handle_irq io n err_no st =
     (let (v, st) = pin io (iobase st + NE2K_REG_INT_STAT) st in
      run_bind (Some (out (\<lambda>_. []) (lit ''ne2k intr: %08b'' @ [10]) [ucast v] st)) (\<lambda>st.
        let (v, st) = pin io (iobase st + NE2K_REG_INT_STAT) st
        in Some (Inr (pout io (iobase st + NE2K_REG_INT_STAT) v st))))"

text \<open>The page may be 4, which is cut to two bits with the register.\<close>

definition ne2k_select_page :: "'h ports \<Rightarrow> int \<Rightarrow> ('h, 'i, 'z) nic_scheme \<Rightarrow> ('h, 'i, 'z) nic_scheme outcome" where
  "ne2k_select_page io page st =
     assert_that (0 \<le> page \<and> page \<le> 4) ''Invalid page for ne2k''
       (let (v, st) = pin io (iobase st + NE2K_REG_CMD) st
        in Inr (pout io (iobase st + NE2K_REG_CMD) ((v AND 0x3f) OR push_bit 6 (of_int page)) st))"

fun read_prom :: "'h ports \<Rightarrow> u16 \<Rightarrow> nat \<Rightarrow> 'h \<Rightarrow> u8 list \<times> 'h" where
  "read_prom io port 0 h = ([], h)"
| "read_prom io port (Suc n) h = (let (v, h) = inb io port h; (vs, h) = read_prom io port n h in (v # vs, h))"

text \<open>\<open>bar0\<close> is the fifth register of the descriptor, the interrupt line the first byte of the last.\<close>

definition ne2k_init :: "'h ports \<Rightarrow> u32 list \<Rightarrow> ('h, 'i, 'z) nic_scheme \<Rightarrow> ('h, 'i, 'z) nic_scheme outcome option" where
  "ne2k_init io device st =
     (let base = ucast (device ! 4 AND NOT 3);
          st = st\<lparr>iobase := base\<rparr>;
          (v, st) = pin io (base + NE2K_REG_RESET) st;
          st = pout io (base + NE2K_REG_RESET) v st
      in Option.bind (wait_for io (base + NE2K_REG_INT_STAT) 0x80 (chw st)) (\<lambda>h.
      let h = writes io base
            [(NE2K_REG_INT_STAT, 0xff), (NE2K_REG_CMD, 0x21), (NE2K_REG_DATA_CFG, 0x49), (NE2K_RBCR0, 0), (NE2K_RBCR1, 0),
             (NE2K_REG_INT_MASK, 0), (NE2K_REG_INT_STAT, 0xff), (NE2K_REG_RX_CFG, 0x20), (NE2K_REG_TX_CFG, 0x02),
             (NE2K_RBCR0, 32), (NE2K_RBCR1, 0), (NE2K_RSAR0, 0), (NE2K_RSAR1, 0),
             (NE2K_REG_CMD, NE2K_CMD_REMOTE_READ OR NE2K_CMD_START)] h;
          (prom, h) = read_prom io (base + NE2K_REG_DATA) 32 h
      in run_bind (Some (ne2k_select_page io 1 (st\<lparr>chw := h\<rparr>))) (\<lambda>st.
      let st = st\<lparr>chw := fold (\<lambda>i. outb io (base + 1 + of_nat i) (prom ! i)) [0..<6] (chw st)\<rparr>
      in run_bind (Some (out (\<lambda>_. []) (lit ''mac: %02x:%02x:%02x:%02x:%02x:%02x'' @ [10]) (map ucast (take 6 prom)) st)) (\<lambda>st.
      run_bind (Some (ne2k_select_page io 2 st)) (\<lambda>st.
      let (dcr, st) = pin io NE2K_REG_DATA_CFG st
      in run_bind (Some (ne2k_select_page io 0 st)) (\<lambda>st.
      let st = pout io (base + NE2K_REG_DATA_CFG) (dcr AND 0xfc) st;
          st = register_handler (IRQ_TO_INTR (uint (device ! 15 AND 0xff))) (Some Ne2k_handle_irq) st
      in Some (Inr (pout io (base + NE2K_REG_INT_MASK) 3 st))))))))"

section \<open>A card\<close>

text \<open>
  The registers of the card that the driver uses, its memory, and the frames it has sent. The
  command register has the page in its top bits, the remote operation below it: 1 reads, 2 writes.
\<close>

record card =
  cr :: u8
  isr :: u8
  imr :: u8
  dcr :: u8
  rsar :: u16
  rbcr :: u16
  tpsr :: u8
  tbcr :: u16
  par :: "nat \<Rightarrow> u8"
  buf :: "u16 \<Rightarrow> u8"
  sent :: "u8 list list"
  elsewhere :: "u16 \<Rightarrow> u8"

definition set_low :: "u16 \<Rightarrow> u8 \<Rightarrow> u16" where "set_low w b = (w AND 0xff00) OR ucast b"
definition set_high :: "u16 \<Rightarrow> u8 \<Rightarrow> u16" where "set_high w b = (w AND 0xff) OR push_bit 8 (ucast b)"

definition dma_next :: "card \<Rightarrow> card" where
  "dma_next c = c\<lparr>rsar := rsar c + 1, rbcr := rbcr c - 1, isr := (if rbcr c = 1 then isr c OR 0x40 else isr c)\<rparr>"

definition frame :: "card \<Rightarrow> u8 list" where
  "frame c = map (\<lambda>i. buf c (push_bit 8 (ucast (tpsr c)) + of_nat i)) [0..<unat (tbcr c)]"

definition card_write :: "u16 \<Rightarrow> u8 \<Rightarrow> card \<Rightarrow> card" where
  "card_write reg v c =
     (if reg = 0x1f then c\<lparr>isr := isr c OR 0x80, cr := 0x21\<rparr>
      else if reg = 0x10 then (if cr c AND 0x38 = 0x10 \<and> rbcr c \<noteq> 0 then dma_next (c\<lparr>buf := (buf c)(rsar c := v)\<rparr>) else c)
      else if reg = 0 then (if v AND 4 \<noteq> 0 then c\<lparr>cr := v, sent := sent c @ [frame c]\<rparr> else c\<lparr>cr := v\<rparr>)
      else if drop_bit 6 (cr c) = 1 then (if reg \<in> {1..6} then c\<lparr>par := (par c)(unat reg - 1 := v)\<rparr> else c)
      else if drop_bit 6 (cr c) \<noteq> 0 then c
      else if reg = 4 then c\<lparr>tpsr := v\<rparr>
      else if reg = 5 then c\<lparr>tbcr := set_low (tbcr c) v\<rparr>
      else if reg = 6 then c\<lparr>tbcr := set_high (tbcr c) v\<rparr>
      else if reg = 7 then c\<lparr>isr := isr c AND NOT v\<rparr>
      else if reg = 8 then c\<lparr>rsar := set_low (rsar c) v\<rparr>
      else if reg = 9 then c\<lparr>rsar := set_high (rsar c) v\<rparr>
      else if reg = 10 then c\<lparr>rbcr := set_low (rbcr c) v\<rparr>
      else if reg = 11 then c\<lparr>rbcr := set_high (rbcr c) v\<rparr>
      else if reg = 14 then c\<lparr>dcr := v\<rparr>
      else if reg = 15 then c\<lparr>imr := v\<rparr>
      else c)"

definition card_read :: "u16 \<Rightarrow> card \<Rightarrow> u8 \<times> card" where
  "card_read reg c =
     (if reg = 0 then (cr c, c)
      else if reg = 7 \<and> drop_bit 6 (cr c) = 0 then (isr c, c)
      else if reg = 0x10 \<and> cr c AND 0x38 = 8 \<and> rbcr c \<noteq> 0 then (buf c (rsar c), dma_next c)
      else (0, c))"

definition card_ports :: "u16 \<Rightarrow> card ports" where
  "card_ports base = \<lparr>outb = (\<lambda>p v c. if p - base < 32 then card_write (p - base) v c else c),
     inb = (\<lambda>p c. if p - base < 32 then card_read (p - base) c else (elsewhere c p, c)),
     outw = (\<lambda>p v c. c), inw = (\<lambda>p c. (0, c)), outl = (\<lambda>p v c. c), inl = (\<lambda>p c. (0, c))\<rparr>"

lemma card_ports_simps [simp]:
  "r < 32 \<Longrightarrow> outb (card_ports base) (base + r) v c = card_write r v c"
  "r < 32 \<Longrightarrow> inb (card_ports base) (base + r) c = card_read r c"
  "outb (card_ports base) base v c = card_write 0 v c" "inb (card_ports base) base c = card_read 0 c"
  by (simp_all add: card_ports_def)

lemma bytes_of_count: "set_high (set_low w (ucast (len AND 0xff))) (ucast (drop_bit 8 len AND 0xff)) = (ucast (len :: u32) :: u16)"
proof (rule bit_word_eqI)
  have m: "bit (0xff00 :: int) n \<longleftrightarrow> 8 \<le> n \<and> n < 16" for n
  proof -
    have "(0xff00 :: int) = push_bit 8 (mask 8)" by (simp add: mask_eq_exp_minus_1)
    then show ?thesis unfolding \<open>(0xff00 :: int) = push_bit 8 (mask 8)\<close> bit_push_bit_iff bit_mask_iff by auto
  qed
  have k: "bit (0xff :: int) n \<longleftrightarrow> n < 8" for n
    using bit_mask_iff [of 8 n, where ?'a = int] by (simp add: mask_eq_exp_minus_1)
  fix n :: nat
  assume "n < LENGTH(16)"
  then consider "n < 8" | "8 \<le> n" "n < 16" by fastforce
  then show "bit (set_high (set_low w (ucast (len AND 0xff))) (ucast (drop_bit 8 len AND 0xff))) n = bit (ucast len :: u16) n"
    by cases (auto simp: set_low_def set_high_def bit_simps m k)
qed

section \<open>Sending\<close>

lemma card_write_regs [simp]:
  "card_write 0x1f v c = c\<lparr>isr := isr c OR 0x80, cr := 0x21\<rparr>"
  "card_write 0 v c = (if v AND 4 \<noteq> 0 then c\<lparr>cr := v, sent := sent c @ [frame c]\<rparr> else c\<lparr>cr := v\<rparr>)"
  "drop_bit 6 (cr c) = 0 \<Longrightarrow> card_write 4 v c = c\<lparr>tpsr := v\<rparr>"
  "drop_bit 6 (cr c) = 0 \<Longrightarrow> card_write 5 v c = c\<lparr>tbcr := set_low (tbcr c) v\<rparr>"
  "drop_bit 6 (cr c) = 0 \<Longrightarrow> card_write 6 v c = c\<lparr>tbcr := set_high (tbcr c) v\<rparr>"
  "drop_bit 6 (cr c) = 0 \<Longrightarrow> card_write 7 v c = c\<lparr>isr := isr c AND NOT v\<rparr>"
  "drop_bit 6 (cr c) = 0 \<Longrightarrow> card_write 8 v c = c\<lparr>rsar := set_low (rsar c) v\<rparr>"
  "drop_bit 6 (cr c) = 0 \<Longrightarrow> card_write 9 v c = c\<lparr>rsar := set_high (rsar c) v\<rparr>"
  "drop_bit 6 (cr c) = 0 \<Longrightarrow> card_write 10 v c = c\<lparr>rbcr := set_low (rbcr c) v\<rparr>"
  "drop_bit 6 (cr c) = 0 \<Longrightarrow> card_write 11 v c = c\<lparr>rbcr := set_high (rbcr c) v\<rparr>"
  "drop_bit 6 (cr c) = 0 \<Longrightarrow> card_write 12 v c = c"
  "drop_bit 6 (cr c) = 0 \<Longrightarrow> card_write 13 v c = c"
  "drop_bit 6 (cr c) = 0 \<Longrightarrow> card_write 14 v c = c\<lparr>dcr := v\<rparr>"
  "drop_bit 6 (cr c) = 0 \<Longrightarrow> card_write 15 v c = c\<lparr>imr := v\<rparr>"
  by (simp_all add: card_write_def)

lemma card_write_data:
  "cr c AND 0x38 = 0x10 \<Longrightarrow> rbcr c \<noteq> 0 \<Longrightarrow> card_write 0x10 v c = dma_next (c\<lparr>buf := (buf c)(rsar c := v)\<rparr>)"
  by (simp add: card_write_def)

lemmas reg_numbers = NE2K_REG_CMD_def NE2K_REG_TPSR_def NE2K_REG_TBCR0_def NE2K_REG_TBCR1_def NE2K_REG_INT_STAT_def NE2K_RSAR0_def
  NE2K_RSAR1_def NE2K_RBCR0_def NE2K_RBCR1_def NE2K_REG_RX_CFG_def NE2K_REG_TX_CFG_def NE2K_REG_DATA_CFG_def NE2K_REG_INT_MASK_def
  NE2K_REG_DATA_def NE2K_REG_RESET_def NE2K_CMD_START_def NE2K_CMD_REMOTE_READ_def NE2K_CMD_REMOTE_WRITE_def

lemma set_both: "set_high (set_low w 0) b = push_bit 8 (ucast b)"
  by (simp add: set_high_def set_low_def and.assoc)

lemma card_setup:
  "writes (card_ports base) base
      [(NE2K_REG_CMD, 0x22), (NE2K_RBCR0, ucast (len AND 0xff)), (NE2K_RBCR1, ucast (drop_bit 8 len AND 0xff)),
       (NE2K_REG_INT_STAT, 0x40), (NE2K_RSAR0, 0), (NE2K_RSAR1, 0x40), (NE2K_REG_CMD, NE2K_CMD_REMOTE_WRITE OR NE2K_CMD_START)] c
    = c\<lparr>cr := 0x12, rbcr := ucast (len :: u32), isr := isr c AND NOT 0x40, rsar := 0x4000\<rparr>"
  by (simp add: writes_def reg_numbers set_both bytes_of_count)

lemma unat_offset: "j < 65536 \<Longrightarrow> unat (a - b :: u16) = j \<longleftrightarrow> a = b + of_nat j"
proof -
  assume "j < 65536"
  then have "unat (a - b) = j \<longleftrightarrow> a - b = of_nat j" by (simp add: word_unat_eq_iff unat_of_nat)
  then show "unat (a - b) = j \<longleftrightarrow> a = b + of_nat j" by (simp add: diff_eq_eq add.commute)
qed

lemma card_data:
  assumes "cr c = 0x12" "rbcr c = of_nat n" "rsar c = 0x4000" "n < 65536" "j \<le> n"
  shows "fold (\<lambda>i. outb (card_ports base) (base + NE2K_REG_DATA) (f i)) [0..<j] c
    = c\<lparr>buf := (\<lambda>a. if unat (a - 0x4000) < j then f (unat (a - 0x4000)) else buf c a), rsar := 0x4000 + of_nat j,
        rbcr := of_nat (n - j), isr := (if j = n \<and> 0 < n then isr c OR 0x40 else isr c)\<rparr>"
  using assms(5)
proof (induction j)
  case 0
  then show ?case using assms by (cases c) auto
next
  case (Suc j)
  have u: "unat (of_nat (n - j) :: u16) = n - j" using assms(4) by (simp only: unat_of_nat) simp
  have d: "(of_nat (n - j) :: u16) \<noteq> 0" using u Suc.prems unat_0 by fastforce
  have one: "(of_nat (n - j) :: u16) = 1 \<longleftrightarrow> Suc j = n"
    using u Suc.prems word_unat_eq_iff [of "of_nat (n - j) :: u16" 1] by (simp del: of_nat_diff) arith
  have dec: "(of_nat (n - j) :: u16) - 1 = of_nat (n - Suc j)" using Suc.prems by (simp add: of_nat_diff algebra_simps)
  have uj: "unat (of_nat j :: u16) = j" using Suc.prems assms(4) by (simp only: unat_of_nat) simp
  have "unat (a - 0x4000 :: u16) = j \<longleftrightarrow> a = 0x4000 + of_nat j" for a
    using Suc.prems assms(4) by (intro unat_offset) simp
  then have buf: "(\<lambda>a. if unat (a - 0x4000) < j then f (unat (a - 0x4000)) else buf c a)(0x4000 + of_nat j := f j)
      = (\<lambda>a. if unat (a - 0x4000) < Suc j then f (unat (a - 0x4000)) else buf c a)"
    using uj by (auto simp: fun_eq_iff less_Suc_eq)
  define s where "s = c\<lparr>buf := (\<lambda>a. if unat (a - 0x4000) < j then f (unat (a - 0x4000)) else buf c a), rsar := 0x4000 + of_nat j,
        rbcr := of_nat (n - j), isr := (if j = n \<and> 0 < n then isr c OR 0x40 else isr c)\<rparr>"
  have s: "cr s AND 0x38 = 0x10" "rbcr s \<noteq> 0" "j \<noteq> n" using assms(1) d Suc.prems by (simp_all add: s_def del: of_nat_diff)
  have "fold (\<lambda>i. outb (card_ports base) (base + NE2K_REG_DATA) (f i)) [0..<j] c = s"
    unfolding s_def by (rule Suc.IH) (use Suc.prems in simp)
  then have "fold (\<lambda>i. outb (card_ports base) (base + NE2K_REG_DATA) (f i)) [0..<Suc j] c = card_write 0x10 (f j) s"
    by (simp add: reg_numbers)
  also have "\<dots> = dma_next (s\<lparr>buf := (buf s)(rsar s := f j)\<rparr>)" by (rule card_write_data [OF s(1, 2)])
  also have "(buf s)(rsar s := f j) = (\<lambda>a. if unat (a - 0x4000) < Suc j then f (unat (a - 0x4000)) else buf c a)"
    using buf by (simp add: s_def)
  also have "dma_next (s\<lparr>buf := (\<lambda>a. if unat (a - 0x4000) < Suc j then f (unat (a - 0x4000)) else buf c a)\<rparr>)
      = s\<lparr>buf := (\<lambda>a. if unat (a - 0x4000) < Suc j then f (unat (a - 0x4000)) else buf c a), rsar := rsar s + 1, rbcr := rbcr s - 1,
          isr := (if rbcr s = 1 then isr s OR 0x40 else isr s)\<rparr>" by (simp add: dma_next_def)
  also have "rsar s + 1 = 0x4000 + of_nat (Suc j)" by (simp add: s_def)
  also have "rbcr s - 1 = of_nat (n - Suc j)" using dec by (simp add: s_def del: of_nat_diff)
  also have "(if rbcr s = 1 then isr s OR 0x40 else isr s) = (if Suc j = n \<and> 0 < n then isr c OR 0x40 else isr c)"
    using one s(3) by (auto simp: s_def simp del: of_nat_diff)
  finally show ?case unfolding s_def by (simp del: of_nat_diff of_nat_Suc)
qed

lemma set_bit_6 [simp]: "(x AND - 65) OR 64 = (x OR 64 :: u8)"
  by (rule bit_word_eqI) (auto simp: bit_simps)

lemma clear_all [simp]: "(x AND - 256) = (0 :: u8)"
proof -
  have "(- 256 :: u8) = 0" by code_simp
  then show ?thesis by (simp only: and_zero_eq)
qed

lemma wait_for_now: "inb io port h = (v, h') \<Longrightarrow> v AND msk \<noteq> 0 \<Longrightarrow> wait_for io port msk h = Some h'"
  by (simp add: wait_for.simps)

lemma wait_for_ever: "inb io port h = (v, h) \<Longrightarrow> v AND msk = 0 \<Longrightarrow> wait_for io port msk h = None"
proof -
  assume i: "inb io port h = (v, h)" "v AND msk = 0"
  have "wait_for io' port' msk' h' = Some y \<Longrightarrow> io' = io \<and> port' = port \<and> msk' = msk \<and> h' = h \<longrightarrow> False" for io' port' msk' h' y
    by (rule wait_for.raw_induct [where P = "\<lambda>io' port' msk' h' y. io' = io \<and> port' = port \<and> msk' = msk \<and> h' = h \<longrightarrow> False", rotated])
      (use i in \<open>auto split: if_splits, blast\<close>)
  from this [of io port msk h] show "wait_for io port msk h = None" by (cases "wait_for io port msk h") auto
qed


definition card0 :: card where
  "card0 = \<lparr>cr = 0x61, isr = 0x83, imr = 0, dcr = 0, rsar = 5, rbcr = 9, tpsr = 0, tbcr = 0, par = (\<lambda>_. 0), buf = (\<lambda>a. ucast a + 2), sent = [],
     elsewhere = (\<lambda>_. 7)\<rparr>"


section \<open>Starting the card\<close>

lemma read_prom_eq:
  "cr c AND 0x38 = 8 \<Longrightarrow> rbcr c = of_nat n \<Longrightarrow> n < 65536 \<Longrightarrow> rsar c = a \<Longrightarrow>
    \<exists>i. read_prom (card_ports base) (base + NE2K_REG_DATA) n c = (map (\<lambda>k. buf c (a + of_nat k)) [0..<n],
      c\<lparr>rsar := a + of_nat n, rbcr := 0, isr := i\<rparr>)"
proof (induction n arbitrary: c a)
  case 0
  then show ?case by (intro exI [of _ "isr c"]) (cases c, simp)
next
  case (Suc n)
  have u: "unat (of_nat (Suc n) :: u16) = Suc n" using Suc.prems(3) by (simp only: unat_of_nat) simp
  then have d: "rbcr c \<noteq> 0" using Suc.prems(2) unat_0 by fastforce
  have r: "card_read 0x10 c = (buf c a, dma_next c)" using Suc.prems d by (simp add: card_read_def)
  have n: "cr (dma_next c) AND 0x38 = 8" "rbcr (dma_next c) = of_nat n" "n < 65536" "rsar (dma_next c) = a + 1" "buf (dma_next c) = buf c"
    using Suc.prems by (simp_all add: dma_next_def)
  obtain i where i: "read_prom (card_ports base) (base + NE2K_REG_DATA) n (dma_next c) = (map (\<lambda>k. buf c (a + 1 + of_nat k)) [0..<n],
      dma_next c\<lparr>rsar := a + 1 + of_nat n, rbcr := 0, isr := i\<rparr>)"
    using Suc.IH [OF n(1-4)] n(5) by auto
  have "[0..<Suc n] = 0 # map Suc [0..<n]" by (simp add: map_Suc_upt upt_conv_Cons del: upt_Suc)
  then show ?case using r i by (intro exI [of _ i]) (simp add: reg_numbers dma_next_def comp_def add.assoc add.left_commute del: upt_Suc)
qed

lemma write_par:
  "drop_bit 6 (cr c) = 1 \<Longrightarrow> n \<le> 6 \<Longrightarrow>
    \<exists>p. fold (\<lambda>i. outb (card_ports base) (base + 1 + of_nat i) (f i)) [0..<n] c = c\<lparr>par := p\<rparr> \<and> (\<forall>i < n. p i = f i)"
proof (induction n)
  case 0
  show ?case by (intro exI [of _ "par c"]) (cases c, simp)
next
  case (Suc n)
  then obtain p where p: "fold (\<lambda>i. outb (card_ports base) (base + 1 + of_nat i) (f i)) [0..<n] c = c\<lparr>par := p\<rparr>" "\<forall>i < n. p i = f i" by auto
  have u: "unat (1 + of_nat n :: u16) = Suc n" using Suc.prems by (simp add: unat_word_ariths unat_of_nat)
  have r: "(1 + of_nat n :: u16) < 32" "(1 + of_nat n :: u16) \<in> {1..6}" "(1 + of_nat n :: u16) \<noteq> 0"
    using u Suc.prems by (auto simp: word_less_nat_alt word_le_nat_alt)
  then have "(1 + of_nat n :: u16) \<noteq> 0x1f" "(1 + of_nat n :: u16) \<noteq> 0x10" by auto
  then have "outb (card_ports base) (base + 1 + of_nat n) (f n) (c\<lparr>par := p\<rparr>) = c\<lparr>par := p(n := f n)\<rparr>"
    using r u Suc.prems by (simp add: add.assoc card_write_def)
  with p(1) have "fold (\<lambda>i. outb (card_ports base) (base + 1 + of_nat i) (f i)) [0..<Suc n] c = c\<lparr>par := p(n := f n)\<rparr>" by simp
  moreover have "\<forall>i < Suc n. (p(n := f n)) i = f i" using p(2) by (simp add: less_Suc_eq)
  ultimately show ?case by blast
qed

definition mac_text :: "u8 list \<Rightarrow> u8 list" where
  "mac_text p = lit ''mac: '' @ hex2 (p ! 0) @ concat (map (\<lambda>i. 58 # hex2 (p ! i)) [1..<6]) @ [10]"

lemma mac_format:
  assumes "6 \<le> length prom"
  shows "format_text str (lit ''mac: %02x:%02x:%02x:%02x:%02x:%02x'' @ [10]) (map ucast (take 6 prom)) = Inr (mac_text prom)"
proof -
  obtain a b c d e f more where p: "prom = a # b # c # d # e # f # more"
    using assms by (auto simp: Suc_le_length_iff numeral_eq_Suc)
  show ?thesis by (simp add: p mac_text_def lit_def format_steps upt_rec)
qed

lemma mac_text_nonzero: "0 \<notin> set (mac_text p)"
  using hex_nonzero by (auto simp: mac_text_def lit_def)

lemma out_text:
  assumes "format_text str fmt va = Inr t" "0 \<notin> set t"
  shows "out str fmt va st = Inr (st\<lparr>cio := fold putc t (cio st)\<rparr>)"
  using printf_text [OF assms, of "[]"] by (auto simp: out_def)

lemma select_page:
  assumes "0 \<le> page" "page \<le> 2" "cr (chw st) AND 4 = 0" "iobase st = base"
  shows "ne2k_select_page (card_ports base) page st
    = Inr (st\<lparr>chw := (chw st)\<lparr>cr := (cr (chw st) AND 0x3f) OR push_bit 6 (of_int page)\<rparr>\<rparr>)"
proof -
  have "(((cr (chw st) AND 0x3f) OR push_bit 6 (of_int page)) AND 4) = (0 :: u8)"
  proof -
    have "page = 0 \<or> page = 1 \<or> page = 2" using assms(1, 2) by arith
    moreover have "(cr (chw st) AND 0x3f) AND 4 = 0" using assms(3) by (simp add: and.assoc)
    ultimately show ?thesis by (auto simp: bit.conj_disj_distrib2)
  qed
  then show ?thesis using assms
    by (simp add: ne2k_select_page_def pin_def pout_def at_ports_def reg_numbers card_read_def)
qed

text \<open>Starting a card ends and leaves it on page 0 with the address from its memory in its address registers and with the
  receive and send interrupts enabled, the kernel with the handler of the interrupt line and the address printed. The data
  configuration, though, is made of the byte that the processor's own port 14 answers, not of the card's register.\<close>

theorem ne2k_starts:
  fixes st :: "(card, 'i, 'z) nic_scheme"
  assumes "base = ucast (device ! 4 AND NOT 3)" "32 \<le> 14 - base" "length (bound_handlers st) = 256"
  shows "\<exists>st'. ne2k_init (card_ports base) device st = Some (Inr st') \<and> iobase st' = base
    \<and> (\<forall>i < 6. par (chw st') i = buf (chw st) (of_nat i)) \<and> imr (chw st') = 3 \<and> drop_bit 6 (cr (chw st')) = 0
    \<and> dcr (chw st') = elsewhere (chw st) 14 AND 0xfc
    \<and> (uint (device ! 15 AND 0xff) < 224 \<longrightarrow>
        bound_handlers st' = (bound_handlers st)[32 + unat (device ! 15 AND 0xff) := Some Ne2k_handle_irq])
    \<and> cio st' = fold putc (mac_text (map (\<lambda>k. buf (chw st) (of_nat k)) [0..<32])) (cio st)"
proof -
  let ?c = "chw st" and ?io = "card_ports base"
  let ?prom = "map (\<lambda>k. buf ?c (of_nat k)) [0..<32]"
  let ?c1 = "?c\<lparr>isr := isr ?c OR 0x80, cr := 0x21\<rparr>"
  have 1: "pin ?io (base + NE2K_REG_RESET) (st\<lparr>iobase := base\<rparr>) = (0, st\<lparr>iobase := base\<rparr>)"
    by (simp add: pin_def reg_numbers card_read_def)
  have 2: "pout ?io (base + NE2K_REG_RESET) v (st\<lparr>iobase := base\<rparr>) = st\<lparr>iobase := base, chw := ?c1\<rparr>" for v
    by (simp add: pout_def at_ports_def reg_numbers)
  have "(isr ?c OR 0x80) AND 0x80 = 0x80" by (simp add: bit.conj_disj_distrib2)
  then have 3: "wait_for ?io (base + NE2K_REG_INT_STAT) 0x80 ?c1 = Some ?c1"
    by (intro wait_for_now [where v = "isr ?c OR 0x80"]) (simp_all add: reg_numbers card_read_def)
  let ?c2 = "?c1\<lparr>cr := 0x0a, isr := 0, dcr := 0x49, rbcr := 32, imr := 0, rsar := 0\<rparr>"
  have 4: "writes ?io base
            [(NE2K_REG_INT_STAT, 0xff), (NE2K_REG_CMD, 0x21), (NE2K_REG_DATA_CFG, 0x49), (NE2K_RBCR0, 0), (NE2K_RBCR1, 0),
             (NE2K_REG_INT_MASK, 0), (NE2K_REG_INT_STAT, 0xff), (NE2K_REG_RX_CFG, 0x20), (NE2K_REG_TX_CFG, 0x02),
             (NE2K_RBCR0, 32), (NE2K_RBCR1, 0), (NE2K_RSAR0, 0), (NE2K_RSAR1, 0),
             (NE2K_REG_CMD, NE2K_CMD_REMOTE_READ OR NE2K_CMD_START)] ?c1 = ?c2"
    by (simp add: writes_def reg_numbers set_both) (simp add: set_low_def set_high_def)
  obtain i where 5: "read_prom ?io (base + NE2K_REG_DATA) 32 ?c2 = (?prom, ?c2\<lparr>rsar := 32, rbcr := 0, isr := i\<rparr>)"
    using read_prom_eq [of ?c2 32 0 base] by auto
  let ?st = "st\<lparr>iobase := base\<rparr>"
  let ?c5 = "?c2\<lparr>rsar := 32, rbcr := 0, isr := i\<rparr>"
  have 6: "ne2k_select_page ?io 1 (?st\<lparr>chw := ?c5\<rparr>) = Inr (?st\<lparr>chw := ?c5\<lparr>cr := 0x4a\<rparr>\<rparr>)"
    by (subst select_page [of _ _ base]) simp_all
  have "drop_bit 6 (cr (?c5\<lparr>cr := 0x4a\<rparr>)) = 1" by simp
  from write_par [OF this, of 6 base "\<lambda>i. ?prom ! i"] obtain p
    where 7: "fold (\<lambda>i. outb ?io (base + 1 + of_nat i) (?prom ! i)) [0..<6] (?c5\<lparr>cr := 0x4a\<rparr>) = ?c5\<lparr>cr := 0x4a, par := p\<rparr>"
    "\<forall>i < 6. p i = ?prom ! i" by auto
  let ?st7 = "?st\<lparr>chw := ?c5\<lparr>cr := 0x4a, par := p\<rparr>\<rparr>"
  let ?st8 = "?st7\<lparr>cio := fold putc (mac_text ?prom) (cio st)\<rparr>"
  have 8: "out (\<lambda>_. []) (lit ''mac: %02x:%02x:%02x:%02x:%02x:%02x'' @ [10]) (map ucast (take 6 ?prom)) ?st7 = Inr ?st8"
    by (subst out_text [OF mac_format mac_text_nonzero]) simp_all
  have 9: "ne2k_select_page ?io 2 ?st8 = Inr (?st8\<lparr>chw := ?c5\<lparr>cr := 0x8a, par := p\<rparr>\<rparr>)"
    by (subst select_page [of _ _ base]) simp_all
  let ?st9 = "?st8\<lparr>chw := ?c5\<lparr>cr := 0x8a, par := p\<rparr>\<rparr>"
  have 10: "pin ?io NE2K_REG_DATA_CFG ?st9 = (elsewhere ?c 14, ?st9)"
    using assms(2) unfolding not_less [symmetric] by (simp add: pin_def reg_numbers card_ports_def)
  have 11: "ne2k_select_page ?io 0 ?st9 = Inr (?st9\<lparr>chw := ?c5\<lparr>cr := 0x0a, par := p\<rparr>\<rparr>)"
    by (subst select_page [of _ _ base]) simp_all
  let ?c12 = "?c5\<lparr>cr := 0x0a, par := p, dcr := elsewhere ?c 14 AND 0xfc, imr := 3\<rparr>"
  let ?st12 = "register_handler (IRQ_TO_INTR (uint (device ! 15 AND 0xff))) (Some Ne2k_handle_irq) (?st9\<lparr>chw := ?c12\<rparr>)"
  have 12: "pout ?io (base + NE2K_REG_INT_MASK) 3 (register_handler (IRQ_TO_INTR (uint (device ! 15 AND 0xff))) (Some Ne2k_handle_irq)
      (pout ?io (base + NE2K_REG_DATA_CFG) (elsewhere ?c 14 AND 0xfc) (?st9\<lparr>chw := ?c5\<lparr>cr := 0x0a, par := p\<rparr>\<rparr>))) = ?st12"
    by (simp add: pout_def at_ports_def reg_numbers register_handler_def)
  have chw: "chw (?st\<lparr>chw := x\<rparr>) = x" "?st\<lparr>chw := x\<rparr>\<lparr>chw := y\<rparr> = ?st\<lparr>chw := y\<rparr>" for x y by simp_all
  have "ne2k_init ?io device st = Some (Inr ?st12)"
    by (simp only: ne2k_init_def Let_def assms(1) [symmetric] 1 2 3 4 5 6 7(1) 8 9 10 11 12 chw prod.case Option.bind.simps bind.simps run_bind_simps)
  moreover have "uint (device ! 15 AND 0xff) < 224 \<Longrightarrow> bound_handlers ?st12 = (bound_handlers st)[32 + unat (device ! 15 AND 0xff) := Some Ne2k_handle_irq]"
    by (simp add: register_handler_def INTR_COUNT_def IRQ_TO_INTR_def nat_add_distrib add.commute)
  ultimately show ?thesis using 7(2) by (intro exI [of _ ?st12]) (simp add: register_handler_def)
qed

definition nic0 :: "(card, unit) nic" where
  "nic0 = cpu.extend \<lparr>idt = [], bound_handlers = replicate 256 None, ll_bound_handlers = [], chw = card0, cmem = (\<lambda>_. 0),
     cio = \<lparr>stdin_dev = (), stdout_text = Some [], dbgout_text = None, should_echo = 1, log_level = 5\<rparr>\<rparr> \<lparr>iobase = 0\<rparr>"

text \<open>A card at 0x300 with interrupt line 11.\<close>

theorem ne2k_starts_witness:
  "\<exists>st'. ne2k_init (card_ports 0x300) [0x802910ec, 0, 0, 0, 0x301, 0, 0, 0, 0, 0, 0, 0, 0, 0, 0, 0x10b] nic0 = Some (Inr st')
    \<and> map (par (chw st')) [0..<6] = [2, 3, 4, 5, 6, 7] \<and> dcr (chw st') = 4 \<and> bound_handlers st' ! 43 = Some Ne2k_handle_irq"
proof -
  let ?d = "[0x802910ec, 0, 0, 0, 0x301, 0, 0, 0, 0, 0, 0, 0, 0, 0, 0, 0x10b] :: u32 list"
  have b: "(0x300 :: u16) = ucast (?d ! 4 AND NOT 3)" by simp
  have l: "(32 :: u16) \<le> 14 - 0x300" by (simp add: word_le_nat_alt)
  have h: "length (bound_handlers nic0) = 256" by (simp add: nic0_def cpu.defs)
  from ne2k_starts [OF b l h] obtain st' where st': "ne2k_init (card_ports 0x300) ?d nic0 = Some (Inr st')"
    "\<forall>i < 6. par (chw st') i = buf (chw nic0) (of_nat i)" "dcr (chw st') = elsewhere (chw nic0) 14 AND 0xfc"
    "bound_handlers st' = (bound_handlers nic0)[43 := Some Ne2k_handle_irq]" by auto
  have c: "chw nic0 = card0" by (simp add: nic0_def cpu.defs)
  have "map (par (chw st')) [0..<6] = map (\<lambda>i. buf card0 (of_nat i)) [0..<6]" using st'(2) c by simp
  then show ?thesis using st' h c by (intro exI [of _ st']) (simp add: card0_def upt_rec)
qed

end
