(* ===== verification/Net.thy ===== *)
theory Net
  imports Cmem
begin

text \<open>
  Ethernet, IPv4 and UDP headers (\<open>kern/net/ether.c\<close>, \<open>ip.c\<close>, \<open>udp.c\<close>), written into the flat memory.
  The structs are packed; those of IPv4 and UDP have big-endian storage order, so that their
  multi-byte fields and their bit fields are laid out from the most significant end.
\<close>

unbundle bit_operations_syntax

section \<open>The code\<close>

definition store16be :: "mem \<Rightarrow> u32 \<Rightarrow> u16 \<Rightarrow> mem" where
  "store16be m p v = m(p := ucast (drop_bit 8 v), p + 1 := ucast v)"

definition store32be :: "mem \<Rightarrow> u32 \<Rightarrow> u32 \<Rightarrow> mem" where
  "store32be m p v = m(p := ucast (drop_bit 24 v), p + 1 := ucast (drop_bit 16 v), p + 2 := ucast (drop_bit 8 v), p + 3 := ucast v)"

definition ether_make_packet :: "mem \<Rightarrow> u32 \<Rightarrow> u32 \<Rightarrow> u32 \<Rightarrow> u16 \<Rightarrow> (u32 \<times> mem) outcome" where
  "ether_make_packet m buffer src dst len = assert_that (len \<le> 1500) ''Packet too large for ethernet''
     (let m = memcpy m (buffer + 6) src 6; m = memcpy m buffer dst 6
      in Inr (buffer + 14, store16 m (buffer + 12) 0x0008))"

definition ether_buffer_length :: "u32 \<Rightarrow> u32" where
  "ether_buffer_length data_size = (if 48 < data_size then data_size else 48) + 14 + 4"

text \<open>One assignment after the other; a bit field keeps the other bits of its byte.\<close>

definition ip_make_packet :: "mem \<Rightarrow> u32 \<Rightarrow> u32 \<Rightarrow> u8 \<Rightarrow> u32 \<Rightarrow> u32 \<Rightarrow> u32 \<times> mem" where
  "ip_make_packet m packet data_length protocol src dst =
     (let m = m(packet := (m packet AND 0x0f) OR 0x40);
          m = m(packet := (m packet AND 0xf0) OR 5);
          m = m(packet + 1 := m (packet + 1) AND 0x03);
          m = m(packet + 1 := m (packet + 1) AND 0xfc);
          m = store16be m (packet + 2) (ucast (20 + data_length));
          m = store16be m (packet + 4) 0;
          m = m(packet + 6 := m (packet + 6) AND 0x1f);
          m = m(packet + 6 := m (packet + 6) AND 0xe0, packet + 7 := 0);
          m = m(packet + 8 := 128);
          m = m(packet + 9 := protocol);
          m = store32be m (packet + 12) src;
          m = store32be m (packet + 16) dst
      in (packet + 20, m))"

definition ip_buffer_length :: "u32 \<Rightarrow> u32" where
  "ip_buffer_length data_length = data_length + 20"

definition make_ip :: "u32 \<Rightarrow> u32 \<Rightarrow> u32 \<Rightarrow> u32 \<Rightarrow> u32" where
  "make_ip o1 o2 o3 o4 = push_bit 24 (o1 AND 0xff) OR push_bit 16 (o2 AND 0xff) OR push_bit 8 (o3 AND 0xff) OR (o4 AND 0xff)"

definition udp_make_packet :: "mem \<Rightarrow> u32 \<Rightarrow> u32 \<Rightarrow> u16 \<Rightarrow> u16 \<Rightarrow> u32 \<times> mem" where
  "udp_make_packet m packet data_length src_port dst_port =
     (let m = store16be m packet src_port;
          m = store16be m (packet + 2) dst_port;
          m = store16be m (packet + 4) (ucast (data_length + 8));
          m = store16be m (packet + 6) 0
      in (packet + 8, m))"

definition udp_buffer_length :: "u32 \<Rightarrow> u32" where
  "udp_buffer_length data_length = data_length + 8"

section \<open>The bytes of the headers\<close>

definition bytes_at :: "mem \<Rightarrow> u32 \<Rightarrow> nat \<Rightarrow> u8 list" where
  "bytes_at m p n = map (\<lambda>i. m (p + of_nat i)) [0..<n]"

definition be16 :: "u16 \<Rightarrow> u8 list" where
  "be16 v = [ucast (drop_bit 8 v), ucast v]"

definition be32 :: "u32 \<Rightarrow> u8 list" where
  "be32 v = [ucast (drop_bit 24 v), ucast (drop_bit 16 v), ucast (drop_bit 8 v), ucast v]"

definition changes_only :: "mem \<Rightarrow> mem \<Rightarrow> u32 \<Rightarrow> nat \<Rightarrow> bool" where
  "changes_only m' m p n \<longleftrightarrow> (\<forall>a. \<not> in_block a p n \<longrightarrow> m' a = m a)"

lemma udp_bytes:
  "bytes_at (snd (udp_make_packet m p n sp dp)) p 8 = be16 sp @ be16 dp @ be16 (ucast (n + 8)) @ [0, 0]"
  by (simp add: bytes_at_def upt_rec udp_make_packet_def store16be_def be16_def Let_def add.assoc)

lemma ip_byte0: "((((b :: u8) AND 0x0f) OR 0x40) AND 0xf0) OR 5 = 0x45" "((b :: u8) AND 3) AND 0xfc = 0" "(b AND 0x1f) AND 0xe0 = 0"
  by (simp_all add: bit.conj_disj_distrib2 and.assoc)

lemma ip_bytes:
  "bytes_at (snd (ip_make_packet m p n proto src dst)) p 20
    = [0x45, 0] @ be16 (ucast (20 + n)) @ [0, 0, 0, 0, 128, proto, m (p + 10), m (p + 11)] @ be32 src @ be32 dst"
  by (simp add: bytes_at_def upt_rec ip_make_packet_def store16be_def store32be_def be16_def be32_def Let_def add.assoc ip_byte0)

lemma udp_changes: "changes_only (snd (udp_make_packet m p n sp dp)) m p 8"
proof (unfold changes_only_def, intro allI impI)
  fix a assume "\<not> in_block a p 8"
  then have "a \<noteq> p + of_nat i" if "i < 8" for i using in_block_offset [of "of_nat i" 8 p] that by (auto simp: unat_of_nat_u32)
  from this [of 0] this [of 1] this [of 2] this [of 3] this [of 4] this [of 5] this [of 6] this [of 7]
  show "snd (udp_make_packet m p n sp dp) a = m a"
    by (simp add: udp_make_packet_def store16be_def Let_def add.assoc)
qed

lemma ip_changes: "changes_only (snd (ip_make_packet m p n proto src dst)) m p 20"
proof (unfold changes_only_def, intro allI impI)
  fix a assume "\<not> in_block a p 20"
  then have i: "a \<noteq> p + of_nat i" if "i < 20" for i using in_block_offset [of "of_nat i" 20 p] that by (auto simp: unat_of_nat_u32)
  show "snd (ip_make_packet m p n proto src dst) a = m a"
    using i [of 0] i [of 1] i [of 2] i [of 3] i [of 4] i [of 5] i [of 6] i [of 7] i [of 8] i [of 9]
      i [of 12] i [of 13] i [of 14] i [of 15] i [of 16] i [of 17] i [of 18] i [of 19]
    by (simp add: ip_make_packet_def store16be_def store32be_def Let_def add.assoc)
qed

lemma bytes_at_append: "bytes_at m p (k + n) = bytes_at m p k @ bytes_at m (p + of_nat k) n"
  by (rule nth_equalityI) (auto simp: bytes_at_def nth_append add.assoc simp flip: of_nat_add)

text \<open>What is written behind the first \<open>k\<close> bytes of a buffer does not change them.\<close>

lemma bytes_before:
  assumes "changes_only m' m (buf + of_nat k) n" "k + n < 4294967296"
  shows "bytes_at m' buf k = bytes_at m buf k"
proof -
  have "m' (buf + of_nat i) = m (buf + of_nat i)" if "i < k" for i
  proof -
    have "buf + of_nat i - (buf + of_nat k) = of_nat i - (of_nat k :: u32)" by simp
    then have "\<not> in_block (buf + of_nat i) (buf + of_nat k) n"
      using that assms(2) by (simp add: in_block_def unat_diff_u32 unat_of_nat_u32)
    then show ?thesis using assms(1) by (simp add: changes_only_def)
  qed
  then show ?thesis by (simp add: bytes_at_def)
qed

lemma changes_mono: "changes_only m' m (buf + of_nat k) n \<Longrightarrow> k + n \<le> l \<Longrightarrow> l \<le> 4294967296 \<Longrightarrow> changes_only m' m buf l"
  using in_block_split [of k n _ buf] in_block_mono [of _ buf "k + n" l] by (auto simp: changes_only_def)

lemma changes_trans: "changes_only m3 m2 p n \<Longrightarrow> changes_only m2 m1 p n \<Longrightarrow> changes_only m3 m1 p n"
  by (simp add: changes_only_def)

lemma ether_header:
  assumes "len \<le> 1500" "apart (buf + 6) src 6" "apart buf dst 6" "\<forall>a. \<not> (in_block a (buf + 6) 6 \<and> in_block a dst 6)"
  obtains m' where "ether_make_packet m buf src dst len = Inr (buf + 14, m')"
    "bytes_at m' buf 14 = bytes_at m dst 6 @ bytes_at m src 6 @ [8, 0]" "changes_only m' m buf 14"
proof -
  define m1 where "m1 = copied m (buf + 6) src 6"
  define m2 where "m2 = copied m1 buf dst 6"
  let ?m = "store16 m2 (buf + 12) 8"
  have e: "ether_make_packet m buf src dst len = Inr (buf + 14, ?m)"
    using assms memcpy_eq [of "buf + 6" src 6 m] memcpy_eq [of buf dst 6 "copied m (buf + 6) src 6"]
    by (simp add: ether_make_packet_def Let_def m1_def m2_def)
  have d: "m2 (buf + of_nat i) = m (dst + of_nat i)" if i: "i < 6" for i
  proof -
    have "in_block (dst + of_nat i) dst 6" using in_block_offset [of "of_nat i" 6 dst] i by (simp add: unat_of_nat_u32)
    then have "m1 (dst + of_nat i) = m (dst + of_nat i)" using assms(4) unfolding m1_def by (intro copied_outside) blast
    then show ?thesis using copied_source [OF assms(3) i] by (simp add: m2_def)
  qed
  have far: "\<not> in_block (buf + of_nat i) buf 6" if "6 \<le> i" "i < 14" for i
    using that by (simp add: in_block_def unat_of_nat_u32)
  have s: "m2 (buf + of_nat (6 + i)) = m (src + of_nat i)" if i: "i < 6" for i
    using copied_source [OF assms(2) i, of m] copied_outside [OF far [of "6 + i"]] i
    by (simp add: m2_def m1_def add.assoc)
  have "bytes_at ?m buf 14 = map (\<lambda>i. m2 (buf + of_nat i)) [0..<6] @ map (\<lambda>i. m2 (buf + of_nat (6 + i))) [0..<6] @ [8, 0]"
    by (simp add: bytes_at_def upt_rec store16_def)
  also have "\<dots> = bytes_at m dst 6 @ bytes_at m src 6 @ [8, 0]"
    using d s by (simp add: bytes_at_def)
  finally have b: "bytes_at ?m buf 14 = bytes_at m dst 6 @ bytes_at m src 6 @ [8, 0]" .
  have "changes_only ?m m buf 14"
  proof (unfold changes_only_def, intro allI impI)
    fix a assume a: "\<not> in_block a buf 14"
    then have "\<not> in_block a buf 6" "\<not> in_block a (buf + 6) 6"
      using in_block_split [of 6 6 a buf] in_block_mono [of a buf 12 14] in_block_mono [of a buf 6 14] by auto
    moreover have "a \<noteq> buf + 12" "a \<noteq> buf + 12 + 1"
      using a in_block_offset [of 12 14 buf] in_block_offset [of 13 14 buf] by (auto simp: add.assoc)
    ultimately show "?m a = m a" by (simp add: store16_def m2_def m1_def copied_outside)
  qed
  then show ?thesis using that [OF e b] by simp
qed

section \<open>The property\<close>


lemma not_both:
  assumes "unat p + n \<le> unat q" "unat q + k \<le> 4294967296"
  shows "\<not> (in_block a p n \<and> in_block a q k)"
  using assms unat_lt_2p32 [of a]
  by (auto simp: in_block_def unat_diff_u32 simp del: unat_lt_2p32 split: if_splits)


end
