(* ===== verification/Session.thy ===== *)
theory Session
  imports Shell Keyboard Kernel
begin

text \<open>
  The interactive loop of the shell (\<open>main\<close> of \<open>kern/main.c\<close>) and the commands run at start
  (\<open>process_autorun\<close>). A round prints the prompt that the configuration holds, reads a line into
  a buffer and runs it; the loop never ends, so it is given as its rounds.
\<close>

section \<open>The code\<close>

definition print_prompt :: "('i, 'x) sh \<Rightarrow> ('i, 'x) sh outcome option" where
  "print_prompt st = run_bind (config_getstrns (conf st) (lit ''sys'') (lit ''prompt'')) (\<lambda>prompt. case prompt of
     None \<Rightarrow> Option.bind (puts (mem_of st) 0 (sio st)) (\<lambda>io. Some (Inr (st\<lparr>sio := io\<rparr>)))
   | Some s \<Rightarrow> Some (Inr (st\<lparr>sio := fold putc s (sio st)\<rparr>)))"

definition main_round ::
  "'i get_char \<Rightarrow> (u32 \<Rightarrow> ('i, 'x) sh \<Rightarrow> ('i, 'x) sh outcome option) \<Rightarrow> u32 \<Rightarrow> ('i, 'x) sh \<Rightarrow> ('i, 'x) sh outcome option" where
  "main_round dev_getc run cmdbuf st =
     run_bind (print_prompt st) (\<lambda>st.
     run_bind (gets dev_getc cmdbuf (mem_of st) (sio st)) (\<lambda>(m, io).
       let st = with_ram m (st\<lparr>sio := io\<rparr>) in
       if m cmdbuf \<noteq> 0 then run cmdbuf st else Some (Inr st)))"

fun main_rounds ::
  "nat \<Rightarrow> 'i get_char \<Rightarrow> (u32 \<Rightarrow> ('i, 'x) sh \<Rightarrow> ('i, 'x) sh outcome option) \<Rightarrow> u32 \<Rightarrow> ('i, 'x) sh \<Rightarrow> ('i, 'x) sh outcome option" where
  "main_rounds 0 dev_getc run cmdbuf st = Some (Inr st)"
| "main_rounds (Suc n) dev_getc run cmdbuf st =
     run_bind (main_round dev_getc run cmdbuf st) (main_rounds n dev_getc run cmdbuf)"

partial_function (option) autorun_loop ::
  "u32 \<Rightarrow> (u32 \<Rightarrow> ('i, 'x) sh \<Rightarrow> ('i, 'x) sh outcome option) \<Rightarrow> u32 \<Rightarrow> u32 \<Rightarrow> ('i, 'x) sh \<Rightarrow> ('i, 'x) sh outcome option" where
  "autorun_loop newline run tok saveptr st =
     (if tok = 0 then Some (Inr st)
      else run_bind (strdup tok st) (\<lambda>(cmd, st).
        run_bind (Some (sh_debug ''process_autorun'' (lit ''cmd: \"%s\"'') [tok] st)) (\<lambda>st.
        run_bind (run cmd st) (\<lambda>st.
        run_bind (Some (sh_kfree cmd st)) (\<lambda>st.
        Option.bind (strtok_r (mem_of st) 0 newline saveptr) (\<lambda>(m, tok, saveptr).
          autorun_loop newline run tok saveptr (with_ram m st)))))))"

definition process_autorun ::
  "('f, ('i, 'x) sh) services \<Rightarrow> u32 \<Rightarrow> (u32 \<Rightarrow> ('i, 'x) sh \<Rightarrow> ('i, 'x) sh outcome option) \<Rightarrow> ('i, 'x) sh \<Rightarrow> ('i, 'x) sh outcome option" where
  "process_autorun sv newline run st =
     run_bind (sv_open sv (lit ''autorun.esh'') st) (\<lambda>(file, st). case file of
       None \<Rightarrow> Some (sh_debug ''process_autorun'' (lit ''autorun not present'') [] st)
     | Some file \<Rightarrow> run_bind (sv_read_full sv file st) (\<lambda>(data, size, st).
         if data = 0 \<or> size = 0
         then run_bind (print_mem (lit ''Unable to read autorun'' @ [10]) [] st) (sv_close sv file)
         else run_bind (krealloc (hp st) data (size + 1)) (\<lambda>(data, h).
           let m = (ram h)(data + size := 0); st = st\<lparr>hp := h\<lparr>ram := m\<rparr>\<rparr> in
           Option.bind (strtok_r m data newline 0) (\<lambda>(m, tok, saveptr).
           run_bind (autorun_loop newline run tok saveptr (with_ram m st)) (\<lambda>st.
             Some (sh_kfree data st))))))"

definition main ::
  "nat \<Rightarrow> ('f, ('i, 'x) sh) services \<Rightarrow> u32 \<Rightarrow> 'i get_char \<Rightarrow> (u32 \<Rightarrow> ('i, 'x) sh \<Rightarrow> ('i, 'x) sh outcome option) \<Rightarrow> u32
    \<Rightarrow> ('i, 'x) sh \<Rightarrow> ('i, 'x) sh outcome option" where
  "main rounds sv newline dev_getc run cmdbuf st =
     run_bind (process_autorun sv newline run st) (main_rounds rounds dev_getc run cmdbuf)"

section \<open>A line from the keyboard to the screen\<close>

lemma edit_length: "length (edit line cs) \<le> length line + length cs"
proof (induction line cs rule: edit.induct)
  case (2 line c cs)
  then show ?case by (cases "c = 8") auto
qed simp

text \<open>The conditions on the heap under which a line can be run; they do not depend on the memory.\<close>

definition line_room :: "alloc_state \<Rightarrow> block list \<Rightarrow> cstring \<Rightarrow> bool" where
  "line_room h bs line \<longleftrightarrow> token_of [32] (uncomment line) \<noteq> [] \<and> 4 * length (shell_args line) < 4294967296
     \<and> heap_request h (of_nat (4 * length (shell_args line)))
     \<and> room h bs (aligned_size (of_nat (4 * length (shell_args line))))
     \<and> fst (alloc_blocks (aligned_size (of_nat (4 * length (shell_args line)))) bs) \<le> mem_start h + mem_size h"

lemma line_room_ram [simp]: "line_room (h\<lparr>ram := m\<rparr>) bs line = line_room h bs line"
  by (simp add: line_room_def heap_request_def below_top_def room_def)

text \<open>A buffer for lines of up to \<open>n\<close> characters in a live block, and the literal \<open>" "\<close> outside it.\<close>

definition buffer_ready :: "alloc_state \<Rightarrow> block list \<Rightarrow> block \<Rightarrow> u32 \<Rightarrow> u32 \<Rightarrow> nat \<Rightarrow> bool" where
  "buffer_ready h bs b space cmdbuf n \<longleftrightarrow> heap h bs \<and> b \<in> set bs \<and> \<not> bfree b
     \<and> (\<forall>a. in_block a cmdbuf (Suc n) \<longrightarrow> payload b a)
     \<and> cstr (ram h) space [32] \<and> (\<forall>a. in_block a space 2 \<longrightarrow> \<not> payload b a)"

lemma line_ready_typed:
  assumes "buffer_ready (hp st) bs b space cmdbuf n" "line_room (hp st) bs line" "length line \<le> n"
    and "cstr m cmdbuf line" "\<And>a. \<not> in_block a cmdbuf (Suc n) \<Longrightarrow> m a = mem_of st a"
  shows "line_ready (with_ram m st) bs b space cmdbuf line"
proof -
  note B = assms(1) [unfolded buffer_ready_def] and R = assms(2) [unfolded line_room_def]
  have "heap ((hp st)\<lparr>ram := m\<rparr>) bs"
    using heap_payload_write [of "hp st" bs m] B assms(5) by (auto simp: mem_of_def)
  moreover have "cstr m space [32]"
  proof -
    have "cstr m space [32] = cstr (ram (hp st)) space [32]"
    proof (rule cstr_block_cong)
      fix a assume "in_block a space (Suc (length [32 :: u8]))"
      then have "\<not> in_block a cmdbuf (Suc n)" using B by (auto simp: numeral_2_eq_2)
      then show "m a = ram (hp st) a" using assms(5) by (simp add: mem_of_def)
    qed
    then show ?thesis using B by blast
  qed
  moreover have "payload b a" if "in_block a cmdbuf (Suc (length line))" for a
    using B in_block_mono [OF that, of "Suc n"] assms(3) by simp
  moreover have "heap_request ((hp st)\<lparr>ram := m\<rparr>) k = heap_request (hp st) k"
    "room ((hp st)\<lparr>ram := m\<rparr>) bs k = room (hp st) bs k" for k
    by (simp_all add: heap_request_def below_top_def room_def)
  ultimately show ?thesis using assms(4) B R unfolding line_ready_def by (simp del: of_nat_mult)
qed

lemma fold_putc_append: "fold putc (s @ t) io = fold putc t (fold putc s io)"
  by simp

section \<open>The properties\<close>

text \<open>
  C24: One round of the shell, from the keys to the screen: with a prompt configured, when a line
  that begins with \<open>echo\<close> is typed, the round ends, and the text it has sent to the console is the
  prompt, the echo of what was typed, and the other words of the edited line with a newline; the
  keys after the newline are left for the next round, in a well-formed heap.
\<close>

theorem typed_echo:
  assumes "kb_device pending hlt io" "58 \<notin> set (pending (kb_hw (stdin_dev (sio st))))"
    and "typed_text (shift (stdin_dev (sio st)) \<noteq> 0) (pending (kb_hw (stdin_dev (sio st)))) = cs @ 10 # later" "10 \<notin> set cs"
    and "config_getstrns (conf st) (lit ''sys'') (lit ''prompt'') = Some (Inr (Some prompt))"
    and "buffer_ready (hp st) bs b space cmdbuf (length cs)" "mem_of st (cmdbuf - 1) \<noteq> 10"
    and "hd (shell_args (edit [] cs)) = lit ''echo''" "line_room (hp st) bs (edit [] cs)"
    and "should_echo (sio st) \<noteq> 0" "stdout_text (sio st) = Some text0"
  shows "\<exists>st' bs'. main_round (chardev_getc hlt io) (process_command_string (commands others) external space) cmdbuf st = Some (Inr st')
    \<and> stdout_text (sio st') = Some (text0 @ prompt @ echoed [] cs @ [10] @ echo_text (shell_args (edit [] cs)))
    \<and> typed_text (shift (stdin_dev (sio st')) \<noteq> 0) (pending (kb_hw (stdin_dev (sio st')))) = later
    \<and> heap (hp st') bs'"
proof -
  let ?st = "st\<lparr>sio := fold putc prompt (sio st)\<rparr>" and ?line = "edit [] cs"
  have p: "print_prompt st = Some (Inr ?st)" by (simp add: print_prompt_def assms(5))
  have len: "unat cmdbuf + Suc (length cs) < 4294967296"
    using payload_block [of "hp st" bs b cmdbuf "Suc (length cs)"] assms(6) by (simp add: buffer_ready_def)
  obtain m io' where g: "gets (chardev_getc hlt io) cmdbuf (mem_of st) (sio ?st) = Some (Inr (m, io'))"
      "cstr m cmdbuf ?line" "\<forall>a. \<not> in_block a cmdbuf (Suc (length cs)) \<longrightarrow> m a = mem_of st a"
      "typed_text (shift (stdin_dev io') \<noteq> 0) (pending (kb_hw (stdin_dev io'))) = later"
      "stdout_text io' = Some (text0 @ prompt @ echoed [] cs @ [10])"
    using gets_line_typed [of pending hlt io "sio ?st" cs later "mem_of st" cmdbuf] assms len by auto
  have "length ?line \<le> length cs" using edit_length [of "[]" cs] by simp
  then have ready: "line_ready (with_ram m (?st\<lparr>sio := io'\<rparr>)) bs b space cmdbuf ?line"
    using g assms(6,9) by (intro line_ready_typed) (auto simp: mem_of_def)
  have ne: "m cmdbuf \<noteq> 0"
    using g(2) assms(9) by (cases ?line) (auto simp: line_room_def token_of_def uncomment_def)
  obtain st' bs' where e: "process_command_string (commands others) external space cmdbuf (with_ram m (?st\<lparr>sio := io'\<rparr>)) = Some (Inr st')"
    "sio st' = fold putc (echo_text (shell_args ?line)) io'" "heap (hp st') bs'"
    using echo_line_ends [OF ready assms(8), of others external] assms(9)
    by (simp add: line_room_def del: of_nat_mult) blast
  then show ?thesis using g p ne by (auto simp: main_round_def)
qed

text \<open>The configuration of \<open>kernel_late_init\<close>, and the keys of \<open>echo hi\<close> with a correction.\<close>

definition started :: config where
  "started = (case late_config 0x100 0x104 config0 of Some (Inr c) \<Rightarrow> c | _ \<Rightarrow> config0)"

declare htbl_probe.simps [code] htbl_put.simps [code]

lemma started_prompt: "config_getstrns started (lit ''sys'') (lit ''prompt'') = Some (Inr (Some [35, 32]))"
  by code_simp

definition session_keys :: "u8 list" where
  "session_keys = [18, 46, 35, 24, 57, 35, 24, 14, 23, 28, 28]"

definition session0 :: "(u8 list kb, nat) sh" where
  "session0 = \<lparr>hp = shell_heap [], tok_save = 0, sio = key_list_io session_keys,
     root_env = env_init, conf = started, ticks = 0, cwd = [], world = 0\<rparr>"

lemma typed_echo_witness:
  "\<exists>st'. main_round (chardev_getc key_list_hlt key_list_ports) (process_command_string (commands (\<lambda>_ _ _ _. None)) (\<lambda>_ _ _ _. None) 0x10)
      0x1030 session0 = Some (Inr st')
    \<and> stdout_text (sio st') = Some (lit ''# echo ho'' @ [8] @ lit ''i'' @ [10] @ lit ''hi'' @ [10])"
proof -
  let ?cs = "lit ''echo ho'' @ [8] @ lit ''i''" and ?b = "new_block 0x1018 128"
  have t: "typed_text False session_keys = ?cs @ 10 # [10]"
    by (simp add: session_keys_def key_char_def shift_after_def scancode_pc104_lut_def lit_def)
  have e: "edit [] ?cs = lit ''echo hi''" "echoed [] ?cs = ?cs" by (simp_all add: lit_def)
  have a: "shell_args (lit ''echo hi'') = [lit ''echo'', lit ''hi'']"
    by (simp add: lit_def shell_args_def uncomment_def token_of_def after_token_def space_parts.simps)
  have k: "58 \<notin> set session_keys" by (simp add: session_keys_def)
  have c: "hd (shell_args (edit [] ?cs)) = lit ''echo''" unfolding e a by simp
  have pay: "payload ?b a \<longleftrightarrow> in_block a 0x1030 128" for a by (simp add: payload_def new_block_def)
  have hp: "hp session0 = shell_heap []" "conf session0 = started" "mem_of session0 = ram (shell_heap [])"
    by (simp_all add: session0_def mem_of_def)
  have sp: "\<not> payload ?b a" if "in_block a 0x10 2" for a
  proof -
    have "a = 0x10 \<or> a = 0x11" using that in_block_Suc [of 1 a "0x10"] by (simp add: numeral_2_eq_2)
    then show ?thesis by (auto simp: pay in_block_def unat_diff_u32)
  qed
  have buf: "buffer_ready (hp session0) [root0, ?b] ?b 0x10 0x1030 (length ?cs)"
  proof -
    have "payload ?b a" if "in_block a 0x1030 (Suc (length ?cs))" for a
      using in_block_mono [OF that, of 128] by (simp add: pay lit_def)
    moreover have "\<not> bfree ?b" "?b \<in> set [root0, ?b]" by (simp_all add: new_block_def)
    ultimately show ?thesis
      using shell_heap_ok [of "[]"] shell_heap_space [of "[]"] sp unfolding buffer_ready_def hp by simp
  qed
  have before: "mem_of session0 (0x1030 - 1) \<noteq> 10"
    unfolding hp by (simp add: shell_heap_def heap1_def Let_def write_bytes_def in_block_def append_block_def new_block_def store32_def)
  have room: "line_room (hp session0) [root0, ?b] (edit [] ?cs)"
    unfolding line_room_def e a hp
    by (simp add: token_of_def uncomment_def lit_def heap_request_def below_top_def room_def alloc_blocks_def first_fit_def
        fits_def new_block_def end_of_def aligned_size_def root0_def shell_heap_def heap1_def Let_def init_alloc_def)
  have io: "sio session0 = key_list_io session_keys" by (simp add: session0_def)
  have "\<exists>st' bs'. main_round (chardev_getc key_list_hlt key_list_ports)
        (process_command_string (commands (\<lambda>_ _ _ _. None)) (\<lambda>_ _ _ _. None) 0x10) 0x1030 session0 = Some (Inr st')
    \<and> stdout_text (sio st') = Some ([] @ [35, 32] @ echoed [] ?cs @ [10] @ echo_text (shell_args (edit [] ?cs)))
    \<and> typed_text (shift (stdin_dev (sio st')) \<noteq> 0) ((\<lambda>h. h) (kb_hw (stdin_dev (sio st')))) = [10]
    \<and> heap (hp st') bs'"
    by (rule typed_echo [OF key_list_device _ _ _ _ buf before c room])
      (simp_all add: io key_list_io_def t hp started_prompt k, simp_all add: lit_def)
  then show ?thesis unfolding e a by (auto simp: echo_text_def lit_def)
qed

end
