(* ===== verification/Ringbuffer.thy ===== *)
theory Ringbuffer
  imports Micro_Prelude
begin

text \<open>
  The byte ring buffer (\<open>kern/buffer.c\<close>, \<open>kern/buffer.h\<close>) behind the keyboard, and the
  contract of a bounded queue that overwrites its oldest element when it is full. The struct is
  a record; the array the \<open>buffer\<close> field points to is a list, \<open>None\<close> for a null pointer. The
  struct pointer itself is never null in the callers and is not modelled.
\<close>

section \<open>The code\<close>

record ringbuffer =
  buffer :: "u8 list option"
  head :: u32
  tail :: u32
  rsize :: u32
  full :: bool

definition ringbuffer_init :: "u8 list option \<Rightarrow> u32 \<Rightarrow> ringbuffer outcome" where
  "ringbuffer_init buf max_size =
     assert_that (buf \<noteq> None) ''Trying to initialise null buffer''
       (Inr \<lparr>buffer = buf, head = 0, tail = 0, rsize = max_size, full = False\<rparr>)"

definition ringbuffer_reset :: "ringbuffer \<Rightarrow> ringbuffer" where
  "ringbuffer_reset rbuf = rbuf\<lparr>head := 0, tail := 0, full := False\<rparr>"

definition ringbuffer_empty :: "ringbuffer \<Rightarrow> bool" where
  "ringbuffer_empty rbuf \<longleftrightarrow> head rbuf = tail rbuf \<and> \<not> full rbuf"

definition increment_ptr :: "ringbuffer \<Rightarrow> ringbuffer" where
  "increment_ptr rbuf =
     (let rbuf = (if full rbuf then rbuf\<lparr>tail := (tail rbuf + 1) mod rsize rbuf\<rparr> else rbuf);
          rbuf = rbuf\<lparr>head := (head rbuf + 1) mod rsize rbuf\<rparr>
      in rbuf\<lparr>full := (head rbuf = tail rbuf)\<rparr>)"

definition decrement_ptr :: "ringbuffer \<Rightarrow> ringbuffer" where
  "decrement_ptr rbuf = rbuf\<lparr>full := False, tail := (tail rbuf + 1) mod rsize rbuf\<rparr>"

text \<open>An index outside the array is a wild access.\<close>

definition ringbuffer_put :: "ringbuffer \<Rightarrow> u8 \<Rightarrow> ringbuffer outcome" where
  "ringbuffer_put rbuf data = (case buffer rbuf of
     None \<Rightarrow> Inl (AssertFailed ''Trying to put to invalid buffer'')
   | Some b \<Rightarrow> if length b \<le> unat (head rbuf) then Inl WildAccess
       else Inr (increment_ptr (rbuf\<lparr>buffer := Some (b[unat (head rbuf) := data])\<rparr>)))"

definition ringbuffer_get :: "ringbuffer \<Rightarrow> (u8 \<times> ringbuffer) outcome" where
  "ringbuffer_get rbuf = (case buffer rbuf of
     None \<Rightarrow> Inl (AssertFailed ''Trying to get from invalid buffer'')
   | Some b \<Rightarrow> assert_that (\<not> ringbuffer_empty rbuf) ''Cannot get from empty buffer''
       (if length b \<le> unat (tail rbuf) then Inl WildAccess
        else Inr (b ! unat (tail rbuf), decrement_ptr rbuf)))"

text \<open>The loops over an object of \<open>size\<close> bytes.\<close>

primrec ringbuffer_get_obj :: "nat \<Rightarrow> ringbuffer \<Rightarrow> (u8 list \<times> ringbuffer) outcome" where
  "ringbuffer_get_obj 0 rbuf = Inr ([], rbuf)"
| "ringbuffer_get_obj (Suc sz) rbuf =
     bind_outcome (ringbuffer_get rbuf) (\<lambda>(d, rbuf).
       bind_outcome (ringbuffer_get_obj sz rbuf) (\<lambda>(ds, rbuf). Inr (d # ds, rbuf)))"

primrec ringbuffer_put_obj :: "ringbuffer \<Rightarrow> u8 list \<Rightarrow> ringbuffer outcome" where
  "ringbuffer_put_obj rbuf [] = Inr rbuf"
| "ringbuffer_put_obj rbuf (b # bytes) =
     bind_outcome (ringbuffer_put rbuf b) (\<lambda>rbuf. ringbuffer_put_obj rbuf bytes)"

section \<open>Bounded queues\<close>

text \<open>
  The contract: \<open>holds s q\<close> says that the queue \<open>s\<close> holds the elements \<open>q\<close>, oldest first. A
  put always succeeds and drops the oldest element of a full queue; a get fails on the empty
  queue only.
\<close>

definition push :: "nat \<Rightarrow> 'a list \<Rightarrow> 'a \<Rightarrow> 'a list" where
  "push cap q x = (if length q < cap then q @ [x] else tl q @ [x])"

locale bounded_queue =
  fixes put :: "'s \<Rightarrow> 'a \<Rightarrow> 's outcome"
    and get :: "'s \<Rightarrow> ('a \<times> 's) outcome"
    and cap :: "'s \<Rightarrow> nat"
    and holds :: "'s \<Rightarrow> 'a list \<Rightarrow> bool"
  assumes put_ok: "holds s q \<Longrightarrow> \<exists>s'. put s x = Inr s' \<and> holds s' (push (cap s) q x) \<and> cap s' = cap s"
    and get_ok: "holds s (x # q) \<Longrightarrow> \<exists>s'. get s = Inr (x, s') \<and> holds s' q \<and> cap s' = cap s"
    and get_empty: "holds s [] \<Longrightarrow> \<exists>e. get s = Inl e"
    and holds_cap: "holds s q \<Longrightarrow> length q \<le> cap s \<and> 0 < cap s"
begin

primrec put_all :: "'s \<Rightarrow> 'a list \<Rightarrow> 's outcome" where
  "put_all s [] = Inr s"
| "put_all s (x # xs) = bind_outcome (put s x) (\<lambda>s. put_all s xs)"

primrec get_n :: "nat \<Rightarrow> 's \<Rightarrow> ('a list \<times> 's) outcome" where
  "get_n 0 s = Inr ([], s)"
| "get_n (Suc n) s = bind_outcome (get s) (\<lambda>(x, s). bind_outcome (get_n n s) (\<lambda>(xs, s). Inr (x # xs, s)))"

text \<open>After any sequence of puts the queue holds the last elements, up to its capacity.\<close>

lemma put_all_ok:
  "holds s q \<Longrightarrow> \<exists>s'. put_all s xs = Inr s' \<and> cap s' = cap s
     \<and> holds s' (drop (length q + length xs - cap s) (q @ xs))"
proof (induction xs arbitrary: s q)
  case Nil
  then show ?case using holds_cap [OF Nil] by simp
next
  case (Cons x xs)
  obtain s1 where s1: "put s x = Inr s1" "holds s1 (push (cap s) q x)" "cap s1 = cap s"
    using put_ok [OF Cons.prems] by blast
  have "drop (length (push (cap s) q x) + length xs - cap s) (push (cap s) q x @ xs)
      = drop (length q + length (x # xs) - cap s) (q @ x # xs)"
    using holds_cap [OF Cons.prems] by (cases q) (auto simp: push_def Suc_diff_le simp del: drop_append)
  then show ?case using s1 Cons.IH [OF s1(2)] by auto
qed

lemma get_n_ok:
  "holds s (xs @ q) \<Longrightarrow> \<exists>s'. get_n (length xs) s = Inr (xs, s') \<and> cap s' = cap s \<and> holds s' q"
proof (induction xs arbitrary: s)
  case (Cons x xs)
  then obtain s1 where s1: "get s = Inr (x, s1)" "holds s1 (xs @ q)" "cap s1 = cap s"
    using get_ok by (metis append_Cons)
  then show ?case using Cons.IH [OF s1(2)] by auto
qed simp

text \<open>First in, first out: what fits can be read back in order.\<close>

lemma put_get:
  assumes "holds s []" "length xs \<le> cap s"
  shows "\<exists>s' s''. put_all s xs = Inr s' \<and> get_n (length xs) s' = Inr (xs, s'') \<and> holds s'' []"
proof -
  obtain s' where "put_all s xs = Inr s'" "holds s' (xs @ [])"
    using put_all_ok [OF assms(1), of xs] assms(2) by auto
  then show ?thesis using get_n_ok by blast
qed

end

section \<open>The ring buffer is a bounded queue\<close>

definition ring :: "ringbuffer \<Rightarrow> u8 list \<Rightarrow> bool" where
  "ring r q \<longleftrightarrow> (\<exists>b. buffer r = Some b \<and> length b = unat (rsize r) \<and> 0 < rsize r
     \<and> tail r < rsize r \<and> length q \<le> length b \<and> (full r \<longleftrightarrow> length q = length b)
     \<and> unat (head r) = (unat (tail r) + length q) mod length b
     \<and> (\<forall>i < length q. q ! i = b ! ((unat (tail r) + i) mod length b)))"

lemma unat_step:
  assumes "i < n"
  shows "unat ((i + 1 :: u32) mod n) = (unat i + 1) mod unat n"
  using unat_inc_u32 [OF assms] by (simp add: unat_mod)

lemma mod_add_inj:
  assumes "(t + i) mod n = (t + j) mod n" "i < n" "j < (n :: nat)"
  shows "i = j"
proof (rule ccontr)
  have less: False if "(t + k) mod n = (t + l) mod n" "k < l" "l < n" for k l
  proof -
    have "n dvd (t + l) - (t + k)" using that mod_eq_dvd_iff_nat [of "t + k" "t + l" n] by simp
    then show False using that by (auto dest!: dvd_imp_le)
  qed
  assume "i \<noteq> j"
  then consider "i < j" | "j < i" by linarith
  then show False
  proof cases
    case 1
    then show False using less [OF assms(1) _ assms(3)] by blast
  next
    case 2
    then show False using less [OF assms(1) [symmetric] _ assms(2)] by blast
  qed
qed

lemma ringD:
  assumes "ring r q"
  obtains b where "buffer r = Some b" "length b = unat (rsize r)" "0 < length b" "unat (tail r) < length b"
    "unat (head r) < length b" "tail r < rsize r" "head r < rsize r" "length q \<le> length b"
    "full r \<longleftrightarrow> length q = length b" "unat (head r) = (unat (tail r) + length q) mod length b"
    "\<forall>i < length q. q ! i = b ! ((unat (tail r) + i) mod length b)"
proof -
  from assms obtain b where b: "buffer r = Some b" "length b = unat (rsize r)" "0 < rsize r"
     "tail r < rsize r" "length q \<le> length b" "full r \<longleftrightarrow> length q = length b"
     "unat (head r) = (unat (tail r) + length q) mod length b"
     "\<forall>i < length q. q ! i = b ! ((unat (tail r) + i) mod length b)"
    unfolding ring_def by blast
  have "0 < length b" using b(2,3) by (simp add: unat_gt_0 word_gt_0)
  moreover have "unat (head r) < length b" unfolding b(7) using \<open>0 < length b\<close> by simp
  ultimately show ?thesis using that b by (simp add: word_less_nat_alt)
qed

lemma ring_empty_iff: "ring r q \<Longrightarrow> ringbuffer_empty r \<longleftrightarrow> q = []"
proof (elim ringD)
  fix b
  assume b: "0 < length b" "unat (tail r) < length b" "length q \<le> length b"
    "full r \<longleftrightarrow> length q = length b" "unat (head r) = (unat (tail r) + length q) mod length b"
  have "q = []" if "head r = tail r" "length q < length b"
    using mod_add_inj [of "unat (tail r)" 0 "length b" "length q"] that b by simp
  moreover have "head r = tail r" if "q = []"
    using b that by (simp add: word_eq_unat_u32)
  ultimately show "ringbuffer_empty r \<longleftrightarrow> q = []"
    using b by (auto simp: ringbuffer_empty_def)
qed

lemma ring_get: "ring r (x # q) \<Longrightarrow> \<exists>r'. ringbuffer_get r = Inr (x, r') \<and> ring r' q \<and> rsize r' = rsize r"
proof -
  assume R: "ring r (x # q)"
  from R obtain b where b: "buffer r = Some b" "length b = unat (rsize r)" "0 < length b"
    "unat (tail r) < length b" "tail r < rsize r" "length (x # q) \<le> length b"
    "unat (head r) = (unat (tail r) + length (x # q)) mod length b"
    "\<forall>i < length (x # q). (x # q) ! i = b ! ((unat (tail r) + i) mod length b)"
    by (elim ringD) blast
  have t: "unat ((tail r + 1) mod rsize r) = (unat (tail r) + 1) mod length b"
    using unat_step [OF b(5)] b(2) by simp
  have lt: "(tail r + 1) mod rsize r < rsize r"
    using b(2,3) by (simp add: word_less_nat_alt unat_mod)
  have x: "x = b ! unat (tail r)" using b(4,8) by fastforce
  have "q ! i = b ! (((unat (tail r) + 1) mod length b + i) mod length b)" if "i < length q" for i
    using b(8) [rule_format, of "Suc i"] that by (simp add: mod_simps add.commute add.left_commute)
  moreover have "unat (head r) = ((unat (tail r) + 1) mod length b + length q) mod length b"
    using b(7) by (simp add: mod_add_left_eq)
  ultimately have "ring (decrement_ptr r) q"
    using b t lt by (auto simp: ring_def decrement_ptr_def word_less_nat_alt)
  then show ?thesis
    using ring_empty_iff [OF R] b(1,4) x by (simp add: ringbuffer_get_def decrement_ptr_def)
qed

lemma ring_put:
  "ring r q \<Longrightarrow> \<exists>r'. ringbuffer_put r x = Inr r' \<and> ring r' (push (unat (rsize r)) q x) \<and> rsize r' = rsize r"
proof -
  assume R: "ring r q"
  from R obtain b where b: "buffer r = Some b" "length b = unat (rsize r)" "0 < length b"
    "unat (tail r) < length b" "unat (head r) < length b" "tail r < rsize r" "head r < rsize r"
    "length q \<le> length b" "full r \<longleftrightarrow> length q = length b"
    "unat (head r) = (unat (tail r) + length q) mod length b"
    "\<forall>i < length q. q ! i = b ! ((unat (tail r) + i) mod length b)"
    by (elim ringD) blast
  let ?n = "length b" and ?t = "unat (tail r)" and ?h = "unat (head r)"
  have h': "unat ((head r + 1) mod rsize r) = (?h + 1) mod ?n"
    and t': "unat ((tail r + 1) mod rsize r) = (?t + 1) mod ?n"
    using unat_step [OF b(7)] unat_step [OF b(6)] b(2) by simp_all
  have pos: "0 < rsize r" "(tail r + 1) mod rsize r < rsize r"
    using b(2,3) by (simp_all add: word_less_nat_alt unat_mod)
  have put: "ringbuffer_put r x = Inr (increment_ptr (r\<lparr>buffer := Some (b[?h := x])\<rparr>))"
    using b(1,5) by (simp add: ringbuffer_put_def)
  show ?thesis
  proof (cases "length q < ?n")
    case True
    have other: "(?t + i) mod ?n \<noteq> ?h" if "i < length q" for i
      using mod_add_inj [of ?t i ?n "length q"] that True b(10) by auto
    have hd': "(?h + 1) mod ?n = (?t + Suc (length q)) mod ?n" unfolding b(10) by (simp add: mod_Suc_eq)
    have "(?t + Suc (length q)) mod ?n = ?t \<longleftrightarrow> Suc (length q) = ?n"
    proof
      assume e: "(?t + Suc (length q)) mod ?n = ?t"
      show "Suc (length q) = ?n"
        using mod_add_inj [of ?t "Suc (length q)" ?n 0] e b(3,4) True by (cases "Suc (length q) = ?n") auto
    qed (use b(4) in simp)
    then have full': "(head r + 1) mod rsize r = tail r \<longleftrightarrow> Suc (length q) = ?n"
      unfolding word_eq_unat_u32 h' hd' .
    have "(q @ [x]) ! i = (b[?h := x]) ! ((?t + i) mod ?n)" if "i < Suc (length q)" for i
    proof (cases "i = length q")
      case i: True
      then have "(?t + i) mod ?n = ?h" by (simp add: b(10))
      then show ?thesis using i b(5) by simp
    next
      case False
      with that have i: "i < length q" by simp
      then show ?thesis using b(11) other [OF i] by (simp add: nth_append)
    qed
    then have "ring (increment_ptr (r\<lparr>buffer := Some (b[?h := x])\<rparr>)) (q @ [x])"
      using b True pos h' hd' full' by (auto simp: ring_def increment_ptr_def Let_def)
    then show ?thesis using put b(2) True by (simp add: push_def increment_ptr_def Let_def)
  next
    case False
    then have len: "length q = ?n" and f: "full r" using b by auto
    have ht: "?h = ?t" using b(4,10) by (simp add: len)
    obtain y q' where q: "q = y # q'" using len b(3) by (cases q) auto
    have "(q' @ [x]) ! i = (b[?h := x]) ! (((?t + 1) mod ?n + i) mod ?n)" if i: "i < Suc (length q')" for i
    proof (cases "i = length q'")
      case True
      then have n: "?t + 1 + i = ?t + ?n" using len q by simp
      have "((?t + 1) mod ?n + i) mod ?n = (?t + ?n) mod ?n" unfolding mod_add_left_eq n ..
      then show ?thesis using True b(4) ht by simp
    next
      case False
      with i have i: "Suc i < length q" using q by simp
      have e: "((?t + 1) mod ?n + i) mod ?n = (?t + Suc i) mod ?n" by (simp add: mod_add_left_eq)
      have "(?t + Suc i) mod ?n \<noteq> ?h"
        using mod_add_inj [of ?t "Suc i" ?n 0] i len b(3,4) ht by auto
      then show ?thesis using b(11) [rule_format, OF i] i q unfolding e by (simp add: nth_append)
    qed
    moreover have "head r = tail r" using ht by (simp add: word_eq_unat_u32)
    ultimately have "ring (increment_ptr (r\<lparr>buffer := Some (b[?h := x])\<rparr>)) (q' @ [x])"
      using b pos h' t' len q f by (auto simp: ring_def increment_ptr_def Let_def ht mod_add_left_eq)
    then show ?thesis using put b(2) False len q f by (simp add: push_def increment_ptr_def Let_def)
  qed
qed

lemma ring_cap: "ring r q \<Longrightarrow> length q \<le> unat (rsize r) \<and> 0 < unat (rsize r)"
  by (elim ringD) simp

interpretation rb: bounded_queue ringbuffer_put ringbuffer_get "\<lambda>r. unat (rsize r)" ring
proof (unfold_locales, goal_cases)
  case (1 s q x)
  then show ?case using ring_put by metis
next
  case (2 s x q)
  then show ?case using ring_get by metis
next
  case (3 s)
  then obtain b where "buffer s = Some b" by (elim ringD)
  moreover have "ringbuffer_empty s" using ring_empty_iff [OF 3] by simp
  ultimately show ?case by (simp add: ringbuffer_get_def)
qed (rule ring_cap)

lemma put_obj_put_all: "ringbuffer_put_obj r xs = rb.put_all r xs"
  by (induction xs arbitrary: r) simp_all

lemma get_obj_get_n: "ringbuffer_get_obj n r = rb.get_n n r"
  by (induction n arbitrary: r) simp_all

lemma ring_init:
  "length b = unat n \<Longrightarrow> 0 < n \<Longrightarrow> \<exists>r. ringbuffer_init (Some b) n = Inr r \<and> ring r [] \<and> rsize r = n"
  by (cases "b = []") (auto simp: ringbuffer_init_def ring_def word_gt_0 unat_eq_zero)

section \<open>The properties\<close>

text \<open>
  C11: A ring buffer of \<open>n\<close> bytes is a first-in first-out queue that keeps the last \<open>n\<close> bytes:
  putting any object succeeds, afterwards the buffer holds the last \<open>n\<close> bytes put, oldest first,
  getting that many returns exactly them, and one more get fails its \<open>ASSERT\<close>.
\<close>

theorem ringbuffer_fifo:
  assumes "length b = unat n" "0 < n"
  shows "\<exists>r r' r''. ringbuffer_init (Some b) n = Inr r \<and> ringbuffer_put_obj r xs = Inr r'
    \<and> ringbuffer_get_obj (min (length xs) (unat n)) r' = Inr (drop (length xs - unat n) xs, r'')
    \<and> ringbuffer_get r'' = Inl (AssertFailed ''Cannot get from empty buffer'')"
proof -
  obtain r where r: "ringbuffer_init (Some b) n = Inr r" "ring r []" "rsize r = n"
    using ring_init [OF assms] by blast
  let ?ys = "drop (length xs - unat n) xs"
  obtain r' where r': "ringbuffer_put_obj r xs = Inr r'" "ring r' (?ys @ [])"
    using rb.put_all_ok [OF r(2), of xs] r(3) by (auto simp: put_obj_put_all)
  obtain r'' where r'': "ringbuffer_get_obj (length ?ys) r' = Inr (?ys, r'')" "ring r'' []"
    using rb.get_n_ok [OF r'(2)] by (auto simp: get_obj_get_n)
  obtain b' where "buffer r'' = Some b'" using r''(2) by (elim ringD)
  then have "ringbuffer_get r'' = Inl (AssertFailed ''Cannot get from empty buffer'')"
    using ring_empty_iff [OF r''(2)] by (simp add: ringbuffer_get_def)
  moreover have "length ?ys = min (length xs) (unat n)" by simp
  ultimately show ?thesis using r r' r'' by auto
qed

lemma ringbuffer_fifo_witness:
  "\<exists>r r' r''. ringbuffer_init (Some [0, 0]) 2 = Inr r \<and> ringbuffer_put_obj r [1, 2, 3] = Inr r'
     \<and> ringbuffer_get_obj 2 r' = Inr ([2, 3], r'')
     \<and> ringbuffer_get r'' = Inl (AssertFailed ''Cannot get from empty buffer'')"
proof -
  have "length [0, 0 :: u8] = unat (2 :: u32)" "(0 :: u32) < 2"
    "min (length [1, 2, 3 :: u8]) (unat (2 :: u32)) = 2"
    "drop (length [1, 2, 3 :: u8] - unat (2 :: u32)) [1, 2, 3] = [2, 3 :: u8]" by simp_all
  then show ?thesis using ringbuffer_fifo [of "[0, 0]" 2 "[1, 2, 3]"] by metis
qed

end
