(* ===== verification/Spec2Isabelle.thy ===== *)
theory Spec2Isabelle
  imports Start Displays Volumes Commands Selftest Cpuid Serial Ne2k Pci Syscall Interrupts Gdt Net Conlib Mod Elf Session Kernel Keyboard Shell Stdio Cmem Cstring Cnum Kalloc Ringbuffer Htbl Kenv Kconfig Klist Printf Driver Bdrive Fat Fs Pio Console Vga Framebuffer Vesa Fbcon
begin

text \<open>
  A verification development for microboot, a 32-bit x86 kernel with its boot loader, drivers and an
  interactive shell. File names below are relative to \<open>src/\<close>.

  \<^bold>\<open>The program.\<close> \<open>loader/\<close> puts the kernel into memory and calls \<open>kernel_main\<close> (\<open>kern/kernel.c\<close>), which
  sets up interrupts, segments, the heap, the driver manager, modules and the configuration, lets the functions of
  the kernel's symbol table register the drivers, opens the debug port, the text console and the keyboard, and calls
  \<open>main\<close> (\<open>kern/main.c\<close>), the shell. The shell reads a line from \<open>stdin\<close>, splits it into words and runs the command
  of that name; the commands reach every other part: files on FAT16 partitions of BIOS disks, ELF programs and modules,
  consoles on the VGA text screen or on a VBE framebuffer, devices, drivers, the environment, the configuration.
  Programs call back through interrupt 128. The parts share the heap (\<open>kern/alloc.c\<close>), the library
  functions (\<open>kern/stdlib.c\<close>, \<open>kern/printf.c\<close>), hash tables and linked lists.

  \<^bold>\<open>How the code is modelled.\<close>
  \<^item> Machine integers are words of their width (\<open>u8\<close>, \<open>u16\<close>, \<open>u32\<close>, \<open>u64\<close>), C's \<open>int\<close> an \<open>int\<close> with the wrap-around
    written out (\<open>int32\<close>) where it can be reached, or a bound in the theorem where the code relies on it.
  \<^item> Memory is a function from 32-bit addresses to bytes (\<open>mem\<close>) wherever the code works on bytes: library functions,
    allocator, command lines, ELF images, symbol tables, packets, framebuffers. Structs that the code only
    reaches through typed pointers are records in a map from addresses (list nodes, devices, drivers, the private
    data of devices); strings that are only passed on are values (\<open>cstring\<close>).
  \<^item> An \<open>ASSERT\<close> that fails stops the machine: results are \<open>fault + 'a\<close> (\<open>outcome\<close>), \<open>AssertFailed\<close> with the message, or
    \<open>WildAccess\<close> for an access outside an object, where the C code has undefined behaviour.
  \<^item> A loop whose end is not evident is a \<open>partial_function (option)\<close>; \<open>None\<close> means that it does not return. No fuel is
    used: theorems say \<open>Some\<close>, so they include that the code returns, and the lemmas with \<open>None\<close> say where it does not
    (a \<open>cl_box\<close> that is too narrow, an empty packet sent, a port that never gets ready).
  \<^item> Hardware and firmware are parameters, state transformers that the definitions take as arguments: the ports (record
    \<open>ports\<close> of theory Pio), the BIOS (\<open>bios\<close> of theory Bdrive), \<open>cpuid\<close>, \<open>hlt\<close>, and whatever a function pointer calls
    (\<open>calls\<close>, \<open>services\<close>, \<open>machinery\<close>). What a theorem relies on is a named predicate with the documented behaviour
    (\<open>int13_reads\<close>, \<open>kb_device\<close>, \<open>card_hook\<close> and their like), and its witness instantiates it with a concrete device.
  \<^item> The debug log of drivers is left out where nothing else depends on it; the bounds of code that has fixed tables are the
    code's: 128 environment slots, 256 interrupts, 128 system calls, 512 numbers of a device name.

  \<^bold>\<open>The shared theories.\<close> Micro_Prelude has the machine types, outcomes and the facts on words and loops
  that all others use (collections \<open>outcome_simps\<close>, \<open>word_nat\<close>); Radix positional notation; Kv_Store the contract of a
  key-value store; Heap_Client what a client of the allocator relies on; Pio the ports.

  \<^bold>\<open>Library\<close> (\<open>kern/stdlib.c\<close>, \<open>kern/printf.c\<close>, \<open>kern/list.c\<close>, \<open>kern/buffer.c\<close>, \<open>kern/htbl.c\<close>, \<open>kern/env.c\<close>, \<open>kern/config.c\<close>).
  \<^item> Cmem: \<open>memcpy\<close> as the assembly and as the portable loop (equal on blocks that do not overlap), \<open>memset\<close>, \<open>memcmp\<close>,
    \<open>memblit\<close>. Cstring: the string functions; \<open>strtok_r\<close> splits off the first token in place. Cnum: number
    conversions; \<open>atoi\<close> reads back what \<open>itoa\<close> wrote. Printf: all conversions of the configured build; \<open>snprintf\<close>
    stays in its buffer.
  \<^item> Kalloc (\<open>kern/alloc.c\<close>): the heap as bytes and its abstraction, a list of blocks (\<open>heap st bs\<close>). First fit, disjoint
    blocks, the outcomes of \<open>kfree\<close>, \<open>krealloc\<close>, and the block that reaches past the end of the heap.
  \<^item> Klist: the doubly linked list represents a list. Ringbuffer: a bounded queue that drops its oldest byte. Htbl: the
    open-addressing table refines a finite map, growth included. Kenv, Kconfig: the environment and the configuration.

  \<^bold>\<open>Devices\<close> (\<open>kern/io/\<close>, \<open>kern/fs/\<close>, \<open>kern/net/\<close>).
  \<^item> Driver: the driver manager; deregistering a tree of devices removes exactly the devices under it. Console, Vga,
    Framebuffer, Vesa, Fbcon, Cherry_Font, Displays: a console as an abstract terminal, its two implementations, and the
    devices that the drivers register. Stdio, Keyboard, Serial: characters in and out, line editing, scan codes, polling.
  \<^item> Bdrive, Fat, Fs, Volumes: sectors through the BIOS, cluster chains and directories, whole files, and the disks and
    partitions that probing registers.
  \<^item> Pci, Ne2k, Net: the search for network cards, sending a packet through one, the headers of a packet. Conlib: boxes.

  \<^bold>\<open>System\<close> (\<open>loader/\<close>, \<open>kern/sys/\<close>, \<open>kern/exe/\<close>, \<open>kern/kernel.c\<close>, \<open>kern/main.c\<close>, \<open>kern/mod.c\<close>, \<open>kern/selftest.c\<close>).
  \<^item> Gdt, Interrupts, Syscall, Cpuid: descriptors, dispatch of interrupts, system calls, the report on the processor.
  \<^item> Elf, Mod: loading programs and modules; a module's symbols resolve after those of the kernel.
  \<^item> Loader, Start, Boot: the way from the loader over \<open>kernel_main\<close> and \<open>kernel_late_init\<close> to the call of \<open>main\<close>, with what holds then;
    the functions of the kernel's symbol table are a parameter with a contract (\<open>init_fn\<close>). Kernel: timer, memory dump, power off.
  \<^item> Shell, Commands, Selftest, Session: words of a command line at byte level, every command of the table, the self
    test, and the loop of \<open>main\<close> from the keys to the screen.

  \<^bold>\<open>Interfaces.\<close> A contract that a client relies on is a locale, interpreted on the definitions of the code that provides it:
  \<^item> \<open>kv_store\<close>: in Htbl (\<open>tbl\<close>), Kconfig (\<open>conf\<close>) and Kenv (\<open>kenv\<close>); \<open>sequence\<close>: in Klist; \<open>bounded_queue\<close>: in Ringbuffer.
  \<^item> \<open>allocator\<close>: in Kalloc (\<open>kernel\<close>); \<open>heap_holder\<close>, a state with a heap in it: in Serial, Volumes, Displays and Start.
  \<^item> \<open>text_cells\<close>, extended by \<open>text_display\<close>: what a console needs of its cells, in Vga; \<open>pixel_display\<close>: what the framebuffer
    console needs of its pixels, in Vesa, with a sublocale in Fbcon that makes any such display \<open>text_cells\<close>.
  \<^item> \<open>char_source\<close>: what \<open>gets\<close> needs of an input device, in Keyboard.

  \<^bold>\<open>The lemmas.\<close> Each theory gives first the definitions in the order of the code, then a representation invariant and
  that the operations keep it, then the behaviour of the operations on the abstract value, errors included, and
  last the properties with a number \<open>C\<close>, each followed by an instance at concrete values. Deviations of the
  code from its purpose or its comments are lemmas of their own, for example \<open>kalloc_overruns\<close>.

  \<^bold>\<open>Not modelled.\<close>
  \<^item> Assembly: \<open>loader/load.S\<close>, \<open>loader/stage2.S\<close>, the interrupt stubs (their addresses are a parameter), the BIOS thunk of
    \<open>kern/sys/bios.S\<close> (the BIOS is a parameter) with its C wrapper, single instructions (\<open>cli\<close>, \<open>lidt\<close>, \<open>lgdt\<close>, the far
    jump), the switch of the stack beyond the new stack pointer.
  \<^item> Parts of \<open>kern/printf.c\<close> that the configuration compiles out (floating point, \<open>long long\<close>), the dead
    code of \<open>fat_seek\<close>, the debug dump \<open>kdumpmm\<close>, functions with an empty body or without callers.
  \<^item> \<open>sprintf\<close> into the 64 bytes of a device name is a value: a name that is too long for them is not shown to overwrite what
    follows. Reads of uninitialised memory give the bytes that are there.
  \<^item> \<open>user/\<close> (a demonstration program) and \<open>util/\<close> (build scripts).
\<close>

end
